(* ===== verification/Prelude.thy ===== *)
theory Prelude
  imports Complex_Main "HOL-Library.Multiset" "HOL-Library.AList" "HOL-Library.Sublist" "HOL-Library.Product_Lexorder"
begin

text \<open>
  Shared vocabulary of the development.  Python exceptions are values of one datatype,
  a raising operation returns \<open>exn + 'a\<close>, an operation that may raise after it has
  changed its state returns \<open>(exn + 'a) \<times> 's\<close>.  A Python \<open>dict\<close> (and an
  \<open>OrderedDict\<close>) is an association list in insertion order: \<open>map_of\<close> reads it,
  \<open>AList.update\<close> overwrites in place or appends, \<open>AList.delete\<close> pops.  The
  named collections below gather the rewrite rules the component proofs share.
\<close>

named_theorems dict_simps \<open>reading a dictionary after an update or a pop\<close>
named_theorems inv_intros \<open>preservation of a component invariant by an operation\<close>

subsection \<open>Exceptions\<close>

datatype exn =
    ValueError string
  | TypeError string
  | RuntimeError string
  | KeyError string
  | IndexError
  | AssertionError
  | AttributeError string
  | JSONDecodeError
  | BatchExecutionError string string

type_synonym token = int
type_synonym handle = string
type_synonym ('k, 'v) dict = "('k \<times> 'v) list"

text \<open>The text of an exception, \<open>str(exc)\<close>.\<close>

fun exn_str :: "exn \<Rightarrow> string" where
  "exn_str (ValueError m) = m"
| "exn_str (TypeError m) = m"
| "exn_str (RuntimeError m) = m"
| "exn_str (KeyError k) = k"
| "exn_str IndexError = ''list index out of range''"
| "exn_str AssertionError = ''''"
| "exn_str (AttributeError m) = m"
| "exn_str JSONDecodeError = ''invalid JSON''"
| "exn_str (BatchExecutionError c m) = m"

text \<open>Sequencing of two operations that may raise and change the state: an exception of the
  first skips the second and keeps the state the first left.\<close>

definition bind_err ::
  "('s \<Rightarrow> (exn + 'a) \<times> 's) \<Rightarrow> ('a \<Rightarrow> 's \<Rightarrow> (exn + 'b) \<times> 's) \<Rightarrow> 's \<Rightarrow> (exn + 'b) \<times> 's" where
  "bind_err m k s = (case m s of (Inl e, s') \<Rightarrow> (Inl e, s') | (Inr a, s') \<Rightarrow> k a s')"

lemma bind_errE:
  assumes "bind_err m k s = (res, s')"
  obtains e where "m s = (Inl e, s')" "res = Inl e"
  | a s1 where "m s = (Inr a, s1)" "k a s1 = (res, s')"
  using assms unfolding bind_err_def by (cases "m s"; cases "fst (m s)") auto

lemma bind_err_simps [simp]:
  "m s = (Inl e, s') \<Longrightarrow> bind_err m k s = (Inl e, s')"
  "m s = (Inr a, s') \<Longrightarrow> bind_err m k s = k a s'"
  by (simp_all add: bind_err_def)

subsection \<open>Dictionaries in insertion order\<close>

abbreviation dict_ok :: "('k, 'v) dict \<Rightarrow> bool" where
  "dict_ok d \<equiv> distinct (map fst d)"

abbreviation dict_keys :: "('k, 'v) dict \<Rightarrow> 'k list" where
  "dict_keys d \<equiv> map fst d"

abbreviation dict_values :: "('k, 'v) dict \<Rightarrow> 'v list" where
  "dict_values d \<equiv> map snd d"

lemma dict_get_update [dict_simps]:
  "map_of (AList.update k v d) k' = (if k' = k then Some v else map_of d k')"
  by (simp add: update_conv')

lemma dict_get_delete [dict_simps]:
  "map_of (AList.delete k d) k' = (if k' = k then None else map_of d k')"
  by (simp add: delete_conv')

lemma dict_keys_update [dict_simps]:
  "set (dict_keys (AList.update k v d)) = insert k (set (dict_keys d))"
  by (induction d) auto

lemma dict_keys_delete [dict_simps]:
  "set (dict_keys (AList.delete k d)) = set (dict_keys d) - {k}"
  by (induction d) auto

lemma dict_ok_update [simp, intro]: "dict_ok d \<Longrightarrow> dict_ok (AList.update k v d)"
  by (rule distinct_update)

lemma dict_ok_delete [simp, intro]: "dict_ok d \<Longrightarrow> dict_ok (AList.delete k d)"
  by (rule distinct_delete)

lemma dict_get_iff: "dict_ok d \<Longrightarrow> map_of d k = Some v \<longleftrightarrow> (k, v) \<in> set d"
  by (simp add: map_of_eq_Some_iff)

lemma dict_member_iff: "map_of d k \<noteq> None \<longleftrightarrow> k \<in> set (dict_keys d)"
  by (simp add: map_of_eq_None_iff)

lemma dict_delete_absent [simp]: "k \<notin> set (dict_keys d) \<Longrightarrow> AList.delete k d = d"
  by (induction d) auto

lemma dict_values_subset_delete: "set (dict_values (AList.delete k d)) \<subseteq> set (dict_values d)"
  by (induction d) auto

subsection \<open>Python list operations\<close>

text \<open>\<open>sorted(xs, key=f, reverse=True)\<close> keeps the order of equal keys, as Python does.\<close>

definition sorted_reverse :: "('a \<Rightarrow> 'k::linorder) \<Rightarrow> 'a list \<Rightarrow> 'a list" where
  "sorted_reverse f xs = rev (sort_key f (rev xs))"

lemma mset_sorted_reverse [simp]: "mset (sorted_reverse f xs) = mset xs"
  by (simp add: sorted_reverse_def)

lemma set_sorted_reverse [simp]: "set (sorted_reverse f xs) = set xs"
  by (simp add: sorted_reverse_def)

lemma length_sorted_reverse [simp]: "length (sorted_reverse f xs) = length xs"
  by (simp add: sorted_reverse_def)

lemma distinct_sorted_reverse [simp]: "distinct (sorted_reverse f xs) = distinct xs"
  by (simp add: sorted_reverse_def)

lemma sorted_reverse_desc: "sorted (map f (rev (sorted_reverse f xs)))"
  by (simp add: sorted_reverse_def)

lemma sorted_reverse_descending:
  "sorted_wrt (\<lambda>x y. f y \<le> f x) (sorted_reverse f xs)"
  using sorted_reverse_desc [of f xs]
  by (simp add: sorted_map sorted_wrt_rev)

text \<open>Integer ceiling of a quotient, \<open>math.ceil(a / b)\<close> on the sizes the code uses.\<close>

definition ceil_div :: "nat \<Rightarrow> nat \<Rightarrow> nat" where
  "ceil_div a b = (a + b - 1) div b"

lemma ceil_div_0 [simp]: "0 < b \<Longrightarrow> ceil_div 0 b = 0"
  by (simp add: ceil_div_def)

lemma ceil_div_mono: "a \<le> a' \<Longrightarrow> ceil_div a b \<le> ceil_div a' b"
  by (simp add: ceil_div_def div_le_mono)

lemma ceil_div_mult: "0 < b \<Longrightarrow> a \<le> ceil_div a b * b"
proof -
  assume b: "0 < b"
  have "a + b - 1 < ((a + b - 1) div b) * b + b"
    using b by (rule dividend_less_times_div [of b "a + b - 1", unfolded mult.commute [of b] add.commute [of b]])
  then show "a \<le> ceil_div a b * b"
    using b by (simp add: ceil_div_def)
qed

lemma ceil_div_le_iff: "0 < b \<Longrightarrow> ceil_div a b \<le> k \<longleftrightarrow> a \<le> k * b"
proof (rule iffI)
  assume b: "0 < b" and "ceil_div a b \<le> k"
  then show "a \<le> k * b" using ceil_div_mult [OF b, of a] by (meson le_trans mult_le_mono1)
next
  assume b: "0 < b" and "a \<le> k * b"
  then have "a + b - 1 < (k + 1) * b" by simp
  then have "ceil_div a b < k + 1"
    unfolding ceil_div_def using b by (simp add: less_mult_imp_div_less)
  then show "ceil_div a b \<le> k" by simp
qed

lemma less_ceil_div_iff: "0 < b \<Longrightarrow> k < ceil_div a b \<longleftrightarrow> k * b < a"
  using ceil_div_le_iff [of b a k] by (metis not_le)

lemma div_less_ceil_div: "0 < b \<Longrightarrow> i < a \<Longrightarrow> i div b < ceil_div a b"
  by (simp add: less_ceil_div_iff) (meson div_times_less_eq_dividend le_less_trans)

lemma ceil_div_exact: "0 < b \<Longrightarrow> ceil_div (k * b) b = k"
  using ceil_div_le_iff [of b "k * b" k] ceil_div_mult [of b "k * b"] by simp

text \<open>Counting in a list and in the concatenation of its parts.\<close>

lemma count_list_concat_map: "count_list (concat xss) x = sum_list (map (\<lambda>xs. count_list xs x) xss)"
  by (induction xss) auto

lemma count_list_pos_iff [simp]: "0 < count_list xs x \<longleftrightarrow> x \<in> set xs"
  by (induction xs) auto

lemma count_list_ge_Suc: "x \<in> set xs \<Longrightarrow> Suc 0 \<le> count_list xs x"
  using count_list_pos_iff [of xs x] by linarith

lemma count_list_distinct: "distinct xs \<Longrightarrow> count_list xs x = (if x \<in> set xs then 1 else 0)"
  by (induction xs) auto

lemma last_take_Suc: "i < length xs \<Longrightarrow> last (take (Suc i) xs) = xs ! i"
  by (simp add: take_Suc_conv_app_nth)

lemma length_filter_pos_iff: "0 < length (filter P xs) \<longleftrightarrow> (\<exists>x \<in> set xs. P x)"
  by (auto simp: filter_empty_conv)

end
