(* ===== verification/Interfaces.thy ===== *)
theory Interfaces
  imports Prelude
begin

text \<open>
  The typed boundaries of the native runtime, \<^verbatim>\<open>native_mlx/interfaces.py\<close>: the records
  that the scheduler, the cache coordinator and the executor exchange, and the interface
  \<^verbatim>\<open>KVCacheBackend\<close> of \<^verbatim>\<open>cache.py\<close> as a record of the operations its
  clients call.  Wall-clock fields (\<open>step_time_ms\<close>, timings, queue times) are not modelled.
\<close>

subsection \<open>Execution\<close>

datatype phase = Prefill | Decode

datatype forward_mode = PREFILL | DECODE | MIXED

fun phase_flags :: "phase list \<Rightarrow> bool \<Rightarrow> bool \<Rightarrow> bool \<times> bool" where
  "phase_flags [] has_prefill has_decode = (has_prefill, has_decode)"
| "phase_flags (Prefill # ps) has_prefill has_decode = phase_flags ps True has_decode"
| "phase_flags (Decode # ps) has_prefill has_decode = phase_flags ps has_prefill True"

definition from_phases :: "phase list \<Rightarrow> exn + forward_mode" where
  "from_phases phases =
     (let (has_prefill, has_decode) = phase_flags phases False False
      in if has_prefill \<and> \<not> has_decode then Inr PREFILL
         else if has_decode \<and> \<not> has_prefill then Inr DECODE
         else if has_prefill \<and> has_decode then Inr MIXED
         else Inl (ValueError ''execution batch must contain prefill or decode work''))"

record sampling_params =
  temperature :: rat
  top_p :: rat

record execution_request =
  er_request_id :: string
  er_phase :: phase
  er_token_ids :: "token list"
  er_positions :: "nat list"
  er_cache_handle :: "handle option"
  er_sampling :: sampling_params

record step_request_result =
  sr_request_id :: string
  sr_phase :: phase
  sr_token_ids :: "token list"
  sr_cache_handle :: "handle option"
  sr_cache_length :: nat
  sr_next_token_id :: "token option"
  sr_error_code :: "string option"
  sr_error_message :: "string option"

record step_result =
  st_forward_mode :: forward_mode
  st_results :: "step_request_result list"
  st_physical_batch_size :: nat
  st_model_forward_count :: nat

subsection \<open>Prefix reuse\<close>

record prefix_probe =
  pp_matched_tokens :: nat
  pp_matched_pages :: nat
  pp_cache_handle :: "handle option"

definition no_probe :: prefix_probe where
  "no_probe = \<lparr>pp_matched_tokens = 0, pp_matched_pages = 0, pp_cache_handle = None\<rparr>"

record cache_admission =
  ca_cache_handle :: handle
  ca_cache_length :: nat
  ca_reused_tokens :: nat
  ca_reused_pages :: nat

record cache_publication =
  cp_published_tokens :: nat
  cp_published_pages :: nat

definition no_publication :: cache_publication where
  "no_publication = \<lparr>cp_published_tokens = 0, cp_published_pages = 0\<rparr>"

subsection \<open>Requests and events\<close>

record schedulable_request =
  sq_request_id :: string
  sq_prompt :: "token list"
  sq_sampling :: sampling_params
  sq_max_tokens :: int
  sq_priority :: int

record runtime_request =
  rq_request_id :: string
  rq_model :: string
  rq_prompt :: "token list"
  rq_max_tokens :: nat
  rq_stop :: "string list"
  rq_sampling :: sampling_params

text \<open>\<^verbatim>\<open>SchedulerEvent\<close> by its \<open>kind\<close>, with the fields each kind carries.\<close>

datatype scheduler_event =
    TokenEvent (ev_request: string) (ev_token: "token option") (ev_length: nat) (ev_phase: phase)
  | CancelledEvent (ev_request: string) (ev_stage: string)
  | ErrorEvent (ev_request: string) (ev_code: string) (ev_message: string)
  | PrefillProgress (ev_request: string) (ev_length: nat) (ev_batch: nat) (ev_scheduled: nat)
      (ev_cached: nat) (ev_complete: bool)
  | MetricsEvent (ev_phase: phase) (ev_batch: nat) (ev_scheduled: nat) (ev_waiting: nat) (ev_running: nat)

subsection \<open>The KV backend as its clients see it\<close>

record 's kv_ops =
  op_create :: "string \<Rightarrow> 's \<Rightarrow> handle \<times> 's"
  op_length :: "handle option \<Rightarrow> 's \<Rightarrow> nat"
  op_fork :: "handle \<Rightarrow> string \<Rightarrow> int option \<Rightarrow> 's \<Rightarrow> (exn + handle) \<times> 's"
  op_release :: "handle option \<Rightarrow> 's \<Rightarrow> (exn + unit) \<times> 's"
  op_reset :: "bool \<Rightarrow> 's \<Rightarrow> (exn + unit) \<times> 's"
  op_bytes_per_page :: "'s \<Rightarrow> nat option"

lemma phase_flags_spec:
  "phase_flags ps a b = (a \<or> Prefill \<in> set ps, b \<or> Decode \<in> set ps)"
  by (induction ps a b rule: phase_flags.induct) auto

lemma from_phases_spec:
  "from_phases ps =
     (if ps = [] then Inl (ValueError ''execution batch must contain prefill or decode work'')
      else if Decode \<notin> set ps then Inr PREFILL
      else if Prefill \<notin> set ps then Inr DECODE else Inr MIXED)"
proof (cases ps)
  case (Cons p rest)
  then show ?thesis by (cases p) (auto simp: from_phases_def phase_flags_spec)
qed (simp add: from_phases_def)

end
