(* ===== verification/Text.thy ===== *)
theory Text
  imports Prelude
begin

text \<open>
  Text the code builds: decimal numbers, JSON strings and arrays as
  \<open>json.dumps(\<dots>, separators=(',', ':'))\<close> writes them, Python ranges.  A Python string, a sequence of
  Unicode code points, is represented by the bytes of its UTF-8 encoding, one \<open>char\<close> per byte;
  \<open>code_points\<close> reads the code points back.  So encoding and decoding as UTF-8 change nothing, apart from
  the check that bytes from outside are UTF-8 (\<open>utf8\<close>).
\<close>

subsection \<open>UTF-8\<close>

text \<open>The encoding of one code point, also of a lone surrogate, which a Python string may hold.\<close>

definition utf8_char :: "nat \<Rightarrow> string" where
  "utf8_char n =
     (if n < 128 then [char_of n]
      else if n < 2048 then [char_of (192 + n div 64), char_of (128 + n mod 64)]
      else if n < 65536 then [char_of (224 + n div 4096), char_of (128 + n div 64 mod 64), char_of (128 + n mod 64)]
      else [char_of (240 + n div 262144), char_of (128 + n div 4096 mod 64), char_of (128 + n div 64 mod 64), char_of (128 + n mod 64)])"

definition of_points :: "nat list \<Rightarrow> string" where
  "of_points ns = concat (map utf8_char ns)"

text \<open>How many bytes follow a first byte, and the bits it contributes.\<close>

definition continuation :: "nat \<Rightarrow> nat" where
  "continuation n = (if n < 192 then 0 else if n < 224 then 1 else if n < 240 then 2 else 3)"

definition lead_bits :: "nat \<Rightarrow> nat" where
  "lead_bits n = (if n < 192 then n else if n < 224 then n - 192 else if n < 240 then n - 224 else n - 240)"

fun code_points :: "string \<Rightarrow> nat list" where
  "code_points [] = []"
| "code_points (c # s) =
     (let k = continuation (of_char c)
      in foldl (\<lambda>v x. v * 64 + of_char x mod 64) (lead_bits (of_char c)) (take k s) # code_points (drop k s))"

text \<open>The code points that UTF-8 encodes: all but the surrogates.\<close>

definition scalar :: "nat \<Rightarrow> bool" where
  "scalar n \<longleftrightarrow> n < 55296 \<or> 57344 \<le> n \<and> n < 1114112"

definition utf8 :: "string \<Rightarrow> bool" where
  "utf8 s \<longleftrightarrow> list_all scalar (code_points s) \<and> of_points (code_points s) = s"

text \<open>\<open>bytes.decode("utf-8")\<close>; the exception is a subclass of \<open>ValueError\<close>, its text is left out.\<close>

definition decode_utf8 :: "string \<Rightarrow> exn + string" where
  "decode_utf8 s = (if utf8 s then Inr s else Inl (ValueError ''invalid UTF-8''))"

declare code_points.simps(2) [simp del]

text \<open>\<open>bytes.decode("utf-8", errors="replace")\<close>: every longest beginning of a code point that does not go on as it should, and
  every byte that begins none, becomes the replacement character.\<close>

definition sequence_length :: "nat \<Rightarrow> nat" where
  "sequence_length n = (if n < 128 then 1 else if n < 194 then 0 else if n < 224 then 2 else if n < 240 then 3 else if n < 245 then 4 else 0)"

definition second_ok :: "nat \<Rightarrow> nat \<Rightarrow> bool" where
  "second_ok a b \<longleftrightarrow>
     (if a = 224 then 160 else if a = 240 then 144 else 128) \<le> b \<and> b \<le> (if a = 237 then 159 else if a = 244 then 143 else 191)"

definition first_sequence :: "char \<Rightarrow> string \<Rightarrow> nat \<times> bool" where
  "first_sequence c s =
     (let k = sequence_length (of_char c)
      in case s of
           [] \<Rightarrow> (0, k = 1)
         | d # s' \<Rightarrow>
             if k \<le> 1 \<or> \<not> second_ok (of_char c) (of_char d) then (0, k = 1)
             else (let m = length (takeWhile (\<lambda>x. of_char x div 64 = (2 :: nat)) (take (k - 2) s')) in (Suc m, m = k - 2)))"

fun replace_invalid :: "string \<Rightarrow> string" where
  "replace_invalid [] = []"
| "replace_invalid (c # s) =
     (case first_sequence c s of
        (n, ok) \<Rightarrow> (if ok then c # take n s else utf8_char 65533) @ replace_invalid (drop n s))"

declare replace_invalid.simps(2) [simp del]

definition decode_replace :: "string \<Rightarrow> string" where
  "decode_replace s = (if utf8 s then s else replace_invalid s)"

lemma of_points_simps [simp]: "of_points [] = []" "of_points (n # ns) = utf8_char n @ of_points ns"
  "of_points (ms @ ns) = of_points ms @ of_points ns"
  by (simp_all add: of_points_def)

lemma code_points_ascii [simp]: "of_char c < (128 :: nat) \<Longrightarrow> code_points (c # s) = of_char c # code_points s"
  by (simp add: code_points.simps continuation_def lead_bits_def)

lemma byte_lead: "m < 256 \<Longrightarrow> of_char (char_of m :: char) = (m :: nat)"
  by simp

lemma byte_cont: "of_char (char_of (128 + m mod 64) :: char) = (128 + m mod 64 :: nat)"
proof -
  have "m mod 64 < 64" by simp
  then have "128 + m mod 64 < 256" by linarith
  then show ?thesis by (rule byte_lead)
qed

lemma byte_rest [simp]: "of_char (char_of (128 + m mod 64) :: char) mod 64 = (m mod 64 :: nat)"
  unfolding byte_cont using mod_mult_self2 [of "m mod 64" 64 2] by (simp add: add.commute)

lemma sextets: "n div 64 * 64 + n mod 64 = (n :: nat)" "(n div 4096 * 64 + n div 64 mod 64) * 64 + n mod 64 = n"
  "((n div 262144 * 64 + n div 4096 mod 64) * 64 + n div 64 mod 64) * 64 + n mod 64 = n"
proof -
  have d: "n div 4096 = n div 64 div 64" "n div 262144 = n div 4096 div 64" by (simp_all add: div_mult2_eq [symmetric])
  show "n div 64 * 64 + n mod 64 = n" by simp
  then show two: "(n div 4096 * 64 + n div 64 mod 64) * 64 + n mod 64 = n" by (simp only: d(1) div_mult_mod_eq)
  show "((n div 262144 * 64 + n div 4096 mod 64) * 64 + n div 64 mod 64) * 64 + n mod 64 = n"
    by (subst d(2)) (simp only: div_mult_mod_eq two)
qed

lemma code_points_utf8_char [simp]:
  assumes "n < 1114112"
  shows "code_points (utf8_char n @ s) = n # code_points s"
proof -
  consider "n < 128" | "128 \<le> n" "n < 2048" | "2048 \<le> n" "n < 65536" | "65536 \<le> n" by linarith
  then show ?thesis
  proof cases
    case 1
    then show ?thesis by (simp add: utf8_char_def)
  next
    case 2
    then have l: "n div 64 < 32" by linarith
    then have b: "of_char (char_of (192 + n div 64) :: char) = 192 + n div 64" by (intro byte_lead) linarith
    have "continuation (192 + n div 64) = 1" "lead_bits (192 + n div 64) = n div 64" using l by (simp_all add: continuation_def lead_bits_def)
    moreover have "utf8_char n = [char_of (192 + n div 64), char_of (128 + n mod 64)]" using 2 by (simp add: utf8_char_def)
    ultimately show ?thesis by (simp del: of_char_of add: code_points.simps(2) [of "char_of (192 + n div 64)"] b sextets(1))
  next
    case 3
    then have l: "n div 4096 < 16" by linarith
    then have b: "of_char (char_of (224 + n div 4096) :: char) = 224 + n div 4096" by (intro byte_lead) linarith
    have "continuation (224 + n div 4096) = 2" "lead_bits (224 + n div 4096) = n div 4096" using l by (simp_all add: continuation_def lead_bits_def)
    moreover have "utf8_char n = [char_of (224 + n div 4096), char_of (128 + n div 64 mod 64), char_of (128 + n mod 64)]"
      using 3 by (simp add: utf8_char_def)
    ultimately show ?thesis by (simp del: of_char_of add: code_points.simps(2) [of "char_of (224 + n div 4096)"] b numeral_2_eq_2) (use sextets(2) [of n] in \<open>simp add: algebra_simps\<close>)
  next
    case 4
    then have l: "n div 262144 < 5" using assms by linarith
    then have b: "of_char (char_of (240 + n div 262144) :: char) = 240 + n div 262144" by (intro byte_lead) linarith
    have "continuation (240 + n div 262144) = 3" "lead_bits (240 + n div 262144) = n div 262144" using l by (simp_all add: continuation_def lead_bits_def)
    moreover have "utf8_char n = [char_of (240 + n div 262144), char_of (128 + n div 4096 mod 64), char_of (128 + n div 64 mod 64), char_of (128 + n mod 64)]"
      using 4 by (simp add: utf8_char_def)
    ultimately show ?thesis by (simp del: of_char_of add: code_points.simps(2) [of "char_of (240 + n div 262144)"] b numeral_3_eq_3) (use sextets(3) [of n] in \<open>simp add: algebra_simps\<close>)
  qed
qed

lemma utf8_char_high:
  assumes "128 \<le> n" "n < 1114112"
  shows "list_all (\<lambda>c. 128 \<le> (of_char c :: nat)) (utf8_char n)"
proof -
  consider "n < 2048" | "2048 \<le> n" "n < 65536" | "65536 \<le> n" by linarith
  then show ?thesis
  proof cases
    case 1
    then have "of_char (char_of (192 + n div 64) :: char) = 192 + n div 64" by (intro byte_lead) linarith
    then show ?thesis using 1 assms(1) by (simp del: of_char_of add: utf8_char_def byte_cont)
  next
    case 2
    then have "of_char (char_of (224 + n div 4096) :: char) = 224 + n div 4096" by (intro byte_lead) linarith
    then show ?thesis using 2 assms(1) by (simp del: of_char_of add: utf8_char_def byte_cont)
  next
    case 3
    have "of_char (char_of (240 + n div 262144) :: char) = 240 + n div 262144" using assms(2) by (intro byte_lead) linarith
    then show ?thesis using 3 assms(1) by (simp del: of_char_of add: utf8_char_def byte_cont)
  qed
qed

lemma code_points_of_points [simp]:
  "\<forall>n \<in> set ns. n < 1114112 \<Longrightarrow> code_points (of_points ns @ s) = ns @ code_points s"
  by (induction ns) auto

lemma utf8_iff: "utf8 s \<longleftrightarrow> (\<exists>ns. list_all scalar ns \<and> s = of_points ns)"
proof
  assume "\<exists>ns. list_all scalar ns \<and> s = of_points ns"
  then obtain ns where ns: "list_all scalar ns" "s = of_points ns" by blast
  then have "\<forall>n \<in> set ns. n < 1114112" by (auto simp: list_all_iff scalar_def)
  from code_points_of_points [OF this, of "[]"] ns show "utf8 s" by (simp add: utf8_def)
qed (auto simp: utf8_def)

lemma utf8_append [intro]: "utf8 s \<Longrightarrow> utf8 t \<Longrightarrow> utf8 (s @ t)"
  unfolding utf8_iff by (metis list_all_append of_points_simps(3))

definition ascii :: "string \<Rightarrow> bool" where
  "ascii s \<longleftrightarrow> list_all (\<lambda>c. of_char c < (128 :: nat)) s"

lemma ascii_code [code]: "ascii s \<longleftrightarrow> list_all (\<lambda>c. \<not> digit7 c) s"
proof -
  have "of_char c < (128 :: nat) \<longleftrightarrow> \<not> digit7 c" for c by (cases c) (simp add: of_char_def horner_sum_simps)
  then show ?thesis by (simp add: ascii_def)
qed

lemma ascii_points: "ascii s \<Longrightarrow> code_points (s @ t) = map of_char s @ code_points t \<and> of_points (map of_char s) = s"
  by (induction s) (auto simp: ascii_def utf8_char_def)

lemma ascii_simps [simp]: "ascii []" "ascii (c # s) \<longleftrightarrow> of_char c < (128 :: nat) \<and> ascii s" "ascii (s @ t) \<longleftrightarrow> ascii s \<and> ascii t"
  by (simp_all add: ascii_def)

lemma ascii_utf8 [simp]: "ascii s \<Longrightarrow> utf8 s"
  using ascii_points [of s "[]"] by (auto simp: utf8_def ascii_def scalar_def list_all_iff)

lemma points_of_ascii: "ascii s \<Longrightarrow> code_points s = map of_char s" "ascii s \<Longrightarrow> of_points (map of_char s) = s"
  using ascii_points [of s "[]"] by simp_all

text \<open>Most text is ASCII, and is evaluated by the byte.\<close>

lemma utf8_code [code]: "utf8 s \<longleftrightarrow> ascii s \<or> list_all scalar (code_points s) \<and> of_points (code_points s) = s"
  using ascii_utf8 by (auto simp: utf8_def)

lemma utf8_simps [simp]: "utf8 []" "of_char c < (128 :: nat) \<Longrightarrow> utf8 (c # s) \<longleftrightarrow> utf8 s" "scalar n \<Longrightarrow> utf8 (utf8_char n @ s) \<longleftrightarrow> utf8 s"
  "scalar n \<Longrightarrow> utf8 (utf8_char n)"
proof -
  show "scalar n \<Longrightarrow> utf8 (utf8_char n @ s) \<longleftrightarrow> utf8 s" for n s by (auto simp: utf8_def scalar_def)
  from this [of n "[]"] show "scalar n \<Longrightarrow> utf8 (utf8_char n)" by (simp add: utf8_def)
qed (auto simp: utf8_def scalar_def utf8_char_def)

subsection \<open>Numbers and JSON text\<close>

fun nat_str :: "nat \<Rightarrow> string" where
  "nat_str n = (if n < 10 then [char_of (48 + n)] else nat_str (n div 10) @ [char_of (48 + n mod 10)])"

declare nat_str.simps [simp del]

definition int_str :: "int \<Rightarrow> string" where
  "int_str i = (if i < 0 then CHR ''-'' # nat_str (nat (- i)) else nat_str (nat i))"

definition hex_digit :: "nat \<Rightarrow> char" where
  "hex_digit d = (if d < 10 then char_of (48 + d) else char_of (87 + d))"

definition u_escape :: "nat \<Rightarrow> string" where
  "u_escape v = [char_of (92 :: nat), CHR ''u'', hex_digit (v div 4096 mod 16), hex_digit (v div 256 mod 16),
     hex_digit (v div 16 mod 16), hex_digit (v mod 16)]"

text \<open>\<open>ensure_ascii\<close>: a code point beyond the sixteen bits is written as a pair of surrogates.\<close>

definition json_escape :: "nat \<Rightarrow> string" where
  "json_escape n =
     (if n = 34 then [char_of (92 :: nat), char_of (34 :: nat)]
      else if n = 92 then [char_of (92 :: nat), char_of (92 :: nat)]
      else if n = 10 then [char_of (92 :: nat), CHR ''n'']
      else if n = 13 then [char_of (92 :: nat), CHR ''r'']
      else if n = 9 then [char_of (92 :: nat), CHR ''t'']
      else if n = 12 then [char_of (92 :: nat), CHR ''f'']
      else if n = 8 then [char_of (92 :: nat), CHR ''b'']
      else if 32 \<le> n \<and> n \<le> 126 then [char_of n]
      else if n < 65536 then u_escape n
      else u_escape (55296 + (n - 65536) div 1024) @ u_escape (56320 + (n - 65536) mod 1024))"

definition json_string :: "string \<Rightarrow> string" where
  "json_string s = [char_of (34 :: nat)] @ concat (map json_escape (code_points s)) @ [char_of (34 :: nat)]"

text \<open>The ASCII characters that stand for themselves, told by their bits.\<close>

definition plain_char :: "char \<Rightarrow> bool" where
  "plain_char c \<longleftrightarrow> \<not> digit7 c \<and> (digit5 c \<or> digit6 c) \<and> c \<noteq> CHR 0x22 \<and> c \<noteq> CHR 0x5C \<and> c \<noteq> CHR 0x7F"

lemma plain_char_escape: "plain_char c \<Longrightarrow> json_escape (of_char c) = [c]"
proof -
  assume p: "plain_char c"
  have "32 \<le> (of_char c :: nat) \<and> of_char c \<le> (126 :: nat) \<and> of_char c \<noteq> (34 :: nat) \<and> of_char c \<noteq> (92 :: nat)"
  proof (cases c)
    case (Char b0 b1 b2 b3 b4 b5 b6 b7)
    then show ?thesis using p
      by (cases b0; cases b1; cases b2; cases b3; cases b4; cases b5; cases b6; cases b7)
        (simp_all add: plain_char_def of_char_def horner_sum_simps)
  qed
  then show ?thesis by (simp add: json_escape_def)
qed

lemma json_string_code [code]:
  "json_string s = CHR 0x22 # concat
     (if ascii s then map (\<lambda>c. if plain_char c then [c] else json_escape (of_char c)) s else map json_escape (code_points s)) @ [CHR 0x22]"
proof -
  have "char_of (34 :: nat) = CHR 0x22" by code_simp
  moreover have "json_escape (of_char c) = (if plain_char c then [c] else json_escape (of_char c))" for c
    by (simp add: plain_char_escape)
  ultimately show ?thesis by (simp add: json_string_def points_of_ascii comp_def)
qed

fun join :: "string \<Rightarrow> string list \<Rightarrow> string" where
  "join sep [] = []"
| "join sep [x] = x"
| "join sep (x # y # ys) = x @ sep @ join sep (y # ys)"

definition json_ints :: "int list \<Rightarrow> string" where
  "json_ints xs = ''['' @ join '','' (map int_str xs) @ '']''"

definition json_object :: "(string \<times> string) list \<Rightarrow> string" where
  "json_object kvs = ''{'' @ join '','' (map (\<lambda>(k, v). json_string k @ '':'' @ v) kvs) @ ''}''"

subsection \<open>\<open>str.strip\<close>, \<open>str.lower\<close>, \<open>int(str)\<close>\<close>

definition is_space :: "nat \<Rightarrow> bool" where
  "is_space n \<longleftrightarrow> (9 \<le> n \<and> n \<le> 13) \<or> (28 \<le> n \<and> n \<le> 32) \<or> n = 133 \<or> n = 160 \<or> n = 5760 \<or> (8192 \<le> n \<and> n \<le> 8202) \<or>
     n = 8232 \<or> n = 8233 \<or> n = 8239 \<or> n = 8287 \<or> n = 12288"

definition strip :: "string \<Rightarrow> string" where
  "strip s = of_points (rev (dropWhile is_space (rev (dropWhile is_space (code_points s)))))"

lemma ascii_subset: "ascii s \<Longrightarrow> set t \<subseteq> set s \<Longrightarrow> ascii t"
  by (auto simp: ascii_def list_all_iff)

definition ascii_blank :: "char \<Rightarrow> bool" where
  "ascii_blank c = (let n = of_char c :: nat in (9 \<le> n \<and> n \<le> 13) \<or> (28 \<le> n \<and> n \<le> 32))"

lemma strip_code [code]:
  "strip s =
     (if ascii s then rev (dropWhile ascii_blank (rev (dropWhile ascii_blank s)))
      else of_points (rev (dropWhile is_space (rev (dropWhile is_space (code_points s))))))"
proof (cases "ascii s")
  case True
  have "is_space (of_char c) = ascii_blank c" if "c \<in> set s" for c
    using True that by (auto simp: ascii_def list_all_iff is_space_def ascii_blank_def)
  then have dw: "dropWhile (is_space \<circ> of_char) t = dropWhile ascii_blank t" if "set t \<subseteq> set s" for t
    using that by (intro dropWhile_cong) auto
  let ?t = "dropWhile ascii_blank s"
  have sub: "set (rev ?t) \<subseteq> set s" "set (rev (dropWhile ascii_blank (rev ?t))) \<subseteq> set s" by (auto dest!: set_dropWhileD)
  have "strip s = of_points (map of_char (rev (dropWhile ascii_blank (rev ?t))))"
    by (simp add: strip_def points_of_ascii [OF True] dropWhile_map dw rev_map dw [OF sub(1)])
  also have "\<dots> = rev (dropWhile ascii_blank (rev ?t))" by (rule points_of_ascii(2) [OF ascii_subset [OF True sub(2)]])
  finally show ?thesis using True by simp
qed (simp add: strip_def)

text \<open>Latin-1 and the Kelvin sign.  The code compares what it lowers with ASCII names only, and no other letter
  has an ASCII letter for its lower case, so the rest is left as it is.\<close>

definition lower_point :: "nat \<Rightarrow> nat" where
  "lower_point n =
     (if (65 \<le> n \<and> n \<le> 90) \<or> (192 \<le> n \<and> n \<le> 222 \<and> n \<noteq> 215) then n + 32 else if n = 8490 then 107 else n)"

definition lower :: "string \<Rightarrow> string" where
  "lower s = of_points (map lower_point (code_points s))"

lemma lower_code [code]:
  "lower s =
     (if ascii s then map (\<lambda>c. let n = of_char c :: nat in if 65 \<le> n \<and> n \<le> 90 then char_of (n + 32) else c) s
      else of_points (map lower_point (code_points s)))"
proof -
  have "utf8_char (lower_point (of_char c)) = [let n = of_char c :: nat in if 65 \<le> n \<and> n \<le> 90 then char_of (n + 32) else c]"
    if "of_char c < (128 :: nat)" for c
    using that by (auto simp: lower_point_def utf8_char_def)
  then have "ascii s \<Longrightarrow> of_points (map (lower_point \<circ> of_char) s) =
      map (\<lambda>c. let n = of_char c :: nat in if 65 \<le> n \<and> n \<le> 90 then char_of (n + 32) else c) s"
    by (induction s) simp_all
  then show ?thesis by (simp add: lower_def points_of_ascii)
qed

text \<open>The zeros of the decimal digits of Unicode (category \<open>Nd\<close>); nine more digits follow each.\<close>

definition decimal_zeros :: "nat list" where
  "decimal_zeros =
     [48, 1632, 1776, 1984, 2406, 2534, 2662, 2790, 2918, 3046, 3174, 3302, 3430, 3558, 3664, 3792, 3872, 4160, 4240,
      6112, 6160, 6470, 6608, 6784, 6800, 6992, 7088, 7232, 7248, 42528, 43216, 43264, 43472, 43504, 43600, 44016,
      65296, 66720, 68912, 69734, 69872, 69942, 70096, 70384, 70736, 70864, 71248, 71360, 71472, 71904, 72016, 72784,
      73040, 73120, 92768, 92864, 93008, 120782, 120792, 120802, 120812, 120822, 123200, 123632, 125264, 130032]"

definition decimal :: "nat \<Rightarrow> nat option" where
  "decimal n = map_option (\<lambda>z. n - z) (find (\<lambda>z. z \<le> n \<and> n \<le> z + 9) decimal_zeros)"

lemma decimal_code [code]:
  "decimal n = (if 48 \<le> n \<and> n \<le> 57 then Some (n - 48) else if n < 128 then None
     else map_option (\<lambda>z. n - z) (find (\<lambda>z. z \<le> n \<and> n \<le> z + 9) decimal_zeros))"
  by (auto simp: decimal_def decimal_zeros_def find_None_iff)

text \<open>Digits, with single underscores between them; the flag says that a digit came last.\<close>

fun digits_value :: "nat \<Rightarrow> bool \<Rightarrow> nat list \<Rightarrow> nat option" where
  "digits_value acc digit [] = (if digit then Some acc else None)"
| "digits_value acc digit (n # ns) =
     (case decimal n of
        Some d \<Rightarrow> digits_value (acc * 10 + d) True ns
      | None \<Rightarrow> if n = 95 \<and> digit then digits_value acc False ns else None)"

definition py_int :: "string \<Rightarrow> int option" where
  "py_int s =
     (case code_points (strip s) of
        [] \<Rightarrow> None
      | n # ns \<Rightarrow>
          if n = 45 then map_option (\<lambda>m. - int m) (digits_value 0 False ns)
          else if n = 43 then map_option int (digits_value 0 False ns)
          else map_option int (digits_value 0 False (n # ns)))"

text \<open>\<open>repr\<close> of a string: the quote that needs no escape, backslash escapes for what is not printable: controls, separators,
  format characters, surrogates and private use.  (Unassigned code points, which the Unicode tables of the interpreter would
  add, are printed as they are.)\<close>

definition unprintable :: "nat \<Rightarrow> bool" where
  "unprintable n \<longleftrightarrow> n < 32 \<or> (127 \<le> n \<and> n \<le> 160) \<or> n = 173 \<or> (1536 \<le> n \<and> n \<le> 1541) \<or> n = 1564 \<or> n = 1757 \<or> n = 1807 \<or>
     n = 5760 \<or> n = 6158 \<or> (8192 \<le> n \<and> n \<le> 8207) \<or> (8232 \<le> n \<and> n \<le> 8239) \<or> (8287 \<le> n \<and> n \<le> 8303) \<or> n = 12288 \<or>
     (55296 \<le> n \<and> n \<le> 63743) \<or> n = 65279 \<or> (65529 \<le> n \<and> n \<le> 65531) \<or> 917504 \<le> n \<and> n \<le> 917631 \<or> 983040 \<le> n"

fun hex_digits :: "nat \<Rightarrow> nat \<Rightarrow> string" where
  "hex_digits 0 n = []"
| "hex_digits (Suc k) n = hex_digits k (n div 16) @ [hex_digit (n mod 16)]"

definition repr_char :: "nat \<Rightarrow> nat \<Rightarrow> string" where
  "repr_char quote n =
     (if n = quote \<or> n = 92 then [char_of (92 :: nat), char_of n]
      else if n = 10 then [char_of (92 :: nat), CHR ''n'']
      else if n = 13 then [char_of (92 :: nat), CHR ''r'']
      else if n = 9 then [char_of (92 :: nat), CHR ''t'']
      else if \<not> unprintable n then utf8_char n
      else if n < 256 then [char_of (92 :: nat), CHR ''x''] @ hex_digits 2 n
      else if n < 65536 then [char_of (92 :: nat), CHR ''u''] @ hex_digits 4 n
      else [char_of (92 :: nat), CHR ''U''] @ hex_digits 8 n)"

definition py_repr :: "string \<Rightarrow> string" where
  "py_repr s =
     (let quote = (if 39 \<in> set (code_points s) \<and> 34 \<notin> set (code_points s) then 34 else 39)
      in [char_of quote] @ concat (map (repr_char quote) (code_points s)) @ [char_of quote])"

lemma repr_char_code [code]:
  "repr_char quote n =
     (if n = quote \<or> n = 92 then [char_of (92 :: nat), char_of n]
      else if 32 \<le> n \<and> n < 127 then [char_of n]
      else if n = 10 then [char_of (92 :: nat), CHR ''n'']
      else if n = 13 then [char_of (92 :: nat), CHR ''r'']
      else if n = 9 then [char_of (92 :: nat), CHR ''t'']
      else if \<not> unprintable n then utf8_char n
      else if n < 256 then [char_of (92 :: nat), CHR ''x''] @ hex_digits 2 n
      else if n < 65536 then [char_of (92 :: nat), CHR ''u''] @ hex_digits 4 n
      else [char_of (92 :: nat), CHR ''U''] @ hex_digits 8 n)"
  by (auto simp: repr_char_def unprintable_def utf8_char_def)

text \<open>\<open>range(start, stop, step)\<close> for a positive step.\<close>

definition range_step :: "nat \<Rightarrow> nat \<Rightarrow> nat \<Rightarrow> nat list" where
  "range_step start stop step = map (\<lambda>k. start + k * step) [0..<ceil_div (stop - start) step]"

lemma set_range_step:
  assumes "0 < step"
  shows "x \<in> set (range_step start stop step) \<longleftrightarrow> (\<exists>k. x = start + k * step) \<and> x < stop"
proof -
  have "k < ceil_div (stop - start) step \<longleftrightarrow> start + k * step < stop" for k
  proof -
    have "k * step < stop - start \<longleftrightarrow> start + k * step < stop" by linarith
    with less_ceil_div_iff [OF assms, of k "stop - start"] show ?thesis by (rule trans)
  qed
  then have e: "{k. k < ceil_div (stop - start) step} = {k. start + k * step < stop}" by blast
  have "set (range_step start stop step) = (\<lambda>k. start + k * step) ` {k. k < ceil_div (stop - start) step}"
    by (simp only: range_step_def set_map set_upt atLeast0LessThan lessThan_def)
  then have "x \<in> set (range_step start stop step) \<longleftrightarrow> (\<exists>k. x = start + k * step \<and> start + k * step < stop)"
    unfolding e by (simp add: image_iff) blast
  then show ?thesis by metis
qed

subsection \<open>The first smallest element\<close>

text \<open>\<open>min(xs, key=f)\<close>: the first of the smallest elements; \<open>None\<close> for an empty list.\<close>

fun min_by :: "('a \<Rightarrow> 'k::linorder) \<Rightarrow> 'a list \<Rightarrow> 'a option" where
  "min_by f [] = None"
| "min_by f (x # xs) =
     (case min_by f xs of None \<Rightarrow> Some x | Some y \<Rightarrow> if f y < f x then Some y else Some x)"

lemma min_by_None [simp]: "min_by f xs = None \<longleftrightarrow> xs = []"
  by (cases xs) (auto split: option.splits)

lemma min_by_in: "min_by f xs = Some x \<Longrightarrow> x \<in> set xs"
  by (induction xs arbitrary: x) (auto split: option.splits if_splits)

lemma min_by_least: "min_by f xs = Some x \<Longrightarrow> y \<in> set xs \<Longrightarrow> f x \<le> f y"
proof (induction xs arbitrary: x y)
  case (Cons a xs)
  show ?case
  proof (cases "min_by f xs")
    case None
    with Cons.prems show ?thesis by simp
  next
    case (Some b)
    with Cons show ?thesis by (fastforce split: if_splits)
  qed
qed simp

end
