(* ===== verification/BlockIndex.thy ===== *)
theory BlockIndex
  imports Interfaces Text
begin

text \<open>
  The prefix indexes without a tree, \<^verbatim>\<open>NoPrefixCache\<close> and
  \<^verbatim>\<open>BlockHashPrefixCache\<close> in \<^verbatim>\<open>native_mlx/prefix_cache.py\<close>.  A block entry
  is found under its hash, so the dictionary of entries is updated in place where the code mutates
  the entry object.  \<open>time.monotonic_ns()\<close> is the stream \<open>bi_times\<close>, read in order;
  \<open>hashlib.sha256(\<dots>).hexdigest()\<close> is the field \<open>bi_sha\<close>, about which nothing is assumed: no
  theorem needs the absence of collisions, because the code compares the tokens.
\<close>

subsection \<open>The compatibility namespace\<close>

record fingerprint =
  fp_checkpoint :: string
  fp_architecture :: string
  fp_tokenizer_hash :: string
  fp_model_dtype :: string
  fp_kv_dtype :: string
  fp_quantization :: string
  fp_page_size :: int
  fp_schema_version :: int

definition fp_payload :: "fingerprint \<Rightarrow> string" where
  "fp_payload f = json_object
     [(''architecture_class'', json_string (fp_architecture f)),
      (''cache_schema_version'', int_str (fp_schema_version f)),
      (''checkpoint'', json_string (fp_checkpoint f)),
      (''kv_dtype'', json_string (fp_kv_dtype f)),
      (''model_dtype'', json_string (fp_model_dtype f)),
      (''page_size'', int_str (fp_page_size f)),
      (''quantization'', json_string (fp_quantization f)),
      (''tokenizer_assets_hash'', json_string (fp_tokenizer_hash f))]"

definition fp_digest :: "(string \<Rightarrow> string) \<Rightarrow> fingerprint \<Rightarrow> string" where
  "fp_digest sha f = sha (fp_payload f)"

subsection \<open>State\<close>

record block_entry =
  be_hash :: string
  be_parent :: string
  be_tokens :: "token list"
  be_digest :: string
  be_handle :: handle
  be_length :: nat
  be_pages :: nat
  be_bytes :: nat
  be_last_used :: int
  be_pins :: nat

record block_index =
  bi_compat :: fingerprint
  bi_page_size :: nat
  bi_max_entries :: nat
  bi_max_bytes :: nat
  bi_entries :: "(string, block_entry) dict"
  bi_active :: "(handle, string) dict"
  bi_clock :: int
  bi_queries :: nat
  bi_hits :: nat
  bi_misses :: nat
  bi_reused_tokens :: nat
  bi_reused_pages :: nat
  bi_collisions :: nat
  bi_evictions :: nat
  bi_sha :: "string \<Rightarrow> string"
  bi_times :: "nat \<Rightarrow> int"
  bi_reads :: nat

definition block_init ::
  "fingerprint \<Rightarrow> int \<Rightarrow> int \<Rightarrow> int \<Rightarrow> (string \<Rightarrow> string) \<Rightarrow> (nat \<Rightarrow> int) \<Rightarrow> exn + block_index" where
  "block_init fp psize max_entries max_bytes sha readings =
     (if psize \<le> 0 then Inl (ValueError ''block-hash prefix cache page size must be positive'')
      else if max_entries \<le> 0 then
        Inl (ValueError ''block-hash prefix cache max entries must be positive'')
      else if max_bytes \<le> 0 then
        Inl (ValueError ''block-hash prefix cache max bytes must be positive'')
      else Inr \<lparr>bi_compat = fp, bi_page_size = nat psize, bi_max_entries = nat max_entries,
        bi_max_bytes = nat max_bytes, bi_entries = [], bi_active = [], bi_clock = 0, bi_queries = 0,
        bi_hits = 0, bi_misses = 0, bi_reused_tokens = 0, bi_reused_pages = 0, bi_collisions = 0,
        bi_evictions = 0, bi_sha = sha, bi_times = readings, bi_reads = 0\<rparr>)"

definition block_tick :: "block_index \<Rightarrow> int \<times> block_index" where
  "block_tick i =
     (let t = max (bi_clock i + 1) (bi_times i (bi_reads i))
      in (t, i\<lparr>bi_clock := t, bi_reads := Suc (bi_reads i)\<rparr>))"

definition bytes_for_pages :: "'s kv_ops \<Rightarrow> nat \<Rightarrow> 's \<Rightarrow> nat \<Rightarrow> nat" where
  "bytes_for_pages ops psize s pages =
     (case op_bytes_per_page ops s of None \<Rightarrow> psize | Some v \<Rightarrow> v) * pages"

definition publishable_pages :: "'s kv_ops \<Rightarrow> nat \<Rightarrow> nat \<Rightarrow> nat \<Rightarrow> 's \<Rightarrow> nat" where
  "publishable_pages ops psize max_entries max_bytes s =
     (let bytes_per_page = max 1 (bytes_for_pages ops psize s 1)
      in max 1 (min max_entries (max_bytes div bytes_per_page)))"

subsection \<open>Hash chains and lookup\<close>

definition block_hash :: "block_index \<Rightarrow> string \<Rightarrow> token list \<Rightarrow> string" where
  "block_hash i parent toks = bi_sha i (json_object
     [(''compatibility'', json_string (fp_digest (bi_sha i) (bi_compat i))),
      (''parent'', json_string parent), (''tokens'', json_ints toks)])"

fun hash_chain_loop :: "block_index \<Rightarrow> token list \<Rightarrow> string \<Rightarrow> nat list \<Rightarrow> (string \<times> string \<times> nat) list" where
  "hash_chain_loop i toks parent [] = []"
| "hash_chain_loop i toks parent (e # ends) =
     (let h = block_hash i parent (drop (e - bi_page_size i) (take e toks))
      in (h, parent, e) # hash_chain_loop i toks h ends)"

definition hash_chain :: "block_index \<Rightarrow> token list \<Rightarrow> (string \<times> string \<times> nat) list" where
  "hash_chain i toks =
     hash_chain_loop i toks [] (range_step (bi_page_size i) (length toks + 1) (bi_page_size i))"

definition max_reusable :: "nat \<Rightarrow> token list \<Rightarrow> nat" where
  "max_reusable psize toks = (length toks - 1) div psize * psize"

fun block_lookup_loop ::
  "block_index \<Rightarrow> token list \<Rightarrow> (string \<times> string \<times> nat) list \<Rightarrow> block_entry option \<Rightarrow>
     block_entry option \<times> bool" where
  "block_lookup_loop i toks [] best = (best, False)"
| "block_lookup_loop i toks ((h, _, _) # rest) best =
     (case map_of (bi_entries i) h of
        None \<Rightarrow> (best, False)
      | Some e \<Rightarrow>
          if be_digest e \<noteq> fp_digest (bi_sha i) (bi_compat i) \<or> be_tokens e \<noteq> take (be_length e) toks
          then (best, True)
          else block_lookup_loop i toks rest (Some e))"

definition block_lookup :: "bool \<Rightarrow> token list \<Rightarrow> block_index \<Rightarrow> block_entry option \<times> block_index" where
  "block_lookup mutate toks i =
     (let limit = max_reusable (bi_page_size i) toks
      in if limit = 0 then (None, i)
         else
           (let (best, collision) = block_lookup_loop i toks (hash_chain i (take limit toks)) None;
                i1 = (if collision then i\<lparr>bi_collisions := Suc (bi_collisions i)\<rparr> else i)
            in case best of
                 None \<Rightarrow> (None, i1)
               | Some e \<Rightarrow>
                   if mutate then
                     (let (t, i2) = block_tick i1; e' = e\<lparr>be_last_used := t\<rparr>
                      in (Some e', i2\<lparr>bi_entries := AList.update (be_hash e) e' (bi_entries i2)\<rparr>))
                   else (Some e, i1)))"

subsection \<open>Eviction\<close>

definition stored_bytes :: "block_index \<Rightarrow> nat" where
  "stored_bytes i = sum_list (map be_bytes (dict_values (bi_entries i)))"

definition over_limits :: "block_index \<Rightarrow> bool" where
  "over_limits i \<longleftrightarrow> bi_max_entries i < length (bi_entries i) \<or> bi_max_bytes i < stored_bytes i"

definition eviction_candidates :: "string option \<Rightarrow> block_index \<Rightarrow> block_entry list" where
  "eviction_candidates protected i =
     filter (\<lambda>e. be_pins e = 0 \<and> Some (be_hash e) \<noteq> protected) (dict_values (bi_entries i))"

text \<open>The loop removes one entry in each round; the number of entries is fuel enough.\<close>

fun block_evict ::
  "'s kv_ops \<Rightarrow> nat \<Rightarrow> string option \<Rightarrow> block_index \<Rightarrow> 's \<Rightarrow> (exn + unit) \<times> block_index \<times> 's" where
  "block_evict ops 0 protected i s = (Inr (), i, s)"
| "block_evict ops (Suc fuel) protected i s =
     (if \<not> over_limits i then (Inr (), i, s)
      else
        (case min_by (\<lambda>e. (be_last_used e, - int (be_pages e))) (eviction_candidates protected i) of
           None \<Rightarrow> (Inr (), i, s)
         | Some victim \<Rightarrow>
             (let i1 = i\<lparr>bi_entries := AList.delete (be_hash victim) (bi_entries i)\<rparr>
              in case op_release ops (Some (be_handle victim)) s of
                   (Inl e, s1) \<Rightarrow> (Inl e, i1, s1)
                 | (Inr _, s1) \<Rightarrow>
                     block_evict ops fuel protected (i1\<lparr>bi_evictions := Suc (bi_evictions i1)\<rparr>) s1)))"

definition block_evict_within ::
  "'s kv_ops \<Rightarrow> string option \<Rightarrow> block_index \<Rightarrow> 's \<Rightarrow> (exn + unit) \<times> block_index \<times> 's" where
  "block_evict_within ops protected i s = block_evict ops (length (bi_entries i)) protected i s"

subsection \<open>Operations\<close>

definition block_probe :: "token list \<Rightarrow> block_index \<Rightarrow> prefix_probe \<times> block_index" where
  "block_probe toks i =
     (let (match, i1) = block_lookup False toks (i\<lparr>bi_queries := Suc (bi_queries i)\<rparr>)
      in case match of
           None \<Rightarrow> (no_probe, i1\<lparr>bi_misses := Suc (bi_misses i1)\<rparr>)
         | Some e \<Rightarrow>
             (\<lparr>pp_matched_tokens = be_length e, pp_matched_pages = be_pages e,
               pp_cache_handle = Some (be_handle e)\<rparr>,
              i1\<lparr>bi_hits := Suc (bi_hits i1)\<rparr>))"

definition block_acquire ::
  "'s kv_ops \<Rightarrow> string \<Rightarrow> token list \<Rightarrow> prefix_probe \<Rightarrow> block_index \<Rightarrow> 's \<Rightarrow>
     (exn + cache_admission option) \<times> block_index \<times> 's" where
  "block_acquire ops rid toks probe i s =
     (if pp_cache_handle probe = None \<or> pp_matched_tokens probe = 0 then (Inr None, i, s)
      else
        (case block_lookup True toks i of
           (None, i1) \<Rightarrow> (Inr None, i1, s)
         | (Some e, i1) \<Rightarrow>
             if Some (be_handle e) \<noteq> pp_cache_handle probe then (Inr None, i1, s)
             else
               (let i2 = i1\<lparr>bi_entries :=
                      AList.update (be_hash e) (e\<lparr>be_pins := Suc (be_pins e)\<rparr>) (bi_entries i1)\<rparr>
                in case op_fork ops (be_handle e) rid (Some (int (be_length e))) s of
                     (Inl x, s1) \<Rightarrow> (Inl x, i2, s1)
                   | (Inr child, s1) \<Rightarrow>
                       (Inr (Some \<lparr>ca_cache_handle = child, ca_cache_length = be_length e,
                                   ca_reused_tokens = be_length e, ca_reused_pages = be_pages e\<rparr>),
                        i2\<lparr>bi_active := AList.update child (be_hash e) (bi_active i2),
                           bi_reused_tokens := bi_reused_tokens i2 + be_length e,
                           bi_reused_pages := bi_reused_pages i2 + be_pages e\<rparr>, s1))))"

definition snapshot_id :: "string \<Rightarrow> string" where
  "snapshot_id h = ''prefix-cache-'' @ take 16 h"

fun block_publish_loop ::
  "'s kv_ops \<Rightarrow> handle \<Rightarrow> token list \<Rightarrow> int \<Rightarrow> (string \<times> string \<times> nat) list \<Rightarrow> nat \<Rightarrow> block_index \<Rightarrow> 's \<Rightarrow>
     (exn + nat) \<times> block_index \<times> 's" where
  "block_publish_loop ops h toks clock [] published i s = (Inr published, i, s)"
| "block_publish_loop ops h toks clock ((bh, parent, len) # rest) published i s =
     (if map_of (bi_entries i) bh \<noteq> None then block_publish_loop ops h toks clock rest published i s
      else
        (case op_fork ops h (snapshot_id bh) (Some (int len)) s of
           (Inl e, s1) \<Rightarrow> (Inl e, i, s1)
         | (Inr snapshot, s1) \<Rightarrow>
             block_publish_loop ops h toks clock rest len
               (i\<lparr>bi_entries := AList.update bh
                    \<lparr>be_hash = bh, be_parent = parent, be_tokens = take len toks,
                     be_digest = fp_digest (bi_sha i) (bi_compat i), be_handle = snapshot,
                     be_length = len, be_pages = len div bi_page_size i,
                     be_bytes = bytes_for_pages ops (bi_page_size i) s1 1,
                     be_last_used = clock, be_pins = 0\<rparr> (bi_entries i)\<rparr>) s1))"

definition block_publish ::
  "'s kv_ops \<Rightarrow> handle \<Rightarrow> token list \<Rightarrow> nat \<Rightarrow> block_index \<Rightarrow> 's \<Rightarrow>
     (exn + cache_publication) \<times> block_index \<times> 's" where
  "block_publish ops h toks committed i s =
     (let publish_length = min committed (length toks) div bi_page_size i * bi_page_size i
      in if publish_length = 0 then (Inr no_publication, i, s)
         else
           (let chain = take (publishable_pages ops (bi_page_size i) (bi_max_entries i) (bi_max_bytes i) s)
                          (hash_chain i (take publish_length toks));
                (clock, i1) = block_tick i;
                last_hash = (if chain = [] then [] else fst (last chain))
            in case block_publish_loop ops h toks clock chain 0 i1 s of
                 (Inl e, i2, s2) \<Rightarrow> (Inl e, i2, s2)
               | (Inr published, i2, s2) \<Rightarrow>
                   (case block_evict_within ops (Some last_hash) i2 s2 of
                      (Inl e, i3, s3) \<Rightarrow> (Inl e, i3, s3)
                    | (Inr _, i3, s3) \<Rightarrow>
                        (Inr \<lparr>cp_published_tokens = published,
                              cp_published_pages = published div bi_page_size i\<rparr>, i3, s3))))"

definition block_release ::
  "'s kv_ops \<Rightarrow> handle option \<Rightarrow> block_index \<Rightarrow> 's \<Rightarrow> (exn + unit) \<times> block_index \<times> 's" where
  "block_release ops ho i s =
     (case ho of
        None \<Rightarrow> (Inr (), i, s)
      | Some h \<Rightarrow>
          (case map_of (bi_active i) h of
             None \<Rightarrow> (Inr (), i, s)
           | Some bh \<Rightarrow>
               (let i1 = i\<lparr>bi_active := AList.delete h (bi_active i)\<rparr>;
                    i2 = (case map_of (bi_entries i1) bh of
                            None \<Rightarrow> i1
                          | Some e \<Rightarrow> i1\<lparr>bi_entries :=
                              AList.update bh (e\<lparr>be_pins := be_pins e - 1\<rparr>) (bi_entries i1)\<rparr>)
                in block_evict_within ops None i2 s)))"

record index_metrics =
  im_strategy :: string
  im_queries :: nat
  im_hits :: nat
  im_misses :: nat
  im_reused_tokens :: nat
  im_reused_pages :: nat
  im_entries :: nat
  im_bytes :: nat
  im_pinned_pages :: nat
  im_collisions :: nat
  im_evictions :: nat

definition block_metrics :: "block_index \<Rightarrow> index_metrics" where
  "block_metrics i =
     \<lparr>im_strategy = ''block-hash'', im_queries = bi_queries i, im_hits = bi_hits i,
      im_misses = bi_misses i, im_reused_tokens = bi_reused_tokens i,
      im_reused_pages = bi_reused_pages i, im_entries = length (bi_entries i),
      im_bytes = stored_bytes i,
      im_pinned_pages = sum_list (map be_pages (filter (\<lambda>e. be_pins e \<noteq> 0) (dict_values (bi_entries i)))),
      im_collisions = bi_collisions i, im_evictions = bi_evictions i\<rparr>"

fun release_all :: "'s kv_ops \<Rightarrow> handle list \<Rightarrow> 's \<Rightarrow> (exn + unit) \<times> 's" where
  "release_all ops [] s = (Inr (), s)"
| "release_all ops (h # hs) s =
     (case op_release ops (Some h) s of
        (Inl e, s1) \<Rightarrow> (Inl e, s1)
      | (Inr _, s1) \<Rightarrow> release_all ops hs s1)"

definition block_reset ::
  "'s kv_ops \<Rightarrow> bool \<Rightarrow> bool \<Rightarrow> block_index \<Rightarrow> 's \<Rightarrow> (exn + unit) \<times> block_index \<times> 's" where
  "block_reset ops clear_cache reset_counters i s =
     (if bi_active i \<noteq> [] then
        (Inl (RuntimeError ''cannot reset prefix cache while entries are pinned''), i, s)
      else
        (let (res, s1) = (if clear_cache then release_all ops (map be_handle (dict_values (bi_entries i))) s
                          else (Inr (), s));
             i1 = (if clear_cache then i\<lparr>bi_entries := []\<rparr> else i);
             i2 = (if reset_counters then
                     i1\<lparr>bi_queries := 0, bi_hits := 0, bi_misses := 0, bi_reused_tokens := 0,
                        bi_reused_pages := 0, bi_collisions := 0, bi_evictions := 0\<rparr> else i1)
         in case res of Inl e \<Rightarrow> (Inl e, i, s1) | Inr _ \<Rightarrow> (Inr (), i2, s1)))"

subsection \<open>The adapter without reuse\<close>

definition none_probe :: "token list \<Rightarrow> unit \<Rightarrow> prefix_probe \<times> unit" where
  "none_probe toks i = (no_probe, i)"

definition none_acquire ::
  "string \<Rightarrow> token list \<Rightarrow> prefix_probe \<Rightarrow> unit \<Rightarrow> 's \<Rightarrow> (exn + cache_admission option) \<times> unit \<times> 's" where
  "none_acquire rid toks probe i s = (Inr None, i, s)"

definition none_publish ::
  "handle \<Rightarrow> token list \<Rightarrow> nat \<Rightarrow> unit \<Rightarrow> 's \<Rightarrow> (exn + cache_publication) \<times> unit \<times> 's" where
  "none_publish h toks committed i s = (Inr no_publication, i, s)"

definition none_release :: "handle option \<Rightarrow> unit \<Rightarrow> 's \<Rightarrow> (exn + unit) \<times> unit \<times> 's" where
  "none_release ho i s = (Inr (), i, s)"

definition none_metrics :: "unit \<Rightarrow> index_metrics" where
  "none_metrics i =
     \<lparr>im_strategy = ''none'', im_queries = 0, im_hits = 0, im_misses = 0, im_reused_tokens = 0,
      im_reused_pages = 0, im_entries = 0, im_bytes = 0, im_pinned_pages = 0, im_collisions = 0,
      im_evictions = 0\<rparr>"

definition none_reset :: "bool \<Rightarrow> bool \<Rightarrow> unit \<Rightarrow> 's \<Rightarrow> (exn + unit) \<times> unit \<times> 's" where
  "none_reset clear_cache reset_counters i s = (Inr (), i, s)"

end
