(* ===== verification/PagedKV.thy ===== *)
theory PagedKV
  imports Text
begin

text \<open>
  The paged KV-cache pool, \<^verbatim>\<open>PagedKVCacheBackend\<close> and
  \<^verbatim>\<open>PagedBatchReservation\<close> in \<^verbatim>\<open>native_mlx/cache.py\<close>.

  An MLX array of shape \<open>(num_pages, page_size, kv_heads, head_dim)\<close> is a function from the
  flat slot number \<open>page * page_size + offset\<close> to one row (the \<open>kv_heads \<times> head_dim\<close>
  values of one token), the type \<open>'v\<close>.  A \<^verbatim>\<open>PagedRequestCache\<close> object is
  identified by its handle, which the code draws once from \<^verbatim>\<open>uuid4\<close> and never
  reassigns: \<open>objs\<close> is the object store and \<open>live\<close> the keys of the dictionary
  \<^verbatim>\<open>_caches\<close>.  The source of \<^verbatim>\<open>uuid4().hex\<close> values is the stream
  \<open>uuids\<close>.  \<^verbatim>\<open>_free_pages\<close> and the two count lists are lists, as in the code.
\<close>

subsection \<open>State\<close>

datatype dtype = Float16 | Bfloat16 | OtherDtype nat

fun itemsize :: "dtype \<Rightarrow> nat" where
  "itemsize Float16 = 2"
| "itemsize Bfloat16 = 2"
| "itemsize (OtherDtype n) = n"

record request_cache =
  rc_handle :: handle
  rc_request_id :: string
  block_table :: "nat list"
  rc_length :: nat

record 'v kv =
  num_layers :: nat
  num_kv_heads :: nat
  head_dim :: nat
  page_size :: nat
  kv_dtype :: dtype
  bytes_per_page :: nat
  num_pages :: nat
  objs :: "handle \<Rightarrow> request_cache"
  live :: "handle list"
  reserved_pages :: "nat set"
  allocation_failures :: nat
  free_pages :: "nat list"
  ref_counts :: "int list"
  pin_counts :: "int list"
  key_pages :: "(nat \<Rightarrow> 'v) list"
  value_pages :: "(nat \<Rightarrow> 'v) list"
  uuids :: "nat \<Rightarrow> string"
  next_uuid :: nat

text \<open>A model tensor handed to the cache: its shape, its dtype and its rows by batch index and
  position.\<close>

record 'v tensor =
  t_shape :: "nat list"
  t_dtype :: dtype
  t_row :: "nat \<Rightarrow> nat \<Rightarrow> 'v"

record 'v reservation =
  rs_handles :: "handle list"
  append_lengths :: "nat list"
  candidate_tables :: "nat list list"
  rs_reserved :: "nat list"
  copy_pages :: "(nat \<times> nat) list"
  pinned_pages :: "nat list"
  staged_keys :: "(nat \<Rightarrow> 'v) option list"
  staged_values :: "(nat \<Rightarrow> 'v) option list"
  rs_finished :: bool
  rs_block_rows :: "nat list list"
  rs_slots :: "nat list"
  rs_total_lengths :: "nat list"
  rs_max_total_length :: nat

subsection \<open>Construction, lookup, creation\<close>

text \<open>\<^verbatim>\<open>__post_init__\<close>: the geometry checks and the initial pool.\<close>

definition kv_init ::
  "int \<Rightarrow> int \<Rightarrow> int \<Rightarrow> int \<Rightarrow> int \<Rightarrow> dtype \<Rightarrow> 'v \<Rightarrow> (nat \<Rightarrow> string) \<Rightarrow> exn + 'v kv" where
  "kv_init layers heads hdim psize budget dt zero hexes =
     (if psize \<notin> {8, 16, 32} then
        Inl (ValueError ''native KV page size must be one of 8, 16, or 32'')
      else if min layers (min heads hdim) \<le> 0 then
        Inl (ValueError ''native KV geometry must be positive'')
      else if dt \<notin> {Float16, Bfloat16} then
        Inl (ValueError ''native paged KV supports float16 or bfloat16'')
      else
        (let bpp = 2 * layers * psize * heads * hdim * int (itemsize dt);
             pages = budget div bpp
         in if pages \<le> 0 then
              Inl (ValueError ''native text cache budget cannot allocate one complete KV page'')
            else Inr
              \<lparr>num_layers = nat layers, num_kv_heads = nat heads, head_dim = nat hdim,
               page_size = nat psize, kv_dtype = dt, bytes_per_page = nat bpp,
               num_pages = nat pages,
               objs = (\<lambda>_. \<lparr>rc_handle = [], rc_request_id = [], block_table = [], rc_length = 0\<rparr>),
               live = [], reserved_pages = {}, allocation_failures = 0,
               free_pages = [0..<nat pages],
               ref_counts = replicate (nat pages) 0, pin_counts = replicate (nat pages) 0,
               key_pages = replicate (nat layers) (\<lambda>_. zero),
               value_pages = replicate (nat layers) (\<lambda>_. zero),
               uuids = hexes, next_uuid = 0\<rparr>))"

definition paged_handle :: "string \<Rightarrow> string \<Rightarrow> handle" where
  "paged_handle rid hex = ''paged-kv-'' @ rid @ ''-'' @ hex"

definition kv_create :: "string \<Rightarrow> 'v kv \<Rightarrow> handle \<times> 'v kv" where
  "kv_create rid s =
     (let h = paged_handle rid (uuids s (next_uuid s))
      in (h, s\<lparr>next_uuid := Suc (next_uuid s),
               live := (if h \<in> set (live s) then live s else live s @ [h]),
               objs := (objs s)(h := \<lparr>rc_handle = h, rc_request_id = rid,
                                     block_table = [], rc_length = 0\<rparr>)\<rparr>))"

definition kv_get :: "handle option \<Rightarrow> string \<Rightarrow> 'v kv \<Rightarrow> exn + handle" where
  "kv_get ho rid s =
     (case ho of
        None \<Rightarrow> Inl (ValueError ''invalid cache handle'')
      | Some h \<Rightarrow>
          if h \<notin> set (live s) then Inl (ValueError ''invalid cache handle'')
          else if rc_request_id (objs s h) \<noteq> rid then
            Inl (ValueError ''cache handle belongs to different request'')
          else Inr h)"

abbreviation kv_size :: "'v kv \<Rightarrow> handle \<Rightarrow> nat" where
  "kv_size s h \<equiv> rc_length (objs s h)"

definition kv_length :: "handle option \<Rightarrow> 'v kv \<Rightarrow> nat" where
  "kv_length ho s =
     (case ho of None \<Rightarrow> 0 | Some h \<Rightarrow> if h \<notin> set (live s) then 0 else kv_size s h)"

subsection \<open>Reserving pages for one batch\<close>

text \<open>The tail page is shared and partly filled: the append must copy it first.\<close>

definition needs_copy :: "'v kv \<Rightarrow> handle \<Rightarrow> bool" where
  "needs_copy s h \<longleftrightarrow>
     kv_size s h mod page_size s \<noteq> 0 \<and> block_table (objs s h) \<noteq> [] \<and>
     1 < ref_counts s ! last (block_table (objs s h))"

text \<open>\<open>while len(table) < required_pages: page = available.pop(0) \<dots>\<close>; \<open>None\<close> is the
  \<open>IndexError\<close> of popping an empty list.\<close>

fun grow_table ::
  "nat \<Rightarrow> nat list \<Rightarrow> nat list \<Rightarrow> nat list \<Rightarrow> (nat list \<times> nat list \<times> nat list) option" where
  "grow_table required table [] res =
     (if length table < required then None else Some (table, [], res))"
| "grow_table required table (p # ps) res =
     (if length table < required then grow_table required (table @ [p]) ps (res @ [p])
      else Some (table, p # ps, res))"

definition reserve_one ::
  "'v kv \<Rightarrow> handle \<Rightarrow> nat \<Rightarrow> nat list \<Rightarrow>
     (nat list \<times> nat list \<times> nat list \<times> (nat \<times> nat) list) option" where
  "reserve_one s h n available =
     (let table = block_table (objs s h);
          required = ceil_div (kv_size s h + n) (page_size s)
      in if needs_copy s h then
           (case available of
              [] \<Rightarrow> None
            | replacement # rest \<Rightarrow>
                map_option (\<lambda>(t, av, res). (t, av, res, [(last table, replacement)]))
                  (grow_table required (butlast table @ [replacement]) rest [replacement]))
         else
           map_option (\<lambda>(t, av, res). (t, av, res, []))
             (grow_table required table available []))"

fun reserve_loop ::
  "'v kv \<Rightarrow> (handle \<times> nat) list \<Rightarrow> nat list \<Rightarrow>
     (nat list list \<times> nat list \<times> (nat \<times> nat) list) option" where
  "reserve_loop s [] available = Some ([], [], [])"
| "reserve_loop s ((h, n) # rest) available =
     (case reserve_one s h n available of
        None \<Rightarrow> None
      | Some (table, available', res, copies) \<Rightarrow>
          (case reserve_loop s rest available' of
             None \<Rightarrow> None
           | Some (tables, res', copies') \<Rightarrow>
               Some (table # tables, res @ res', copies @ copies')))"

definition available_pages :: "'v kv \<Rightarrow> nat list" where
  "available_pages s = filter (\<lambda>p. p \<notin> reserved_pages s) (free_pages s)"

definition slot_of :: "nat \<Rightarrow> nat list \<Rightarrow> nat \<Rightarrow> nat" where
  "slot_of psize table position =
     table ! (position div psize) * psize + position mod psize"

text \<open>\<^verbatim>\<open>PagedBatchReservation.__post_init__\<close>: padded tables, flat slots, lengths.\<close>

definition build_reservation ::
  "'v kv \<Rightarrow> handle list \<Rightarrow> nat list \<Rightarrow> nat list list \<Rightarrow> nat list \<Rightarrow> (nat \<times> nat) list \<Rightarrow>
     nat list \<Rightarrow> 'v reservation" where
  "build_reservation s hs ns tables res copies pinned =
     (let width = (if tables = [] then 0 else Max (set (map length tables)));
          totals = map2 (\<lambda>h n. kv_size s h + n) hs ns
      in \<lparr>rs_handles = hs, append_lengths = ns, candidate_tables = tables,
          rs_reserved = res, copy_pages = copies, pinned_pages = pinned,
          staged_keys = replicate (num_layers s) None,
          staged_values = replicate (num_layers s) None,
          rs_finished = False,
          rs_block_rows = map (\<lambda>t. t @ replicate (width - length t) 0) tables,
          rs_slots = concat (map (\<lambda>((h, n), t).
             map (slot_of (page_size s) t) [kv_size s h..<kv_size s h + n])
             (zip (zip hs ns) tables)),
          rs_total_lengths = totals,
          rs_max_total_length = (if totals = [] then 0 else Max (set totals))\<rparr>)"

text \<open>\<open>counts[page] += d\<close> for each page of a sequence.\<close>

definition bump :: "int \<Rightarrow> nat list \<Rightarrow> int list \<Rightarrow> int list" where
  "bump d ps counts = fold (\<lambda>p c. c[p := c ! p + d]) ps counts"

definition reserve_batch ::
  "handle list \<Rightarrow> nat list \<Rightarrow> 'v kv \<Rightarrow> (exn + 'v reservation) \<times> 'v kv" where
  "reserve_batch hs ns s =
     (if length hs \<noteq> length ns \<or> hs = [] then
        (Inl (ValueError ''paged cache reservation requires matching requests''), s)
      else if \<not> distinct hs then
        (Inl (ValueError ''paged cache reservation contains duplicate handles''), s)
      else if list_ex (\<lambda>n. n = 0) ns then
        (Inl (ValueError ''paged cache append lengths must be positive''), s)
      else
        (case reserve_loop s (zip hs ns) (available_pages s) of
           None \<Rightarrow>
             (Inl (ValueError ''native paged KV capacity exhausted before model execution''),
              s\<lparr>allocation_failures := Suc (allocation_failures s)\<rparr>)
         | Some (tables, res, copies) \<Rightarrow>
             (let pinned = sort (remdups (concat (map (\<lambda>h. block_table (objs s h)) hs)));
                  s' = s\<lparr>pin_counts := bump 1 pinned (pin_counts s),
                         reserved_pages := reserved_pages s \<union> set res\<rparr>
              in (Inr (build_reservation s hs ns tables res copies pinned), s'))))"

subsection \<open>Preflight\<close>

definition page_cost :: "'v kv \<Rightarrow> handle \<Rightarrow> nat \<Rightarrow> nat" where
  "page_cost s h n =
     (ceil_div (kv_size s h + n) (page_size s) - length (block_table (objs s h))) +
     (if needs_copy s h then 1 else 0)"

fun preflight_loop :: "'v kv \<Rightarrow> (handle \<times> nat) list \<Rightarrow> nat \<Rightarrow> string option list" where
  "preflight_loop s [] available = []"
| "preflight_loop s ((h, n) # rest) available =
     (if available < page_cost s h n then
        Some ''native paged KV capacity exhausted before model execution''
          # preflight_loop s rest available
      else None # preflight_loop s rest (available - page_cost s h n))"

definition preflight ::
  "handle list \<Rightarrow> nat list \<Rightarrow> 'v kv \<Rightarrow> (exn + string option list) \<times> 'v kv" where
  "preflight hs ns s =
     (if length hs \<noteq> length ns then
        (Inl (ValueError ''paged preflight requires matching requests''), s)
      else
        (let results = preflight_loop s (zip hs ns) (length (available_pages s))
         in (Inr results,
             s\<lparr>allocation_failures :=
                 allocation_failures s + length (filter (\<lambda>r. r \<noteq> None) results)\<rparr>)))"

subsection \<open>Staging one layer\<close>

definition validate_kv_shape ::
  "'v tensor \<Rightarrow> 'v tensor \<Rightarrow> nat list \<Rightarrow> 'v kv \<Rightarrow> exn + unit" where
  "validate_kv_shape keys values ns s =
     (case t_shape keys of
        [batch, heads, sequence, hdim] \<Rightarrow>
          if t_shape keys \<noteq> t_shape values then
            Inl (ValueError ''paged K/V tensors must have identical rank-4 shapes'')
          else if batch \<noteq> length ns then
            Inl (ValueError ''paged K/V batch does not match reservation'')
          else if heads \<noteq> num_kv_heads s \<or> hdim \<noteq> head_dim s then
            Inl (ValueError ''paged K/V head geometry is unsupported'')
          else if ns = [] then
            Inl (ValueError ''max() arg is an empty sequence'')
          else if sequence < Max (set ns) then
            Inl (ValueError ''paged K/V sequence is shorter than scheduled append'')
          else if t_dtype keys \<noteq> kv_dtype s \<or> t_dtype values \<noteq> kv_dtype s then
            Inl (ValueError ''paged K/V dtype does not match configured cache dtype'')
          else Inr ()
      | _ \<Rightarrow> Inl (ValueError ''paged K/V tensors must have identical rank-4 shapes''))"

text \<open>\<open>cache[new_page] = cache[old_page]\<close> for each copied page, then the scattered rows.\<close>

definition copy_page :: "nat \<Rightarrow> nat \<times> nat \<Rightarrow> (nat \<Rightarrow> 'v) \<Rightarrow> nat \<Rightarrow> 'v" where
  "copy_page psize c pages =
     (\<lambda>slot. if slot div psize = snd c then pages (fst c * psize + slot mod psize)
             else pages slot)"

definition scatter :: "(nat \<times> 'v) list \<Rightarrow> (nat \<Rightarrow> 'v) \<Rightarrow> nat \<Rightarrow> 'v" where
  "scatter writes pages = fold (\<lambda>(slot, v) f. f(slot := v)) writes pages"

definition packed_rows :: "nat list \<Rightarrow> 'v tensor \<Rightarrow> 'v list" where
  "packed_rows ns t =
     concat (map (\<lambda>(i, n). map (t_row t i) [0..<n]) (enumerate 0 ns))"

text \<open>MLX index assignment updates the array object in place, so the copied pages are written to
  the pool's own arrays; the scattered rows go to the reshaped arrays, which only the
  reservation holds.\<close>

definition stage_layer ::
  "nat \<Rightarrow> 'v tensor \<Rightarrow> 'v tensor \<Rightarrow> 'v reservation \<Rightarrow> 'v kv \<Rightarrow>
     (exn + (nat \<Rightarrow> 'v) \<times> (nat \<Rightarrow> 'v)) \<times> 'v reservation \<times> 'v kv" where
  "stage_layer layer keys values r s =
     (if rs_finished r then (Inl (ValueError ''cache reservation already finished''), r, s)
      else if layer \<ge> length (staged_keys r) then (Inl IndexError, r, s)
      else if staged_keys r ! layer \<noteq> None then
        (Inl (ValueError (''layer '' @ nat_str layer @ '' staged more than once'')), r, s)
      else
        (case validate_kv_shape keys values (append_lengths r) s of
           Inl e \<Rightarrow> (Inl e, r, s)
         | Inr _ \<Rightarrow>
             (let kbase = fold (copy_page (page_size s)) (copy_pages r) (key_pages s ! layer);
                  vbase = fold (copy_page (page_size s)) (copy_pages r) (value_pages s ! layer);
                  knew = scatter (zip (rs_slots r) (packed_rows (append_lengths r) keys)) kbase;
                  vnew = scatter (zip (rs_slots r) (packed_rows (append_lengths r) values)) vbase
              in (Inr (knew, vnew),
                  r\<lparr>staged_keys := (staged_keys r)[layer := Some knew],
                    staged_values := (staged_values r)[layer := Some vnew]\<rparr>,
                  s\<lparr>key_pages := (key_pages s)[layer := kbase],
                    value_pages := (value_pages s)[layer := vbase]\<rparr>))))"

subsection \<open>Commit and abort\<close>

text \<open>\<open>self._pin_counts[page] -= 1\<close> with its check; the flag is false when it raised.\<close>

fun unpin :: "nat list \<Rightarrow> int list \<Rightarrow> bool \<times> int list" where
  "unpin [] counts = (True, counts)"
| "unpin (p # ps) counts =
     (let counts' = counts[p := counts ! p - 1]
      in if counts' ! p < 0 then (False, counts') else unpin ps counts')"

definition finish_reservation :: "'v reservation \<Rightarrow> 'v kv \<Rightarrow> (exn + unit) \<times> 'v kv" where
  "finish_reservation r s =
     (let (ok, pins) = unpin (pinned_pages r) (pin_counts s);
          s' = s\<lparr>reserved_pages := reserved_pages s - set (rs_reserved r), pin_counts := pins\<rparr>
      in if ok then (Inr (), s')
         else (Inl (ValueError ''paged KV page pin count became negative''), s'))"

definition candidate_counts :: "'v reservation \<Rightarrow> 'v kv \<Rightarrow> int list" where
  "candidate_counts r s =
     (let old = concat (map (\<lambda>h. block_table (objs s h)) (rs_handles r));
          new = concat (candidate_tables r)
      in map (\<lambda>p. ref_counts s ! p - int (count_list old p) + int (count_list new p))
           [0..<length (ref_counts s)])"

definition commit_objs :: "'v reservation \<Rightarrow> (handle \<Rightarrow> request_cache) \<Rightarrow> handle \<Rightarrow> request_cache" where
  "commit_objs r objects =
     fold (\<lambda>((h, table), n) f.
             f(h := (f h)\<lparr>block_table := table, rc_length := rc_length (f h) + n\<rparr>))
       (zip (zip (rs_handles r) (candidate_tables r)) (append_lengths r)) objects"

definition commit_reservation ::
  "'v reservation \<Rightarrow> (nat \<Rightarrow> 'v) option list \<Rightarrow> (nat \<Rightarrow> 'v) option list \<Rightarrow> 'v kv \<Rightarrow>
     (exn + nat list) \<times> 'v kv" where
  "commit_reservation r skeys svalues s =
     (if list_ex (\<lambda>c. c < 0) (candidate_counts r s) then
        (Inl (ValueError ''paged KV page reference count became negative''), s)
      else
        (let refs = candidate_counts r s;
             free = fold remove1 (rs_reserved r) (free_pages s);
             freed = filter (\<lambda>p. refs ! p = 0 \<and> pin_counts s ! p = 0 \<and> p \<notin> set free \<and>
                                 p \<notin> set (rs_reserved r)) [0..<length refs];
             s1 = s\<lparr>ref_counts := refs,
                    key_pages := map2 (\<lambda>cur new. case new of None \<Rightarrow> cur | Some v \<Rightarrow> v)
                                   (key_pages s) skeys,
                    value_pages := map2 (\<lambda>cur new. case new of None \<Rightarrow> cur | Some v \<Rightarrow> v)
                                   (value_pages s) svalues,
                    objs := commit_objs r (objs s),
                    free_pages := free @ freed\<rparr>
         in case finish_reservation r s1 of
              (Inl e, s2) \<Rightarrow> (Inl e, s2)
            | (Inr _, s2) \<Rightarrow>
                (Inr (map (kv_size s2) (rs_handles r)), s2\<lparr>free_pages := sort (free_pages s2)\<rparr>)))"

definition commit ::
  "'v reservation \<Rightarrow> 'v kv \<Rightarrow> (exn + nat list) \<times> 'v reservation \<times> 'v kv" where
  "commit r s =
     (if rs_finished r then (Inl (ValueError ''cache reservation already finished''), r, s)
      else if list_ex (\<lambda>(k, v). (k = None) \<noteq> (v = None) \<or> k = None)
                (zip (staged_keys r) (staged_values r)) then
        (Inl (ValueError ''paged cache commit missing one or more layers''), r, s)
      else
        (case commit_reservation r (staged_keys r) (staged_values r) s of
           (Inl e, s') \<Rightarrow> (Inl e, r, s')
         | (Inr lengths, s') \<Rightarrow> (Inr lengths, r\<lparr>rs_finished := True\<rparr>, s')))"

definition abort ::
  "'v reservation \<Rightarrow> 'v kv \<Rightarrow> (exn + unit) \<times> 'v reservation \<times> 'v kv" where
  "abort r s =
     (if rs_finished r then (Inr (), r, s)
      else
        (case finish_reservation r s of
           (Inl e, s') \<Rightarrow> (Inl e, r, s')
         | (Inr _, s') \<Rightarrow> (Inr (), r\<lparr>rs_finished := True\<rparr>, s')))"

subsection \<open>Fork, release, metrics, reset\<close>

definition kv_fork ::
  "handle \<Rightarrow> string \<Rightarrow> int option \<Rightarrow> 'v kv \<Rightarrow> (exn + handle) \<times> 'v kv" where
  "kv_fork h rid len s =
     (if h \<notin> set (live s) then (Inl (KeyError h), s)
      else
        (let source = objs s h;
             fork_length = (case len of None \<Rightarrow> int (rc_length source) | Some n \<Rightarrow> n)
         in if fork_length < 0 \<or> int (rc_length source) < fork_length then
              (Inl (ValueError ''fork length is outside source cache''), s)
            else
              (let pages = take (ceil_div (nat fork_length) (page_size s)) (block_table source);
                   (new, s1) = kv_create rid s
               in (Inr new,
                   s1\<lparr>objs := (objs s1)(new := (objs s1 new)
                         \<lparr>block_table := pages, rc_length := nat fork_length\<rparr>),
                      ref_counts := bump 1 pages (ref_counts s1)\<rparr>))))"

fun release_pages :: "nat list \<Rightarrow> 'v kv \<Rightarrow> (exn + unit) \<times> 'v kv" where
  "release_pages [] s = (Inr (), s)"
| "release_pages (p # ps) s =
     (let refs = (ref_counts s)[p := ref_counts s ! p - 1]
      in if refs ! p < 0 then
           (Inl (ValueError ''paged KV page reference count became negative''), s\<lparr>ref_counts := refs\<rparr>)
         else release_pages ps
           (s\<lparr>ref_counts := refs,
              free_pages := (if refs ! p = 0 \<and> pin_counts s ! p = 0 \<and> p \<notin> set (free_pages s)
                             then free_pages s @ [p] else free_pages s)\<rparr>))"

definition kv_release :: "handle option \<Rightarrow> 'v kv \<Rightarrow> (exn + unit) \<times> 'v kv" where
  "kv_release ho s =
     (case ho of
        None \<Rightarrow> (Inr (), s)
      | Some h \<Rightarrow>
          if h \<notin> set (live s) then (Inr (), s)
          else
            (case release_pages (block_table (objs s h)) (s\<lparr>live := remove1 h (live s)\<rparr>) of
               (Inl e, s') \<Rightarrow> (Inl e, s')
             | (Inr _, s') \<Rightarrow> (Inr (), s'\<lparr>free_pages := sort (free_pages s')\<rparr>)))"

record kv_metrics_view =
  m_total_pages :: nat
  m_used_pages :: nat
  m_free_pages :: int
  m_pinned_pages :: nat
  m_fragmentation :: nat
  m_active_bytes :: nat
  m_failures :: nat
  m_page_size :: nat

definition kv_metrics :: "'v kv \<Rightarrow> kv_metrics_view" where
  "kv_metrics s =
     (let used = length (filter (\<lambda>c. 0 < c) (ref_counts s));
          pinned = length (filter (\<lambda>c. 0 < c) (pin_counts s));
          frag = sum_list (map (\<lambda>h. ceil_div (kv_size s h) (page_size s) * page_size s - kv_size s h)
                   (filter (\<lambda>h. kv_size s h \<noteq> 0) (live s)))
      in \<lparr>m_total_pages = num_pages s, m_used_pages = used,
          m_free_pages = int (num_pages s) - int used, m_pinned_pages = pinned,
          m_fragmentation = frag, m_active_bytes = used * bytes_per_page s,
          m_failures = allocation_failures s, m_page_size = page_size s\<rparr>)"

definition kv_reset :: "bool \<Rightarrow> 'v kv \<Rightarrow> (exn + unit) \<times> 'v kv" where
  "kv_reset reset_counters s =
     (if reserved_pages s \<noteq> {} \<or> list_ex (\<lambda>c. c \<noteq> 0) (pin_counts s) then
        (Inl (RuntimeError ''cannot reset KV cache while pages are reserved or pinned''), s)
      else
        (Inr (),
         s\<lparr>live := [], free_pages := [0..<num_pages s],
           ref_counts := replicate (num_pages s) 0,
           allocation_failures := (if reset_counters then 0 else allocation_failures s)\<rparr>))"

end
