(* ===== verification/PagedInv.thy ===== *)
theory PagedInv
  imports PagedKV
begin

text \<open>
  The invariant of the paged pool and what every operation does to it: reference counts are the
  number of table entries that name a page, free pages are unreferenced, a table covers exactly
  the tokens of its request, and an outstanding reservation writes only to slots that no live
  request can read.
\<close>

subsection \<open>Counting loops\<close>

lemma length_bump [simp]: "length (bump d ps c) = length c"
  unfolding bump_def by (induction ps arbitrary: c) simp_all

lemma nth_bump:
  "p < length c \<Longrightarrow> bump d ps c ! p = c ! p + d * int (count_list ps p)"
proof (induction ps arbitrary: c)
  case (Cons q ps)
  have "bump d (q # ps) c = bump d ps (c[q := c ! q + d])" by (simp add: bump_def)
  with Cons show ?case by (auto simp: nth_list_update algebra_simps)
qed (simp add: bump_def)

lemma unpin_ok:
  assumes "\<And>p. p \<in> set ps \<Longrightarrow> p < length c \<and> int (count_list ps p) \<le> c ! p"
  shows "unpin ps c = (True, bump (-1) ps c)"
  using assms
proof (induction ps arbitrary: c)
  case (Cons q ps)
  let ?c = "c[q := c ! q - 1]"
  have q: "q < length c" "int (count_list (q # ps) q) \<le> c ! q" using Cons.prems [of q] by simp_all
  have "unpin ps ?c = (True, bump (-1) ps ?c)"
  proof (rule Cons.IH)
    fix p assume "p \<in> set ps"
    then show "p < length ?c \<and> int (count_list ps p) \<le> ?c ! p"
      using Cons.prems [of p] q by (cases "p = q") (simp_all add: nth_list_update)
  qed
  moreover have "\<not> ?c ! q < 0" using q by simp
  moreover have "bump (-1) (q # ps) c = bump (-1) ps ?c" by (simp add: bump_def)
  ultimately show ?case by (simp add: Let_def)
qed (simp add: bump_def)

subsection \<open>What a reservation takes\<close>

lemma grow_table_Some:
  "grow_table req t av res = Some (t', av', res') \<Longrightarrow>
   \<exists>fresh. t' = t @ fresh \<and> av = fresh @ av' \<and> res' = res @ fresh \<and> length t' = max (length t) req"
proof (induction req t av res rule: grow_table.induct)
  case (2 req t p ps res)
  show ?case
  proof (cases "length t < req")
    case True
    with "2.IH" "2.prems" obtain fresh where
      "t' = (t @ [p]) @ fresh" "ps = fresh @ av'" "res' = (res @ [p]) @ fresh"
      "length t' = max (length (t @ [p])) req" by auto
    with True show ?thesis by (intro exI [of _ "p # fresh"]) auto
  next
    case False
    with "2.prems" show ?thesis by auto
  qed
qed (auto split: if_splits)

lemma grow_table_total:
  "grow_table req t av res = None \<longleftrightarrow> length av < req - length t"
  by (induction req t av res rule: grow_table.induct) auto

definition takes :: "'v kv \<Rightarrow> handle \<Rightarrow> nat \<Rightarrow> nat list \<Rightarrow> nat list \<Rightarrow> (nat \<times> nat) list \<Rightarrow> bool" where
  "takes s h n table res copies \<longleftrightarrow>
     length res = page_cost s h n \<and>
     length table = max (length (block_table (objs s h))) (ceil_div (kv_size s h + n) (page_size s)) \<and>
     (if needs_copy s h then
        \<exists>r fresh. res = r # fresh \<and> table = butlast (block_table (objs s h)) @ r # fresh \<and>
          copies = [(last (block_table (objs s h)), r)]
      else table = block_table (objs s h) @ res \<and> copies = [])"

lemma reserve_one_Some:
  assumes "reserve_one s h n av = Some (t, av', res, copies)"
  shows "av = res @ av' \<and> takes s h n t res copies"
proof (cases "needs_copy s h")
  case True
  then have ne: "block_table (objs s h) \<noteq> []" by (simp add: needs_copy_def)
  from True assms obtain r rest where av: "av = r # rest"
    and g: "grow_table (ceil_div (kv_size s h + n) (page_size s))
        (butlast (block_table (objs s h)) @ [r]) rest [r] = Some (t, av', res)"
    and c: "copies = [(last (block_table (objs s h)), r)]"
    by (auto simp: reserve_one_def Let_def split: list.splits)
  from grow_table_Some [OF g] obtain fresh where f:
    "t = (butlast (block_table (objs s h)) @ [r]) @ fresh" "rest = fresh @ av'" "res = [r] @ fresh"
    "length t = max (length (butlast (block_table (objs s h)) @ [r])) (ceil_div (kv_size s h + n) (page_size s))"
    by blast
  have l: "length (butlast (block_table (objs s h)) @ [r]) = length (block_table (objs s h))"
    using ne by (cases "block_table (objs s h)") auto
  have lt: "length t = length (block_table (objs s h)) + length fresh"
    using f(1) l by (metis length_append)
  have "length res = page_cost s h n"
    using f(3,4) lt l True by (simp add: page_cost_def max_def split: if_splits)
  with f l c av True show ?thesis by (auto simp: takes_def)
next
  case False
  with assms have g: "grow_table (ceil_div (kv_size s h + n) (page_size s))
      (block_table (objs s h)) av [] = Some (t, av', res)" and c: "copies = []"
    by (auto simp: reserve_one_def Let_def)
  from grow_table_Some [OF g] obtain fresh where
    "t = block_table (objs s h) @ fresh" "av = fresh @ av'" "res = fresh"
    "length t = max (length (block_table (objs s h))) (ceil_div (kv_size s h + n) (page_size s))"
    by auto
  with c False show ?thesis by (auto simp: takes_def page_cost_def max_def split: if_splits)
qed

lemma reserve_one_None:
  "reserve_one s h n av = None \<longleftrightarrow> length av < page_cost s h n"
proof (cases "needs_copy s h")
  case True
  then have "block_table (objs s h) \<noteq> []" by (simp add: needs_copy_def)
  then have "Suc (length (block_table (objs s h)) - Suc 0) = length (block_table (objs s h))"
    by (cases "block_table (objs s h)") auto
  with True show ?thesis
    by (cases av) (auto simp: reserve_one_def Let_def grow_table_total page_cost_def)
next
  case False
  then show ?thesis
    by (auto simp: reserve_one_def Let_def grow_table_total page_cost_def)
qed

lemma reserve_loop_Some:
  "reserve_loop s xs av = Some (ts, res, copies) \<Longrightarrow>
   \<exists>rs cs av'. av = res @ av' \<and> res = concat rs \<and> copies = concat cs \<and>
     length ts = length xs \<and> length rs = length xs \<and> length cs = length xs \<and>
     (\<forall>i < length xs. takes s (fst (xs ! i)) (snd (xs ! i)) (ts ! i) (rs ! i) (cs ! i))"
proof (induction s xs av arbitrary: ts res copies rule: reserve_loop.induct)
  case (1 s available)
  then show ?case by (auto intro!: exI [of _ "[]"])
next
  case (2 s h n rest av)
  from "2.prems" obtain t av1 r1 c1 ts2 r2 c2 where
    one: "reserve_one s h n av = Some (t, av1, r1, c1)"
    and tail: "reserve_loop s rest av1 = Some (ts2, r2, c2)"
    and eqs: "ts = t # ts2" "res = r1 @ r2" "copies = c1 @ c2"
    by (auto split: option.splits)
  from "2.IH" [OF one refl refl refl tail] obtain rs cs av' where ih:
    "av1 = r2 @ av'" "r2 = concat rs" "c2 = concat cs" "length ts2 = length rest"
    "length rs = length rest" "length cs = length rest"
    "\<forall>i < length rest. takes s (fst (rest ! i)) (snd (rest ! i)) (ts2 ! i) (rs ! i) (cs ! i)"
    by blast
  from reserve_one_Some [OF one] ih eqs show ?case
    by (intro exI [of _ "r1 # rs"] exI [of _ "c1 # cs"] exI [of _ av'])
      (auto simp: nth_Cons split: nat.splits)
qed

lemma reserve_loop_None:
  "reserve_loop s xs av = None \<longleftrightarrow>
   length av < sum_list (map (\<lambda>(h, n). page_cost s h n) xs)"
proof (induction s xs av rule: reserve_loop.induct)
  case (2 s h n rest av)
  show ?case
  proof (cases "reserve_one s h n av")
    case None
    then show ?thesis using reserve_one_None [of s h n av] by simp
  next
    case (Some x)
    obtain t av1 r1 c1 where x: "x = (t, av1, r1, c1)" by (metis prod_cases4)
    from reserve_one_Some [OF Some [unfolded x]]
    have "length av = page_cost s h n + length av1" by (auto simp: takes_def)
    with "2.IH" [OF Some [unfolded x] refl refl refl] Some x show ?thesis
      by (auto split: option.splits)
  qed
qed simp

text \<open>The preflight admits exactly what the reservation can take, request by request.\<close>

lemma preflight_loop_length [simp]: "length (preflight_loop s xs av) = length xs"
  by (induction s xs av rule: preflight_loop.induct) simp_all

definition admitted :: "'a list \<Rightarrow> string option list \<Rightarrow> 'a list" where
  "admitted xs results = map fst (filter (\<lambda>(x, e). e = None) (zip xs results))"

lemma preflight_loop_admits:
  "sum_list (map (\<lambda>(h, n). page_cost s h n) (admitted xs (preflight_loop s xs av))) \<le> av"
  by (induction s xs av rule: preflight_loop.induct) (auto simp: admitted_def)

lemma preflight_admits_reserve_loop:
  assumes "length av = n"
  shows "\<exists>r. reserve_loop s (admitted xs (preflight_loop s xs n)) av = Some r"
  using preflight_loop_admits [of s xs n] assms reserve_loop_None [of s _ av]
  by (metis not_le not_None_eq)

subsection \<open>The invariant\<close>

definition total_refs :: "'v kv \<Rightarrow> nat \<Rightarrow> nat" where
  "total_refs s p = count_list (concat (map (\<lambda>h. block_table (objs s h)) (live s))) p"

definition cache_wf :: "'v kv \<Rightarrow> request_cache \<Rightarrow> bool" where
  "cache_wf s c \<longleftrightarrow>
     distinct (block_table c) \<and> (\<forall>p \<in> set (block_table c). p < num_pages s) \<and>
     length (block_table c) = ceil_div (rc_length c) (page_size s)"

text \<open>\<open>uuid4().hex\<close> never gives the same string twice, and its strings have one length, so no
  one is a suffix of another.  (The suffix law is what is used; over an unbounded stream the equal
  length could not hold.)\<close>

definition uuid_source :: "(nat \<Rightarrow> string) \<Rightarrow> bool" where
  "uuid_source u \<longleftrightarrow> (\<forall>m n. suffix (u m) (u n) \<longrightarrow> m = n)"

definition handles_drawn :: "'v kv \<Rightarrow> bool" where
  "handles_drawn s \<longleftrightarrow> (\<forall>h \<in> set (live s). \<exists>n < next_uuid s. suffix (uuids s n) h)"

definition kv_wf :: "'v kv \<Rightarrow> bool" where
  "kv_wf s \<longleftrightarrow>
     0 < page_size s \<and> length (ref_counts s) = num_pages s \<and> length (pin_counts s) = num_pages s \<and>
     length (key_pages s) = num_layers s \<and> length (value_pages s) = num_layers s \<and>
     distinct (live s) \<and> (\<forall>h \<in> set (live s). cache_wf s (objs s h)) \<and>
     (\<forall>p < num_pages s. ref_counts s ! p = int (total_refs s p)) \<and>
     sorted (free_pages s) \<and> distinct (free_pages s) \<and>
     (\<forall>p \<in> set (free_pages s). p < num_pages s \<and> total_refs s p = 0) \<and>
     (\<forall>p < num_pages s. 0 \<le> pin_counts s ! p) \<and>
     reserved_pages s \<subseteq> set (free_pages s) \<and>
     uuid_source (uuids s) \<and> handles_drawn s"

text \<open>No reservation is outstanding.\<close>

definition quiescent :: "'v kv \<Rightarrow> bool" where
  "quiescent s \<longleftrightarrow> reserved_pages s = {} \<and> (\<forall>p < num_pages s. pin_counts s ! p = 0)"

lemma kv_wfD:
  assumes "kv_wf s"
  shows "0 < page_size s" "length (ref_counts s) = num_pages s" "length (pin_counts s) = num_pages s"
    "length (key_pages s) = num_layers s" "length (value_pages s) = num_layers s"
    "distinct (live s)" "\<And>h. h \<in> set (live s) \<Longrightarrow> cache_wf s (objs s h)"
    "\<And>p. p < num_pages s \<Longrightarrow> ref_counts s ! p = int (total_refs s p)"
    "sorted (free_pages s)" "distinct (free_pages s)"
    "\<And>p. p \<in> set (free_pages s) \<Longrightarrow> p < num_pages s \<and> total_refs s p = 0"
    "\<And>p. p < num_pages s \<Longrightarrow> 0 \<le> pin_counts s ! p"
    "reserved_pages s \<subseteq> set (free_pages s)"
    "uuid_source (uuids s)" "handles_drawn s"
  using assms unfolding kv_wf_def by blast+

lemma total_refs_pos_iff:
  "0 < total_refs s p \<longleftrightarrow> (\<exists>h \<in> set (live s). p \<in> set (block_table (objs s h)))"
  by (auto simp: total_refs_def)

lemma live_page_not_free:
  assumes "kv_wf s" "h \<in> set (live s)" "p \<in> set (block_table (objs s h))"
  shows "p < num_pages s" "p \<notin> set (free_pages s)" "0 < ref_counts s ! p"
proof -
  show lt: "p < num_pages s" using kv_wfD(7) [OF assms(1,2)] assms(3) by (simp add: cache_wf_def)
  have pos: "0 < total_refs s p" using assms(2,3) total_refs_pos_iff by blast
  then show "0 < ref_counts s ! p" using kv_wfD(8) [OF assms(1) lt] by simp
  show "p \<notin> set (free_pages s)" using kv_wfD(11) [OF assms(1)] pos by fastforce
qed

text \<open>A page whose count is one belongs to a single table.\<close>

lemma count_list_concat_ge2:
  assumes "distinct hs" "h \<in> set hs" "h' \<in> set hs" "h \<noteq> h'" "p \<in> set (f h)" "p \<in> set (f h')"
  shows "2 \<le> count_list (concat (map f hs)) p"
proof -
  have pos: "1 \<le> count_list (f k) p" if "p \<in> set (f k)" for k
    using count_list_ge_Suc [OF that] by simp
  from assms(2) obtain a b where ab: "hs = a @ h # b" by (meson split_list)
  with assms(3,4) have "h' \<in> set a \<or> h' \<in> set b" by auto
  then have "1 \<le> count_list (concat (map f a)) p + count_list (concat (map f b)) p"
  proof
    assume "h' \<in> set a"
    then have "p \<in> set (concat (map f a))" using assms(6) by auto
    then show ?thesis using count_list_ge_Suc [of p "concat (map f a)"] by simp
  next
    assume "h' \<in> set b"
    then have "p \<in> set (concat (map f b))" using assms(6) by auto
    then show ?thesis using count_list_ge_Suc [of p "concat (map f b)"] by simp
  qed
  with pos [OF assms(5)] show ?thesis by (simp add: ab)
qed

lemma exclusive_page:
  assumes "kv_wf s" "h \<in> set (live s)" "p \<in> set (block_table (objs s h))" "ref_counts s ! p \<le> 1"
    and "h' \<in> set (live s)" "p \<in> set (block_table (objs s h'))"
  shows "h' = h"
proof (rule ccontr)
  assume "h' \<noteq> h"
  then have "2 \<le> total_refs s p"
    unfolding total_refs_def
    using count_list_concat_ge2 [of "live s" h h' p "\<lambda>h. block_table (objs s h)"] assms kv_wfD(6)
    by auto
  then show False
    using assms(4) kv_wfD(8) [OF assms(1)] live_page_not_free(1) [OF assms(1-3)] by simp
qed

subsection \<open>What the pool holds for a request\<close>

definition rows :: "'v kv \<Rightarrow> (nat \<Rightarrow> 'v) \<Rightarrow> handle \<Rightarrow> 'v list" where
  "rows s pages h =
     map (\<lambda>i. pages (slot_of (page_size s) (block_table (objs s h)) i)) [0..<kv_size s h]"

text \<open>The abstract pool: the live handles, each with its request and one list of key rows and one
  of value rows per layer.\<close>

type_synonym 'v content = "string \<times> 'v list list \<times> 'v list list"

definition content :: "'v kv \<Rightarrow> handle \<Rightarrow> 'v content" where
  "content s h =
     (rc_request_id (objs s h), map (\<lambda>pg. rows s pg h) (key_pages s),
      map (\<lambda>pg. rows s pg h) (value_pages s))"

definition kv_abs :: "'v kv \<Rightarrow> handle \<Rightarrow> 'v content option" where
  "kv_abs s h = (if h \<in> set (live s) then Some (content s h) else None)"

text \<open>The slots of a request: the part of the pool it reads.\<close>

definition live_slots :: "'v kv \<Rightarrow> handle \<Rightarrow> nat set" where
  "live_slots s h = slot_of (page_size s) (block_table (objs s h)) ` {0..<kv_size s h}"

lemma slot_of_inj:
  assumes "0 < ps" "slot_of ps t i = slot_of ps t' j"
  shows "t ! (i div ps) = t' ! (j div ps)" "i mod ps = j mod ps"
proof -
  have "slot_of ps t i div ps = t ! (i div ps)" "slot_of ps t' j div ps = t' ! (j div ps)"
    "slot_of ps t i mod ps = i mod ps" "slot_of ps t' j mod ps = j mod ps"
    using assms(1) by (simp_all add: slot_of_def)
  with assms(2) show "t ! (i div ps) = t' ! (j div ps)" "i mod ps = j mod ps" by metis+
qed

lemma live_slot_page:
  assumes "kv_wf s" "h \<in> set (live s)" "x \<in> live_slots s h"
  shows "x div page_size s \<in> set (block_table (objs s h))"
proof -
  from assms(3) obtain i where i: "i < kv_size s h" "x = slot_of (page_size s) (block_table (objs s h)) i"
    by (auto simp: live_slots_def)
  have "i div page_size s < length (block_table (objs s h))"
    using kv_wfD(1,7) [OF assms(1)] assms(2) i(1) div_less_ceil_div by (auto simp: cache_wf_def)
  moreover have "x div page_size s = block_table (objs s h) ! (i div page_size s)"
    using i(2) kv_wfD(1) [OF assms(1)] by (simp add: slot_of_def)
  ultimately show ?thesis by simp
qed

lemma rows_cong:
  assumes "\<And>x. x \<in> live_slots s h \<Longrightarrow> pages x = pages' x"
  shows "rows s pages h = rows s pages' h"
  using assms by (auto simp: rows_def live_slots_def)

lemma content_cong:
  "page_size s' = page_size s \<Longrightarrow> objs s' h = objs s h \<Longrightarrow> key_pages s' = key_pages s \<Longrightarrow>
   value_pages s' = value_pages s \<Longrightarrow> content s' h = content s h"
  by (simp add: content_def rows_def)

subsection \<open>Creation\<close>

lemma fresh_handle:
  assumes "kv_wf s"
  shows "paged_handle rid (uuids s (next_uuid s)) \<notin> set (live s)"
proof
  let ?h = "paged_handle rid (uuids s (next_uuid s))"
  assume "?h \<in> set (live s)"
  then obtain n where n: "n < next_uuid s" "suffix (uuids s n) ?h"
    using kv_wfD(15) [OF assms] by (auto simp: handles_drawn_def)
  have "suffix (uuids s (next_uuid s)) ?h"
    unfolding paged_handle_def suffix_def
    by (rule exI [of _ "''paged-kv-'' @ rid @ ''-''"]) simp
  with n(2) have "suffix (uuids s n) (uuids s (next_uuid s)) \<or> suffix (uuids s (next_uuid s)) (uuids s n)"
    by (rule suffix_same_cases)
  with n(1) show False using kv_wfD(14) [OF assms] by (auto simp: uuid_source_def)
qed

lemma kv_create_effect:
  assumes "kv_wf s" "kv_create rid s = (h, s')"
  shows "h \<notin> set (live s)"
    "s' = s\<lparr>next_uuid := Suc (next_uuid s), live := live s @ [h],
           objs := (objs s)(h := \<lparr>rc_handle = h, rc_request_id = rid, block_table = [], rc_length = 0\<rparr>)\<rparr>"
    "suffix (uuids s (next_uuid s)) h"
  using assms fresh_handle [OF assms(1), of rid]
  by (auto simp: kv_create_def Let_def paged_handle_def suffix_def)

lemma handles_drawn_add:
  assumes "handles_drawn s" "uuids s' = uuids s" "next_uuid s' = Suc (next_uuid s)"
    "set (live s') = insert h (set (live s))" "suffix (uuids s (next_uuid s)) h"
  shows "handles_drawn s'"
  using assms unfolding handles_drawn_def by (metis insertE less_Suc_eq)

lemma kv_create_wf [inv_intros]:
  assumes "kv_wf s" "kv_create rid s = (h, s')"
  shows "kv_wf s'"
proof -
  note e = kv_create_effect [OF assms]
  have tables: "map (\<lambda>k. block_table (objs s' k)) (live s') = map (\<lambda>k. block_table (objs s k)) (live s) @ [[]]"
    using e(1) by (auto simp: e(2))
  have refs: "total_refs s' p = total_refs s p" for p
    unfolding total_refs_def tables by simp
  have "cache_wf s' (objs s' k)" if "k \<in> set (live s')" for k
    using that kv_wfD(1,7) [OF assms(1)] by (auto simp: e(2) cache_wf_def)
  moreover have "handles_drawn s'"
    by (rule handles_drawn_add [OF kv_wfD(15) [OF assms(1)]]) (use e in auto)
  ultimately show ?thesis
    using kv_wfD [OF assms(1)] e(1) refs unfolding kv_wf_def by (simp add: e(2))
qed

lemma kv_create_abs:
  assumes "kv_wf s" "kv_create rid s = (h, s')"
  shows "kv_abs s' = (kv_abs s)(h \<mapsto> (rid, replicate (num_layers s) [], replicate (num_layers s) []))"
proof
  fix k
  note e = kv_create_effect [OF assms]
  show "kv_abs s' k = ((kv_abs s)(h \<mapsto> (rid, replicate (num_layers s) [], replicate (num_layers s) []))) k"
    using e(1) kv_wfD(4,5) [OF assms(1)]
    by (auto simp: e(2) kv_abs_def content_def rows_def map_replicate_const)
qed

subsection \<open>Fork\<close>

lemma kv_fork_effect:
  assumes "kv_wf s" "kv_fork src rid len s = (Inr h, s')"
  defines "n \<equiv> (case len of None \<Rightarrow> kv_size s src | Some i \<Rightarrow> nat i)"
  defines "pages \<equiv> take (ceil_div n (page_size s)) (block_table (objs s src))"
  shows "src \<in> set (live s)" "n \<le> kv_size s src" "h \<notin> set (live s)"
    "s' = s\<lparr>next_uuid := Suc (next_uuid s), live := live s @ [h],
           objs := (objs s)(h := \<lparr>rc_handle = h, rc_request_id = rid, block_table = pages, rc_length = n\<rparr>),
           ref_counts := bump 1 pages (ref_counts s)\<rparr>"
    "suffix (uuids s (next_uuid s)) h"
proof -
  obtain h0 s0 where c: "kv_create rid s = (h0, s0)" by (metis surj_pair)
  note e = kv_create_effect [OF assms(1) c]
  have h: "h = h0" and src: "src \<in> set (live s)"
    and n: "n \<le> kv_size s src"
    and s': "s' = s0\<lparr>objs := (objs s0)(h0 := (objs s0 h0)\<lparr>block_table := pages, rc_length := n\<rparr>),
                    ref_counts := bump 1 pages (ref_counts s0)\<rparr>"
    using assms(2) c unfolding n_def pages_def
    by (auto simp: kv_fork_def Let_def split: if_splits option.splits)
  show "src \<in> set (live s)" by (rule src)
  show "n \<le> kv_size s src" by (rule n)
  show "h \<notin> set (live s)" "suffix (uuids s (next_uuid s)) h" using e h by simp_all
  show "s' = s\<lparr>next_uuid := Suc (next_uuid s), live := live s @ [h],
           objs := (objs s)(h := \<lparr>rc_handle = h, rc_request_id = rid, block_table = pages, rc_length = n\<rparr>),
           ref_counts := bump 1 pages (ref_counts s)\<rparr>"
    using e(2) h by (simp add: s')
qed

lemma take_ceil_cover:
  assumes "0 < ps" "i < n"
  shows "i div ps < ceil_div n ps"
  by (rule div_less_ceil_div [OF assms])

lemma length_take_ceil:
  "n \<le> m \<Longrightarrow> length t = ceil_div m ps \<Longrightarrow> length (take (ceil_div n ps) t) = ceil_div n ps"
  using ceil_div_mono [of n m ps] by simp

lemma kv_fork_wf [inv_intros]:
  assumes "kv_wf s" "kv_fork src rid len s = (Inr h, s')"
  shows "kv_wf s'"
proof -
  define n where "n = (case len of None \<Rightarrow> kv_size s src | Some i \<Rightarrow> nat i)"
  define pages where "pages = take (ceil_div n (page_size s)) (block_table (objs s src))"
  note e = kv_fork_effect [OF assms, folded n_def, folded pages_def]
  note w = kv_wfD [OF assms(1)]
  have src: "cache_wf s (objs s src)" using w(7) e(1) .
  have pg: "distinct pages" "\<forall>p \<in> set pages. p < num_pages s"
    "length pages = ceil_div n (page_size s)"
    using src ceil_div_mono [OF e(2), of "page_size s"] unfolding pages_def cache_wf_def
    by (auto dest: in_set_takeD)
  have tables: "map (\<lambda>k. block_table (objs s' k)) (live s') =
      map (\<lambda>k. block_table (objs s k)) (live s) @ [pages]"
    using e(3) by (auto simp: e(4))
  have refs: "total_refs s' p = total_refs s p + count_list pages p" for p
    unfolding total_refs_def tables by simp
  have "ref_counts s' ! p = int (total_refs s' p)" if "p < num_pages s" for p
    using that w(2,8) refs by (simp add: e(4) nth_bump)
  moreover have "cache_wf s' (objs s' k)" if "k \<in> set (live s')" for k
    using that w(7) pg by (auto simp: e(4) cache_wf_def)
  moreover have "handles_drawn s'"
    by (rule handles_drawn_add [OF w(15)]) (use e in auto)
  moreover have "total_refs s' p = 0" if "p \<in> set (free_pages s)" for p
    using that w(11) [OF that] live_page_not_free(2) [OF assms(1) e(1), of p]
    by (auto simp: refs count_list_0_iff pages_def dest: in_set_takeD)
  ultimately show ?thesis
    using w e(3) unfolding kv_wf_def by (simp add: e(4))
qed

lemma slot_of_take:
  "0 < ps \<Longrightarrow> i < n \<Longrightarrow> slot_of ps (take (ceil_div n ps) t) i = slot_of ps t i"
  by (simp add: slot_of_def div_less_ceil_div)

text \<open>A fork holds the first rows of its source, and nothing else changes.\<close>

lemma kv_fork_abs:
  assumes "kv_wf s" "kv_fork src rid len s = (Inr h, s')"
  defines "n \<equiv> (case len of None \<Rightarrow> kv_size s src | Some i \<Rightarrow> nat i)"
  shows "kv_abs s' = (kv_abs s)(h \<mapsto> (rid, map (take n) (fst (snd (content s src))),
                                        map (take n) (snd (snd (content s src)))))"
proof
  fix k
  define pages where "pages = take (ceil_div n (page_size s)) (block_table (objs s src))"
  note e = kv_fork_effect [OF assms(1,2), folded n_def, folded pages_def]
  have "rows s' pg h = take n (rows s pg src)" for pg
    using e(2) kv_wfD(1) [OF assms(1)]
    by (simp add: rows_def e(4) pages_def take_map slot_of_take)
  moreover have "k \<noteq> h \<Longrightarrow> content s' k = content s k"
    by (rule content_cong) (simp_all add: e(4))
  ultimately show "kv_abs s' k = ((kv_abs s)(h \<mapsto> (rid, map (take n) (fst (snd (content s src))),
                                        map (take n) (snd (snd (content s src)))))) k"
    by (auto simp: kv_abs_def content_def e(4))
qed

subsection \<open>Release\<close>

lemma release_pages_ok:
  assumes "distinct ps" "\<And>p. p \<in> set ps \<Longrightarrow> p < length (ref_counts s) \<and> 1 \<le> ref_counts s ! p"
  shows "release_pages ps s =
    (Inr (), s\<lparr>ref_counts := bump (-1) ps (ref_counts s),
              free_pages := free_pages s @ filter (\<lambda>p. ref_counts s ! p = 1 \<and> pin_counts s ! p = 0 \<and>
                 p \<notin> set (free_pages s)) ps\<rparr>)"
  using assms
proof (induction ps arbitrary: s)
  case (Cons q ps)
  let ?refs = "(ref_counts s)[q := ref_counts s ! q - 1]"
  let ?free = "if ?refs ! q = 0 \<and> pin_counts s ! q = 0 \<and> q \<notin> set (free_pages s)
               then free_pages s @ [q] else free_pages s"
  let ?s = "s\<lparr>ref_counts := ?refs, free_pages := ?free\<rparr>"
  have q: "q < length (ref_counts s)" "1 \<le> ref_counts s ! q" using Cons.prems(2) [of q] by simp_all
  have keep: "?refs ! p = ref_counts s ! p" "p \<noteq> q" if "p \<in> set ps" for p
  proof -
    show "p \<noteq> q" using that Cons.prems(1) by auto
    then show "?refs ! p = ref_counts s ! p" by simp
  qed
  have "release_pages (q # ps) s = release_pages ps ?s" using q by (simp add: Let_def)
  also have "\<dots> = (Inr (), ?s\<lparr>ref_counts := bump (-1) ps ?refs,
      free_pages := ?free @ filter (\<lambda>p. ?refs ! p = 1 \<and> pin_counts s ! p = 0 \<and> p \<notin> set ?free) ps\<rparr>)"
    using Cons.IH [of ?s] Cons.prems keep by simp
  also have "filter (\<lambda>p. ?refs ! p = 1 \<and> pin_counts s ! p = 0 \<and> p \<notin> set ?free) ps =
      filter (\<lambda>p. ref_counts s ! p = 1 \<and> pin_counts s ! p = 0 \<and> p \<notin> set (free_pages s)) ps"
    using keep by (intro filter_cong refl) auto
  finally show ?case using q by (auto simp: bump_def)
qed (simp add: bump_def)

lemma count_remove1:
  "distinct hs \<Longrightarrow> h \<in> set hs \<Longrightarrow>
   count_list (concat (map f hs)) p = count_list (f h) p + count_list (concat (map f (remove1 h hs))) p"
  by (induction hs) auto

lemma kv_release_effect:
  assumes "kv_wf s" "h \<in> set (live s)"
  defines "t \<equiv> block_table (objs s h)"
  shows "kv_release (Some h) s = (Inr (), s\<lparr>live := remove1 h (live s),
      ref_counts := bump (-1) t (ref_counts s),
      free_pages := sort (free_pages s @ filter (\<lambda>p. ref_counts s ! p = 1 \<and> pin_counts s ! p = 0 \<and>
                 p \<notin> set (free_pages s)) t)\<rparr>)"
proof -
  let ?s = "s\<lparr>live := remove1 h (live s)\<rparr>"
  have "distinct t" using kv_wfD(7) [OF assms(1,2)] by (simp add: t_def cache_wf_def)
  moreover have "p < length (ref_counts ?s) \<and> 1 \<le> ref_counts ?s ! p" if "p \<in> set t" for p
    using live_page_not_free [OF assms(1,2), of p] that kv_wfD(2) [OF assms(1)] by (simp add: t_def)
  ultimately show ?thesis
    using assms(2) release_pages_ok [of t ?s] by (simp add: kv_release_def t_def)
qed

lemma kv_release_absent: "h \<notin> set (live s) \<Longrightarrow> kv_release (Some h) s = (Inr (), s)"
  by (simp add: kv_release_def)

lemma kv_release_wf [inv_intros]:
  assumes "kv_wf s" "kv_release ho s = (res, s')"
  shows "kv_wf s' \<and> res = Inr ()"
proof -
  consider "s' = s" "res = Inr ()" | h where "ho = Some h" "h \<in> set (live s)"
    using assms(2) by (cases ho) (auto simp: kv_release_def split: if_splits)
  then show ?thesis
  proof cases
    case (2 h)
    define t where "t = block_table (objs s h)"
    let ?freed = "filter (\<lambda>p. ref_counts s ! p = 1 \<and> pin_counts s ! p = 0 \<and> p \<notin> set (free_pages s)) t"
    note w = kv_wfD [OF assms(1)]
    have s': "s' = s\<lparr>live := remove1 h (live s), ref_counts := bump (-1) t (ref_counts s),
        free_pages := sort (free_pages s @ ?freed)\<rparr>" and res: "res = Inr ()"
      using assms(2) kv_release_effect [OF assms(1) 2(2)] 2(1) by (simp_all add: t_def)
    have t: "distinct t" "\<forall>p \<in> set t. p < num_pages s"
      using w(7) [OF 2(2)] by (simp_all add: t_def cache_wf_def)
    have refs: "total_refs s p = count_list t p + total_refs s' p" for p
      unfolding total_refs_def t_def
      using count_remove1 [OF w(6) 2(2), of "\<lambda>k. block_table (objs s k)"] by (simp add: s')
    have "ref_counts s' ! p = int (total_refs s' p)" if "p < num_pages s" for p
      using that w(2,8) refs [of p] by (simp add: s' nth_bump)
    moreover have "total_refs s' p = 0" if "p \<in> set (free_pages s')" for p
    proof -
      from that consider "p \<in> set (free_pages s)" | "p \<in> set t" "ref_counts s ! p = 1" by (auto simp: s')
      then show ?thesis
      proof cases
        case 1 then show ?thesis using w(11) refs [of p] by fastforce
      next
        case 2
        then have "total_refs s p = 1" using w(8) [of p] t(2) by auto
        then show ?thesis using refs [of p] count_list_ge_Suc [OF 2(1)] by linarith
      qed
    qed
    moreover have "cache_wf s' (objs s' k)" if "k \<in> set (live s')" for k
      using that w(7) [of k] notin_set_remove1 by (fastforce simp: s' cache_wf_def)
    moreover have "handles_drawn s'"
      using w(15) set_remove1_subset [of h "live s"] by (auto simp: handles_drawn_def s')
    moreover have "distinct (free_pages s')" "\<forall>p \<in> set (free_pages s'). p < num_pages s"
      using w(10,11) t by (auto simp: s')
    moreover have "reserved_pages s' \<subseteq> set (free_pages s')" using w(13) by (auto simp: s')
    moreover have "distinct (live s')" "length (ref_counts s') = num_pages s" "sorted (free_pages s')"
      using w(2,6) by (simp_all add: s')
    moreover have frame: "page_size s' = page_size s" "num_pages s' = num_pages s"
      "num_layers s' = num_layers s" "key_pages s' = key_pages s" "value_pages s' = value_pages s"
      "pin_counts s' = pin_counts s" "uuids s' = uuids s"
      by (simp_all add: s')
    ultimately show ?thesis
      using w(1,3,4,5,12,14) res unfolding kv_wf_def frame by blast
  qed (use assms in auto)
qed

lemma kv_release_abs:
  assumes "kv_wf s" "kv_release (Some h) s = (res, s')"
  shows "kv_abs s' = (kv_abs s)(h := None)"
proof (cases "h \<in> set (live s)")
  case True
  have live: "live s' = remove1 h (live s)" and same: "objs s' = objs s" "page_size s' = page_size s"
    "key_pages s' = key_pages s" "value_pages s' = value_pages s"
    using assms(2) kv_release_effect [OF assms(1) True] by auto
  show ?thesis
  proof
    fix k
    show "kv_abs s' k = ((kv_abs s)(h := None)) k"
      using kv_wfD(6) [OF assms(1)] content_cong [OF same(2) _ same(3,4), of k] same(1)
      by (simp add: kv_abs_def live)
  qed
next
  case False
  then show ?thesis using assms(2) kv_release_absent [OF False] by (auto simp: kv_abs_def)
qed

subsection \<open>The rows of a batch, by request and position\<close>

definition batch_index :: "nat list \<Rightarrow> (nat \<times> nat) list" where
  "batch_index ns = concat (map (\<lambda>i. map (\<lambda>j. (i, j)) [0..<ns ! i]) [0..<length ns])"

lemma set_batch_index: "set (batch_index ns) = {(i, j). i < length ns \<and> j < ns ! i}"
  by (auto simp: batch_index_def)

lemma distinct_tagged:
  "distinct is \<Longrightarrow> distinct (concat (map (\<lambda>i. map (\<lambda>j. (i, j)) [0..<f i]) is))"
  by (induction "is") (auto simp: distinct_map inj_on_def)

lemma distinct_batch_index: "distinct (batch_index ns)"
  unfolding batch_index_def by (rule distinct_tagged) simp

lemma packed_rows_index: "packed_rows ns t = map (\<lambda>(i, j). t_row t i j) (batch_index ns)"
proof -
  have "enumerate 0 ns = map (\<lambda>i. (i, ns ! i)) [0..<length ns]"
    by (rule nth_equalityI) (simp_all add: nth_enumerate_eq)
  then show ?thesis by (simp add: packed_rows_def batch_index_def map_concat comp_def)
qed

lemma slots_index:
  assumes "length ns = length hs" "length ts = length hs"
  shows "rs_slots (build_reservation s hs ns ts res copies pinned) =
    map (\<lambda>(i, j). slot_of (page_size s) (ts ! i) (kv_size s (hs ! i) + j)) (batch_index ns)"
proof -
  have "zip (zip hs ns) ts = map (\<lambda>i. ((hs ! i, ns ! i), ts ! i)) [0..<length ns]"
    by (rule nth_equalityI) (use assms in simp_all)
  moreover have "map f [a..<a + b] = map (\<lambda>j. f (a + j)) [0..<b]" for f :: "nat \<Rightarrow> nat" and a b
    by (rule nth_equalityI) simp_all
  ultimately show ?thesis
    by (simp add: build_reservation_def Let_def batch_index_def map_concat comp_def)
qed

lemma scatter_other: "x \<notin> set (map fst ws) \<Longrightarrow> scatter ws f x = f x"
  unfolding scatter_def by (induction ws arbitrary: f) auto

lemma scatter_written: "distinct (map fst ws) \<Longrightarrow> (x, v) \<in> set ws \<Longrightarrow> scatter ws f x = v"
proof (induction ws arbitrary: f)
  case (Cons w ws)
  obtain y u where w: "w = (y, u)" by (metis surj_pair)
  have step: "scatter (w # ws) f = scatter ws (f(y := u))" by (simp add: scatter_def w)
  show ?case
  proof (cases "(x, v) \<in> set ws")
    case True
    with Cons step show ?thesis by simp
  next
    case False
    with Cons.prems w have "x = y" "v = u" "x \<notin> set (map fst ws)" by auto
    then show ?thesis unfolding step by (simp add: scatter_other)
  qed
qed simp

lemma copy_pages_other:
  "x div ps \<notin> set (map snd copies) \<Longrightarrow> fold (copy_page ps) copies f x = f x"
  by (induction copies arbitrary: f) (auto simp: copy_page_def)

lemma copy_pages_copied:
  assumes "0 < ps" "distinct (map snd copies)" "set (map fst copies) \<inter> set (map snd copies) = {}"
    "(old, new) \<in> set copies" "off < ps"
  shows "fold (copy_page ps) copies f (new * ps + off) = f (old * ps + off)"
  using assms
proof (induction copies arbitrary: f)
  case (Cons c copies)
  show ?case
  proof (cases "c = (old, new)")
    case True
    have "(new * ps + off) div ps \<notin> set (map snd copies)" using Cons.prems True by auto
    then have "fold (copy_page ps) copies (copy_page ps c f) (new * ps + off) = copy_page ps c f (new * ps + off)"
      by (rule copy_pages_other)
    also have "\<dots> = f (old * ps + off)" using Cons.prems(1,5) by (simp add: True copy_page_def)
    finally show ?thesis by simp
  next
    case False
    with Cons.prems have mem: "(old, new) \<in> set copies" by simp
    have "old \<in> set (map fst (c # copies))" using mem by force
    moreover have "snd c \<in> set (map snd (c # copies))" by simp
    ultimately have "old \<noteq> snd c" using Cons.prems(3) by blast
    then have "copy_page ps c f (old * ps + off) = f (old * ps + off)"
      using Cons.prems(1,5) by (simp add: copy_page_def)
    moreover have "fold (copy_page ps) copies (copy_page ps c f) (new * ps + off) =
        copy_page ps c f (old * ps + off)"
      by (rule Cons.IH) (use Cons.prems mem in auto)
    ultimately show ?thesis by simp
  qed
qed simp

subsection \<open>An outstanding reservation\<close>

definition table_ok :: "'v kv \<Rightarrow> 'v reservation \<Rightarrow> nat \<Rightarrow> bool" where
  "table_ok s r i \<longleftrightarrow>
     (let h = rs_handles r ! i; t = candidate_tables r ! i; bt = block_table (objs s h)
      in distinct t \<and> (\<forall>p \<in> set t. p < num_pages s) \<and>
         length t = ceil_div (kv_size s h + append_lengths r ! i) (page_size s) \<and>
         set t \<subseteq> set bt \<union> set (rs_reserved r) \<and>
         (\<forall>k < length bt. t ! k = bt ! k \<or> (bt ! k, t ! k) \<in> set (copy_pages r)))"

definition writes_private :: "'v kv \<Rightarrow> 'v reservation \<Rightarrow> bool" where
  "writes_private s r \<longleftrightarrow>
     rs_slots r = map (\<lambda>(i, j). slot_of (page_size s) (candidate_tables r ! i)
                         (kv_size s (rs_handles r ! i) + j)) (batch_index (append_lengths r)) \<and>
     distinct (rs_slots r) \<and> (\<forall>h \<in> set (live s). live_slots s h \<inter> set (rs_slots r) = {})"

definition reservation_ok :: "'v kv \<Rightarrow> 'v reservation \<Rightarrow> bool" where
  "reservation_ok s r \<longleftrightarrow>
     \<not> rs_finished r \<and> rs_handles r \<noteq> [] \<and> distinct (rs_handles r) \<and>
     set (rs_handles r) \<subseteq> set (live s) \<and>
     length (append_lengths r) = length (rs_handles r) \<and>
     length (candidate_tables r) = length (rs_handles r) \<and>
     length (staged_keys r) = num_layers s \<and> length (staged_values r) = num_layers s \<and>
     reserved_pages s = set (rs_reserved r) \<and> distinct (rs_reserved r) \<and>
     distinct (pinned_pages r) \<and> (\<forall>p \<in> set (pinned_pages r). p < num_pages s) \<and>
     (\<forall>p < num_pages s. pin_counts s ! p = (if p \<in> set (pinned_pages r) then 1 else 0)) \<and>
     (\<forall>i < length (rs_handles r). table_ok s r i) \<and>
     (\<forall>p \<in> set (rs_reserved r). count_list (concat (candidate_tables r)) p = 1) \<and>
     (\<forall>(old, new) \<in> set (copy_pages r). new \<in> set (rs_reserved r) \<and> old \<notin> set (rs_reserved r)) \<and>
     distinct (map snd (copy_pages r)) \<and> writes_private s r"

definition base_table :: "'v kv \<Rightarrow> handle \<Rightarrow> nat list" where
  "base_table s h =
     (if needs_copy s h then butlast (block_table (objs s h)) else block_table (objs s h))"

lemma takes_table:
  "takes s h n t res copies \<Longrightarrow> t = base_table s h @ res"
  by (auto simp: takes_def base_table_def split: if_splits)

lemma base_table_subset: "set (base_table s h) \<subseteq> set (block_table (objs s h))"
  by (auto simp: base_table_def dest: in_set_butlastD)

text \<open>Where an append writes: a page it reserved, or a tail page nobody else refers to.\<close>

lemma written_page:
  assumes tk: "takes s h n t res copies" and wf: "cache_wf s (objs s h)" and ps: "0 < page_size s"
    and pos: "kv_size s h \<le> pos" "pos < kv_size s h + n"
  defines "k \<equiv> pos div page_size s"
  shows "t ! k \<in> set res \<or>
    (k < length (block_table (objs s h)) \<and> t ! k = block_table (objs s h) ! k \<and> ref_counts s ! (t ! k) \<le> 1)"
proof (cases "length (base_table s h) \<le> k")
  case True
  have "k < length t"
    using tk pos(2) ps unfolding k_def takes_def by (simp add: div_less_ceil_div less_max_iff_disj)
  with True show ?thesis using takes_table [OF tk] by (simp add: nth_append)
next
  case False
  let ?bt = "block_table (objs s h)"
  have lb: "length ?bt = ceil_div (kv_size s h) (page_size s)" using wf by (simp add: cache_wf_def)
  have kb: "k < length ?bt" using False by (auto simp: base_table_def split: if_splits)
  then have "k * page_size s < kv_size s h" using lb less_ceil_div_iff [OF ps] by simp
  moreover have "kv_size s h < (k + 1) * page_size s"
    using pos(1) dividend_less_times_div [OF ps, of pos] by (simp add: k_def algebra_simps)
  note between = calculation this
  have "kv_size s h mod page_size s \<noteq> 0"
  proof
    assume "kv_size s h mod page_size s = 0"
    then obtain q where "kv_size s h = q * page_size s" by (metis mod_0_imp_dvd dvdE mult.commute)
    with between show False by (metis Suc_eq_plus1 mult_less_cancel2 not_less_eq)
  qed
  moreover have "length ?bt \<le> k + 1"
    using between(2) lb ceil_div_le_iff [OF ps, of "kv_size s h" "k + 1"] by simp
  ultimately have last: "length ?bt = k + 1" and part: "kv_size s h mod page_size s \<noteq> 0"
    using kb by simp_all
  have nc: "\<not> needs_copy s h" using False last by (auto simp: base_table_def)
  then have "t ! k = ?bt ! k" using takes_table [OF tk] kb by (simp add: base_table_def nth_append)
  moreover have ne: "?bt \<noteq> []" using last by auto
  moreover have "last ?bt = ?bt ! k" using last by (simp add: last_conv_nth [OF ne])
  ultimately show ?thesis using nc part kb by (simp add: needs_copy_def)
qed

subsection \<open>Reserving\<close>

lemma count_concat_zero: "(\<And>xs. xs \<in> set xss \<Longrightarrow> p \<notin> set xs) \<Longrightarrow> count_list (concat xss) p = 0"
  by (simp add: count_list_0_iff)

lemma count_concat_append:
  "length as = length bs \<Longrightarrow>
   count_list (concat (map2 (@) as bs)) p = count_list (concat as) p + count_list (concat bs) p"
  by (induction as bs rule: list_induct2) auto

lemma concat_disjoint_nth:
  "distinct (concat rs) \<Longrightarrow> i < length rs \<Longrightarrow> j < length rs \<Longrightarrow> i \<noteq> j \<Longrightarrow>
   set (rs ! i) \<inter> set (rs ! j) = {}"
proof (induction rs arbitrary: i j)
  case (Cons r rs)
  then show ?case by (cases i; cases j) (auto dest: nth_mem, (blast dest: nth_mem)+)
qed simp

lemma concat_nth_subset: "i < length rs \<Longrightarrow> set (rs ! i) \<subseteq> set (concat rs)"
  using nth_mem by fastforce

lemma reserve_batch_Inr:
  assumes "kv_wf s" and "reserve_batch hs ns s = (Inr r, s')"
  obtains tables rs cs where
    "length ns = length hs" "hs \<noteq> []" "distinct hs" "\<forall>n \<in> set ns. 0 < n"
    "length tables = length hs" "length rs = length hs" "length cs = length hs"
    "\<And>i. i < length hs \<Longrightarrow> takes s (hs ! i) (ns ! i) (tables ! i) (rs ! i) (cs ! i)"
    "distinct (concat rs)" "set (concat rs) \<subseteq> set (free_pages s) - reserved_pages s"
    "r = build_reservation s hs ns tables (concat rs) (concat cs)
           (sort (remdups (concat (map (\<lambda>h. block_table (objs s h)) hs))))"
    "s' = s\<lparr>pin_counts := bump 1 (sort (remdups (concat (map (\<lambda>h. block_table (objs s h)) hs)))) (pin_counts s),
           reserved_pages := reserved_pages s \<union> set (concat rs)\<rparr>"
proof -
  have ok: "length ns = length hs" "hs \<noteq> []" "distinct hs" "\<forall>n \<in> set ns. 0 < n"
    using assms(2) by (auto simp: reserve_batch_def list_ex_iff split: if_splits intro: gr0I)
  then have body: "reserve_batch hs ns s =
      (case reserve_loop s (zip hs ns) (available_pages s) of
         None \<Rightarrow> (Inl (ValueError ''native paged KV capacity exhausted before model execution''),
              s\<lparr>allocation_failures := Suc (allocation_failures s)\<rparr>)
       | Some (tables, res, copies) \<Rightarrow>
           (let pinned = sort (remdups (concat (map (\<lambda>h. block_table (objs s h)) hs)));
                s' = s\<lparr>pin_counts := bump 1 pinned (pin_counts s),
                       reserved_pages := reserved_pages s \<union> set res\<rparr>
            in (Inr (build_reservation s hs ns tables res copies pinned), s')))"
    by (auto simp: reserve_batch_def list_ex_iff)
  obtain tables res copies where
    loop: "reserve_loop s (zip hs ns) (available_pages s) = Some (tables, res, copies)"
    and r: "r = build_reservation s hs ns tables res copies
           (sort (remdups (concat (map (\<lambda>h. block_table (objs s h)) hs))))"
    and s': "s' = s\<lparr>pin_counts := bump 1 (sort (remdups (concat (map (\<lambda>h. block_table (objs s h)) hs)))) (pin_counts s),
           reserved_pages := reserved_pages s \<union> set res\<rparr>"
    using assms(2) unfolding body by (auto simp: Let_def split: option.splits)
  from reserve_loop_Some [OF loop] obtain rs cs av' where
    l: "available_pages s = res @ av'" "res = concat rs" "copies = concat cs"
    "length tables = length hs" "length rs = length hs" "length cs = length hs"
    "\<forall>i < length hs. takes s (hs ! i) (ns ! i) (tables ! i) (rs ! i) (cs ! i)"
    using ok(1) by auto
  have "distinct (available_pages s)"
    using kv_wfD(10) [OF assms(1)] by (simp add: available_pages_def)
  then have "distinct (concat rs)" using l(1,2) by simp
  moreover have "set (concat rs) \<subseteq> set (available_pages s)" using l(1,2) by auto
  then have "set (concat rs) \<subseteq> set (free_pages s) - reserved_pages s"
    by (auto simp: available_pages_def)
  ultimately show thesis using that ok l r s' by blast
qed

lemma pinned_spec:
  "distinct (sort (remdups (concat (map f hs))))"
  "set (sort (remdups (concat (map f hs)))) = (\<Union>h \<in> set hs. set (f h))"
  by auto

lemma takes_copies:
  assumes "takes s h n t res copies"
  shows "copies = (if needs_copy s h then [(last (block_table (objs s h)), hd res)] else [])"
    "needs_copy s h \<Longrightarrow> res \<noteq> [] \<and> block_table (objs s h) \<noteq> []"
  using assms by (auto simp: takes_def needs_copy_def)

lemma takes_table_nth:
  assumes "takes s h n t res copies" "k < length (block_table (objs s h))"
  shows "t ! k = block_table (objs s h) ! k \<or> (block_table (objs s h) ! k, t ! k) \<in> set copies"
proof (cases "k < length (base_table s h)")
  case True
  then show ?thesis
    using takes_table [OF assms(1)]
    by (auto simp: nth_append base_table_def nth_butlast split: if_splits)
next
  case False
  then have nc: "needs_copy s h" and k: "k = length (block_table (objs s h)) - 1"
    using assms(2) by (auto simp: base_table_def split: if_splits)
  note c = takes_copies [OF assms(1)]
  have "last (block_table (objs s h)) = block_table (objs s h) ! k"
    using k c(2) [OF nc] by (simp add: last_conv_nth)
  moreover have "t ! k = hd res"
    using takes_table [OF assms(1)] nc k c(2) by (simp add: nth_append base_table_def hd_conv_nth)
  ultimately show ?thesis using c(1) nc by simp
qed

lemma copies_concat:
  assumes "length cs = length rs" "distinct (concat rs)"
    "\<And>i. i < length rs \<Longrightarrow> map snd (cs ! i) = (if P i then [hd (rs ! i)] else [])"
    "\<And>i. i < length rs \<Longrightarrow> P i \<Longrightarrow> rs ! i \<noteq> []"
  shows "distinct (map snd (concat cs)) \<and> set (map snd (concat cs)) \<subseteq> set (concat rs)"
  using assms
proof (induction cs rs arbitrary: P rule: list_induct2)
  case (Cons c cs r rs)
  have "distinct (map snd (concat cs)) \<and> set (map snd (concat cs)) \<subseteq> set (concat rs)"
  proof (rule Cons.IH [of "\<lambda>i. P (Suc i)"])
    show "distinct (concat rs)" using Cons.prems(1) by simp
    show "map snd (cs ! i) = (if P (Suc i) then [hd (rs ! i)] else [])" if "i < length rs" for i
      using Cons.prems(2) [of "Suc i"] that by simp
    show "i < length rs \<Longrightarrow> P (Suc i) \<Longrightarrow> rs ! i \<noteq> []" for i
      using Cons.prems(3) [of "Suc i"] by simp
  qed
  note ih = this
  have c: "map snd c = (if P 0 then [hd r] else [])" "P 0 \<Longrightarrow> r \<noteq> []"
    using Cons.prems(2,3) [of 0] by simp_all
  then have "set (map snd c) \<subseteq> set r" by (cases "P 0") auto
  moreover have "set r \<inter> set (concat rs) = {}" using Cons.prems(1) by simp
  ultimately have "set (map snd c) \<inter> set (map snd (concat cs)) = {}" using ih by blast
  moreover have "distinct (map snd c)" by (simp add: c)
  ultimately show ?case using ih \<open>set (map snd c) \<subseteq> set r\<close>
    by (simp only: concat.simps map_append distinct_append set_append) blast
qed simp

lemma reserve_tables_ok:
  assumes wf: "kv_wf s" and live: "h \<in> set (live s)" and n: "0 < n"
    and tk: "takes s h n t res copies" and d: "distinct res" and fr: "set res \<subseteq> set (free_pages s)"
  shows "distinct t" "\<forall>p \<in> set t. p < num_pages s"
    "length t = ceil_div (kv_size s h + n) (page_size s)"
    "set t \<subseteq> set (block_table (objs s h)) \<union> set res"
proof -
  note c = kv_wfD(7) [OF wf live, unfolded cache_wf_def]
  note t = takes_table [OF tk]
  have bd: "distinct (base_table s h)" using c by (simp add: base_table_def distinct_butlast)
  have "set (block_table (objs s h)) \<inter> set res = {}"
    using live_page_not_free(2) [OF wf live] fr by blast
  then show "distinct t" using t bd d base_table_subset [of s h] by auto
  show "\<forall>p \<in> set t. p < num_pages s"
    using t c base_table_subset [of s h] fr kv_wfD(11) [OF wf] by auto
  show "length t = ceil_div (kv_size s h + n) (page_size s)"
    using tk c ceil_div_mono [of "kv_size s h" "kv_size s h + n" "page_size s"] by (simp add: takes_def)
  show "set t \<subseteq> set (block_table (objs s h)) \<union> set res"
    using t base_table_subset [of s h] by auto
qed

lemma batch_slots_inj:
  assumes wf: "kv_wf s" and hs: "set hs \<subseteq> set (live s)" "distinct hs"
    and l: "length ns = length hs" "length rs = length hs" and n: "\<forall>n \<in> set ns. 0 < n"
    and tk: "\<And>i. i < length hs \<Longrightarrow> takes s (hs ! i) (ns ! i) (ts ! i) (rs ! i) (cs ! i)"
    and rs: "distinct (concat rs)" "set (concat rs) \<subseteq> set (free_pages s)"
  shows "inj_on (\<lambda>(i, j). slot_of (page_size s) (ts ! i) (kv_size s (hs ! i) + j)) (set (batch_index ns))"
    and "\<And>h i j. h \<in> set (live s) \<Longrightarrow> i < length hs \<Longrightarrow> j < ns ! i \<Longrightarrow>
      slot_of (page_size s) (ts ! i) (kv_size s (hs ! i) + j) \<notin> live_slots s h"
proof -
  let ?ps = "page_size s"
  let ?pos = "\<lambda>i j. kv_size s (hs ! i) + j"
  let ?bt = "\<lambda>i. block_table (objs s (hs ! i))"
  note ps = kv_wfD(1) [OF wf]
  have live: "hs ! i \<in> set (live s)" if "i < length hs" for i using hs(1) that by auto
  have wp: "ts ! i ! (?pos i j div ?ps) \<in> set (rs ! i) \<or>
      (?pos i j div ?ps < length (?bt i) \<and> ts ! i ! (?pos i j div ?ps) = ?bt i ! (?pos i j div ?ps) \<and>
       ref_counts s ! (ts ! i ! (?pos i j div ?ps)) \<le> 1)" if "i < length hs" "j < ns ! i" for i j
    using written_page [OF tk [OF that(1)] kv_wfD(7) [OF wf live [OF that(1)]] ps, of "?pos i j"] that(2)
    by simp
  have fresh: "p \<notin> set (block_table (objs s h))" if "h \<in> set (live s)" "p \<in> set (rs ! i)" "i < length hs" for h p i
    using live_page_not_free(2) [OF wf that(1)] rs(2) concat_nth_subset [of i rs] that l(2) by fastforce
  have tab: "distinct (ts ! i)" "length (ts ! i) = ceil_div (kv_size s (hs ! i) + ns ! i) ?ps" if "i < length hs" for i
  proof -
    have d: "distinct (rs ! i)" using rs(1) l(2) that by (simp add: distinct_concat_iff)
    have f: "set (rs ! i) \<subseteq> set (free_pages s)" using rs(2) concat_nth_subset [of i rs] that l(2) by force
    have "0 < ns ! i" using n l(1) that by simp
    from reserve_tables_ok [OF wf live [OF that] this tk [OF that] d f]
    show "distinct (ts ! i)" "length (ts ! i) = ceil_div (kv_size s (hs ! i) + ns ! i) ?ps" by auto
  qed
  show "inj_on (\<lambda>(i, j). slot_of ?ps (ts ! i) (?pos i j)) (set (batch_index ns))"
  proof (rule inj_onI, clarsimp simp: set_batch_index)
    fix i j i' j' assume a: "i < length ns" "j < ns ! i" "i' < length ns" "j' < ns ! i'"
      and eq: "slot_of ?ps (ts ! i) (?pos i j) = slot_of ?ps (ts ! i') (?pos i' j')"
    note si = slot_of_inj [OF ps eq]
    have ii: "i < length hs" "i' < length hs" using a l by simp_all
    have "i = i'"
    proof (rule ccontr)
      assume ne: "i \<noteq> i'"
      then have hne: "hs ! i \<noteq> hs ! i'" using hs(2) ii nth_eq_iff_index_eq by blast
      from wp [OF ii(1) a(2)] show False
      proof
        assume r: "ts ! i ! (?pos i j div ?ps) \<in> set (rs ! i)"
        then have "ts ! i' ! (?pos i' j' div ?ps) \<notin> set (rs ! i')"
          using concat_disjoint_nth [OF rs(1), of i i'] ii l(2) ne si(1) by auto
        with wp [OF ii(2) a(4)] have "ts ! i ! (?pos i j div ?ps) \<in> set (?bt i')"
          using si(1) by (metis nth_mem)
        then show False using fresh [OF live [OF ii(2)] r ii(1)] by simp
      next
        assume b: "?pos i j div ?ps < length (?bt i) \<and> ts ! i ! (?pos i j div ?ps) = ?bt i ! (?pos i j div ?ps) \<and>
          ref_counts s ! (ts ! i ! (?pos i j div ?ps)) \<le> 1"
        then have inb: "ts ! i ! (?pos i j div ?ps) \<in> set (?bt i)" by (metis nth_mem)
        from wp [OF ii(2) a(4)] show False
        proof
          assume "ts ! i' ! (?pos i' j' div ?ps) \<in> set (rs ! i')"
          then show False using fresh [OF live [OF ii(1)] _ ii(2)] inb si(1) by simp
        next
          assume "?pos i' j' div ?ps < length (?bt i') \<and> ts ! i' ! (?pos i' j' div ?ps) = ?bt i' ! (?pos i' j' div ?ps) \<and>
            ref_counts s ! (ts ! i' ! (?pos i' j' div ?ps)) \<le> 1"
          then have "ts ! i ! (?pos i j div ?ps) \<in> set (?bt i')" using si(1) by (metis nth_mem)
          moreover have "ref_counts s ! (ts ! i ! (?pos i j div ?ps)) \<le> 1" using b by blast
          ultimately show False
            using exclusive_page [OF wf live [OF ii(1)] inb _ live [OF ii(2)]] hne by simp
        qed
      qed
    qed
    moreover have "?pos i j div ?ps = ?pos i' j' div ?ps"
    proof -
      have "?pos i j div ?ps < length (ts ! i)" "?pos i' j' div ?ps < length (ts ! i)"
        using tab(2) [OF ii(1)] a \<open>i = i'\<close> ps by (simp_all add: div_less_ceil_div)
      then show ?thesis using si(1) tab(1) [OF ii(1)] \<open>i = i'\<close> nth_eq_iff_index_eq by blast
    qed
    ultimately show "i = i' \<and> j = j'" using si(2) by (metis add_left_cancel div_mult_mod_eq)
  qed
  show "slot_of ?ps (ts ! i) (?pos i j) \<notin> live_slots s h" if "h \<in> set (live s)" "i < length hs" "j < ns ! i" for h i j
  proof
    assume "slot_of ?ps (ts ! i) (?pos i j) \<in> live_slots s h"
    then obtain q where q: "q < kv_size s h"
      "slot_of ?ps (ts ! i) (?pos i j) = slot_of ?ps (block_table (objs s h)) q"
      by (auto simp: live_slots_def)
    note si = slot_of_inj [OF ps q(2)]
    note ch = kv_wfD(7) [OF wf that(1), unfolded cache_wf_def]
    have qk: "q div ?ps < length (block_table (objs s h))" using ch q(1) ps by (simp add: div_less_ceil_div)
    then have inh: "ts ! i ! (?pos i j div ?ps) \<in> set (block_table (objs s h))" using si(1) by simp
    from wp [OF that(2,3)] show False
    proof
      assume "ts ! i ! (?pos i j div ?ps) \<in> set (rs ! i)"
      then show False using fresh [OF that(1) _ that(2)] inh by simp
    next
      assume b: "?pos i j div ?ps < length (?bt i) \<and> ts ! i ! (?pos i j div ?ps) = ?bt i ! (?pos i j div ?ps) \<and>
        ref_counts s ! (ts ! i ! (?pos i j div ?ps)) \<le> 1"
      then have inb: "ts ! i ! (?pos i j div ?ps) \<in> set (?bt i)" by (metis nth_mem)
      moreover have "ref_counts s ! (ts ! i ! (?pos i j div ?ps)) \<le> 1" using b by blast
      ultimately have hh: "h = hs ! i"
        using exclusive_page [OF wf live [OF that(2)] inb _ that(1) inh] by simp
      then have "?pos i j div ?ps = q div ?ps"
        using si(1) b qk ch by (metis nth_eq_iff_index_eq)
      then have "?pos i j = q" using si(2) by (metis div_mult_mod_eq)
      then show False using q(1) hh by simp
    qed
  qed
qed

text \<open>Changing only counters that no table depends on.\<close>

lemma kv_wf_frame:
  assumes "kv_wf s"
    and "page_size s' = page_size s" "num_pages s' = num_pages s" "num_layers s' = num_layers s"
    and "objs s' = objs s" "live s' = live s" "free_pages s' = free_pages s" "ref_counts s' = ref_counts s"
    and "length (key_pages s') = num_layers s" "length (value_pages s') = num_layers s"
    and "uuids s' = uuids s" "next_uuid s' = next_uuid s"
    and "length (pin_counts s') = num_pages s" "\<forall>p < num_pages s. 0 \<le> pin_counts s' ! p"
    and "reserved_pages s' \<subseteq> set (free_pages s)"
  shows "kv_wf s'"
proof -
  have "total_refs s' = total_refs s" by (simp add: fun_eq_iff total_refs_def assms)
  moreover have "cache_wf s' = cache_wf s" by (simp add: fun_eq_iff cache_wf_def assms)
  moreover have "handles_drawn s' = handles_drawn s" by (simp add: handles_drawn_def assms)
  ultimately show ?thesis using assms unfolding kv_wf_def by simp
qed

lemma pin_once:
  assumes "distinct ps" "p < length c"
  shows "bump 1 ps c ! p = c ! p + (if p \<in> set ps then 1 else 0)"
  using assms by (simp add: nth_bump count_list_distinct)

lemma quiescentD: "quiescent s \<Longrightarrow> reserved_pages s = {}" "quiescent s \<Longrightarrow> p < num_pages s \<Longrightarrow> pin_counts s ! p = 0"
  by (simp_all add: quiescent_def)

lemma reserve_batch_ok:
  assumes wf: "kv_wf s" and q: "quiescent s" and hs: "set hs \<subseteq> set (live s)"
    and run: "reserve_batch hs ns s = (Inr r, s')"
  shows "kv_wf s' \<and> reservation_ok s' r \<and> kv_abs s' = kv_abs s \<and>
    rs_handles r = hs \<and> append_lengths r = ns \<and> staged_keys r = replicate (num_layers s) None \<and>
    staged_values r = replicate (num_layers s) None"
proof -
  obtain tables rs cs where
    l: "length ns = length hs" "hs \<noteq> []" "distinct hs" "\<forall>n \<in> set ns. 0 < n"
      "length tables = length hs" "length rs = length hs" "length cs = length hs"
    and tk: "\<And>i. i < length hs \<Longrightarrow> takes s (hs ! i) (ns ! i) (tables ! i) (rs ! i) (cs ! i)"
    and d: "distinct (concat rs)" and fr: "set (concat rs) \<subseteq> set (free_pages s) - reserved_pages s"
    and r: "r = build_reservation s hs ns tables (concat rs) (concat cs)
           (sort (remdups (concat (map (\<lambda>h. block_table (objs s h)) hs))))"
    and s': "s' = s\<lparr>pin_counts := bump 1 (sort (remdups (concat (map (\<lambda>h. block_table (objs s h)) hs)))) (pin_counts s),
           reserved_pages := reserved_pages s \<union> set (concat rs)\<rparr>"
    by (rule reserve_batch_Inr [OF wf run]) (rule that, assumption+)
  let ?pinned = "sort (remdups (concat (map (\<lambda>h. block_table (objs s h)) hs)))"
  note w = kv_wfD [OF wf]
  have fr': "set (concat rs) \<subseteq> set (free_pages s)" using fr by auto
  have rf: "rs_handles r = hs" "append_lengths r = ns" "candidate_tables r = tables"
    "rs_reserved r = concat rs" "copy_pages r = concat cs" "pinned_pages r = ?pinned"
    "staged_keys r = replicate (num_layers s) None" "staged_values r = replicate (num_layers s) None"
    "\<not> rs_finished r"
    by (simp_all add: r build_reservation_def Let_def)
  have same: "objs s' = objs s" "page_size s' = page_size s" "num_pages s' = num_pages s"
    "live s' = live s" "num_layers s' = num_layers s" "reserved_pages s' = set (concat rs)"
    using quiescentD(1) [OF q] by (simp_all add: s')
  have live: "hs ! i \<in> set (live s)" if "i < length hs" for i using hs that by auto
  have tabs: "distinct (tables ! i)" "\<forall>p \<in> set (tables ! i). p < num_pages s"
      "length (tables ! i) = ceil_div (kv_size s (hs ! i) + ns ! i) (page_size s)"
      "set (tables ! i) \<subseteq> set (block_table (objs s (hs ! i))) \<union> set (rs ! i)" if "i < length hs" for i
  proof -
    have "distinct (rs ! i)" "set (rs ! i) \<subseteq> set (free_pages s)"
      using d fr' l(6) that concat_nth_subset [of i rs] by (simp_all add: distinct_concat_iff)
    note t = reserve_tables_ok [OF wf live [OF that] _ tk [OF that] this]
    show "distinct (tables ! i)" "\<forall>p \<in> set (tables ! i). p < num_pages s"
      "length (tables ! i) = ceil_div (kv_size s (hs ! i) + ns ! i) (page_size s)"
      "set (tables ! i) \<subseteq> set (block_table (objs s (hs ! i))) \<union> set (rs ! i)"
      using t l(1,4) that by simp_all
  qed
  have pins: "pin_counts s' ! p = (if p \<in> set ?pinned then 1 else 0)" if "p < num_pages s" for p
  proof -
    have "pin_counts s' = bump 1 ?pinned (pin_counts s)" by (simp add: s')
    moreover have "bump 1 ?pinned (pin_counts s) ! p = pin_counts s ! p + (if p \<in> set ?pinned then 1 else 0)"
      by (rule pin_once [OF pinned_spec(1)]) (use that w(3) in simp)
    ultimately show ?thesis using quiescentD(2) [OF q that] by (simp only: add_0)
  qed
  have wf': "kv_wf s'"
    by (rule kv_wf_frame [OF wf]) (use w fr' pins quiescentD(1) [OF q] in \<open>auto simp: s'\<close>)
  have ab: "kv_abs s' = kv_abs s"
    by (simp add: fun_eq_iff kv_abs_def content_def rows_def s')
  have tabok: "table_ok s' r i" if "i < length hs" for i
    unfolding table_ok_def Let_def rf same
    using tabs [OF that] takes_table_nth [OF tk [OF that]]
      concat_nth_subset [of i rs, unfolded l(6), OF that] concat_nth_subset [of i cs, unfolded l(7), OF that]
    by blast
  have once: "count_list (concat tables) p = 1" if "p \<in> set (concat rs)" for p
  proof -
    have eq: "tables = map2 (@) (map (\<lambda>h. base_table s h) hs) rs"
      by (rule nth_equalityI) (use l takes_table [OF tk] in simp_all)
    have "count_list (concat (map (\<lambda>h. base_table s h) hs)) p = 0"
      using that fr' live_page_not_free(2) [OF wf] base_table_subset hs
      by (intro count_concat_zero) (auto dest!: subsetD)
    moreover have "count_list (concat rs) p = 1" using d that by (simp add: count_list_distinct)
    ultimately show ?thesis
      using count_concat_append [of "map (\<lambda>h. base_table s h) hs" rs p] l(6) by (simp add: eq)
  qed
  have cps: "distinct (map snd (concat cs)) \<and> set (map snd (concat cs)) \<subseteq> set (concat rs)"
    by (rule copies_concat [where P = "\<lambda>i. needs_copy s (hs ! i)"])
      (use l d takes_copies [OF tk] in auto)
  have old: "old \<notin> set (concat rs)" if "(old, new) \<in> set (concat cs)" for old new
  proof -
    from that obtain i where i: "i < length hs" "(old, new) \<in> set (cs ! i)"
      using l(7) by (metis (no_types, lifting) UN_E in_set_conv_nth set_concat)
    then have "old \<in> set (block_table (objs s (hs ! i)))"
      using takes_copies [OF tk [OF i(1)]] by (auto split: if_splits)
    then show ?thesis using live_page_not_free(2) [OF wf live [OF i(1)]] fr' by blast
  qed
  have priv: "writes_private s' r"
  proof -
    have sl: "rs_slots r = map (\<lambda>(i, j). slot_of (page_size s) (tables ! i) (kv_size s (hs ! i) + j)) (batch_index ns)"
      unfolding r by (rule slots_index) (use l in simp_all)
    have inj: "inj_on (\<lambda>(i, j). slot_of (page_size s) (tables ! i) (kv_size s (hs ! i) + j)) (set (batch_index ns))"
      by (rule batch_slots_inj(1) [OF wf hs l(3) l(1) l(6) l(4) _ d fr']) (rule tk)
    have out: "slot_of (page_size s) (tables ! i) (kv_size s (hs ! i) + j) \<notin> live_slots s h"
      if "h \<in> set (live s)" "i < length hs" "j < ns ! i" for h i j
      by (rule batch_slots_inj(2) [OF wf hs l(3) l(1) l(6) l(4) _ d fr' that]) (rule tk)
    have "live_slots s' h = live_slots s h" for h by (simp add: live_slots_def same)
    then have "live_slots s' h \<inter> set (rs_slots r) = {}" if "h \<in> set (live s)" for h
      using out [OF that] l(1) by (auto simp: sl set_batch_index)
    then show ?thesis
      using inj distinct_batch_index by (simp add: writes_private_def sl rf same distinct_map)
  qed
  have new: "new \<in> set (concat rs)" if "(old, new) \<in> set (concat cs)" for old new
    using cps that by (metis imageI in_mono list.set_map snd_conv)
  have pinlt: "p < num_pages s" if "p \<in> set ?pinned" for p
    using that hs live_page_not_free(1) [OF wf] unfolding pinned_spec(2) by blast
  have copies: "\<forall>(old, new) \<in> set (concat cs). new \<in> set (concat rs) \<and> old \<notin> set (concat rs)"
    using old new by blast
  have pind: "distinct ?pinned" by (rule pinned_spec(1))
  have len: "length (replicate (num_layers s) (None :: (nat \<Rightarrow> 'a) option)) = num_layers s" by simp
  have "reservation_ok s' r"
    unfolding reservation_ok_def rf same len
    using tabok once copies cps priv pins pinlt l(1-3,5) d hs pind rf(9) by blast
  with wf' ab rf show ?thesis by simp
qed

lemma reserve_batch_fails_atomically:
  assumes "reserve_batch hs ns s = (Inl e, s')"
  shows "s' = s \<or> s' = s\<lparr>allocation_failures := Suc (allocation_failures s)\<rparr>"
  using assms by (auto simp: reserve_batch_def Let_def split: if_splits option.splits)

end
