(* ===== verification/PagedCommit.thy ===== *)
theory PagedCommit
  imports PagedInv
begin

text \<open>
  From a reservation to its end: staging the layers, committing them, aborting.  A commit appends
  to each request of the batch exactly the rows its layers staged and leaves every other request
  alone; an abort leaves every request as it was.
\<close>

lemma reservation_okD:
  assumes "reservation_ok s r"
  shows "\<not> rs_finished r" "rs_handles r \<noteq> []" "distinct (rs_handles r)"
    "set (rs_handles r) \<subseteq> set (live s)" "length (append_lengths r) = length (rs_handles r)"
    "length (candidate_tables r) = length (rs_handles r)"
    "length (staged_keys r) = num_layers s" "length (staged_values r) = num_layers s"
    "reserved_pages s = set (rs_reserved r)" "distinct (rs_reserved r)" "distinct (pinned_pages r)"
    "\<And>p. p \<in> set (pinned_pages r) \<Longrightarrow> p < num_pages s"
    "\<And>p. p < num_pages s \<Longrightarrow> pin_counts s ! p = (if p \<in> set (pinned_pages r) then 1 else 0)"
    "\<And>i. i < length (rs_handles r) \<Longrightarrow> table_ok s r i"
    "\<And>p. p \<in> set (rs_reserved r) \<Longrightarrow> count_list (concat (candidate_tables r)) p = 1"
    "\<And>old new. (old, new) \<in> set (copy_pages r) \<Longrightarrow> new \<in> set (rs_reserved r) \<and> old \<notin> set (rs_reserved r)"
    "distinct (map snd (copy_pages r))" "writes_private s r"
  using assms unfolding reservation_ok_def by blast+

lemma table_okD:
  assumes "table_ok s r i"
  defines "h \<equiv> rs_handles r ! i" and "t \<equiv> candidate_tables r ! i"
  shows "distinct t" "\<And>p. p \<in> set t \<Longrightarrow> p < num_pages s"
    "length t = ceil_div (kv_size s h + append_lengths r ! i) (page_size s)"
    "set t \<subseteq> set (block_table (objs s h)) \<union> set (rs_reserved r)"
    "\<And>k. k < length (block_table (objs s h)) \<Longrightarrow>
      t ! k = block_table (objs s h) ! k \<or> (block_table (objs s h) ! k, t ! k) \<in> set (copy_pages r)"
  using assms unfolding table_ok_def Let_def by blast+

subsection \<open>Staging\<close>

definition pages_copied :: "nat \<Rightarrow> (nat \<times> nat) list \<Rightarrow> (nat \<Rightarrow> 'v) \<Rightarrow> bool" where
  "pages_copied ps copies f \<longleftrightarrow>
     (\<forall>(old, new) \<in> set copies. \<forall>off < ps. f (new * ps + off) = f (old * ps + off))"

text \<open>A layer staged with the tensors \<open>kt\<close> and \<open>vt\<close>.\<close>

definition staged_as :: "'v kv \<Rightarrow> 'v reservation \<Rightarrow> nat \<Rightarrow> 'v tensor \<Rightarrow> 'v tensor \<Rightarrow> bool" where
  "staged_as s r layer kt vt \<longleftrightarrow>
     staged_keys r ! layer =
       Some (scatter (zip (rs_slots r) (packed_rows (append_lengths r) kt)) (key_pages s ! layer)) \<and>
     staged_values r ! layer =
       Some (scatter (zip (rs_slots r) (packed_rows (append_lengths r) vt)) (value_pages s ! layer)) \<and>
     pages_copied (page_size s) (copy_pages r) (key_pages s ! layer) \<and>
     pages_copied (page_size s) (copy_pages r) (value_pages s ! layer)"

lemma reserved_not_live:
  assumes "kv_wf s" "reservation_ok s r" "h \<in> set (live s)" "p \<in> set (block_table (objs s h))"
  shows "p \<notin> set (rs_reserved r)"
  using live_page_not_free(2) [OF assms(1,3,4)] kv_wfD(13) [OF assms(1)] reservation_okD(9) [OF assms(2)]
  by blast

lemma copies_keep_live:
  assumes "kv_wf s" "reservation_ok s r" "h \<in> set (live s)" "x \<in> live_slots s h"
  shows "fold (copy_page (page_size s)) (copy_pages r) f x = f x"
proof (rule copy_pages_other)
  have "x div page_size s \<notin> set (rs_reserved r)"
    using reserved_not_live [OF assms(1-3) live_slot_page [OF assms(1,3,4)]] .
  then show "x div page_size s \<notin> set (map snd (copy_pages r))"
    using reservation_okD(16) [OF assms(2)] by auto
qed

lemma copies_copied:
  assumes "kv_wf s" "reservation_ok s r"
  shows "pages_copied (page_size s) (copy_pages r) (fold (copy_page (page_size s)) (copy_pages r) f)"
proof -
  note r = reservation_okD [OF assms(2)] and ps = kv_wfD(1) [OF assms(1)]
  have disj: "set (map fst (copy_pages r)) \<inter> set (map snd (copy_pages r)) = {}"
  proof -
    have False if x: "x \<in> fst ` set (copy_pages r)" "x \<in> snd ` set (copy_pages r)" for x
    proof -
      obtain a b where "(x, a) \<in> set (copy_pages r)" "(b, x) \<in> set (copy_pages r)"
        using x by auto
      then show False using r(16) [of x a] r(16) [of b x] by blast
    qed
    then show ?thesis by auto
  qed
  have "fold (copy_page (page_size s)) (copy_pages r) f (new * page_size s + off) =
        fold (copy_page (page_size s)) (copy_pages r) f (old * page_size s + off)"
    if "(old, new) \<in> set (copy_pages r)" "off < page_size s" for old new off
  proof -
    have "old \<notin> set (map snd (copy_pages r))" using that(1) disj by force
    then have "fold (copy_page (page_size s)) (copy_pages r) f (old * page_size s + off) = f (old * page_size s + off)"
      using that(2) by (intro copy_pages_other) simp
    then show ?thesis using copy_pages_copied [OF ps r(17) disj that] by simp
  qed
  then show ?thesis unfolding pages_copied_def by blast
qed

lemma reservation_ok_frame:
  assumes "reservation_ok s r"
    and "page_size s' = page_size s" "num_pages s' = num_pages s" "num_layers s' = num_layers s"
    and "objs s' = objs s" "live s' = live s" "reserved_pages s' = reserved_pages s"
    and "pin_counts s' = pin_counts s"
    and "length (staged_keys r') = num_layers s" "length (staged_values r') = num_layers s"
    and "rs_handles r' = rs_handles r" "append_lengths r' = append_lengths r"
    "candidate_tables r' = candidate_tables r" "rs_reserved r' = rs_reserved r"
    "copy_pages r' = copy_pages r" "pinned_pages r' = pinned_pages r"
    "rs_finished r' = rs_finished r" "rs_slots r' = rs_slots r"
  shows "reservation_ok s' r'"
proof -
  have "table_ok s' r' i = table_ok s r i" for i by (simp add: table_ok_def assms)
  moreover have "writes_private s' r' = writes_private s r"
    by (simp add: writes_private_def live_slots_def assms)
  ultimately show ?thesis using assms unfolding reservation_ok_def by simp
qed

lemma stage_layer_Inr:
  assumes "stage_layer layer kt vt r s = (Inr out, r', s')"
  defines "kbase \<equiv> fold (copy_page (page_size s)) (copy_pages r) (key_pages s ! layer)"
    and "vbase \<equiv> fold (copy_page (page_size s)) (copy_pages r) (value_pages s ! layer)"
  defines "knew \<equiv> scatter (zip (rs_slots r) (packed_rows (append_lengths r) kt)) kbase"
    and "vnew \<equiv> scatter (zip (rs_slots r) (packed_rows (append_lengths r) vt)) vbase"
  shows "layer < length (staged_keys r)" "out = (knew, vnew)"
    "r' = r\<lparr>staged_keys := (staged_keys r)[layer := Some knew],
           staged_values := (staged_values r)[layer := Some vnew]\<rparr>"
    "s' = s\<lparr>key_pages := (key_pages s)[layer := kbase], value_pages := (value_pages s)[layer := vbase]\<rparr>"
  using assms(1) unfolding kbase_def vbase_def knew_def vnew_def
  by (auto simp: stage_layer_def Let_def split: if_splits sum.splits)

lemma stage_layer_ok:
  assumes wf: "kv_wf s" and ok: "reservation_ok s r"
    and run: "stage_layer layer kt vt r s = (Inr out, r', s')"
  shows "kv_wf s' \<and> reservation_ok s' r' \<and> kv_abs s' = kv_abs s \<and> staged_as s' r' layer kt vt \<and>
    (\<forall>l k v. l \<noteq> layer \<longrightarrow> staged_as s r l k v \<longrightarrow> staged_as s' r' l k v)"
proof -
  note e = stage_layer_Inr [OF run] and r = reservation_okD [OF ok] and w = kv_wfD [OF wf]
  have lt: "layer < num_layers s" using e(1) r(7) by simp
  have wf': "kv_wf s'" by (rule kv_wf_frame [OF wf]) (use w in \<open>simp_all add: e(4)\<close>)
  have ok': "reservation_ok s' r'"
    by (rule reservation_ok_frame [OF ok]) (use r(7,8) in \<open>simp_all add: e(3,4)\<close>)
  have "content s' h = content s h" if h: "h \<in> set (live s)" for h
  proof -
    have rw: "rows s (fold (copy_page (page_size s)) (copy_pages r) f) h = rows s f h" for f
      by (rule rows_cong) (rule copies_keep_live [OF wf ok h])
    have up: "map (\<lambda>pg. rows s pg h) (xs[layer := fold (copy_page (page_size s)) (copy_pages r) (xs ! layer)]) =
        map (\<lambda>pg. rows s pg h) xs" if "layer < length xs" for xs
      by (rule nth_equalityI) (use that in \<open>auto simp: nth_list_update rw\<close>)
    have "rows s' = rows s" by (simp add: fun_eq_iff rows_def e(4))
    then show ?thesis using up [of "key_pages s"] up [of "value_pages s"] lt w(4,5)
      by (simp add: content_def e(4))
  qed
  then have "kv_abs s' = kv_abs s" by (simp add: fun_eq_iff kv_abs_def e(4))
  moreover have "staged_as s' r' layer kt vt"
    using copies_copied [OF wf ok, of "key_pages s ! layer"]
      copies_copied [OF wf ok, of "value_pages s ! layer"] lt w(4,5) r(7,8) by (simp add: staged_as_def e(3,4))
  moreover have "\<forall>l k v. l \<noteq> layer \<longrightarrow> staged_as s r l k v \<longrightarrow> staged_as s' r' l k v"
    by (simp add: staged_as_def e(3,4))
  ultimately show ?thesis using wf' ok' by simp
qed

subsection \<open>Committing: the tables and counts\<close>

lemma commit_fold:
  assumes "distinct (map (\<lambda>x. fst (fst x)) xs)"
  shows "fold (\<lambda>((h, table), n) f. f(h := (f h)\<lparr>block_table := table, rc_length := rc_length (f h) + n\<rparr>)) xs f h =
    (case find (\<lambda>x. fst (fst x) = h) xs of None \<Rightarrow> f h
     | Some ((_, table), n) \<Rightarrow> (f h)\<lparr>block_table := table, rc_length := rc_length (f h) + n\<rparr>)"
  using assms
proof (induction xs arbitrary: f)
  case (Cons x xs)
  obtain k t n where x: "x = ((k, t), n)" by (metis surj_pair)
  have "find (\<lambda>x. fst (fst x) = h) xs = None" if "k = h"
    using Cons.prems that by (auto simp: find_None_iff x image_iff)
  with Cons show ?case by (auto simp: x)
qed simp

lemma commit_objs_lookup:
  assumes "distinct (rs_handles r)" "length (append_lengths r) = length (rs_handles r)"
    "length (candidate_tables r) = length (rs_handles r)"
  shows "i < length (rs_handles r) \<Longrightarrow> commit_objs r f (rs_handles r ! i) =
      (f (rs_handles r ! i))\<lparr>block_table := candidate_tables r ! i,
         rc_length := rc_length (f (rs_handles r ! i)) + append_lengths r ! i\<rparr>"
    and "h \<notin> set (rs_handles r) \<Longrightarrow> commit_objs r f h = f h"
proof -
  let ?xs = "zip (zip (rs_handles r) (candidate_tables r)) (append_lengths r)"
  have hs: "map (\<lambda>x. fst (fst x)) ?xs = rs_handles r"
    by (rule nth_equalityI) (use assms in simp_all)
  then have d: "distinct (map (\<lambda>x. fst (fst x)) ?xs)" using assms(1) by simp
  have e: "commit_objs r f h = (case find (\<lambda>x. fst (fst x) = h) ?xs of None \<Rightarrow> f h
     | Some ((_, table), n) \<Rightarrow> (f h)\<lparr>block_table := table, rc_length := rc_length (f h) + n\<rparr>)" for h
    unfolding commit_objs_def by (rule commit_fold [OF d])
  show "commit_objs r f (rs_handles r ! i) =
      (f (rs_handles r ! i))\<lparr>block_table := candidate_tables r ! i,
         rc_length := rc_length (f (rs_handles r ! i)) + append_lengths r ! i\<rparr>"
    if i: "i < length (rs_handles r)"
  proof -
    have "find (\<lambda>x. fst (fst x) = rs_handles r ! i) ?xs = Some (?xs ! i)"
      unfolding find_Some_iff by (rule exI [of _ i]) (use assms i in \<open>auto simp: nth_eq_iff_index_eq\<close>)
    then show ?thesis using assms i by (simp add: e)
  qed
  show "commit_objs r f h = f h" if "h \<notin> set (rs_handles r)"
  proof -
    have "find (\<lambda>x. fst (fst x) = h) ?xs = None"
    proof -
      have "h \<notin> set (map (\<lambda>x. fst (fst x)) ?xs)" using that hs by simp
      then show ?thesis unfolding find_None_iff set_map by blast
    qed
    then show ?thesis by (simp add: e)
  qed
qed

lemma count_list_split:
  assumes "distinct xs" "distinct ys" "set ys \<subseteq> set xs" "\<And>h. h \<in> set xs \<Longrightarrow> h \<notin> set ys \<Longrightarrow> g h = f h"
  shows "int (count_list (concat (map g xs)) p) =
    int (count_list (concat (map f xs)) p) - int (count_list (concat (map f ys)) p)
      + int (count_list (concat (map g ys)) p)"
proof -
  have total: "int (count_list (concat (map q zs)) p) = (\<Sum>h\<in>set zs. int (count_list (q h) p))"
    if "distinct zs" for q :: "'a \<Rightarrow> 'b list" and zs
    using that by (simp add: count_list_concat_map sum_list_distinct_conv_sum_set)
  have "(\<Sum>h\<in>set xs. int (count_list (q h) p)) =
     (\<Sum>h\<in>set xs - set ys. int (count_list (q h) p)) + (\<Sum>h\<in>set ys. int (count_list (q h) p))" for q :: "'a \<Rightarrow> 'b list"
    using assms(3) by (intro sum.subset_diff) auto
  moreover have "(\<Sum>h\<in>set xs - set ys. int (count_list (g h) p)) = (\<Sum>h\<in>set xs - set ys. int (count_list (f h) p))"
    using assms(4) by (intro sum.cong) auto
  ultimately show ?thesis using total [OF assms(1)] total [OF assms(2)] by simp
qed

lemma set_fold_remove1: "distinct xs \<Longrightarrow> set (fold remove1 ys xs) = set xs - set ys \<and> distinct (fold remove1 ys xs)"
  by (induction ys arbitrary: xs) auto

lemma candidate_tables_map:
  assumes "reservation_ok s r"
  shows "map (\<lambda>h. block_table (commit_objs r (objs s) h)) (rs_handles r) = candidate_tables r"
  using commit_objs_lookup(1) [OF reservation_okD(3,5,6) [OF assms]] reservation_okD(6) [OF assms]
  by (intro nth_equalityI) simp_all

lemma candidate_counts_spec:
  assumes wf: "kv_wf s" and ok: "reservation_ok s r" and p: "p < num_pages s"
  shows "candidate_counts r s ! p =
    int (count_list (concat (map (\<lambda>h. block_table (commit_objs r (objs s) h)) (live s))) p)"
proof -
  note r = reservation_okD [OF ok] and w = kv_wfD [OF wf]
  have "int (count_list (concat (map (\<lambda>h. block_table (commit_objs r (objs s) h)) (live s))) p) =
    int (total_refs s p) - int (count_list (concat (map (\<lambda>h. block_table (objs s h)) (rs_handles r))) p)
     + int (count_list (concat (candidate_tables r)) p)"
    unfolding total_refs_def candidate_tables_map [OF ok, symmetric]
    by (rule count_list_split [OF w(6) r(3,4)])
      (simp add: commit_objs_lookup(2) [OF r(3,5,6)])
  then show ?thesis using p w(2,8) by (simp add: candidate_counts_def Let_def)
qed

lemma length_candidate_counts [simp]: "length (candidate_counts r s) = length (ref_counts s)"
  by (simp add: candidate_counts_def Let_def)

definition returned_pages :: "'v reservation \<Rightarrow> 'v kv \<Rightarrow> nat list" where
  "returned_pages r s =
     (let free = fold remove1 (rs_reserved r) (free_pages s)
      in free @ filter (\<lambda>p. candidate_counts r s ! p = 0 \<and> pin_counts s ! p = 0 \<and> p \<notin> set free \<and>
                            p \<notin> set (rs_reserved r)) [0..<num_pages s])"

definition merge_layers :: "(nat \<Rightarrow> 'v) list \<Rightarrow> (nat \<Rightarrow> 'v) option list \<Rightarrow> (nat \<Rightarrow> 'v) list" where
  "merge_layers cur new = map2 (\<lambda>cur new. case new of None \<Rightarrow> cur | Some v \<Rightarrow> v) cur new"

definition committed :: "'v reservation \<Rightarrow> 'v kv \<Rightarrow> 'v kv" where
  "committed r s = s\<lparr>ref_counts := candidate_counts r s,
     key_pages := merge_layers (key_pages s) (staged_keys r),
     value_pages := merge_layers (value_pages s) (staged_values r),
     objs := commit_objs r (objs s), free_pages := sort (returned_pages r s),
     reserved_pages := {}, pin_counts := bump (-1) (pinned_pages r) (pin_counts s)\<rparr>"

lemma unpin_reserved:
  assumes "kv_wf s" "reservation_ok s r"
  shows "unpin (pinned_pages r) (pin_counts s) = (True, bump (-1) (pinned_pages r) (pin_counts s))"
proof (rule unpin_ok)
  fix p assume "p \<in> set (pinned_pages r)"
  then show "p < length (pin_counts s) \<and> int (count_list (pinned_pages r) p) \<le> pin_counts s ! p"
    using reservation_okD(11-13) [OF assms(2)] kv_wfD(3) [OF assms(1)] by (simp add: count_list_distinct)
qed

lemma unpinned:
  assumes "kv_wf s" "reservation_ok s r" "p < num_pages s"
  shows "bump (-1) (pinned_pages r) (pin_counts s) ! p = 0"
  using reservation_okD(11,13) [OF assms(2)] kv_wfD(3) [OF assms(1)] assms(3)
  by (simp add: nth_bump count_list_distinct)

lemma commit_effect:
  assumes wf: "kv_wf s" and ok: "reservation_ok s r" and st: "None \<notin> set (staged_keys r)" "None \<notin> set (staged_values r)"
  shows "commit r s = (Inr (map (kv_size (committed r s)) (rs_handles r)), r\<lparr>rs_finished := True\<rparr>, committed r s)"
proof -
  note r = reservation_okD [OF ok] and w = kv_wfD [OF wf]
  have "\<not> list_ex (\<lambda>c. c < 0) (candidate_counts r s)"
    using candidate_counts_spec [OF wf ok] w(2) by (auto simp: list_ex_iff in_set_conv_nth)
  moreover have "\<not> list_ex (\<lambda>(k, v). (k = None) \<noteq> (v = None) \<or> k = None) (zip (staged_keys r) (staged_values r))"
    using st by (auto simp: list_ex_iff dest: set_zip_leftD set_zip_rightD)
  ultimately show ?thesis
    using r(1,9) unpin_reserved [OF wf ok] w(2)
    by (simp add: commit_def commit_reservation_def Let_def finish_reservation_def committed_def
        returned_pages_def merge_layers_def)
qed

lemma committed_wf:
  assumes wf: "kv_wf s" and ok: "reservation_ok s r"
  shows "kv_wf (committed r s)" "quiescent (committed r s)"
proof -
  note r = reservation_okD [OF ok] and w = kv_wfD [OF wf]
  let ?s = "committed r s"
  have tot: "candidate_counts r s ! p = int (total_refs ?s p)" if "p < num_pages s" for p
    using candidate_counts_spec [OF wf ok that] by (simp add: total_refs_def committed_def)
  have caches: "cache_wf ?s (objs ?s h)" if h: "h \<in> set (live s)" for h
  proof (cases "h \<in> set (rs_handles r)")
    case True
    then obtain i where i: "i < length (rs_handles r)" "h = rs_handles r ! i" by (auto simp: in_set_conv_nth)
    show ?thesis using table_okD [OF r(14) [OF i(1)]] commit_objs_lookup(1) [OF r(3,5,6) i(1), of "objs s"]
      by (simp add: cache_wf_def committed_def i(2))
  next
    case False
    then show ?thesis using w(7) [OF h] commit_objs_lookup(2) [OF r(3,5,6), of h "objs s"]
      by (simp add: cache_wf_def committed_def)
  qed
  have rem: "set (fold remove1 (rs_reserved r) (free_pages s)) = set (free_pages s) - set (rs_reserved r)"
      "distinct (fold remove1 (rs_reserved r) (free_pages s))"
    using set_fold_remove1 [OF w(10)] by blast+
  have fr: "p < num_pages s \<and> total_refs ?s p = 0" if "p \<in> set (returned_pages r s)" for p
  proof (cases "p \<in> set (free_pages s) - set (rs_reserved r)")
    case True
    have "p \<notin> set (block_table (commit_objs r (objs s) h))" if h: "h \<in> set (live s)" for h
    proof
      assume a: "p \<in> set (block_table (commit_objs r (objs s) h))"
      have np: "p \<notin> set (block_table (objs s h))" if "h \<in> set (live s)" for h
        using live_page_not_free(2) [OF wf that] True by blast
      show False
      proof (cases "h \<in> set (rs_handles r)")
        case hr: True
        then obtain i where i: "i < length (rs_handles r)" "h = rs_handles r ! i" by (auto simp: in_set_conv_nth)
        then have "p \<in> set (candidate_tables r ! i)"
          using a commit_objs_lookup(1) [OF r(3,5,6) i(1), of "objs s"] by simp
        then show False using table_okD(4) [OF r(14) [OF i(1)]] np [OF h] True i(2) by blast
      next
        case False
        then show False using a np [OF h] commit_objs_lookup(2) [OF r(3,5,6)] by simp
      qed
    qed
    then show ?thesis using True w(11) by (auto simp: total_refs_def committed_def count_list_0_iff)
  next
    case False
    then have "p < num_pages s" "candidate_counts r s ! p = 0"
      using that rem by (auto simp: returned_pages_def Let_def)
    then show ?thesis using tot by simp
  qed
  have dist: "distinct (returned_pages r s)"
    using rem(2) by (auto simp: returned_pages_def Let_def)
  have len: "length (merge_layers xs ys) = min (length xs) (length ys)" for xs ys :: "_ list"
    by (simp add: merge_layers_def)
  show "kv_wf ?s"
    unfolding kv_wf_def
    using w(1-6,14,15) tot caches fr dist unpinned [OF wf ok] r(7,8)
    by (auto simp: committed_def len handles_drawn_def cache_wf_def total_refs_def)
  show "quiescent ?s" using unpinned [OF wf ok] by (simp add: quiescent_def committed_def)
qed

subsection \<open>Committing: the contents\<close>

lemma merge_nth:
  "l < length cur \<Longrightarrow> l < length new \<Longrightarrow> new ! l = Some v \<Longrightarrow> merge_layers cur new ! l = v"
  by (simp add: merge_layers_def)

text \<open>The writes of a staged layer, by request and position.\<close>

lemma staged_writes:
  assumes "writes_private s r"
  shows "zip (rs_slots r) (packed_rows (append_lengths r) t) =
    map (\<lambda>(i, j). (slot_of (page_size s) (candidate_tables r ! i) (kv_size s (rs_handles r ! i) + j), t_row t i j))
      (batch_index (append_lengths r))"
  using assms unfolding writes_private_def packed_rows_index
  by (auto simp: zip_map_map zip_same_conv_map case_prod_unfold)

lemma staged_value:
  assumes "writes_private s r" "i < length (append_lengths r)" "j < append_lengths r ! i"
  shows "scatter (zip (rs_slots r) (packed_rows (append_lengths r) t)) f
      (slot_of (page_size s) (candidate_tables r ! i) (kv_size s (rs_handles r ! i) + j)) = t_row t i j"
proof (rule scatter_written)
  have "length (rs_slots r) = length (packed_rows (append_lengths r) t)"
    using assms(1) by (simp add: writes_private_def packed_rows_index)
  then have "map fst (zip (rs_slots r) (packed_rows (append_lengths r) t)) = rs_slots r" by (rule map_fst_zip)
  then show "distinct (map fst (zip (rs_slots r) (packed_rows (append_lengths r) t)))"
    using assms(1) unfolding writes_private_def by metis
  show "(slot_of (page_size s) (candidate_tables r ! i) (kv_size s (rs_handles r ! i) + j), t_row t i j)
      \<in> set (zip (rs_slots r) (packed_rows (append_lengths r) t))"
    unfolding staged_writes [OF assms(1)] using assms(2,3) by (force simp: set_batch_index)
qed

lemma unstaged_value:
  assumes "x \<notin> set (rs_slots r)"
  shows "scatter (zip (rs_slots r) (packed_rows ns t)) f x = f x"
  using assms by (intro scatter_other) (auto dest: set_zip_leftD)

text \<open>No write lands on a page position that the request already filled.\<close>

lemma old_position_unwritten:
  assumes wf: "kv_wf s" and ok: "reservation_ok s r" and i: "i < length (rs_handles r)"
    and pos: "pos < kv_size s (rs_handles r ! i)"
  shows "slot_of (page_size s) (candidate_tables r ! i) pos \<notin> set (rs_slots r)"
proof
  note r = reservation_okD [OF ok] and w = kv_wfD [OF wf]
  let ?ps = "page_size s" and ?h = "rs_handles r ! i" and ?t = "candidate_tables r ! i"
  note t = table_okD [OF r(14) [OF i]]
  have live: "?h \<in> set (live s)" using r(4) i by auto
  have k: "pos div ?ps < length (block_table (objs s ?h))"
    using w(7) [OF live] pos w(1) by (simp add: cache_wf_def div_less_ceil_div)
  assume a: "slot_of ?ps ?t pos \<in> set (rs_slots r)"
  have not_old: "?t ! (pos div ?ps) \<noteq> block_table (objs s ?h) ! (pos div ?ps)"
  proof
    assume "?t ! (pos div ?ps) = block_table (objs s ?h) ! (pos div ?ps)"
    then have "slot_of ?ps ?t pos \<in> live_slots s ?h" using pos by (auto simp: slot_of_def live_slots_def)
    then show False using a r(18) live unfolding writes_private_def by blast
  qed
  then have "(block_table (objs s ?h) ! (pos div ?ps), ?t ! (pos div ?ps)) \<in> set (copy_pages r)"
    using t(5) [OF k] by simp
  then have page: "?t ! (pos div ?ps) \<in> set (rs_reserved r)" using r(16) by blast
  obtain i' j where ij: "i' < length (rs_handles r)" "j < append_lengths r ! i'"
      "slot_of ?ps ?t pos = slot_of ?ps (candidate_tables r ! i') (kv_size s (rs_handles r ! i') + j)"
    using a r(5,18) by (auto simp: writes_private_def set_batch_index)
  let ?q = "kv_size s (rs_handles r ! i') + j" and ?t' = "candidate_tables r ! i'"
  note same = slot_of_inj [OF w(1) ij(3)] and t' = table_okD [OF r(14) [OF ij(1)]]
  have kq: "?q div ?ps < length ?t'" using t'(3) ij(2) w(1) by (simp add: div_less_ceil_div)
  have kp: "pos div ?ps < length ?t" using t(3) pos w(1) by (simp add: div_less_ceil_div)
  show False
  proof (cases "i = i'")
    case True
    then have "pos div ?ps = ?q div ?ps" using same(1) t(1) kp kq by (simp add: nth_eq_iff_index_eq)
    then have "pos = ?q" using same(2) by (metis div_mult_mod_eq)
    then show False using pos True by simp
  next
    case False
    have "?t ! (pos div ?ps) \<in> set ?t \<inter> set ?t'" using same(1) kp kq by (metis IntI nth_mem)
    then have "2 \<le> count_list (concat (map ((!) (candidate_tables r)) [0..<length (rs_handles r)])) (?t ! (pos div ?ps))"
      using False i ij(1) by (intro count_list_concat_ge2 [of _ i i']) auto
    then show False using r(15) [OF page] r(6) by (metis map_nth numeral_le_one_iff semiring_norm(69))
  qed
qed

text \<open>Before the scatter, the new table already reads the rows of the old one.\<close>

lemma old_position_value:
  assumes wf: "kv_wf s" and ok: "reservation_ok s r" and i: "i < length (rs_handles r)"
    and pos: "pos < kv_size s (rs_handles r ! i)" and cp: "pages_copied (page_size s) (copy_pages r) f"
  shows "f (slot_of (page_size s) (candidate_tables r ! i) pos) =
         f (slot_of (page_size s) (block_table (objs s (rs_handles r ! i))) pos)"
proof -
  note r = reservation_okD [OF ok] and w = kv_wfD [OF wf]
  have "rs_handles r ! i \<in> set (live s)" using r(4) i by auto
  then have k: "pos div page_size s < length (block_table (objs s (rs_handles r ! i)))"
    using w(7) pos w(1) by (simp add: cache_wf_def div_less_ceil_div)
  from table_okD(5) [OF r(14) [OF i] k] show ?thesis
    using cp w(1) by (auto simp: slot_of_def pages_copied_def)
qed

text \<open>What a commit promises: the batch's requests grow by the staged rows, nothing else changes.\<close>

definition append_rows ::
  "(nat \<Rightarrow> 'v tensor) \<Rightarrow> nat \<Rightarrow> nat \<Rightarrow> 'v list list \<Rightarrow> 'v list list" where
  "append_rows ts i n layers = map (\<lambda>l. layers ! l @ map (t_row (ts l) i) [0..<n]) [0..<length layers]"

definition append_batch ::
  "handle list \<Rightarrow> nat list \<Rightarrow> (nat \<Rightarrow> 'v tensor) \<Rightarrow> (nat \<Rightarrow> 'v tensor) \<Rightarrow> (handle \<Rightarrow> 'v content option) \<Rightarrow>
     handle \<Rightarrow> 'v content option" where
  "append_batch hs ns kts vts pool h =
     (case find (\<lambda>i. hs ! i = h) [0..<length (hs)] of
        None \<Rightarrow> pool h
      | Some i \<Rightarrow> map_option (\<lambda>(rid, ks, vs).
          (rid, append_rows kts i (ns ! i) ks, append_rows vts i (ns ! i) vs))
          (pool h))"

lemma append_batch_in:
  "distinct (hs) \<Longrightarrow> i < length (hs) \<Longrightarrow>
   append_batch hs ns kts vts pool (hs ! i) = map_option (\<lambda>(rid, ks, vs).
          (rid, append_rows kts i (ns ! i) ks, append_rows vts i (ns ! i) vs))
          (pool (hs ! i))"
proof -
  assume d: "distinct (hs)" and i: "i < length (hs)"
  have "find (\<lambda>k. hs ! k = hs ! i) [0..<length (hs)] = Some i"
    unfolding find_Some_iff by (rule exI [of _ i]) (use d i in \<open>auto simp: nth_eq_iff_index_eq\<close>)
  then show ?thesis by (simp add: append_batch_def)
qed

lemma append_batch_out: "h \<notin> set (hs) \<Longrightarrow> append_batch hs ns kts vts pool h = pool h"
proof -
  assume "h \<notin> set (hs)"
  then have "find (\<lambda>k. hs ! k = h) [0..<length (hs)] = None"
    unfolding find_None_iff by auto
  then show ?thesis by (simp add: append_batch_def)
qed

lemma scattered_rows_batch:
  assumes wf: "kv_wf s" and ok: "reservation_ok s r" and i: "i < length (rs_handles r)"
    and cp: "pages_copied (page_size s) (copy_pages r) f"
  shows "rows (committed r s) (scatter (zip (rs_slots r) (packed_rows (append_lengths r) t)) f) (rs_handles r ! i) =
    rows s f (rs_handles r ! i) @ map (t_row t i) [0..<append_lengths r ! i]"
proof -
  note r = reservation_okD [OF ok]
  let ?h = "rs_handles r ! i" and ?n = "append_lengths r ! i" and ?t = "candidate_tables r ! i"
  let ?g = "scatter (zip (rs_slots r) (packed_rows (append_lengths r) t)) f"
  have c: "objs (committed r s) ?h = (objs s ?h)\<lparr>block_table := ?t, rc_length := kv_size s ?h + ?n\<rparr>"
    "page_size (committed r s) = page_size s"
    using commit_objs_lookup(1) [OF r(3,5,6) i] by (simp_all add: committed_def)
  have old: "?g (slot_of (page_size s) ?t pos) = f (slot_of (page_size s) (block_table (objs s ?h)) pos)"
    if "pos < kv_size s ?h" for pos
    by (simp add: unstaged_value [OF old_position_unwritten [OF wf ok i that]]
        old_position_value [OF wf ok i that cp])
  have new: "?g (slot_of (page_size s) ?t (kv_size s ?h + j)) = t_row t i j" if "j < ?n" for j
    using staged_value [OF r(18) _ that] i r(5) by simp
  have "rows (committed r s) ?g ?h = map (\<lambda>pos. ?g (slot_of (page_size s) ?t pos)) [0..<kv_size s ?h + ?n]"
    by (simp add: rows_def c)
  also have "\<dots> = map (\<lambda>pos. f (slot_of (page_size s) (block_table (objs s ?h)) pos)) [0..<kv_size s ?h] @
      map (t_row t i) [0..<?n]"
    by (rule nth_equalityI) (use old new in \<open>auto simp: nth_append not_less dest!: le_Suc_ex\<close>)
  finally show ?thesis by (simp add: rows_def)
qed

lemma scattered_rows_other:
  assumes "kv_wf s" "reservation_ok s r" "h \<in> set (live s)" "h \<notin> set (rs_handles r)"
  shows "rows (committed r s) (scatter (zip (rs_slots r) (packed_rows (append_lengths r) t)) f) h = rows s f h"
proof -
  note r = reservation_okD [OF assms(2)]
  have c: "objs (committed r s) h = objs s h" "page_size (committed r s) = page_size s"
    using commit_objs_lookup(2) [OF r(3,5,6) assms(4)] by (simp_all add: committed_def)
  have "scatter (zip (rs_slots r) (packed_rows (append_lengths r) t)) f x = f x" if "x \<in> live_slots s h" for x
  proof (rule unstaged_value)
    show "x \<notin> set (rs_slots r)" using that r(18) assms(3) unfolding writes_private_def by blast
  qed
  then have "rows s (scatter (zip (rs_slots r) (packed_rows (append_lengths r) t)) f) h = rows s f h"
    by (rule rows_cong)
  then show ?thesis by (simp add: rows_def c)
qed

lemma committed_content:
  assumes wf: "kv_wf s" and ok: "reservation_ok s r"
    and st: "\<And>l. l < num_layers s \<Longrightarrow> staged_as s r l (kts l) (vts l)"
  shows "kv_abs (committed r s) = append_batch (rs_handles r) (append_lengths r) kts vts (kv_abs s)"
proof
  fix h
  note r = reservation_okD [OF ok] and w = kv_wfD [OF wf]
  let ?s = "committed r s"
  have keys: "key_pages ?s = map (\<lambda>l. scatter (zip (rs_slots r) (packed_rows (append_lengths r) (kts l))) (key_pages s ! l)) [0..<num_layers s]"
    by (rule nth_equalityI)
      (use st w(4) r(7) in \<open>simp_all add: committed_def staged_as_def merge_nth merge_layers_def\<close>)
  have vals: "value_pages ?s = map (\<lambda>l. scatter (zip (rs_slots r) (packed_rows (append_lengths r) (vts l))) (value_pages s ! l)) [0..<num_layers s]"
    by (rule nth_equalityI)
      (use st w(5) r(8) in \<open>simp_all add: committed_def staged_as_def merge_nth merge_layers_def\<close>)
  have cp: "pages_copied (page_size s) (copy_pages r) (key_pages s ! l)"
      "pages_copied (page_size s) (copy_pages r) (value_pages s ! l)" if "l < num_layers s" for l
    using st [OF that] by (simp_all add: staged_as_def)
  have live: "live ?s = live s" by (simp add: committed_def)
  show "kv_abs ?s h = append_batch (rs_handles r) (append_lengths r) kts vts (kv_abs s) h"
  proof (cases "h \<in> set (rs_handles r)")
    case True
    then obtain i where i: "i < length (rs_handles r)" "h = rs_handles r ! i" by (auto simp: in_set_conv_nth)
    have rid: "rc_request_id (objs ?s h) = rc_request_id (objs s h)"
      using commit_objs_lookup(1) [OF r(3,5,6) i(1)] by (simp add: committed_def i(2))
    have "h \<in> set (live s)" using True r(4) by blast
    then have "kv_abs ?s h = Some (rc_request_id (objs s h),
        append_rows kts i (append_lengths r ! i) (map (\<lambda>pg. rows s pg h) (key_pages s)),
        append_rows vts i (append_lengths r ! i) (map (\<lambda>pg. rows s pg h) (value_pages s)))"
      using scattered_rows_batch [OF wf ok i(1) cp(1)] scattered_rows_batch [OF wf ok i(1) cp(2)] w(4,5)
      by (simp add: kv_abs_def content_def live rid [unfolded i(2)] keys vals append_rows_def i(2))
    then show ?thesis
      using \<open>h \<in> set (live s)\<close> by (simp add: i(2) append_batch_in [OF r(3) i(1)] kv_abs_def content_def)
  next
    case False
    have rid: "rc_request_id (objs ?s h) = rc_request_id (objs s h)"
      using commit_objs_lookup(2) [OF r(3,5,6) False] by (simp add: committed_def)
    have same: "map (\<lambda>pg. rows ?s pg h) (key_pages ?s) = map (\<lambda>pg. rows s pg h) (key_pages s)"
      "map (\<lambda>pg. rows ?s pg h) (value_pages ?s) = map (\<lambda>pg. rows s pg h) (value_pages s)"
      if "h \<in> set (live s)"
      unfolding keys vals
      by (rule nth_equalityI; use scattered_rows_other [OF wf ok that False] w(4,5) in simp)+
    then show ?thesis
      unfolding append_batch_out [OF False] by (simp add: kv_abs_def content_def live rid)
  qed
qed

end
