(* ===== verification/PagedRun.thy ===== *)
theory PagedRun
  imports PagedCommit
begin

text \<open>
  A whole step on the paged pool: reserve, stage every layer, commit or abort; what the other
  operations do to an outstanding reservation; preflight as the promise that the step succeeds.
\<close>

subsection \<open>Running the layers\<close>

text \<open>The attention layers of a forward pass stage their tensors one after the other.\<close>

fun stage_layers ::
  "nat list \<Rightarrow> (nat \<Rightarrow> 'v tensor) \<Rightarrow> (nat \<Rightarrow> 'v tensor) \<Rightarrow> 'v reservation \<Rightarrow> 'v kv \<Rightarrow>
     (exn + unit) \<times> 'v reservation \<times> 'v kv" where
  "stage_layers [] kts vts r s = (Inr (), r, s)"
| "stage_layers (l # ls) kts vts r s =
     (case stage_layer l (kts l) (vts l) r s of
        (Inl e, r', s') \<Rightarrow> (Inl e, r', s')
      | (Inr _, r', s') \<Rightarrow> stage_layers ls kts vts r' s')"

definition kv_step ::
  "handle list \<Rightarrow> nat list \<Rightarrow> (nat \<Rightarrow> 'v tensor) \<Rightarrow> (nat \<Rightarrow> 'v tensor) \<Rightarrow> 'v kv \<Rightarrow>
     (exn + nat list) \<times> 'v kv" where
  "kv_step hs ns kts vts s =
     (case reserve_batch hs ns s of
        (Inl e, s1) \<Rightarrow> (Inl e, s1)
      | (Inr r, s1) \<Rightarrow>
          (case stage_layers [0..<num_layers s] kts vts r s1 of
             (Inl e, r', s2) \<Rightarrow> (case abort r' s2 of (_, _, s3) \<Rightarrow> (Inl e, s3))
           | (Inr _, r', s2) \<Rightarrow> (case commit r' s2 of (res, _, s3) \<Rightarrow> (res, s3))))"

lemma stage_layer_failed:
  assumes "stage_layer l kt vt r s = (Inl e, r', s')"
  shows "r' = r" "s' = s"
  using assms by (auto simp: stage_layer_def Let_def split: if_splits sum.splits)

lemma stage_layer_frame:
  assumes "stage_layer l kt vt r s = (res, r', s')"
  shows "rs_handles r' = rs_handles r" "append_lengths r' = append_lengths r"
    "rs_reserved r' = rs_reserved r" "pinned_pages r' = pinned_pages r"
    "num_layers s' = num_layers s" "live s' = live s" "objs s' = objs s" "free_pages s' = free_pages s"
    "ref_counts s' = ref_counts s" "page_size s' = page_size s" "num_pages s' = num_pages s"
    "allocation_failures s' = allocation_failures s"
  using assms by (auto simp: stage_layer_def Let_def split: if_splits sum.splits)

lemma stage_layers_frame:
  assumes "stage_layers ls kts vts r s = (res, r', s')"
  shows "rs_handles r' = rs_handles r \<and> append_lengths r' = append_lengths r \<and>
    num_layers s' = num_layers s \<and> live s' = live s \<and> objs s' = objs s \<and> free_pages s' = free_pages s \<and>
    ref_counts s' = ref_counts s \<and> page_size s' = page_size s \<and> num_pages s' = num_pages s \<and>
    allocation_failures s' = allocation_failures s"
  using assms
proof (induction ls arbitrary: r s)
  case (Cons l ls)
  obtain x r1 s1 where run: "stage_layer l (kts l) (vts l) r s = (x, r1, s1)" by (metis surj_pair)
  note f = stage_layer_frame [OF run]
  show ?case
  proof (cases x)
    case (Inl e)
    with Cons.prems run f show ?thesis by simp
  next
    case (Inr out)
    with Cons.prems run have "stage_layers ls kts vts r1 s1 = (res, r', s')" by simp
    from Cons.IH [OF this] f show ?thesis by simp
  qed
qed simp

lemma stage_layers_ok:
  assumes "kv_wf s" "reservation_ok s r" "stage_layers ls kts vts r s = (res, r', s')"
  shows "kv_wf s' \<and> reservation_ok s' r' \<and> kv_abs s' = kv_abs s \<and>
    (res = Inr () \<longrightarrow> (\<forall>l. l \<in> set ls \<or> staged_as s r l (kts l) (vts l) \<longrightarrow> staged_as s' r' l (kts l) (vts l)))"
  using assms
proof (induction ls arbitrary: r s)
  case (Cons l ls)
  obtain x r1 s1 where run: "stage_layer l (kts l) (vts l) r s = (x, r1, s1)" by (metis surj_pair)
  show ?case
  proof (cases x)
    case (Inl e)
    with Cons.prems run stage_layer_failed [OF run [unfolded Inl]] show ?thesis by auto
  next
    case (Inr out)
    note one = stage_layer_ok [OF Cons.prems(1,2) run [unfolded Inr]]
    from Cons.prems(3) run Inr have rest: "stage_layers ls kts vts r1 s1 = (res, r', s')" by simp
    have "kv_wf s1" "reservation_ok s1 r1" using one by blast+
    note IH = Cons.IH [OF this rest]
    have "staged_as s' r' l' (kts l') (vts l')"
      if "res = Inr ()" "l' \<in> set (l # ls) \<or> staged_as s r l' (kts l') (vts l')" for l'
      using IH one that by (metis set_ConsD)
    with IH one show ?thesis by auto
  qed
qed auto

text \<open>Tensors of the geometry the pool was built for.\<close>

definition fits :: "'v kv \<Rightarrow> nat list \<Rightarrow> 'v tensor \<Rightarrow> bool" where
  "fits s ns t \<longleftrightarrow> t_dtype t = kv_dtype s \<and>
     (\<exists>sequence. t_shape t = [length ns, num_kv_heads s, sequence, head_dim s] \<and> (\<forall>n \<in> set ns. n \<le> sequence))"

lemma stage_layers_total:
  assumes "kv_wf s" "reservation_ok s r" "distinct ls"
    and "\<And>l. l \<in> set ls \<Longrightarrow> l < num_layers s \<and> staged_keys r ! l = None \<and> t_shape (kts l) = t_shape (vts l) \<and>
      fits s (append_lengths r) (kts l) \<and> fits s (append_lengths r) (vts l)"
  shows "\<exists>r' s'. stage_layers ls kts vts r s = (Inr (), r', s')"
  using assms
proof (induction ls arbitrary: r s)
  case (Cons l ls)
  note rk = reservation_okD [OF Cons.prems(2)]
  have l: "l < num_layers s" "staged_keys r ! l = None" "t_shape (kts l) = t_shape (vts l)"
    "fits s (append_lengths r) (kts l)" "fits s (append_lengths r) (vts l)"
    using Cons.prems(4) [of l] by simp_all
  have ne: "append_lengths r \<noteq> []" using rk(2,5) by auto
  have "validate_kv_shape (kts l) (vts l) (append_lengths r) s = Inr ()"
  proof -
    obtain sequence where sq: "t_shape (kts l) = [length (append_lengths r), num_kv_heads s, sequence, head_dim s]"
        "\<forall>n \<in> set (append_lengths r). n \<le> sequence"
      using l(4) by (auto simp: fits_def)
    have "Max (set (append_lengths r)) \<in> set (append_lengths r)" by (rule Max_in) (use ne in auto)
    with sq(2) have "\<not> sequence < Max (set (append_lengths r))" by (simp add: not_less)
    moreover have "t_dtype (kts l) = kv_dtype s" "t_dtype (vts l) = kv_dtype s"
      using l(4,5) by (simp_all add: fits_def)
    ultimately show ?thesis using ne by (simp add: validate_kv_shape_def sq(1) l(3) [symmetric])
  qed
  then obtain out r1 s1 where run: "stage_layer l (kts l) (vts l) r s = (Inr out, r1, s1)"
    using rk(1,7) l(1,2) by (auto simp: stage_layer_def Let_def)
  note e = stage_layer_Inr [OF run] and one = stage_layer_ok [OF Cons.prems(1,2) run]
  have "\<exists>r' s'. stage_layers ls kts vts r1 s1 = (Inr (), r', s')"
  proof (rule Cons.IH)
    fix l' assume l': "l' \<in> set ls"
    then have "l' \<noteq> l" using Cons.prems(3) by auto
    with Cons.prems(4) [of l'] l' show "l' < num_layers s1 \<and> staged_keys r1 ! l' = None \<and>
        t_shape (kts l') = t_shape (vts l') \<and> fits s1 (append_lengths r1) (kts l') \<and> fits s1 (append_lengths r1) (vts l')"
      by (simp add: e(3,4) fits_def)
  qed (use one Cons.prems(3) in auto)
  then show ?case by (simp add: run)
qed simp

subsection \<open>Preflight\<close>

lemma admitted_all: "length es = length xs \<Longrightarrow> set es \<subseteq> {None} \<Longrightarrow> admitted xs es = xs"
proof -
  assume a: "length es = length xs" "set es \<subseteq> {None}"
  have "filter (\<lambda>(x, e). e = None) (zip xs es) = zip xs es"
    using a(2) by (auto simp: filter_id_conv dest: set_zip_rightD)
  with a(1) show ?thesis by (simp add: admitted_def)
qed

lemma preflight_reserves:
  assumes "preflight hs ns s = (Inr es, s0)" "set es \<subseteq> {None}"
    and "hs \<noteq> []" "distinct hs" "0 \<notin> set ns"
  shows "s0 = s \<and> length ns = length hs \<and> (\<exists>r s'. reserve_batch hs ns s = (Inr r, s'))"
proof -
  have len: "length hs = length ns" and es: "es = preflight_loop s (zip hs ns) (length (available_pages s))"
    and s0: "s0 = s\<lparr>allocation_failures := allocation_failures s + length (filter (\<lambda>r. r \<noteq> None) es)\<rparr>"
    using assms(1) by (auto simp: preflight_def Let_def split: if_splits)
  have "filter (\<lambda>r. r \<noteq> None) es = []" using assms(2) by (auto simp: filter_empty_conv)
  moreover have "admitted (zip hs ns) es = zip hs ns"
    by (rule admitted_all) (use assms(2) in \<open>simp_all add: es\<close>)
  then obtain q where "reserve_loop s (zip hs ns) (available_pages s) = Some q"
    using preflight_admits_reserve_loop [OF refl, of s "zip hs ns" "available_pages s"] es by metis
  moreover have "\<not> list_ex (\<lambda>n. n = 0) ns" using assms(5) by (auto simp: list_ex_iff)
  ultimately show ?thesis
    using assms(3,4) len s0 by (cases q) (simp add: reserve_batch_def Let_def)
qed

subsection \<open>The step\<close>

lemma kv_step_run:
  assumes wf: "kv_wf s" and q: "quiescent s" and hs: "set hs \<subseteq> set (live s)"
    and res: "reserve_batch hs ns s = (Inr r, s1)"
    and st: "stage_layers [0..<num_layers s] kts vts r s1 = (Inr (), r2, s2)"
  shows "commit r2 s2 = (Inr (map2 (\<lambda>h n. kv_size s h + n) hs ns), r2\<lparr>rs_finished := True\<rparr>, committed r2 s2) \<and>
    kv_wf (committed r2 s2) \<and> quiescent (committed r2 s2) \<and> live (committed r2 s2) = live s \<and>
    kv_abs (committed r2 s2) = append_batch hs ns kts vts (kv_abs s)"
proof -
  note r = reserve_batch_ok [OF wf q hs res]
  then have r1: "kv_wf s1" "reservation_ok s1 r" by blast+
  have fr1: "num_layers s1 = num_layers s" "live s1 = live s" "objs s1 = objs s" "length ns = length hs"
    using res by (auto simp: reserve_batch_def Let_def split: if_splits option.splits)
  note f = stage_layers_frame [OF st]
  note ok = stage_layers_ok [OF r1 st]
  then have ok2: "kv_wf s2" "reservation_ok s2 r2" by blast+
  have staged: "staged_as s2 r2 l (kts l) (vts l)" if "l < num_layers s2" for l
    using that ok f fr1(1) by (simp add: atLeast0LessThan)
  note rk = reservation_okD [OF ok2(2)]
  have none: "None \<notin> set (staged_keys r2)" "None \<notin> set (staged_values r2)"
    using staged rk(7,8) by (fastforce simp: in_set_conv_nth staged_as_def)+
  have names: "rs_handles r2 = hs" "append_lengths r2 = ns" using f r by simp_all
  have size: "kv_size (committed r2 s2) (hs ! i) = kv_size s (hs ! i) + ns ! i" if "i < length hs" for i
    using commit_objs_lookup(1) [OF rk(3,5,6), of i "objs s2"] that f fr1 names by (simp add: committed_def)
  have "map (kv_size (committed r2 s2)) hs = map2 (\<lambda>h n. kv_size s h + n) hs ns"
    by (rule nth_equalityI) (use size fr1(4) in simp_all)
  then have "commit r2 s2 = (Inr (map2 (\<lambda>h n. kv_size s h + n) hs ns), r2\<lparr>rs_finished := True\<rparr>, committed r2 s2)"
    using commit_effect [OF ok2 none] names by simp
  moreover have "kv_abs (committed r2 s2) = append_batch hs ns kts vts (kv_abs s)"
    using committed_content [OF ok2 staged] names ok r by simp
  moreover have "live (committed r2 s2) = live s" using f fr1 by (simp add: committed_def)
  ultimately show ?thesis using committed_wf [OF ok2] by simp
qed

subsection \<open>Aborting\<close>

lemma abort_effect:
  assumes "kv_wf s" "reservation_ok s r"
  shows "abort r s = (Inr (), r\<lparr>rs_finished := True\<rparr>,
    s\<lparr>reserved_pages := {}, pin_counts := bump (-1) (pinned_pages r) (pin_counts s)\<rparr>)"
  using unpin_reserved [OF assms] reservation_okD(1,9) [OF assms(2)]
  by (simp add: abort_def finish_reservation_def)

lemma abort_ok:
  assumes wf: "kv_wf s" and ok: "reservation_ok s r" and run: "abort r s = (res, r', s')"
  shows "kv_wf s' \<and> quiescent s' \<and> kv_abs s' = kv_abs s \<and> res = Inr () \<and> live s' = live s \<and>
    free_pages s' = free_pages s \<and> ref_counts s' = ref_counts s \<and> objs s' = objs s"
proof -
  have s': "s' = s\<lparr>reserved_pages := {}, pin_counts := bump (-1) (pinned_pages r) (pin_counts s)\<rparr>"
    and res: "res = Inr ()"
    using run abort_effect [OF wf ok] by simp_all
  note w = kv_wfD [OF wf]
  have "kv_wf s'" by (rule kv_wf_frame [OF wf]) (use w unpinned [OF wf ok] in \<open>simp_all add: s'\<close>)
  moreover have "quiescent s'" using unpinned [OF wf ok] by (simp add: quiescent_def s')
  moreover have "kv_abs s' = kv_abs s" by (simp add: fun_eq_iff kv_abs_def content_def rows_def s')
  ultimately show ?thesis by (simp add: s' res)
qed

lemma reserve_batch_frame:
  assumes "reserve_batch hs ns s = (res, s')"
  shows "num_layers s' = num_layers s \<and> live s' = live s \<and> objs s' = objs s \<and> page_size s' = page_size s \<and>
    free_pages s' = free_pages s \<and> ref_counts s' = ref_counts s \<and> num_pages s' = num_pages s"
  using assms by (auto simp: reserve_batch_def Let_def split: if_splits option.splits)

lemma failures_frame:
  "kv_wf (s\<lparr>allocation_failures := n\<rparr>) = kv_wf s" "quiescent (s\<lparr>allocation_failures := n\<rparr>) = quiescent s"
  "kv_abs (s\<lparr>allocation_failures := n\<rparr>) = kv_abs s"
proof -
  show "kv_wf (s\<lparr>allocation_failures := n\<rparr>) = kv_wf s"
    by (simp add: kv_wf_def total_refs_def cache_wf_def handles_drawn_def)
  show "quiescent (s\<lparr>allocation_failures := n\<rparr>) = quiescent s" by (simp add: quiescent_def)
  show "kv_abs (s\<lparr>allocation_failures := n\<rparr>) = kv_abs s"
    by (simp add: fun_eq_iff kv_abs_def content_def rows_def)
qed

lemma kv_step_cases:
  assumes wf: "kv_wf s" and q: "quiescent s" and hs: "set hs \<subseteq> set (live s)"
    and run: "kv_step hs ns kts vts s = (res, s')"
  shows "kv_wf s' \<and> quiescent s' \<and> live s' = live s \<and>
    (case res of
       Inr lengths \<Rightarrow> lengths = map2 (\<lambda>h n. kv_size s h + n) hs ns \<and>
                      kv_abs s' = append_batch hs ns kts vts (kv_abs s)
     | Inl e \<Rightarrow> kv_abs s' = kv_abs s \<and> free_pages s' = free_pages s \<and> ref_counts s' = ref_counts s \<and>
                 objs s' = objs s)"
proof (cases "reserve_batch hs ns s")
  case (Pair rr s1)
  show ?thesis
  proof (cases rr)
    case (Inl e)
    have "s' = s \<or> s' = s\<lparr>allocation_failures := Suc (allocation_failures s)\<rparr>"
      using reserve_batch_fails_atomically [of hs ns s e s1] Pair Inl run by (simp add: kv_step_def)
    moreover have "res = Inl e" using Pair Inl run by (simp add: kv_step_def)
    ultimately show ?thesis using wf q by (auto simp: failures_frame)
  next
    case (Inr r)
    note rb = Pair [unfolded Inr]
    note f1 = reserve_batch_frame [OF rb] and ok1 = reserve_batch_ok [OF wf q hs rb]
    obtain x r2 s2 where st: "stage_layers [0..<num_layers s] kts vts r s1 = (x, r2, s2)" by (metis surj_pair)
    show ?thesis
    proof (cases x)
      case (Inl e)
      obtain y r3 s3 where ab: "abort r2 s2 = (y, r3, s3)" by (metis surj_pair)
      have out: "res = Inl e" "s' = s3" using run rb st Inl ab by (simp_all add: kv_step_def)
      have i1: "kv_wf s1" "reservation_ok s1 r" using ok1 by blast+
      note ok2 = stage_layers_ok [OF i1 st]
      then have i2: "kv_wf s2" "reservation_ok s2 r2" by blast+
      from abort_ok [OF i2 ab] ok1 ok2 stage_layers_frame [OF st] f1 show ?thesis by (simp add: out)
    next
      case (Inr u)
      have st': "stage_layers [0..<num_layers s] kts vts r s1 = (Inr (), r2, s2)" using st Inr by simp
      note c = kv_step_run [OF wf q hs rb st']
      then have "res = Inr (map2 (\<lambda>h n. kv_size s h + n) hs ns)" "s' = committed r2 s2"
        using run rb st Inr by (simp_all add: kv_step_def)
      with c show ?thesis by simp
    qed
  qed
qed

lemma kv_step_total:
  assumes wf: "kv_wf s" and q: "quiescent s" and hs: "set hs \<subseteq> set (live s)" "hs \<noteq> []" "distinct hs"
    and ns: "0 \<notin> set ns" and pf: "preflight hs ns s = (Inr es, s0)" "set es \<subseteq> {None}"
    and ts: "\<And>l. l < num_layers s \<Longrightarrow> t_shape (kts l) = t_shape (vts l) \<and> fits s ns (kts l) \<and> fits s ns (vts l)"
  shows "\<exists>lengths s'. kv_step hs ns kts vts s = (Inr lengths, s')"
proof -
  obtain r s1 where rb: "reserve_batch hs ns s = (Inr r, s1)"
    using preflight_reserves [OF pf hs(2,3) ns] by blast
  note ok = reserve_batch_ok [OF wf q hs(1) rb] and f = reserve_batch_frame [OF rb]
  have same: "kv_dtype s1 = kv_dtype s" "num_kv_heads s1 = num_kv_heads s" "head_dim s1 = head_dim s"
    using rb by (auto simp: reserve_batch_def Let_def split: if_splits option.splits)
  obtain r2 s2 where st: "stage_layers [0..<num_layers s] kts vts r s1 = (Inr (), r2, s2)"
    using stage_layers_total [of s1 r "[0..<num_layers s]" kts vts] ok f ts same by (auto simp: fits_def)
  from kv_step_run [OF wf q hs(1) rb st] rb st show ?thesis by (simp add: kv_step_def)
qed

end
