(* ===== verification/PagedSystem.thy ===== *)
theory PagedSystem
  imports PagedRun
begin

text \<open>
  The pool as a transition system: any order of creations, forks, releases, preflights,
  reservations, staged layers, commits and aborts, with at most one reservation outstanding, as
  the executor drives it.  The invariant holds in every reachable state.
\<close>

subsection \<open>Other operations while a reservation is outstanding\<close>

lemma reservation_ok_other:
  assumes ok: "reservation_ok s r"
    and "page_size s' = page_size s" "num_pages s' = num_pages s" "num_layers s' = num_layers s"
    and "reserved_pages s' = reserved_pages s" "pin_counts s' = pin_counts s"
    and same: "\<And>h. h \<in> set (rs_handles r) \<Longrightarrow> h \<in> set (live s') \<and> objs s' h = objs s h"
    and slots: "\<And>h. h \<in> set (live s') \<Longrightarrow> \<exists>k \<in> set (live s). live_slots s' h \<subseteq> live_slots s k \<or> live_slots s' h = {}"
  shows "reservation_ok s' r"
proof -
  note r = reservation_okD [OF ok]
  have "table_ok s' r i" if i: "i < length (rs_handles r)" for i
    using r(14) [OF i] same [of "rs_handles r ! i"] i by (simp add: table_ok_def assms(2,3))
  moreover have "writes_private s' r"
  proof -
    have "kv_size s' (rs_handles r ! i) = kv_size s (rs_handles r ! i)"
      if "(i, j) \<in> set (batch_index (append_lengths r))" for i j
      using same [of "rs_handles r ! i"] that r(5) by (simp add: set_batch_index)
    then have "map (\<lambda>(i, j). slot_of (page_size s) (candidate_tables r ! i) (kv_size s' (rs_handles r ! i) + j))
        (batch_index (append_lengths r)) =
      map (\<lambda>(i, j). slot_of (page_size s) (candidate_tables r ! i) (kv_size s (rs_handles r ! i) + j))
        (batch_index (append_lengths r))"
      by (intro map_cong) auto
    then show ?thesis using r(18) slots unfolding writes_private_def assms(2) by fastforce
  qed
  moreover have "set (rs_handles r) \<subseteq> set (live s')" using same by blast
  ultimately show ?thesis using ok assms(2-6) unfolding reservation_ok_def by simp
qed

lemma reservation_ok_create:
  assumes "kv_wf s" "reservation_ok s r" "kv_create rid s = (h, s')"
  shows "reservation_ok s' r"
proof (rule reservation_ok_other [OF assms(2)])
  note e = kv_create_effect [OF assms(1,3)] and r = reservation_okD [OF assms(2)]
  have fresh: "k \<noteq> h" if "k \<in> set (live s)" for k using e(1) that by blast
  show "k \<in> set (live s') \<and> objs s' k = objs s k" if "k \<in> set (rs_handles r)" for k
    using that r(4) fresh [of k] by (auto simp: e(2))
  have ne: "live s \<noteq> []" using r(2,4) by (cases "rs_handles r") auto
  show "\<exists>j \<in> set (live s). live_slots s' k \<subseteq> live_slots s j \<or> live_slots s' k = {}" if "k \<in> set (live s')" for k
  proof (cases "k = h")
    case True
    then have "live_slots s' k = {}" by (simp add: live_slots_def e(2))
    then show ?thesis using ne by (cases "live s") auto
  next
    case False
    then have "k \<in> set (live s)" "live_slots s' k = live_slots s k" using that by (simp_all add: live_slots_def e(2))
    then show ?thesis by blast
  qed
qed (use kv_create_effect(2) [OF assms(1,3)] in simp_all)

lemma reservation_ok_fork:
  assumes "kv_wf s" "reservation_ok s r" "kv_fork src rid len s = (Inr h, s')"
  shows "reservation_ok s' r"
proof (rule reservation_ok_other [OF assms(2)])
  note e = kv_fork_effect [OF assms(1,3)] and r = reservation_okD [OF assms(2)]
  have fresh: "k \<noteq> h" if "k \<in> set (live s)" for k using e(3) that by blast
  show "k \<in> set (live s') \<and> objs s' k = objs s k" if "k \<in> set (rs_handles r)" for k
    using that r(4) fresh [of k] by (auto simp: e(4))
  show "\<exists>j \<in> set (live s). live_slots s' k \<subseteq> live_slots s j \<or> live_slots s' k = {}" if "k \<in> set (live s')" for k
  proof (cases "k = h")
    case True
    have "live_slots s' h \<subseteq> live_slots s src"
      using e(2) slot_of_take [OF kv_wfD(1) [OF assms(1)]] by (auto simp: live_slots_def e(4))
    then show ?thesis using e(1) True by blast
  next
    case False
    then have "k \<in> set (live s)" "live_slots s' k = live_slots s k" using that by (simp_all add: live_slots_def e(4))
    then show ?thesis by blast
  qed
qed (use kv_fork_effect(4) [OF assms(1,3)] in simp_all)

lemma reservation_ok_release:
  assumes "kv_wf s" "reservation_ok s r" "kv_release (Some h) s = (res, s')" "h \<notin> set (rs_handles r)"
  shows "reservation_ok s' r"
proof (cases "h \<in> set (live s)")
  case True
  have "set (live s') = set (live s) - {h}" "objs s' = objs s" "page_size s' = page_size s"
    "num_pages s' = num_pages s" "num_layers s' = num_layers s" "reserved_pages s' = reserved_pages s"
    "pin_counts s' = pin_counts s"
    using assms(3) kv_release_effect [OF assms(1) True] kv_wfD(6) [OF assms(1)] by auto
  then show ?thesis
    using assms(4) reservation_okD(4) [OF assms(2)]
    by (intro reservation_ok_other [OF assms(2)]) (auto simp: live_slots_def)
next
  case False
  then show ?thesis using assms(2,3) kv_release_absent [OF False] by simp
qed

lemma reservation_ok_failures:
  "reservation_ok s r \<Longrightarrow> reservation_ok (s\<lparr>allocation_failures := n\<rparr>) r"
  by (rule reservation_ok_frame) (simp_all add: reservation_ok_def)

subsection \<open>The transition system\<close>

type_synonym 'v pool_state = "'v kv \<times> 'v reservation option"

inductive pool_step :: "'v pool_state \<Rightarrow> 'v pool_state \<Rightarrow> bool" where
  create: "kv_create rid s = (h, s') \<Longrightarrow> pool_step (s, ro) (s', ro)"
| fork: "kv_fork src rid len s = (res, s') \<Longrightarrow> pool_step (s, ro) (s', ro)"
| release: "kv_release ho s = (res, s') \<Longrightarrow> (\<forall>r h. ro = Some r \<longrightarrow> ho = Some h \<longrightarrow> h \<notin> set (rs_handles r)) \<Longrightarrow>
    pool_step (s, ro) (s', ro)"
| preflight: "preflight hs ns s = (res, s') \<Longrightarrow> pool_step (s, ro) (s', ro)"
| reserve: "set hs \<subseteq> set (live s) \<Longrightarrow> reserve_batch hs ns s = (Inr r, s') \<Longrightarrow> pool_step (s, None) (s', Some r)"
| refuse: "reserve_batch hs ns s = (Inl e, s') \<Longrightarrow> pool_step (s, None) (s', None)"
| stage: "stage_layer l kt vt r s = (res, r', s') \<Longrightarrow> pool_step (s, Some r) (s', Some r')"
| commit: "commit r s = (Inr lengths, r', s') \<Longrightarrow> pool_step (s, Some r) (s', None)"
| commit_refused: "commit r s = (Inl e, r', s') \<Longrightarrow> pool_step (s, Some r) (s', Some r')"
| abort: "abort r s = (res, r', s') \<Longrightarrow> pool_step (s, Some r) (s', None)"

inductive_cases pool_stepE: "pool_step (s, ro) (s', ro')"

definition pool_inv :: "'v pool_state \<Rightarrow> bool" where
  "pool_inv st \<longleftrightarrow> kv_wf (fst st) \<and>
     (case snd st of None \<Rightarrow> quiescent (fst st) | Some r \<Rightarrow> reservation_ok (fst st) r)"

lemma pool_inv_other:
  assumes "pool_inv (s, ro)" "kv_wf s'"
    and "reserved_pages s' = reserved_pages s" "pin_counts s' = pin_counts s" "num_pages s' = num_pages s"
    and "\<And>r. ro = Some r \<Longrightarrow> reservation_ok s' r"
  shows "pool_inv (s', ro)"
  using assms by (cases ro) (simp_all add: pool_inv_def quiescent_def)

lemma commit_cases:
  assumes wf: "kv_wf s" and ok: "reservation_ok s r" and run: "commit r s = (res, r', s')"
  shows "(\<exists>e. res = Inl e) \<and> r' = r \<and> s' = s \<or>
    (\<exists>ls. res = Inr ls) \<and> s' = committed r s"
proof (cases "None \<in> set (staged_keys r) \<or> None \<in> set (staged_values r)")
  case True
  note r = reservation_okD [OF ok]
  have "list_ex (\<lambda>(k, v). (k = None) \<noteq> (v = None) \<or> k = None) (zip (staged_keys r) (staged_values r))"
    using True r(7,8) by (fastforce simp: list_ex_iff in_set_conv_nth set_zip)
  then show ?thesis using run r(1) by (auto simp: commit_def)
next
  case False
  then show ?thesis using commit_effect [OF wf ok] run by auto
qed

lemma pool_step_inv:
  assumes "pool_step st st'" "pool_inv st"
  shows "pool_inv st'"
  using assms
proof (induction rule: pool_step.induct)
  case (create rid s h s' ro)
  note wf = create(2) [unfolded pool_inv_def, simplified, THEN conjunct1]
  show ?case
    by (rule pool_inv_other [OF create(2) kv_create_wf [OF wf create(1)]])
      (use kv_create_effect(2) [OF wf create(1)] create(2) reservation_ok_create [OF wf _ create(1)] in
        \<open>simp_all add: pool_inv_def\<close>)
next
  case (fork src rid len s res s' ro)
  note wf = fork(2) [unfolded pool_inv_def, simplified, THEN conjunct1]
  show ?case
  proof (cases res)
    case (Inl e)
    then show ?thesis using fork by (auto simp: kv_fork_def Let_def split: if_splits prod.splits)
  next
    case (Inr h)
    note run = fork(1) [unfolded Inr]
    show ?thesis
      by (rule pool_inv_other [OF fork(2) kv_fork_wf [OF wf run]])
        (use kv_fork_effect(4) [OF wf run] fork(2) reservation_ok_fork [OF wf _ run] in
          \<open>simp_all add: pool_inv_def\<close>)
  qed
next
  case (release ho s res s' ro)
  note wf = release(3) [unfolded pool_inv_def, simplified, THEN conjunct1]
  show ?case
  proof (cases "\<exists>h. ho = Some h \<and> h \<in> set (live s)")
    case True
    then obtain h where h: "ho = Some h" "h \<in> set (live s)" by blast
    note run = release(1) [unfolded h(1)]
    have ok: "reservation_ok s' r" if "ro = Some r" for r
      using reservation_ok_release [OF wf _ run] release(2,3) that h(1) by (simp add: pool_inv_def)
    show ?thesis
      by (rule pool_inv_other [OF release(3) kv_release_wf [OF wf run, THEN conjunct1]])
        (use kv_release_effect [OF wf h(2)] run ok in auto)
  next
    case False
    then have "s' = s" using release(1) by (auto simp: kv_release_def split: option.splits if_splits)
    then show ?thesis using release(3) by simp
  qed
next
  case (preflight hs ns s res s' ro)
  have "s' = s \<or> (\<exists>n. s' = s\<lparr>allocation_failures := n\<rparr>)"
    using preflight(1) by (auto simp: preflight_def Let_def split: if_splits)
  then show ?case
    using preflight(2) by (auto simp: pool_inv_def failures_frame reservation_ok_failures split: option.splits)
next
  case (reserve hs s ns r s')
  then show ?case using reserve_batch_ok [of s hs ns r s'] by (simp add: pool_inv_def)
next
  case (refuse hs ns s e s')
  then show ?case using reserve_batch_fails_atomically [of hs ns s e s'] by (auto simp: pool_inv_def failures_frame)
next
  case (stage l kt vt r s res r' s')
  have i: "kv_wf s" "reservation_ok s r" using stage(2) by (simp_all add: pool_inv_def)
  show ?case
  proof (cases res)
    case (Inl e)
    then show ?thesis using stage_layer_failed [of l kt vt r s e r' s'] stage by simp
  next
    case (Inr out)
    then show ?thesis using stage_layer_ok [OF i stage(1) [unfolded Inr]] by (simp add: pool_inv_def)
  qed
next
  case (commit r s lengths r' s')
  have i: "kv_wf s" "reservation_ok s r" using commit(2) by (simp_all add: pool_inv_def)
  from commit_cases [OF i commit(1)] committed_wf [OF i] show ?case by (auto simp: pool_inv_def)
next
  case (commit_refused r s e r' s')
  have i: "kv_wf s" "reservation_ok s r" using commit_refused(2) by (simp_all add: pool_inv_def)
  from commit_cases [OF i commit_refused(1)] i show ?case by (auto simp: pool_inv_def)
next
  case (abort r s res r' s')
  have i: "kv_wf s" "reservation_ok s r" using abort(2) by (simp_all add: pool_inv_def)
  from abort_ok [OF i abort(1)] show ?case by (simp add: pool_inv_def)
qed

lemma kv_init_ok:
  assumes "kv_init layers heads hdim psize budget dt zero hexes = Inr s" "uuid_source hexes"
  shows "kv_wf s" "quiescent s" "live s = []"
proof -
  have ps: "psize \<in> {8, 16, 32}" using assms(1) unfolding kv_init_def by (metis Inl_Inr_False)
  note e = assms(1) [unfolded kv_init_def Let_def]
  have s: "page_size s = nat psize" "length (ref_counts s) = num_pages s" "length (pin_counts s) = num_pages s"
    "length (key_pages s) = num_layers s" "length (value_pages s) = num_layers s" "live s = []"
    "ref_counts s = replicate (num_pages s) 0" "pin_counts s = replicate (num_pages s) 0"
    "free_pages s = [0..<num_pages s]" "reserved_pages s = {}" "uuids s = hexes"
    using e by (simp_all only: split: if_splits) (simp_all only: sum.inject sum.distinct; clarsimp)+
  have "0 < page_size s" using ps s(1) by auto
  note s = this s
  show "kv_wf s" using s assms(2) by (auto simp: kv_wf_def total_refs_def handles_drawn_def)
  show "quiescent s" "live s = []" using s by (simp_all add: quiescent_def)
qed

text \<open>What the invariant says about pages, in terms of the code's own counters: the pages in use
  and the pages on the free list never overlap.\<close>

lemma used_and_free:
  assumes "kv_wf s"
  shows "m_used_pages (kv_metrics s) + length (free_pages s) \<le> num_pages s"
proof -
  note w = kv_wfD [OF assms]
  have used: "length (filter (\<lambda>c. 0 < c) (ref_counts s)) = card {p. p < num_pages s \<and> 0 < ref_counts s ! p}"
    by (simp add: length_filter_conv_card w(2))
  have dis: "{p. p < num_pages s \<and> 0 < ref_counts s ! p} \<inter> set (free_pages s) = {}"
    using w(8,11) by fastforce
  have "card {p. p < num_pages s \<and> 0 < ref_counts s ! p} + card (set (free_pages s)) =
      card ({p. p < num_pages s \<and> 0 < ref_counts s ! p} \<union> set (free_pages s))"
    by (rule card_Un_disjoint [symmetric]) (simp_all add: dis)
  also have "\<dots> \<le> card {0..<num_pages s}" using w(11) by (intro card_mono) (simp_all add: subset_iff)
  finally show ?thesis using used w(10) by (simp add: kv_metrics_def Let_def distinct_card)
qed

lemma pool_reachable_inv:
  assumes "kv_init layers heads hdim psize budget dt zero hexes = Inr s0" "uuid_source hexes"
    and "pool_step\<^sup>*\<^sup>* (s0, None) st"
  shows "pool_inv st"
  using assms(3)
proof (induction rule: rtranclp_induct)
  case base
  then show ?case using kv_init_ok [OF assms(1,2)] by (simp add: pool_inv_def)
next
  case (step st st')
  then show ?case using pool_step_inv by blast
qed

subsection \<open>A small pool\<close>

definition sample_hex :: "nat \<Rightarrow> string" where
  "sample_hex n = CHR ''b'' # replicate n CHR ''a''"

lemma sample_hex_source: "uuid_source sample_hex"
proof -
  have "suffix (sample_hex m) (sample_hex n) \<Longrightarrow> m = n" for m n
  proof -
    assume a: "suffix (sample_hex m) (sample_hex n)"
    then obtain xs where xs: "sample_hex n = xs @ sample_hex m" by (auto simp: suffix_def)
    then have "CHR ''b'' \<in> set (tl (sample_hex n)) \<or> xs = []"
      by (cases xs) (auto simp: sample_hex_def)
    then show "m = n" using xs by (auto simp: sample_hex_def)
  qed
  then show ?thesis by (auto simp: uuid_source_def)
qed

definition sample_pool :: "nat kv" where
  "sample_pool = (case kv_init 1 1 1 8 96 Float16 0 sample_hex of Inr s \<Rightarrow> snd (kv_create ''r'' s)
                  | Inl _ \<Rightarrow> undefined)"

definition sample_handle :: handle where "sample_handle = ''paged-kv-r-b''"

definition sample_tensor :: "nat \<Rightarrow> nat \<Rightarrow> nat tensor" where
  "sample_tensor base l = \<lparr>t_shape = [1, 1, 9, 1], t_dtype = Float16, t_row = (\<lambda>i j. base + j)\<rparr>"

lemma sample_init: "kv_init 1 1 1 8 96 Float16 (0 :: nat) sample_hex =
   Inr \<lparr>num_layers = 1, num_kv_heads = 1, head_dim = 1, page_size = 8, kv_dtype = Float16,
     bytes_per_page = 32, num_pages = 3,
     objs = (\<lambda>_. \<lparr>rc_handle = [], rc_request_id = [], block_table = [], rc_length = 0\<rparr>),
     live = [], reserved_pages = {}, allocation_failures = 0, free_pages = [0, 1, 2],
     ref_counts = [0, 0, 0], pin_counts = [0, 0, 0], key_pages = [\<lambda>_. 0], value_pages = [\<lambda>_. 0],
     uuids = sample_hex, next_uuid = 0\<rparr>"
  by (simp add: kv_init_def Let_def upt_rec numeral_3_eq_3)

lemma sample_pool_state:
  "sample_pool = \<lparr>num_layers = 1, num_kv_heads = 1, head_dim = 1, page_size = 8, kv_dtype = Float16,
     bytes_per_page = 32, num_pages = 3,
     objs = (\<lambda>_. \<lparr>rc_handle = [], rc_request_id = [], block_table = [], rc_length = 0\<rparr>)
       (sample_handle := \<lparr>rc_handle = sample_handle, rc_request_id = ''r'', block_table = [], rc_length = 0\<rparr>),
     live = [sample_handle], reserved_pages = {}, allocation_failures = 0, free_pages = [0, 1, 2],
     ref_counts = [0, 0, 0], pin_counts = [0, 0, 0], key_pages = [\<lambda>_. 0], value_pages = [\<lambda>_. 0],
     uuids = sample_hex, next_uuid = 1\<rparr>"
  by (simp add: sample_pool_def sample_init kv_create_def Let_def paged_handle_def sample_hex_def sample_handle_def)

lemma sample_pool_ok: "kv_wf sample_pool" "quiescent sample_pool" "set [sample_handle] \<subseteq> set (live sample_pool)"
proof -
  note i = kv_init_ok(1) [OF sample_init sample_hex_source]
  show "kv_wf sample_pool"
    unfolding sample_pool_def sample_init sum.case by (rule kv_create_wf [OF i]) (rule surjective_pairing)
  show "quiescent sample_pool" by (auto simp: sample_pool_state quiescent_def less_Suc_eq numeral_3_eq_3)
  show "set [sample_handle] \<subseteq> set (live sample_pool)" by (simp add: sample_pool_state)
qed

end
