(* ===== verification/PagedProps.thy ===== *)
theory PagedProps
  imports PagedSystem
begin

text \<open>
  The properties of the paged pool, stated over the code's operations and the abstract pool
  \<open>kv_abs\<close> (each live handle with the rows it holds, layer by layer).
\<close>

subsection \<open>Appending\<close>

text \<open>C3: A step that the preflight admits succeeds, whatever pages it has to take or copy.  When
  no reservation is outstanding, the handles are live and distinct, the preflight reports no error
  and the layers hand over tensors of the pool's geometry, then reserving, staging every layer and
  committing returns the new lengths, leaves the pool well formed with nothing reserved or pinned,
  and appends to each request of the batch exactly its rows of every layer; every other request,
  forks that share pages with the batch included, keeps its content.\<close>

theorem admitted_step_appends:
  assumes "kv_wf s" "quiescent s" "set hs \<subseteq> set (live s)" "hs \<noteq> []" "distinct hs" "0 \<notin> set ns"
    and "preflight hs ns s = (Inr es, s0)" "set es \<subseteq> {None}"
    and "\<forall>l < num_layers s. t_shape (kts l) = t_shape (vts l) \<and> fits s ns (kts l) \<and> fits s ns (vts l)"
  shows "\<exists>s'. kv_step hs ns kts vts s = (Inr (map2 (\<lambda>h n. kv_size s h + n) hs ns), s') \<and>
    kv_wf s' \<and> quiescent s' \<and> live s' = live s \<and> kv_abs s' = append_batch hs ns kts vts (kv_abs s)"
proof -
  obtain lengths s' where run: "kv_step hs ns kts vts s = (Inr lengths, s')"
    using kv_step_total [OF assms(1-8), of kts vts] assms(9) by blast
  with kv_step_cases [OF assms(1-3) run] show ?thesis by simp
qed

theorem admitted_step_appends_witness:
  "\<exists>s'. kv_step [sample_handle] [9] (sample_tensor 10) (sample_tensor 20) sample_pool = (Inr [9], s') \<and>
     kv_abs s' sample_handle =
       Some (''r'', [[10, 11, 12, 13, 14, 15, 16, 17, 18]], [[20, 21, 22, 23, 24, 25, 26, 27, 28]])"
proof -
  have pf: "preflight [sample_handle] [9] sample_pool = (Inr [None], sample_pool)"
    by (simp add: preflight_def Let_def sample_pool_state page_cost_def needs_copy_def available_pages_def ceil_div_def)
  have fit: "\<forall>l < num_layers sample_pool. t_shape (sample_tensor 10 l) = t_shape (sample_tensor 20 l) \<and>
      fits sample_pool [9] (sample_tensor 10 l) \<and> fits sample_pool [9] (sample_tensor 20 l)"
    by (simp add: sample_pool_state sample_tensor_def fits_def)
  have new: "kv_size sample_pool sample_handle = 0" by (simp add: sample_pool_state)
  have abs0: "kv_abs sample_pool sample_handle = Some (''r'', [[]], [[]])"
    by (simp add: kv_abs_def content_def rows_def sample_pool_state)
  have "append_batch [sample_handle] [9] (sample_tensor 10) (sample_tensor 20) (kv_abs sample_pool) sample_handle =
      Some (''r'', [[10, 11, 12, 13, 14, 15, 16, 17, 18]], [[20, 21, 22, 23, 24, 25, 26, 27, 28]])"
    by (simp add: append_batch_def abs0 append_rows_def sample_tensor_def upt_rec)
  with admitted_step_appends [OF sample_pool_ok _ _ _ pf _ fit] new show ?thesis by fastforce
qed

text \<open>C4: A step that fails, at the reservation or in the middle of the layers, changes no
  request: after its error the pool is well formed, nothing stays reserved or pinned, and the
  contents, block tables, reference counts and free pages are those before the step.\<close>

theorem failed_step_is_undone:
  assumes "kv_wf s" "quiescent s" "set hs \<subseteq> set (live s)" "kv_step hs ns kts vts s = (Inl e, s')"
  shows "kv_wf s' \<and> quiescent s' \<and> live s' = live s \<and> kv_abs s' = kv_abs s \<and>
    free_pages s' = free_pages s \<and> ref_counts s' = ref_counts s \<and> objs s' = objs s"
  using kv_step_cases [OF assms] by simp

theorem failed_step_is_undone_witness:
  "\<exists>s'. kv_step [sample_handle] [25] (sample_tensor 10) (sample_tensor 20) sample_pool =
      (Inl (ValueError ''native paged KV capacity exhausted before model execution''), s') \<and>
    kv_abs s' = kv_abs sample_pool \<and> free_pages s' = [0, 1, 2]"
proof -
  have run: "kv_step [sample_handle] [25] (sample_tensor 10) (sample_tensor 20) sample_pool =
      (Inl (ValueError ''native paged KV capacity exhausted before model execution''),
       sample_pool\<lparr>allocation_failures := 1\<rparr>)"
    by (simp add: kv_step_def reserve_batch_def sample_pool_state available_pages_def reserve_one_def
        needs_copy_def ceil_div_def Let_def)
  from failed_step_is_undone [OF sample_pool_ok run] run show ?thesis by (simp add: sample_pool_state)
qed

subsection \<open>Any order of operations\<close>

text \<open>C5: Whatever order creations, forks, releases, preflights, reservations, staged layers,
  commits and aborts come in, with one reservation outstanding at most, the pool stays well
  formed: every reference count is the number of table entries naming the page, every table
  covers exactly its request's tokens, a page on the free list is in nobody's table, the pages
  in use and the free pages never exceed the pool; and an outstanding reservation writes to no
  slot that a live request reads.\<close>

theorem reachable_pool_is_sound:
  assumes "kv_init layers heads hdim psize budget dt zero hexes = Inr s0" "uuid_source hexes"
    and "pool_step\<^sup>*\<^sup>* (s0, None) (s, ro)"
  shows "kv_wf s \<and> m_used_pages (kv_metrics s) + length (free_pages s) \<le> num_pages s \<and>
    (\<forall>h \<in> set (live s). \<forall>p \<in> set (block_table (objs s h)). p \<notin> set (free_pages s)) \<and>
    (\<forall>r. ro = Some r \<longrightarrow> (\<forall>h \<in> set (live s). live_slots s h \<inter> set (rs_slots r) = {})) \<and>
    (ro = None \<longrightarrow> quiescent s)"
proof -
  have inv: "pool_inv (s, ro)" by (rule pool_reachable_inv [OF assms])
  then have wf: "kv_wf s" by (simp add: pool_inv_def)
  have "live_slots s h \<inter> set (rs_slots r) = {}" if "ro = Some r" "h \<in> set (live s)" for r h
  proof -
    have "writes_private s r" using inv that reservation_okD(18) [of s r] by (simp add: pool_inv_def)
    then show ?thesis using that unfolding writes_private_def by blast
  qed
  moreover have "ro = None \<longrightarrow> quiescent s" using inv by (auto simp: pool_inv_def)
  ultimately show ?thesis using wf used_and_free [OF wf] live_page_not_free(2) [OF wf] by blast
qed

theorem reachable_pool_is_sound_witness: "kv_wf sample_pool \<and> quiescent sample_pool"
proof -
  obtain s where s: "kv_init 1 1 1 8 96 Float16 (0 :: nat) sample_hex = Inr s" using sample_init by blast
  obtain h where "kv_create ''r'' s = (h, sample_pool)" by (simp add: sample_pool_def s prod_eq_iff)
  then have "pool_step\<^sup>*\<^sup>* (s, None) (sample_pool, None)"
    by (intro r_into_rtranclp pool_step.create)
  from reachable_pool_is_sound [OF s sample_hex_source this] show ?thesis by simp
qed

subsection \<open>Forks\<close>

lemma bump_undo: "length xs = length ys \<Longrightarrow> xs = ys \<Longrightarrow> bump (-1) ps (bump 1 ps xs) = ys"
  by (rule nth_equalityI) (simp_all add: nth_bump)

lemma fork_release_effect:
  assumes wf: "kv_wf s" and fk: "kv_fork src rid len s = (Inr h, s1)"
  shows "kv_release (Some h) s1 = (Inr (), s\<lparr>objs := objs s1, next_uuid := Suc (next_uuid s)\<rparr>)"
proof -
  define n where "n = (case len of None \<Rightarrow> kv_size s src | Some i \<Rightarrow> nat i)"
  define pages where "pages = take (ceil_div n (page_size s)) (block_table (objs s src))"
  note e = kv_fork_effect [OF wf fk, folded n_def, folded pages_def] and w = kv_wfD [OF wf]
  have wf1: "kv_wf s1" by (rule kv_fork_wf [OF wf fk])
  have h1: "h \<in> set (live s1)" by (simp add: e(4))
  have bt: "block_table (objs s1 h) = pages" by (simp add: e(4))
  have pg: "p < num_pages s \<and> 1 \<le> ref_counts s ! p" if "p \<in> set pages" for p
    using that live_page_not_free [OF wf e(1), of p] w(2) unfolding pages_def by (auto dest: in_set_takeD)
  have "distinct pages" using w(7) [OF e(1)] by (simp add: pages_def cache_wf_def)
  then have "ref_counts s1 ! p \<noteq> 1" if "p \<in> set pages" for p
    using pg [OF that] that w(2) by (simp add: e(4) nth_bump count_list_distinct)
  then have "filter (\<lambda>p. ref_counts s1 ! p = 1 \<and> pin_counts s1 ! p = 0 \<and> p \<notin> set (free_pages s1)) pages = []"
    by (auto simp: filter_empty_conv)
  moreover have "remove1 h (live s1) = live s" using e(3) by (simp add: e(4) remove1_append remove1_idem)
  moreover have "sort (free_pages s) = free_pages s" using w(9) by (simp add: sorted_sort_id)
  moreover have "bump (-1) pages (ref_counts s1) = ref_counts s" by (simp add: e(4) bump_undo)
  ultimately show ?thesis using kv_release_effect [OF wf1 h1] by (simp only: bt) (simp add: e(4))
qed

text \<open>C6: Forking and releasing the fork is the identity on the pool: while it lives, the fork
  holds exactly the first \<open>n\<close> rows of every layer of its source, under a handle that was not in use,
  and no other request changes; releasing it restores every content, reference count and free
  page.\<close>

theorem fork_release_roundtrip:
  assumes "kv_wf s" "kv_fork src rid len s = (Inr h, s1)"
  shows "h \<notin> set (live s) \<and> src \<in> set (live s) \<and>
    kv_abs s1 = (kv_abs s)(h \<mapsto>
      (let n = (case len of None \<Rightarrow> kv_size s src | Some i \<Rightarrow> nat i)
       in (rid, map (take n) (fst (snd (content s src))), map (take n) (snd (snd (content s src)))))) \<and>
    (\<exists>s2. kv_release (Some h) s1 = (Inr (), s2) \<and> kv_abs s2 = kv_abs s \<and> live s2 = live s \<and>
       ref_counts s2 = ref_counts s \<and> free_pages s2 = free_pages s)"
proof -
  note e = kv_fork_effect [OF assms] and a = kv_fork_abs [OF assms] and r = fork_release_effect [OF assms]
  have "kv_abs (s\<lparr>objs := objs s1, next_uuid := Suc (next_uuid s)\<rparr>) = kv_abs s"
  proof
    fix k
    have "k \<in> set (live s) \<Longrightarrow> k \<noteq> h" using e(3) by blast
    then show "kv_abs (s\<lparr>objs := objs s1, next_uuid := Suc (next_uuid s)\<rparr>) k = kv_abs s k"
      by (simp add: kv_abs_def content_def rows_def e(4))
  qed
  with e(1,3) a r show ?thesis by (simp add: Let_def)
qed

theorem fork_release_roundtrip_witness:
  "\<exists>s1. kv_fork sample_handle ''q'' (Some 0) sample_pool = (Inr ''paged-kv-q-ba'', s1) \<and>
    (\<exists>s2. kv_release (Some ''paged-kv-q-ba'') s1 = (Inr (), s2) \<and> kv_abs s2 = kv_abs sample_pool)"
proof -
  obtain s1 where run: "kv_fork sample_handle ''q'' (Some 0) sample_pool = (Inr ''paged-kv-q-ba'', s1)"
    by (simp add: kv_fork_def sample_pool_state Let_def kv_create_def paged_handle_def sample_hex_def)
  from fork_release_roundtrip [OF sample_pool_ok(1) run] run show ?thesis by blast
qed

subsection \<open>A stranded page\<close>

text \<open>A pool of three pages where one partly filled page is shared by a request and its fork.  Both
  append one token in one batch: each copies the shared page, which nobody refers to any more.\<close>

definition shared_tail_pool :: "nat kv" where
  "shared_tail_pool = sample_pool\<lparr>
     objs := (objs sample_pool)
       (sample_handle := \<lparr>rc_handle = sample_handle, rc_request_id = ''r'', block_table = [0], rc_length = 1\<rparr>,
        ''fork'' := \<lparr>rc_handle = ''fork'', rc_request_id = ''q'', block_table = [0], rc_length = 1\<rparr>),
     live := [sample_handle, ''fork''], free_pages := [1, 2], ref_counts := [2, 0, 0]\<rparr>"

definition wide_tensor :: "nat \<Rightarrow> nat \<Rightarrow> nat tensor" where
  "wide_tensor base l = \<lparr>t_shape = [2, 1, 9, 1], t_dtype = Float16, t_row = (\<lambda>i j. base + j)\<rparr>"

text \<open>A commit can strand a page.  The sweep of the commit skips the page because the reservation still pins it, and dropping
  the pins does not sweep again: page 0 is free by every counter (\<open>metrics\<close> reports one free page) and is on no free list.\<close>

lemma copied_page_is_stranded:
  "(case kv_step [sample_handle, ''fork''] [1, 1] (wide_tensor 10) (wide_tensor 20) shared_tail_pool of
      (res, s') \<Rightarrow> (res, ref_counts s', pin_counts s', free_pages s', m_free_pages (kv_metrics s'))) =
   (Inr [2, 2], [0, 1, 1], [0, 0, 0], [], 1)"
  by code_simp

end
