(* ===== verification/KVOps.thy ===== *)
theory KVOps
  imports Interfaces PagedProps
begin

text \<open>
  The contract of a KV backend as the prefix indexes, the coordinator and the scheduler rely on
  it: what the handles hold (\<open>view\<close>), and what each operation does to it.  The paged pool
  fulfils it.
\<close>

locale kv_pool =
  fixes ops :: "'s kv_ops" and ok :: "'s \<Rightarrow> bool" and view :: "'s \<Rightarrow> handle \<Rightarrow> 'c option"
    and cut :: "nat \<Rightarrow> 'c \<Rightarrow> 'c" and size_of :: "'c \<Rightarrow> nat"
  assumes create_law: "ok s \<Longrightarrow> op_create ops rid s = (h, s') \<Longrightarrow>
      ok s' \<and> view s h = None \<and> op_bytes_per_page ops s' = op_bytes_per_page ops s \<and>
      (\<exists>c. size_of c = 0 \<and> view s' = (view s)(h \<mapsto> c))"
    and length_law: "ok s \<Longrightarrow> op_length ops ho s = (case ho of None \<Rightarrow> 0
      | Some h \<Rightarrow> (case view s h of None \<Rightarrow> 0 | Some c \<Rightarrow> size_of c))"
    and fork_law: "ok s \<Longrightarrow> view s h = Some c \<Longrightarrow> n \<le> size_of c \<Longrightarrow>
      \<exists>h' s'. op_fork ops h rid (Some (int n)) s = (Inr h', s') \<and> ok s' \<and> view s h' = None \<and>
        op_bytes_per_page ops s' = op_bytes_per_page ops s \<and> view s' = (view s)(h' \<mapsto> cut n c)"
    and release_law: "ok s \<Longrightarrow> \<exists>s'. op_release ops ho s = (Inr (), s') \<and> ok s' \<and>
      op_bytes_per_page ops s' = op_bytes_per_page ops s \<and>
      view s' = (case ho of None \<Rightarrow> view s | Some h \<Rightarrow> (view s)(h := None))"
    and reset_law: "ok s \<Longrightarrow> op_reset ops b s = (res, s') \<Longrightarrow> ok s' \<and>
      op_bytes_per_page ops s' = op_bytes_per_page ops s \<and>
      (case res of Inl e \<Rightarrow> s' = s | Inr u \<Rightarrow> view s' = Map.empty)"
    and cut_size: "n \<le> size_of c \<Longrightarrow> size_of (cut n c) = n"
begin

lemma fork_runs:
  assumes "ok s" "view s h = Some c" "n \<le> size_of c" "op_fork ops h rid (Some (int n)) s = (res, s')"
  obtains h' where "res = Inr h'" "ok s'" "view s h' = None" "view s' = (view s)(h' \<mapsto> cut n c)"
    "op_bytes_per_page ops s' = op_bytes_per_page ops s"
  using fork_law [OF assms(1-3), of rid] assms(4) by auto

lemma release_runs:
  assumes "ok s" "op_release ops (Some h) s = (res, s')"
  shows "res = Inr ()" "ok s'" "view s' = (view s)(h := None)"
    "op_bytes_per_page ops s' = op_bytes_per_page ops s"
  using release_law [OF assms(1), of "Some h"] assms(2) by auto

end

text \<open>A notion of content: \<open>good ts c\<close> says that \<open>c\<close> holds the rows a model computes for the
  tokens \<open>ts\<close>; a prefix of good rows is good for the prefix of the tokens.\<close>

locale kv_contents = kv_pool +
  fixes good :: "token list \<Rightarrow> 'b \<Rightarrow> bool"
  assumes good_size: "good ts c \<Longrightarrow> size_of c = length ts"
    and good_cut: "good ts c \<Longrightarrow> n \<le> length ts \<Longrightarrow> good (take n ts) (cut n c)"
    and fresh_good: "ok s \<Longrightarrow> op_create ops rid s = (h, s') \<Longrightarrow> view s' h = Some c \<Longrightarrow> good [] c"

subsection \<open>The paged pool as a backend\<close>

definition paged_ops :: "'v kv kv_ops" where
  "paged_ops = \<lparr>op_create = kv_create, op_length = kv_length, op_fork = kv_fork, op_release = kv_release,
     op_reset = kv_reset, op_bytes_per_page = (\<lambda>s. Some (bytes_per_page s))\<rparr>"

type_synonym 'v layers = "nat \<times> 'v list list \<times> 'v list list"

definition paged_view :: "'v kv \<Rightarrow> handle \<Rightarrow> 'v layers option" where
  "paged_view s h = (if h \<in> set (live s)
     then Some (kv_size s h, map (\<lambda>pg. rows s pg h) (key_pages s), map (\<lambda>pg. rows s pg h) (value_pages s)) else None)"

definition cut_layers :: "nat \<Rightarrow> 'v layers \<Rightarrow> 'v layers" where
  "cut_layers n c = (n, map (take n) (fst (snd c)), map (take n) (snd (snd c)))"

lemma paged_view_cong:
  "page_size s' = page_size s \<Longrightarrow> objs s' h = objs s h \<Longrightarrow> key_pages s' = key_pages s \<Longrightarrow>
   value_pages s' = value_pages s \<Longrightarrow> (h \<in> set (live s') \<longleftrightarrow> h \<in> set (live s)) \<Longrightarrow> paged_view s' h = paged_view s h"
  by (simp add: paged_view_def rows_def)

lemma paged_view_cong_except:
  assumes "page_size s' = page_size s" "key_pages s' = key_pages s" "value_pages s' = value_pages s"
    "\<And>k. k \<noteq> h \<Longrightarrow> objs s' k = objs s k" "\<And>k. k \<noteq> h \<Longrightarrow> k \<in> set (live s') \<longleftrightarrow> k \<in> set (live s)"
  shows "paged_view s' = (paged_view s)(h := paged_view s' h)"
  using paged_view_cong [OF assms(1) _ assms(2,3)] assms(4,5) by (auto simp: fun_eq_iff)

lemma paged_create_law:
  assumes "kv_wf s" "kv_create rid s = (h, s')"
  shows "kv_wf s' \<and> paged_view s h = None \<and> bytes_per_page s' = bytes_per_page s \<and>
    (\<exists>c. fst c = 0 \<and> paged_view s' = (paged_view s)(h \<mapsto> c))"
proof -
  note e = kv_create_effect [OF assms]
  have upd: "paged_view s' = (paged_view s)(h := paged_view s' h)"
    by (rule paged_view_cong_except) (simp_all add: e(2))
  have "paged_view s' h = Some (0, map (\<lambda>pg. rows s' pg h) (key_pages s'), map (\<lambda>pg. rows s' pg h) (value_pages s'))"
    by (simp add: e(2) paged_view_def)
  with upd have "paged_view s' = (paged_view s)(h \<mapsto>
      (0, map (\<lambda>pg. rows s' pg h) (key_pages s'), map (\<lambda>pg. rows s' pg h) (value_pages s')))"
    by simp
  moreover have "paged_view s h = None" using e(1) by (simp add: paged_view_def)
  moreover have "bytes_per_page s' = bytes_per_page s" by (simp add: e(2))
  moreover have "kv_wf s'" by (rule kv_create_wf [OF assms])
  ultimately show ?thesis by (intro conjI exI) (assumption | rule fst_conv)+
qed

lemma paged_fork_law:
  assumes "kv_wf s" "paged_view s h = Some c" "n \<le> fst c"
  shows "\<exists>h' s'. kv_fork h rid (Some (int n)) s = (Inr h', s') \<and> kv_wf s' \<and> paged_view s h' = None \<and>
    bytes_per_page s' = bytes_per_page s \<and> paged_view s' = (paged_view s)(h' \<mapsto> cut_layers n c)"
proof -
  have h: "h \<in> set (live s)" and c: "c = (kv_size s h, map (\<lambda>pg. rows s pg h) (key_pages s), map (\<lambda>pg. rows s pg h) (value_pages s))"
    using assms(2) by (auto simp: paged_view_def split: if_splits)
  obtain h' s' where run: "kv_fork h rid (Some (int n)) s = (Inr h', s')"
  proof (cases "kv_create rid s")
    case (Pair h1 s1)
    then have "fst (kv_fork h rid (Some (int n)) s) = Inr h1"
      using assms(3) h c by (simp add: kv_fork_def Let_def)
    then show ?thesis by (intro that [of h1 "snd (kv_fork h rid (Some (int n)) s)"]) (simp add: prod_eq_iff)
  qed
  note e = kv_fork_effect [OF assms(1) run]
  have "paged_view s' = (paged_view s)(h' := paged_view s' h')"
    by (rule paged_view_cong_except) (simp_all add: e(4))
  moreover have "rows s' pg h' = take n (rows s pg h)" for pg
    using e(2) kv_wfD(1) [OF assms(1)] by (simp add: rows_def e(4) take_map slot_of_take)
  then have "paged_view s' h' = Some (cut_layers n c)"
    by (simp add: paged_view_def e(4) cut_layers_def c)
  moreover have "paged_view s h' = None" "bytes_per_page s' = bytes_per_page s"
    using e(3) by (simp_all add: paged_view_def e(4))
  ultimately show ?thesis using kv_fork_wf [OF assms(1) run] run by auto
qed

lemma paged_release_law:
  assumes "kv_wf s"
  shows "\<exists>s'. kv_release ho s = (Inr (), s') \<and> kv_wf s' \<and> bytes_per_page s' = bytes_per_page s \<and>
    paged_view s' = (case ho of None \<Rightarrow> paged_view s | Some h \<Rightarrow> (paged_view s)(h := None))"
proof -
  obtain res s' where run: "kv_release ho s = (res, s')" by (metis surj_pair)
  note wf = kv_release_wf [OF assms run]
  show ?thesis
  proof (cases "\<exists>h. ho = Some h \<and> h \<in> set (live s)")
    case True
    then obtain h where h: "ho = Some h" "h \<in> set (live s)" by blast
    have e: "live s' = remove1 h (live s)" "objs s' = objs s" "page_size s' = page_size s"
      "key_pages s' = key_pages s" "value_pages s' = value_pages s" "bytes_per_page s' = bytes_per_page s"
      using run kv_release_effect [OF assms h(2)] h(1) by auto
    have "paged_view s' = (paged_view s)(h := paged_view s' h)"
      by (rule paged_view_cong_except) (use e in auto)
    moreover have "paged_view s' h = None" using e(1) kv_wfD(6) [OF assms] by (simp add: paged_view_def)
    ultimately show ?thesis using run wf h(1) e(6) by auto
  next
    case False
    then have "kv_release ho s = (Inr (), s)" by (auto simp: kv_release_def split: option.splits)
    moreover have "paged_view s = (case ho of None \<Rightarrow> paged_view s | Some h \<Rightarrow> (paged_view s)(h := None))"
      using False by (auto simp: paged_view_def fun_eq_iff split: option.splits)
    ultimately show ?thesis using assms by auto
  qed
qed

lemma kv_reset_wf:
  assumes "kv_wf s" "kv_reset b s = (res, s')"
  shows "kv_wf s' \<and> bytes_per_page s' = bytes_per_page s \<and>
    (case res of Inl e \<Rightarrow> s' = s | Inr u \<Rightarrow> paged_view s' = Map.empty \<and> quiescent s')"
proof (cases "reserved_pages s \<noteq> {} \<or> list_ex (\<lambda>c. c \<noteq> 0) (pin_counts s)")
  case True
  then show ?thesis using assms by (auto simp: kv_reset_def)
next
  case False
  note w = kv_wfD [OF assms(1)]
  have pins: "\<forall>p < num_pages s. pin_counts s ! p = 0"
    using False w(3) by (auto simp: list_ex_length)
  have s': "s' = s\<lparr>live := [], free_pages := [0..<num_pages s], ref_counts := replicate (num_pages s) 0,
      allocation_failures := (if b then 0 else allocation_failures s)\<rparr>" and res: "res = Inr ()"
    using False assms(2) by (simp_all add: kv_reset_def)
  have "kv_wf s'"
    using w(1-5,14) False pins unfolding kv_wf_def s' by (simp add: total_refs_def handles_drawn_def)
  then show ?thesis using False pins by (simp add: res s' paged_view_def quiescent_def fun_eq_iff)
qed

text \<open>The pool between two steps: well formed, nothing reserved or pinned, of the given depth and
  dtype.\<close>

definition paged_idle :: "nat \<Rightarrow> dtype \<Rightarrow> 'v kv \<Rightarrow> bool" where
  "paged_idle layers d s \<longleftrightarrow> kv_wf s \<and> quiescent s \<and> num_layers s = layers \<and> kv_dtype s = d"

lemma paged_idle_frame:
  "paged_idle n d s \<Longrightarrow> kv_wf s' \<Longrightarrow> reserved_pages s' = reserved_pages s \<Longrightarrow> pin_counts s' = pin_counts s \<Longrightarrow>
   num_pages s' = num_pages s \<Longrightarrow> num_layers s' = num_layers s \<Longrightarrow> kv_dtype s' = kv_dtype s \<Longrightarrow> paged_idle n d s'"
  by (simp add: paged_idle_def quiescent_def)

lemma paged_idle_create:
  assumes "paged_idle n d s" "kv_create rid s = (h, s')"
  shows "paged_idle n d s'"
proof -
  have wf: "kv_wf s" using assms(1) by (simp add: paged_idle_def)
  show ?thesis
    by (rule paged_idle_frame [OF assms(1) kv_create_wf [OF wf assms(2)]]) (simp_all add: kv_create_effect(2) [OF wf assms(2)])
qed

lemma paged_idle_fork:
  assumes "paged_idle n d s" "kv_fork src rid len s = (Inr h, s')"
  shows "paged_idle n d s'"
proof -
  have wf: "kv_wf s" using assms(1) by (simp add: paged_idle_def)
  show ?thesis
    by (rule paged_idle_frame [OF assms(1) kv_fork_wf [OF wf assms(2)]]) (simp_all add: kv_fork_effect(4) [OF wf assms(2)])
qed

lemma paged_idle_release:
  assumes "paged_idle n d s" "kv_release ho s = (res, s')"
  shows "paged_idle n d s'"
proof -
  have wf: "kv_wf s" using assms(1) by (simp add: paged_idle_def)
  show ?thesis
  proof (cases "\<exists>h. ho = Some h \<and> h \<in> set (live s)")
    case True
    then obtain h where h: "ho = Some h" "h \<in> set (live s)" by blast
    have "reserved_pages s' = reserved_pages s" "pin_counts s' = pin_counts s" "num_pages s' = num_pages s"
      "num_layers s' = num_layers s" "kv_dtype s' = kv_dtype s"
      using assms(2) kv_release_effect [OF wf h(2)] h(1) by auto
    then show ?thesis by (rule paged_idle_frame [OF assms(1) kv_release_wf [OF wf assms(2), THEN conjunct1]])
  next
    case False
    then have "s' = s" using assms(2) by (auto simp: kv_release_def split: option.splits)
    then show ?thesis using assms(1) by simp
  qed
qed

lemma paged_idle_reset:
  assumes "paged_idle n d s" "kv_reset b s = (res, s')"
  shows "paged_idle n d s'"
proof -
  have wf: "kv_wf s" using assms(1) by (simp add: paged_idle_def)
  show ?thesis
    by (rule paged_idle_frame [OF assms(1)])
      (use kv_reset_wf [OF wf assms(2)] assms(2) in \<open>auto simp: kv_reset_def split: if_splits\<close>)
qed

interpretation paged: kv_pool paged_ops "paged_idle layers d" paged_view cut_layers fst
  for layers d
proof
  fix s :: "'a kv" and rid h s'
  assume i: "paged_idle layers d s" and run: "op_create paged_ops rid s = (h, s')"
  then show "paged_idle layers d s' \<and> paged_view s h = None \<and>
      op_bytes_per_page paged_ops s' = op_bytes_per_page paged_ops s \<and>
      (\<exists>c. fst c = 0 \<and> paged_view s' = (paged_view s)(h \<mapsto> c))"
    using paged_create_law [of s rid h s'] paged_idle_create [OF i] by (simp add: paged_ops_def paged_idle_def)
next
  fix s :: "'a kv" and ho
  show "op_length paged_ops ho s = (case ho of None \<Rightarrow> 0
      | Some h \<Rightarrow> (case paged_view s h of None \<Rightarrow> 0 | Some c \<Rightarrow> fst c))"
    by (auto simp: paged_ops_def kv_length_def paged_view_def split: option.splits)
next
  fix s :: "'a kv" and h c n rid
  assume i: "paged_idle layers d s" "paged_view s h = Some c" "n \<le> fst c"
  then obtain h' s' where f: "kv_fork h rid (Some (int n)) s = (Inr h', s')" "paged_view s h' = None"
    "bytes_per_page s' = bytes_per_page s" "paged_view s' = (paged_view s)(h' \<mapsto> cut_layers n c)"
    using paged_fork_law [of s h c n rid] by (auto simp: paged_idle_def)
  with paged_idle_fork [OF i(1) f(1)]
  show "\<exists>h' s'. op_fork paged_ops h rid (Some (int n)) s = (Inr h', s') \<and> paged_idle layers d s' \<and>
      paged_view s h' = None \<and> op_bytes_per_page paged_ops s' = op_bytes_per_page paged_ops s \<and>
      paged_view s' = (paged_view s)(h' \<mapsto> cut_layers n c)"
    by (simp add: paged_ops_def)
next
  fix s :: "'a kv" and ho
  assume i: "paged_idle layers d s"
  then obtain s' where f: "kv_release ho s = (Inr (), s')" "bytes_per_page s' = bytes_per_page s"
    "paged_view s' = (case ho of None \<Rightarrow> paged_view s | Some h \<Rightarrow> (paged_view s)(h := None))"
    using paged_release_law [of s ho] by (auto simp: paged_idle_def)
  with paged_idle_release [OF i f(1)]
  show "\<exists>s'. op_release paged_ops ho s = (Inr (), s') \<and> paged_idle layers d s' \<and>
      op_bytes_per_page paged_ops s' = op_bytes_per_page paged_ops s \<and>
      paged_view s' = (case ho of None \<Rightarrow> paged_view s | Some h \<Rightarrow> (paged_view s)(h := None))"
    by (simp add: paged_ops_def)
next
  fix s :: "'a kv" and b res s'
  assume i: "paged_idle layers d s" and run: "op_reset paged_ops b s = (res, s')"
  then show "paged_idle layers d s' \<and> op_bytes_per_page paged_ops s' = op_bytes_per_page paged_ops s \<and>
      (case res of Inl e \<Rightarrow> s' = s | Inr u \<Rightarrow> paged_view s' = Map.empty)"
    using kv_reset_wf [of s b res s'] paged_idle_reset [OF i, of b res s']
    by (auto simp: paged_ops_def paged_idle_def split: sum.splits)
qed (simp add: cut_layers_def)

text \<open>Rows of a causal model: row \<open>i\<close> of a layer is a function of the first \<open>i + 1\<close> tokens.\<close>

definition causal_rows ::
  "(nat \<Rightarrow> token list \<Rightarrow> 'v) \<Rightarrow> (nat \<Rightarrow> token list \<Rightarrow> 'v) \<Rightarrow> nat \<Rightarrow> token list \<Rightarrow> 'v layers \<Rightarrow> bool" where
  "causal_rows krow vrow layers ts c \<longleftrightarrow> c =
     (length ts, map (\<lambda>l. map (\<lambda>i. krow l (take (Suc i) ts)) [0..<length ts]) [0..<layers],
      map (\<lambda>l. map (\<lambda>i. vrow l (take (Suc i) ts)) [0..<length ts]) [0..<layers])"

lemma causal_rows_cut:
  assumes "causal_rows krow vrow layers ts c" "n \<le> length ts"
  shows "causal_rows krow vrow layers (take n ts) (cut_layers n c)"
proof -
  have "map (\<lambda>i. f (take (Suc i) ts)) [0..<n] = map (\<lambda>i. f (take (Suc i) (take n ts))) [0..<n]"
    for f :: "token list \<Rightarrow> 'a"
    by (rule map_cong) (simp_all add: min_def)
  then show ?thesis
    using assms by (simp add: causal_rows_def cut_layers_def take_map min_absorb2)
qed

lemma paged_fresh_rows:
  assumes "paged_idle layers d s" "kv_create rid s = (h, s')" "paged_view s' h = Some c"
  shows "causal_rows krow vrow layers [] c"
proof -
  have wf: "kv_wf s" and n: "num_layers s = layers" using assms(1) by (simp_all add: paged_idle_def)
  note e = kv_create_effect(2) [OF wf assms(2)]
  have "length (key_pages s) = layers" "length (value_pages s) = layers" using kv_wfD(4,5) [OF wf] n by simp_all
  then show ?thesis
    using assms(3) by (auto simp: paged_view_def e causal_rows_def rows_def map_replicate_const split: if_splits)
qed

interpretation causal: kv_contents paged_ops "paged_idle layers d" paged_view cut_layers fst "causal_rows krow vrow layers"
  for krow vrow layers d
  by unfold_locales (simp add: causal_rows_def, erule (1) causal_rows_cut, simp add: paged_ops_def paged_fresh_rows)

end
