(* ===== verification/PrefixContract.thy ===== *)
theory PrefixContract
  imports KVOps
begin

text \<open>
  What the cache coordinator relies on in a prefix index (\<^verbatim>\<open>PrefixCache\<close> in
  \<^verbatim>\<open>native_mlx/cache_coordinator.py\<close>).  The index owns snapshots in the KV backend; an
  operation may take new snapshots and drop old ones, and touches no other handle.
\<close>

definition swaps :: "('s \<Rightarrow> handle \<Rightarrow> 'c option) \<Rightarrow> handle set \<Rightarrow> 's \<Rightarrow> handle set \<Rightarrow> 's \<Rightarrow> bool" where
  "swaps view S s S' s' \<longleftrightarrow>
     (\<forall>k. k \<notin> S' \<longrightarrow> view s' k = (if k \<in> S then None else view s k)) \<and>
     (\<forall>k \<in> S'. (k \<in> S \<or> view s k = None) \<and> view s' k \<noteq> None)"

lemma swaps_refl: "(\<And>k. k \<in> S \<Longrightarrow> view s k \<noteq> None) \<Longrightarrow> swaps view S s S s"
  by (auto simp: swaps_def)

lemma swaps_trans:
  assumes "swaps view S s S1 s1" "swaps view S1 s1 S2 s2"
  shows "swaps view S s S2 s2"
proof -
  have a: "view s1 k = (if k \<in> S then None else view s k)" if "k \<notin> S1" for k
    using assms(1) that unfolding swaps_def by metis
  have b: "k \<in> S \<or> view s k = None" if "k \<in> S1" for k
    using assms(1) that unfolding swaps_def by metis
  have c: "view s2 k = (if k \<in> S1 then None else view s1 k)" if "k \<notin> S2" for k
    using assms(2) that unfolding swaps_def by metis
  have d: "k \<in> S1 \<or> view s1 k = None" "view s2 k \<noteq> None" if "k \<in> S2" for k
    using assms(2) that unfolding swaps_def by metis+
  have "view s2 k = (if k \<in> S then None else view s k)" if "k \<notin> S2" for k
    using a [of k] b [of k] c [OF that] by auto
  moreover have "k \<in> S \<or> view s k = None" if "k \<in> S2" for k
    using a [of k] b [of k] d(1) [OF that] by (metis (full_types))
  ultimately show ?thesis using d(2) unfolding swaps_def by simp
qed

lemma swaps_add:
  assumes "view s h = None" "view s' = (view s)(h \<mapsto> c)" "\<And>k. k \<in> S \<Longrightarrow> view s k \<noteq> None"
  shows "swaps view S s (insert h S) s'"
  using assms unfolding swaps_def by auto

lemma swaps_drop:
  assumes "view s' = (view s)(h := None)" "h \<in> S" "\<And>k. k \<in> S \<Longrightarrow> view s k \<noteq> None"
  shows "swaps view S s (S - {h}) s'"
  using assms unfolding swaps_def by auto

lemma swaps_other: "swaps view S s S' s' \<Longrightarrow> k \<notin> S \<Longrightarrow> view s k \<noteq> None \<Longrightarrow> view s' k = view s k \<and> k \<notin> S'"
  unfolding swaps_def by metis

lemma swaps_dom: "swaps view S s S' s' \<Longrightarrow> dom (view s') = (dom (view s) - S) \<union> S'"
proof -
  assume "swaps view S s S' s'"
  then have a: "k \<notin> S' \<Longrightarrow> view s' k = (if k \<in> S then None else view s k)" "k \<in> S' \<Longrightarrow> view s' k \<noteq> None" for k
    unfolding swaps_def by metis+
  show ?thesis
  proof (rule set_eqI)
    fix k show "k \<in> dom (view s') \<longleftrightarrow> k \<in> (dom (view s) - S) \<union> S'"
      using a [of k] by (cases "k \<in> S'") (auto simp: dom_def)
  qed
qed

locale prefix_index = kv_contents ops ok view cut size_of good
  for ops :: "'s kv_ops" and ok :: "'s \<Rightarrow> bool" and view :: "'s \<Rightarrow> handle \<Rightarrow> 'c option"
    and cut :: "nat \<Rightarrow> 'c \<Rightarrow> 'c" and size_of :: "'c \<Rightarrow> nat" and good :: "token list \<Rightarrow> 'c \<Rightarrow> bool" +
  fixes ix_probe :: "token list \<Rightarrow> 'i \<Rightarrow> prefix_probe \<times> 'i"
    and ix_acquire :: "string \<Rightarrow> token list \<Rightarrow> prefix_probe \<Rightarrow> 'i \<Rightarrow> 's \<Rightarrow> (exn + cache_admission option) \<times> 'i \<times> 's"
    and ix_publish :: "handle \<Rightarrow> token list \<Rightarrow> nat \<Rightarrow> 'i \<Rightarrow> 's \<Rightarrow> (exn + cache_publication) \<times> 'i \<times> 's"
    and ix_release :: "handle option \<Rightarrow> 'i \<Rightarrow> 's \<Rightarrow> (exn + unit) \<times> 'i \<times> 's"
    and snaps :: "'i \<Rightarrow> handle set" and inv :: "'i \<Rightarrow> 's \<Rightarrow> bool"
  assumes inv_ok: "inv i s \<Longrightarrow> ok s \<and> (\<forall>k \<in> snaps i. view s k \<noteq> None)"
    and inv_frame: "inv i s \<Longrightarrow> ok s' \<Longrightarrow> (\<And>k. k \<in> snaps i \<Longrightarrow> view s' k = view s k) \<Longrightarrow> inv i s'"
    and probe_law: "inv i s \<Longrightarrow> ix_probe ts i = (p, i') \<Longrightarrow> inv i' s \<and> snaps i' = snaps i \<and>
      (pp_matched_tokens p \<noteq> 0 \<longrightarrow> pp_matched_tokens p \<le> length ts \<and>
        (\<exists>h \<in> snaps i. \<exists>c. pp_cache_handle p = Some h \<and> view s h = Some c \<and> good (take (pp_matched_tokens p) ts) c))"
    and acquire_law: "inv i s \<Longrightarrow> ix_acquire rid ts p i s = (res, i', s') \<Longrightarrow>
      inv i' s' \<and> snaps i' = snaps i \<and> (\<exists>a. res = Inr a) \<and>
      (res = Inr None \<longrightarrow> s' = s) \<and>
      (\<forall>a. res = Inr (Some a) \<longrightarrow> 0 < ca_cache_length a \<and> ca_cache_length a \<le> length ts \<and>
        ca_reused_tokens a = ca_cache_length a \<and> view s (ca_cache_handle a) = None \<and>
        (\<exists>c. view s' = (view s)(ca_cache_handle a \<mapsto> c) \<and> good (take (ca_cache_length a) ts) c))"
    and publish_law: "inv i s \<Longrightarrow> h \<notin> snaps i \<Longrightarrow> view s h = Some c \<Longrightarrow> n \<le> size_of c \<Longrightarrow>
      (\<And>m. m \<le> n \<Longrightarrow> m \<le> length ts \<Longrightarrow> good (take m ts) (cut m c)) \<Longrightarrow>
      ix_publish h ts n i s = (pres, i', s') \<Longrightarrow>
      inv i' s' \<and> swaps view (snaps i) s (snaps i') s' \<and> (\<exists>q. pres = Inr q)"
    and release_law: "inv i s \<Longrightarrow> ix_release ho i s = (rres, i', s') \<Longrightarrow>
      inv i' s' \<and> swaps view (snaps i) s (snaps i') s' \<and> snaps i' \<subseteq> snaps i \<and> rres = Inr ()"

end
