(* ===== verification/BlockProps.thy ===== *)
theory BlockProps
  imports BlockIndex PrefixContract
begin

text \<open>
  The block-hash index fulfils the contract of a prefix index over any KV backend that fulfils
  its own; eviction ends within the limits unless everything left is pinned or protected, and an
  entry that a request still uses is never evicted.
\<close>

subsection \<open>The invariant\<close>

definition active_on :: "block_index \<Rightarrow> string \<Rightarrow> handle set" where
  "active_on i k = {h. map_of (bi_active i) h = Some k}"

definition entry_ok ::
  "('s \<Rightarrow> handle \<Rightarrow> 'c option) \<Rightarrow> (token list \<Rightarrow> 'c \<Rightarrow> bool) \<Rightarrow> block_index \<Rightarrow> 's \<Rightarrow> block_entry \<Rightarrow> bool" where
  "entry_ok view good i s e \<longleftrightarrow>
     (\<exists>c. view s (be_handle e) = Some c \<and> good (be_tokens e) c) \<and>
     length (be_tokens e) = be_length e \<and> be_length e = be_pages e * bi_page_size i \<and> 0 < be_pages e"

definition block_snaps :: "block_index \<Rightarrow> handle set" where
  "block_snaps i = be_handle ` set (dict_values (bi_entries i))"

definition block_inv ::
  "('s \<Rightarrow> bool) \<Rightarrow> ('s \<Rightarrow> handle \<Rightarrow> 'c option) \<Rightarrow> (token list \<Rightarrow> 'c \<Rightarrow> bool) \<Rightarrow> block_index \<Rightarrow> 's \<Rightarrow> bool" where
  "block_inv ok view good i s \<longleftrightarrow> ok s \<and> 0 < bi_page_size i \<and> dict_ok (bi_entries i) \<and>
     (\<forall>k e. map_of (bi_entries i) k = Some e \<longrightarrow> be_hash e = k \<and> entry_ok view good i s e \<and>
        card (active_on i k) \<le> be_pins e) \<and>
     (\<forall>k k' e e'. map_of (bi_entries i) k = Some e \<longrightarrow> map_of (bi_entries i) k' = Some e' \<longrightarrow>
        be_handle e = be_handle e' \<longrightarrow> k = k') \<and>
     (\<forall>k. active_on i k \<noteq> {} \<longrightarrow> map_of (bi_entries i) k \<noteq> None)"

lemma block_invD:
  assumes "block_inv ok view good i s"
  shows "ok s" "0 < bi_page_size i" "dict_ok (bi_entries i)"
    "\<And>k e. map_of (bi_entries i) k = Some e \<Longrightarrow> be_hash e = k"
    "\<And>k e. map_of (bi_entries i) k = Some e \<Longrightarrow> entry_ok view good i s e"
    "\<And>k e. map_of (bi_entries i) k = Some e \<Longrightarrow> card (active_on i k) \<le> be_pins e"
    "\<And>k k' e e'. map_of (bi_entries i) k = Some e \<Longrightarrow> map_of (bi_entries i) k' = Some e' \<Longrightarrow>
        be_handle e = be_handle e' \<Longrightarrow> k = k'"
    "\<And>k. active_on i k \<noteq> {} \<Longrightarrow> map_of (bi_entries i) k \<noteq> None"
  using assms unfolding block_inv_def by blast+

lemma block_invI:
  assumes "ok s" "0 < bi_page_size i" "dict_ok (bi_entries i)"
    "\<And>k e. map_of (bi_entries i) k = Some e \<Longrightarrow> be_hash e = k \<and> entry_ok view good i s e \<and>
        card (active_on i k) \<le> be_pins e"
    "\<And>k k' e e'. map_of (bi_entries i) k = Some e \<Longrightarrow> map_of (bi_entries i) k' = Some e' \<Longrightarrow>
        be_handle e = be_handle e' \<Longrightarrow> k = k'"
    "\<And>k. active_on i k \<noteq> {} \<Longrightarrow> map_of (bi_entries i) k \<noteq> None"
  shows "block_inv ok view good i s"
  using assms unfolding block_inv_def by blast

lemma finite_active [simp]: "finite (active_on i k)"
proof -
  have "active_on i k \<subseteq> dom (map_of (bi_active i))" by (auto simp: active_on_def)
  then show ?thesis using finite_dom_map_of finite_subset by blast
qed

lemma block_snaps_iff:
  "dict_ok (bi_entries i) \<Longrightarrow> h \<in> block_snaps i \<longleftrightarrow> (\<exists>k e. map_of (bi_entries i) k = Some e \<and> be_handle e = h)"
  by (force simp: block_snaps_def dict_get_iff)

text \<open>Fields that the entries do not depend on.\<close>

lemma block_inv_cong:
  assumes "block_inv ok view good i s" "bi_page_size i' = bi_page_size i" "bi_entries i' = bi_entries i"
    "bi_active i' = bi_active i"
  shows "block_inv ok view good i' s"
  using assms(1) unfolding block_inv_def entry_ok_def active_on_def assms(2-4) .

lemma block_snaps_cong: "bi_entries i' = bi_entries i \<Longrightarrow> block_snaps i' = block_snaps i"
  by (simp add: block_snaps_def)

text \<open>Touching an entry in place: its clock or its pins.\<close>

lemma block_inv_touch:
  assumes inv: "block_inv ok view good i s" and e: "map_of (bi_entries i) k = Some e"
    and i': "bi_entries i' = AList.update k e' (bi_entries i)" "bi_page_size i' = bi_page_size i"
    and same: "be_hash e' = be_hash e" "be_tokens e' = be_tokens e" "be_handle e' = be_handle e"
      "be_length e' = be_length e" "be_pages e' = be_pages e"
    and act: "\<And>k'. k' \<noteq> k \<Longrightarrow> active_on i' k' \<subseteq> active_on i k'" "card (active_on i' k) \<le> be_pins e'"
  shows "block_inv ok view good i' s" "block_snaps i' = block_snaps i"
proof -
  note v = block_invD [OF inv]
  have get: "map_of (bi_entries i') k' = (if k' = k then Some e' else map_of (bi_entries i) k')" for k'
    by (simp add: i' dict_simps)
  have "card (active_on i' k') \<le> be_pins x" if "map_of (bi_entries i') k' = Some x" for k' x
    using that act(2) v(6) [of k' x] card_mono [OF finite_active act(1), of k'] by (auto simp: get split: if_splits)
  moreover have "entry_ok view good i' s x" if "map_of (bi_entries i') k' = Some x" for k' x
  proof (cases "k' = k")
    case True
    then have "x = e'" using that get by simp
    then show ?thesis using v(5) [OF e] by (simp add: entry_ok_def i'(2) same)
  next
    case False
    then show ?thesis using that get v(5) [of k' x] by (simp add: entry_ok_def i'(2))
  qed
  moreover have "be_hash x = k'" if "map_of (bi_entries i') k' = Some x" for k' x
    by (cases "k' = k") (use that v(4) [OF e] v(4) [of k' x] get same(1) in simp_all)
  moreover have "k1 = k2" if k: "map_of (bi_entries i') k1 = Some x" "map_of (bi_entries i') k2 = Some y"
      "be_handle x = be_handle y" for k1 k2 x y
  proof -
    have old: "\<exists>z. map_of (bi_entries i) k' = Some z \<and> be_handle z = be_handle x"
      if "map_of (bi_entries i') k' = Some x" for k' x
      by (cases "k' = k") (use that e get same(3) in auto)
    show ?thesis using old [OF k(1)] old [OF k(2)] v(7) k(3) by metis
  qed
  moreover have "map_of (bi_entries i') k' \<noteq> None" if "active_on i' k' \<noteq> {}" for k'
    by (cases "k' = k") (use that act(1) [of k'] v(8) [of k'] get in auto)
  moreover have ok': "dict_ok (bi_entries i')" using v(3) by (simp add: i')
  ultimately show "block_inv ok view good i' s" using v(1,2) unfolding block_inv_def i'(2) by blast
  show "block_snaps i' = block_snaps i"
  proof (intro set_eqI iffI)
    fix h assume "h \<in> block_snaps i'"
    then obtain k' x where x: "map_of (bi_entries i') k' = Some x" "be_handle x = h"
      unfolding block_snaps_iff [OF ok'] by blast
    then have "\<exists>z. map_of (bi_entries i) k' = Some z \<and> be_handle z = h"
      by (cases "k' = k") (use e get same(3) in auto)
    then show "h \<in> block_snaps i" unfolding block_snaps_iff [OF v(3)] by blast
  next
    fix h assume "h \<in> block_snaps i"
    then obtain k' x where x: "map_of (bi_entries i) k' = Some x" "be_handle x = h"
      unfolding block_snaps_iff [OF v(3)] by blast
    then have "\<exists>z. map_of (bi_entries i') k' = Some z \<and> be_handle z = h"
      by (cases "k' = k") (use e get same(3) in auto)
    then show "h \<in> block_snaps i'" unfolding block_snaps_iff [OF ok'] by blast
  qed
qed

subsection \<open>Lookup\<close>

lemma block_lookup_loop_sound:
  assumes "\<And>e. best = Some e \<Longrightarrow> map_of (bi_entries i) (be_hash e) = Some e \<and> be_tokens e = take (be_length e) toks"
    and "\<And>k e. map_of (bi_entries i) k = Some e \<Longrightarrow> be_hash e = k"
    and "block_lookup_loop i toks chain best = (Some e, b)"
  shows "map_of (bi_entries i) (be_hash e) = Some e \<and> be_tokens e = take (be_length e) toks"
  using assms(1,3)
proof (induction chain arbitrary: best)
  case (Cons x chain)
  obtain h p l where x: "x = (h, p, l)" by (metis surj_pair)
  show ?case
  proof (cases "map_of (bi_entries i) h")
    case None
    with Cons.prems show ?thesis by (simp add: x)
  next
    case (Some e')
    with Cons assms(2) [OF Some] show ?thesis by (auto simp: x split: if_splits)
  qed
qed simp

lemma block_tick_fields:
  "block_tick i = (t, i') \<Longrightarrow> bi_entries i' = bi_entries i \<and> bi_active i' = bi_active i \<and>
     bi_page_size i' = bi_page_size i \<and> bi_compat i' = bi_compat i \<and> bi_sha i' = bi_sha i \<and>
     bi_max_entries i' = bi_max_entries i \<and> bi_max_bytes i' = bi_max_bytes i"
  by (auto simp: block_tick_def Let_def)

lemma active_on_cong: "bi_active i' = bi_active i \<Longrightarrow> active_on i' k = active_on i k"
  by (simp add: active_on_def)

lemma block_lookup_sound:
  assumes inv: "block_inv ok view good i s" and run: "block_lookup m toks i = (r, i')"
  shows "block_inv ok view good i' s \<and> block_snaps i' = block_snaps i \<and> bi_active i' = bi_active i \<and>
    (\<forall>e. r = Some e \<longrightarrow> map_of (bi_entries i') (be_hash e) = Some e \<and> be_tokens e = take (be_length e) toks)"
proof (cases "max_reusable (bi_page_size i) toks = 0")
  case True
  then show ?thesis using run inv by (simp add: block_lookup_def)
next
  case False
  note v = block_invD [OF inv]
  let ?limit = "max_reusable (bi_page_size i) toks"
  obtain best coll where loop: "block_lookup_loop i toks (hash_chain i (take ?limit toks)) None = (best, coll)"
    by (metis surj_pair)
  define i1 where "i1 = (if coll then i\<lparr>bi_collisions := Suc (bi_collisions i)\<rparr> else i)"
  have f1: "bi_page_size i1 = bi_page_size i" "bi_entries i1 = bi_entries i" "bi_active i1 = bi_active i"
    by (simp_all add: i1_def)
  have inv1: "block_inv ok view good i1 s" by (rule block_inv_cong [OF inv f1])
  show ?thesis
  proof (cases best)
    case None
    then show ?thesis using run loop False inv1 f1 block_snaps_cong [OF f1(2)]
      by (auto simp: block_lookup_def Let_def i1_def [symmetric])
  next
    case (Some e)
    have e: "map_of (bi_entries i) (be_hash e) = Some e \<and> be_tokens e = take (be_length e) toks"
      using block_lookup_loop_sound [of None i toks _ e coll] v(4) loop Some by simp
    show ?thesis
    proof (cases m)
      case True
      obtain t i2 where tk: "block_tick i1 = (t, i2)" by (metis surj_pair)
      note f2 = block_tick_fields [OF tk]
      define e' where "e' = e\<lparr>be_last_used := t\<rparr>"
      have i': "i' = i2\<lparr>bi_entries := AList.update (be_hash e) e' (bi_entries i2)\<rparr>" and r: "r = Some e'"
        using run loop False Some True tk by (simp_all add: block_lookup_def Let_def i1_def [symmetric] e'_def)
      have pins: "card (active_on i' (be_hash e)) \<le> be_pins e'"
        using v(6) e f1 f2 by (simp add: i' e'_def active_on_def)
      have ent: "bi_entries i' = AList.update (be_hash e) e' (bi_entries i)"
          "bi_page_size i' = bi_page_size i" "bi_active i' = bi_active i"
        using f1 f2 by (simp_all add: i')
      have "block_inv ok view good i' s \<and> block_snaps i' = block_snaps i"
        using block_inv_touch [OF inv _ ent(1,2), of e] e pins ent(3)
        by (simp add: e'_def active_on_def)
      then show ?thesis using e ent by (simp add: r e'_def dict_simps)
    next
      case False
      then have "i' = i1" "r = Some e"
        using run loop \<open>?limit \<noteq> 0\<close> Some by (simp_all add: block_lookup_def Let_def i1_def [symmetric])
      then show ?thesis using e inv1 f1 block_snaps_cong [OF f1(2)] by simp
    qed
  qed
qed

context kv_contents
begin

lemma block_entry_view:
  assumes "block_inv ok view good i s" "map_of (bi_entries i) k = Some e"
  obtains c where "view s (be_handle e) = Some c" "good (be_tokens e) c" "size_of c = be_length e"
    "length (be_tokens e) = be_length e" "0 < be_length e" "be_handle e \<in> block_snaps i"
proof -
  note v = block_invD [OF assms(1)]
  obtain c where c: "view s (be_handle e) = Some c" "good (be_tokens e) c"
    using v(5) [OF assms(2)] by (auto simp: entry_ok_def)
  moreover have "length (be_tokens e) = be_length e" "0 < be_length e"
    using v(5) [OF assms(2)] v(2) by (auto simp: entry_ok_def)
  moreover have "be_handle e \<in> block_snaps i" using block_snaps_iff [OF v(3)] assms(2) by blast
  ultimately show thesis using that good_size by metis
qed

lemma block_snaps_live:
  assumes "block_inv ok view good i s" "h \<in> block_snaps i"
  shows "view s h \<noteq> None"
proof -
  obtain k e where "map_of (bi_entries i) k = Some e" "be_handle e = h"
    using assms(2) block_snaps_iff [OF block_invD(3) [OF assms(1)]] by blast
  then show ?thesis using block_entry_view [OF assms(1)] by blast
qed

lemma block_swaps_refl: "block_inv ok view good i s \<Longrightarrow> swaps view (block_snaps i) s (block_snaps i) s"
  by (rule swaps_refl) (rule block_snaps_live)

lemma block_frame:
  assumes "block_inv ok view good i s" "ok s'" "\<And>k. k \<in> block_snaps i \<Longrightarrow> view s' k = view s k"
  shows "block_inv ok view good i s'"
proof -
  note v = block_invD [OF assms(1)]
  have "entry_ok view good i s' e" if "map_of (bi_entries i) k = Some e" for k e
  proof -
    have "be_handle e \<in> block_snaps i" using that block_snaps_iff [OF v(3)] by blast
    then show ?thesis using v(5) [OF that] assms(3) by (simp add: entry_ok_def)
  qed
  then show ?thesis using v assms(2) unfolding block_inv_def by blast
qed

lemma block_probe_law:
  assumes inv: "block_inv ok view good i s" and run: "block_probe ts i = (p, i')"
  shows "block_inv ok view good i' s \<and> block_snaps i' = block_snaps i \<and>
    (pp_matched_tokens p \<noteq> 0 \<longrightarrow> pp_matched_tokens p \<le> length ts \<and>
      (\<exists>h \<in> block_snaps i. \<exists>c. pp_cache_handle p = Some h \<and> view s h = Some c \<and>
         good (take (pp_matched_tokens p) ts) c))"
proof -
  obtain r i1 where l: "block_lookup False ts (i\<lparr>bi_queries := Suc (bi_queries i)\<rparr>) = (r, i1)" by (metis surj_pair)
  have "block_inv ok view good (i\<lparr>bi_queries := Suc (bi_queries i)\<rparr>) s" by (rule block_inv_cong [OF inv]) simp_all
  note s = block_lookup_sound [OF this l]
  have snaps: "block_snaps i1 = block_snaps i" using s block_snaps_cong [of "i\<lparr>bi_queries := Suc (bi_queries i)\<rparr>" i] by simp
  have i': "bi_page_size i' = bi_page_size i1" "bi_entries i' = bi_entries i1" "bi_active i' = bi_active i1"
    using run l by (auto simp: block_probe_def split: option.splits)
  have inv1: "block_inv ok view good i1 s" using s by blast
  have ok': "block_inv ok view good i' s" "block_snaps i' = block_snaps i"
    using block_inv_cong [OF inv1 i'] block_snaps_cong [OF i'(2)] snaps by simp_all
  show ?thesis
  proof (cases r)
    case None
    then show ?thesis using run l ok' by (auto simp: block_probe_def no_probe_def)
  next
    case (Some e)
    then have e: "map_of (bi_entries i1) (be_hash e) = Some e" "be_tokens e = take (be_length e) ts" using s by auto
    have p: "pp_matched_tokens p = be_length e" "pp_cache_handle p = Some (be_handle e)"
      using run l Some by (auto simp: block_probe_def)
    obtain c where "view s (be_handle e) = Some c" "good (be_tokens e) c" "length (be_tokens e) = be_length e"
      "be_handle e \<in> block_snaps i1" using block_entry_view [OF inv1 e(1)] by metis
    then show ?thesis using ok' p e(2) snaps by auto
  qed
qed

lemma block_acquire_law:
  assumes inv: "block_inv ok view good i s" and run: "block_acquire ops rid ts p i s = (res, i', s')"
  shows "block_inv ok view good i' s' \<and> block_snaps i' = block_snaps i \<and> (\<exists>a. res = Inr a) \<and>
    (res = Inr None \<longrightarrow> s' = s) \<and>
    (\<forall>a. res = Inr (Some a) \<longrightarrow> 0 < ca_cache_length a \<and> ca_cache_length a \<le> length ts \<and>
      ca_reused_tokens a = ca_cache_length a \<and> view s (ca_cache_handle a) = None \<and>
      (\<exists>c. view s' = (view s)(ca_cache_handle a \<mapsto> c) \<and> good (take (ca_cache_length a) ts) c))"
proof (cases "pp_cache_handle p = None \<or> pp_matched_tokens p = 0")
  case True
  then show ?thesis using run inv by (auto simp: block_acquire_def)
next
  case hit: False
  obtain r i1 where l: "block_lookup True ts i = (r, i1)" by (metis surj_pair)
  note ls = block_lookup_sound [OF inv l]
  then have inv1: "block_inv ok view good i1 s" by blast
  show ?thesis
  proof (cases "\<exists>e. r = Some e \<and> Some (be_handle e) = pp_cache_handle p")
    case False
    then have "res = Inr None" "i' = i1" "s' = s"
      using run hit l by (auto simp: block_acquire_def split: option.splits)
    then show ?thesis using ls by simp
  next
    case True
    then obtain e where r: "r = Some e" "Some (be_handle e) = pp_cache_handle p" by blast
    then have e: "map_of (bi_entries i1) (be_hash e) = Some e" "be_tokens e = take (be_length e) ts" using ls by auto
    obtain c where c: "view s (be_handle e) = Some c" "good (be_tokens e) c" "size_of c = be_length e"
      "length (be_tokens e) = be_length e" "0 < be_length e" by (rule block_entry_view [OF inv1 e(1)])
    obtain x s1 where f: "op_fork ops (be_handle e) rid (Some (int (be_length e))) s = (x, s1)" by (metis surj_pair)
    have okk: "ok s" using block_invD(1) [OF inv] .
    have le: "be_length e \<le> size_of c" using c(3) by simp
    obtain child where ch: "x = Inr child" "ok s1" "view s child = None"
        "view s1 = (view s)(child \<mapsto> cut (be_length e) c)"
      by (rule fork_runs [OF okk c(1) le f])
    define i2 where "i2 = i1\<lparr>bi_entries := AList.update (be_hash e) (e\<lparr>be_pins := Suc (be_pins e)\<rparr>) (bi_entries i1)\<rparr>"
    have out: "res = Inr (Some \<lparr>ca_cache_handle = child, ca_cache_length = be_length e,
           ca_reused_tokens = be_length e, ca_reused_pages = be_pages e\<rparr>)"
       "i' = i2\<lparr>bi_active := AList.update child (be_hash e) (bi_active i2),
           bi_reused_tokens := bi_reused_tokens i2 + be_length e,
           bi_reused_pages := bi_reused_pages i2 + be_pages e\<rparr>" "s' = s1"
      using run hit l r f ch(1) by (simp_all add: block_acquire_def i2_def Let_def)
    have act: "active_on i' k \<subseteq> (if k = be_hash e then insert child (active_on i1 k) else active_on i1 k)" for k
      by (auto simp: out(2) i2_def active_on_def dict_simps)
    have card: "card (active_on i' (be_hash e)) \<le> Suc (be_pins e)"
    proof -
      have "card (active_on i' (be_hash e)) \<le> card (insert child (active_on i1 (be_hash e)))"
        using act [of "be_hash e"] by (intro card_mono) auto
      also have "\<dots> \<le> Suc (card (active_on i1 (be_hash e)))" by (rule card_insert_le_m1) simp_all
      finally show ?thesis using block_invD(6) [OF inv1 e(1)] by simp
    qed
    have ent: "bi_entries i' = AList.update (be_hash e) (e\<lparr>be_pins := Suc (be_pins e)\<rparr>) (bi_entries i1)"
      "bi_page_size i' = bi_page_size i1"
      by (simp_all add: out(2) i2_def)
    have other: "active_on i' k \<subseteq> active_on i1 k" if "k \<noteq> be_hash e" for k using act [of k] that by simp
    have card': "card (active_on i' (be_hash e)) \<le> be_pins (e\<lparr>be_pins := Suc (be_pins e)\<rparr>)" using card by simp
    have touched: "block_inv ok view good i' s" "block_snaps i' = block_snaps i1"
      by (rule block_inv_touch [OF inv1 e(1) ent _ _ _ _ _ other card'], simp_all)+
    have "view s1 k = view s k" if "k \<in> block_snaps i'" for k
      using block_snaps_live [OF touched(1) that] ch(3,4) by auto
    then have "block_inv ok view good i' s'" using block_frame [OF touched(1)] ch(2) out(3) by simp
    moreover have "good (take (be_length e) ts) (cut (be_length e) c)"
      using good_cut [OF c(2), of "be_length e"] c(4) e(2) by simp
    moreover have "be_length e \<le> length ts" using c(4) e(2) by simp
    ultimately show ?thesis using out c(5) ch touched(2) ls by auto
  qed
qed

end

subsection \<open>Eviction\<close>

lemma min_by_candidates:
  assumes "dict_ok (bi_entries i)" "\<And>k e. map_of (bi_entries i) k = Some e \<Longrightarrow> be_hash e = k"
    and "min_by f (eviction_candidates protected i) = Some e"
  shows "map_of (bi_entries i) (be_hash e) = Some e" "be_pins e = 0" "Some (be_hash e) \<noteq> protected"
proof -
  have e: "e \<in> set (eviction_candidates protected i)" using min_by_in [OF assms(3)] .
  then obtain k where "(k, e) \<in> set (bi_entries i)" by (auto simp: eviction_candidates_def)
  then have "map_of (bi_entries i) k = Some e" using assms(1) by (simp add: dict_get_iff)
  then show "map_of (bi_entries i) (be_hash e) = Some e" using assms(2) by simp
  show "be_pins e = 0" "Some (be_hash e) \<noteq> protected" using e by (simp_all add: eviction_candidates_def)
qed

lemma length_delete_present: "dict_ok d \<Longrightarrow> map_of d k \<noteq> None \<Longrightarrow> Suc (length (AList.delete k d)) = length d"
proof (induction d)
  case (Cons x d)
  then show ?case by (cases "fst x = k") (auto simp: map_of_eq_None_iff split: if_splits)
qed simp

text \<open>Dropping an unpinned entry.\<close>

lemma block_inv_drop:
  assumes inv: "block_inv ok view good i s" and e: "map_of (bi_entries i) (be_hash e) = Some e" "be_pins e = 0"
    and i': "bi_entries i' = AList.delete (be_hash e) (bi_entries i)" "bi_page_size i' = bi_page_size i"
      "bi_active i' = bi_active i"
    and s': "ok s'" "view s' = (view s)(be_handle e := None)"
  shows "block_inv ok view good i' s'" "block_snaps i' = block_snaps i - {be_handle e}"
    "\<And>k. k \<noteq> be_hash e \<Longrightarrow> map_of (bi_entries i') k = map_of (bi_entries i) k"
proof -
  note v = block_invD [OF inv]
  have get: "map_of (bi_entries i') k = (if k = be_hash e then None else map_of (bi_entries i) k)" for k
    by (simp add: i' dict_simps)
  have ne: "be_handle x \<noteq> be_handle e" if "map_of (bi_entries i') k = Some x" for k x
    using that v(7) [OF e(1)] by (auto simp: get split: if_splits)
  have old: "map_of (bi_entries i) k = Some x" if "map_of (bi_entries i') k = Some x" for k x
    using that by (simp add: get split: if_splits)
  have ok': "dict_ok (bi_entries i')" using v(3) by (simp add: i')
  have ent: "be_hash x = k \<and> entry_ok view good i' s' x \<and> card (active_on i' k) \<le> be_pins x"
    if x: "map_of (bi_entries i') k = Some x" for k x
    using v(4-6) [OF old [OF x]] ne [OF x] by (simp add: entry_ok_def s'(2) i'(2) active_on_cong [OF i'(3)])
  have uniq: "k = k'" if "map_of (bi_entries i') k = Some x" "map_of (bi_entries i') k' = Some y"
      "be_handle x = be_handle y" for k k' x y
    using v(7) [OF old old] that by blast
  have act: "map_of (bi_entries i') k \<noteq> None" if a: "active_on i' k \<noteq> {}" for k
  proof -
    have "active_on i k \<noteq> {}" using a by (simp add: active_on_cong [OF i'(3)])
    moreover have "active_on i (be_hash e) = {}" using v(6) [OF e(1)] e(2) by simp
    ultimately show ?thesis using v(8) [of k] by (auto simp: get)
  qed
  show "block_inv ok view good i' s'"
    unfolding block_inv_def i'(2) using v(2) s'(1) ok' ent uniq act by blast
  show "block_snaps i' = block_snaps i - {be_handle e}"
  proof (intro set_eqI iffI)
    fix h assume "h \<in> block_snaps i'"
    then obtain k x where x: "map_of (bi_entries i') k = Some x" "be_handle x = h"
      unfolding block_snaps_iff [OF ok'] by blast
    then show "h \<in> block_snaps i - {be_handle e}"
      using ne [OF x(1)] old [OF x(1)] block_snaps_iff [OF v(3)] by auto
  next
    fix h assume h: "h \<in> block_snaps i - {be_handle e}"
    then obtain k x where x: "map_of (bi_entries i) k = Some x" "be_handle x = h"
      using block_snaps_iff [OF v(3)] by blast
    then have "k \<noteq> be_hash e" using h e(1) by auto
    then have "map_of (bi_entries i') k = Some x" using x(1) by (simp add: get)
    then show "h \<in> block_snaps i'" using x(2) block_snaps_iff [OF ok'] by blast
  qed
  show "map_of (bi_entries i') k = map_of (bi_entries i) k" if "k \<noteq> be_hash e" for k using that by (simp add: get)
qed

context kv_contents
begin

lemma block_evict_ok:
  assumes "block_inv ok view good i s" "length (bi_entries i) \<le> fuel"
    and "block_evict ops fuel protected i s = (res, i', s')"
  shows "res = Inr () \<and> block_inv ok view good i' s' \<and> swaps view (block_snaps i) s (block_snaps i') s' \<and>
    block_snaps i' \<subseteq> block_snaps i \<and> bi_active i' = bi_active i \<and> bi_page_size i' = bi_page_size i \<and>
    (over_limits i' \<longrightarrow> eviction_candidates protected i' = []) \<and>
    (\<forall>k e. map_of (bi_entries i) k = Some e \<longrightarrow> be_pins e \<noteq> 0 \<or> Some k = protected \<longrightarrow>
       map_of (bi_entries i') k = Some e)"
  using assms
proof (induction fuel arbitrary: i s)
  case 0
  then have "bi_entries i = []" by simp
  moreover note block_swaps_refl [OF 0(1)]
  ultimately show ?case using 0 by (simp add: eviction_candidates_def)
next
  case (Suc fuel)
  note inv = Suc.prems(1) and v = block_invD [OF Suc.prems(1)]
  let ?min = "min_by (\<lambda>e. (be_last_used e, - int (be_pages e))) (eviction_candidates protected i)"
  show ?case
  proof (cases "over_limits i \<and> ?min \<noteq> None")
    case False
    show ?thesis using block_swaps_refl [OF inv] False Suc.prems by (auto split: option.splits)
  next
    case True
    then obtain e where m: "?min = Some e" by blast
    have e: "map_of (bi_entries i) (be_hash e) = Some e" "be_pins e = 0" "Some (be_hash e) \<noteq> protected"
      by (rule min_by_candidates [OF v(3) _ m], erule v(4))+
    obtain x s1 where rel: "op_release ops (Some (be_handle e)) s = (x, s1)" by (metis surj_pair)
    note rr = release_runs [OF v(1) rel]
    define i1 where "i1 = i\<lparr>bi_entries := AList.delete (be_hash e) (bi_entries i), bi_evictions := Suc (bi_evictions i)\<rparr>"
    have f1: "bi_entries i1 = AList.delete (be_hash e) (bi_entries i)" "bi_page_size i1 = bi_page_size i"
      "bi_active i1 = bi_active i" by (simp_all add: i1_def)
    note d = block_inv_drop [OF inv e(1,2) f1 rr(2,3)]
    have step: "block_evict ops fuel protected i1 s1 = (res, i', s')"
      using Suc.prems(3) True m rel rr(1) by (simp add: i1_def Let_def)
    have len: "length (bi_entries i1) \<le> fuel"
      using Suc.prems(2) length_delete_present [OF v(3), of "be_hash e"] e(1) f1 by simp
    note IH = Suc.IH [OF d(1) len step]
    have "be_handle e \<in> block_snaps i" using e(1) block_snaps_iff [OF v(3)] by blast
    then have "swaps view (block_snaps i) s (block_snaps i1) s1"
      using swaps_drop [of view s1 s "be_handle e" "block_snaps i"] rr(3) d(2) block_snaps_live [OF inv] by simp
    moreover have "swaps view (block_snaps i1) s1 (block_snaps i') s'" using IH by blast
    ultimately have sw: "swaps view (block_snaps i) s (block_snaps i') s'" by (rule swaps_trans)
    have keep: "map_of (bi_entries i') k = Some y"
      if y: "map_of (bi_entries i) k = Some y" "be_pins y \<noteq> 0 \<or> Some k = protected" for k y
    proof -
      have "k \<noteq> be_hash e" using y e by auto
      then have "map_of (bi_entries i1) k = Some y" using d(3) y(1) by simp
      then show ?thesis using IH y(2) by blast
    qed
    show ?thesis using IH sw keep d(2) f1 by auto
  qed
qed

lemma block_evict_within_ok:
  assumes "block_inv ok view good i s" "block_evict_within ops protected i s = (res, i', s')"
  shows "res = Inr () \<and> block_inv ok view good i' s' \<and> swaps view (block_snaps i) s (block_snaps i') s' \<and>
    block_snaps i' \<subseteq> block_snaps i \<and> bi_active i' = bi_active i \<and> bi_page_size i' = bi_page_size i \<and>
    (over_limits i' \<longrightarrow> eviction_candidates protected i' = []) \<and>
    (\<forall>k e. map_of (bi_entries i) k = Some e \<longrightarrow> be_pins e \<noteq> 0 \<or> Some k = protected \<longrightarrow>
       map_of (bi_entries i') k = Some e)"
  using block_evict_ok [OF assms(1) order_refl assms(2) [unfolded block_evict_within_def]] .

subsection \<open>Release and publication\<close>

lemma block_release_law:
  assumes inv: "block_inv ok view good i s" and run: "block_release ops ho i s = (res, i', s')"
  shows "block_inv ok view good i' s' \<and> swaps view (block_snaps i) s (block_snaps i') s' \<and>
    block_snaps i' \<subseteq> block_snaps i \<and> res = Inr ()"
proof (cases "\<exists>h bh. ho = Some h \<and> map_of (bi_active i) h = Some bh")
  case False
  then have "res = Inr ()" "i' = i" "s' = s"
    using run by (auto simp: block_release_def split: option.splits)
  then show ?thesis using inv block_swaps_refl [OF inv] by simp
next
  case True
  then obtain h bh where h: "ho = Some h" "map_of (bi_active i) h = Some bh" by blast
  define i2 where "i2 = (case map_of (bi_entries i) bh of None \<Rightarrow> i\<lparr>bi_active := AList.delete h (bi_active i)\<rparr>
      | Some e \<Rightarrow> i\<lparr>bi_active := AList.delete h (bi_active i),
          bi_entries := AList.update bh (e\<lparr>be_pins := be_pins e - 1\<rparr>) (bi_entries i)\<rparr>)"
  have ev: "block_evict_within ops None i2 s = (res, i', s')"
    using run h by (auto simp: block_release_def i2_def Let_def split: option.splits)
  have act: "active_on i2 k = active_on i k - {h}" for k
    by (auto simp: i2_def active_on_def dict_simps split: option.splits)
  have "block_inv ok view good i2 s \<and> block_snaps i2 = block_snaps i"
  proof (cases "map_of (bi_entries i) bh")
    case None
    have "card (active_on i2 k) \<le> card (active_on i k)" for k
      unfolding act by (rule card_mono) auto
    then have "card (active_on i2 k) \<le> be_pins e" if "map_of (bi_entries i) k = Some e" for k e
      using block_invD(6) [OF inv that] le_trans by blast
    moreover have f: "bi_entries i2 = bi_entries i" "bi_page_size i2 = bi_page_size i"
      using None by (simp_all add: i2_def)
    moreover have "entry_ok view good i2 s e = entry_ok view good i s e" for e by (simp add: entry_ok_def f(2))
    ultimately have ent: "be_hash e = k \<and> entry_ok view good i2 s e \<and> card (active_on i2 k) \<le> be_pins e"
      if "map_of (bi_entries i) k = Some e" for k e
      using block_invD(4,5) [OF inv that] that by simp
    have "block_inv ok view good i2 s"
    proof (rule block_invI)
      show "be_hash e = k \<and> entry_ok view good i2 s e \<and> card (active_on i2 k) \<le> be_pins e"
        if "map_of (bi_entries i2) k = Some e" for k e using ent that by (simp add: f(1))
      show "k = k'" if "map_of (bi_entries i2) k = Some e" "map_of (bi_entries i2) k' = Some e'"
        "be_handle e = be_handle e'" for k k' e e' using block_invD(7) [OF inv] that unfolding f(1) by blast
      show "map_of (bi_entries i2) k \<noteq> None" if "active_on i2 k \<noteq> {}" for k
        using that block_invD(8) [OF inv, of k] unfolding act f(1) by blast
    qed (use block_invD(1-3) [OF inv] f in simp_all)
    then show ?thesis using block_snaps_cong [OF f(1)] by simp
  next
    case (Some e)
    have f: "bi_entries i2 = AList.update bh (e\<lparr>be_pins := be_pins e - 1\<rparr>) (bi_entries i)"
      "bi_page_size i2 = bi_page_size i"
      using Some by (simp_all add: i2_def)
    have other: "active_on i2 k \<subseteq> active_on i k" for k unfolding act by blast
    have "h \<in> active_on i bh" using h(2) by (simp add: active_on_def)
    then have "card (active_on i2 bh) = card (active_on i bh) - 1" unfolding act by simp
    then have card: "card (active_on i2 bh) \<le> be_pins (e\<lparr>be_pins := be_pins e - 1\<rparr>)"
      using block_invD(6) [OF inv Some] by simp
    show ?thesis
      using block_inv_touch [OF inv Some f _ _ _ _ _ other card] by simp
  qed
  then show ?thesis using block_evict_within_ok [OF _ ev] by metis
qed

lemma block_inv_add:
  assumes inv: "block_inv ok view good i s" and new: "map_of (bi_entries i) bh = None"
    and e: "be_hash e = bh" "be_length e = length (be_tokens e)" "be_length e = be_pages e * bi_page_size i"
      "0 < be_pages e" "view s (be_handle e) = None" "good (be_tokens e) c"
    and s': "ok s'" "view s' = (view s)(be_handle e \<mapsto> c)"
  defines "i' \<equiv> i\<lparr>bi_entries := AList.update bh e (bi_entries i)\<rparr>"
  shows "block_inv ok view good i' s'" "block_snaps i' = insert (be_handle e) (block_snaps i)"
proof -
  note v = block_invD [OF inv]
  have get: "map_of (bi_entries i') k = (if k = bh then Some e else map_of (bi_entries i) k)" for k
    by (simp add: i'_def dict_simps)
  have act: "active_on i' k = active_on i k" for k by (simp add: i'_def active_on_def)
  have none: "active_on i bh = {}" using v(8) [of bh] new by blast
  have old: "be_handle x \<noteq> be_handle e" "view s' (be_handle x) = view s (be_handle x)"
    if "map_of (bi_entries i) k = Some x" for k x
    using block_entry_view [OF inv that] e(5) s'(2) by (metis option.distinct(1), metis fun_upd_other option.distinct(1))
  have ok': "dict_ok (bi_entries i')" using v(3) by (simp add: i'_def)
  show "block_inv ok view good i' s'"
  proof (rule block_invI)
    fix k x assume x: "map_of (bi_entries i') k = Some x"
    show "be_hash x = k \<and> entry_ok view good i' s' x \<and> card (active_on i' k) \<le> be_pins x"
    proof (cases "k = bh")
      case True
      then have "x = e" using x get by simp
      then show ?thesis using e s' none True by (simp add: entry_ok_def act) (simp add: i'_def)
    next
      case False
      then have x': "map_of (bi_entries i) k = Some x" using x get by simp
      then show ?thesis using v(4-6) [OF x'] old(2) [OF x'] by (simp add: entry_ok_def act) (simp add: i'_def)
    qed
  next
    fix k k' x y assume xy: "map_of (bi_entries i') k = Some x" "map_of (bi_entries i') k' = Some y" "be_handle x = be_handle y"
    show "k = k'"
      by (cases "k = bh"; cases "k' = bh") (use xy get old(1) v(7) in \<open>auto split: if_splits\<close>)
  next
    show "map_of (bi_entries i') k \<noteq> None" if "active_on i' k \<noteq> {}" for k
      using that v(8) [of k] by (simp add: act get)
  qed (use v s' ok' in \<open>simp_all add: i'_def\<close>)
  show "block_snaps i' = insert (be_handle e) (block_snaps i)"
  proof (intro set_eqI iffI)
    fix h assume "h \<in> block_snaps i'"
    then obtain k x where "map_of (bi_entries i') k = Some x" "be_handle x = h"
      unfolding block_snaps_iff [OF ok'] by blast
    then show "h \<in> insert (be_handle e) (block_snaps i)"
      using block_snaps_iff [OF v(3)] by (cases "k = bh") (auto simp: get)
  next
    fix h assume "h \<in> insert (be_handle e) (block_snaps i)"
    then consider "h = be_handle e" | k x where "map_of (bi_entries i) k = Some x" "be_handle x = h" "k \<noteq> bh"
      using block_snaps_iff [OF v(3)] new by fastforce
    then show "h \<in> block_snaps i'" unfolding block_snaps_iff [OF ok'] by cases (use get in auto)
  qed
qed

lemma block_publish_loop_ok:
  assumes "block_inv ok view good i s" "h \<notin> block_snaps i" "view s h = Some c"
    and "\<And>bh p len. (bh, p, len) \<in> set chain \<Longrightarrow> 0 < len \<and> len \<le> size_of c \<and> len \<le> length toks \<and>
      bi_page_size i dvd len \<and> good (take len toks) (cut len c)"
    and "block_publish_loop ops h toks clock chain published i s = (res, i', s')"
  shows "(\<exists>n. res = Inr n) \<and> block_inv ok view good i' s' \<and> swaps view (block_snaps i) s (block_snaps i') s' \<and>
    bi_active i' = bi_active i \<and> bi_page_size i' = bi_page_size i"
  using assms
proof (induction chain arbitrary: i s published)
  case Nil
  then show ?case using block_swaps_refl [OF Nil(1)] by auto
next
  case (Cons x chain)
  obtain bh p len where x: "x = (bh, p, len)" by (metis surj_pair)
  have len: "0 < len" "len \<le> size_of c" "len \<le> length toks" "bi_page_size i dvd len" "good (take len toks) (cut len c)"
    using Cons.prems(4) [of bh p len] by (simp_all add: x)
  note inv = Cons.prems(1) and v = block_invD [OF Cons.prems(1)]
  show ?case
  proof (cases "map_of (bi_entries i) bh")
    case (Some e)
    show ?thesis
      by (rule Cons.IH [OF Cons.prems(1-3)]) (use Cons.prems(4,5) Some x in auto)
  next
    case None
    obtain y s1 where f: "op_fork ops h (snapshot_id bh) (Some (int len)) s = (y, s1)" by (metis surj_pair)
    obtain snap where sn: "y = Inr snap" "ok s1" "view s snap = None" "view s1 = (view s)(snap \<mapsto> cut len c)"
      by (rule fork_runs [OF v(1) Cons.prems(3) len(2) f])
    define e where "e = \<lparr>be_hash = bh, be_parent = p, be_tokens = take len toks,
        be_digest = fp_digest (bi_sha i) (bi_compat i), be_handle = snap, be_length = len,
        be_pages = len div bi_page_size i, be_bytes = bytes_for_pages ops (bi_page_size i) s1 1,
        be_last_used = clock, be_pins = 0\<rparr>"
    define i1 where "i1 = i\<lparr>bi_entries := AList.update bh e (bi_entries i)\<rparr>"
    have pages: "0 < len div bi_page_size i" "len = len div bi_page_size i * bi_page_size i"
      using len(1,4) v(2) by (auto simp: div_greater_zero_iff dvd_imp_le)
    have "block_inv ok view good i1 s1 \<and> block_snaps i1 = insert snap (block_snaps i)"
      using block_inv_add [OF inv None, of e "cut len c" s1] sn len pages
      by (simp add: e_def i1_def)
    then have i1: "block_inv ok view good i1 s1" "block_snaps i1 = insert snap (block_snaps i)" by blast+
    have sw: "swaps view (block_snaps i) s (block_snaps i1) s1"
      unfolding i1(2) by (rule swaps_add [OF sn(3,4)]) (rule block_snaps_live [OF inv])
    have h: "h \<notin> block_snaps i1" "view s1 h = Some c" using Cons.prems(2,3) sn(3,4) i1(2) by auto
    have same: "bi_page_size i1 = bi_page_size i" "bi_active i1 = bi_active i" by (simp_all add: i1_def)
    have rest: "block_publish_loop ops h toks clock chain len i1 s1 = (res, i', s')"
      using Cons.prems(5) None f sn(1) by (simp add: x i1_def e_def)
    have later: "0 < l \<and> l \<le> size_of c \<and> l \<le> length toks \<and> bi_page_size i1 dvd l \<and> good (take l toks) (cut l c)"
      if "(b, q, l) \<in> set chain" for b q l
      using Cons.prems(4) [of b q l] that by (simp add: same)
    have IH: "(\<exists>n. res = Inr n) \<and> block_inv ok view good i' s' \<and> swaps view (block_snaps i1) s1 (block_snaps i') s' \<and>
      bi_active i' = bi_active i1 \<and> bi_page_size i' = bi_page_size i1"
      by (rule Cons.IH [OF i1(1) h _ rest]) (rule later)
    moreover have "swaps view (block_snaps i1) s1 (block_snaps i') s'" using IH by blast
    then have "swaps view (block_snaps i) s (block_snaps i') s'" by (rule swaps_trans [OF sw])
    ultimately show ?thesis using same by simp
  qed
qed

lemma hash_chain_ends:
  "(bh, p, len) \<in> set (hash_chain i toks) \<Longrightarrow> 0 < bi_page_size i \<Longrightarrow>
   0 < len \<and> len \<le> length toks \<and> bi_page_size i dvd len"
proof -
  assume a: "(bh, p, len) \<in> set (hash_chain i toks)" and ps: "0 < bi_page_size i"
  have "(bh, p, len) \<in> set (hash_chain_loop i toks q ends) \<Longrightarrow> len \<in> set ends" for q ends
    by (induction ends arbitrary: q) (auto simp: Let_def)
  then have "len \<in> set (range_step (bi_page_size i) (length toks + 1) (bi_page_size i))"
    using a by (auto simp: hash_chain_def)
  then show ?thesis using ps by (auto simp: set_range_step)
qed

lemma block_publish_law:
  assumes inv: "block_inv ok view good i s" and h: "h \<notin> block_snaps i" "view s h = Some c" "n \<le> size_of c"
    and g: "\<And>m. m \<le> n \<Longrightarrow> m \<le> length ts \<Longrightarrow> good (take m ts) (cut m c)"
    and run: "block_publish ops h ts n i s = (res, i', s')"
  shows "block_inv ok view good i' s' \<and> swaps view (block_snaps i) s (block_snaps i') s' \<and> (\<exists>q. res = Inr q)"
proof (cases "min n (length ts) div bi_page_size i * bi_page_size i = 0")
  case True
  then show ?thesis using run inv block_swaps_refl [OF inv] by (auto simp: block_publish_def Let_def)
next
  case False
  let ?len = "min n (length ts) div bi_page_size i * bi_page_size i"
  define chain where "chain = take (publishable_pages ops (bi_page_size i) (bi_max_entries i) (bi_max_bytes i) s)
                          (hash_chain i (take ?len ts))"
  obtain t i1 where tk: "block_tick i = (t, i1)" by (metis surj_pair)
  note f = block_tick_fields [OF tk]
  have inv1: "block_inv ok view good i1 s" by (rule block_inv_cong [OF inv]) (use f in simp_all)
  have sn1: "block_snaps i1 = block_snaps i" by (rule block_snaps_cong) (use f in simp)
  obtain r i2 s2 where loop: "block_publish_loop ops h ts t chain 0 i1 s = (r, i2, s2)" by (metis surj_pair)
  have le: "?len \<le> min n (length ts)" by (rule div_times_less_eq_dividend)
  have ch: "0 < len \<and> len \<le> size_of c \<and> len \<le> length ts \<and> bi_page_size i1 dvd len \<and> good (take len ts) (cut len c)"
    if "(bh, p, len) \<in> set chain" for bh p len
  proof -
    have m: "(bh, p, len) \<in> set (hash_chain i (take ?len ts))" using that unfolding chain_def by (rule in_set_takeD)
    have e: "0 < len" "len \<le> length (take ?len ts)" "bi_page_size i dvd len"
      using hash_chain_ends [OF m block_invD(2) [OF inv]] by blast+
    have "len \<le> min n (length ts)" using e(2) le by simp
    then show ?thesis using e g [of len] h(3) f by simp
  qed
  have h1: "h \<notin> block_snaps i1" using h(1) sn1 by simp
  have L: "(\<exists>n. r = Inr n) \<and> block_inv ok view good i2 s2 \<and> swaps view (block_snaps i1) s (block_snaps i2) s2 \<and>
    bi_active i2 = bi_active i1 \<and> bi_page_size i2 = bi_page_size i1"
    by (rule block_publish_loop_ok [OF inv1 h1 h(2) _ loop]) (rule ch)
  then obtain m where r: "r = Inr m" by blast
  have inv2: "block_inv ok view good i2 s2" using L by blast
  obtain r3 i3 s3 where ev: "block_evict_within ops (Some (if chain = [] then [] else fst (last chain))) i2 s2 = (r3, i3, s3)"
    by (metis surj_pair)
  note E = block_evict_within_ok [OF inv2 ev]
  have "swaps view (block_snaps i) s (block_snaps i2) s2" using L sn1 by simp
  moreover have "swaps view (block_snaps i2) s2 (block_snaps i3) s3" using E by blast
  ultimately have sw: "swaps view (block_snaps i) s (block_snaps i3) s3" by (rule swaps_trans)
  have "i' = i3 \<and> s' = s3 \<and> (\<exists>q. res = Inr q)"
    using run False tk loop r ev E by (auto simp: block_publish_def Let_def chain_def [symmetric])
  then show ?thesis using sw E by blast
qed

lemma block_inv_ok: "block_inv ok view good i s \<Longrightarrow> ok s \<and> (\<forall>k \<in> block_snaps i. view s k \<noteq> None)"
  by (intro conjI ballI) (erule block_invD(1), rule block_snaps_live)

end

interpretation block: prefix_index paged_ops "paged_idle layers d" paged_view cut_layers fst "causal_rows krow vrow layers"
    block_probe "block_acquire paged_ops" "block_publish paged_ops" "block_release paged_ops" block_snaps
    "block_inv (paged_idle layers d) paged_view (causal_rows krow vrow layers)"
  for krow vrow layers d
  by unfold_locales (fact causal.block_inv_ok, fact causal.block_frame, fact causal.block_probe_law,
    fact causal.block_acquire_law, fact causal.block_publish_law, fact causal.block_release_law)

definition none_inv :: "('s \<Rightarrow> bool) \<Rightarrow> unit \<Rightarrow> 's \<Rightarrow> bool" where
  "none_inv ok i s \<longleftrightarrow> ok s"

interpretation no_reuse: prefix_index paged_ops "paged_idle layers d" paged_view cut_layers fst "causal_rows krow vrow layers"
    none_probe none_acquire none_publish none_release "\<lambda>_. {}" "none_inv (paged_idle layers d)"
  for krow vrow layers d
  by unfold_locales (auto simp: none_inv_def none_probe_def none_acquire_def none_publish_def none_release_def
    no_probe_def swaps_def)

end
