(* ===== verification/RadixIndex.thy ===== *)
theory RadixIndex
  imports BlockIndex
begin

text \<open>
  The compressed radix index, \<^verbatim>\<open>RadixPrefixCache\<close> in
  \<^verbatim>\<open>native_mlx/prefix_cache.py\<close>.  The code builds a tree of mutable node objects with
  parent links and keeps references to nodes in \<^verbatim>\<open>_active_handles\<close>; here nodes live in
  a store, \<open>rx_nodes\<close>, under the address at which they were created, and a reference is an
  address.  Loops over the tree carry fuel: a descent consumes at least one token in each round, a
  walk visits each node once, an eviction removes one entry in each round, a pruning step climbs
  one level.
\<close>

subsection \<open>State\<close>

record radix_node =
  rn_edge :: "token list"
  rn_prefix :: "token list"
  rn_handle :: "handle option"
  rn_length :: nat
  rn_pages :: nat
  rn_bytes :: nat
  rn_last_used :: int
  rn_pins :: nat
  rn_parent :: "nat option"
  rn_children :: "(token, nat) dict"

definition empty_node :: radix_node where
  "empty_node = \<lparr>rn_edge = [], rn_prefix = [], rn_handle = None, rn_length = 0, rn_pages = 0,
     rn_bytes = 0, rn_last_used = 0, rn_pins = 0, rn_parent = None, rn_children = []\<rparr>"

record radix_metrics_view =
  rm_base :: index_metrics
  rm_nodes :: nat
  rm_splits :: nat
  rm_shared_pages :: nat
  rm_protected_pages :: nat
  rm_evictable_pages :: nat
  rm_tree_depth :: nat
  rm_leaf_evictions :: nat

record radix_index =
  rx_compat :: fingerprint
  rx_page_size :: nat
  rx_max_entries :: nat
  rx_max_bytes :: nat
  rx_nodes :: "nat \<Rightarrow> radix_node"
  rx_next :: nat
  rx_root :: nat
  rx_active :: "(handle, nat) dict"
  rx_clock :: int
  rx_queries :: nat
  rx_hits :: nat
  rx_misses :: nat
  rx_reused_tokens :: nat
  rx_reused_pages :: nat
  rx_splits :: nat
  rx_evictions :: nat
  rx_metrics_cache :: "radix_metrics_view option"
  rx_metrics_dirty :: bool
  rx_published :: "(handle, nat) dict"
  rx_sha :: "string \<Rightarrow> string"
  rx_times :: "nat \<Rightarrow> int"
  rx_reads :: nat

definition radix_init ::
  "fingerprint \<Rightarrow> int \<Rightarrow> int \<Rightarrow> int \<Rightarrow> (string \<Rightarrow> string) \<Rightarrow> (nat \<Rightarrow> int) \<Rightarrow> exn + radix_index" where
  "radix_init fp psize max_entries max_bytes sha readings =
     (if psize \<le> 0 then Inl (ValueError ''radix prefix cache page size must be positive'')
      else if max_entries \<le> 0 then
        Inl (ValueError ''radix prefix cache max entries must be positive'')
      else if max_bytes \<le> 0 then
        Inl (ValueError ''radix prefix cache max bytes must be positive'')
      else Inr \<lparr>rx_compat = fp, rx_page_size = nat psize, rx_max_entries = nat max_entries,
        rx_max_bytes = nat max_bytes, rx_nodes = (\<lambda>_. empty_node), rx_next = 1, rx_root = 0,
        rx_active = [], rx_clock = 0, rx_queries = 0, rx_hits = 0, rx_misses = 0,
        rx_reused_tokens = 0, rx_reused_pages = 0, rx_splits = 0, rx_evictions = 0,
        rx_metrics_cache = None, rx_metrics_dirty = True, rx_published = [],
        rx_sha = sha, rx_times = readings, rx_reads = 0\<rparr>)"

definition radix_tick :: "radix_index \<Rightarrow> int \<times> radix_index" where
  "radix_tick i =
     (let t = max (rx_clock i + 1) (rx_times i (rx_reads i))
      in (t, i\<lparr>rx_clock := t, rx_reads := Suc (rx_reads i)\<rparr>))"

text \<open>Assigning to fields of a node object.\<close>

definition upd_node :: "nat \<Rightarrow> (radix_node \<Rightarrow> radix_node) \<Rightarrow> radix_index \<Rightarrow> radix_index" where
  "upd_node a f i = i\<lparr>rx_nodes := (rx_nodes i)(a := f (rx_nodes i a))\<rparr>"

text \<open>\<open>_RadixNode(edge_tokens=\<dots>, token_prefix=\<dots>, parent=\<dots>)\<close>: a new object.\<close>

definition new_node :: "token list \<Rightarrow> token list \<Rightarrow> nat \<Rightarrow> radix_index \<Rightarrow> nat \<times> radix_index" where
  "new_node edge pfx parent i =
     (rx_next i, i\<lparr>rx_nodes := (rx_nodes i)(rx_next i :=
                     empty_node\<lparr>rn_edge := edge, rn_prefix := pfx, rn_parent := Some parent\<rparr>),
                   rx_next := Suc (rx_next i)\<rparr>)"

subsection \<open>Common prefixes\<close>

fun common_prefix_len :: "token list \<Rightarrow> token list \<Rightarrow> nat" where
  "common_prefix_len (x # xs) (y # ys) = (if x = y then Suc (common_prefix_len xs ys) else 0)"
| "common_prefix_len _ _ = 0"

fun common_loop :: "token list \<Rightarrow> token list \<Rightarrow> nat \<Rightarrow> nat \<Rightarrow> nat \<Rightarrow> nat" where
  "common_loop left right offset 0 k = k"
| "common_loop left right offset (Suc rest) k =
     (if left ! k = right ! (offset + k) then common_loop left right offset rest (Suc k)
      else k)"

definition common_prefix_len_at :: "token list \<Rightarrow> token list \<Rightarrow> nat \<Rightarrow> nat \<Rightarrow> nat" where
  "common_prefix_len_at left right offset limit =
     common_loop left right offset (min (length left) (limit - offset)) 0"

subsection \<open>Lookup\<close>

fun radix_descend ::
  "radix_index \<Rightarrow> token list \<Rightarrow> nat \<Rightarrow> nat \<Rightarrow> nat \<Rightarrow> nat \<Rightarrow> nat option \<Rightarrow> nat option" where
  "radix_descend i toks limit 0 node offset best = best"
| "radix_descend i toks limit (Suc fuel) node offset best =
     (if \<not> offset < limit then best
      else
        (case map_of (rn_children (rx_nodes i node)) (toks ! offset) of
           None \<Rightarrow> best
         | Some child \<Rightarrow>
             (let edge = rn_edge (rx_nodes i child);
                  common = common_prefix_len_at edge toks offset limit
              in if common < length edge then best
                 else
                   (let n = rx_nodes i child;
                        best' = (if rn_handle n \<noteq> None \<and> rn_length n \<le> limit then Some child else best)
                    in radix_descend i toks limit fuel child (offset + common) best'))))"

definition radix_lookup :: "bool \<Rightarrow> token list \<Rightarrow> radix_index \<Rightarrow> nat option \<times> radix_index" where
  "radix_lookup mutate toks i =
     (let limit = max_reusable (rx_page_size i) toks
      in if limit = 0 then (None, i)
         else
           (case radix_descend i toks limit (Suc limit) (rx_root i) 0 None of
              None \<Rightarrow> (None, i)
            | Some a \<Rightarrow>
                if mutate then
                  (let (t, i1) = radix_tick i in (Some a, upd_node a (rn_last_used_update (\<lambda>_. t)) i1))
                else (Some a, i)))"

subsection \<open>Insertion\<close>

text \<open>\<open>new\<close> node below \<open>node\<close>, keyed by the first token of its edge.\<close>

definition attach :: "nat \<Rightarrow> nat \<Rightarrow> radix_index \<Rightarrow> radix_index" where
  "attach parent child i =
     upd_node parent (\<lambda>n. n\<lparr>rn_children :=
       AList.update (hd (rn_edge (rx_nodes i child))) child (rn_children n)\<rparr>) i"

definition split_child ::
  "nat \<Rightarrow> nat \<Rightarrow> nat \<Rightarrow> nat \<Rightarrow> token list \<Rightarrow> radix_index \<Rightarrow> nat \<times> radix_index" where
  "split_child node child offset common toks i =
     (let (split, i1) = new_node (take common (rn_edge (rx_nodes i child))) (take (offset + common) toks) node i;
          i2 = attach node split i1;
          i3 = upd_node child (\<lambda>n. n\<lparr>rn_edge := drop common (rn_edge n), rn_parent := Some split\<rparr>) i2;
          i4 = attach split child i3
      in (split, i4\<lparr>rx_splits := Suc (rx_splits i4)\<rparr>))"

fun radix_insert_loop ::
  "token list \<Rightarrow> nat \<Rightarrow> nat \<Rightarrow> nat \<Rightarrow> radix_index \<Rightarrow> nat \<times> radix_index" where
  "radix_insert_loop toks 0 node offset i = (node, i)"
| "radix_insert_loop toks (Suc fuel) node offset i =
     (if \<not> offset < length toks then (node, i)
      else
        (case map_of (rn_children (rx_nodes i node)) (toks ! offset) of
           None \<Rightarrow>
             (let (new, i1) = new_node (drop offset toks) toks node i in (new, attach node new i1))
         | Some child \<Rightarrow>
             (let edge = rn_edge (rx_nodes i child); common = common_prefix_len edge (drop offset toks)
              in if common = length edge then radix_insert_loop toks fuel child (offset + common) i
                 else
                   (let (split, i1) = split_child node child offset common toks i
                    in if offset + common = length toks then (split, i1)
                       else
                         (let (new, i2) = new_node (drop (offset + common) toks) toks split i1
                          in (new, attach split new i2))))))"

definition radix_insert :: "token list \<Rightarrow> radix_index \<Rightarrow> nat \<times> radix_index" where
  "radix_insert toks i = radix_insert_loop toks (Suc (length toks)) (rx_root i) 0 i"

subsection \<open>Walking and eviction\<close>

text \<open>\<open>pending.pop()\<close> takes the last element; the children are appended in dictionary order.\<close>

fun radix_walk_loop :: "radix_index \<Rightarrow> nat \<Rightarrow> nat list \<Rightarrow> nat list" where
  "radix_walk_loop i 0 pending = []"
| "radix_walk_loop i (Suc fuel) pending =
     (if pending = [] then []
      else
        (let node = last pending
         in node # radix_walk_loop i fuel (butlast pending @ dict_values (rn_children (rx_nodes i node)))))"

definition walk_nodes :: "radix_index \<Rightarrow> nat list" where
  "walk_nodes i = radix_walk_loop i (rx_next i) (dict_values (rn_children (rx_nodes i (rx_root i))))"

definition radix_entries :: "radix_index \<Rightarrow> nat list" where
  "radix_entries i = filter (\<lambda>a. rn_handle (rx_nodes i a) \<noteq> None) (walk_nodes i)"

definition radix_stored_bytes :: "radix_index \<Rightarrow> nat" where
  "radix_stored_bytes i = sum_list (map (\<lambda>a. rn_bytes (rx_nodes i a)) (walk_nodes i))"

definition radix_over_limits :: "radix_index \<Rightarrow> bool" where
  "radix_over_limits i \<longleftrightarrow>
     rx_max_entries i < length (radix_entries i) \<or> rx_max_bytes i < radix_stored_bytes i"

definition radix_candidates :: "radix_index \<Rightarrow> nat list" where
  "radix_candidates i = filter (\<lambda>a. rn_handle (rx_nodes i a) \<noteq> None \<and> rn_pins (rx_nodes i a) = 0 \<and>
     rn_children (rx_nodes i a) = []) (walk_nodes i)"

fun prune_ancestors :: "nat \<Rightarrow> nat \<Rightarrow> radix_index \<Rightarrow> radix_index" where
  "prune_ancestors 0 node i = i"
| "prune_ancestors (Suc fuel) node i =
     (let n = rx_nodes i node
      in case rn_parent n of
           None \<Rightarrow> i
         | Some parent \<Rightarrow>
             if rn_handle n = None \<and> rn_children n = [] \<and> rn_pins n = 0 then
               prune_ancestors fuel parent
                 (upd_node parent (\<lambda>m. m\<lparr>rn_children := AList.delete (hd (rn_edge n)) (rn_children m)\<rparr>) i)
             else i)"

fun radix_evict :: "'s kv_ops \<Rightarrow> nat \<Rightarrow> radix_index \<Rightarrow> 's \<Rightarrow> (exn + unit) \<times> radix_index \<times> 's" where
  "radix_evict ops 0 i s = (Inr (), i, s)"
| "radix_evict ops (Suc fuel) i s =
     (if \<not> radix_over_limits i then (Inr (), i, s)
      else
        (case min_by (\<lambda>a. (rn_last_used (rx_nodes i a), - int (rn_pages (rx_nodes i a)))) (radix_candidates i) of
           None \<Rightarrow> (Inr (), i, s)
         | Some victim \<Rightarrow>
             (case op_release ops (rn_handle (rx_nodes i victim)) s of
                (Inl e, s1) \<Rightarrow> (Inl e, i, s1)
              | (Inr _, s1) \<Rightarrow>
                  (let i1 = upd_node victim (\<lambda>n. n\<lparr>rn_handle := None, rn_length := 0, rn_pages := 0, rn_bytes := 0\<rparr>) i;
                       i2 = i1\<lparr>rx_evictions := Suc (rx_evictions i1), rx_metrics_dirty := True\<rparr>
                   in radix_evict ops fuel
                        (prune_ancestors (Suc (length (rn_prefix (rx_nodes i2 victim)))) victim i2) s1))))"

definition radix_evict_within :: "'s kv_ops \<Rightarrow> radix_index \<Rightarrow> 's \<Rightarrow> (exn + unit) \<times> radix_index \<times> 's" where
  "radix_evict_within ops i s = radix_evict ops (length (radix_entries i)) i s"

subsection \<open>Operations\<close>

definition radix_probe :: "token list \<Rightarrow> radix_index \<Rightarrow> prefix_probe \<times> radix_index" where
  "radix_probe toks i =
     (let (match, i1) = radix_lookup False toks (i\<lparr>rx_queries := Suc (rx_queries i)\<rparr>)
      in case match of
           None \<Rightarrow> (no_probe, i1\<lparr>rx_misses := Suc (rx_misses i1), rx_metrics_dirty := True\<rparr>)
         | Some a \<Rightarrow>
             (let n = rx_nodes i1 a
              in (\<lparr>pp_matched_tokens = rn_length n, pp_matched_pages = rn_pages n, pp_cache_handle = rn_handle n\<rparr>,
                  i1\<lparr>rx_hits := Suc (rx_hits i1), rx_metrics_dirty := True\<rparr>)))"

definition radix_acquire ::
  "'s kv_ops \<Rightarrow> string \<Rightarrow> token list \<Rightarrow> prefix_probe \<Rightarrow> radix_index \<Rightarrow> 's \<Rightarrow>
     (exn + cache_admission option) \<times> radix_index \<times> 's" where
  "radix_acquire ops rid toks probe i s =
     (if pp_cache_handle probe = None \<or> pp_matched_tokens probe = 0 then (Inr None, i, s)
      else
        (case radix_lookup True toks i of
           (None, i1) \<Rightarrow> (Inr None, i1, s)
         | (Some a, i1) \<Rightarrow>
             if rn_handle (rx_nodes i1 a) \<noteq> pp_cache_handle probe then (Inr None, i1, s)
             else
               (let i2 = upd_node a (\<lambda>n. n\<lparr>rn_pins := Suc (rn_pins n)\<rparr>) i1; n = rx_nodes i2 a
                in case op_fork ops (the (rn_handle n)) rid (Some (int (rn_length n))) s of
                     (Inl x, s1) \<Rightarrow> (Inl x, i2, s1)
                   | (Inr child, s1) \<Rightarrow>
                       (Inr (Some \<lparr>ca_cache_handle = child, ca_cache_length = rn_length n,
                                   ca_reused_tokens = rn_length n, ca_reused_pages = rn_pages n\<rparr>),
                        i2\<lparr>rx_active := AList.update child a (rx_active i2),
                           rx_published := AList.update child (rn_length n) (rx_published i2),
                           rx_reused_tokens := rx_reused_tokens i2 + rn_length n,
                           rx_reused_pages := rx_reused_pages i2 + rn_pages n,
                           rx_metrics_dirty := True\<rparr>, s1))))"

definition radix_snapshot_id :: "radix_index \<Rightarrow> token list \<Rightarrow> string" where
  "radix_snapshot_id i toks = ''prefix-radix-'' @ take 16 (rx_sha i (json_object
     [(''compatibility'', json_string (fp_digest (rx_sha i) (rx_compat i))), (''tokens'', json_ints toks)]))"

fun radix_publish_loop ::
  "'s kv_ops \<Rightarrow> handle \<Rightarrow> token list \<Rightarrow> nat list \<Rightarrow> nat \<Rightarrow> radix_index \<Rightarrow> 's \<Rightarrow>
     (exn + nat) \<times> radix_index \<times> 's" where
  "radix_publish_loop ops h toks [] published i s = (Inr published, i, s)"
| "radix_publish_loop ops h toks (len # lens) published i s =
     (if publishable_pages ops (rx_page_size i) (rx_max_entries i) (rx_max_bytes i) s < len div rx_page_size i
      then (Inr published, i, s)
      else
        (let (a, i1) = radix_insert (take len toks) i;
             (res, i2, s1) =
               (if rn_handle (rx_nodes i1 a) = None then
                  (case op_fork ops h (radix_snapshot_id i1 (take len toks)) (Some (int len)) s of
                     (Inl e, s1) \<Rightarrow> (Inl e, i1, s1)
                   | (Inr snapshot, s1) \<Rightarrow>
                       (Inr (), upd_node a (\<lambda>n. n\<lparr>rn_handle := Some snapshot, rn_length := len,
                            rn_pages := len div rx_page_size i1,
                            rn_bytes := bytes_for_pages ops (rx_page_size i1) s1 1\<rparr>) i1, s1))
                else (Inr (), i1, s))
         in case res of
              Inl e \<Rightarrow> (Inl e, i2, s1)
            | Inr _ \<Rightarrow>
                (let (t, i3) = radix_tick i2
                 in radix_publish_loop ops h toks lens len
                      (upd_node a (rn_last_used_update (\<lambda>_. t)) i3) s1)))"

definition radix_publish ::
  "'s kv_ops \<Rightarrow> handle \<Rightarrow> token list \<Rightarrow> nat \<Rightarrow> radix_index \<Rightarrow> 's \<Rightarrow>
     (exn + cache_publication) \<times> radix_index \<times> 's" where
  "radix_publish ops h toks committed i s =
     (let publish_length = min committed (length toks) div rx_page_size i * rx_page_size i
      in if publish_length = 0 then (Inr no_publication, i, s)
         else
           (let previous = (case map_of (rx_published i) h of None \<Rightarrow> 0 | Some n \<Rightarrow> n)
            in if publish_length \<le> previous then (Inr no_publication, i, s)
               else
                 (let start = (previous div rx_page_size i + 1) * rx_page_size i
                  in case radix_publish_loop ops h toks
                            (range_step start (publish_length + 1) (rx_page_size i)) 0 i s of
                       (Inl e, i1, s1) \<Rightarrow> (Inl e, i1, s1)
                     | (Inr published, i1, s1) \<Rightarrow>
                         (case radix_evict_within ops i1 s1 of
                            (Inl e, i2, s2) \<Rightarrow> (Inl e, i2, s2)
                          | (Inr _, i2, s2) \<Rightarrow>
                              (Inr \<lparr>cp_published_tokens = published,
                                    cp_published_pages = published div rx_page_size i2\<rparr>,
                               i2\<lparr>rx_published := (if published \<noteq> 0 then AList.update h published (rx_published i2)
                                                   else rx_published i2),
                                  rx_metrics_dirty := True\<rparr>, s2)))))"

definition radix_release ::
  "'s kv_ops \<Rightarrow> handle option \<Rightarrow> radix_index \<Rightarrow> 's \<Rightarrow> (exn + unit) \<times> radix_index \<times> 's" where
  "radix_release ops ho i s =
     (case ho of
        None \<Rightarrow> (Inr (), i, s)
      | Some h \<Rightarrow>
          (let i1 = i\<lparr>rx_published := AList.delete h (rx_published i)\<rparr>
           in case map_of (rx_active i1) h of
                None \<Rightarrow> (Inr (), i1, s)
              | Some a \<Rightarrow>
                  (case radix_evict_within ops
                          (upd_node a (\<lambda>n. n\<lparr>rn_pins := rn_pins n - 1\<rparr>)
                            (i1\<lparr>rx_active := AList.delete h (rx_active i1)\<rparr>)) s of
                     (Inl e, i2, s2) \<Rightarrow> (Inl e, i2, s2)
                   | (Inr _, i2, s2) \<Rightarrow> (Inr (), i2\<lparr>rx_metrics_dirty := True\<rparr>, s2))))"

definition fresh_radix_metrics :: "radix_index \<Rightarrow> radix_metrics_view" where
  "fresh_radix_metrics i =
     (let nodes = walk_nodes i; node = rx_nodes i;
          entries = filter (\<lambda>a. rn_handle (node a) \<noteq> None) nodes;
          leaves = filter (\<lambda>a. rn_children (node a) = []) entries;
          pages = (\<lambda>as. sum_list (map (\<lambda>a. rn_pages (node a)) as))
      in \<lparr>rm_base = \<lparr>im_strategy = ''radix'', im_queries = rx_queries i, im_hits = rx_hits i,
            im_misses = rx_misses i, im_reused_tokens = rx_reused_tokens i,
            im_reused_pages = rx_reused_pages i, im_entries = length entries,
            im_bytes = sum_list (map (\<lambda>a. rn_bytes (node a)) entries),
            im_pinned_pages = pages (filter (\<lambda>a. rn_pins (node a) \<noteq> 0) entries),
            im_collisions = 0, im_evictions = rx_evictions i\<rparr>,
          rm_nodes = length nodes, rm_splits = rx_splits i,
          rm_shared_pages = pages (filter (\<lambda>a. rn_children (node a) \<noteq> []) entries),
          rm_protected_pages = pages (filter (\<lambda>a. rn_pins (node a) \<noteq> 0) entries),
          rm_evictable_pages = pages (filter (\<lambda>a. rn_pins (node a) = 0) leaves),
          rm_tree_depth = (if nodes = [] then 0 else Max (set (map (\<lambda>a. length (rn_prefix (node a))) nodes))),
          rm_leaf_evictions = rx_evictions i\<rparr>)"

definition radix_metrics :: "radix_index \<Rightarrow> radix_metrics_view option \<times> radix_index" where
  "radix_metrics i =
     (if \<not> rx_metrics_dirty i then (rx_metrics_cache i, i)
      else
        (let m = fresh_radix_metrics i
         in (Some m, i\<lparr>rx_metrics_cache := Some m, rx_metrics_dirty := False\<rparr>)))"

definition radix_reset ::
  "'s kv_ops \<Rightarrow> bool \<Rightarrow> bool \<Rightarrow> radix_index \<Rightarrow> 's \<Rightarrow> (exn + unit) \<times> radix_index \<times> 's" where
  "radix_reset ops clear_cache reset_counters i s =
     (if rx_active i \<noteq> [] then
        (Inl (RuntimeError ''cannot reset prefix cache while entries are pinned''), i, s)
      else
        (let (res, s1) = (if clear_cache
               then release_all ops (map (\<lambda>a. the (rn_handle (rx_nodes i a))) (radix_entries i)) s
               else (Inr (), s));
             i1 = (if clear_cache then
                     i\<lparr>rx_nodes := (rx_nodes i)(rx_next i := empty_node), rx_root := rx_next i,
                       rx_next := Suc (rx_next i), rx_published := []\<rparr>
                   else i);
             i2 = (if reset_counters then
                     i1\<lparr>rx_queries := 0, rx_hits := 0, rx_misses := 0, rx_reused_tokens := 0,
                        rx_reused_pages := 0, rx_splits := 0, rx_evictions := 0\<rparr> else i1)
         in case res of
              Inl e \<Rightarrow> (Inl e, i, s1)
            | Inr _ \<Rightarrow> (Inr (), i2\<lparr>rx_metrics_dirty := True\<rparr>, s1)))"

end
