(* ===== verification/RadixTree.thy ===== *)
theory RadixTree
  imports RadixIndex
begin

text \<open>
  The shape of the radix tree: every node but the root hangs below its parent under the first
  token of its edge, and carries the tokens on the path from the root.  Adding a leaf, splitting
  an edge and removing a leaf keep the shape; descents find exactly the nodes whose tokens are a
  prefix of the query.
\<close>

subsection \<open>Shape\<close>

definition child_ok :: "(nat \<Rightarrow> radix_node) \<Rightarrow> nat set \<Rightarrow> nat \<Rightarrow> token \<Rightarrow> nat \<Rightarrow> bool" where
  "child_ok N A a t b \<longleftrightarrow> b \<in> A \<and> rn_parent (N b) = Some a \<and> rn_edge (N b) \<noteq> [] \<and>
     hd (rn_edge (N b)) = t \<and> rn_prefix (N b) = rn_prefix (N a) @ rn_edge (N b)"

definition tree_wf :: "nat \<Rightarrow> (nat \<Rightarrow> radix_node) \<Rightarrow> nat set \<Rightarrow> bool" where
  "tree_wf r N A \<longleftrightarrow> finite A \<and> r \<in> A \<and> rn_prefix (N r) = [] \<and> rn_parent (N r) = None \<and>
     (\<forall>a \<in> A. dict_ok (rn_children (N a))) \<and>
     (\<forall>a \<in> A. \<forall>t b. map_of (rn_children (N a)) t = Some b \<longrightarrow> child_ok N A a t b) \<and>
     (\<forall>b \<in> A. b \<noteq> r \<longrightarrow> (\<exists>a \<in> A. map_of (rn_children (N a)) (hd (rn_edge (N b))) = Some b))"

lemma tree_wfD:
  assumes "tree_wf r N A"
  shows "finite A" "r \<in> A" "rn_prefix (N r) = []" "rn_parent (N r) = None"
    "\<And>a. a \<in> A \<Longrightarrow> dict_ok (rn_children (N a))"
    "\<And>a t b. a \<in> A \<Longrightarrow> map_of (rn_children (N a)) t = Some b \<Longrightarrow> child_ok N A a t b"
    "\<And>b. b \<in> A \<Longrightarrow> b \<noteq> r \<Longrightarrow> \<exists>a \<in> A. map_of (rn_children (N a)) (hd (rn_edge (N b))) = Some b"
  using assms unfolding tree_wf_def by blast+

lemma tree_wfI:
  assumes "finite A" "r \<in> A" "rn_prefix (N r) = []" "rn_parent (N r) = None"
    "\<And>a. a \<in> A \<Longrightarrow> dict_ok (rn_children (N a))"
    "\<And>a t b. a \<in> A \<Longrightarrow> map_of (rn_children (N a)) t = Some b \<Longrightarrow> child_ok N A a t b"
    "\<And>b. b \<in> A \<Longrightarrow> b \<noteq> r \<Longrightarrow> \<exists>a \<in> A. map_of (rn_children (N a)) (hd (rn_edge (N b))) = Some b"
  shows "tree_wf r N A"
  using assms unfolding tree_wf_def by blast

text \<open>The fields that make the shape.\<close>

definition same_shape :: "radix_node \<Rightarrow> radix_node \<Rightarrow> bool" where
  "same_shape m n \<longleftrightarrow> rn_edge m = rn_edge n \<and> rn_prefix m = rn_prefix n \<and> rn_parent m = rn_parent n \<and>
     rn_children m = rn_children n"

lemma tree_wf_cong:
  assumes "tree_wf r N A" "\<And>a. a \<in> A \<Longrightarrow> same_shape (N' a) (N a)"
  shows "tree_wf r N' A"
proof (rule tree_wfI)
  note w = tree_wfD [OF assms(1)]
  have s: "rn_edge (N' a) = rn_edge (N a)" "rn_prefix (N' a) = rn_prefix (N a)" "rn_parent (N' a) = rn_parent (N a)"
    "rn_children (N' a) = rn_children (N a)" if "a \<in> A" for a
    using assms(2) [OF that] by (simp_all add: same_shape_def)
  show "child_ok N' A a t b" if "a \<in> A" "map_of (rn_children (N' a)) t = Some b" for a t b
    using w(6) [of a t b] that s by (simp add: child_ok_def)
  show "\<exists>a \<in> A. map_of (rn_children (N' a)) (hd (rn_edge (N' b))) = Some b" if "b \<in> A" "b \<noteq> r" for b
    using w(7) [OF that] s that by auto
qed (use tree_wfD [OF assms(1)] assms(2) in \<open>auto simp: same_shape_def\<close>)

text \<open>The parent found by the last field is the recorded one.\<close>

lemma parent_child:
  assumes "tree_wf r N A" "b \<in> A" "rn_parent (N b) = Some a"
  shows "a \<in> A" "map_of (rn_children (N a)) (hd (rn_edge (N b))) = Some b" "b \<noteq> r" "rn_edge (N b) \<noteq> []"
    "rn_prefix (N b) = rn_prefix (N a) @ rn_edge (N b)"
proof -
  note w = tree_wfD [OF assms(1)]
  show ne: "b \<noteq> r" using assms(3) w(4) by auto
  obtain a' where a': "a' \<in> A" "map_of (rn_children (N a')) (hd (rn_edge (N b))) = Some b"
    using w(7) [OF assms(2) ne] by blast
  then have "child_ok N A a' (hd (rn_edge (N b))) b" using w(6) by blast
  then have "a' = a" "rn_edge (N b) \<noteq> []" "rn_prefix (N b) = rn_prefix (N a') @ rn_edge (N b)"
    using assms(3) by (simp_all add: child_ok_def)
  then show "a \<in> A" "map_of (rn_children (N a)) (hd (rn_edge (N b))) = Some b" "rn_edge (N b) \<noteq> []"
    "rn_prefix (N b) = rn_prefix (N a) @ rn_edge (N b)"
    using a' by simp_all
qed

lemma has_parent:
  assumes "tree_wf r N A" "b \<in> A" "b \<noteq> r"
  obtains a where "a \<in> A" "rn_parent (N b) = Some a"
  using tree_wfD(6,7) [OF assms(1)] assms(2,3) that by (metis child_ok_def)

subsection \<open>Adding a leaf\<close>

lemma tree_add_leaf:
  assumes wf: "tree_wf r N A" and a: "a \<in> A" and n: "n \<notin> A"
    and x: "rn_edge x = e" "e \<noteq> []" "rn_prefix x = rn_prefix (N a) @ e" "rn_parent x = Some a" "rn_children x = []"
    and free: "map_of (rn_children (N a)) (hd e) = None"
  shows "tree_wf r ((N(n := x))(a := (N a)\<lparr>rn_children := AList.update (hd e) n (rn_children (N a))\<rparr>)) (insert n A)"
    (is "tree_wf r ?N ?A")
proof (rule tree_wfI)
  note w = tree_wfD [OF wf]
  have na: "n \<noteq> a" using a n by auto
  have get: "map_of (rn_children (?N b)) t = (if b = a \<and> t = hd e then Some n
      else if b = n then None else map_of (rn_children (N b)) t)" for b t
    using na x(5) by (auto simp: dict_simps)
  have keep: "rn_edge (?N b) = rn_edge (N b)" "rn_prefix (?N b) = rn_prefix (N b)" "rn_parent (?N b) = rn_parent (N b)"
    if "b \<in> A" for b using that n by auto
  have at_n: "?N n = x" using na by simp
  show "child_ok ?N ?A b t c" if b: "b \<in> ?A" "map_of (rn_children (?N b)) t = Some c" for b t c
  proof (cases "b = a \<and> t = hd e")
    case True
    then have "c = n" using b(2) unfolding get by simp
    then show ?thesis using True x na at_n keep(2) [OF a] by (simp add: child_ok_def)
  next
    case False
    then have bn: "b \<noteq> n" and c: "map_of (rn_children (N b)) t = Some c"
      using b(2) unfolding get by (metis option.distinct(1))+
    then have bA: "b \<in> A" using b(1) by simp
    from w(6) [OF bA c] have "child_ok N A b t c" .
    then show ?thesis using keep [of c] keep(2) [OF bA] by (simp add: child_ok_def)
  qed
  show "\<exists>b \<in> ?A. map_of (rn_children (?N b)) (hd (rn_edge (?N c))) = Some c" if c: "c \<in> ?A" "c \<noteq> r" for c
  proof (cases "c = n")
    case True
    then have "map_of (rn_children (?N a)) (hd (rn_edge (?N c))) = Some c" using at_n x(1) unfolding get by simp
    then show ?thesis using a by blast
  next
    case False
    then have cA: "c \<in> A" using c(1) by simp
    obtain b where b: "b \<in> A" "map_of (rn_children (N b)) (hd (rn_edge (N c))) = Some c" using w(7) [OF cA c(2)] by blast
    then have "\<not> (b = a \<and> hd (rn_edge (N c)) = hd e)" using free by auto
    then have "map_of (rn_children (?N b)) (hd (rn_edge (?N c))) = Some c"
      using b n keep(1) [OF cA] unfolding get by auto
    then show ?thesis using b(1) by blast
  qed
  show "dict_ok (rn_children (?N b))" if "b \<in> ?A" for b
    using that w(5) a x(5) by auto
qed (use tree_wfD [OF wf] a n in auto)

subsection \<open>Splitting an edge\<close>

lemma tree_split:
  assumes wf: "tree_wf r N A" and a: "a \<in> A" and n: "n \<notin> A"
    and c: "map_of (rn_children (N a)) t = Some c" and k: "0 < k" "k < length (rn_edge (N c))"
    and x: "rn_edge x = take k (rn_edge (N c))" "rn_prefix x = rn_prefix (N a) @ take k (rn_edge (N c))"
      "rn_parent x = Some a" "rn_children x = [(hd (drop k (rn_edge (N c))), c)]"
  shows "tree_wf r ((N(n := x))(a := (N a)\<lparr>rn_children := AList.update t n (rn_children (N a))\<rparr>,
      c := (N c)\<lparr>rn_edge := drop k (rn_edge (N c)), rn_parent := Some n\<rparr>)) (insert n A)"
    (is "tree_wf r ?N ?A")
proof (rule tree_wfI)
  note w = tree_wfD [OF wf]
  have co: "c \<in> A" "rn_parent (N c) = Some a" "rn_edge (N c) \<noteq> []" "hd (rn_edge (N c)) = t"
    "rn_prefix (N c) = rn_prefix (N a) @ rn_edge (N c)"
    using w(6) [OF a c] by (simp_all add: child_ok_def)
  have ca: "c \<noteq> a"
  proof
    assume "c = a"
    with co(5) have "rn_edge (N c) = []" by simp
    with co(3) show False ..
  qed
  have na: "n \<noteq> a" "n \<noteq> c" using a n co(1) by auto
  have hdx: "hd (rn_edge x) = t" using co(3,4) k by (cases "rn_edge (N c)") (simp_all add: x take_Cons')
  have get: "map_of (rn_children (?N b)) u = (if b = a \<and> u = t then Some n
      else if b = n then (if u = hd (drop k (rn_edge (N c))) then Some c else None)
      else map_of (rn_children (N b)) u)" for b u
    using na ca x(4) by (auto simp: dict_simps)
  have at: "?N n = x" "rn_edge (?N c) = drop k (rn_edge (N c))" "rn_parent (?N c) = Some n"
    "rn_prefix (?N c) = rn_prefix (N c)"
    using na by simp_all
  have keep: "rn_prefix (?N b) = rn_prefix (N b)" "b \<noteq> c \<Longrightarrow> rn_edge (?N b) = rn_edge (N b)"
    "b \<noteq> c \<Longrightarrow> rn_parent (?N b) = rn_parent (N b)"
    if "b \<in> A" for b using that n na ca by auto
  show "child_ok ?N ?A b u d" if b: "b \<in> ?A" "map_of (rn_children (?N b)) u = Some d" for b u d
  proof -
    consider (split) "b = a" "u = t" "d = n" | (child) "b = n" "u = hd (drop k (rn_edge (N c)))" "d = c"
      | (other) "b \<noteq> n" "\<not> (b = a \<and> u = t)" "map_of (rn_children (N b)) u = Some d"
      using b(2) unfolding get by (auto split: if_splits)
    then show ?thesis
    proof cases
      case split
      have "rn_edge x \<noteq> []" using co(3) k by (simp add: x)
      then show ?thesis using split at(1) x hdx keep(1) [OF a] by (simp add: child_ok_def)
    next
      case child
      then show ?thesis using at x co k by (simp add: child_ok_def)
    next
      case other
      then have bA: "b \<in> A" using b(1) by simp
      have d: "child_ok N A b u d" using w(6) [OF bA other(3)] .
      have "d \<noteq> c"
      proof
        assume "d = c"
        then have "b = a" "u = t" using d co by (simp_all add: child_ok_def)
        then show False using other(2) by simp
      qed
      then show ?thesis using d keep [of d] keep(1) [OF bA] by (simp add: child_ok_def)
    qed
  qed
  show "\<exists>b \<in> ?A. map_of (rn_children (?N b)) (hd (rn_edge (?N d))) = Some d" if d: "d \<in> ?A" "d \<noteq> r" for d
  proof -
    consider "d = n" | "d = c" | "d \<in> A" "d \<noteq> c" using d(1) by blast
    then show ?thesis
    proof cases
      case 1
      then have "map_of (rn_children (?N a)) (hd (rn_edge (?N d))) = Some d" using at(1) hdx unfolding get by simp
      then show ?thesis using a by blast
    next
      case 2
      then have "map_of (rn_children (?N n)) (hd (rn_edge (?N d))) = Some d" using at(2) na unfolding get by simp
      then show ?thesis by blast
    next
      case 3
      obtain b where b: "b \<in> A" "map_of (rn_children (N b)) (hd (rn_edge (N d))) = Some d"
        using w(7) [OF 3(1) d(2)] by blast
      have "\<not> (b = a \<and> hd (rn_edge (N d)) = t)" using b(2) c 3(2) by auto
      then have "map_of (rn_children (?N b)) (hd (rn_edge (?N d))) = Some d"
        using b n keep(2) [OF 3] unfolding get by auto
      then show ?thesis using b(1) by blast
    qed
  qed
  show "dict_ok (rn_children (?N b))" if "b \<in> ?A" for b
    using that w(5) a co(1) x(4) by auto
  show "rn_parent (?N r) = None"
  proof -
    have "r \<noteq> c" using co(2) w(4) by auto
    then show ?thesis using keep(3) [OF w(2)] w(4) by simp
  qed
qed (use tree_wfD [OF wf] a n in auto)

subsection \<open>Removing a leaf\<close>

lemma tree_remove:
  assumes wf: "tree_wf r N A" and c: "c \<in> A" "rn_parent (N c) = Some a" "rn_children (N c) = []"
  shows "tree_wf r (N(a := (N a)\<lparr>rn_children := AList.delete (hd (rn_edge (N c))) (rn_children (N a))\<rparr>)) (A - {c})"
    (is "tree_wf r ?N ?A")
proof (rule tree_wfI)
  note w = tree_wfD [OF wf] and p = parent_child [OF wf c(1,2)]
  have ca: "c \<noteq> a"
  proof
    assume "c = a"
    with p(4,5) show False by simp
  qed
  have get: "map_of (rn_children (?N b)) u = (if b = a \<and> u = hd (rn_edge (N c)) then None
      else map_of (rn_children (N b)) u)" for b u
    by (simp add: dict_simps)
  have keep: "rn_prefix (?N b) = rn_prefix (N b)" "rn_edge (?N b) = rn_edge (N b)" "rn_parent (?N b) = rn_parent (N b)" for b
    by simp_all
  show "child_ok ?N ?A b u d" if b: "b \<in> ?A" "map_of (rn_children (?N b)) u = Some d" for b u d
  proof -
    have old: "map_of (rn_children (N b)) u = Some d" "\<not> (b = a \<and> u = hd (rn_edge (N c)))"
      using b(2) unfolding get by (auto split: if_splits)
    have "child_ok N A b u d" using w(6) old(1) b(1) by blast
    moreover have "d \<noteq> c"
    proof
      assume "d = c"
      then have "b = a" "u = hd (rn_edge (N c))" using \<open>child_ok N A b u d\<close> c(2) by (simp_all add: child_ok_def)
      then show False using old(2) by simp
    qed
    ultimately show ?thesis unfolding child_ok_def keep by simp
  qed
  show "\<exists>b \<in> ?A. map_of (rn_children (?N b)) (hd (rn_edge (?N d))) = Some d" if d: "d \<in> ?A" "d \<noteq> r" for d
  proof -
    obtain b where b: "b \<in> A" "map_of (rn_children (N b)) (hd (rn_edge (N d))) = Some d" using w(7) d by blast
    have "b \<noteq> c" using b(2) c(3) by auto
    moreover have "\<not> (b = a \<and> hd (rn_edge (N d)) = hd (rn_edge (N c)))" using b(2) p(2) d(1) by auto
    ultimately have "map_of (rn_children (?N b)) (hd (rn_edge (?N d))) = Some d" "b \<in> ?A"
      using b unfolding get keep by auto
    then show ?thesis by blast
  qed
  show "dict_ok (rn_children (?N b))" if "b \<in> ?A" for b using that w(5) p(1) by auto
  show "r \<in> ?A" using w(2) p(3) by blast
qed (use tree_wfD [OF wf] in auto)

subsection \<open>Common prefixes\<close>

lemma common_prefix_len_spec:
  "common_prefix_len xs ys \<le> length xs" "common_prefix_len xs ys \<le> length ys"
  "take (common_prefix_len xs ys) xs = take (common_prefix_len xs ys) ys"
  by (induction xs ys rule: common_prefix_len.induct) auto

lemma common_prefix_len_pos:
  "xs \<noteq> [] \<Longrightarrow> ys \<noteq> [] \<Longrightarrow> hd xs = hd ys \<Longrightarrow> 0 < common_prefix_len xs ys"
  by (cases xs; cases ys) auto

lemma common_prefix_len_stop:
  "common_prefix_len xs ys < length xs \<Longrightarrow> common_prefix_len xs ys < length ys \<Longrightarrow>
   xs ! common_prefix_len xs ys \<noteq> ys ! common_prefix_len xs ys"
  by (induction xs ys rule: common_prefix_len.induct) auto

lemma common_loop_spec:
  "\<exists>m \<le> n. common_loop l r off n k = k + m \<and> (\<forall>j < m. l ! (k + j) = r ! (off + k + j))"
proof (induction n arbitrary: k)
  case (Suc n)
  show ?case
  proof (cases "l ! k = r ! (off + k)")
    case True
    obtain m where m: "m \<le> n" "common_loop l r off n (Suc k) = Suc k + m"
      "\<forall>j < m. l ! (Suc k + j) = r ! (off + Suc k + j)" using Suc by blast
    have "l ! (k + j) = r ! (off + k + j)" if "j < Suc m" for j
      using True m(3) that by (cases j) auto
    then show ?thesis using True m(1,2) by (intro exI [of _ "Suc m"]) auto
  qed auto
qed auto

lemma common_prefix_len_at_full:
  assumes "\<not> common_prefix_len_at edge toks offset limit < length edge" "limit \<le> length toks" "offset \<le> limit"
  shows "common_prefix_len_at edge toks offset limit = length edge" "offset + length edge \<le> limit"
    "edge = take (length edge) (drop offset toks)"
proof -
  obtain m where m: "m \<le> min (length edge) (limit - offset)"
    "common_prefix_len_at edge toks offset limit = m" "\<forall>j < m. edge ! j = toks ! (offset + j)"
    using common_loop_spec [of "min (length edge) (limit - offset)" edge toks offset 0]
    by (auto simp: common_prefix_len_at_def)
  then have len: "m = length edge" using assms(1) by simp
  then show "common_prefix_len_at edge toks offset limit = length edge" "offset + length edge \<le> limit"
    using m assms(3) by simp_all
  then show "edge = take (length edge) (drop offset toks)"
    using m(3) len assms(2) by (intro nth_equalityI) auto
qed

subsection \<open>Descending\<close>

definition found :: "nat set \<Rightarrow> radix_index \<Rightarrow> token list \<Rightarrow> nat \<Rightarrow> nat \<Rightarrow> bool" where
  "found A i toks limit b \<longleftrightarrow> b \<in> A \<and> prefix (rn_prefix (rx_nodes i b)) toks \<and>
     length (rn_prefix (rx_nodes i b)) \<le> limit \<and> rn_handle (rx_nodes i b) \<noteq> None"

lemma radix_descend_found:
  assumes wf: "tree_wf r (rx_nodes i) A" and lim: "limit \<le> length toks"
  shows "node \<in> A \<Longrightarrow> offset \<le> limit \<Longrightarrow> rn_prefix (rx_nodes i node) = take offset toks \<Longrightarrow>
    (\<And>b. best = Some b \<Longrightarrow> found A i toks limit b) \<Longrightarrow>
    radix_descend i toks limit fuel node offset best = Some a \<Longrightarrow> found A i toks limit a"
proof (induction fuel arbitrary: node offset best)
  case (Suc fuel)
  show ?case
  proof (cases "offset < limit \<and> map_of (rn_children (rx_nodes i node)) (toks ! offset) \<noteq> None")
    case False
    then show ?thesis using Suc.prems by (auto split: option.splits if_splits)
  next
    case True
    then obtain child where c: "map_of (rn_children (rx_nodes i node)) (toks ! offset) = Some child" by blast
    let ?edge = "rn_edge (rx_nodes i child)"
    let ?common = "common_prefix_len_at ?edge toks offset limit"
    let ?best = "if rn_handle (rx_nodes i child) \<noteq> None \<and> rn_length (rx_nodes i child) \<le> limit then Some child else best"
    show ?thesis
    proof (cases "?common < length ?edge")
      case True
      then show ?thesis using Suc.prems c by (auto simp: Let_def split: if_splits)
    next
      case full: False
      note f = common_prefix_len_at_full [OF full lim Suc.prems(2)]
      have ok: "child_ok (rx_nodes i) A node (toks ! offset) child" using tree_wfD(6) [OF wf Suc.prems(1) c] .
      then have pfx: "rn_prefix (rx_nodes i child) = take (offset + length ?edge) toks"
        using Suc.prems(3) f(3) by (simp add: child_ok_def take_add)
      have childA: "child \<in> A" using ok by (simp add: child_ok_def)
      have "found A i toks limit b" if "?best = Some b" for b
        using that Suc.prems(4) childA pfx f(2) by (auto simp: found_def take_is_prefix split: if_splits)
      moreover have "radix_descend i toks limit fuel child (offset + ?common) ?best = Some a"
        using Suc.prems(5) c full True by (simp add: Let_def)
      ultimately show ?thesis using Suc.IH [of child "offset + ?common" ?best] childA pfx f(1,2) by simp
    qed
  qed
qed simp

subsection \<open>Inserting\<close>

text \<open>What an insertion leaves alone.\<close>

definition grown :: "nat set \<Rightarrow> radix_index \<Rightarrow> nat set \<Rightarrow> radix_index \<Rightarrow> bool" where
  "grown A i A' i' \<longleftrightarrow> A \<subseteq> A' \<and>
     (\<forall>b \<in> A. rn_prefix (rx_nodes i' b) = rn_prefix (rx_nodes i b) \<and> rn_handle (rx_nodes i' b) = rn_handle (rx_nodes i b) \<and>
        rn_length (rx_nodes i' b) = rn_length (rx_nodes i b) \<and> rn_pages (rx_nodes i' b) = rn_pages (rx_nodes i b) \<and>
        rn_pins (rx_nodes i' b) = rn_pins (rx_nodes i b)) \<and>
     (\<forall>b \<in> A' - A. rn_handle (rx_nodes i' b) = None) \<and>
     (\<exists>N n k. i' = i\<lparr>rx_nodes := N, rx_next := n, rx_splits := k\<rparr>)"

definition tree_ok :: "nat set \<Rightarrow> radix_index \<Rightarrow> bool" where
  "tree_ok A i \<longleftrightarrow> tree_wf (rx_root i) (rx_nodes i) A \<and> A \<subseteq> {..<rx_next i}"

lemma grown_refl: "grown A i A i"
proof -
  have "i = i\<lparr>rx_nodes := rx_nodes i, rx_next := rx_next i, rx_splits := rx_splits i\<rparr>" by simp
  then show ?thesis unfolding grown_def by blast
qed

lemma grown_trans: "grown A i A1 i1 \<Longrightarrow> grown A1 i1 A2 i2 \<Longrightarrow> grown A i A2 i2"
proof -
  assume a: "grown A i A1 i1" "grown A1 i1 A2 i2"
  then obtain N n k N' n' k' where "i1 = i\<lparr>rx_nodes := N, rx_next := n, rx_splits := k\<rparr>"
    "i2 = i1\<lparr>rx_nodes := N', rx_next := n', rx_splits := k'\<rparr>" unfolding grown_def by blast
  then have "i2 = i\<lparr>rx_nodes := N', rx_next := n', rx_splits := k'\<rparr>" by simp
  then have "\<exists>N n k. i2 = i\<lparr>rx_nodes := N, rx_next := n, rx_splits := k\<rparr>" by blast
  moreover have "\<forall>b \<in> A2 - A. rn_handle (rx_nodes i2 b) = None"
    using a unfolding grown_def by (metis Diff_iff)
  ultimately show ?thesis using a unfolding grown_def by (simp add: subset_iff)
qed

lemma add_leaf_ok:
  assumes ok: "tree_ok A i" and a: "a \<in> A" and e: "e \<noteq> []" "pfx = rn_prefix (rx_nodes i a) @ e"
    and free: "map_of (rn_children (rx_nodes i a)) (hd e) = None"
    and run: "new_node e pfx a i = (n, i1)"
  shows "tree_ok (insert n A) (attach a n i1)" "grown A i (insert n A) (attach a n i1)" "n \<notin> A"
    "rn_prefix (rx_nodes (attach a n i1) n) = pfx" "rn_children (rx_nodes (attach a n i1) n) = []"
proof -
  define x where "x = empty_node\<lparr>rn_edge := e, rn_prefix := pfx, rn_parent := Some a\<rparr>"
  have n: "n = rx_next i" "i1 = i\<lparr>rx_nodes := (rx_nodes i)(n := x), rx_next := Suc n\<rparr>"
    using run by (auto simp: new_node_def x_def)
  show nA: "n \<notin> A" using ok n(1) by (auto simp: tree_ok_def)
  then have na: "n \<noteq> a" using a by auto
  have i': "attach a n i1 = i\<lparr>rx_nodes := ((rx_nodes i)(n := x))(a := (rx_nodes i a)\<lparr>rn_children :=
      AList.update (hd e) n (rn_children (rx_nodes i a))\<rparr>), rx_next := Suc n\<rparr>"
    using na by (simp add: attach_def upd_node_def n(2) x_def)
  have "tree_wf (rx_root i) (rx_nodes (attach a n i1)) (insert n A)"
    unfolding i' using tree_add_leaf [OF _ a nA, of "rx_root i" "rx_nodes i" x e] ok e free
    by (simp add: tree_ok_def x_def empty_node_def)
  moreover have "insert n A \<subseteq> {..<Suc n}" using ok n(1) by (auto simp: tree_ok_def)
  ultimately show "tree_ok (insert n A) (attach a n i1)" by (simp add: tree_ok_def i')
  have "attach a n i1 = i\<lparr>rx_nodes := rx_nodes (attach a n i1), rx_next := Suc n, rx_splits := rx_splits i\<rparr>"
    by (simp add: i')
  then have ex: "\<exists>N m k. attach a n i1 = i\<lparr>rx_nodes := N, rx_next := m, rx_splits := k\<rparr>" by blast
  have "rn_handle (rx_nodes (attach a n i1) n) = None" using na by (simp add: i' x_def empty_node_def)
  then have "\<forall>b \<in> insert n A - A. rn_handle (rx_nodes (attach a n i1) b) = None" by blast
  moreover have "rn_prefix (rx_nodes (attach a n i1) b) = rn_prefix (rx_nodes i b) \<and>
      rn_handle (rx_nodes (attach a n i1) b) = rn_handle (rx_nodes i b) \<and>
      rn_length (rx_nodes (attach a n i1) b) = rn_length (rx_nodes i b) \<and>
      rn_pages (rx_nodes (attach a n i1) b) = rn_pages (rx_nodes i b) \<and>
      rn_pins (rx_nodes (attach a n i1) b) = rn_pins (rx_nodes i b)" if "b \<in> A" for b
    using that nA by (auto simp: i')
  ultimately show "grown A i (insert n A) (attach a n i1)"
    unfolding grown_def using ex by blast
  show "rn_prefix (rx_nodes (attach a n i1) n) = pfx" "rn_children (rx_nodes (attach a n i1) n) = []"
    using na by (simp_all add: i' x_def empty_node_def)
qed

lemma split_ok:
  assumes ok: "tree_ok A i" and a: "a \<in> A" and c: "map_of (rn_children (rx_nodes i a)) t = Some c"
    and k: "0 < k" "k < length (rn_edge (rx_nodes i c))"
    and pfx: "take (offset + k) toks = rn_prefix (rx_nodes i a) @ take k (rn_edge (rx_nodes i c))"
    and run: "split_child a c offset k toks i = (n, i1)"
  shows "tree_ok (insert n A) i1" "grown A i (insert n A) i1" "n \<notin> A"
    "rn_prefix (rx_nodes i1 n) = take (offset + k) toks"
    "rn_children (rx_nodes i1 n) = [(rn_edge (rx_nodes i c) ! k, c)]"
proof -
  let ?e = "rn_edge (rx_nodes i c)"
  note w = tree_wfD [OF ok [unfolded tree_ok_def, THEN conjunct1]]
  have co: "c \<in> A" "hd ?e = t" "?e \<noteq> []" "rn_prefix (rx_nodes i c) = rn_prefix (rx_nodes i a) @ ?e"
    using w(6) [OF a c] by (simp_all add: child_ok_def)
  have ca: "c \<noteq> a"
  proof
    assume "c = a"
    with co(4) have "?e = []" by simp
    with co(3) show False ..
  qed
  have n: "n = rx_next i" using run by (auto simp: split_child_def new_node_def Let_def)
  then show nA: "n \<notin> A" using ok by (auto simp: tree_ok_def)
  then have na: "n \<noteq> a" "n \<noteq> c" using a co(1) by auto
  have hdk: "hd (drop k ?e) = ?e ! k" using k(2) by (rule hd_drop_conv_nth)
  have hdt: "hd (take k ?e) = t" using k(1) co(2) by (simp add: hd_take)
  define x where "x = empty_node\<lparr>rn_edge := take k ?e, rn_prefix := take (offset + k) toks, rn_parent := Some a,
      rn_children := [(hd (drop k ?e), c)]\<rparr>"
  define N where "N = ((rx_nodes i)(n := x))(a := (rx_nodes i a)\<lparr>rn_children := AList.update t n (rn_children (rx_nodes i a))\<rparr>,
      c := (rx_nodes i c)\<lparr>rn_edge := drop k ?e, rn_parent := Some n\<rparr>)"
  define x0 where "x0 = empty_node\<lparr>rn_edge := take k ?e, rn_prefix := take (offset + k) toks, rn_parent := Some a\<rparr>"
  let ?p = "(rx_nodes i a)\<lparr>rn_children := AList.update t n (rn_children (rx_nodes i a))\<rparr>"
  let ?q = "(rx_nodes i c)\<lparr>rn_edge := drop k ?e, rn_parent := Some n\<rparr>"
  define j1 where "j1 = i\<lparr>rx_nodes := (rx_nodes i)(n := x0), rx_next := Suc n\<rparr>"
  define j2 where "j2 = j1\<lparr>rx_nodes := (rx_nodes j1)(a := ?p)\<rparr>"
  define j3 where "j3 = j2\<lparr>rx_nodes := (rx_nodes j2)(c := ?q)\<rparr>"
  define j4 where "j4 = j3\<lparr>rx_nodes := (rx_nodes j3)(n := x)\<rparr>"
  have s1: "new_node (take k ?e) (take (offset + k) toks) a i = (n, j1)"
    by (simp add: new_node_def j1_def x0_def n)
  have s2: "attach a n j1 = j2" using na hdt by (simp add: attach_def upd_node_def j2_def j1_def x0_def)
  have s3: "upd_node c (\<lambda>m. m\<lparr>rn_edge := drop k (rn_edge m), rn_parent := Some n\<rparr>) j2 = j3"
    using na ca by (simp add: upd_node_def j3_def j2_def j1_def)
  have "rx_nodes j3 n = x0" "rn_edge (rx_nodes j3 c) = drop k ?e" using na by (simp_all add: j3_def j2_def j1_def)
  then have s4: "attach n c j3 = j4"
    by (simp add: attach_def upd_node_def j4_def x0_def x_def empty_node_def)
  have "rx_nodes j4 = N" using na by (auto simp: j4_def j3_def j2_def j1_def N_def fun_eq_iff)
  then have i1: "i1 = i\<lparr>rx_nodes := N, rx_next := Suc n, rx_splits := Suc (rx_splits i)\<rparr>"
    using run unfolding split_child_def s1 Let_def case_prod_conv s2 s3 s4
    by (auto simp: j4_def j3_def j2_def j1_def)
  have "tree_wf (rx_root i) N (insert n A)"
    unfolding N_def using tree_split [OF _ a nA c k, of "rx_root i" x] ok pfx
    by (simp add: tree_ok_def x_def empty_node_def)
  moreover have "insert n A \<subseteq> {..<Suc n}" using ok n by (auto simp: tree_ok_def)
  ultimately show "tree_ok (insert n A) i1" by (simp add: tree_ok_def i1)
  have "rn_handle (N n) = None" using na by (simp add: N_def x_def empty_node_def)
  moreover have "\<exists>M m k. i1 = i\<lparr>rx_nodes := M, rx_next := m, rx_splits := k\<rparr>" using i1 by blast
  ultimately show "grown A i (insert n A) i1"
    using nA na unfolding grown_def by (auto simp: i1 N_def)
  show "rn_prefix (rx_nodes i1 n) = take (offset + k) toks"
    "rn_children (rx_nodes i1 n) = [(?e ! k, c)]"
    using na hdk by (simp_all add: i1 N_def x_def)
qed

lemma radix_insert_loop_ok:
  assumes "tree_ok A i" "node \<in> A" "offset \<le> length toks" "rn_prefix (rx_nodes i node) = take offset toks"
    "length toks - offset < fuel" "radix_insert_loop toks fuel node offset i = (a, i')"
  shows "\<exists>A'. tree_ok A' i' \<and> grown A i A' i' \<and> a \<in> A' \<and> rn_prefix (rx_nodes i' a) = toks"
  using assms
proof (induction toks fuel node offset i rule: radix_insert_loop.induct)
  case (1 toks node offset i)
  then show ?case by simp
next
  case (2 toks fuel node offset i)
  note ok = "2.prems"(1) and w = tree_wfD [OF "2.prems"(1) [unfolded tree_ok_def, THEN conjunct1]]
  show ?case
  proof (cases "offset < length toks")
    case False
    then have "a = node" "i' = i" "offset = length toks" using "2.prems" by auto
    then show ?thesis using "2.prems" grown_refl by (intro exI [of _ A]) auto
  next
    case True
    show ?thesis
    proof (cases "map_of (rn_children (rx_nodes i node)) (toks ! offset)")
      case None
      obtain n i1 where new: "new_node (drop offset toks) toks node i = (n, i1)" by (metis surj_pair)
      have out: "a = n" "i' = attach node n i1" using "2.prems"(6) True None new by auto
      have "hd (drop offset toks) = toks ! offset" using True by (rule hd_drop_conv_nth)
      then have free: "map_of (rn_children (rx_nodes i node)) (hd (drop offset toks)) = None" using None by simp
      have e: "drop offset toks \<noteq> []" "toks = rn_prefix (rx_nodes i node) @ drop offset toks"
        using True "2.prems"(4) by simp_all
      note add = add_leaf_ok [OF ok "2.prems"(2) e free new]
      then show ?thesis unfolding out by blast
    next
      case (Some child)
      let ?e = "rn_edge (rx_nodes i child)" and ?k = "common_prefix_len (rn_edge (rx_nodes i child)) (drop offset toks)"
      have co: "child \<in> A" "?e \<noteq> []" "hd ?e = toks ! offset" "rn_prefix (rx_nodes i child) = take offset toks @ ?e"
        using w(6) [OF "2.prems"(2) Some] "2.prems"(4) by (simp_all add: child_ok_def)
      note cp = common_prefix_len_spec [of ?e "drop offset toks"]
      have pos: "0 < ?k"
        using co(2,3) True by (intro common_prefix_len_pos) (simp_all add: hd_drop_conv_nth)
      have kle: "offset + ?k \<le> length toks" using cp(2) True by simp
      have pk: "take (offset + ?k) toks = take offset toks @ take ?k ?e" using cp(3) by (simp add: take_add)
      show ?thesis
      proof (cases "?k = length ?e")
        case full: True
        then have "rn_prefix (rx_nodes i child) = take (offset + ?k) toks" using pk co(4) by simp
        moreover have "radix_insert_loop toks fuel child (offset + ?k) i = (a, i')"
          using "2.prems"(6) True Some full by (simp add: Let_def)
        moreover have "length toks - (offset + ?k) < fuel" using "2.prems"(5) pos kle by simp
        ultimately show ?thesis
          using "2.IH" [OF _ Some refl refl full] True ok co(1) kle full by (metis not_less)
      next
        case part: False
        then have k: "?k < length ?e" using cp(1) by simp
        obtain sp i1 where sp: "split_child node child offset ?k toks i = (sp, i1)" by (metis surj_pair)
        have pfx: "take (offset + ?k) toks = rn_prefix (rx_nodes i node) @ take ?k ?e" using pk "2.prems"(4) by simp
        note s = split_ok [OF ok "2.prems"(2) Some pos k pfx sp]
        show ?thesis
        proof (cases "offset + ?k = length toks")
          case True
          then have "a = sp" "i' = i1" using "2.prems"(6) \<open>offset < length toks\<close> Some part sp by (simp_all add: Let_def)
          then show ?thesis using s True by (intro exI [of _ "insert sp A"]) simp
        next
          case more: False
          then have lt: "offset + ?k < length toks" using kle by simp
          obtain n i2 where new: "new_node (drop (offset + ?k) toks) toks sp i1 = (n, i2)" by (metis surj_pair)
          have out: "a = n" "i' = attach sp n i2"
            using "2.prems"(6) True Some part sp more new by (auto simp: Let_def)
          have "?e ! ?k \<noteq> toks ! (offset + ?k)"
            using common_prefix_len_stop [OF k] lt by simp
          then have free: "map_of (rn_children (rx_nodes i1 sp)) (hd (drop (offset + ?k) toks)) = None"
            using s(5) hd_drop_conv_nth [OF lt] by simp
          have e: "drop (offset + ?k) toks \<noteq> []" "toks = rn_prefix (rx_nodes i1 sp) @ drop (offset + ?k) toks"
            using lt s(4) by simp_all
          note add = add_leaf_ok [OF s(1) insertI1 e free new]
          show ?thesis unfolding out
            using add grown_trans [OF s(2) add(2)] by (intro exI [of _ "insert n (insert sp A)"]) simp
        qed
      qed
    qed
  qed
qed

lemma radix_insert_ok:
  assumes "tree_ok A i" "radix_insert toks i = (a, i')"
  shows "\<exists>A'. tree_ok A' i' \<and> grown A i A' i' \<and> a \<in> A' \<and> rn_prefix (rx_nodes i' a) = toks"
proof (rule radix_insert_loop_ok [OF assms(1)])
  note w = tree_wfD [OF assms(1) [unfolded tree_ok_def, THEN conjunct1]]
  show "rx_root i \<in> A" "rn_prefix (rx_nodes i (rx_root i)) = take 0 toks" using w by simp_all
  show "radix_insert_loop toks (Suc (length toks)) (rx_root i) 0 i = (a, i')"
    using assms(2) by (simp add: radix_insert_def)
qed simp_all

end
