(* ===== verification/RadixProps.thy ===== *)
theory RadixProps
  imports RadixTree BlockProps
begin

text \<open>
  The radix index fulfils the contract of a prefix index.  A node with a snapshot holds rows for
  exactly the tokens on its path, so whatever a descent finds can be reused for the query.
\<close>

subsection \<open>The nodes of the tree\<close>

definition attached :: "radix_index \<Rightarrow> nat set" where
  "attached i = {a. (rx_root i, a) \<in> {(x, y). y \<in> set (dict_values (rn_children (rx_nodes i x)))}\<^sup>*}"

lemma attached_tree:
  assumes "tree_wf (rx_root i) (rx_nodes i) A"
  shows "attached i = A"
proof
  note w = tree_wfD [OF assms]
  let ?R = "{(x, y). y \<in> set (dict_values (rn_children (rx_nodes i x)))}"
  have "a \<in> A" if "(rx_root i, a) \<in> ?R\<^sup>*" for a
    using that
  proof (induction rule: rtrancl_induct)
    case base
    show ?case by (rule w(2))
  next
    case (step x y)
    then obtain t where "(t, y) \<in> set (rn_children (rx_nodes i x))" by auto
    then have "map_of (rn_children (rx_nodes i x)) t = Some y" using w(5) [OF step(3)] by (simp add: dict_get_iff)
    then show ?case using w(6) [OF step(3)] by (simp add: child_ok_def)
  qed
  then show "attached i \<subseteq> A" unfolding attached_def by blast
  have "(rx_root i, b) \<in> ?R\<^sup>*" if "b \<in> A" for b
    using that
  proof (induction "length (rn_prefix (rx_nodes i b))" arbitrary: b rule: less_induct)
    case less
    show ?case
    proof (cases "b = rx_root i")
      case False
      obtain a where a: "a \<in> A" "rn_parent (rx_nodes i b) = Some a" by (rule has_parent [OF assms less(2) False])
      note p = parent_child [OF assms less(2) a(2)]
      have "(rx_root i, a) \<in> ?R\<^sup>*" using less(1) [OF _ a(1)] p(4,5) by simp
      moreover have "(a, b) \<in> ?R" using map_of_SomeD [OF p(2)] by force
      ultimately show ?thesis by (rule rtrancl_into_rtrancl)
    qed simp
  qed
  then show "A \<subseteq> attached i" unfolding attached_def by blast
qed

subsection \<open>The invariant\<close>

definition node_ok ::
  "('s \<Rightarrow> handle \<Rightarrow> 'c option) \<Rightarrow> (token list \<Rightarrow> 'c \<Rightarrow> bool) \<Rightarrow> nat \<Rightarrow> 's \<Rightarrow> radix_node \<Rightarrow> bool" where
  "node_ok view good psize s n \<longleftrightarrow>
     (\<forall>h. rn_handle n = Some h \<longrightarrow> (\<exists>c. view s h = Some c \<and> good (rn_prefix n) c) \<and>
        rn_length n = length (rn_prefix n) \<and> rn_length n = rn_pages n * psize \<and> 0 < rn_length n)"

definition radix_snaps :: "radix_index \<Rightarrow> handle set" where
  "radix_snaps i = {h. \<exists>a \<in> attached i. rn_handle (rx_nodes i a) = Some h}"

definition radix_inv_on ::
  "nat set \<Rightarrow> ('s \<Rightarrow> bool) \<Rightarrow> ('s \<Rightarrow> handle \<Rightarrow> 'c option) \<Rightarrow> (token list \<Rightarrow> 'c \<Rightarrow> bool) \<Rightarrow> radix_index \<Rightarrow> 's \<Rightarrow> bool" where
  "radix_inv_on A ok view good i s \<longleftrightarrow> ok s \<and> 0 < rx_page_size i \<and> tree_ok A i \<and>
     (\<forall>a \<in> A. node_ok view good (rx_page_size i) s (rx_nodes i a)) \<and>
     (\<forall>a \<in> A. \<forall>b \<in> A. \<forall>h. rn_handle (rx_nodes i a) = Some h \<longrightarrow> rn_handle (rx_nodes i b) = Some h \<longrightarrow> a = b)"

definition radix_inv ::
  "('s \<Rightarrow> bool) \<Rightarrow> ('s \<Rightarrow> handle \<Rightarrow> 'c option) \<Rightarrow> (token list \<Rightarrow> 'c \<Rightarrow> bool) \<Rightarrow> radix_index \<Rightarrow> 's \<Rightarrow> bool" where
  "radix_inv ok view good i s \<longleftrightarrow> radix_inv_on (attached i) ok view good i s"

lemma radix_inv_onD:
  assumes "radix_inv_on A ok view good i s"
  shows "ok s" "0 < rx_page_size i" "tree_ok A i"
    "\<And>a. a \<in> A \<Longrightarrow> node_ok view good (rx_page_size i) s (rx_nodes i a)"
    "\<And>a b h. a \<in> A \<Longrightarrow> b \<in> A \<Longrightarrow> rn_handle (rx_nodes i a) = Some h \<Longrightarrow> rn_handle (rx_nodes i b) = Some h \<Longrightarrow> a = b"
    "tree_wf (rx_root i) (rx_nodes i) A" "A \<subseteq> {..<rx_next i}"
  using assms unfolding radix_inv_on_def tree_ok_def by blast+

lemma radix_inv_onI:
  assumes "ok s" "0 < rx_page_size i" "tree_ok A i"
    "\<And>a. a \<in> A \<Longrightarrow> node_ok view good (rx_page_size i) s (rx_nodes i a)"
    "\<And>a b h. a \<in> A \<Longrightarrow> b \<in> A \<Longrightarrow> rn_handle (rx_nodes i a) = Some h \<Longrightarrow> rn_handle (rx_nodes i b) = Some h \<Longrightarrow> a = b"
  shows "radix_inv_on A ok view good i s"
  using assms unfolding radix_inv_on_def by blast

lemma radix_inv_on_iff: "radix_inv_on A ok view good i s \<Longrightarrow> radix_inv ok view good i s \<and> attached i = A"
  using attached_tree [of i A] unfolding radix_inv_def radix_inv_on_def tree_ok_def by metis

lemma radix_snaps_on: "tree_ok A i \<Longrightarrow> radix_snaps i = {h. \<exists>a \<in> A. rn_handle (rx_nodes i a) = Some h}"
  using attached_tree [of i A] by (simp add: radix_snaps_def tree_ok_def)

text \<open>What the invariant does not read: clocks, pins, sizes in bytes, counters.\<close>

definition same_payload :: "radix_node \<Rightarrow> radix_node \<Rightarrow> bool" where
  "same_payload m n \<longleftrightarrow> same_shape m n \<and> rn_handle m = rn_handle n \<and> rn_length m = rn_length n \<and> rn_pages m = rn_pages n"

lemma radix_inv_cong:
  assumes "radix_inv_on A ok view good i s" "\<And>a. a \<in> A \<Longrightarrow> same_payload (rx_nodes i' a) (rx_nodes i a)"
    "rx_root i' = rx_root i" "rx_page_size i' = rx_page_size i" "rx_next i' = rx_next i"
  shows "radix_inv_on A ok view good i' s" "radix_snaps i' = radix_snaps i"
proof -
  note v = radix_inv_onD [OF assms(1)]
  have "tree_wf (rx_root i') (rx_nodes i') A"
    unfolding assms(3) by (rule tree_wf_cong [OF v(6)]) (use assms(2) in \<open>simp add: same_payload_def\<close>)
  then have ok: "tree_ok A i'" using v(7) assms(5) by (simp add: tree_ok_def)
  have "node_ok view good (rx_page_size i) s (rx_nodes i' a)" if "a \<in> A" for a
    using v(4) [OF that] assms(2) [OF that] by (auto simp: node_ok_def same_payload_def same_shape_def)
  moreover have h: "rn_handle (rx_nodes i' a) = rn_handle (rx_nodes i a)" if "a \<in> A" for a
    using assms(2) [OF that] by (simp add: same_payload_def)
  ultimately show "radix_inv_on A ok view good i' s"
    using v(1,2,5) ok by (intro radix_inv_onI) (simp_all add: assms(4))
  show "radix_snaps i' = radix_snaps i"
    unfolding radix_snaps_on [OF ok] radix_snaps_on [OF v(3)] using h by auto
qed

lemma same_payload_refl [simp]: "same_payload n n"
  by (simp add: same_payload_def same_shape_def)

lemma same_payload_upd:
  "(\<And>n. same_payload (f n) n) \<Longrightarrow> same_payload (rx_nodes (upd_node a f i) b) (rx_nodes i b)"
  by (simp add: upd_node_def)

lemma upd_node_fields [simp]:
  "rx_root (upd_node a f i) = rx_root i" "rx_page_size (upd_node a f i) = rx_page_size i"
  "rx_next (upd_node a f i) = rx_next i" "rx_nodes (upd_node a f i) a = f (rx_nodes i a)"
  "rx_active (upd_node a f i) = rx_active i"
  by (simp_all add: upd_node_def)

lemma radix_tick_fields:
  "radix_tick i = (t, i') \<Longrightarrow> rx_nodes i' = rx_nodes i \<and> rx_root i' = rx_root i \<and>
     rx_page_size i' = rx_page_size i \<and> rx_next i' = rx_next i"
  by (auto simp: radix_tick_def Let_def)

subsection \<open>Lookup\<close>

lemma radix_lookup_ok:
  assumes inv: "radix_inv_on A ok view good i s" and run: "radix_lookup m toks i = (r, i')"
  shows "radix_inv_on A ok view good i' s \<and> radix_snaps i' = radix_snaps i \<and>
    (\<forall>a. r = Some a \<longrightarrow> found A i' toks (max_reusable (rx_page_size i) toks) a)"
proof -
  note v = radix_inv_onD [OF inv]
  let ?limit = "max_reusable (rx_page_size i) toks"
  show ?thesis
  proof (cases "?limit = 0 \<or> radix_descend i toks ?limit (Suc ?limit) (rx_root i) 0 None = None")
    case True
    then have "r = None" "i' = i"
      using run by (auto simp: radix_lookup_def Let_def simp del: radix_descend.simps split: if_splits option.splits)
    then show ?thesis using inv by simp
  next
    case False
    then obtain a where a: "radix_descend i toks ?limit (Suc ?limit) (rx_root i) 0 None = Some a" "?limit \<noteq> 0" by auto
    have "?limit \<le> length toks - 1" unfolding max_reusable_def by (rule div_times_less_eq_dividend)
    then have lim: "?limit \<le> length toks" by linarith
    have f: "found A i toks ?limit a"
      by (rule radix_descend_found [OF v(6) lim _ _ _ _ a(1)]) (use tree_wfD(2,3) [OF v(6)] in simp_all)
    show ?thesis
    proof (cases m)
      case False
      then have "r = Some a" "i' = i" using run a by (simp_all add: radix_lookup_def Let_def del: radix_descend.simps)
      then show ?thesis using inv f by simp
    next
      case True
      obtain t i1 where tk: "radix_tick i = (t, i1)" by (metis surj_pair)
      note tf = radix_tick_fields [OF tk]
      have out: "r = Some a" "i' = upd_node a (rn_last_used_update (\<lambda>_. t)) i1"
        using run a True tk by (simp_all add: radix_lookup_def Let_def del: radix_descend.simps)
      have sp: "same_payload (rx_nodes i' b) (rx_nodes i b)" for b
        using same_payload_upd [of "rn_last_used_update (\<lambda>_. t)" a i1 b] tf
        by (simp add: out(2) same_payload_def same_shape_def)
      note c = radix_inv_cong [OF inv sp]
      have "found A i' toks ?limit a" using f sp [of a] by (simp add: found_def same_payload_def same_shape_def)
      then show ?thesis using c tf out by simp
    qed
  qed
qed

context kv_contents
begin

lemma radix_node_view:
  assumes "radix_inv_on A ok view good i s" "a \<in> A" "rn_handle (rx_nodes i a) = Some h"
  obtains c where "view s h = Some c" "good (rn_prefix (rx_nodes i a)) c" "size_of c = rn_length (rx_nodes i a)"
    "rn_length (rx_nodes i a) = length (rn_prefix (rx_nodes i a))" "0 < rn_length (rx_nodes i a)" "h \<in> radix_snaps i"
proof -
  note v = radix_inv_onD [OF assms(1)]
  obtain c where c: "view s h = Some c" "good (rn_prefix (rx_nodes i a)) c"
    "rn_length (rx_nodes i a) = length (rn_prefix (rx_nodes i a))" "0 < rn_length (rx_nodes i a)"
    using v(4) [OF assms(2)] assms(3) by (auto simp: node_ok_def)
  moreover have "h \<in> radix_snaps i" using assms(2,3) radix_snaps_on [OF v(3)] by blast
  ultimately show thesis using that good_size by metis
qed

lemma radix_snaps_live:
  assumes "radix_inv_on A ok view good i s" "h \<in> radix_snaps i"
  shows "view s h \<noteq> None"
proof -
  obtain a where "a \<in> A" "rn_handle (rx_nodes i a) = Some h"
    using assms(2) radix_snaps_on [OF radix_inv_onD(3) [OF assms(1)]] by blast
  then show ?thesis using radix_node_view [OF assms(1)] by blast
qed

lemma radix_swaps_refl: "radix_inv_on A ok view good i s \<Longrightarrow> swaps view (radix_snaps i) s (radix_snaps i) s"
  by (rule swaps_refl) (rule radix_snaps_live)

lemma radix_frame_on:
  assumes "radix_inv_on A ok view good i s" "ok s'" "\<And>k. k \<in> radix_snaps i \<Longrightarrow> view s' k = view s k"
  shows "radix_inv_on A ok view good i s'"
proof (rule radix_inv_onI)
  note v = radix_inv_onD [OF assms(1)]
  show "node_ok view good (rx_page_size i) s' (rx_nodes i a)" if "a \<in> A" for a
  proof -
    have "view s' h = view s h" if "rn_handle (rx_nodes i a) = Some h" for h
      using assms(3) \<open>a \<in> A\<close> that radix_snaps_on [OF v(3)] by blast
    then show ?thesis using v(4) [OF that] by (auto simp: node_ok_def)
  qed
qed (use radix_inv_onD [OF assms(1)] assms(2) in blast)+

lemma radix_frame:
  assumes "radix_inv ok view good i s" "ok s'" "\<And>k. k \<in> radix_snaps i \<Longrightarrow> view s' k = view s k"
  shows "radix_inv ok view good i s'"
  using radix_frame_on [OF assms(1) [unfolded radix_inv_def] assms(2,3)] unfolding radix_inv_def .

lemma radix_inv_ok: "radix_inv ok view good i s \<Longrightarrow> ok s \<and> (\<forall>k \<in> radix_snaps i. view s k \<noteq> None)"
  unfolding radix_inv_def by (intro conjI ballI) (erule radix_inv_onD(1), rule radix_snaps_live)

lemma found_view:
  assumes inv: "radix_inv_on A ok view good i s" and f: "found A i ts limit a"
  obtains h c where "rn_handle (rx_nodes i a) = Some h" "view s h = Some c" "h \<in> radix_snaps i"
    "good (take (rn_length (rx_nodes i a)) ts) c" "size_of c = rn_length (rx_nodes i a)"
    "rn_length (rx_nodes i a) \<le> limit" "0 < rn_length (rx_nodes i a)" "rn_length (rx_nodes i a) \<le> length ts"
proof -
  have a: "a \<in> A" "prefix (rn_prefix (rx_nodes i a)) ts" "length (rn_prefix (rx_nodes i a)) \<le> limit"
    "rn_handle (rx_nodes i a) \<noteq> None" using f by (simp_all add: found_def)
  then obtain h where h: "rn_handle (rx_nodes i a) = Some h" by blast
  obtain c where c: "view s h = Some c" "good (rn_prefix (rx_nodes i a)) c" "size_of c = rn_length (rx_nodes i a)"
    "rn_length (rx_nodes i a) = length (rn_prefix (rx_nodes i a))" "0 < rn_length (rx_nodes i a)" "h \<in> radix_snaps i"
    by (rule radix_node_view [OF inv a(1) h])
  have "take (rn_length (rx_nodes i a)) ts = rn_prefix (rx_nodes i a)" using a(2) c(4) by (auto simp: prefix_def)
  moreover have "rn_length (rx_nodes i a) \<le> length ts" using a(2) c(4) by (simp add: prefix_length_le)
  ultimately show thesis using that h c a(3) by simp
qed

lemma radix_probe_law:
  assumes inv: "radix_inv ok view good i s" and run: "radix_probe ts i = (p, i')"
  shows "radix_inv ok view good i' s \<and> radix_snaps i' = radix_snaps i \<and>
    (pp_matched_tokens p \<noteq> 0 \<longrightarrow> pp_matched_tokens p \<le> length ts \<and>
      (\<exists>h \<in> radix_snaps i. \<exists>c. pp_cache_handle p = Some h \<and> view s h = Some c \<and>
         good (take (pp_matched_tokens p) ts) c))"
proof -
  let ?A = "attached i" and ?i = "i\<lparr>rx_queries := Suc (rx_queries i)\<rparr>"
  have inv': "radix_inv_on ?A ok view good i s" using inv by (simp add: radix_inv_def)
  have q: "radix_inv_on ?A ok view good ?i s" "radix_snaps ?i = radix_snaps i"
    by (rule radix_inv_cong [OF inv']; simp)+
  obtain r i1 where l: "radix_lookup False ts ?i = (r, i1)" by (metis surj_pair)
  note lk = radix_lookup_ok [OF q(1) l]
  then have i1: "radix_inv_on ?A ok view good i1 s" "radix_snaps i1 = radix_snaps i" using q(2) by simp_all
  have i': "rx_nodes i' = rx_nodes i1" "rx_root i' = rx_root i1" "rx_page_size i' = rx_page_size i1" "rx_next i' = rx_next i1"
    using run l by (auto simp: radix_probe_def Let_def split: option.splits)
  have c: "radix_inv_on ?A ok view good i' s" "radix_snaps i' = radix_snaps i1"
    by (rule radix_inv_cong [OF i1(1)]; simp add: i')+
  then have ok': "radix_inv ok view good i' s" "radix_snaps i' = radix_snaps i"
    using radix_inv_on_iff [OF c(1)] i1(2) by simp_all
  show ?thesis
  proof (cases r)
    case None
    then show ?thesis using run l ok' by (auto simp: radix_probe_def no_probe_def)
  next
    case (Some a)
    then have f: "found ?A i1 ts (max_reusable (rx_page_size ?i) ts) a" using lk by blast
    obtain h c where hc: "rn_handle (rx_nodes i1 a) = Some h" "view s h = Some c" "h \<in> radix_snaps i1"
      "good (take (rn_length (rx_nodes i1 a)) ts) c" "rn_length (rx_nodes i1 a) \<le> length ts"
      by (rule found_view [OF i1(1) f])
    have "pp_matched_tokens p = rn_length (rx_nodes i1 a)" "pp_cache_handle p = rn_handle (rx_nodes i1 a)"
      using run l Some by (auto simp: radix_probe_def Let_def)
    then show ?thesis using ok' hc i1(2) by auto
  qed
qed

lemma radix_acquire_law:
  assumes inv: "radix_inv ok view good i s" and run: "radix_acquire ops rid ts p i s = (res, i', s')"
  shows "radix_inv ok view good i' s' \<and> radix_snaps i' = radix_snaps i \<and> (\<exists>a. res = Inr a) \<and>
    (res = Inr None \<longrightarrow> s' = s) \<and>
    (\<forall>a. res = Inr (Some a) \<longrightarrow> 0 < ca_cache_length a \<and> ca_cache_length a \<le> length ts \<and>
      ca_reused_tokens a = ca_cache_length a \<and> view s (ca_cache_handle a) = None \<and>
      (\<exists>c. view s' = (view s)(ca_cache_handle a \<mapsto> c) \<and> good (take (ca_cache_length a) ts) c))"
proof (cases "pp_cache_handle p = None \<or> pp_matched_tokens p = 0")
  case True
  then show ?thesis using run inv by (auto simp: radix_acquire_def)
next
  case hit: False
  let ?A = "attached i"
  have inv': "radix_inv_on ?A ok view good i s" using inv by (simp add: radix_inv_def)
  obtain r i1 where l: "radix_lookup True ts i = (r, i1)" by (metis surj_pair)
  note lk = radix_lookup_ok [OF inv' l]
  then have i1: "radix_inv_on ?A ok view good i1 s" "radix_snaps i1 = radix_snaps i" by blast+
  show ?thesis
  proof (cases "\<exists>a. r = Some a \<and> rn_handle (rx_nodes i1 a) = pp_cache_handle p")
    case False
    then have "res = Inr None" "i' = i1" "s' = s"
      using run hit l by (auto simp: radix_acquire_def split: option.splits)
    then show ?thesis using radix_inv_on_iff [OF i1(1)] i1(2) by simp
  next
    case True
    then obtain a where r: "r = Some a" "rn_handle (rx_nodes i1 a) = pp_cache_handle p" by blast
    then have f: "found ?A i1 ts (max_reusable (rx_page_size i) ts) a" using lk by blast
    obtain h c where hc: "rn_handle (rx_nodes i1 a) = Some h" "view s h = Some c" "h \<in> radix_snaps i1"
      "good (take (rn_length (rx_nodes i1 a)) ts) c" "size_of c = rn_length (rx_nodes i1 a)"
      "0 < rn_length (rx_nodes i1 a)" "rn_length (rx_nodes i1 a) \<le> length ts"
      by (rule found_view [OF i1(1) f])
    let ?n = "rn_length (rx_nodes i1 a)"
    obtain x s1 where fk: "op_fork ops h rid (Some (int ?n)) s = (x, s1)" by (metis surj_pair)
    have le: "?n \<le> size_of c" using hc(5) by simp
    obtain child where ch: "x = Inr child" "ok s1" "view s child = None" "view s1 = (view s)(child \<mapsto> cut ?n c)"
      by (rule fork_runs [OF radix_inv_onD(1) [OF inv'] hc(2) le fk])
    define i2 where "i2 = upd_node a (\<lambda>n. n\<lparr>rn_pins := Suc (rn_pins n)\<rparr>) i1"
    have out: "res = Inr (Some \<lparr>ca_cache_handle = child, ca_cache_length = ?n, ca_reused_tokens = ?n,
          ca_reused_pages = rn_pages (rx_nodes i1 a)\<rparr>)" "s' = s1"
        "rx_nodes i' = rx_nodes i2" "rx_root i' = rx_root i2" "rx_page_size i' = rx_page_size i2" "rx_next i' = rx_next i2"
      using run hit l r fk ch(1) hc(1) by (auto simp: radix_acquire_def i2_def Let_def)
    have sp: "same_payload (rx_nodes i' b) (rx_nodes i1 b)" for b
      unfolding out(3) i2_def by (rule same_payload_upd) (simp add: same_payload_def same_shape_def)
    have c': "radix_inv_on ?A ok view good i' s" "radix_snaps i' = radix_snaps i1"
      by (rule radix_inv_cong [OF i1(1) sp]; simp add: out i2_def)+
    have "view s1 k = view s k" if "k \<in> radix_snaps i'" for k
      using radix_snaps_live [OF c'(1) that] ch(3,4) by auto
    then have "radix_inv_on ?A ok view good i' s'" using radix_frame_on [OF c'(1)] ch(2) out(2) by simp
    then have "radix_inv ok view good i' s'" by (rule radix_inv_on_iff [THEN conjunct1])
    moreover have "good (take ?n ts) (cut ?n c)"
      using good_cut [OF hc(4), of ?n] hc(7) by simp
    ultimately show ?thesis using out hc(6,7) ch c'(2) i1(2) by auto
  qed
qed

lemma radix_inv_grown:
  assumes inv: "radix_inv_on A ok view good i s" and t: "tree_ok A' i'" and g: "grown A i A' i'"
  shows "radix_inv_on A' ok view good i' s" "radix_snaps i' = radix_snaps i"
proof -
  note v = radix_inv_onD [OF inv]
  have sub: "A \<subseteq> A'" and old: "\<And>b. b \<in> A \<Longrightarrow> rn_prefix (rx_nodes i' b) = rn_prefix (rx_nodes i b) \<and>
      rn_handle (rx_nodes i' b) = rn_handle (rx_nodes i b) \<and> rn_length (rx_nodes i' b) = rn_length (rx_nodes i b) \<and>
      rn_pages (rx_nodes i' b) = rn_pages (rx_nodes i b)"
    using g unfolding grown_def by blast+
  have "\<forall>b \<in> A' - A. rn_handle (rx_nodes i' b) = None" using g unfolding grown_def by (elim conjE)
  then have new: "\<And>b. b \<in> A' \<Longrightarrow> b \<notin> A \<Longrightarrow> rn_handle (rx_nodes i' b) = None" by simp
  have ps: "rx_page_size i' = rx_page_size i" using g unfolding grown_def by auto
  have inA: "b \<in> A" if "b \<in> A'" "rn_handle (rx_nodes i' b) = Some h" for b h using new that by fastforce
  show "radix_inv_on A' ok view good i' s"
  proof (rule radix_inv_onI)
    show "node_ok view good (rx_page_size i') s (rx_nodes i' b)" if "b \<in> A'" for b
    proof (cases "b \<in> A")
      case True
      then show ?thesis using v(4) [OF True] old [OF True] by (auto simp: node_ok_def ps)
    next
      case False
      then show ?thesis using new [OF that] by (simp add: node_ok_def)
    qed
    show "a = b" if "a \<in> A'" "b \<in> A'" "rn_handle (rx_nodes i' a) = Some h" "rn_handle (rx_nodes i' b) = Some h" for a b h
      using v(5) inA that old by metis
  qed (use v(1,2) ps t in simp_all)
  show "radix_snaps i' = radix_snaps i"
  proof (intro set_eqI iffI)
    fix h assume "h \<in> radix_snaps i'"
    then obtain b where "b \<in> A'" "rn_handle (rx_nodes i' b) = Some h" unfolding radix_snaps_on [OF t] by blast
    then show "h \<in> radix_snaps i" unfolding radix_snaps_on [OF v(3)] using inA old by force
  next
    fix h assume "h \<in> radix_snaps i"
    then obtain b where "b \<in> A" "rn_handle (rx_nodes i b) = Some h" unfolding radix_snaps_on [OF v(3)] by blast
    then show "h \<in> radix_snaps i'" unfolding radix_snaps_on [OF t] using sub old by force
  qed
qed

lemma tree_ok_upd:
  "tree_ok A i \<Longrightarrow> (\<And>n. same_shape (f n) n) \<Longrightarrow> tree_ok A (upd_node a f i)"
proof -
  assume t: "tree_ok A i" and f: "\<And>n. same_shape (f n) n"
  have "same_shape n n" for n by (simp add: same_shape_def)
  note refl = this
  have "tree_wf (rx_root i) (rx_nodes (upd_node a f i)) A"
  proof (rule tree_wf_cong)
    show "tree_wf (rx_root i) (rx_nodes i) A" using t by (simp add: tree_ok_def)
    show "same_shape (rx_nodes (upd_node a f i) b) (rx_nodes i b)" for b
      using f refl by (simp add: upd_node_def)
  qed
  then show "tree_ok A (upd_node a f i)" using t by (simp add: tree_ok_def)
qed

lemma radix_take_snapshot:
  fixes b :: nat
  assumes inv: "radix_inv_on A ok view good i s" and a: "a \<in> A" "rn_handle (rx_nodes i a) = None"
    and len: "len = length (rn_prefix (rx_nodes i a))" "0 < len" "len = pages * rx_page_size i"
    and s': "ok s'" "view s h = None" "view s' = (view s)(h \<mapsto> c)" "good (rn_prefix (rx_nodes i a)) c"
  defines "i' \<equiv> upd_node a (\<lambda>n. n\<lparr>rn_handle := Some h, rn_length := len, rn_pages := pages, rn_bytes := b\<rparr>) i"
  shows "radix_inv_on A ok view good i' s'" "radix_snaps i' = insert h (radix_snaps i)"
proof -
  note v = radix_inv_onD [OF inv]
  have node: "rx_nodes i' x = (if x = a then (rx_nodes i a)\<lparr>rn_handle := Some h, rn_length := len, rn_pages := pages, rn_bytes := b\<rparr>
      else rx_nodes i x)" for x by (simp add: i'_def upd_node_def)
  have t: "tree_ok A i'" unfolding i'_def by (rule tree_ok_upd [OF v(3)]) (simp add: same_shape_def)
  have ps: "rx_page_size i' = rx_page_size i" by (simp add: i'_def)
  have live: "view s' k = view s k" "k \<noteq> h" if "x \<in> A" "rn_handle (rx_nodes i x) = Some k" for x k
    using radix_node_view [OF inv that] s'(2,3) by (metis fun_upd_other option.distinct(1))+
  show "radix_inv_on A ok view good i' s'"
  proof (rule radix_inv_onI)
    show "node_ok view good (rx_page_size i') s' (rx_nodes i' x)" if "x \<in> A" for x
    proof (cases "x = a")
      case True
      then have "rx_nodes i' x = (rx_nodes i a)\<lparr>rn_handle := Some h, rn_length := len, rn_pages := pages, rn_bytes := b\<rparr>"
        by (simp add: node)
      then show ?thesis unfolding ps using len s' by (simp add: node_ok_def)
    next
      case False
      then have "rx_nodes i' x = rx_nodes i x" by (simp add: node)
      then show ?thesis unfolding ps using v(4) [OF that] live [OF that] by (auto simp: node_ok_def)
    qed
    show "x = y" if "x \<in> A" "y \<in> A" "rn_handle (rx_nodes i' x) = Some k" "rn_handle (rx_nodes i' y) = Some k" for x y k
      using that live(2) v(5) by (auto simp: node split: if_splits)
  qed (use v(2) s'(1) t in \<open>simp_all add: i'_def\<close>)
  show "radix_snaps i' = insert h (radix_snaps i)"
  proof (intro set_eqI iffI)
    fix k assume "k \<in> radix_snaps i'"
    then obtain x where "x \<in> A" "rn_handle (rx_nodes i' x) = Some k" unfolding radix_snaps_on [OF t] by blast
    then show "k \<in> insert h (radix_snaps i)"
      unfolding radix_snaps_on [OF v(3)] node by (auto split: if_splits)
  next
    fix k assume "k \<in> insert h (radix_snaps i)"
    then consider "k = h" | x where "x \<in> A" "rn_handle (rx_nodes i x) = Some k"
      unfolding radix_snaps_on [OF v(3)] by blast
    then show "k \<in> radix_snaps i'"
    proof cases
      case 1
      have "rn_handle (rx_nodes i' a) = Some h" by (simp add: node)
      then show ?thesis unfolding radix_snaps_on [OF t] using a(1) 1 by blast
    next
      case (2 x)
      then have "rn_handle (rx_nodes i' x) = Some k" using a(2) by (auto simp: node)
      then show ?thesis unfolding radix_snaps_on [OF t] using 2(1) by blast
    qed
  qed
qed

lemma radix_publish_loop_ok:
  assumes "radix_inv_on A ok view good i s" "h \<notin> radix_snaps i" "view s h = Some c"
    and "\<And>len. len \<in> set lens \<Longrightarrow> 0 < len \<and> len \<le> size_of c \<and> len \<le> length toks \<and>
      rx_page_size i dvd len \<and> good (take len toks) (cut len c)"
    and "radix_publish_loop ops h toks lens published i s = (res, i', s')"
  shows "\<exists>A'. (\<exists>n. res = Inr n) \<and> radix_inv_on A' ok view good i' s' \<and>
    swaps view (radix_snaps i) s (radix_snaps i') s' \<and> rx_page_size i' = rx_page_size i"
  using assms
proof (induction lens arbitrary: A i s published)
  case Nil
  then show ?case using radix_swaps_refl [OF Nil(1)] by auto
next
  case (Cons len lens)
  note inv = Cons.prems(1) and v = radix_inv_onD [OF Cons.prems(1)]
  have len: "0 < len" "len \<le> size_of c" "len \<le> length toks" "rx_page_size i dvd len" "good (take len toks) (cut len c)"
    using Cons.prems(4) [of len] by simp_all
  show ?case
  proof (cases "publishable_pages ops (rx_page_size i) (rx_max_entries i) (rx_max_bytes i) s < len div rx_page_size i")
    case True
    then show ?thesis using Cons.prems(5) inv radix_swaps_refl [OF inv] by auto
  next
    case False
    obtain a i1 where ins: "radix_insert (take len toks) i = (a, i1)" by (metis surj_pair)
    obtain A1 where A1: "tree_ok A1 i1" "grown A i A1 i1" "a \<in> A1" "rn_prefix (rx_nodes i1 a) = take len toks"
      using radix_insert_ok [OF v(3) ins] by blast
    note i1 = radix_inv_grown [OF inv A1(1,2)]
    have ps1: "rx_page_size i1 = rx_page_size i" using A1(2) unfolding grown_def by auto
    have step: "\<exists>i2 s1. (if rn_handle (rx_nodes i1 a) = None then
                  (case op_fork ops h (radix_snapshot_id i1 (take len toks)) (Some (int len)) s of
                     (Inl e, s1) \<Rightarrow> (Inl e, i1, s1)
                   | (Inr snapshot, s1) \<Rightarrow>
                       (Inr (), upd_node a (\<lambda>n. n\<lparr>rn_handle := Some snapshot, rn_length := len,
                            rn_pages := len div rx_page_size i1,
                            rn_bytes := bytes_for_pages ops (rx_page_size i1) s1 1\<rparr>) i1, s1))
                else (Inr (), i1, s)) = (Inr (), i2, s1) \<and> radix_inv_on A1 ok view good i2 s1 \<and>
        swaps view (radix_snaps i) s (radix_snaps i2) s1 \<and> h \<notin> radix_snaps i2 \<and> view s1 h = Some c \<and>
        rx_page_size i2 = rx_page_size i"
    proof (cases "rn_handle (rx_nodes i1 a)")
      case (Some k)
      then show ?thesis using i1 ps1 Cons.prems(2,3) radix_swaps_refl [OF inv] by simp
    next
      case None
      obtain y s1 where f: "op_fork ops h (radix_snapshot_id i1 (take len toks)) (Some (int len)) s = (y, s1)"
        by (metis surj_pair)
      obtain snap where sn: "y = Inr snap" "ok s1" "view s snap = None" "view s1 = (view s)(snap \<mapsto> cut len c)"
        by (rule fork_runs [OF v(1) Cons.prems(3) len(2) f])
      define i2 where "i2 = upd_node a (\<lambda>n. n\<lparr>rn_handle := Some snap, rn_length := len,
          rn_pages := len div rx_page_size i1, rn_bytes := bytes_for_pages ops (rx_page_size i1) s1 1\<rparr>) i1"
      have l: "len = length (rn_prefix (rx_nodes i1 a))" "len = len div rx_page_size i1 * rx_page_size i1"
        using A1(4) len(3,4) ps1 by simp_all
      have g: "good (rn_prefix (rx_nodes i1 a)) (cut len c)" using A1(4) len(5) by simp
      have ts: "radix_inv_on A1 ok view good i2 s1" "radix_snaps i2 = insert snap (radix_snaps i1)"
        unfolding i2_def by (rule radix_take_snapshot [OF i1(1) A1(3) None l(1) len(1) l(2) sn(2-4) g])+
      have "swaps view (radix_snaps i) s (radix_snaps i2) s1"
        unfolding ts(2) i1(2) by (rule swaps_add [OF sn(3,4)]) (rule radix_snaps_live [OF inv])
      moreover have "h \<notin> radix_snaps i2" "view s1 h = Some c"
        using Cons.prems(2,3) sn(3,4) ts(2) i1(2) by auto
      ultimately show ?thesis using None f sn(1) ts(1) ps1 by (simp add: i2_def)
    qed
    then obtain i2 s1 where st: "(if rn_handle (rx_nodes i1 a) = None then
                  (case op_fork ops h (radix_snapshot_id i1 (take len toks)) (Some (int len)) s of
                     (Inl e, s1) \<Rightarrow> (Inl e, i1, s1)
                   | (Inr snapshot, s1) \<Rightarrow>
                       (Inr (), upd_node a (\<lambda>n. n\<lparr>rn_handle := Some snapshot, rn_length := len,
                            rn_pages := len div rx_page_size i1,
                            rn_bytes := bytes_for_pages ops (rx_page_size i1) s1 1\<rparr>) i1, s1))
                else (Inr (), i1, s)) = (Inr (), i2, s1)"
      and i2: "radix_inv_on A1 ok view good i2 s1" "swaps view (radix_snaps i) s (radix_snaps i2) s1"
        "h \<notin> radix_snaps i2" "view s1 h = Some c" "rx_page_size i2 = rx_page_size i" by blast
    obtain t i3 where tk: "radix_tick i2 = (t, i3)" by (metis surj_pair)
    note tf = radix_tick_fields [OF tk]
    define i4 where "i4 = upd_node a (rn_last_used_update (\<lambda>_. t)) i3"
    have sp: "same_payload (rx_nodes i4 b) (rx_nodes i2 b)" for b
      using same_payload_upd [of "rn_last_used_update (\<lambda>_. t)" a i3 b] tf
      by (simp add: i4_def same_payload_def same_shape_def)
    have i4: "radix_inv_on A1 ok view good i4 s1" "radix_snaps i4 = radix_snaps i2"
      by (rule radix_inv_cong [OF i2(1) sp]; simp add: i4_def tf)+
    have ps4: "rx_page_size i4 = rx_page_size i" using tf i2(5) by (simp add: i4_def)
    have rest: "radix_publish_loop ops h toks lens len i4 s1 = (res, i', s')"
      using Cons.prems(5) False unfolding radix_publish_loop.simps ins Let_def case_prod_conv st
      by (simp add: tk i4_def)
    have h4: "h \<notin> radix_snaps i4" using i2(3) i4(2) by simp
    have later: "0 < l \<and> l \<le> size_of c \<and> l \<le> length toks \<and> rx_page_size i4 dvd l \<and> good (take l toks) (cut l c)"
      if "l \<in> set lens" for l using Cons.prems(4) [of l] that ps4 by simp
    have "\<exists>A'. (\<exists>n. res = Inr n) \<and> radix_inv_on A' ok view good i' s' \<and>
        swaps view (radix_snaps i4) s1 (radix_snaps i') s' \<and> rx_page_size i' = rx_page_size i4"
      by (rule Cons.IH [OF i4(1) h4 i2(4) _ rest]) (rule later)
    then obtain A' where A': "\<exists>n. res = Inr n" "radix_inv_on A' ok view good i' s'"
        "swaps view (radix_snaps i4) s1 (radix_snaps i') s'" "rx_page_size i' = rx_page_size i4" by blast
    have "swaps view (radix_snaps i) s (radix_snaps i') s'"
      by (rule swaps_trans [OF i2(2) A'(3) [unfolded i4(2)]])
    then show ?thesis using A' ps4 by auto
  qed
qed

lemma radix_drop_snapshot:
  assumes inv: "radix_inv_on A ok view good i s" and a: "a \<in> A" "rn_handle (rx_nodes i a) = Some h"
    and s': "ok s'" "view s' = (view s)(h := None)"
  defines "i' \<equiv> upd_node a (\<lambda>n. n\<lparr>rn_handle := None, rn_length := 0, rn_pages := 0, rn_bytes := 0\<rparr>) i"
  shows "radix_inv_on A ok view good i' s'" "radix_snaps i' = radix_snaps i - {h}"
proof -
  note v = radix_inv_onD [OF inv]
  have node: "rx_nodes i' x = (if x = a then (rx_nodes i a)\<lparr>rn_handle := None, rn_length := 0, rn_pages := 0, rn_bytes := 0\<rparr>
      else rx_nodes i x)" for x by (simp add: i'_def upd_node_def)
  have t: "tree_ok A i'" unfolding i'_def by (rule tree_ok_upd [OF v(3)]) (simp add: same_shape_def)
  have ps: "rx_page_size i' = rx_page_size i" by (simp add: i'_def)
  have other: "k \<noteq> h" if "x \<in> A" "x \<noteq> a" "rn_handle (rx_nodes i x) = Some k" for x k
    using v(5) [OF that(1) a(1) that(3)] a(2) that(2) by auto
  have old: "x \<noteq> a" "rn_handle (rx_nodes i x) = Some k" if "rn_handle (rx_nodes i' x) = Some k" for x k
    using that unfolding node by (auto split: if_splits)
  show "radix_inv_on A ok view good i' s'"
  proof (rule radix_inv_onI)
    show "node_ok view good (rx_page_size i') s' (rx_nodes i' x)" if x: "x \<in> A" for x
    proof (cases "x = a")
      case True
      then have "rn_handle (rx_nodes i' x) = None" by (simp add: node)
      then show ?thesis by (simp add: node_ok_def)
    next
      case False
      then have e: "rx_nodes i' x = rx_nodes i x" by (simp add: node)
      have "view s' k = view s k" if "rn_handle (rx_nodes i x) = Some k" for k
        using other [OF x False that] by (simp add: s'(2))
      then show ?thesis unfolding ps e using v(4) [OF x] by (auto simp: node_ok_def)
    qed
    show "x = y" if "x \<in> A" "y \<in> A" "rn_handle (rx_nodes i' x) = Some k" "rn_handle (rx_nodes i' y) = Some k" for x y k
      using v(5) [OF that(1,2)] old that(3,4) by blast
  qed (use v(2) s'(1) t ps in simp_all)
  show "radix_snaps i' = radix_snaps i - {h}"
  proof (intro set_eqI iffI)
    fix k assume "k \<in> radix_snaps i'"
    then obtain x where "x \<in> A" "rn_handle (rx_nodes i' x) = Some k" unfolding radix_snaps_on [OF t] by blast
    then show "k \<in> radix_snaps i - {h}" unfolding radix_snaps_on [OF v(3)] using old other by blast
  next
    fix k assume k: "k \<in> radix_snaps i - {h}"
    then obtain x where x: "x \<in> A" "rn_handle (rx_nodes i x) = Some k" unfolding radix_snaps_on [OF v(3)] by blast
    then have "x \<noteq> a" using a(2) k by auto
    then have "rn_handle (rx_nodes i' x) = Some k" using x(2) by (simp add: node)
    then show "k \<in> radix_snaps i'" unfolding radix_snaps_on [OF t] using x(1) by blast
  qed
qed

lemma radix_walk_attached:
  assumes "tree_wf (rx_root i) (rx_nodes i) A"
  shows "set pending \<subseteq> A \<Longrightarrow> set (radix_walk_loop i fuel pending) \<subseteq> A"
proof (induction fuel arbitrary: pending)
  case (Suc fuel)
  note w = tree_wfD [OF assms]
  have kids: "set (dict_values (rn_children (rx_nodes i a))) \<subseteq> A" if a: "a \<in> A" for a
  proof
    fix b assume "b \<in> set (dict_values (rn_children (rx_nodes i a)))"
    then obtain t where "(t, b) \<in> set (rn_children (rx_nodes i a))" by auto
    then have "map_of (rn_children (rx_nodes i a)) t = Some b" using w(5) [OF a] by (simp add: dict_get_iff)
    then show "b \<in> A" using w(6) [OF a] by (simp add: child_ok_def)
  qed
  show ?case
  proof (cases "pending = []")
    case False
    then have last: "last pending \<in> A" using Suc.prems by auto
    moreover have "set (butlast pending @ dict_values (rn_children (rx_nodes i (last pending)))) \<subseteq> A"
      using Suc.prems kids [OF last] by (auto dest: in_set_butlastD)
    ultimately show ?thesis using Suc.IH False by (simp add: Let_def)
  qed simp
qed simp

lemma walk_attached:
  assumes "tree_ok A i"
  shows "set (walk_nodes i) \<subseteq> A"
proof -
  have t: "tree_wf (rx_root i) (rx_nodes i) A" using assms by (simp add: tree_ok_def)
  note w = tree_wfD [OF t]
  have "set (dict_values (rn_children (rx_nodes i (rx_root i)))) \<subseteq> A"
  proof
    fix b assume "b \<in> set (dict_values (rn_children (rx_nodes i (rx_root i))))"
    then obtain u where "(u, b) \<in> set (rn_children (rx_nodes i (rx_root i)))" by auto
    then have "map_of (rn_children (rx_nodes i (rx_root i))) u = Some b" using w(5) [OF w(2)] by (simp add: dict_get_iff)
    then show "b \<in> A" using w(6) [OF w(2)] by (simp add: child_ok_def)
  qed
  then show ?thesis unfolding walk_nodes_def by (rule radix_walk_attached [OF t])
qed

lemma prune_ok:
  assumes "radix_inv_on A ok view good i s" "a \<in> A"
  shows "\<exists>A'. radix_inv_on A' ok view good (prune_ancestors fuel a i) s \<and>
    radix_snaps (prune_ancestors fuel a i) = radix_snaps i \<and>
    rx_page_size (prune_ancestors fuel a i) = rx_page_size i"
  using assms
proof (induction fuel arbitrary: A a i)
  case (Suc fuel)
  note inv = Suc.prems(1) and v = radix_inv_onD [OF Suc.prems(1)]
  let ?n = "rx_nodes i a"
  show ?case
  proof (cases "\<exists>p. rn_parent ?n = Some p \<and> rn_handle ?n = None \<and> rn_children ?n = [] \<and> rn_pins ?n = 0")
    case False
    then have "prune_ancestors (Suc fuel) a i = i" by (auto simp: Let_def split: option.splits)
    then show ?thesis using inv by auto
  next
    case True
    then obtain p where p: "rn_parent ?n = Some p" "rn_handle ?n = None" "rn_children ?n = []" "rn_pins ?n = 0" by blast
    define i1 where "i1 = upd_node p (\<lambda>m. m\<lparr>rn_children := AList.delete (hd (rn_edge ?n)) (rn_children m)\<rparr>) i"
    have run: "prune_ancestors (Suc fuel) a i = prune_ancestors fuel p i1" using p by (simp add: Let_def i1_def)
    have pc: "p \<in> A" "a \<noteq> p"
    proof -
      show "p \<in> A" using parent_child(1) [OF v(6) Suc.prems(2) p(1)] .
      show "a \<noteq> p" using parent_child(4,5) [OF v(6) Suc.prems(2) p(1)] by auto
    qed
    have N1: "rx_nodes i1 = (rx_nodes i)(p := (rx_nodes i p)\<lparr>rn_children := AList.delete (hd (rn_edge ?n)) (rn_children (rx_nodes i p))\<rparr>)"
      by (simp add: i1_def upd_node_def)
    have wf1: "tree_wf (rx_root i) (rx_nodes i1) (A - {a})"
      unfolding N1 by (rule tree_remove [OF v(6) Suc.prems(2) p(1,3)])
    then have t1: "tree_ok (A - {a}) i1" using v(7) by (auto simp: tree_ok_def i1_def)
    have same: "rn_handle (rx_nodes i1 b) = rn_handle (rx_nodes i b)" "rn_prefix (rx_nodes i1 b) = rn_prefix (rx_nodes i b)"
      "rn_length (rx_nodes i1 b) = rn_length (rx_nodes i b)" "rn_pages (rx_nodes i1 b) = rn_pages (rx_nodes i b)" for b
      by (simp_all add: N1)
    have ps1: "rx_page_size i1 = rx_page_size i" by (simp add: i1_def)
    have inv1: "radix_inv_on (A - {a}) ok view good i1 s"
    proof (rule radix_inv_onI)
      show "node_ok view good (rx_page_size i1) s (rx_nodes i1 b)" if "b \<in> A - {a}" for b
        using v(4) [of b] that ps1 by (auto simp: node_ok_def same)
      show "b = c" if "b \<in> A - {a}" "c \<in> A - {a}" "rn_handle (rx_nodes i1 b) = Some h" "rn_handle (rx_nodes i1 c) = Some h" for b c h
        using v(5) [of b c h] that by (simp add: same)
    qed (use v(1,2) t1 in \<open>simp_all add: i1_def\<close>)
    have snaps: "radix_snaps i1 = radix_snaps i"
      unfolding radix_snaps_on [OF t1] radix_snaps_on [OF v(3)] same using p(2) by force
    have "\<exists>A'. radix_inv_on A' ok view good (prune_ancestors fuel p i1) s \<and>
      radix_snaps (prune_ancestors fuel p i1) = radix_snaps i1 \<and>
      rx_page_size (prune_ancestors fuel p i1) = rx_page_size i1"
      by (rule Suc.IH [OF inv1]) (use pc in blast)
    then show ?thesis unfolding run snaps by (simp add: i1_def)
  qed
qed auto

lemma radix_evict_ok:
  assumes "radix_inv_on A ok view good i s" "radix_evict ops fuel i s = (res, i', s')"
  shows "\<exists>A'. res = Inr () \<and> radix_inv_on A' ok view good i' s' \<and> swaps view (radix_snaps i) s (radix_snaps i') s' \<and>
    radix_snaps i' \<subseteq> radix_snaps i \<and> rx_page_size i' = rx_page_size i"
  using assms
proof (induction fuel arbitrary: A i s)
  case 0
  then show ?case using radix_swaps_refl [OF 0(1)] by auto
next
  case (Suc fuel)
  note inv = Suc.prems(1) and v = radix_inv_onD [OF Suc.prems(1)]
  let ?min = "min_by (\<lambda>a. (rn_last_used (rx_nodes i a), - int (rn_pages (rx_nodes i a)))) (radix_candidates i)"
  show ?case
  proof (cases "radix_over_limits i \<and> ?min \<noteq> None")
    case False
    then have "res = Inr ()" "i' = i" "s' = s" using Suc.prems(2) by (auto split: option.splits)
    then show ?thesis using radix_swaps_refl [OF inv] inv by blast
  next
    case True
    then obtain a where m: "?min = Some a" by blast
    have cand: "a \<in> set (radix_candidates i)" using min_by_in [OF m] .
    then have a: "a \<in> A" using walk_attached [OF v(3)] by (auto simp: radix_candidates_def)
    from cand obtain h where h: "rn_handle (rx_nodes i a) = Some h" by (auto simp: radix_candidates_def)
    obtain x s1 where rel: "op_release ops (Some h) s = (x, s1)" by (metis surj_pair)
    note rr = release_runs [OF v(1) rel]
    define i1 where "i1 = upd_node a (\<lambda>n. n\<lparr>rn_handle := None, rn_length := 0, rn_pages := 0, rn_bytes := 0\<rparr>) i"
    have d: "radix_inv_on A ok view good i1 s1" "radix_snaps i1 = radix_snaps i - {h}"
      unfolding i1_def by (rule radix_drop_snapshot [OF inv a h rr(2,3)])+
    define i2 where "i2 = i1\<lparr>rx_evictions := Suc (rx_evictions i1), rx_metrics_dirty := True\<rparr>"
    have e: "radix_inv_on A ok view good i2 s1" "radix_snaps i2 = radix_snaps i1"
      by (rule radix_inv_cong [OF d(1)]; simp add: i2_def)+
    define i3 where "i3 = prune_ancestors (Suc (length (rn_prefix (rx_nodes i2 a)))) a i2"
    obtain A3 where p: "radix_inv_on A3 ok view good i3 s1" "radix_snaps i3 = radix_snaps i2" "rx_page_size i3 = rx_page_size i2"
      using prune_ok [OF e(1) a] unfolding i3_def by blast
    have step: "radix_evict ops fuel i3 s1 = (res, i', s')"
      using Suc.prems(2) True m rel rr(1) h by (simp add: i1_def i2_def i3_def Let_def del: prune_ancestors.simps)
    obtain A' where IH: "res = Inr ()" "radix_inv_on A' ok view good i' s'" "swaps view (radix_snaps i3) s1 (radix_snaps i') s'"
      "radix_snaps i' \<subseteq> radix_snaps i3" "rx_page_size i' = rx_page_size i3" using Suc.IH [OF p(1) step] by blast
    have s3: "radix_snaps i3 = radix_snaps i - {h}" using p(2) e(2) d(2) by simp
    have "h \<in> radix_snaps i" unfolding radix_snaps_on [OF v(3)] using a h by blast
    then have "swaps view (radix_snaps i) s (radix_snaps i3) s1"
      unfolding s3 by (rule swaps_drop [OF rr(3)]) (rule radix_snaps_live [OF inv])
    then have "swaps view (radix_snaps i) s (radix_snaps i') s'" using IH(3) by (rule swaps_trans)
    then show ?thesis using IH s3 p(3) by (auto simp: i2_def i1_def)
  qed
qed

lemma radix_publish_law:
  assumes inv: "radix_inv ok view good i s" and h: "h \<notin> radix_snaps i" "view s h = Some c" "n \<le> size_of c"
    and g: "\<And>m. m \<le> n \<Longrightarrow> m \<le> length ts \<Longrightarrow> good (take m ts) (cut m c)"
    and run: "radix_publish ops h ts n i s = (res, i', s')"
  shows "radix_inv ok view good i' s' \<and> swaps view (radix_snaps i) s (radix_snaps i') s' \<and> (\<exists>q. res = Inr q)"
proof -
  let ?A = "attached i" and ?len = "min n (length ts) div rx_page_size i * rx_page_size i"
  let ?prev = "case map_of (rx_published i) h of None \<Rightarrow> 0 | Some n \<Rightarrow> n"
  have inv': "radix_inv_on ?A ok view good i s" using inv by (simp add: radix_inv_def)
  note v = radix_inv_onD [OF inv']
  show ?thesis
  proof (cases "?len = 0 \<or> ?len \<le> ?prev")
    case True
    then have "i' = i" "s' = s" "res = Inr no_publication" using run by (auto simp: radix_publish_def Let_def split: if_splits)
    then show ?thesis using inv radix_swaps_refl [OF inv'] by simp
  next
    case False
    let ?start = "(?prev div rx_page_size i + 1) * rx_page_size i"
    obtain r i1 s1 where loop: "radix_publish_loop ops h ts (range_step ?start (?len + 1) (rx_page_size i)) 0 i s = (r, i1, s1)"
      by (metis surj_pair)
    have le: "?len \<le> min n (length ts)" by (rule div_times_less_eq_dividend)
    have lens: "0 < len \<and> len \<le> size_of c \<and> len \<le> length ts \<and> rx_page_size i dvd len \<and> good (take len ts) (cut len c)"
      if "len \<in> set (range_step ?start (?len + 1) (rx_page_size i))" for len
    proof -
      have in_range: "len < ?len + 1" "\<exists>k. len = ?start + k * rx_page_size i"
        using that unfolding set_range_step [OF v(2)] by simp_all
      from in_range(2) obtain k where k: "len = ?start + k * rx_page_size i" ..
      then have "len = (?prev div rx_page_size i + 1 + k) * rx_page_size i" by (simp add: algebra_simps)
      then have "rx_page_size i dvd len" "0 < len" using v(2) by simp_all
      moreover have "len \<le> min n (length ts)" using in_range(1) le by linarith
      ultimately show ?thesis using g [of len] h(3) by simp
    qed
    obtain A1 m where L: "r = Inr m" "radix_inv_on A1 ok view good i1 s1" "swaps view (radix_snaps i) s (radix_snaps i1) s1"
      using radix_publish_loop_ok [OF inv' h(1,2) _ loop] lens by blast
    obtain x i2 s2 where ev: "radix_evict_within ops i1 s1 = (x, i2, s2)" by (metis surj_pair)
    obtain A2 where E: "x = Inr ()" "radix_inv_on A2 ok view good i2 s2" "swaps view (radix_snaps i1) s1 (radix_snaps i2) s2"
      using radix_evict_ok [OF L(2) ev [unfolded radix_evict_within_def]] by blast
    have out: "s' = s2" "\<exists>q. res = Inr q" "rx_nodes i' = rx_nodes i2" "rx_root i' = rx_root i2"
      "rx_page_size i' = rx_page_size i2" "rx_next i' = rx_next i2"
      using run False loop L(1) ev E(1) by (auto simp: radix_publish_def Let_def)
    have c': "radix_inv_on A2 ok view good i' s2" "radix_snaps i' = radix_snaps i2"
      by (rule radix_inv_cong [OF E(2)]; simp add: out)+
    have "swaps view (radix_snaps i) s (radix_snaps i') s2"
      unfolding c'(2) by (rule swaps_trans [OF L(3) E(3)])
    then show ?thesis using radix_inv_on_iff [OF c'(1)] out(1,2) by simp
  qed
qed

lemma radix_release_law:
  assumes inv: "radix_inv ok view good i s" and run: "radix_release ops ho i s = (res, i', s')"
  shows "radix_inv ok view good i' s' \<and> swaps view (radix_snaps i) s (radix_snaps i') s' \<and>
    radix_snaps i' \<subseteq> radix_snaps i \<and> res = Inr ()"
proof -
  let ?A = "attached i"
  have inv': "radix_inv_on ?A ok view good i s" using inv by (simp add: radix_inv_def)
  show ?thesis
  proof (cases "\<exists>h a. ho = Some h \<and> map_of (rx_active i) h = Some a")
    case False
    have e: "res = Inr ()" "s' = s" "rx_nodes i' = rx_nodes i" "rx_root i' = rx_root i"
      "rx_page_size i' = rx_page_size i" "rx_next i' = rx_next i"
      using run False by (auto simp: radix_release_def Let_def split: option.splits)
    have c: "radix_inv_on ?A ok view good i' s" "radix_snaps i' = radix_snaps i"
      by (rule radix_inv_cong [OF inv']; simp add: e)+
    then show ?thesis using radix_inv_on_iff [OF c(1)] radix_swaps_refl [OF inv'] e(1,2) by simp
  next
    case True
    then obtain h a where h: "ho = Some h" "map_of (rx_active i) h = Some a" by blast
    define i1 where "i1 = upd_node a (\<lambda>n. n\<lparr>rn_pins := rn_pins n - 1\<rparr>)
        (i\<lparr>rx_published := AList.delete h (rx_published i), rx_active := AList.delete h (rx_active i)\<rparr>)"
    have sp: "same_payload (rx_nodes i1 b) (rx_nodes i b)" for b
      by (simp add: i1_def upd_node_def same_payload_def same_shape_def)
    have c: "radix_inv_on ?A ok view good i1 s" "radix_snaps i1 = radix_snaps i"
      by (rule radix_inv_cong [OF inv' sp]; simp add: i1_def)+
    obtain x i2 s2 where ev: "radix_evict_within ops i1 s = (x, i2, s2)" by (metis surj_pair)
    obtain A2 where E: "x = Inr ()" "radix_inv_on A2 ok view good i2 s2" "swaps view (radix_snaps i1) s (radix_snaps i2) s2"
      "radix_snaps i2 \<subseteq> radix_snaps i1"
      using radix_evict_ok [OF c(1) ev [unfolded radix_evict_within_def]] by blast
    have out: "s' = s2" "res = Inr ()" "rx_nodes i' = rx_nodes i2" "rx_root i' = rx_root i2"
      "rx_page_size i' = rx_page_size i2" "rx_next i' = rx_next i2"
      using run h ev E(1) by (auto simp: radix_release_def Let_def i1_def)
    have c': "radix_inv_on A2 ok view good i' s2" "radix_snaps i' = radix_snaps i2"
      by (rule radix_inv_cong [OF E(2)]; simp add: out)+
    show ?thesis using radix_inv_on_iff [OF c'(1)] E(3,4) c(2) c'(2) out(1,2) by simp
  qed
qed

end

interpretation radix: prefix_index paged_ops "paged_idle layers d" paged_view cut_layers fst "causal_rows krow vrow layers"
    radix_probe "radix_acquire paged_ops" "radix_publish paged_ops" "radix_release paged_ops" radix_snaps
    "radix_inv (paged_idle layers d) paged_view (causal_rows krow vrow layers)"
  for krow vrow layers d
  by unfold_locales (fact causal.radix_inv_ok, fact causal.radix_frame, fact causal.radix_probe_law,
    fact causal.radix_acquire_law, fact causal.radix_publish_law, fact causal.radix_release_law)

end
