(* ===== verification/Coordinator.thy ===== *)
theory Coordinator
  imports BlockProps RadixProps
begin

text \<open>
  \<^verbatim>\<open>NativeCacheCoordinator\<close> in \<^verbatim>\<open>native_mlx/cache_coordinator.py\<close>: prefix lookup
  composed with the physical KV lifecycle.  The index (protocol \<^verbatim>\<open>PrefixCache\<close>) is the
  record of operations \<open>prefix_ops\<close>; the state is the pair of the index and the KV backend.
\<close>

record ('i, 's) prefix_ops =
  px_probe :: "token list \<Rightarrow> 'i \<Rightarrow> prefix_probe \<times> 'i"
  px_acquire :: "string \<Rightarrow> token list \<Rightarrow> prefix_probe \<Rightarrow> 'i \<Rightarrow> 's \<Rightarrow> (exn + cache_admission option) \<times> 'i \<times> 's"
  px_publish :: "handle \<Rightarrow> token list \<Rightarrow> nat \<Rightarrow> 'i \<Rightarrow> 's \<Rightarrow> (exn + cache_publication) \<times> 'i \<times> 's"
  px_release :: "handle option \<Rightarrow> 'i \<Rightarrow> 's \<Rightarrow> (exn + unit) \<times> 'i \<times> 's"
  px_reset :: "bool \<Rightarrow> bool \<Rightarrow> 'i \<Rightarrow> 's \<Rightarrow> (exn + unit) \<times> 'i \<times> 's"

definition coord_probe :: "('i, 's) prefix_ops \<Rightarrow> token list \<Rightarrow> 'i \<times> 's \<Rightarrow> prefix_probe \<times> 'i \<times> 's" where
  "coord_probe px ts c = (case c of (i, s) \<Rightarrow> (case px_probe px ts i of (p, i') \<Rightarrow> (p, i', s)))"

definition coord_acquire ::
  "'s kv_ops \<Rightarrow> ('i, 's) prefix_ops \<Rightarrow> string \<Rightarrow> token list \<Rightarrow> prefix_probe option \<Rightarrow> 'i \<times> 's \<Rightarrow>
     (exn + cache_admission) \<times> 'i \<times> 's" where
  "coord_acquire ops px rid ts probe c =
     (let (active, i, s) = (case probe of Some p \<Rightarrow> (p, c) | None \<Rightarrow> coord_probe px ts c);
          fresh = (\<lambda>i s. case op_create ops rid s of (h, s') \<Rightarrow>
            (Inr \<lparr>ca_cache_handle = h, ca_cache_length = 0, ca_reused_tokens = 0, ca_reused_pages = 0\<rparr>, i, s'))
      in if pp_matched_tokens active \<noteq> 0 then
           (case px_acquire px rid ts active i s of
              (Inl e, i', s') \<Rightarrow> (Inl e, i', s')
            | (Inr (Some a), i', s') \<Rightarrow> (Inr a, i', s')
            | (Inr None, i', s') \<Rightarrow> fresh i' s')
         else fresh i s)"

definition coord_publish ::
  "('i, 's) prefix_ops \<Rightarrow> handle \<Rightarrow> token list \<Rightarrow> nat \<Rightarrow> 'i \<times> 's \<Rightarrow> (exn + cache_publication) \<times> 'i \<times> 's" where
  "coord_publish px h ts n c = (case c of (i, s) \<Rightarrow> px_publish px h ts n i s)"

definition coord_length :: "'s kv_ops \<Rightarrow> handle option \<Rightarrow> 'i \<times> 's \<Rightarrow> nat" where
  "coord_length ops ho c = op_length ops ho (snd c)"

definition coord_release ::
  "'s kv_ops \<Rightarrow> ('i, 's) prefix_ops \<Rightarrow> handle option \<Rightarrow> 'i \<times> 's \<Rightarrow> (exn + unit) \<times> 'i \<times> 's" where
  "coord_release ops px ho c =
     (case c of (i, s) \<Rightarrow>
        (case px_release px ho i s of
           (Inl e, i', s') \<Rightarrow> (Inl e, i', s')
         | (Inr _, i', s') \<Rightarrow> (case op_release ops ho s' of (res, s'') \<Rightarrow> (res, i', s''))))"

definition coord_reset ::
  "'s kv_ops \<Rightarrow> ('i, 's) prefix_ops \<Rightarrow> bool \<Rightarrow> bool \<Rightarrow> 'i \<times> 's \<Rightarrow> (exn + unit) \<times> 'i \<times> 's" where
  "coord_reset ops px clear_cache reset_counters c =
     (case c of (i, s) \<Rightarrow>
        (case px_reset px clear_cache reset_counters i s of
           (Inl e, i', s') \<Rightarrow> (Inl e, i', s')
         | (Inr _, i', s') \<Rightarrow>
             if clear_cache then (case op_reset ops reset_counters s' of (res, s'') \<Rightarrow> (res, i', s''))
             else (Inr (), i', s')))"

text \<open>The three indexes of \<^verbatim>\<open>prefix_cache.py\<close>.\<close>

definition no_prefix :: "'s kv_ops \<Rightarrow> (unit, 's) prefix_ops" where
  "no_prefix ops = \<lparr>px_probe = none_probe, px_acquire = none_acquire, px_publish = none_publish,
     px_release = none_release, px_reset = none_reset\<rparr>"

definition block_prefix :: "'s kv_ops \<Rightarrow> (block_index, 's) prefix_ops" where
  "block_prefix ops = \<lparr>px_probe = block_probe, px_acquire = block_acquire ops, px_publish = block_publish ops,
     px_release = block_release ops, px_reset = block_reset ops\<rparr>"

definition radix_prefix :: "'s kv_ops \<Rightarrow> (radix_index, 's) prefix_ops" where
  "radix_prefix ops = \<lparr>px_probe = radix_probe, px_acquire = radix_acquire ops, px_publish = radix_publish ops,
     px_release = radix_release ops, px_reset = radix_reset ops\<rparr>"

subsection \<open>The contract of the coordinator\<close>

text \<open>What the scheduler relies on (protocol \<^verbatim>\<open>CacheCoordinator\<close>): \<open>cok\<close> is the invariant,
  \<open>held c\<close> the handles the prefix index keeps for itself, \<open>cview c\<close> what every live handle
  holds.\<close>

locale cache_coordinator =
  fixes c_probe :: "token list \<Rightarrow> 'c \<Rightarrow> prefix_probe \<times> 'c"
    and c_acquire :: "string \<Rightarrow> token list \<Rightarrow> prefix_probe option \<Rightarrow> 'c \<Rightarrow> (exn + cache_admission) \<times> 'c"
    and c_publish :: "handle \<Rightarrow> token list \<Rightarrow> nat \<Rightarrow> 'c \<Rightarrow> (exn + cache_publication) \<times> 'c"
    and c_release :: "handle option \<Rightarrow> 'c \<Rightarrow> (exn + unit) \<times> 'c"
    and cok :: "'c \<Rightarrow> bool" and held :: "'c \<Rightarrow> handle set" and cview :: "'c \<Rightarrow> handle \<Rightarrow> 'b option"
    and cut :: "nat \<Rightarrow> 'b \<Rightarrow> 'b" and size_of :: "'b \<Rightarrow> nat" and good :: "token list \<Rightarrow> 'b \<Rightarrow> bool"
  assumes good_sized: "good ts x \<Longrightarrow> size_of x = length ts"
    and good_prefix: "good ts x \<Longrightarrow> n \<le> length ts \<Longrightarrow> good (take n ts) (cut n x)"
    and held_live: "cok c \<Longrightarrow> h \<in> held c \<Longrightarrow> cview c h \<noteq> None"
    and probe_rule: "cok c \<Longrightarrow> c_probe ts c = (p, c') \<Longrightarrow> cok c' \<and> held c' = held c \<and> cview c' = cview c"
    and acquire_rule: "cok c \<Longrightarrow> c_acquire rid ts po c = (res, c') \<Longrightarrow>
      cok c' \<and> held c' = held c \<and> (\<exists>a x. res = Inr a \<and> cview c (ca_cache_handle a) = None \<and>
        cview c' = (cview c)(ca_cache_handle a \<mapsto> x) \<and> ca_cache_length a = ca_reused_tokens a \<and>
        ca_reused_tokens a \<le> length ts \<and> good (take (ca_reused_tokens a) ts) x)"
    and publish_rule: "cok c \<Longrightarrow> h \<notin> held c \<Longrightarrow> cview c h = Some x \<Longrightarrow> n \<le> size_of x \<Longrightarrow>
      (\<And>m. m \<le> n \<Longrightarrow> m \<le> length ts \<Longrightarrow> good (take m ts) (cut m x)) \<Longrightarrow> c_publish h ts n c = (pres, c') \<Longrightarrow>
      cok c' \<and> swaps cview (held c) c (held c') c' \<and> (\<exists>q. pres = Inr q)"
    and release_rule: "cok c \<Longrightarrow> (\<And>h. ho = Some h \<Longrightarrow> h \<notin> held c) \<Longrightarrow> c_release ho c = (rres, c') \<Longrightarrow>
      cok c' \<and> held c' \<subseteq> held c \<and> rres = Inr () \<and>
      (\<forall>k. k \<notin> held c' \<longrightarrow> cview c' k = (if ho = Some k \<or> k \<in> held c then None else cview c k))"

context prefix_index
begin

lemma coord_probe_rule:
  assumes "case c of (i, s) \<Rightarrow> inv i s" "coord_probe \<lparr>px_probe = ix_probe, px_acquire = ix_acquire, px_publish = ix_publish,
      px_release = ix_release, px_reset = rs\<rparr> ts c = (p, c')"
  shows "(case c' of (i, s) \<Rightarrow> inv i s) \<and> snaps (fst c') = snaps (fst c) \<and> view (snd c') = view (snd c)"
  using assms probe_law by (auto simp: coord_probe_def split: prod.splits)

lemma coord_acquire_rule:
  assumes "case c of (i, s) \<Rightarrow> inv i s"
    and run: "coord_acquire ops \<lparr>px_probe = ix_probe, px_acquire = ix_acquire, px_publish = ix_publish,
      px_release = ix_release, px_reset = rs\<rparr> rid ts po c = (res, c')"
  shows "(case c' of (i, s) \<Rightarrow> inv i s) \<and> snaps (fst c') = snaps (fst c) \<and>
    (\<exists>a x. res = Inr a \<and> view (snd c) (ca_cache_handle a) = None \<and>
        view (snd c') = (view (snd c))(ca_cache_handle a \<mapsto> x) \<and> ca_cache_length a = ca_reused_tokens a \<and>
        ca_reused_tokens a \<le> length ts \<and> good (take (ca_reused_tokens a) ts) x)"
proof -
  let ?px = "\<lparr>px_probe = ix_probe, px_acquire = ix_acquire, px_publish = ix_publish,
      px_release = ix_release, px_reset = rs\<rparr>"
  obtain p c1 where p: "(case po of Some p \<Rightarrow> (p, c) | None \<Rightarrow> coord_probe ?px ts c) = (p, c1)" by (metis surj_pair)
  obtain i s where c1: "c1 = (i, s)" by (cases c1)
  have i1: "inv i s" "snaps i = snaps (fst c)" "view s = view (snd c)"
    using p assms(1) coord_probe_rule [OF assms(1), of rs ts p c1] by (auto simp: c1 split: option.splits)
  have fresh: ?thesis
    if "inv j s" "snaps j = snaps i" "(case op_create ops rid s of (h, s') \<Rightarrow>
        (Inr \<lparr>ca_cache_handle = h, ca_cache_length = 0, ca_reused_tokens = 0, ca_reused_pages = 0\<rparr>, j, s')) = (res, c')" for j
  proof -
    obtain h s' where cr: "op_create ops rid s = (h, s')" by (metis surj_pair)
    have ok: "ok s" using inv_ok [OF that(1)] by blast
    obtain x where x: "ok s'" "view s h = None" "view s' = (view s)(h \<mapsto> x)" using create_law [OF ok cr] by blast
    have "good [] x" using fresh_good [OF ok cr] x(3) by simp
    moreover have "inv j s'"
      by (rule inv_frame [OF that(1) x(1)]) (use inv_ok [OF that(1)] x(2,3) in auto)
    ultimately show ?thesis using that cr x i1 by auto
  qed
  show ?thesis
  proof (cases "pp_matched_tokens p = 0")
    case True
    then show ?thesis using run p fresh [OF i1(1) refl] by (simp add: coord_acquire_def c1 Let_def)
  next
    case False
    obtain r j s1 where aq: "ix_acquire rid ts p i s = (r, j, s1)" by (metis surj_pair)
    note law = acquire_law [OF i1(1) aq]
    then obtain ao where r: "r = Inr ao" by blast
    show ?thesis
    proof (cases ao)
      case None
      then have "inv j s" "snaps j = snaps i" "s1 = s" using law r by auto
      then show ?thesis using run p fresh [of j] False aq r None by (simp add: coord_acquire_def c1 Let_def)
    next
      case (Some a)
      then have "res = Inr a" "c' = (j, s1)" using run p False aq r by (simp_all add: coord_acquire_def c1 Let_def)
      then show ?thesis using law r Some i1(2,3) by auto
    qed
  qed
qed

lemma coord_publish_rule:
  assumes "case c of (i, s) \<Rightarrow> inv i s" "h \<notin> snaps (fst c)" "view (snd c) h = Some x" "n \<le> size_of x"
    "\<And>m. m \<le> n \<Longrightarrow> m \<le> length ts \<Longrightarrow> good (take m ts) (cut m x)"
    and run: "coord_publish \<lparr>px_probe = ix_probe, px_acquire = ix_acquire, px_publish = ix_publish,
      px_release = ix_release, px_reset = rs\<rparr> h ts n c = (res, c')"
  shows "(case c' of (i, s) \<Rightarrow> inv i s) \<and> swaps (\<lambda>c. view (snd c)) (snaps (fst c)) c (snaps (fst c')) c' \<and> (\<exists>q. res = Inr q)"
proof -
  obtain i s j s' where c: "c = (i, s)" "c' = (j, s')" by (metis surj_pair)
  have "inv j s' \<and> swaps view (snaps i) s (snaps j) s' \<and> (\<exists>q. res = Inr q)"
    using publish_law [of i s h x n ts res j s'] assms by (simp add: c coord_publish_def)
  then show ?thesis by (simp add: c swaps_def)
qed

lemma coord_release_rule:
  assumes "case c of (i, s) \<Rightarrow> inv i s" "\<And>h. ho = Some h \<Longrightarrow> h \<notin> snaps (fst c)"
    and run: "coord_release ops \<lparr>px_probe = ix_probe, px_acquire = ix_acquire, px_publish = ix_publish,
      px_release = ix_release, px_reset = rs\<rparr> ho c = (res, c')"
  shows "(case c' of (i, s) \<Rightarrow> inv i s) \<and> snaps (fst c') \<subseteq> snaps (fst c) \<and> res = Inr () \<and>
    (\<forall>k. k \<notin> snaps (fst c') \<longrightarrow>
      view (snd c') k = (if ho = Some k \<or> k \<in> snaps (fst c) then None else view (snd c) k))"
proof -
  obtain i s where c: "c = (i, s)" by (cases c)
  have i0: "inv i s" using assms(1) by (simp add: c)
  obtain r j s1 where rel: "ix_release ho i s = (r, j, s1)" by (metis surj_pair)
  note law = release_law [OF i0 rel]
  have ok1: "ok s1" "\<forall>k \<in> snaps j. view s1 k \<noteq> None" using inv_ok law by blast+
  obtain s2 where s2: "op_release ops ho s1 = (Inr (), s2)" "ok s2"
    "view s2 = (case ho of None \<Rightarrow> view s1 | Some h \<Rightarrow> (view s1)(h := None))"
    using kv_pool_axioms [unfolded kv_pool_def] ok1(1) by blast
  have out: "res = Inr ()" "c' = (j, s2)" using run rel law s2(1) by (simp_all add: c coord_release_def)
  have fresh: "h \<notin> snaps j" if "ho = Some h" for h using assms(2) [OF that] law by (auto simp: c)
  have "inv j s2"
    by (rule inv_frame [OF _ s2(2)]) (use law s2(3) fresh in \<open>auto split: option.splits\<close>)
  moreover have "view s2 k = (if ho = Some k \<or> k \<in> snaps i then None else view s k)" if "k \<notin> snaps j" for k
  proof -
    have "view s1 k = (if k \<in> snaps i then None else view s k)"
      using law that unfolding swaps_def by blast
    then show ?thesis using s2(3) by (auto split: option.splits)
  qed
  ultimately show ?thesis using law out by (simp add: c)
qed

lemma coordinator:
  assumes px: "px = \<lparr>px_probe = ix_probe, px_acquire = ix_acquire, px_publish = ix_publish,
      px_release = ix_release, px_reset = rs\<rparr>"
  shows "cache_coordinator (coord_probe px) (coord_acquire ops px) (coord_publish px) (coord_release ops px)
    (\<lambda>(i, s). inv i s) (\<lambda>c. snaps (fst c)) (\<lambda>c. view (snd c)) cut size_of good"
proof
  show "good ts x \<Longrightarrow> size_of x = length ts" for ts x by (rule good_size)
  show "good ts x \<Longrightarrow> n \<le> length ts \<Longrightarrow> good (take n ts) (cut n x)" for ts x n by (rule good_cut)
  show "(case c of (i, s) \<Rightarrow> inv i s) \<Longrightarrow> h \<in> snaps (fst c) \<Longrightarrow> view (snd c) h \<noteq> None" for c h
    using inv_ok by (cases c) auto
  show "(case c of (i, s) \<Rightarrow> inv i s) \<Longrightarrow> coord_probe px ts c = (p, c') \<Longrightarrow>
      (case c' of (i, s) \<Rightarrow> inv i s) \<and> snaps (fst c') = snaps (fst c) \<and> view (snd c') = view (snd c)" for c c' ts p
    unfolding px by (rule coord_probe_rule)
  show "(case c of (i, s) \<Rightarrow> inv i s) \<Longrightarrow> coord_acquire ops px rid ts po c = (res, c') \<Longrightarrow>
      (case c' of (i, s) \<Rightarrow> inv i s) \<and> snaps (fst c') = snaps (fst c) \<and> (\<exists>a x. res = Inr a \<and>
        view (snd c) (ca_cache_handle a) = None \<and>
        view (snd c') = (view (snd c))(ca_cache_handle a \<mapsto> x) \<and> ca_cache_length a = ca_reused_tokens a \<and>
        ca_reused_tokens a \<le> length ts \<and> good (take (ca_reused_tokens a) ts) x)" for c c' ts rid po res
    unfolding px by (rule coord_acquire_rule)
  show "(case c of (i, s) \<Rightarrow> inv i s) \<Longrightarrow> h \<notin> snaps (fst c) \<Longrightarrow> view (snd c) h = Some x \<Longrightarrow> n \<le> size_of x \<Longrightarrow>
      (\<And>m. m \<le> n \<Longrightarrow> m \<le> length ts \<Longrightarrow> good (take m ts) (cut m x)) \<Longrightarrow> coord_publish px h ts n c = (res, c') \<Longrightarrow>
      (case c' of (i, s) \<Rightarrow> inv i s) \<and> swaps (\<lambda>c. view (snd c)) (snaps (fst c)) c (snaps (fst c')) c' \<and> (\<exists>q. res = Inr q)"
    for c c' ts h x n res
    unfolding px by (rule coord_publish_rule)
  show "(case c of (i, s) \<Rightarrow> inv i s) \<Longrightarrow> (\<And>h. ho = Some h \<Longrightarrow> h \<notin> snaps (fst c)) \<Longrightarrow>
      coord_release ops px ho c = (res, c') \<Longrightarrow>
      (case c' of (i, s) \<Rightarrow> inv i s) \<and> snaps (fst c') \<subseteq> snaps (fst c) \<and> res = Inr () \<and>
      (\<forall>k. k \<notin> snaps (fst c') \<longrightarrow>
        view (snd c') k = (if ho = Some k \<or> k \<in> snaps (fst c) then None else view (snd c) k))" for c c' ho res
    unfolding px by (rule coord_release_rule)
qed

end

interpretation block_coord: cache_coordinator
    "coord_probe (block_prefix paged_ops)" "coord_acquire paged_ops (block_prefix paged_ops)"
    "coord_publish (block_prefix paged_ops)" "coord_release paged_ops (block_prefix paged_ops)"
    "\<lambda>(i, s). block_inv (paged_idle layers d) paged_view (causal_rows krow vrow layers) i s"
    "\<lambda>c. block_snaps (fst c)" "\<lambda>c. paged_view (snd c)" cut_layers fst "causal_rows krow vrow layers"
  for krow vrow layers d
  by (rule block.coordinator) (simp add: block_prefix_def)

interpretation radix_coord: cache_coordinator
    "coord_probe (radix_prefix paged_ops)" "coord_acquire paged_ops (radix_prefix paged_ops)"
    "coord_publish (radix_prefix paged_ops)" "coord_release paged_ops (radix_prefix paged_ops)"
    "\<lambda>(i, s). radix_inv (paged_idle layers d) paged_view (causal_rows krow vrow layers) i s"
    "\<lambda>c. radix_snaps (fst c)" "\<lambda>c. paged_view (snd c)" cut_layers fst "causal_rows krow vrow layers"
  for krow vrow layers d
  by (rule radix.coordinator) (simp add: radix_prefix_def)

interpretation plain_coord: cache_coordinator
    "coord_probe (no_prefix paged_ops)" "coord_acquire paged_ops (no_prefix paged_ops)"
    "coord_publish (no_prefix paged_ops)" "coord_release paged_ops (no_prefix paged_ops)"
    "\<lambda>(i, s). none_inv (paged_idle layers d) i s"
    "\<lambda>c. {}" "\<lambda>c. paged_view (snd c)" cut_layers fst "causal_rows krow vrow layers"
  for krow vrow layers d
  by (rule no_reuse.coordinator) (simp add: no_prefix_def)

end
