(* ===== verification/PrefixSamples.thy ===== *)
theory PrefixSamples
  imports Coordinator PagedProps
begin

text \<open>
  A small pool and prefix indexes over it, on which the properties of prefix reuse are evaluated.
\<close>

text \<open>The pool after a prompt of nine tokens.\<close>

definition filled_pool :: "nat kv" where
  "filled_pool = snd (kv_step [sample_handle] [9] (sample_tensor 10) (sample_tensor 20) sample_pool)"

definition sample_prompt :: "token list" where
  "sample_prompt = [1, 2, 3, 4, 5, 6, 7, 8, 9]"

abbreviation sample_krow :: "nat \<Rightarrow> token list \<Rightarrow> nat" where "sample_krow l ts \<equiv> 9 + length ts"

abbreviation sample_vrow :: "nat \<Rightarrow> token list \<Rightarrow> nat" where "sample_vrow l ts \<equiv> 19 + length ts"

lemma filled_run:
  "kv_step [sample_handle] [9] (sample_tensor 10) (sample_tensor 20) sample_pool = (Inr [9], filled_pool)"
proof -
  have "fst (kv_step [sample_handle] [9] (sample_tensor 10) (sample_tensor 20) sample_pool) = Inr [9]" by code_simp
  then show ?thesis by (simp add: filled_pool_def prod_eq_iff)
qed

definition sample_rows :: "nat layers" where
  "sample_rows = (9, [[10, 11, 12, 13, 14, 15, 16, 17, 18]], [[20, 21, 22, 23, 24, 25, 26, 27, 28]])"

lemma filled_view: "paged_view filled_pool sample_handle = Some sample_rows"
  by code_simp

lemma filled_idle: "paged_idle 1 Float16 filled_pool"
proof -
  have "num_layers filled_pool = 1" "kv_dtype filled_pool = Float16" by code_simp+
  then show ?thesis using kv_step_cases [OF sample_pool_ok filled_run] by (simp add: paged_idle_def)
qed

lemma filled_rows:
  "\<forall>m \<le> min 9 (length sample_prompt). causal_rows sample_krow sample_vrow 1 (take m sample_prompt) (cut_layers m sample_rows)"
proof -
  have "causal_rows sample_krow sample_vrow 1 sample_prompt sample_rows"
    by (simp add: causal_rows_def sample_prompt_def sample_rows_def upt_rec)
  then show ?thesis using causal_rows_cut by (metis min.bounded_iff)
qed

definition sample_fingerprint :: fingerprint where
  "sample_fingerprint = \<lparr>fp_checkpoint = ''m'', fp_architecture = ''q'', fp_tokenizer_hash = ''t'', fp_model_dtype = ''f'',
     fp_kv_dtype = ''f'', fp_quantization = ''n'', fp_page_size = 8, fp_schema_version = 1\<rparr>"

text \<open>A hash of the last characters, which are the tokens of the block.\<close>

definition sample_hash :: "string \<Rightarrow> string" where
  "sample_hash x = take 26 (rev x)"

definition sample_block_index :: "nat \<Rightarrow> block_index" where
  "sample_block_index max_entries = (case block_init sample_fingerprint 8 (int max_entries) 1000 sample_hash int of Inr i \<Rightarrow> i)"

text \<open>A new index is sound over every idle pool and holds no snapshots.\<close>

lemma block_init_sound:
  assumes "block_init fp psize max_entries max_bytes sha readings = Inr i" "ok s"
  shows "block_inv ok view good i s \<and> block_snaps i = {}"
  using assms by (auto simp: block_init_def block_inv_def block_snaps_def active_on_def split: if_splits)

lemma radix_init_sound:
  assumes "radix_init fp psize max_entries max_bytes sha readings = Inr i" "ok s"
  shows "radix_inv ok view good i s \<and> radix_snaps i = {}"
proof -
  have i: "0 < rx_page_size i" "rx_nodes i = (\<lambda>_. empty_node)" "rx_root i = 0" "rx_next i = 1"
    using assms(1) by (auto simp: radix_init_def split: if_splits)
  have "tree_ok {0} i" by (simp add: tree_ok_def tree_wf_def i empty_node_def)
  moreover from this have "radix_inv_on {0} ok view good i s"
    unfolding radix_inv_on_def using assms(2) i by (simp add: node_ok_def empty_node_def)
  ultimately show ?thesis
    using radix_inv_on_iff [of "{0}" ok view good i s] radix_snaps_on [of "{0}" i] by (simp add: i empty_node_def)
qed

definition sample_block_publish where
  "sample_block_publish = coord_publish (block_prefix paged_ops) sample_handle sample_prompt 9 (sample_block_index 2, filled_pool)"

lemma sample_block_publish_run:
  "fst sample_block_publish = Inr \<lparr>cp_published_tokens = 8, cp_published_pages = 1\<rparr>"
  by code_simp

lemma sample_block_acquire:
  "fst (coord_acquire paged_ops (block_prefix paged_ops) ''q'' [1, 2, 3, 4, 5, 6, 7, 8, 77] None (snd sample_block_publish)) =
     Inr \<lparr>ca_cache_handle = ''paged-kv-q-baa'', ca_cache_length = 8, ca_reused_tokens = 8, ca_reused_pages = 1\<rparr>"
  by code_simp

lemma sample_block_sound:
  "block_inv (paged_idle 1 Float16) paged_view (causal_rows sample_krow sample_vrow 1) (sample_block_index 2) filled_pool \<and>
   block_snaps (sample_block_index 2) = {}"
proof -
  obtain i where i: "block_init sample_fingerprint 8 (int 2) 1000 sample_hash int = Inr i" by (simp add: block_init_def)
  then have "sample_block_index 2 = i" unfolding sample_block_index_def by (simp only: sum.case)
  with block_init_sound [where ok = "paged_idle 1 Float16", OF i filled_idle] show ?thesis by simp
qed

definition sample_radix_index :: "nat \<Rightarrow> radix_index" where
  "sample_radix_index max_entries = (case radix_init sample_fingerprint 8 (int max_entries) 1000 sample_hash int of Inr i \<Rightarrow> i)"

definition sample_radix_publish where
  "sample_radix_publish = coord_publish (radix_prefix paged_ops) sample_handle sample_prompt 9 (sample_radix_index 2, filled_pool)"

lemma sample_radix_publish_run:
  "fst sample_radix_publish = Inr \<lparr>cp_published_tokens = 8, cp_published_pages = 1\<rparr>"
  by code_simp

lemma sample_radix_acquire:
  "fst (coord_acquire paged_ops (radix_prefix paged_ops) ''q'' [1, 2, 3, 4, 5, 6, 7, 8, 77] None (snd sample_radix_publish)) =
     Inr \<lparr>ca_cache_handle = ''paged-kv-q-baa'', ca_cache_length = 8, ca_reused_tokens = 8, ca_reused_pages = 1\<rparr>"
  by code_simp


lemma sample_radix_sound:
  "radix_inv (paged_idle 1 Float16) paged_view (causal_rows sample_krow sample_vrow 1) (sample_radix_index 2) filled_pool \<and>
   radix_snaps (sample_radix_index 2) = {}"
proof -
  obtain i where i: "radix_init sample_fingerprint 8 (int 2) 1000 sample_hash int = Inr i" by (simp add: radix_init_def)
  then have "sample_radix_index 2 = i" unfolding sample_radix_index_def by (simp only: sum.case)
  with radix_init_sound [where ok = "paged_idle 1 Float16", OF i filled_idle] show ?thesis by simp
qed

subsection \<open>Two prompts\<close>

text \<open>A pool with the caches of a prompt of two pages and of one of one page.\<close>

definition two_prompts :: "nat kv" where
  "two_prompts = \<lparr>num_layers = 1, num_kv_heads = 1, head_dim = 1, page_size = 8, kv_dtype = Float16,
     bytes_per_page = 32, num_pages = 4,
     objs = (\<lambda>_. \<lparr>rc_handle = [], rc_request_id = [], block_table = [], rc_length = 0\<rparr>)
       (''a'' := \<lparr>rc_handle = ''a'', rc_request_id = ''x'', block_table = [0, 1], rc_length = 16\<rparr>,
        ''b'' := \<lparr>rc_handle = ''b'', rc_request_id = ''y'', block_table = [2], rc_length = 8\<rparr>),
     live = [''a'', ''b''], reserved_pages = {}, allocation_failures = 0, free_pages = [3],
     ref_counts = [1, 1, 1, 0], pin_counts = [0, 0, 0, 0], key_pages = [\<lambda>_. 0], value_pages = [\<lambda>_. 0],
     uuids = sample_hex, next_uuid = 0\<rparr>"

definition first_prompt :: "token list" where
  "first_prompt = [1, 1, 1, 1, 1, 1, 1, 1, 2, 2, 2, 2, 2, 2, 2, 2, 3]"

definition second_prompt :: "token list" where
  "second_prompt = [4, 4, 4, 4, 4, 4, 4, 4]"

text \<open>The first prompt is published, a request with the same prompt reuses it and is released, and
  then the second prompt is published.\<close>

definition reuse_then_publish :: "nat \<Rightarrow> block_index \<times> nat kv" where
  "reuse_then_publish max_entries = 
     (let px = block_prefix paged_ops;
          c1 = snd (coord_publish px ''a'' first_prompt 16 (sample_block_index max_entries, two_prompts))
      in case coord_acquire paged_ops px ''q'' first_prompt None c1 of
           (Inr adm, c2) \<Rightarrow>
             (let c3 = snd (coord_release paged_ops px (Some (ca_cache_handle adm)) c2)
              in snd (coord_publish px ''b'' second_prompt 8 c3))
         | (Inl _, c2) \<Rightarrow> c2)"

end
