(* ===== verification/PrefixProps.thy ===== *)
theory PrefixProps
  imports PrefixSamples
begin

text \<open>
  The properties of prefix reuse: what the coordinator hands out, what publishing and releasing
  leave alone, where eviction ends.  \<open>krow l ts\<close> and \<open>vrow l ts\<close> are the rows that the
  model leaves in layer \<open>l\<close> for the last token of \<open>ts\<close>: row \<open>i\<close> of a cache depends on the first
  \<open>i + 1\<close> tokens only (\<open>causal_rows\<close>).
\<close>

abbreviation block_sound where
  "block_sound krow vrow layers d i s \<equiv> block_inv (paged_idle layers d) paged_view (causal_rows krow vrow layers) i s"

abbreviation radix_sound where
  "radix_sound krow vrow layers d i s \<equiv> radix_inv (paged_idle layers d) paged_view (causal_rows krow vrow layers) i s"

subsection \<open>Admission\<close>

text \<open>C15: Admission over the block-hash index never fails and never reuses a wrong row.  The request
  gets a handle that was not in use, whose cache holds, in every layer, exactly the model's rows for
  the first \<open>ca_reused_tokens\<close> tokens of its prompt, at most the whole prompt; every other cache
  keeps its content, the index its snapshots.  No hash is trusted: this holds for any function in
  the place of SHA-256 and for a probe that is stale or comes from another prompt.\<close>

theorem block_admission_reuses_prefix:
  assumes "block_sound krow vrow layers d i s"
    and "coord_acquire paged_ops (block_prefix paged_ops) rid ts probe (i, s) = (res, i', s')"
  shows "block_sound krow vrow layers d i' s' \<and> block_snaps i' = block_snaps i \<and>
    (\<exists>a c. res = Inr a \<and> paged_view s (ca_cache_handle a) = None \<and>
       paged_view s' = (paged_view s)(ca_cache_handle a \<mapsto> c) \<and> ca_cache_length a = ca_reused_tokens a \<and>
       ca_reused_tokens a \<le> length ts \<and> causal_rows krow vrow layers (take (ca_reused_tokens a) ts) c)"
  using block_coord.acquire_rule [of layers d krow vrow "(i, s)" rid ts probe res "(i', s')"] assms by simp

theorem block_admission_reuses_prefix_witness:
  "\<exists>i' s' c. coord_acquire paged_ops (block_prefix paged_ops) ''q'' [1, 2, 3, 4, 5, 6, 7, 8, 77] None (snd sample_block_publish) =
      (Inr \<lparr>ca_cache_handle = ''paged-kv-q-baa'', ca_cache_length = 8, ca_reused_tokens = 8, ca_reused_pages = 1\<rparr>, i', s') \<and>
    paged_view s' ''paged-kv-q-baa'' = Some c \<and> causal_rows sample_krow sample_vrow 1 [1, 2, 3, 4, 5, 6, 7, 8] c"
proof -
  obtain i s where p: "snd sample_block_publish = (i, s)" by (cases "snd sample_block_publish")
  then have run: "coord_publish (block_prefix paged_ops) sample_handle sample_prompt 9 (sample_block_index 2, filled_pool) =
      (Inr \<lparr>cp_published_tokens = 8, cp_published_pages = 1\<rparr>, i, s)"
    using sample_block_publish_run by (simp add: sample_block_publish_def prod_eq_iff)
  have inv: "block_sound sample_krow sample_vrow 1 Float16 i s"
    using block_coord.publish_rule [OF _ _ _ _ _ run, of 1 Float16 sample_krow sample_vrow sample_rows]
      sample_block_sound filled_view filled_rows by (simp add: sample_rows_def)
  obtain i' s' where acq: "coord_acquire paged_ops (block_prefix paged_ops) ''q'' [1, 2, 3, 4, 5, 6, 7, 8, 77] None (i, s) =
      (Inr \<lparr>ca_cache_handle = ''paged-kv-q-baa'', ca_cache_length = 8, ca_reused_tokens = 8, ca_reused_pages = 1\<rparr>, i', s')"
    using sample_block_acquire unfolding p by (metis prod.collapse)
  from block_admission_reuses_prefix [OF inv acq] show ?thesis using acq by (auto simp: p)
qed

text \<open>C16: The same holds of admission over the radix tree, whose entries are found token by token.\<close>

theorem radix_admission_reuses_prefix:
  assumes "radix_sound krow vrow layers d i s"
    and "coord_acquire paged_ops (radix_prefix paged_ops) rid ts probe (i, s) = (res, i', s')"
  shows "radix_sound krow vrow layers d i' s' \<and> radix_snaps i' = radix_snaps i \<and>
    (\<exists>a c. res = Inr a \<and> paged_view s (ca_cache_handle a) = None \<and>
       paged_view s' = (paged_view s)(ca_cache_handle a \<mapsto> c) \<and> ca_cache_length a = ca_reused_tokens a \<and>
       ca_reused_tokens a \<le> length ts \<and> causal_rows krow vrow layers (take (ca_reused_tokens a) ts) c)"
  using radix_coord.acquire_rule [of layers d krow vrow "(i, s)" rid ts probe res "(i', s')"] assms by simp

theorem radix_admission_reuses_prefix_witness:
  "\<exists>i' s' c. coord_acquire paged_ops (radix_prefix paged_ops) ''q'' [1, 2, 3, 4, 5, 6, 7, 8, 77] None (snd sample_radix_publish) =
      (Inr \<lparr>ca_cache_handle = ''paged-kv-q-baa'', ca_cache_length = 8, ca_reused_tokens = 8, ca_reused_pages = 1\<rparr>, i', s') \<and>
    paged_view s' ''paged-kv-q-baa'' = Some c \<and> causal_rows sample_krow sample_vrow 1 [1, 2, 3, 4, 5, 6, 7, 8] c"
proof -
  obtain i s where p: "snd sample_radix_publish = (i, s)" by (cases "snd sample_radix_publish")
  then have run: "coord_publish (radix_prefix paged_ops) sample_handle sample_prompt 9 (sample_radix_index 2, filled_pool) =
      (Inr \<lparr>cp_published_tokens = 8, cp_published_pages = 1\<rparr>, i, s)"
    using sample_radix_publish_run by (simp add: sample_radix_publish_def prod_eq_iff)
  have inv: "radix_sound sample_krow sample_vrow 1 Float16 i s"
    using radix_coord.publish_rule [OF _ _ _ _ _ run, of 1 Float16 sample_krow sample_vrow sample_rows]
      sample_radix_sound filled_view filled_rows by (simp add: sample_rows_def)
  obtain i' s' where acq: "coord_acquire paged_ops (radix_prefix paged_ops) ''q'' [1, 2, 3, 4, 5, 6, 7, 8, 77] None (i, s) =
      (Inr \<lparr>ca_cache_handle = ''paged-kv-q-baa'', ca_cache_length = 8, ca_reused_tokens = 8, ca_reused_pages = 1\<rparr>, i', s')"
    using sample_radix_acquire unfolding p by (metis prod.collapse)
  from radix_admission_reuses_prefix [OF inv acq] show ?thesis using acq by (auto simp: p)
qed

subsection \<open>Publication\<close>

text \<open>C17: Publishing the cache of a request never fails, and takes nothing from anybody but the
  index.  If the request's cache holds the model's rows for its first \<open>n\<close> prompt tokens, then the
  index stays sound (each entry's snapshot holds the rows of the entry's own tokens) and every
  handle outside the index keeps its content, whatever snapshots were taken and evicted.\<close>

theorem block_publication_is_sound:
  assumes "block_sound krow vrow layers d i s" "h \<notin> block_snaps i" "paged_view s h = Some c" "n \<le> fst c"
    and "\<forall>m \<le> min n (length ts). causal_rows krow vrow layers (take m ts) (cut_layers m c)"
    and "coord_publish (block_prefix paged_ops) h ts n (i, s) = (res, i', s')"
  shows "block_sound krow vrow layers d i' s' \<and> (\<exists>q. res = Inr q) \<and>
    (\<forall>k. paged_view s k \<noteq> None \<longrightarrow> k \<notin> block_snaps i \<longrightarrow> k \<notin> block_snaps i' \<and> paged_view s' k = paged_view s k)"
proof -
  have r: "block_sound krow vrow layers d i' s' \<and>
      swaps (\<lambda>c. paged_view (snd c)) (block_snaps i) (i, s) (block_snaps i') (i', s') \<and> (\<exists>q. res = Inr q)"
    using block_coord.publish_rule [of layers d krow vrow "(i, s)" h c n ts res "(i', s')"] assms by simp
  then show ?thesis using swaps_other [of "\<lambda>c. paged_view (snd c)"] by force
qed

theorem block_publication_is_sound_witness:
  "\<exists>i s. coord_publish (block_prefix paged_ops) sample_handle sample_prompt 9 (sample_block_index 2, filled_pool) =
      (Inr \<lparr>cp_published_tokens = 8, cp_published_pages = 1\<rparr>, i, s) \<and>
    paged_view s sample_handle = Some sample_rows \<and> block_sound sample_krow sample_vrow 1 Float16 i s"
proof -
  obtain i s where p: "snd sample_block_publish = (i, s)" by (cases "snd sample_block_publish")
  then have run: "coord_publish (block_prefix paged_ops) sample_handle sample_prompt 9 (sample_block_index 2, filled_pool) =
      (Inr \<lparr>cp_published_tokens = 8, cp_published_pages = 1\<rparr>, i, s)"
    using sample_block_publish_run by (simp add: sample_block_publish_def prod_eq_iff)
  have inv: "block_sound sample_krow sample_vrow 1 Float16 (sample_block_index 2) filled_pool" using sample_block_sound by blast
  have "9 \<le> fst sample_rows" "sample_handle \<notin> block_snaps (sample_block_index 2)"
    using sample_block_sound by (simp_all add: sample_rows_def)
  from block_publication_is_sound [OF inv this(2) filled_view this(1) filled_rows run] sample_block_sound filled_view run
  show ?thesis by (auto simp del: split_paired_Ex)
qed

text \<open>C18: The same holds of publication into the radix tree.\<close>

theorem radix_publication_is_sound:
  assumes "radix_sound krow vrow layers d i s" "h \<notin> radix_snaps i" "paged_view s h = Some c" "n \<le> fst c"
    and "\<forall>m \<le> min n (length ts). causal_rows krow vrow layers (take m ts) (cut_layers m c)"
    and "coord_publish (radix_prefix paged_ops) h ts n (i, s) = (res, i', s')"
  shows "radix_sound krow vrow layers d i' s' \<and> (\<exists>q. res = Inr q) \<and>
    (\<forall>k. paged_view s k \<noteq> None \<longrightarrow> k \<notin> radix_snaps i \<longrightarrow> k \<notin> radix_snaps i' \<and> paged_view s' k = paged_view s k)"
proof -
  have r: "radix_sound krow vrow layers d i' s' \<and>
      swaps (\<lambda>c. paged_view (snd c)) (radix_snaps i) (i, s) (radix_snaps i') (i', s') \<and> (\<exists>q. res = Inr q)"
    using radix_coord.publish_rule [of layers d krow vrow "(i, s)" h c n ts res "(i', s')"] assms by simp
  then show ?thesis using swaps_other [of "\<lambda>c. paged_view (snd c)"] by force
qed

theorem radix_publication_is_sound_witness:
  "\<exists>i s. coord_publish (radix_prefix paged_ops) sample_handle sample_prompt 9 (sample_radix_index 2, filled_pool) =
      (Inr \<lparr>cp_published_tokens = 8, cp_published_pages = 1\<rparr>, i, s) \<and>
    paged_view s sample_handle = Some sample_rows \<and> radix_sound sample_krow sample_vrow 1 Float16 i s"
proof -
  obtain i s where p: "snd sample_radix_publish = (i, s)" by (cases "snd sample_radix_publish")
  then have run: "coord_publish (radix_prefix paged_ops) sample_handle sample_prompt 9 (sample_radix_index 2, filled_pool) =
      (Inr \<lparr>cp_published_tokens = 8, cp_published_pages = 1\<rparr>, i, s)"
    using sample_radix_publish_run by (simp add: sample_radix_publish_def prod_eq_iff)
  have inv: "radix_sound sample_krow sample_vrow 1 Float16 (sample_radix_index 2) filled_pool" using sample_radix_sound by blast
  have "9 \<le> fst sample_rows" "sample_handle \<notin> radix_snaps (sample_radix_index 2)"
    using sample_radix_sound by (simp_all add: sample_rows_def)
  from radix_publication_is_sound [OF inv this(2) filled_view this(1) filled_rows run] sample_radix_sound filled_view run
  show ?thesis by (auto simp del: split_paired_Ex)
qed

subsection \<open>Eviction\<close>



text \<open>Least-recently-used eviction can orphan entries.  A lookup touches the deepest matching entry
  only, so of a chain that is in use the ancestors look oldest.  Here a prompt of two pages is
  published, reused and released; publishing a second prompt then evicts the first page of the chain.
  What is left of the chain keeps its entry and its page, and no lookup can reach it: the
  prompt that was just reused misses.\<close>

theorem used_chain_is_orphaned:
  "(case reuse_then_publish 2 of (i, s) \<Rightarrow>
      (map be_tokens (dict_values (bi_entries i)), fst (block_lookup False first_prompt i), bi_evictions i)) =
   ([take 16 first_prompt, second_prompt], None, 1)"
  by code_simp

end
