(* ===== verification/Json.thy ===== *)
theory Json
  imports Text
begin

text \<open>
  Python's \<^verbatim>\<open>json\<close> module as the IPC frames use it: values, \<open>json.dumps\<close> with its default
  separators, \<open>json.loads\<close>.  A float is the literal that denotes it.  Strings are the bytes of their
  UTF-8 encoding, as theory Text has it: \<open>json.dumps\<close> writes ASCII only, code points beyond it as escapes,
  and \<open>json.loads\<close> takes escapes and the characters themselves.
\<close>

datatype json =
    JNull
  | JBool bool
  | JInt int
  | JFloat string
  | JStr string
  | JArr "json list"
  | JObj "(string \<times> json) list"

subsection \<open>Writing\<close>

fun dumps :: "json \<Rightarrow> string" where
  "dumps JNull = ''null''"
| "dumps (JBool b) = (if b then ''true'' else ''false'')"
| "dumps (JInt i) = int_str i"
| "dumps (JFloat l) = l"
| "dumps (JStr s) = json_string s"
| "dumps (JArr xs) = ''['' @ join '', '' (map dumps xs) @ '']''"
| "dumps (JObj kvs) = ''{'' @ join '', '' (map (\<lambda>(k, v). json_string k @ '': '' @ dumps v) kvs) @ ''}''"

subsection \<open>Reading\<close>

definition is_digit :: "char \<Rightarrow> bool" where
  "is_digit c = (let n = of_char c :: nat in 48 \<le> n \<and> n \<le> 57)"

definition digit_of :: "char \<Rightarrow> nat" where
  "digit_of c = of_char c - 48"

definition nat_of_digits :: "string \<Rightarrow> nat" where
  "nat_of_digits ds = foldl (\<lambda>acc c. acc * 10 + digit_of c) 0 ds"

definition hex_value :: "char \<Rightarrow> nat option" where
  "hex_value c =
     (let n = of_char c :: nat
      in if 48 \<le> n \<and> n \<le> 57 then Some (n - 48)
         else if 97 \<le> n \<and> n \<le> 102 then Some (n - 87)
         else if 65 \<le> n \<and> n \<le> 70 then Some (n - 55) else None)"

fun hex_number :: "nat \<Rightarrow> string \<Rightarrow> nat option" where
  "hex_number acc [] = Some acc"
| "hex_number acc (c # cs) = (case hex_value c of None \<Rightarrow> None | Some d \<Rightarrow> hex_number (acc * 16 + d) cs)"

definition json_ws :: "char \<Rightarrow> bool" where
  "json_ws c = (let n = of_char c :: nat in n = 32 \<or> n = 9 \<or> n = 10 \<or> n = 13)"

definition skip_ws :: "string \<Rightarrow> string" where
  "skip_ws s = dropWhile json_ws s"

text \<open>The text after the opening quote of a string.\<close>

definition unescape :: "char \<Rightarrow> char option" where
  "unescape c =
     (let n = of_char c :: nat
      in if n = 34 \<or> n = 92 \<or> n = 47 then Some c
         else if c = CHR ''n'' then Some (char_of (10 :: nat))
         else if c = CHR ''r'' then Some (char_of (13 :: nat))
         else if c = CHR ''t'' then Some (char_of (9 :: nat))
         else if c = CHR ''f'' then Some (char_of (12 :: nat))
         else if c = CHR ''b'' then Some (char_of (8 :: nat)) else None)"

text \<open>Four hexadecimal digits.\<close>

definition p_hex4 :: "string \<Rightarrow> (nat \<times> string) option" where
  "p_hex4 s = (if length s < 4 then None else map_option (\<lambda>v. (v, drop 4 s)) (hex_number 0 (take 4 s)))"

text \<open>What follows a backslash and a \<open>u\<close>: a code point, or the two halves of a surrogate pair.  A lone surrogate is kept.\<close>

definition p_unicode :: "string \<Rightarrow> (nat \<times> string) option" where
  "p_unicode s =
     (case p_hex4 s of
        None \<Rightarrow> None
      | Some (v, r) \<Rightarrow>
          if 55296 \<le> v \<and> v \<le> 56319 \<and> take 2 r = [char_of (92 :: nat), CHR ''u''] then
            (case p_hex4 (drop 2 r) of
               None \<Rightarrow> None
             | Some (w, r2) \<Rightarrow>
                 if 56320 \<le> w \<and> w \<le> 57343 then Some (65536 + (v - 55296) * 1024 + (w - 56320), r2) else Some (v, r))
          else Some (v, r))"

lemma p_hex4_shorter: "p_hex4 s = Some (v, r) \<Longrightarrow> length r < length s"
  by (auto simp: p_hex4_def split: if_splits)

lemma p_unicode_shorter: "p_unicode s = Some (n, r) \<Longrightarrow> length r < length s"
  by (fastforce simp: p_unicode_def split: option.splits if_splits prod.splits dest: p_hex4_shorter)

function p_chars :: "string \<Rightarrow> (string \<times> string) option" where
  "p_chars [] = None"
| "p_chars (c # cs) =
     (let n = of_char c :: nat
      in if n = 34 then Some ([], cs)
         else if n = 92 then
           (case cs of
              [] \<Rightarrow> None
            | e # rest \<Rightarrow>
                if e = CHR ''u'' then
                  (case p_unicode rest of
                     None \<Rightarrow> None
                   | Some (v, r) \<Rightarrow> map_option (\<lambda>(x, r). (utf8_char v @ x, r)) (p_chars r))
                else
                  (case unescape e of
                     None \<Rightarrow> None
                   | Some x \<Rightarrow> map_option (\<lambda>(xs, r). (x # xs, r)) (p_chars rest)))
         else if n < 32 then None
         else map_option (\<lambda>(x, r). (c # x, r)) (p_chars cs))"
  by pat_completeness auto

termination
  by (relation "measure length") (auto dest: p_unicode_shorter)

text \<open>Numbers: an integer part, a fraction, an exponent.\<close>

definition p_int_part :: "string \<Rightarrow> string \<times> string" where
  "p_int_part s =
     (case s of
        c # cs \<Rightarrow> if c = CHR ''0'' then ([c], cs) else (takeWhile is_digit s, dropWhile is_digit s)
      | [] \<Rightarrow> ([], []))"

definition p_fraction :: "string \<Rightarrow> string \<times> string" where
  "p_fraction s =
     (case s of
        c # cs \<Rightarrow> if c = CHR ''.'' \<and> takeWhile is_digit cs \<noteq> [] then (c # takeWhile is_digit cs, dropWhile is_digit cs) else ([], s)
      | [] \<Rightarrow> ([], []))"

definition p_exponent :: "string \<Rightarrow> string \<times> string" where
  "p_exponent s =
     (case s of
        c # cs \<Rightarrow>
          if c = CHR ''e'' \<or> c = CHR ''E'' then
            (let (sign, ds) = (case cs of
                   d # ds \<Rightarrow> if d = CHR ''+'' \<or> d = CHR ''-'' then ([d], ds) else ([], cs)
                 | [] \<Rightarrow> ([], []))
             in if takeWhile is_digit ds = [] then ([], s) else (c # sign @ takeWhile is_digit ds, dropWhile is_digit ds))
          else ([], s)
      | [] \<Rightarrow> ([], []))"

definition p_number :: "string \<Rightarrow> (json \<times> string) option" where
  "p_number s =
     (let (sign, s1) = (case s of c # cs \<Rightarrow> if c = CHR ''-'' then ([c], cs) else ([], s) | [] \<Rightarrow> ([], []));
          (whole, s2) = p_int_part s1; (fraction, s3) = p_fraction s2; (ex, s4) = p_exponent s3
      in if whole = [] then None
         else if fraction = [] \<and> ex = [] then
           Some (JInt (if sign = [] then int (nat_of_digits whole) else - int (nat_of_digits whole)), s4)
         else Some (JFloat (sign @ whole @ fraction @ ex), s4))"

text \<open>Named constants.\<close>

definition p_constant :: "string \<Rightarrow> (json \<times> string) option" where
  "p_constant s =
     (if take 4 s = ''null'' then Some (JNull, drop 4 s)
      else if take 4 s = ''true'' then Some (JBool True, drop 4 s)
      else if take 5 s = ''false'' then Some (JBool False, drop 5 s)
      else if take 3 s = ''NaN'' then Some (JFloat ''NaN'', drop 3 s)
      else if take 8 s = ''Infinity'' then Some (JFloat ''Infinity'', drop 8 s)
      else if take 9 s = ''-Infinity'' then Some (JFloat ''-Infinity'', drop 9 s)
      else None)"

text \<open>Each call passes less fuel on; \<open>loads\<close> starts with more than any text can use up.\<close>

fun p_value :: "nat \<Rightarrow> string \<Rightarrow> (json \<times> string) option"
  and p_elements :: "nat \<Rightarrow> string \<Rightarrow> (json list \<times> string) option"
  and p_members :: "nat \<Rightarrow> (string \<times> json) list \<Rightarrow> string \<Rightarrow> ((string \<times> json) list \<times> string) option" where
  "p_value 0 s = None"
| "p_value (Suc n) s =
     (case s of
        [] \<Rightarrow> None
      | c # cs \<Rightarrow>
          if of_char c = (34 :: nat) then map_option (\<lambda>(x, r). (JStr x, r)) (p_chars cs)
          else if c = CHR ''{'' then
            (case skip_ws cs of
               [] \<Rightarrow> None
             | d # r \<Rightarrow> if d = CHR ''}'' then Some (JObj [], r)
                        else map_option (\<lambda>(kvs, r). (JObj kvs, r)) (p_members n [] (d # r)))
          else if c = CHR ''['' then
            (case skip_ws cs of
               [] \<Rightarrow> None
             | d # r \<Rightarrow> if d = CHR '']'' then Some (JArr [], r)
                        else map_option (\<lambda>(xs, r). (JArr xs, r)) (p_elements n (d # r)))
          else (case p_constant s of Some x \<Rightarrow> Some x | None \<Rightarrow> p_number s))"
| "p_elements 0 s = None"
| "p_elements (Suc n) s =
     (case p_value n s of
        None \<Rightarrow> None
      | Some (v, r) \<Rightarrow>
          (case skip_ws r of
             [] \<Rightarrow> None
           | c # r' \<Rightarrow>
               if c = CHR '']'' then Some ([v], r')
               else if c = CHR '','' then map_option (\<lambda>(vs, r). (v # vs, r)) (p_elements n (skip_ws r'))
               else None))"
| "p_members 0 acc s = None"
| "p_members (Suc n) acc s =
     (case s of
        [] \<Rightarrow> None
      | q # cs \<Rightarrow>
          if of_char q \<noteq> (34 :: nat) then None
          else
            (case p_chars cs of
               None \<Rightarrow> None
             | Some (k, r) \<Rightarrow>
                 (case skip_ws r of
                    [] \<Rightarrow> None
                  | c # r1 \<Rightarrow>
                      if c \<noteq> CHR '':'' then None
                      else
                        (case p_value n (skip_ws r1) of
                           None \<Rightarrow> None
                         | Some (v, r2) \<Rightarrow>
                             (case skip_ws r2 of
                                [] \<Rightarrow> None
                              | d # r3 \<Rightarrow>
                                  if d = CHR ''}'' then Some (AList.update k v acc, r3)
                                  else if d = CHR '','' then p_members n (AList.update k v acc) (skip_ws r3)
                                  else None)))))"

definition loads :: "string \<Rightarrow> exn + json" where
  "loads s =
     (case p_value (2 * length s + 2) (skip_ws s) of
        None \<Rightarrow> Inl JSONDecodeError
      | Some (v, r) \<Rightarrow> if skip_ws r = [] then Inr v else Inl JSONDecodeError)"

end
