(* ===== verification/Ipc.thy ===== *)
theory Ipc
  imports Json
begin

text \<open>
  The IPC frames, \<^verbatim>\<open>mlx_worker/ipc.py\<close>: one JSON document (or one tagged line) per
  command, event and bootstrap message.  The decoders check no types: a field holds whatever JSON value the
  frame had.  An object of a dataclass whose fields the codecs only pass on is the function from
  its field names to their values (\<open>attrs\<close>; \<open>JNull\<close> is \<open>None\<close>, also for names that are not fields).
\<close>

type_synonym attrs = "string \<Rightarrow> json"

subsection \<open>Python on decoded values\<close>

definition and_then :: "exn + 'a \<Rightarrow> ('a \<Rightarrow> exn + 'b) \<Rightarrow> exn + 'b" where
  "and_then m k = (case m of Inl e \<Rightarrow> Inl e | Inr a \<Rightarrow> k a)"

lemma and_then_simps [simp]: "and_then (Inl e) k = Inl e" "and_then (Inr a) k = k a"
  by (simp_all add: and_then_def)

fun type_name :: "json \<Rightarrow> string" where
  "type_name JNull = ''NoneType''"
| "type_name (JBool b) = ''bool''"
| "type_name (JInt i) = ''int''"
| "type_name (JFloat l) = ''float''"
| "type_name (JStr s) = ''str''"
| "type_name (JArr xs) = ''list''"
| "type_name (JObj kvs) = ''dict''"

text \<open>\<open>v.get(k, default)\<close> and \<open>v[k]\<close>.\<close>

fun py_get :: "json \<Rightarrow> string \<Rightarrow> json \<Rightarrow> exn + json" where
  "py_get (JObj kvs) k otherwise = Inr (case map_of kvs k of None \<Rightarrow> otherwise | Some v \<Rightarrow> v)"
| "py_get v k otherwise = Inl (AttributeError (py_repr (type_name v) @ '' object has no attribute '' @ py_repr ''get''))"

fun py_item :: "json \<Rightarrow> string \<Rightarrow> exn + json" where
  "py_item (JObj kvs) k = (case map_of kvs k of None \<Rightarrow> Inl (KeyError (py_repr k)) | Some v \<Rightarrow> Inr v)"
| "py_item (JStr s) k = Inl (TypeError (''string indices must be integers, not '' @ py_repr ''str''))"
| "py_item (JArr xs) k = Inl (TypeError ''list indices must be integers or slices, not str'')"
| "py_item v k = Inl (TypeError (py_repr (type_name v) @ '' object is not subscriptable''))"

fun py_iter :: "json \<Rightarrow> exn + json list" where
  "py_iter (JArr xs) = Inr xs"
| "py_iter (JObj kvs) = Inr (map (\<lambda>(k, _). JStr k) kvs)"
| "py_iter (JStr s) = Inr (map (\<lambda>n. JStr (utf8_char n)) (code_points s))"
| "py_iter v = Inl (TypeError (py_repr (type_name v) @ '' object is not iterable''))"

definition zero_literal :: "string \<Rightarrow> bool" where
  "zero_literal l \<longleftrightarrow> list_all (\<lambda>c. is_digit c \<longrightarrow> c = CHR ''0'') (takeWhile (\<lambda>c. c \<noteq> CHR ''e'' \<and> c \<noteq> CHR ''E'') l) \<and>
     list_ex is_digit l"

fun py_bool :: "json \<Rightarrow> bool" where
  "py_bool JNull = False"
| "py_bool (JBool b) = b"
| "py_bool (JInt i) = (i \<noteq> 0)"
| "py_bool (JFloat l) = (\<not> zero_literal l)"
| "py_bool (JStr s) = (s \<noteq> [])"
| "py_bool (JArr xs) = (xs \<noteq> [])"
| "py_bool (JObj kvs) = (kvs \<noteq> [])"

fun repr_json :: "json \<Rightarrow> string" where
  "repr_json JNull = ''None''"
| "repr_json (JBool b) = (if b then ''True'' else ''False'')"
| "repr_json (JInt i) = int_str i"
| "repr_json (JFloat l) = (if l = ''NaN'' then ''nan'' else if l = ''Infinity'' then ''inf''
     else if l = ''-Infinity'' then ''-inf'' else l)"
| "repr_json (JStr s) = py_repr s"
| "repr_json (JArr xs) = ''['' @ join '', '' (map repr_json xs) @ '']''"
| "repr_json (JObj kvs) = ''{'' @ join '', '' (map (\<lambda>(k, v). py_repr k @ '': '' @ repr_json v) kvs) @ ''}''"

definition py_str :: "json \<Rightarrow> string" where
  "py_str v = (case v of JStr s \<Rightarrow> s | _ \<Rightarrow> repr_json v)"

fun collect :: "('a \<Rightarrow> exn + 'b) \<Rightarrow> 'a list \<Rightarrow> exn + 'b list" where
  "collect f [] = Inr []"
| "collect f (x # xs) = and_then (f x) (\<lambda>y. and_then (collect f xs) (\<lambda>ys. Inr (y # ys)))"

text \<open>The fields of a dictionary that is an instance's \<open>asdict\<close>, and back.\<close>

definition field_items :: "string list \<Rightarrow> attrs \<Rightarrow> (string \<times> json) list" where
  "field_items names a = map (\<lambda>n. (n, a n)) names"

definition read_attrs :: "json \<Rightarrow> string list \<Rightarrow> string list \<Rightarrow> exn + attrs" where
  "read_attrs v required optional =
     and_then (collect (\<lambda>n. and_then (py_item v n) (\<lambda>x. Inr (n, x))) required) (\<lambda>req.
     and_then (collect (\<lambda>n. and_then (py_get v n JNull) (\<lambda>x. Inr (n, x))) optional) (\<lambda>opt.
       Inr (\<lambda>n. case map_of (req @ opt) n of None \<Rightarrow> JNull | Some x \<Rightarrow> x)))"

definition replace_newlines :: "string \<Rightarrow> string" where
  "replace_newlines s = map (\<lambda>c. if c = char_of (10 :: nat) then CHR '' '' else c) s"

definition frame :: "json \<Rightarrow> string" where
  "frame v = dumps v @ [char_of (10 :: nat)]"

subsection \<open>Commands\<close>

datatype content_part = TextContent json | ImageContent (image_url: json) (image_detail: json)

datatype message_content = PlainText string | PartList "content_part list"

record chat_message =
  cm_role :: json
  cm_content :: message_content

record chat_request =
  cq_request_id :: json
  cq_model :: json
  cq_messages :: "chat_message list"
  cq_max_tokens :: json
  cq_temperature :: json
  cq_top_p :: json
  cq_max_prompt_tokens :: json
  cq_max_completion_tokens :: json
  cq_max_total_tokens :: json
  cq_stop :: "string list"
  cq_stream :: json

datatype command =
    ChatCommand chat_request
  | CancelCommand json
  | BenchmarkResetCommand json bool bool

fun encode_part :: "content_part \<Rightarrow> json" where
  "encode_part (TextContent t) = JObj [(''type'', JStr ''text''), (''text'', t)]"
| "encode_part (ImageContent url detail) =
     JObj [(''type'', JStr ''image_url''), (''image_url'', JObj [(''url'', url), (''detail'', detail)])]"

fun encode_content :: "message_content \<Rightarrow> json" where
  "encode_content (PlainText s) = JStr s"
| "encode_content (PartList parts) = JArr (map encode_part parts)"

definition encode_message :: "chat_message \<Rightarrow> json" where
  "encode_message m = JObj [(''role'', cm_role m), (''content'', encode_content (cm_content m))]"

definition command_payload :: "chat_request \<Rightarrow> json" where
  "command_payload q = JObj
     [(''type'', JStr ''chat_completion''),
      (''request'', JObj
        [(''request_id'', cq_request_id q), (''model'', cq_model q),
         (''messages'', JArr (map encode_message (cq_messages q))),
         (''max_tokens'', cq_max_tokens q), (''temperature'', cq_temperature q), (''top_p'', cq_top_p q),
         (''max_prompt_tokens'', cq_max_prompt_tokens q),
         (''max_completion_tokens'', cq_max_completion_tokens q),
         (''max_total_tokens_per_request'', cq_max_total_tokens q),
         (''stop'', JArr (map JStr (cq_stop q))), (''stream'', cq_stream q)])]"

definition encode_command :: "chat_request \<Rightarrow> string" where
  "encode_command q = frame (command_payload q)"

definition decode_part :: "json \<Rightarrow> exn + content_part" where
  "decode_part item =
     and_then (py_get item ''type'' JNull) (\<lambda>item_type.
       if item_type = JStr ''text'' then and_then (py_item item ''text'') (\<lambda>t. Inr (TextContent t))
       else if item_type = JStr ''image_url'' then
         and_then (py_item item ''image_url'') (\<lambda>url_data.
         and_then (py_item url_data ''url'') (\<lambda>url.
         and_then (py_get url_data ''detail'' (JStr ''auto'')) (\<lambda>detail. Inr (ImageContent url detail))))
       else Inr (TextContent (JStr (py_str item))))"

definition decode_content :: "json \<Rightarrow> exn + message_content" where
  "decode_content raw =
     (case raw of
        JStr s \<Rightarrow> Inr (PlainText s)
      | _ \<Rightarrow> and_then (py_iter raw) (\<lambda>items. and_then (collect decode_part items) (\<lambda>parts. Inr (PartList parts))))"

definition decode_message :: "json \<Rightarrow> exn + chat_message" where
  "decode_message message =
     and_then (py_item message ''role'') (\<lambda>role.
     and_then (py_item message ''content'') (\<lambda>raw.
     and_then (decode_content raw) (\<lambda>content. Inr \<lparr>cm_role = role, cm_content = content\<rparr>)))"

definition decode_request :: "json \<Rightarrow> exn + chat_request" where
  "decode_request q =
     and_then (py_item q ''request_id'') (\<lambda>rid.
     and_then (py_item q ''model'') (\<lambda>model.
     and_then (py_item q ''messages'') (\<lambda>raw_messages.
     and_then (py_iter raw_messages) (\<lambda>items.
     and_then (collect decode_message items) (\<lambda>messages.
     and_then (py_item q ''max_tokens'') (\<lambda>max_tokens.
     and_then (py_item q ''temperature'') (\<lambda>temp.
     and_then (py_item q ''top_p'') (\<lambda>topp.
     and_then (py_item q ''max_prompt_tokens'') (\<lambda>max_prompt.
     and_then (py_item q ''max_completion_tokens'') (\<lambda>max_completion.
     and_then (py_item q ''max_total_tokens_per_request'') (\<lambda>max_total.
     and_then (py_get q ''stop'' (JArr [])) (\<lambda>raw_stop.
     and_then (py_iter raw_stop) (\<lambda>stops.
     and_then (py_get q ''stream'' (JBool False)) (\<lambda>stream.
       Inr \<lparr>cq_request_id = rid, cq_model = model, cq_messages = messages, cq_max_tokens = max_tokens,
            cq_temperature = temp, cq_top_p = topp, cq_max_prompt_tokens = max_prompt,
            cq_max_completion_tokens = max_completion, cq_max_total_tokens = max_total,
            cq_stop = map py_str stops, cq_stream = stream\<rparr>))))))))))))))"

definition decode_command :: "string \<Rightarrow> exn + command option" where
  "decode_command raw_line =
     and_then (decode_utf8 raw_line) (\<lambda>line. and_then (loads line) (\<lambda>payload.
     and_then (py_get payload ''type'' JNull) (\<lambda>kind.
       if kind \<noteq> JStr ''chat_completion'' then
         if kind = JStr ''cancel_request'' then
           and_then (py_item payload ''request_id'') (\<lambda>rid. Inr (Some (CancelCommand rid)))
         else if kind = JStr ''benchmark_reset'' then
           and_then (py_item payload ''request_id'') (\<lambda>rid.
           and_then (py_get payload ''clear_cache'' (JBool True)) (\<lambda>clear.
           and_then (py_get payload ''reset_counters'' (JBool True)) (\<lambda>reset.
             Inr (Some (BenchmarkResetCommand rid (py_bool clear) (py_bool reset))))))
         else Inr None
       else
         and_then (py_item payload ''request'') (\<lambda>q.
         and_then (decode_request q) (\<lambda>request. Inr (Some (ChatCommand request)))))))"

definition encode_cancel_request :: "string \<Rightarrow> string" where
  "encode_cancel_request rid = frame (JObj [(''type'', JStr ''cancel_request''), (''request_id'', JStr rid)])"

definition has_image_content :: "message_content \<Rightarrow> bool" where
  "has_image_content c =
     (case c of PlainText _ \<Rightarrow> False
      | PartList parts \<Rightarrow> list_ex (\<lambda>p. case p of ImageContent _ _ \<Rightarrow> True | TextContent _ \<Rightarrow> False) parts)"

definition request_has_images :: "chat_request \<Rightarrow> bool" where
  "request_has_images q = list_ex (\<lambda>m. has_image_content (cm_content m)) (cq_messages q)"

subsection \<open>Events\<close>

text \<open>The fields of \<^verbatim>\<open>ChatCompletionResponse\<close> and \<^verbatim>\<open>SchedulerMetricsEvent\<close>: without and with a default; the
  names the encoder writes into the nested response and beside it; the names the decoder reads.\<close>

definition response_required :: "string list" where
  "response_required =
     [''request_id'', ''model'', ''text'', ''finish_reason'', ''prompt_tokens'',
      ''completion_tokens'']"

definition response_optional :: "string list" where
  "response_optional =
     [''image_count'', ''image_preprocess_latency_ms'', ''prompt_template_latency_ms'',
      ''prompt_cache_hit'', ''cached_tokens'', ''prompt_cache_bytes'',
      ''active_batch_cache_bytes'', ''prompt_batch_size'', ''decode_batch_size'',
      ''configured_prompt_batch_size'', ''configured_decode_batch_size'', ''backend'',
      ''modality'', ''apc_mode'', ''scheduler_stage'', ''cancellation_stage'',
      ''queue_time_ms'', ''gateway_queue_wait_ms'', ''scheduler_queue_wait_ms'',
      ''prefill_time_ms'', ''ttft_ms'', ''decode_time_ms'', ''completion_time_ms'',
      ''scheduler_tick_latency_ms'', ''cancellation_latency_ms'', ''arbitration_delay_ms'',
      ''worker_cancellation_count'', ''worker_error_count'', ''vision_feature_cache_hit'',
      ''vision_feature_cache_bytes'', ''vision_feature_cache_entries'',
      ''vision_feature_cache_evictions'', ''vision_encoder_latency_ms'',
      ''embedding_latency_ms'', ''prompt_cache_entries'', ''prompt_cache_evictions'',
      ''peak_memory_bytes'', ''image_width'', ''image_height'']"

definition response_payload_names :: "string list" where
  "response_payload_names =
     [''request_id'', ''model'', ''text'', ''finish_reason'', ''prompt_tokens'',
      ''completion_tokens'', ''image_count'', ''image_preprocess_latency_ms'',
      ''prompt_template_latency_ms'', ''prompt_cache_hit'', ''cached_tokens'',
      ''prompt_cache_bytes'', ''active_batch_cache_bytes'', ''prompt_batch_size'',
      ''decode_batch_size'', ''backend'', ''scheduler_stage'', ''cancellation_stage'',
      ''queue_time_ms'', ''gateway_queue_wait_ms'', ''scheduler_queue_wait_ms'',
      ''prefill_time_ms'', ''ttft_ms'', ''decode_time_ms'', ''completion_time_ms'',
      ''cancellation_latency_ms'', ''vision_feature_cache_hit'',
      ''vision_feature_cache_bytes'', ''vision_feature_cache_entries'',
      ''vision_feature_cache_evictions'', ''prompt_cache_entries'', ''prompt_cache_evictions'',
      ''peak_memory_bytes'', ''image_width'', ''image_height'', ''vision_encoder_latency_ms'',
      ''embedding_latency_ms'']"

definition response_top_names :: "string list" where
  "response_top_names =
     [''image_count'', ''image_preprocess_latency_ms'', ''prompt_template_latency_ms'',
      ''prompt_cache_hit'', ''cached_tokens'', ''prompt_cache_bytes'',
      ''active_batch_cache_bytes'', ''prompt_batch_size'', ''decode_batch_size'',
      ''configured_prompt_batch_size'', ''configured_decode_batch_size'', ''backend'',
      ''modality'', ''apc_mode'', ''scheduler_stage'', ''cancellation_stage'',
      ''queue_time_ms'', ''gateway_queue_wait_ms'', ''scheduler_queue_wait_ms'',
      ''prefill_time_ms'', ''ttft_ms'', ''decode_time_ms'', ''completion_time_ms'',
      ''scheduler_tick_latency_ms'', ''cancellation_latency_ms'', ''arbitration_delay_ms'',
      ''worker_cancellation_count'', ''worker_error_count'', ''vision_feature_cache_hit'',
      ''vision_feature_cache_bytes'', ''vision_feature_cache_entries'',
      ''vision_feature_cache_evictions'', ''vision_encoder_latency_ms'',
      ''embedding_latency_ms'', ''prompt_cache_entries'', ''prompt_cache_evictions'',
      ''peak_memory_bytes'', ''image_width'', ''image_height'']"

definition response_read_names :: "string list" where
  "response_read_names =
     [''image_count'', ''image_preprocess_latency_ms'', ''prompt_template_latency_ms'',
      ''prompt_cache_hit'', ''cached_tokens'', ''prompt_cache_bytes'',
      ''active_batch_cache_bytes'', ''prompt_batch_size'', ''decode_batch_size'', ''backend'',
      ''scheduler_stage'', ''cancellation_stage'', ''queue_time_ms'',
      ''gateway_queue_wait_ms'', ''scheduler_queue_wait_ms'', ''prefill_time_ms'', ''ttft_ms'',
      ''decode_time_ms'', ''completion_time_ms'', ''cancellation_latency_ms'',
      ''vision_feature_cache_hit'', ''vision_feature_cache_bytes'',
      ''vision_encoder_latency_ms'', ''embedding_latency_ms'']"

definition metrics_required :: "string list" where
  "metrics_required =
     [''backend'', ''modality'', ''phase'', ''scheduled_tokens'', ''batch_size'',
      ''waiting_requests'', ''running_requests'', ''scheduler_tick_latency_ms'']"

definition metrics_optional :: "string list" where
  "metrics_optional =
     [''scheduler_select_ms'', ''scheduler_cache_probe_ms'', ''scheduler_cache_acquire_ms'',
      ''scheduler_cache_publish_ms'', ''scheduler_apply_ms'', ''scheduler_queue_wait_ms'',
      ''cancellation_latency_ms'', ''scheduling_policy'', ''execution_mode'', ''forward_mode'',
      ''physical_batch_size'', ''model_forward_count'', ''cache_backend'',
      ''attention_backend'', ''attention_mode'', ''attention_time_ms'',
      ''executor_prepare_ms'', ''executor_reserve_ms'', ''executor_forward_ms'',
      ''executor_sample_ms'', ''executor_dispatch_ms'', ''executor_eval_ms'',
      ''executor_commit_ms'', ''model_graph_embedding_ms'',
      ''model_graph_projection_total_ms'', ''model_graph_attention_ms'',
      ''model_graph_mlp_total_ms'', ''model_graph_norm_ms'', ''model_graph_lm_head_ms'',
      ''model_graph_layer_total_ms'', ''model_graph_worst_layer_ms'',
      ''model_graph_worst_layer_index'', ''total_pages'', ''used_pages'', ''free_pages'',
      ''pinned_pages'', ''internal_fragmentation_tokens'', ''active_kv_bytes'',
      ''allocation_failures'', ''page_size'', ''prefix_strategy'', ''prefix_queries'',
      ''prefix_hits'', ''prefix_misses'', ''prefix_reused_tokens'', ''prefix_reused_pages'',
      ''prefix_entries'', ''prefix_bytes'', ''prefix_pinned_pages'',
      ''prefix_collisions_rejected'', ''prefix_evictions'', ''radix_nodes'', ''radix_splits'',
      ''radix_shared_pages'', ''radix_protected_pages'', ''radix_evictable_pages'',
      ''radix_tree_depth'', ''radix_leaf_evictions'']"

datatype worker_event =
    WorkerResponse attrs
  | WorkerDelta (delta_request_id: json) (delta_text: json)
  | WorkerFailure (failure_code: json) (failure_request_id: json) (failure_message: json)
  | WorkerMetrics attrs
  | WorkerReset (reset_request_id: json) (reset_idle: json) (reset_cache_state: "(string \<times> json) list")
      (reset_model_preserved: json) (reset_graphs_preserved: json)

fun event_payload :: "worker_event \<Rightarrow> json" where
  "event_payload (WorkerResponse r) = JObj
     ([(''type'', JStr ''chat_completion''), (''response'', JObj (field_items response_payload_names r))] @
      field_items response_top_names r)"
| "event_payload (WorkerDelta rid d) = JObj
     [(''type'', JStr ''chat_completion_delta''), (''delta'', JObj [(''request_id'', rid), (''delta'', d)])]"
| "event_payload (WorkerFailure code rid message) = JObj
     [(''type'', JStr ''error''), (''code'', code), (''request_id'', rid),
      (''message'', (case message of JStr m \<Rightarrow> JStr (replace_newlines m) | v \<Rightarrow> v))]"
| "event_payload (WorkerMetrics m) = JObj
     [(''type'', JStr ''scheduler_metrics''), (''metrics'', JObj (field_items (metrics_required @ metrics_optional) m))]"
| "event_payload (WorkerReset rid idle cache model_ok graphs_ok) = JObj
     [(''type'', JStr ''benchmark_reset''),
      (''state'', JObj [(''request_id'', rid), (''scheduler_idle'', idle), (''cache_state'', JObj cache),
        (''model_preserved'', model_ok), (''graphs_preserved'', graphs_ok)])]"

text \<open>The message of a failure has to be a string: \<open>replace\<close> is called on it.\<close>

definition encode_event :: "worker_event \<Rightarrow> exn + string" where
  "encode_event e =
     (case e of
        WorkerFailure code rid message \<Rightarrow>
          if type_name message = ''str'' then Inr (frame (event_payload e))
          else Inl (AttributeError (py_repr (type_name message) @ '' object has no attribute '' @ py_repr ''replace''))
      | _ \<Rightarrow> Inr (frame (event_payload e)))"

text \<open>\<open>dict(v)\<close> of what the encoder writes there, a dictionary; other arguments are not modelled.\<close>

definition py_dict :: "json \<Rightarrow> exn + (string \<times> json) list" where
  "py_dict v = (case v of JObj kvs \<Rightarrow> Inr kvs | _ \<Rightarrow> Inl (TypeError ''not a dictionary''))"

definition decode_event :: "string \<Rightarrow> exn + worker_event option" where
  "decode_event raw_line =
     and_then (decode_utf8 raw_line) (\<lambda>line. and_then (loads line) (\<lambda>payload.
     and_then (py_get payload ''type'' JNull) (\<lambda>kind.
       if kind = JStr ''chat_completion'' then
         and_then (py_item payload ''response'') (\<lambda>response.
         and_then (read_attrs response response_required response_read_names) (\<lambda>r. Inr (Some (WorkerResponse r))))
       else if kind = JStr ''chat_completion_delta'' then
         and_then (py_item payload ''delta'') (\<lambda>delta.
         and_then (py_item delta ''request_id'') (\<lambda>rid.
         and_then (py_item delta ''delta'') (\<lambda>d. Inr (Some (WorkerDelta rid d)))))
       else if kind = JStr ''error'' then
         and_then (py_item payload ''code'') (\<lambda>code.
         and_then (py_item payload ''request_id'') (\<lambda>rid.
         and_then (py_item payload ''message'') (\<lambda>message.
           Inr (Some (WorkerFailure code rid message)))))
       else if kind = JStr ''scheduler_metrics'' then
         and_then (py_item payload ''metrics'') (\<lambda>metrics.
         and_then (read_attrs metrics metrics_required metrics_optional) (\<lambda>m. Inr (Some (WorkerMetrics m))))
       else if kind = JStr ''benchmark_reset'' then
         and_then (py_item payload ''state'') (\<lambda>state.
         and_then (py_item state ''request_id'') (\<lambda>rid.
         and_then (py_item state ''scheduler_idle'') (\<lambda>idle.
         and_then (py_item state ''cache_state'') (\<lambda>raw_cache.
         and_then (py_dict raw_cache) (\<lambda>cache.
         and_then (py_item state ''model_preserved'') (\<lambda>model_ok.
         and_then (py_item state ''graphs_preserved'') (\<lambda>graphs_ok.
           Inr (Some (WorkerReset rid idle cache model_ok graphs_ok)))))))))
       else Inr None)))"

subsection \<open>Bootstrap messages\<close>

record model_status =
  ms_attrs :: attrs
  ms_progress :: "attrs option"
  ms_last_error :: "attrs option"

datatype bootstrap_message =
    WorkerReady
  | WorkerError string "attrs option"
  | StatusMessage model_status

definition error_required :: "string list" where
  "error_required = [''code'', ''message'', ''at'']"

definition error_optional :: "string list" where
  "error_optional = [''backend'', ''stage'', ''category'', ''detail'']"

definition progress_names :: "string list" where
  "progress_names = [''downloaded_bytes'', ''total_bytes'', ''loaded_tensors'', ''total_tensors'', ''current_phase'']"

definition asdict :: "string list \<Rightarrow> attrs option \<Rightarrow> json" where
  "asdict names ao = (case ao of None \<Rightarrow> JNull | Some a \<Rightarrow> JObj (field_items names a))"

definition status_payload :: "model_status \<Rightarrow> json" where
  "status_payload st = JObj
     (field_items [''model'', ''revision'', ''state'', ''ready'', ''servable''] (ms_attrs st) @
      [(''progress'', asdict progress_names (ms_progress st))] @
      field_items [''device'', ''dtype'', ''loaded_at'', ''started_loading_at'', ''last_transition_at''] (ms_attrs st) @
      [(''last_error'', asdict (error_required @ error_optional) (ms_last_error st))] @
      field_items [''warmup_passed'', ''last_warmup_at'', ''last_warmup_latency_ms''] (ms_attrs st))"

definition tab :: char where "tab = char_of (9 :: nat)"

fun encode_bootstrap_message :: "bootstrap_message \<Rightarrow> string" where
  "encode_bootstrap_message WorkerReady = ''READY'' @ [char_of (10 :: nat)]"
| "encode_bootstrap_message (WorkerError message None) =
     ''ERROR'' @ [tab] @ replace_newlines message @ [char_of (10 :: nat)]"
| "encode_bootstrap_message (WorkerError message (Some e)) =
     ''ERROR'' @ [tab] @ dumps (JObj [(''message'', JStr (replace_newlines message)),
        (''error'', JObj (field_items (error_required @ error_optional) e))]) @ [char_of (10 :: nat)]"
| "encode_bootstrap_message (StatusMessage st) =
     ''STATUS'' @ [tab] @ dumps (status_payload st) @ [char_of (10 :: nat)]"

definition model_error_from_dict :: "json \<Rightarrow> exn + attrs option" where
  "model_error_from_dict data =
     (if data = JNull then Inr None
      else and_then (read_attrs data error_required error_optional) (\<lambda>a. Inr (Some a)))"

definition model_progress_from_dict :: "json \<Rightarrow> exn + attrs option" where
  "model_progress_from_dict data =
     (if data = JNull then Inr None
      else and_then (read_attrs data [] progress_names) (\<lambda>a. Inr (Some a)))"

text \<open>The reads of the \<open>ModelStatus\<close> call, in order; the values are put together afterwards.\<close>

definition decode_status :: "json \<Rightarrow> exn + model_status" where
  "decode_status payload =
     and_then (read_attrs payload [''model''] [''revision'']) (\<lambda>a1.
     and_then (read_attrs payload [''state'', ''ready'', ''servable''] []) (\<lambda>a2.
     and_then (py_get payload ''progress'' JNull) (\<lambda>raw_progress.
     and_then (model_progress_from_dict raw_progress) (\<lambda>progress.
     and_then (read_attrs payload [] [''device'', ''dtype'', ''loaded_at'', ''started_loading_at'']) (\<lambda>a3.
     and_then (read_attrs payload [''last_transition_at''] []) (\<lambda>a4.
     and_then (py_get payload ''last_error'' JNull) (\<lambda>raw_error.
     and_then (model_error_from_dict raw_error) (\<lambda>last_error.
     and_then (read_attrs payload [''warmup_passed''] [''last_warmup_at'', ''last_warmup_latency_ms'']) (\<lambda>a5.
       Inr \<lparr>ms_attrs = (\<lambda>n. if n \<in> {''model'', ''revision''} then a1 n
                else if n \<in> {''state'', ''ready'', ''servable''} then a2 n
                else if n \<in> {''device'', ''dtype'', ''loaded_at'', ''started_loading_at''} then a3 n
                else if n = ''last_transition_at'' then a4 n else a5 n),
            ms_progress = progress, ms_last_error = last_error\<rparr>)))))))))"

definition decode_bootstrap_message :: "string \<Rightarrow> exn + bootstrap_message option" where
  "decode_bootstrap_message raw_line =
     (let line = strip (decode_replace raw_line)
      in if line = ''READY'' then Inr (Some WorkerReady)
         else if take 6 line = ''ERROR'' @ [tab] then
           (let payload = drop 6 line
            in case loads payload of
                 Inl _ \<Rightarrow> Inr (Some (WorkerError payload None))
               | Inr (JObj kvs) \<Rightarrow>
                   and_then (py_get (JObj kvs) ''message'' (JStr payload)) (\<lambda>message.
                   and_then (py_get (JObj kvs) ''error'' JNull) (\<lambda>data.
                   and_then (model_error_from_dict data) (\<lambda>e. Inr (Some (WorkerError (py_str message) e)))))
               | Inr _ \<Rightarrow> Inr (Some (WorkerError payload None)))
         else if take 7 line = ''STATUS'' @ [tab] then
           and_then (loads (drop 7 line)) (\<lambda>payload.
           and_then (decode_status payload) (\<lambda>st. Inr (Some (StatusMessage st))))
         else Inr None)"

end
