(* ===== verification/JsonProps.thy ===== *)
theory JsonProps
  imports Json
begin

text \<open>
  Reading back what \<open>json.dumps\<close> wrote: \<open>loads (dumps v) = Inr v\<close>, for every value with distinct keys,
  well-formed float literals and strings without surrogates.
\<close>

subsection \<open>Strings\<close>

lemma hex_value_digit: "d < 16 \<Longrightarrow> hex_value (hex_digit d) = Some d"
  by (simp add: hex_digit_def hex_value_def Let_def)

lemma p_hex4_escape:
  assumes "v < 65536"
  shows "p_hex4 (hex_digit (v div 4096 mod 16) # hex_digit (v div 256 mod 16) # hex_digit (v div 16 mod 16) # hex_digit (v mod 16) # t) =
    Some (v, t)"
proof -
  have "v div 4096 < 16" using assms by linarith
  then have "v div 4096 mod 16 = v div 4096" by simp
  moreover have "v div 256 div 16 = v div 4096" "v div 16 div 16 = v div 256" by (simp_all add: div_mult2_eq [symmetric])
  ultimately have "((v div 4096 mod 16 * 16 + v div 256 mod 16) * 16 + v div 16 mod 16) * 16 + v mod 16 = v"
    by (metis div_mult_mod_eq)
  note e = this
  have "p_hex4 (hex_digit a # hex_digit b # hex_digit c # hex_digit d # t) = Some (((a * 16 + b) * 16 + c) * 16 + d, t)"
    if "a < 16" "b < 16" "c < 16" "d < 16" for a b c d using that by (simp add: p_hex4_def hex_value_digit)
  from this [of "v div 4096 mod 16" "v div 256 mod 16" "v div 16 mod 16" "v mod 16", unfolded e] show ?thesis by simp
qed

lemma p_unicode_escape:
  assumes "v < 65536" "\<not> (55296 \<le> v \<and> v \<le> 56319)"
  shows "p_unicode (drop 2 (u_escape v) @ t) = Some (v, t)"
  using assms(2) p_hex4_escape [OF assms(1)] by (auto simp: p_unicode_def u_escape_def)

lemma p_unicode_pair:
  assumes "65536 \<le> n" "n < 1114112"
  shows "p_unicode (drop 2 (u_escape (55296 + (n - 65536) div 1024)) @ u_escape (56320 + (n - 65536) mod 1024) @ t) = Some (n, t)"
proof -
  let ?m = "n - 65536"
  have d: "?m div 1024 < 1024" using assms(2) by linarith
  have m: "?m mod 1024 < 1024" by simp
  have "65536 + ?m div 1024 * 1024 + ?m mod 1024 = n" using assms(1) div_mult_mod_eq [of ?m 1024] by linarith
  then show ?thesis
    using d m p_hex4_escape [of "55296 + ?m div 1024"] p_hex4_escape [of "56320 + ?m mod 1024"]
    by (simp add: p_unicode_def u_escape_def del: div_less mod_less)
qed

lemma p_chars_u:
  assumes "p_unicode (drop 2 e @ t) = Some (n, r)" "take 2 e = [char_of (92 :: nat), CHR ''u'']"
  shows "p_chars (e @ t) = map_option (\<lambda>(x, r). (utf8_char n @ x, r)) (p_chars r)"
proof -
  have "e = char_of (92 :: nat) # CHR ''u'' # drop 2 e" using assms(2) by (metis append_Cons append_Nil append_take_drop_id)
  then have "p_chars (e @ t) = p_chars (char_of (92 :: nat) # CHR ''u'' # (drop 2 e @ t))" by (metis append_Cons)
  then show ?thesis using assms(1) by (simp add: Let_def)
qed

lemma p_chars_escape:
  assumes "scalar n"
  shows "p_chars (json_escape n @ t) = map_option (\<lambda>(x, r). (utf8_char n @ x, r)) (p_chars t)"
proof -
  have quote: "char_of (34 :: nat) \<noteq> CHR ''u''" "char_of (92 :: nat) \<noteq> CHR ''u''" by code_simp+
  have unescaped: "unescape (char_of (34 :: nat)) = Some (char_of (34 :: nat))" "unescape (char_of (92 :: nat)) = Some (char_of (92 :: nat))"
    "unescape CHR ''n'' = Some (char_of (10 :: nat))" "unescape CHR ''r'' = Some (char_of (13 :: nat))"
    "unescape CHR ''t'' = Some (char_of (9 :: nat))" "unescape CHR ''f'' = Some (char_of (12 :: nat))"
    "unescape CHR ''b'' = Some (char_of (8 :: nat))" by (simp_all add: unescape_def)
  consider "n = 34" | "n = 92" | "n = 10" | "n = 13" | "n = 9" | "n = 12" | "n = 8"
    | "32 \<le> n" "n \<le> 126" "n \<noteq> 34" "n \<noteq> 92" | "n \<noteq> 34" "n \<noteq> 92" "n \<noteq> 10" "n \<noteq> 13" "n \<noteq> 9" "n \<noteq> 12" "n \<noteq> 8" "\<not> (32 \<le> n \<and> n \<le> 126)"
    by linarith
  then show ?thesis
  proof cases
    case 8
    then have "of_char (char_of n :: char) = n" by simp
    then show ?thesis using 8 by (simp add: json_escape_def utf8_char_def Let_def)
  next
    case 9
    show ?thesis
    proof (cases "n < 65536")
      case True
      then have "json_escape n = u_escape n" using 9 by (auto simp: json_escape_def)
      moreover have "p_unicode (drop 2 (u_escape n) @ t) = Some (n, t)"
        by (rule p_unicode_escape) (use True assms in \<open>auto simp: scalar_def\<close>)
      ultimately show ?thesis using p_chars_u [of "u_escape n" t n t] by (simp add: u_escape_def)
    next
      case False
      let ?h = "u_escape (55296 + (n - 65536) div 1024)" and ?l = "u_escape (56320 + (n - 65536) mod 1024)"
      have "json_escape n = ?h @ ?l" using 9 False by (auto simp: json_escape_def)
      moreover have "p_unicode (drop 2 ?h @ ?l @ t) = Some (n, t)"
        using p_unicode_pair [of n t] False assms by (simp add: scalar_def)
      ultimately show ?thesis using p_chars_u [of ?h "?l @ t" n t] by (simp add: u_escape_def)
    qed
  qed (simp_all add: json_escape_def quote unescaped utf8_char_def)
qed

lemma p_chars_points:
  "list_all scalar ns \<Longrightarrow> p_chars (concat (map json_escape ns) @ char_of (34 :: nat) # r) = Some (of_points ns, r)"
  by (induction ns) (simp_all add: p_chars_escape Let_def)

lemma p_chars_string:
  "utf8 s \<Longrightarrow> p_chars (concat (map json_escape (code_points s)) @ char_of (34 :: nat) # r) = Some (s, r)"
  using p_chars_points [of "code_points s" r] by (simp add: utf8_def)

lemma json_string_Cons: "json_string s @ r = char_of (34 :: nat) # concat (map json_escape (code_points s)) @ char_of (34 :: nat) # r"
  by (simp add: json_string_def)

subsection \<open>Numbers\<close>

lemma nat_str_digits: "c \<in> set (nat_str n) \<Longrightarrow> is_digit c"
proof (induction n rule: nat_str.induct)
  case (1 n)
  then show ?case by (subst (asm) (2) nat_str.simps) (auto simp: is_digit_def Let_def split: if_splits)
qed

lemma nat_str_ne: "nat_str n \<noteq> []"
  by (subst nat_str.simps) simp

lemma nat_str_0: "nat_str 0 = ''0''"
  by code_simp

lemma nat_str_hd: "0 < n \<Longrightarrow> hd (nat_str n) \<noteq> CHR ''0''"
proof (induction n rule: nat_str.induct)
  case (1 n)
  show ?case
  proof (cases "n < 10")
    case True
    then have "of_char (hd (nat_str n)) = (48 + n :: nat)" by (subst nat_str.simps) simp
    moreover have "of_char (CHR ''0'') = (48 :: nat)" by simp
    ultimately show ?thesis using 1(2) by (metis less_irrefl add.right_neutral add_left_cancel)
  next
    case False
    then have "hd (nat_str n) = hd (nat_str (n div 10))" by (subst nat_str.simps) (simp add: nat_str_ne)
    then show ?thesis using 1(1) False by simp
  qed
qed

lemma nat_of_digits_str: "nat_of_digits (nat_str n) = n"
proof (induction n rule: nat_str.induct)
  case (1 n)
  then show ?case by (subst nat_str.simps) (auto simp: nat_of_digits_def digit_of_def)
qed

text \<open>What follows a value in a frame.\<close>

definition ends :: "string \<Rightarrow> bool" where
  "ends r \<longleftrightarrow> (case r of [] \<Rightarrow> True | c # _ \<Rightarrow> c = CHR '','' \<or> c = CHR '']'' \<or> c = CHR ''}'' \<or> c = char_of (10 :: nat))"

definition digits :: "string \<Rightarrow> bool" where
  "digits ds \<longleftrightarrow> ds \<noteq> [] \<and> list_all is_digit ds"

lemma take_digits: "list_all is_digit ds \<Longrightarrow> (r = [] \<or> \<not> is_digit (hd r)) \<Longrightarrow>
    takeWhile is_digit (ds @ r) = ds \<and> dropWhile is_digit (ds @ r) = r"
  by (induction ds) (auto simp: takeWhile_eq_Nil_iff dropWhile_eq_self_iff)

text \<open>The literal of a float: an integer part, and a fraction or an exponent.\<close>

definition fraction_ok :: "string \<Rightarrow> bool" where
  "fraction_ok f \<longleftrightarrow> (case f of [] \<Rightarrow> True | c # ds \<Rightarrow> c = CHR ''.'' \<and> digits ds)"

definition exponent_ok :: "string \<Rightarrow> bool" where
  "exponent_ok e \<longleftrightarrow> (case e of [] \<Rightarrow> True
     | c # r \<Rightarrow> (c = CHR ''e'' \<or> c = CHR ''E'') \<and> (digits r \<or> (\<exists>d ds. r = d # ds \<and> (d = CHR ''+'' \<or> d = CHR ''-'') \<and> digits ds)))"

definition whole_ok :: "string \<Rightarrow> bool" where
  "whole_ok w \<longleftrightarrow> w = ''0'' \<or> digits w \<and> hd w \<noteq> CHR ''0''"

definition float_literal :: "string \<Rightarrow> bool" where
  "float_literal l \<longleftrightarrow> l = ''NaN'' \<or> l = ''Infinity'' \<or> l = ''-Infinity'' \<or>
     (\<exists>sign whole fraction ex. l = sign @ whole @ fraction @ ex \<and> (sign = [] \<or> sign = ''-'') \<and> whole_ok whole \<and>
        fraction_ok fraction \<and> exponent_ok ex \<and> (fraction \<noteq> [] \<or> ex \<noteq> []))"

lemma not_digit: "\<not> is_digit CHR ''.''" "\<not> is_digit CHR ''e''" "\<not> is_digit CHR ''E''" "\<not> is_digit CHR '',''"
  "\<not> is_digit CHR '']''" "\<not> is_digit CHR ''}''" "\<not> is_digit (char_of (10 :: nat))" "\<not> is_digit CHR ''-''" "\<not> is_digit CHR ''+''"
  by (simp_all add: is_digit_def Let_def)

lemma newline: "char_of (10 :: nat) \<noteq> CHR ''.''" "char_of (10 :: nat) \<noteq> CHR ''e''" "char_of (10 :: nat) \<noteq> CHR ''E''"
  "json_ws (char_of (10 :: nat))"
  by code_simp+

lemma p_int_part_ok: "whole_ok w \<Longrightarrow> (r = [] \<or> \<not> is_digit (hd r)) \<Longrightarrow> p_int_part (w @ r) = (w, r)"
  using take_digits [of w r] by (auto simp: whole_ok_def p_int_part_def digits_def neq_Nil_conv)

lemma p_fraction_ok:
  assumes "fraction_ok f" "r = [] \<or> \<not> is_digit (hd r) \<and> hd r \<noteq> CHR ''.''"
  shows "p_fraction (f @ r) = (f, r)"
proof (cases f)
  case Nil
  then show ?thesis using assms(2) by (cases r) (auto simp: p_fraction_def)
next
  case (Cons c ds)
  then show ?thesis using assms take_digits [of ds r] take_digits [of ds "[]"]
    by (auto simp: p_fraction_def fraction_ok_def digits_def)
qed

lemma p_exponent_ok:
  assumes "exponent_ok e" "ends r"
  shows "p_exponent (e @ r) = (e, r)"
proof -
  have r: "r = [] \<or> \<not> is_digit (hd r)" using assms(2) not_digit by (auto simp: ends_def split: list.splits)
  show ?thesis
  proof (cases e)
    case Nil
    then show ?thesis using assms(2) newline by (auto simp: p_exponent_def ends_def split: list.splits)
  next
    case (Cons c x)
    then have c: "c = CHR ''e'' \<or> c = CHR ''E''" using assms(1) by (simp add: exponent_ok_def)
    consider "digits x" | d ds where "x = d # ds" "d = CHR ''+'' \<or> d = CHR ''-''" "digits ds"
      using assms(1) Cons by (auto simp: exponent_ok_def)
    then show ?thesis
    proof cases
      case 1
      then obtain d ds where "x = d # ds" "is_digit d" by (cases x) (auto simp: digits_def)
      then show ?thesis using 1 c take_digits [of x r] r not_digit by (auto simp: p_exponent_def Cons digits_def)
    next
      case 2
      then show ?thesis using c take_digits [of ds r] r by (auto simp: p_exponent_def Cons digits_def)
    qed
  qed
qed

lemma whole_hd: "whole_ok w \<Longrightarrow> w \<noteq> [] \<and> is_digit (hd w)"
  by (cases w) (auto simp: whole_ok_def digits_def is_digit_def)

lemma p_number_ok:
  assumes "sign = [] \<or> sign = ''-''" "whole_ok whole" "fraction_ok fraction" "exponent_ok ex" "ends r"
  shows "p_number (sign @ whole @ fraction @ ex @ r) =
    Some (if fraction = [] \<and> ex = [] then JInt (if sign = [] then int (nat_of_digits whole) else - int (nat_of_digits whole))
          else JFloat (sign @ whole @ fraction @ ex), r)"
proof -
  have e: "ex @ r = [] \<or> \<not> is_digit (hd (ex @ r)) \<and> hd (ex @ r) \<noteq> CHR ''.''"
    using assms(4,5) not_digit newline by (cases ex) (auto simp: exponent_ok_def ends_def split: list.splits)
  have f: "fraction @ ex @ r = [] \<or> \<not> is_digit (hd (fraction @ ex @ r))"
    using assms(3) e not_digit by (cases fraction) (auto simp: fraction_ok_def)
  have w: "whole \<noteq> []" "hd whole \<noteq> CHR ''-''" using whole_hd [OF assms(2)] not_digit by auto
  have s: "(case sign @ whole @ fraction @ ex @ r of c # cs \<Rightarrow> if c = CHR ''-'' then ([c], cs) else ([], sign @ whole @ fraction @ ex @ r)
      | [] \<Rightarrow> ([], [])) = (sign, whole @ fraction @ ex @ r)"
    using assms(1) w by (cases whole) auto
  show ?thesis
    unfolding p_number_def s Let_def prod.case p_int_part_ok [OF assms(2) f] p_fraction_ok [OF assms(3) e]
      p_exponent_ok [OF assms(4,5)]
    using w by simp
qed

subsection \<open>Values\<close>

fun json_wf :: "json \<Rightarrow> bool" where
  "json_wf (JFloat l) = float_literal l"
| "json_wf (JStr s) = utf8 s"
| "json_wf (JArr xs) = list_all json_wf xs"
| "json_wf (JObj kvs) = (distinct (map fst kvs) \<and> list_all (\<lambda>(k, v). utf8 k \<and> json_wf v) kvs)"
| "json_wf _ = True"

text \<open>The fuel that reading a value back takes.\<close>

fun need :: "json \<Rightarrow> nat" where
  "need (JArr xs) = Suc (sum_list (map (\<lambda>x. Suc (need x)) xs))"
| "need (JObj kvs) = Suc (sum_list (map (\<lambda>(k, v). Suc (need v)) kvs))"
| "need _ = 1"

lemma digit_letter: "is_digit c \<Longrightarrow> c \<noteq> CHR ''n'' \<and> c \<noteq> CHR ''t'' \<and> c \<noteq> CHR ''f'' \<and> c \<noteq> CHR ''N'' \<and> c \<noteq> CHR ''I'' \<and> c \<noteq> CHR ''-''"
  by (auto simp: is_digit_def)

lemma p_constant_digit: "is_digit c \<Longrightarrow> p_constant (c # cs) = None"
  using digit_letter [of c] by (simp add: p_constant_def)

lemma p_constant_minus: "is_digit c \<Longrightarrow> p_constant (CHR ''-'' # c # cs) = None"
  using digit_letter [of c] by (simp add: p_constant_def)

lemma digit_head: "is_digit c \<Longrightarrow> \<not> json_ws c \<and> c \<noteq> CHR '']'' \<and> c \<noteq> CHR ''}'' \<and> c \<noteq> CHR ''{'' \<and> c \<noteq> CHR ''['' \<and> of_char c \<noteq> (34 :: nat)"
  by (auto simp: is_digit_def json_ws_def Let_def)

lemma whole_nat: "whole_ok (nat_str n)"
  using nat_str_hd [of n] nat_str_0 nat_str_ne [of n] nat_str_digits [of _ n]
  by (cases "n = 0") (auto simp: whole_ok_def digits_def list_all_iff)

lemma int_str_parts: "int_str i = (if i < 0 then ''-'' else []) @ nat_str (nat \<bar>i\<bar>)"
  by (simp add: int_str_def)

lemma number_read:
  assumes "sign = [] \<or> sign = ''-''" "whole_ok whole"
  shows "p_value (Suc n) (sign @ whole @ t) = p_number (sign @ whole @ t)"
proof -
  obtain c cs where w: "whole = c # cs" "is_digit c" using whole_hd [OF assms(2)] by (cases whole) auto
  note d = digit_head [OF w(2)] p_constant_digit [OF w(2)] p_constant_minus [OF w(2)]
  show ?thesis
  proof (cases "sign = []")
    case True
    then show ?thesis using d by (simp add: w(1))
  next
    case False
    then have "sign = ''-''" using assms(1) by simp
    then show ?thesis using d by (simp add: w(1))
  qed
qed

lemma int_read: "ends r \<Longrightarrow> p_value (Suc n) (int_str i @ r) = Some (JInt i, r)"
  using number_read [of "if i < 0 then ''-'' else []" "nat_str (nat \<bar>i\<bar>)" n r] whole_nat [of "nat \<bar>i\<bar>"]
    p_number_ok [of "if i < 0 then ''-'' else []" "nat_str (nat \<bar>i\<bar>)" "[]" "[]" r]
  by (auto simp: int_str_parts fraction_ok_def exponent_ok_def nat_of_digits_str)

lemma float_read: "float_literal l \<Longrightarrow> ends r \<Longrightarrow> p_value (Suc n) (l @ r) = Some (JFloat l, r)"
proof -
  assume f: "float_literal l" and r: "ends r"
  show ?thesis
  proof (cases "l = ''NaN'' \<or> l = ''Infinity'' \<or> l = ''-Infinity''")
    case True
    then show ?thesis by (auto simp: p_constant_def)
  next
    case False
    then obtain sign whole fraction ex where p: "l = sign @ whole @ fraction @ ex" "sign = [] \<or> sign = ''-''"
      "whole_ok whole" "fraction_ok fraction" "exponent_ok ex" "fraction \<noteq> [] \<or> ex \<noteq> []"
      using f unfolding float_literal_def by blast
    show ?thesis
      using number_read [OF p(2,3), of n "fraction @ ex @ r"] p_number_ok [OF p(2-5) r] p(6) by (auto simp: p(1))
  qed
qed

lemma constants_read: "p_value (Suc n) (''null'' @ r) = Some (JNull, r)"
  "p_value (Suc n) (''true'' @ r) = Some (JBool True, r)" "p_value (Suc n) (''false'' @ r) = Some (JBool False, r)"
  by (simp_all add: p_constant_def)

lemma string_read: "utf8 s \<Longrightarrow> p_value (Suc n) (json_string s @ r) = Some (JStr s, r)"
  by (simp add: json_string_Cons p_chars_string)

lemma dumps_head:
  assumes "json_wf v"
  shows "\<exists>c cs. dumps v = c # cs \<and> \<not> json_ws c \<and> c \<noteq> CHR '']'' \<and> c \<noteq> CHR ''}''"
proof (cases v)
  case (JInt i)
  obtain c cs where "nat_str (nat \<bar>i\<bar>) = c # cs" "is_digit c"
    using whole_hd [OF whole_nat [of "nat \<bar>i\<bar>"]] by (metis list.exhaust_sel)
  then show ?thesis using digit_head [of c] by (auto simp: JInt int_str_parts json_ws_def)
next
  case (JFloat l)
  then have "float_literal l" using assms by simp
  then consider "l = ''NaN'' \<or> l = ''Infinity'' \<or> l = ''-Infinity''"
    | sign whole t where "l = sign @ whole @ t" "sign = [] \<or> sign = ''-''" "whole_ok whole"
    unfolding float_literal_def by blast
  then show ?thesis
  proof cases
    case 1
    then show ?thesis by (elim disjE) (simp_all add: JFloat json_ws_def)
  next
    case 2
    obtain c cs where "whole = c # cs" "is_digit c" using whole_hd [OF 2(3)] by (cases whole) auto
    then show ?thesis using digit_head [of c] 2 by (auto simp: JFloat json_ws_def)
  qed
next
  case (JStr s)
  have "char_of (34 :: nat) \<noteq> CHR '']''" "char_of (34 :: nat) \<noteq> CHR ''}''" by code_simp+
  then show ?thesis by (simp add: JStr json_string_def json_ws_def Let_def)
qed (auto simp: json_ws_def)

lemma skip_dumps: "json_wf v \<Longrightarrow> skip_ws (dumps v @ r) = dumps v @ r"
  using dumps_head [of v] by (auto simp: skip_ws_def)

lemma skip_space: "skip_ws (CHR '' '' # s) = skip_ws s"
  by (simp add: skip_ws_def json_ws_def)

lemma skip_mark: "skip_ws (CHR '','' # s) = CHR '','' # s" "skip_ws (CHR '']'' # s) = CHR '']'' # s"
  "skip_ws (CHR ''}'' # s) = CHR ''}'' # s" "skip_ws (CHR '':'' # s) = CHR '':'' # s"
  "skip_ws (char_of (34 :: nat) # s) = char_of (34 :: nat) # s"
  by (simp_all add: skip_ws_def json_ws_def Let_def)

lemma ends_mark: "ends (CHR '','' # s)" "ends (CHR '']'' # s)" "ends (CHR ''}'' # s)" "ends []"
  by (simp_all add: ends_def)

lemma elements_read:
  assumes "xs \<noteq> []" "list_all json_wf xs" "sum_list (map (\<lambda>x. Suc (need x)) xs) \<le> n"
    and "\<And>x n r. x \<in> set xs \<Longrightarrow> ends r \<Longrightarrow> need x \<le> n \<Longrightarrow> p_value n (dumps x @ r) = Some (x, r)"
  shows "p_elements n (join '', '' (map dumps xs) @ CHR '']'' # r) = Some (xs, r)"
  using assms
proof (induction xs arbitrary: n)
  case (Cons x xs)
  obtain k where n: "n = Suc k" "need x \<le> k" "sum_list (map (\<lambda>x. Suc (need x)) xs) \<le> k"
    using Cons.prems(3) by (cases n) auto
  show ?case
  proof (cases xs)
    case Nil
    then show ?thesis using Cons.prems(4) [of x "CHR '']'' # r" k] n ends_mark skip_mark by simp
  next
    case (Cons y ys)
    have "p_elements k (join '', '' (map dumps xs) @ CHR '']'' # r) = Some (xs, r)"
      using Cons.IH [of k] Cons.prems n(3) by (simp add: Cons)
    moreover have "skip_ws (join '', '' (map dumps xs) @ CHR '']'' # r) = join '', '' (map dumps xs) @ CHR '']'' # r"
      using Cons.prems(2) skip_dumps [of y] by (cases ys) (simp_all add: Cons)
    ultimately show ?thesis
      using Cons.prems(4) [of x "CHR '','' # CHR '' '' # join '', '' (map dumps xs) @ CHR '']'' # r" k] n ends_mark skip_mark
      by (simp add: Cons skip_space)
  qed
qed simp

lemma members_read:
  assumes "kvs \<noteq> []" "list_all (\<lambda>(k, v). utf8 k \<and> json_wf v) kvs" "sum_list (map (\<lambda>(k, v). Suc (need v)) kvs) \<le> n"
    and "distinct (map fst (acc @ kvs))"
    and "\<And>k v n r. (k, v) \<in> set kvs \<Longrightarrow> ends r \<Longrightarrow> need v \<le> n \<Longrightarrow> p_value n (dumps v @ r) = Some (v, r)"
  shows "p_members n acc (join '', '' (map (\<lambda>(k, v). json_string k @ '': '' @ dumps v) kvs) @ CHR ''}'' # r) = Some (acc @ kvs, r)"
  using assms
proof (induction kvs arbitrary: n acc)
  case (Cons kv kvs)
  obtain key v where kv: "kv = (key, v)" by (cases kv)
  obtain k where n: "n = Suc k" "need v \<le> k" "sum_list (map (\<lambda>(k, v). Suc (need v)) kvs) \<le> k"
    using Cons.prems(3) by (cases n) (auto simp: kv)
  have fresh: "AList.update key v acc = acc @ [(key, v)]"
  proof -
    have "key \<notin> fst ` set acc" using Cons.prems(4) by (auto simp: kv)
    then show ?thesis by (induction acc) auto
  qed
  let ?J = "\<lambda>kvs. join '', '' (map (\<lambda>(k, v). json_string k @ '': '' @ dumps v) kvs)"
  have wf: "json_wf v" "utf8 key" using Cons.prems(2) by (simp_all add: kv)
  have one: "p_members (Suc k) acc (json_string key @ '': '' @ dumps v @ t) =
      (case skip_ws t of [] \<Rightarrow> None
       | d # r3 \<Rightarrow> if d = CHR ''}'' then Some (acc @ [(key, v)], r3)
                  else if d = CHR '','' then p_members k (acc @ [(key, v)]) (skip_ws r3) else None)" if "ends t" for t
    unfolding fresh [symmetric]
    using Cons.prems(5) [of key v t k] n(2) wf that
    by (simp add: kv json_string_Cons p_chars_string skip_mark skip_space skip_dumps)
  show ?case
  proof (cases kvs)
    case Nil
    then show ?thesis using one [of "CHR ''}'' # r"] n(1) ends_mark skip_mark by (simp add: kv)
  next
    case (Cons y ys)
    have "p_members k (acc @ [(key, v)]) (?J kvs @ CHR ''}'' # r) = Some ((acc @ [(key, v)]) @ kvs, r)"
    proof (rule Cons.IH)
      fix k' v' n' r' assume "(k', v') \<in> set kvs" "ends r'" "need v' \<le> n'"
      then show "p_value n' (dumps v' @ r') = Some (v', r')" using Cons.prems(5) [of k' v' r' n'] by simp
    qed (use Cons.prems n(3) in \<open>auto simp: Cons kv\<close>)
    moreover have "skip_ws (?J kvs @ CHR ''}'' # r) = ?J kvs @ CHR ''}'' # r"
      using skip_mark(5) by (cases y; cases ys) (simp_all add: Cons json_string_Cons)
    ultimately show ?thesis
      using one [of "CHR '','' # CHR '' '' # ?J kvs @ CHR ''}'' # r"] n(1) ends_mark skip_mark
      by (simp add: Cons kv skip_space)
  qed
qed simp

lemma value_read: "json_wf v \<Longrightarrow> ends r \<Longrightarrow> need v \<le> n \<Longrightarrow> p_value n (dumps v @ r) = Some (v, r)"
proof (induction v arbitrary: n r)
  case (JArr xs)
  then obtain k where n: "n = Suc k" "sum_list (map (\<lambda>x. Suc (need x)) xs) \<le> k" by (cases n) auto
  show ?case
  proof (cases xs)
    case Nil
    then show ?thesis by (simp add: n skip_mark)
  next
    case (Cons x ys)
    have e: "p_elements k (join '', '' (map dumps xs) @ CHR '']'' # r) = Some (xs, r)"
      by (rule elements_read) (use JArr n Cons in \<open>auto simp: list_all_iff\<close>)
    obtain c cs where h: "join '', '' (map dumps xs) @ CHR '']'' # r = c # cs" "\<not> json_ws c" "c \<noteq> CHR '']''"
      using dumps_head [of x] JArr.prems(1) by (cases ys) (auto simp: Cons)
    then show ?thesis using e by (simp add: n skip_ws_def)
  qed
next
  case (JObj kvs)
  then obtain k where n: "n = Suc k" "sum_list (map (\<lambda>(k, v). Suc (need v)) kvs) \<le> k" by (cases n) auto
  show ?case
  proof (cases kvs)
    case Nil
    then show ?thesis by (simp add: n skip_mark)
  next
    case (Cons y ys)
    have e: "p_members k [] (join '', '' (map (\<lambda>(k, v). json_string k @ '': '' @ dumps v) kvs) @ CHR ''}'' # r) = Some ([] @ kvs, r)"
    proof (rule members_read)
      fix key v n' r' assume "(key, v) \<in> set kvs" "ends r'" "need v \<le> n'"
      then show "p_value n' (dumps v @ r') = Some (v, r')"
        using JObj.IH [of "(key, v)" v] JObj.prems(1) by (force simp: list_all_iff)
    qed (use JObj.prems n Cons in auto)
    obtain cs where h: "join '', '' (map (\<lambda>(k, v). json_string k @ '': '' @ dumps v) kvs) @ CHR ''}'' # r = char_of (34 :: nat) # cs"
      by (cases y; cases ys) (auto simp: Cons json_string_Cons)
    have "char_of (34 :: nat) \<noteq> CHR ''}''" by code_simp
    moreover have "p_value n (dumps (JObj kvs) @ r) =
        (case skip_ws (join '', '' (map (\<lambda>(k, v). json_string k @ '': '' @ dumps v) kvs) @ CHR ''}'' # r) of [] \<Rightarrow> None
         | d # r \<Rightarrow> if d = CHR ''}'' then Some (JObj [], r)
                   else map_option (\<lambda>(kvs, r). (JObj kvs, r)) (p_members k [] (d # r)))"
      by (simp add: n)
    ultimately show ?thesis using e unfolding h skip_mark(5) by simp
  qed
next
  case (JStr s)
  then show ?case using string_read by (cases n) (simp_all del: p_value.simps)
next
  case JNull
  then show ?case using constants_read(1) by (cases n) (simp_all del: p_value.simps)
next
  case (JBool b)
  then show ?case using constants_read(2,3) by (cases n; cases b) (simp_all del: p_value.simps)
qed (auto simp: int_read float_read Suc_le_eq gr0_conv_Suc simp del: p_value.simps)

lemma length_join: "length (join '', '' xs) = sum_list (map length xs) + 2 * (length xs - 1)"
  by (induction "'', ''" xs rule: join.induct) auto

lemma need_length: "json_wf v \<Longrightarrow> need v \<le> 2 * length (dumps v)"
proof (induction v)
  case (JArr xs)
  have "sum_list (map (\<lambda>x. Suc (need x)) xs) \<le> sum_list (map (\<lambda>x. Suc (2 * length (dumps x))) xs)"
    by (rule sum_list_mono) (use JArr in \<open>auto simp: list_all_iff\<close>)
  also have "\<dots> = length xs + 2 * sum_list (map (length \<circ> dumps) xs)" by (induction xs) auto
  finally show ?case by (cases xs) (simp_all add: length_join comp_def)
next
  case (JObj kvs)
  have "sum_list (map (\<lambda>(k, v). Suc (need v)) kvs) \<le> sum_list (map (\<lambda>(k, v). Suc (2 * length (dumps v))) kvs)"
    by (rule sum_list_mono) (use JObj in \<open>fastforce simp: list_all_iff\<close>)
  also have "\<dots> \<le> length kvs + 2 * sum_list (map (length \<circ> (\<lambda>(k, v). json_string k @ '': '' @ dumps v)) kvs)"
    by (induction kvs) auto
  finally show ?case by (cases kvs) (simp_all add: length_join comp_def)
next
  case (JInt i)
  show ?case using dumps_head [of "JInt i"] by auto
next
  case (JFloat l)
  then show ?case using dumps_head [of "JFloat l"] by auto
qed (simp_all add: json_string_def)

lemma loads_tail: "json_wf v \<Longrightarrow> ends r \<Longrightarrow> skip_ws r = [] \<Longrightarrow> loads (dumps v @ r) = Inr v"
proof -
  assume v: "json_wf v" and r: "ends r" "skip_ws r = []"
  have "need v \<le> 2 * length (dumps v @ r) + 2" using need_length [OF v] by simp
  then have "p_value (2 * length (dumps v @ r) + 2) (dumps v @ r) = Some (v, r)"
    by (rule value_read [OF v r(1)])
  then show ?thesis using skip_dumps [OF v, of r] r(2) by (simp add: loads_def)
qed

lemma loads_dumps: "json_wf v \<Longrightarrow> loads (dumps v) = Inr v"
  using loads_tail [of v "[]"] ends_mark(4) by (simp add: skip_ws_def)

lemma loads_line: "json_wf v \<Longrightarrow> loads (dumps v @ [char_of (10 :: nat)]) = Inr v"
  using loads_tail [of v "[char_of (10 :: nat)]"] newline(4) by (simp add: skip_ws_def ends_def)

end
