(* ===== verification/IpcProps.thy ===== *)
theory IpcProps
  imports Ipc JsonProps
begin

text \<open>
  Decoding what was encoded: commands and metrics come back as they were, responses without the
  fields that the decoder does not read, bootstrap errors unless their text looks like something else.
\<close>

subsection \<open>Reading fields back\<close>

lemma loads_frame: "json_wf v \<Longrightarrow> loads (frame v) = Inr v"
  unfolding frame_def by (rule loads_line)

lemma ascii_concat: "ascii (concat xs) \<longleftrightarrow> (\<forall>x \<in> set xs. ascii x)"
  by (induction xs) auto

lemma ascii_join: "ascii sep \<Longrightarrow> (\<forall>x \<in> set xs. ascii x) \<Longrightarrow> ascii (join sep xs)"
  by (induction sep xs rule: join.induct) auto

lemma ascii_digits: "list_all is_digit ds \<Longrightarrow> ascii ds"
  by (auto simp: ascii_def is_digit_def Let_def list_all_iff)

lemma ascii_hex: "ascii (u_escape v)"
proof -
  have "of_char (hex_digit d) < (128 :: nat)" if "d < 16" for d using that by (simp add: hex_digit_def)
  then show ?thesis by (simp add: u_escape_def)
qed

lemma ascii_escape: "ascii (json_escape n)"
  by (auto simp: json_escape_def ascii_hex)

lemma ascii_json_string: "ascii (json_string s)"
  by (auto simp: json_string_def ascii_concat ascii_escape)

lemma ascii_int_str: "ascii (int_str i)"
proof -
  have "list_all is_digit (nat_str n)" for n using nat_str_digits by (auto simp: list_all_iff)
  then show ?thesis using ascii_digits by (auto simp: int_str_def)
qed

lemma ascii_float:
  assumes "float_literal l"
  shows "ascii l"
proof -
  have "ascii sign \<and> ascii whole \<and> ascii fraction \<and> ascii ex"
    if "sign = [] \<or> sign = ''-''" "whole_ok whole" "fraction_ok fraction" "exponent_ok ex" for sign whole fraction ex
    using that ascii_digits
    by (auto simp: whole_ok_def fraction_ok_def exponent_ok_def digits_def split: list.splits)
  then show ?thesis using assms unfolding float_literal_def by (elim disjE exE conjE) (simp_all, metis+)
qed

lemma ascii_dumps: "json_wf v \<Longrightarrow> ascii (dumps v)"
proof (induction v)
  case (JArr xs)
  then show ?case by (auto simp: list_all_iff intro!: ascii_join)
next
  case (JObj kvs)
  have "ascii (json_string k @ '': '' @ dumps v)" if "(k, v) \<in> set kvs" for k v
    using JObj that ascii_json_string by (fastforce simp: list_all_iff)
  then show ?case by (auto intro!: ascii_join)
qed (simp_all add: ascii_json_string ascii_int_str ascii_float)

lemma utf8_frame: "json_wf v \<Longrightarrow> utf8 (frame v)"
  using ascii_dumps by (auto simp: frame_def)

lemma decode_frame: "json_wf v \<Longrightarrow> decode_utf8 (frame v) = Inr (frame v)"
  by (simp add: decode_utf8_def utf8_frame)

lemma collect_ok: "(\<And>x. x \<in> set xs \<Longrightarrow> f x = Inr (g x)) \<Longrightarrow> collect f xs = Inr (map g xs)"
  by (induction xs) auto

lemma map_of_field_items: "map_of (field_items names a) n = (if n \<in> set names then Some (a n) else None)"
  by (induction names) (auto simp: field_items_def)

lemma read_attrs_ok:
  assumes "\<And>n. n \<in> set (required @ optional) \<Longrightarrow> map_of kvs n = Some (a n)"
  shows "read_attrs (JObj kvs) required optional = Inr (\<lambda>n. if n \<in> set (required @ optional) then a n else JNull)"
proof -
  have r: "collect (\<lambda>n. and_then (py_item (JObj kvs) n) (\<lambda>x. Inr (n, x))) required = Inr (field_items required a)"
    unfolding field_items_def by (rule collect_ok) (use assms in simp)
  have o: "collect (\<lambda>n. and_then (py_get (JObj kvs) n JNull) (\<lambda>x. Inr (n, x))) optional = Inr (field_items optional a)"
    unfolding field_items_def by (rule collect_ok) (use assms in simp)
  have m: "field_items required a @ field_items optional a = field_items (required @ optional) a"
    by (simp add: field_items_def)
  show ?thesis unfolding read_attrs_def r o and_then_simps m by (auto simp: map_of_field_items fun_eq_iff)
qed

lemma read_field_items:
  "set (required @ optional) \<subseteq> set names \<Longrightarrow> read_attrs (JObj (field_items names a)) required optional =
     Inr (\<lambda>n. if n \<in> set (required @ optional) then a n else JNull)"
  by (rule read_attrs_ok) (auto simp: map_of_field_items)

lemma field_items_wf: "distinct names \<Longrightarrow> list_all utf8 names \<Longrightarrow> json_wf (JObj (field_items names a)) \<longleftrightarrow> (\<forall>n \<in> set names. json_wf (a n))"
  by (auto simp: field_items_def list_all_iff comp_def)

lemma field_items_keys: "map fst (field_items names a) = names"
  by (simp add: field_items_def comp_def)

lemma names_utf8: "list_all utf8 names" if "list_all ascii names"
  using that by (auto simp: list_all_iff)

lemma field_names_ascii: "list_all ascii response_required" "list_all ascii response_optional" "list_all ascii response_payload_names"
  "list_all ascii response_top_names" "list_all ascii metrics_required" "list_all ascii metrics_optional" "list_all ascii progress_names"
  "list_all ascii error_required" "list_all ascii error_optional"
  by code_simp+

lemmas field_names_utf8 [simp] = field_names_ascii [THEN names_utf8]

text \<open>An instance that has no value under a name that is not a field.\<close>

definition attrs_of :: "string list \<Rightarrow> attrs \<Rightarrow> bool" where
  "attrs_of names a \<longleftrightarrow> (\<forall>n. if n \<in> set names then json_wf (a n) else a n = JNull)"

lemma attrs_restrict: "attrs_of names a \<Longrightarrow> (\<lambda>n. if n \<in> set names then a n else JNull) = a"
  by (auto simp: attrs_of_def fun_eq_iff)

subsection \<open>Commands\<close>

fun part_wf :: "content_part \<Rightarrow> bool" where
  "part_wf (TextContent t) = json_wf t"
| "part_wf (ImageContent url detail) = (json_wf url \<and> json_wf detail)"

definition content_wf :: "message_content \<Rightarrow> bool" where
  "content_wf c = (case c of PlainText s \<Rightarrow> utf8 s | PartList parts \<Rightarrow> list_all part_wf parts)"

definition request_wf :: "chat_request \<Rightarrow> bool" where
  "request_wf q \<longleftrightarrow> json_wf (cq_request_id q) \<and> json_wf (cq_model q) \<and>
     list_all (\<lambda>m. json_wf (cm_role m) \<and> content_wf (cm_content m)) (cq_messages q) \<and> json_wf (cq_max_tokens q) \<and>
     json_wf (cq_temperature q) \<and> json_wf (cq_top_p q) \<and> json_wf (cq_max_prompt_tokens q) \<and>
     json_wf (cq_max_completion_tokens q) \<and> json_wf (cq_max_total_tokens q) \<and> list_all utf8 (cq_stop q) \<and> json_wf (cq_stream q)"

lemma decode_encode_part: "decode_part (encode_part p) = Inr p"
  by (cases p) (simp_all add: decode_part_def)

lemma decode_encode_content: "decode_content (encode_content c) = Inr c"
proof (cases c)
  case (PartList parts)
  have "collect decode_part (map encode_part parts) = Inr parts"
    by (induction parts) (simp_all add: decode_encode_part)
  then show ?thesis by (simp add: PartList decode_content_def)
qed (simp add: decode_content_def)

lemma decode_encode_messages: "collect decode_message (map encode_message ms) = Inr ms"
  by (induction ms) (simp_all add: decode_message_def encode_message_def decode_encode_content)

lemma encode_content_wf: "content_wf c \<Longrightarrow> json_wf (encode_content c)"
proof (cases c)
  case (PartList parts)
  have "part_wf p \<Longrightarrow> json_wf (encode_part p)" for p by (cases p) simp_all
  then show "content_wf c \<Longrightarrow> ?thesis" by (auto simp: PartList content_wf_def list_all_iff)
qed (simp add: content_wf_def)

lemma payload_wf: "request_wf q \<Longrightarrow> json_wf (command_payload q)"
  using encode_content_wf by (auto simp: request_wf_def command_payload_def encode_message_def list_all_iff)

lemma py_str_JStr: "py_str (JStr s) = s"
  by (simp add: py_str_def)

text \<open>C20: A chat command survives the wire: decoding what the gateway's encoder wrote gives the
  command back, whatever JSON values its fields hold, for plain text and for lists of text and image
  parts, with every Unicode character escaped and read back, those beyond sixteen bits as surrogate pairs.  (A lone
  surrogate, which is no character and which no UTF-8 input holds, is excluded by \<open>request_wf\<close>.)\<close>

theorem command_roundtrip:
  assumes "request_wf q"
  shows "decode_command (encode_command q) = Inr (Some (ChatCommand q))"
proof -
  have s: "map (py_str \<circ> JStr) (cq_stop q) = cq_stop q" by (simp add: py_str_JStr comp_def)
  show ?thesis
    unfolding decode_command_def encode_command_def decode_frame [OF payload_wf [OF assms]] and_then_simps
      loads_frame [OF payload_wf [OF assms]]
    by (simp add: command_payload_def decode_request_def decode_encode_messages s)
qed

text \<open>C21: A completion response loses fifteen of its fields on the wire: eight are never
  written into the nested object, seven are written and not read.  Every other field survives; each of
  the lost ones decodes as \<open>None\<close>.\<close>

theorem response_roundtrip:
  assumes "attrs_of (response_required @ response_optional) r"
  shows "\<exists>line. encode_event (WorkerResponse r) = Inr line \<and>
    decode_event line = Inr (Some (WorkerResponse (\<lambda>n. if n \<in> set
      [''configured_prompt_batch_size'', ''configured_decode_batch_size'', ''modality'', ''apc_mode'',
       ''scheduler_tick_latency_ms'', ''arbitration_delay_ms'', ''worker_cancellation_count'', ''worker_error_count'',
       ''vision_feature_cache_entries'', ''vision_feature_cache_evictions'', ''prompt_cache_entries'',
       ''prompt_cache_evictions'', ''peak_memory_bytes'', ''image_width'', ''image_height'']
      then JNull else r n)))"
proof -
  let ?lost = "[''configured_prompt_batch_size'', ''configured_decode_batch_size'', ''modality'', ''apc_mode'',
       ''scheduler_tick_latency_ms'', ''arbitration_delay_ms'', ''worker_cancellation_count'', ''worker_error_count'',
       ''vision_feature_cache_entries'', ''vision_feature_cache_evictions'', ''prompt_cache_entries'',
       ''prompt_cache_evictions'', ''peak_memory_bytes'', ''image_width'', ''image_height'']"
  have names: "distinct (''type'' # ''response'' # response_top_names)" "distinct response_payload_names"
    "list_all (\<lambda>n. n \<in> set (response_required @ response_optional)) (response_payload_names @ response_top_names)"
    "list_all (\<lambda>n. n \<in> set response_payload_names) (response_required @ response_read_names)"
    "list_all (\<lambda>n. n \<in> set ?lost \<longleftrightarrow> n \<notin> set (response_required @ response_read_names)) (response_required @ response_optional)"
    "list_all (\<lambda>n. n \<in> set (response_required @ response_optional)) (response_required @ response_read_names)"
    by code_simp+
  have wf: "json_wf (r n)" if "n \<in> set (response_payload_names @ response_top_names)" for n
    using assms names(3) that unfolding attrs_of_def list_all_iff by metis
  have "json_wf (event_payload (WorkerResponse r))"
    using wf names(1,2) field_names_utf8 by (auto simp: field_items_def list_all_iff comp_def)
  then have load: "loads (frame (event_payload (WorkerResponse r))) = Inr (event_payload (WorkerResponse r))"
    and bytes: "decode_utf8 (frame (event_payload (WorkerResponse r))) = Inr (frame (event_payload (WorkerResponse r)))"
    by (rule loads_frame, rule decode_frame)
  have read: "read_attrs (JObj (field_items response_payload_names r)) response_required response_read_names =
      Inr (\<lambda>n. if n \<in> set (response_required @ response_read_names) then r n else JNull)"
    by (rule read_field_items) (use names(4) in \<open>auto simp: list_all_iff\<close>)
  have same: "(\<lambda>n. if n \<in> set (response_required @ response_read_names) then r n else JNull) = (\<lambda>n. if n \<in> set ?lost then JNull else r n)"
    using names(5,6) assms unfolding attrs_of_def list_all_iff by (intro ext) metis
  show ?thesis
    unfolding encode_event_def decode_event_def
    by (simp add: bytes [simplified] load [simplified] read del: set_simps) (rule same [unfolded set_append Un_iff])
qed

text \<open>Metrics events come back unchanged, all seventy-two fields.\<close>

theorem metrics_roundtrip:
  assumes "attrs_of (metrics_required @ metrics_optional) m"
  shows "\<exists>line. encode_event (WorkerMetrics m) = Inr line \<and> decode_event line = Inr (Some (WorkerMetrics m))"
proof -
  have d: "distinct (metrics_required @ metrics_optional)" by code_simp
  have "json_wf (event_payload (WorkerMetrics m))"
    using assms field_items_wf [OF d, of m] by (simp add: attrs_of_def)
  then have load: "loads (frame (event_payload (WorkerMetrics m))) = Inr (event_payload (WorkerMetrics m))"
    and bytes: "decode_utf8 (frame (event_payload (WorkerMetrics m))) = Inr (frame (event_payload (WorkerMetrics m)))"
    by (rule loads_frame, rule decode_frame)
  have "read_attrs (JObj (field_items (metrics_required @ metrics_optional) m)) metrics_required metrics_optional = Inr m"
    using read_field_items [of metrics_required metrics_optional "metrics_required @ metrics_optional" m] attrs_restrict [OF assms]
    by simp
  then show ?thesis unfolding encode_event_def decode_event_def by (simp add: bytes [simplified] load [simplified])
qed

subsection \<open>Bootstrap messages\<close>

definition status_names :: "string list" where
  "status_names = [''model'', ''revision'', ''state'', ''ready'', ''servable'', ''device'', ''dtype'', ''loaded_at'',
     ''started_loading_at'', ''last_transition_at'', ''warmup_passed'', ''last_warmup_at'', ''last_warmup_latency_ms'']"

definition status_wf :: "model_status \<Rightarrow> bool" where
  "status_wf st \<longleftrightarrow> attrs_of status_names (ms_attrs st) \<and>
     (\<forall>a. ms_progress st = Some a \<longrightarrow> attrs_of progress_names a) \<and>
     (\<forall>a. ms_last_error st = Some a \<longrightarrow> attrs_of (error_required @ error_optional) a)"

lemma strip_line:
  assumes "utf8 x" "code_points x \<noteq> []" "\<not> is_space (hd (code_points x))" "\<not> is_space (last (code_points x))"
  shows "strip (x @ [char_of (10 :: nat)]) = x" "decode_replace (x @ [char_of (10 :: nat)]) = x @ [char_of (10 :: nat)]"
proof -
  let ?ns = "code_points x" and ?nl = "[char_of (10 :: nat)] :: string"
  have nl: "is_space 10" "utf8 ?nl" by (simp_all add: is_space_def ascii_utf8)
  have x: "x = of_points ?ns" "\<forall>n \<in> set ?ns. n < 1114112" using assms(1) by (auto simp: utf8_def list_all_iff scalar_def)
  have "code_points (of_points ?ns @ ?nl) = ?ns @ [10]" using code_points_of_points [OF x(2), of ?nl] by simp
  then have p: "code_points (x @ ?nl) = ?ns @ [10]" by (simp add: x(1) [symmetric])
  have "dropWhile is_space (?ns @ [10]) = ?ns @ [10]" using assms(2,3) by (cases ?ns) auto
  moreover have "dropWhile is_space (rev ?ns) = rev ?ns" using assms(2,4) by (cases "rev ?ns") (auto simp: hd_rev [symmetric])
  ultimately show "strip (x @ ?nl) = x" by (simp add: strip_def p nl x(1) [symmetric])
  show "decode_replace (x @ ?nl) = x @ ?nl" using utf8_append [OF assms(1) nl(2)] by (simp add: decode_replace_def)
qed

lemma asdict_wf: "distinct names \<Longrightarrow> list_all utf8 names \<Longrightarrow> (\<forall>a. ao = Some a \<longrightarrow> attrs_of names a) \<Longrightarrow> json_wf (asdict names ao)"
proof -
  assume d: "distinct names" "list_all utf8 names" and a: "\<forall>a. ao = Some a \<longrightarrow> attrs_of names a"
  show ?thesis
  proof (cases ao)
    case (Some x)
    then have "\<forall>n \<in> set names. json_wf (x n)" using a by (auto simp: attrs_of_def)
    then show ?thesis using field_items_wf [OF d] by (simp only: Some asdict_def option.case)
  qed (simp add: asdict_def)
qed

lemma error_asdict: "(\<forall>a. ao = Some a \<longrightarrow> attrs_of (error_required @ error_optional) a) \<Longrightarrow>
    model_error_from_dict (asdict (error_required @ error_optional) ao) = Inr ao"
  using read_field_items [of error_required error_optional "error_required @ error_optional"]
  by (cases ao) (auto simp: model_error_from_dict_def asdict_def attrs_restrict simp del: set_append)

lemma progress_asdict: "(\<forall>a. ao = Some a \<longrightarrow> attrs_of progress_names a) \<Longrightarrow>
    model_progress_from_dict (asdict progress_names ao) = Inr ao"
  using read_field_items [of "[]" progress_names progress_names]
  by (cases ao) (auto simp: model_progress_from_dict_def asdict_def attrs_restrict)

lemma status_lookup:
  assumes "status_payload st = JObj kvs"
  shows "n \<in> set status_names \<Longrightarrow> map_of kvs n = Some (ms_attrs st n)"
    "map_of kvs ''progress'' = Some (asdict progress_names (ms_progress st))"
    "map_of kvs ''last_error'' = Some (asdict (error_required @ error_optional) (ms_last_error st))"
  using assms by (auto simp: status_payload_def status_names_def field_items_def)

lemma status_read:
  assumes "status_wf st"
  shows "decode_status (status_payload st) = Inr st"
proof -
  obtain kvs where k: "status_payload st = JObj kvs" by (simp add: status_payload_def)
  note look = status_lookup [OF k]
  have r: "read_attrs (JObj kvs) req opt = Inr (\<lambda>n. if n \<in> set (req @ opt) then ms_attrs st n else JNull)"
    if "set (req @ opt) \<subseteq> set status_names" for req opt
    by (rule read_attrs_ok) (use look(1) that in blast)
  have sub: "set ([''model''] @ [''revision'']) \<subseteq> set status_names" "set ([''state'', ''ready'', ''servable''] @ []) \<subseteq> set status_names"
    "set ([] @ [''device'', ''dtype'', ''loaded_at'', ''started_loading_at'']) \<subseteq> set status_names"
    "set ([''last_transition_at''] @ []) \<subseteq> set status_names"
    "set ([''warmup_passed''] @ [''last_warmup_at'', ''last_warmup_latency_ms'']) \<subseteq> set status_names"
    by (simp_all add: status_names_def)
  have e: "model_error_from_dict (asdict (error_required @ error_optional) (ms_last_error st)) = Inr (ms_last_error st)"
    "model_progress_from_dict (asdict progress_names (ms_progress st)) = Inr (ms_progress st)"
    using assms error_asdict progress_asdict by (simp_all add: status_wf_def)
  have none: "ms_attrs st n = JNull" if "n \<notin> set status_names" for n
    using assms that by (auto simp: status_wf_def attrs_of_def)
  have "decode_status (JObj kvs) = Inr \<lparr>ms_attrs = (\<lambda>n. if n \<in> set status_names then ms_attrs st n else JNull),
      ms_progress = ms_progress st, ms_last_error = ms_last_error st\<rparr>"
    unfolding decode_status_def sub [THEN r] and_then_simps py_get.simps look(2,3) option.case e
    by (auto simp: fun_eq_iff status_names_def)
  also have "(\<lambda>n. if n \<in> set status_names then ms_attrs st n else JNull) = ms_attrs st"
    using none by (auto simp: fun_eq_iff)
  finally show ?thesis by (simp add: k)
qed

lemma status_payload_wf: "status_wf st \<Longrightarrow> json_wf (status_payload st)"
proof -
  assume w: "status_wf st"
  have a: "json_wf (ms_attrs st n)" if "n \<in> set status_names" for n using w that by (auto simp: status_wf_def attrs_of_def)
  have "distinct progress_names" "distinct (error_required @ error_optional)" by code_simp+
  then have b: "json_wf (asdict progress_names (ms_progress st))" "json_wf (asdict (error_required @ error_optional) (ms_last_error st))"
    using w by (auto simp: status_wf_def simp del: distinct_append intro!: asdict_wf)
  show ?thesis using a b by (simp add: status_payload_def field_items_def status_names_def)
qed

lemma payload_line:
  assumes "json_wf (JObj kvs)" "ascii pre" "pre \<noteq> []" "\<not> is_space (of_char (hd pre))"
  shows "strip (decode_replace (pre @ dumps (JObj kvs) @ [char_of (10 :: nat)])) = pre @ dumps (JObj kvs)"
proof -
  have a: "ascii (pre @ dumps (JObj kvs))" using ascii_dumps [OF assms(1)] assms(2) by simp
  then have p: "code_points (pre @ dumps (JObj kvs)) = map of_char (pre @ dumps (JObj kvs))"
    using ascii_points [of "pre @ dumps (JObj kvs)" "[]"] by (simp del: dumps.simps)
  have "last (pre @ dumps (JObj kvs)) = CHR ''}''" "pre @ dumps (JObj kvs) \<noteq> []" "hd (pre @ dumps (JObj kvs)) = hd pre"
    using assms(3) by simp_all
  then have "last (code_points (pre @ dumps (JObj kvs))) = 125" "code_points (pre @ dumps (JObj kvs)) \<noteq> []"
    unfolding p by (simp_all only: last_map map_is_Nil_conv) simp_all
  moreover have "hd (code_points (pre @ dumps (JObj kvs))) = of_char (hd pre)" unfolding p using assms(3) by (cases pre) simp_all
  moreover have "\<not> is_space 125" by (simp add: is_space_def)
  ultimately show ?thesis
    using strip_line [of "pre @ dumps (JObj kvs)"] ascii_utf8 [OF a] assms(4) by (simp del: dumps.simps)
qed

text \<open>The worker's status line is read back unchanged, progress and last error included.\<close>

theorem status_roundtrip:
  assumes "status_wf st"
  shows "decode_bootstrap_message (encode_bootstrap_message (StatusMessage st)) = Inr (Some (StatusMessage st))"
proof -
  obtain kvs where k: "status_payload st = JObj kvs" by (simp add: status_payload_def)
  have wf: "json_wf (JObj kvs)" using status_payload_wf [OF assms] k by simp
  have line: "strip (decode_replace (encode_bootstrap_message (StatusMessage st))) = ''STATUS'' @ [tab] @ dumps (JObj kvs)"
    using payload_line [OF wf, of "''STATUS'' @ [tab]"] by (simp add: k is_space_def tab_def del: dumps.simps)
  have load: "loads (dumps (JObj kvs)) = Inr (JObj kvs)" by (rule loads_dumps [OF wf])
  show ?thesis
    unfolding decode_bootstrap_message_def line Let_def
    using load status_read [OF assms] by (simp add: k del: dumps.simps)
qed

text \<open>A startup error without details comes back with its line breaks replaced, unless its text is
  blank at an end or reads as a JSON object.  With an empty text the whole message is lost: the tab is
  stripped with the line break, and the line is no longer recognised.\<close>

lemma replace_newlines_points:
  assumes "list_all scalar ns"
  shows "replace_newlines (of_points ns) = of_points (map (\<lambda>n. if n = 10 then 32 else n) ns)"
proof -
  have nl: "of_char (char_of (10 :: nat) :: char) = (10 :: nat)" by simp
  have "replace_newlines (utf8_char n) = utf8_char (if n = 10 then 32 else n)" if "n < 1114112" for n
  proof (cases "n < 128")
    case True
    then have "char_of n = (char_of (10 :: nat) :: char) \<longleftrightarrow> n = 10" "char_of (32 :: nat) = CHR '' ''" using byte_lead [of n] nl by (fastforce, code_simp)
    then show ?thesis using True by (simp add: replace_newlines_def utf8_char_def)
  next
    case False
    have "c \<noteq> char_of (10 :: nat)" if "c \<in> set (utf8_char n)" for c
      using utf8_char_high [OF _ \<open>n < 1114112\<close>] False nl that by (fastforce simp: list_all_iff)
    then show ?thesis using False by (simp add: replace_newlines_def map_idI)
  qed
  then show ?thesis using assms by (induction ns) (auto simp: scalar_def replace_newlines_def)
qed

theorem startup_error_roundtrip:
  "(utf8 m \<and> m \<noteq> [] \<and> \<not> is_space (last (code_points m)) \<and> (\<forall>kvs. loads (replace_newlines m) \<noteq> Inr (JObj kvs)) \<longrightarrow>
     decode_bootstrap_message (encode_bootstrap_message (WorkerError m None)) = Inr (Some (WorkerError (replace_newlines m) None))) \<and>
   decode_bootstrap_message (encode_bootstrap_message (WorkerError [] None)) = Inr None"
proof (intro conjI impI)
  assume m: "utf8 m \<and> m \<noteq> [] \<and> \<not> is_space (last (code_points m)) \<and> (\<forall>kvs. loads (replace_newlines m) \<noteq> Inr (JObj kvs))"
  then obtain ns where ns: "list_all scalar ns" "m = of_points ns" unfolding utf8_iff by blast
  let ?ns = "map (\<lambda>n. if n = 10 then 32 else n) ns" and ?pre = "''ERROR'' @ [tab]"
  have sc: "list_all scalar ?ns" using ns(1) by (auto simp: list_all_iff scalar_def)
  then have lt: "\<forall>n \<in> set ns. n < 1114112" "\<forall>n \<in> set ?ns. n < 1114112" using ns(1) by (auto simp: list_all_iff scalar_def)
  have r: "replace_newlines m = of_points ?ns" using replace_newlines_points [OF ns(1)] by (simp add: ns(2))
  have cp: "code_points m = ns" using code_points_of_points [OF lt(1), of "[]"] by (simp add: ns(2))
  have ne: "ns \<noteq> []" "\<not> is_space (last ns)" using m ns(2) cp by auto
  then have last: "\<not> is_space (last ?ns)" "?ns \<noteq> []" by (auto simp: last_map is_space_def)
  have pre: "ascii ?pre" by (simp add: tab_def)
  have u: "utf8 (?pre @ replace_newlines m)" using utf8_append [OF ascii_utf8 [OF pre]] sc r by (auto simp: utf8_iff)
  have p: "code_points (?pre @ replace_newlines m) = map of_char ?pre @ ?ns"
    using ascii_points [OF pre, of "of_points ?ns"] code_points_of_points [OF lt(2), of "[]"] by (simp only: r append_Nil2 code_points.simps(1))
  have "hd (map of_char ?pre @ ?ns) = (69 :: nat)" "last (map of_char ?pre @ ?ns) = last ?ns" using last(2) by simp_all
  then have hl: "code_points (?pre @ replace_newlines m) \<noteq> []" "\<not> is_space (hd (code_points (?pre @ replace_newlines m)))"
      "\<not> is_space (last (code_points (?pre @ replace_newlines m)))"
    unfolding p using last(1) by (simp_all add: is_space_def)
  have line: "strip (decode_replace (encode_bootstrap_message (WorkerError m None))) = ?pre @ replace_newlines m"
    using strip_line [OF u hl] by simp
  show "decode_bootstrap_message (encode_bootstrap_message (WorkerError m None)) = Inr (Some (WorkerError (replace_newlines m) None))"
    unfolding decode_bootstrap_message_def line Let_def
    using m by (auto split: sum.splits json.splits)
next
  show "decode_bootstrap_message (encode_bootstrap_message (WorkerError [] None)) = Inr None"
  proof -
    have "strip (decode_replace (''ERROR'' @ [tab] @ [] @ [char_of (10 :: nat)])) = ''ERROR''"
      by (simp add: strip_def decode_replace_def is_space_def tab_def utf8_char_def) code_simp
    then have "strip (decode_replace (encode_bootstrap_message (WorkerError [] None))) = ''ERROR''" by (simp add: replace_newlines_def)
    then show ?thesis unfolding decode_bootstrap_message_def Let_def by simp
  qed
qed

text \<open>A request with text and image parts, quotes, line breaks, and characters of two, three and four bytes.\<close>

definition sample_request :: chat_request where
  "sample_request = \<lparr>cq_request_id = JStr ''r1'', cq_model = JStr ''m'', cq_messages =
     [\<lparr>cm_role = JStr ''system'', cm_content = PlainText ([CHR ''a'', char_of (34 :: nat), char_of (10 :: nat)] @ of_points [233, 8364, 128640])\<rparr>,
      \<lparr>cm_role = JStr ''user'', cm_content = PartList [TextContent (JStr ''hi''), ImageContent (JStr ''u'') (JStr ''auto'')]\<rparr>],
     cq_max_tokens = JInt 16, cq_temperature = JFloat ''0.0'', cq_top_p = JFloat ''1.0'', cq_max_prompt_tokens = JInt 64,
     cq_max_completion_tokens = JInt 64, cq_max_total_tokens = JInt 128, cq_stop = [''END''], cq_stream = JBool True\<rparr>"

lemma float_literal_decimal: "whole_ok w \<Longrightarrow> digits f \<Longrightarrow> float_literal (w @ CHR ''.'' # f)"
  unfolding float_literal_def
  by (rule disjI2, rule disjI2, rule disjI2, rule exI [of _ "[]"], rule exI [of _ w], rule exI [of _ "CHR ''.'' # f"], rule exI [of _ "[]"])
    (simp add: fraction_ok_def exponent_ok_def)

theorem command_roundtrip_witness:
  "decode_command (encode_command sample_request) = Inr (Some (ChatCommand sample_request))"
proof (rule command_roundtrip)
  have "float_literal ''0.0''" "float_literal ''1.0''"
    using float_literal_decimal [of "''0''" "''0''"] float_literal_decimal [of "''1''" "''0''"]
    by (simp_all add: whole_ok_def digits_def is_digit_def)
  then show "request_wf sample_request" by (simp add: request_wf_def sample_request_def content_wf_def scalar_def)
qed

theorem response_roundtrip_witness:
  "\<exists>line r. encode_event (WorkerResponse (\<lambda>n. if n \<in> set (response_required @ response_optional) then JInt 7 else JNull)) = Inr line \<and>
    decode_event line = Inr (Some (WorkerResponse r)) \<and> r ''cached_tokens'' = JInt 7 \<and> r ''modality'' = JNull"
proof -
  have "attrs_of (response_required @ response_optional) (\<lambda>n. if n \<in> set (response_required @ response_optional) then JInt 7 else JNull)"
    by (simp add: attrs_of_def)
  from response_roundtrip [OF this] show ?thesis by (auto simp: response_optional_def)
qed

theorem metrics_roundtrip_witness:
  "\<exists>line. encode_event (WorkerMetrics (\<lambda>n. if n \<in> set (metrics_required @ metrics_optional) then JInt 7 else JNull)) = Inr line \<and>
    decode_event line = Inr (Some (WorkerMetrics (\<lambda>n. if n \<in> set (metrics_required @ metrics_optional) then JInt 7 else JNull)))"
  by (rule metrics_roundtrip) (simp add: attrs_of_def)

theorem status_roundtrip_witness:
  "decode_bootstrap_message (encode_bootstrap_message (StatusMessage
      \<lparr>ms_attrs = (\<lambda>n. if n \<in> set status_names then JInt 1 else JNull), ms_progress = None, ms_last_error = None\<rparr>)) =
    Inr (Some (StatusMessage
      \<lparr>ms_attrs = (\<lambda>n. if n \<in> set status_names then JInt 1 else JNull), ms_progress = None, ms_last_error = None\<rparr>))"
  by (rule status_roundtrip) (simp add: status_wf_def attrs_of_def)

theorem startup_error_roundtrip_witness:
  "decode_bootstrap_message (encode_bootstrap_message (WorkerError ''no gpu'' None)) = Inr (Some (WorkerError ''no gpu'' None))"
proof -
  have r: "replace_newlines ''no gpu'' = ''no gpu''" by code_simp
  have "loads ''no gpu'' = Inl JSONDecodeError" by code_simp
  with startup_error_roundtrip [of "''no gpu''"] show ?thesis by (simp add: r is_space_def)
qed

end
