(* ===== verification/Scheduler.thy ===== *)
theory Scheduler
  imports Coordinator
begin

text \<open>
  \<^verbatim>\<open>NativeContinuousScheduler\<close> and its policies, \<^verbatim>\<open>native_mlx/scheduler.py\<close>.
  The code keeps one mutable \<^verbatim>\<open>_ScheduledState\<close> object per request, referenced from the two
  queues and from the work it has selected; here the objects live in a store under the address
  \<open>sc_next\<close> counts, the queues map request ids to addresses, and selected work holds an address.
  The cache coordinator and the executor share the cache: both are operations on one state \<open>'c\<close>
  (\<open>backend\<close>).  Clocks, timings and the profiler are left out.
\<close>

subsection \<open>State\<close>

datatype scheduling_policy = FCFS | LPM | LOF | PRIORITY

record sched_state =
  ss_work :: schedulable_request
  ss_arrival :: nat
  ss_cursor :: nat
  ss_handle :: "handle option"
  ss_cache_length :: nat
  ss_reused :: nat
  ss_last_token :: "token option"
  ss_generated :: nat
  ss_complete :: bool
  ss_cancel :: bool
  ss_finish :: bool
  ss_probe :: "prefix_probe option"

record selected_work =
  sw_state :: nat
  sw_request :: execution_request

record ('c, 'p, 'f) backend =
  bk_probe :: "token list \<Rightarrow> 'c \<Rightarrow> prefix_probe \<times> 'c"
  bk_acquire :: "string \<Rightarrow> token list \<Rightarrow> prefix_probe option \<Rightarrow> 'c \<Rightarrow> (exn + cache_admission) \<times> 'c"
  bk_publish :: "handle \<Rightarrow> token list \<Rightarrow> nat \<Rightarrow> 'c \<Rightarrow> (exn + cache_publication) \<times> 'c"
  bk_release :: "handle option \<Rightarrow> 'c \<Rightarrow> (exn + unit) \<times> 'c"
  bk_reset :: "bool \<Rightarrow> bool \<Rightarrow> 'c \<Rightarrow> (exn + unit) \<times> 'c"
  bk_execute_batch :: "execution_request list \<Rightarrow> 'c \<Rightarrow> (exn + step_result) \<times> 'c"
  bk_prepare_batch :: "execution_request list \<Rightarrow> 'c \<Rightarrow> (exn + 'p) \<times> 'c"
  bk_has_work :: "'p \<Rightarrow> bool"
  bk_execute_prepared :: "'p \<Rightarrow> 'c \<Rightarrow> (exn + step_result) \<times> 'c"
  bk_execute_prepared_serial :: "'p \<Rightarrow> 'c \<Rightarrow> (exn + step_result) \<times> 'c"
  bk_dispatch_batch :: "'p \<Rightarrow> 'c \<Rightarrow> (exn + 'f) \<times> 'c"
  bk_resolve_batch :: "'f \<Rightarrow> 'c \<Rightarrow> (exn + step_result) \<times> 'c"
  bk_discard_batch :: "'f \<Rightarrow> 'c \<Rightarrow> (exn + unit) \<times> 'c"

record ('c, 'f) scheduler =
  sc_prefill_batch :: nat
  sc_prefill_step :: nat
  sc_prioritize_decode :: bool
  sc_policy :: scheduling_policy
  sc_overlap :: bool
  sc_terminal :: "token set"
  sc_store :: "nat \<Rightarrow> sched_state"
  sc_next :: nat
  sc_waiting :: "(string, nat) dict"
  sc_running :: "(string, nat) dict"
  sc_pending :: "scheduler_event list"
  sc_arrival :: nat
  sc_round :: nat
  sc_in_flight :: "(selected_work list \<times> 'f) option"
  sc_cache :: 'c

text \<open>Assigning to fields of a state object; running an operation of the shared cache.\<close>

definition upd_state :: "nat \<Rightarrow> (sched_state \<Rightarrow> sched_state) \<Rightarrow> ('c, 'f) scheduler \<Rightarrow> ('c, 'f) scheduler" where
  "upd_state a f sc = sc\<lparr>sc_store := (sc_store sc)(a := f (sc_store sc a))\<rparr>"

definition on_cache :: "('c \<Rightarrow> 'a \<times> 'c) \<Rightarrow> ('c, 'f) scheduler \<Rightarrow> 'a \<times> ('c, 'f) scheduler" where
  "on_cache f sc = (case f (sc_cache sc) of (res, c) \<Rightarrow> (res, sc\<lparr>sc_cache := c\<rparr>))"

subsection \<open>Policies\<close>

definition policy_from_name :: "string \<Rightarrow> exn + scheduling_policy" where
  "policy_from_name name =
     (let normalized = lower (strip name)
      in if normalized = ''fcfs'' then Inr FCFS
         else if normalized = ''lpm'' then Inr LPM
         else if normalized = ''lof'' then Inr LOF
         else if normalized = ''priority'' then Inr PRIORITY
         else Inl (ValueError ''native-mlx scheduling policy must be fcfs, lpm, lof, or priority''))"

definition starvation_rounds :: nat where "starvation_rounds = 3"

definition policy_value :: "scheduling_policy \<Rightarrow> sched_state \<Rightarrow> int" where
  "policy_value policy st =
     (case policy of LOF \<Rightarrow> sq_max_tokens (ss_work st) | PRIORITY \<Rightarrow> sq_priority (ss_work st) | _ \<Rightarrow> 0)"

text \<open>\<open>max(0, scheduler_round - arrival_order)\<close> is the subtraction of naturals.\<close>

type_synonym score = "nat \<times> int \<times> nat \<times> int"

definition score_of :: "nat \<Rightarrow> int \<Rightarrow> sched_state \<Rightarrow> score" where
  "score_of scheduler_round value st =
     (let age_rounds = scheduler_round - ss_arrival st
      in (if starvation_rounds \<le> age_rounds then 1 else 0, value, age_rounds, - int (ss_arrival st)))"

text \<open>The scores of the states at the addresses, in list order.  LPM probes the prefix index and
  leaves the probe in the state.\<close>

fun score_states ::
  "('c, 'p, 'f) backend \<Rightarrow> nat list \<Rightarrow> ('c, 'f) scheduler \<Rightarrow> (nat \<times> score) list \<times> ('c, 'f) scheduler" where
  "score_states bk [] sc = ([], sc)"
| "score_states bk (a # as) sc =
     (case sc_policy sc of
        LPM \<Rightarrow>
          (case on_cache (bk_probe bk (sq_prompt (ss_work (sc_store sc a)))) sc of
             (probe, sc1) \<Rightarrow>
               (let sc2 = upd_state a (ss_probe_update (\<lambda>_. Some probe)) sc1;
                    score = score_of (sc_round sc2) (int (pp_matched_tokens probe)) (sc_store sc2 a)
                in case score_states bk as sc2 of (scores, sc3) \<Rightarrow> ((a, score) # scores, sc3)))
      | policy \<Rightarrow>
          (let score = score_of (sc_round sc) (policy_value policy (sc_store sc a)) (sc_store sc a)
           in case score_states bk as sc of (scores, sc3) \<Rightarrow> ((a, score) # scores, sc3)))"

definition order_states ::
  "('c, 'p, 'f) backend \<Rightarrow> nat list \<Rightarrow> ('c, 'f) scheduler \<Rightarrow> nat list \<times> ('c, 'f) scheduler" where
  "order_states bk as sc =
     (if sc_policy sc = FCFS then (as, sc)
      else (case score_states bk as sc of (scores, sc') \<Rightarrow> (map fst (sorted_reverse snd scores), sc')))"

subsection \<open>Submission, cancellation, finishing\<close>

definition new_state :: "schedulable_request \<Rightarrow> nat \<Rightarrow> sched_state" where
  "new_state work arrival =
     \<lparr>ss_work = work, ss_arrival = arrival, ss_cursor = 0, ss_handle = None, ss_cache_length = 0,
      ss_reused = 0, ss_last_token = None, ss_generated = 0, ss_complete = False, ss_cancel = False,
      ss_finish = False, ss_probe = None\<rparr>"

text \<open>What the store holds at addresses not handed out yet.\<close>

definition no_work :: schedulable_request where
  "no_work = \<lparr>sq_request_id = [], sq_prompt = [], sq_sampling = \<lparr>temperature = 0, top_p = 1\<rparr>,
     sq_max_tokens = 0, sq_priority = 0\<rparr>"

definition new_scheduler ::
  "int \<Rightarrow> int \<Rightarrow> bool \<Rightarrow> string \<Rightarrow> string \<Rightarrow> token list \<Rightarrow> 'c \<Rightarrow> exn + ('c, 'f) scheduler" where
  "new_scheduler prefill_batch_size prefill_step_size prioritize_decode policy_name execution_mode terminal c =
     (if prefill_batch_size \<le> 0 then Inl (ValueError ''native-mlx prefill batch size must be positive'')
      else if prefill_step_size \<le> 0 then Inl (ValueError ''native-mlx prefill chunk size must be positive'')
      else
        (case policy_from_name policy_name of
           Inl e \<Rightarrow> Inl e
         | Inr policy \<Rightarrow>
             if execution_mode \<notin> {''serial'', ''overlap''} then
               Inl (ValueError ''native-mlx execution mode must be serial or overlap'')
             else Inr \<lparr>sc_prefill_batch = nat prefill_batch_size, sc_prefill_step = nat prefill_step_size,
               sc_prioritize_decode = prioritize_decode, sc_policy = policy,
               sc_overlap = (execution_mode = ''overlap''), sc_terminal = set terminal,
               sc_store = (\<lambda>_. new_state no_work 0), sc_next = 0, sc_waiting = [], sc_running = [], sc_pending = [],
               sc_arrival = 0, sc_round = 0, sc_in_flight = None, sc_cache = c\<rparr>))"

definition sched_submit :: "schedulable_request \<Rightarrow> ('c, 'f) scheduler \<Rightarrow> (exn + unit) \<times> ('c, 'f) scheduler" where
  "sched_submit work sc =
     (let rid = sq_request_id work
      in if map_of (sc_waiting sc) rid \<noteq> None \<or> map_of (sc_running sc) rid \<noteq> None then
           (Inl (ValueError (''duplicate native request '' @ py_repr rid)), sc)
         else
           (let arrival = Suc (sc_arrival sc); a = sc_next sc
            in (Inr (), sc\<lparr>sc_arrival := arrival, sc_next := Suc a,
                  sc_store := (sc_store sc)(a := new_state work arrival),
                  sc_waiting := AList.update rid a (sc_waiting sc)\<rparr>)))"

definition find_state :: "string \<Rightarrow> (string, nat) dict \<Rightarrow> (string, nat) dict \<Rightarrow> nat option" where
  "find_state rid first second = (case map_of first rid of Some a \<Rightarrow> Some a | None \<Rightarrow> map_of second rid)"

definition sched_cancel :: "string \<Rightarrow> ('c, 'f) scheduler \<Rightarrow> bool \<times> ('c, 'f) scheduler" where
  "sched_cancel rid sc =
     (case find_state rid (sc_waiting sc) (sc_running sc) of
        None \<Rightarrow> (False, sc)
      | Some a \<Rightarrow> (True, upd_state a (ss_cancel_update (\<lambda>_. True)) sc))"

definition in_flight_ids :: "('c, 'f) scheduler \<Rightarrow> string set" where
  "in_flight_ids sc =
     (case sc_in_flight sc of
        None \<Rightarrow> {}
      | Some (selected, _) \<Rightarrow> set (map (\<lambda>w. er_request_id (sw_request w)) selected))"

definition sched_finish ::
  "('c, 'p, 'f) backend \<Rightarrow> string \<Rightarrow> ('c, 'f) scheduler \<Rightarrow> (exn + unit) \<times> ('c, 'f) scheduler" where
  "sched_finish bk rid sc =
     (if rid \<in> in_flight_ids sc then
        (case find_state rid (sc_running sc) (sc_waiting sc) of
           None \<Rightarrow> (Inr (), sc)
         | Some a \<Rightarrow> (Inr (), upd_state a (ss_finish_update (\<lambda>_. True)) sc))
      else
        (case map_of (sc_running sc) rid of
           Some a \<Rightarrow>
             on_cache (bk_release bk (ss_handle (sc_store sc a)))
               (sc\<lparr>sc_running := AList.delete rid (sc_running sc)\<rparr>)
         | None \<Rightarrow>
             (case map_of (sc_waiting sc) rid of
                Some a \<Rightarrow>
                  on_cache (bk_release bk (ss_handle (sc_store sc a)))
                    (sc\<lparr>sc_waiting := AList.delete rid (sc_waiting sc)\<rparr>)
              | None \<Rightarrow> (Inr (), sc))))"

subsection \<open>Reaping\<close>

definition cancel_stage :: "string \<Rightarrow> nat \<Rightarrow> ('c, 'f) scheduler \<Rightarrow> string" where
  "cancel_stage rid a sc =
     (if map_of (sc_waiting sc) rid \<noteq> None then ''python_waiting''
      else if ss_last_token (sc_store sc a) \<noteq> None then ''decode'' else ''prefill'')"

text \<open>The loops run over a snapshot of both queues.\<close>

definition queued :: "('c, 'f) scheduler \<Rightarrow> nat list" where
  "queued sc = dict_values (sc_waiting sc) @ dict_values (sc_running sc)"

definition drop_request :: "('c, 'p, 'f) backend \<Rightarrow> nat \<Rightarrow> ('c, 'f) scheduler \<Rightarrow> (exn + unit) \<times> ('c, 'f) scheduler" where
  "drop_request bk a sc =
     (let rid = sq_request_id (ss_work (sc_store sc a))
      in on_cache (bk_release bk (ss_handle (sc_store sc a)))
           (sc\<lparr>sc_waiting := AList.delete rid (sc_waiting sc), sc_running := AList.delete rid (sc_running sc)\<rparr>))"

fun reap_cancelled_loop ::
  "('c, 'p, 'f) backend \<Rightarrow> string set \<Rightarrow> nat list \<Rightarrow> scheduler_event list \<Rightarrow> ('c, 'f) scheduler \<Rightarrow>
     (exn + scheduler_event list) \<times> ('c, 'f) scheduler" where
  "reap_cancelled_loop bk protected [] events sc = (Inr events, sc)"
| "reap_cancelled_loop bk protected (a # as) events sc =
     (let rid = sq_request_id (ss_work (sc_store sc a))
      in if ss_cancel (sc_store sc a) \<and> rid \<notin> protected then
           bind_err (drop_request bk a)
             (\<lambda>_. reap_cancelled_loop bk protected as (events @ [CancelledEvent rid (cancel_stage rid a sc)])) sc
         else reap_cancelled_loop bk protected as events sc)"

definition reap_cancelled ::
  "('c, 'p, 'f) backend \<Rightarrow> string set \<Rightarrow> scheduler_event list \<Rightarrow> ('c, 'f) scheduler \<Rightarrow>
     (exn + scheduler_event list) \<times> ('c, 'f) scheduler" where
  "reap_cancelled bk protected events sc = reap_cancelled_loop bk protected (queued sc) events sc"

fun reap_finished_loop ::
  "('c, 'p, 'f) backend \<Rightarrow> string set \<Rightarrow> nat list \<Rightarrow> ('c, 'f) scheduler \<Rightarrow> (exn + unit) \<times> ('c, 'f) scheduler" where
  "reap_finished_loop bk protected [] sc = (Inr (), sc)"
| "reap_finished_loop bk protected (a # as) sc =
     (if ss_finish (sc_store sc a) \<and> sq_request_id (ss_work (sc_store sc a)) \<notin> protected then
        bind_err (drop_request bk a) (\<lambda>_. reap_finished_loop bk protected as) sc
      else reap_finished_loop bk protected as sc)"

definition reap_finished ::
  "('c, 'p, 'f) backend \<Rightarrow> string set \<Rightarrow> ('c, 'f) scheduler \<Rightarrow> (exn + unit) \<times> ('c, 'f) scheduler" where
  "reap_finished bk protected sc = reap_finished_loop bk protected (queued sc) sc"

subsection \<open>Selecting work\<close>

definition decode_ready :: "sched_state \<Rightarrow> bool" where
  "decode_ready st \<longleftrightarrow> \<not> ss_cancel st \<and> \<not> ss_finish st \<and> \<not> ss_complete st \<and> ss_last_token st \<noteq> None"

definition decode_work :: "nat \<Rightarrow> sched_state \<Rightarrow> selected_work" where
  "decode_work a st = \<lparr>sw_state = a, sw_request =
     \<lparr>er_request_id = sq_request_id (ss_work st), er_phase = Decode, er_token_ids = [the (ss_last_token st)],
      er_positions = [ss_cache_length st], er_cache_handle = ss_handle st, er_sampling = sq_sampling (ss_work st)\<rparr>\<rparr>"

definition prefill_work :: "nat \<Rightarrow> nat \<Rightarrow> sched_state \<Rightarrow> selected_work" where
  "prefill_work step a st =
     (let start = ss_cursor st; stop = min (length (sq_prompt (ss_work st))) (start + step)
      in \<lparr>sw_state = a, sw_request =
           \<lparr>er_request_id = sq_request_id (ss_work st), er_phase = Prefill,
            er_token_ids = drop start (take stop (sq_prompt (ss_work st))),
            er_positions = [start..<stop], er_cache_handle = ss_handle st, er_sampling = sq_sampling (ss_work st)\<rparr>\<rparr>)"

definition prefill_candidates :: "('c, 'f) scheduler \<Rightarrow> nat list" where
  "prefill_candidates sc =
     filter (\<lambda>a. let st = sc_store sc a in \<not> ss_cancel st \<and> \<not> ss_finish st \<and>
         ss_cursor st < length (sq_prompt (ss_work st))) (dict_values (sc_running sc)) @
     filter (\<lambda>a. let st = sc_store sc a in \<not> ss_cancel st \<and> \<not> ss_finish st) (dict_values (sc_waiting sc))"

text \<open>The admission of a request that has no cache yet.\<close>

definition admit :: "('c, 'p, 'f) backend \<Rightarrow> nat \<Rightarrow> ('c, 'f) scheduler \<Rightarrow> (exn + unit) \<times> ('c, 'f) scheduler" where
  "admit bk a sc =
     (let work = ss_work (sc_store sc a); rid = sq_request_id work;
          sc1 = sc\<lparr>sc_waiting := AList.delete rid (sc_waiting sc)\<rparr>;
          (probe, sc2) = (case ss_probe (sc_store sc1 a) of
                            Some p \<Rightarrow> (p, sc1) | None \<Rightarrow> on_cache (bk_probe bk (sq_prompt work)) sc1);
          sc3 = upd_state a (ss_probe_update (\<lambda>_. None)) sc2
      in bind_err (on_cache (bk_acquire bk rid (sq_prompt work) (Some probe)))
           (\<lambda>adm sc4. (Inr (), (upd_state a (\<lambda>st. st\<lparr>ss_handle := Some (ca_cache_handle adm),
                ss_cache_length := ca_cache_length adm, ss_reused := ca_reused_tokens adm,
                ss_cursor := ca_reused_tokens adm\<rparr>) sc4)
              \<lparr>sc_running := AList.update rid a (sc_running sc4)\<rparr>)) sc3)"

fun select_prefill ::
  "('c, 'p, 'f) backend \<Rightarrow> nat list \<Rightarrow> selected_work list \<Rightarrow> ('c, 'f) scheduler \<Rightarrow>
     (exn + selected_work list) \<times> ('c, 'f) scheduler" where
  "select_prefill bk [] selected sc = (Inr selected, sc)"
| "select_prefill bk (a # as) selected sc =
     bind_err (if ss_handle (sc_store sc a) = None then admit bk a else (\<lambda>sc. (Inr (), sc)))
       (\<lambda>_ sc1. select_prefill bk as (selected @ [prefill_work (sc_prefill_step sc1) a (sc_store sc1 a)]) sc1) sc"

definition select_work ::
  "('c, 'p, 'f) backend \<Rightarrow> ('c, 'f) scheduler \<Rightarrow> (exn + selected_work list) \<times> ('c, 'f) scheduler" where
  "select_work bk sc =
     (let selected = map (\<lambda>a. decode_work a (sc_store sc a))
            (filter (\<lambda>a. decode_ready (sc_store sc a)) (dict_values (sc_running sc)));
          prefill_limit = (if selected \<noteq> [] \<and> sc_prioritize_decode sc then 1 else sc_prefill_batch sc)
      in case order_states bk (prefill_candidates sc) sc of
           (ordered, sc1) \<Rightarrow> select_prefill bk (take prefill_limit ordered) selected sc1)"

subsection \<open>Applying a result\<close>

definition emit_failures :: "selected_work list \<Rightarrow> exn \<Rightarrow> ('c, 'f) scheduler \<Rightarrow> scheduler_event list" where
  "emit_failures selected e sc =
     (let (code, message) = (case e of BatchExecutionError c m \<Rightarrow> (c, m) | _ \<Rightarrow> (''WORKER_ERROR'', exn_str e))
      in map (\<lambda>w. ErrorEvent (sq_request_id (ss_work (sc_store sc (sw_state w)))) code message) selected)"

definition mark_finished :: "selected_work list \<Rightarrow> ('c, 'f) scheduler \<Rightarrow> ('c, 'f) scheduler" where
  "mark_finished selected sc = fold (\<lambda>w. upd_state (sw_state w) (ss_finish_update (\<lambda>_. True))) selected sc"

definition mark_generated :: "('c, 'f) scheduler \<Rightarrow> token option \<Rightarrow> sched_state \<Rightarrow> sched_state" where
  "mark_generated sc tok st =
     (let generated = Suc (ss_generated st)
      in st\<lparr>ss_generated := generated,
            ss_complete := (if sc_overlap sc
              then sq_max_tokens (ss_work st) \<le> int generated \<or> (\<exists>t \<in> sc_terminal sc. tok = Some t)
              else ss_complete st)\<rparr>)"

definition apply_item :: "('c, 'f) scheduler \<Rightarrow> execution_request \<Rightarrow> step_request_result \<Rightarrow> sched_state \<Rightarrow> sched_state" where
  "apply_item sc q item st =
     (let st1 = st\<lparr>ss_cache_length := sr_cache_length item\<rparr>
      in case er_phase q of
           Prefill \<Rightarrow>
             (let st2 = st1\<lparr>ss_cursor := ss_cursor st1 + length (er_token_ids q)\<rparr>
              in if ss_cursor st2 = length (sq_prompt (ss_work st2))
                 then mark_generated sc (sr_next_token_id item) (st2\<lparr>ss_last_token := sr_next_token_id item\<rparr>)
                 else st2)
         | Decode \<Rightarrow> mark_generated sc (sr_next_token_id item) (st1\<lparr>ss_last_token := sr_next_token_id item\<rparr>))"

text \<open>\<open>{item.request_id: item for item in result.results}\<close>: the last result of an id counts.\<close>

definition results_by_id :: "step_request_result list \<Rightarrow> string \<Rightarrow> step_request_result option" where
  "results_by_id results = map_of (rev (map (\<lambda>x. (sr_request_id x, x)) results))"

text \<open>Whether a result is an error for its request, and which.\<close>

definition result_error :: "execution_request \<Rightarrow> step_request_result option \<Rightarrow> (string \<times> string) option" where
  "result_error q entry =
     (case entry of
        None \<Rightarrow> Some (''INCOMPLETE_EXECUTION_RESULT'', ''missing executor result'')
      | Some item \<Rightarrow>
          if sr_phase item \<noteq> er_phase q then
            Some (''INVALID_EXECUTION_RESULT'', ''executor result phase does not match scheduled work'')
          else
            (case sr_error_code item of
               Some code \<Rightarrow> Some (code, (case sr_error_message item of
                   None \<Rightarrow> ''native execution request failed''
                 | Some m \<Rightarrow> if m = [] then ''native execution request failed'' else m))
             | None \<Rightarrow> None))"

fun advance_step_state ::
  "selected_work list \<Rightarrow> step_result \<Rightarrow> scheduler_event list \<Rightarrow> ('c, 'f) scheduler \<Rightarrow>
     (selected_work \<times> step_request_result) list \<times> scheduler_event list \<times> ('c, 'f) scheduler" where
  "advance_step_state [] result events sc = ([], events, sc)"
| "advance_step_state (w # ws) result events sc =
     (let a = sw_state w; q = sw_request w; st = sc_store sc a; entry = results_by_id (st_results result) (er_request_id q)
      in if ss_cancel st \<or> ss_finish st then advance_step_state ws result events sc
         else
           (case result_error q entry of
              Some (code, message) \<Rightarrow>
                advance_step_state ws result (events @ [ErrorEvent (sq_request_id (ss_work st)) code message])
                  (upd_state a (ss_finish_update (\<lambda>_. True)) sc)
            | None \<Rightarrow>
                (let item = the entry;
                     (applied, events', sc') = advance_step_state ws result events (upd_state a (apply_item sc q item) sc)
                 in ((w, item) # applied, events', sc'))))"

definition count_phase :: "phase \<Rightarrow> step_result \<Rightarrow> nat" where
  "count_phase ph result = length (filter (\<lambda>item. sr_phase item = ph) (st_results result))"

definition emit_prefill_result ::
  "('c, 'p, 'f) backend \<Rightarrow> selected_work \<Rightarrow> step_request_result \<Rightarrow> step_result \<Rightarrow> scheduler_event list \<Rightarrow>
     ('c, 'f) scheduler \<Rightarrow> (exn + scheduler_event list) \<times> ('c, 'f) scheduler" where
  "emit_prefill_result bk w item result events sc =
     (let work = ss_work (sc_store sc (sw_state w));
          h = (case sr_cache_handle item of None \<Rightarrow> '''' | Some h \<Rightarrow> h)
      in bind_err (on_cache (bk_publish bk h (sq_prompt work) (sr_cache_length item)))
           (\<lambda>_ sc1.
             (let st = sc_store sc1 (sw_state w); complete = (ss_cursor st = length (sq_prompt (ss_work st)));
                  progress = PrefillProgress (sq_request_id (ss_work st)) (sr_cache_length item)
                    (count_phase Prefill result) (length (er_token_ids (sw_request w))) (ss_reused st) complete
              in (Inr (events @ [progress] @
                    (if complete then [TokenEvent (sq_request_id (ss_work st)) (sr_next_token_id item)
                                         (sr_cache_length item) Prefill] else [])), sc1))) sc)"

definition emit_decode_result ::
  "selected_work \<Rightarrow> step_request_result \<Rightarrow> ('c, 'f) scheduler \<Rightarrow> scheduler_event" where
  "emit_decode_result w item sc =
     TokenEvent (sq_request_id (ss_work (sc_store sc (sw_state w)))) (sr_next_token_id item) (sr_cache_length item) Decode"

fun emit_applied ::
  "('c, 'p, 'f) backend \<Rightarrow> (selected_work \<times> step_request_result) list \<Rightarrow> step_result \<Rightarrow> scheduler_event list \<Rightarrow>
     ('c, 'f) scheduler \<Rightarrow> (exn + scheduler_event list) \<times> ('c, 'f) scheduler" where
  "emit_applied bk [] result events sc = (Inr events, sc)"
| "emit_applied bk ((w, item) # rest) result events sc =
     (if er_phase (sw_request w) = Prefill then
        bind_err (emit_prefill_result bk w item result events) (\<lambda>events'. emit_applied bk rest result events') sc
      else emit_applied bk rest result (events @ [emit_decode_result w item sc]) sc)"

definition emit_metrics :: "phase \<Rightarrow> selected_work list \<Rightarrow> ('c, 'f) scheduler \<Rightarrow> scheduler_event list" where
  "emit_metrics ph selected sc =
     (let work = filter (\<lambda>w. er_phase (sw_request w) = ph \<and> \<not> ss_cancel (sc_store sc (sw_state w)) \<and>
            \<not> ss_finish (sc_store sc (sw_state w))) selected
      in if work = [] then []
         else [MetricsEvent ph (length work) (sum_list (map (\<lambda>w. length (er_token_ids (sw_request w))) work))
                 (length (sc_waiting sc)) (length (sc_running sc))])"

definition emit_step_result ::
  "('c, 'p, 'f) backend \<Rightarrow> selected_work list \<Rightarrow> step_result \<Rightarrow> (selected_work \<times> step_request_result) list \<Rightarrow>
     scheduler_event list \<Rightarrow> ('c, 'f) scheduler \<Rightarrow> (exn + scheduler_event list) \<times> ('c, 'f) scheduler" where
  "emit_step_result bk selected result applied events sc =
     bind_err (emit_applied bk applied result events)
       (\<lambda>events' sc1. (Inr (events' @ emit_metrics Decode selected sc1 @ emit_metrics Prefill selected sc1), sc1)) sc"

definition apply_step_result ::
  "('c, 'p, 'f) backend \<Rightarrow> selected_work list \<Rightarrow> step_result \<Rightarrow> scheduler_event list \<Rightarrow>
     ('c, 'f) scheduler \<Rightarrow> (exn + scheduler_event list) \<times> ('c, 'f) scheduler" where
  "apply_step_result bk selected result events sc =
     (case advance_step_state selected result events sc of
        (applied, events', sc1) \<Rightarrow> emit_step_result bk selected result applied events' sc1)"

subsection \<open>Ticks\<close>

definition run_step ::
  "('c, 'p, 'f) backend \<Rightarrow> selected_work list \<Rightarrow> scheduler_event list \<Rightarrow> ('c, 'f) scheduler \<Rightarrow>
     (exn + scheduler_event list) \<times> ('c, 'f) scheduler" where
  "run_step bk selected events sc =
     (case on_cache (bk_execute_batch bk (map sw_request selected)) sc of
        (Inl e, sc1) \<Rightarrow> (Inr (events @ emit_failures selected e sc1), sc1)
      | (Inr result, sc1) \<Rightarrow> apply_step_result bk selected result events sc1)"

definition begin_tick :: "('c, 'f) scheduler \<Rightarrow> scheduler_event list \<times> ('c, 'f) scheduler" where
  "begin_tick sc = (sc_pending sc, sc\<lparr>sc_pending := [], sc_round := Suc (sc_round sc)\<rparr>)"

definition tick_serial ::
  "('c, 'p, 'f) backend \<Rightarrow> ('c, 'f) scheduler \<Rightarrow> (exn + scheduler_event list) \<times> ('c, 'f) scheduler" where
  "tick_serial bk sc =
     (case begin_tick sc of (events, sc1) \<Rightarrow>
        bind_err (reap_cancelled bk {} events)
          (\<lambda>events1. bind_err (select_work bk)
            (\<lambda>selected. if selected = [] then (\<lambda>sc. (Inr events1, sc))
               else bind_err (run_step bk selected events1) (\<lambda>events2. reap_cancelled bk {} events2))) sc1)"

text \<open>Resolving the step that is in flight: its state is applied, its events come later.\<close>

definition resolve_in_flight ::
  "('c, 'p, 'f) backend \<Rightarrow> scheduler_event list \<Rightarrow> ('c, 'f) scheduler \<Rightarrow>
     (exn + scheduler_event list \<times> (selected_work list \<times> step_result \<times> (selected_work \<times> step_request_result) list) option)
       \<times> ('c, 'f) scheduler" where
  "resolve_in_flight bk events sc =
     (case sc_in_flight sc of
        None \<Rightarrow> (Inr (events, None), sc)
      | Some (selected, f) \<Rightarrow>
          (let (events1, resolved, sc1) =
             (case on_cache (bk_resolve_batch bk f) (sc\<lparr>sc_in_flight := None\<rparr>) of
                (Inl e, sc1) \<Rightarrow> (events @ emit_failures selected e sc1, None, mark_finished selected sc1)
              | (Inr result, sc1) \<Rightarrow>
                  (case advance_step_state selected result events sc1 of
                     (applied, events', sc2) \<Rightarrow> (events', Some (selected, result, applied), sc2)))
           in bind_err (reap_cancelled bk {} events1)
                (\<lambda>events2. bind_err (reap_finished bk {}) (\<lambda>_ sc. (Inr (events2, resolved), sc))) sc1))"

text \<open>Preparing the next step, and dispatching it unless it is pure prefill or has no work.\<close>

definition launch_step ::
  "('c, 'p, 'f) backend \<Rightarrow> selected_work list \<Rightarrow> scheduler_event list \<Rightarrow> ('c, 'f) scheduler \<Rightarrow>
     scheduler_event list \<times> step_result option \<times> ('c, 'f) scheduler" where
  "launch_step bk selected events sc =
     (let requests = map sw_request selected;
          failed = (\<lambda>e sc. (events @ emit_failures selected e sc, None, mark_finished selected sc))
      in case on_cache (bk_prepare_batch bk requests) sc of
           (Inl e, sc1) \<Rightarrow> failed e sc1
         | (Inr p, sc1) \<Rightarrow>
             if bk_has_work bk p then
               (case from_phases (map er_phase requests) of
                  Inl e \<Rightarrow> failed e sc1
                | Inr PREFILL \<Rightarrow>
                    (case on_cache (bk_execute_prepared_serial bk p) sc1 of
                       (Inl e, sc2) \<Rightarrow> failed e sc2
                     | (Inr result, sc2) \<Rightarrow> (events, Some result, sc2))
                | Inr _ \<Rightarrow>
                    (case on_cache (bk_dispatch_batch bk p) sc1 of
                       (Inl e, sc2) \<Rightarrow> failed e sc2
                     | (Inr f, sc2) \<Rightarrow> (events, None, sc2\<lparr>sc_in_flight := Some (selected, f)\<rparr>)))
             else
               (case on_cache (bk_execute_prepared bk p) sc1 of
                  (Inl e, sc2) \<Rightarrow> failed e sc2
                | (Inr result, sc2) \<Rightarrow> (events, Some result, sc2)))"

definition tick_overlap ::
  "('c, 'p, 'f) backend \<Rightarrow> ('c, 'f) scheduler \<Rightarrow> (exn + scheduler_event list) \<times> ('c, 'f) scheduler" where
  "tick_overlap bk sc =
     (case begin_tick sc of (events, sc1) \<Rightarrow>
        (let protected = in_flight_ids sc1
         in bind_err (reap_cancelled bk protected events)
              (\<lambda>events1. bind_err (reap_finished bk protected)
                (\<lambda>_. bind_err (resolve_in_flight bk events1)
                  (\<lambda>(events2, resolved). bind_err (select_work bk)
                    (\<lambda>selected sc2.
                      (let (events3, immediate, sc3) =
                         (if selected = [] then (events2, None, sc2) else launch_step bk selected events2 sc2)
                       in bind_err (case resolved of
                              None \<Rightarrow> (\<lambda>sc. (Inr events3, sc))
                            | Some (selected', result, applied) \<Rightarrow>
                                emit_step_result bk selected' result applied events3)
                            (\<lambda>events4. bind_err (case immediate of
                                None \<Rightarrow> (\<lambda>sc. (Inr events4, sc))
                              | Some result \<Rightarrow> apply_step_result bk selected result events4)
                              (\<lambda>events5 sc. case reap_finished bk (in_flight_ids sc) sc of
                                 (Inl e, sc') \<Rightarrow> (Inl e, sc')
                               | (Inr _, sc') \<Rightarrow> (Inr events5, sc'))) sc3))))) sc1))"

definition tick :: "('c, 'p, 'f) backend \<Rightarrow> ('c, 'f) scheduler \<Rightarrow> (exn + scheduler_event list) \<times> ('c, 'f) scheduler" where
  "tick bk sc = (if sc_overlap sc then tick_overlap bk sc else tick_serial bk sc)"

subsection \<open>Idleness, reset, close\<close>

definition sched_idle :: "('c, 'f) scheduler \<Rightarrow> bool" where
  "sched_idle sc \<longleftrightarrow> sc_waiting sc = [] \<and> sc_running sc = [] \<and> sc_in_flight sc = None"

definition benchmark_reset ::
  "('c, 'p, 'f) backend \<Rightarrow> bool \<Rightarrow> bool \<Rightarrow> ('c, 'f) scheduler \<Rightarrow> (exn + unit) \<times> ('c, 'f) scheduler" where
  "benchmark_reset bk clear_cache reset_counters sc =
     (if \<not> sched_idle sc then (Inl (RuntimeError ''benchmark reset requires an idle scheduler''), sc)
      else
        (let sc1 = sc\<lparr>sc_pending := []\<rparr>;
             sc2 = (if reset_counters then sc1\<lparr>sc_arrival := 0, sc_round := 0\<rparr> else sc1)
         in on_cache (bk_reset bk clear_cache reset_counters) sc2))"

fun finish_all ::
  "('c, 'p, 'f) backend \<Rightarrow> string list \<Rightarrow> ('c, 'f) scheduler \<Rightarrow> (exn + unit) \<times> ('c, 'f) scheduler" where
  "finish_all bk [] sc = (Inr (), sc)"
| "finish_all bk (rid # rids) sc = bind_err (sched_finish bk rid) (\<lambda>_. finish_all bk rids) sc"

definition sched_close ::
  "('c, 'p, 'f) backend \<Rightarrow> ('c, 'f) scheduler \<Rightarrow> (exn + unit) \<times> ('c, 'f) scheduler" where
  "sched_close bk sc =
     bind_err (\<lambda>sc. case sc_in_flight sc of
          None \<Rightarrow> (Inr (), sc)
        | Some (_, f) \<Rightarrow> on_cache (bk_discard_batch bk f) (sc\<lparr>sc_in_flight := None\<rparr>))
       (\<lambda>_ sc. finish_all bk (dict_keys (sc_waiting sc) @ dict_keys (sc_running sc)) sc) sc"

end
