(* ===== verification/StopText.thy ===== *)
theory StopText
  imports Prelude
begin

text \<open>
  The stop-sequence assembler of the native runtime,
  \<^verbatim>\<open>_StopTextAssembler\<close> in \<^verbatim>\<open>native_mlx/runtime.py\<close>: text arrives in
  chunks, everything that may still be the beginning of a stop sequence is held back, and
  the text is cut at the earliest stop.  Python strings are lists of an arbitrary
  character type, so that the lemmas hold for code points as well as for bytes.
\<close>

subsection \<open>The code\<close>

text \<open>\<open>str.find\<close>: the first index at which the pattern occurs.\<close>

fun str_find :: "'a list \<Rightarrow> 'a list \<Rightarrow> nat option" where
  "str_find [] p = (if p = [] then Some 0 else None)"
| "str_find (x # xs) p =
     (if prefix p (x # xs) then Some 0 else map_option Suc (str_find xs p))"

record 'a assembler =
  stop_sequences :: "'a list list"
  pending :: "'a list"
  emitted :: "'a list"

definition new_assembler :: "'a list list \<Rightarrow> 'a assembler" where
  "new_assembler stops = \<lparr>stop_sequences = stops, pending = [], emitted = []\<rparr>"

text \<open>\<open>max((len(stop) - 1 for stop in stops), default=0)\<close>\<close>

definition hold_length :: "'a list list \<Rightarrow> nat" where
  "hold_length stops =
     (if stops = [] then 0 else Max (set (map (\<lambda>s. length s - 1) stops)))"

definition push :: "'a list \<Rightarrow> 'a assembler \<Rightarrow> ('a list \<times> bool) \<times> 'a assembler" where
  "push t a =
     (let buf = pending a @ t;
          matches = List.map_filter (str_find buf) (stop_sequences a)
      in if matches \<noteq> [] then
           (let index = Min (set matches); chunk = take index buf
            in ((chunk, True), a\<lparr>emitted := emitted a @ chunk, pending := []\<rparr>))
         else
           (let hold = hold_length (stop_sequences a)
            in if length buf \<le> hold then (([], False), a\<lparr>pending := buf\<rparr>)
               else
                 (let chunk = (if hold \<noteq> 0 then take (length buf - hold) buf else buf);
                      rest = (if hold \<noteq> 0 then drop (length buf - hold) buf else [])
                  in ((chunk, False),
                      a\<lparr>pending := rest, emitted := emitted a @ chunk\<rparr>))))"

definition finish_text :: "'a assembler \<Rightarrow> 'a list \<times> 'a assembler" where
  "finish_text a = (pending a, a\<lparr>emitted := emitted a @ pending a, pending := []\<rparr>)"

definition full_text :: "'a assembler \<Rightarrow> 'a list" where
  "full_text a = emitted a @ pending a"

subsection \<open>What the search finds\<close>

lemma str_find_Some:
  "str_find xs p = Some i \<Longrightarrow> i \<le> length xs \<and> prefix p (drop i xs)"
  by (induction xs p arbitrary: i rule: str_find.induct) (auto split: if_splits)

lemma str_find_least:
  "str_find xs p = Some i \<Longrightarrow> prefix p (drop j xs) \<Longrightarrow> i \<le> j"
proof (induction xs p arbitrary: i j rule: str_find.induct)
  case (2 x xs p)
  then show ?case by (cases j) (auto split: if_splits)
qed simp

lemma str_find_None:
  "str_find xs p = None \<longleftrightarrow> (\<forall>j \<le> length xs. \<not> prefix p (drop j xs))"
proof (induction xs p rule: str_find.induct)
  case (2 x xs p)
  have "(\<forall>j \<le> Suc (length xs). \<not> prefix p (drop j (x # xs))) \<longleftrightarrow>
        \<not> prefix p (x # xs) \<and> (\<forall>j \<le> length xs. \<not> prefix p (drop j xs))"
    by (metis (no_types, lifting) Suc_le_mono Zero_not_Suc drop0 drop_Suc_Cons le0 not0_implies_Suc)
  with 2 show ?case by simp
qed auto

text \<open>An occurrence of a stop sequence at a position of the text.\<close>

definition stop_at :: "'a list list \<Rightarrow> 'a list \<Rightarrow> nat \<Rightarrow> bool" where
  "stop_at stops t i \<longleftrightarrow> (\<exists>s \<in> set stops. i \<le> length t \<and> prefix s (drop i t))"

definition stop_free :: "'a list list \<Rightarrow> 'a list \<Rightarrow> bool" where
  "stop_free stops t \<longleftrightarrow> (\<forall>i. \<not> stop_at stops t i)"

lemma set_matches:
  "set (List.map_filter (str_find t) stops) = {i. \<exists>s \<in> set stops. str_find t s = Some i}"
  by (auto simp: List.map_filter_def image_iff) force

lemma matches_empty_iff:
  "List.map_filter (str_find t) stops = [] \<longleftrightarrow> stop_free stops t"
proof -
  have "List.map_filter (str_find t) stops = [] \<longleftrightarrow> (\<forall>s \<in> set stops. str_find t s = None)"
    by (induction stops) (auto simp: List.map_filter_simps split: option.splits)
  then show ?thesis by (auto simp: stop_free_def stop_at_def str_find_None)
qed

lemma Min_matches:
  assumes "List.map_filter (str_find t) stops \<noteq> []"
  defines "m \<equiv> Min (set (List.map_filter (str_find t) stops))"
  shows "stop_at stops t m" and "stop_at stops t j \<Longrightarrow> m \<le> j"
proof -
  have "m \<in> set (List.map_filter (str_find t) stops)"
    unfolding m_def using assms(1) by (intro Min_in) auto
  then show "stop_at stops t m"
    unfolding set_matches stop_at_def by (auto dest: str_find_Some)
  assume j: "stop_at stops t j"
  then obtain s where s: "s \<in> set stops" "j \<le> length t" "prefix s (drop j t)"
    by (auto simp: stop_at_def)
  then obtain i where i: "str_find t s = Some i"
    by (metis not_None_eq str_find_None)
  then have "i \<in> set (List.map_filter (str_find t) stops)" using s by (auto simp: set_matches)
  then have "m \<le> i" unfolding m_def by simp
  also have "i \<le> j" using str_find_least [OF i s(3)] .
  finally show "m \<le> j" .
qed

lemma hold_length_ge: "s \<in> set stops \<Longrightarrow> length s - 1 \<le> hold_length stops"
  by (auto simp: hold_length_def)

subsection \<open>The assembler against a cut of the whole text\<close>

text \<open>
  The reference: look at the whole text at once and cut it at the earliest position at
  which some stop sequence begins.
\<close>

definition reference_cut :: "'a list list \<Rightarrow> 'a list \<Rightarrow> 'a list \<times> bool" where
  "reference_cut stops t =
     (case find (\<lambda>i. list_ex (\<lambda>s. prefix s (drop i t)) stops) [0..<Suc (length t)] of
        None \<Rightarrow> (t, False)
      | Some i \<Rightarrow> (take i t, True))"

text \<open>Feeding chunks until one of them reports a stop, as the runtime does.\<close>

fun feed :: "'a list list \<Rightarrow> 'a assembler \<Rightarrow> ('a list list \<times> bool) \<times> 'a assembler" where
  "feed [] a = (([], False), a)"
| "feed (c # cs) a =
     (case push c a of
        ((out, True), a') \<Rightarrow> (([out], True), a')
      | ((out, False), a') \<Rightarrow>
          (case feed cs a' of ((outs, hit), a'') \<Rightarrow> ((out # outs, hit), a'')))"

definition assembler_ok :: "'a assembler \<Rightarrow> bool" where
  "assembler_ok a \<longleftrightarrow>
     [] \<notin> set (stop_sequences a) \<and>
     stop_free (stop_sequences a) (full_text a) \<and>
     length (pending a) = min (hold_length (stop_sequences a)) (length (full_text a))"

lemma stop_at_drop:
  assumes "stop_at stops t i" shows "n \<le> i \<Longrightarrow> stop_at stops (drop n t) (i - n)"
  using assms by (auto simp: stop_at_def)

lemma stop_at_append_left:
  assumes "stop_at stops b i" shows "stop_at stops (a @ b) (length a + i)"
  using assms by (auto simp: stop_at_def)

lemma stop_free_new: "[] \<notin> set stops \<Longrightarrow> stop_free stops []"
  by (auto simp: stop_free_def stop_at_def)

lemma assembler_ok_new: "[] \<notin> set stops \<Longrightarrow> assembler_ok (new_assembler stops)"
  by (simp add: assembler_ok_def new_assembler_def full_text_def stop_free_new)

text \<open>Text that has been emitted can no longer be the beginning of a stop sequence.\<close>

lemma stop_after_emitted:
  assumes ok: "assembler_ok a"
    and hit: "stop_at (stop_sequences a) (full_text a @ t) j"
  shows "length (emitted a) \<le> j"
proof -
  let ?full = "full_text a" and ?hold = "hold_length (stop_sequences a)"
  from hit obtain s where s: "s \<in> set (stop_sequences a)" "j \<le> length (?full @ t)"
    "prefix s (drop j (?full @ t))"
    by (auto simp: stop_at_def)
  have "\<not> j + length s \<le> length ?full"
  proof
    assume short: "j + length s \<le> length ?full"
    then have "prefix s (drop j ?full)"
      using prefix_length_prefix [OF s(3), of "drop j ?full"] by simp
    then have "stop_at (stop_sequences a) ?full j"
      using s(1) short by (auto simp: stop_at_def)
    then show False using ok by (simp add: assembler_ok_def stop_free_def)
  qed
  moreover have "length s - 1 \<le> ?hold" "s \<noteq> []"
    using s(1) ok hold_length_ge by (auto simp: assembler_ok_def)
  ultimately have "length ?full \<le> j + ?hold" by (cases s) auto
  moreover have "length (pending a) = min ?hold (length ?full)"
    using ok by (simp add: assembler_ok_def)
  moreover have "length ?full = length (emitted a) + length (pending a)"
    by (simp add: full_text_def)
  ultimately show ?thesis by linarith
qed

lemma stop_at_full_iff:
  assumes "assembler_ok a"
  shows "stop_at (stop_sequences a) (full_text a @ t) j \<longleftrightarrow>
         length (emitted a) \<le> j \<and>
         stop_at (stop_sequences a) (pending a @ t) (j - length (emitted a))"
proof -
  have split: "full_text a @ t = emitted a @ (pending a @ t)"
    by (simp add: full_text_def)
  show ?thesis
    using stop_after_emitted [OF assms, of t j]
      stop_at_drop [of "stop_sequences a" "full_text a @ t" j "length (emitted a)"]
      stop_at_append_left [of "stop_sequences a" "pending a @ t" "j - length (emitted a)" "emitted a"]
    unfolding split by fastforce
qed

lemma push_no_stop:
  assumes ok: "assembler_ok a" and free: "stop_free (stop_sequences a) (full_text a @ t)"
  shows "\<exists>out a'. push t a = ((out, False), a') \<and> assembler_ok a' \<and>
     stop_sequences a' = stop_sequences a \<and>
     full_text a' = full_text a @ t \<and> emitted a' = emitted a @ out"
proof -
  let ?buf = "pending a @ t" and ?hold = "hold_length (stop_sequences a)"
  have "stop_free (stop_sequences a) ?buf"
    using free ok unfolding stop_free_def
    by (metis stop_at_full_iff add_diff_cancel_left' le_add1)
  then have none: "List.map_filter (str_find ?buf) (stop_sequences a) = []"
    by (simp add: matches_empty_iff)
  have len: "length (pending a) = min ?hold (length (full_text a))"
    using ok by (simp add: assembler_ok_def)
  show ?thesis
  proof (cases "length ?buf \<le> ?hold")
    case True
    have "emitted a = []" if "t \<noteq> []"
    proof -
      have "0 < length t" using that by simp
      then have "length (pending a) < ?hold" using True by (simp del: length_greater_0_conv)
      with len have "length (pending a) = length (full_text a)" by linarith
      then show ?thesis by (simp add: full_text_def)
    qed
    moreover have "push t a = (([], False), a\<lparr>pending := ?buf\<rparr>)"
      using none True by (simp add: push_def)
    ultimately show ?thesis
      using ok free True by (cases "t = []") (auto simp: assembler_ok_def full_text_def)
  next
    case False
    let ?n = "length ?buf - ?hold"
    have "push t a = ((take ?n ?buf, False), a\<lparr>pending := drop ?n ?buf, emitted := emitted a @ take ?n ?buf\<rparr>)"
      using none False by (auto simp: push_def Let_def)
    moreover have "min ?hold (length (full_text a @ t)) = ?hold"
      using False by (simp add: full_text_def)
    moreover have "length (drop ?n ?buf) = ?hold" using False by simp
    moreover have "full_text (a\<lparr>pending := drop ?n ?buf, emitted := emitted a @ take ?n ?buf\<rparr>) = full_text a @ t"
      by (simp add: full_text_def del: take_append drop_append)
    ultimately show ?thesis
      using ok free by (simp add: assembler_ok_def)
  qed
qed

lemma push_stop:
  assumes ok: "assembler_ok a" and nfree: "\<not> stop_free (stop_sequences a) (full_text a @ t)"
  shows "\<exists>out a' m. push t a = ((out, True), a') \<and> pending a' = [] \<and>
     emitted a' = emitted a @ out \<and> emitted a' = take m (full_text a @ t) \<and>
     stop_at (stop_sequences a) (full_text a @ t) m \<and>
     (\<forall>j. stop_at (stop_sequences a) (full_text a @ t) j \<longrightarrow> m \<le> j)"
proof -
  let ?buf = "pending a @ t"
  let ?ms = "List.map_filter (str_find ?buf) (stop_sequences a)"
  let ?i = "Min (set ?ms)" and ?m = "length (emitted a) + Min (set ?ms)"
  have ne: "?ms \<noteq> []"
    using nfree stop_at_full_iff [OF ok] unfolding matches_empty_iff stop_free_def by blast
  have push: "push t a = ((take ?i ?buf, True), a\<lparr>emitted := emitted a @ take ?i ?buf, pending := []\<rparr>)"
    using ne by (simp add: push_def Let_def)
  have at: "stop_at (stop_sequences a) (full_text a @ t) ?m"
    using Min_matches(1) [OF ne] stop_at_full_iff [OF ok] by simp
  have least: "?m \<le> j" if "stop_at (stop_sequences a) (full_text a @ t) j" for j
    using that Min_matches(2) [OF ne, of "j - length (emitted a)"] stop_at_full_iff [OF ok] by fastforce
  have "emitted a @ take ?i ?buf = take ?m (full_text a @ t)"
    by (simp add: full_text_def)
  then show ?thesis using push at least by auto
qed

lemma stop_at_iff_ex:
  "stop_at stops t i \<longleftrightarrow> i < Suc (length t) \<and> list_ex (\<lambda>s. prefix s (drop i t)) stops"
  by (auto simp: stop_at_def list_ex_iff)

lemma reference_cut_free: "stop_free stops t \<Longrightarrow> reference_cut stops t = (t, False)"
proof -
  assume "stop_free stops t"
  then have "find (\<lambda>i. list_ex (\<lambda>s. prefix s (drop i t)) stops) [0..<Suc (length t)] = None"
    by (auto simp: find_None_iff stop_free_def stop_at_iff_ex simp del: upt_Suc)
  then show ?thesis by (simp add: reference_cut_def del: upt_Suc)
qed

lemma reference_cut_stop:
  assumes m: "stop_at stops t m" and least: "\<And>j. stop_at stops t j \<Longrightarrow> m \<le> j"
  shows "reference_cut stops t = (take m t, True)"
proof -
  let ?P = "\<lambda>i. list_ex (\<lambda>s. prefix s (drop i t)) stops"
  have "find ?P [0..<Suc (length t)] = Some m"
    unfolding find_Some_iff
  proof (intro exI [of _ m] conjI allI impI)
    show "m < length [0..<Suc (length t)]" "?P ([0..<Suc (length t)] ! m)" "m = [0..<Suc (length t)] ! m"
      using m by (auto simp: stop_at_iff_ex nth_upt simp del: upt_Suc)
    fix j assume "j < m"
    then show "\<not> ?P ([0..<Suc (length t)] ! j)"
      using m least [of j] by (auto simp: stop_at_iff_ex nth_upt simp del: upt_Suc)
  qed
  then show ?thesis by (simp add: reference_cut_def del: upt_Suc)
qed

lemma reference_cut_snd: "snd (reference_cut stops t) \<longleftrightarrow> \<not> stop_free stops t"
proof -
  have "snd (reference_cut stops t) \<longleftrightarrow>
        find (\<lambda>i. list_ex (\<lambda>s. prefix s (drop i t)) stops) [0..<Suc (length t)] \<noteq> None"
    by (simp add: reference_cut_def split: option.split del: upt_Suc)
  also have "\<dots> \<longleftrightarrow> \<not> stop_free stops t"
    by (auto simp: find_None_iff stop_free_def stop_at_iff_ex simp del: upt_Suc)
  finally show ?thesis .
qed

lemma feed_from:
  assumes "assembler_ok a" and "feed cs a = ((outs, hit), a')"
  defines "t \<equiv> full_text a @ concat (take (length outs) cs)"
  shows "emitted a' = emitted a @ concat outs \<and>
     (if hit then pending a' = [] \<and> reference_cut (stop_sequences a) t = (emitted a', True) \<and>
         stop_free (stop_sequences a) (full_text a @ concat (take (length outs - 1) cs))
      else length outs = length cs \<and> full_text a' = t \<and> stop_free (stop_sequences a) t)"
  using assms(1,2) unfolding t_def
proof (induction cs arbitrary: a outs hit a')
  case Nil
  then show ?case by (auto simp: assembler_ok_def)
next
  case (Cons c cs)
  show ?case
  proof (cases "stop_free (stop_sequences a) (full_text a @ c)")
    case True
    then obtain out a1 where a1: "push c a = ((out, False), a1)" "assembler_ok a1"
      "stop_sequences a1 = stop_sequences a" "full_text a1 = full_text a @ c" "emitted a1 = emitted a @ out"
      using push_no_stop [OF Cons.prems(1)] by blast
    obtain outs1 hit1 a2 where f: "feed cs a1 = ((outs1, hit1), a2)" by (metis surj_pair)
    with a1 Cons.prems(2) have eqs: "outs = out # outs1" "hit = hit1" "a' = a2" by auto
    have free: "stop_free (stop_sequences a) (full_text a @ concat (take (length outs - 1) (c # cs)))"
      if "outs1 = []" using that eqs Cons.prems(1) by (simp add: assembler_ok_def)
    from Cons.IH [OF a1(2) f] a1 eqs free show ?thesis
      by (cases outs1) (auto split: if_splits)
  next
    case False
    then obtain out a1 m where a1: "push c a = ((out, True), a1)" "pending a1 = []"
      "emitted a1 = emitted a @ out" "emitted a1 = take m (full_text a @ c)"
      "stop_at (stop_sequences a) (full_text a @ c) m"
      "\<forall>j. stop_at (stop_sequences a) (full_text a @ c) j \<longrightarrow> m \<le> j"
      using push_stop [OF Cons.prems(1)] by blast
    then have "reference_cut (stop_sequences a) (full_text a @ c) = (emitted a1, True)"
      by (simp add: reference_cut_stop)
    with a1 Cons.prems show ?thesis by (auto simp: assembler_ok_def)
  qed
qed

lemma cut_stop_free:
  assumes "[] \<notin> set stops"
  shows "stop_free stops (fst (reference_cut stops t))"
proof (cases "stop_free stops t")
  case False
  then obtain k where k: "stop_at stops t k" by (auto simp: stop_free_def)
  define m where "m = (LEAST j. stop_at stops t j)"
  have m: "stop_at stops t m" "\<And>j. stop_at stops t j \<Longrightarrow> m \<le> j"
    unfolding m_def using k by (auto intro: LeastI Least_le)
  have "\<not> stop_at stops (take m t) j" for j
  proof
    assume "stop_at stops (take m t) j"
    then obtain s where s: "s \<in> set stops" "j \<le> length (take m t)" "prefix s (drop j (take m t))"
      by (auto simp: stop_at_def)
    have "prefix s (drop j t)"
      using s(3) take_is_prefix prefix_order.trans unfolding drop_take by blast
    then have "stop_at stops t j" using s by (auto simp: stop_at_def)
    then have "m \<le> j" by (rule m(2))
    then have "s = []" using s by simp
    then show False using s(1) assms by simp
  qed
  then show ?thesis using reference_cut_stop [OF m] by (simp add: stop_free_def)
qed (simp add: reference_cut_free)

lemma stop_free_prefix: "prefix u t \<Longrightarrow> stop_free stops t \<Longrightarrow> stop_free stops u"
proof -
  assume "prefix u t" and free: "stop_free stops t"
  then obtain v where v: "t = u @ v" by (auto simp: prefix_def)
  have "stop_at stops t i" if "stop_at stops u i" for i
    using that by (auto simp: stop_at_def v) (meson prefix_prefix)
  with free show "stop_free stops u" by (auto simp: stop_free_def)
qed

lemma feed_new:
  assumes "[] \<notin> set stops" and "feed chunks (new_assembler stops) = ((outs, hit), a)"
  shows "reference_cut stops (concat (take (length outs) chunks)) = (full_text a, hit)"
    and "emitted a = concat outs"
    and "hit \<Longrightarrow> stop_free stops (concat (take (length outs - 1) chunks))"
    and "\<not> hit \<Longrightarrow> length outs = length chunks"
proof -
  have "stop_sequences (new_assembler stops) = stops" "full_text (new_assembler stops) = []"
    "emitted (new_assembler stops) = []"
    by (simp_all add: new_assembler_def full_text_def)
  note r = feed_from [OF assembler_ok_new [OF assms(1)] assms(2), unfolded this append_Nil]
  show "reference_cut stops (concat (take (length outs) chunks)) = (full_text a, hit)"
    using r by (cases hit) (auto simp: full_text_def reference_cut_free)
  show "emitted a = concat outs"
    and "hit \<Longrightarrow> stop_free stops (concat (take (length outs - 1) chunks))"
    and "\<not> hit \<Longrightarrow> length outs = length chunks"
    using r by simp_all
qed

subsection \<open>Properties\<close>

text \<open>C22: the streaming assembler computes the cut of the whole text.  Whatever the chunks
  are, the run stops at the first chunk after which a stop sequence is present, and the text it
  has handed out is the text received so far cut at the earliest stop; with no stop sequence in
  the text, everything handed out plus the held-back rest is exactly the text.\<close>

theorem feed_refines_reference_cut:
  assumes "[] \<notin> set stops" and "feed chunks (new_assembler stops) = ((outs, hit), a)"
  shows "reference_cut stops (concat (take (length outs) chunks)) = (full_text a, hit) \<and>
     concat outs @ fst (finish_text a) = full_text a \<and>
     (if hit then \<not> snd (reference_cut stops (concat (take (length outs - 1) chunks)))
      else length outs = length chunks)"
  using feed_new [OF assms] by (simp add: reference_cut_snd full_text_def finish_text_def)

theorem feed_refines_reference_cut_witness:
  "reference_cut [''END''] (concat (take 2 [''ab'', ''cE'', ''N'', ''Dxy''])) = (''abcE'', False) \<and>
   fst (feed [''ab'', ''cE'', ''N'', ''Dxy''] (new_assembler [''END''])) = ([[], ''ab'', ''c'', []], True) \<and>
   reference_cut [''END''] (concat (take 4 [''ab'', ''cE'', ''N'', ''Dxy''])) = (''abc'', True)"
proof -
  have run: "feed [''ab'', ''cE'', ''N'', ''Dxy''] (new_assembler [''END'']) =
    (([[], ''ab'', ''c'', []], True), \<lparr>stop_sequences = [''END''], pending = [], emitted = ''abc''\<rparr>)"
    by code_simp
  have "[] \<notin> set [''END'']" by simp
  from feed_refines_reference_cut [OF this run] run show ?thesis
    by (simp add: full_text_def) code_simp
qed

text \<open>C23: no stop sequence ever reaches the client.  After any number of chunks the text handed
  out, with or without the held-back rest, contains no stop sequence at any position.\<close>

theorem handed_out_text_is_stop_free:
  assumes "[] \<notin> set stops" and "feed chunks (new_assembler stops) = ((outs, hit), a)"
  shows "stop_free stops (concat outs) \<and> stop_free stops (full_text a)"
proof -
  have "stop_free stops (full_text a)"
    using feed_new(1) [OF assms] cut_stop_free [OF assms(1)] by (metis fst_conv)
  moreover have "prefix (concat outs) (full_text a)"
    using feed_new(2) [OF assms] by (simp add: full_text_def)
  ultimately show ?thesis using stop_free_prefix by blast
qed

theorem handed_out_text_is_stop_free_witness:
  "concat [[], ''ab'', ''c'', []] = ''abc'' \<and>
   stop_free [''END''] (concat [[], ''ab'', ''c'', []]) \<and> stop_free [''END''] ''abc''"
proof -
  have run: "feed [''ab'', ''cE'', ''N'', ''Dxy''] (new_assembler [''END'']) =
    (([[], ''ab'', ''c'', []], True), \<lparr>stop_sequences = [''END''], pending = [], emitted = ''abc''\<rparr>)"
    by code_simp
  have "[] \<notin> set [''END'']" by simp
  from handed_out_text_is_stop_free [OF this run] show ?thesis by (simp add: full_text_def)
qed

end
