(* ===== verification/Runtime.thy ===== *)
theory Runtime
  imports Scheduler StopText Ipc
begin

text \<open>
  The request lifecycle, \<^verbatim>\<open>NativeRuntime\<close> in \<^verbatim>\<open>native_mlx/runtime.py\<close>: prompts are built
  and validated, handed to the scheduler, and the scheduler's events are turned into text, stop
  decisions and one terminal event per request.  The tokenizer is third-party code: its chat template, its
  streaming detokenizer (state \<open>'d\<close>, if it has one) and its decoder are the fields of
  \<open>tokenizer\<close>.  Clocks and the profiler are left out.  A request's state object lives in the
  dictionary \<open>rt_requests\<close>, the only reference the code keeps to it.
\<close>

subsection \<open>State\<close>

record 'd tokenizer =
  tk_template :: "(json \<times> string) list \<Rightarrow> exn + token list"
  tk_detokenizer :: "'d option"
  tk_add :: "token \<Rightarrow> 'd \<Rightarrow> 'd"
  tk_segment :: "'d \<Rightarrow> string"
  tk_finalize :: "'d \<Rightarrow> 'd"
  tk_decode :: "token list \<Rightarrow> string"

text \<open>A \<^verbatim>\<open>ChatCompletionRequest\<close> with fields of the declared types.\<close>

record text_request =
  tr_request_id :: string
  tr_model :: string
  tr_messages :: "chat_message list"
  tr_max_tokens :: int
  tr_temperature :: rat
  tr_top_p :: rat
  tr_max_prompt_tokens :: int
  tr_max_completion_tokens :: int
  tr_max_total_tokens :: int
  tr_stop :: "string list"
  tr_stream :: bool

record 'd request_state =
  us_request :: text_request
  us_prompt :: "token list"
  us_stop :: "char assembler"
  us_completion :: "token list"
  us_detokenizer :: "'d option"
  us_decoded :: string
  us_prompt_batch :: "nat option"
  us_cancellation_stage :: "string option"
  us_cached :: nat

record ('d, 'c, 'f) runtime =
  rt_scheduler :: "('c, 'f) scheduler"
  rt_model_ref :: string
  rt_eos :: "token list"
  rt_requests :: "(string, 'd request_state) dict"
  rt_cancellations :: nat
  rt_errors :: nat

datatype runtime_event =
    RtMetrics phase nat nat nat nat
  | RtDelta string string
  | RtResponse string string string nat nat nat "string option"
  | RtError string string string

definition upd_request ::
  "string \<Rightarrow> ('d request_state \<Rightarrow> 'd request_state) \<Rightarrow> ('d, 'c, 'f) runtime \<Rightarrow> ('d, 'c, 'f) runtime" where
  "upd_request rid f rt =
     (case map_of (rt_requests rt) rid of
        None \<Rightarrow> rt
      | Some st \<Rightarrow> rt\<lparr>rt_requests := AList.update rid (f st) (rt_requests rt)\<rparr>)"

definition on_scheduler ::
  "(('c, 'f) scheduler \<Rightarrow> 'a \<times> ('c, 'f) scheduler) \<Rightarrow> ('d, 'c, 'f) runtime \<Rightarrow> 'a \<times> ('d, 'c, 'f) runtime" where
  "on_scheduler f rt = (case f (rt_scheduler rt) of (a, sc) \<Rightarrow> (a, rt\<lparr>rt_scheduler := sc\<rparr>))"

subsection \<open>Submission and cancellation\<close>

fun plain_messages :: "chat_message list \<Rightarrow> exn + (json \<times> string) list" where
  "plain_messages [] = Inr []"
| "plain_messages (m # ms) =
     (case cm_content m of
        PartList _ \<Rightarrow> Inl (ValueError ''native-mlx text backend does not support image content'')
      | PlainText s \<Rightarrow> and_then (plain_messages ms) (\<lambda>rest. Inr ((cm_role m, s) # rest)))"

definition build_prompt :: "'d tokenizer \<Rightarrow> text_request \<Rightarrow> exn + token list" where
  "build_prompt tk q = and_then (plain_messages (tr_messages q)) (tk_template tk)"

definition validate_request :: "string \<Rightarrow> text_request \<Rightarrow> token list \<Rightarrow> exn + unit" where
  "validate_request model_ref q prompt =
     (if tr_model q \<noteq> model_ref then Inl (ValueError ''requested model does not match loaded model'')
      else if tr_temperature q \<noteq> 0 \<or> tr_top_p q \<noteq> 1 then
        Inl (ValueError ''native-mlx currently supports greedy decoding only'')
      else if list_ex (\<lambda>s. s = []) (tr_stop q) then Inl (ValueError ''stop sequences must not be empty'')
      else if tr_max_prompt_tokens q < int (length prompt) then Inl (ValueError ''prompt exceeds max_prompt_tokens'')
      else if tr_max_completion_tokens q < tr_max_tokens q then
        Inl (ValueError ''completion exceeds max_completion_tokens'')
      else if tr_max_total_tokens q < int (length prompt) + tr_max_tokens q then
        Inl (ValueError ''request exceeds max_total_tokens_per_request'')
      else Inr ())"

definition new_request_state :: "'d tokenizer \<Rightarrow> text_request \<Rightarrow> token list \<Rightarrow> 'd request_state" where
  "new_request_state tk q prompt =
     \<lparr>us_request = q, us_prompt = prompt, us_stop = new_assembler (filter (\<lambda>s. s \<noteq> []) (tr_stop q)),
      us_completion = [], us_detokenizer = tk_detokenizer tk, us_decoded = [], us_prompt_batch = None,
      us_cancellation_stage = None, us_cached = 0\<rparr>"

definition runtime_submit ::
  "'d tokenizer \<Rightarrow> text_request \<Rightarrow> ('d, 'c, 'f) runtime \<Rightarrow> (exn + unit) \<times> ('d, 'c, 'f) runtime" where
  "runtime_submit tk q rt =
     (case and_then (build_prompt tk q) (\<lambda>prompt. and_then (validate_request (rt_model_ref rt) q prompt) (\<lambda>_. Inr prompt)) of
        Inl e \<Rightarrow> (Inl e, rt)
      | Inr prompt \<Rightarrow>
          on_scheduler (sched_submit \<lparr>sq_request_id = tr_request_id q, sq_prompt = prompt,
              sq_sampling = \<lparr>temperature = tr_temperature q, top_p = tr_top_p q\<rparr>,
              sq_max_tokens = tr_max_tokens q, sq_priority = 0\<rparr>)
            (rt\<lparr>rt_requests := AList.update (tr_request_id q) (new_request_state tk q prompt) (rt_requests rt)\<rparr>))"

text \<open>\<open>prefill_time_ms\<close> is nonzero only once a batch size is recorded, so the batch size alone tells
  the stage.\<close>

definition runtime_cancel :: "string \<Rightarrow> ('d, 'c, 'f) runtime \<Rightarrow> bool \<times> ('d, 'c, 'f) runtime" where
  "runtime_cancel rid rt =
     on_scheduler (sched_cancel rid)
       (upd_request rid (\<lambda>st. st\<lparr>us_cancellation_stage := Some
          (if us_completion st \<noteq> [] then ''decode''
           else if us_prompt_batch st = None then ''python_waiting'' else ''prefill'')\<rparr>) rt)"

subsection \<open>Terminal events\<close>

definition delta_events :: "'d request_state \<Rightarrow> string \<Rightarrow> runtime_event list" where
  "delta_events st chunk =
     (if chunk \<noteq> [] \<and> tr_stream (us_request st) then [RtDelta (tr_request_id (us_request st)) chunk] else [])"

text \<open>The text a request ends with: the detokenizer's last segment is pushed, the rest flushed.\<close>

definition flush_text :: "'d tokenizer \<Rightarrow> string \<Rightarrow> 'd request_state \<Rightarrow> runtime_event list \<times> 'd request_state" where
  "flush_text tk reason st =
     (if reason = ''cancelled'' then ([], st)
      else
        (let (final_emitted, st1) =
           (case us_detokenizer st of
              None \<Rightarrow> ([], st)
            | Some d \<Rightarrow>
                (let d' = tk_finalize tk d; segment = tk_segment tk d'; st0 = st\<lparr>us_detokenizer := Some d'\<rparr>
                 in if segment = [] then ([], st0)
                    else (case push segment (us_stop st0) of ((chunk, _), asm) \<Rightarrow> (chunk, st0\<lparr>us_stop := asm\<rparr>))));
             (trailing, asm') = finish_text (us_stop st1)
         in (delta_events st final_emitted @ delta_events st trailing, st1\<lparr>us_stop := asm'\<rparr>)))"

definition runtime_finish ::
  "'d tokenizer \<Rightarrow> ('c, 'p, 'f) backend \<Rightarrow> string \<Rightarrow> string \<Rightarrow> runtime_event list \<Rightarrow> ('d, 'c, 'f) runtime \<Rightarrow>
     (exn + runtime_event list) \<times> ('d, 'c, 'f) runtime" where
  "runtime_finish tk bk rid reason output rt =
     (case map_of (rt_requests rt) rid of
        None \<Rightarrow> (Inr output, rt)
      | Some st0 \<Rightarrow>
          (let (deltas, st) = flush_text tk reason st0; rid' = tr_request_id (us_request st)
           in bind_err (on_scheduler (sched_finish bk rid'))
                (\<lambda>_ rt1. (Inr (output @ deltas @
                     [RtResponse rid' (full_text (us_stop st)) reason (length (us_prompt st)) (length (us_completion st))
                        (us_cached st) (us_cancellation_stage st)]),
                   rt1\<lparr>rt_requests := AList.delete rid' (rt_requests rt1)\<rparr>))
                (upd_request rid (\<lambda>_. st) rt)))"

definition runtime_fail ::
  "('c, 'p, 'f) backend \<Rightarrow> string \<Rightarrow> string \<Rightarrow> string \<Rightarrow> runtime_event list \<Rightarrow> ('d, 'c, 'f) runtime \<Rightarrow>
     (exn + runtime_event list) \<times> ('d, 'c, 'f) runtime" where
  "runtime_fail bk rid code message output rt =
     bind_err (on_scheduler (sched_finish bk rid))
       (\<lambda>_ rt1. (Inr (output @ [RtError rid code message]), rt1\<lparr>rt_requests := AList.delete rid (rt_requests rt1)\<rparr>))
       (rt\<lparr>rt_errors := Suc (rt_errors rt)\<rparr>)"

subsection \<open>Tokens\<close>

text \<open>The text a token adds.\<close>

definition detokenize :: "'d tokenizer \<Rightarrow> token \<Rightarrow> 'd request_state \<Rightarrow> string \<times> 'd request_state" where
  "detokenize tk tok st =
     (case us_detokenizer st of
        Some d \<Rightarrow> (let d' = tk_add tk tok d in (tk_segment tk d', st\<lparr>us_detokenizer := Some d'\<rparr>))
      | None \<Rightarrow>
          (let t = tk_decode tk (us_completion st);
               delta = (if take (length (us_decoded st)) t = us_decoded st then drop (length (us_decoded st)) t else t)
           in (delta, st\<lparr>us_decoded := t\<rparr>)))"

definition accept_token ::
  "'d tokenizer \<Rightarrow> ('c, 'p, 'f) backend \<Rightarrow> string \<Rightarrow> token \<Rightarrow> runtime_event list \<Rightarrow> ('d, 'c, 'f) runtime \<Rightarrow>
     (exn + runtime_event list) \<times> ('d, 'c, 'f) runtime" where
  "accept_token tk bk rid tok output rt =
     (case map_of (rt_requests rt) rid of
        None \<Rightarrow> (Inr output, rt)
      | Some st0 \<Rightarrow>
          (let st = st0\<lparr>us_completion := us_completion st0 @ [tok]\<rparr>
           in if tok \<in> set (rt_eos rt) then runtime_finish tk bk rid ''stop'' output (upd_request rid (\<lambda>_. st) rt)
              else
                (let (delta, st1) = detokenize tk tok st
                 in case push delta (us_stop st1) of
                      ((chunk, stop_hit), asm) \<Rightarrow>
                        (let st2 = st1\<lparr>us_stop := asm\<rparr>; output' = output @ delta_events st2 chunk;
                             rt' = upd_request rid (\<lambda>_. st2) rt
                         in if stop_hit then runtime_finish tk bk rid ''stop'' output' rt'
                            else if tr_max_tokens (us_request st2) \<le> int (length (us_completion st2)) then
                              runtime_finish tk bk rid ''length'' output' rt'
                            else (Inr output', rt')))))"

subsection \<open>Events\<close>

definition apply_event ::
  "'d tokenizer \<Rightarrow> ('c, 'p, 'f) backend \<Rightarrow> scheduler_event \<Rightarrow> runtime_event list \<Rightarrow> ('d, 'c, 'f) runtime \<Rightarrow>
     (exn + runtime_event list) \<times> ('d, 'c, 'f) runtime" where
  "apply_event tk bk ev output rt =
     (case ev of
        MetricsEvent ph batch scheduled waiting running \<Rightarrow> (Inr (output @ [RtMetrics ph scheduled batch waiting running]), rt)
      | PrefillProgress rid len batch scheduled cached is_complete \<Rightarrow>
          (Inr output, upd_request rid (\<lambda>st. st\<lparr>us_cached := max (us_cached st) cached, us_prompt_batch := Some batch\<rparr>) rt)
      | TokenEvent rid tok len ph \<Rightarrow>
          if map_of (rt_requests rt) rid = None then (Inr output, rt)
          else
            (case tok of
               None \<Rightarrow> runtime_fail bk rid ''WORKER_ERROR'' ''model step returned no token'' output rt
             | Some t \<Rightarrow> accept_token tk bk rid t output rt)
      | CancelledEvent rid stage \<Rightarrow>
          if map_of (rt_requests rt) rid = None then (Inr output, rt)
          else
            (let rt1 = upd_request rid (\<lambda>st. st\<lparr>us_cancellation_stage := Some stage\<rparr>) rt
             in runtime_finish tk bk rid ''cancelled'' output (rt1\<lparr>rt_cancellations := Suc (rt_cancellations rt1)\<rparr>))
      | ErrorEvent rid code message \<Rightarrow>
          if map_of (rt_requests rt) rid = None then (Inr output, rt)
          else runtime_fail bk rid (if code = [] then ''WORKER_ERROR'' else code)
                 (if message = [] then ''native execution failed'' else message) output rt)"

fun apply_events ::
  "'d tokenizer \<Rightarrow> ('c, 'p, 'f) backend \<Rightarrow> scheduler_event list \<Rightarrow> runtime_event list \<Rightarrow> ('d, 'c, 'f) runtime \<Rightarrow>
     (exn + runtime_event list) \<times> ('d, 'c, 'f) runtime" where
  "apply_events tk bk [] output rt = (Inr output, rt)"
| "apply_events tk bk (ev # evs) output rt =
     bind_err (apply_event tk bk ev output) (\<lambda>output'. apply_events tk bk evs output') rt"

definition runtime_tick ::
  "'d tokenizer \<Rightarrow> ('c, 'p, 'f) backend \<Rightarrow> ('d, 'c, 'f) runtime \<Rightarrow> (exn + runtime_event list) \<times> ('d, 'c, 'f) runtime" where
  "runtime_tick tk bk rt = bind_err (on_scheduler (tick bk)) (\<lambda>evs. apply_events tk bk evs []) rt"

definition runtime_idle :: "('d, 'c, 'f) runtime \<Rightarrow> bool" where
  "runtime_idle rt \<longleftrightarrow> sched_idle (rt_scheduler rt)"

definition runtime_reset ::
  "('c, 'p, 'f) backend \<Rightarrow> bool \<Rightarrow> bool \<Rightarrow> ('d, 'c, 'f) runtime \<Rightarrow> (exn + unit) \<times> ('d, 'c, 'f) runtime" where
  "runtime_reset bk clear_cache reset_counters rt =
     (if \<not> runtime_idle rt \<or> rt_requests rt \<noteq> [] then
        (Inl (RuntimeError ''benchmark reset requires an idle scheduler''), rt)
      else
        on_scheduler (benchmark_reset bk clear_cache reset_counters)
          (if reset_counters then rt\<lparr>rt_cancellations := 0, rt_errors := 0\<rparr> else rt))"

definition runtime_close :: "('c, 'p, 'f) backend \<Rightarrow> ('d, 'c, 'f) runtime \<Rightarrow> (exn + unit) \<times> ('d, 'c, 'f) runtime" where
  "runtime_close bk rt =
     bind_err (on_scheduler (sched_close bk)) (\<lambda>_ rt1. (Inr (), rt1\<lparr>rt_requests := []\<rparr>)) rt"

end
