(* ===== verification/RuntimeProps.thy ===== *)
theory RuntimeProps
  imports Runtime
begin

text \<open>
  What a client sees of a request: deltas, then one terminal event, then nothing; and the text of the
  response is the text that was streamed.
\<close>

subsection \<open>The events of one request\<close>

fun event_request :: "runtime_event \<Rightarrow> string option" where
  "event_request (RtDelta rid d) = Some rid"
| "event_request (RtResponse rid t reason p c k stage) = Some rid"
| "event_request (RtError rid code m) = Some rid"
| "event_request (RtMetrics ph s b w r) = None"

fun is_terminal :: "runtime_event \<Rightarrow> bool" where
  "is_terminal (RtResponse rid t reason p c k stage) = True"
| "is_terminal (RtError rid code m) = True"
| "is_terminal _ = False"

definition events_of :: "string \<Rightarrow> runtime_event list \<Rightarrow> runtime_event list" where
  "events_of rid evs = filter (\<lambda>ev. event_request ev = Some rid) evs"

lemma events_of_simps [simp]: "events_of rid [] = []" "events_of rid (xs @ ys) = events_of rid xs @ events_of rid ys"
  "events_of rid (ev # evs) = (if event_request ev = Some rid then ev # events_of rid evs else events_of rid evs)"
  by (simp_all add: events_of_def)

text \<open>What a piece of the event stream does to a request, from its state before to its state after
  (\<open>None\<close>: not known to the runtime).\<close>

fun serves :: "string \<Rightarrow> 'd request_state option \<Rightarrow> runtime_event list \<Rightarrow> 'd request_state option \<Rightarrow> bool" where
  "serves rid None evs after \<longleftrightarrow> after = None \<and> events_of rid evs = []"
| "serves rid (Some st) evs (Some st') \<longleftrightarrow> us_request st' = us_request st \<and>
     (\<exists>ds. events_of rid evs = map (RtDelta rid) ds \<and>
        (if tr_stream (us_request st) then emitted (us_stop st') = emitted (us_stop st) @ concat ds else ds = []))"
| "serves rid (Some st) evs None \<longleftrightarrow>
     (\<exists>ds fin. events_of rid evs = map (RtDelta rid) ds @ [fin] \<and> is_terminal fin \<and> event_request fin = Some rid \<and>
        (\<not> tr_stream (us_request st) \<longrightarrow> ds = []) \<and>
        (\<forall>t reason p c k stage. fin = RtResponse rid t reason p c k stage \<longrightarrow> reason \<noteq> ''cancelled'' \<longrightarrow>
           tr_stream (us_request st) \<longrightarrow> t = emitted (us_stop st) @ concat ds))"

lemma serves_refl: "events_of rid evs = [] \<Longrightarrow> serves rid a evs a"
  by (cases a) auto

lemma serves_trans:
  assumes "serves rid a e1 b" "serves rid b e2 c"
  shows "serves rid a (e1 @ e2) c"
proof (cases a)
  case None
  then show ?thesis using assms by simp
next
  case a: (Some st)
  show ?thesis
  proof (cases b)
    case None
    then have c: "c = None" "events_of rid e2 = []" using assms(2) by simp_all
    show ?thesis using assms(1) unfolding a None c(1) by (simp add: c(2))
  next
    case (Some st1)
    obtain ds1 where d1: "us_request st1 = us_request st" "events_of rid e1 = map (RtDelta rid) ds1"
      "if tr_stream (us_request st) then emitted (us_stop st1) = emitted (us_stop st) @ concat ds1 else ds1 = []"
      using assms(1) unfolding a Some by auto
    show ?thesis
    proof (cases c)
      case None
      obtain ds2 fin where d2: "events_of rid e2 = map (RtDelta rid) ds2 @ [fin]" "is_terminal fin" "event_request fin = Some rid"
        "\<not> tr_stream (us_request st1) \<longrightarrow> ds2 = []"
        "\<forall>t reason p c k stage. fin = RtResponse rid t reason p c k stage \<longrightarrow> reason \<noteq> ''cancelled'' \<longrightarrow>
           tr_stream (us_request st1) \<longrightarrow> t = emitted (us_stop st1) @ concat ds2"
        using assms(2) unfolding Some None by auto
      show ?thesis
        unfolding a None serves.simps
        by (rule exI [of _ "ds1 @ ds2"], rule exI [of _ fin]) (use d1 d2 in \<open>auto split: if_splits\<close>)
    next
      case c: (Some st2)
      obtain ds2 where d2: "us_request st2 = us_request st1" "events_of rid e2 = map (RtDelta rid) ds2"
        "if tr_stream (us_request st1) then emitted (us_stop st2) = emitted (us_stop st1) @ concat ds2 else ds2 = []"
        using assms(2) unfolding Some c by auto
      show ?thesis
        unfolding a c serves.simps
        by (rule conjI, use d1 d2 in simp, rule exI [of _ "ds1 @ ds2"]) (use d1 d2 in \<open>auto split: if_splits\<close>)
    qed
  qed
qed

subsection \<open>The runtime's dictionary\<close>

definition requests_ok :: "('d, 'c, 'f) runtime \<Rightarrow> bool" where
  "requests_ok rt \<longleftrightarrow> distinct (map fst (rt_requests rt)) \<and>
     (\<forall>rid st. map_of (rt_requests rt) rid = Some st \<longrightarrow> tr_request_id (us_request st) = rid)"

text \<open>A step of the runtime: it appends events, and serves every request by them.\<close>

definition step_serves ::
  "runtime_event list \<Rightarrow> ('d, 'c, 'f) runtime \<Rightarrow> runtime_event list \<Rightarrow> ('d, 'c, 'f) runtime \<Rightarrow> bool" where
  "step_serves output rt output' rt' \<longleftrightarrow> requests_ok rt' \<and>
     (\<exists>new. output' = output @ new \<and> (\<forall>rid. serves rid (map_of (rt_requests rt) rid) new (map_of (rt_requests rt') rid)))"

lemma step_serves_trans:
  "step_serves o1 rt1 o2 rt2 \<Longrightarrow> step_serves o2 rt2 o3 rt3 \<Longrightarrow> step_serves o1 rt1 o3 rt3"
  unfolding step_serves_def using serves_trans by (metis append.assoc)

lemma requests_ok_cong: "rt_requests rt' = rt_requests rt \<Longrightarrow> requests_ok rt' = requests_ok rt"
  by (simp add: requests_ok_def)

lemma on_scheduler_requests: "on_scheduler f rt = (a, rt') \<Longrightarrow> rt_requests rt' = rt_requests rt"
  by (auto simp: on_scheduler_def split: prod.splits)

lemma upd_request_requests:
  "map_of (rt_requests (upd_request rid f rt)) k =
     (if k = rid then map_option f (map_of (rt_requests rt) rid) else map_of (rt_requests rt) k)"
  by (cases "map_of (rt_requests rt) rid") (auto simp: upd_request_def update_conv')

lemma upd_request_ok:
  assumes "requests_ok rt" "\<And>st. map_of (rt_requests rt) rid = Some st \<Longrightarrow> us_request (f st) = us_request st"
  shows "requests_ok (upd_request rid f rt)"
proof -
  have "distinct (map fst (rt_requests (upd_request rid f rt)))"
    using assms(1) by (auto simp: requests_ok_def upd_request_def distinct_update split: option.splits)
  then show ?thesis using assms unfolding requests_ok_def upd_request_requests by (auto split: if_splits)
qed

lemma delete_request: "requests_ok rt \<Longrightarrow> requests_ok (rt\<lparr>rt_requests := AList.delete rid (rt_requests rt)\<rparr>) \<and>
    map_of (AList.delete rid (rt_requests rt)) k = (if k = rid then None else map_of (rt_requests rt) k)"
  by (auto simp: requests_ok_def delete_conv' distinct_delete)

subsection \<open>Text\<close>

lemma push_emits: "push t a = ((chunk, hit), a') \<Longrightarrow> emitted a' = emitted a @ chunk"
  by (auto simp: push_def Let_def split: if_splits)

lemma delta_shape: "\<exists>ds. delta_events st chunk = map (RtDelta (tr_request_id (us_request st))) ds \<and>
    (if tr_stream (us_request st) then concat ds = chunk else ds = [])"
  by (cases "chunk = []"; cases "tr_stream (us_request st)")
    (auto simp: delta_events_def intro: exI [of _ "[chunk]"] exI [of _ "[]"])

lemma finish_text_emits: "finish_text a = (chunk, a') \<Longrightarrow> full_text a' = emitted a @ chunk"
  by (auto simp: finish_text_def full_text_def)

lemma flush_shape:
  assumes "flush_text tk reason st = (deltas, st')"
  shows "us_request st' = us_request st \<and> us_prompt st' = us_prompt st \<and>
    (\<exists>ds. deltas = map (RtDelta (tr_request_id (us_request st))) ds \<and> (\<not> tr_stream (us_request st) \<longrightarrow> ds = []) \<and>
      (reason \<noteq> ''cancelled'' \<longrightarrow> tr_stream (us_request st) \<longrightarrow> full_text (us_stop st') = emitted (us_stop st) @ concat ds))"
proof (cases "reason = ''cancelled''")
  case True
  then show ?thesis using assms by (simp add: flush_text_def)
next
  case False
  obtain chunk st1 where one: "(case us_detokenizer st of
              None \<Rightarrow> ([], st)
            | Some d \<Rightarrow>
                (let d' = tk_finalize tk d; segment = tk_segment tk d'; st0 = st\<lparr>us_detokenizer := Some d'\<rparr>
                 in if segment = [] then ([], st0)
                    else (case push segment (us_stop st0) of ((chunk, _), asm) \<Rightarrow> (chunk, st0\<lparr>us_stop := asm\<rparr>)))) = (chunk, st1)"
    by (rule that, rule prod.collapse [symmetric])
  have s1: "us_request st1 = us_request st" "us_prompt st1 = us_prompt st" "emitted (us_stop st1) = emitted (us_stop st) @ chunk"
  proof (atomize (full), cases "us_detokenizer st")
    case (Some d)
    obtain c h a where p: "push (tk_segment tk (tk_finalize tk d)) (us_stop st) = ((c, h), a)" by (metis surj_pair)
    show "us_request st1 = us_request st \<and> us_prompt st1 = us_prompt st \<and> emitted (us_stop st1) = emitted (us_stop st) @ chunk"
    proof (cases "tk_segment tk (tk_finalize tk d) = []")
      case True
      then have "chunk = []" "st1 = st\<lparr>us_detokenizer := Some (tk_finalize tk d)\<rparr>"
        using one unfolding Some option.case Let_def if_P [OF True] by simp_all
      then show ?thesis by simp
    next
      case False
      then have "chunk = c" "st1 = st\<lparr>us_detokenizer := Some (tk_finalize tk d), us_stop := a\<rparr>"
        using one unfolding Some option.case Let_def if_not_P [OF False] by (simp_all add: p)
      then show ?thesis using push_emits [OF p] by simp
    qed
  qed (use one in simp)
  obtain trailing asm' where two: "finish_text (us_stop st1) = (trailing, asm')" by (metis surj_pair)
  have out: "deltas = delta_events st chunk @ delta_events st trailing" "st' = st1\<lparr>us_stop := asm'\<rparr>"
  proof -
    note a = assms [unfolded flush_text_def if_not_P [OF False] one, unfolded Let_def prod.case two]
    then show "deltas = delta_events st chunk @ delta_events st trailing" "st' = st1\<lparr>us_stop := asm'\<rparr>" by simp_all
  qed
  obtain d1 d2 where d: "delta_events st chunk = map (RtDelta (tr_request_id (us_request st))) d1"
      "if tr_stream (us_request st) then concat d1 = chunk else d1 = []"
    "delta_events st trailing = map (RtDelta (tr_request_id (us_request st))) d2"
      "if tr_stream (us_request st) then concat d2 = trailing else d2 = []"
    using delta_shape [of st chunk] delta_shape [of st trailing] by blast
  have "full_text asm' = emitted (us_stop st) @ chunk @ trailing" using finish_text_emits [OF two] s1(3) by simp
  then show ?thesis using d s1(1,2) unfolding out
    by (intro conjI exI [of _ "d1 @ d2"]) (auto split: if_splits)
qed

lemma events_of_deltas: "events_of rid (map (RtDelta rid') ds) = (if rid = rid' then map (RtDelta rid') ds else [])"
  by (induction ds) auto

lemma finish_serves:
  assumes ok: "requests_ok rt" and st0: "map_of (rt_requests rt) rid = Some st0"
    and run: "runtime_finish tk bk rid reason output rt = (Inr output', rt')"
  shows "step_serves output rt output' rt'"
proof -
  obtain deltas st where fl: "flush_text tk reason st0 = (deltas, st)" by (metis surj_pair)
  note F = flush_shape [OF fl]
  have rid: "tr_request_id (us_request st0) = rid" using ok st0 by (simp add: requests_ok_def)
  have rid': "tr_request_id (us_request st) = rid" using F rid by simp
  let ?rt0 = "upd_request rid (\<lambda>_. st) rt"
  let ?fin = "RtResponse rid (full_text (us_stop st)) reason (length (us_prompt st)) (length (us_completion st))
     (us_cached st) (us_cancellation_stage st)"
  obtain rt1 where r1: "on_scheduler (sched_finish bk rid) ?rt0 = (Inr (), rt1)"
    and out: "output' = output @ deltas @ [?fin]" "rt' = rt1\<lparr>rt_requests := AList.delete rid (rt_requests rt1)\<rparr>"
  proof (rule bind_errE [OF run [unfolded runtime_finish_def st0 option.case fl Let_def prod.case rid']])
    fix e assume "Inr output' = (Inl e :: exn + runtime_event list)"
    then show thesis by simp
  next
    fix a rt1 assume a: "on_scheduler (sched_finish bk rid) ?rt0 = (Inr a, rt1)"
      and b: "(Inr (output @ deltas @ [?fin]), rt1\<lparr>rt_requests := AList.delete rid (rt_requests rt1)\<rparr>) = (Inr output', rt')"
    show thesis by (rule that [of rt1]) (use a b in simp_all)
  qed
  have rq: "rt_requests rt1 = rt_requests ?rt0" by (rule on_scheduler_requests [OF r1])
  have ok0: "requests_ok ?rt0" by (rule upd_request_ok [OF ok]) (use st0 F in auto)
  then have ok1: "requests_ok rt1" by (simp add: requests_ok_cong [OF rq])
  note D = delete_request [OF ok1, of rid]
  obtain ds where ds: "deltas = map (RtDelta rid) ds" "\<not> tr_stream (us_request st0) \<longrightarrow> ds = []"
      "reason \<noteq> ''cancelled'' \<longrightarrow> tr_stream (us_request st0) \<longrightarrow> full_text (us_stop st) = emitted (us_stop st0) @ concat ds"
    using F rid by auto
  have "serves k (map_of (rt_requests rt) k) (deltas @ [?fin]) (map_of (rt_requests rt') k)" for k
  proof (cases "k = rid")
    case True
    have "serves rid (Some st0) (deltas @ [?fin]) None"
      unfolding serves.simps by (rule exI [of _ ds], rule exI [of _ ?fin]) (use ds in \<open>auto simp: events_of_deltas\<close>)
    then show ?thesis using D True st0 by (simp add: out)
  next
    case False
    have "serves k a (deltas @ [?fin]) a" for a by (rule serves_refl) (use False in \<open>simp add: ds(1) events_of_deltas\<close>)
    then show ?thesis using D False by (simp add: out rq upd_request_requests)
  qed
  moreover have "requests_ok rt'" using D by (simp add: out)
  ultimately show ?thesis unfolding step_serves_def using out(1) by blast
qed

lemma fail_serves:
  assumes ok: "requests_ok rt" and st0: "map_of (rt_requests rt) rid = Some st0"
    and run: "runtime_fail bk rid code message output rt = (Inr output', rt')"
  shows "step_serves output rt output' rt'"
proof -
  obtain rt1 where r1: "on_scheduler (sched_finish bk rid) (rt\<lparr>rt_errors := Suc (rt_errors rt)\<rparr>) = (Inr (), rt1)"
    and out: "output' = output @ [RtError rid code message]" "rt' = rt1\<lparr>rt_requests := AList.delete rid (rt_requests rt1)\<rparr>"
  proof (rule bind_errE [OF run [unfolded runtime_fail_def]])
    fix e assume "Inr output' = (Inl e :: exn + runtime_event list)"
    then show thesis by simp
  next
    fix a rt1 assume a: "on_scheduler (sched_finish bk rid) (rt\<lparr>rt_errors := Suc (rt_errors rt)\<rparr>) = (Inr a, rt1)"
      and b: "(Inr (output @ [RtError rid code message]), rt1\<lparr>rt_requests := AList.delete rid (rt_requests rt1)\<rparr>) = (Inr output', rt')"
    show thesis by (rule that [of rt1]) (use a b in simp_all)
  qed
  have rq: "rt_requests rt1 = rt_requests rt" using on_scheduler_requests [OF r1] by simp
  have ok1: "requests_ok rt1" unfolding requests_ok_cong [OF rq] by (rule ok)
  note D = delete_request [OF ok1, of rid]
  have "serves k (map_of (rt_requests rt) k) [RtError rid code message] (map_of (rt_requests rt') k)" for k
    using D st0 serves_refl [of k "[RtError rid code message]" "map_of (rt_requests rt) k"] rq
    by (cases "k = rid") (auto simp: out intro: exI [of _ "[]"])
  then show ?thesis using D unfolding step_serves_def out by blast
qed

lemma upd_serves:
  assumes ok: "requests_ok rt" and st0: "map_of (rt_requests rt) rid = Some st0"
    and f: "us_request st1 = us_request st0" "output' = output @ map (RtDelta rid) ds"
      "if tr_stream (us_request st0) then emitted (us_stop st1) = emitted (us_stop st0) @ concat ds else ds = []"
  shows "step_serves output rt output' (upd_request rid (\<lambda>_. st1) rt)"
proof -
  have "serves k (map_of (rt_requests rt) k) (map (RtDelta rid) ds) (map_of (rt_requests (upd_request rid (\<lambda>_. st1) rt)) k)" for k
  proof (cases "k = rid")
    case True
    have "serves rid (Some st0) (map (RtDelta rid) ds) (Some st1)"
      unfolding serves.simps using f(1,3) by (auto simp: events_of_deltas)
    then show ?thesis using True st0 by (simp add: upd_request_requests)
  next
    case False
    then show ?thesis unfolding upd_request_requests by (simp add: serves_refl events_of_deltas)
  qed
  moreover have "requests_ok (upd_request rid (\<lambda>_. st1) rt)" by (rule upd_request_ok [OF ok]) (use st0 f in auto)
  ultimately show ?thesis unfolding step_serves_def f(2) by blast
qed

lemma upd_serves_silent:
  assumes "requests_ok rt" "\<And>st. us_request (f st) = us_request st \<and> us_stop (f st) = us_stop st"
  shows "step_serves output rt output (upd_request rid f rt)"
proof -
  have "serves k (map_of (rt_requests rt) k) [] (map_of (rt_requests (upd_request rid f rt)) k)" for k
    using assms(2) serves_refl [of k "[]" "map_of (rt_requests rt) k"]
    by (cases "map_of (rt_requests rt) k") (auto simp: upd_request_requests)
  moreover have "requests_ok (upd_request rid f rt)" by (rule upd_request_ok [OF assms(1)]) (use assms(2) in simp)
  ultimately show ?thesis unfolding step_serves_def by (intro conjI exI [of _ "[]"]) simp_all
qed

lemma accept_serves:
  assumes ok: "requests_ok rt" and run: "accept_token tk bk rid tok output rt = (Inr output', rt')"
  shows "step_serves output rt output' rt'"
proof (cases "map_of (rt_requests rt) rid")
  case None
  then have "output' = output" "rt' = rt" using run by (simp_all add: accept_token_def)
  then show ?thesis using ok by (auto simp: step_serves_def serves_refl)
next
  case (Some st0)
  let ?st = "st0\<lparr>us_completion := us_completion st0 @ [tok]\<rparr>"
  note run = run [unfolded accept_token_def Some option.case Let_def]
  show ?thesis
  proof (cases "tok \<in> set (rt_eos rt)")
    case True
    have a: "step_serves output rt output (upd_request rid (\<lambda>_. ?st) rt)"
      by (rule upd_serves [OF ok Some, where ds = "[]"]) auto
    have b: "map_of (rt_requests (upd_request rid (\<lambda>_. ?st) rt)) rid = Some ?st" by (simp add: upd_request_requests Some)
    have "step_serves output (upd_request rid (\<lambda>_. ?st) rt) output' rt'"
      by (rule finish_serves [OF _ b]) (use a run True in \<open>auto simp: step_serves_def\<close>)
    then show ?thesis using a step_serves_trans by blast
  next
    case False
    obtain delta st1 where dt: "detokenize tk tok ?st = (delta, st1)" by (metis surj_pair)
    have s1: "us_request st1 = us_request st0" "us_stop st1 = us_stop st0"
      using dt by (auto simp: detokenize_def Let_def split: option.splits)
    obtain chunk hit asm where pu: "push delta (us_stop st1) = ((chunk, hit), asm)" by (metis surj_pair)
    let ?st2 = "st1\<lparr>us_stop := asm\<rparr>" and ?out = "output @ delta_events (st1\<lparr>us_stop := asm\<rparr>) chunk"
    let ?rt2 = "upd_request rid (\<lambda>_. ?st2) rt"
    have rid: "tr_request_id (us_request st0) = rid" using ok Some by (simp add: requests_ok_def)
    obtain ds where ds: "delta_events ?st2 chunk = map (RtDelta rid) ds"
      "if tr_stream (us_request st0) then concat ds = chunk else ds = []"
      using delta_shape [of ?st2 chunk] s1(1) rid by auto
    have a: "step_serves output rt ?out ?rt2"
      by (rule upd_serves [OF ok Some, where ds = ds]) (use s1 ds push_emits [OF pu] in \<open>auto split: if_splits\<close>)
    have b: "map_of (rt_requests ?rt2) rid = Some ?st2" by (simp add: upd_request_requests Some)
    have ok2: "requests_ok ?rt2" using a by (simp add: step_serves_def)
    note run = run [unfolded if_not_P [OF False] dt prod.case pu]
    show ?thesis
    proof (cases "hit \<or> tr_max_tokens (us_request ?st2) \<le> int (length (us_completion ?st2))")
      case True
      then obtain reason where "runtime_finish tk bk rid reason ?out ?rt2 = (Inr output', rt')"
        using run by (auto split: if_splits)
      then have "step_serves ?out ?rt2 output' rt'" by (rule finish_serves [OF ok2 b])
      then show ?thesis using a step_serves_trans by blast
    next
      case False
      then show ?thesis using run a by auto
    qed
  qed
qed

lemma step_serves_refl: "requests_ok rt \<Longrightarrow> step_serves output rt output rt"
  by (auto simp: step_serves_def serves_refl)

lemma apply_event_serves:
  assumes ok: "requests_ok rt" and run: "apply_event tk bk ev output rt = (Inr output', rt')"
  shows "step_serves output rt output' rt'"
proof (cases ev)
  case (TokenEvent rid tok len ph)
  then show ?thesis
    using run fail_serves [OF ok] accept_serves [OF ok] step_serves_refl [OF ok]
    by (auto simp: apply_event_def split: if_splits option.splits)
next
  case (CancelledEvent rid stage)
  show ?thesis
  proof (cases "map_of (rt_requests rt) rid")
    case None
    then show ?thesis using run step_serves_refl [OF ok] by (auto simp: apply_event_def CancelledEvent)
  next
    case (Some st)
    let ?rt1 = "upd_request rid (\<lambda>st. st\<lparr>us_cancellation_stage := Some stage\<rparr>) rt"
    let ?rt2 = "?rt1\<lparr>rt_cancellations := Suc (rt_cancellations ?rt1)\<rparr>"
    have a: "step_serves output rt output ?rt1" by (rule upd_serves_silent [OF ok]) simp
    then have a2: "step_serves output rt output ?rt2" by (simp add: step_serves_def requests_ok_def)
    have b: "map_of (rt_requests ?rt2) rid = Some (st\<lparr>us_cancellation_stage := Some stage\<rparr>)"
      by (simp add: upd_request_requests Some)
    have "runtime_finish tk bk rid ''cancelled'' output ?rt2 = (Inr output', rt')"
      using run Some by (simp add: apply_event_def CancelledEvent Let_def)
    then have "step_serves output ?rt2 output' rt'"
      using a2 finish_serves [OF _ b] by (simp add: step_serves_def)
    then show ?thesis using a2 step_serves_trans by blast
  qed
next
  case (ErrorEvent rid code message)
  then show ?thesis
    using run fail_serves [OF ok] step_serves_refl [OF ok]
    by (auto simp: apply_event_def split: if_splits option.splits)
next
  case (PrefillProgress rid len batch scheduled cached is_complete)
  then have "output' = output" "rt' = upd_request rid (\<lambda>st. st\<lparr>us_cached := max (us_cached st) cached, us_prompt_batch := Some batch\<rparr>) rt"
    using run by (simp_all add: apply_event_def)
  then show ?thesis using upd_serves_silent [OF ok] by simp
next
  case (MetricsEvent ph batch scheduled waiting running)
  then have "output' = output @ [RtMetrics ph scheduled batch waiting running]" "rt' = rt"
    using run by (simp_all add: apply_event_def)
  then show ?thesis using ok by (auto simp: step_serves_def intro!: serves_refl exI [of _ "[RtMetrics ph scheduled batch waiting running]"])
qed

lemma apply_events_serves:
  assumes "requests_ok rt" "apply_events tk bk evs out rt = (Inr output', rt')"
  shows "step_serves out rt output' rt'"
  using assms
proof (induction evs arbitrary: out rt)
  case Nil
  then show ?case by (simp add: step_serves_refl)
next
  case (Cons ev evs)
  obtain out1 rt1 where one: "apply_event tk bk ev out rt = (Inr out1, rt1)" "apply_events tk bk evs out1 rt1 = (Inr output', rt')"
    using Cons.prems(2) by (auto elim!: bind_errE)
  note a = apply_event_serves [OF Cons.prems(1) one(1)]
  then have "requests_ok rt1" by (simp add: step_serves_def)
  from Cons.IH [OF this one(2)] a show ?case using step_serves_trans by blast
qed

end
