(* ===== verification/Attention.thy ===== *)
theory Attention
  imports KVOps Text
begin

text \<open>
  The paged attention adapter, \<^verbatim>\<open>PagedLayerAttentionContext\<close> in
  \<^verbatim>\<open>native_mlx/attention.py\<close>: append the new keys and values to the staged pages, read
  each request's rows back through its page table, build the causal mask, and attend.  The fused
  kernel \<^verbatim>\<open>mx.fast.scaled_dot_product_attention\<close> is MLX's: a parameter \<open>sdpa\<close> that maps one
  query row, the key rows, the value rows and the mask row to one output row; grouping of query
  heads and \<open>scale\<close> are inside it.  \<open>cast\<close> is \<^verbatim>\<open>astype\<close> on one row.
\<close>

type_synonym 'v activations = "nat \<Rightarrow> nat \<Rightarrow> 'v"

subsection \<open>The mask\<close>

definition sliding_prefix :: string where
  "sliding_prefix = ''sliding_window:''"

text \<open>\<^verbatim>\<open>_window_size\<close>; \<^verbatim>\<open>int\<close> raises on what is no number.\<close>

definition window_size_of :: "string option \<Rightarrow> exn + int option" where
  "window_size_of msk =
     (case msk of
        None \<Rightarrow> Inr None
      | Some m \<Rightarrow>
          if m = ''causal'' then Inr None
          else if take (length sliding_prefix) m = sliding_prefix then
            (case py_int (drop (length sliding_prefix) m) of
               None \<Rightarrow> Inl (ValueError (''invalid literal for int() with base 10: '' @ py_repr (drop (length sliding_prefix) m)))
             | Some v \<Rightarrow> Inr (if 0 < v then Some v else None))
          else Inr None)"

text \<open>\<^verbatim>\<open>_dense_causal_mask\<close> at batch row \<open>i\<close>, query \<open>j\<close>, key \<open>k\<close>: true where the code adds \<open>0.0\<close>,
  false where it adds \<open>-1e9\<close>.\<close>

definition dense_causal_mask :: "nat list \<Rightarrow> nat list \<Rightarrow> int option \<Rightarrow> nat \<Rightarrow> nat \<Rightarrow> nat \<Rightarrow> bool" where
  "dense_causal_mask offsets token_lengths window i j k =
     (let query_position = int (offsets ! i + j)
      in j < token_lengths ! i \<and> int k \<le> query_position \<and>
         (case window of None \<Rightarrow> True | Some w \<Rightarrow> query_position - w + 1 \<le> int k))"

subsection \<open>Reading pages back\<close>

text \<open>\<open>cache[page_ids].reshape(-1, \<dots>)[:total_length]\<close>, padded with zero rows.\<close>

definition gather_pages :: "nat \<Rightarrow> nat list \<Rightarrow> (nat \<Rightarrow> 'v) \<Rightarrow> 'v list" where
  "gather_pages psize table pages = concat (map (\<lambda>p. map (\<lambda>off. pages (p * psize + off)) [0..<psize]) table)"

definition dense_kv_rows :: "'v \<Rightarrow> 'v kv \<Rightarrow> 'v reservation \<Rightarrow> (nat \<Rightarrow> 'v) \<Rightarrow> 'v list list" where
  "dense_kv_rows zero s r pages =
     map (\<lambda>(total, table).
           take total (gather_pages (page_size s) table pages) @ replicate (rs_max_total_length r - total) zero)
       (zip (rs_total_lengths r) (candidate_tables r))"

subsection \<open>Append and attend\<close>

definition astype :: "(dtype \<Rightarrow> 'v \<Rightarrow> 'v) \<Rightarrow> dtype \<Rightarrow> 'v tensor \<Rightarrow> 'v tensor" where
  "astype cast d t = (if t_dtype t \<noteq> d then t\<lparr>t_dtype := d, t_row := (\<lambda>i j. cast d (t_row t i j))\<rparr> else t)"

definition append_and_attend ::
  "('q \<Rightarrow> 'v list \<Rightarrow> 'v list \<Rightarrow> bool list \<Rightarrow> 'a) \<Rightarrow> (dtype \<Rightarrow> 'v \<Rightarrow> 'v) \<Rightarrow> 'v \<Rightarrow> nat \<Rightarrow>
     'q tensor \<Rightarrow> 'v tensor \<Rightarrow> 'v tensor \<Rightarrow> string option \<Rightarrow> int option \<Rightarrow> 'v reservation \<Rightarrow> 'v kv \<Rightarrow>
     (exn + (nat \<Rightarrow> nat \<Rightarrow> 'a)) \<times> 'v reservation \<times> 'v kv" where
  "append_and_attend sdpa cast zero layer queries keys values msk window r s =
     (case (case window of Some w \<Rightarrow> Inr (Some w) | None \<Rightarrow> window_size_of msk) of
        Inl e \<Rightarrow> (Inl e, r, s)
      | Inr window_size \<Rightarrow>
          if msk \<noteq> None \<and> msk \<noteq> Some ''causal'' \<and> window_size = None then
            (Inl (ValueError ''native paged attention received unsupported mask''), r, s)
          else if t_shape queries ! 1 mod num_kv_heads s \<noteq> 0 then
            (Inl (ValueError ''query heads must be divisible by KV heads''), r, s)
          else if t_shape queries ! 3 \<noteq> head_dim s then
            (Inl (ValueError ''paged attention query head dimension is unsupported''), r, s)
          else
            (let keys' = astype cast (kv_dtype s) keys; values' = astype cast (kv_dtype s) values
             in case stage_layer layer keys' values' r s of
                  (Inl e, r', s') \<Rightarrow> (Inl e, r', s')
                | (Inr (key_cache, value_cache), r', s') \<Rightarrow>
                    (let dense_keys = dense_kv_rows zero s' r' key_cache;
                         dense_values = dense_kv_rows zero s' r' value_cache;
                         valid = dense_causal_mask (map (kv_size s') (rs_handles r')) (append_lengths r') window_size
                     in (Inr (\<lambda>i j. sdpa (t_row queries i j) (dense_keys ! i) (dense_values ! i)
                                (map (valid i j) [0..<rs_max_total_length r'])), r', s'))))"

subsection \<open>What the kernel promises\<close>

text \<open>The rows a mask keeps.\<close>

definition kept_rows :: "bool list \<Rightarrow> 'v list \<Rightarrow> 'v list" where
  "kept_rows msk xs = map fst (filter snd (zip xs msk))"

text \<open>A masked key or value has no influence, as long as the mask keeps some key.\<close>

definition masks_exactly :: "('q \<Rightarrow> 'v list \<Rightarrow> 'v list \<Rightarrow> bool list \<Rightarrow> 'a) \<Rightarrow> bool" where
  "masks_exactly sdpa \<longleftrightarrow>
     (\<forall>q ks vs msk. True \<in> set msk \<longrightarrow> length ks = length msk \<longrightarrow> length vs = length msk \<longrightarrow>
        sdpa q ks vs msk = sdpa q (kept_rows msk ks) (kept_rows msk vs) (replicate (length (kept_rows msk ks)) True))"

lemma kept_prefix:
  assumes "n \<le> length xs" "length msk = length xs" "\<And>k. k < length xs \<Longrightarrow> msk ! k \<longleftrightarrow> k < n"
  shows "kept_rows msk xs = take n xs"
proof -
  have m: "msk = replicate n True @ replicate (length xs - n) False"
    by (rule nth_equalityI) (use assms in \<open>auto simp: nth_append\<close>)
  have "zip xs msk = zip (take n xs) (replicate n True) @ zip (drop n xs) (replicate (length xs - n) False)"
    unfolding m using assms(1) zip_append [of "take n xs" "replicate n True" "drop n xs" "replicate (length xs - n) False"]
    by simp
  moreover have "filter snd (zip ys (replicate m True)) = zip ys (replicate m True)"
    "filter snd (zip ys (replicate m False)) = []" for ys :: "'a list" and m
    by (auto simp: filter_id_conv filter_empty_conv dest: set_zip_rightD)
  ultimately show ?thesis using assms(1) by (simp add: kept_rows_def)
qed

lemma gather_pages_nth:
  assumes "0 < psize"
  shows "length (gather_pages psize table pages) = length table * psize \<and>
    (\<forall>k < length table * psize. gather_pages psize table pages ! k = pages (slot_of psize table k))"
proof (induction table)
  case (Cons p table)
  have "gather_pages psize (p # table) pages ! k = pages (slot_of psize (p # table) k)"
    if k: "k < length (p # table) * psize" for k
  proof (cases "k < psize")
    case True
    then show ?thesis by (simp add: gather_pages_def nth_append slot_of_def)
  next
    case False
    then obtain m where m: "k = psize + m" by (metis le_iff_add not_less)
    then have "m < length table * psize" using k by simp
    moreover have "slot_of psize (p # table) k = slot_of psize table m"
      using assms by (simp add: slot_of_def m div_add_self1)
    moreover have "gather_pages psize (p # table) pages ! k = gather_pages psize table pages ! m"
      by (simp add: gather_pages_def nth_append m)
    ultimately show ?thesis using Cons.IH by simp
  qed
  then show ?case using Cons.IH by (simp add: gather_pages_def)
qed (simp add: gather_pages_def)

end
