(* ===== verification/Executor.thy ===== *)
theory Executor
  imports Attention
begin

text \<open>
  The generation executor, \<^verbatim>\<open>MlxGenerationExecutor\<close> in \<^verbatim>\<open>native_mlx/executor.py\<close>,
  over the paged pool.  The architecture model is a parameter \<open>model\<close> (the protocol
  \<^verbatim>\<open>NativeModel\<close>): it stages its layers on the reservation and returns logits or raises.
  \<open>eval_fault\<close> is the exception of \<^verbatim>\<open>mx.eval\<close>, if the device raises one, and
  \<open>argmax\<close> is MLX's.  Timings and metrics are left out.
\<close>

subsection \<open>Data\<close>

record batch_layout =
  ly_requests :: "execution_request list"
  ly_source_indices :: "nat list"
  ly_caches :: "handle list"
  ly_token_lengths :: "nat list"
  ly_cache_lengths :: "nat list"
  ly_input_ids :: "token list list"
  ly_positions :: "nat list list"
  ly_forward_mode :: forward_mode

record prepared_step =
  pr_requests :: "execution_request list"
  pr_layout :: "batch_layout option"
  pr_results :: "step_request_result option list"

record 'v in_flight_step =
  fl_prepared :: prepared_step
  fl_reservation :: "'v reservation"
  fl_next_tokens :: "token list"

type_synonym 'v native_model =
  "token list list \<Rightarrow> nat list list \<Rightarrow> string option \<Rightarrow> 'v reservation \<Rightarrow> 'v kv \<Rightarrow>
     (exn + 'v activations) \<times> 'v reservation \<times> 'v kv"

subsection \<open>Preparing a batch\<close>

definition request_error :: "execution_request \<Rightarrow> string \<Rightarrow> string \<Rightarrow> 'v kv \<Rightarrow> step_request_result" where
  "request_error q code message s =
     \<lparr>sr_request_id = er_request_id q, sr_phase = er_phase q, sr_token_ids = er_token_ids q,
      sr_cache_handle = er_cache_handle q, sr_cache_length = kv_length (er_cache_handle q) s,
      sr_next_token_id = None, sr_error_code = Some code, sr_error_message = Some message\<rparr>"

definition preflight_cache :: "execution_request \<Rightarrow> 'v kv \<Rightarrow> string + handle" where
  "preflight_cache q s =
     (let token_count = length (er_token_ids q)
      in if er_phase q = Decode \<and> token_count \<noteq> 1 then Inl ''decode requires exactly one token''
         else if er_phase q = Prefill \<and> token_count = 0 then Inl ''prefill requires at least one token''
         else
           (case kv_get (er_cache_handle q) (er_request_id q) s of
              Inl e \<Rightarrow> Inl (exn_str e)
            | Inr h \<Rightarrow>
                (let cache_length = kv_size s h
                 in if er_phase q = Decode \<and> cache_length = 0 then
                      Inl ''decode requires existing prefill state''
                    else if er_positions q \<noteq> [cache_length..<cache_length + token_count] then
                      Inl ''positions do not match cache length''
                    else Inr h)))"

text \<open>The first loop of \<^verbatim>\<open>_prepare\<close>: an invalid request gets its error in place, a valid one
  is kept with its source index.\<close>

fun preflight_requests ::
  "nat \<Rightarrow> execution_request list \<Rightarrow> 'v kv \<Rightarrow>
     (execution_request \<times> nat \<times> handle) list \<times> step_request_result option list" where
  "preflight_requests index [] s = ([], [])"
| "preflight_requests index (q # qs) s =
     (let (valid, results) = preflight_requests (Suc index) qs s
      in case preflight_cache q s of
           Inl e \<Rightarrow> (valid, Some (request_error q ''INVALID_EXECUTION_REQUEST'' e s) # results)
         | Inr h \<Rightarrow> ((q, index, h) # valid, None # results))"

text \<open>The second loop: what the pool has no pages for gets its error, the rest is kept.\<close>

fun keep_admitted ::
  "((execution_request \<times> nat \<times> handle) \<times> string option) list \<Rightarrow> 'v kv \<Rightarrow> step_request_result option list \<Rightarrow>
     (execution_request \<times> nat \<times> handle) list \<times> step_request_result option list" where
  "keep_admitted [] s results = ([], results)"
| "keep_admitted (((q, index, h), Some e) # rest) s results =
     keep_admitted rest s (results[index := Some (request_error q ''KV_CAPACITY_EXHAUSTED'' e s)])"
| "keep_admitted (((q, index, h), None) # rest) s results =
     (let (kept, results') = keep_admitted rest s results in ((q, index, h) # kept, results'))"

definition build_layout :: "(execution_request \<times> nat \<times> handle) list \<Rightarrow> 'v kv \<Rightarrow> exn + batch_layout" where
  "build_layout kept s =
     (let requests = map fst kept;
          lengths = map (\<lambda>q. length (er_token_ids q)) requests;
          max_tokens = Max (set lengths)
      in case from_phases (map er_phase requests) of
           Inl e \<Rightarrow> Inl e
         | Inr forward \<Rightarrow> Inr
             \<lparr>ly_requests = requests, ly_source_indices = map (\<lambda>(_, index, _). index) kept,
              ly_caches = map (\<lambda>(_, _, h). h) kept, ly_token_lengths = lengths,
              ly_cache_lengths = map (\<lambda>(_, _, h). kv_size s h) kept,
              ly_input_ids = map (\<lambda>q. er_token_ids q @ replicate (max_tokens - length (er_token_ids q)) 0) requests,
              ly_positions = map (\<lambda>q. er_positions q @
                replicate (max_tokens - length (er_token_ids q)) (last (er_positions q))) requests,
              ly_forward_mode = forward\<rparr>)"

definition prepare_batch ::
  "execution_request list \<Rightarrow> 'v kv \<Rightarrow> (exn + prepared_step) \<times> 'v kv" where
  "prepare_batch requests s =
     (if requests = [] then
        (Inl (BatchExecutionError ''INVALID_EXECUTION_BATCH'' ''execution batch must contain at least one request''), s)
      else if \<not> distinct (map er_request_id requests) then
        (Inl (BatchExecutionError ''INVALID_EXECUTION_BATCH'' ''execution batch contains duplicate request IDs''), s)
      else
        (let (valid, results) = preflight_requests 0 requests s
         in if valid = [] then
              (Inr \<lparr>pr_requests = requests, pr_layout = None, pr_results = results\<rparr>, s)
            else
              (case preflight (map (\<lambda>(_, _, h). h) valid) (map (\<lambda>(q, _, _). length (er_token_ids q)) valid) s of
                 (Inl e, s1) \<Rightarrow> (Inl e, s1)
               | (Inr errors, s1) \<Rightarrow>
                   (let (kept, results') = keep_admitted (zip valid errors) s1 results
                    in if kept = [] then
                         (Inr \<lparr>pr_requests = requests, pr_layout = None, pr_results = results'\<rparr>, s1)
                       else
                         (case build_layout kept s1 of
                            Inl e \<Rightarrow> (Inl e, s1)
                          | Inr layout \<Rightarrow>
                              (Inr \<lparr>pr_requests = requests, pr_layout = Some layout, pr_results = results'\<rparr>, s1))))))"

subsection \<open>Dispatch\<close>

definition sample_last_logits :: "('v \<Rightarrow> token) \<Rightarrow> 'v activations \<Rightarrow> nat list \<Rightarrow> token list" where
  "sample_last_logits argmax logits lengths = map (\<lambda>(i, n). argmax (logits i (n - 1))) (enumerate 0 lengths)"

definition dispatch_batch ::
  "'v native_model \<Rightarrow> ('v \<Rightarrow> token) \<Rightarrow> prepared_step \<Rightarrow> 'v kv \<Rightarrow> (exn + 'v in_flight_step) \<times> 'v kv" where
  "dispatch_batch model argmax p s =
     (case pr_layout p of
        None \<Rightarrow> (Inl (BatchExecutionError ''EMPTY_EXECUTION_STEP'' ''nothing to dispatch''), s)
      | Some layout \<Rightarrow>
          (case reserve_batch (ly_caches layout) (ly_token_lengths layout) s of
             (Inl e, s1) \<Rightarrow> (Inl (BatchExecutionError ''KV_RESERVATION_FAILED'' (exn_str e)), s1)
           | (Inr r, s1) \<Rightarrow>
               (case model (ly_input_ids layout) (ly_positions layout) (Some ''causal'') r s1 of
                  (Inl e, r2, s2) \<Rightarrow>
                    (case abort r2 s2 of
                       (Inl e', _, s3) \<Rightarrow> (Inl e', s3)
                     | (Inr _, _, s3) \<Rightarrow> (Inl (BatchExecutionError ''MODEL_EXECUTION_FAILED'' (exn_str e)), s3))
                | (Inr logits, r2, s2) \<Rightarrow>
                    (Inr \<lparr>fl_prepared = p, fl_reservation = r2,
                          fl_next_tokens = sample_last_logits argmax logits (ly_token_lengths layout)\<rparr>, s2))))"

subsection \<open>Resolution\<close>

definition require_result :: "step_request_result option \<Rightarrow> exn + step_request_result" where
  "require_result item =
     (case item of
        None \<Rightarrow> Inl (BatchExecutionError ''INCOMPLETE_EXECUTION_RESULT''
                      ''executor did not produce a result for every request'')
      | Some x \<Rightarrow> Inr x)"

fun require_results :: "step_request_result option list \<Rightarrow> exn + step_request_result list" where
  "require_results [] = Inr []"
| "require_results (item # items) =
     (case require_result item of
        Inl e \<Rightarrow> Inl e
      | Inr x \<Rightarrow> (case require_results items of Inl e \<Rightarrow> Inl e | Inr xs \<Rightarrow> Inr (x # xs)))"

definition empty_result :: "prepared_step \<Rightarrow> exn + step_result" where
  "empty_result p =
     (case from_phases (map er_phase (pr_requests p)) of
        Inl e \<Rightarrow> Inl e
      | Inr forward \<Rightarrow>
          (case require_results (pr_results p) of
             Inl e \<Rightarrow> Inl e
           | Inr results \<Rightarrow> Inr \<lparr>st_forward_mode = forward, st_results = results,
               st_physical_batch_size = 0, st_model_forward_count = 0\<rparr>))"

fun place_results ::
  "(nat \<times> execution_request \<times> nat \<times> token) list \<Rightarrow> step_request_result option list \<Rightarrow>
     step_request_result option list" where
  "place_results [] results = results"
| "place_results ((index, q, len, tok) # rest) results =
     place_results rest (results[index := Some
       \<lparr>sr_request_id = er_request_id q, sr_phase = er_phase q, sr_token_ids = er_token_ids q,
        sr_cache_handle = er_cache_handle q, sr_cache_length = len, sr_next_token_id = Some tok,
        sr_error_code = None, sr_error_message = None\<rparr>])"

definition resolve_batch ::
  "exn option \<Rightarrow> 'v in_flight_step \<Rightarrow> 'v kv \<Rightarrow> (exn + step_result) \<times> 'v kv" where
  "resolve_batch eval_fault f s =
     (case pr_layout (fl_prepared f) of
        None \<Rightarrow> (Inl AssertionError, s)
      | Some layout \<Rightarrow>
          (case eval_fault of
             Some e \<Rightarrow>
               (case abort (fl_reservation f) s of
                  (Inl e', _, s') \<Rightarrow> (Inl e', s')
                | (Inr _, _, s') \<Rightarrow> (Inl (BatchExecutionError ''MODEL_EXECUTION_FAILED'' (exn_str e)), s'))
           | None \<Rightarrow>
               (case commit (fl_reservation f) s of
                  (Inl e, r', s') \<Rightarrow>
                    (case abort r' s' of
                       (Inl e', _, s'') \<Rightarrow> (Inl e', s'')
                     | (Inr _, _, s'') \<Rightarrow> (Inl (BatchExecutionError ''CACHE_COMMIT_FAILED'' (exn_str e)), s''))
                | (Inr lengths, r', s') \<Rightarrow>
                    (if length (ly_source_indices layout) \<noteq> length lengths \<or>
                        length lengths \<noteq> length (fl_next_tokens f) \<or>
                        length (ly_requests layout) \<noteq> length lengths then
                       (Inl (ValueError ''zip() arguments have different lengths''), s')
                     else
                       (case require_results (place_results
                               (zip (ly_source_indices layout)
                                 (zip (ly_requests layout) (zip lengths (fl_next_tokens f))))
                               (pr_results (fl_prepared f))) of
                          Inl e \<Rightarrow> (Inl e, s')
                        | Inr results \<Rightarrow>
                            (Inr \<lparr>st_forward_mode = ly_forward_mode layout, st_results = results,
                                  st_physical_batch_size = length (ly_requests layout),
                                  st_model_forward_count = 1\<rparr>, s'))))))"

text \<open>The \<open>finally\<close> clause aborts whether or not the device raised; the exception comes out
  after it.\<close>

definition discard_batch :: "exn option \<Rightarrow> 'v in_flight_step \<Rightarrow> 'v kv \<Rightarrow> (exn + unit) \<times> 'v kv" where
  "discard_batch eval_fault f s =
     (case abort (fl_reservation f) s of
        (Inl e, _, s') \<Rightarrow> (Inl e, s')
      | (Inr _, _, s') \<Rightarrow> (case eval_fault of Some e \<Rightarrow> (Inl e, s') | None \<Rightarrow> (Inr (), s')))"

definition execute_prepared ::
  "'v native_model \<Rightarrow> ('v \<Rightarrow> token) \<Rightarrow> exn option \<Rightarrow> prepared_step \<Rightarrow> 'v kv \<Rightarrow> (exn + step_result) \<times> 'v kv" where
  "execute_prepared model argmax eval_fault p s =
     (if pr_layout p = None then (empty_result p, s)
      else
        (case dispatch_batch model argmax p s of
           (Inl e, s1) \<Rightarrow> (Inl e, s1)
         | (Inr f, s1) \<Rightarrow> resolve_batch eval_fault f s1))"

definition execute_batch ::
  "'v native_model \<Rightarrow> ('v \<Rightarrow> token) \<Rightarrow> exn option \<Rightarrow> execution_request list \<Rightarrow> 'v kv \<Rightarrow>
     (exn + step_result) \<times> 'v kv" where
  "execute_batch model argmax eval_fault requests s =
     (case prepare_batch requests s of
        (Inl e, s1) \<Rightarrow> (Inl e, s1)
      | (Inr p, s1) \<Rightarrow> execute_prepared model argmax eval_fault p s1)"

end
