(* ===== verification/Forward.thy ===== *)
theory Forward
  imports Executor
begin

text \<open>
  What a forward pass does to a cache reservation: reading staged pages back, the rows a cache
  holds for a sequence, and the contract between the executor and an architecture model.
\<close>

subsection \<open>One attention layer\<close>

definition lengths_known :: "'v kv \<Rightarrow> 'v reservation \<Rightarrow> bool" where
  "lengths_known s r \<longleftrightarrow> rs_total_lengths r = map2 (\<lambda>h n. kv_size s h + n) (rs_handles r) (append_lengths r) \<and>
     rs_max_total_length r = Max (set (rs_total_lengths r))"

lemma lengths_known_total:
  assumes "reservation_ok s r" "lengths_known s r" "i < length (rs_handles r)"
  shows "rs_total_lengths r ! i = kv_size s (rs_handles r ! i) + append_lengths r ! i"
    "rs_total_lengths r ! i \<le> rs_max_total_length r" "length (rs_total_lengths r) = length (rs_handles r)"
proof -
  note r = reservation_okD [OF assms(1)]
  show t: "rs_total_lengths r ! i = kv_size s (rs_handles r ! i) + append_lengths r ! i"
    and l: "length (rs_total_lengths r) = length (rs_handles r)"
    using assms(2,3) r(5) by (simp_all add: lengths_known_def)
  show "rs_total_lengths r ! i \<le> rs_max_total_length r"
    using assms(2,3) l unfolding lengths_known_def by (metis List.finite_set Max_ge nth_mem)
qed

lemma reserve_batch_lengths:
  assumes "reserve_batch hs ns s = (Inr r, s')"
  shows "lengths_known s' r"
  using assms by (auto simp: reserve_batch_def build_reservation_def lengths_known_def Let_def
      split: if_splits option.splits)

lemma stage_layer_lengths:
  assumes "stage_layer l kt vt r s = (res, r', s')" "lengths_known s r"
  shows "lengths_known s' r'"
proof (cases res)
  case (Inl e)
  then show ?thesis using stage_layer_failed assms by metis
next
  case (Inr a)
  note e = stage_layer_Inr(3,4) [OF assms(1) [unfolded Inr]]
  show ?thesis using assms(2) unfolding e by (simp add: lengths_known_def)
qed

lemma stage_layers_lengths:
  assumes "stage_layers ls kts vts r s = (res, r', s')" "lengths_known s r"
  shows "lengths_known s' r'"
  using assms
proof (induction ls arbitrary: r s)
  case (Cons l ls)
  obtain x r1 s1 where run: "stage_layer l (kts l) (vts l) r s = (x, r1, s1)" by (metis surj_pair)
  then show ?case using Cons stage_layer_lengths [OF run] by (cases x) auto
qed simp

text \<open>Reading a request's pages back after staging gives the rows it had and then the new ones.\<close>

lemma staged_rows_read:
  assumes wf: "kv_wf s" and ok: "reservation_ok s r" and i: "i < length (rs_handles r)"
    and cp: "pages_copied (page_size s) (copy_pages r) f"
  shows "take (kv_size s (rs_handles r ! i) + append_lengths r ! i)
      (gather_pages (page_size s) (candidate_tables r ! i) (scatter (zip (rs_slots r) (packed_rows (append_lengths r) t)) f)) =
    rows s f (rs_handles r ! i) @ map (t_row t i) [0..<append_lengths r ! i]"
proof -
  note r = reservation_okD [OF ok] and ps = kv_wfD(1) [OF wf]
  let ?h = "rs_handles r ! i" and ?n = "append_lengths r ! i" and ?t = "candidate_tables r ! i"
  let ?g = "scatter (zip (rs_slots r) (packed_rows (append_lengths r) t)) f"
  have "kv_size s ?h + ?n \<le> length ?t * page_size s"
    using table_okD(3) [OF r(14) [OF i]] ceil_div_mult [OF ps] by simp
  then have "take (kv_size s ?h + ?n) (gather_pages (page_size s) ?t ?g) =
      map (\<lambda>pos. ?g (slot_of (page_size s) ?t pos)) [0..<kv_size s ?h + ?n]"
    by (intro nth_equalityI) (use gather_pages_nth [OF ps, of ?t ?g] in auto)
  also have "\<dots> = rows (committed r s) ?g ?h"
    using commit_objs_lookup(1) [OF r(3,5,6) i] by (simp add: rows_def committed_def)
  also have "\<dots> = rows s f ?h @ map (t_row t i) [0..<?n]" by (rule scattered_rows_batch [OF wf ok i cp])
  finally show ?thesis .
qed

text \<open>What a layer's attention reads for one request: its rows, the new ones, and padding.\<close>

lemma attend_reads:
  assumes wf: "kv_wf s" and ok: "reservation_ok s r" and len: "lengths_known s r"
    and st: "stage_layer layer kt vt r s = (Inr (kc, vc), r', s')" and i: "i < length (rs_handles r)"
  defines "h \<equiv> rs_handles r ! i" and "n \<equiv> append_lengths r ! i"
  shows "dense_kv_rows zero s' r' kc ! i =
      (rows s (key_pages s ! layer) h @ map (t_row kt i) [0..<n]) @ replicate (rs_max_total_length r - (kv_size s h + n)) zero"
    and "dense_kv_rows zero s' r' vc ! i =
      (rows s (value_pages s ! layer) h @ map (t_row vt i) [0..<n]) @ replicate (rs_max_total_length r - (kv_size s h + n)) zero"
proof -
  note e = stage_layer_Inr [OF st] and r = reservation_okD [OF ok] and f = stage_layer_frame [OF st]
  have one: "kv_wf s'" "reservation_ok s' r'" using stage_layer_ok [OF wf ok st] by blast+
  have same: "candidate_tables r' = candidate_tables r" "rs_total_lengths r' = rs_total_lengths r"
    "rs_max_total_length r' = rs_max_total_length r" "copy_pages r' = copy_pages r" "rs_slots r' = rs_slots r"
    by (simp_all add: e(3))
  note tot = lengths_known_total [OF ok len i, folded h_def n_def]
  have i': "i < length (rs_handles r')" using i f(1) by simp
  have hl: "h \<in> set (live s)" using r(4) i by (auto simp: h_def)
  have read: "dense_kv_rows zero s' r' (scatter (zip (rs_slots r) (packed_rows (append_lengths r) t)) pg') ! i =
      (rows s pg h @ map (t_row t i) [0..<n]) @ replicate (rs_max_total_length r - (kv_size s h + n)) zero"
    if "pg' = fold (copy_page (page_size s)) (copy_pages r) pg" for pg pg' t
  proof -
    have "rows s' pg' h = rows s pg h"
      using copies_keep_live [OF wf ok hl] unfolding that
      by (auto simp: rows_def f(7,10) live_slots_def)
    moreover have "pages_copied (page_size s') (copy_pages r') pg'"
      using copies_copied [OF wf ok] that f(10) same(4) by simp
    ultimately have "take (kv_size s h + n) (gather_pages (page_size s) (candidate_tables r ! i)
        (scatter (zip (rs_slots r) (packed_rows (append_lengths r) t)) pg')) = rows s pg h @ map (t_row t i) [0..<n]"
      using staged_rows_read [OF one i', of pg' t] f same by (simp add: h_def n_def)
    moreover have "length (candidate_tables r) = length (rs_handles r)" by (rule r(6))
    ultimately show ?thesis using tot i f(10) by (simp add: dense_kv_rows_def same)
  qed
  show "dense_kv_rows zero s' r' kc ! i =
      (rows s (key_pages s ! layer) h @ map (t_row kt i) [0..<n]) @ replicate (rs_max_total_length r - (kv_size s h + n)) zero"
    and "dense_kv_rows zero s' r' vc ! i =
      (rows s (value_pages s ! layer) h @ map (t_row vt i) [0..<n]) @ replicate (rs_max_total_length r - (kv_size s h + n)) zero"
    using e(2) read [OF refl] by simp_all
qed

lemma attend_staged:
  assumes wf: "kv_wf s" and ok: "reservation_ok s r" and len: "lengths_known s r" and sdpa: "masks_exactly sdpa"
    and run: "append_and_attend sdpa cast zero layer qs ks vs (Some ''causal'') None r s = (Inr out, r', s')"
  defines "kt \<equiv> astype cast (kv_dtype s) ks" and "vt \<equiv> astype cast (kv_dtype s) vs"
  obtains a where "stage_layer layer kt vt r s = (Inr a, r', s')"
    and "\<And>i j. i < length (rs_handles r) \<Longrightarrow> j < append_lengths r ! i \<Longrightarrow>
      out i j = (let h = rs_handles r ! i; n = Suc (kv_size s h + j)
        in sdpa (t_row qs i j)
             (take n (rows s (key_pages s ! layer) h @ map (t_row kt i) [0..<append_lengths r ! i]))
             (take n (rows s (value_pages s ! layer) h @ map (t_row vt i) [0..<append_lengths r ! i]))
             (replicate n True))"
proof -
  let ?valid = "dense_causal_mask (map (kv_size s') (rs_handles r')) (append_lengths r') None"
  obtain kc vc where st: "stage_layer layer kt vt r s = (Inr (kc, vc), r', s')"
    and out: "out = (\<lambda>i j. sdpa (t_row qs i j) (dense_kv_rows zero s' r' kc ! i) (dense_kv_rows zero s' r' vc ! i)
        (map (?valid i j) [0..<rs_max_total_length r']))"
    using run unfolding kt_def vt_def
    by (auto simp: append_and_attend_def window_size_of_def Let_def split: if_splits sum.splits prod.splits)
  note e = stage_layer_Inr [OF st] and r = reservation_okD [OF ok] and f = stage_layer_frame [OF st]
  have same: "candidate_tables r' = candidate_tables r" "rs_total_lengths r' = rs_total_lengths r"
    "rs_max_total_length r' = rs_max_total_length r" "copy_pages r' = copy_pages r" "rs_slots r' = rs_slots r"
    by (simp_all add: e(3))
  have lt: "layer < num_layers s" using e(1) r(7) by simp
  show ?thesis
  proof (rule that [OF st])
    fix i j assume i: "i < length (rs_handles r)" and j: "j < append_lengths r ! i"
    let ?h = "rs_handles r ! i" and ?n = "append_lengths r ! i"
    define c where "c = kv_size s ?h"
    note tot = lengths_known_total [OF ok len i, folded c_def]
    have lenrows: "length (rows s pg ?h) = c" for pg by (simp add: rows_def c_def)
    have mx: "c + ?n \<le> rs_max_total_length r" using tot by simp
    let ?pad = "replicate (rs_max_total_length r - (c + ?n)) zero"
    let ?K = "(rows s (key_pages s ! layer) ?h @ map (t_row kt i) [0..<?n]) @ ?pad"
    let ?V = "(rows s (value_pages s ! layer) ?h @ map (t_row vt i) [0..<?n]) @ ?pad"
    let ?m = "map (?valid i j) [0..<rs_max_total_length r]"
    have K: "dense_kv_rows zero s' r' kc ! i = ?K" "dense_kv_rows zero s' r' vc ! i = ?V"
      using attend_reads [OF wf ok len st i, of zero] by (simp_all add: c_def)
    have lens: "length ?K = rs_max_total_length r" "length ?V = rs_max_total_length r" using mx by (simp_all add: lenrows)
    have valid: "?valid i j k \<longleftrightarrow> k < Suc (c + j)" for k
      using i j f(1,2,7) by (simp add: dense_causal_mask_def c_def less_Suc_eq_le) linarith
    have kp: "kept_rows ?m ?K = take (Suc (c + j)) ?K" "kept_rows ?m ?V = take (Suc (c + j)) ?V"
      by (rule kept_prefix; use lens mx j valid in simp)+
    have "True \<in> set ?m" using valid [of 0] mx j by (auto simp: image_iff intro!: bexI [of _ 0])
    then have "sdpa (t_row qs i j) ?K ?V ?m =
        sdpa (t_row qs i j) (kept_rows ?m ?K) (kept_rows ?m ?V) (replicate (length (kept_rows ?m ?K)) True)"
      using sdpa lens unfolding masks_exactly_def by simp
    then show "out i j = (let h = rs_handles r ! i; n = Suc (kv_size s h + j)
        in sdpa (t_row qs i j)
             (take n (rows s (key_pages s ! layer) h @ map (t_row kt i) [0..<append_lengths r ! i]))
             (take n (rows s (value_pages s ! layer) h @ map (t_row vt i) [0..<append_lengths r ! i]))
             (replicate n True))"
      using j mx unfolding out K same kp by (simp add: Let_def c_def [symmetric] lenrows)
  qed
qed

subsection \<open>What the cache holds\<close>

text \<open>What the cache holds for a sequence: row \<open>p\<close> of a layer is the row the model leaves there.\<close>

definition holds :: "(nat \<Rightarrow> token list \<Rightarrow> 'v) \<Rightarrow> (nat \<Rightarrow> token list \<Rightarrow> 'v) \<Rightarrow> 'v kv \<Rightarrow> handle \<Rightarrow> token list \<Rightarrow> bool" where
  "holds krow vrow s h ts \<longleftrightarrow> kv_size s h = length ts \<and>
     (\<forall>l < num_layers s. rows s (key_pages s ! l) h = map (\<lambda>p. krow l (take (Suc p) ts)) [0..<length ts] \<and>
        rows s (value_pages s ! l) h = map (\<lambda>p. vrow l (take (Suc p) ts)) [0..<length ts])"

text \<open>A layer of a reservation holds the rows of the new tokens \<open>new i\<close> after the tokens \<open>old i\<close>.\<close>

definition staged_rows ::
  "(nat \<Rightarrow> token list \<Rightarrow> 'v) \<Rightarrow> (nat \<Rightarrow> token list \<Rightarrow> 'v) \<Rightarrow> (nat \<Rightarrow> token list) \<Rightarrow> (nat \<Rightarrow> token list) \<Rightarrow> 'v kv \<Rightarrow> 'v reservation \<Rightarrow> nat \<Rightarrow> bool" where
  "staged_rows krow vrow old new s r l \<longleftrightarrow> (\<exists>kt vt. staged_as s r l kt vt \<and>
     (\<forall>i < length (rs_handles r). \<forall>j < append_lengths r ! i.
        t_row kt i j = krow l (old i @ take (Suc j) (new i)) \<and>
        t_row vt i j = vrow l (old i @ take (Suc j) (new i))))"

lemma stage_keeps:
  assumes wf: "kv_wf s" and ok: "reservation_ok s r" and run: "stage_layer l kt vt r s = (Inr a, r', s')"
    and h: "h \<in> set (live s)"
  shows "holds krow vrow s' h ts = holds krow vrow s h ts"
proof -
  note f = stage_layer_frame [OF run] and w = kv_wfD [OF wf]
  have w': "length (key_pages s') = num_layers s" "length (value_pages s') = num_layers s"
    using kv_wfD(4,5) [of s'] stage_layer_ok [OF wf ok run] f(5) by auto
  have "kv_abs s' h = kv_abs s h" using stage_layer_ok [OF wf ok run] by simp
  then have m: "map (\<lambda>pg. rows s' pg h) (key_pages s') = map (\<lambda>pg. rows s pg h) (key_pages s)"
    "map (\<lambda>pg. rows s' pg h) (value_pages s') = map (\<lambda>pg. rows s pg h) (value_pages s)"
    using h f(6) by (simp_all add: kv_abs_def content_def)
  have "rows s' (key_pages s' ! l) h = rows s (key_pages s ! l) h"
    "rows s' (value_pages s' ! l) h = rows s (value_pages s ! l) h" if "l < num_layers s" for l
    using arg_cong [OF m(1), of "\<lambda>xs. xs ! l"] arg_cong [OF m(2), of "\<lambda>xs. xs ! l"] that w(4,5) w' by simp_all
  then show ?thesis by (simp add: holds_def f(5,7))
qed

lemma staged_rows_keep:
  assumes "kv_wf s" "reservation_ok s r" "stage_layer l kt vt r s = (Inr a, r', s')" "l' \<noteq> l" "staged_rows krow vrow old new s r l'"
  shows "staged_rows krow vrow old new s' r' l'"
  using assms(5) stage_layer_ok [OF assms(1-3)] assms(4) stage_layer_frame [OF assms(3)]
  unfolding staged_rows_def by metis

subsection \<open>What a forward pass leaves alone\<close>

text \<open>What every layer leaves alone, whether it succeeds or fails.\<close>

definition pass_frame :: "'v kv \<Rightarrow> 'v reservation \<Rightarrow> 'v kv \<Rightarrow> 'v reservation \<Rightarrow> bool" where
  "pass_frame s r s' r' \<longleftrightarrow> kv_wf s' \<and> reservation_ok s' r' \<and> kv_abs s' = kv_abs s \<and> live s' = live s \<and>
     objs s' = objs s \<and> free_pages s' = free_pages s \<and> ref_counts s' = ref_counts s \<and>
     num_layers s' = num_layers s \<and> kv_dtype s' = kv_dtype s \<and> rs_handles r' = rs_handles r \<and>
     append_lengths r' = append_lengths r"

lemma pass_frame_refl: "kv_wf s \<Longrightarrow> reservation_ok s r \<Longrightarrow> pass_frame s r s r"
  by (simp add: pass_frame_def)

lemma pass_frame_trans: "pass_frame s r s1 r1 \<Longrightarrow> pass_frame s1 r1 s2 r2 \<Longrightarrow> pass_frame s r s2 r2"
  by (simp add: pass_frame_def)

lemma stage_layer_pass:
  assumes "kv_wf s" "reservation_ok s r" "stage_layer l kt vt r s = (res, r', s')"
  shows "pass_frame s r s' r'"
proof (cases res)
  case (Inl e)
  then show ?thesis using stage_layer_failed assms pass_frame_refl by metis
next
  case (Inr a)
  have "kv_dtype s' = kv_dtype s" using stage_layer_Inr(4) [OF assms(3) [unfolded Inr]] by simp
  then show ?thesis
    using stage_layer_ok [OF assms(1,2) assms(3) [unfolded Inr]] stage_layer_frame [OF assms(3)]
    by (simp add: pass_frame_def)
qed

subsection \<open>The contract of an architecture model\<close>

text \<open>\<^verbatim>\<open>NativeModel\<close> as the executor uses it.  A call stages layers of the reservation and
  nothing else.  If it returns, and the cache held the model's rows for the tokens \<open>old i\<close> of each
  batch row, then every layer is staged with the model's rows for the new tokens, and the token
  sampled from the last logits of a row is \<open>next_token\<close> of its whole sequence.\<close>

locale forward_model =
  fixes model :: "'v native_model" and argmax :: "'v \<Rightarrow> token"
    and krow vrow :: "nat \<Rightarrow> token list \<Rightarrow> 'v" and next_token :: "token list \<Rightarrow> token"
    and layers :: nat and d :: dtype
  assumes pass_law: "kv_wf s \<Longrightarrow> reservation_ok s r \<Longrightarrow> model ids positions attention_mask r s = (res, r', s') \<Longrightarrow>
      pass_frame s r s' r'"
    and run_law: "kv_wf s \<Longrightarrow> reservation_ok s r \<Longrightarrow> lengths_known s r \<Longrightarrow> num_layers s = layers \<Longrightarrow> kv_dtype s = d \<Longrightarrow>
      length ids = length (rs_handles r) \<Longrightarrow>
      (\<And>i. i < length (rs_handles r) \<Longrightarrow> holds krow vrow s (rs_handles r ! i) (old i) \<and>
        append_lengths r ! i = length (new i) \<and> new i \<noteq> [] \<and> take (length (new i)) (ids ! i) = new i \<and>
        positions ! i ! 0 = length (old i)) \<Longrightarrow>
      model ids positions (Some ''causal'') r s = (Inr logits, r', s') \<Longrightarrow>
      (\<forall>l < layers. staged_rows krow vrow old new s' r' l) \<and>
      (\<forall>i < length (rs_handles r). argmax (logits i (length (new i) - 1)) = next_token (old i @ new i))"

end
