(* ===== verification/ExecProps.thy ===== *)
theory ExecProps
  imports Forward
begin

text \<open>
  What a batch does: every request of the batch gets one result, in order; a request that the
  checks or the pool refuse gets an error and keeps its content; every other request gets its
  tokens appended and the model's next token.  A batch that raises changes no content.
\<close>

subsection \<open>Preparation\<close>

type_synonym kept_request = "execution_request \<times> nat \<times> handle"

definition prep_ok ::
  "execution_request list \<Rightarrow> 'v kv \<Rightarrow> kept_request list \<Rightarrow> step_request_result option list \<Rightarrow> bool" where
  "prep_ok requests s kept results \<longleftrightarrow> length results = length requests \<and> distinct (map (\<lambda>(q, i, h). i) kept) \<and>
     (\<forall>(q, i, h) \<in> set kept. i < length requests \<and> q = requests ! i \<and> preflight_cache q s = Inr h) \<and>
     (\<forall>i < length requests. if i \<in> set (map (\<lambda>(q, i, h). i) kept) then results ! i = None
        else \<exists>code msg s0 :: 'v kv. results ! i = Some (request_error (requests ! i) code msg s0))"

lemma preflight_requests_ok:
  assumes "preflight_requests k requests s = (valid, results)"
  shows "length results = length requests \<and> distinct (map (\<lambda>(q, i, h). i) valid) \<and>
     (\<forall>(q, i, h) \<in> set valid. k \<le> i \<and> i < k + length requests \<and> q = requests ! (i - k) \<and> preflight_cache q s = Inr h) \<and>
     (\<forall>i < length requests. if k + i \<in> set (map (\<lambda>(q, i, h). i) valid) then results ! i = None
        else \<exists>code msg. results ! i = Some (request_error (requests ! i) code msg s))"
  using assms
proof (induction requests arbitrary: k valid results)
  case Nil
  then show ?case by simp
next
  case (Cons q qs)
  obtain v rs where rec: "preflight_requests (Suc k) qs s = (v, rs)" by (metis surj_pair)
  note IH = Cons.IH [OF rec]
  have range: "Suc k \<le> i \<and> i < Suc k + length qs \<and> q' = qs ! (i - Suc k) \<and> preflight_cache q' s = Inr h"
    if "(q', i, h) \<in> set v" for q' i h using IH that by blast
  have shift: "k \<le> i \<and> i < k + length (q # qs) \<and> q' = (q # qs) ! (i - k) \<and> preflight_cache q' s = Inr h"
    if "(q', i, h) \<in> set v" for q' i h using range [OF that] by (auto simp: nth_Cons')
  have fresh: "k \<notin> set (map (\<lambda>(q, i, h). i) v)" using range by fastforce
  have each: "if k + Suc j \<in> set (map (\<lambda>(q, i, h). i) v) then rs ! j = None
        else \<exists>code msg. rs ! j = Some (request_error (qs ! j) code msg s)" if "j < length qs" for j
    using IH that by (simp del: set_map)
  show ?case
  proof (cases "preflight_cache q s")
    case (Inl e)
    then have out: "valid = v" "results = Some (request_error q ''INVALID_EXECUTION_REQUEST'' e s) # rs"
      using Cons.prems rec by simp_all
    have F: "if k + i \<in> set (map (\<lambda>(q, i, h). i) valid) then results ! i = None
        else \<exists>code msg. results ! i = Some (request_error ((q # qs) ! i) code msg s)" if "i < length (q # qs)" for i
    proof (cases "i = 0")
      case True
      then show ?thesis using fresh by (auto simp: out)
    next
      case False
      then obtain j where "i = Suc j" by (cases i) auto
      then show ?thesis using each [of j] that by (simp add: out del: set_map)
    qed
    show ?thesis
    proof (intro conjI allI impI)
      show "length results = length (q # qs)" "distinct (map (\<lambda>(q, i, h). i) valid)" using IH by (simp_all add: out)
      show "\<forall>(q', i, h) \<in> set valid. k \<le> i \<and> i < k + length (q # qs) \<and> q' = (q # qs) ! (i - k) \<and> preflight_cache q' s = Inr h"
        using shift by (auto simp: out)
    qed (rule F)
  next
    case (Inr h)
    then have out: "valid = (q, k, h) # v" "results = None # rs" using Cons.prems rec by simp_all
    have F: "if k + i \<in> set (map (\<lambda>(q, i, h). i) valid) then results ! i = None
        else \<exists>code msg. results ! i = Some (request_error ((q # qs) ! i) code msg s)" if "i < length (q # qs)" for i
    proof (cases "i = 0")
      case True
      then show ?thesis by (simp add: out)
    next
      case False
      then obtain j where "i = Suc j" by (cases i) auto
      then show ?thesis using each [of j] that by (simp add: out del: set_map)
    qed
    show ?thesis
    proof (intro conjI allI impI)
      show "length results = length (q # qs)" "distinct (map (\<lambda>(q, i, h). i) valid)" using IH fresh by (simp_all add: out)
      show "\<forall>(q', i, h) \<in> set valid. k \<le> i \<and> i < k + length (q # qs) \<and> q' = (q # qs) ! (i - k) \<and> preflight_cache q' s = Inr h"
        using shift Inr by (auto simp: out)
    qed (rule F)
  qed
qed

lemma preflight_prep_ok:
  assumes "preflight_requests 0 requests s = (valid, results)"
  shows "prep_ok requests s valid results"
  using preflight_requests_ok [OF assms] unfolding prep_ok_def by fastforce

lemma keep_admitted_ok:
  fixes s1 :: "'v kv"
  assumes "keep_admitted ves s1 results = (kept, results')"
    and "length results = length requests" "distinct (done @ map (\<lambda>((q, i, h), e). i) ves)"
    and "\<forall>((q, i, h), e) \<in> set ves. i < length requests \<and> q = requests ! i"
    and "\<forall>i < length requests. if i \<in> set (done @ map (\<lambda>((q, i, h), e). i) ves) then results ! i = None
        else \<exists>code msg s0 :: 'v kv. results ! i = Some (request_error (requests ! i) code msg s0)"
  shows "length results' = length requests \<and> set kept \<subseteq> fst ` set ves \<and> distinct (done @ map (\<lambda>(q, i, h). i) kept) \<and>
    (\<forall>i < length requests. if i \<in> set (done @ map (\<lambda>(q, i, h). i) kept) then results' ! i = None
        else \<exists>code msg s0 :: 'v kv. results' ! i = Some (request_error (requests ! i) code msg s0))"
  using assms
proof (induction ves s1 results arbitrary: kept results' "done" rule: keep_admitted.induct)
  case (1 s1 results)
  then show ?case by fastforce
next
  case (2 q i h e rest s1 results)
  have i: "i < length requests" "q = requests ! i" "i \<notin> set done" "i \<notin> set (map (\<lambda>((q, i, h), e). i) rest)"
    using 2(5,4) by auto
  have run: "keep_admitted rest s1 (results[i := Some (request_error q ''KV_CAPACITY_EXHAUSTED'' e s1)]) = (kept, results')"
    using 2(2) by simp
  show ?case
  proof (rule 2(1) [OF run, of "done", THEN conjunct1, THEN conjI])
    show "length (results[i := Some (request_error q ''KV_CAPACITY_EXHAUSTED'' e s1)]) = length requests" using 2(3) by simp
    show "distinct (done @ map (\<lambda>((q, i, h), e). i) rest)" using 2(4) by simp
    show "\<forall>((q, i, h), e) \<in> set rest. i < length requests \<and> q = requests ! i" using 2(5) by simp
    show *: "\<forall>j < length requests. if j \<in> set (done @ map (\<lambda>((q, i, h), e). i) rest)
        then results[i := Some (request_error q ''KV_CAPACITY_EXHAUSTED'' e s1)] ! j = None
        else \<exists>code msg s0 :: 'v kv. results[i := Some (request_error q ''KV_CAPACITY_EXHAUSTED'' e s1)] ! j =
          Some (request_error (requests ! j) code msg s0)"
    proof (intro allI impI)
      fix j assume j: "j < length requests"
      show "if j \<in> set (done @ map (\<lambda>((q, i, h), e). i) rest)
        then results[i := Some (request_error q ''KV_CAPACITY_EXHAUSTED'' e s1)] ! j = None
        else \<exists>code msg s0 :: 'v kv. results[i := Some (request_error q ''KV_CAPACITY_EXHAUSTED'' e s1)] ! j =
          Some (request_error (requests ! j) code msg s0)"
      proof (cases "j = i")
        case True
        then show ?thesis using i j 2(3) by (simp del: set_map) blast
      next
        case False
        then show ?thesis using 2(6) [rule_format, OF j] by (simp del: set_map)
      qed
    qed
    then show "set kept \<subseteq> fst ` set (((q, i, h), Some e) # rest) \<and> distinct (done @ map (\<lambda>(q, i, h). i) kept) \<and>
    (\<forall>i < length requests. if i \<in> set (done @ map (\<lambda>(q, i, h). i) kept) then results' ! i = None
        else \<exists>code msg s0 :: 'v kv. results' ! i = Some (request_error (requests ! i) code msg s0))"
      using 2(1) [OF run, of "done"] 2(3-5) by auto
  qed
next
  case (3 q i h rest s1 results)
  obtain ks where run: "keep_admitted rest s1 results = (ks, results')" and kept: "kept = (q, i, h) # ks"
    using 3(2) by (auto split: prod.splits)
  have "length results' = length requests \<and> set ks \<subseteq> fst ` set rest \<and> distinct ((done @ [i]) @ map (\<lambda>(q, i, h). i) ks) \<and>
    (\<forall>j < length requests. if j \<in> set ((done @ [i]) @ map (\<lambda>(q, i, h). i) ks) then results' ! j = None
        else \<exists>code msg s0 :: 'v kv. results' ! j = Some (request_error (requests ! j) code msg s0))"
    by (rule 3(1) [OF run]) (use 3(3-6) in auto)
  then show ?case by (simp add: kept del: set_map) auto
qed

lemma preflight_lengths: "preflight hs ns s = (Inr errors, s1) \<Longrightarrow> length errors = length hs \<and> length ns = length hs"
proof -
  have "length (preflight_loop s xs n) = length xs" for xs n
    by (induction xs arbitrary: n) auto
  then show "preflight hs ns s = (Inr errors, s1) \<Longrightarrow> length errors = length hs \<and> length ns = length hs"
    by (auto simp: preflight_def Let_def split: if_splits)
qed

lemma preflight_frame: "preflight hs ns s = (res, s1) \<Longrightarrow> \<exists>n. s1 = s\<lparr>allocation_failures := n\<rparr>"
  by (auto simp: preflight_def Let_def split: if_splits intro: exI [of _ "allocation_failures s"])

lemma build_layout_total:
  assumes "kept \<noteq> []"
  obtains ly where "build_layout kept s = Inr ly"
proof -
  obtain fm where "from_phases (map er_phase (map fst kept)) = Inr fm"
    using assms by (simp add: from_phases_spec) (metis (full_types))
  then show ?thesis using that by (auto simp: build_layout_def Let_def simp del: map_map)
qed

lemma build_layout_okD:
  assumes "build_layout kept s = Inr ly"
  shows "ly_requests ly = map fst kept"
    "ly_source_indices ly = map (\<lambda>(q, i, h). i) kept" "ly_caches ly = map (\<lambda>(q, i, h). h) kept"
    "ly_token_lengths ly = map (\<lambda>(q, i, h). length (er_token_ids q)) kept"
    "length (ly_input_ids ly) = length kept"
    "k < length kept \<Longrightarrow> take (length (er_token_ids (fst (kept ! k)))) (ly_input_ids ly ! k) = er_token_ids (fst (kept ! k))"
    "k < length kept \<Longrightarrow> er_positions (fst (kept ! k)) \<noteq> [] \<Longrightarrow> ly_positions ly ! k ! 0 = hd (er_positions (fst (kept ! k)))"
  using assms unfolding build_layout_def Let_def
  by (auto split: sum.splits simp: case_prod_unfold nth_append hd_conv_nth simp del: list.set_map)

lemma prepare_batch_ok:
  assumes "prepare_batch requests s = (res, s1)"
  shows "(\<exists>n. s1 = s\<lparr>allocation_failures := n\<rparr>) \<and>
    (\<forall>p. res = Inr p \<longrightarrow> requests \<noteq> [] \<and> distinct (map er_request_id requests) \<and> pr_requests p = requests \<and>
      (case pr_layout p of
         None \<Rightarrow> prep_ok requests s [] (pr_results p)
       | Some ly \<Rightarrow> \<exists>kept. kept \<noteq> [] \<and> build_layout kept s1 = Inr ly \<and> prep_ok requests s kept (pr_results p)))"
proof (cases "requests = [] \<or> \<not> distinct (map er_request_id requests)")
  case True
  then have "\<exists>e. (res, s1) = (Inl e, s)" unfolding assms [symmetric] prepare_batch_def by (cases "requests = []") simp_all
  then show ?thesis by (auto intro: exI [of _ "allocation_failures s"])
next
  case False
  obtain valid results where v: "preflight_requests 0 requests s = (valid, results)" by (metis surj_pair)
  note ok = preflight_prep_ok [OF v]
  note run = assms [unfolded prepare_batch_def if_not_P [OF iffD1 [OF de_Morgan_disj False, THEN conjunct1]] if_not_P [OF iffD1 [OF de_Morgan_disj False, THEN conjunct2]] v Let_def prod.case]
  show ?thesis
  proof (cases "valid = []")
    case True
    then have "res = Inr \<lparr>pr_requests = requests, pr_layout = None, pr_results = results\<rparr>" "s1 = s"
      using run by simp_all
    then show ?thesis using False ok True by (auto intro: exI [of _ "allocation_failures s"])
  next
    case nonempty: False
    obtain x s2 where pf: "preflight (map (\<lambda>(_, _, h). h) valid) (map (\<lambda>(q, _, _). length (er_token_ids q)) valid) s = (x, s2)"
      by (metis surj_pair)
    note fr = preflight_frame [OF pf]
    note run2 = run [unfolded if_not_P [OF nonempty] pf prod.case]
    show ?thesis
    proof (cases x)
      case (Inl e)
      then show ?thesis using run2 fr by auto
    next
      case (Inr errors)
      obtain kept results' where k: "keep_admitted (zip valid errors) s2 results = (kept, results')" by (metis surj_pair)
      note run3 = run2 [unfolded Inr sum.case k prod.case]
      have len: "length errors = length valid" using preflight_lengths pf Inr by fastforce
      have idx: "map (\<lambda>((q, i, h), e). i) (zip valid errors) = map (\<lambda>(q, i, h). i) valid"
        using len by (intro nth_equalityI) (auto simp: case_prod_unfold)
      have zl: "ve \<in> set (zip valid errors) \<Longrightarrow> fst ve \<in> set valid" for ve by (cases ve) (auto dest: set_zip_leftD)
      have ok1: "length results = length requests" "distinct (map (\<lambda>(q, i, h). i) valid)"
        "\<forall>(q, i, h) \<in> set valid. i < length requests \<and> q = requests ! i \<and> preflight_cache q s = Inr h"
        "\<forall>i < length requests. if i \<in> set (map (\<lambda>(q, i, h). i) valid) then results ! i = None
          else \<exists>code msg s0 :: 'a kv. results ! i = Some (request_error (requests ! i) code msg s0)"
        using ok unfolding prep_ok_def by blast+
      have K: "length results' = length requests \<and> set kept \<subseteq> fst ` set (zip valid errors) \<and>
          distinct ([] @ map (\<lambda>(q, i, h). i) kept) \<and>
          (\<forall>i < length requests. if i \<in> set ([] @ map (\<lambda>(q, i, h). i) kept) then results' ! i = None
            else \<exists>code msg s0 :: 'a kv. results' ! i = Some (request_error (requests ! i) code msg s0))"
      proof (rule keep_admitted_ok [OF k])
        show "length results = length requests" by (rule ok1)
        show "distinct ([] @ map (\<lambda>((q, i, h), e). i) (zip valid errors))" unfolding idx using ok1(2) by simp
        show "\<forall>((q, i, h), e) \<in> set (zip valid errors). i < length requests \<and> q = requests ! i"
          using ok1(3) zl by fastforce
        show "\<forall>i < length requests. if i \<in> set ([] @ map (\<lambda>((q, i, h), e). i) (zip valid errors)) then results ! i = None
            else \<exists>code msg s0 :: 'a kv. results ! i = Some (request_error (requests ! i) code msg s0)"
          unfolding idx append_Nil by (rule ok1(4))
      qed
      then have sub: "set kept \<subseteq> set valid" using zl by blast
      have prep: "prep_ok requests s kept results'"
        unfolding prep_ok_def using K [unfolded append_Nil] ok1(3) sub by blast
      show ?thesis
      proof (cases "kept = []")
        case True
        then have "res = Inr \<lparr>pr_requests = requests, pr_layout = None, pr_results = results'\<rparr>" "s1 = s2"
          using run3 by simp_all
        then show ?thesis using False prep True fr by auto
      next
        case some: False
        obtain ly where ly: "build_layout kept s2 = Inr ly" using build_layout_total [OF some] by blast
        then have "res = Inr \<lparr>pr_requests = requests, pr_layout = Some ly, pr_results = results'\<rparr>" "s1 = s2"
          using run3 some by simp_all
        then show ?thesis using False prep some fr ly by auto
      qed
    qed
  qed
qed

lemma preflight_cacheD:
  assumes "preflight_cache q s = Inr h"
  shows "er_cache_handle q = Some h" "h \<in> set (live s)" "rc_request_id (objs s h) = er_request_id q" "er_token_ids q \<noteq> []"
    "er_positions q = [kv_size s h..<kv_size s h + length (er_token_ids q)]"
  using assms by (cases "er_phase q"; auto simp: preflight_cache_def kv_get_def Let_def split: if_splits sum.splits option.splits)+

subsection \<open>Results in order\<close>

text \<open>The result of an executed request.\<close>

definition step_done :: "execution_request \<Rightarrow> nat \<Rightarrow> token \<Rightarrow> step_request_result" where
  "step_done q len tok = \<lparr>sr_request_id = er_request_id q, sr_phase = er_phase q, sr_token_ids = er_token_ids q,
     sr_cache_handle = er_cache_handle q, sr_cache_length = len, sr_next_token_id = Some tok,
     sr_error_code = None, sr_error_message = None\<rparr>"

lemma place_results_ok:
  assumes "distinct (map fst xs)" "\<And>i. i \<in> set (map fst xs) \<Longrightarrow> i < length results"
  shows "length (place_results xs results) = length results \<and>
    (\<forall>k < length results. k \<notin> set (map fst xs) \<longrightarrow> place_results xs results ! k = results ! k) \<and>
    (\<forall>(i, q, len, tok) \<in> set xs. place_results xs results ! i = Some (step_done q len tok))"
  using assms
proof (induction xs results rule: place_results.induct)
  case (2 i q len tok rest results)
  let ?results = "results[i := Some (step_done q len tok)]"
  have run: "place_results ((i, q, len, tok) # rest) results = place_results rest ?results"
    by (simp add: step_done_def)
  have IH: "length (place_results rest ?results) = length ?results \<and>
    (\<forall>k < length ?results. k \<notin> set (map fst rest) \<longrightarrow> place_results rest ?results ! k = ?results ! k) \<and>
    (\<forall>(i, q, len, tok) \<in> set rest. place_results rest ?results ! i = Some (step_done q len tok))"
    using 2(1) [folded step_done_def] 2(2,3) by simp
  have "i < length results" "i \<notin> set (map fst rest)" using 2(2,3) by simp_all
  then show ?case using IH unfolding run by auto
qed simp

lemma require_results_ok:
  "require_results items = Inr rs \<longleftrightarrow> items = map Some rs"
proof (induction items arbitrary: rs)
  case (Cons item items)
  show ?case
  proof (cases item)
    case None
    then show ?thesis by (auto simp: require_result_def)
  next
    case (Some x)
    then show ?thesis using Cons.IH by (cases "require_results items") (auto simp: require_result_def Cons_eq_map_conv)
  qed
qed auto

lemma require_results_total:
  assumes "None \<notin> set items"
  shows "\<exists>rs. require_results items = Inr rs"
proof -
  have "items = map Some (map the items)" using assms by (induction items) auto
  then show ?thesis using require_results_ok by blast
qed

subsection \<open>Contents\<close>

lemma paged_view_abs: "paged_view s h = map_option (\<lambda>(rid, c). (kv_size s h, c)) (kv_abs s h)"
  by (simp add: paged_view_def kv_abs_def content_def)

lemma same_views: "kv_abs s' = kv_abs s \<Longrightarrow> objs s' = objs s \<Longrightarrow> paged_view s' = paged_view s"
  by (simp add: fun_eq_iff paged_view_abs)

lemma holds_view:
  assumes "paged_idle layers d s" "h \<in> set (live s)"
  shows "holds krow vrow s h ts \<longleftrightarrow> (\<exists>c. paged_view s h = Some c \<and> causal_rows krow vrow layers ts c)"
proof -
  have w: "length (key_pages s) = layers" "length (value_pages s) = layers" "num_layers s = layers"
    using kv_wfD(4,5) [of s] assms(1) by (auto simp: paged_idle_def)
  have m: "map (\<lambda>pg. rows s pg h) pgs = map f [0..<layers] \<longleftrightarrow> (\<forall>l < layers. rows s (pgs ! l) h = f l)"
    if "length pgs = layers" for pgs and f :: "nat \<Rightarrow> 'a list"
    using that by (auto simp: list_eq_iff_nth_eq)
  show ?thesis
    using assms(2) w by (auto simp: holds_def paged_view_def causal_rows_def m)
qed

lemma commit_step:
  assumes wf: "kv_wf s" and ok: "reservation_ok s r"
    and st: "\<forall>l < num_layers s. staged_rows krow vrow old new s r l"
    and q: "\<And>i. i < length (rs_handles r) \<Longrightarrow> holds krow vrow s (rs_handles r ! i) (old i) \<and> append_lengths r ! i = length (new i)"
    and run: "commit r s = (res, r', s')"
  shows "res = Inr (map (\<lambda>i. length (old i) + length (new i)) [0..<length (rs_handles r)]) \<and> kv_wf s' \<and> quiescent s' \<and>
    live s' = live s \<and> num_layers s' = num_layers s \<and> kv_dtype s' = kv_dtype s \<and>
    (\<forall>i < length (rs_handles r). holds krow vrow s' (rs_handles r ! i) (old i @ new i)) \<and>
    (\<forall>h. h \<notin> set (rs_handles r) \<longrightarrow> paged_view s' h = paged_view s h)"
proof -
  have "\<forall>l. \<exists>kt vt. l < num_layers s \<longrightarrow> staged_as s r l kt vt \<and>
     (\<forall>i < length (rs_handles r). \<forall>j < append_lengths r ! i.
        t_row kt i j = krow l (old i @ take (Suc j) (new i)) \<and>
        t_row vt i j = vrow l (old i @ take (Suc j) (new i)))"
    using st unfolding staged_rows_def by blast
  then obtain kts vts where T: "\<And>l. l < num_layers s \<Longrightarrow> staged_as s r l (kts l) (vts l) \<and>
     (\<forall>i < length (rs_handles r). \<forall>j < append_lengths r ! i.
        t_row (kts l) i j = krow l (old i @ take (Suc j) (new i)) \<and>
        t_row (vts l) i j = vrow l (old i @ take (Suc j) (new i)))"
    by (metis (no_types))
  note rk = reservation_okD [OF ok] and w = kv_wfD [OF wf]
  have none: "None \<notin> set (staged_keys r)" "None \<notin> set (staged_values r)"
    using T rk(7,8) by (fastforce simp: in_set_conv_nth staged_as_def)+
  let ?s = "committed r s"
  have c: "commit r s = (Inr (map (kv_size ?s) (rs_handles r)), r\<lparr>rs_finished := True\<rparr>, ?s)"
    by (rule commit_effect [OF wf ok none])
  then have s': "s' = ?s" and res: "res = Inr (map (kv_size ?s) (rs_handles r))" using run by simp_all
  have size: "kv_size ?s (rs_handles r ! i) = length (old i) + length (new i)" if "i < length (rs_handles r)" for i
    using commit_objs_lookup(1) [OF rk(3,5,6) that, of "objs s"] q [OF that] by (simp add: committed_def holds_def)
  have wf': "kv_wf ?s" "quiescent ?s" by (rule committed_wf [OF wf ok])+
  have w': "length (key_pages ?s) = num_layers s" "length (value_pages ?s) = num_layers s"
    using kv_wfD(4,5) [OF wf'(1)] by (simp_all add: committed_def)
  have live: "live ?s = live s" "num_layers ?s = num_layers s" "kv_dtype ?s = kv_dtype s" by (simp_all add: committed_def)
  have abs: "kv_abs ?s = append_batch (rs_handles r) (append_lengths r) kts vts (kv_abs s)"
    by (rule committed_content [OF wf ok]) (use T in blast)
  have holds: "holds krow vrow ?s (rs_handles r ! i) (old i @ new i)" if i: "i < length (rs_handles r)" for i
  proof -
    let ?h = "rs_handles r ! i"
    have h: "?h \<in> set (live s)" using rk(4) i by auto
    note a = abs [THEN fun_cong, of ?h, unfolded append_batch_in [OF rk(3) i]]
    have rows: "rows ?s (key_pages ?s ! l) ?h = rows s (key_pages s ! l) ?h @ map (t_row (kts l) i) [0..<length (new i)]"
      "rows ?s (value_pages ?s ! l) ?h = rows s (value_pages s ! l) ?h @ map (t_row (vts l) i) [0..<length (new i)]"
      if "l < num_layers s" for l
    proof -
      have "map (\<lambda>pg. rows ?s pg ?h) (key_pages ?s) = append_rows kts i (length (new i)) (map (\<lambda>pg. rows s pg ?h) (key_pages s))"
        "map (\<lambda>pg. rows ?s pg ?h) (value_pages ?s) = append_rows vts i (length (new i)) (map (\<lambda>pg. rows s pg ?h) (value_pages s))"
        using a h q [OF i] by (simp_all add: kv_abs_def live content_def)
      from this [THEN arg_cong, of "\<lambda>xs. xs ! l"] that w' w(4,5)
      show "rows ?s (key_pages ?s ! l) ?h = rows s (key_pages s ! l) ?h @ map (t_row (kts l) i) [0..<length (new i)]"
        "rows ?s (value_pages ?s ! l) ?h = rows s (value_pages s ! l) ?h @ map (t_row (vts l) i) [0..<length (new i)]"
        by (simp_all add: append_rows_def)
    qed
    have join: "map (\<lambda>p. f (take (Suc p) (old i))) [0..<length (old i)] @ map (\<lambda>j. f (old i @ take (Suc j) (new i))) [0..<length (new i)] =
        map (\<lambda>p. f (take (Suc p) (old i @ new i))) [0..<length (old i @ new i)]" for f :: "token list \<Rightarrow> 'a"
      by (rule nth_equalityI) (auto simp: nth_append Suc_diff_le)
    show ?thesis
      unfolding holds_def
    proof (intro conjI allI impI)
      show "kv_size ?s ?h = length (old i @ new i)" using size [OF i] by simp
      fix l assume "l < num_layers ?s"
      then have l: "l < num_layers s" by (simp add: live)
      have t: "map (t_row (kts l) i) [0..<length (new i)] = map (\<lambda>j. krow l (old i @ take (Suc j) (new i))) [0..<length (new i)]"
        "map (t_row (vts l) i) [0..<length (new i)] = map (\<lambda>j. vrow l (old i @ take (Suc j) (new i))) [0..<length (new i)]"
        using T [OF l] i q [OF i] by simp_all
      have o: "rows s (key_pages s ! l) ?h = map (\<lambda>p. krow l (take (Suc p) (old i))) [0..<length (old i)]"
        "rows s (value_pages s ! l) ?h = map (\<lambda>p. vrow l (take (Suc p) (old i))) [0..<length (old i)]"
        using q [OF i] l by (auto simp: holds_def)
      show "rows ?s (key_pages ?s ! l) ?h = map (\<lambda>p. krow l (take (Suc p) (old i @ new i))) [0..<length (old i @ new i)]"
        unfolding rows(1) [OF l] t(1) o(1) by (rule join)
      show "rows ?s (value_pages ?s ! l) ?h = map (\<lambda>p. vrow l (take (Suc p) (old i @ new i))) [0..<length (old i @ new i)]"
        unfolding rows(2) [OF l] t(2) o(2) by (rule join)
    qed
  qed
  have out: "paged_view ?s h = paged_view s h" if "h \<notin> set (rs_handles r)" for h
  proof -
    have "kv_size ?s h = kv_size s h"
      using commit_objs_lookup(2) [OF rk(3,5,6) that, of "objs s"] by (simp add: committed_def)
    then show ?thesis by (simp add: paged_view_abs abs append_batch_out [OF that])
  qed
  have lens: "map (kv_size ?s) (rs_handles r) = map (\<lambda>i. length (old i) + length (new i)) [0..<length (rs_handles r)]"
    by (rule nth_equalityI) (use size in simp_all)
  show ?thesis unfolding s' res lens using wf' live holds out by simp
qed

lemma abort_frame:
  assumes "abort r s = (res, r', s')"
  shows "num_layers s' = num_layers s \<and> kv_dtype s' = kv_dtype s"
  using assms by (auto simp: abort_def finish_reservation_def Let_def split: if_splits sum.splits prod.splits)

lemma abort_idle:
  assumes "kv_wf s" "reservation_ok s r" "num_layers s = layers" "kv_dtype s = d" "abort r s = (res, r', s')"
  shows "res = Inr () \<and> paged_idle layers d s' \<and> live s' = live s \<and> paged_view s' = paged_view s"
  using abort_ok [OF assms(1,2,5)] abort_frame [OF assms(5)] assms(3,4)
  by (auto simp: paged_idle_def intro: same_views)

subsection \<open>Dispatch and resolution\<close>

text \<open>The kept requests of a batch are valid for the pool, and the cache of each holds the tokens
  \<open>ctx h\<close>.\<close>

definition kept_ok ::
  "(nat \<Rightarrow> token list \<Rightarrow> 'v) \<Rightarrow> (nat \<Rightarrow> token list \<Rightarrow> 'v) \<Rightarrow> (handle \<Rightarrow> token list) \<Rightarrow> kept_request list \<Rightarrow> 'v kv \<Rightarrow> bool" where
  "kept_ok krow vrow ctx kept s \<longleftrightarrow> kept \<noteq> [] \<and>
     (\<forall>(q, i, h) \<in> set kept. preflight_cache q s = Inr h \<and> holds krow vrow s h (ctx h))"

text \<open>A dispatched step: the reservation stages the rows of every kept request's tokens.\<close>

definition flight_ok ::
  "(nat \<Rightarrow> token list \<Rightarrow> 'v) \<Rightarrow> (nat \<Rightarrow> token list \<Rightarrow> 'v) \<Rightarrow> (token list \<Rightarrow> token) \<Rightarrow> nat \<Rightarrow> dtype \<Rightarrow>
     (handle \<Rightarrow> token list) \<Rightarrow> kept_request list \<Rightarrow> 'v in_flight_step \<Rightarrow> 'v kv \<Rightarrow> bool" where
  "flight_ok krow vrow next_token layers d ctx kept f s \<longleftrightarrow>
     (let r = fl_reservation f; h = (\<lambda>i. snd (snd (kept ! i))); new = (\<lambda>i. er_token_ids (fst (kept ! i)))
      in kv_wf s \<and> reservation_ok s r \<and> num_layers s = layers \<and> kv_dtype s = d \<and>
         rs_handles r = map (\<lambda>(q, i, h). h) kept \<and>
         append_lengths r = map (\<lambda>(q, i, h). length (er_token_ids q)) kept \<and>
         (\<forall>i < length kept. holds krow vrow s (h i) (ctx (h i))) \<and>
         (\<forall>l < layers. staged_rows krow vrow (\<lambda>i. ctx (h i)) new s r l) \<and>
         fl_next_tokens f = map (\<lambda>(q, i, h). next_token (ctx h @ er_token_ids q)) kept)"

lemma pass_views:
  assumes "pass_frame s r s' r'"
  shows "paged_view s' = paged_view s"
  using assms by (intro same_views) (simp_all add: pass_frame_def)

lemma holds_same_view:
  assumes "num_layers s' = num_layers s" "kv_wf s" "kv_wf s'" "h \<in> set (live s)" "paged_view s' h = paged_view s h"
  shows "holds krow vrow s' h ts = holds krow vrow s h ts"
proof -
  have w: "length (key_pages s) = num_layers s" "length (value_pages s) = num_layers s"
    "length (key_pages s') = num_layers s" "length (value_pages s') = num_layers s"
    using kv_wfD(4,5) assms(1-3) by metis+
  have v: "kv_size s' h = kv_size s h" "map (\<lambda>pg. rows s' pg h) (key_pages s') = map (\<lambda>pg. rows s pg h) (key_pages s)"
    "map (\<lambda>pg. rows s' pg h) (value_pages s') = map (\<lambda>pg. rows s pg h) (value_pages s)"
    using assms(4,5) by (auto simp: paged_view_def split: if_splits)
  have "rows s' (key_pages s' ! l) h = rows s (key_pages s ! l) h"
    "rows s' (value_pages s' ! l) h = rows s (value_pages s ! l) h" if "l < num_layers s" for l
    using v(2,3) [THEN arg_cong, of "\<lambda>xs. xs ! l"] that w by simp_all
  then show ?thesis by (simp add: holds_def v(1) assms(1))
qed

context forward_model
begin

lemma dispatch_rule:
  assumes idle: "paged_idle layers d s" and ly: "pr_layout p = Some ly" "build_layout kept s0 = Inr ly"
    and kept: "kept_ok krow vrow ctx kept s"
    and run: "dispatch_batch model argmax p s = (res, s')"
  shows "live s' = live s \<and> paged_view s' = paged_view s \<and>
    (case res of Inl e \<Rightarrow> paged_idle layers d s'
     | Inr f \<Rightarrow> fl_prepared f = p \<and> flight_ok krow vrow next_token layers d ctx kept f s')"
proof -
  have wf: "kv_wf s" "quiescent s" "num_layers s = layers" "kv_dtype s = d" using idle by (simp_all add: paged_idle_def)
  note L = build_layout_okD [OF ly(2)]
  have K: "preflight_cache (fst (kept ! i)) s = Inr (snd (snd (kept ! i)))" "holds krow vrow s (snd (snd (kept ! i))) (ctx (snd (snd (kept ! i))))"
    if "i < length kept" for i
    using kept nth_mem [OF that] unfolding kept_ok_def by (auto simp: case_prod_unfold)
  have hs: "set (ly_caches ly) \<subseteq> set (live s)"
    using kept preflight_cacheD(2) unfolding kept_ok_def L(3) by fastforce
  note run = run [unfolded dispatch_batch_def ly(1) option.case]
  obtain rr s1 where rb: "reserve_batch (ly_caches ly) (ly_token_lengths ly) s = (rr, s1)" by (metis surj_pair)
  show ?thesis
  proof (cases rr)
    case (Inl e)
    have "s1 = s \<or> s1 = s\<lparr>allocation_failures := Suc (allocation_failures s)\<rparr>"
      using reserve_batch_fails_atomically rb Inl by blast
    then have "kv_wf s1 \<and> quiescent s1 \<and> num_layers s1 = layers \<and> kv_dtype s1 = d \<and> live s1 = live s \<and> paged_view s1 = paged_view s"
      using wf by (auto simp: failures_frame intro: same_views)
    then show ?thesis using run rb Inl by (auto simp: paged_idle_def)
  next
    case (Inr r)
    note rb = rb [unfolded Inr]
    note ok1 = reserve_batch_ok [OF wf(1,2) hs rb] and f1 = reserve_batch_frame [OF rb] and l1 = reserve_batch_lengths [OF rb]
    have i1: "kv_wf s1" "reservation_ok s1 r" using ok1 by blast+
    have d1: "num_layers s1 = layers" "kv_dtype s1 = d"
      using rb wf(3,4) by (auto simp: reserve_batch_def Let_def split: if_splits option.splits)
    have v1: "paged_view s1 = paged_view s" using ok1 f1 by (intro same_views) simp_all
    obtain x r2 s2 where call: "model (ly_input_ids ly) (ly_positions ly) (Some ''causal'') r s1 = (x, r2, s2)" by (metis surj_pair)
    note fr = pass_law [OF i1 call]
    have i2: "kv_wf s2" "reservation_ok s2 r2" "num_layers s2 = layers" "kv_dtype s2 = d" "live s2 = live s"
      "rs_handles r2 = rs_handles r" "append_lengths r2 = append_lengths r"
      using fr f1 d1 by (simp_all add: pass_frame_def)
    have v2: "paged_view s2 = paged_view s" using pass_views [OF fr] v1 by simp
    show ?thesis
    proof (cases x)
      case (Inl e)
      obtain y r3 s3 where ab: "abort r2 s2 = (y, r3, s3)" by (metis surj_pair)
      note a = abort_idle [OF i2(1-4) ab]
      then show ?thesis using run rb call Inl ab i2(5) v2 by auto
    next
      case (Inr logits)
      let ?h = "\<lambda>i. snd (snd (kept ! i))" and ?new = "\<lambda>i. er_token_ids (fst (kept ! i))"
      have hd: "rs_handles r = map (\<lambda>(q, i, h). h) kept" "append_lengths r = map (\<lambda>(q, i, h). length (er_token_ids q)) kept"
        using ok1 L(3,4) by simp_all
      have each: "holds krow vrow s1 (rs_handles r ! i) (ctx (?h i)) \<and> append_lengths r ! i = length (?new i) \<and> ?new i \<noteq> [] \<and>
          take (length (?new i)) (ly_input_ids ly ! i) = ?new i \<and> ly_positions ly ! i ! 0 = length (ctx (?h i))"
        if "i < length (rs_handles r)" for i
      proof -
        have i: "i < length kept" using that hd by simp
        note pc = preflight_cacheD [OF K(1) [OF i]]
        have size: "kv_size s (?h i) = length (ctx (?h i))" using K(2) [OF i] by (simp add: holds_def)
        have "er_positions (fst (kept ! i)) \<noteq> []" "hd (er_positions (fst (kept ! i))) = length (ctx (?h i))"
          using pc(4,5) size by (simp_all add: upt_rec)
        moreover have "holds krow vrow s1 (?h i) (ctx (?h i))"
          using holds_same_view [of s1 s "?h i"] K(2) [OF i] i1(1) wf d1(1) pc(2) v1 by simp
        ultimately show ?thesis using L(6,7) i pc(4) by (simp add: hd case_prod_unfold)
      qed
      have len: "length (ly_input_ids ly) = length (rs_handles r)" by (simp add: L(5) hd)
      note R = run_law [OF i1 l1 d1 len each call [unfolded Inr], simplified]
      have toks: "sample_last_logits argmax logits (ly_token_lengths ly) = map (\<lambda>(q, i, h). next_token (ctx h @ er_token_ids q)) kept"
        by (rule nth_equalityI)
          (use R hd in \<open>auto simp: sample_last_logits_def L(4) enumerate_eq_zip case_prod_unfold\<close>)
      have "holds krow vrow s2 (?h i) (ctx (?h i))" if "i < length kept" for i
        using holds_same_view [of s2 s "?h i"] K [OF that] i2 wf preflight_cacheD(2) [OF K(1) [OF that]] v2 by simp
      then have "flight_ok krow vrow next_token layers d ctx kept
          \<lparr>fl_prepared = p, fl_reservation = r2, fl_next_tokens = sample_last_logits argmax logits (ly_token_lengths ly)\<rparr> s2"
        using R i2 hd toks unfolding flight_ok_def Let_def by simp
      then show ?thesis using run rb call Inr i2(5) v2 by auto
    qed
  qed
qed

end

text \<open>The results of a batch of which \<open>kept\<close> were executed.\<close>

definition results_ok ::
  "(token list \<Rightarrow> token) \<Rightarrow> (handle \<Rightarrow> token list) \<Rightarrow> execution_request list \<Rightarrow> kept_request list \<Rightarrow> step_request_result list \<Rightarrow> bool" where
  "results_ok next_token ctx requests kept rs \<longleftrightarrow> length rs = length requests \<and>
     (\<forall>(q, i, h) \<in> set kept. i < length requests \<and> q = requests ! i \<and> er_cache_handle q = Some h \<and> er_token_ids q \<noteq> [] \<and>
        rs ! i = step_done q (length (ctx h) + length (er_token_ids q)) (next_token (ctx h @ er_token_ids q))) \<and>
     (\<forall>i < length requests. i \<notin> set (map (\<lambda>(q, i, h). i) kept) \<longrightarrow>
        sr_request_id (rs ! i) = er_request_id (requests ! i) \<and> sr_phase (rs ! i) = er_phase (requests ! i) \<and>
        sr_cache_handle (rs ! i) = er_cache_handle (requests ! i) \<and> sr_error_code (rs ! i) \<noteq> None)"

lemma prep_error:
  assumes "prep_ok requests s kept results" "i < length requests" "i \<notin> set (map (\<lambda>(q, i, h). i) kept)"
  obtains x where "results ! i = Some x" "sr_request_id x = er_request_id (requests ! i)" "sr_phase x = er_phase (requests ! i)"
    "sr_cache_handle x = er_cache_handle (requests ! i)" "sr_error_code x \<noteq> None"
proof -
  have all: "\<forall>i < length requests. if i \<in> set (map (\<lambda>(q, i, h). i) kept) then results ! i = None
        else \<exists>code msg s0 :: 'a kv. results ! i = Some (request_error (requests ! i) code msg s0)"
    using assms(1) unfolding prep_ok_def by blast
  from all [rule_format, OF assms(2), unfolded if_not_P [OF assms(3)]]
  obtain code msg and s0 :: "'a kv" where "results ! i = Some (request_error (requests ! i) code msg s0)" by blast
  then show ?thesis by (rule that) (simp_all add: request_error_def)
qed

lemma place_kept:
  fixes s :: "'v kv"
  assumes prep: "prep_ok requests s kept results"
    and run: "require_results (place_results (map (\<lambda>(q, i, h). (i, q, len h q, tok h q)) kept) results) = res"
    and ctx: "\<forall>(q, i, h) \<in> set kept. len h q = length (ctx h) + length (er_token_ids q) \<and> tok h q = next_token (ctx h @ er_token_ids q)"
  shows "\<exists>rs. res = Inr rs \<and> results_ok next_token ctx requests kept rs"
proof -
  let ?xs = "map (\<lambda>(q, i, h). (i, q, len h q, tok h q)) kept"
  have fst: "map fst ?xs = map (\<lambda>(q, i, h). i) kept" by (rule nth_equalityI) (auto simp: case_prod_unfold)
  have P: "length results = length requests" "distinct (map (\<lambda>(q, i, h). i) kept)"
    "\<forall>(q, i, h) \<in> set kept. i < length requests \<and> q = requests ! i \<and> preflight_cache q s = Inr h"
    using prep unfolding prep_ok_def by blast+
  have idx: "i < length results" if "i \<in> set (map fst ?xs)" for i using that P(1,3) unfolding fst by auto
  have placed: "length (place_results ?xs results) = length results"
    "\<And>k. k < length results \<Longrightarrow> k \<notin> set (map (\<lambda>(q, i, h). i) kept) \<Longrightarrow> place_results ?xs results ! k = results ! k"
    "\<And>q i h. (q, i, h) \<in> set kept \<Longrightarrow> place_results ?xs results ! i = Some (step_done q (len h q) (tok h q))"
  proof -
    have "distinct (map fst ?xs)" unfolding fst by (rule P(2))
    note R = place_results_ok [OF this idx, unfolded fst]
    show "length (place_results ?xs results) = length results"
      "\<And>k. k < length results \<Longrightarrow> k \<notin> set (map (\<lambda>(q, i, h). i) kept) \<Longrightarrow> place_results ?xs results ! k = results ! k"
      using R by blast+
    show "place_results ?xs results ! i = Some (step_done q (len h q) (tok h q))" if "(q, i, h) \<in> set kept" for q i h
    proof -
      have "(i, q, len h q, tok h q) \<in> set ?xs" using that by force
      then show ?thesis using R by blast
    qed
  qed
  have "place_results ?xs results ! k \<noteq> None" if k: "k < length requests" for k
  proof (cases "k \<in> set (map (\<lambda>(q, i, h). i) kept)")
    case True
    then show ?thesis using placed(3) by auto
  next
    case False
    have "place_results ?xs results ! k = results ! k" using placed(2) False P(1) k by simp
    moreover obtain x where "results ! k = Some x" using prep_error [OF prep k False] by metis
    ultimately show ?thesis by simp
  qed
  then have "None \<notin> set (place_results ?xs results)" using placed(1) P(1) by (auto simp: in_set_conv_nth)
  then obtain rs where rs: "require_results (place_results ?xs results) = Inr rs" using require_results_total by blast
  then have eq: "place_results ?xs results = map Some rs" by (simp add: require_results_ok)
  have len: "length rs = length requests" using arg_cong [OF eq, of length] placed(1) P(1) by simp
  have nth: "place_results ?xs results ! k = Some (rs ! k)" if "k < length requests" for k using that len by (simp add: eq)
  have "results_ok next_token ctx requests kept rs"
    unfolding results_ok_def
  proof (intro conjI allI impI ballI)
    show "length rs = length requests" by (rule len)
  next
    fix x assume x: "x \<in> set kept"
    obtain q i h where [simp]: "x = (q, i, h)" by (cases x) auto
    have v: "i < length requests" "q = requests ! i" "preflight_cache q s = Inr h" using x P(3) by auto
    have "rs ! i = step_done q (len h q) (tok h q)" using nth [OF v(1)] placed(3) x by auto
    then show "case x of (q, i, h) \<Rightarrow> i < length requests \<and> q = requests ! i \<and> er_cache_handle q = Some h \<and> er_token_ids q \<noteq> [] \<and>
        rs ! i = step_done q (length (ctx h) + length (er_token_ids q)) (next_token (ctx h @ er_token_ids q))"
      using v preflight_cacheD(1,4) [OF v(3)] ctx x by auto
  next
    fix i assume i: "i < length requests" "i \<notin> set (map (\<lambda>(q, i, h). i) kept)"
    obtain y where y: "results ! i = Some y" "sr_request_id y = er_request_id (requests ! i)" "sr_phase y = er_phase (requests ! i)"
      "sr_cache_handle y = er_cache_handle (requests ! i)" "sr_error_code y \<noteq> None"
      using prep_error [OF prep i] by blast
    have "rs ! i = y" using nth [OF i(1)] placed(2) [of i] i P(1) y(1) by simp
    with y show "sr_request_id (rs ! i) = er_request_id (requests ! i)" "sr_phase (rs ! i) = er_phase (requests ! i)"
      "sr_cache_handle (rs ! i) = er_cache_handle (requests ! i)" "sr_error_code (rs ! i) \<noteq> None" by simp_all
  qed
  then show ?thesis using rs run by auto
qed

text \<open>Resolving a dispatched step: the rows are committed and the results filled in, or, if the
  device raised, the reservation is dropped.\<close>

lemma resolve_rule:
  fixes s :: "'v kv"
  assumes fl: "flight_ok krow vrow next_token layers d ctx kept f s"
    and ly: "pr_layout (fl_prepared f) = Some ly" "build_layout kept s0 = Inr ly"
    and prep: "prep_ok requests (s0' :: 'v kv) kept (pr_results (fl_prepared f))"
    and run: "resolve_batch fault f s = (res, s')"
  shows "paged_idle layers d s' \<and> live s' = live s \<and>
    (case res of
       Inl e \<Rightarrow> fault \<noteq> None \<and> paged_view s' = paged_view s
     | Inr st \<Rightarrow> fault = None \<and> results_ok next_token ctx requests kept (st_results st) \<and>
         (\<forall>(q, i, h) \<in> set kept. holds krow vrow s' h (ctx h @ er_token_ids q)) \<and>
         (\<forall>h. h \<notin> set (map (\<lambda>(q, i, h). h) kept) \<longrightarrow> paged_view s' h = paged_view s h))"
proof -
  define r where "r = fl_reservation f"
  let ?h = "\<lambda>i. snd (snd (kept ! i))" and ?new = "\<lambda>i. er_token_ids (fst (kept ! i))"
  have F: "kv_wf s" "reservation_ok s r" "num_layers s = layers" "kv_dtype s = d"
    "rs_handles r = map (\<lambda>(q, i, h). h) kept" "append_lengths r = map (\<lambda>(q, i, h). length (er_token_ids q)) kept"
    "\<forall>i < length kept. holds krow vrow s (?h i) (ctx (?h i))" "\<forall>l < layers. staged_rows krow vrow (\<lambda>i. ctx (?h i)) ?new s r l"
    "fl_next_tokens f = map (\<lambda>(q, i, h). next_token (ctx h @ er_token_ids q)) kept"
    using fl unfolding flight_ok_def Let_def r_def by simp_all
  note run = run [unfolded resolve_batch_def ly(1) option.case, folded r_def]
  note L = build_layout_okD [OF ly(2)]
  show ?thesis
  proof (cases fault)
    case (Some e)
    obtain y r3 s3 where ab: "abort r s = (y, r3, s3)" by (metis surj_pair)
    with abort_idle [OF F(1-4) ab] run Some show ?thesis by auto
  next
    case None
    obtain y r3 s3 where cm: "commit r s = (y, r3, s3)" by (metis surj_pair)
    have st: "\<forall>l < num_layers s. staged_rows krow vrow (\<lambda>i. ctx (?h i)) ?new s r l" using F(3,8) by simp
    have each: "holds krow vrow s (rs_handles r ! i) (ctx (?h i)) \<and> append_lengths r ! i = length (?new i)"
      if "i < length (rs_handles r)" for i using that F(5-7) by (simp add: case_prod_unfold)
    note C = commit_step [OF F(1,2) st each cm]
    then have y: "y = Inr (map (\<lambda>i. length (ctx (?h i)) + length (?new i)) [0..<length kept])" using F(5) by simp
    let ?len = "\<lambda>h q. length (ctx h) + length (er_token_ids q)" and ?tok = "\<lambda>h q. next_token (ctx h @ er_token_ids q)"
    have zip: "zip (ly_source_indices ly) (zip (ly_requests ly) (zip (map (\<lambda>i. length (ctx (?h i)) + length (?new i)) [0..<length kept]) (fl_next_tokens f))) =
        map (\<lambda>(q, i, h). (i, q, ?len h q, ?tok h q)) kept"
      by (rule nth_equalityI) (simp_all add: L(1,2) F(9) case_prod_unfold)
    obtain rs where rs: "require_results (place_results (map (\<lambda>(q, i, h). (i, q, ?len h q, ?tok h q)) kept) (pr_results (fl_prepared f))) = Inr rs"
      "results_ok next_token ctx requests kept rs"
      using place_kept [OF prep refl, where len = ?len and tok = ?tok and ctx = ctx and next_token = next_token] by auto
    have "res = Inr \<lparr>st_forward_mode = ly_forward_mode ly, st_results = rs,
        st_physical_batch_size = length (ly_requests ly), st_model_forward_count = 1\<rparr>" "s' = s3"
      using run None cm zip rs(1) by (simp_all add: y L(1,2) F(9))
    moreover have "holds krow vrow s3 h (ctx h @ er_token_ids q)" if x: "(q, i, h) \<in> set kept" for q i h
    proof -
      obtain k where k: "k < length kept" "kept ! k = (q, i, h)" using x by (auto simp: in_set_conv_nth)
      then show ?thesis using C F(5) by force
    qed
    ultimately show ?thesis using C None rs(2) F(3-5) by (auto simp: paged_idle_def)
  qed
qed

lemma kept_ok_failures:
  "kept_ok krow vrow ctx kept (s\<lparr>allocation_failures := n\<rparr>) = kept_ok krow vrow ctx kept s"
proof -
  have "preflight_cache q (s\<lparr>allocation_failures := n\<rparr>) = preflight_cache q s" for q
  proof -
    have "kv_get ho rid (s\<lparr>allocation_failures := n\<rparr>) = kv_get ho rid s" for ho rid 
      by (simp add: kv_get_def split: option.splits)
    then show ?thesis unfolding preflight_cache_def Let_def by (simp split: sum.splits)
  qed
  moreover have "holds krow vrow (s\<lparr>allocation_failures := n\<rparr>) h ts = holds krow vrow s h ts" for h ts
    by (simp add: holds_def rows_def)
  ultimately show ?thesis by (simp add: kept_ok_def)
qed

context forward_model
begin

lemma execute_rule:
  assumes idle: "paged_idle layers d s"
    and ctx: "\<forall>q \<in> set requests. \<forall>h \<in> set (live s). er_cache_handle q = Some h \<longrightarrow> holds krow vrow s h (ctx h)"
    and run: "execute_batch model argmax fault requests s = (res, s')"
  shows "paged_idle layers d s' \<and> live s' = live s \<and>
    (case res of
       Inl e \<Rightarrow> paged_view s' = paged_view s
     | Inr st \<Rightarrow> \<exists>kept. results_ok next_token ctx requests kept (st_results st) \<and>
         (\<forall>(q, i, h) \<in> set kept. h \<in> set (live s) \<and> rc_request_id (objs s h) = er_request_id q \<and>
            holds krow vrow s' h (ctx h @ er_token_ids q)) \<and>
         (\<forall>h. h \<notin> set (map (\<lambda>(q, i, h). h) kept) \<longrightarrow> paged_view s' h = paged_view s h))"
proof -
  obtain pp s1 where pp: "prepare_batch requests s = (pp, s1)" by (metis surj_pair)
  obtain n where s1: "s1 = s\<lparr>allocation_failures := n\<rparr>" using prepare_batch_ok [OF pp] by blast
  have idle1: "paged_idle layers d s1" "live s1 = live s" "paged_view s1 = paged_view s"
    using idle by (auto simp: s1 paged_idle_def failures_frame intro: same_views)
  show ?thesis
  proof (cases pp)
    case (Inl e)
    then show ?thesis using run pp idle1 by (auto simp: execute_batch_def)
  next
    case (Inr p)
    note P = prepare_batch_ok [OF pp, THEN conjunct2, rule_format, OF Inr]
    show ?thesis
    proof (cases "pr_layout p")
      case None
      then have prep: "prep_ok requests s [] (pr_results p)" using P by simp
      have out: "res = empty_result p" "s' = s1" using run pp Inr None by (simp_all add: execute_batch_def execute_prepared_def)
      obtain rs where "require_results (pr_results p) = Inr rs" "results_ok next_token ctx requests [] rs"
        using place_kept [OF prep refl, where ctx = ctx and next_token = next_token] by auto
      then show ?thesis
        using idle1 out by (auto simp: empty_result_def split: sum.splits intro!: exI [of _ "[]"])
    next
      case (Some ly)
      then obtain kept where K: "kept \<noteq> []" "build_layout kept s1 = Inr ly" "prep_ok requests s kept (pr_results p)"
        using P by auto
      have Q: "q \<in> set requests \<and> preflight_cache q s = Inr h" if "(q, i, h) \<in> set kept" for q i h
        using K(3) that unfolding prep_ok_def by fastforce
      have kept1: "kept_ok krow vrow ctx kept s1"
      proof -
        have "preflight_cache q s = Inr h \<and> holds krow vrow s h (ctx h)" if "(q, i, h) \<in> set kept" for q i h
          using Q [OF that] ctx preflight_cacheD(1,2) [of q s h] by blast
        then show ?thesis unfolding s1 kept_ok_failures unfolding kept_ok_def using K(1) by blast
      qed
      obtain ff s2 where dp: "dispatch_batch model argmax p s1 = (ff, s2)" by (metis surj_pair)
      note D = dispatch_rule [OF idle1(1) Some K(2) kept1 dp]
      show ?thesis
      proof (cases ff)
        case (Inl e)
        then show ?thesis using run pp Inr Some dp D idle1 by (auto simp: execute_batch_def execute_prepared_def)
      next
        case (Inr f)
        then have res: "resolve_batch fault f s2 = (res, s')"
          using run pp \<open>pp = Inr p\<close> Some dp by (simp add: execute_batch_def execute_prepared_def)
        have fl: "flight_ok krow vrow next_token layers d ctx kept f s2" and fp: "fl_prepared f = p" using D Inr by simp_all
        note R = resolve_rule [OF fl Some [folded fp] K(2) K(3) [folded fp] res]
        have V: "live s2 = live s" "paged_view s2 = paged_view s" using D idle1(2,3) by simp_all
        show ?thesis
        proof (cases res)
          case (Inl e)
          then show ?thesis using R V by auto
        next
          case (Inr st)
          have "h \<in> set (live s) \<and> rc_request_id (objs s h) = er_request_id q \<and> holds krow vrow s' h (ctx h @ er_token_ids q)"
            if "(q, i, h) \<in> set kept" for q i h
            using Q [OF that] preflight_cacheD(2,3) [of q s h] R that unfolding Inr by auto
          then show ?thesis using R V unfolding Inr by (auto intro!: exI [of _ kept])
        qed
      qed
    qed
  qed
qed

end

end
