(* ===== verification/Qwen2.thy ===== *)
theory Qwen2
  imports Attention
begin

text \<open>
  The forward pass of \<^verbatim>\<open>native_mlx/models/qwen2.py\<close> over a cache reservation.  The trained
  projections, norms and MLX kernels are MLX's: each acts on one row of activations, of type
  \<open>'v\<close>, and is a field of \<open>qwen2\<close>.  An activation tensor is the function from batch index and
  position to its row.  \<open>faults l\<close> is the exception MLX raises while layer \<open>l\<close> is being
  built, if it raises one.
\<close>

record 'v qwen2 =
  qw_heads :: nat
  qw_kv_heads :: nat
  qw_head_dim :: nat
  qw_layers :: nat
  qw_tied :: bool
  qw_dtype :: dtype
  qw_embed :: "token \<Rightarrow> 'v"
  qw_input_norm :: "nat \<Rightarrow> 'v \<Rightarrow> 'v"
  qw_q_proj :: "nat \<Rightarrow> 'v \<Rightarrow> 'v"
  qw_k_proj :: "nat \<Rightarrow> 'v \<Rightarrow> 'v"
  qw_v_proj :: "nat \<Rightarrow> 'v \<Rightarrow> 'v"
  qw_o_proj :: "nat \<Rightarrow> 'v \<Rightarrow> 'v"
  qw_rope :: "nat \<Rightarrow> nat \<Rightarrow> 'v \<Rightarrow> 'v"
  qw_sdpa :: "nat \<Rightarrow> 'v \<Rightarrow> 'v list \<Rightarrow> 'v list \<Rightarrow> bool list \<Rightarrow> 'v"
  qw_cast :: "dtype \<Rightarrow> 'v \<Rightarrow> 'v"
  qw_zero :: 'v
  qw_add :: "'v \<Rightarrow> 'v \<Rightarrow> 'v"
  qw_post_norm :: "nat \<Rightarrow> 'v \<Rightarrow> 'v"
  qw_gate_proj :: "nat \<Rightarrow> 'v \<Rightarrow> 'v"
  qw_up_proj :: "nat \<Rightarrow> 'v \<Rightarrow> 'v"
  qw_down_proj :: "nat \<Rightarrow> 'v \<Rightarrow> 'v"
  qw_silu :: "'v \<Rightarrow> 'v"
  qw_mul :: "'v \<Rightarrow> 'v \<Rightarrow> 'v"
  qw_norm :: "'v \<Rightarrow> 'v"
  qw_as_linear :: "'v \<Rightarrow> 'v"
  qw_lm_head :: "'v \<Rightarrow> 'v"

subsection \<open>The layers\<close>

text \<open>\<^verbatim>\<open>Qwen2Attention.__call__\<close>: projections, rotation from the first position of each batch
  row, append and attend, output projection.  \<open>batch\<close> and \<open>seq\<close> are the shape of \<open>x\<close>.\<close>

definition qwen2_attention ::
  "'v qwen2 \<Rightarrow> nat \<Rightarrow> nat \<Rightarrow> nat \<Rightarrow> 'v activations \<Rightarrow> nat list list \<Rightarrow> string option \<Rightarrow>
     'v reservation \<Rightarrow> 'v kv \<Rightarrow> (exn + 'v activations) \<times> 'v reservation \<times> 'v kv" where
  "qwen2_attention m layer batch seq x positions attention_mask r s =
     (let offset = (\<lambda>i. positions ! i ! 0);
          queries = \<lparr>t_shape = [batch, qw_heads m, seq, qw_head_dim m], t_dtype = qw_dtype m,
                     t_row = (\<lambda>i j. qw_rope m layer (offset i + j) (qw_q_proj m layer (x i j)))\<rparr>;
          keys = \<lparr>t_shape = [batch, qw_kv_heads m, seq, qw_head_dim m], t_dtype = qw_dtype m,
                  t_row = (\<lambda>i j. qw_rope m layer (offset i + j) (qw_k_proj m layer (x i j)))\<rparr>;
          values' = \<lparr>t_shape = [batch, qw_kv_heads m, seq, qw_head_dim m], t_dtype = qw_dtype m,
                     t_row = (\<lambda>i j. qw_v_proj m layer (x i j))\<rparr>
      in case append_and_attend (qw_sdpa m layer) (qw_cast m) (qw_zero m) layer queries keys values'
                attention_mask None r s of
           (Inl e, r', s') \<Rightarrow> (Inl e, r', s')
         | (Inr output, r', s') \<Rightarrow> (Inr (\<lambda>i j. qw_o_proj m layer (output i j)), r', s'))"

definition silu_gate :: "'v qwen2 \<Rightarrow> 'v \<Rightarrow> 'v \<Rightarrow> 'v" where
  "silu_gate m gate up = qw_mul m (qw_silu m gate) up"

definition qwen2_mlp :: "'v qwen2 \<Rightarrow> nat \<Rightarrow> 'v \<Rightarrow> 'v" where
  "qwen2_mlp m layer x = qw_down_proj m layer (silu_gate m (qw_gate_proj m layer x) (qw_up_proj m layer x))"

definition qwen2_block ::
  "'v qwen2 \<Rightarrow> nat \<Rightarrow> nat \<Rightarrow> nat \<Rightarrow> 'v activations \<Rightarrow> nat list list \<Rightarrow> string option \<Rightarrow>
     'v reservation \<Rightarrow> 'v kv \<Rightarrow> (exn + 'v activations) \<times> 'v reservation \<times> 'v kv" where
  "qwen2_block m layer batch seq x positions attention_mask r s =
     (case qwen2_attention m layer batch seq (\<lambda>i j. qw_input_norm m layer (x i j)) positions attention_mask r s of
        (Inl e, r', s') \<Rightarrow> (Inl e, r', s')
      | (Inr attn_out, r', s') \<Rightarrow>
          (Inr (\<lambda>i j. let hidden = qw_add m (x i j) (attn_out i j)
                       in qw_add m hidden (qwen2_mlp m layer (qw_post_norm m layer hidden))), r', s'))"

fun qwen2_blocks ::
  "'v qwen2 \<Rightarrow> (nat \<Rightarrow> exn option) \<Rightarrow> nat list \<Rightarrow> nat \<Rightarrow> nat \<Rightarrow> 'v activations \<Rightarrow> nat list list \<Rightarrow>
     string option \<Rightarrow> 'v reservation \<Rightarrow> 'v kv \<Rightarrow> (exn + 'v activations) \<times> 'v reservation \<times> 'v kv" where
  "qwen2_blocks m faults [] batch seq x positions attention_mask r s = (Inr x, r, s)"
| "qwen2_blocks m faults (l # ls) batch seq x positions attention_mask r s =
     (case faults l of
        Some e \<Rightarrow> (Inl e, r, s)
      | None \<Rightarrow>
          (case qwen2_block m l batch seq x positions attention_mask r s of
             (Inl e, r', s') \<Rightarrow> (Inl e, r', s')
           | (Inr x', r', s') \<Rightarrow> qwen2_blocks m faults ls batch seq x' positions attention_mask r' s'))"

definition qwen2_backbone ::
  "'v qwen2 \<Rightarrow> (nat \<Rightarrow> exn option) \<Rightarrow> token list list \<Rightarrow> nat list list \<Rightarrow> string option \<Rightarrow>
     'v reservation \<Rightarrow> 'v kv \<Rightarrow> (exn + 'v activations) \<times> 'v reservation \<times> 'v kv" where
  "qwen2_backbone m faults inputs positions attention_mask r s =
     (if num_layers s \<noteq> qw_layers m then
        (Inl (ValueError ''Qwen2 requires one attention context per layer''), r, s)
      else
        (case qwen2_blocks m faults [0..<qw_layers m] (length inputs) (length (hd inputs))
                (\<lambda>i j. qw_embed m (inputs ! i ! j)) positions attention_mask r s of
           (Inl e, r', s') \<Rightarrow> (Inl e, r', s')
         | (Inr hidden, r', s') \<Rightarrow> (Inr (\<lambda>i j. qw_norm m (hidden i j)), r', s')))"

text \<open>\<^verbatim>\<open>Qwen2ForCausalLM.__call__\<close>: the logits of every position.\<close>

definition qwen2_call ::
  "'v qwen2 \<Rightarrow> (nat \<Rightarrow> exn option) \<Rightarrow> token list list \<Rightarrow> nat list list \<Rightarrow> string option \<Rightarrow>
     'v reservation \<Rightarrow> 'v kv \<Rightarrow> (exn + 'v activations) \<times> 'v reservation \<times> 'v kv" where
  "qwen2_call m faults input_ids positions attention_mask r s =
     (case qwen2_backbone m faults input_ids positions attention_mask r s of
        (Inl e, r', s') \<Rightarrow> (Inl e, r', s')
      | (Inr hidden, r', s') \<Rightarrow>
          (Inr (\<lambda>i j. if qw_tied m then qw_as_linear m (hidden i j) else qw_lm_head m (hidden i j)), r', s'))"

subsection \<open>The model without a cache\<close>

text \<open>One sequence, every position computed from scratch: what the cached, paged, chunked and
  batched computation has to reproduce.\<close>

definition ref_keys :: "'v qwen2 \<Rightarrow> dtype \<Rightarrow> nat \<Rightarrow> 'v list \<Rightarrow> 'v list" where
  "ref_keys m d l x = map (\<lambda>i. let k = qw_rope m l i (qw_k_proj m l (qw_input_norm m l (x ! i)))
     in if qw_dtype m \<noteq> d then qw_cast m d k else k) [0..<length x]"

definition ref_values :: "'v qwen2 \<Rightarrow> dtype \<Rightarrow> nat \<Rightarrow> 'v list \<Rightarrow> 'v list" where
  "ref_values m d l x = map (\<lambda>i. let v = qw_v_proj m l (qw_input_norm m l (x ! i))
     in if qw_dtype m \<noteq> d then qw_cast m d v else v) [0..<length x]"

definition ref_block :: "'v qwen2 \<Rightarrow> dtype \<Rightarrow> nat \<Rightarrow> 'v list \<Rightarrow> nat \<Rightarrow> 'v" where
  "ref_block m d l x i =
     (let q = qw_rope m l i (qw_q_proj m l (qw_input_norm m l (x ! i)));
          attended = qw_sdpa m l q (take (Suc i) (ref_keys m d l x)) (take (Suc i) (ref_values m d l x))
                       (replicate (Suc i) True);
          hidden = qw_add m (x ! i) (qw_o_proj m l attended)
      in qw_add m hidden (qwen2_mlp m l (qw_post_norm m l hidden)))"

primrec ref_hidden :: "'v qwen2 \<Rightarrow> dtype \<Rightarrow> nat \<Rightarrow> token list \<Rightarrow> 'v list" where
  "ref_hidden m d 0 ts = map (qw_embed m) ts"
| "ref_hidden m d (Suc l) ts = (let x = ref_hidden m d l ts in map (ref_block m d l x) [0..<length x])"

definition ref_logits :: "'v qwen2 \<Rightarrow> dtype \<Rightarrow> token list \<Rightarrow> 'v" where
  "ref_logits m d ts =
     (let h = qw_norm m (last (ref_hidden m d (qw_layers m) ts))
      in if qw_tied m then qw_as_linear m h else qw_lm_head m h)"

text \<open>The row a position leaves in the cache.\<close>

definition key_row :: "'v qwen2 \<Rightarrow> dtype \<Rightarrow> nat \<Rightarrow> token list \<Rightarrow> 'v" where
  "key_row m d l ts = last (ref_keys m d l (ref_hidden m d l ts))"

definition value_row :: "'v qwen2 \<Rightarrow> dtype \<Rightarrow> nat \<Rightarrow> token list \<Rightarrow> 'v" where
  "value_row m d l ts = last (ref_values m d l (ref_hidden m d l ts))"

lemma length_ref_hidden [simp]: "length (ref_hidden m d l ts) = length ts"
  by (induction l) (simp_all add: Let_def)

lemma length_ref_kv [simp]: "length (ref_keys m d l x) = length x" "length (ref_values m d l x) = length x"
  by (simp_all add: ref_keys_def ref_values_def)

lemma ref_kv_take: "ref_keys m d l (take n x) = take n (ref_keys m d l x)"
  "ref_values m d l (take n x) = take n (ref_values m d l x)"
  by (rule nth_equalityI; simp add: ref_keys_def ref_values_def)+

lemma ref_hidden_take: "ref_hidden m d l (take n ts) = take n (ref_hidden m d l ts)"
proof (induction l)
  case (Suc l)
  show ?case
    by (rule nth_equalityI) (auto simp: Suc.IH Let_def ref_block_def ref_kv_take min_absorb1)
qed (simp add: take_map)

lemma key_row_nth: "i < length ts \<Longrightarrow> ref_keys m d l (ref_hidden m d l ts) ! i = key_row m d l (take (Suc i) ts)"
  by (simp add: key_row_def ref_hidden_take ref_kv_take last_take_Suc)

lemma value_row_nth: "i < length ts \<Longrightarrow> ref_values m d l (ref_hidden m d l ts) ! i = value_row m d l (take (Suc i) ts)"
  by (simp add: value_row_def ref_hidden_take ref_kv_take last_take_Suc)

end
