(* ===== verification/Qwen2Props.thy ===== *)
theory Qwen2Props
  imports Qwen2 Forward
begin

text \<open>
  The cached forward pass computes what the model computes on the whole sequence: for every
  request of a batch, whatever the split of its tokens into cached and new ones, whatever pages its
  rows lie in and whatever it is batched with.
\<close>

subsection \<open>The layers\<close>

text \<open>The state of a forward pass that has gone through the layers before \<open>l\<close>.\<close>

definition pass_ok ::
  "'v qwen2 \<Rightarrow> dtype \<Rightarrow> (nat \<Rightarrow> token list) \<Rightarrow> (nat \<Rightarrow> token list) \<Rightarrow> nat list list \<Rightarrow> 'v kv \<Rightarrow> 'v reservation \<Rightarrow> bool" where
  "pass_ok m d old new positions s r \<longleftrightarrow> kv_wf s \<and> reservation_ok s r \<and> lengths_known s r \<and> kv_dtype s = d \<and>
     (\<forall>i < length (rs_handles r). holds (key_row m d) (value_row m d) s (rs_handles r ! i) (old i) \<and>
        append_lengths r ! i = length (new i) \<and> positions ! i ! 0 = length (old i))"

lemma pass_ok_stage:
  assumes "pass_ok m d old new positions s r" and run: "stage_layer l kt vt r s = (Inr a, r', s')"
  shows "pass_ok m d old new positions s' r'"
proof -
  have p: "kv_wf s" "reservation_ok s r" "lengths_known s r" "kv_dtype s = d"
    and q: "\<And>i. i < length (rs_handles r) \<Longrightarrow> holds (key_row m d) (value_row m d) s (rs_handles r ! i) (old i) \<and>
        append_lengths r ! i = length (new i) \<and> positions ! i ! 0 = length (old i)"
    using assms(1) unfolding pass_ok_def by blast+
  note f = stage_layer_frame [OF run] and e = stage_layer_Inr [OF run]
  have "holds (key_row m d) (value_row m d) s' (rs_handles r ! i) (old i)" if "i < length (rs_handles r)" for i
    using q [OF that] stage_keeps [OF p(1,2) run, of "rs_handles r ! i"] that reservation_okD(4) [OF p(2)]
    by (metis nth_mem subsetD)
  then show ?thesis
    using stage_layer_ok [OF p(1,2) run] stage_layer_lengths [OF run p(3)] p(4) q
    by (simp add: pass_ok_def f e(4))
qed

lemma block_step:
  assumes pass: "pass_ok m d old new positions s r" and sdpa: "\<forall>l. masks_exactly (qw_sdpa m l)"
    and x: "\<And>i j. i < length (rs_handles r) \<Longrightarrow> j < length (new i) \<Longrightarrow>
      x i j = ref_hidden m d l (old i @ new i) ! (length (old i) + j)"
    and run: "qwen2_block m l batch seq x positions (Some ''causal'') r s = (Inr x', r', s')"
  obtains kt vt a where "stage_layer l kt vt r s = (Inr a, r', s')" "staged_rows (key_row m d) (value_row m d) old new s' r' l"
    "\<And>i j. i < length (rs_handles r) \<Longrightarrow> j < length (new i) \<Longrightarrow>
      x' i j = ref_hidden m d (Suc l) (old i @ new i) ! (length (old i) + j)"
proof -
  have p: "kv_wf s" "reservation_ok s r" "lengths_known s r" "kv_dtype s = d"
    and q: "\<And>i. i < length (rs_handles r) \<Longrightarrow> holds (key_row m d) (value_row m d) s (rs_handles r ! i) (old i) \<and>
        append_lengths r ! i = length (new i) \<and> positions ! i ! 0 = length (old i)"
    using pass unfolding pass_ok_def by blast+
  define qs where "qs = \<lparr>t_shape = [batch, qw_heads m, seq, qw_head_dim m], t_dtype = qw_dtype m,
    t_row = (\<lambda>i j. qw_rope m l (positions ! i ! 0 + j) (qw_q_proj m l (qw_input_norm m l (x i j))))\<rparr>"
  define ks where "ks = \<lparr>t_shape = [batch, qw_kv_heads m, seq, qw_head_dim m], t_dtype = qw_dtype m,
    t_row = (\<lambda>i j. qw_rope m l (positions ! i ! 0 + j) (qw_k_proj m l (qw_input_norm m l (x i j))))\<rparr>"
  define vs where "vs = \<lparr>t_shape = [batch, qw_kv_heads m, seq, qw_head_dim m], t_dtype = qw_dtype m,
    t_row = (\<lambda>i j. qw_v_proj m l (qw_input_norm m l (x i j)))\<rparr>"
  obtain out where att: "append_and_attend (qw_sdpa m l) (qw_cast m) (qw_zero m) l qs ks vs (Some ''causal'') None r s = (Inr out, r', s')"
    and x': "x' = (\<lambda>i j. let hidden = qw_add m (x i j) (qw_o_proj m l (out i j))
                       in qw_add m hidden (qwen2_mlp m l (qw_post_norm m l hidden)))"
    using run unfolding qwen2_block_def qwen2_attention_def Let_def qs_def ks_def vs_def
    by (auto split: sum.splits prod.splits)
  define kt where "kt = astype (qw_cast m) d ks"
  define vt where "vt = astype (qw_cast m) d vs"
  obtain a where st: "stage_layer l kt vt r s = (Inr a, r', s')"
    and out: "\<And>i j. i < length (rs_handles r) \<Longrightarrow> j < append_lengths r ! i \<Longrightarrow>
      out i j = (let h = rs_handles r ! i; n = Suc (kv_size s h + j)
        in qw_sdpa m l (t_row qs i j)
             (take n (rows s (key_pages s ! l) h @ map (t_row kt i) [0..<append_lengths r ! i]))
             (take n (rows s (value_pages s ! l) h @ map (t_row vt i) [0..<append_lengths r ! i]))
             (replicate n True))"
    by (rule attend_staged [OF p(1,2,3) sdpa [rule_format] att]) (simp only: kt_def vt_def p(4))
  have lt: "l < num_layers s" using stage_layer_Inr(1) [OF st] reservation_okD(7) [OF p(2)] by simp
  have kv: "t_row kt i j = ref_keys m d l (ref_hidden m d l (old i @ new i)) ! (length (old i) + j)"
    "t_row vt i j = ref_values m d l (ref_hidden m d l (old i @ new i)) ! (length (old i) + j)"
    if "i < length (rs_handles r)" "j < length (new i)" for i j
    using that q [OF that(1)] x [OF that]
    by (simp_all add: kt_def vt_def astype_def ks_def vs_def ref_keys_def ref_values_def Let_def)
  have st_rows: "staged_rows (key_row m d) (value_row m d) old new s' r' l"
    unfolding staged_rows_def
  proof (intro exI conjI allI impI)
    show "staged_as s' r' l kt vt" using stage_layer_ok [OF p(1,2) st] by blast
  next
    fix i j assume "i < length (rs_handles r')" "j < append_lengths r' ! i"
    then have ij: "i < length (rs_handles r)" "j < length (new i)" using q stage_layer_frame [OF st] by auto
    have "take (Suc (length (old i) + j)) (old i @ new i) = old i @ take (Suc j) (new i)" by simp
    then show "t_row kt i j = key_row m d l (old i @ take (Suc j) (new i))"
      "t_row vt i j = value_row m d l (old i @ take (Suc j) (new i))"
      using kv [OF ij] ij(2) key_row_nth [of "length (old i) + j" "old i @ new i" m d l]
        value_row_nth [of "length (old i) + j" "old i @ new i" m d l] by simp_all
  qed
  have all: "rows s (key_pages s ! l) (rs_handles r ! i) @ map (t_row kt i) [0..<append_lengths r ! i] =
      ref_keys m d l (ref_hidden m d l (old i @ new i))"
    "rows s (value_pages s ! l) (rs_handles r ! i) @ map (t_row vt i) [0..<append_lengths r ! i] =
      ref_values m d l (ref_hidden m d l (old i @ new i))" if i: "i < length (rs_handles r)" for i
  proof -
    have h: "holds (key_row m d) (value_row m d) s (rs_handles r ! i) (old i)" "append_lengths r ! i = length (new i)" using q [OF i] by simp_all
    have o: "key_row m d l (take (Suc p) (old i)) = ref_keys m d l (ref_hidden m d l (old i @ new i)) ! p"
      "value_row m d l (take (Suc p) (old i)) = ref_values m d l (ref_hidden m d l (old i @ new i)) ! p"
      if "p < length (old i)" for p
      using that key_row_nth [of p "old i @ new i" m d l] value_row_nth [of p "old i @ new i" m d l] by simp_all
    show "rows s (key_pages s ! l) (rs_handles r ! i) @ map (t_row kt i) [0..<append_lengths r ! i] =
      ref_keys m d l (ref_hidden m d l (old i @ new i))"
      by (rule nth_equalityI)
        (use h(1) lt kv(1) [OF i] o(1) h(2) in \<open>auto simp: holds_def nth_append not_less dest!: le_Suc_ex\<close>)
    show "rows s (value_pages s ! l) (rs_handles r ! i) @ map (t_row vt i) [0..<append_lengths r ! i] =
      ref_values m d l (ref_hidden m d l (old i @ new i))"
      by (rule nth_equalityI)
        (use h(1) lt kv(2) [OF i] o(2) h(2) in \<open>auto simp: holds_def nth_append not_less dest!: le_Suc_ex\<close>)
  qed
  have "x' i j = ref_hidden m d (Suc l) (old i @ new i) ! (length (old i) + j)"
    if ij: "i < length (rs_handles r)" "j < length (new i)" for i j
  proof -
    have sz: "kv_size s (rs_handles r ! i) = length (old i)" "append_lengths r ! i = length (new i)"
      "positions ! i ! 0 = length (old i)" using q [OF ij(1)] by (simp_all add: holds_def)
    have q': "t_row qs i j = qw_rope m l (length (old i) + j)
        (qw_q_proj m l (qw_input_norm m l (ref_hidden m d l (old i @ new i) ! (length (old i) + j))))"
      using sz(3) x [OF ij] by (simp add: qs_def)
    have "j < append_lengths r ! i" using ij(2) sz(2) by simp
    from out [OF ij(1) this] have "out i j = qw_sdpa m l (t_row qs i j)
        (take (Suc (length (old i) + j)) (ref_keys m d l (ref_hidden m d l (old i @ new i))))
        (take (Suc (length (old i) + j)) (ref_values m d l (ref_hidden m d l (old i @ new i))))
        (replicate (Suc (length (old i) + j)) True)"
      unfolding Let_def sz(1) all [OF ij(1)] .
    then show ?thesis using ij(2) x [OF ij] by (simp add: x' q' ref_block_def Let_def)
  qed
  then show ?thesis by (rule that [OF st st_rows])
qed

subsection \<open>The whole pass\<close>

lemma block_pass:
  assumes "kv_wf s" "reservation_ok s r" "qwen2_block m l batch seq x positions mk r s = (res, r', s')"
  shows "pass_frame s r s' r'"
proof -
  have "\<exists>kt vt res1. (r' = r \<and> s' = s) \<or> stage_layer l kt vt r s = (res1, r', s')"
    using assms(3) unfolding qwen2_block_def qwen2_attention_def append_and_attend_def Let_def
    by (auto split: sum.splits prod.splits if_splits option.splits)
  then show ?thesis using stage_layer_pass [OF assms(1,2)] pass_frame_refl [OF assms(1,2)] by blast
qed

lemma blocks_pass:
  assumes "kv_wf s" "reservation_ok s r" "qwen2_blocks m faults ls batch seq x positions mk r s = (res, r', s')"
  shows "pass_frame s r s' r'"
  using assms
proof (induction ls arbitrary: x r s)
  case Nil
  then show ?case using pass_frame_refl by simp
next
  case (Cons l ls)
  show ?case
  proof (cases "faults l")
    case (Some e)
    then show ?thesis using Cons.prems pass_frame_refl by simp
  next
    case None
    obtain y r1 s1 where b: "qwen2_block m l batch seq x positions mk r s = (y, r1, s1)" by (metis surj_pair)
    note one = block_pass [OF Cons.prems(1,2) b]
    show ?thesis
    proof (cases y)
      case (Inl e)
      then show ?thesis using Cons.prems(3) None b one by simp
    next
      case (Inr x1)
      then have "qwen2_blocks m faults ls batch seq x1 positions mk r1 s1 = (res, r', s')"
        using Cons.prems(3) None b by simp
      moreover have "kv_wf s1" "reservation_ok s1 r1" using one by (simp_all add: pass_frame_def)
      ultimately show ?thesis using Cons.IH pass_frame_trans [OF one] by blast
    qed
  qed
qed

lemma blocks_run:
  assumes "pass_ok m d old new positions s r" "\<forall>l. masks_exactly (qw_sdpa m l)"
    and "\<And>i j. i < length (rs_handles r) \<Longrightarrow> j < length (new i) \<Longrightarrow>
      x i j = ref_hidden m d k (old i @ new i) ! (length (old i) + j)"
    and "\<And>l. l < k \<Longrightarrow> staged_rows (key_row m d) (value_row m d) old new s r l"
    and "qwen2_blocks m faults [k..<k + n] batch seq x positions (Some ''causal'') r s = (Inr x', r', s')"
  shows "(\<forall>l < k + n. staged_rows (key_row m d) (value_row m d) old new s' r' l) \<and>
    (\<forall>i < length (rs_handles r). \<forall>j < length (new i).
      x' i j = ref_hidden m d (k + n) (old i @ new i) ! (length (old i) + j))"
  using assms
proof (induction n arbitrary: k x r s)
  case 0
  then show ?case by simp
next
  case (Suc n)
  note pass = Suc.prems(1)
  have p: "kv_wf s" "reservation_ok s r" using pass unfolding pass_ok_def by blast+
  have ls: "[k..<k + Suc n] = k # [Suc k..<Suc k + n]" by (simp add: upt_rec)
  obtain x1 r1 s1 where b: "qwen2_block m k batch seq x positions (Some ''causal'') r s = (Inr x1, r1, s1)"
    and rest: "qwen2_blocks m faults [Suc k..<Suc k + n] batch seq x1 positions (Some ''causal'') r1 s1 = (Inr x', r', s')"
    using Suc.prems(5) unfolding ls by (auto split: option.splits sum.splits prod.splits)
  obtain kt vt a where st: "stage_layer k kt vt r s = (Inr a, r1, s1)" "staged_rows (key_row m d) (value_row m d) old new s1 r1 k"
    "\<And>i j. i < length (rs_handles r) \<Longrightarrow> j < length (new i) \<Longrightarrow>
      x1 i j = ref_hidden m d (Suc k) (old i @ new i) ! (length (old i) + j)"
    using block_step [OF pass Suc.prems(2,3) b] by blast
  have h: "rs_handles r1 = rs_handles r" using stage_layer_frame [OF st(1)] by simp
  have "(\<forall>l < Suc k + n. staged_rows (key_row m d) (value_row m d) old new s' r' l) \<and>
    (\<forall>i < length (rs_handles r1). \<forall>j < length (new i).
      x' i j = ref_hidden m d (Suc k + n) (old i @ new i) ! (length (old i) + j))"
  proof (rule Suc.IH [OF pass_ok_stage [OF pass st(1)] Suc.prems(2) _ _ rest])
    show "x1 i j = ref_hidden m d (Suc k) (old i @ new i) ! (length (old i) + j)"
      if "i < length (rs_handles r1)" "j < length (new i)" for i j
      using st(3) that h by simp
    show "staged_rows (key_row m d) (value_row m d) old new s1 r1 l" if "l < Suc k" for l
      using that st(2) staged_rows_keep [OF p st(1) _ Suc.prems(4)] by (cases "l = k") auto
  qed
  then show ?case using h by simp
qed

subsection \<open>Qwen2 as an architecture model\<close>

abbreviation qwen2_model :: "'v qwen2 \<Rightarrow> (nat \<Rightarrow> exn option) \<Rightarrow> 'v native_model" where
  "qwen2_model m faults \<equiv> (\<lambda>ids positions attention_mask r s. qwen2_call m faults ids positions attention_mask r s)"

definition qwen2_next :: "'v qwen2 \<Rightarrow> dtype \<Rightarrow> ('v \<Rightarrow> token) \<Rightarrow> token list \<Rightarrow> token" where
  "qwen2_next m d argmax ts = argmax (ref_logits m d ts)"

lemma call_pass:
  assumes "kv_wf s" "reservation_ok s r" "qwen2_call m faults ids positions mk r s = (res, r', s')"
  shows "pass_frame s r s' r'"
proof -
  have "(r' = r \<and> s' = s) \<or> (\<exists>x res1. qwen2_blocks m faults [0..<qw_layers m] (length ids) (length (hd ids)) x positions mk r s = (res1, r', s'))"
    using assms(3) unfolding qwen2_call_def qwen2_backbone_def
    by (auto split: sum.splits prod.splits if_splits)
  then show ?thesis using blocks_pass [OF assms(1,2)] pass_frame_refl [OF assms(1,2)] by blast
qed

lemma qwen2_forward:
  assumes sdpa: "\<forall>l. masks_exactly (qw_sdpa m l)"
  shows "forward_model (qwen2_model m faults) argmax (key_row m d) (value_row m d) (qwen2_next m d argmax) (qw_layers m) d"
proof
  show "pass_frame s r s' r'" if "kv_wf s" "reservation_ok s r" "qwen2_call m faults ids positions mk r s = (res, r', s')"
    for s r ids positions mk res r' s' using call_pass [OF that] .
next
  fix s r ids positions old new logits r' s'
  assume wf: "kv_wf s" "reservation_ok s r" "lengths_known s r" "num_layers s = qw_layers m" "kv_dtype s = d"
    and ids: "length ids = length (rs_handles r)"
    and q: "\<And>i. i < length (rs_handles r) \<Longrightarrow> holds (key_row m d) (value_row m d) s (rs_handles r ! i) (old i) \<and>
        append_lengths r ! i = length (new i) \<and> new i \<noteq> [] \<and> take (length (new i)) (ids ! i) = new i \<and>
        positions ! i ! 0 = length (old i)"
    and run: "qwen2_call m faults ids positions (Some ''causal'') r s = (Inr logits, r', s')"
  obtain x' where b: "qwen2_blocks m faults [0..<0 + qw_layers m] (length ids) (length (hd ids))
        (\<lambda>i j. qw_embed m (ids ! i ! j)) positions (Some ''causal'') r s = (Inr x', r', s')"
    and logits: "logits = (\<lambda>i j. if qw_tied m then qw_as_linear m (qw_norm m (x' i j)) else qw_lm_head m (qw_norm m (x' i j)))"
    using run unfolding qwen2_call_def qwen2_backbone_def by (auto split: sum.splits prod.splits if_splits)
  have pass: "pass_ok m d old new positions s r" using wf(1-3,5) q by (simp add: pass_ok_def)
  have x: "qw_embed m (ids ! i ! j) = ref_hidden m d 0 (old i @ new i) ! (length (old i) + j)"
    if "i < length (rs_handles r)" "j < length (new i)" for i j
  proof -
    have "ids ! i ! j = new i ! j" using q [OF that(1)] that(2) by (metis nth_take)
    then show ?thesis using that(2) by (simp add: nth_append)
  qed
  note out = blocks_run [OF pass sdpa x _ b]
  have "argmax (logits i (length (new i) - 1)) = qwen2_next m d argmax (old i @ new i)"
    if i: "i < length (rs_handles r)" for i
  proof -
    have ne: "new i \<noteq> []" using q [OF i] by blast
    then have lt: "length (new i) - 1 < length (new i)" by simp
    then have "x' i (length (new i) - 1) = ref_hidden m d (qw_layers m) (old i @ new i) ! (length (old i) + (length (new i) - 1))"
      using out i by simp
    also have "length (old i) + (length (new i) - 1) = length (ref_hidden m d (qw_layers m) (old i @ new i)) - 1"
      using lt by simp
    also have "ref_hidden m d (qw_layers m) (old i @ new i) ! \<dots> = last (ref_hidden m d (qw_layers m) (old i @ new i))"
      by (rule last_conv_nth [symmetric]) (use lt in \<open>simp add: length_greater_0_conv [symmetric] del: length_greater_0_conv\<close>)
    finally show ?thesis by (simp add: logits qwen2_next_def ref_logits_def Let_def)
  qed
  then show "(\<forall>l < qw_layers m. staged_rows (key_row m d) (value_row m d) old new s' r' l) \<and>
      (\<forall>i < length (rs_handles r). argmax (logits i (length (new i) - 1)) = qwen2_next m d argmax (old i @ new i))"
    using out by simp
qed

text \<open>A kernel that attends to the keys its mask keeps, and to something else if it keeps none
  (in a row of padding).\<close>

definition masked_sdpa ::
  "('v \<Rightarrow> 'v list \<Rightarrow> 'v list \<Rightarrow> 'v) \<Rightarrow> ('v \<Rightarrow> 'v list \<Rightarrow> 'v list \<Rightarrow> 'v) \<Rightarrow> 'v \<Rightarrow> 'v list \<Rightarrow> 'v list \<Rightarrow> bool list \<Rightarrow> 'v" where
  "masked_sdpa core blank q ks vs keep =
     (if True \<in> set keep then core q (kept_rows keep ks) (kept_rows keep vs) else blank q ks vs)"

lemma kept_all: "length xs = n \<Longrightarrow> kept_rows (replicate n True) xs = xs"
  using kept_prefix [of n xs "replicate n True"] by simp

lemma kept_lengths: "length ks = length keep \<Longrightarrow> length vs = length keep \<Longrightarrow> length (kept_rows keep ks) = length (kept_rows keep vs)"
  by (induction keep arbitrary: ks vs) (auto simp: kept_rows_def length_Suc_conv)

lemma kept_some: "True \<in> set keep \<Longrightarrow> length ks = length keep \<Longrightarrow> kept_rows keep ks \<noteq> []"
  by (induction keep arbitrary: ks) (auto simp: kept_rows_def length_Suc_conv split: if_splits)

lemma masked_sdpa_exact: "masks_exactly (masked_sdpa core blank)"
  unfolding masks_exactly_def
proof (intro allI impI)
  fix q :: 'a and ks vs :: "'a list" and keep
  assume a: "True \<in> set keep" "length ks = length keep" "length vs = length keep"
  then show "masked_sdpa core blank q ks vs keep =
      masked_sdpa core blank q (kept_rows keep ks) (kept_rows keep vs) (replicate (length (kept_rows keep ks)) True)"
    using kept_lengths [OF a(2,3)] kept_some [OF a(1,2)] kept_some [OF a(1,3)] by (simp add: masked_sdpa_def kept_all)
qed

interpretation qwen2: forward_model "qwen2_model (m\<lparr>qw_sdpa := (\<lambda>l. masked_sdpa (core l) (blank l))\<rparr>) faults" argmax
    "key_row (m\<lparr>qw_sdpa := (\<lambda>l. masked_sdpa (core l) (blank l))\<rparr>) d" "value_row (m\<lparr>qw_sdpa := (\<lambda>l. masked_sdpa (core l) (blank l))\<rparr>) d"
    "qwen2_next (m\<lparr>qw_sdpa := (\<lambda>l. masked_sdpa (core l) (blank l))\<rparr>) d argmax" "qw_layers (m\<lparr>qw_sdpa := (\<lambda>l. masked_sdpa (core l) (blank l))\<rparr>)" d
  for m core blank faults argmax d
  by (rule qwen2_forward) (simp add: masked_sdpa_exact)

end
