(* ===== verification/ModelProps.thy ===== *)
theory ModelProps
  imports ExecProps Qwen2Props PagedProps
begin

text \<open>
  The properties of generation: executor, Qwen2 forward pass and paged pool together.
\<close>

text \<open>What an architecture gets from the executor and the paged pool.\<close>

lemma forward_batch_generates:
  assumes "forward_model model argmax krow vrow next_token layers d" and "paged_idle layers d s"
    and "\<forall>q \<in> set requests. \<forall>h \<in> set (live s). er_cache_handle q = Some h \<longrightarrow> holds krow vrow s h (ctx h)"
    and "execute_batch model argmax fault requests s = (res, s')"
  shows "paged_idle (layers) d s' \<and> live s' = live s \<and>
    (case res of
       Inl e \<Rightarrow> paged_view s' = paged_view s
     | Inr st \<Rightarrow> length (st_results st) = length requests \<and>
         (\<exists>executed \<subseteq> {..<length requests}.
            (\<forall>i \<in> executed. \<exists>h. er_cache_handle (requests ! i) = Some h \<and> h \<in> set (live s) \<and>
               st_results st ! i = step_done (requests ! i) (length (ctx h @ er_token_ids (requests ! i)))
                 (next_token (ctx h @ er_token_ids (requests ! i))) \<and>
               holds krow vrow s' h (ctx h @ er_token_ids (requests ! i))) \<and>
            (\<forall>i < length requests. i \<notin> executed \<longrightarrow>
               sr_request_id (st_results st ! i) = er_request_id (requests ! i) \<and> sr_error_code (st_results st ! i) \<noteq> None) \<and>
            (\<forall>h. (\<forall>i \<in> executed. er_cache_handle (requests ! i) \<noteq> Some h) \<longrightarrow> paged_view s' h = paged_view s h)))"
proof -
  note rule = forward_model.execute_rule [OF assms]
  show ?thesis
  proof (cases res)
    case (Inl e)
    then show ?thesis using rule by simp
  next
    case (Inr st)
    then obtain kept where K: "results_ok next_token ctx requests kept (st_results st)"
      "\<forall>(q, i, h) \<in> set kept. h \<in> set (live s) \<and> rc_request_id (objs s h) = er_request_id q \<and>
            holds krow vrow s' h (ctx h @ er_token_ids q)"
      "\<forall>h. h \<notin> set (map (\<lambda>(q, i, h). h) kept) \<longrightarrow> paged_view s' h = paged_view s h"
      using rule by auto
    note R = K(1) [unfolded results_ok_def]
    let ?ex = "set (map (\<lambda>(q, i, h). i) kept)"
    have each: "i < length requests \<and> q = requests ! i \<and> er_cache_handle q = Some h \<and>
        st_results st ! i = step_done q (length (ctx h @ er_token_ids q)) (next_token (ctx h @ er_token_ids q))"
      if "(q, i, h) \<in> set kept" for q i h
      using R that by fastforce
    have hs: "h \<notin> set (map (\<lambda>(q, i, h). h) kept)"
      if no: "\<forall>i \<in> ?ex. er_cache_handle (requests ! i) \<noteq> Some h" for h
      using each no by fastforce
    have "?ex \<subseteq> {..<length requests}" using each by auto
    moreover have "\<exists>h. er_cache_handle (requests ! i) = Some h \<and> h \<in> set (live s) \<and>
               st_results st ! i = step_done (requests ! i) (length (ctx h @ er_token_ids (requests ! i)))
                 (next_token (ctx h @ er_token_ids (requests ! i))) \<and>
               holds krow vrow s' h (ctx h @ er_token_ids (requests ! i))" if "i \<in> ?ex" for i
      using that each K(2) by fastforce
    moreover have "sr_request_id (st_results st ! i) = er_request_id (requests ! i) \<and> sr_error_code (st_results st ! i) \<noteq> None"
      if "i < length requests" "i \<notin> ?ex" for i using R that by blast
    moreover have "paged_view s' h = paged_view s h" if "\<forall>i \<in> ?ex. er_cache_handle (requests ! i) \<noteq> Some h" for h
      using K(3) hs [OF that] by blast
    ultimately have "\<exists>executed \<subseteq> {..<length requests}.
            (\<forall>i \<in> executed. \<exists>h. er_cache_handle (requests ! i) = Some h \<and> h \<in> set (live s) \<and>
               st_results st ! i = step_done (requests ! i) (length (ctx h @ er_token_ids (requests ! i)))
                 (next_token (ctx h @ er_token_ids (requests ! i))) \<and>
               holds krow vrow s' h (ctx h @ er_token_ids (requests ! i))) \<and>
            (\<forall>i < length requests. i \<notin> executed \<longrightarrow>
               sr_request_id (st_results st ! i) = er_request_id (requests ! i) \<and> sr_error_code (st_results st ! i) \<noteq> None) \<and>
            (\<forall>h. (\<forall>i \<in> executed. er_cache_handle (requests ! i) \<noteq> Some h) \<longrightarrow> paged_view s' h = paged_view s h)"
      by (intro exI [of _ ?ex]) (simp del: set_map)
    then show ?thesis using rule R unfolding Inr sum.case by blast
  qed
qed

text \<open>C7: Batched, paged, chunked generation computes what the model computes on each sequence
  alone.  Take an idle pool and a batch in which every request whose handle is live has the model's
  rows for the tokens \<open>ctx h\<close> in its cache.  Whatever the executor does with the batch, the pool is
  idle again afterwards with the same requests in it.  If it raises, no request's content changes.
  If it returns, there is one result per request, in order; a request the checks or the pool refuse
  has an error; every other request has its cache extended by its tokens, its new length, and as next
  token the argmax of the logits that the model without a cache gives for the whole sequence; and no other
  request's content changes.  The kernel's contract is that a masked key has no influence.\<close>

theorem qwen2_batch_generates:
  assumes "\<forall>l. masks_exactly (qw_sdpa m l)" and "paged_idle (qw_layers m) d s"
    and "\<forall>q \<in> set requests. \<forall>h \<in> set (live s). er_cache_handle q = Some h \<longrightarrow>
      holds (key_row m d) (value_row m d) s h (ctx h)"
    and "execute_batch (qwen2_model m faults) argmax fault requests s = (res, s')"
  shows "paged_idle (qw_layers m) d s' \<and> live s' = live s \<and>
    (case res of
       Inl e \<Rightarrow> paged_view s' = paged_view s
     | Inr st \<Rightarrow> length (st_results st) = length requests \<and>
         (\<exists>executed \<subseteq> {..<length requests}.
            (\<forall>i \<in> executed. \<exists>h. er_cache_handle (requests ! i) = Some h \<and> h \<in> set (live s) \<and>
               st_results st ! i = step_done (requests ! i) (length (ctx h @ er_token_ids (requests ! i)))
                 (argmax (ref_logits m d (ctx h @ er_token_ids (requests ! i)))) \<and>
               holds (key_row m d) (value_row m d) s' h (ctx h @ er_token_ids (requests ! i))) \<and>
            (\<forall>i < length requests. i \<notin> executed \<longrightarrow>
               sr_request_id (st_results st ! i) = er_request_id (requests ! i) \<and> sr_error_code (st_results st ! i) \<noteq> None) \<and>
            (\<forall>h. (\<forall>i \<in> executed. er_cache_handle (requests ! i) \<noteq> Some h) \<longrightarrow> paged_view s' h = paged_view s h)))"
  by (rule forward_batch_generates [OF qwen2_forward [OF assms(1)] assms(2-4), unfolded qwen2_next_def])

text \<open>A model of one layer and one head over the naturals.\<close>

definition toy_model :: "nat qwen2" where
  "toy_model = \<lparr>qw_heads = 1, qw_kv_heads = 1, qw_head_dim = 1, qw_layers = 1, qw_tied = True, qw_dtype = Float16,
     qw_embed = (\<lambda>t. nat t), qw_input_norm = (\<lambda>l x. x), qw_q_proj = (\<lambda>l x. x), qw_k_proj = (\<lambda>l x. 2 * x),
     qw_v_proj = (\<lambda>l x. 3 * x), qw_o_proj = (\<lambda>l x. x), qw_rope = (\<lambda>l p x. p + x),
     qw_sdpa = (\<lambda>l. masked_sdpa (\<lambda>q ks vs. q + sum_list ks + sum_list vs) (\<lambda>q ks vs. 0)),
     qw_cast = (\<lambda>_ x. x), qw_zero = 0, qw_add = (+), qw_post_norm = (\<lambda>l x. x), qw_gate_proj = (\<lambda>l x. x),
     qw_up_proj = (\<lambda>l x. x), qw_down_proj = (\<lambda>l x. x), qw_silu = (\<lambda>x. x), qw_mul = (+), qw_norm = (\<lambda>x. x),
     qw_as_linear = (\<lambda>x. x), qw_lm_head = (\<lambda>x. x)\<rparr>"

definition toy_request :: execution_request where
  "toy_request = \<lparr>er_request_id = ''r'', er_phase = Prefill, er_token_ids = [3, 4], er_positions = [0, 1],
     er_cache_handle = Some sample_handle, er_sampling = \<lparr>temperature = 0, top_p = 1\<rparr>\<rparr>"

lemma toy_run:
  "fst (execute_batch (qwen2_model toy_model (\<lambda>_. None)) int None [toy_request] sample_pool) =
     Inr \<lparr>st_forward_mode = PREFILL, st_results = [step_done toy_request 2 135], st_physical_batch_size = 1, st_model_forward_count = 1\<rparr>"
  by code_simp

theorem qwen2_batch_generates_witness:
  "\<exists>s'. execute_batch (qwen2_model toy_model (\<lambda>_. None)) int None [toy_request] sample_pool =
      (Inr \<lparr>st_forward_mode = PREFILL, st_results = [step_done toy_request 2 135], st_physical_batch_size = 1, st_model_forward_count = 1\<rparr>, s') \<and>
    holds (key_row toy_model Float16) (value_row toy_model Float16) s' sample_handle [3, 4] \<and>
    int (ref_logits toy_model Float16 [3, 4]) = 135"
proof -
  obtain s' where run: "execute_batch (qwen2_model toy_model (\<lambda>_. None)) int None [toy_request] sample_pool =
      (Inr \<lparr>st_forward_mode = PREFILL, st_results = [step_done toy_request 2 135], st_physical_batch_size = 1, st_model_forward_count = 1\<rparr>, s')"
    using toy_run by (metis prod.collapse)
  have sdpa: "\<forall>l. masks_exactly (qw_sdpa toy_model l)" by (simp add: toy_model_def masked_sdpa_exact)
  have idle: "paged_idle (qw_layers toy_model) Float16 sample_pool"
    using sample_pool_ok by (simp add: paged_idle_def toy_model_def sample_pool_state)
  have ctx: "\<forall>q \<in> set [toy_request]. \<forall>h \<in> set (live sample_pool). er_cache_handle q = Some h \<longrightarrow>
      holds (key_row toy_model Float16) (value_row toy_model Float16) sample_pool h []"
    by (simp add: toy_request_def holds_def sample_pool_state rows_def)
  note T = qwen2_batch_generates [OF sdpa idle ctx run, simplified, THEN conjunct2, THEN conjunct2]
  then have "\<exists>h. er_cache_handle toy_request = Some h \<and>
      step_done toy_request 2 135 = step_done toy_request (length (er_token_ids toy_request))
        (int (ref_logits toy_model Float16 (er_token_ids toy_request))) \<and>
      holds (key_row toy_model Float16) (value_row toy_model Float16) s' h (er_token_ids toy_request)"
    by (fastforce simp: step_done_def)
  then show ?thesis using run by (auto simp: toy_request_def step_done_def)
qed

end
