(* ===== verification/Worker.thy ===== *)
theory Worker
  imports Runtime
begin

text \<open>
  The command loop of the native worker, \<^verbatim>\<open>run_native_worker\<close> in
  \<^verbatim>\<open>native_mlx/worker.py\<close>, after the runtime is built and warmed up: lines are read from
  the gateway's socket, decoded and handled, and while the runtime has work it is ticked and its events
  are sent.  The decoder is an argument (\<^verbatim>\<open>decode_command\<close>, modelled in theory Ipc, on
  frames whose fields have the declared types); bytes are characters.  What is sent is the list of
  events, before \<^verbatim>\<open>encode_event\<close>.
\<close>

subsection \<open>Reading lines\<close>

text \<open>What the socket does next: \<open>Silence\<close> is a poll that finds nothing to read, \<open>Chunk\<close> what one
  \<^verbatim>\<open>recv\<close> returns; at the end of the list the peer has closed the connection.\<close>

datatype arrival = Silence | Chunk string

fun read_line :: "bool \<Rightarrow> arrival list \<Rightarrow> string \<Rightarrow> string option \<times> arrival list \<times> string" where
  "read_line block sock buffer =
     (if char_of (10 :: nat) \<in> set buffer then
        (let before = takeWhile (\<lambda>c. c \<noteq> char_of (10 :: nat)) buffer
         in (Some (before @ [char_of (10 :: nat)]), sock, drop (Suc (length before)) buffer))
      else
        (case sock of
           [] \<Rightarrow> (Some [], [], buffer)
         | Silence # rest \<Rightarrow> if block then read_line block rest buffer else (None, rest, buffer)
         | Chunk chunk # rest \<Rightarrow>
             if chunk = [] then (Some [], rest, buffer) else read_line False rest (buffer @ chunk)))"

declare read_line.simps [simp del]

fun bytes_left :: "arrival list \<Rightarrow> string" where
  "bytes_left [] = []"
| "bytes_left (Silence # rest) = bytes_left rest"
| "bytes_left (Chunk chunk # rest) = chunk @ bytes_left rest"

definition input_size :: "arrival list \<Rightarrow> string \<Rightarrow> nat" where
  "input_size sock buffer = length sock + length (buffer @ bytes_left sock)"

definition unbroken :: "string \<Rightarrow> bool" where
  "unbroken s \<longleftrightarrow> char_of (10 :: nat) \<notin> set s"

lemma read_line_ready:
  "\<not> unbroken buffer \<Longrightarrow> read_line block sock buffer =
     (Some (takeWhile (\<lambda>c. c \<noteq> char_of (10 :: nat)) buffer @ [char_of (10 :: nat)]), sock,
      drop (Suc (length (takeWhile (\<lambda>c. c \<noteq> char_of (10 :: nat)) buffer))) buffer)"
  by (simp add: unbroken_def read_line.simps [of block] Let_def)

lemma read_line_arrivals:
  assumes "unbroken buffer"
  shows "read_line block [] buffer = (Some [], [], buffer)"
    "read_line True (Silence # rest) buffer = read_line True rest buffer"
    "read_line False (Silence # rest) buffer = (None, rest, buffer)"
    "read_line block (Chunk chunk # rest) buffer =
       (if chunk = [] then (Some [], rest, buffer) else read_line False rest (buffer @ chunk))"
  using assms by (simp_all add: unbroken_def read_line.simps [of _ _ buffer])

lemma read_line_progress:
  "read_line block sock buffer = (r, sock', buffer') \<Longrightarrow> r \<noteq> Some [] \<Longrightarrow>
     input_size sock' buffer' < input_size sock buffer"
proof (induction sock arbitrary: block buffer)
  case Nil
  show ?case
  proof (cases "unbroken buffer")
    case False
    then show ?thesis using Nil by (cases buffer) (auto simp: read_line_ready input_size_def unbroken_def)
  qed (use Nil in \<open>simp add: read_line_arrivals\<close>)
next
  case (Cons a rest)
  show ?case
  proof (cases "unbroken buffer")
    case False
    then show ?thesis using Cons.prems by (cases buffer) (auto simp: read_line_ready input_size_def unbroken_def)
  next
    case True
    note arrive = read_line_arrivals [OF True]
    show ?thesis
    proof (cases a)
      case Silence
      show ?thesis
      proof (cases block)
        case True
        then have "input_size sock' buffer' < input_size rest buffer"
          using Cons.IH [of True buffer] Cons.prems Silence arrive(2) by simp
        then show ?thesis by (simp add: Silence input_size_def)
      qed (use Cons.prems Silence arrive(3) in \<open>simp add: input_size_def\<close>)
    next
      case (Chunk chunk)
      then show ?thesis
        using Cons.IH [of False "buffer @ chunk"] Cons.prems arrive(4) [of block chunk rest]
        by (auto simp: input_size_def split: if_splits)
    qed
  qed
qed

text \<open>The inner loop: the lines of one round, and whether the connection is closed.\<close>

function read_round :: "bool \<Rightarrow> arrival list \<Rightarrow> string \<Rightarrow> string list \<times> bool \<times> arrival list \<times> string" where
  "read_round block sock buffer =
     (case read_line block sock buffer of
        (None, sock', buffer') \<Rightarrow> ([], False, sock', buffer')
      | (Some raw, sock', buffer') \<Rightarrow>
          if raw = [] then ([], True, sock', buffer')
          else (case read_round False sock' buffer' of (lines, ended) \<Rightarrow> (raw # lines, ended)))"
  by pat_completeness auto

termination
  by (relation "measure (\<lambda>(block, sock, buffer). input_size sock buffer)")
    (auto dest: read_line_progress [OF sym])

declare read_round.simps [simp del]

lemma read_round_progress:
  "read_round block sock buffer = (lines, False, sock', buffer') \<Longrightarrow> input_size sock' buffer' < input_size sock buffer"
proof (induction block sock buffer arbitrary: lines sock' buffer' rule: read_round.induct)
  case (1 block sock buffer)
  obtain r s1 b1 where one: "read_line block sock buffer = (r, s1, b1)" by (metis prod_cases3)
  show ?case
  proof (cases r)
    case None
    then show ?thesis using 1(2) one read_line_progress [OF one] by (simp add: read_round.simps [of block])
  next
    case (Some raw)
    show ?thesis
    proof (cases "raw = []")
      case True
      then show ?thesis using 1(2) one Some by (simp add: read_round.simps [of block])
    next
      case False
      obtain ls rest where rec: "read_round False s1 b1 = (ls, rest)" by (metis surj_pair)
      then have "rest = (False, sock', buffer')" using 1(2) one Some False by (simp add: read_round.simps [of block])
      with rec have "input_size sock' buffer' < input_size s1 b1"
        using 1(1) [OF one [symmetric] Some refl False] by simp
      then show ?thesis using read_line_progress [OF one] Some False by simp
    qed
  qed
qed

subsection \<open>Commands\<close>

datatype worker_command = WorkerChat text_request | WorkerCancel string | WorkerReset string bool bool

fun command_request :: "worker_command \<Rightarrow> string" where
  "command_request (WorkerChat q) = tr_request_id q"
| "command_request (WorkerCancel rid) = rid"
| "command_request (WorkerReset rid clear_cache reset_counters) = rid"

datatype worker_output = Sent runtime_event | ResetDone string

text \<open>\<open>wk_last\<close> is the local variable \<^verbatim>\<open>command\<close>, which lives as long as the loop;
  \<open>None\<close> is unbound, or \<^verbatim>\<open>None\<close>.\<close>

record ('d, 'c, 'f) worker =
  wk_runtime :: "('d, 'c, 'f) runtime"
  wk_last :: "worker_command option"

definition command_error :: "worker_command option \<Rightarrow> exn \<Rightarrow> worker_output" where
  "command_error command e = Sent (RtError
     (case command of None \<Rightarrow> ''unknown'' | Some c \<Rightarrow> command_request c)
     (case command of Some (WorkerReset _ _ _) \<Rightarrow> ''BENCHMARK_BUSY'' | _ \<Rightarrow> ''INVALID_REQUEST'')
     (exn_str e))"

definition run_command ::
  "'d tokenizer \<Rightarrow> ('c, 'p, 'f) backend \<Rightarrow> worker_command \<Rightarrow> ('d, 'c, 'f) runtime \<Rightarrow>
     (exn + worker_output list) \<times> ('d, 'c, 'f) runtime" where
  "run_command tk bk c rt =
     (case c of
        WorkerCancel rid \<Rightarrow> (case runtime_cancel rid rt of (_, rt') \<Rightarrow> (Inr [], rt'))
      | WorkerReset rid clear_cache reset_counters \<Rightarrow>
          if \<not> runtime_idle rt then (Inl (RuntimeError ''benchmark reset requires an idle scheduler''), rt)
          else bind_err (runtime_reset bk clear_cache reset_counters) (\<lambda>_ rt'. (Inr [ResetDone rid], rt')) rt
      | WorkerChat q \<Rightarrow> bind_err (runtime_submit tk q) (\<lambda>_ rt'. (Inr [], rt')) rt)"

definition handle_line ::
  "'d tokenizer \<Rightarrow> ('c, 'p, 'f) backend \<Rightarrow> exn + worker_command option \<Rightarrow> ('d, 'c, 'f) worker \<Rightarrow>
     worker_output list \<times> ('d, 'c, 'f) worker" where
  "handle_line tk bk decoded wk =
     (case decoded of
        Inl e \<Rightarrow> ([command_error (wk_last wk) e], wk)
      | Inr command \<Rightarrow>
          (let wk1 = wk\<lparr>wk_last := command\<rparr>
           in case command of
                None \<Rightarrow> ([command_error None (ValueError ''unsupported worker command'')], wk1)
              | Some c \<Rightarrow>
                  (case run_command tk bk c (wk_runtime wk1) of
                     (Inl e, rt') \<Rightarrow> ([command_error command e], wk1\<lparr>wk_runtime := rt'\<rparr>)
                   | (Inr sent, rt') \<Rightarrow> (sent, wk1\<lparr>wk_runtime := rt'\<rparr>))))"

fun handle_lines ::
  "'d tokenizer \<Rightarrow> ('c, 'p, 'f) backend \<Rightarrow> (exn + worker_command option) list \<Rightarrow> ('d, 'c, 'f) worker \<Rightarrow>
     worker_output list \<times> ('d, 'c, 'f) worker" where
  "handle_lines tk bk [] wk = ([], wk)"
| "handle_lines tk bk (decoded # rest) wk =
     (let (sent, wk1) = handle_line tk bk decoded wk; (sent', wk2) = handle_lines tk bk rest wk1
      in (sent @ sent', wk2))"

text \<open>One round: the lines of the round, then a tick if there is work.\<close>

definition worker_round ::
  "'d tokenizer \<Rightarrow> ('c, 'p, 'f) backend \<Rightarrow> (exn + worker_command option) list \<Rightarrow> ('d, 'c, 'f) worker \<Rightarrow>
     worker_output list \<times> exn option \<times> ('d, 'c, 'f) worker" where
  "worker_round tk bk decoded wk =
     (let (sent, wk1) = handle_lines tk bk decoded wk
      in if runtime_idle (wk_runtime wk1) then (sent, None, wk1)
         else
           (case runtime_tick tk bk (wk_runtime wk1) of
              (Inl e, rt') \<Rightarrow> (sent, Some e, wk1\<lparr>wk_runtime := rt'\<rparr>)
            | (Inr evs, rt') \<Rightarrow> (sent @ map Sent evs, None, wk1\<lparr>wk_runtime := rt'\<rparr>)))"

text \<open>The loop: it ends when the peer closes the connection, or with the exception a tick raises.\<close>

function worker_loop ::
  "'d tokenizer \<Rightarrow> ('c, 'p, 'f) backend \<Rightarrow> (string \<Rightarrow> exn + worker_command option) \<Rightarrow> arrival list \<Rightarrow> string \<Rightarrow>
     ('d, 'c, 'f) worker \<Rightarrow> worker_output list \<times> (exn + unit) \<times> ('d, 'c, 'f) worker" where
  "worker_loop tk bk dec sock buffer wk =
     (case read_round (runtime_idle (wk_runtime wk)) sock buffer of
        (lines, ended, sock', buffer') \<Rightarrow>
          if ended then
            (let (sent, wk1) = handle_lines tk bk (map dec lines) wk
             in case runtime_close bk (wk_runtime wk1) of (res, rt') \<Rightarrow> (sent, res, wk1\<lparr>wk_runtime := rt'\<rparr>))
          else
            (case worker_round tk bk (map dec lines) wk of
               (sent, Some e, wk1) \<Rightarrow> (sent, Inl e, wk1)
             | (sent, None, wk1) \<Rightarrow>
                 (case worker_loop tk bk dec sock' buffer' wk1 of (sent', rest) \<Rightarrow> (sent @ sent', rest))))"
  by pat_completeness auto

termination
  by (relation "measure (\<lambda>(tk, bk, dec, sock, buffer, wk). input_size sock buffer)")
    (auto dest: read_round_progress [OF sym])

declare worker_loop.simps [simp del]

end
