(* ===== verification/Serving.thy ===== *)
theory Serving
  imports ModelProps PrefixSamples Worker
begin

text \<open>
  The backend the worker is composed of: a cache coordinator with one of the prefix indexes over the paged
  pool, and the executor on the same pool (\<^verbatim>\<open>create_native_worker\<close> in
  \<^verbatim>\<open>native_mlx/worker.py\<close>).  \<open>faults\<close> says in which batches the device raises.
\<close>

definition on_kv :: "('s \<Rightarrow> 'a \<times> 's) \<Rightarrow> 'i \<times> 's \<Rightarrow> 'a \<times> 'i \<times> 's" where
  "on_kv f c = (case f (snd c) of (r, s) \<Rightarrow> (r, fst c, s))"

definition native_backend ::
  "('i, 'v kv) prefix_ops \<Rightarrow> 'v native_model \<Rightarrow> ('v \<Rightarrow> token) \<Rightarrow> (execution_request list \<Rightarrow> exn option) \<Rightarrow>
     ('i \<times> 'v kv, prepared_step, 'v in_flight_step) backend" where
  "native_backend px model argmax faults =
     \<lparr>bk_probe = coord_probe px, bk_acquire = coord_acquire paged_ops px, bk_publish = coord_publish px,
      bk_release = coord_release paged_ops px, bk_reset = coord_reset paged_ops px,
      bk_execute_batch = (\<lambda>requests. on_kv (execute_batch model argmax (faults requests) requests)),
      bk_prepare_batch = (\<lambda>requests. on_kv (prepare_batch requests)),
      bk_has_work = (\<lambda>p. pr_layout p \<noteq> None),
      bk_execute_prepared = (\<lambda>p. on_kv (execute_prepared model argmax (faults (pr_requests p)) p)),
      bk_execute_prepared_serial = (\<lambda>p. on_kv (execute_prepared model argmax (faults (pr_requests p)) p)),
      bk_dispatch_batch = (\<lambda>p. on_kv (dispatch_batch model argmax p)),
      bk_resolve_batch = (\<lambda>f. on_kv (resolve_batch (faults (pr_requests (fl_prepared f))) f)),
      bk_discard_batch = (\<lambda>f. on_kv (discard_batch (faults (pr_requests (fl_prepared f))) f))\<rparr>"

subsection \<open>A worker over the sample model\<close>

text \<open>Tokens are characters; the detokenizer lags one token behind: its state is the last segment and
  the text it still holds.\<close>

definition toy_tokenizer :: "(string \<times> string) tokenizer" where
  "toy_tokenizer = \<lparr>tk_template = (\<lambda>messages. Inr (concat (map (\<lambda>(role, s). map (\<lambda>c. int (of_char c)) s) messages))),
     tk_detokenizer = Some ([], []), tk_add = (\<lambda>tok d. (snd d, [char_of (nat tok)])),
     tk_segment = fst, tk_finalize = (\<lambda>d. (snd d, [])), tk_decode = map (\<lambda>tok. char_of (nat tok))\<rparr>"

definition toy_backend :: "(unit \<times> nat kv, prepared_step, nat in_flight_step) backend" where
  "toy_backend = native_backend (no_prefix paged_ops) (qwen2_model toy_model (\<lambda>_. None)) (\<lambda>v. int (v mod 26 + 97)) (\<lambda>_. None)"

definition toy_pool :: "nat kv" where
  "toy_pool = (case kv_init 1 1 1 8 96 Float16 0 sample_hex of Inr s \<Rightarrow> s)"

definition toy_runtime :: "(string \<times> string, unit \<times> nat kv, nat in_flight_step) runtime" where
  "toy_runtime = \<lparr>rt_scheduler = (case new_scheduler 4 256 True ''fcfs'' ''serial'' [] ((), toy_pool) of Inr sc \<Rightarrow> sc),
     rt_model_ref = ''m'', rt_eos = [], rt_requests = [], rt_cancellations = 0, rt_errors = 0\<rparr>"

definition toy_text_request :: "string \<Rightarrow> string \<Rightarrow> int \<Rightarrow> text_request" where
  "toy_text_request rid prompt limit = \<lparr>tr_request_id = rid, tr_model = ''m'',
     tr_messages = [\<lparr>cm_role = JStr ''user'', cm_content = PlainText prompt\<rparr>], tr_max_tokens = limit,
     tr_temperature = 0, tr_top_p = 1, tr_max_prompt_tokens = 64, tr_max_completion_tokens = 64,
     tr_max_total_tokens = 128, tr_stop = [], tr_stream = True\<rparr>"

definition toy_worker :: "(string \<times> string, unit \<times> nat kv, nat in_flight_step) worker" where
  "toy_worker = \<lparr>wk_runtime = toy_runtime, wk_last = None\<rparr>"

definition toy_accepted :: "(string \<times> string, unit \<times> nat kv, nat in_flight_step) runtime" where
  "toy_accepted = snd (runtime_submit toy_tokenizer (toy_text_request ''q'' ''ab'' 2) toy_runtime)"

lemma toy_accepted_run: "runtime_submit toy_tokenizer (toy_text_request ''q'' ''ab'' 2) toy_runtime = (Inr (), toy_accepted)"
proof -
  have "fst (runtime_submit toy_tokenizer (toy_text_request ''q'' ''ab'' 2) toy_runtime) = Inr ()" by code_simp
  then show ?thesis by (simp add: toy_accepted_def prod_eq_iff)
qed

end
