(* ===== verification/WorkerProps.thy ===== *)
theory WorkerProps
  imports RuntimeProps Serving
begin

text \<open>
  The properties of the native worker's command loop and of the request lifecycle behind it: framing, the
  events a client sees of a request.
\<close>

subsection \<open>Framing\<close>

lemma takeWhile_line:
  assumes "\<not> unbroken buffer"
  shows "unbroken (takeWhile (\<lambda>c. c \<noteq> char_of (10 :: nat)) buffer)"
    "takeWhile (\<lambda>c. c \<noteq> char_of (10 :: nat)) buffer @ char_of (10 :: nat) #
       drop (Suc (length (takeWhile (\<lambda>c. c \<noteq> char_of (10 :: nat)) buffer))) buffer = buffer"
  using assms by (induction buffer) (auto simp: unbroken_def dest: set_takeWhileD)

text \<open>C28: Framing does not depend on how the stream is cut into packets or on when it is polled.
  Whatever \<open>_read_line\<close> returns: a line is everything up to and including the first newline of the bytes not
  yet read, and what follows it stays; a poll that finds nothing loses nothing; and end of file is reported only when
  no complete line is left (what an unterminated last line held is dropped with the buffer).\<close>

theorem read_line_frames:
  assumes "Chunk [] \<notin> set sock" "read_line block sock buffer = (r, sock', buffer')"
  shows "case r of
      None \<Rightarrow> buffer' @ bytes_left sock' = buffer @ bytes_left sock
    | Some line \<Rightarrow>
        (if line = [] then unbroken (buffer @ bytes_left sock) \<and> sock' = []
         else (\<exists>body. unbroken body \<and> line = body @ [char_of (10 :: nat)] \<and>
           buffer @ bytes_left sock = line @ buffer' @ bytes_left sock'))"
  using assms
proof (induction sock arbitrary: block buffer)
  case Nil
  show ?case
  proof (cases "unbroken buffer")
    case True
    then show ?thesis using Nil by (auto simp: read_line_arrivals)
  next
    case False
    then show ?thesis using Nil takeWhile_line [OF False] by (auto simp: read_line_ready)
  qed
next
  case (Cons a rest)
  show ?case
  proof (cases "unbroken buffer")
    case False
    then have "r = Some (takeWhile (\<lambda>c. c \<noteq> char_of (10 :: nat)) buffer @ [char_of (10 :: nat)])" "sock' = a # rest"
      "buffer' = drop (Suc (length (takeWhile (\<lambda>c. c \<noteq> char_of (10 :: nat)) buffer))) buffer"
      using Cons.prems by (simp_all add: read_line_ready)
    moreover have "buffer @ bytes_left (a # rest) =
        (takeWhile (\<lambda>c. c \<noteq> char_of (10 :: nat)) buffer @ [char_of (10 :: nat)]) @
        drop (Suc (length (takeWhile (\<lambda>c. c \<noteq> char_of (10 :: nat)) buffer))) buffer @ bytes_left (a # rest)"
      using takeWhile_line(2) [OF False] by (metis append.assoc append_Cons append_Nil)
    ultimately show ?thesis using takeWhile_line(1) [OF False] by auto
  next
    case True
    note arrive = read_line_arrivals [OF True]
    have rest: "Chunk [] \<notin> set rest" using Cons.prems by simp
    show ?thesis
    proof (cases a)
      case Silence
      show ?thesis
      proof (cases block)
        case True
        then have "read_line True rest buffer = (r, sock', buffer')" using Cons.prems Silence arrive(2) by simp
        from Cons.IH [OF rest this] show ?thesis unfolding Silence bytes_left.simps .
      next
        case False
        then show ?thesis using Cons.prems Silence arrive(3) by auto
      qed
    next
      case (Chunk chunk)
      then have "read_line False rest (buffer @ chunk) = (r, sock', buffer')"
        using Cons.prems arrive(4) [of block chunk rest] by auto
      from Cons.IH [OF rest this] show ?thesis unfolding Chunk bytes_left.simps append.assoc .
    qed
  qed
qed

theorem read_line_frames_witness:
  "read_line True [Silence, Chunk ''ab'', Chunk (''c'' @ [char_of (10 :: nat)] @ ''d''), Silence] [] =
     (Some (''abc'' @ [char_of (10 :: nat)]), [Silence], ''d'') \<and>
   (\<exists>body. unbroken body \<and> ''abc'' @ [char_of (10 :: nat)] = body @ [char_of (10 :: nat)])"
proof -
  have run: "read_line True [Silence, Chunk ''ab'', Chunk (''c'' @ [char_of (10 :: nat)] @ ''d''), Silence] [] =
     (Some (''abc'' @ [char_of (10 :: nat)]), [Silence], ''d'')"
    by code_simp
  from read_line_frames [OF _ run] run show ?thesis by auto
qed

subsection \<open>The events of one request\<close>

definition runtime_events :: "worker_output list \<Rightarrow> runtime_event list" where
  "runtime_events sent = concat (map (\<lambda>item. case item of Sent ev \<Rightarrow> [ev] | ResetDone _ \<Rightarrow> []) sent)"

lemma runtime_events_simps [simp]:
  "runtime_events [] = []" "runtime_events (Sent ev # sent) = ev # runtime_events sent"
  "runtime_events (ResetDone rid # sent) = runtime_events sent"
  "runtime_events (sent @ sent') = runtime_events sent @ runtime_events sent'"
  "runtime_events (map Sent evs) = evs"
  by (simp_all add: runtime_events_def comp_def)

fun worker_rounds ::
  "'d tokenizer \<Rightarrow> ('c, 'p, 'f) backend \<Rightarrow> (exn + worker_command option) list list \<Rightarrow> ('d, 'c, 'f) worker \<Rightarrow>
     worker_output list \<times> exn option \<times> ('d, 'c, 'f) worker" where
  "worker_rounds tk bk [] wk = ([], None, wk)"
| "worker_rounds tk bk (decoded # rest) wk =
     (case worker_round tk bk decoded wk of
        (sent, Some e, wk1) \<Rightarrow> (sent, Some e, wk1)
      | (sent, None, wk1) \<Rightarrow> (case worker_rounds tk bk rest wk1 of (sent', r) \<Rightarrow> (sent @ sent', r)))"

text \<open>A line that does not start or name the request again: a cancellation may.\<close>

definition spares :: "string \<Rightarrow> exn + worker_command option \<Rightarrow> bool" where
  "spares rid decoded \<longleftrightarrow> (\<exists>c. decoded = Inr (Some c) \<and> (c = WorkerCancel rid \<or> command_request c \<noteq> rid))"

definition knows :: "('d, 'c, 'f) worker \<Rightarrow> string \<Rightarrow> 'd request_state option" where
  "knows wk = map_of (rt_requests (wk_runtime wk))"

lemma submit_requests:
  assumes "runtime_submit tk q rt = (r, rt')" "requests_ok rt"
  shows "requests_ok rt' \<and> (\<forall>k. k \<noteq> tr_request_id q \<longrightarrow> map_of (rt_requests rt') k = map_of (rt_requests rt) k) \<and>
    (r = Inr () \<longrightarrow> (\<exists>prompt. map_of (rt_requests rt') (tr_request_id q) = Some (new_request_state tk q prompt)))"
proof (cases "and_then (build_prompt tk q) (\<lambda>prompt. and_then (validate_request (rt_model_ref rt) q prompt) (\<lambda>_. Inr prompt))")
  case (Inl e)
  then show ?thesis using assms by (auto simp: runtime_submit_def)
next
  case (Inr prompt)
  have "rt_requests rt' = AList.update (tr_request_id q) (new_request_state tk q prompt) (rt_requests rt)"
    using on_scheduler_requests [OF assms(1) [unfolded runtime_submit_def Inr sum.case]] by simp
  then show ?thesis using assms(2)
    by (auto simp: requests_ok_def dict_simps new_request_state_def)
qed

lemma cancel_serves:
  assumes "runtime_cancel rid' rt = (b, rt')" "requests_ok rt"
  shows "requests_ok rt' \<and> serves rid (map_of (rt_requests rt) rid) [] (map_of (rt_requests rt') rid)"
proof -
  have rq: "rt_requests rt' = rt_requests (upd_request rid' (\<lambda>st. st\<lparr>us_cancellation_stage := Some
          (if us_completion st \<noteq> [] then ''decode''
           else if us_prompt_batch st = None then ''python_waiting'' else ''prefill'')\<rparr>) rt)" (is "_ = rt_requests ?rt1")
    by (rule on_scheduler_requests [OF assms(1) [unfolded runtime_cancel_def]])
  have "step_serves [] rt [] ?rt1" by (rule upd_serves_silent [OF assms(2)]) simp
  then show ?thesis unfolding requests_ok_cong [OF rq] rq step_serves_def by simp
qed

lemma reset_requests: "runtime_reset bk a b rt = (r, rt') \<Longrightarrow> rt_requests rt' = rt_requests rt"
  by (auto simp: runtime_reset_def dest!: on_scheduler_requests split: if_splits)

lemma run_command_serves:
  assumes "run_command tk bk c rt = (r, rt')" "requests_ok rt"
  shows "requests_ok rt' \<and> (\<forall>sent. r = Inr sent \<longrightarrow> runtime_events sent = []) \<and>
    (c = WorkerCancel rid \<or> command_request c \<noteq> rid \<longrightarrow>
      serves rid (map_of (rt_requests rt) rid) [] (map_of (rt_requests rt') rid))"
proof (cases c)
  case (WorkerChat q)
  obtain r1 rt1 where s: "runtime_submit tk q rt = (r1, rt1)" by (metis surj_pair)
  then have "rt' = rt1" "\<forall>sent. r = Inr sent \<longrightarrow> sent = []"
    using assms(1) by (auto simp: run_command_def WorkerChat bind_err_def split: sum.splits)
  then show ?thesis using submit_requests [OF s assms(2)] by (auto simp: WorkerChat serves_refl)
next
  case (WorkerCancel rid')
  then show ?thesis using assms(1) cancel_serves [OF _ assms(2)]
    by (auto simp: run_command_def split: prod.splits)
next
  case (WorkerReset rid' clear_cache reset_counters)
  have "rt_requests rt' = rt_requests rt" "\<forall>sent. r = Inr sent \<longrightarrow> runtime_events sent = []"
    using assms(1) reset_requests [of bk clear_cache reset_counters rt]
    by (auto simp: run_command_def WorkerReset bind_err_def split: sum.splits prod.splits if_splits)
  then show ?thesis using assms(2) requests_ok_cong [of rt' rt] by (simp add: serves_refl)
qed

lemma handle_line_serves:
  assumes "handle_line tk bk decoded wk = (sent, wk')" "requests_ok (wk_runtime wk)"
  shows "requests_ok (wk_runtime wk') \<and> (spares rid decoded \<longrightarrow> serves rid (knows wk rid) (runtime_events sent) (knows wk' rid))"
proof (cases "\<exists>c. decoded = Inr (Some c)")
  case False
  then show ?thesis using assms by (cases decoded) (auto simp: handle_line_def spares_def)
next
  case True
  then obtain c where c: "decoded = Inr (Some c)" by blast
  obtain r rt' where run: "run_command tk bk c (wk_runtime wk) = (r, rt')" by (metis surj_pair)
  note C = run_command_serves [OF run assms(2), of rid]
  have out: "wk' = wk\<lparr>wk_last := Some c, wk_runtime := rt'\<rparr>"
    "sent = (case r of Inl e \<Rightarrow> [command_error (Some c) e] | Inr sent \<Rightarrow> sent)"
    using assms(1) run by (auto simp: handle_line_def c Let_def split: sum.splits)
  have "runtime_events sent = [] \<or> (\<exists>ev. runtime_events sent = [ev] \<and> event_request ev = Some (command_request c) \<and> c \<noteq> WorkerCancel rid)"
  proof (cases r)
    case (Inl e)
    then have "\<not> (\<exists>rid. c = WorkerCancel rid)" using run by (auto simp: run_command_def split: prod.splits)
    then show ?thesis by (auto simp: out Inl command_error_def)
  next
    case (Inr s)
    then show ?thesis using C by (simp add: out)
  qed
  then have "events_of rid (runtime_events sent) = []" if "spares rid decoded"
    using that by (auto simp: spares_def c)
  then have "serves rid (knows wk rid) (runtime_events sent) (knows wk' rid)" if s: "spares rid decoded"
    using serves_trans [OF _ serves_refl, of rid "knows wk rid" "[]" "knows wk' rid" "runtime_events sent"] C s
    by (auto simp: out spares_def c knows_def)
  then show ?thesis using C by (simp add: out)
qed

lemma handle_lines_serves:
  assumes "handle_lines tk bk lines wk = (sent, wk')" "requests_ok (wk_runtime wk)"
  shows "requests_ok (wk_runtime wk') \<and>
    ((\<forall>l \<in> set lines. spares rid l) \<longrightarrow> serves rid (knows wk rid) (runtime_events sent) (knows wk' rid))"
  using assms
proof (induction lines arbitrary: wk sent)
  case Nil
  then show ?case by (auto simp: serves_refl)
next
  case (Cons l lines)
  obtain s1 w1 where one: "handle_line tk bk l wk = (s1, w1)" by (metis surj_pair)
  obtain s2 w2 where two: "handle_lines tk bk lines w1 = (s2, w2)" by (metis surj_pair)
  note H = handle_line_serves [OF one Cons.prems(2), of rid]
  have out: "sent = s1 @ s2" "w2 = wk'" using Cons.prems(1) one two by simp_all
  note I = Cons.IH [OF two [unfolded out(2)]]
  show ?case using H I serves_trans unfolding out(1) by fastforce
qed

lemma tick_serves:
  assumes "runtime_tick tk bk rt = (Inr evs, rt')" "requests_ok rt"
  shows "step_serves [] rt evs rt'"
proof (rule bind_errE [OF assms(1) [unfolded runtime_tick_def]])
  fix sevs rt1 assume t: "on_scheduler (tick bk) rt = (Inr sevs, rt1)" and ap: "apply_events tk bk sevs [] rt1 = (Inr evs, rt')"
  have rq: "rt_requests rt1 = rt_requests rt" by (rule on_scheduler_requests [OF t])
  have "step_serves [] rt1 evs rt'" by (rule apply_events_serves [OF _ ap]) (simp add: requests_ok_cong [OF rq] assms(2))
  then show ?thesis unfolding step_serves_def rq .
qed simp

lemma round_serves:
  assumes "worker_round tk bk lines wk = (sent, None, wk')" "requests_ok (wk_runtime wk)"
  shows "requests_ok (wk_runtime wk') \<and>
    ((\<forall>l \<in> set lines. spares rid l) \<longrightarrow> serves rid (knows wk rid) (runtime_events sent) (knows wk' rid))"
proof -
  obtain s1 w1 where one: "handle_lines tk bk lines wk = (s1, w1)" by (metis surj_pair)
  note H = handle_lines_serves [OF one assms(2), of rid]
  show ?thesis
  proof (cases "runtime_idle (wk_runtime w1)")
    case True
    then show ?thesis using assms(1) one H by (simp add: worker_round_def)
  next
    case False
    obtain evs rt' where t: "runtime_tick tk bk (wk_runtime w1) = (Inr evs, rt')" "sent = s1 @ map Sent evs" "wk' = w1\<lparr>wk_runtime := rt'\<rparr>"
      using assms(1) one False by (auto simp: worker_round_def split: prod.splits sum.splits)
    have "step_serves [] (wk_runtime w1) evs rt'" using tick_serves [OF t(1)] H by blast
    then show ?thesis using H serves_trans unfolding step_serves_def t(2,3) knows_def by fastforce
  qed
qed

lemma rounds_serve:
  assumes "worker_rounds tk bk rounds wk = (sent, None, wk')" "requests_ok (wk_runtime wk)"
  shows "requests_ok (wk_runtime wk') \<and>
    ((\<forall>l \<in> set (concat rounds). spares rid l) \<longrightarrow> serves rid (knows wk rid) (runtime_events sent) (knows wk' rid))"
  using assms
proof (induction rounds arbitrary: wk sent)
  case Nil
  then show ?case by (auto simp: serves_refl)
next
  case (Cons lines rounds)
  obtain s1 e w1 where one: "worker_round tk bk lines wk = (s1, e, w1)" by (metis prod_cases3)
  with Cons.prems(1) have e: "e = None" by (cases e) simp_all
  obtain s2 r2 where two: "worker_rounds tk bk rounds w1 = (s2, r2)" by (metis surj_pair)
  have out: "sent = s1 @ s2" "r2 = (None, wk')" using Cons.prems(1) one two e by simp_all
  note H = round_serves [OF one [unfolded e] Cons.prems(2), of rid]
  note I = Cons.IH [OF two [unfolded out(2)]]
  show ?case using H I serves_trans unfolding out(1) by fastforce
qed

text \<open>C24: What a client sees of a request.  After any history of the worker, a request with an id
  that is not in use is accepted.  Whatever lines come next, as long as none of them is broken or names the id
  (other than to cancel it), the events sent for the request are deltas, and then, exactly when the worker has forgotten
  the request, one response or error and nothing more.  Without streaming there are no deltas; with streaming the
  text of the response is the concatenation of the deltas, unless it was cancelled.\<close>

theorem client_sees_one_answer:
  assumes "rt_requests (wk_runtime wk0) = []" "worker_rounds tk bk earlier wk0 = (sent0, None, wk)"
    and "knows wk (tr_request_id q) = None" "runtime_submit tk q (wk_runtime wk) = (Inr (), rt)"
    and "worker_rounds tk bk rounds (wk\<lparr>wk_runtime := rt\<rparr>) = (sent, None, wk')"
    and "\<forall>l \<in> set (concat rounds). spares (tr_request_id q) l"
  shows "\<exists>ds fin. events_of (tr_request_id q) (runtime_events sent) = map (RtDelta (tr_request_id q)) ds @ fin \<and>
    (if knows wk' (tr_request_id q) \<noteq> None then fin = [] else \<exists>ev. fin = [ev] \<and> is_terminal ev) \<and>
    (\<not> tr_stream q \<longrightarrow> ds = []) \<and>
    (\<forall>t reason p c k stage. fin = [RtResponse (tr_request_id q) t reason p c k stage] \<longrightarrow> reason \<noteq> ''cancelled'' \<longrightarrow>
       tr_stream q \<longrightarrow> t = concat ds)"
proof -
  have "requests_ok (wk_runtime wk0)" by (simp add: requests_ok_def assms(1))
  then have ok: "requests_ok (wk_runtime wk)" using rounds_serve [OF assms(2)] by blast
  obtain prompt where st: "requests_ok rt" "map_of (rt_requests rt) (tr_request_id q) = Some (new_request_state tk q prompt)"
    using submit_requests [OF assms(4) ok] by blast
  let ?st = "new_request_state tk q prompt"
  have s: "serves (tr_request_id q) (Some ?st) (runtime_events sent) (knows wk' (tr_request_id q))"
    using rounds_serve [OF assms(5), of "tr_request_id q"] st assms(6) by (simp add: knows_def)
  have new: "us_request ?st = q" "emitted (us_stop ?st) = []" by (simp_all add: new_request_state_def new_assembler_def)
  show ?thesis
  proof (cases "knows wk' (tr_request_id q)")
    case None
    obtain ds fin where E: "events_of (tr_request_id q) (runtime_events sent) = map (RtDelta (tr_request_id q)) ds @ [fin]"
      "is_terminal fin" "\<not> tr_stream q \<longrightarrow> ds = []"
      "\<forall>t reason p c k stage. fin = RtResponse (tr_request_id q) t reason p c k stage \<longrightarrow> reason \<noteq> ''cancelled'' \<longrightarrow>
         tr_stream q \<longrightarrow> t = concat ds"
      using s unfolding None serves.simps new append_Nil by blast
    show ?thesis by (rule exI [of _ ds], rule exI [of _ "[fin]"]) (use E None in simp)
  next
    case (Some st')
    then obtain ds where "events_of (tr_request_id q) (runtime_events sent) = map (RtDelta (tr_request_id q)) ds"
      "\<not> tr_stream q \<longrightarrow> ds = []"
      using s unfolding Some serves.simps new by (auto split: if_splits)
    then show ?thesis using Some by (intro exI [of _ ds] exI [of _ "[]"]) simp
  qed
qed

lemma toy_served:
  "(case worker_rounds toy_tokenizer toy_backend [[], []] (toy_worker\<lparr>wk_runtime := toy_accepted\<rparr>) of (sent, r, _) \<Rightarrow> (sent, r)) =
     ([Sent (RtMetrics Prefill 2 1 0 1), Sent (RtDelta ''q'' ''j''), Sent (RtDelta ''q'' ''s''),
       Sent (RtResponse ''q'' ''js'' ''length'' 2 2 0 None), Sent (RtMetrics Decode 1 1 0 1)], None)"
  by code_simp

theorem client_sees_one_answer_witness:
  "\<exists>sent wk'. worker_rounds toy_tokenizer toy_backend [[], []] (toy_worker\<lparr>wk_runtime := toy_accepted\<rparr>) = (sent, None, wk') \<and>
     events_of ''q'' (runtime_events sent) =
       [RtDelta ''q'' ''j'', RtDelta ''q'' ''s'', RtResponse ''q'' ''js'' ''length'' 2 2 0 None] \<and> knows wk' ''q'' = None"
proof -
  obtain sent r wk' where run0: "worker_rounds toy_tokenizer toy_backend [[], []] (toy_worker\<lparr>wk_runtime := toy_accepted\<rparr>) = (sent, r, wk')"
    by (metis prod_cases3)
  have sent: "r = None" "sent = [Sent (RtMetrics Prefill 2 1 0 1), Sent (RtDelta ''q'' ''j''), Sent (RtDelta ''q'' ''s''),
      Sent (RtResponse ''q'' ''js'' ''length'' 2 2 0 None), Sent (RtMetrics Decode 1 1 0 1)]"
    using toy_served unfolding run0 by simp_all
  note run = run0 [unfolded sent(1)]
  have idle: "rt_requests (wk_runtime toy_worker) = []" "knows toy_worker ''q'' = None" "wk_runtime toy_worker = toy_runtime"
    by (simp_all add: toy_worker_def toy_runtime_def knows_def)
  have q: "tr_request_id (toy_text_request ''q'' ''ab'' 2) = ''q''" by (simp add: toy_text_request_def)
  have E: "events_of ''q'' (runtime_events sent) =
       [RtDelta ''q'' ''j'', RtDelta ''q'' ''s'', RtResponse ''q'' ''js'' ''length'' 2 2 0 None]"
    by (simp add: sent(2))
  have "knows wk' ''q'' = None"
  proof (rule ccontr)
    assume known: "knows wk' ''q'' \<noteq> None"
    have none: "worker_rounds toy_tokenizer toy_backend [] toy_worker = ([], None, toy_worker)" by simp
    obtain ds where "events_of ''q'' (runtime_events sent) = map (RtDelta ''q'') ds"
      using client_sees_one_answer [OF idle(1) none, of "toy_text_request ''q'' ''ab'' 2", unfolded q, OF idle(2)
          toy_accepted_run [folded idle(3)] run] known by auto
    then have "RtResponse ''q'' ''js'' ''length'' 2 2 0 None \<in> set (map (RtDelta ''q'') ds)" using E by (metis list.set_intros insertCI list.simps(15))
    then show False by auto
  qed
  then show ?thesis using run E by blast
qed

end
