(* ===== verification/WorkerFindings.thy ===== *)
theory WorkerFindings
  imports WorkerProps
begin

text \<open>
  Where the worker and the runtime break the contract of theory WorkerProps: a broken line that is blamed
  on another request, a duplicate submission that overwrites a running request, and text
  that is sent after a stop sequence.
\<close>

subsection \<open>A broken line\<close>

text \<open>A broken line is blamed on the command before it.  The variable \<open>command\<close> outlives the
  line it was decoded from: while a request is being served, a line that is not JSON is answered with an
  \<open>INVALID_REQUEST\<close> error for that request, which is still being served.\<close>

theorem broken_line_is_blamed_on_request:
  assumes "wk_last wk = Some (WorkerChat q)" "knows wk (tr_request_id q) = Some st"
  shows "\<exists>wk'. handle_line tk bk (Inl e) wk = ([Sent (RtError (tr_request_id q) ''INVALID_REQUEST'' (exn_str e))], wk') \<and>
    knows wk' (tr_request_id q) = Some st"
  using assms by (simp add: handle_line_def command_error_def)

definition toy_blamed :: "(string \<times> string, unit \<times> nat kv, nat in_flight_step) worker" where
  "toy_blamed = toy_worker\<lparr>wk_runtime := toy_accepted, wk_last := Some (WorkerChat (toy_text_request ''q'' ''ab'' 2))\<rparr>"

lemma toy_submitted:
  "handle_line toy_tokenizer toy_backend (Inr (Some (WorkerChat (toy_text_request ''q'' ''ab'' 2)))) toy_worker = ([], toy_blamed)"
  using toy_accepted_run by (simp add: handle_line_def run_command_def toy_blamed_def toy_worker_def Let_def)

theorem broken_line_is_blamed_on_request_witness:
  "fst (handle_lines toy_tokenizer toy_backend
      [Inr (Some (WorkerChat (toy_text_request ''q'' ''ab'' 2))), Inl JSONDecodeError] toy_worker) =
     [Sent (RtError ''q'' ''INVALID_REQUEST'' ''invalid JSON'')]"
proof -
  have "requests_ok toy_runtime" by (simp add: requests_ok_def toy_runtime_def)
  then obtain st where st: "knows toy_blamed ''q'' = Some st"
    using submit_requests [OF toy_accepted_run] by (auto simp: knows_def toy_blamed_def toy_text_request_def)
  have q: "tr_request_id (toy_text_request ''q'' ''ab'' 2) = ''q''" by (simp add: toy_text_request_def)
  have lst: "wk_last toy_blamed = Some (WorkerChat (toy_text_request ''q'' ''ab'' 2))" by (simp add: toy_blamed_def)
  obtain wk' where "handle_line toy_tokenizer toy_backend (Inl JSONDecodeError) toy_blamed =
      ([Sent (RtError ''q'' ''INVALID_REQUEST'' ''invalid JSON'')], wk')"
    using broken_line_is_blamed_on_request [OF lst, unfolded q, OF st, of toy_tokenizer toy_backend JSONDecodeError]
    by auto
  then show ?thesis by (simp add: toy_submitted)
qed

subsection \<open>A duplicate submission\<close>

text \<open>A duplicate submission destroys the state of the request it collides with.  The runtime
  stores the new state before the scheduler checks the id: the submission is refused as a duplicate, but the
  running request has lost its prompt, its tokens, its text and its detokenizer.\<close>

theorem duplicate_submission_overwrites:
  assumes "map_of (sc_waiting (rt_scheduler rt)) (tr_request_id q) \<noteq> None \<or>
      map_of (sc_running (rt_scheduler rt)) (tr_request_id q) \<noteq> None"
    and "build_prompt tk q = Inr prompt" "validate_request (rt_model_ref rt) q prompt = Inr ()"
  shows "\<exists>rt'. runtime_submit tk q rt = (Inl (ValueError (''duplicate native request '' @ py_repr (tr_request_id q))), rt') \<and>
    rt_scheduler rt' = rt_scheduler rt \<and>
    map_of (rt_requests rt') (tr_request_id q) = Some (new_request_state tk q prompt)"
  using assms by (auto simp: runtime_submit_def on_scheduler_def sched_submit_def Let_def dict_simps)

theorem duplicate_submission_overwrites_witness:
  "\<exists>rt'. runtime_submit toy_tokenizer (toy_text_request ''q'' ''xyz'' 9) toy_accepted =
      (Inl (ValueError (''duplicate native request '' @ py_repr ''q'')), rt') \<and>
    map_of (rt_requests rt') ''q'' = Some (new_request_state toy_tokenizer (toy_text_request ''q'' ''xyz'' 9) [120, 121, 122])"
proof -
  have taken: "\<not> Option.is_none (map_of (sc_waiting (rt_scheduler toy_accepted)) ''q'')"
    and prompt: "build_prompt toy_tokenizer (toy_text_request ''q'' ''xyz'' 9) = Inr [120, 121, 122]"
    and valid: "validate_request (rt_model_ref toy_accepted) (toy_text_request ''q'' ''xyz'' 9) [120, 121, 122] = Inr ()"
    by code_simp+
  have q: "tr_request_id (toy_text_request ''q'' ''xyz'' 9) = ''q''" by (simp add: toy_text_request_def)
  show ?thesis
    using duplicate_submission_overwrites [OF _ prompt valid, unfolded q] taken by (auto simp: Option.is_none_def)
qed

subsection \<open>Text after a stop sequence\<close>

text \<open>A request that stops at \<open>b\<close>, over a detokenizer that holds one character back.\<close>

definition stop_runtime :: "(string \<times> string, unit \<times> nat kv, nat in_flight_step) runtime" where
  "stop_runtime = toy_runtime\<lparr>rt_requests :=
     [(''q'', new_request_state toy_tokenizer ((toy_text_request ''q'' ''x'' 9)\<lparr>tr_stop := [''b'']\<rparr>) [120])]\<rparr>"

definition stop_token :: "char \<Rightarrow> scheduler_event" where
  "stop_token c = TokenEvent ''q'' (Some (int (of_char c))) 1 Decode"

text \<open>Text is sent after the stop sequence.  The tokens of \<open>abc\<close> arrive and the stop sequence is
  \<open>b\<close>: the stop is hit, but finishing the request pushes the last segment of the detokenizer into the assembler,
  which has forgotten that it is stopped, so that the client gets \<open>ac\<close>.\<close>

theorem text_after_stop_is_sent:
  "fst (apply_events toy_tokenizer toy_backend [stop_token CHR ''a'', stop_token CHR ''b'', stop_token CHR ''c''] [] stop_runtime) =
     Inr [RtDelta ''q'' ''a'', RtDelta ''q'' ''c'', RtResponse ''q'' ''ac'' ''stop'' 1 3 0 None]"
  by code_simp

end
