(* ===== verification/SchedInv.thy ===== *)
theory SchedInv
  imports Scheduler ExecProps
begin

text \<open>
  The invariant of the scheduler in serial mode: every request in the running queue owns a cache that holds
  exactly the rows of what was fed for it, and what was generated for it is the greedy continuation of its
  prompt.  The cache coordinator and the executor enter through their contracts (locale \<open>serving\<close>).
\<close>

subsection \<open>Greedy decoding\<close>

text \<open>The first \<open>n\<close> tokens of the greedy continuation of a prompt.\<close>

fun greedy :: "(token list \<Rightarrow> token) \<Rightarrow> token list \<Rightarrow> nat \<Rightarrow> token list" where
  "greedy nt prompt 0 = []"
| "greedy nt prompt (Suc n) = greedy nt prompt n @ [nt (prompt @ greedy nt prompt n)]"

lemma length_greedy [simp]: "length (greedy nt prompt n) = n"
  by (induction n) auto

text \<open>What the cache of a request has been fed, and when a state fits it.\<close>

abbreviation prompt_of :: "sched_state \<Rightarrow> token list" where "prompt_of st \<equiv> sq_prompt (ss_work st)"
abbreviation id_of :: "sched_state \<Rightarrow> string" where "id_of st \<equiv> sq_request_id (ss_work st)"

definition fed :: "(token list \<Rightarrow> token) \<Rightarrow> sched_state \<Rightarrow> token list" where
  "fed nt st = (case ss_generated st of 0 \<Rightarrow> take (ss_cursor st) (prompt_of st)
     | Suc n \<Rightarrow> prompt_of st @ greedy nt (prompt_of st) n)"

definition state_ok :: "(token list \<Rightarrow> token) \<Rightarrow> sched_state \<Rightarrow> bool" where
  "state_ok nt st \<longleftrightarrow> ss_cursor st \<le> length (prompt_of st) \<and> ss_cache_length st = length (fed nt st) \<and>
     (case ss_generated st of 0 \<Rightarrow> ss_last_token st = None
      | Suc n \<Rightarrow> ss_cursor st = length (prompt_of st) \<and> ss_last_token st = Some (nt (prompt_of st @ greedy nt (prompt_of st) n)))"

definition fresh_state :: "sched_state \<Rightarrow> bool" where
  "fresh_state st \<longleftrightarrow> ss_handle st = None \<and> ss_cursor st = 0 \<and> ss_cache_length st = 0 \<and> ss_last_token st = None \<and> ss_generated st = 0"

text \<open>The part of a state the invariant reads.\<close>

definition core :: "sched_state \<Rightarrow> schedulable_request \<times> nat \<times> handle option \<times> nat \<times> token option \<times> nat" where
  "core st = (ss_work st, ss_cursor st, ss_handle st, ss_cache_length st, ss_last_token st, ss_generated st)"

lemma core_cong:
  assumes "core st' = core st"
  shows "fed nt st' = fed nt st" "state_ok nt st' = state_ok nt st" "fresh_state st' = fresh_state st"
    "ss_handle st' = ss_handle st" "ss_work st' = ss_work st" "ss_generated st' = ss_generated st"
    "ss_cursor st' = ss_cursor st" "ss_last_token st' = ss_last_token st" "ss_cache_length st' = ss_cache_length st"
  using assms by (auto simp: core_def fed_def state_ok_def fresh_state_def split: nat.splits)

lemma core_updates [simp]:
  "core (st\<lparr>ss_cancel := b\<rparr>) = core st" "core (st\<lparr>ss_finish := b\<rparr>) = core st" "core (st\<lparr>ss_probe := p\<rparr>) = core st"
  "core (ss_cancel_update f st) = core st" "core (ss_finish_update f st) = core st" "core (ss_probe_update g st) = core st"
  by (simp_all add: core_def)

subsection \<open>The queues\<close>

definition queues_ok :: "('c, 'f) scheduler \<Rightarrow> bool" where
  "queues_ok sc \<longleftrightarrow> dict_ok (sc_waiting sc) \<and> dict_ok (sc_running sc) \<and>
     (\<forall>rid a. map_of (sc_waiting sc) rid = Some a \<longrightarrow>
        map_of (sc_running sc) rid = None \<and> a < sc_next sc \<and> id_of (sc_store sc a) = rid) \<and>
     (\<forall>rid a. map_of (sc_running sc) rid = Some a \<longrightarrow> a < sc_next sc \<and> id_of (sc_store sc a) = rid)"

definition waiting_at :: "('c, 'f) scheduler \<Rightarrow> nat \<Rightarrow> bool" where
  "waiting_at sc a \<longleftrightarrow> map_of (sc_waiting sc) (id_of (sc_store sc a)) = Some a"

definition running_at :: "('c, 'f) scheduler \<Rightarrow> nat \<Rightarrow> bool" where
  "running_at sc a \<longleftrightarrow> map_of (sc_running sc) (id_of (sc_store sc a)) = Some a"

lemma queues_okD:
  assumes "queues_ok sc"
  shows "dict_ok (sc_waiting sc)" "dict_ok (sc_running sc)"
    "map_of (sc_waiting sc) rid = Some a \<Longrightarrow> map_of (sc_running sc) rid = None \<and> a < sc_next sc \<and> id_of (sc_store sc a) = rid"
    "map_of (sc_running sc) rid = Some a \<Longrightarrow> a < sc_next sc \<and> id_of (sc_store sc a) = rid"
  using assms unfolding queues_ok_def by blast+

lemma in_queue:
  assumes "queues_ok sc"
  shows "a \<in> set (dict_values (sc_waiting sc)) \<longleftrightarrow> waiting_at sc a"
    "a \<in> set (dict_values (sc_running sc)) \<longleftrightarrow> running_at sc a"
proof -
  have d: "dict_ok (sc_waiting sc)" "dict_ok (sc_running sc)" using assms by (simp_all add: queues_ok_def)
  have "a \<in> set (dict_values (sc_waiting sc)) \<longleftrightarrow> (\<exists>rid. map_of (sc_waiting sc) rid = Some a)"
    "a \<in> set (dict_values (sc_running sc)) \<longleftrightarrow> (\<exists>rid. map_of (sc_running sc) rid = Some a)"
    by (force simp: dict_get_iff [OF d(1)] dict_get_iff [OF d(2)])+
  then show "a \<in> set (dict_values (sc_waiting sc)) \<longleftrightarrow> waiting_at sc a"
    "a \<in> set (dict_values (sc_running sc)) \<longleftrightarrow> running_at sc a"
    using queues_okD [OF assms] unfolding waiting_at_def running_at_def by blast+
qed

lemma queue_ids:
  assumes "queues_ok sc"
  shows "map_of (sc_waiting sc) rid = Some a \<longleftrightarrow> id_of (sc_store sc a) = rid \<and> waiting_at sc a"
    "map_of (sc_running sc) rid = Some a \<longleftrightarrow> id_of (sc_store sc a) = rid \<and> running_at sc a"
    "waiting_at sc a \<Longrightarrow> a < sc_next sc" "running_at sc a \<Longrightarrow> a < sc_next sc"
    "waiting_at sc a \<Longrightarrow> \<not> running_at sc a"
proof -
  note D = queues_okD(3,4) [OF assms]
  show "map_of (sc_waiting sc) rid = Some a \<longleftrightarrow> id_of (sc_store sc a) = rid \<and> waiting_at sc a"
    "map_of (sc_running sc) rid = Some a \<longleftrightarrow> id_of (sc_store sc a) = rid \<and> running_at sc a"
    using D [of rid a] by (auto simp: waiting_at_def running_at_def)
  show "waiting_at sc a \<Longrightarrow> a < sc_next sc" "running_at sc a \<Longrightarrow> a < sc_next sc" "waiting_at sc a \<Longrightarrow> \<not> running_at sc a"
    using D [of "id_of (sc_store sc a)" a] by (auto simp: waiting_at_def running_at_def)
qed

text \<open>One address per request id, in one queue.\<close>

lemma queue_inj:
  assumes "queues_ok sc" "waiting_at sc a \<or> running_at sc a" "waiting_at sc b \<or> running_at sc b"
    "id_of (sc_store sc a) = id_of (sc_store sc b)"
  shows "a = b"
  using assms(2,3) queues_okD(3) [OF assms(1), of "id_of (sc_store sc b)" a] queues_okD(3) [OF assms(1), of "id_of (sc_store sc b)" b]
  unfolding waiting_at_def running_at_def assms(4) by auto

lemma distinct_queued:
  assumes "queues_ok sc"
  shows "distinct (dict_values (sc_waiting sc))" "distinct (dict_values (sc_running sc))"
proof -
  have aux: "distinct (map snd d)" if "dict_ok d" "\<forall>(rid, a) \<in> set d. f a = rid" for d :: "(string, nat) dict" and f
    using that by (induction d) (auto, force)
  have d: "dict_ok (sc_waiting sc)" "dict_ok (sc_running sc)" using assms by (simp_all add: queues_ok_def)
  have "\<forall>(rid, a) \<in> set (sc_waiting sc). id_of (sc_store sc a) = rid" "\<forall>(rid, a) \<in> set (sc_running sc). id_of (sc_store sc a) = rid"
    using assms by (auto simp: queues_ok_def dict_get_iff [OF d(1)] dict_get_iff [OF d(2)])
  with d show "distinct (dict_values (sc_waiting sc))" "distinct (dict_values (sc_running sc))"
    by (auto intro: aux)
qed

abbreviation queued_at :: "('c, 'f) scheduler \<Rightarrow> nat \<Rightarrow> bool" where
  "queued_at sc a \<equiv> waiting_at sc a \<or> running_at sc a"

subsection \<open>The invariant\<close>

definition owns ::
  "('c \<Rightarrow> handle set) \<Rightarrow> ('c \<Rightarrow> handle \<Rightarrow> 'b option) \<Rightarrow> (token list \<Rightarrow> 'b \<Rightarrow> bool) \<Rightarrow> (token list \<Rightarrow> token) \<Rightarrow> 'c \<Rightarrow>
     sched_state \<Rightarrow> bool" where
  "owns held cview good nt c st \<longleftrightarrow> state_ok nt st \<and>
     (\<exists>h x. ss_handle st = Some h \<and> h \<notin> held c \<and> cview c h = Some x \<and> good (fed nt st) x)"

definition serve_inv ::
  "('c \<Rightarrow> bool) \<Rightarrow> ('c \<Rightarrow> handle set) \<Rightarrow> ('c \<Rightarrow> handle \<Rightarrow> 'b option) \<Rightarrow> (token list \<Rightarrow> 'b \<Rightarrow> bool) \<Rightarrow>
     (token list \<Rightarrow> token) \<Rightarrow> ('c, 'f) scheduler \<Rightarrow> bool" where
  "serve_inv cok held cview good nt sc \<longleftrightarrow>
     \<not> sc_overlap sc \<and> sc_in_flight sc = None \<and> sc_pending sc = [] \<and> cok (sc_cache sc) \<and> queues_ok sc \<and>
     (\<forall>a. waiting_at sc a \<longrightarrow> fresh_state (sc_store sc a)) \<and>
     (\<forall>a. running_at sc a \<longrightarrow> owns held cview good nt (sc_cache sc) (sc_store sc a)) \<and>
     (\<forall>a b. running_at sc a \<longrightarrow> running_at sc b \<longrightarrow> ss_handle (sc_store sc a) = ss_handle (sc_store sc b) \<longrightarrow> a = b) \<and>
     (\<forall>h. cview (sc_cache sc) h \<noteq> None \<longrightarrow> h \<in> held (sc_cache sc) \<or> (\<exists>a. running_at sc a \<and> ss_handle (sc_store sc a) = Some h))"

text \<open>The last conjunct says that no cache leaks: each belongs to a running request or is a snapshot of the
  prefix index.\<close>

text \<open>A step that generates nothing and queues nothing.\<close>

definition calm :: "('c, 'f) scheduler \<Rightarrow> ('c, 'f) scheduler \<Rightarrow> bool" where
  "calm sc sc' \<longleftrightarrow> sc_next sc' = sc_next sc \<and>
     (\<forall>a. ss_work (sc_store sc' a) = ss_work (sc_store sc a) \<and> ss_generated (sc_store sc' a) = ss_generated (sc_store sc a)) \<and>
     (\<forall>a. queued_at sc' a \<longrightarrow> queued_at sc a)"

lemma calm_refl [simp]: "calm sc sc" by (simp add: calm_def)

lemma calm_trans: "calm sc sc1 \<Longrightarrow> calm sc1 sc2 \<Longrightarrow> calm sc sc2"
  unfolding calm_def by metis

fun token_of :: "string \<Rightarrow> scheduler_event \<Rightarrow> token option list" where
  "token_of rid (TokenEvent rid' tok len ph) = (if rid' = rid then [tok] else [])"
| "token_of rid ev = []"

definition tokens_of :: "string \<Rightarrow> scheduler_event list \<Rightarrow> token option list" where
  "tokens_of rid evs = concat (map (token_of rid) evs)"

lemma tokens_of_simps [simp]: "tokens_of rid [] = []" "tokens_of rid (ev # evs) = token_of rid ev @ tokens_of rid evs"
  "tokens_of rid (xs @ ys) = tokens_of rid xs @ tokens_of rid ys"
  by (simp_all add: tokens_of_def)

text \<open>A step that changes only the cache and what is remembered of probes.\<close>

definition only_probes :: "('c, 'f) scheduler \<Rightarrow> ('c, 'f) scheduler \<Rightarrow> bool" where
  "only_probes sc sc' \<longleftrightarrow> sc_waiting sc' = sc_waiting sc \<and> sc_running sc' = sc_running sc \<and>
     sc_prefill_step sc' = sc_prefill_step sc \<and>
     (\<forall>a. core (sc_store sc' a) = core (sc_store sc a) \<and> ss_cancel (sc_store sc' a) = ss_cancel (sc_store sc a) \<and>
        ss_finish (sc_store sc' a) = ss_finish (sc_store sc a))"

lemma only_probes_refl [simp]: "only_probes sc sc" by (simp add: only_probes_def)

lemma only_probes_trans: "only_probes sc sc1 \<Longrightarrow> only_probes sc1 sc2 \<Longrightarrow> only_probes sc sc2"
  by (simp add: only_probes_def)

lemma only_probes_at: "only_probes sc sc' \<Longrightarrow> waiting_at sc' a = waiting_at sc a \<and> running_at sc' a = running_at sc a"
  using core_cong(5) [of "sc_store sc' a" "sc_store sc a"] by (simp add: only_probes_def waiting_at_def running_at_def)

text \<open>Selected work, and the candidates for prefill.\<close>

lemma sw_state_work [simp]: "sw_state (prefill_work n a st) = a" "sw_state (decode_work a st) = a"
  by (simp_all add: prefill_work_def decode_work_def Let_def)

definition picked :: "('c, 'f) scheduler \<Rightarrow> selected_work \<Rightarrow> bool" where
  "picked sc w \<longleftrightarrow> running_at sc (sw_state w) \<and>
     \<not> ss_cancel (sc_store sc (sw_state w)) \<and> \<not> ss_finish (sc_store sc (sw_state w)) \<and>
     (w = decode_work (sw_state w) (sc_store sc (sw_state w)) \<and> ss_last_token (sc_store sc (sw_state w)) \<noteq> None \<or>
      w = prefill_work (sc_prefill_step sc) (sw_state w) (sc_store sc (sw_state w)) \<and>
        ss_generated (sc_store sc (sw_state w)) = 0)"

definition fillable :: "('c, 'f) scheduler \<Rightarrow> nat \<Rightarrow> bool" where
  "fillable sc a \<longleftrightarrow> (waiting_at sc a \<or> running_at sc a \<and> ss_generated (sc_store sc a) = 0) \<and>
     \<not> ss_cancel (sc_store sc a) \<and> \<not> ss_finish (sc_store sc a)"

locale serving =
  cache_coordinator "bk_probe bk" "bk_acquire bk" "bk_publish bk" "bk_release bk" cok held cview cut size_of good
  for bk :: "('c, 'p, 'f) backend" and cok :: "'c \<Rightarrow> bool" and held :: "'c \<Rightarrow> handle set"
    and cview :: "'c \<Rightarrow> handle \<Rightarrow> 'b option" and cut :: "nat \<Rightarrow> 'b \<Rightarrow> 'b" and size_of :: "'b \<Rightarrow> nat"
    and good :: "token list \<Rightarrow> 'b \<Rightarrow> bool" +
  fixes nt :: "token list \<Rightarrow> token"
  assumes execute_law: "cok c \<Longrightarrow>
      \<forall>q \<in> set requests. \<forall>h. er_cache_handle q = Some h \<longrightarrow> h \<notin> held c \<and> (\<exists>x. cview c h = Some x \<and> good (ctx h) x) \<Longrightarrow>
      bk_execute_batch bk requests c = (res, c') \<Longrightarrow>
      cok c' \<and> held c' = held c \<and>
      (case res of
         Inl e \<Rightarrow> cview c' = cview c
       | Inr st \<Rightarrow> \<exists>kept. results_ok nt ctx requests kept (st_results st) \<and>
           (\<forall>(q, i, h) \<in> set kept. \<exists>x. cview c' h = Some x \<and> good (ctx h @ er_token_ids q) x) \<and>
           (\<forall>h. h \<notin> (\<lambda>(q, i, h). h) ` set kept \<longrightarrow> cview c' h = cview c h))"
begin

abbreviation inv :: "('c, 'f) scheduler \<Rightarrow> bool" where "inv \<equiv> serve_inv cok held cview good nt"

lemma invD:
  assumes "inv sc"
  shows "\<not> sc_overlap sc" "sc_in_flight sc = None" "sc_pending sc = []" "cok (sc_cache sc)" "queues_ok sc"
    "waiting_at sc a \<Longrightarrow> fresh_state (sc_store sc a)"
    "running_at sc a \<Longrightarrow> owns held cview good nt (sc_cache sc) (sc_store sc a)"
    "running_at sc a \<Longrightarrow> running_at sc b \<Longrightarrow> ss_handle (sc_store sc a) = ss_handle (sc_store sc b) \<Longrightarrow> a = b"
    "cview (sc_cache sc) h \<noteq> None \<Longrightarrow> h \<in> held (sc_cache sc) \<or> (\<exists>a. running_at sc a \<and> ss_handle (sc_store sc a) = Some h)"
  using assms unfolding serve_inv_def by blast+

lemma owned_handle:
  "inv sc \<Longrightarrow> running_at sc a \<Longrightarrow> ss_handle (sc_store sc a) = Some h \<Longrightarrow> h \<notin> held (sc_cache sc)"
  using invD(7) [of sc a] by (auto simp: owns_def)

lemma owns_core: "core st' = core st \<Longrightarrow> owns held cview good nt c st' = owns held cview good nt c st"
  by (simp add: owns_def core_cong [of st' st])

text \<open>Queues may shrink, and the cache may change where no running request looks.\<close>

lemma inv_frame:
  assumes "inv sc" "sc_overlap sc' = sc_overlap sc" "sc_in_flight sc' = None" "sc_pending sc' = []"
    and "cok (sc_cache sc')" "queues_ok sc'"
    and "\<And>a. waiting_at sc' a \<Longrightarrow> waiting_at sc a" "\<And>a. running_at sc' a \<Longrightarrow> running_at sc a"
    and "\<And>a. queued_at sc' a \<Longrightarrow> core (sc_store sc' a) = core (sc_store sc a)"
    and keep: "\<And>a h. running_at sc' a \<Longrightarrow> ss_handle (sc_store sc a) = Some h \<Longrightarrow>
      h \<notin> held (sc_cache sc') \<and> cview (sc_cache sc') h = cview (sc_cache sc) h"
    and leak: "\<And>h. cview (sc_cache sc') h \<noteq> None \<Longrightarrow> h \<notin> held (sc_cache sc') \<Longrightarrow>
      \<exists>a. running_at sc' a \<and> ss_handle (sc_store sc a) = Some h"
  shows "inv sc'"
proof -
  have "owns held cview good nt (sc_cache sc') (sc_store sc' a)" if "running_at sc' a" for a
  proof -
    have "owns held cview good nt (sc_cache sc) (sc_store sc' a)"
      using owns_core assms(8,9) that invD(7) [OF assms(1)] by blast
    then show ?thesis using keep [OF that] core_cong(4) [OF assms(9)] that unfolding owns_def by auto
  qed
  moreover have "fresh_state (sc_store sc' a)" if "waiting_at sc' a" for a
    using that assms(7,9) invD(6) [OF assms(1)] core_cong(3) by blast
  moreover have "a = b" if "running_at sc' a" "running_at sc' b" "ss_handle (sc_store sc' a) = ss_handle (sc_store sc' b)" for a b
    using that assms(8,9) invD(8) [OF assms(1)] core_cong(4) by metis
  moreover have "h \<in> held (sc_cache sc') \<or> (\<exists>a. running_at sc' a \<and> ss_handle (sc_store sc' a) = Some h)"
    if "cview (sc_cache sc') h \<noteq> None" for h
    using leak [OF that] core_cong(4) [OF assms(9)] by metis
  ultimately show ?thesis using assms(1-6) unfolding serve_inv_def by blast
qed

text \<open>Changes that only touch flags and probes, or only the prefix index.\<close>

lemma inv_same:
  assumes "inv sc" "sc_overlap sc' = sc_overlap sc" "sc_in_flight sc' = sc_in_flight sc" "sc_pending sc' = sc_pending sc"
    and "cok (sc_cache sc')" "held (sc_cache sc') = held (sc_cache sc)" "cview (sc_cache sc') = cview (sc_cache sc)"
    and "sc_waiting sc' = sc_waiting sc" "sc_running sc' = sc_running sc" "sc_next sc' = sc_next sc"
    and core: "\<And>a. core (sc_store sc' a) = core (sc_store sc a)"
  shows "inv sc' \<and> calm sc sc'"
proof -
  have same: "waiting_at sc' a = waiting_at sc a" "running_at sc' a = running_at sc a" for a
    by (simp_all add: waiting_at_def running_at_def assms(8,9) core_cong(5) [OF core])
  have q: "queues_ok sc'"
    using invD(5) [OF assms(1)] unfolding queues_ok_def assms(8-10) core_cong(5) [OF core] .
  have "inv sc'"
    by (rule inv_frame [OF assms(1,2) _ _ assms(5) q])
      (use assms(3,4,6,7) invD(2,3,9) [OF assms(1)] core same owned_handle [OF assms(1)] in auto)
  then show ?thesis using core_cong(5,6) [OF core] by (simp add: calm_def same assms(10))
qed

lemma upd_flags:
  assumes "inv sc" "\<And>st. core (f st) = core st"
  shows "inv (upd_state a f sc) \<and> calm sc (upd_state a f sc)"
  by (rule inv_same [OF assms(1)]) (use assms(2) invD(4) [OF assms(1)] in \<open>simp_all add: upd_state_def\<close>)

text \<open>Taking a request out of a queue.\<close>

lemma deleted_queues:
  assumes q: "queues_ok sc"
    and sc': "sc_waiting sc' = AList.delete rid (sc_waiting sc)" "sc_running sc' = AList.delete rid (sc_running sc)"
      "sc_store sc' = sc_store sc" "sc_next sc' = sc_next sc"
  shows "queues_ok sc'" "waiting_at sc' b \<longleftrightarrow> waiting_at sc b \<and> id_of (sc_store sc b) \<noteq> rid"
    "running_at sc' b \<longleftrightarrow> running_at sc b \<and> id_of (sc_store sc b) \<noteq> rid"
  using queues_okD [OF q] by (auto simp: queues_ok_def waiting_at_def running_at_def sc' dict_simps split: if_splits)

lemma drop_rule:
  assumes "inv sc" "queued_at sc a" and run: "drop_request bk a sc = (res, sc')"
  shows "res = Inr () \<and> inv sc' \<and> calm sc sc' \<and> sc_store sc' = sc_store sc \<and>
    (\<forall>b. queued_at sc' b \<longleftrightarrow> queued_at sc b \<and> b \<noteq> a)"
proof -
  let ?rid = "id_of (sc_store sc a)" and ?ho = "ss_handle (sc_store sc a)"
  note I = invD [OF assms(1)]
  obtain r c' where rel: "bk_release bk ?ho (sc_cache sc) = (r, c')" by (metis surj_pair)
  have out: "res = r" "sc' = sc\<lparr>sc_waiting := AList.delete ?rid (sc_waiting sc), sc_running := AList.delete ?rid (sc_running sc), sc_cache := c'\<rparr>"
    using run rel by (simp_all add: drop_request_def Let_def on_cache_def)
  have mine: "h \<notin> held (sc_cache sc)" if "?ho = Some h" for h
    using that assms(2) I(6) [of a] owned_handle [OF assms(1), of a] by (auto simp: fresh_state_def)
  note R = release_rule [OF I(4) mine rel]
  have Q: "queues_ok sc'" "\<And>b. waiting_at sc' b \<longleftrightarrow> waiting_at sc b \<and> id_of (sc_store sc b) \<noteq> ?rid"
    "\<And>b. running_at sc' b \<longleftrightarrow> running_at sc b \<and> id_of (sc_store sc b) \<noteq> ?rid"
    by (rule deleted_queues [OF I(5)]; simp add: out(2))+
  have keep: "h \<notin> held (sc_cache sc') \<and> cview (sc_cache sc') h = cview (sc_cache sc) h"
    if "running_at sc' b" "ss_handle (sc_store sc b) = Some h" for b h
  proof -
    have b: "running_at sc b" "b \<noteq> a" using that(1) Q(3) by auto
    then have "h \<notin> held (sc_cache sc)" using owned_handle [OF assms(1)] that(2) by blast
    moreover have "?ho \<noteq> Some h"
    proof
      assume ho: "?ho = Some h"
      then have "running_at sc a" using assms(2) I(6) [of a] by (auto simp: fresh_state_def)
      then show False using I(8) [of a b] b ho that(2) by simp
    qed
    ultimately show ?thesis using R by (auto simp: out(2))
  qed
  have leak: "\<exists>b. running_at sc' b \<and> ss_handle (sc_store sc b) = Some h"
    if h: "cview (sc_cache sc') h \<noteq> None" "h \<notin> held (sc_cache sc')" for h
  proof -
    have n: "?ho \<noteq> Some h" "h \<notin> held (sc_cache sc)" "cview (sc_cache sc) h \<noteq> None"
      using R h by (auto simp: out(2) split: if_splits)
    then obtain b where b: "running_at sc b" "ss_handle (sc_store sc b) = Some h" using I(9) by blast
    then have "b \<noteq> a" using n(1) by auto
    then have "id_of (sc_store sc b) \<noteq> ?rid" using queue_inj [OF I(5), of b a] assms(2) b(1) by blast
    then show ?thesis using b Q(3) by blast
  qed
  have "inv sc'"
    by (rule inv_frame [OF assms(1) _ _ _ _ Q(1) _ _ _ keep leak]) (use I(1-8) R Q in \<open>auto simp: out(2)\<close>)
  moreover have "queued_at sc' b \<longleftrightarrow> queued_at sc b \<and> b \<noteq> a" for b
    using Q(2,3) queue_inj [OF I(5), of b a] assms(2) by blast
  moreover have "sc_store sc' = sc_store sc" "sc_next sc' = sc_next sc" by (simp_all add: out(2))
  ultimately show ?thesis using R by (simp add: out(1) calm_def)
qed

lemma reap_cancelled_loop_rule:
  assumes "inv sc" "distinct as" "\<forall>a \<in> set as. queued_at sc a"
    and "reap_cancelled_loop bk {} as evs sc = (res, sc')"
  shows "\<exists>new. res = Inr (evs @ new) \<and> (\<forall>rid. tokens_of rid new = []) \<and> inv sc' \<and> calm sc sc' \<and> sc_store sc' = sc_store sc \<and>
    (\<forall>b. queued_at sc' b \<longleftrightarrow> queued_at sc b \<and> (b \<in> set as \<longrightarrow> \<not> ss_cancel (sc_store sc b)))"
  using assms
proof (induction as arbitrary: sc evs)
  case Nil
  then show ?case by auto
next
  case (Cons a as)
  show ?case
  proof (cases "ss_cancel (sc_store sc a)")
    case False
    then have run: "reap_cancelled_loop bk {} as evs sc = (res, sc')" using Cons.prems(4) by simp
    obtain new where "res = Inr (evs @ new)" "\<forall>rid. tokens_of rid new = []" "inv sc'" "calm sc sc'" "sc_store sc' = sc_store sc"
      "\<forall>b. queued_at sc' b \<longleftrightarrow> queued_at sc b \<and> (b \<in> set as \<longrightarrow> \<not> ss_cancel (sc_store sc b))"
      using Cons.IH [OF Cons.prems(1) _ _ run] Cons.prems(2,3) by auto
    then show ?thesis using False by auto
  next
    case True
    let ?ev = "CancelledEvent (id_of (sc_store sc a)) (cancel_stage (id_of (sc_store sc a)) a sc)"
    obtain r sc1 where d: "drop_request bk a sc = (r, sc1)" by (metis surj_pair)
    note D = drop_rule [OF Cons.prems(1) _ d]
    have D: "r = Inr ()" "inv sc1" "calm sc sc1" "sc_store sc1 = sc_store sc" "\<forall>b. queued_at sc1 b \<longleftrightarrow> queued_at sc b \<and> b \<noteq> a"
      using D Cons.prems(3) by auto
    have run: "reap_cancelled_loop bk {} as (evs @ [?ev]) sc1 = (res, sc')"
      using Cons.prems(4) True d D(1) by (simp add: Let_def)
    have q: "distinct as" "\<forall>b \<in> set as. queued_at sc1 b" using Cons.prems(2,3) D(5) by auto
    obtain new where N: "res = Inr ((evs @ [?ev]) @ new)" "\<forall>rid. tokens_of rid new = []" "inv sc'" "calm sc1 sc'" "sc_store sc' = sc_store sc1"
      "\<forall>b. queued_at sc' b \<longleftrightarrow> queued_at sc1 b \<and> (b \<in> set as \<longrightarrow> \<not> ss_cancel (sc_store sc1 b))"
      using Cons.IH [OF D(2) q run] by auto
    have "\<forall>b. queued_at sc' b \<longleftrightarrow> queued_at sc b \<and> (b \<in> set (a # as) \<longrightarrow> \<not> ss_cancel (sc_store sc b))"
      using N(6) D(4,5) True by auto
    then show ?thesis
      using N D calm_trans [OF D(3) N(4)] by (intro exI [of _ "?ev # new"]) simp
  qed
qed

lemma queued_list:
  assumes "queues_ok sc"
  shows "distinct (queued sc)" "a \<in> set (queued sc) \<longleftrightarrow> queued_at sc a"
proof -
  show "a \<in> set (queued sc) \<longleftrightarrow> queued_at sc a" for a using in_queue [OF assms, of a] by (simp add: queued_def)
  show "distinct (queued sc)"
    using distinct_queued [OF assms] in_queue [OF assms] queue_ids(5) [OF assms] unfolding queued_def by auto
qed

lemma reap_cancelled_rule:
  assumes "inv sc" "reap_cancelled bk {} evs sc = (res, sc')"
  shows "\<exists>new. res = Inr (evs @ new) \<and> (\<forall>rid. tokens_of rid new = []) \<and> inv sc' \<and> calm sc sc' \<and> sc_store sc' = sc_store sc \<and>
    (\<forall>b. queued_at sc' b \<longleftrightarrow> queued_at sc b \<and> \<not> ss_cancel (sc_store sc b))"
  using reap_cancelled_loop_rule [OF assms(1) queued_list(1) _ assms(2) [unfolded reap_cancelled_def]]
    queued_list(2) [OF invD(5) [OF assms(1)]] invD(5) [OF assms(1)] by auto

text \<open>Reaping does not change who may be filled next.\<close>

lemma filter_deleted:
  assumes "\<And>a. (rid, a) \<in> set d \<Longrightarrow> \<not> P a"
  shows "filter P (dict_values (AList.delete rid d)) = filter P (dict_values d)"
  using assms by (induction d) (auto simp: AList.delete_eq)

lemma reap_keeps_candidates:
  assumes "inv sc" "reap_cancelled bk {} evs sc = (res, sc')"
  shows "prefill_candidates sc' = prefill_candidates sc \<and> sc_policy sc' = sc_policy sc \<and> sc_prefill_batch sc' = sc_prefill_batch sc"
proof -
  have "prefill_candidates sc' = prefill_candidates sc \<and> sc_policy sc' = sc_policy sc \<and> sc_prefill_batch sc' = sc_prefill_batch sc"
    if "inv sc" "distinct as" "\<forall>a \<in> set as. queued_at sc a" "reap_cancelled_loop bk {} as evs sc = (res, sc')" for as evs sc
    using that
  proof (induction as arbitrary: evs sc)
    case (Cons a as)
    show ?case
    proof (cases "ss_cancel (sc_store sc a)")
      case False
      then show ?thesis using Cons.IH [of sc evs] Cons.prems by auto
    next
      case True
      let ?rid = "id_of (sc_store sc a)"
      obtain r sc1 where d: "drop_request bk a sc = (r, sc1)" by (metis surj_pair)
      have D: "r = Inr ()" "inv sc1" "sc_store sc1 = sc_store sc" "\<forall>c. queued_at sc1 c \<longleftrightarrow> queued_at sc c \<and> c \<noteq> a"
        using drop_rule [OF Cons.prems(1) _ d] Cons.prems(3) by auto
      have rest: "reap_cancelled_loop bk {} as (evs @ [CancelledEvent ?rid (cancel_stage ?rid a sc)]) sc1 = (res, sc')"
        using Cons.prems(4) True d D(1) by (simp add: Let_def)
      have q: "distinct as" "\<forall>c \<in> set as. queued_at sc1 c" using Cons.prems(2,3) D(4) by auto
      have Q: "queues_ok sc" by (rule invD(5) [OF Cons.prems(1)])
      have gone: "ss_cancel (sc_store sc b)" if "(?rid, b) \<in> set (sc_waiting sc) \<or> (?rid, b) \<in> set (sc_running sc)" for b
      proof -
        have "queued_at sc b" "id_of (sc_store sc b) = ?rid"
          using that queue_ids(1,2) [OF Q, of ?rid b] by (auto simp: dict_get_iff [OF queues_okD(1) [OF Q]] dict_get_iff [OF queues_okD(2) [OF Q]])
        then have "b = a" using queue_inj [OF Q, of b a] Cons.prems(3) by simp
        then show ?thesis using True by simp
      qed
      have "sc_waiting sc1 = AList.delete ?rid (sc_waiting sc)" "sc_running sc1 = AList.delete ?rid (sc_running sc)"
        "sc_policy sc1 = sc_policy sc" "sc_prefill_batch sc1 = sc_prefill_batch sc"
        using d by (auto simp: drop_request_def Let_def on_cache_def split: prod.splits)
      then have "prefill_candidates sc1 = prefill_candidates sc \<and> sc_policy sc1 = sc_policy sc \<and> sc_prefill_batch sc1 = sc_prefill_batch sc"
        unfolding prefill_candidates_def D(3) using gone by (simp add: filter_deleted)
      then show ?thesis using Cons.IH [OF D(2) q rest] by simp
    qed
  qed simp
  from this [OF assms(1) _ _ assms(2) [unfolded reap_cancelled_def]] show ?thesis
    using queued_list [OF invD(5) [OF assms(1)]] by blast
qed

text \<open>Ordering the candidates: only the prefix index and the probes change.\<close>

lemma score_states_rule:
  assumes "inv sc" "score_states bk as sc = (scores, sc')"
  shows "map fst scores = as \<and> inv sc' \<and> calm sc sc' \<and> only_probes sc sc'"
  using assms
proof (induction as arbitrary: sc scores)
  case Nil
  then show ?case by simp
next
  case (Cons a as)
  show ?case
  proof (cases "sc_policy sc = LPM")
    case True
    obtain p sc1 where one: "on_cache (bk_probe bk (sq_prompt (ss_work (sc_store sc a)))) sc = (p, sc1)" by (metis surj_pair)
    then obtain c' where c': "bk_probe bk (sq_prompt (ss_work (sc_store sc a))) (sc_cache sc) = (p, c')" "sc1 = sc\<lparr>sc_cache := c'\<rparr>"
      by (auto simp: on_cache_def split: prod.splits)
    let ?sc2 = "upd_state a (ss_probe_update (\<lambda>_. Some p)) sc1"
    obtain rest sc3 where rec: "score_states bk as ?sc2 = (rest, sc3)" by (metis surj_pair)
    note P = probe_rule [OF invD(4) [OF Cons.prems(1)] c'(1)]
    have s2: "inv ?sc2 \<and> calm sc ?sc2"
      by (rule inv_same [OF Cons.prems(1)]) (use P in \<open>simp_all add: c'(2) upd_state_def\<close>)
    have o2: "only_probes sc ?sc2" by (simp add: only_probes_def c'(2) upd_state_def)
    have out: "map fst scores = a # map fst rest" "sc3 = sc'"
      using Cons.prems(2) True one rec by (auto simp: Let_def)
    note IH = Cons.IH [OF conjunct1 [OF s2] rec [unfolded out(2)]]
    then show ?thesis using out(1) calm_trans [of sc ?sc2 sc'] s2 only_probes_trans [OF o2] by simp
  next
    case False
    obtain rest sc3 where rec: "score_states bk as sc = (rest, sc3)" by (metis surj_pair)
    have out: "map fst scores = a # map fst rest" "sc3 = sc'"
      using Cons.prems(2) False rec by (cases "sc_policy sc"; auto simp: Let_def)+
    then show ?thesis using Cons.IH [OF Cons.prems(1) rec [unfolded out(2)]] by simp
  qed
qed

lemma order_states_rule:
  assumes "inv sc" "order_states bk as sc = (as', sc')"
  shows "mset as' = mset as \<and> inv sc' \<and> calm sc sc' \<and> only_probes sc sc'"
proof (cases "sc_policy sc = FCFS")
  case True
  then show ?thesis using assms by (simp add: order_states_def only_probes_def)
next
  case False
  obtain scores sc1 where s: "score_states bk as sc = (scores, sc1)" by (metis surj_pair)
  note R = score_states_rule [OF assms(1) s]
  have "as' = map fst (sorted_reverse snd scores)" "sc' = sc1" using assms(2) False s by (simp_all add: order_states_def)
  then show ?thesis using R by (metis mset_map mset_sorted_reverse)
qed

text \<open>Admission.\<close>

lemma admit_run:
  assumes "inv sc" "admit bk a sc = (res, sc')"
  obtains c1 c' and adm :: cache_admission and x where "res = Inr ()" "cok c1" "held c1 = held (sc_cache sc)" "cview c1 = cview (sc_cache sc)"
    "cok c'" "held c' = held (sc_cache sc)" "cview (sc_cache sc) (ca_cache_handle adm) = None"
    "cview c' = (cview (sc_cache sc))(ca_cache_handle adm \<mapsto> x)" "ca_cache_length adm = ca_reused_tokens adm"
    "ca_reused_tokens adm \<le> length (prompt_of (sc_store sc a))"
    "good (take (ca_reused_tokens adm) (prompt_of (sc_store sc a))) x"
    "sc' = sc\<lparr>sc_waiting := AList.delete (id_of (sc_store sc a)) (sc_waiting sc),
       sc_cache := c',
       sc_store := (sc_store sc)(a := (sc_store sc a)\<lparr>ss_probe := None, ss_handle := Some (ca_cache_handle adm),
         ss_cache_length := ca_cache_length adm, ss_reused := ca_reused_tokens adm, ss_cursor := ca_reused_tokens adm\<rparr>),
       sc_running := AList.update (id_of (sc_store sc a)) a (sc_running sc)\<rparr>"
proof -
  let ?st = "sc_store sc a"
  let ?sc1 = "sc\<lparr>sc_waiting := AList.delete (id_of ?st) (sc_waiting sc)\<rparr>"
  obtain p sc2 where p: "(case ss_probe ?st of Some p \<Rightarrow> (p, ?sc1) | None \<Rightarrow> on_cache (bk_probe bk (prompt_of ?st)) ?sc1) = (p, sc2)"
    by (metis surj_pair)
  then obtain c1 where c1: "sc2 = ?sc1\<lparr>sc_cache := c1\<rparr>" "cok c1" "held c1 = held (sc_cache sc)" "cview c1 = cview (sc_cache sc)"
  proof (cases "ss_probe ?st")
    case None
    obtain q c1 where q: "bk_probe bk (prompt_of ?st) (sc_cache sc) = (q, c1)" by (metis surj_pair)
    then show ?thesis
      using that [of c1] p None probe_rule [OF invD(4) [OF assms(1)] q] by (simp add: on_cache_def)
  next
    case (Some q)
    then show ?thesis using that [of "sc_cache sc"] p invD(4) [OF assms(1)] by simp
  qed
  obtain r c' where aq: "bk_acquire bk (id_of ?st) (prompt_of ?st) (Some p) c1 = (r, c')" by (metis surj_pair)
  from acquire_rule [OF c1(2) aq] obtain adm x where A: "r = Inr adm" "cok c'" "held c' = held c1" "cview c1 (ca_cache_handle adm) = None"
    "cview c' = (cview c1)(ca_cache_handle adm \<mapsto> x)" "ca_cache_length adm = ca_reused_tokens adm"
    "ca_reused_tokens adm \<le> length (prompt_of ?st)" "good (take (ca_reused_tokens adm) (prompt_of ?st)) x" by blast
  have "(res, sc') = (Inr (), sc\<lparr>sc_waiting := AList.delete (id_of ?st) (sc_waiting sc),
       sc_cache := c',
       sc_store := (sc_store sc)(a := ?st\<lparr>ss_probe := None, ss_handle := Some (ca_cache_handle adm),
         ss_cache_length := ca_cache_length adm, ss_reused := ca_reused_tokens adm, ss_cursor := ca_reused_tokens adm\<rparr>),
       sc_running := AList.update (id_of ?st) a (sc_running sc)\<rparr>)"
    using assms(2) p aq A(1) by (simp add: admit_def Let_def c1(1) bind_err_def on_cache_def upd_state_def)
  then show ?thesis using that [of c1 c' adm x] c1 A by simp
qed

lemma admit_rule:
  assumes "inv sc" "waiting_at sc a" "admit bk a sc = (res, sc')"
  shows "res = Inr () \<and> inv sc' \<and> calm sc sc' \<and> running_at sc' a \<and> (\<forall>b. waiting_at sc' b \<longleftrightarrow> waiting_at sc b \<and> b \<noteq> a) \<and>
    (\<forall>b. running_at sc' b \<longleftrightarrow> running_at sc b \<or> b = a) \<and> (\<forall>b. b \<noteq> a \<longrightarrow> sc_store sc' b = sc_store sc b) \<and>
    (\<forall>b. ss_cancel (sc_store sc' b) = ss_cancel (sc_store sc b) \<and> ss_finish (sc_store sc' b) = ss_finish (sc_store sc b)) \<and>
    sc_prefill_step sc' = sc_prefill_step sc"
proof -
  note I = invD [OF assms(1)]
  let ?st = "sc_store sc a"
  obtain c1 c' and adm :: cache_admission and x where A: "res = Inr ()" "cok c1" "held c1 = held (sc_cache sc)" "cview c1 = cview (sc_cache sc)"
    "cok c'" "held c' = held (sc_cache sc)" "cview (sc_cache sc) (ca_cache_handle adm) = None"
    "cview c' = (cview (sc_cache sc))(ca_cache_handle adm \<mapsto> x)" "ca_cache_length adm = ca_reused_tokens adm"
    "ca_reused_tokens adm \<le> length (prompt_of ?st)" "good (take (ca_reused_tokens adm) (prompt_of ?st)) x"
    and sc': "sc' = sc\<lparr>sc_waiting := AList.delete (id_of ?st) (sc_waiting sc),
       sc_cache := c',
       sc_store := (sc_store sc)(a := ?st\<lparr>ss_probe := None, ss_handle := Some (ca_cache_handle adm),
         ss_cache_length := ca_cache_length adm, ss_reused := ca_reused_tokens adm, ss_cursor := ca_reused_tokens adm\<rparr>),
       sc_running := AList.update (id_of ?st) a (sc_running sc)\<rparr>"
    by (rule admit_run [OF assms(1,3)])
  have work: "ss_work (sc_store sc' b) = ss_work (sc_store sc b)" for b by (simp add: sc')
  have fresh: "fresh_state ?st" by (rule I(6) [OF assms(2)])
  have W: "waiting_at sc' b \<longleftrightarrow> waiting_at sc b \<and> b \<noteq> a" for b
    using assms(2) queue_inj [OF I(5), of b a] by (auto simp: waiting_at_def work sc' dict_simps)
  have R: "running_at sc' b \<longleftrightarrow> running_at sc b \<or> b = a" for b
    using assms(2) queue_inj [OF I(5), of b a] queue_ids(5) [OF I(5) assms(2)]
    by (auto simp: running_at_def work sc' dict_simps)
  have Q: "queues_ok sc'"
    using queues_okD [OF I(5)] queue_ids(3) [OF I(5) assms(2)]
    by (auto simp: queues_ok_def sc' dict_simps split: if_splits)
  have new: "owns held cview good nt c' (sc_store sc' a)"
    using fresh A held_live [OF invD(4) [OF assms(1)], of "ca_cache_handle adm"]
    by (auto simp: owns_def state_ok_def fed_def fresh_state_def sc')
  have old: "owns held cview good nt c' (sc_store sc' b) \<and> ss_handle (sc_store sc' b) \<noteq> Some (ca_cache_handle adm)"
    if r: "running_at sc b" and ne: "b \<noteq> a" for b
  proof -
    obtain h y where h: "state_ok nt (sc_store sc b)" "ss_handle (sc_store sc b) = Some h" "h \<notin> held (sc_cache sc)"
      "cview (sc_cache sc) h = Some y" "good (fed nt (sc_store sc b)) y"
      using I(7) [OF r] by (auto simp: owns_def)
    then have "h \<noteq> ca_cache_handle adm" using A(7) by auto
    then show ?thesis using h ne by (simp add: owns_def sc' A(6,8))
  qed
  have one: "ss_handle (sc_store sc' a) = Some (ca_cache_handle adm)" by (simp add: sc')
  have "inv sc'"
    unfolding serve_inv_def
  proof (intro conjI allI impI)
    show "\<not> sc_overlap sc'" "sc_in_flight sc' = None" "sc_pending sc' = []" "cok (sc_cache sc')" "queues_ok sc'"
      using I A Q by (simp_all add: sc')
    show "fresh_state (sc_store sc' b)" if "waiting_at sc' b" for b
      using I(6) [of b] that W by (simp add: sc')
    show "owns held cview good nt (sc_cache sc') (sc_store sc' b)" if "running_at sc' b" for b
      using that R new old by (cases "b = a") (simp_all add: sc')
    show "b = b'" if "running_at sc' b" "running_at sc' b'" "ss_handle (sc_store sc' b) = ss_handle (sc_store sc' b')" for b b'
      using that R old one I(8) [of b b'] by (cases "b = a"; cases "b' = a") (auto simp: sc')
    show "h \<in> held (sc_cache sc') \<or> (\<exists>b. running_at sc' b \<and> ss_handle (sc_store sc' b) = Some h)"
      if h: "cview (sc_cache sc') h \<noteq> None" for h
    proof (cases "h = ca_cache_handle adm")
      case True
      then show ?thesis using R one by blast
    next
      case False
      then have "cview (sc_cache sc) h \<noteq> None" using h by (simp add: sc' A(8))
      then consider "h \<in> held (sc_cache sc)" | b where "running_at sc b" "ss_handle (sc_store sc b) = Some h" using I(9) by blast
      then show ?thesis
      proof cases
        case 1
        then show ?thesis by (simp add: sc' A(6))
      next
        case (2 b)
        then have "b \<noteq> a" using queue_ids(5) [OF I(5) assms(2)] by auto
        then show ?thesis using 2 R by (intro disjI2 exI [of _ b]) (simp add: sc')
      qed
    qed
  qed
  moreover have "calm sc sc'" unfolding calm_def using W R assms(2) by (auto simp: sc')
  ultimately show ?thesis using A(1) W R by (simp add: sc')
qed

text \<open>Selection.\<close>

lemma picked_keep:
  assumes "picked sc w" "sc_store sc' (sw_state w) = sc_store sc (sw_state w)" "running_at sc' (sw_state w)"
    "sc_prefill_step sc' = sc_prefill_step sc"
  shows "picked sc' w"
  using assms by (simp add: picked_def)

lemma select_prefill_rule:
  assumes "inv sc" "\<forall>a \<in> set as. fillable sc a" "\<forall>w \<in> set acc. picked sc w" "distinct (map sw_state acc @ as)"
    and "select_prefill bk as acc sc = (res, sc')"
  shows "\<exists>sel. res = Inr sel \<and> inv sc' \<and> calm sc sc' \<and> (\<forall>w \<in> set sel. picked sc' w) \<and> map sw_state sel = map sw_state acc @ as \<and>
    (\<forall>b. running_at sc b \<longrightarrow> core (sc_store sc' b) = core (sc_store sc b))"
  using assms
proof (induction as arbitrary: sc acc)
  case Nil
  then show ?case by auto
next
  case (Cons a as)
  let ?m = "if ss_handle (sc_store sc a) = None then admit bk a else (\<lambda>sc. (Inr (), sc))"
  obtain r sc1 where one: "?m sc = (r, sc1)" by (metis surj_pair)
  have fill: "fillable sc a" using Cons.prems(2) by simp
  note I = invD [OF Cons.prems(1)]
  have step: "r = Inr () \<and> inv sc1 \<and> calm sc sc1 \<and> running_at sc1 a \<and> (\<forall>b. waiting_at sc1 b \<longleftrightarrow> waiting_at sc b \<and> b \<noteq> a) \<and>
    (\<forall>b. running_at sc1 b \<longleftrightarrow> running_at sc b \<or> b = a) \<and> (\<forall>b. b \<noteq> a \<longrightarrow> sc_store sc1 b = sc_store sc b) \<and>
    (\<forall>b. ss_cancel (sc_store sc1 b) = ss_cancel (sc_store sc b) \<and> ss_finish (sc_store sc1 b) = ss_finish (sc_store sc b)) \<and>
    sc_prefill_step sc1 = sc_prefill_step sc"
  proof (cases "ss_handle (sc_store sc a) = None")
    case True
    then have "waiting_at sc a" using fill I(7) [of a] by (auto simp: fillable_def owns_def)
    then show ?thesis using admit_rule [OF Cons.prems(1)] one True by simp
  next
    case False
    then have "running_at sc a" "\<not> waiting_at sc a" using fill I(6) [of a] by (auto simp: fillable_def fresh_state_def)
    then show ?thesis using one False Cons.prems(1) by auto
  qed
  let ?w = "prefill_work (sc_prefill_step sc1) a (sc_store sc1 a)"
  have gen: "ss_generated (sc_store sc1 a) = 0"
    using step fill I(6) [of a] by (auto simp: fillable_def calm_def fresh_state_def)
  have pw: "picked sc1 ?w" using step fill gen by (simp add: picked_def fillable_def)
  have acc1: "\<forall>v \<in> set (acc @ [?w]). picked sc1 v"
  proof
    fix v assume v: "v \<in> set (acc @ [?w])"
    show "picked sc1 v"
    proof (cases "v = ?w")
      case False
      then have m: "v \<in> set acc" using v by simp
      then have "sw_state v \<noteq> a" using Cons.prems(4) by force
      moreover have p: "picked sc v" using Cons.prems(3) m by blast
      then have "running_at sc (sw_state v)" by (simp add: picked_def)
      ultimately show ?thesis using picked_keep [OF p, of sc1] step by simp
    qed (use pw in simp)
  qed
  have fill1: "\<forall>b \<in> set as. fillable sc1 b"
  proof
    fix b assume b: "b \<in> set as"
    then have ne: "b \<noteq> a" using Cons.prems(4) by auto
    have "fillable sc b" using Cons.prems(2) b by simp
    then show "fillable sc1 b" using step ne unfolding fillable_def by simp
  qed
  have d1: "distinct (map sw_state (acc @ [?w]) @ as)" using Cons.prems(4) by auto
  have run: "select_prefill bk as (acc @ [?w]) sc1 = (res, sc')"
    using Cons.prems(5) one step by simp
  have inv1: "inv sc1" using step by blast
  have same: "running_at sc1 b \<and> sc_store sc1 b = sc_store sc b" if "running_at sc b" for b
  proof (cases "b = a")
    case True
    then have "ss_handle (sc_store sc a) \<noteq> None" using that I(7) [of a] by (auto simp: owns_def)
    then have "sc1 = sc" using one by (simp del: not_None_eq)
    then show ?thesis using that by simp
  next
    case False
    then show ?thesis using step that by simp
  qed
  from Cons.IH [OF inv1 fill1 acc1 d1 run] show ?case using step calm_trans [of sc sc1 sc'] same by auto
qed

lemma select_work_rule:
  assumes "inv sc" "select_work bk sc = (res, sc')"
  shows "\<exists>sel. res = Inr sel \<and> inv sc' \<and> calm sc sc' \<and> (\<forall>w \<in> set sel. picked sc' w) \<and> distinct (map sw_state sel) \<and>
    (\<forall>a. queued_at sc a \<longrightarrow> ss_cache_length (sc_store sc a) \<le> ss_cache_length (sc_store sc' a)) \<and>
    (\<forall>a. running_at sc a \<longrightarrow> decode_ready (sc_store sc a) \<longrightarrow> a \<in> sw_state ` set sel) \<and>
    (sc_policy sc = FCFS \<longrightarrow> 0 < sc_prefill_batch sc \<longrightarrow> prefill_candidates sc \<noteq> [] \<longrightarrow> hd (prefill_candidates sc) \<in> sw_state ` set sel)"
proof -
  note I = invD [OF assms(1)]
  let ?dec = "filter (\<lambda>a. decode_ready (sc_store sc a)) (dict_values (sc_running sc))"
  let ?sel = "map (\<lambda>a. decode_work a (sc_store sc a)) ?dec"
  let ?cand = "prefill_candidates sc"
  let ?limit = "if ?sel \<noteq> [] \<and> sc_prioritize_decode sc then 1 else sc_prefill_batch sc"
  obtain ordered sc1 where o: "order_states bk ?cand sc = (ordered, sc1)" by (metis surj_pair)
  have run: "select_prefill bk (take ?limit ordered) ?sel sc1 = (res, sc')"
    using assms(2) o by (simp add: select_work_def Let_def)
  note O = order_states_rule [OF assms(1) o]
  have at: "waiting_at sc1 a = waiting_at sc a" "running_at sc1 a = running_at sc a" for a
    using only_probes_at O by blast+
  have same: "core (sc_store sc1 a) = core (sc_store sc a)" "ss_cancel (sc_store sc1 a) = ss_cancel (sc_store sc a)"
    "ss_finish (sc_store sc1 a) = ss_finish (sc_store sc a)" for a
    using O by (simp_all add: only_probes_def)
  have dec: "a \<in> set ?dec \<Longrightarrow> running_at sc a \<and> decode_ready (sc_store sc a)" for a
    using in_queue(2) [OF I(5)] by auto
  have states: "map sw_state ?sel = ?dec" by (simp add: comp_def)
  have picks: "\<forall>w \<in> set ?sel. picked sc1 w"
  proof
    fix w assume "w \<in> set ?sel"
    then obtain a where a: "a \<in> set ?dec" "w = decode_work a (sc_store sc a)" by auto
    have "decode_work a (sc_store sc1 a) = decode_work a (sc_store sc a)"
      using core_cong [OF same(1) [of a]] by (simp add: decode_work_def)
    then show "picked sc1 w"
      using dec [OF a(1)] same [of a] core_cong(8) [OF same(1) [of a]] by (auto simp: picked_def a(2) at decode_ready_def)
  qed
  have cand: "fillable sc a \<and> \<not> (running_at sc a \<and> decode_ready (sc_store sc a))" if "a \<in> set ?cand" for a
  proof -
    have a: "(running_at sc a \<and> ss_cursor (sc_store sc a) < length (prompt_of (sc_store sc a)) \<or> waiting_at sc a)"
      "\<not> ss_cancel (sc_store sc a)" "\<not> ss_finish (sc_store sc a)"
      using that in_queue [OF I(5)] by (auto simp: prefill_candidates_def Let_def)
    show ?thesis
    proof (cases "waiting_at sc a")
      case True
      then show ?thesis using a queue_ids(5) [OF I(5)] by (simp add: fillable_def)
    next
      case False
      then have r: "running_at sc a" "ss_cursor (sc_store sc a) < length (prompt_of (sc_store sc a))" using a(1) by auto
      then have "state_ok nt (sc_store sc a)" using I(7) by (auto simp: owns_def)
      then have "ss_generated (sc_store sc a) = 0" "ss_last_token (sc_store sc a) = None"
        using r(2) by (auto simp: state_ok_def split: nat.splits)
      then show ?thesis using a r by (simp add: fillable_def decode_ready_def)
    qed
  qed
  have dc: "distinct ?cand"
    using distinct_queued [OF I(5)] in_queue [OF I(5)] queue_ids(5) [OF I(5)] by (auto simp: prefill_candidates_def)
  have set_o: "set ordered = set ?cand" "distinct ordered"
    using O dc by (metis set_mset_mset, metis mset_eq_imp_distinct_iff)
  have fill: "\<forall>a \<in> set (take ?limit ordered). fillable sc1 a"
  proof
    fix a assume "a \<in> set (take ?limit ordered)"
    then have "fillable sc a" using cand set_o(1) in_set_takeD by fastforce
    then show "fillable sc1 a" using same [of a] core_cong(6) [OF same(1) [of a]] by (simp add: fillable_def at)
  qed
  have dd: "distinct (map sw_state ?sel @ take ?limit ordered)"
    unfolding states using set_o distinct_queued(2) [OF I(5)] dec cand by (auto dest!: in_set_takeD)
  obtain sel where S: "res = Inr sel" "inv sc'" "calm sc1 sc'" "\<forall>w \<in> set sel. picked sc' w"
    "map sw_state sel = map sw_state ?sel @ take ?limit ordered" "\<forall>b. running_at sc1 b \<longrightarrow> core (sc_store sc' b) = core (sc_store sc1 b)"
    using select_prefill_rule [OF _ fill picks dd run] O by blast
  have sel: "sw_state ` set sel = set ?dec \<union> set (take ?limit ordered)"
    using arg_cong [OF S(5), of set] states by simp
  have "ss_cache_length (sc_store sc a) \<le> ss_cache_length (sc_store sc' a)" if "queued_at sc a" for a
  proof (cases "running_at sc a")
    case True
    then have "core (sc_store sc' a) = core (sc_store sc a)" using S(6) same(1) at by simp
    then show ?thesis using core_cong(9) by (metis order_refl)
  next
    case False
    then show ?thesis using I(6) [of a] that by (simp add: fresh_state_def)
  qed
  moreover have "a \<in> sw_state ` set sel" if "running_at sc a" "decode_ready (sc_store sc a)" for a
    using that in_queue(2) [OF I(5)] unfolding sel by simp
  moreover have "hd ?cand \<in> sw_state ` set sel" if "sc_policy sc = FCFS" "0 < sc_prefill_batch sc" "?cand \<noteq> []"
  proof -
    have "ordered = ?cand" using o that(1) by (auto simp: order_states_def)
    moreover have "0 < ?limit" using that(2) by simp
    ultimately have "hd ?cand \<in> set (take ?limit ordered)" using that(3) by (cases ?cand; cases ?limit) simp_all
    then show ?thesis unfolding sel by simp
  qed
  moreover have "calm sc sc'" using S(3) calm_trans [of sc sc1 sc'] O by blast
  moreover have "distinct (map sw_state sel)" unfolding S(5) by (rule dd)
  ultimately show ?thesis using S(1,2,4) by (intro exI [of _ sel]) blast
qed

end

end
