(* ===== verification/SchedStep.thy ===== *)
theory SchedStep
  imports SchedInv
begin

text \<open>
  One step of the scheduler: the selected work is executed, the results are applied to the states, and the
  events are emitted.  The invariant is kept, and every token that is emitted is the next one
  of the greedy continuation.
\<close>

subsection \<open>Applying results\<close>

definition entry_of :: "step_result \<Rightarrow> selected_work \<Rightarrow> step_request_result option" where
  "entry_of result w = results_by_id (st_results result) (er_request_id (sw_request w))"

definition failed :: "step_result \<Rightarrow> selected_work \<Rightarrow> bool" where
  "failed result w \<longleftrightarrow> result_error (sw_request w) (entry_of result w) \<noteq> None"

definition errs :: "string \<Rightarrow> scheduler_event list \<Rightarrow> bool" where
  "errs rid evs \<longleftrightarrow> (\<exists>code message. ErrorEvent rid code message \<in> set evs)"

lemma errs_simps [simp]: "errs rid (xs @ ys) \<longleftrightarrow> errs rid xs \<or> errs rid ys" "errs rid (ErrorEvent rid c p # xs)"
  "errs rid xs \<Longrightarrow> errs rid (ev # xs)"
  by (auto simp: errs_def)

lemma apply_item_cong: "sc_overlap sc' = sc_overlap sc \<Longrightarrow> sc_terminal sc' = sc_terminal sc \<Longrightarrow> apply_item sc' = apply_item sc"
  by (simp add: fun_eq_iff apply_item_def mark_generated_def Let_def split: phase.split)

lemma advance_spec:
  assumes "distinct (map sw_state ws)"
    and "\<forall>w \<in> set ws. \<not> ss_cancel (sc_store sc (sw_state w)) \<and> \<not> ss_finish (sc_store sc (sw_state w))"
    and "advance_step_state ws result evs sc = (applied, evs', sc')"
  shows "(\<exists>new. evs' = evs @ new \<and> (\<forall>rid. tokens_of rid new = []) \<and>
       (\<forall>w \<in> set ws. failed result w \<longrightarrow> errs (id_of (sc_store sc (sw_state w))) new)) \<and>
    (\<exists>store. sc' = sc\<lparr>sc_store := store\<rparr> \<and> (\<forall>a. a \<notin> sw_state ` set ws \<longrightarrow> store a = sc_store sc a) \<and>
       (\<forall>w \<in> set ws. store (sw_state w) =
          (if failed result w then (sc_store sc (sw_state w))\<lparr>ss_finish := True\<rparr>
           else apply_item sc (sw_request w) (the (entry_of result w)) (sc_store sc (sw_state w))))) \<and>
    applied = map (\<lambda>w. (w, the (entry_of result w))) (filter (\<lambda>w. \<not> failed result w) ws)"
  using assms
proof (induction ws arbitrary: evs sc applied)
  case Nil
  then show ?case by (auto intro: exI [of _ "sc_store sc"])
next
  case (Cons w ws)
  let ?a = "sw_state w"
  let ?st = "sc_store sc ?a"
  have rest: "distinct (map sw_state ws)" "?a \<notin> sw_state ` set ws" using Cons.prems(1) by auto
  have ne: "sw_state v \<noteq> ?a" if "v \<in> set ws" for v using that rest(2) by (metis image_eqI)
  have live: "\<not> ss_cancel ?st" "\<not> ss_finish ?st" using Cons.prems(2) by auto
  show ?case
  proof (cases "result_error (sw_request w) (entry_of result w)")
    case (Some p)
    obtain code message where p: "p = (code, message)" by (cases p)
    let ?sc1 = "upd_state ?a (ss_finish_update (\<lambda>_. True)) sc"
    let ?ev = "ErrorEvent (id_of ?st) code message"
    have run: "advance_step_state ws result (evs @ [?ev]) ?sc1 = (applied, evs', sc')"
      using Cons.prems(3) live Some by (simp add: entry_of_def p Let_def)
    have flags: "\<forall>v \<in> set ws. \<not> ss_cancel (sc_store ?sc1 (sw_state v)) \<and> \<not> ss_finish (sc_store ?sc1 (sw_state v))"
      using Cons.prems(2) ne by (simp add: upd_state_def)
    note IH = Cons.IH [OF rest(1) flags run]
    have F: "failed result w" by (simp add: failed_def Some)
    obtain new store where IH': "evs' = (evs @ [?ev]) @ new" "\<forall>rid. tokens_of rid new = []"
      "\<forall>v \<in> set ws. failed result v \<longrightarrow> errs (id_of (sc_store ?sc1 (sw_state v))) new" "sc' = ?sc1\<lparr>sc_store := store\<rparr>"
      "\<forall>a. a \<notin> sw_state ` set ws \<longrightarrow> store a = sc_store ?sc1 a"
      "\<forall>v \<in> set ws. store (sw_state v) =
          (if failed result v then (sc_store ?sc1 (sw_state v))\<lparr>ss_finish := True\<rparr>
           else apply_item ?sc1 (sw_request v) (the (entry_of result v)) (sc_store ?sc1 (sw_state v)))"
      "applied = map (\<lambda>w. (w, the (entry_of result w))) (filter (\<lambda>w. \<not> failed result w) ws)"
      using IH by blast
    have ap: "apply_item ?sc1 = apply_item sc" by (rule apply_item_cong) (simp_all add: upd_state_def)
    have other: "sc_store ?sc1 (sw_state v) = sc_store sc (sw_state v)" if "v \<in> set ws" for v
      using ne [OF that] by (simp add: upd_state_def)
    have "\<forall>v \<in> set (w # ws). store (sw_state v) =
          (if failed result v then (sc_store sc (sw_state v))\<lparr>ss_finish := True\<rparr>
           else apply_item sc (sw_request v) (the (entry_of result v)) (sc_store sc (sw_state v)))"
      using IH'(5,6) rest(2) F by (simp add: ap other) (simp add: upd_state_def)
    moreover have "\<forall>a. a \<notin> sw_state ` set (w # ws) \<longrightarrow> store a = sc_store sc a"
      using IH'(5) by (simp add: upd_state_def)
    moreover have "sc' = sc\<lparr>sc_store := store\<rparr>" using IH'(4) by (simp add: upd_state_def)
    moreover have "evs' = evs @ (?ev # new)" "\<forall>rid. tokens_of rid (?ev # new) = []" using IH'(1,2) by simp_all
    moreover have "\<forall>v \<in> set (w # ws). failed result v \<longrightarrow> errs (id_of (sc_store sc (sw_state v))) (?ev # new)"
      using IH'(3) other by simp
    ultimately show ?thesis using IH'(7) F by auto
  next
    case None
    let ?item = "the (entry_of result w)"
    let ?sc1 = "upd_state ?a (apply_item sc (sw_request w) ?item) sc"
    obtain rest_applied where run: "advance_step_state ws result evs ?sc1 = (rest_applied, evs', sc')" "applied = (w, ?item) # rest_applied"
      using Cons.prems(3) live None by (auto simp: entry_of_def Let_def split: prod.splits)
    have flags: "\<forall>v \<in> set ws. \<not> ss_cancel (sc_store ?sc1 (sw_state v)) \<and> \<not> ss_finish (sc_store ?sc1 (sw_state v))"
      using Cons.prems(2) ne by (simp add: upd_state_def)
    note IH = Cons.IH [OF rest(1) flags run(1)]
    have F: "\<not> failed result w" by (simp add: failed_def None)
    obtain new store where IH': "evs' = evs @ new" "\<forall>rid. tokens_of rid new = []" "sc' = ?sc1\<lparr>sc_store := store\<rparr>"
      "\<forall>v \<in> set ws. failed result v \<longrightarrow> errs (id_of (sc_store ?sc1 (sw_state v))) new"
      "\<forall>a. a \<notin> sw_state ` set ws \<longrightarrow> store a = sc_store ?sc1 a"
      "\<forall>v \<in> set ws. store (sw_state v) =
          (if failed result v then (sc_store ?sc1 (sw_state v))\<lparr>ss_finish := True\<rparr>
           else apply_item ?sc1 (sw_request v) (the (entry_of result v)) (sc_store ?sc1 (sw_state v)))"
      "rest_applied = map (\<lambda>w. (w, the (entry_of result w))) (filter (\<lambda>w. \<not> failed result w) ws)"
      using IH by blast
    have ap: "apply_item ?sc1 = apply_item sc" by (rule apply_item_cong) (simp_all add: upd_state_def)
    have other: "sc_store ?sc1 (sw_state v) = sc_store sc (sw_state v)" if "v \<in> set ws" for v
      using ne [OF that] by (simp add: upd_state_def)
    have "\<forall>v \<in> set (w # ws). store (sw_state v) =
          (if failed result v then (sc_store sc (sw_state v))\<lparr>ss_finish := True\<rparr>
           else apply_item sc (sw_request v) (the (entry_of result v)) (sc_store sc (sw_state v)))"
      using IH'(5,6) rest(2) F by (simp add: ap other) (simp add: upd_state_def)
    moreover have "\<forall>a. a \<notin> sw_state ` set (w # ws) \<longrightarrow> store a = sc_store sc a"
      using IH'(5) by (simp add: upd_state_def)
    moreover have "sc' = sc\<lparr>sc_store := store\<rparr>" using IH'(3) by (simp add: upd_state_def)
    moreover have "\<forall>v \<in> set (w # ws). failed result v \<longrightarrow> errs (id_of (sc_store sc (sw_state v))) new"
      using IH'(4) other F by simp
    ultimately show ?thesis using IH'(1,2,7) run(2) F by auto
  qed
qed

lemma advance_kept:
  assumes "distinct (map sw_state ws)"
    and "\<forall>w \<in> set ws. \<not> ss_cancel (sc_store sc (sw_state w)) \<and> \<not> ss_finish (sc_store sc (sw_state w))"
    and "advance_step_state ws result evs sc = (applied, evs', sc')" "(w, item) \<in> set applied"
  shows "\<not> failed result w"
  using advance_spec [OF assms(1-3)] assms(4) by auto

subsection \<open>One result\<close>

lemma greedy_Suc: "greedy nt prompt (Suc n) = greedy nt prompt n @ [nt (prompt @ greedy nt prompt n)]"
  by simp

text \<open>A result that extends what was fed by the tokens of the work keeps the state right, and
  generates the next greedy token when the prompt is complete.\<close>

definition next_state :: "(token list \<Rightarrow> token) \<Rightarrow> phase \<Rightarrow> token list \<Rightarrow> sched_state \<Rightarrow> sched_state \<Rightarrow> bool" where
  "next_state nt ph toks st st' \<longleftrightarrow> state_ok nt st' \<and> fed nt st' = fed nt st @ toks \<and> ss_handle st' = ss_handle st \<and>
     ss_work st' = ss_work st \<and> ss_cancel st' = ss_cancel st \<and> ss_finish st' = ss_finish st \<and>
     ss_generated st' = ss_generated st + (if ph = Decode \<or> ss_cursor st' = length (prompt_of st') then 1 else 0)"

lemma apply_decode:
  assumes "state_ok nt st" "ss_last_token st \<noteq> None" "\<not> sc_overlap sc"
  shows "next_state nt Decode [the (ss_last_token st)] st
    (apply_item sc (sw_request (decode_work a st))
      (step_done (sw_request (decode_work a st)) (length (fed nt st) + 1) (nt (fed nt st @ [the (ss_last_token st)]))) st)"
proof -
  obtain n where n: "ss_generated st = Suc n" using assms(1,2) by (cases "ss_generated st") (auto simp: state_ok_def)
  then have s: "ss_cursor st = length (prompt_of st)" "ss_last_token st = Some (nt (prompt_of st @ greedy nt (prompt_of st) n))"
    using assms(1) by (simp_all add: state_ok_def)
  then show ?thesis
    using n assms(3) by (simp add: next_state_def decode_work_def step_done_def apply_item_def mark_generated_def Let_def
        state_ok_def fed_def)
qed

lemma apply_prefill:
  assumes "state_ok nt st" "ss_generated st = 0" "\<not> sc_overlap sc"
    and toks: "toks = er_token_ids (sw_request (prefill_work step a st))" "toks \<noteq> []"
  shows "next_state nt Prefill toks st
    (apply_item sc (sw_request (prefill_work step a st))
      (step_done (sw_request (prefill_work step a st)) (length (fed nt st) + length toks) (nt (fed nt st @ toks))) st)"
proof -
  let ?p = "prompt_of st" and ?c = "ss_cursor st"
  obtain stop where stop: "stop = min (length ?p) (?c + step)" by blast
  have c: "?c \<le> length ?p" "ss_last_token st = None" "fed nt st = take ?c ?p"
    using assms(1,2) by (simp_all add: state_ok_def fed_def)
  have t: "toks = drop ?c (take stop ?p)" using toks(1) by (simp add: prefill_work_def Let_def stop)
  have le: "?c \<le> stop" "stop \<le> length ?p" using c(1) by (simp_all add: stop)
  have fed': "take ?c ?p @ toks = take stop ?p"
    unfolding t using le by (metis append_take_drop_id min.absorb1 take_take)
  have len: "?c + length toks = stop" unfolding t using le by simp
  have l2: "length (fed nt st) + length toks = stop" using c(1,3) len by simp
  have q: "er_phase (sw_request (prefill_work step a st)) = Prefill"
    "er_token_ids (sw_request (prefill_work step a st)) = toks"
    unfolding toks(1) by (simp_all add: prefill_work_def Let_def)
  show ?thesis
  proof (cases "stop = length ?p")
    case True
    then have fed2: "take ?c ?p @ toks = ?p" using fed' by simp
    show ?thesis
      using True assms(2,3) c(1,2) len l2 fed2 unfolding next_state_def apply_item_def q Let_def phase.case
      by (simp add: c(3) step_done_def mark_generated_def state_ok_def fed_def)
  next
    case False
    then show ?thesis
      using le assms(2,3) c(1,2) len l2 fed' unfolding next_state_def apply_item_def q Let_def phase.case
      by (simp add: c(3) step_done_def state_ok_def fed_def)
  qed
qed

lemma map_of_rev_nth:
  assumes "distinct (map f xs)" "i < length xs"
  shows "map_of (rev (map (\<lambda>x. (f x, x)) xs)) (f (xs ! i)) = Some (xs ! i)"
proof -
  have "dict_ok (rev (map (\<lambda>x. (f x, x)) xs))" using assms(1) by (simp add: rev_map [symmetric] comp_def)
  then show ?thesis using assms(2) by (auto simp: map_of_eq_Some_iff)
qed

lemma entry_nth:
  assumes "distinct (map (\<lambda>w. er_request_id (sw_request w)) sel)" "length (st_results result) = length sel"
    and "\<forall>i < length sel. sr_request_id (st_results result ! i) = er_request_id (sw_request (sel ! i))"
    and i: "i < length sel"
  shows "entry_of result (sel ! i) = Some (st_results result ! i)"
proof -
  have "map sr_request_id (st_results result) = map (\<lambda>w. er_request_id (sw_request w)) sel"
    by (rule nth_equalityI) (use assms(2,3) in auto)
  then have "distinct (map sr_request_id (st_results result))" using assms(1) by simp
  from map_of_rev_nth [OF this, of i] show ?thesis
    using assms(2,3) i by (simp add: entry_of_def results_by_id_def)
qed

lemma take_fed:
  assumes "m \<le> length (fed nt st)" "m \<le> length (prompt_of st)"
  shows "take m (fed nt st) = take m (prompt_of st)"
  using assms by (cases "ss_generated st") (simp_all add: fed_def min.absorb1)

text \<open>A result that belongs to its state, and the token its emission reports.\<close>

definition matches :: "('c, 'f) scheduler \<Rightarrow> selected_work \<Rightarrow> step_request_result \<Rightarrow> bool" where
  "matches sc w item \<longleftrightarrow> sr_cache_handle item = ss_handle (sc_store sc (sw_state w)) \<and>
     sr_cache_length item = ss_cache_length (sc_store sc (sw_state w))"

definition emitted_token :: "string \<Rightarrow> sched_state \<Rightarrow> selected_work \<Rightarrow> step_request_result \<Rightarrow> token option list" where
  "emitted_token rid st w item =
     (if rid = id_of st \<and> (er_phase (sw_request w) = Decode \<or> ss_cursor st = length (prompt_of st))
      then [sr_next_token_id item] else [])"

context serving
begin

lemma picked_request:
  assumes "inv sc" "picked sc w"
  shows "er_request_id (sw_request w) = id_of (sc_store sc (sw_state w))"
    "er_cache_handle (sw_request w) = ss_handle (sc_store sc (sw_state w))"
    "running_at sc (sw_state w)" "state_ok nt (sc_store sc (sw_state w))"
proof -
  show run: "running_at sc (sw_state w)" using assms(2) by (simp add: picked_def)
  show "state_ok nt (sc_store sc (sw_state w))" using invD(7) [OF assms(1) run] by (simp add: owns_def)
  have "w = decode_work (sw_state w) (sc_store sc (sw_state w)) \<or>
      w = prefill_work (sc_prefill_step sc) (sw_state w) (sc_store sc (sw_state w))"
    using assms(2) by (auto simp: picked_def)
  then have "sw_request w = sw_request (decode_work (sw_state w) (sc_store sc (sw_state w))) \<or>
      sw_request w = sw_request (prefill_work (sc_prefill_step sc) (sw_state w) (sc_store sc (sw_state w)))"
    by metis
  then show "er_request_id (sw_request w) = id_of (sc_store sc (sw_state w))"
    "er_cache_handle (sw_request w) = ss_handle (sc_store sc (sw_state w))"
    by (auto simp: decode_work_def prefill_work_def Let_def)
qed

lemma picked_applies:
  assumes "inv sc" "picked sc w" "er_token_ids (sw_request w) \<noteq> []" "sc_overlap sc1 = sc_overlap sc"
  shows "next_state nt (er_phase (sw_request w)) (er_token_ids (sw_request w)) (sc_store sc (sw_state w))
    (apply_item sc1 (sw_request w)
      (step_done (sw_request w) (length (fed nt (sc_store sc (sw_state w))) + length (er_token_ids (sw_request w)))
        (nt (fed nt (sc_store sc (sw_state w)) @ er_token_ids (sw_request w)))) (sc_store sc (sw_state w)))"
proof -
  let ?st = "sc_store sc (sw_state w)"
  have ok: "state_ok nt ?st" "\<not> sc_overlap sc1" using picked_request(4) [OF assms(1,2)] invD(1) [OF assms(1)] assms(4) by simp_all
  consider (dec) "w = decode_work (sw_state w) ?st" "ss_last_token ?st \<noteq> None"
    | (pre) "w = prefill_work (sc_prefill_step sc) (sw_state w) ?st" "ss_generated ?st = 0"
    using assms(2) by (auto simp: picked_def)
  then show ?thesis
  proof cases
    case dec
    have q: "er_phase (sw_request w) = Decode" "er_token_ids (sw_request w) = [the (ss_last_token ?st)]"
      using arg_cong [OF dec(1), of "\<lambda>w. er_phase (sw_request w)"] arg_cong [OF dec(1), of "\<lambda>w. er_token_ids (sw_request w)"]
      by (simp_all add: decode_work_def)
    have r: "sw_request w = sw_request (decode_work (sw_state w) ?st)" by (rule arg_cong [OF dec(1)])
    show ?thesis using apply_decode [OF ok(1) dec(2) ok(2), of "sw_state w"] r q by simp
  next
    case pre
    have r: "sw_request w = sw_request (prefill_work (sc_prefill_step sc) (sw_state w) ?st)" by (rule arg_cong [OF pre(1)])
    have q: "er_phase (sw_request w) = Prefill" unfolding r by (simp add: prefill_work_def Let_def)
    have t: "er_token_ids (sw_request w) = er_token_ids (sw_request (prefill_work (sc_prefill_step sc) (sw_state w) ?st))"
      by (rule arg_cong [OF r])
    show ?thesis using apply_prefill [OF ok(1) pre(2) ok(2) t assms(3)] unfolding q r [symmetric] .
  qed
qed

text \<open>The tokens each running handle has been fed.\<close>

lemma feeds:
  assumes "inv sc"
  shows "\<exists>ctx. \<forall>a h. running_at sc a \<longrightarrow> ss_handle (sc_store sc a) = Some h \<longrightarrow> ctx h = fed nt (sc_store sc a)"
proof -
  have unique: "(THE b. running_at sc b \<and> ss_handle (sc_store sc b) = Some h) = a"
    if r: "running_at sc a" "ss_handle (sc_store sc a) = Some h" for a h
  proof (rule the_equality)
    fix b assume b: "running_at sc b \<and> ss_handle (sc_store sc b) = Some h"
    show "b = a" by (rule invD(8) [OF assms]) (use b r in simp_all)
  qed (use r in simp)
  show ?thesis
    by (rule exI [of _ "\<lambda>h. fed nt (sc_store sc (THE b. running_at sc b \<and> ss_handle (sc_store sc b) = Some h))"])
      (intro allI impI, simp only: unique)
qed

text \<open>Executing the selected work.\<close>

lemma executed:
  assumes inv: "inv sc" and sel: "\<forall>w \<in> set sel. picked sc w" "distinct (map sw_state sel)"
    and run: "bk_execute_batch bk (map sw_request sel) (sc_cache sc) = (Inr result, c')"
  shows "cok c' \<and> held c' = held (sc_cache sc) \<and>
    (\<forall>w \<in> set sel. failed result w \<or>
       er_token_ids (sw_request w) \<noteq> [] \<and>
       entry_of result w = Some (step_done (sw_request w)
          (length (fed nt (sc_store sc (sw_state w))) + length (er_token_ids (sw_request w)))
          (nt (fed nt (sc_store sc (sw_state w)) @ er_token_ids (sw_request w)))) \<and>
       (\<exists>h x. ss_handle (sc_store sc (sw_state w)) = Some h \<and> cview c' h = Some x \<and>
          good (fed nt (sc_store sc (sw_state w)) @ er_token_ids (sw_request w)) x)) \<and>
    (\<forall>a h. running_at sc a \<longrightarrow> ss_handle (sc_store sc a) = Some h \<longrightarrow>
       (\<forall>w \<in> set sel. sw_state w = a \<longrightarrow> failed result w) \<longrightarrow> cview c' h = cview (sc_cache sc) h) \<and>
    (\<forall>h. cview (sc_cache sc) h = None \<longrightarrow> cview c' h = None)"
proof -
  obtain ctx where ctx: "\<And>a h. running_at sc a \<Longrightarrow> ss_handle (sc_store sc a) = Some h \<Longrightarrow> ctx h = fed nt (sc_store sc a)"
    using feeds [OF inv] by blast
  note P = picked_request [OF inv]
  have owned: "\<exists>h x. ss_handle (sc_store sc a) = Some h \<and> h \<notin> held (sc_cache sc) \<and> cview (sc_cache sc) h = Some x \<and>
      good (fed nt (sc_store sc a)) x" if "running_at sc a" for a
    using invD(7) [OF inv that] by (simp add: owns_def)
  have pre: "\<forall>q \<in> set (map sw_request sel). \<forall>h. er_cache_handle q = Some h \<longrightarrow>
      h \<notin> held (sc_cache sc) \<and> (\<exists>x. cview (sc_cache sc) h = Some x \<and> good (ctx h) x)"
  proof (intro ballI allI impI)
    fix q h assume "q \<in> set (map sw_request sel)" and h: "er_cache_handle q = Some h"
    then obtain w where w: "w \<in> set sel" "q = sw_request w" by auto
    then have pw: "picked sc w" using sel(1) by blast
    have hs: "ss_handle (sc_store sc (sw_state w)) = Some h" using P(2) [OF pw] h w(2) by simp
    show "h \<notin> held (sc_cache sc) \<and> (\<exists>x. cview (sc_cache sc) h = Some x \<and> good (ctx h) x)"
      using owned [OF P(3) [OF pw]] hs ctx [OF P(3) [OF pw] hs] by auto
  qed
  note law = execute_law [OF invD(4) [OF inv] pre run, unfolded sum.case]
  obtain kept where K: "results_ok nt ctx (map sw_request sel) kept (st_results result)"
    "\<forall>(q, i, h) \<in> set kept. \<exists>x. cview c' h = Some x \<and> good (ctx h @ er_token_ids q) x"
    "\<forall>h. h \<notin> (\<lambda>(q, i, h). h) ` set kept \<longrightarrow> cview c' h = cview (sc_cache sc) h"
    using law by blast
  note R = K(1) [unfolded results_ok_def]
  have len: "length (st_results result) = length sel" using R by simp
  have kept: "i < length sel \<and> q = sw_request (sel ! i) \<and> er_cache_handle q = Some h \<and> er_token_ids q \<noteq> [] \<and>
      st_results result ! i = step_done q (length (ctx h) + length (er_token_ids q)) (nt (ctx h @ er_token_ids q))"
    if "(q, i, h) \<in> set kept" for q i h using R that by fastforce
  have lost: "sr_request_id (st_results result ! i) = er_request_id (sw_request (sel ! i)) \<and>
      sr_phase (st_results result ! i) = er_phase (sw_request (sel ! i)) \<and> sr_error_code (st_results result ! i) \<noteq> None"
    if "i < length sel" "\<forall>q h. (q, i, h) \<notin> set kept" for i
  proof -
    have "i \<notin> set (map (\<lambda>(q, i, h). i) kept)" using that(2) by auto
    then show ?thesis using R that(1) by (simp del: set_map)
  qed
  have ids: "\<forall>i < length sel. sr_request_id (st_results result ! i) = er_request_id (sw_request (sel ! i))"
    using kept lost by (fastforce simp: step_done_def)
  have "inj_on (\<lambda>w. er_request_id (sw_request w)) (set sel)"
  proof (rule inj_onI)
    fix v w assume vw: "v \<in> set sel" "w \<in> set sel" "er_request_id (sw_request v) = er_request_id (sw_request w)"
    then have "picked sc v" "picked sc w" using sel(1) by blast+
    then have "sw_state v = sw_state w"
      using vw(3) P(1,3) queue_inj [OF invD(5) [OF inv], of "sw_state v" "sw_state w"] by simp
    then show "v = w" using vw sel(2) by (simp add: distinct_map inj_on_def)
  qed
  then have dis: "distinct (map (\<lambda>w. er_request_id (sw_request w)) sel)" using sel(2) by (simp add: distinct_map)
  note entry = entry_nth [OF dis len ids]
  have each: "if \<exists>q h. (q, i, h) \<in> set kept then \<not> failed result (sel ! i) else failed result (sel ! i)" if "i < length sel" for i
    using entry [OF that] kept [of _ i] lost [OF that] by (auto simp: failed_def result_error_def step_done_def)
  have A: "er_token_ids (sw_request w) \<noteq> [] \<and>
       entry_of result w = Some (step_done (sw_request w)
          (length (fed nt (sc_store sc (sw_state w))) + length (er_token_ids (sw_request w)))
          (nt (fed nt (sc_store sc (sw_state w)) @ er_token_ids (sw_request w)))) \<and>
       (\<exists>h x. ss_handle (sc_store sc (sw_state w)) = Some h \<and> cview c' h = Some x \<and>
          good (fed nt (sc_store sc (sw_state w)) @ er_token_ids (sw_request w)) x)"
    if w: "w \<in> set sel" and nf: "\<not> failed result w" for w
  proof -
    obtain i where i: "i < length sel" "w = sel ! i" using w by (auto simp: in_set_conv_nth)
    then obtain q h where k: "(q, i, h) \<in> set kept" using each [OF i(1)] nf by (auto split: if_splits)
    note kk = kept [OF k]
    have pw: "picked sc w" using sel(1) w by blast
    have hs: "ss_handle (sc_store sc (sw_state w)) = Some h" using kk P(2) [OF pw] unfolding i(2) by auto
    then have c: "ctx h = fed nt (sc_store sc (sw_state w))" by (rule ctx [OF P(3) [OF pw]])
    obtain x where "cview c' h = Some x" "good (ctx h @ er_token_ids q) x" using K(2) k by fastforce
    moreover have "q = sw_request w" "er_token_ids (sw_request w) \<noteq> []" using kk i(2) by auto
    ultimately show ?thesis using kk entry [OF i(1)] hs by (auto simp: c i(2))
  qed
  have B: "cview c' h = cview (sc_cache sc) h"
    if "running_at sc a" "ss_handle (sc_store sc a) = Some h" "\<forall>w \<in> set sel. sw_state w = a \<longrightarrow> failed result w" for a h
  proof -
    have "h \<notin> (\<lambda>(q, i, h). h) ` set kept"
    proof
      assume "h \<in> (\<lambda>(q, i, h). h) ` set kept"
      then obtain q i where k: "(q, i, h) \<in> set kept" by auto
      note kk = kept [OF k]
      let ?w = "sel ! i"
      have w: "?w \<in> set sel" using kk by simp
      then have pw: "picked sc ?w" using sel(1) by blast
      have "ss_handle (sc_store sc (sw_state ?w)) = Some h" using kk P(2) [OF pw] by auto
      then have "sw_state ?w = a" using invD(8) [OF inv P(3) [OF pw] that(1)] that(2) by simp
      then have "failed result ?w" using that(3) w by blast
      moreover have "\<not> failed result ?w" using each [of i] kk k by metis
      ultimately show False by simp
    qed
    then show ?thesis using K(3) by blast
  qed
  have C: "cview c' h = None" if none: "cview (sc_cache sc) h = None" for h
  proof -
    have "h \<notin> (\<lambda>(q, i, h). h) ` set kept"
    proof
      assume "h \<in> (\<lambda>(q, i, h). h) ` set kept"
      then obtain q i where k: "(q, i, h) \<in> set kept" by auto
      have "q \<in> set (map sw_request sel)" using kept [OF k] by auto
      then show False using pre kept [OF k] none by fastforce
    qed
    then show ?thesis using K(3) none by simp
  qed
  show ?thesis using law A B C by blast
qed

lemma advanced:
  assumes inv: "inv sc" and sel: "\<forall>w \<in> set sel. picked sc w" "distinct (map sw_state sel)"
    and run: "bk_execute_batch bk (map sw_request sel) (sc_cache sc) = (Inr result, c')"
    and adv: "advance_step_state sel result evs (sc\<lparr>sc_cache := c'\<rparr>) = (applied, evs', sc2)"
  shows "(\<exists>new. evs' = evs @ new \<and> (\<forall>rid. tokens_of rid new = []) \<and>
       (\<forall>w \<in> set sel. w \<notin> fst ` set applied \<longrightarrow> errs (id_of (sc_store sc (sw_state w))) new)) \<and> inv sc2 \<and>
    (\<exists>store. sc2 = sc\<lparr>sc_cache := c', sc_store := store\<rparr>) \<and>
    distinct (map (\<lambda>(w, item). sw_state w) applied) \<and>
    (\<forall>(w, item) \<in> set applied. w \<in> set sel \<and>
       next_state nt (er_phase (sw_request w)) (er_token_ids (sw_request w)) (sc_store sc (sw_state w)) (sc_store sc2 (sw_state w)) \<and>
       item = step_done (sw_request w) (ss_cache_length (sc_store sc2 (sw_state w))) (nt (fed nt (sc_store sc2 (sw_state w))))) \<and>
    (\<forall>a. a \<notin> (\<lambda>(w, item). sw_state w) ` set applied \<longrightarrow> core (sc_store sc2 a) = core (sc_store sc a))"
proof -
  let ?sc1 = "sc\<lparr>sc_cache := c'\<rparr>"
  note E = executed [OF inv sel run]
  have flags: "\<forall>w \<in> set sel. \<not> ss_cancel (sc_store ?sc1 (sw_state w)) \<and> \<not> ss_finish (sc_store ?sc1 (sw_state w))"
    using sel(1) by (simp add: picked_def)
  obtain new store where A0: "\<forall>w \<in> set sel. failed result w \<longrightarrow> errs (id_of (sc_store ?sc1 (sw_state w))) new"
    and A: "evs' = evs @ new" "\<forall>rid. tokens_of rid new = []" "sc2 = ?sc1\<lparr>sc_store := store\<rparr>"
    "\<forall>a. a \<notin> sw_state ` set sel \<longrightarrow> store a = sc_store sc a"
    "\<forall>w \<in> set sel. store (sw_state w) =
          (if failed result w then (sc_store sc (sw_state w))\<lparr>ss_finish := True\<rparr>
           else apply_item ?sc1 (sw_request w) (the (entry_of result w)) (sc_store sc (sw_state w)))"
    "applied = map (\<lambda>w. (w, the (entry_of result w))) (filter (\<lambda>w. \<not> failed result w) sel)"
    using advance_spec [OF sel(2) flags adv] by auto
  have good_one: "next_state nt (er_phase (sw_request w)) (er_token_ids (sw_request w)) (sc_store sc (sw_state w)) (store (sw_state w)) \<and>
      the (entry_of result w) = step_done (sw_request w) (ss_cache_length (store (sw_state w))) (nt (fed nt (store (sw_state w)))) \<and>
      owns held cview good nt c' (store (sw_state w))"
    if w: "w \<in> set sel" and nf: "\<not> failed result w" for w
  proof -
    let ?st = "sc_store sc (sw_state w)" and ?t = "er_token_ids (sw_request w)"
    have pw: "picked sc w" using sel(1) w by blast
    have e: "?t \<noteq> []" "entry_of result w = Some (step_done (sw_request w) (length (fed nt ?st) + length ?t) (nt (fed nt ?st @ ?t)))"
      "\<exists>h x. ss_handle ?st = Some h \<and> cview c' h = Some x \<and> good (fed nt ?st @ ?t) x"
      using E w nf by blast+
    have n: "next_state nt (er_phase (sw_request w)) ?t ?st (store (sw_state w))"
      using picked_applies [OF inv pw e(1), of ?sc1] A(5) w nf e(2) by simp
    then have m: "state_ok nt (store (sw_state w))" "fed nt (store (sw_state w)) = fed nt ?st @ ?t" "ss_handle (store (sw_state w)) = ss_handle ?st"
      by (simp_all add: next_state_def)
    have len: "ss_cache_length (store (sw_state w)) = length (fed nt ?st) + length ?t" using m by (simp add: state_ok_def)
    have "owns held cview good nt c' (store (sw_state w))"
      using e(3) m owned_handle [OF inv picked_request(3) [OF inv pw]] E unfolding owns_def by auto
    then show ?thesis using n e(2) by (simp add: len m(2))
  qed
  have still: "core (store a) = core (sc_store sc a)" if "\<forall>w \<in> set sel. sw_state w = a \<longrightarrow> failed result w" for a
  proof (cases "a \<in> sw_state ` set sel")
    case True
    then show ?thesis using A(5) that by auto
  next
    case False
    then show ?thesis using A(4) by simp
  qed
  have work: "ss_work (store a) = ss_work (sc_store sc a) \<and> ss_handle (store a) = ss_handle (sc_store sc a)" for a
  proof (cases "\<forall>w \<in> set sel. sw_state w = a \<longrightarrow> failed result w")
    case True
    then show ?thesis using core_cong(4,5) [OF still] by simp
  next
    case False
    then show ?thesis using good_one by (auto simp: next_state_def)
  qed
  have at: "waiting_at sc2 a = waiting_at sc a" "running_at sc2 a = running_at sc a" for a
    by (simp_all add: A(3) waiting_at_def running_at_def work)
  note I = invD [OF inv]
  have "inv sc2"
    unfolding serve_inv_def at
  proof (intro conjI allI impI)
    show "\<not> sc_overlap sc2" "sc_in_flight sc2 = None" "sc_pending sc2 = []" "cok (sc_cache sc2)"
      using I(1-4) E by (simp_all add: A(3))
    show "queues_ok sc2" using I(5) unfolding queues_ok_def by (simp add: A(3) work)
    show "fresh_state (sc_store sc2 a)" if "waiting_at sc a" for a
    proof -
      have "\<forall>w \<in> set sel. sw_state w = a \<longrightarrow> failed result w"
        using sel(1) queue_ids(5) [OF I(5) that] by (auto simp: picked_def)
      then show ?thesis using core_cong(3) [OF still] I(6) [OF that] by (simp add: A(3))
    qed
    show "owns held cview good nt (sc_cache sc2) (sc_store sc2 a)" if r: "running_at sc a" for a
    proof (cases "\<forall>w \<in> set sel. sw_state w = a \<longrightarrow> failed result w")
      case True
      obtain h x where h: "ss_handle (sc_store sc a) = Some h" "h \<notin> held (sc_cache sc)" "cview (sc_cache sc) h = Some x"
        "good (fed nt (sc_store sc a)) x" "state_ok nt (sc_store sc a)"
        using I(7) [OF r] by (auto simp: owns_def)
      then have "cview c' h = Some x" using E r True by simp
      then have "owns held cview good nt c' (sc_store sc a)" using h E by (simp add: owns_def)
      then show ?thesis using owns_core [OF still [OF True]] by (simp add: A(3))
    next
      case False
      then show ?thesis using good_one by (auto simp: A(3))
    qed
    show "a = b" if "running_at sc a" "running_at sc b" "ss_handle (sc_store sc2 a) = ss_handle (sc_store sc2 b)" for a b
      using I(8) [OF that(1,2)] that(3) by (simp add: A(3) work)
    show "h \<in> held (sc_cache sc2) \<or> (\<exists>a. running_at sc a \<and> ss_handle (sc_store sc2 a) = Some h)"
      if h: "cview (sc_cache sc2) h \<noteq> None" for h
    proof -
      have "cview (sc_cache sc) h \<noteq> None" using h E by (auto simp: A(3))
      then show ?thesis using I(9) E by (simp add: A(3) work)
    qed
  qed
  moreover have "distinct (map (\<lambda>(w, item). sw_state w) applied)"
    using sel(2) by (simp add: A(6) comp_def distinct_map_filter)
  moreover have "core (sc_store sc2 a) = core (sc_store sc a)" if "a \<notin> (\<lambda>(w, item). sw_state w) ` set applied" for a
    using still [of a] that by (auto simp: A(3,6) image_iff)
  moreover have "\<exists>s. sc2 = sc\<lparr>sc_cache := c', sc_store := s\<rparr>" by (rule exI [of _ store]) (simp add: A(3))
  moreover have "errs (id_of (sc_store sc (sw_state w))) new" if "w \<in> set sel" "w \<notin> fst ` set applied" for w
  proof -
    have "failed result w" using that by (force simp: A(6))
    then show ?thesis using A0 that(1) by simp
  qed
  ultimately show ?thesis using A(1,2) good_one by (auto simp: A(3,6))
qed

text \<open>Emission: the prompt is published, and only the cache changes.\<close>

lemma emit_prefill_rule:
  assumes inv: "inv sc" and r: "running_at sc (sw_state w)" and item: "matches sc w item"
    and run: "emit_prefill_result bk w item result evs sc = (res, sc')"
  shows "\<exists>c' new. res = Inr (evs @ new) \<and> inv sc' \<and> sc' = sc\<lparr>sc_cache := c'\<rparr> \<and>
    (\<forall>rid. tokens_of rid new = (if rid = id_of (sc_store sc (sw_state w)) \<and>
       ss_cursor (sc_store sc (sw_state w)) = length (prompt_of (sc_store sc (sw_state w))) then [sr_next_token_id item] else []))"
proof -
  let ?st = "sc_store sc (sw_state w)"
  note I = invD [OF inv]
  obtain h x where h: "ss_handle ?st = Some h" "h \<notin> held (sc_cache sc)" "cview (sc_cache sc) h = Some x" "good (fed nt ?st) x"
    "state_ok nt ?st"
    using I(7) [OF r] by (auto simp: owns_def)
  have n: "sr_cache_length item = length (fed nt ?st)" using item h(5) by (simp add: matches_def state_ok_def)
  have size: "sr_cache_length item \<le> size_of x" using good_sized [OF h(4)] n by simp
  have pre: "good (take m (prompt_of ?st)) (cut m x)" if "m \<le> sr_cache_length item" "m \<le> length (prompt_of ?st)" for m
  proof -
    have "take m (fed nt ?st) = take m (prompt_of ?st)" by (rule take_fed) (use that n in simp_all)
    then show ?thesis using good_prefix [OF h(4), of m] that n by simp
  qed
  obtain pres c' where pub: "bk_publish bk h (prompt_of ?st) (sr_cache_length item) (sc_cache sc) = (pres, c')" by (metis surj_pair)
  have law: "cok c' \<and> swaps cview (held (sc_cache sc)) (sc_cache sc) (held c') c' \<and> (\<exists>q. pres = Inr q)"
    by (rule publish_rule [OF I(4) h(2,3) size pre pub])
  then obtain q where q: "pres = Inr q" by blast
  have sh: "sr_cache_handle item = Some h" using item h(1) by (simp add: matches_def)
  have "on_cache (bk_publish bk h (prompt_of ?st) (sr_cache_length item)) sc = (Inr q, sc\<lparr>sc_cache := c'\<rparr>)"
    using pub q by (simp add: on_cache_def)
  then have out: "sc' = sc\<lparr>sc_cache := c'\<rparr>" "\<exists>progress. res = Inr (evs @ [progress] @
        (if ss_cursor ?st = length (prompt_of ?st) then [TokenEvent (id_of ?st) (sr_next_token_id item) (sr_cache_length item) Prefill] else [])) \<and>
        (\<forall>rid. token_of rid progress = [])"
    using run by (auto simp: emit_prefill_result_def Let_def bind_err_def sh)
  have "inv sc'"
  proof (rule inv_frame [OF inv])
    show "queues_ok sc'" using I(5) by (simp add: out(1) queues_ok_def)
    fix a k assume a: "running_at sc' a" "ss_handle (sc_store sc a) = Some k"
    then have ra: "running_at sc a" by (simp add: out(1) running_at_def)
    then obtain y where "k \<notin> held (sc_cache sc)" "cview (sc_cache sc) k = Some y" using I(7) [OF ra] a(2) by (auto simp: owns_def)
    then show "k \<notin> held (sc_cache sc') \<and> cview (sc_cache sc') k = cview (sc_cache sc) k"
      using law swaps_other [of cview "held (sc_cache sc)" "sc_cache sc" "held c'" c' k] by (simp add: out(1))
  next
    fix k assume k: "cview (sc_cache sc') k \<noteq> None" "k \<notin> held (sc_cache sc')"
    then have "k \<notin> held (sc_cache sc) \<and> cview (sc_cache sc) k \<noteq> None" using law unfolding swaps_def out(1) by (auto split: if_splits)
    then have "\<exists>a. running_at sc a \<and> ss_handle (sc_store sc a) = Some k" using I(9) by blast
    then show "\<exists>a. running_at sc' a \<and> ss_handle (sc_store sc a) = Some k" by (simp add: out(1) running_at_def)
  qed (use I(1-8) law in \<open>simp_all add: out(1) waiting_at_def running_at_def\<close>)
  then show ?thesis using out by auto
qed

lemma emit_applied_rule:
  assumes "inv sc" "\<forall>(w, item) \<in> set applied. running_at sc (sw_state w) \<and> matches sc w item"
    and "emit_applied bk applied result evs sc = (res, sc')"
  shows "\<exists>c' new. res = Inr (evs @ new) \<and> inv sc' \<and> sc' = sc\<lparr>sc_cache := c'\<rparr> \<and>
    (\<forall>rid. tokens_of rid new = concat (map (\<lambda>(w, item). emitted_token rid (sc_store sc (sw_state w)) w item) applied))"
  using assms
proof (induction applied arbitrary: sc evs)
  case Nil
  then have "res = Inr (evs @ [])" "sc' = sc" by simp_all
  then show ?case using Nil(1) by (intro exI [of _ "sc_cache sc"] exI [of _ "[]"]) simp
next
  case (Cons p applied)
  obtain w item where p: "p = (w, item)" by (cases p)
  have r: "running_at sc (sw_state w)" "matches sc w item" using Cons.prems(2) by (simp_all add: p)
  show ?case
  proof (cases "er_phase (sw_request w)")
    case Prefill
    obtain r1 sc1 where one: "emit_prefill_result bk w item result evs sc = (r1, sc1)" by (metis surj_pair)
    obtain c1 new1 where R: "r1 = Inr (evs @ new1)" "inv sc1" "sc1 = sc\<lparr>sc_cache := c1\<rparr>"
      "\<forall>rid. tokens_of rid new1 = (if rid = id_of (sc_store sc (sw_state w)) \<and>
       ss_cursor (sc_store sc (sw_state w)) = length (prompt_of (sc_store sc (sw_state w))) then [sr_next_token_id item] else [])"
      using emit_prefill_rule [OF Cons.prems(1) r one] by (elim exE conjE) (rule that)
    have run: "emit_applied bk applied result (evs @ new1) sc1 = (res, sc')"
      using Cons.prems(3) one R(1) by (simp add: p Prefill)
    have m: "\<forall>(w, item) \<in> set applied. running_at sc1 (sw_state w) \<and> matches sc1 w item"
      using Cons.prems(2) by (simp add: R(3) running_at_def matches_def)
    obtain c' new where "res = Inr ((evs @ new1) @ new)" "inv sc'" "sc' = sc1\<lparr>sc_cache := c'\<rparr>"
      "\<forall>rid. tokens_of rid new = concat (map (\<lambda>(w, item). emitted_token rid (sc_store sc1 (sw_state w)) w item) applied)"
      using Cons.IH [OF R(2) m run] by (elim exE conjE) (rule that)
    then show ?thesis using R(3,4) Prefill
      by (intro exI [of _ c'] exI [of _ "new1 @ new"]) (auto simp: p emitted_token_def)
  next
    case Decode
    let ?ev = "emit_decode_result w item sc"
    have run: "emit_applied bk applied result (evs @ [?ev]) sc = (res, sc')"
      using Cons.prems(3) by (simp add: p Decode)
    have m: "\<forall>(w, item) \<in> set applied. running_at sc (sw_state w) \<and> matches sc w item" using Cons.prems(2) by simp
    obtain c' new where "res = Inr ((evs @ [?ev]) @ new)" "inv sc'" "sc' = sc\<lparr>sc_cache := c'\<rparr>"
      "\<forall>rid. tokens_of rid new = concat (map (\<lambda>(w, item). emitted_token rid (sc_store sc (sw_state w)) w item) applied)"
      using Cons.IH [OF Cons.prems(1) m run] by (elim exE conjE) (rule that)
    then show ?thesis using Decode
      by (intro exI [of _ c'] exI [of _ "?ev # new"]) (auto simp: p emitted_token_def emit_decode_result_def)
  qed
qed

end

subsection \<open>Accounting for tokens\<close>

lemma greedy_split: "n \<le> m \<Longrightarrow> greedy nt prompt m = greedy nt prompt n @ drop n (greedy nt prompt m)"
  by (induction m) (auto simp: le_Suc_eq)

lemma drop_greedy_trans:
  assumes "k \<le> n" "n \<le> m"
  shows "drop k (greedy nt prompt n) @ drop n (greedy nt prompt m) = drop k (greedy nt prompt m)"
proof -
  have "drop k (greedy nt prompt m) = drop k (greedy nt prompt n @ drop n (greedy nt prompt m))"
    using greedy_split [OF assms(2), of nt prompt] by simp
  then show ?thesis using assms(1) by simp
qed

text \<open>No other queued request has the id of the state at the address.\<close>

definition sole :: "('c, 'f) scheduler \<Rightarrow> nat \<Rightarrow> bool" where
  "sole sc a \<longleftrightarrow> (\<forall>b. queued_at sc b \<longrightarrow> id_of (sc_store sc b) = id_of (sc_store sc a) \<longrightarrow> b = a)"

lemma queued_sole: "queues_ok sc \<Longrightarrow> queued_at sc a \<Longrightarrow> sole sc a"
  unfolding sole_def using queue_inj by blast

text \<open>The events between two states report exactly the greedy tokens by which each request advanced.\<close>

definition progress :: "(token list \<Rightarrow> token) \<Rightarrow> ('c, 'f) scheduler \<Rightarrow> scheduler_event list \<Rightarrow> ('c, 'f) scheduler \<Rightarrow> bool" where
  "progress nt sc evs sc' \<longleftrightarrow> sc_next sc' = sc_next sc \<and> (\<forall>a. queued_at sc' a \<longrightarrow> queued_at sc a) \<and>
     (\<forall>a. ss_work (sc_store sc' a) = ss_work (sc_store sc a) \<and> ss_generated (sc_store sc a) \<le> ss_generated (sc_store sc' a)) \<and>
     (\<forall>a. sole sc a \<longrightarrow> tokens_of (id_of (sc_store sc a)) evs =
        map Some (drop (ss_generated (sc_store sc a)) (greedy nt (prompt_of (sc_store sc a)) (ss_generated (sc_store sc' a)))))"

lemma calm_progress: "calm sc sc' \<Longrightarrow> \<forall>rid. tokens_of rid evs = [] \<Longrightarrow> progress nt sc evs sc'"
  by (simp add: calm_def progress_def)

lemma progress_sole: "progress nt sc evs sc' \<Longrightarrow> sole sc a \<Longrightarrow> sole sc' a"
  unfolding progress_def sole_def by metis

lemma progress_trans:
  assumes "progress nt sc e1 sc1" "progress nt sc1 e2 sc2"
  shows "progress nt sc (e1 @ e2) sc2"
proof -
  note P = assms(1) [unfolded progress_def] and Q = assms(2) [unfolded progress_def]
  have "tokens_of (id_of (sc_store sc a)) (e1 @ e2) =
      map Some (drop (ss_generated (sc_store sc a)) (greedy nt (prompt_of (sc_store sc a)) (ss_generated (sc_store sc2 a))))"
    if s: "sole sc a" for a
  proof -
    have w: "ss_work (sc_store sc1 a) = ss_work (sc_store sc a)" using P by blast
    have "tokens_of (id_of (sc_store sc a)) e2 =
        map Some (drop (ss_generated (sc_store sc1 a)) (greedy nt (prompt_of (sc_store sc a)) (ss_generated (sc_store sc2 a))))"
      using Q progress_sole [OF assms(1) s] w by metis
    then show ?thesis using P Q s by (simp add: drop_greedy_trans flip: map_append)
  qed
  moreover have "ss_generated (sc_store sc a) \<le> ss_generated (sc_store sc2 a)" for a using P Q le_trans by blast
  moreover have "queued_at sc a" if "queued_at sc2 a" for a using P Q that by blast
  moreover have "ss_work (sc_store sc2 a) = ss_work (sc_store sc a)" "sc_next sc2 = sc_next sc" for a using P Q by simp_all
  ultimately show ?thesis unfolding progress_def by blast
qed

lemma emit_failures_tokens: "tokens_of rid (emit_failures selected e sc) = []"
  by (induction selected) (auto simp: emit_failures_def tokens_of_def split: exn.splits prod.splits)

lemma emit_failures_errs:
  assumes "w \<in> set selected"
  shows "errs (id_of (sc_store sc (sw_state w))) (emit_failures selected e sc)"
proof -
  obtain code message where "(case e of BatchExecutionError c m \<Rightarrow> (c, m) | _ \<Rightarrow> (''WORKER_ERROR'', exn_str e)) = (code, message)"
    by (metis surj_pair)
  then have "emit_failures selected e sc = map (\<lambda>w. ErrorEvent (id_of (sc_store sc (sw_state w))) code message) selected"
    by (simp add: emit_failures_def)
  then show ?thesis using assms by (auto simp: errs_def)
qed

lemma emit_metrics_tokens: "tokens_of rid (emit_metrics ph selected sc) = []"
  by (simp add: emit_metrics_def Let_def)

text \<open>The step answers the work: an error, or at least one more row in the cache, and a token for decode work.\<close>

definition answered :: "('c, 'f) scheduler \<Rightarrow> selected_work \<Rightarrow> scheduler_event list \<Rightarrow> ('c, 'f) scheduler \<Rightarrow> bool" where
  "answered sc w evs sc' \<longleftrightarrow> errs (id_of (sc_store sc (sw_state w))) evs \<or>
     ss_cache_length (sc_store sc (sw_state w)) < ss_cache_length (sc_store sc' (sw_state w)) \<and>
     (er_phase (sw_request w) = Decode \<longrightarrow> tokens_of (id_of (sc_store sc (sw_state w))) evs \<noteq> [])"

text \<open>Whom the next tick answers for certain: every request that decodes and, first come first served, the
  first prompt in line.\<close>

definition due :: "('c, 'f) scheduler \<Rightarrow> nat \<Rightarrow> bool" where
  "due sc a \<longleftrightarrow> running_at sc a \<and> decode_ready (sc_store sc a) \<or>
     sc_policy sc = FCFS \<and> 0 < sc_prefill_batch sc \<and> prefill_candidates sc \<noteq> [] \<and> a = hd (prefill_candidates sc)"

lemma concat_map_one:
  assumes "x \<in> set xs" "distinct (map f xs)" "\<forall>y \<in> set xs. f y \<noteq> f x \<longrightarrow> g y = []"
  shows "concat (map g xs) = g x"
  using assms
proof (induction xs)
  case (Cons y ys)
  show ?case
  proof (cases "x = y")
    case True
    then have "\<forall>z \<in> set ys. f z \<noteq> f x" using Cons.prems(2) by (metis distinct.simps(2) image_eqI image_set list.simps(9))
    then have "\<forall>z \<in> set ys. g z = []" using Cons.prems(3) by simp
    then show ?thesis using True by simp
  next
    case False
    then have "f y \<noteq> f x" using Cons.prems(1,2) by (metis image_eqI image_set list.simps(9) distinct.simps(2) set_ConsD)
    then show ?thesis using Cons False by auto
  qed
qed simp

context serving
begin

lemma run_step_rule:
  assumes inv: "inv sc" and sel: "\<forall>w \<in> set sel. picked sc w" "distinct (map sw_state sel)"
    and run: "run_step bk sel evs sc = (res, sc')"
  shows "\<exists>new. res = Inr (evs @ new) \<and> inv sc' \<and> progress nt sc new sc' \<and> (\<forall>w \<in> set sel. answered sc w new sc')"
proof -
  obtain r c' where ex: "bk_execute_batch bk (map sw_request sel) (sc_cache sc) = (r, c')" by (metis surj_pair)
  let ?sc1 = "sc\<lparr>sc_cache := c'\<rparr>"
  have on: "on_cache (bk_execute_batch bk (map sw_request sel)) sc = (r, ?sc1)" using ex by (simp add: on_cache_def)
  show ?thesis
  proof (cases r)
    case (Inl e)
    have "cok c' \<and> held c' = held (sc_cache sc) \<and> cview c' = cview (sc_cache sc)"
    proof -
      obtain ctx where ctx: "\<forall>a h. running_at sc a \<longrightarrow> ss_handle (sc_store sc a) = Some h \<longrightarrow> ctx h = fed nt (sc_store sc a)"
        using feeds [OF inv] by blast
      have "\<forall>q \<in> set (map sw_request sel). \<forall>h. er_cache_handle q = Some h \<longrightarrow>
          h \<notin> held (sc_cache sc) \<and> (\<exists>x. cview (sc_cache sc) h = Some x \<and> good (ctx h) x)"
      proof (intro ballI allI impI)
        fix q h assume "q \<in> set (map sw_request sel)" and h: "er_cache_handle q = Some h"
        then obtain w where w: "w \<in> set sel" "q = sw_request w" by auto
        then have pw: "picked sc w" using sel(1) by blast
        have hs: "ss_handle (sc_store sc (sw_state w)) = Some h" using picked_request(2) [OF inv pw] h w(2) by simp
        show "h \<notin> held (sc_cache sc) \<and> (\<exists>x. cview (sc_cache sc) h = Some x \<and> good (ctx h) x)"
          using invD(7) [OF inv picked_request(3) [OF inv pw]] hs ctx picked_request(3) [OF inv pw] by (auto simp: owns_def)
      qed
      from execute_law [OF invD(4) [OF inv] this ex] show ?thesis by (simp add: Inl)
    qed
    then have "inv ?sc1 \<and> calm sc ?sc1" using inv_same [OF inv, of ?sc1] by simp
    moreover have "res = Inr (evs @ emit_failures sel e ?sc1)" "sc' = ?sc1" using run on by (auto simp: run_step_def Inl)
    moreover have "\<forall>w \<in> set sel. answered sc w (emit_failures sel e ?sc1) ?sc1"
    proof
      fix w assume "w \<in> set sel"
      from emit_failures_errs [OF this, of ?sc1 e] show "answered sc w (emit_failures sel e ?sc1) ?sc1" by (simp add: answered_def)
    qed
    ultimately show ?thesis using calm_progress [of sc ?sc1 "emit_failures sel e ?sc1"] emit_failures_tokens by metis
  next
    case (Inr result)
    obtain applied evs1 sc2 where adv: "advance_step_state sel result evs ?sc1 = (applied, evs1, sc2)" by (metis prod_cases3)
    note A = advanced [OF inv sel ex [unfolded Inr] adv]
    have inv2: "inv sc2" using A by blast
    obtain store where s2: "sc2 = sc\<lparr>sc_cache := c', sc_store := store\<rparr>" using A by blast
    have each: "w \<in> set sel" "next_state nt (er_phase (sw_request w)) (er_token_ids (sw_request w)) (sc_store sc (sw_state w)) (sc_store sc2 (sw_state w))"
      "item = step_done (sw_request w) (ss_cache_length (sc_store sc2 (sw_state w))) (nt (fed nt (sc_store sc2 (sw_state w))))"
      if "(w, item) \<in> set applied" for w item using A that by blast+
    have work: "ss_work (store a) = ss_work (sc_store sc a)" for a
    proof (cases "a \<in> (\<lambda>(w, item). sw_state w) ` set applied")
      case True
      then obtain w item where wi: "(w, item) \<in> set applied" "a = sw_state w" by auto
      then show ?thesis using each(2) [OF wi(1)] by (simp add: next_state_def s2)
    next
      case False
      then have "core (sc_store sc2 a) = core (sc_store sc a)" using A by blast
      then show ?thesis by (simp add: s2 core_def)
    qed
    have at: "waiting_at sc2 a = waiting_at sc a" "running_at sc2 a = running_at sc a" for a
      by (simp_all add: s2 waiting_at_def running_at_def work)
    have fits: "running_at sc2 (sw_state w) \<and> matches sc2 w item" if wi: "(w, item) \<in> set applied" for w item
    proof -
      have pw: "picked sc w" using sel(1) each(1) [OF wi] by blast
      then show ?thesis
        using picked_request(2,3) [OF inv pw] each(2) [OF wi] unfolding at matches_def each(3) [OF wi]
        by (simp add: step_done_def next_state_def)
    qed
    obtain r3 sc3 where em: "emit_applied bk applied result evs1 sc2 = (r3, sc3)" by (metis surj_pair)
    have fits': "\<forall>(w, item) \<in> set applied. running_at sc2 (sw_state w) \<and> matches sc2 w item" using fits by blast
    obtain c3 new3 where E: "r3 = Inr (evs1 @ new3)" "inv sc3" "sc3 = sc2\<lparr>sc_cache := c3\<rparr>"
      "\<forall>rid. tokens_of rid new3 = concat (map (\<lambda>(w, item). emitted_token rid (sc_store sc2 (sw_state w)) w item) applied)"
      using emit_applied_rule [OF inv2 fits' em] by (elim exE conjE) (rule that)
    obtain new1 where N: "evs1 = evs @ new1" "\<forall>rid. tokens_of rid new1 = []"
      "\<forall>w \<in> set sel. w \<notin> fst ` set applied \<longrightarrow> errs (id_of (sc_store sc (sw_state w))) new1" using A by blast
    let ?new = "new1 @ new3 @ emit_metrics Decode sel sc3 @ emit_metrics Prefill sel sc3"
    have out: "res = Inr (evs @ ?new)" "sc' = sc3"
      using run on adv em E(1) N(1) by (auto simp: run_step_def Inr apply_step_result_def emit_step_result_def)
    have gen: "ss_generated (sc_store sc2 a) = ss_generated (sc_store sc a)" if "a \<notin> (\<lambda>(w, item). sw_state w) ` set applied" for a
    proof -
      have "core (sc_store sc2 a) = core (sc_store sc a)" using A that by blast
      then show ?thesis by (simp add: core_def)
    qed
    have tok: "tokens_of (id_of (sc_store sc a)) ?new =
        map Some (drop (ss_generated (sc_store sc a)) (greedy nt (prompt_of (sc_store sc a)) (ss_generated (sc_store sc2 a))))"
      if s: "sole sc a" for a
    proof -
      have own: "sw_state w = a" if "(w, item) \<in> set applied" "id_of (sc_store sc2 (sw_state w)) = id_of (sc_store sc a)" for w item
        using s fits [OF that(1)] that(2) at work unfolding sole_def by (simp add: s2)
      have T: "tokens_of (id_of (sc_store sc a)) ?new =
          concat (map (\<lambda>(w, item). emitted_token (id_of (sc_store sc a)) (sc_store sc2 (sw_state w)) w item) applied)"
        using N(2) E(4) by (simp add: emit_metrics_tokens)
      show ?thesis
      proof (cases "a \<in> (\<lambda>(w, item). sw_state w) ` set applied")
        case False
        then have "concat (map (\<lambda>(w, item). emitted_token (id_of (sc_store sc a)) (sc_store sc2 (sw_state w)) w item) applied) = []"
          using own by (force simp: emitted_token_def)
        then show ?thesis using T gen [OF False] by simp
      next
        case True
        then obtain w item where wi: "(w, item) \<in> set applied" "a = sw_state w" by auto
        have "concat (map (\<lambda>(w, item). emitted_token (id_of (sc_store sc a)) (sc_store sc2 (sw_state w)) w item) applied) =
            (\<lambda>(w, item). emitted_token (id_of (sc_store sc a)) (sc_store sc2 (sw_state w)) w item) (w, item)"
        proof (rule concat_map_one [OF wi(1), where f = "\<lambda>(w, item). sw_state w"])
          show "distinct (map (\<lambda>(w, item). sw_state w) applied)" using A by blast
          show "\<forall>y \<in> set applied. (case y of (w, item) \<Rightarrow> sw_state w) \<noteq> (case (w, item) of (w, item) \<Rightarrow> sw_state w) \<longrightarrow>
              (case y of (w, item) \<Rightarrow> emitted_token (id_of (sc_store sc a)) (sc_store sc2 (sw_state w)) w item) = []"
            using own wi(2) by (force simp: emitted_token_def)
        qed
        then have T2: "tokens_of (id_of (sc_store sc a)) ?new = emitted_token (id_of (sc_store sc a)) (sc_store sc2 a) w item"
          using T wi(2) by simp
        have n: "next_state nt (er_phase (sw_request w)) (er_token_ids (sw_request w)) (sc_store sc a) (sc_store sc2 a)"
          "item = step_done (sw_request w) (ss_cache_length (sc_store sc2 a)) (nt (fed nt (sc_store sc2 a)))"
          using each(2,3) [OF wi(1)] wi(2) by simp_all
        have tk: "sr_next_token_id item = Some (nt (fed nt (sc_store sc2 a)))" unfolding n(2) by (simp add: step_done_def)
        have id: "id_of (sc_store sc2 a) = id_of (sc_store sc a)" "prompt_of (sc_store sc2 a) = prompt_of (sc_store sc a)"
          using n(1) by (simp_all add: next_state_def)
        show ?thesis
        proof (cases "er_phase (sw_request w) = Decode \<or> ss_cursor (sc_store sc2 a) = length (prompt_of (sc_store sc2 a))")
          case True
          then have g: "ss_generated (sc_store sc2 a) = Suc (ss_generated (sc_store sc a))" using n(1) by (simp add: next_state_def)
          then have "fed nt (sc_store sc2 a) = prompt_of (sc_store sc a) @ greedy nt (prompt_of (sc_store sc a)) (ss_generated (sc_store sc a))"
            by (simp add: fed_def id)
          then show ?thesis using T2 True by (simp add: emitted_token_def tk id g)
        next
          case False
          then have "ss_generated (sc_store sc2 a) = ss_generated (sc_store sc a)" using n(1) by (simp add: next_state_def)
          then show ?thesis using T2 False by (simp add: emitted_token_def)
        qed
      qed
    qed
    have le: "ss_generated (sc_store sc a) \<le> ss_generated (sc_store sc2 a)" for a
    proof (cases "a \<in> (\<lambda>(w, item). sw_state w) ` set applied")
      case True
      then show ?thesis using each(2) by (force simp: next_state_def)
    next
      case False
      then show ?thesis using gen by simp
    qed
    have fin: "sc_store sc' = sc_store sc2" "sc_next sc' = sc_next sc" "queued_at sc' a = queued_at sc a" for a
      using at by (simp_all add: out(2) E(3) s2 waiting_at_def running_at_def)
    have "progress nt sc ?new sc'"
      unfolding progress_def
    proof (intro conjI allI impI)
      show "sc_next sc' = sc_next sc" by (rule fin(2))
      show "queued_at sc a" if "queued_at sc' a" for a using that fin(3) by simp
      show "ss_work (sc_store sc' a) = ss_work (sc_store sc a)" for a using work by (simp add: fin(1) s2)
      show "ss_generated (sc_store sc a) \<le> ss_generated (sc_store sc' a)" for a using le by (simp add: fin(1))
      show "tokens_of (id_of (sc_store sc a)) ?new =
          map Some (drop (ss_generated (sc_store sc a)) (greedy nt (prompt_of (sc_store sc a)) (ss_generated (sc_store sc' a))))"
        if "sole sc a" for a unfolding fin(1) by (rule tok [OF that])
    qed
    moreover have "answered sc w ?new sc'" if w: "w \<in> set sel" for w
    proof (cases "w \<in> fst ` set applied")
      case False
      then show ?thesis using N(3) w by (simp add: answered_def)
    next
      case True
      then obtain item where wi: "(w, item) \<in> set applied" by auto
      have pw: "picked sc w" using sel(1) w by blast
      have n: "next_state nt (er_phase (sw_request w)) (er_token_ids (sw_request w)) (sc_store sc (sw_state w)) (sc_store sc2 (sw_state w))"
        "item = step_done (sw_request w) (ss_cache_length (sc_store sc2 (sw_state w))) (nt (fed nt (sc_store sc2 (sw_state w))))"
        using each(2,3) [OF wi] by simp_all
      have "\<not> failed result w"
        by (rule advance_kept [OF sel(2) _ adv wi]) (use sel(1) in \<open>simp add: picked_def\<close>)
      then have ne: "er_token_ids (sw_request w) \<noteq> []" using executed [OF inv sel ex [unfolded Inr]] w by blast
      have "running_at sc2 (sw_state w)" using fits [OF wi] by simp
      then have "state_ok nt (sc_store sc2 (sw_state w))" using invD(7) [OF inv2] by (auto simp: owns_def)
      then have grow: "ss_cache_length (sc_store sc (sw_state w)) < ss_cache_length (sc_store sc2 (sw_state w))"
        using n(1) ne picked_request(4) [OF inv pw] by (simp add: next_state_def state_ok_def)
      have "tokens_of (id_of (sc_store sc (sw_state w))) ?new \<noteq> []" if "er_phase (sw_request w) = Decode"
      proof -
        have "id_of (sc_store sc2 (sw_state w)) = id_of (sc_store sc (sw_state w))" by (simp add: s2 work)
        then have "emitted_token (id_of (sc_store sc (sw_state w))) (sc_store sc2 (sw_state w)) w item \<noteq> []"
          using that by (simp add: emitted_token_def)
        then show ?thesis using E(4) wi by fastforce
      qed
      then show ?thesis using grow by (simp add: answered_def fin(1))
    qed
    ultimately show ?thesis using out E(2) by blast
  qed
qed

lemma due_queued:
  assumes "inv sc" "due sc a"
  shows "queued_at sc a" "\<not> ss_cancel (sc_store sc a)"
proof -
  have "a \<in> set (prefill_candidates sc)" if "prefill_candidates sc \<noteq> []" "a = hd (prefill_candidates sc)" using that by simp
  then show "queued_at sc a" "\<not> ss_cancel (sc_store sc a)"
    using assms(2) in_queue [OF invD(5) [OF assms(1)]] by (auto simp: due_def decode_ready_def prefill_candidates_def Let_def)
qed

lemma tick_rule:
  assumes inv: "inv sc" and run: "tick bk sc = (res, sc')"
  shows "\<exists>evs. res = Inr evs \<and> inv sc' \<and> progress nt sc evs sc' \<and>
    (\<exists>sc1 new. reap_cancelled bk {} [] (sc\<lparr>sc_pending := [], sc_round := Suc (sc_round sc)\<rparr>) = (Inr new, sc1) \<and>
       set new \<subseteq> set evs \<and> (\<forall>a. queued_at sc' a \<longrightarrow> queued_at sc1 a)) \<and>
    (\<forall>a. due sc a \<longrightarrow> errs (id_of (sc_store sc a)) evs \<or>
       ss_cache_length (sc_store sc a) < ss_cache_length (sc_store sc' a) \<and>
       (ss_last_token (sc_store sc a) \<noteq> None \<longrightarrow> tokens_of (id_of (sc_store sc a)) evs \<noteq> []))"
proof -
  note I = invD [OF inv]
  let ?sc0 = "sc\<lparr>sc_pending := [], sc_round := Suc (sc_round sc)\<rparr>"
  have i0: "inv ?sc0 \<and> calm sc ?sc0" by (rule inv_same [OF inv]) (use I in simp_all)
  have b: "begin_tick sc = ([], ?sc0)" by (simp add: begin_tick_def I(3))
  obtain r1 sc1 where one: "reap_cancelled bk {} [] ?sc0 = (r1, sc1)" by (metis surj_pair)
  obtain new1 where R1: "r1 = Inr new1" "\<forall>rid. tokens_of rid new1 = []" "inv sc1" "calm ?sc0 sc1" "sc_store sc1 = sc_store sc"
    "\<forall>b. queued_at sc1 b \<longleftrightarrow> queued_at ?sc0 b \<and> \<not> ss_cancel (sc_store sc b)"
    using reap_cancelled_rule [OF conjunct1 [OF i0] one] by auto
  obtain r2 sc2 where two: "select_work bk sc1 = (r2, sc2)" by (metis surj_pair)
  obtain sel where R2: "r2 = Inr sel" "inv sc2" "calm sc1 sc2" "\<forall>w \<in> set sel. picked sc2 w" "distinct (map sw_state sel)"
    "\<forall>a. queued_at sc1 a \<longrightarrow> ss_cache_length (sc_store sc1 a) \<le> ss_cache_length (sc_store sc2 a)"
    "\<forall>a. running_at sc1 a \<longrightarrow> decode_ready (sc_store sc1 a) \<longrightarrow> a \<in> sw_state ` set sel"
    "sc_policy sc1 = FCFS \<longrightarrow> 0 < sc_prefill_batch sc1 \<longrightarrow> prefill_candidates sc1 \<noteq> [] \<longrightarrow> hd (prefill_candidates sc1) \<in> sw_state ` set sel"
    using select_work_rule [OF R1(3) two] by (elim exE conjE) (rule that)
  have p2: "progress nt sc new1 sc2"
    using calm_progress [OF calm_trans [OF conjunct2 [OF i0] calm_trans [OF R1(4) R2(3)]] R1(2)] .
  have q2: "queued_at sc2 a \<longrightarrow> queued_at sc1 a" for a using R2(3) unfolding calm_def by blast
  have cand: "prefill_candidates sc1 = prefill_candidates sc \<and> sc_policy sc1 = sc_policy sc \<and> sc_prefill_batch sc1 = sc_prefill_batch sc"
    using reap_keeps_candidates [OF conjunct1 [OF i0] one] by (simp add: prefill_candidates_def)
  have q0: "queued_at ?sc0 b = queued_at sc b" for b by (simp add: waiting_at_def running_at_def)
  have due: "queued_at sc1 a \<and> a \<in> sw_state ` set sel" if d: "due sc a" for a
  proof -
    have q: "queued_at sc1 a" using R1(6) due_queued [OF inv d] q0 by simp
    have "a \<in> sw_state ` set sel"
    proof (cases "running_at sc a \<and> decode_ready (sc_store sc a)")
      case True
      have "\<not> waiting_at sc1 a" using invD(6) [OF R1(3), of a] True by (auto simp: R1(5) fresh_state_def decode_ready_def)
      then show ?thesis using q True R2(7) by (simp add: R1(5))
    next
      case False
      then show ?thesis using d R2(8) cand by (auto simp: due_def)
    qed
    then show ?thesis using q by blast
  qed
  have run': "(if sel = [] then (\<lambda>sc. (Inr new1, sc)) else bind_err (run_step bk sel new1) (\<lambda>evs. reap_cancelled bk {} evs)) sc2 = (res, sc')"
    using run I(1) one two R1(1) R2(1) by (simp add: tick_def tick_serial_def b)
  have "\<exists>rest. res = Inr (new1 @ rest) \<and> inv sc' \<and> progress nt sc (new1 @ rest) sc' \<and> (\<forall>a. queued_at sc' a \<longrightarrow> queued_at sc1 a) \<and>
      (\<forall>w \<in> set sel. answered sc2 w rest sc')"
  proof (cases "sel = []")
    case True
    then show ?thesis using run' R2(2) p2 q2 by auto
  next
    case False
    obtain r3 sc3 where three: "run_step bk sel new1 sc2 = (r3, sc3)" by (metis surj_pair)
    obtain new3 where R3: "r3 = Inr (new1 @ new3)" "inv sc3" "progress nt sc2 new3 sc3" "\<forall>w \<in> set sel. answered sc2 w new3 sc3"
      using run_step_rule [OF R2(2,4,5) three] by blast
    have four: "reap_cancelled bk {} (new1 @ new3) sc3 = (res, sc')" using run' False three R3(1) by simp
    obtain new4 where R4: "res = Inr ((new1 @ new3) @ new4)" "\<forall>rid. tokens_of rid new4 = []" "inv sc'" "calm sc3 sc'" "sc_store sc' = sc_store sc3"
      using reap_cancelled_rule [OF R3(2) four] by blast
    have p4: "progress nt sc2 (new3 @ new4) sc'" by (rule progress_trans [OF R3(3) calm_progress [OF R4(4,2)]])
    then have "queued_at sc' a \<longrightarrow> queued_at sc1 a" for a using q2 unfolding progress_def by blast
    moreover have "answered sc2 w (new3 @ new4) sc'" if "w \<in> set sel" for w
      using R3(4) that R4(2,5) by (auto simp: answered_def)
    ultimately show ?thesis using R4 progress_trans [OF p2 p4] by (intro exI [of _ "new3 @ new4"]) simp
  qed
  then obtain rest where F: "res = Inr (new1 @ rest)" "inv sc'" "progress nt sc (new1 @ rest) sc'" "\<forall>a. queued_at sc' a \<longrightarrow> queued_at sc1 a"
    "\<forall>w \<in> set sel. answered sc2 w rest sc'" by blast
  have "errs (id_of (sc_store sc a)) (new1 @ rest) \<or>
      ss_cache_length (sc_store sc a) < ss_cache_length (sc_store sc' a) \<and>
      (ss_last_token (sc_store sc a) \<noteq> None \<longrightarrow> tokens_of (id_of (sc_store sc a)) (new1 @ rest) \<noteq> [])" if d: "due sc a" for a
  proof -
    obtain w where w: "w \<in> set sel" "a = sw_state w" and q: "queued_at sc1 a" using due [OF d] by blast
    have same: "ss_work (sc_store sc2 a) = ss_work (sc_store sc a)" "ss_generated (sc_store sc2 a) = ss_generated (sc_store sc a)"
      "ss_cache_length (sc_store sc a) \<le> ss_cache_length (sc_store sc2 a)"
      using R2(3,6) q R1(5) by (auto simp: calm_def)
    have "er_phase (sw_request w) = Decode" if l: "ss_last_token (sc_store sc a) \<noteq> None"
    proof -
      have "running_at sc a" using due_queued(1) [OF inv d] I(6) [of a] l by (auto simp: fresh_state_def)
      then have "state_ok nt (sc_store sc a)" using I(7) by (simp add: owns_def)
      then have "ss_generated (sc_store sc a) \<noteq> 0" using l by (auto simp: state_ok_def split: nat.splits)
      then have "w = decode_work (sw_state w) (sc_store sc2 (sw_state w))"
        using R2(4) w same(2) by (auto simp: picked_def)
      then show ?thesis by (metis decode_work_def execution_request.select_convs(2) selected_work.select_convs(2))
    qed
    then show ?thesis using F(5) w same by (fastforce simp: answered_def)
  qed
  then show ?thesis using F(1-4) one R1(1) by (intro exI [of _ "new1 @ rest"] conjI) simp_all
qed

end

end
