(* ===== verification/SchedOps.thy ===== *)
theory SchedOps
  imports SchedStep
begin

text \<open>
  The operations of the scheduler as one alphabet: what a caller does between two ticks, in any order.
  Every operation keeps the invariant, only a duplicate submission is refused, and the tokens of a
  request are the greedy continuation of its prompt over the whole run.
\<close>

datatype sched_op = Submit schedulable_request | Cancel string | Finish string | Tick

fun run_op :: "('c, 'p, 'f) backend \<Rightarrow> sched_op \<Rightarrow> ('c, 'f) scheduler \<Rightarrow> (exn + scheduler_event list) \<times> ('c, 'f) scheduler" where
  "run_op bk (Submit w) sc = (case sched_submit w sc of (Inl e, sc') \<Rightarrow> (Inl e, sc') | (Inr _, sc') \<Rightarrow> (Inr [], sc'))"
| "run_op bk (Cancel rid) sc = (Inr [], snd (sched_cancel rid sc))"
| "run_op bk (Finish rid) sc = (case sched_finish bk rid sc of (Inl e, sc') \<Rightarrow> (Inl e, sc') | (Inr _, sc') \<Rightarrow> (Inr [], sc'))"
| "run_op bk Tick sc = tick bk sc"

fun run_ops ::
  "('c, 'p, 'f) backend \<Rightarrow> sched_op list \<Rightarrow> ('c, 'f) scheduler \<Rightarrow> (exn + scheduler_event list) \<times> ('c, 'f) scheduler" where
  "run_ops bk [] sc = (Inr [], sc)"
| "run_ops bk (op # ops) sc =
     (case run_op bk op sc of
        (Inl e, sc1) \<Rightarrow> (Inl e, sc1)
      | (Inr evs, sc1) \<Rightarrow>
          (case run_ops bk ops sc1 of
             (Inl e, sc2) \<Rightarrow> (Inl e, sc2)
           | (Inr evs2, sc2) \<Rightarrow> (Inr (evs @ evs2), sc2)))"

text \<open>The exception of a submission whose id is in use, the only one these operations raise.\<close>

definition duplicate :: "sched_op \<Rightarrow> exn \<Rightarrow> bool" where
  "duplicate op e \<longleftrightarrow> (\<exists>w. op = Submit w \<and> e = ValueError (''duplicate native request '' @ py_repr (sq_request_id w)))"

text \<open>What a run of operations does to the request at address \<open>a\<close>, if no other request takes its id.\<close>

definition served :: "(token list \<Rightarrow> token) \<Rightarrow> ('c, 'f) scheduler \<Rightarrow> nat \<Rightarrow> scheduler_event list \<Rightarrow> ('c, 'f) scheduler \<Rightarrow> bool" where
  "served nt sc a evs sc' \<longleftrightarrow> sole sc' a \<and> sc_next sc \<le> sc_next sc' \<and> ss_work (sc_store sc' a) = ss_work (sc_store sc a) \<and>
     ss_generated (sc_store sc a) \<le> ss_generated (sc_store sc' a) \<and>
     tokens_of (id_of (sc_store sc a)) evs =
       map Some (drop (ss_generated (sc_store sc a)) (greedy nt (prompt_of (sc_store sc a)) (ss_generated (sc_store sc' a))))"

lemma progress_served:
  assumes "progress nt sc evs sc'" "sole sc a"
  shows "served nt sc a evs sc'"
  using progress_sole [OF assms] assms unfolding progress_def served_def by auto

lemma served_trans:
  assumes "served nt sc a e1 sc1" "served nt sc1 a e2 sc2"
  shows "served nt sc a (e1 @ e2) sc2"
proof -
  have w: "ss_work (sc_store sc1 a) = ss_work (sc_store sc a)" using assms(1) by (simp add: served_def)
  then show ?thesis using assms by (simp add: served_def drop_greedy_trans flip: map_append)
qed

context serving
begin

lemma submit_rule:
  assumes inv: "inv sc" and run: "sched_submit w sc = (res, sc')"
  shows "inv sc' \<and> (case res of
      Inl e \<Rightarrow> sc' = sc \<and> e = ValueError (''duplicate native request '' @ py_repr (sq_request_id w))
    | Inr _ \<Rightarrow> waiting_at sc' (sc_next sc) \<and> sole sc' (sc_next sc) \<and> sc_next sc' = Suc (sc_next sc) \<and>
        ss_work (sc_store sc' (sc_next sc)) = w \<and> ss_generated (sc_store sc' (sc_next sc)) = 0 \<and>
        (\<forall>a. a \<noteq> sc_next sc \<longrightarrow> sc_store sc' a = sc_store sc a) \<and>
        (\<forall>a. queued_at sc' a \<longrightarrow> a = sc_next sc \<or> queued_at sc a))"
proof (cases "map_of (sc_waiting sc) (sq_request_id w) \<noteq> None \<or> map_of (sc_running sc) (sq_request_id w) \<noteq> None")
  case True
  then show ?thesis using run inv by (auto simp: sched_submit_def Let_def)
next
  case False
  note I = invD [OF inv]
  let ?a = "sc_next sc"
  have out: "res = Inr ()" "sc' = sc\<lparr>sc_arrival := Suc (sc_arrival sc), sc_next := Suc ?a,
      sc_store := (sc_store sc)(?a := new_state w (Suc (sc_arrival sc))), sc_waiting := AList.update (sq_request_id w) ?a (sc_waiting sc)\<rparr>"
    using run False by (auto simp: sched_submit_def Let_def)
  have id: "id_of (sc_store sc' ?a) = sq_request_id w" by (simp add: out new_state_def)
  have old: "sc_store sc' b = sc_store sc b" if "b \<noteq> ?a" for b using that by (simp add: out)
  have lt: "b \<noteq> ?a" if "queued_at sc b" for b using that queue_ids(3,4) [OF I(5), of b] by auto
  have new: "map_of (sc_waiting sc') rid = (if rid = sq_request_id w then Some ?a else map_of (sc_waiting sc) rid)"
    "sc_running sc' = sc_running sc" "sc_next sc' = Suc ?a" for rid
    by (simp_all add: out(2) dict_simps)
  have Q: "queues_ok sc'"
    unfolding queues_ok_def new
  proof (intro conjI allI impI)
    show "dict_ok (sc_waiting sc')" "dict_ok (sc_running sc)" using queues_okD(1,2) [OF I(5)] by (simp_all add: out(2))
    fix rid b
    show "map_of (sc_running sc) rid = None" if "(if rid = sq_request_id w then Some ?a else map_of (sc_waiting sc) rid) = Some b"
      using that False queues_okD(3) [OF I(5), of rid b] by (simp split: if_splits)
    show "b < Suc ?a" "id_of (sc_store sc' b) = rid"
      if "(if rid = sq_request_id w then Some ?a else map_of (sc_waiting sc) rid) = Some b"
      using that queues_okD(3) [OF I(5), of rid b] id old [of b] by (auto split: if_splits)
    show "b < Suc ?a" "id_of (sc_store sc' b) = rid" if "map_of (sc_running sc) rid = Some b"
      using that queues_okD(4) [OF I(5), of rid b] old [of b] by auto
  qed
  have W: "waiting_at sc' b \<longleftrightarrow> b = ?a \<or> waiting_at sc b" for b
  proof (cases "b = ?a")
    case True
    then show ?thesis by (simp add: waiting_at_def id) (simp add: out dict_simps)
  next
    case F: False
    have "id_of (sc_store sc b) \<noteq> sq_request_id w" if "waiting_at sc b" using that False by (auto simp: waiting_at_def)
    then show ?thesis using F by (auto simp: waiting_at_def old) (auto simp: out dict_simps split: if_splits)
  qed
  have R: "running_at sc' b \<longleftrightarrow> running_at sc b" for b
  proof (cases "b = ?a")
    case True
    then have "\<not> running_at sc' b" using False by (simp add: running_at_def id) (simp add: out)
    then show ?thesis using lt True by blast
  next
    case F: False
    then show ?thesis by (simp add: running_at_def old) (simp add: out)
  qed
  have cache: "sc_cache sc' = sc_cache sc" by (simp add: out)
  have keep: "sc_store sc' b = sc_store sc b" if "running_at sc b" for b using old lt that by blast
  have "inv sc'"
    unfolding serve_inv_def R cache
  proof (intro conjI allI impI)
    show "\<not> sc_overlap sc'" "sc_in_flight sc' = None" "sc_pending sc' = []" "cok (sc_cache sc)" "queues_ok sc'"
      using I Q by (simp_all add: out)
    show "fresh_state (sc_store sc' b)" if "waiting_at sc' b" for b
      using that W I(6) [of b] old [of b] by (cases "b = ?a") (simp_all add: out fresh_state_def new_state_def)
    show "owns held cview good nt (sc_cache sc) (sc_store sc' b)" if "running_at sc b" for b using I(7) [OF that] keep [OF that] by simp
    show "b = c" if "running_at sc b" "running_at sc c" "ss_handle (sc_store sc' b) = ss_handle (sc_store sc' c)" for b c
      using I(8) [OF that(1,2)] that(3) keep [OF that(1)] keep [OF that(2)] by simp
    show "h \<in> held (sc_cache sc) \<or> (\<exists>b. running_at sc b \<and> ss_handle (sc_store sc' b) = Some h)" if "cview (sc_cache sc) h \<noteq> None" for h
      using I(9) [OF that] keep by metis
  qed
  moreover have "sole sc' ?a"
    by (rule queued_sole [OF Q]) (simp add: W)
  ultimately show ?thesis using W R old by (auto simp: out(1)) (simp_all add: out new_state_def)
qed

lemma cancel_rule:
  assumes inv: "inv sc" and run: "sched_cancel rid sc = (b, sc')"
  shows "inv sc' \<and> calm sc sc' \<and> (\<forall>a. queued_at sc a \<longrightarrow> id_of (sc_store sc a) = rid \<longrightarrow> b \<and> queued_at sc' a \<and> ss_cancel (sc_store sc' a))"
proof (cases "find_state rid (sc_waiting sc) (sc_running sc)")
  case None
  then show ?thesis
    using run inv by (auto simp: sched_cancel_def find_state_def waiting_at_def running_at_def split: option.splits)
next
  case (Some a)
  then have out: "b" "sc' = upd_state a (ss_cancel_update (\<lambda>_. True)) sc" using run by (simp_all add: sched_cancel_def)
  have a: "queued_at sc a" "id_of (sc_store sc a) = rid"
    using Some queue_ids(1,2) [OF invD(5) [OF inv]] by (auto simp: find_state_def split: option.splits)
  have "inv sc' \<and> calm sc sc'" unfolding out(2) by (rule upd_flags [OF inv]) simp
  moreover have "ss_cancel (sc_store sc' c) \<and> queued_at sc' c" if "queued_at sc c" "id_of (sc_store sc c) = rid" for c
  proof -
    have "c = a" using queue_inj [OF invD(5) [OF inv], of c a] that a by simp
    moreover have "queued_at sc' a" using a(1) by (simp add: out(2) upd_state_def waiting_at_def running_at_def)
    ultimately show ?thesis by (simp add: out(2) upd_state_def)
  qed
  ultimately show ?thesis using out(1) by blast
qed

lemma finish_rule:
  assumes inv: "inv sc" and run: "sched_finish bk rid sc = (res, sc')"
  shows "res = Inr () \<and> inv sc' \<and> calm sc sc' \<and> (\<forall>a. queued_at sc' a \<longrightarrow> id_of (sc_store sc' a) \<noteq> rid)"
proof -
  note I = invD [OF inv]
  have nf: "rid \<notin> in_flight_ids sc" using I(2) by (simp add: in_flight_ids_def)
  have keys: "k \<notin> set (dict_keys d)" if "map_of d k = None" for k and d :: "(string, nat) dict"
    using that by (simp add: map_of_eq_None_iff)
  consider (gone) "map_of (sc_running sc) rid = None" "map_of (sc_waiting sc) rid = None"
    | (there) a where "queued_at sc a" "id_of (sc_store sc a) = rid" "sched_finish bk rid sc = drop_request bk a sc"
  proof (cases "map_of (sc_running sc) rid")
    case (Some a)
    then have a: "running_at sc a" "id_of (sc_store sc a) = rid" using queue_ids(2) [OF I(5)] by auto
    then have "map_of (sc_waiting sc) rid = None"
      using queue_ids(1) [OF I(5)] queue_inj [OF I(5), of _ a] queue_ids(5) [OF I(5)] by (metis option.exhaust)
    then have "sched_finish bk rid sc = drop_request bk a sc"
      using Some nf a(2) keys by (simp add: sched_finish_def drop_request_def Let_def)
    then show ?thesis using that(2) a by blast
  next
    case None
    show ?thesis
    proof (cases "map_of (sc_waiting sc) rid")
      case (Some a)
      then have a: "waiting_at sc a" "id_of (sc_store sc a) = rid" using queue_ids(1) [OF I(5)] by auto
      have "sched_finish bk rid sc = drop_request bk a sc"
        using Some None nf a(2) keys by (simp add: sched_finish_def drop_request_def Let_def)
      then show ?thesis using that(2) a by blast
    qed (use None that(1) in blast)
  qed
  then show ?thesis
  proof cases
    case gone
    then have "res = Inr ()" "sc' = sc" using run nf by (simp_all add: sched_finish_def)
    then show ?thesis using gone inv queue_ids(1,2) [OF I(5), of rid] by auto
  next
    case (there a)
    note D = drop_rule [OF inv there(1) run [unfolded there(3)]]
    then show ?thesis using queue_inj [OF I(5) _ there(1)] there(2) by auto
  qed
qed

text \<open>One operation.\<close>

lemma run_op_rule:
  assumes inv: "inv sc" and run: "run_op bk op sc = (res, sc')"
  shows "inv sc' \<and> (case res of
      Inl e \<Rightarrow> duplicate op e
    | Inr evs \<Rightarrow> \<forall>a < sc_next sc. sole sc a \<longrightarrow> (\<forall>w. op = Submit w \<longrightarrow> sq_request_id w \<noteq> id_of (sc_store sc a)) \<longrightarrow> served nt sc a evs sc')"
proof (cases op)
  case (Submit w)
  obtain r sc1 where s: "sched_submit w sc = (r, sc1)" by (metis surj_pair)
  note S = submit_rule [OF inv s]
  show ?thesis
  proof (cases r)
    case (Inl e)
    then have "sc1 = sc" "e = ValueError (''duplicate native request '' @ py_repr (sq_request_id w))" using S by simp_all
    moreover have "res = Inl e" "sc' = sc1" using run s Inl by (auto simp: Submit)
    ultimately show ?thesis using inv by (simp add: Submit duplicate_def)
  next
    case (Inr u)
    then have out: "res = Inr []" "sc' = sc1" using run s by (simp_all add: Submit)
    have "served nt sc a [] sc1" if a: "a < sc_next sc" "sole sc a" "sq_request_id w \<noteq> id_of (sc_store sc a)" for a
    proof -
      have st: "sc_store sc1 b = sc_store sc b" if "b \<noteq> sc_next sc" for b using S Inr that by simp
      have "sole sc1 a"
        unfolding sole_def
      proof (intro allI impI)
        fix b assume b: "queued_at sc1 b" "id_of (sc_store sc1 b) = id_of (sc_store sc1 a)"
        then have "b \<noteq> sc_next sc" using S Inr a st [of a] by auto
        then show "b = a" using S Inr a b st [of a] st [of b] unfolding sole_def by auto
      qed
      then show ?thesis using S Inr a st [of a] by (simp add: served_def)
    qed
    then show ?thesis using S out by (simp add: Submit)
  qed
next
  case (Cancel rid)
  then have "res = Inr []" "sched_cancel rid sc = (fst (sched_cancel rid sc), sc')" using run by auto
  then show ?thesis using cancel_rule [OF inv] progress_served [OF calm_progress, of sc sc' "[]"] by auto
next
  case (Finish rid)
  obtain r sc1 where f: "sched_finish bk rid sc = (r, sc1)" by (metis surj_pair)
  note F = finish_rule [OF inv f]
  then have "res = Inr []" "sc' = sc1" using run f by (simp_all add: Finish)
  then show ?thesis using F progress_served [OF calm_progress, of sc sc' "[]"] by auto
next
  case Tick
  then have "tick bk sc = (res, sc')" using run by simp
  then show ?thesis using tick_rule [OF inv] progress_served by fastforce
qed

lemma run_ops_rule:
  assumes "inv sc" "run_ops bk ops sc = (res, sc')"
  shows "inv sc' \<and> (case res of
      Inl e \<Rightarrow> \<exists>op \<in> set ops. duplicate op e
    | Inr evs \<Rightarrow> \<forall>a < sc_next sc. sole sc a \<longrightarrow> (\<forall>w. Submit w \<in> set ops \<longrightarrow> sq_request_id w \<noteq> id_of (sc_store sc a)) \<longrightarrow>
        served nt sc a evs sc')"
  using assms
proof (induction ops arbitrary: sc res)
  case Nil
  then show ?case by (auto simp: served_def)
next
  case (Cons op ops)
  obtain r1 sc1 where one: "run_op bk op sc = (r1, sc1)" by (metis surj_pair)
  note R1 = run_op_rule [OF Cons.prems(1) one]
  show ?case
  proof (cases r1)
    case (Inl e)
    then have "res = Inl e" "sc' = sc1" using Cons.prems(2) one by auto
    then show ?thesis using R1 Inl by simp
  next
    case (Inr e1)
    obtain r2 sc2 where two: "run_ops bk ops sc1 = (r2, sc2)" by (metis surj_pair)
    have sc': "sc2 = sc'" using Cons.prems(2) one two by (simp add: Inr split: sum.splits)
    note R2 = Cons.IH [OF conjunct1 [OF R1] two [unfolded sc']]
    show ?thesis
    proof (cases r2)
      case (Inl e)
      then have "res = Inl e" using Cons.prems(2) one two \<open>r1 = Inr e1\<close> by auto
      then show ?thesis using R2 Inl by simp
    next
      case (Inr e2)
      have res: "res = Inr (e1 @ e2)" using Cons.prems(2) one two \<open>r1 = Inr e1\<close> Inr by auto
      have "served nt sc a (e1 @ e2) sc'"
        if a: "a < sc_next sc" "sole sc a" "\<forall>w. Submit w \<in> set (op # ops) \<longrightarrow> sq_request_id w \<noteq> id_of (sc_store sc a)" for a
      proof -
        have s1: "served nt sc a e1 sc1" using R1 a \<open>r1 = Inr e1\<close> by simp
        then have "a < sc_next sc1" "sole sc1 a" "id_of (sc_store sc1 a) = id_of (sc_store sc a)" using a(1) by (simp_all add: served_def)
        then have "served nt sc1 a e2 sc'" using R2 a(3) Inr by simp
        with s1 show ?thesis by (rule served_trans)
      qed
      then show ?thesis using R2 by (simp add: res)
    qed
  qed
qed

text \<open>A request submitted in a state the invariant holds of.\<close>

lemma submitted_is_served:
  assumes inv: "inv sc" and sub: "sched_submit w sc = (Inr u, sc1)"
    and run: "run_ops bk ops sc1 = (Inr evs, sc')" and other: "\<forall>v. Submit v \<in> set ops \<longrightarrow> sq_request_id v \<noteq> sq_request_id w"
  shows "\<exists>n. tokens_of (sq_request_id w) evs = map Some (greedy nt (sq_prompt w) n)"
proof -
  let ?a = "sc_next sc"
  note S = submit_rule [OF inv sub]
  then have s: "inv sc1" "?a < sc_next sc1" "sole sc1 ?a" "ss_work (sc_store sc1 ?a) = w" "ss_generated (sc_store sc1 ?a) = 0" by auto
  have "served nt sc1 ?a evs sc'" using run_ops_rule [OF s(1) run] s other by simp
  then show ?thesis using s(4,5) by (auto simp: served_def)
qed

text \<open>A cancelled request is gone after the next tick.\<close>

lemma cancelled_event:
  assumes inv: "inv sc" and "queued_at sc a" "ss_cancel (sc_store sc a)" and run: "reap_cancelled bk {} evs sc = (Inr new, sc')"
  shows "\<exists>stage. CancelledEvent (id_of (sc_store sc a)) stage \<in> set new"
proof -
  have "\<exists>stage. CancelledEvent (id_of (sc_store sc a)) stage \<in> set new"
    if "inv sc" "distinct as" "\<forall>a \<in> set as. queued_at sc a" "reap_cancelled_loop bk {} as evs sc = (Inr new, sc')"
      "a \<in> set as" "ss_cancel (sc_store sc a)" for as evs sc
    using that
  proof (induction as arbitrary: evs sc)
    case (Cons b as)
    show ?case
    proof (cases "ss_cancel (sc_store sc b)")
      case False
      then show ?thesis using Cons.IH [of sc evs] Cons.prems by auto
    next
      case True
      let ?evs = "evs @ [CancelledEvent (id_of (sc_store sc b)) (cancel_stage (id_of (sc_store sc b)) b sc)]"
      obtain r sc1 where d: "drop_request bk b sc = (r, sc1)" by (metis surj_pair)
      have D: "r = Inr ()" "inv sc1" "sc_store sc1 = sc_store sc" "\<forall>c. queued_at sc1 c \<longleftrightarrow> queued_at sc c \<and> c \<noteq> b"
        using drop_rule [OF Cons.prems(1) _ d] Cons.prems(3) by auto
      have rest: "reap_cancelled_loop bk {} as ?evs sc1 = (Inr new, sc')"
        using Cons.prems(4) True d D(1) by (simp add: Let_def)
      have q: "distinct as" "\<forall>c \<in> set as. queued_at sc1 c" using Cons.prems(2,3) D(4) by auto
      show ?thesis
      proof (cases "a = b")
        case eq: True
        obtain more where "Inr new = Inr (?evs @ more)"
          using reap_cancelled_loop_rule [OF D(2) q rest] by blast
        then show ?thesis by (auto simp: eq)
      next
        case False
        then show ?thesis using Cons.IH [OF D(2) q rest] Cons.prems(5,6) D(3) by simp
      qed
    qed
  qed simp
  from this [OF inv _ _ run [unfolded reap_cancelled_def]] show ?thesis
    using queued_list [OF invD(5) [OF inv]] assms(2,3) by blast
qed

lemma cancelled_is_reaped:
  assumes inv: "inv sc" and c: "queued_at sc a" "ss_cancel (sc_store sc a)" and run: "tick bk sc = (res, sc')"
  shows "\<exists>evs stage. res = Inr evs \<and> CancelledEvent (id_of (sc_store sc a)) stage \<in> set evs \<and> \<not> queued_at sc' a"
proof -
  let ?sc0 = "sc\<lparr>sc_pending := [], sc_round := Suc (sc_round sc)\<rparr>"
  have i0: "inv ?sc0" using inv_same [OF inv, of ?sc0] invD [OF inv] by simp
  have a0: "queued_at ?sc0 a" "ss_cancel (sc_store ?sc0 a)" using c by (simp_all add: waiting_at_def running_at_def)
  obtain evs sc1 new where T: "res = Inr evs" "reap_cancelled bk {} [] ?sc0 = (Inr new, sc1)" "set new \<subseteq> set evs"
    "\<forall>a. queued_at sc' a \<longrightarrow> queued_at sc1 a"
    using tick_rule [OF inv run] by blast
  have "\<not> queued_at sc1 a" using reap_cancelled_rule [OF i0 T(2)] a0 by blast
  moreover obtain stage where "CancelledEvent (id_of (sc_store ?sc0 a)) stage \<in> set new"
    using cancelled_event [OF i0 a0 T(2)] by blast
  ultimately show ?thesis using T by auto
qed

end

end
