(* ===== verification/SchedServe.thy ===== *)
theory SchedServe
  imports SchedOps Serving PrefixProps
begin

text \<open>
  The native runtime provides what the scheduler relies on: the coordinator over each of the prefix indexes,
  and the executor with the Qwen2 model, on one paged pool (\<open>native_backend\<close>).
\<close>

lemma native_executes:
  assumes "\<forall>l. masks_exactly (qw_sdpa m l)"
    and ok: "ix_inv (fst c) (snd c) \<Longrightarrow> paged_idle (qw_layers m) d (snd c)"
    and frame: "\<And>s'. ix_inv (fst c) (snd c) \<Longrightarrow> paged_idle (qw_layers m) d s' \<Longrightarrow>
      (\<And>k. k \<in> snaps (fst c) \<Longrightarrow> paged_view s' k = paged_view (snd c) k) \<Longrightarrow> ix_inv (fst c) s'"
    and inv: "ix_inv (fst c) (snd c)"
    and pre: "\<forall>q \<in> set requests. \<forall>h. er_cache_handle q = Some h \<longrightarrow>
      h \<notin> snaps (fst c) \<and> (\<exists>x. paged_view (snd c) h = Some x \<and> causal_rows (key_row m d) (value_row m d) (qw_layers m) (ctx h) x)"
    and run: "on_kv (execute_batch (qwen2_model m faults) argmax fault requests) c = (res, c')"
  shows "ix_inv (fst c') (snd c') \<and> fst c' = fst c \<and>
    (case res of
       Inl e \<Rightarrow> paged_view (snd c') = paged_view (snd c)
     | Inr st \<Rightarrow> \<exists>kept. results_ok (qwen2_next m d argmax) ctx requests kept (st_results st) \<and>
         (\<forall>(q, i, h) \<in> set kept. \<exists>x. paged_view (snd c') h = Some x \<and>
            causal_rows (key_row m d) (value_row m d) (qw_layers m) (ctx h @ er_token_ids q) x) \<and>
         (\<forall>h. h \<notin> (\<lambda>(q, i, h). h) ` set kept \<longrightarrow> paged_view (snd c') h = paged_view (snd c) h))"
proof -
  let ?s = "snd c"
  have idle: "paged_idle (qw_layers m) d ?s" by (rule ok [OF inv])
  obtain s' where ex: "execute_batch (qwen2_model m faults) argmax fault requests ?s = (res, s')" and c': "c' = (fst c, s')"
    using run by (auto simp: on_kv_def split: prod.splits)
  have ctx: "\<forall>q \<in> set requests. \<forall>h \<in> set (live ?s). er_cache_handle q = Some h \<longrightarrow>
      holds (key_row m d) (value_row m d) ?s h (ctx h)"
    using pre holds_view [OF idle] by blast
  note R = forward_model.execute_rule [OF qwen2_forward [OF assms(1)] idle ctx ex]
  have idle': "paged_idle (qw_layers m) d s'" using R by blast
  show ?thesis
  proof (cases res)
    case (Inl e)
    then have v: "paged_view s' = paged_view ?s" using R by simp
    have "ix_inv (fst c) s'" by (rule frame [OF inv idle']) (simp add: v)
    then show ?thesis by (simp add: c' Inl v)
  next
    case (Inr st)
    then obtain kept where K: "results_ok (qwen2_next m d argmax) ctx requests kept (st_results st)"
      "\<forall>(q, i, h) \<in> set kept. h \<in> set (live ?s) \<and> rc_request_id (objs ?s h) = er_request_id q \<and>
            holds (key_row m d) (value_row m d) s' h (ctx h @ er_token_ids q)"
      "\<forall>h. h \<notin> set (map (\<lambda>(q, i, h). h) kept) \<longrightarrow> paged_view s' h = paged_view ?s h"
      using R by auto
    have out: "h \<notin> snaps (fst c)" if "(q, i, h) \<in> set kept" for q i h
    proof -
      have "q \<in> set requests \<and> er_cache_handle q = Some h" using K(1) that unfolding results_ok_def by fastforce
      then show ?thesis using pre by blast
    qed
    have "paged_view s' k = paged_view ?s k" if "k \<in> snaps (fst c)" for k
      using K(3) out that by force
    then have "ix_inv (fst c) s'" by (rule frame [OF inv idle'])
    moreover have "\<exists>x. paged_view s' h = Some x \<and> causal_rows (key_row m d) (value_row m d) (qw_layers m) (ctx h @ er_token_ids q) x"
      if "(q, i, h) \<in> set kept" for q i h
    proof -
      have "h \<in> set (live s')" "holds (key_row m d) (value_row m d) s' h (ctx h @ er_token_ids q)" using K(2) R that by auto
      then show ?thesis using holds_view [OF idle'] by blast
    qed
    ultimately show ?thesis using K(1,3) by (auto simp: c' Inr)
  qed
qed

lemma native_serving:
  assumes sdpa: "\<forall>l. masks_exactly (qw_sdpa m l)"
    and coord: "cache_coordinator (coord_probe px) (coord_acquire paged_ops px) (coord_publish px) (coord_release paged_ops px)
      (\<lambda>(i, s). ix_inv i s) (\<lambda>c. snaps (fst c)) (\<lambda>c. paged_view (snd c)) cut_layers fst
      (causal_rows (key_row m d) (value_row m d) (qw_layers m))"
    and ok: "\<And>i s. ix_inv i s \<Longrightarrow> paged_idle (qw_layers m) d s"
    and frame: "\<And>i s s'. ix_inv i s \<Longrightarrow> paged_idle (qw_layers m) d s' \<Longrightarrow>
      (\<And>k. k \<in> snaps i \<Longrightarrow> paged_view s' k = paged_view s k) \<Longrightarrow> ix_inv i s'"
  shows "serving (native_backend px (qwen2_model m faults) argmax devices) (\<lambda>(i, s). ix_inv i s)
    (\<lambda>c. snaps (fst c)) (\<lambda>c. paged_view (snd c)) cut_layers fst
    (causal_rows (key_row m d) (value_row m d) (qw_layers m)) (qwen2_next m d argmax)"
proof (rule serving.intro)
  let ?bk = "native_backend px (qwen2_model m faults) argmax devices"
  show "cache_coordinator (bk_probe ?bk) (bk_acquire ?bk) (bk_publish ?bk) (bk_release ?bk)
      (\<lambda>(i, s). ix_inv i s) (\<lambda>c. snaps (fst c)) (\<lambda>c. paged_view (snd c)) cut_layers fst
      (causal_rows (key_row m d) (value_row m d) (qw_layers m))"
    using coord by (simp add: native_backend_def)
  show "serving_axioms ?bk (\<lambda>(i, s). ix_inv i s) (\<lambda>c. snaps (fst c)) (\<lambda>c. paged_view (snd c))
      (causal_rows (key_row m d) (value_row m d) (qw_layers m)) (qwen2_next m d argmax)"
  proof
    fix c requests ctx res c'
    assume a: "case c of (i, s) \<Rightarrow> ix_inv i s"
      "\<forall>q \<in> set requests. \<forall>h. er_cache_handle q = Some h \<longrightarrow> h \<notin> snaps (fst c) \<and>
         (\<exists>x. paged_view (snd c) h = Some x \<and> causal_rows (key_row m d) (value_row m d) (qw_layers m) (ctx h) x)"
      "bk_execute_batch ?bk requests c = (res, c')"
    have run: "on_kv (execute_batch (qwen2_model m faults) argmax (devices requests) requests) c = (res, c')"
      using a(3) by (simp add: native_backend_def)
    have "ix_inv (fst c') (snd c') \<and> fst c' = fst c \<and>
      (case res of
         Inl e \<Rightarrow> paged_view (snd c') = paged_view (snd c)
       | Inr st \<Rightarrow> \<exists>kept. results_ok (qwen2_next m d argmax) ctx requests kept (st_results st) \<and>
         (\<forall>(q, i, h) \<in> set kept. \<exists>x. paged_view (snd c') h = Some x \<and>
            causal_rows (key_row m d) (value_row m d) (qw_layers m) (ctx h @ er_token_ids q) x) \<and>
         (\<forall>h. h \<notin> (\<lambda>(q, i, h). h) ` set kept \<longrightarrow> paged_view (snd c') h = paged_view (snd c) h))"
    proof (rule native_executes [where ix_inv = ix_inv and snaps = snaps, OF sdpa _ _ _ _ run])
      show "paged_idle (qw_layers m) d (snd c)" if "ix_inv (fst c) (snd c)" by (rule ok [OF that])
      show "ix_inv (fst c) s'" if "ix_inv (fst c) (snd c)" "paged_idle (qw_layers m) d s'"
        "\<And>k. k \<in> snaps (fst c) \<Longrightarrow> paged_view s' k = paged_view (snd c) k" for s'
        by (rule frame [OF that])
      show "ix_inv (fst c) (snd c)" using a(1) by (simp add: split_beta)
    qed (rule a(2))
    then show "(case c' of (i, s) \<Rightarrow> ix_inv i s) \<and> snaps (fst c') = snaps (fst c) \<and>
      (case res of
         Inl e \<Rightarrow> (\<lambda>h. paged_view (snd c') h) = (\<lambda>h. paged_view (snd c) h)
       | Inr st \<Rightarrow> \<exists>kept. results_ok (qwen2_next m d argmax) ctx requests kept (st_results st) \<and>
         (\<forall>(q, i, h) \<in> set kept. \<exists>x. paged_view (snd c') h = Some x \<and>
            causal_rows (key_row m d) (value_row m d) (qw_layers m) (ctx h @ er_token_ids q) x) \<and>
         (\<forall>h. h \<notin> (\<lambda>(q, i, h). h) ` set kept \<longrightarrow> paged_view (snd c') h = paged_view (snd c) h))"
      by (cases c, cases c') auto
  qed
qed

text \<open>The three prefix policies over the paged pool.\<close>

lemma block_serving_laws:
  "\<forall>l. masks_exactly (qw_sdpa m l) \<Longrightarrow> serving (native_backend (block_prefix paged_ops) (qwen2_model m faults) argmax devices)
    (\<lambda>(i, s). block_sound (key_row m d) (value_row m d) (qw_layers m) d i s) (\<lambda>c. block_snaps (fst c)) (\<lambda>c. paged_view (snd c))
    cut_layers fst (causal_rows (key_row m d) (value_row m d) (qw_layers m)) (qwen2_next m d argmax)"
  by (rule native_serving [OF _ block_coord.cache_coordinator_axioms]) (use block.inv_ok block.inv_frame in blast)+

lemma radix_serving_laws:
  "\<forall>l. masks_exactly (qw_sdpa m l) \<Longrightarrow> serving (native_backend (radix_prefix paged_ops) (qwen2_model m faults) argmax devices)
    (\<lambda>(i, s). radix_sound (key_row m d) (value_row m d) (qw_layers m) d i s) (\<lambda>c. radix_snaps (fst c)) (\<lambda>c. paged_view (snd c))
    cut_layers fst (causal_rows (key_row m d) (value_row m d) (qw_layers m)) (qwen2_next m d argmax)"
  by (rule native_serving [OF _ radix_coord.cache_coordinator_axioms]) (use radix.inv_ok radix.inv_frame in blast)+

lemma plain_serving_laws:
  "\<forall>l. masks_exactly (qw_sdpa m l) \<Longrightarrow> serving (native_backend (no_prefix paged_ops) (qwen2_model m faults) argmax devices)
    (\<lambda>(i, s). none_inv (paged_idle (qw_layers m) d) i s) (\<lambda>c. {}) (\<lambda>c. paged_view (snd c))
    cut_layers fst (causal_rows (key_row m d) (value_row m d) (qw_layers m)) (qwen2_next m d argmax)"
  by (rule native_serving [OF _ plain_coord.cache_coordinator_axioms]) (simp_all add: none_inv_def)

interpretation block_serving: serving "native_backend (block_prefix paged_ops) (qwen2_model (m\<lparr>qw_sdpa := (\<lambda>l. masked_sdpa (core l) (blank l))\<rparr>) faults) argmax devices"
    "\<lambda>(i, s). block_sound (key_row (m\<lparr>qw_sdpa := (\<lambda>l. masked_sdpa (core l) (blank l))\<rparr>) d) (value_row (m\<lparr>qw_sdpa := (\<lambda>l. masked_sdpa (core l) (blank l))\<rparr>) d)
       (qw_layers (m\<lparr>qw_sdpa := (\<lambda>l. masked_sdpa (core l) (blank l))\<rparr>)) d i s"
    "\<lambda>c. block_snaps (fst c)" "\<lambda>c. paged_view (snd c)" cut_layers fst
    "causal_rows (key_row (m\<lparr>qw_sdpa := (\<lambda>l. masked_sdpa (core l) (blank l))\<rparr>) d) (value_row (m\<lparr>qw_sdpa := (\<lambda>l. masked_sdpa (core l) (blank l))\<rparr>) d)
       (qw_layers (m\<lparr>qw_sdpa := (\<lambda>l. masked_sdpa (core l) (blank l))\<rparr>))"
    "qwen2_next (m\<lparr>qw_sdpa := (\<lambda>l. masked_sdpa (core l) (blank l))\<rparr>) d argmax"
  for m core blank faults argmax devices d
  by (rule block_serving_laws) (simp add: masked_sdpa_exact)

end
