(* ===== verification/SchedProps.thy ===== *)
theory SchedProps
  imports SchedServe
begin

text \<open>
  The properties of the scheduler over the native runtime, from a fresh scheduler on: what every run of
  submissions, cancellations, finishes and ticks keeps, and what a request is answered.
\<close>

subsection \<open>A fresh scheduler\<close>

text \<open>Invariants of a scheduler over a prefix index and the paged pool.\<close>

abbreviation block_serves where
  "block_serves m d argmax sc \<equiv> serve_inv (\<lambda>(i, s). block_sound (key_row m d) (value_row m d) (qw_layers m) d i s)
     (\<lambda>c. block_snaps (fst c)) (\<lambda>c. paged_view (snd c)) (causal_rows (key_row m d) (value_row m d) (qw_layers m))
     (qwen2_next m d argmax) sc"

abbreviation radix_serves where
  "radix_serves m d argmax sc \<equiv> serve_inv (\<lambda>(i, s). radix_sound (key_row m d) (value_row m d) (qw_layers m) d i s)
     (\<lambda>c. radix_snaps (fst c)) (\<lambda>c. paged_view (snd c)) (causal_rows (key_row m d) (value_row m d) (qw_layers m))
     (qwen2_next m d argmax) sc"

lemma new_scheduler_inv:
  assumes "new_scheduler pb ps pd policy ''serial'' terminal c = Inr sc" "cok c" "\<And>h. cview c h \<noteq> None \<Longrightarrow> h \<in> held c"
  shows "serve_inv cok held cview good nt sc"
  using assms
  by (auto simp: new_scheduler_def serve_inv_def queues_ok_def waiting_at_def running_at_def split: if_splits sum.splits)

text \<open>A pool made by \<open>kv_init\<close> for a model, with nothing in it.\<close>

definition new_pool :: "'v qwen2 \<Rightarrow> dtype \<Rightarrow> 'v kv \<Rightarrow> bool" where
  "new_pool m d s \<longleftrightarrow> (\<exists>heads hdim psize budget zero hexes.
     kv_init (int (qw_layers m)) heads hdim psize budget d zero hexes = Inr s \<and> uuid_source hexes)"

lemma new_pool_idle:
  assumes "new_pool m d s"
  shows "paged_idle (qw_layers m) d s" "paged_view s h = None"
proof -
  obtain heads hdim psize budget zero hexes where
    i: "kv_init (int (qw_layers m)) heads hdim psize budget d zero hexes = Inr s" "uuid_source hexes"
    using assms unfolding new_pool_def by blast
  note e = i(1) [unfolded kv_init_def Let_def]
  have "num_layers s = qw_layers m" "kv_dtype s = d"
    using e by (simp_all only: split: if_splits) (simp_all only: sum.inject sum.distinct; clarsimp)+
  then show "paged_idle (qw_layers m) d s" "paged_view s h = None"
    using kv_init_ok [OF i] by (simp_all add: paged_idle_def paged_view_def)
qed

definition block_start where
  "block_start m d sc \<longleftrightarrow> (\<exists>pb ps pd policy terminal fp psize max_entries max_bytes sha readings i s.
     block_init fp psize max_entries max_bytes sha readings = Inr i \<and> new_pool m d s \<and>
     new_scheduler pb ps pd policy ''serial'' terminal (i, s) = Inr sc)"

definition radix_start where
  "radix_start m d sc \<longleftrightarrow> (\<exists>pb ps pd policy terminal fp psize max_entries max_bytes sha readings i s.
     radix_init fp psize max_entries max_bytes sha readings = Inr i \<and> new_pool m d s \<and>
     new_scheduler pb ps pd policy ''serial'' terminal (i, s) = Inr sc)"

lemma block_start_serves:
  assumes "block_start m d sc"
  shows "block_serves m d argmax sc"
proof -
  obtain pb ps pd policy terminal fp psize max_entries max_bytes sha readings i s where
    i: "block_init fp psize max_entries max_bytes sha readings = Inr i" and p: "new_pool m d s" and
    sc: "new_scheduler pb ps pd policy ''serial'' terminal (i, s) = Inr sc"
    using assms unfolding block_start_def by (elim exE conjE) (rule that)
  show ?thesis
    by (rule new_scheduler_inv [OF sc]) (simp_all add: block_init_sound [where ok = "paged_idle (qw_layers m) d", OF i new_pool_idle(1) [OF p]] new_pool_idle(2) [OF p])
qed

lemma radix_start_serves:
  assumes "radix_start m d sc"
  shows "radix_serves m d argmax sc"
proof -
  obtain pb ps pd policy terminal fp psize max_entries max_bytes sha readings i s where
    i: "radix_init fp psize max_entries max_bytes sha readings = Inr i" and p: "new_pool m d s" and
    sc: "new_scheduler pb ps pd policy ''serial'' terminal (i, s) = Inr sc"
    using assms unfolding radix_start_def by (elim exE conjE) (rule that)
  show ?thesis
    by (rule new_scheduler_inv [OF sc]) (simp_all add: radix_init_sound [where ok = "paged_idle (qw_layers m) d", OF i new_pool_idle(1) [OF p]] new_pool_idle(2) [OF p])
qed

text \<open>Schedulers over the sample model with a pool of three pages, chunks of one token, and a request.\<close>

definition served_pool :: "nat kv" where
  "served_pool = (case kv_init 1 1 1 8 96 Float16 0 sample_hex of Inr s \<Rightarrow> s)"

definition served_request :: schedulable_request where
  "served_request = \<lparr>sq_request_id = ''q'', sq_prompt = [3, 4], sq_sampling = \<lparr>temperature = 0, top_p = 1\<rparr>,
     sq_max_tokens = 2, sq_priority = 0\<rparr>"

abbreviation sample_backend where
  "sample_backend px \<equiv> native_backend px (qwen2_model toy_model (\<lambda>_. None)) int (\<lambda>_. None)"

abbreviation sample_greedy where "sample_greedy \<equiv> greedy (\<lambda>ts. int (ref_logits toy_model Float16 ts))"

definition block_served_start :: "(block_index \<times> nat kv, nat in_flight_step) scheduler" where
  "block_served_start = (case new_scheduler 2 1 True ''lpm'' ''serial'' [] (sample_block_index 2, served_pool) of Inr sc \<Rightarrow> sc)"

definition radix_served_start :: "(radix_index \<times> nat kv, nat in_flight_step) scheduler" where
  "radix_served_start = (case new_scheduler 2 1 True ''lpm'' ''serial'' [] (sample_radix_index 2, served_pool) of Inr sc \<Rightarrow> sc)"

lemma served_new_pool: "new_pool toy_model Float16 served_pool"
proof -
  have "kv_init 1 1 1 8 96 Float16 0 sample_hex = Inr served_pool" by (simp add: served_pool_def sample_init)
  then show ?thesis
    unfolding new_pool_def using sample_hex_source by (intro exI [of _ 1] exI [of _ 8] exI [of _ 96] exI [of _ 0] exI [of _ sample_hex])
      (simp add: toy_model_def)
qed

lemma lpm_name: "policy_from_name ''lpm'' = Inr LPM" by code_simp

lemma block_served_starts: "block_start toy_model Float16 block_served_start"
proof -
  obtain i where i: "block_init sample_fingerprint 8 (int 2) 1000 sample_hash int = Inr i" by (simp add: block_init_def)
  then have "sample_block_index 2 = i" unfolding sample_block_index_def by (simp only: sum.case)
  moreover have "new_scheduler 2 1 True ''lpm'' ''serial'' [] (sample_block_index 2, served_pool) = Inr block_served_start"
    by (simp add: block_served_start_def new_scheduler_def lpm_name)
  ultimately have "new_scheduler 2 1 True ''lpm'' ''serial'' [] (i, served_pool) = Inr block_served_start" by simp
  with i served_new_pool show ?thesis unfolding block_start_def by blast
qed

lemma radix_served_starts: "radix_start toy_model Float16 radix_served_start"
proof -
  obtain i where i: "radix_init sample_fingerprint 8 (int 2) 1000 sample_hash int = Inr i" by (simp add: radix_init_def)
  then have "sample_radix_index 2 = i" unfolding sample_radix_index_def by (simp only: sum.case)
  moreover have "new_scheduler 2 1 True ''lpm'' ''serial'' [] (sample_radix_index 2, served_pool) = Inr radix_served_start"
    by (simp add: radix_served_start_def new_scheduler_def lpm_name)
  ultimately have "new_scheduler 2 1 True ''lpm'' ''serial'' [] (i, served_pool) = Inr radix_served_start" by simp
  with i served_new_pool show ?thesis unfolding radix_start_def by blast
qed

lemma toy_sdpa: "\<forall>l. masks_exactly (qw_sdpa toy_model l)"
  by (simp add: toy_model_def masked_sdpa_exact)

lemma served_submit:
  "fst (sched_submit served_request block_served_start) = Inr ()" "fst (sched_submit served_request radix_served_start) = Inr ()"
  by code_simp+

lemma block_served_tokens:
  "case run_ops (sample_backend (block_prefix paged_ops)) [Tick, Tick, Tick] (snd (sched_submit served_request block_served_start)) of
     (Inl e, sc) \<Rightarrow> False
   | (Inr evs, sc) \<Rightarrow> tokens_of ''q'' evs = [Some 135, Some 2955] \<and> live (snd (sc_cache sc)) = [''paged-kv-q-b''] \<and>
       ''paged-kv-q-b'' \<notin> block_snaps (fst (sc_cache sc))"
  by code_simp

lemma radix_served_tokens:
  "case fst (run_ops (sample_backend (radix_prefix paged_ops)) [Tick, Tick, Tick] (snd (sched_submit served_request radix_served_start))) of
     Inl e \<Rightarrow> False
   | Inr evs \<Rightarrow> tokens_of ''q'' evs = [Some 135, Some 2955]"
  by code_simp

subsection \<open>What a request is answered\<close>

text \<open>C1: Serving does not change what the model says.  Start the scheduler in serial mode over the block-hash
  index, the paged pool and the Qwen2 model, and let clients submit, cancel and finish requests between
  ticks in any order; devices may fail at any time.  Submit a request.  Whatever then happens, as long as no
  other request uses its id, the tokens the events report for it are a beginning of its greedy
  continuation: each is the argmax of what the model without a cache gives for the prompt and all tokens before.
  Batching with other requests, chunked prefill, paging, copy on write, admission on another request's cached
  prefix, and eviction leave no trace in it.\<close>

theorem block_serving_is_greedy:
  assumes "\<forall>l. masks_exactly (qw_sdpa m l)" and "block_start m d sc0"
    and "run_ops (native_backend (block_prefix paged_ops) (qwen2_model m faults) argmax devices) before sc0 = (Inr evs0, sc)"
    and "sched_submit w sc = (Inr u, sc1)"
    and "run_ops (native_backend (block_prefix paged_ops) (qwen2_model m faults) argmax devices) after sc1 = (Inr evs, sc')"
    and "\<forall>v. Submit v \<in> set after \<longrightarrow> sq_request_id v \<noteq> sq_request_id w"
  shows "\<exists>n. tokens_of (sq_request_id w) evs = map Some (greedy (\<lambda>ts. argmax (ref_logits m d ts)) (sq_prompt w) n)"
proof -
  note S = block_serving_laws [OF assms(1), of faults argmax devices d]
  have "block_serves m d argmax sc"
    using serving.run_ops_rule [OF S block_start_serves [OF assms(2)] assms(3)] by blast
  from serving.submitted_is_served [OF S this assms(4,5,6)] show ?thesis by (simp add: qwen2_next_def [abs_def])
qed

theorem block_serving_is_greedy_witness:
  "\<exists>evs sc'. run_ops (sample_backend (block_prefix paged_ops)) [Tick, Tick, Tick]
      (snd (sched_submit served_request block_served_start)) = (Inr evs, sc') \<and>
    tokens_of ''q'' evs = [Some 135, Some 2955] \<and> sample_greedy [3, 4] 2 = [135, 2955]"
proof -
  obtain evs sc' where run: "run_ops (sample_backend (block_prefix paged_ops)) [Tick, Tick, Tick]
      (snd (sched_submit served_request block_served_start)) = (Inr evs, sc')" "tokens_of ''q'' evs = [Some 135, Some 2955]"
    using block_served_tokens by (auto split: prod.splits sum.splits)
  have start: "run_ops (sample_backend (block_prefix paged_ops)) [] block_served_start = (Inr [], block_served_start)" by simp
  have sub: "sched_submit served_request block_served_start = (Inr (), snd (sched_submit served_request block_served_start))"
    using served_submit by (simp add: prod_eq_iff)
  have "\<exists>n. tokens_of (sq_request_id served_request) evs = map Some (sample_greedy (sq_prompt served_request) n)"
    by (rule block_serving_is_greedy [OF toy_sdpa block_served_starts start sub run(1)]) simp
  then obtain n where n: "sample_greedy [3, 4] n = [135, 2955]" using run(2) by (auto simp: served_request_def)
  then have "length (sample_greedy [3, 4] n) = 2" by simp
  then have "n = 2" by simp
  then have "sample_greedy [3, 4] 2 = [135, 2955]" using n by simp
  then show ?thesis using run by blast
qed

text \<open>C13: The same over the radix tree.\<close>

theorem radix_serving_is_greedy:
  assumes "\<forall>l. masks_exactly (qw_sdpa m l)" and "radix_start m d sc0"
    and "run_ops (native_backend (radix_prefix paged_ops) (qwen2_model m faults) argmax devices) before sc0 = (Inr evs0, sc)"
    and "sched_submit w sc = (Inr u, sc1)"
    and "run_ops (native_backend (radix_prefix paged_ops) (qwen2_model m faults) argmax devices) after sc1 = (Inr evs, sc')"
    and "\<forall>v. Submit v \<in> set after \<longrightarrow> sq_request_id v \<noteq> sq_request_id w"
  shows "\<exists>n. tokens_of (sq_request_id w) evs = map Some (greedy (\<lambda>ts. argmax (ref_logits m d ts)) (sq_prompt w) n)"
proof -
  note S = radix_serving_laws [OF assms(1), of faults argmax devices d]
  have "radix_serves m d argmax sc"
    using serving.run_ops_rule [OF S radix_start_serves [OF assms(2)] assms(3)] by blast
  from serving.submitted_is_served [OF S this assms(4,5,6)] show ?thesis by (simp add: qwen2_next_def [abs_def])
qed

theorem radix_serving_is_greedy_witness:
  "\<exists>evs sc'. run_ops (sample_backend (radix_prefix paged_ops)) [Tick, Tick, Tick]
      (snd (sched_submit served_request radix_served_start)) = (Inr evs, sc') \<and>
    tokens_of ''q'' evs = [Some 135, Some 2955] \<and> sample_greedy [3, 4] 2 = [135, 2955]"
proof -
  obtain evs sc' where run: "run_ops (sample_backend (radix_prefix paged_ops)) [Tick, Tick, Tick]
      (snd (sched_submit served_request radix_served_start)) = (Inr evs, sc')" "tokens_of ''q'' evs = [Some 135, Some 2955]"
    using radix_served_tokens by (auto split: prod.splits sum.splits)
  have start: "run_ops (sample_backend (radix_prefix paged_ops)) [] radix_served_start = (Inr [], radix_served_start)" by simp
  have sub: "sched_submit served_request radix_served_start = (Inr (), snd (sched_submit served_request radix_served_start))"
    using served_submit by (simp add: prod_eq_iff)
  have "\<exists>n. tokens_of (sq_request_id served_request) evs = map Some (sample_greedy (sq_prompt served_request) n)"
    by (rule radix_serving_is_greedy [OF toy_sdpa radix_served_starts start sub run(1)]) simp
  then obtain n where n: "sample_greedy [3, 4] n = [135, 2955]" using run(2) by (auto simp: served_request_def)
  then have "length (sample_greedy [3, 4] n) = 2" by simp
  then have "n = 2" by simp
  then have "sample_greedy [3, 4] 2 = [135, 2955]" using n by simp
  then show ?thesis using run by blast
qed

text \<open>C2: Running the scheduler raises nothing but the refusal of an id in use, and leaks no cache: after
  any sequence of operations every cache in the pool belongs to exactly one running request or is a
  snapshot of the prefix index, and the pool satisfies its invariant with no reservation open.\<close>

theorem serving_leaks_no_cache:
  assumes "\<forall>l. masks_exactly (qw_sdpa m l)" and "block_start m d sc0"
    and "run_ops (native_backend (block_prefix paged_ops) (qwen2_model m faults) argmax devices) ops sc0 = (res, sc)"
  shows "(\<forall>e. res = Inl e \<longrightarrow> (\<exists>w. Submit w \<in> set ops \<and> e = ValueError (''duplicate native request '' @ py_repr (sq_request_id w)))) \<and>
    paged_idle (qw_layers m) d (snd (sc_cache sc)) \<and>
    (\<forall>h \<in> set (live (snd (sc_cache sc))). h \<notin> block_snaps (fst (sc_cache sc)) \<longrightarrow>
       (\<exists>!a. a \<in> set (dict_values (sc_running sc)) \<and> ss_handle (sc_store sc a) = Some h))"
proof -
  note R = serving.run_ops_rule [OF block_serving_laws [OF assms(1)] block_start_serves [OF assms(2)] assms(3)]
  then have I: "block_serves m d argmax sc" by blast
  have q: "a \<in> set (dict_values (sc_running sc)) \<longleftrightarrow> running_at sc a" for a
    by (rule in_queue(2)) (use I in \<open>simp add: serve_inv_def\<close>)
  have "block_sound (key_row m d) (value_row m d) (qw_layers m) d (fst (sc_cache sc)) (snd (sc_cache sc))"
    using I unfolding serve_inv_def split_beta by blast
  from block.inv_ok [OF this] have ok: "paged_idle (qw_layers m) d (snd (sc_cache sc))" by blast
  have "\<exists>!a. a \<in> set (dict_values (sc_running sc)) \<and> ss_handle (sc_store sc a) = Some h"
    if h: "h \<in> set (live (snd (sc_cache sc)))" "h \<notin> block_snaps (fst (sc_cache sc))" for h
  proof -
    have "paged_view (snd (sc_cache sc)) h \<noteq> None" using h(1) by (simp add: paged_view_def)
    then obtain a where a: "running_at sc a" "ss_handle (sc_store sc a) = Some h" using I h(2) unfolding serve_inv_def by blast
    moreover have "b = a" if "running_at sc b" "ss_handle (sc_store sc b) = Some h" for b
      using I that a unfolding serve_inv_def by metis
    ultimately show ?thesis unfolding q by blast
  qed
  then show ?thesis using R ok by (auto simp: duplicate_def split: sum.splits)
qed

theorem serving_leaks_no_cache_witness:
  "\<exists>evs sc. run_ops (sample_backend (block_prefix paged_ops)) [Submit served_request, Tick, Tick, Tick] block_served_start = (Inr evs, sc) \<and>
    live (snd (sc_cache sc)) = [''paged-kv-q-b''] \<and>
    (\<exists>!a. a \<in> set (dict_values (sc_running sc)) \<and> ss_handle (sc_store sc a) = Some ''paged-kv-q-b'')"
proof -
  have sub: "sched_submit served_request block_served_start = (Inr (), snd (sched_submit served_request block_served_start))"
    using served_submit by (simp add: prod_eq_iff)
  obtain evs sc where run: "run_ops (sample_backend (block_prefix paged_ops)) [Tick, Tick, Tick]
      (snd (sched_submit served_request block_served_start)) = (Inr evs, sc)" "live (snd (sc_cache sc)) = [''paged-kv-q-b'']"
      "''paged-kv-q-b'' \<notin> block_snaps (fst (sc_cache sc))"
    using block_served_tokens by (auto split: prod.splits sum.splits)
  have "run_op (sample_backend (block_prefix paged_ops)) (Submit served_request) block_served_start =
      (Inr [], snd (sched_submit served_request block_served_start))" using sub by (metis (no_types, lifting) old.prod.case old.sum.simps(6) run_op.simps(1))
  then have all: "run_ops (sample_backend (block_prefix paged_ops)) [Submit served_request, Tick, Tick, Tick] block_served_start = (Inr evs, sc)"
    using run(1) by (simp only: run_ops.simps(2) [of _ "Submit served_request"] prod.case sum.case append_Nil)
  from serving_leaks_no_cache [OF toy_sdpa block_served_starts all] show ?thesis using all run(2,3) by auto
qed

text \<open>C12: A cancelled request is gone after the next tick, whatever else the tick does: the events announce
  the cancellation, and the request is in no queue.\<close>

theorem cancelled_request_is_reaped:
  assumes "\<forall>l. masks_exactly (qw_sdpa m l)" and "block_start m d sc0"
    and "run_ops (native_backend (block_prefix paged_ops) (qwen2_model m faults) argmax devices) ops sc0 = (Inr evs0, sc)"
    and "sched_cancel rid sc = (True, sc1)"
    and "tick (native_backend (block_prefix paged_ops) (qwen2_model m faults) argmax devices) sc1 = (res, sc')"
  shows "\<exists>evs stage. res = Inr evs \<and> CancelledEvent rid stage \<in> set evs \<and>
    map_of (sc_waiting sc') rid = None \<and> map_of (sc_running sc') rid = None"
proof -
  note S = block_serving_laws [OF assms(1), of faults argmax devices d]
  have inv: "block_serves m d argmax sc"
    using serving.run_ops_rule [OF S block_start_serves [OF assms(2)] assms(3)] by blast
  have q: "queues_ok sc" using inv by (simp add: serve_inv_def)
  have "\<exists>a. queued_at sc a \<and> id_of (sc_store sc a) = rid"
  proof -
    obtain b where "find_state rid (sc_waiting sc) (sc_running sc) = Some b" using assms(4) by (auto simp: sched_cancel_def split: option.splits)
    then have "queued_at sc b" "id_of (sc_store sc b) = rid"
      using queue_ids(1,2) [OF q, of rid b] by (auto simp: find_state_def split: option.splits)
    then show ?thesis by blast
  qed
  then obtain a where a: "queued_at sc a" "id_of (sc_store sc a) = rid" by blast
  note C = serving.cancel_rule [OF S inv assms(4)]
  then have c: "block_serves m d argmax sc1" "queued_at sc1 a" "ss_cancel (sc_store sc1 a)" "id_of (sc_store sc1 a) = rid"
    using a by (auto simp: calm_def)
  obtain evs stage where E: "res = Inr evs" "CancelledEvent rid stage \<in> set evs" "\<not> queued_at sc' a"
    using serving.cancelled_is_reaped [OF S c(1-3) assms(5)] c(4) by blast
  have T: "block_serves m d argmax sc'" "progress (qwen2_next m d argmax) sc1 evs sc'"
    using serving.tick_rule [OF S c(1) assms(5)] E(1) by auto
  have q': "queues_ok sc'" "queues_ok sc1" using T(1) c(1) by (simp_all add: serve_inv_def)
  have "\<not> queued_at sc' b" if "id_of (sc_store sc' b) = rid" for b
  proof
    assume b: "queued_at sc' b"
    then have "queued_at sc1 b" "id_of (sc_store sc1 b) = rid" using T(2) that unfolding progress_def by auto
    then have "b = a" using queue_inj [OF q'(2) _ c(2)] c(4) by simp
    then show False using b E(3) by simp
  qed
  then have "map_of (sc_waiting sc') rid = None \<and> map_of (sc_running sc') rid = None"
    using queue_ids(1,2) [OF q'(1), of rid] by (metis option.exhaust)
  then show ?thesis using E by blast
qed

theorem cancelled_request_is_reaped_witness:
  "\<exists>evs sc' stage. tick (sample_backend (block_prefix paged_ops))
      (snd (sched_cancel ''q'' (snd (sched_submit served_request block_served_start)))) = (Inr evs, sc') \<and>
    CancelledEvent ''q'' stage \<in> set evs \<and> map_of (sc_waiting sc') ''q'' = None"
proof -
  let ?sc = "snd (sched_submit served_request block_served_start)"
  have "sched_submit served_request block_served_start = (Inr (), ?sc)" using served_submit by (simp add: prod_eq_iff)
  then have sub: "run_ops (sample_backend (block_prefix paged_ops)) [Submit served_request] block_served_start = (Inr [], ?sc)"
    by (metis (no_types, lifting) append_Nil old.prod.case old.sum.simps(6) run_op.simps(1) run_ops.simps)
  have "fst (sched_cancel ''q'' ?sc)" by code_simp
  then have cancel: "sched_cancel ''q'' ?sc = (True, snd (sched_cancel ''q'' ?sc))" by (simp add: prod_eq_iff)
  obtain res sc' where t: "tick (sample_backend (block_prefix paged_ops)) (snd (sched_cancel ''q'' ?sc)) = (res, sc')" by (metis surj_pair)
  from cancelled_request_is_reaped [OF toy_sdpa block_served_starts sub cancel t] t show ?thesis by auto
qed



end
