(* ===== verification/SchedPolicy.thy ===== *)
theory SchedPolicy
  imports SchedProps
begin

text \<open>
  What a tick may select, in any state: how much work, in which order, and what the aging of the scored policies
  measures.
\<close>

subsection \<open>The size of a step\<close>

lemma admit_step_size: "admit bk a sc = (res, sc') \<Longrightarrow> sc_prefill_step sc' = sc_prefill_step sc"
  by (auto simp: admit_def Let_def bind_err_def on_cache_def upd_state_def split: prod.splits sum.splits option.splits)

lemma prefill_work_size:
  "er_phase (sw_request (prefill_work step a st)) = Prefill \<and> length (er_token_ids (sw_request (prefill_work step a st))) \<le> step \<and>
   er_positions (sw_request (prefill_work step a st)) = [ss_cursor st..<min (length (prompt_of st)) (ss_cursor st + step)]"
  by (auto simp: prefill_work_def Let_def min_def)

lemma select_prefill_size:
  assumes "select_prefill bk as acc sc = (Inr sel, sc')"
  shows "\<exists>new. sel = acc @ new \<and> length new = length as \<and> map sw_state new = as \<and>
    (\<forall>w \<in> set new. er_phase (sw_request w) = Prefill \<and> length (er_token_ids (sw_request w)) \<le> sc_prefill_step sc)"
  using assms
proof (induction as arbitrary: acc sc)
  case (Cons a as)
  obtain r sc1 where one: "(if ss_handle (sc_store sc a) = None then admit bk a else (\<lambda>sc. (Inr (), sc))) sc = (r, sc1)" by (metis surj_pair)
  have size: "sc_prefill_step sc1 = sc_prefill_step sc" using one admit_step_size by (auto split: if_splits)
  let ?w = "prefill_work (sc_prefill_step sc1) a (sc_store sc1 a)"
  have "select_prefill bk as (acc @ [?w]) sc1 = (Inr sel, sc')"
    using Cons.prems one by (auto simp: bind_err_def split: sum.splits)
  from Cons.IH [OF this] obtain new where N: "sel = (acc @ [?w]) @ new" "length new = length as" "map sw_state new = as"
    "\<forall>w \<in> set new. er_phase (sw_request w) = Prefill \<and> length (er_token_ids (sw_request w)) \<le> sc_prefill_step sc"
    using size by auto
  then show ?case using prefill_work_size [of "sc_prefill_step sc" a] size by (intro exI [of _ "?w # new"]) simp
qed simp

lemma order_states_frame:
  assumes "order_states bk as sc = (as', sc')"
  shows "mset as' = mset as \<and> sc_prefill_step sc' = sc_prefill_step sc"
proof -
  have score: "score_states bk as sc = (scores, sc1) \<Longrightarrow> map fst scores = as \<and> sc_prefill_step sc1 = sc_prefill_step sc" for as sc scores sc1
    by (induction as arbitrary: sc scores)
      (auto simp: Let_def on_cache_def upd_state_def split: prod.splits scheduling_policy.splits)
  obtain scores sc1 where s: "score_states bk as sc = (scores, sc1)" by (metis surj_pair)
  then have "mset (map fst (sorted_reverse snd scores)) = mset as" using score [OF s] by (metis mset_map mset_sorted_reverse)
  then show ?thesis using assms s score [OF s] by (auto simp: order_states_def split: if_splits)
qed

text \<open>C14: A step stays within its limits in every state: one token for every request that is ready to decode, in the
  order of the running queue, then prompts, at most the prefill batch size, and at most one when decoding
  has priority and somebody decodes; each prompt gets at most the chunk size in tokens, and no request is
  selected for more than one prompt chunk.\<close>

theorem step_within_limits:
  assumes "select_work bk sc = (Inr sel, sc')"
  shows "\<exists>decodes prefills. sel = decodes @ prefills \<and>
    map sw_state decodes = filter (\<lambda>a. decode_ready (sc_store sc a)) (dict_values (sc_running sc)) \<and>
    (\<forall>w \<in> set decodes. er_phase (sw_request w) = Decode \<and> length (er_token_ids (sw_request w)) = 1) \<and>
    length prefills \<le> (if decodes \<noteq> [] \<and> sc_prioritize_decode sc then 1 else sc_prefill_batch sc) \<and>
    (\<forall>w \<in> set prefills. er_phase (sw_request w) = Prefill \<and> length (er_token_ids (sw_request w)) \<le> sc_prefill_step sc) \<and>
    mset (map sw_state prefills) \<subseteq># mset (prefill_candidates sc)"
proof -
  let ?dec = "filter (\<lambda>a. decode_ready (sc_store sc a)) (dict_values (sc_running sc))"
  let ?sel = "map (\<lambda>a. decode_work a (sc_store sc a)) ?dec"
  let ?limit = "if ?sel \<noteq> [] \<and> sc_prioritize_decode sc then 1 else sc_prefill_batch sc"
  obtain ordered sc1 where o: "order_states bk (prefill_candidates sc) sc = (ordered, sc1)" by (metis surj_pair)
  have run: "select_prefill bk (take ?limit ordered) ?sel sc1 = (Inr sel, sc')"
    using assms o by (simp add: select_work_def Let_def)
  note O = order_states_frame [OF o]
  obtain new where N: "sel = ?sel @ new" "length new = length (take ?limit ordered)" "map sw_state new = take ?limit ordered"
    "\<forall>w \<in> set new. er_phase (sw_request w) = Prefill \<and> length (er_token_ids (sw_request w)) \<le> sc_prefill_step sc"
    using select_prefill_size [OF run] O by auto
  have "mset (take ?limit ordered) \<subseteq># mset ordered" by (metis append_take_drop_id mset_append mset_subset_eq_add_left)
  then have "mset (map sw_state new) \<subseteq># mset (prefill_candidates sc)" unfolding N(3) using O by simp
  moreover have "map sw_state ?sel = ?dec" by (simp add: comp_def)
  moreover have "\<forall>w \<in> set ?sel. er_phase (sw_request w) = Decode \<and> length (er_token_ids (sw_request w)) = 1"
    by (auto simp: decode_work_def)
  moreover have "length new \<le> ?limit" using N(2) by simp
  ultimately show ?thesis using N(1,4) by (intro exI [of _ ?sel] exI [of _ new]) (auto split: if_splits)
qed

theorem step_within_limits_witness:
  "\<exists>w sc'. select_work (sample_backend (block_prefix paged_ops)) (snd (sched_submit served_request block_served_start)) = (Inr [w], sc') \<and>
    er_phase (sw_request w) = Prefill \<and> length (er_token_ids (sw_request w)) \<le> 1 \<and> sw_state w = 0"
proof -
  let ?sc = "snd (sched_submit served_request block_served_start)"
  have "case fst (select_work (sample_backend (block_prefix paged_ops)) ?sc) of Inl e \<Rightarrow> False | Inr sel \<Rightarrow> length sel = 1"
    "sc_running ?sc = []" "sc_prefill_step ?sc = 1" "prefill_candidates ?sc = [0]" by code_simp+
  then obtain w sc' where w: "select_work (sample_backend (block_prefix paged_ops)) ?sc = (Inr [w], sc')"
    and sc: "sc_running ?sc = []" "sc_prefill_step ?sc = 1" "prefill_candidates ?sc = [0]"
    by (auto split: sum.splits simp: length_Suc_conv prod_eq_iff)
  from step_within_limits [OF w] show ?thesis using w sc by (auto simp: sw_state_work)
qed

text \<open>The scored policies order the candidates by their score, best first, and the order of equals is kept; no
  candidate is lost or duplicated.  Longest output first and priority read the score off the request: a
  request that has aged comes before one that has not, then the policy's value counts, then age, then arrival.\<close>

lemma policy_orders_by_score:
  assumes "sc_policy sc = LOF \<or> sc_policy sc = PRIORITY" and "order_states bk as sc = (ordered, sc')"
  shows "sc' = sc \<and> mset ordered = mset as \<and>
    sorted_wrt (\<lambda>a b. score_of (sc_round sc) (policy_value (sc_policy sc) (sc_store sc b)) (sc_store sc b)
      \<le> score_of (sc_round sc) (policy_value (sc_policy sc) (sc_store sc a)) (sc_store sc a)) ordered"
proof -
  let ?f = "\<lambda>a. score_of (sc_round sc) (policy_value (sc_policy sc) (sc_store sc a)) (sc_store sc a)"
  have "score_states bk as sc = (map (\<lambda>a. (a, ?f a)) as, sc)" for as
    using assms(1) by (induction as) (auto split: scheduling_policy.splits)
  then have out: "sc' = sc" "ordered = map fst (sorted_reverse snd (map (\<lambda>a. (a, ?f a)) as))"
    using assms by (auto simp: order_states_def)
  let ?xs = "sorted_reverse snd (map (\<lambda>a. (a, ?f a)) as)"
  have pairs: "\<forall>p \<in> set ?xs. snd p = ?f (fst p)" by auto
  have "sorted_wrt (\<lambda>p q. snd q \<le> snd p) ?xs" by (rule sorted_reverse_descending)
  then have "sorted_wrt (\<lambda>p q. ?f (fst q) \<le> ?f (fst p)) ?xs"
    by (rule sorted_wrt_mono_rel [rotated]) (use pairs in simp)
  then have "sorted_wrt (\<lambda>a b. ?f b \<le> ?f a) ordered" by (simp add: out(2) sorted_wrt_map)
  moreover have "mset ordered = mset as" by (simp add: out(2) mset_map multiset.map_comp comp_def)
  ultimately show ?thesis using out(1) by simp
qed

definition lof_start :: "(block_index \<times> nat kv, nat in_flight_step) scheduler" where
  "lof_start = snd (sched_submit (served_request\<lparr>sq_request_id := ''r'', sq_max_tokens := 7\<rparr>)
     (snd (sched_submit served_request (block_served_start\<lparr>sc_policy := LOF\<rparr>))))"

lemma policy_orders_by_score_witness:
  "\<exists>ordered sc'. order_states (sample_backend (block_prefix paged_ops)) [0, 1] lof_start = (ordered, sc') \<and> ordered = [1, 0] \<and>
    mset ordered = mset [0, 1] \<and> policy_value LOF (sc_store lof_start 0) = 2 \<and> policy_value LOF (sc_store lof_start 1) = 7"
proof -
  obtain ordered sc' where o: "order_states (sample_backend (block_prefix paged_ops)) [0, 1] lof_start = (ordered, sc')" by (metis surj_pair)
  have "fst (order_states (sample_backend (block_prefix paged_ops)) [0, 1] lof_start) = [1, 0]" "sc_policy lof_start = LOF"
    "policy_value LOF (sc_store lof_start 0) = 2" "policy_value LOF (sc_store lof_start 1) = 7" by code_simp+
  then show ?thesis using o policy_orders_by_score [OF _ o] by simp
qed

text \<open>What the policies call age is no waiting time: it compares the number of ticks since the start with the
  number of requests submitted since the start.  After a period with more ticks than submissions (every tick
  that decodes is one), a request counts as starved the moment it arrives, before any value the policy
  would rank it by; after more submissions than ticks, a request is not aged however many ticks it waits, until the
  ticks have caught up.\<close>

theorem age_is_not_waiting_time:
  assumes "sched_submit w sc = (Inr u, sc1)"
  shows "fst (score_of (sc_round sc + waited) value (sc_store sc1 (sc_next sc))) =
    (if sc_arrival sc + 4 \<le> sc_round sc + waited then 1 else 0)"
proof -
  have "ss_arrival (sc_store sc1 (sc_next sc)) = Suc (sc_arrival sc)"
    using assms by (auto simp: sched_submit_def Let_def new_state_def split: if_splits)
  then show ?thesis by (auto simp: score_of_def starvation_rounds_def Let_def)
qed

theorem age_is_not_waiting_time_witness:
  "\<exists>sc1. sched_submit served_request (block_served_start\<lparr>sc_round := 9\<rparr>) = (Inr (), sc1) \<and>
    fst (score_of (9 + 0) 0 (sc_store sc1 0)) = 1"
proof -
  let ?sc = "block_served_start\<lparr>sc_round := 9\<rparr>"
  have "fst (sched_submit served_request ?sc) = Inr ()" "sc_arrival ?sc = 0" "sc_next ?sc = 0" by code_simp+
  then have s: "sched_submit served_request ?sc = (Inr (), snd (sched_submit served_request ?sc))" and n: "sc_arrival ?sc = 0" "sc_next ?sc = 0"
    by (simp_all add: prod_eq_iff)
  from age_is_not_waiting_time [OF s, of 0 0] s n show ?thesis by auto
qed

end
