(* ===== verification/PromptCache.thy ===== *)
theory PromptCache
  imports Prelude
begin

text \<open>
  The prompt caches of the v1 backends, \<^verbatim>\<open>PromptCacheStore\<close> and
  \<^verbatim>\<open>CacheBudgetManager\<close> of \<^verbatim>\<open>mlx_worker/batching.py\<close>.  A stored
  cache is an opaque list of the framework's layer caches (copies are values); \<open>item_bytes\<close> is what
  the estimate counts for one of them (its \<open>nbytes\<close> or its length), \<open>trim\<close> the framework's trimming
  of a copy, \<open>None\<close> where it is not supported or raises.
\<close>

datatype match_kind = Exact | ShorterPrefix | TrimmedLongerPrefix

record 'c cached_prompt =
  pc_tokens :: "token list"
  pc_cache :: "'c list"
  pc_bytes :: int
  pc_kind :: match_kind

record store_stats =
  sst_hits :: nat
  sst_misses :: nat
  sst_exact_hits :: nat
  sst_shorter_hits :: nat
  sst_trimmed_hits :: nat
  sst_entries :: nat
  sst_evictions :: nat
  sst_bytes :: int

definition no_stats :: store_stats where
  "no_stats = \<lparr>sst_hits = 0, sst_misses = 0, sst_exact_hits = 0, sst_shorter_hits = 0, sst_trimmed_hits = 0,
     sst_entries = 0, sst_evictions = 0, sst_bytes = 0\<rparr>"

type_synonym 'n prompt_key = "'n list \<times> token list"

record ('n, 'c) prompt_store =
  ps_max_entries :: int
  ps_max_bytes :: int
  ps_entries :: "('n prompt_key, 'c cached_prompt) dict"
  ps_total :: int
  ps_stats :: store_stats

definition new_store :: "int \<Rightarrow> int \<Rightarrow> ('n, 'c) prompt_store" where
  "new_store max_entries max_bytes =
     \<lparr>ps_max_entries = max_entries, ps_max_bytes = max_bytes, ps_entries = [], ps_total = 0, ps_stats = no_stats\<rparr>"

definition estimate_cache_bytes :: "('c \<Rightarrow> int) \<Rightarrow> 'c list \<Rightarrow> int" where
  "estimate_cache_bytes item_bytes cache = sum_list (map item_bytes cache)"

subsection \<open>Lookup\<close>

text \<open>How many tokens two sequences share at the front (the \<open>zip\<close> loop).\<close>

fun shared_prefix :: "'a list \<Rightarrow> 'a list \<Rightarrow> nat" where
  "shared_prefix (x # xs) (y # ys) = (if x \<noteq> y then 0 else Suc (shared_prefix xs ys))"
| "shared_prefix _ _ = 0"

definition trimmed_candidate ::
  "('c list \<Rightarrow> nat \<Rightarrow> 'c list option) \<Rightarrow> ('c \<Rightarrow> int) \<Rightarrow> token list \<Rightarrow> token list \<Rightarrow> 'c cached_prompt \<Rightarrow> 'c cached_prompt option" where
  "trimmed_candidate trim item_bytes prompt key cached =
     (let reusable = min (shared_prefix key prompt) (length prompt - 1)
      in if reusable = 0 then None
         else (case trim (pc_cache cached) (length key - reusable) of
             None \<Rightarrow> None
           | Some c \<Rightarrow> Some \<lparr>pc_tokens = take reusable prompt, pc_cache = c,
               pc_bytes = estimate_cache_bytes item_bytes c, pc_kind = TrimmedLongerPrefix\<rparr>))"

definition candidate ::
  "('c list \<Rightarrow> nat \<Rightarrow> 'c list option) \<Rightarrow> ('c \<Rightarrow> int) \<Rightarrow> token list \<Rightarrow> token list \<Rightarrow> 'c cached_prompt \<Rightarrow> 'c cached_prompt option" where
  "candidate trim item_bytes prompt key cached =
     (if key = prompt then
        Some \<lparr>pc_tokens = prompt, pc_cache = pc_cache cached, pc_bytes = pc_bytes cached, pc_kind = Exact\<rparr>
      else if length key < length prompt then
        (if shared_prefix key prompt = length key then
           Some \<lparr>pc_tokens = key, pc_cache = pc_cache cached, pc_bytes = pc_bytes cached, pc_kind = ShorterPrefix\<rparr>
         else trimmed_candidate trim item_bytes prompt key cached)
      else trimmed_candidate trim item_bytes prompt key cached)"

fun lookup_loop ::
  "('c list \<Rightarrow> nat \<Rightarrow> 'c list option) \<Rightarrow> ('c \<Rightarrow> int) \<Rightarrow> 'n list \<Rightarrow> token list \<Rightarrow> ('n prompt_key, 'c cached_prompt) dict \<Rightarrow>
     'c cached_prompt option \<Rightarrow> 'c cached_prompt option" where
  "lookup_loop trim item_bytes namespace prompt [] best = best"
| "lookup_loop trim item_bytes namespace prompt (((cached_namespace, key), cached) # entries) best =
     (if cached_namespace \<noteq> namespace then lookup_loop trim item_bytes namespace prompt entries best
      else (case candidate trim item_bytes prompt key cached of
          None \<Rightarrow> lookup_loop trim item_bytes namespace prompt entries best
        | Some c \<Rightarrow> lookup_loop trim item_bytes namespace prompt entries
            (case best of None \<Rightarrow> Some c
             | Some b \<Rightarrow> if length (pc_tokens b) < length (pc_tokens c) then Some c else best)))"

definition count_hit :: "match_kind \<Rightarrow> store_stats \<Rightarrow> store_stats" where
  "count_hit kind st =
     (let st1 = st\<lparr>sst_hits := Suc (sst_hits st)\<rparr>
      in case kind of Exact \<Rightarrow> st1\<lparr>sst_exact_hits := Suc (sst_exact_hits st1)\<rparr>
         | ShorterPrefix \<Rightarrow> st1\<lparr>sst_shorter_hits := Suc (sst_shorter_hits st1)\<rparr>
         | TrimmedLongerPrefix \<Rightarrow> st1\<lparr>sst_trimmed_hits := Suc (sst_trimmed_hits st1)\<rparr>)"

definition store_lookup ::
  "('c list \<Rightarrow> nat \<Rightarrow> 'c list option) \<Rightarrow> ('c \<Rightarrow> int) \<Rightarrow> token list \<Rightarrow> 'n list \<Rightarrow> ('n, 'c) prompt_store \<Rightarrow>
     'c cached_prompt option \<times> ('n, 'c) prompt_store" where
  "store_lookup trim item_bytes prompt namespace ps =
     (case lookup_loop trim item_bytes namespace prompt (rev (ps_entries ps)) None of
        None \<Rightarrow> (None, ps\<lparr>ps_stats := (ps_stats ps)\<lparr>sst_misses := Suc (sst_misses (ps_stats ps))\<rparr>\<rparr>)
      | Some best \<Rightarrow> (Some best, ps\<lparr>ps_stats := count_hit (pc_kind best) (ps_stats ps)\<rparr>))"

subsection \<open>Remembering and eviction\<close>

definition refresh_stats :: "('n, 'c) prompt_store \<Rightarrow> ('n, 'c) prompt_store" where
  "refresh_stats ps = ps\<lparr>ps_stats := (ps_stats ps)\<lparr>sst_entries := length (ps_entries ps), sst_bytes := ps_total ps\<rparr>\<rparr>"

definition evict_oldest :: "('n, 'c) prompt_store \<Rightarrow> bool \<times> ('n, 'c) prompt_store" where
  "evict_oldest ps =
     (case ps_entries ps of
        [] \<Rightarrow> (False, ps)
      | (key, evicted) # rest \<Rightarrow>
          (True, refresh_stats (ps\<lparr>ps_entries := rest, ps_total := ps_total ps - pc_bytes evicted,
             ps_stats := (ps_stats ps)\<lparr>sst_evictions := Suc (sst_evictions (ps_stats ps))\<rparr>\<rparr>)))"

definition over_limit :: "('n, 'c) prompt_store \<Rightarrow> bool" where
  "over_limit ps \<longleftrightarrow> ps_max_entries ps < int (length (ps_entries ps)) \<or> ps_max_bytes ps < ps_total ps"

text \<open>The eviction loop of \<open>remember\<close>; it has no bound of its own, \<open>None\<close> is never returning.\<close>

partial_function (option) shrink :: "('n, 'c) prompt_store \<Rightarrow> ('n, 'c) prompt_store option" where
  [code]: "shrink ps = (if over_limit ps then shrink (snd (evict_oldest ps)) else Some ps)"

definition insert_entry :: "('c \<Rightarrow> int) \<Rightarrow> token list \<Rightarrow> 'c list \<Rightarrow> 'n list \<Rightarrow> ('n, 'c) prompt_store \<Rightarrow> ('n, 'c) prompt_store" where
  "insert_entry item_bytes sequence cache namespace ps =
     (let key = (namespace, sequence);
          cached = \<lparr>pc_tokens = sequence, pc_cache = cache, pc_bytes = estimate_cache_bytes item_bytes cache, pc_kind = Exact\<rparr>;
          existing = (case map_of (ps_entries ps) key of None \<Rightarrow> 0 | Some e \<Rightarrow> pc_bytes e)
      in refresh_stats (ps\<lparr>ps_entries := AList.delete key (ps_entries ps) @ [(key, cached)],
           ps_total := ps_total ps - existing + pc_bytes cached\<rparr>))"

definition store_remember ::
  "('c \<Rightarrow> int) \<Rightarrow> token list \<Rightarrow> 'c list \<Rightarrow> 'n list \<Rightarrow> ('n, 'c) prompt_store \<Rightarrow> ('n, 'c) prompt_store option" where
  "store_remember item_bytes sequence cache namespace ps =
     (if cache = [] then Some ps
      else if ps_max_bytes ps < estimate_cache_bytes item_bytes cache then Some ps
      else map_option refresh_stats (shrink (insert_entry item_bytes sequence cache namespace ps)))"

definition store_reset :: "bool \<Rightarrow> bool \<Rightarrow> ('n, 'c) prompt_store \<Rightarrow> ('n, 'c) prompt_store" where
  "store_reset clear_cache reset_counters ps =
     (let ps1 = (if clear_cache then ps\<lparr>ps_entries := [], ps_total := 0\<rparr> else ps);
          ps2 = (if reset_counters then ps1\<lparr>ps_stats := no_stats\<rparr> else ps1)
      in refresh_stats ps2)"

definition stats_snapshot :: "('n, 'c) prompt_store \<Rightarrow> store_stats" where
  "stats_snapshot ps = ps_stats (refresh_stats ps)"

subsection \<open>One budget over several stores\<close>

record ('n, 'c) budget_manager =
  bm_budget :: int
  bm_stores :: "('n, 'c) prompt_store list"
  bm_active :: "(string, int) dict"

definition new_manager :: "int \<Rightarrow> ('n, 'c) budget_manager" where
  "new_manager budget = \<lparr>bm_budget = max 0 budget, bm_stores = [], bm_active = []\<rparr>"

text \<open>Stores are objects and are compared by identity: a new store is always added.\<close>

definition register_store :: "('n, 'c) prompt_store \<Rightarrow> ('n, 'c) budget_manager \<Rightarrow> ('n, 'c) budget_manager" where
  "register_store ps bm = bm\<lparr>bm_stores := bm_stores bm @ [ps]\<rparr>"

definition active_batch_bytes :: "('n, 'c) budget_manager \<Rightarrow> int" where
  "active_batch_bytes bm = sum_list (dict_values (bm_active bm))"

definition stored_target :: "('n, 'c) budget_manager \<Rightarrow> int" where
  "stored_target bm = max 0 (bm_budget bm - active_batch_bytes bm)"

definition stored_bytes_of :: "('n, 'c) prompt_store list \<Rightarrow> int" where
  "stored_bytes_of stores = sum_list (map ps_total stores)"

text \<open>One round of the \<open>for\<close> loop: whether a store evicted, whether the target was met (the early
  return), and the stores.\<close>

fun enforce_round ::
  "int \<Rightarrow> bool \<Rightarrow> ('n, 'c) prompt_store list \<Rightarrow> ('n, 'c) prompt_store list \<Rightarrow> bool \<times> bool \<times> ('n, 'c) prompt_store list" where
  "enforce_round target evicted visited [] = (evicted, False, visited)"
| "enforce_round target evicted visited (ps # rest) =
     (case evict_oldest ps of
        (False, ps') \<Rightarrow> enforce_round target evicted (visited @ [ps']) rest
      | (True, ps') \<Rightarrow>
          (if stored_bytes_of (visited @ [ps'] @ rest) \<le> target then (True, True, visited @ [ps'] @ rest)
           else enforce_round target True (visited @ [ps']) rest))"

definition entries_left :: "('n, 'c) prompt_store list \<Rightarrow> nat" where
  "entries_left stores = sum_list (map (\<lambda>ps. length (ps_entries ps)) stores)"

lemma evict_oldest_cases:
  "evict_oldest ps = (False, ps) \<and> ps_entries ps = [] \<or>
   (\<exists>e rest ps'. ps_entries ps = e # rest \<and> evict_oldest ps = (True, ps') \<and> ps_entries ps' = rest \<and>
      ps_total ps' = ps_total ps - pc_bytes (snd e) \<and> ps_max_entries ps' = ps_max_entries ps \<and> ps_max_bytes ps' = ps_max_bytes ps)"
  by (cases "ps_entries ps") (auto simp: evict_oldest_def refresh_stats_def)

lemma enforce_round_left:
  assumes "enforce_round target evicted visited rest = (ev, met, stores)"
  shows "entries_left stores \<le> entries_left (visited @ rest) \<and> (evicted \<longrightarrow> ev) \<and> (met \<longrightarrow> ev) \<and>
    (ev \<longrightarrow> evicted \<or> entries_left stores < entries_left (visited @ rest))"
  using assms
proof (induction rest arbitrary: evicted visited)
  case (Cons ps rest)
  from evict_oldest_cases [of ps] show ?case
  proof (elim disjE exE conjE)
    assume e: "evict_oldest ps = (False, ps)"
    then show ?thesis using Cons.IH [of evicted "visited @ [ps]"] Cons.prems by simp
  next
    fix x xs ps'
    assume e: "ps_entries ps = x # xs" "evict_oldest ps = (True, ps')" "ps_entries ps' = xs"
    show ?thesis
    proof (cases "stored_bytes_of (visited @ [ps'] @ rest) \<le> target")
      case True
      then show ?thesis using Cons.prems e by (auto simp: entries_left_def)
    next
      case False
      then show ?thesis using Cons.IH [of True "visited @ [ps']"] Cons.prems e by (auto simp: entries_left_def)
    qed
  qed
qed (auto simp: entries_left_def)

function enforce_loop :: "int \<Rightarrow> ('n, 'c) prompt_store list \<Rightarrow> ('n, 'c) prompt_store list" where
  "enforce_loop target stores =
     (if target < stored_bytes_of stores then
        (case enforce_round target False [] stores of
           (evicted, met, stores') \<Rightarrow> if met \<or> \<not> evicted then stores' else enforce_loop target stores')
      else stores)"
  by pat_completeness auto

termination
  by (relation "measure (\<lambda>(target, stores). entries_left stores)")
    (auto dest!: sym [of _ "enforce_round _ _ _ _"] enforce_round_left)

declare enforce_loop.simps [simp del]

definition enforce :: "('n, 'c) budget_manager \<Rightarrow> ('n, 'c) budget_manager" where
  "enforce bm = bm\<lparr>bm_stores := enforce_loop (stored_target bm) (bm_stores bm)\<rparr>"

definition set_active_batch_bytes :: "string \<Rightarrow> int \<Rightarrow> ('n, 'c) budget_manager \<Rightarrow> ('n, 'c) budget_manager" where
  "set_active_batch_bytes backend n bm = enforce (bm\<lparr>bm_active := AList.update backend (max 0 n) (bm_active bm)\<rparr>)"

text \<open>\<open>remember\<close> of a store that is registered with a manager, the \<open>i\<close>-th one.\<close>

definition managed_remember ::
  "('c \<Rightarrow> int) \<Rightarrow> token list \<Rightarrow> 'c list \<Rightarrow> 'n list \<Rightarrow> nat \<Rightarrow> ('n, 'c) budget_manager \<Rightarrow> ('n, 'c) budget_manager option" where
  "managed_remember item_bytes sequence cache namespace i bm =
     (let ps = bm_stores bm ! i
      in if cache = [] then Some bm
         else if ps_max_bytes ps < estimate_cache_bytes item_bytes cache then Some bm
         else (case shrink (insert_entry item_bytes sequence cache namespace ps) of
             None \<Rightarrow> None
           | Some ps1 \<Rightarrow>
               (let bm1 = enforce (bm\<lparr>bm_stores := (bm_stores bm)[i := ps1]\<rparr>)
                in Some (bm1\<lparr>bm_stores := (bm_stores bm1)[i := refresh_stats (bm_stores bm1 ! i)]\<rparr>))))"

end
