(* ===== verification/Batching.thy ===== *)
theory Batching
  imports PromptCache Runtime
begin

text \<open>
  The v1 text backend, \<^verbatim>\<open>mlx_worker/batching.py\<close> with the limits check of
  \<^verbatim>\<open>mlx_worker/engine.py\<close>: the continuous scheduler over the framework's batch
  generator, and the completion of one closed batch.  The generator, the tokenizer and the trimming of
  caches belong to \<^verbatim>\<open>mlx_lm\<close> and are parameters.  What is sent to the client is appended to
  \<open>bs_out\<close>.  The prompt cache store of the engine has no budget manager; clocks and peak
  memory are left out.  An operation that calls \<open>remember\<close> may not return: \<open>None\<close>.
\<close>

subsection \<open>Interfaces\<close>

record batch_context =
  bc_model_id :: string
  bc_build :: "text_request \<Rightarrow> exn + token list"
  bc_decode :: "token list \<Rightarrow> string"

record 'c gen_response =
  gr_uid :: nat
  gr_token :: token
  gr_finish :: "string option"
  gr_cache :: "'c list option"
  gr_all_tokens :: "token list option"

record ('g, 'c) generator_ops =
  go_make :: "exn + 'g"
  go_next :: "'g \<Rightarrow> (exn + 'c gen_response list) \<times> 'g"
  go_takes_all_tokens :: bool
  go_insert :: "token list list \<Rightarrow> int list \<Rightarrow> 'c list option list \<Rightarrow> token list list option \<Rightarrow> (rat \<times> rat) list \<Rightarrow> 'g \<Rightarrow>
    (exn + nat list) \<times> 'g"
  go_remove :: "nat list \<Rightarrow> 'g \<Rightarrow> (exn + unit) \<times> 'g"
  go_nbytes :: "'g \<Rightarrow> int"

text \<open>The framework's caches: their size, and the trimming of a copy.\<close>

record 'c cache_ops =
  ck_bytes :: "'c \<Rightarrow> int"
  ck_trim :: "'c list \<Rightarrow> nat \<Rightarrow> 'c list option"

definition validate_token_limits :: "text_request \<Rightarrow> token list \<Rightarrow> exn + unit" where
  "validate_token_limits request prompt_tokens =
     (let prompt_count = int (length prompt_tokens);
          completion = tr_max_tokens request;
          total = prompt_count + completion
      in if tr_max_prompt_tokens request < prompt_count then
           Inl (ValueError (''prompt too long: '' @ int_str prompt_count @ '' tokens exceeds max_prompt_tokens '' @
             int_str (tr_max_prompt_tokens request)))
         else if tr_max_completion_tokens request < completion then
           Inl (ValueError (''completion too long: '' @ int_str completion @ '' tokens exceeds max_completion_tokens '' @
             int_str (tr_max_completion_tokens request)))
         else if tr_max_total_tokens request < total then
           Inl (ValueError (''request too large: '' @ int_str total @ '' tokens exceeds max_total_tokens_per_request '' @
             int_str (tr_max_total_tokens request)))
         else Inr ())"

definition model_mismatch :: "string \<Rightarrow> string \<Rightarrow> string" where
  "model_mismatch requested loaded =
     ''requested model '' @ [CHR 0x27] @ requested @ [CHR 0x27] @ '' does not match loaded model '' @ [CHR 0x27] @ loaded @ [CHR 0x27]"

text \<open>Newer generators are also told the tokens a cache stands for.\<close>

definition insert_text_batch ::
  "('g, 'c) generator_ops \<Rightarrow> token list list \<Rightarrow> int list \<Rightarrow> 'c list option list \<Rightarrow> token list list \<Rightarrow> (rat \<times> rat) list \<Rightarrow> 'g \<Rightarrow>
     (exn + nat list) \<times> 'g" where
  "insert_text_batch go prompts max_tokens caches all_tokens samplers g =
     go_insert go prompts max_tokens caches (if go_takes_all_tokens go then Some all_tokens else None) samplers g"

definition prompt_cache_for_prompt_tokens ::
  "'c cache_ops \<Rightarrow> 'c list \<Rightarrow> token list \<Rightarrow> token list \<Rightarrow> 'c list option" where
  "prompt_cache_for_prompt_tokens ck cache sequence_tokens prompt_tokens =
     (let generated = int (length sequence_tokens) - int (length prompt_tokens)
      in if generated < 0 then None
         else if generated = 0 then Some cache
         else ck_trim ck cache (nat generated))"

subsection \<open>Jobs and the scheduler\<close>

record 'c batch_job =
  bj_request :: text_request
  bj_stream :: bool
  bj_prompt :: "token list"
  bj_cached :: "'c cached_prompt option"
  bj_prompt_batch :: nat
  bj_decode_batch :: nat
  bj_uid :: "nat option"
  bj_generated :: "token list"
  bj_rendered :: string
  bj_stage :: string
  bj_cancelled_stage :: "string option"
  bj_decoding :: bool

record batch_response =
  br_request_id :: string
  br_model :: string
  br_text :: string
  br_finish :: string
  br_prompt_tokens :: nat
  br_completion_tokens :: nat
  br_cache_hit :: bool
  br_cached_tokens :: "nat option"
  br_cache_bytes :: "int option"
  br_active_bytes :: int
  br_prompt_batch :: "nat option"
  br_decode_batch :: "nat option"
  br_configured_prompt :: int
  br_configured_decode :: int
  br_stage :: "string option"
  br_cancellation_stage :: "string option"
  br_cancellations :: nat
  br_errors :: nat
  br_entries :: nat
  br_evictions :: nat

datatype batch_event =
    BatchDelta string string
  | BatchResponse batch_response
  | BatchError string string string

record ('g, 'n, 'c) batch_scheduler =
  bs_prompt_concurrency :: int
  bs_decode_concurrency :: int
  bs_manager :: "('n, 'c) budget_manager option"
  bs_configured_prompt :: int
  bs_configured_decode :: int
  bs_generator :: "'g option"
  bs_pending :: "'c batch_job list"
  bs_active :: "(nat, 'c batch_job) dict"
  bs_cancellations :: nat
  bs_errors :: nat
  bs_store :: "('n, 'c) prompt_store"
  bs_out :: "batch_event list"

definition new_batch_scheduler ::
  "int \<Rightarrow> int \<Rightarrow> ('n, 'c) budget_manager option \<Rightarrow> int option \<Rightarrow> int option \<Rightarrow> ('n, 'c) prompt_store \<Rightarrow> ('g, 'n, 'c) batch_scheduler" where
  "new_batch_scheduler prompt_concurrency decode_concurrency manager configured_prompt configured_decode store =
     \<lparr>bs_prompt_concurrency = prompt_concurrency, bs_decode_concurrency = decode_concurrency, bs_manager = manager,
      bs_configured_prompt = (case configured_prompt of Some n \<Rightarrow> if n \<noteq> 0 then n else prompt_concurrency | None \<Rightarrow> prompt_concurrency),
      bs_configured_decode = (case configured_decode of Some n \<Rightarrow> if n \<noteq> 0 then n else decode_concurrency | None \<Rightarrow> decode_concurrency),
      bs_generator = None, bs_pending = [], bs_active = [], bs_cancellations = 0, bs_errors = 0, bs_store = store, bs_out = []\<rparr>"

definition send :: "batch_event \<Rightarrow> ('g, 'n, 'c) batch_scheduler \<Rightarrow> ('g, 'n, 'c) batch_scheduler" where
  "send ev s = s\<lparr>bs_out := bs_out s @ [ev]\<rparr>"

definition new_job :: "text_request \<Rightarrow> bool \<Rightarrow> token list \<Rightarrow> 'c cached_prompt option \<Rightarrow> 'c batch_job" where
  "new_job request stream prompt cached =
     \<lparr>bj_request = request, bj_stream = stream, bj_prompt = prompt, bj_cached = cached, bj_prompt_batch = 0,
      bj_decode_batch = 0, bj_uid = None, bj_generated = [], bj_rendered = [], bj_stage = ''pending'',
      bj_cancelled_stage = None, bj_decoding = False\<rparr>"

definition batch_active_bytes :: "('g, 'c) generator_ops \<Rightarrow> ('g, 'n, 'c) batch_scheduler \<Rightarrow> int" where
  "batch_active_bytes go s = (case bs_generator s of None \<Rightarrow> 0 | Some g \<Rightarrow> go_nbytes go g)"

definition job_response ::
  "batch_context \<Rightarrow> ('g, 'c) generator_ops \<Rightarrow> 'c batch_job \<Rightarrow> string \<Rightarrow> ('g, 'n, 'c) batch_scheduler \<Rightarrow> batch_response" where
  "job_response ctx go job reason s =
     \<lparr>br_request_id = tr_request_id (bj_request job), br_model = bc_model_id ctx, br_text = bj_rendered job, br_finish = reason,
      br_prompt_tokens = length (bj_prompt job), br_completion_tokens = length (bj_generated job),
      br_cache_hit = (bj_cached job \<noteq> None), br_cached_tokens = map_option (\<lambda>p. length (pc_tokens p)) (bj_cached job),
      br_cache_bytes = map_option pc_bytes (bj_cached job), br_active_bytes = batch_active_bytes go s,
      br_prompt_batch = (if bj_prompt_batch job = 0 then None else Some (bj_prompt_batch job)),
      br_decode_batch = (if bj_decode_batch job = 0 then None else Some (bj_decode_batch job)),
      br_configured_prompt = bs_configured_prompt s, br_configured_decode = bs_configured_decode s,
      br_stage = Some (bj_stage job), br_cancellation_stage = bj_cancelled_stage job,
      br_cancellations = bs_cancellations s, br_errors = bs_errors s,
      br_entries = sst_entries (stats_snapshot (bs_store s)), br_evictions = sst_evictions (stats_snapshot (bs_store s))\<rparr>"

subsection \<open>Submission and cancellation\<close>

definition batch_submit ::
  "batch_context \<Rightarrow> 'c cache_ops \<Rightarrow> text_request \<Rightarrow> bool \<Rightarrow> ('g, 'n, 'c) batch_scheduler \<Rightarrow> (exn + unit) \<times> ('g, 'n, 'c) batch_scheduler" where
  "batch_submit ctx ck request stream s =
     (let reject = (\<lambda>message. (Inr (), send (BatchError (tr_request_id request) ''INVALID_REQUEST'' message)
            (s\<lparr>bs_errors := Suc (bs_errors s)\<rparr>)))
      in if tr_model request \<noteq> bc_model_id ctx then reject (model_mismatch (tr_model request) (bc_model_id ctx))
         else (case bc_build ctx request of
             Inl e \<Rightarrow> (case e of ValueError message \<Rightarrow> reject message | JSONDecodeError \<Rightarrow> reject (exn_str e) | _ \<Rightarrow> (Inl e, s))
           | Inr tokens \<Rightarrow>
               (case validate_token_limits request tokens of
                  Inl e \<Rightarrow> reject (exn_str e)
                | Inr _ \<Rightarrow>
                    (case store_lookup (ck_trim ck) (ck_bytes ck) tokens [] (bs_store s) of
                       (cached, store) \<Rightarrow>
                         (Inr (), s\<lparr>bs_store := store, bs_pending := bs_pending s @ [new_job request stream tokens cached]\<rparr>)))))"

definition cancelled_job :: "'c batch_job \<Rightarrow> 'c batch_job" where
  "cancelled_job job = job\<lparr>bj_cancelled_stage := Some (bj_stage job), bj_stage := ''cancelled''\<rparr>"

definition is_job :: "string \<Rightarrow> 'c batch_job \<Rightarrow> bool" where
  "is_job rid job \<longleftrightarrow> tr_request_id (bj_request job) = rid"

text \<open>Taking the first element that satisfies a predicate out of a list.\<close>

fun take_first :: "('a \<Rightarrow> bool) \<Rightarrow> 'a list \<Rightarrow> ('a \<times> 'a list) option" where
  "take_first P [] = None"
| "take_first P (x # xs) = (if P x then Some (x, xs) else map_option (\<lambda>(y, ys). (y, x # ys)) (take_first P xs))"

definition emit_cancelled ::
  "batch_context \<Rightarrow> ('g, 'c) generator_ops \<Rightarrow> 'c batch_job \<Rightarrow> ('g, 'n, 'c) batch_scheduler \<Rightarrow> ('g, 'n, 'c) batch_scheduler" where
  "emit_cancelled ctx go job s = send (BatchResponse (job_response ctx go job ''cancelled'' s)) s"

definition batch_cancel ::
  "batch_context \<Rightarrow> ('g, 'c) generator_ops \<Rightarrow> string \<Rightarrow> ('g, 'n, 'c) batch_scheduler \<Rightarrow> (exn + bool) \<times> ('g, 'n, 'c) batch_scheduler" where
  "batch_cancel ctx go rid s =
     (case take_first (is_job rid) (bs_pending s) of
        Some (job, rest) \<Rightarrow>
          (Inr True, emit_cancelled ctx go (cancelled_job job) (s\<lparr>bs_pending := rest, bs_cancellations := Suc (bs_cancellations s)\<rparr>))
      | None \<Rightarrow>
          (case take_first (\<lambda>(uid, job). is_job rid job) (bs_active s) of
             None \<Rightarrow> (Inr False, s)
           | Some ((uid, job), rest) \<Rightarrow>
               (let s1 = emit_cancelled ctx go (cancelled_job job) (s\<lparr>bs_active := rest, bs_cancellations := Suc (bs_cancellations s)\<rparr>)
                in case bs_generator s1 of
                     None \<Rightarrow> (Inr True, s1)
                   | Some g \<Rightarrow> (case go_remove go [uid] g of
                         (Inl e, g') \<Rightarrow> (Inl e, s1\<lparr>bs_generator := Some g'\<rparr>)
                       | (Inr _, g') \<Rightarrow> (Inr True, s1\<lparr>bs_generator := Some g'\<rparr>)))))"

subsection \<open>A step of the generator\<close>

text \<open>The text is decoded as a whole each time; what extends the text rendered so far is sent, and a text that does
  not extend it is sent whole.\<close>

definition emit_delta ::
  "batch_context \<Rightarrow> 'c batch_job \<Rightarrow> ('g, 'n, 'c) batch_scheduler \<Rightarrow> 'c batch_job \<times> ('g, 'n, 'c) batch_scheduler" where
  "emit_delta ctx job s =
     (let decoded = bc_decode ctx (bj_generated job)
      in if \<not> bj_stream job then (job\<lparr>bj_rendered := decoded\<rparr>, s)
         else (let delta = (if prefix (bj_rendered job) decoded then drop (length (bj_rendered job)) decoded else decoded);
                   s1 = (if delta \<noteq> [] then send (BatchDelta (tr_request_id (bj_request job)) delta) s else s)
               in (job\<lparr>bj_rendered := decoded\<rparr>, s1)))"

text \<open>The tokens the prompt's cache is stored under when a request finishes.\<close>

definition finished_key :: "'c batch_job \<Rightarrow> token list" where
  "finished_key job = (case bj_cached job of None \<Rightarrow> [] | Some p \<Rightarrow> pc_tokens p) @ bj_prompt job"

definition finish_job ::
  "batch_context \<Rightarrow> ('g, 'c) generator_ops \<Rightarrow> 'c cache_ops \<Rightarrow> 'c batch_job \<Rightarrow> string \<Rightarrow> 'c list option \<Rightarrow> token list option \<Rightarrow>
     ('g, 'n, 'c) batch_scheduler \<Rightarrow> ('g, 'n, 'c) batch_scheduler option" where
  "finish_job ctx go ck job reason cache all_tokens s =
     (let job1 = (if \<not> bj_stream job then job\<lparr>bj_rendered := bc_decode ctx (bj_generated job)\<rparr> else job);
          store = (case cache of None \<Rightarrow> Some (bs_store s)
            | Some c \<Rightarrow>
                (let full = finished_key job1; sequence = (case all_tokens of Some ts \<Rightarrow> ts | None \<Rightarrow> full)
                 in case prompt_cache_for_prompt_tokens ck c sequence full of
                      None \<Rightarrow> Some (bs_store s)
                    | Some kept \<Rightarrow> store_remember (ck_bytes ck) full kept [] (bs_store s)))
      in map_option (\<lambda>st. let s1 = s\<lparr>bs_store := st\<rparr>; job2 = job1\<lparr>bj_stage := ''completed''\<rparr>
           in send (BatchResponse (job_response ctx go job2 reason s1)) s1) store)"

fun step_responses ::
  "batch_context \<Rightarrow> ('g, 'c) generator_ops \<Rightarrow> 'c cache_ops \<Rightarrow> 'c gen_response list \<Rightarrow> ('g, 'n, 'c) batch_scheduler \<Rightarrow>
     ('g, 'n, 'c) batch_scheduler option" where
  "step_responses ctx go ck [] s = Some s"
| "step_responses ctx go ck (r # rs) s =
     (case map_of (bs_active s) (gr_uid r) of
        None \<Rightarrow> step_responses ctx go ck rs s
      | Some job \<Rightarrow>
          (let job1 = (if bj_decoding job then job else job\<lparr>bj_decoding := True, bj_stage := ''decoding''\<rparr>);
               job2 = job1\<lparr>bj_decode_batch := max (bj_decode_batch job1) (length (bs_active s))\<rparr>;
               (job3, s3) = (if gr_finish r = Some ''stop'' then (job2, s)
                  else emit_delta ctx (job2\<lparr>bj_generated := bj_generated job2 @ [gr_token r]\<rparr>) s)
           in case gr_finish r of
                None \<Rightarrow> step_responses ctx go ck rs (s3\<lparr>bs_active := AList.update (gr_uid r) job3 (bs_active s3)\<rparr>)
              | Some reason \<Rightarrow>
                  (case finish_job ctx go ck job3 reason (gr_cache r) (gr_all_tokens r) s3 of
                     None \<Rightarrow> None
                   | Some s4 \<Rightarrow> step_responses ctx go ck rs (s4\<lparr>bs_active := AList.delete (gr_uid r) (bs_active s4)\<rparr>))))"

definition step_generator ::
  "batch_context \<Rightarrow> ('g, 'c) generator_ops \<Rightarrow> 'c cache_ops \<Rightarrow> 'g \<Rightarrow> ('g, 'n, 'c) batch_scheduler \<Rightarrow>
     ((exn + unit) \<times> ('g, 'n, 'c) batch_scheduler) option" where
  "step_generator ctx go ck g s =
     (case go_next go g of
        (Inl e, g') \<Rightarrow> Some (Inl e, s\<lparr>bs_generator := Some g'\<rparr>)
      | (Inr responses, g') \<Rightarrow> map_option (\<lambda>s'. (Inr (), s')) (step_responses ctx go ck responses (s\<lparr>bs_generator := Some g'\<rparr>)))"

subsection \<open>Admission\<close>

definition report_active :: "('g, 'c) generator_ops \<Rightarrow> ('g, 'n, 'c) batch_scheduler \<Rightarrow> ('g, 'n, 'c) batch_scheduler" where
  "report_active go s = s\<lparr>bs_manager := map_option (set_active_batch_bytes ''text'' (batch_active_bytes go s)) (bs_manager s)\<rparr>"

text \<open>How many pending jobs the loop takes.\<close>

fun take_batch :: "int \<Rightarrow> int \<Rightarrow> nat \<Rightarrow> 'c batch_job list \<Rightarrow> 'c batch_job list \<Rightarrow> 'c batch_job list \<times> 'c batch_job list" where
  "take_batch prompt_concurrency decode_concurrency active batch [] = (batch, [])"
| "take_batch prompt_concurrency decode_concurrency active batch (job # queue) =
     (if \<not> int (length batch) < prompt_concurrency then (batch, job # queue)
      else if decode_concurrency \<le> int active + int (length batch) then (batch, job # queue)
      else take_batch prompt_concurrency decode_concurrency active (batch @ [job]) queue)"

text \<open>What is inserted for a job: a cached prompt leaves its suffix to be computed; when nothing is left, the cached
  prompt is not used.\<close>

definition usable_cache :: "'c batch_job \<Rightarrow> 'c cached_prompt option" where
  "usable_cache job =
     (case bj_cached job of None \<Rightarrow> None
      | Some p \<Rightarrow> if drop (length (pc_tokens p)) (bj_prompt job) = [] then None else Some p)"

definition effective_prompt :: "'c batch_job \<Rightarrow> token list" where
  "effective_prompt job = (case usable_cache job of None \<Rightarrow> bj_prompt job | Some p \<Rightarrow> drop (length (pc_tokens p)) (bj_prompt job))"

definition check_uids :: "nat list \<Rightarrow> nat \<Rightarrow> exn option" where
  "check_uids uids n =
     (if length uids \<noteq> n then
        Some (RuntimeError (''batch generator returned '' @ nat_str (length uids) @ '' UIDs for '' @ nat_str n @ '' requests''))
      else if card (set uids) \<noteq> length uids then
        Some (RuntimeError (''batch generator returned duplicate UIDs: ['' @ join '', '' (map nat_str uids) @ '']''))
      else None)"

definition activate :: "nat \<Rightarrow> 'c batch_job \<times> nat \<Rightarrow> (nat, 'c batch_job) dict \<Rightarrow> (nat, 'c batch_job) dict" where
  "activate n = (\<lambda>(job, uid) active.
     AList.update uid (job\<lparr>bj_uid := Some uid, bj_prompt_batch := n, bj_decode_batch := length active + n,
       bj_stage := ''prompt_processing''\<rparr>) active)"

definition admit_batch ::
  "('g, 'c) generator_ops \<Rightarrow> 'g \<Rightarrow> ('g, 'n, 'c) batch_scheduler \<Rightarrow> (exn + unit) \<times> ('g, 'n, 'c) batch_scheduler" where
  "admit_batch go g s =
     (if bs_decode_concurrency s \<le> int (length (bs_active s)) then (Inr (), s)
      else (case take_batch (bs_prompt_concurrency s) (bs_decode_concurrency s) (length (bs_active s)) [] (bs_pending s) of
        (batch, queue) \<Rightarrow>
          (if batch = [] then (Inr (), s)
           else (let jobs = map (\<lambda>job. job\<lparr>bj_cached := usable_cache job\<rparr>) batch;
                     s1 = s\<lparr>bs_pending := queue\<rparr>
                 in case insert_text_batch go (map effective_prompt batch) (map (\<lambda>job. tr_max_tokens (bj_request job)) batch)
                      (map (\<lambda>job. map_option pc_cache (usable_cache job)) batch)
                      (map (\<lambda>job. case usable_cache job of None \<Rightarrow> [] | Some p \<Rightarrow> pc_tokens p) batch)
                      (map (\<lambda>job. (tr_temperature (bj_request job), tr_top_p (bj_request job))) batch) g of
                      (Inl e, g') \<Rightarrow> (Inl e, s1\<lparr>bs_generator := Some g'\<rparr>)
                    | (Inr uids, g') \<Rightarrow>
                        (case check_uids uids (length batch) of
                           Some e \<Rightarrow> (Inl e, s1\<lparr>bs_generator := Some g'\<rparr>)
                         | None \<Rightarrow> (Inr (), report_active go (s1\<lparr>bs_generator := Some g',
                             bs_active := fold (activate (length batch)) (zip jobs uids) (bs_active s1)\<rparr>)))))))"

definition admit_pending ::
  "('g, 'c) generator_ops \<Rightarrow> ('g, 'n, 'c) batch_scheduler \<Rightarrow> (exn + unit) \<times> ('g, 'n, 'c) batch_scheduler" where
  "admit_pending go s =
     (if bs_pending s = [] then (Inr (), s)
      else (case bs_generator s of
          Some g \<Rightarrow> admit_batch go g s
        | None \<Rightarrow> (case go_make go of
              Inl e \<Rightarrow> (Inl e, s)
            | Inr g \<Rightarrow> admit_batch go g (s\<lparr>bs_generator := Some g\<rparr>))))"

definition batch_tick ::
  "batch_context \<Rightarrow> ('g, 'c) generator_ops \<Rightarrow> 'c cache_ops \<Rightarrow> ('g, 'n, 'c) batch_scheduler \<Rightarrow>
     ((exn + unit) \<times> ('g, 'n, 'c) batch_scheduler) option" where
  "batch_tick ctx go ck s =
     (case bs_generator s of
        None \<Rightarrow> Some (if bs_pending s = [] then (Inr (), s) else admit_pending go s)
      | Some g \<Rightarrow>
          (if bs_active s = [] then Some (admit_pending go s)
           else (case step_generator ctx go ck g s of
               None \<Rightarrow> None
             | Some (Inl e, s1) \<Rightarrow> Some (Inl e, s1)
             | Some (Inr _, s1) \<Rightarrow> Some (admit_pending go (report_active go s1)))))"

definition batch_idle :: "('g, 'n, 'c) batch_scheduler \<Rightarrow> bool" where
  "batch_idle s \<longleftrightarrow> bs_pending s = [] \<and> bs_active s = []"

definition batch_close :: "('g, 'n, 'c) batch_scheduler \<Rightarrow> ('g, 'n, 'c) batch_scheduler" where
  "batch_close s = s\<lparr>bs_generator := None, bs_manager := map_option (set_active_batch_bytes ''text'' 0) (bs_manager s)\<rparr>"

end
