(* ===== verification/PromptCacheProps.thy ===== *)
theory PromptCacheProps
  imports PromptCache
begin

text \<open>
  What the prompt cache store and the shared budget promise: exact accounting, limits, oldest-first eviction,
  sound lookups, and when remembering returns at all.
\<close>

subsection \<open>Accounting\<close>

definition entry_bytes :: "('n prompt_key, 'c cached_prompt) dict \<Rightarrow> int" where
  "entry_bytes es = sum_list (map (\<lambda>e. pc_bytes (snd e)) es)"

definition store_ok :: "('c \<Rightarrow> int) \<Rightarrow> ('n, 'c) prompt_store \<Rightarrow> bool" where
  "store_ok item_bytes ps \<longleftrightarrow> dict_ok (ps_entries ps) \<and> ps_total ps = entry_bytes (ps_entries ps) \<and>
     (\<forall>((namespace, key), cp) \<in> set (ps_entries ps). pc_tokens cp = key \<and> pc_bytes cp = estimate_cache_bytes item_bytes (pc_cache cp))"

lemma entry_bytes_simps [simp]: "entry_bytes [] = 0" "entry_bytes (e # es) = pc_bytes (snd e) + entry_bytes es"
  "entry_bytes (xs @ ys) = entry_bytes xs + entry_bytes ys"
  by (simp_all add: entry_bytes_def)

lemma entry_bytes_delete:
  "dict_ok es \<Longrightarrow> entry_bytes (AList.delete k es) = entry_bytes es - (case map_of es k of None \<Rightarrow> 0 | Some e \<Rightarrow> pc_bytes e)"
proof (induction es)
  case (Cons e es)
  obtain k' v where e: "e = (k', v)" by (cases e)
  show ?case
  proof (cases "k' = k")
    case True
    then have "AList.delete k es = es" using Cons.prems by (intro dict_delete_absent) (simp add: e)
    then show ?thesis using True by (simp add: e)
  qed (use Cons in \<open>simp add: e\<close>)
qed simp

lemma estimate_nonneg: "(\<And>c. 0 \<le> item_bytes c) \<Longrightarrow> 0 \<le> estimate_cache_bytes item_bytes cache"
  by (auto simp: estimate_cache_bytes_def intro!: sum_list_nonneg)

lemma store_ok_drop:
  assumes "store_ok item_bytes ps" "ps_entries ps' = drop k (ps_entries ps)" "ps_total ps' = entry_bytes (ps_entries ps')"
  shows "store_ok item_bytes ps'"
  using assms by (auto simp: store_ok_def drop_map [symmetric] dest!: in_set_dropD)

lemma insert_entry_fields:
  "ps_entries (insert_entry item_bytes sequence cache namespace ps) = AList.delete (namespace, sequence) (ps_entries ps) @
     [((namespace, sequence), \<lparr>pc_tokens = sequence, pc_cache = cache, pc_bytes = estimate_cache_bytes item_bytes cache, pc_kind = Exact\<rparr>)]"
  "ps_max_entries (insert_entry item_bytes sequence cache namespace ps) = ps_max_entries ps"
  "ps_max_bytes (insert_entry item_bytes sequence cache namespace ps) = ps_max_bytes ps"
  by (simp_all add: insert_entry_def refresh_stats_def Let_def)

lemma set_delete: "set (AList.delete k es) = {e \<in> set es. fst e \<noteq> k}"
  by (auto simp: AList.delete_eq)

lemma insert_entry_ok:
  assumes "store_ok item_bytes ps"
  shows "store_ok item_bytes (insert_entry item_bytes sequence cache namespace ps)"
proof -
  have "dict_ok (ps_entries ps)" using assms by (simp add: store_ok_def)
  then show ?thesis
    using assms entry_bytes_delete [of "ps_entries ps" "(namespace, sequence)"] dict_keys_delete [of "(namespace, sequence)" "ps_entries ps"]
    by (auto simp: store_ok_def insert_entry_def refresh_stats_def Let_def set_delete)
qed

subsection \<open>Remembering\<close>

lemma shrink_runs:
  assumes "ps_total ps = entry_bytes (ps_entries ps)" "0 \<le> ps_max_entries ps" "0 \<le> ps_max_bytes ps"
  shows "\<exists>ps' k. shrink ps = Some ps' \<and> \<not> over_limit ps' \<and> ps_entries ps' = drop k (ps_entries ps) \<and>
    ps_total ps' = entry_bytes (ps_entries ps') \<and> ps_max_entries ps' = ps_max_entries ps \<and> ps_max_bytes ps' = ps_max_bytes ps \<and>
    (\<forall>j < k. ps_max_entries ps < int (length (drop j (ps_entries ps))) \<or> ps_max_bytes ps < entry_bytes (drop j (ps_entries ps)))"
  using assms
proof (induction "length (ps_entries ps)" arbitrary: ps)
  case 0
  then have "\<not> over_limit ps" by (simp add: over_limit_def)
  then show ?case using 0 by (intro exI [of _ ps] exI [of _ 0]) (simp add: shrink.simps)
next
  case (Suc n)
  show ?case
  proof (cases "over_limit ps")
    case False
    then show ?thesis using Suc.prems by (intro exI [of _ ps] exI [of _ 0]) (simp add: shrink.simps)
  next
    case True
    obtain e rest ps1 where e: "ps_entries ps = e # rest" "evict_oldest ps = (True, ps1)" "ps_entries ps1 = rest"
      "ps_total ps1 = ps_total ps - pc_bytes (snd e)" "ps_max_entries ps1 = ps_max_entries ps" "ps_max_bytes ps1 = ps_max_bytes ps"
      using evict_oldest_cases [of ps] Suc.hyps(2) by auto
    have "\<exists>ps' k. shrink ps1 = Some ps' \<and> \<not> over_limit ps' \<and> ps_entries ps' = drop k (ps_entries ps1) \<and>
      ps_total ps' = entry_bytes (ps_entries ps') \<and> ps_max_entries ps' = ps_max_entries ps1 \<and> ps_max_bytes ps' = ps_max_bytes ps1 \<and>
      (\<forall>j < k. ps_max_entries ps1 < int (length (drop j (ps_entries ps1))) \<or> ps_max_bytes ps1 < entry_bytes (drop j (ps_entries ps1)))"
      by (rule Suc.hyps(1)) (use Suc.hyps(2) Suc.prems e in simp_all)
    then obtain ps' k where K: "shrink ps1 = Some ps'" "\<not> over_limit ps'" "ps_entries ps' = drop k rest"
      "ps_total ps' = entry_bytes (ps_entries ps')" "ps_max_entries ps' = ps_max_entries ps" "ps_max_bytes ps' = ps_max_bytes ps"
      "\<forall>j < k. ps_max_entries ps < int (length (drop j rest)) \<or> ps_max_bytes ps < entry_bytes (drop j rest)"
      unfolding e(3,5,6) by blast
    have "shrink ps = Some ps'" using True K(1) e(2) by (subst shrink.simps) simp
    moreover have "ps_max_entries ps < int (length (drop j (e # rest))) \<or> ps_max_bytes ps < entry_bytes (drop j (e # rest))"
      if "j < Suc k" for j
    proof (cases j)
      case 0
      then show ?thesis using True e(1) Suc.prems(1) by (simp add: over_limit_def)
    next
      case (Suc i)
      then show ?thesis using K(7) that by simp
    qed
    ultimately show ?thesis using K by (intro exI [of _ ps'] exI [of _ "Suc k"]) (simp add: e(1))
  qed
qed

lemma shrink_within: "shrink ps = Some ps' \<Longrightarrow> \<not> over_limit ps' \<and> ps_max_entries ps' = ps_max_entries ps"
proof (rule shrink.raw_induct [of "\<lambda>ps ps'. \<not> over_limit ps' \<and> ps_max_entries ps' = ps_max_entries ps"])
  fix f and x y :: "('a, 'b) prompt_store"
  assume IH: "\<And>z w. f z = Some w \<Longrightarrow> \<not> over_limit w \<and> ps_max_entries w = ps_max_entries (z :: ('a, 'b) prompt_store)"
    and run: "(if over_limit x then f (snd (evict_oldest x)) else Some x) = Some y"
  have "ps_max_entries (snd (evict_oldest x)) = ps_max_entries x" using evict_oldest_cases [of x] by auto
  then show "\<not> over_limit y \<and> ps_max_entries y = ps_max_entries x" using IH [of "snd (evict_oldest x)" y] run by (auto split: if_splits)
qed

text \<open>A cache item is the number of its tokens.\<close>

definition sample_store :: "(unit, nat) prompt_store" where
  "sample_store = the (store_remember int [1, 2, 3] [3] [] (new_store 2 10))"

lemma sample_store_ok: "store_ok int sample_store" by code_simp

definition sample_trim :: "nat list \<Rightarrow> nat \<Rightarrow> nat list option" where
  "sample_trim c n = Some (map (\<lambda>k. k - n) c)"

definition sample_good :: "token list \<Rightarrow> nat list \<Rightarrow> bool" where
  "sample_good ts c \<longleftrightarrow> c = [length ts]"

text \<open>C32: Remembering a cache ends within the limits.  The store holds the cache under its namespace and tokens, as
  its newest entry, unless it is too big on its own; the oldest entries are dropped, and no more of them
  than the limits demand; the byte count is the sum over what is left, with one entry per key.  This needs an
  entry limit that is not negative.\<close>

theorem remember_keeps_the_newest:
  assumes "store_ok item_bytes ps" and "\<And>c. 0 \<le> item_bytes c" and "0 \<le> ps_max_entries ps"
    and "cache \<noteq> []" and "estimate_cache_bytes item_bytes cache \<le> ps_max_bytes ps"
  shows "\<exists>ps' k. store_remember item_bytes sequence cache namespace ps = Some ps' \<and> store_ok item_bytes ps' \<and> \<not> over_limit ps' \<and>
    (let all = AList.delete (namespace, sequence) (ps_entries ps) @ [((namespace, sequence),
        \<lparr>pc_tokens = sequence, pc_cache = cache, pc_bytes = estimate_cache_bytes item_bytes cache, pc_kind = Exact\<rparr>)]
     in ps_entries ps' = drop k all \<and>
        (\<forall>j < k. ps_max_entries ps < int (length (drop j all)) \<or> ps_max_bytes ps < entry_bytes (drop j all)))"
proof -
  let ?ps1 = "insert_entry item_bytes sequence cache namespace ps"
  have ok: "store_ok item_bytes ?ps1" by (rule insert_entry_ok [OF assms(1)])
  have "0 \<le> ps_max_bytes ps" using assms(5) estimate_nonneg [of item_bytes cache] assms(2) by simp
  then obtain ps' k where K: "shrink ?ps1 = Some ps'" "\<not> over_limit ps'" "ps_entries ps' = drop k (ps_entries ?ps1)"
    "ps_total ps' = entry_bytes (ps_entries ps')"
    "\<forall>j < k. ps_max_entries ps < int (length (drop j (ps_entries ?ps1))) \<or> ps_max_bytes ps < entry_bytes (drop j (ps_entries ?ps1))"
    using shrink_runs [of ?ps1] ok assms(3) by (auto simp: store_ok_def insert_entry_fields)
  have "store_remember item_bytes sequence cache namespace ps = Some (refresh_stats ps')"
    using K(1) assms(4,5) by (simp add: store_remember_def)
  moreover have "store_ok item_bytes (refresh_stats ps')"
    by (rule store_ok_drop [OF ok]) (use K in \<open>simp_all add: refresh_stats_def\<close>)
  moreover have "\<not> over_limit (refresh_stats ps')" using K(2) by (simp add: over_limit_def refresh_stats_def)
  ultimately show ?thesis
    using K(3,5) unfolding insert_entry_fields Let_def by (intro exI [of _ "refresh_stats ps'"] exI [of _ k]) (simp add: refresh_stats_def)
qed

theorem remember_keeps_the_newest_witness:
  "\<exists>ps'. store_remember int [9] [4] [] sample_store = Some ps' \<and> store_ok int ps' \<and> \<not> over_limit ps'"
proof -
  have "0 \<le> ps_max_entries sample_store" "estimate_cache_bytes int [4] \<le> ps_max_bytes sample_store" by code_simp+
  from remember_keeps_the_newest [OF sample_store_ok _ this(1) _ this(2), of "[9]" "[]"] show ?thesis by auto
qed

text \<open>With a negative entry limit, which the configuration accepts, remembering anything never returns: the
  eviction loop goes on over an empty store.\<close>

theorem remember_hangs_on_negative_limit:
  assumes "ps_max_entries ps < 0" and "cache \<noteq> []" and "estimate_cache_bytes item_bytes cache \<le> ps_max_bytes ps"
  shows "store_remember item_bytes sequence cache namespace ps = None"
proof -
  have "shrink (insert_entry item_bytes sequence cache namespace ps) = None"
  proof (rule ccontr)
    assume "shrink (insert_entry item_bytes sequence cache namespace ps) \<noteq> None"
    then obtain ps' where "shrink (insert_entry item_bytes sequence cache namespace ps) = Some ps'" by auto
    from shrink_within [OF this] show False using assms(1) by (simp add: over_limit_def insert_entry_fields)
  qed
  then show ?thesis using assms(2,3) by (simp add: store_remember_def)
qed

theorem remember_hangs_on_negative_limit_witness:
  "store_remember int [1] [1] [] (new_store (- 1) 10 :: (unit, nat) prompt_store) = None"
  by (rule remember_hangs_on_negative_limit) (simp_all add: new_store_def estimate_cache_bytes_def)

subsection \<open>Lookup\<close>

lemma shared_prefix_le: "shared_prefix xs ys \<le> length xs \<and> shared_prefix xs ys \<le> length ys"
  by (induction xs ys rule: shared_prefix.induct) auto

lemma take_shared: "n \<le> shared_prefix xs ys \<Longrightarrow> take n xs = take n ys"
proof (induction xs ys arbitrary: n rule: shared_prefix.induct)
  case (1 x xs y ys)
  then show ?case by (cases n) (auto split: if_splits)
qed simp_all

lemma shared_all: "shared_prefix xs ys = length xs \<longleftrightarrow> prefix xs ys"
  by (induction xs ys rule: shared_prefix.induct) (auto simp: prefix_def)

definition trims :: "('c list \<Rightarrow> nat \<Rightarrow> 'c list option) \<Rightarrow> (token list \<Rightarrow> 'c list \<Rightarrow> bool) \<Rightarrow> bool" where
  "trims trim good \<longleftrightarrow> (\<forall>ts c n c'. good ts c \<longrightarrow> n \<le> length ts \<longrightarrow> trim c n = Some c' \<longrightarrow> good (take (length ts - n) ts) c')"

lemma candidate_sound:
  assumes "trims trim good" "good key (pc_cache cached)" "candidate trim item_bytes prompt key cached = Some p"
  shows "good (pc_tokens p) (pc_cache p) \<and> prefix (pc_tokens p) prompt \<and> (pc_kind p = Exact \<longleftrightarrow> pc_tokens p = prompt)"
proof -
  have trimmed: "good (pc_tokens p) (pc_cache p) \<and> prefix (pc_tokens p) prompt \<and> (pc_kind p = Exact \<longleftrightarrow> pc_tokens p = prompt)"
    if t: "trimmed_candidate trim item_bytes prompt key cached = Some p"
  proof -
    let ?n = "min (shared_prefix key prompt) (length prompt - 1)"
    obtain c where c: "trim (pc_cache cached) (length key - ?n) = Some c" "?n \<noteq> 0"
      "p = \<lparr>pc_tokens = take ?n prompt, pc_cache = c, pc_bytes = estimate_cache_bytes item_bytes c, pc_kind = TrimmedLongerPrefix\<rparr>"
      using t by (auto simp: trimmed_candidate_def Let_def split: if_splits option.splits)
    have n: "?n \<le> length key" using shared_prefix_le [of key prompt] by (simp add: min.coboundedI1)
    have "good (take (length key - (length key - ?n)) key) c"
      using assms(1,2) c(1) unfolding trims_def by (meson diff_le_self)
    then have "good (take ?n key) c" unfolding diff_diff_cancel [OF n] .
    then have "good (take ?n prompt) c" unfolding take_shared [of ?n key prompt, OF min.cobounded1] .
    moreover have "take n prompt \<noteq> prompt" if "n \<le> length prompt - 1" "0 < length prompt" for n
      using that by (metis Suc_pred' length_take less_Suc_eq_le min.absorb2 less_imp_le_nat nat_less_le)
    then have "take ?n prompt \<noteq> prompt" using c(2) by fastforce
    ultimately show ?thesis using c(3) by (simp only: cached_prompt.select_convs take_is_prefix match_kind.simps simp_thms)
  qed
  show ?thesis
    using assms(2,3) trimmed shared_all [of key prompt]
    by (auto simp: candidate_def split: if_splits)
qed

lemma candidate_prefix:
  "strict_prefix key prompt \<Longrightarrow> \<exists>p. candidate trim item_bytes prompt key cached = Some p \<and> pc_tokens p = key"
  using prefix_length_less [of key prompt] shared_all [of key prompt] by (auto simp: candidate_def strict_prefix_def)

lemma lookup_loop_best:
  "case lookup_loop trim item_bytes namespace prompt es best of
     None \<Rightarrow> best = None \<and> (\<forall>((ns, key), cp) \<in> set es. ns = namespace \<longrightarrow> candidate trim item_bytes prompt key cp = None)
   | Some p \<Rightarrow> (best = Some p \<or> (\<exists>((ns, key), cp) \<in> set es. ns = namespace \<and> candidate trim item_bytes prompt key cp = Some p)) \<and>
       (\<forall>b. best = Some b \<longrightarrow> length (pc_tokens b) \<le> length (pc_tokens p)) \<and>
       (\<forall>((ns, key), cp) \<in> set es. ns = namespace \<longrightarrow> (\<forall>q. candidate trim item_bytes prompt key cp = Some q \<longrightarrow>
          length (pc_tokens q) \<le> length (pc_tokens p)))"
proof (induction es arbitrary: best)
  case (Cons e es)
  obtain ns key cp where e: "e = ((ns, key), cp)" by (metis surj_pair)
  show ?case
  proof (cases "ns = namespace \<and> candidate trim item_bytes prompt key cp \<noteq> None")
    case False
    then show ?thesis using Cons.IH [of best] by (auto simp: e split: option.splits)
  next
    case True
    then obtain c where c: "ns = namespace" "candidate trim item_bytes prompt key cp = Some c" by auto
    let ?best = "case best of None \<Rightarrow> Some c | Some b \<Rightarrow> if length (pc_tokens b) < length (pc_tokens c) then Some c else best"
    have "?best \<noteq> None" by (simp split: option.splits)
    then obtain b' where b': "?best = Some b'" by blast
    have run: "lookup_loop trim item_bytes namespace prompt (e # es) best = lookup_loop trim item_bytes namespace prompt es (Some b')"
      using c b' by (simp add: e)
    have w: "length (pc_tokens c) \<le> length (pc_tokens b')" "best = Some b \<Longrightarrow> length (pc_tokens b) \<le> length (pc_tokens b')"
      "b' = c \<or> best = Some b'" for b
      using b' by (auto split: option.splits if_splits)
    from Cons.IH [of "Some b'"] obtain p where p: "lookup_loop trim item_bytes namespace prompt es (Some b') = Some p"
      by (cases "lookup_loop trim item_bytes namespace prompt es (Some b')") auto
    note IH = Cons.IH [of "Some b'", unfolded p option.case]
    show ?thesis unfolding run p option.case
      using IH w c by (fastforce simp: e)
  qed
qed (simp split: option.splits)



subsection \<open>The shared budget\<close>

text \<open>What enforcing may do to a store: drop its oldest entries.\<close>

definition shrunk :: "('c \<Rightarrow> int) \<Rightarrow> ('n, 'c) prompt_store \<Rightarrow> ('n, 'c) prompt_store \<Rightarrow> bool" where
  "shrunk item_bytes ps ps' \<longleftrightarrow> store_ok item_bytes ps' \<and> (\<exists>k. ps_entries ps' = drop k (ps_entries ps)) \<and>
     ps_max_entries ps' = ps_max_entries ps \<and> ps_max_bytes ps' = ps_max_bytes ps"

lemma shrunk_refl: "store_ok item_bytes ps \<Longrightarrow> shrunk item_bytes ps ps"
  unfolding shrunk_def by (metis drop_0)

lemma shrunk_trans: "shrunk item_bytes ps ps1 \<Longrightarrow> shrunk item_bytes ps1 ps2 \<Longrightarrow> shrunk item_bytes ps ps2"
  by (auto simp: shrunk_def)

lemma evict_shrunk:
  assumes "store_ok item_bytes ps" "evict_oldest ps = (b, ps')"
  shows "shrunk item_bytes ps ps'"
proof (cases "ps_entries ps")
  case Nil
  then show ?thesis using assms shrunk_refl by (auto simp: evict_oldest_def)
next
  case (Cons e rest)
  obtain k v where e: "e = (k, v)" by (cases e)
  have ps': "ps_entries ps' = drop 1 (ps_entries ps)" "ps_total ps' = ps_total ps - pc_bytes v"
    "ps_max_entries ps' = ps_max_entries ps" "ps_max_bytes ps' = ps_max_bytes ps"
    using assms(2) by (auto simp: evict_oldest_def Cons e refresh_stats_def)
  have "ps_total ps' = entry_bytes (ps_entries ps')" using assms(1) by (simp add: ps' store_ok_def Cons e)
  with store_ok_drop [OF assms(1) ps'(1)] show ?thesis using ps' unfolding shrunk_def by blast
qed

lemma enforce_round_rule:
  assumes "enforce_round target evicted visited rest = (ev, met, stores)"
    and "list_all2 (shrunk item_bytes) old visited" "list_all (store_ok item_bytes) rest"
  shows "list_all2 (shrunk item_bytes) (old @ rest) stores \<and> (met \<longrightarrow> stored_bytes_of stores \<le> target) \<and>
    (\<not> ev \<longrightarrow> stores = visited @ rest \<and> (\<forall>ps \<in> set rest. ps_entries ps = []))"
  using assms
proof (induction rest arbitrary: evicted visited old)
  case (Cons ps rest)
  obtain b ps' where e: "evict_oldest ps = (b, ps')" by (metis surj_pair)
  have s: "list_all2 (shrunk item_bytes) (old @ [ps]) (visited @ [ps'])"
    using Cons.prems(2,3) evict_shrunk [OF _ e, of item_bytes] by (simp add: list_all2_appendI)
  have refl: "list_all2 (shrunk item_bytes) rest rest"
    using Cons.prems(3) shrunk_refl by (auto simp: list_all_iff intro!: list.rel_refl_strong)
  consider (no) "b = False" | (met) "b" "stored_bytes_of (visited @ [ps'] @ rest) \<le> target"
    | (more) "b" "\<not> stored_bytes_of (visited @ [ps'] @ rest) \<le> target" by blast
  then show ?case
  proof cases
    case no
    then have "ps' = ps" "ps_entries ps = []" using e by (auto simp: evict_oldest_def split: list.splits prod.splits)
    then show ?thesis using Cons.IH [of evicted "visited @ [ps']" "old @ [ps]"] Cons.prems e s no by auto
  next
    case met
    then show ?thesis using Cons.prems(1) e s list_all2_appendI [OF s refl] by auto
  next
    case more
    then have run: "enforce_round target True (visited @ [ps']) rest = (ev, met, stores)" using Cons.prems(1) e by simp
    then have "ev" using enforce_round_left by blast
    then show ?thesis using Cons.IH [OF run s] Cons.prems(3) by simp
  qed
qed simp

lemma all_shrunk_trans:
  "list_all2 (shrunk item_bytes) xs ys \<Longrightarrow> list_all2 (shrunk item_bytes) ys zs \<Longrightarrow> list_all2 (shrunk item_bytes) xs zs"
  by (rule list_all2_trans [OF shrunk_trans])

lemma enforce_loop_rule:
  assumes "0 \<le> target" "list_all (store_ok item_bytes) stores"
  shows "list_all2 (shrunk item_bytes) stores (enforce_loop target stores) \<and> stored_bytes_of (enforce_loop target stores) \<le> target"
  using assms
proof (induction target stores rule: enforce_loop.induct)
  case (1 target stores)
  have same: "list_all2 (shrunk item_bytes) stores stores"
    using 1(3) shrunk_refl by (metis list.rel_refl_strong list_all_iff)
  show ?case
  proof (cases "target < stored_bytes_of stores")
    case False
    then show ?thesis using same by (simp add: enforce_loop.simps)
  next
    case True
    obtain ev met stores' where r: "enforce_round target False [] stores = (ev, met, stores')" by (metis prod_cases3)
    note R = enforce_round_rule [OF r, of item_bytes "[]"]
    have ok: "list_all (store_ok item_bytes) stores'"
      using R 1(3) by (auto simp: list_all_iff shrunk_def list_all2_conv_all_nth in_set_conv_nth)
    show ?thesis
    proof (cases "met \<or> \<not> ev")
      case T: True
      have run: "enforce_loop target stores = stores'" using True T r by (subst enforce_loop.simps) simp
      have "stored_bytes_of stores' \<le> target"
      proof (cases met)
        case False
        then have "stores' = stores" "\<forall>ps \<in> set stores. ps_entries ps = []" using T R 1(3) by auto
        then have "\<forall>ps \<in> set stores'. ps_total ps = 0" using 1(3) by (auto simp: list_all_iff store_ok_def)
        then have "stored_bytes_of stores' = 0" unfolding stored_bytes_of_def by (induction stores') auto
        then show ?thesis using 1(2) by simp
      qed (use R 1(3) in simp)
      then show ?thesis using R 1(3) run by simp
    next
      case False
      have run: "enforce_loop target stores = enforce_loop target stores'" using True False r by (subst enforce_loop.simps) simp
      have IH: "list_all2 (shrunk item_bytes) stores' (enforce_loop target stores') \<and> stored_bytes_of (enforce_loop target stores') \<le> target"
        by (rule 1(1) [OF True r [symmetric] refl False 1(2) ok])
      then show ?thesis using R 1(3) all_shrunk_trans unfolding run by auto
    qed
  qed
qed

text \<open>C33: When a backend reports the size of its running batch, the registered stores are brought under what the
  budget leaves for them, at least zero: afterwards their bytes together are within the target, every
  store has lost its oldest entries only, and nothing is evicted when they were within it already.\<close>

theorem budget_is_enforced:
  assumes "\<forall>ps \<in> set (bm_stores bm). store_ok item_bytes ps"
  shows "let bm' = set_active_batch_bytes backend n bm
    in stored_bytes_of (bm_stores bm') \<le> stored_target bm' \<and> list_all2 (shrunk item_bytes) (bm_stores bm) (bm_stores bm') \<and>
       (stored_bytes_of (bm_stores bm) \<le> stored_target bm' \<longrightarrow> bm_stores bm' = bm_stores bm)"
proof -
  let ?bm = "bm\<lparr>bm_active := AList.update backend (max 0 n) (bm_active bm)\<rparr>"
  have t: "0 \<le> stored_target ?bm" "stored_target (set_active_batch_bytes backend n bm) = stored_target ?bm"
    by (simp_all add: stored_target_def set_active_batch_bytes_def enforce_def active_batch_bytes_def)
  have s: "bm_stores (set_active_batch_bytes backend n bm) = enforce_loop (stored_target ?bm) (bm_stores bm)"
    by (simp add: set_active_batch_bytes_def enforce_def)
  show ?thesis
    using enforce_loop_rule [OF t(1), of item_bytes "bm_stores bm"] assms
    unfolding Let_def t(2) s by (simp add: list_all_iff enforce_loop.simps)
qed

theorem budget_is_enforced_witness:
  "stored_bytes_of [sample_store] = 3 \<and>
    stored_bytes_of (bm_stores (set_active_batch_bytes ''text'' 8 (register_store sample_store (new_manager 10)))) \<le> 2"
proof -
  let ?bm = "register_store sample_store (new_manager 10)"
  have "\<forall>ps \<in> set (bm_stores ?bm). store_ok int ps" using sample_store_ok by (simp add: register_store_def new_manager_def)
  from budget_is_enforced [OF this, of "''text''" 8]
  have "stored_bytes_of (bm_stores (set_active_batch_bytes ''text'' 8 ?bm)) \<le> stored_target (set_active_batch_bytes ''text'' 8 ?bm)"
    by (simp add: Let_def)
  moreover have "stored_target (set_active_batch_bytes ''text'' 8 ?bm) = 2" by code_simp
  moreover have "stored_bytes_of [sample_store] = 3" by code_simp
  ultimately show ?thesis by simp
qed

end
