(* ===== verification/BatchProps.thy ===== *)
theory BatchProps
  imports Batching PromptCacheProps
begin

text \<open>
  What the v1 scheduler promises its clients, and what its use of the prompt cache does to them.
\<close>

subsection \<open>Runs\<close>

datatype batch_op = BSubmit text_request bool | BCancel string | BTick

fun run_batch_op ::
  "batch_context \<Rightarrow> ('g, 'c) generator_ops \<Rightarrow> 'c cache_ops \<Rightarrow> batch_op \<Rightarrow> ('g, 'n, 'c) batch_scheduler \<Rightarrow>
     ((exn + unit) \<times> ('g, 'n, 'c) batch_scheduler) option" where
  "run_batch_op ctx go ck (BSubmit request stream) s = Some (batch_submit ctx ck request stream s)"
| "run_batch_op ctx go ck (BCancel rid) s = Some (case batch_cancel ctx go rid s of (Inl e, s') \<Rightarrow> (Inl e, s') | (Inr _, s') \<Rightarrow> (Inr (), s'))"
| "run_batch_op ctx go ck BTick s = batch_tick ctx go ck s"

fun run_batch ::
  "batch_context \<Rightarrow> ('g, 'c) generator_ops \<Rightarrow> 'c cache_ops \<Rightarrow> batch_op list \<Rightarrow> ('g, 'n, 'c) batch_scheduler \<Rightarrow>
     ((exn + unit) \<times> ('g, 'n, 'c) batch_scheduler) option" where
  "run_batch ctx go ck [] s = Some (Inr (), s)"
| "run_batch ctx go ck (op # ops) s =
     (case run_batch_op ctx go ck op s of
        None \<Rightarrow> None
      | Some (Inl e, s1) \<Rightarrow> Some (Inl e, s1)
      | Some (Inr _, s1) \<Rightarrow> run_batch ctx go ck ops s1)"

subsection \<open>Counting answers\<close>

text \<open>How many values of a dictionary satisfy a predicate.\<close>

definition held :: "('v \<Rightarrow> bool) \<Rightarrow> (nat, 'v) dict \<Rightarrow> nat" where
  "held P d = length (filter P (dict_values d))"

lemma held_simps [simp]: "held P [] = 0" "held P (e # d) = (if P (snd e) then 1 else 0) + held P d"
  by (simp_all add: held_def)

lemma held_update_same:
  "dict_ok d \<Longrightarrow> map_of d k = Some v \<Longrightarrow> P v' = P v \<Longrightarrow>
   held P (AList.update k v' d) = held P d \<and> length (AList.update k v' d) = length d"
  by (induction d) (auto split: if_splits)

lemma held_update_new:
  "k \<notin> set (dict_keys d) \<Longrightarrow>
   held P (AList.update k v d) = held P d + (if P v then 1 else 0) \<and> length (AList.update k v d) = Suc (length d)"
  by (induction d) auto

lemma held_delete:
  assumes "dict_ok d" "map_of d k = Some v"
  shows "held P (AList.delete k d) + (if P v then 1 else 0) = held P d \<and> length (AList.delete k d) < length d"
  using assms
proof (induction d)
  case (Cons e d)
  obtain k' v' where e: "e = (k', v')" by (cases e)
  show ?case
  proof (cases "k' = k")
    case True
    then have "AList.delete k d = d" using Cons.prems by (intro dict_delete_absent) (simp add: e)
    then show ?thesis using Cons.prems True by (simp add: e)
  next
    case False
    then show ?thesis using Cons by (auto simp: e)
  qed
qed simp

lemma held_fold:
  assumes "dict_ok d" "distinct (map snd xs)" "set (map snd xs) \<inter> set (dict_keys d) = {}"
    and "\<And>u k x. P (f u k x) = P x"
  shows "dict_ok (fold (\<lambda>(x, uid) d. AList.update uid (f uid (length d) x) d) xs d) \<and>
    set (dict_keys (fold (\<lambda>(x, uid) d. AList.update uid (f uid (length d) x) d) xs d)) = set (dict_keys d) \<union> set (map snd xs) \<and>
    length (fold (\<lambda>(x, uid) d. AList.update uid (f uid (length d) x) d) xs d) = length d + length xs \<and>
    held P (fold (\<lambda>(x, uid) d. AList.update uid (f uid (length d) x) d) xs d) = held P d + length (filter P (map fst xs))"
  using assms(1-3)
proof (induction xs arbitrary: d)
  case (Cons y xs)
  obtain x uid where y: "y = (x, uid)" by (cases y)
  let ?d = "AList.update uid (f uid (length d) x) d"
  have new: "uid \<notin> set (dict_keys d)" using Cons.prems(3) by (auto simp: y)
  have D: "dict_ok ?d" "set (dict_keys ?d) = insert uid (set (dict_keys d))" "length ?d = Suc (length d)"
    "held P ?d = held P d + (if P x then 1 else 0)"
    using Cons.prems(1) held_update_new [OF new] assms(4) unfolding dict_keys_update by auto
  have "set (map snd xs) \<inter> set (dict_keys ?d) = {}" using Cons.prems(2,3) D(2) by (auto simp: y)
  from Cons.IH [OF D(1) _ this] show ?case using Cons.prems(2) D by (auto simp: y)
qed simp

fun answer :: "string \<Rightarrow> batch_event \<Rightarrow> bool" where
  "answer rid (BatchResponse r) \<longleftrightarrow> br_request_id r = rid"
| "answer rid (BatchError i code message) \<longleftrightarrow> i = rid"
| "answer rid (BatchDelta i text') \<longleftrightarrow> False"

definition answers :: "string \<Rightarrow> ('g, 'n, 'c) batch_scheduler \<Rightarrow> nat" where
  "answers rid s = length (filter (answer rid) (bs_out s))"

abbreviation jobs_of :: "string \<Rightarrow> (nat, 'c batch_job) dict \<Rightarrow> nat" where
  "jobs_of rid \<equiv> held (is_job rid)"

definition outstanding :: "string \<Rightarrow> ('g, 'n, 'c) batch_scheduler \<Rightarrow> nat" where
  "outstanding rid s = length (filter (is_job rid) (bs_pending s)) + jobs_of rid (bs_active s)"

fun submits :: "string \<Rightarrow> batch_op list \<Rightarrow> nat" where
  "submits rid [] = 0"
| "submits rid (BSubmit request stream # ops) = (if tr_request_id request = rid then 1 else 0) + submits rid ops"
| "submits rid (_ # ops) = submits rid ops"

text \<open>The generator's documented behaviour: \<open>insert\<close> hands out identifiers that are not in use; \<open>issued\<close> is what
  it has handed out.\<close>

definition issues_fresh :: "('g, 'c) generator_ops \<Rightarrow> ('g \<Rightarrow> nat set) \<Rightarrow> bool" where
  "issues_fresh go issued \<longleftrightarrow>
     (\<forall>p m c a smp g r g'. go_insert go p m c a smp g = (r, g') \<longrightarrow> issued g \<subseteq> issued g' \<and>
        (\<forall>uids. r = Inr uids \<longrightarrow> set uids \<inter> issued g = {} \<and> set uids \<subseteq> issued g')) \<and>
     (\<forall>g r g'. go_next go g = (r, g') \<longrightarrow> issued g \<subseteq> issued g') \<and>
     (\<forall>uids g r g'. go_remove go uids g = (r, g') \<longrightarrow> issued g \<subseteq> issued g')"

fun handed_out :: "('g \<Rightarrow> nat set) \<Rightarrow> 'g option \<Rightarrow> nat set" where
  "handed_out issued None = {}"
| "handed_out issued (Some g) = issued g"

lemma issues_insert:
  assumes "issues_fresh go issued" "insert_text_batch go p m c a smp g = (Inr uids, g')"
  shows "issued g \<subseteq> issued g'" "set uids \<inter> issued g = {}" "set uids \<subseteq> issued g'"
proof -
  note law = assms(1) [unfolded issues_fresh_def, THEN conjunct1, rule_format, OF assms(2) [unfolded insert_text_batch_def]]
  show "issued g \<subseteq> issued g'" "set uids \<inter> issued g = {}" "set uids \<subseteq> issued g'"
    using law by auto
qed

definition batch_ok :: "('g \<Rightarrow> nat set) \<Rightarrow> ('g, 'n, 'c) batch_scheduler \<Rightarrow> bool" where
  "batch_ok issued s \<longleftrightarrow> dict_ok (bs_active s) \<and> int (length (bs_active s)) \<le> max 0 (bs_decode_concurrency s) \<and>
     set (dict_keys (bs_active s)) \<subseteq> handed_out issued (bs_generator s)"

lemma take_first_some:
  "take_first P xs = Some (x, ys) \<Longrightarrow> \<exists>as bs. xs = as @ x # bs \<and> ys = as @ bs \<and> P x"
  by (induction xs arbitrary: ys) (auto split: if_splits, metis append_Cons)

subsection \<open>Every operation keeps the count\<close>

text \<open>\<open>keeps n s s'\<close>: one operation that takes \<open>n rid\<close> requests more.\<close>

definition keeps :: "(string \<Rightarrow> nat) \<Rightarrow> ('g, 'n, 'c) batch_scheduler \<Rightarrow> ('g, 'n, 'c) batch_scheduler \<Rightarrow> bool" where
  "keeps n s s' \<longleftrightarrow> (\<forall>rid. answers rid s' + outstanding rid s' = answers rid s + outstanding rid s + n rid) \<and>
     bs_decode_concurrency s' = bs_decode_concurrency s"

lemma keeps_trans: "keeps m s s1 \<Longrightarrow> keeps n s1 s2 \<Longrightarrow> keeps (\<lambda>rid. m rid + n rid) s s2"
  by (auto simp: keeps_def)

lemma submit_frame:
  assumes "batch_submit ctx ck request stream s = (res, s')"
  shows "bs_active s' = bs_active s \<and> bs_generator s' = bs_generator s \<and> bs_decode_concurrency s' = bs_decode_concurrency s"
  using assms by (auto simp: batch_submit_def Let_def send_def split: if_splits sum.splits exn.splits prod.splits)

lemma batch_ok_cong:
  "bs_active s' = bs_active s \<Longrightarrow> bs_generator s' = bs_generator s \<Longrightarrow> bs_decode_concurrency s' = bs_decode_concurrency s \<Longrightarrow>
   batch_ok issued s' = batch_ok issued s"
  by (simp add: batch_ok_def)

lemma submit_keeps:
  assumes "batch_ok issued s" "batch_submit ctx ck request stream s = (Inr u, s')"
  shows "batch_ok issued s' \<and> keeps (\<lambda>rid. if tr_request_id request = rid then 1 else 0) s s'"
proof
  show "batch_ok issued s'" using submit_frame [OF assms(2)] assms(1) batch_ok_cong by blast
  show "keeps (\<lambda>rid. if tr_request_id request = rid then 1 else 0) s s'"
    using assms(2)
    by (auto simp: batch_submit_def Let_def keeps_def answers_def outstanding_def send_def is_job_def new_job_def
        split: if_splits sum.splits exn.splits prod.splits)
qed

lemma emit_cancelled_frame:
  "bs_active (emit_cancelled ctx go job s) = bs_active s" "bs_pending (emit_cancelled ctx go job s) = bs_pending s"
  "bs_generator (emit_cancelled ctx go job s) = bs_generator s"
  "bs_decode_concurrency (emit_cancelled ctx go job s) = bs_decode_concurrency s"
  "answers rid (emit_cancelled ctx go job s) = answers rid s + (if is_job rid job then 1 else 0)"
  by (simp_all add: emit_cancelled_def send_def answers_def job_response_def is_job_def)

lemma is_job_cancelled [simp]: "is_job rid (cancelled_job job) = is_job rid job"
  by (simp add: is_job_def cancelled_job_def)

lemma cancel_keeps:
  assumes ok: "batch_ok issued s" and law: "issues_fresh go issued" and run: "batch_cancel ctx go rid s = (Inr b, s')"
  shows "batch_ok issued s' \<and> keeps (\<lambda>rid. 0) s s'"
proof (cases "take_first (is_job rid) (bs_pending s)")
  case (Some p)
  then obtain job rest where p: "take_first (is_job rid) (bs_pending s) = Some (job, rest)" by (cases p) auto
  from take_first_some [OF p] obtain as bs where ab: "bs_pending s = as @ job # bs" "rest = as @ bs" by blast
  have s': "s' = emit_cancelled ctx go (cancelled_job job) (s\<lparr>bs_pending := rest, bs_cancellations := Suc (bs_cancellations s)\<rparr>)"
    using run p by (simp add: batch_cancel_def)
  have "answers rid (s\<lparr>bs_pending := rest, bs_cancellations := Suc (bs_cancellations s)\<rparr>) = answers rid s" for rid
    by (simp add: answers_def)
  then have "keeps (\<lambda>rid. 0) s s'" by (simp add: s' keeps_def emit_cancelled_frame outstanding_def ab)
  moreover have "batch_ok issued s'" using ok unfolding batch_ok_def s' emit_cancelled_frame by simp
  ultimately show ?thesis by blast
next
  case None
  show ?thesis
  proof (cases "take_first (\<lambda>(uid, job). is_job rid job) (bs_active s)")
    case None': None
    then show ?thesis using run None ok by (simp add: batch_cancel_def keeps_def)
  next
    case (Some p)
    then obtain uid job rest where p: "take_first (\<lambda>(uid, job). is_job rid job) (bs_active s) = Some ((uid, job), rest)" by (cases p) auto
    from take_first_some [OF p] obtain as bs where ab: "bs_active s = as @ (uid, job) # bs" "rest = as @ bs" by blast
    let ?s1 = "emit_cancelled ctx go (cancelled_job job) (s\<lparr>bs_active := rest, bs_cancellations := Suc (bs_cancellations s)\<rparr>)"
    have answers_active: "answers rid (s\<lparr>bs_active := rest, bs_cancellations := Suc (bs_cancellations s)\<rparr>) = answers rid s" for rid
      by (simp add: answers_def)
    have k: "keeps (\<lambda>rid. 0) s ?s1"
      using answers_active by (simp add: keeps_def emit_cancelled_frame outstanding_def ab held_def)
    obtain g where g: "bs_generator s = Some g" using ok ab(1) by (cases "bs_generator s") (auto simp: batch_ok_def)
    obtain r g' where rm: "go_remove go [uid] g = (r, g')" by (metis surj_pair)
    have s': "s' = ?s1\<lparr>bs_generator := Some g'\<rparr>"
      using run None p g rm by (auto simp: batch_cancel_def Let_def emit_cancelled_frame split: sum.splits)
    have "issued g \<subseteq> issued g'" using law rm unfolding issues_fresh_def by blast
    then have "batch_ok issued s'" using ok g by (auto simp: batch_ok_def s' emit_cancelled_frame ab)
    moreover have "keeps (\<lambda>rid. 0) s s'" using k by (simp add: s' keeps_def answers_def outstanding_def)
    ultimately show ?thesis by blast
  qed
qed

lemma emit_delta_frame:
  assumes "emit_delta ctx job s = (job', s')"
  shows "bj_request job' = bj_request job \<and> bs_active s' = bs_active s \<and> bs_pending s' = bs_pending s \<and> bs_generator s' = bs_generator s \<and>
    bs_decode_concurrency s' = bs_decode_concurrency s \<and> answers rid s' = answers rid s"
  using assms by (auto simp: emit_delta_def Let_def send_def answers_def split: if_splits)

lemma finish_job_frame:
  assumes "finish_job ctx go ck job reason cache all_tokens s = Some s'"
  shows "bs_active s' = bs_active s \<and> bs_pending s' = bs_pending s \<and> bs_generator s' = bs_generator s \<and>
    bs_decode_concurrency s' = bs_decode_concurrency s \<and> answers rid s' = answers rid s + (if is_job rid job then 1 else 0)"
  using assms by (auto simp: finish_job_def Let_def send_def answers_def job_response_def is_job_def split: option.splits if_splits)

lemma step_responses_keeps:
  assumes "batch_ok issued s" "step_responses ctx go ck rs s = Some s'"
  shows "batch_ok issued s' \<and> keeps (\<lambda>rid. 0) s s' \<and> bs_generator s' = bs_generator s"
  using assms
proof (induction rs arbitrary: s)
  case Nil
  then show ?case by (simp add: keeps_def)
next
  case (Cons r rs)
  show ?case
  proof (cases "map_of (bs_active s) (gr_uid r)")
    case None
    then show ?thesis using Cons by simp
  next
    case (Some job)
    let ?job1 = "if bj_decoding job then job else job\<lparr>bj_decoding := True, bj_stage := ''decoding''\<rparr>"
    let ?job2 = "?job1\<lparr>bj_decode_batch := max (bj_decode_batch ?job1) (length (bs_active s))\<rparr>"
    obtain job3 s3 where e: "(if gr_finish r = Some ''stop'' then (?job2, s)
        else emit_delta ctx (?job2\<lparr>bj_generated := bj_generated ?job2 @ [gr_token r]\<rparr>) s) = (job3, s3)" by (metis surj_pair)
    have F: "bj_request job3 = bj_request job \<and> bs_active s3 = bs_active s \<and> bs_pending s3 = bs_pending s \<and> bs_generator s3 = bs_generator s \<and>
        bs_decode_concurrency s3 = bs_decode_concurrency s \<and> answers rid s3 = answers rid s" for rid
      using e emit_delta_frame [of ctx "?job2\<lparr>bj_generated := bj_generated ?job2 @ [gr_token r]\<rparr>" s job3 s3 rid]
      by (auto split: if_splits)
    have same: "is_job rid job3 = is_job rid job" for rid using F by (simp add: is_job_def)
    have d: "dict_ok (bs_active s)" using Cons.prems(1) by (simp add: batch_ok_def)
    have key: "gr_uid r \<in> set (dict_keys (bs_active s))" using Some by (metis dict_member_iff option.simps(3))
    show ?thesis
    proof (cases "gr_finish r")
      case None
      let ?s4 = "s3\<lparr>bs_active := AList.update (gr_uid r) job3 (bs_active s3)\<rparr>"
      have run: "step_responses ctx go ck rs ?s4 = Some s'" using Cons.prems(2) Some e None by (simp add: Let_def)
      have U: "held (is_job rid) (AList.update (gr_uid r) job3 (bs_active s)) = held (is_job rid) (bs_active s) \<and> length (AList.update (gr_uid r) job3 (bs_active s)) = length (bs_active s)" for rid by (rule held_update_same [OF d Some same])
      have k: "keeps (\<lambda>rid. 0) s ?s4" using F U by (simp add: keeps_def outstanding_def answers_def)
      have "set (dict_keys (AList.update (gr_uid r) job3 (bs_active s))) = set (dict_keys (bs_active s))"
        unfolding dict_keys_update using key by blast
      then have ok: "batch_ok issued ?s4" using Cons.prems(1) F U d by (auto simp: batch_ok_def split: option.splits)
      from Cons.IH [OF ok run] show ?thesis using keeps_trans [OF k] F by auto
    next
      case (Some reason)
      obtain s4 where f: "finish_job ctx go ck job3 reason (gr_cache r) (gr_all_tokens r) s3 = Some s4"
        using Cons.prems(2) \<open>map_of (bs_active s) (gr_uid r) = Some job\<close> e Some by (auto simp: Let_def split: option.splits)
      let ?s5 = "s4\<lparr>bs_active := AList.delete (gr_uid r) (bs_active s4)\<rparr>"
      have run: "step_responses ctx go ck rs ?s5 = Some s'"
        using Cons.prems(2) \<open>map_of (bs_active s) (gr_uid r) = Some job\<close> e Some f by (simp add: Let_def)
      note G = finish_job_frame [OF f] and D = held_delete [OF d \<open>map_of (bs_active s) (gr_uid r) = Some job\<close>]
      have "answers rid ?s5 + outstanding rid ?s5 = answers rid s + outstanding rid s" for rid
        using G [of rid] F [of rid] D [of "is_job rid"] same [of rid] by (simp add: outstanding_def answers_def)
      then have k: "keeps (\<lambda>rid. 0) s ?s5" using F G by (simp add: keeps_def)
      have len: "int (length (AList.delete (gr_uid r) (bs_active s))) \<le> int (length (bs_active s))" by (simp add: length_delete_le)
      have keys: "set (dict_keys (AList.delete (gr_uid r) (bs_active s))) \<subseteq> set (dict_keys (bs_active s))"
        unfolding dict_keys_delete by blast
      have same_parts: "bs_active ?s5 = AList.delete (gr_uid r) (bs_active s)" "bs_generator ?s5 = bs_generator s"
        "bs_decode_concurrency ?s5 = bs_decode_concurrency s" using F G by simp_all
      have "batch_ok issued ?s5"
        using Cons.prems(1) d len keys unfolding batch_ok_def same_parts by (meson dict_ok_delete order_trans)
      from Cons.IH [OF this run] show ?thesis using keeps_trans [OF k] F G by auto
    qed
  qed
qed

lemma take_batch_spec:
  assumes "take_batch pc dc active acc queue = (batch, rest)"
  shows "\<exists>new. batch = acc @ new \<and> queue = new @ rest \<and> (new \<noteq> [] \<longrightarrow> int active + int (length batch) \<le> dc \<and> int (length batch) \<le> pc)"
  using assms
proof (induction queue arbitrary: acc)
  case (Cons job queue)
  show ?case
  proof (cases "int (length acc) < pc \<and> int active + int (length acc) < dc")
    case True
    then have "take_batch pc dc active (acc @ [job]) queue = (batch, rest)" using Cons.prems by (simp split: if_splits)
    from Cons.IH [OF this] obtain new where N: "batch = (acc @ [job]) @ new" "queue = new @ rest"
      "new \<noteq> [] \<longrightarrow> int active + int (length batch) \<le> dc \<and> int (length batch) \<le> pc" by blast
    have "int active + int (length batch) \<le> dc \<and> int (length batch) \<le> pc"
      using N True by (cases "new = []") auto
    then show ?thesis using N by (intro exI [of _ "job # new"]) simp
  next
    case False
    then show ?thesis using Cons.prems by (auto split: if_splits)
  qed
qed simp

lemma activate_all:
  assumes "dict_ok d" "distinct (map snd xs)" "set (map snd xs) \<inter> set (dict_keys d) = {}"
  shows "dict_ok (fold (activate n) xs d) \<and> set (dict_keys (fold (activate n) xs d)) = set (dict_keys d) \<union> set (map snd xs) \<and>
    length (fold (activate n) xs d) = length d + length xs \<and>
    jobs_of rid (fold (activate n) xs d) = jobs_of rid d + length (filter (is_job rid) (map fst xs))"
  unfolding activate_def
  by (rule held_fold [where f = "\<lambda>uid k job. job\<lparr>bj_uid := Some uid, bj_prompt_batch := n, bj_decode_batch := k + n, bj_stage := ''prompt_processing''\<rparr>",
      OF assms]) (simp add: is_job_def)

lemma report_active_frame:
  "bs_active (report_active go s) = bs_active s" "bs_pending (report_active go s) = bs_pending s" "bs_out (report_active go s) = bs_out s"
  "bs_generator (report_active go s) = bs_generator s" "bs_decode_concurrency (report_active go s) = bs_decode_concurrency s"
  by (simp_all add: report_active_def)

lemma report_active_keeps:
  "batch_ok issued (report_active go s) = batch_ok issued s" "keeps n s0 (report_active go s) = keeps n s0 s"
  by (simp_all add: batch_ok_def keeps_def answers_def outstanding_def report_active_frame)

lemma admit_batch_keeps:
  assumes ok: "batch_ok issued s" and law: "issues_fresh go issued" and g: "bs_generator s = Some g" and run: "admit_batch go g s = (Inr u, s')"
  shows "batch_ok issued s' \<and> keeps (\<lambda>rid. 0) s s'"
proof (cases "bs_decode_concurrency s \<le> int (length (bs_active s))")
  case True
  then show ?thesis using run ok by (simp add: admit_batch_def keeps_def)
next
  case False
  obtain batch queue where t: "take_batch (bs_prompt_concurrency s) (bs_decode_concurrency s) (length (bs_active s)) [] (bs_pending s) = (batch, queue)"
    by (metis surj_pair)
  note T = take_batch_spec [OF t, simplified]
  show ?thesis
  proof (cases "batch = []")
    case True
    then show ?thesis using run False t ok by (simp add: admit_batch_def keeps_def)
  next
    case ne: False
    let ?jobs = "map (\<lambda>job. job\<lparr>bj_cached := usable_cache job\<rparr>) batch"
    obtain r g' where ins: "insert_text_batch go (map effective_prompt batch) (map (\<lambda>job. tr_max_tokens (bj_request job)) batch)
        (map (\<lambda>job. map_option pc_cache (usable_cache job)) batch)
        (map (\<lambda>job. case usable_cache job of None \<Rightarrow> [] | Some p \<Rightarrow> pc_tokens p) batch)
        (map (\<lambda>job. (tr_temperature (bj_request job), tr_top_p (bj_request job))) batch) g = (r, g')"
      by (rule prod.exhaust)
    obtain uids where u: "r = Inr uids" "check_uids uids (length batch) = None"
      and s': "s' = report_active go (s\<lparr>bs_pending := queue, bs_generator := Some g',
        bs_active := fold (activate (length batch)) (zip ?jobs uids) (bs_active s)\<rparr>)"
      using run False t ne ins by (auto simp: admit_batch_def Let_def split: sum.splits option.splits)
    note fresh = issues_insert [OF law ins [unfolded u(1)]]
    have len: "length uids = length batch" "distinct uids"
      using u(2) by (auto simp: check_uids_def card_distinct split: if_splits)
    have keys: "set (dict_keys (bs_active s)) \<subseteq> issued g" "dict_ok (bs_active s)" using ok g by (simp_all add: batch_ok_def)
    have z: "map snd (zip ?jobs uids) = uids" "map fst (zip ?jobs uids) = ?jobs" using len by simp_all
    have A: "dict_ok (fold (activate (length batch)) (zip ?jobs uids) (bs_active s))"
      "set (dict_keys (fold (activate (length batch)) (zip ?jobs uids) (bs_active s))) = set (dict_keys (bs_active s)) \<union> set uids"
      "length (fold (activate (length batch)) (zip ?jobs uids) (bs_active s)) = length (bs_active s) + length batch"
      "jobs_of rid (fold (activate (length batch)) (zip ?jobs uids) (bs_active s)) =
        jobs_of rid (bs_active s) + length (filter (is_job rid) ?jobs)" for rid
      using activate_all [of "bs_active s" "zip ?jobs uids" "length batch" rid] keys len fresh(2) unfolding z by auto
    have same: "length (filter (is_job rid) ?jobs) = length (filter (is_job rid) batch)" for rid
      by (simp add: filter_map comp_def is_job_def [abs_def])
    have "batch_ok issued s'"
      unfolding s' report_active_keeps using A keys(1) fresh(1,3) T ne by (auto simp: batch_ok_def)
    moreover have "keeps (\<lambda>rid. 0) s s'"
      unfolding s' report_active_keeps using A(4) same T by (simp add: keeps_def answers_def outstanding_def)
    ultimately show ?thesis by blast
  qed
qed

lemma admit_pending_keeps:
  assumes ok: "batch_ok issued s" and law: "issues_fresh go issued" and run: "admit_pending go s = (Inr u, s')"
  shows "batch_ok issued s' \<and> keeps (\<lambda>rid. 0) s s'"
proof (cases "bs_pending s = []")
  case True
  then show ?thesis using run ok by (simp add: admit_pending_def keeps_def)
next
  case False
  show ?thesis
  proof (cases "bs_generator s")
    case (Some g)
    then show ?thesis using admit_batch_keeps [OF ok law Some] run False by (simp add: admit_pending_def)
  next
    case None
    then obtain g where g: "go_make go = Inr g" "admit_batch go g (s\<lparr>bs_generator := Some g\<rparr>) = (Inr u, s')"
      using run False by (auto simp: admit_pending_def split: sum.splits)
    have "batch_ok issued (s\<lparr>bs_generator := Some g\<rparr>)" using ok None by (simp add: batch_ok_def)
    from admit_batch_keeps [OF this law _ g(2)] show ?thesis by (simp add: keeps_def answers_def outstanding_def)
  qed
qed

lemma tick_keeps:
  assumes ok: "batch_ok issued s" and law: "issues_fresh go issued" and run: "batch_tick ctx go ck s = Some (Inr u, s')"
  shows "batch_ok issued s' \<and> keeps (\<lambda>rid. 0) s s'"
proof (cases "bs_generator s")
  case None
  then show ?thesis using run admit_pending_keeps [OF ok law] ok by (auto simp: batch_tick_def keeps_def split: if_splits)
next
  case (Some g)
  show ?thesis
  proof (cases "bs_active s = []")
    case True
    then show ?thesis using run admit_pending_keeps [OF ok law] Some by (auto simp: batch_tick_def)
  next
    case False
    obtain rs g' where nx: "go_next go g = (Inr rs, g')"
      using run Some False by (auto simp: batch_tick_def step_generator_def split: prod.splits sum.splits option.splits)
    let ?s0 = "s\<lparr>bs_generator := Some g'\<rparr>"
    obtain s1 where st: "step_responses ctx go ck rs ?s0 = Some s1" "admit_pending go (report_active go s1) = (Inr u, s')"
      using run Some False nx by (auto simp: batch_tick_def step_generator_def split: option.splits)
    have "issued g \<subseteq> issued g'" using law nx unfolding issues_fresh_def by blast
    then have "batch_ok issued ?s0" using ok Some by (auto simp: batch_ok_def)
    note S = step_responses_keeps [OF this st(1)]
    have k: "keeps (\<lambda>rid. 0) s s1" using S by (simp add: keeps_def answers_def outstanding_def)
    have "batch_ok issued (report_active go s1)" using S by (simp add: report_active_keeps)
    note A = admit_pending_keeps [OF this law st(2)]
    have "keeps (\<lambda>rid. 0 + 0) s s'" by (rule keeps_trans [of _ _ "report_active go s1"]) (use k A in \<open>simp_all add: report_active_keeps\<close>)
    then show ?thesis using A by simp
  qed
qed

lemma run_batch_keeps:
  assumes "batch_ok issued s" "issues_fresh go issued" "run_batch ctx go ck ops s = Some (Inr u, s')"
  shows "batch_ok issued s' \<and> keeps (\<lambda>rid. submits rid ops) s s'"
  using assms
proof (induction ops arbitrary: s)
  case Nil
  then show ?case by (simp add: keeps_def)
next
  case (Cons op ops)
  obtain s1 where one: "run_batch_op ctx go ck op s = Some (Inr (), s1)" and rest: "run_batch ctx go ck ops s1 = Some (Inr u, s')"
    using Cons.prems(3) by (auto split: option.splits sum.splits prod.splits)
  have "batch_ok issued s1 \<and> keeps (\<lambda>rid. submits rid [op]) s s1"
  proof (cases op)
    case (BSubmit request stream)
    then show ?thesis using submit_keeps [OF Cons.prems(1)] one by (simp add: keeps_def)
  next
    case (BCancel rid)
    then show ?thesis using cancel_keeps [OF Cons.prems(1,2)] one by (auto split: prod.splits sum.splits)
  next
    case BTick
    then show ?thesis using tick_keeps [OF Cons.prems(1,2)] one by simp
  qed
  moreover have "submits rid (op # ops) = submits rid [op] + submits rid ops" for rid by (cases op) auto
  ultimately show ?case using Cons.IH [OF _ Cons.prems(2) rest] keeps_trans [of _ s s1 _ s'] by simp
qed

end
