(* ===== verification/BatchComplete.thy ===== *)
theory BatchComplete
  imports Batching PromptCacheProps
begin

text \<open>
  Completing one closed batch, \<^verbatim>\<open>MlxBatchCompletionBackend.complete_many\<close> in
  \<^verbatim>\<open>mlx_worker/batching.py\<close>: one request that is refused refuses the batch, the generator is
  polled until every request has finished (three empty polls in a row raise, but a generator that goes on
  answering about other requests is polled for ever, \<open>None\<close>), then the responses are built in order and
  the caches are remembered.
\<close>

record 'c request_plan =
  rp_prompt :: "token list"
  rp_cached :: "'c cached_prompt option"

definition plan_effective :: "'c request_plan \<Rightarrow> token list" where
  "plan_effective plan = (case rp_cached plan of None \<Rightarrow> rp_prompt plan | Some p \<Rightarrow> drop (length (pc_tokens p)) (rp_prompt plan))"

definition plan_before :: "'c request_plan \<Rightarrow> token list" where
  "plan_before plan = (case rp_cached plan of None \<Rightarrow> [] | Some p \<Rightarrow> pc_tokens p)"

definition plan_request ::
  "batch_context \<Rightarrow> 'c cache_ops \<Rightarrow> text_request \<Rightarrow> ('n, 'c) prompt_store \<Rightarrow> (exn + 'c request_plan) \<times> ('n, 'c) prompt_store" where
  "plan_request ctx ck request store =
     (if tr_model request \<noteq> bc_model_id ctx then (Inl (ValueError (model_mismatch (tr_model request) (bc_model_id ctx))), store)
      else (case bc_build ctx request of
          Inl e \<Rightarrow> (Inl e, store)
        | Inr tokens \<Rightarrow>
            (case validate_token_limits request tokens of
               Inl e \<Rightarrow> (Inl e, store)
             | Inr _ \<Rightarrow>
                 (case store_lookup (ck_trim ck) (ck_bytes ck) tokens [] store of
                    (None, store1) \<Rightarrow> (Inr \<lparr>rp_prompt = tokens, rp_cached = None\<rparr>, store1)
                  | (Some p, store1) \<Rightarrow>
                      (Inr \<lparr>rp_prompt = tokens, rp_cached = (if drop (length (pc_tokens p)) tokens = [] then None else Some p)\<rparr>, store1)))))"

fun plan_all ::
  "batch_context \<Rightarrow> 'c cache_ops \<Rightarrow> text_request list \<Rightarrow> ('n, 'c) prompt_store \<Rightarrow> (exn + 'c request_plan list) \<times> ('n, 'c) prompt_store" where
  "plan_all ctx ck [] store = (Inr [], store)"
| "plan_all ctx ck (request # requests) store =
     (case plan_request ctx ck request store of
        (Inl e, store1) \<Rightarrow> (Inl e, store1)
      | (Inr plan, store1) \<Rightarrow>
          (case plan_all ctx ck requests store1 of
             (Inl e, store2) \<Rightarrow> (Inl e, store2)
           | (Inr plans, store2) \<Rightarrow> (Inr (plan # plans), store2)))"

record 'c collected =
  cl_tokens :: "(nat, token list) dict"
  cl_finish :: "(nat, string) dict"
  cl_caches :: "(nat, 'c list \<times> token list option) dict"
  cl_pending :: "nat list"

definition collect_response :: "'c gen_response \<Rightarrow> 'c collected \<Rightarrow> 'c collected" where
  "collect_response r cl =
     (if gr_uid r \<notin> set (cl_pending cl) then cl
      else (let add = (\<lambda>cl. cl\<lparr>cl_tokens := AList.update (gr_uid r) ((case map_of (cl_tokens cl) (gr_uid r) of None \<Rightarrow> [] | Some ts \<Rightarrow> ts) @ [gr_token r]) (cl_tokens cl)\<rparr>)
            in case gr_finish r of
                 None \<Rightarrow> add cl
               | Some reason \<Rightarrow>
                   (let cl1 = (if reason \<noteq> ''stop'' then add cl else cl);
                        cl2 = cl1\<lparr>cl_finish := AList.update (gr_uid r) reason (cl_finish cl1)\<rparr>;
                        cl3 = (case gr_cache r of None \<Rightarrow> cl2
                               | Some c \<Rightarrow> cl2\<lparr>cl_caches := AList.update (gr_uid r) (c, gr_all_tokens r) (cl_caches cl2)\<rparr>)
                    in cl3\<lparr>cl_pending := filter (\<lambda>uid. uid \<noteq> gr_uid r) (cl_pending cl3)\<rparr>)))"

definition stalled :: "nat list \<Rightarrow> exn" where
  "stalled uids = RuntimeError (''batch generator stalled with pending UIDs: {'' @ join '', '' (map nat_str uids) @ ''}'')"

partial_function (option) poll ::
  "('g, 'c) generator_ops \<Rightarrow> nat \<Rightarrow> 'g \<Rightarrow> 'c collected \<Rightarrow> (exn + 'c collected) option" where
  [code]: "poll go empty_polls g cl =
     (if cl_pending cl = [] then Some (Inr cl)
      else (case go_next go g of
          (Inl e, g') \<Rightarrow> Some (Inl e)
        | (Inr rs, g') \<Rightarrow>
            (if rs = [] then
               (if 3 \<le> Suc empty_polls then Some (Inl (stalled (cl_pending cl))) else poll go (Suc empty_polls) g' cl)
             else poll go 0 g' (fold collect_response rs cl))))"

record batch_completion =
  bo_request_id :: string
  bo_model :: string
  bo_text :: string
  bo_finish :: string
  bo_prompt_tokens :: nat
  bo_completion_tokens :: nat
  bo_cache_hit :: bool
  bo_cached_tokens :: "nat option"
  bo_cache_bytes :: "int option"
  bo_active_bytes :: int
  bo_batch_size :: nat
  bo_entries :: nat
  bo_evictions :: nat

definition completion ::
  "batch_context \<Rightarrow> nat \<Rightarrow> 'c collected \<Rightarrow> nat \<Rightarrow> text_request \<Rightarrow> 'c request_plan \<Rightarrow> ('n, 'c) prompt_store \<Rightarrow> batch_completion" where
  "completion ctx n cl uid request plan store =
     (let generated = (case map_of (cl_tokens cl) uid of None \<Rightarrow> [] | Some ts \<Rightarrow> ts)
      in \<lparr>bo_request_id = tr_request_id request, bo_model = bc_model_id ctx, bo_text = bc_decode ctx generated,
          bo_finish = (case map_of (cl_finish cl) uid of None \<Rightarrow> ''stop'' | Some reason \<Rightarrow> reason),
          bo_prompt_tokens = length (rp_prompt plan), bo_completion_tokens = length generated, bo_cache_hit = (rp_cached plan \<noteq> None),
          bo_cached_tokens = (case rp_cached plan of None \<Rightarrow> None | Some p \<Rightarrow> if length (pc_tokens p) = 0 then None else Some (length (pc_tokens p))),
          bo_cache_bytes = (case rp_cached plan of None \<Rightarrow> None | Some p \<Rightarrow> if pc_bytes p = 0 then None else Some (pc_bytes p)),
          bo_active_bytes = ps_total store, bo_batch_size = n,
          bo_entries = length (ps_entries store), bo_evictions = sst_evictions (stats_snapshot store)\<rparr>)"

definition keep_cache ::
  "'c cache_ops \<Rightarrow> 'c collected \<Rightarrow> nat \<Rightarrow> 'c request_plan \<Rightarrow> ('n, 'c) prompt_store \<Rightarrow> ('n, 'c) prompt_store option" where
  "keep_cache ck cl uid plan store =
     (case map_of (cl_caches cl) uid of
        None \<Rightarrow> Some store
      | Some (c, cached_sequence) \<Rightarrow>
          (let generated = (case map_of (cl_tokens cl) uid of None \<Rightarrow> [] | Some ts \<Rightarrow> ts);
               sequence = (case cached_sequence of Some ts \<Rightarrow> if ts = [] then rp_prompt plan @ generated else ts
                           | None \<Rightarrow> rp_prompt plan @ generated)
           in case prompt_cache_for_prompt_tokens ck c sequence (rp_prompt plan) of
                None \<Rightarrow> Some store
              | Some kept \<Rightarrow> store_remember (ck_bytes ck) (rp_prompt plan) kept [] store))"

fun finish_batch ::
  "batch_context \<Rightarrow> 'c cache_ops \<Rightarrow> nat \<Rightarrow> 'c collected \<Rightarrow> (nat \<times> text_request \<times> 'c request_plan) list \<Rightarrow> ('n, 'c) prompt_store \<Rightarrow>
     (batch_completion list \<times> ('n, 'c) prompt_store) option" where
  "finish_batch ctx ck n cl [] store = Some ([], store)"
| "finish_batch ctx ck n cl ((uid, request, plan) # work) store =
     (case keep_cache ck cl uid plan store of
        None \<Rightarrow> None
      | Some store1 \<Rightarrow>
          (case finish_batch ctx ck n cl work store1 of
             None \<Rightarrow> None
           | Some (outs, store2) \<Rightarrow> Some (completion ctx n cl uid request plan store # outs, store2)))"

definition complete_many ::
  "batch_context \<Rightarrow> ('g, 'c) generator_ops \<Rightarrow> 'c cache_ops \<Rightarrow> text_request list \<Rightarrow> ('n, 'c) prompt_store \<Rightarrow>
     ((exn + batch_completion list) \<times> ('n, 'c) prompt_store) option" where
  "complete_many ctx go ck requests store =
     (if requests = [] then Some (Inr [], store)
      else (case plan_all ctx ck requests store of
        (Inl e, store1) \<Rightarrow> Some (Inl e, store1)
      | (Inr plans, store1) \<Rightarrow>
          (case go_make go of
             Inl e \<Rightarrow> Some (Inl e, store1)
           | Inr g \<Rightarrow>
               (case insert_text_batch go (map plan_effective plans) (map tr_max_tokens requests)
                  (map (\<lambda>plan. map_option pc_cache (rp_cached plan)) plans) (map plan_before plans)
                  (map (\<lambda>request. (tr_temperature request, tr_top_p request)) requests) g of
                  (Inl e, g') \<Rightarrow> Some (Inl e, store1)
                | (Inr uids, g') \<Rightarrow>
                    (case check_uids uids (length requests) of
                       Some e \<Rightarrow> Some (Inl e, store1)
                     | None \<Rightarrow>
                         (case poll go 0 g' \<lparr>cl_tokens = map (\<lambda>uid. (uid, [])) uids, cl_finish = [], cl_caches = [], cl_pending = uids\<rparr> of
                            None \<Rightarrow> None
                          | Some (Inl e) \<Rightarrow> Some (Inl e, store1)
                          | Some (Inr cl) \<Rightarrow>
                              map_option (\<lambda>(outs, store2). (Inr outs, store2))
                                (finish_batch ctx ck (length requests) cl (zip uids (zip requests plans)) store1)))))))"

subsection \<open>A store whose caches stand for their keys\<close>

definition store_sound :: "(token list \<Rightarrow> 'c list \<Rightarrow> bool) \<Rightarrow> ('n, 'c) prompt_store \<Rightarrow> bool" where
  "store_sound good ps \<longleftrightarrow> (\<forall>((namespace, key), cp) \<in> set (ps_entries ps). good key (pc_cache cp))"

lemma lookup_sound:
  assumes "trims (ck_trim ck) good" "store_sound good ps" "store_lookup (ck_trim ck) ib prompt namespace ps = (hit, ps')"
  shows "store_sound good ps' \<and> (\<forall>p. hit = Some p \<longrightarrow> prefix (pc_tokens p) prompt \<and> good (pc_tokens p) (pc_cache p))"
proof -
  have "prefix (pc_tokens p) prompt \<and> good (pc_tokens p) (pc_cache p)"
    if p: "lookup_loop (ck_trim ck) ib namespace prompt (rev (ps_entries ps)) None = Some p" for p
  proof -
    obtain ns key cp where "((ns, key), cp) \<in> set (ps_entries ps)" "candidate (ck_trim ck) ib prompt key cp = Some p"
      using lookup_loop_best [where trim = "ck_trim ck" and item_bytes = ib and namespace = namespace and prompt = prompt and
          es = "rev (ps_entries ps)" and best = None] p by auto
    then show ?thesis using candidate_sound [OF assms(1)] assms(2) unfolding store_sound_def by fastforce
  qed
  then show ?thesis using assms(2,3) by (auto simp: store_lookup_def store_sound_def split: option.splits)
qed

lemma shrink_subset: "shrink ps = Some ps' \<Longrightarrow> set (ps_entries ps') \<subseteq> set (ps_entries ps)"
proof (rule shrink.raw_induct [of "\<lambda>ps ps'. set (ps_entries ps') \<subseteq> set (ps_entries ps)"])
  fix f and x y :: "('a, 'b) prompt_store"
  assume IH: "\<And>z w. f z = Some w \<Longrightarrow> set (ps_entries w) \<subseteq> set (ps_entries (z :: ('a, 'b) prompt_store))"
    and run: "(if over_limit x then f (snd (evict_oldest x)) else Some x) = Some y"
  have "set (ps_entries (snd (evict_oldest x))) \<subseteq> set (ps_entries x)" using evict_oldest_cases [of x] by auto
  then show "set (ps_entries y) \<subseteq> set (ps_entries x)" using IH [of "snd (evict_oldest x)" y] run by (auto split: if_splits)
qed

lemma remember_sound:
  assumes "store_sound good ps" "good sequence cache" "store_remember ib sequence cache namespace ps = Some ps'"
  shows "store_sound good ps'"
proof (cases "cache = [] \<or> ps_max_bytes ps < estimate_cache_bytes ib cache")
  case True
  then show ?thesis using assms(1,3) by (auto simp: store_remember_def split: if_splits)
next
  case False
  then obtain ps1 where s: "shrink (insert_entry ib sequence cache namespace ps) = Some ps1" "ps' = refresh_stats ps1"
    using assms(3) by (auto simp: store_remember_def)
  have "store_sound good (insert_entry ib sequence cache namespace ps)"
    using assms(1,2) by (auto simp: store_sound_def insert_entry_fields set_delete)
  then have "store_sound good ps1" using shrink_subset [OF s(1)] by (auto simp: store_sound_def)
  then show ?thesis by (simp add: s(2) store_sound_def refresh_stats_def)
qed

subsection \<open>The generator's word\<close>

fun stands_for :: "(token list \<Rightarrow> 'c list \<Rightarrow> bool) \<Rightarrow> 'c list option \<Rightarrow> token list \<Rightarrow> bool" where
  "stands_for good None ts \<longleftrightarrow> ts = []"
| "stands_for good (Some c) ts \<longleftrightarrow> good ts c"

text \<open>What the framework documents of a batch generator: a request stands for the tokens of its cache followed by the
  inserted prompt, and a finished response with a cache tells all the tokens the cache stands for, which begin with
  those.  \<open>tracks g own\<close>: in state \<open>g\<close> the request \<open>uid\<close> was inserted with the tokens \<open>own uid\<close>.\<close>

definition answers_truly ::
  "('g, 'c) generator_ops \<Rightarrow> (token list \<Rightarrow> 'c list \<Rightarrow> bool) \<Rightarrow> ('g \<Rightarrow> (nat \<Rightarrow> token list option) \<Rightarrow> bool) \<Rightarrow> bool" where
  "answers_truly go good tracks \<longleftrightarrow> go_takes_all_tokens go \<and>
     (\<forall>g prompts m caches before smp uids g'. go_make go = Inr g \<longrightarrow>
        list_all2 (stands_for good) caches before \<longrightarrow>
        go_insert go prompts m caches (Some before) smp g = (Inr uids, g') \<longrightarrow> length uids = length prompts \<longrightarrow> distinct uids \<longrightarrow>
        tracks g' (map_of (zip uids (map2 (@) before prompts)))) \<and>
     (\<forall>g own rs g'. tracks g own \<longrightarrow> go_next go g = (Inr rs, g') \<longrightarrow> tracks g' own \<and>
        (\<forall>r \<in> set rs. \<forall>c ts. own (gr_uid r) = Some ts \<longrightarrow> gr_cache r = Some c \<longrightarrow>
           (\<exists>all. gr_all_tokens r = Some all \<and> all \<noteq> [] \<and> good all c \<and> prefix ts all)))"

definition caches_true ::
  "(token list \<Rightarrow> 'c list \<Rightarrow> bool) \<Rightarrow> (nat \<Rightarrow> token list option) \<Rightarrow> 'c collected \<Rightarrow> bool" where
  "caches_true good own cl \<longleftrightarrow> (\<forall>uid c s ts. map_of (cl_caches cl) uid = Some (c, s) \<longrightarrow> own uid = Some ts \<longrightarrow>
     (\<exists>all. s = Some all \<and> all \<noteq> [] \<and> good all c \<and> prefix ts all))"

lemma collect_response_true:
  assumes "caches_true good own cl"
    and "\<And>c ts. own (gr_uid r) = Some ts \<Longrightarrow> gr_cache r = Some c \<Longrightarrow> \<exists>all. gr_all_tokens r = Some all \<and> all \<noteq> [] \<and> good all c \<and> prefix ts all"
  shows "caches_true good own (collect_response r cl)"
  using assms
  by (auto simp: caches_true_def collect_response_def Let_def dict_simps split: option.splits if_splits)

lemma collect_all_true:
  assumes "caches_true good own cl"
    and "\<forall>r \<in> set rs. \<forall>c ts. own (gr_uid r) = Some ts \<longrightarrow> gr_cache r = Some c \<longrightarrow>
      (\<exists>all. gr_all_tokens r = Some all \<and> all \<noteq> [] \<and> good all c \<and> prefix ts all)"
  shows "caches_true good own (fold collect_response rs cl)"
  using assms
proof (induction rs arbitrary: cl)
  case (Cons r rs)
  have "caches_true good own (collect_response r cl)" by (rule collect_response_true) (use Cons.prems in auto)
  then show ?case using Cons by simp
qed simp

lemma answers_insert:
  assumes "answers_truly go good tracks" "go_make go = Inr g" "list_all2 (stands_for good) caches before"
    and "insert_text_batch go prompts m caches before smp g = (Inr uids, g')" "length uids = length prompts" "distinct uids"
  shows "tracks g' (map_of (zip uids (map2 (@) before prompts)))"
proof -
  have "go_insert go prompts m caches (Some before) smp g = (Inr uids, g')"
    using assms(1,4) by (simp add: insert_text_batch_def answers_truly_def)
  from assms(1) [unfolded answers_truly_def, THEN conjunct2, THEN conjunct1, rule_format, OF assms(2,3) this assms(5,6)]
  show ?thesis .
qed

lemma answers_next:
  assumes "answers_truly go good tracks" "tracks g own" "go_next go g = (Inr rs, g')"
  shows "tracks g' own \<and> (\<forall>r \<in> set rs. \<forall>c ts. own (gr_uid r) = Some ts \<longrightarrow> gr_cache r = Some c \<longrightarrow>
    (\<exists>all. gr_all_tokens r = Some all \<and> all \<noteq> [] \<and> good all c \<and> prefix ts all))"
  by (rule assms(1) [unfolded answers_truly_def, THEN conjunct2, THEN conjunct2, rule_format, OF assms(2,3)])

lemma poll_true:
  fixes go :: "('g, 'c) generator_ops"
  assumes "answers_truly go good tracks" "poll go n g cl = Some res" "tracks g own" "caches_true good own cl" "res = Inr cl'"
  shows "caches_true good own cl'"
proof -
  define P where "P = (\<lambda>(go' :: ('g, 'c) generator_ops) (n :: nat) g cl (res :: exn + 'c collected). go' = go \<longrightarrow> tracks g own \<longrightarrow> caches_true good own cl \<longrightarrow>
    (\<forall>cl'. res = Inr cl' \<longrightarrow> caches_true good own cl'))"
  have "P go n g cl res"
  proof (rule poll.raw_induct [OF _ assms(2)])
    fix f go' n' g1 cl1 res1
    assume IH: "\<And>go'' n'' g'' cl'' res''. f go'' n'' g'' cl'' = Some res'' \<Longrightarrow> P go'' n'' g'' cl'' res''"
      and run: "(if cl_pending cl1 = [] then Some (Inr cl1)
      else (case go_next go' g1 of
          (Inl e, g') \<Rightarrow> Some (Inl e)
        | (Inr rs, g') \<Rightarrow>
            (if rs = [] then
               (if 3 \<le> Suc n' then Some (Inl (stalled (cl_pending cl1))) else f go' (Suc n') g' cl1)
             else f go' 0 g' (fold collect_response rs cl1)))) = Some res1"
    show "P go' n' g1 cl1 res1"
    proof (cases "cl_pending cl1 = []")
      case True
      then have "res1 = Inr cl1" using run by simp
      then show ?thesis by (auto simp: P_def)
    next
      case pending': False
      obtain r g' where nx: "go_next go' g1 = (r, g')" by (rule prod.exhaust)
      show ?thesis
      proof (cases r)
        case (Inl e)
        then show ?thesis using run pending' nx by (auto simp: P_def)
      next
        case (Inr rs)
        have law: "tracks g' own" "caches_true good own (fold collect_response rs cl1)"
          if "go' = go" "tracks g1 own" "caches_true good own cl1"
        proof -
          have "go_next go g1 = (Inr rs, g')" using nx Inr that(1) by simp
          note N = answers_next [OF assms(1) that(2) this]
          show "tracks g' own" using N by blast
          show "caches_true good own (fold collect_response rs cl1)" using collect_all_true [OF that(3)] N by blast
        qed
        show ?thesis
        proof (cases "rs = []")
          case False
          then have "P go' 0 g' (fold collect_response rs cl1) res1" using IH run pending' nx Inr by simp
          then show ?thesis using law by (simp add: P_def)
        next
          case True
          then have "(if 3 \<le> Suc n' then Some (Inl (stalled (cl_pending cl1))) else f go' (Suc n') g' cl1) = Some res1"
            using run pending' nx Inr by simp
          then show ?thesis using IH [of go' "Suc n'" g' cl1 res1] law(1) unfolding P_def by (auto split: if_splits)
        qed
      qed
    qed
  qed
  then show ?thesis using assms by (simp add: P_def)
qed

lemma plan_request_sound:
  assumes "trims (ck_trim ck) good" "store_sound good ps" "plan_request ctx ck request ps = (res, ps')"
  shows "store_sound good ps' \<and> (\<forall>plan. res = Inr plan \<longrightarrow> plan_before plan @ plan_effective plan = rp_prompt plan \<and>
    stands_for good (map_option pc_cache (rp_cached plan)) (plan_before plan))"
proof (cases "\<exists>tokens. tr_model request = bc_model_id ctx \<and> bc_build ctx request = Inr tokens \<and> validate_token_limits request tokens = Inr ()")
  case False
  then have "ps' = ps \<and> (\<exists>e. res = Inl e)" using assms(3) by (auto simp: plan_request_def split: if_splits sum.splits)
  then show ?thesis using assms(2) by auto
next
  case True
  then obtain tokens where t: "tr_model request = bc_model_id ctx" "bc_build ctx request = Inr tokens" "validate_token_limits request tokens = Inr ()"
    by blast
  obtain hit ps1 where l: "store_lookup (ck_trim ck) (ck_bytes ck) tokens [] ps = (hit, ps1)" by (rule prod.exhaust)
  note L = lookup_sound [OF assms(1,2) l]
  show ?thesis
    using assms(3) t l L by (cases hit) (auto simp: plan_request_def plan_before_def plan_effective_def prefix_def)
qed

lemma plan_all_sound:
  assumes "trims (ck_trim ck) good" "store_sound good ps" "plan_all ctx ck requests ps = (res, ps')"
  shows "store_sound good ps' \<and> (\<forall>plans. res = Inr plans \<longrightarrow> length plans = length requests \<and>
    map2 (@) (map plan_before plans) (map plan_effective plans) = map rp_prompt plans \<and>
    list_all2 (stands_for good) (map (\<lambda>plan. map_option pc_cache (rp_cached plan)) plans) (map plan_before plans))"
  using assms(2,3)
proof (induction requests arbitrary: ps res ps')
  case (Cons request requests)
  obtain r1 ps1 where one: "plan_request ctx ck request ps = (r1, ps1)" by (rule prod.exhaust)
  note P = plan_request_sound [OF assms(1) Cons.prems(1) one]
  show ?case
  proof (cases r1)
    case (Inl e)
    then show ?thesis using P one Cons.prems(2) by auto
  next
    case (Inr plan)
    obtain r2 ps2 where rest: "plan_all ctx ck requests ps1 = (r2, ps2)" by (rule prod.exhaust)
    have "store_sound good ps1" using P by blast
    note R = Cons.IH [OF this rest]
    show ?thesis
    proof (cases r2)
      case (Inl e)
      then show ?thesis using R one rest Inr Cons.prems(2) by auto
    next
      case (Inr plans)
      then show ?thesis using R P one rest \<open>r1 = Inr plan\<close> Cons.prems(2) by auto
    qed
  qed
qed auto

lemma keep_cache_sound:
  assumes "trims (ck_trim ck) good" "store_sound good ps" "caches_true good own cl" "own uid = Some (rp_prompt plan)"
    and "keep_cache ck cl uid plan ps = Some ps'"
  shows "store_sound good ps'"
proof (cases "map_of (cl_caches cl) uid")
  case None
  then show ?thesis using assms(2,5) by (simp add: keep_cache_def)
next
  case (Some cs)
  then obtain c s where cs: "map_of (cl_caches cl) uid = Some (c, s)" by (cases cs) auto
  then obtain all where all: "s = Some all" "all \<noteq> []" "good all c" "prefix (rp_prompt plan) all"
    using assms(3,4) unfolding caches_true_def by blast
  have le: "length (rp_prompt plan) \<le> length all" using all(4) prefix_length_le by blast
  show ?thesis
  proof (cases "prompt_cache_for_prompt_tokens ck c all (rp_prompt plan)")
    case None
    then show ?thesis using assms(2,5) cs all(1,2) by (simp add: keep_cache_def)
  next
    case (Some kept)
    then have r: "store_remember (ck_bytes ck) (rp_prompt plan) kept [] ps = Some ps'" using assms(5) cs all(1,2) by (simp add: keep_cache_def)
    have "good (rp_prompt plan) kept"
    proof (cases "length all = length (rp_prompt plan)")
      case True
      then have "all = rp_prompt plan" using all(4) by (auto simp: prefix_def)
      then show ?thesis using Some all(3) by (simp add: prompt_cache_for_prompt_tokens_def)
    next
      case False
      then have t: "ck_trim ck c (length all - length (rp_prompt plan)) = Some kept"
        using Some le by (simp add: prompt_cache_for_prompt_tokens_def Let_def nat_diff_distrib split: if_splits)
      have "good (take (length all - (length all - length (rp_prompt plan))) all) kept"
        using assms(1) all(3) t unfolding trims_def by (meson diff_le_self)
      then show ?thesis using le all(4) by (auto simp: prefix_def)
    qed
    then show ?thesis by (rule remember_sound [OF assms(2) _ r])
  qed
qed

lemma finish_batch_sound:
  assumes "trims (ck_trim ck) good" "caches_true good own cl" "store_sound good ps"
    and "\<forall>(uid, request, plan) \<in> set work. own uid = Some (rp_prompt plan)" "finish_batch ctx ck n cl work ps = Some (outs, ps')"
  shows "store_sound good ps' \<and> map bo_request_id outs = map (\<lambda>(uid, request, plan). tr_request_id request) work"
  using assms(3-)
proof (induction work arbitrary: ps outs)
  case (Cons w work)
  obtain uid request plan where w: "w = (uid, request, plan)" by (rule prod_cases3)
  obtain ps1 where k: "keep_cache ck cl uid plan ps = Some ps1" using Cons.prems(3) by (auto simp: w split: option.splits)
  obtain outs1 where r: "finish_batch ctx ck n cl work ps1 = Some (outs1, ps')" "outs = completion ctx n cl uid request plan ps # outs1"
    using Cons.prems(3) k by (auto simp: w split: option.splits)
  have "store_sound good ps1" by (rule keep_cache_sound [OF assms(1) Cons.prems(1) assms(2) _ k]) (use Cons.prems(2) w in simp)
  from Cons.IH [OF this _ r(1)] show ?case using Cons.prems(2) r(2) w by (auto simp: completion_def Let_def)
qed simp

lemma complete_many_sound:
  fixes good :: "token list \<Rightarrow> 'c list \<Rightarrow> bool"
  assumes "trims (ck_trim ck) good" and law: "answers_truly go good tracks" and "store_sound good ps"
    and run: "complete_many ctx go ck requests ps = Some (res, ps')"
  shows "store_sound good ps' \<and> (\<forall>outs. res = Inr outs \<longrightarrow> map bo_request_id outs = map tr_request_id requests)"
proof (cases "requests = []")
  case True
  then show ?thesis using run assms(3) by (auto simp: complete_many_def)
next
  case ne: False
  obtain r ps1 where p: "plan_all ctx ck requests ps = (r, ps1)" by (rule prod.exhaust)
  note P = plan_all_sound [OF assms(1,3) p]
  show ?thesis
  proof (cases "\<exists>plans g. r = Inr plans \<and> go_make go = Inr g")
    case False
    then have "ps' = ps1 \<and> (\<exists>e. res = Inl e)" using run ne p by (auto simp: complete_many_def split: sum.splits)
    then show ?thesis using P by auto
  next
    case True
    then obtain plans g where g: "r = Inr plans" "go_make go = Inr g" by blast
    obtain r2 g' where ins: "insert_text_batch go (map plan_effective plans) (map tr_max_tokens requests)
        (map (\<lambda>plan. map_option pc_cache (rp_cached plan)) plans) (map plan_before plans)
        (map (\<lambda>request. (tr_temperature request, tr_top_p request)) requests) g = (r2, g')" by (rule prod.exhaust)
    show ?thesis
    proof (cases "\<exists>uids. r2 = Inr uids \<and> check_uids uids (length requests) = None")
      case False
      then have "ps' = ps1 \<and> (\<exists>e. res = Inl e)" using run ne p g ins by (auto simp: complete_many_def split: sum.splits option.splits)
      then show ?thesis using P by auto
    next
      case True
      then obtain uids where u: "r2 = Inr uids" "check_uids uids (length requests) = None" by blast
      have len: "length uids = length requests" "distinct uids" "length plans = length requests"
        using u(2) P g(1) by (auto simp: check_uids_def card_distinct split: if_splits)
      let ?own = "map_of (zip uids (map rp_prompt plans))"
      let ?start = "\<lparr>cl_tokens = map (\<lambda>uid. (uid, [])) uids, cl_finish = [], cl_caches = [], cl_pending = uids\<rparr> :: 'c collected"
      have plans: "map2 (@) (map plan_before plans) (map plan_effective plans) = map rp_prompt plans"
        "list_all2 (stands_for good) (map (\<lambda>plan. map_option pc_cache (rp_cached plan)) plans) (map plan_before plans)"
        using P g(1) by blast+
      have tracks: "tracks g' ?own"
        using answers_insert [OF law g(2) plans(2) ins [unfolded u(1)]] len unfolding plans(1) by simp
      have start: "caches_true good ?own ?start" by (simp add: caches_true_def)
      obtain r3 where poll: "poll go 0 g' ?start = Some r3" using run ne p g ins u by (auto simp: complete_many_def split: option.splits)
      show ?thesis
      proof (cases r3)
        case (Inl e)
        then show ?thesis using run ne p g ins u poll P by (auto simp: complete_many_def)
      next
        case (Inr cl)
        have cl: "caches_true good ?own cl" by (rule poll_true [OF law poll tracks start Inr])
        obtain outs where f: "finish_batch ctx ck (length requests) cl (zip uids (zip requests plans)) ps1 = Some (outs, ps')" "res = Inr outs"
          using run ne p g ins u poll Inr by (auto simp: complete_many_def)
        have own: "\<forall>(uid, request, plan) \<in> set (zip uids (zip requests plans)). ?own uid = Some (rp_prompt plan)"
          using len by (auto simp: set_zip map_of_zip_nth)
        have ps1: "store_sound good ps1" using P by blast
        have "map (\<lambda>(uid, request, plan). tr_request_id request) (zip uids (zip requests plans)) = map tr_request_id requests"
          using len by (intro nth_equalityI) auto
        then show ?thesis using finish_batch_sound [OF assms(1) cl ps1 own f(1)] f(2) by simp
      qed
    qed
  qed
qed

end
