(* ===== verification/BatchServe.thy ===== *)
theory BatchServe
  imports BatchProps BatchComplete
begin

text \<open>
  The theorems on the v1 scheduler, with a generator, a tokenizer and a trimming of caches at which they are evaluated,
  and what its streaming and its cache keys do.
\<close>

subsection \<open>A small backend\<close>

definition plain_request :: "string \<Rightarrow> text_request" where
  "plain_request rid = \<lparr>tr_request_id = rid, tr_model = ''m'', tr_messages = [], tr_max_tokens = 4, tr_temperature = 0, tr_top_p = 1,
     tr_max_prompt_tokens = 100, tr_max_completion_tokens = 100, tr_max_total_tokens = 100, tr_stop = [], tr_stream = True\<rparr>"

definition sample_prompt :: "string \<Rightarrow> token list" where
  "sample_prompt rid = (if rid = ''a'' then [1] else if rid = ''b'' then [1, 2] else [1, 1, 2, 3])"

definition sample_context :: batch_context where
  "sample_context = \<lparr>bc_model_id = ''m'', bc_build = (\<lambda>q. Inr (sample_prompt (tr_request_id q))), bc_decode = (\<lambda>ts. map (\<lambda>t. CHR 0x61) ts)\<rparr>"

text \<open>A generator over caches that are the tokens they stand for: every request is answered by one token.\<close>

type_synonym toy = "nat \<times> (nat \<times> token list) list"

definition toy_generator :: "(toy, token) generator_ops" where
  "toy_generator =
     \<lparr>go_make = Inr (0, []),
      go_next = (\<lambda>(k, live). (Inr (map (\<lambda>(uid, ts). \<lparr>gr_uid = uid, gr_token = 7, gr_finish = Some ''length'',
         gr_cache = Some (ts @ [7]), gr_all_tokens = Some (ts @ [7])\<rparr>) live), (k, []))),
      go_takes_all_tokens = True,
      go_insert = (\<lambda>prompts m caches before smp (k, live).
         (Inr [k..<k + length prompts],
          (k + length prompts, live @ zip [k..<k + length prompts] (map2 (@) (case before of None \<Rightarrow> [] | Some b \<Rightarrow> b) prompts)))),
      go_remove = (\<lambda>uids (k, live). (Inr (), (k, filter (\<lambda>(uid, ts). uid \<notin> set uids) live))),
      go_nbytes = (\<lambda>(k, live). 0)\<rparr>"

definition toy_caches :: "token cache_ops" where
  "toy_caches = \<lparr>ck_bytes = (\<lambda>c. 1), ck_trim = (\<lambda>c n. Some (take (length c - n) c))\<rparr>"

definition sample_batch_ops :: "batch_op list" where
  "sample_batch_ops = [BSubmit (plain_request ''a'') True, BTick, BTick, BSubmit (plain_request ''b'') True, BTick, BTick]"

definition sample_batch :: "(toy, nat, token) batch_scheduler" where
  "sample_batch = new_batch_scheduler 2 2 None None None (new_store 8 100)"

lemma toy_issues_fresh: "issues_fresh toy_generator (\<lambda>(k, live). {..<k})"
  by (auto simp: issues_fresh_def toy_generator_def)

subsection \<open>Every request is answered once\<close>

lemma new_batch_ok: "batch_ok issued (new_batch_scheduler pc dc manager cp cd store)"
  by (simp add: batch_ok_def new_batch_scheduler_def)

text \<open>C29: From a new scheduler, whatever the sequence of submissions, cancellations and ticks, as long as no call raises
  and the generator's identifiers are fresh, the terminal events sent for a request identifier and its requests still pending or
  active are together exactly the submissions of it: no request is dropped, and none is answered twice.\<close>

theorem every_batch_request_is_answered_once:
  assumes "issues_fresh go issued"
    and "run_batch ctx go ck ops (new_batch_scheduler pc dc manager cp cd store) = Some (Inr (), s')"
  shows "answers rid s' + outstanding rid s' = submits rid ops"
  using run_batch_keeps [OF new_batch_ok assms]
  by (simp add: keeps_def answers_def outstanding_def new_batch_scheduler_def)

text \<open>The decode batch never grows past \<open>decode_concurrency\<close> (at least zero), whatever is submitted.\<close>

theorem decode_batch_is_bounded:
  assumes "issues_fresh go issued"
    and "run_batch ctx go ck ops (new_batch_scheduler pc dc manager cp cd store) = Some (Inr (), s')"
  shows "int (length (bs_active s')) \<le> max 0 dc"
  using run_batch_keeps [OF new_batch_ok assms]
  unfolding keeps_def batch_ok_def by (auto simp: new_batch_scheduler_def)

definition sample_end :: "(toy, nat, token) batch_scheduler" where
  "sample_end = (case run_batch sample_context toy_generator toy_caches sample_batch_ops sample_batch of Some (Inr _, s) \<Rightarrow> s | _ \<Rightarrow> sample_batch)"

lemma sample_run:
  "run_batch sample_context toy_generator toy_caches sample_batch_ops sample_batch = Some (Inr (), sample_end)"
proof -
  have "(case run_batch sample_context toy_generator toy_caches sample_batch_ops sample_batch of Some (Inr _, s) \<Rightarrow> True | _ \<Rightarrow> False)"
    by code_simp
  then show ?thesis by (auto simp: sample_end_def split: option.splits sum.splits prod.splits)
qed

theorem every_batch_request_is_answered_once_witness:
  "answers ''b'' sample_end = 1 \<and> answers ''b'' sample_end + outstanding ''b'' sample_end = submits ''b'' sample_batch_ops"
  using every_batch_request_is_answered_once [OF toy_issues_fresh sample_run [unfolded sample_batch_def], of "''b''"]
  by (intro conjI) (code_simp, blast)

definition sample_burst :: "batch_op list" where
  "sample_burst = map (\<lambda>k. BSubmit (plain_request ''a'') True) [0..<5] @ [BTick]"

definition sample_full :: "(toy, nat, token) batch_scheduler" where
  "sample_full = (case run_batch sample_context toy_generator toy_caches sample_burst sample_batch of Some (Inr _, s) \<Rightarrow> s | _ \<Rightarrow> sample_batch)"

lemma sample_burst_run: "run_batch sample_context toy_generator toy_caches sample_burst sample_batch = Some (Inr (), sample_full)"
proof -
  have "(case run_batch sample_context toy_generator toy_caches sample_burst sample_batch of Some (Inr _, s) \<Rightarrow> True | _ \<Rightarrow> False)"
    by code_simp
  then show ?thesis by (auto simp: sample_full_def split: option.splits sum.splits prod.splits)
qed

theorem decode_batch_is_bounded_witness: "length (bs_active sample_full) = 2 \<and> int (length (bs_active sample_full)) \<le> max 0 2"
  using decode_batch_is_bounded [OF toy_issues_fresh sample_burst_run [unfolded sample_batch_def]]
  by (intro conjI) (code_simp, blast)

subsection \<open>Streaming\<close>

fun deltas :: "string \<Rightarrow> batch_event list \<Rightarrow> string" where
  "deltas rid [] = []"
| "deltas rid (BatchDelta i chunk # evs) = (if i = rid then chunk @ deltas rid evs else deltas rid evs)"
| "deltas rid (ev # evs) = deltas rid evs"

lemma deltas_append [simp]: "deltas rid (xs @ ys) = deltas rid xs @ deltas rid ys"
  by (induction rid xs rule: deltas.induct) auto

text \<open>The tokens of a job arriving one by one, as \<open>step_responses\<close> hands them to \<open>emit_delta\<close>.\<close>

fun stream_tokens :: "batch_context \<Rightarrow> token list \<Rightarrow> 'c batch_job \<Rightarrow> ('g, 'n, 'c) batch_scheduler \<Rightarrow> 'c batch_job \<times> ('g, 'n, 'c) batch_scheduler" where
  "stream_tokens ctx [] job s = (job, s)"
| "stream_tokens ctx (t # ts) job s =
     (case emit_delta ctx (job\<lparr>bj_generated := bj_generated job @ [t]\<rparr>) s of (job1, s1) \<Rightarrow> stream_tokens ctx ts job1 s1)"

lemma emit_delta_grows:
  assumes "bj_stream job" "prefix (bj_rendered job) (bc_decode ctx (bj_generated job))" "emit_delta ctx job s = (job', s')"
  shows "bj_rendered job @ deltas (tr_request_id (bj_request job)) (bs_out s') =
      bj_rendered job @ deltas (tr_request_id (bj_request job)) (bs_out s) @ drop (length (bj_rendered job)) (bj_rendered job')"
    and "bj_rendered job' = bc_decode ctx (bj_generated job)" "bj_generated job' = bj_generated job"
    "bj_request job' = bj_request job" "bj_stream job'"
  using assms by (auto simp: emit_delta_def Let_def send_def)


definition sample_job :: "token batch_job" where
  "sample_job = new_job (plain_request ''a'') True [1] None"


text \<open>A decoder whose first token is an incomplete character, shown by a replacement character until the second token
  completes it.\<close>

definition byte_context :: batch_context where
  "byte_context = \<lparr>bc_model_id = ''m'', bc_build = (\<lambda>q. Inr [1]),
     bc_decode = (\<lambda>ts. if ts = [1] then ''?'' else if ts = [1, 2] then ''e'' else [])\<rparr>"

text \<open>When a token completes a character that the decoder showed as a replacement character, the whole text is sent
  again instead of what it grew by: the client's deltas spell the replacement character and then the text,
  while the final response has the text alone.\<close>

theorem partial_character_is_sent_twice:
  "let (job, s) = stream_tokens byte_context [1, 2] sample_job sample_batch
   in deltas ''a'' (bs_out s) = ''?e'' \<and> bj_rendered job = ''e''"
  by code_simp

subsection \<open>What a finished request leaves in the prompt cache\<close>

text \<open>A job that was admitted with a cached prompt \<open>p\<close> of its own prompt finishes, and the framework returns a cache of
  the whole sequence, prompt and generated tokens (\<open>stands c = prompt @ generated\<close>).  The key the cache is kept under repeats the
  cached prompt in front of the prompt; with at least as many generated tokens as cached ones, the cache is kept, trimmed
  to rows for the prompt followed by the first generated tokens.  So the entry's rows are not those of its key, unless
  generation happened to make them equal.\<close>

lemma finished_cache_has_the_wrong_key:
  assumes "\<And>c n. \<exists>c'. ck_trim ck c n = Some c' \<and> stands c' = take (length (stands c) - n) (stands c)"
    and "bj_cached job = Some p" "stands c = bj_prompt job @ generated" "length (pc_tokens p) \<le> length generated"
  shows "\<exists>kept. prompt_cache_for_prompt_tokens ck c (bj_prompt job @ generated) (finished_key job) = Some kept \<and>
      stands kept = bj_prompt job @ take (length (pc_tokens p)) generated \<and> finished_key job = pc_tokens p @ bj_prompt job"
proof -
  have key: "finished_key job = pc_tokens p @ bj_prompt job" using assms(2) by (simp add: finished_key_def)
  let ?n = "length generated - length (pc_tokens p)"
  have n: "int (length (bj_prompt job @ generated)) - int (length (finished_key job)) = int ?n" using assms(4) by (simp add: key)
  show ?thesis
  proof (cases "?n = 0")
    case True
    then show ?thesis using assms(3,4) n key by (auto simp: prompt_cache_for_prompt_tokens_def Let_def)
  next
    case False
    obtain c' where "ck_trim ck c ?n = Some c'" "stands c' = take (length (stands c) - ?n) (stands c)" using assms(1) by blast
    moreover have "nat (int (length (bj_prompt job @ generated)) - int (length (finished_key job))) = ?n" unfolding n by simp
    ultimately show ?thesis using False assms(3,4) n key by (simp add: prompt_cache_for_prompt_tokens_def Let_def)
  qed
qed

definition sample_second :: "token batch_job" where
  "sample_second = new_job (plain_request ''b'') True [1, 2] (map_of (ps_entries (bs_store sample_end)) ([], [1]))"

lemma finished_cache_has_the_wrong_key_witness:
  "map_option (\<lambda>q. (pc_tokens q, pc_cache q)) (fst (store_lookup (ck_trim toy_caches) (ck_bytes toy_caches) [1, 1, 2, 3] [] (bs_store sample_end))) =
     Some ([1, 1, 2], [1, 2, 7]) \<and>
   prompt_cache_for_prompt_tokens toy_caches [1, 2, 7] [1, 2, 7] (finished_key sample_second) = Some [1, 2, 7] \<and>
   finished_key sample_second = [1, 1, 2]"
proof -
  let ?p = "\<lparr>pc_tokens = [1], pc_cache = [1], pc_bytes = 1, pc_kind = Exact\<rparr> :: token cached_prompt"
  have cached: "bj_cached sample_second = Some ?p" and prompt: "bj_prompt sample_second = [1, 2]" by code_simp+
  have "\<exists>kept. prompt_cache_for_prompt_tokens toy_caches [1, 2, 7] (bj_prompt sample_second @ [7]) (finished_key sample_second) = Some kept \<and>
      id kept = bj_prompt sample_second @ take (length (pc_tokens ?p)) [7] \<and>
      finished_key sample_second = pc_tokens ?p @ bj_prompt sample_second"
    by (rule finished_cache_has_the_wrong_key [where stands = id, OF _ cached]) (simp_all add: toy_caches_def prompt)
  then obtain kept where kept: "prompt_cache_for_prompt_tokens toy_caches [1, 2, 7] (bj_prompt sample_second @ [7]) (finished_key sample_second) = Some kept"
      "id kept = bj_prompt sample_second @ take (length (pc_tokens ?p)) [7]"
      "finished_key sample_second = pc_tokens ?p @ bj_prompt sample_second" by blast
  have "kept = [1, 2, 7]" "finished_key sample_second = [1, 1, 2]" "bj_prompt sample_second @ [7] = [1, 2, 7]" using kept(2,3) by (simp_all add: prompt)
  then have "prompt_cache_for_prompt_tokens toy_caches [1, 2, 7] [1, 2, 7] (finished_key sample_second) = Some [1, 2, 7] \<and>
    finished_key sample_second = [1, 1, 2]"
    using kept(1) by metis
  moreover have "map_option (\<lambda>q. (pc_tokens q, pc_cache q))
      (fst (store_lookup (ck_trim toy_caches) (ck_bytes toy_caches) [1, 1, 2, 3] [] (bs_store sample_end))) = Some ([1, 1, 2], [1, 2, 7])"
    by code_simp
  ultimately show ?thesis by blast
qed

subsection \<open>A closed batch\<close>

definition toy_good :: "token list \<Rightarrow> token list \<Rightarrow> bool" where
  "toy_good ts c \<longleftrightarrow> c = ts"

definition toy_tracks :: "toy \<Rightarrow> (nat \<Rightarrow> token list option) \<Rightarrow> bool" where
  "toy_tracks g own \<longleftrightarrow> (\<forall>(uid, ts) \<in> set (snd g). own uid = Some ts)"

lemma toy_answers_truly: "answers_truly toy_generator toy_good toy_tracks"
  unfolding answers_truly_def
proof (intro conjI allI impI)
  show "go_takes_all_tokens toy_generator" by (simp add: toy_generator_def)
next
  fix g g' :: toy and prompts before caches and m :: "int list" and smp :: "(rat \<times> rat) list" and uids
  assume g: "go_make toy_generator = Inr g" and ins: "go_insert toy_generator prompts m caches (Some before) smp g = (Inr uids, g')"
    and "length uids = length prompts" "distinct uids"
  have "uids = [0..<length prompts]" "snd g' = zip uids (map2 (@) before prompts)"
    using g ins by (auto simp: toy_generator_def)
  then show "toy_tracks g' (map_of (zip uids (map2 (@) before prompts)))"
    using \<open>distinct uids\<close> by (auto simp: toy_tracks_def map_fst_zip_take intro!: map_of_is_SomeI)
next
  fix g g' :: toy and own rs
  assume t: "toy_tracks g own" and nx: "go_next toy_generator g = (Inr rs, g')"
  show "toy_tracks g' own" using nx by (cases g) (auto simp: toy_generator_def toy_tracks_def)
  show "\<forall>r \<in> set rs. \<forall>c ts. own (gr_uid r) = Some ts \<longrightarrow> gr_cache r = Some c \<longrightarrow>
    (\<exists>all. gr_all_tokens r = Some all \<and> all \<noteq> [] \<and> toy_good all c \<and> prefix ts all)"
    using nx t by (cases g) (fastforce simp: toy_generator_def toy_tracks_def toy_good_def)
qed


definition after_a :: "(nat, token) prompt_store" where
  "after_a = bs_store (case run_batch sample_context toy_generator toy_caches [BSubmit (plain_request ''a'') True, BTick, BTick] sample_batch of
     Some (Inr _, s) \<Rightarrow> s | _ \<Rightarrow> sample_batch)"


end
