(* ===== verification/Config.thy ===== *)
theory Config
  imports Scheduler Ipc PromptCache
begin

text \<open>
  The worker's configuration, \<^verbatim>\<open>mlx_worker/config.py\<close>: a map of environment variables is read
  into a typed record or refused.  The order of the reads is the code's, so the exception raised is that of
  the first bad variable.  
\<close>

subsection \<open>Reading variables\<close>

type_synonym environment = "string \<Rightarrow> string option"

definition env_get :: "environment \<Rightarrow> string \<Rightarrow> string \<Rightarrow> string" where
  "env_get env name fallback = (case env name of None \<Rightarrow> fallback | Some v \<Rightarrow> v)"

definition read_int :: "string \<Rightarrow> exn + int" where
  "read_int s = (case py_int s of
     None \<Rightarrow> Inl (ValueError (''invalid literal for int() with base 10: '' @ py_repr s)) | Some n \<Rightarrow> Inr n)"

definition load_bool :: "environment \<Rightarrow> string \<Rightarrow> string \<Rightarrow> bool" where
  "load_bool env name fallback \<longleftrightarrow> lower (strip (env_get env name fallback)) \<in> {''1'', ''true'', ''yes'', ''on''}"

definition load_int_with_alias :: "environment \<Rightarrow> string \<Rightarrow> string option \<Rightarrow> int \<Rightarrow> exn + int" where
  "load_int_with_alias env name alias fallback =
     (case env name of
        Some v \<Rightarrow> read_int v
      | None \<Rightarrow> (case alias of
            None \<Rightarrow> Inr fallback
          | Some a \<Rightarrow> (case env a of None \<Rightarrow> Inr fallback | Some v \<Rightarrow> read_int v)))"

definition default_backend_id :: string where
  "default_backend_id = ''native-metal-paged-sdpa''"

definition backend_ids :: "string list" where
  "backend_ids = [default_backend_id]"

subsection \<open>The configuration\<close>

record worker_config =
  wc_socket_path :: string
  wc_model :: string
  wc_backend :: string
  wc_vlm_model :: "string option"
  wc_max_vlm_images :: int
  wc_continuous_batching :: bool
  wc_prompt_concurrency :: int
  wc_decode_concurrency :: int
  wc_prefill_chunk_size :: int
  wc_text_prompt :: int
  wc_text_decode :: int
  wc_text_chunk :: int
  wc_vlm_prompt :: int
  wc_vlm_decode :: int
  wc_vlm_chunk :: int
  wc_text_cache_bytes :: int
  wc_text_cache_entries :: int
  wc_page_size :: int
  wc_execution_backend :: string
  wc_execution_mode :: string
  wc_prefix_strategy :: string
  wc_policy :: string
  wc_graph_profile :: bool
  wc_pipeline_profile :: bool
  wc_pipeline_profile_dir :: "string option"
  wc_vlm_apc_bytes :: int
  wc_vlm_apc_entries :: int
  wc_vision_bytes :: int
  wc_vision_entries :: int

definition require :: "bool \<Rightarrow> string \<Rightarrow> exn + unit" where
  "require ok message = (if ok then Inr () else Inl (ValueError message))"

definition load_config :: "environment \<Rightarrow> exn + worker_config" where
  "load_config env =
     (let raw_vlm = env_get env ''MLX_RUNTIME_VLM_MODEL'' [];
          vlm_model = (if strip raw_vlm \<noteq> [] then Some raw_vlm else None);
          stripped = strip (env_get env ''MLX_RUNTIME_BACKEND'' ''v1'');
          backend = (if stripped \<noteq> [] then stripped else ''v1'');
          continuous = load_bool env ''MLX_RUNTIME_CONTINUOUS_BATCHING'' ''0'';
          alias = load_int_with_alias env
      in and_then (read_int (env_get env ''MLX_RUNTIME_MAX_VLM_IMAGES'' ''5'')) (\<lambda>max_vlm_images.
         and_then (read_int (env_get env ''MLX_RUNTIME_PROMPT_CONCURRENCY'' ''4'')) (\<lambda>prompt_concurrency.
         and_then (read_int (env_get env ''MLX_RUNTIME_DECODE_CONCURRENCY'' ''4'')) (\<lambda>decode_concurrency.
         and_then (read_int (env_get env ''MLX_RUNTIME_PREFILL_CHUNK_SIZE'' ''256'')) (\<lambda>prefill_chunk_size.
         and_then (alias ''MLX_RUNTIME_TEXT_PROMPT_CONCURRENCY'' (Some ''MLX_RUNTIME_PROMPT_CONCURRENCY'') 4) (\<lambda>text_prompt.
         and_then (alias ''MLX_RUNTIME_TEXT_DECODE_CONCURRENCY'' (Some ''MLX_RUNTIME_DECODE_CONCURRENCY'') 4) (\<lambda>text_decode.
         and_then (alias ''MLX_RUNTIME_TEXT_PREFILL_CHUNK_SIZE'' (Some ''MLX_RUNTIME_PREFILL_CHUNK_SIZE'') 256) (\<lambda>text_chunk.
         and_then (alias ''MLX_RUNTIME_VLM_PROMPT_CONCURRENCY'' (Some ''MLX_RUNTIME_PROMPT_CONCURRENCY'') 4) (\<lambda>vlm_prompt.
         and_then (alias ''MLX_RUNTIME_VLM_DECODE_CONCURRENCY'' (Some ''MLX_RUNTIME_DECODE_CONCURRENCY'') 4) (\<lambda>vlm_decode.
         and_then (alias ''MLX_RUNTIME_VLM_PREFILL_CHUNK_SIZE'' (Some ''MLX_RUNTIME_PREFILL_CHUNK_SIZE'') 256) (\<lambda>vlm_chunk.
         and_then (alias ''MLX_RUNTIME_TEXT_CACHE_BUDGET_BYTES'' None (8 * 1024 * 1024)) (\<lambda>text_cache_bytes.
         and_then (alias ''MLX_RUNTIME_TEXT_CACHE_MAX_ENTRIES'' None 32) (\<lambda>text_cache_entries.
         and_then (read_int (env_get env ''MLX_RUNTIME_NATIVE_KV_PAGE_SIZE'' ''16'')) (\<lambda>page_size.
         and_then (require (page_size \<in> {8, 16, 32}) ''MLX_RUNTIME_NATIVE_KV_PAGE_SIZE must be one of 8, 16, or 32'') (\<lambda>_.
         let execution_backend = strip (env_get env ''MLX_RUNTIME_NATIVE_EXECUTION_BACKEND'' default_backend_id) in
         and_then (require (execution_backend \<in> set backend_ids)
           (''MLX_RUNTIME_NATIVE_EXECUTION_BACKEND must be one of: '' @ join '', '' backend_ids)) (\<lambda>_.
         let execution_mode = strip (env_get env ''MLX_RUNTIME_NATIVE_EXECUTION_MODE'' ''serial'') in
         and_then (require (execution_mode \<in> {''serial'', ''overlap''}) ''MLX_RUNTIME_NATIVE_EXECUTION_MODE must be serial or overlap'') (\<lambda>_.
         let prefix_strategy = strip (env_get env ''MLX_RUNTIME_NATIVE_PREFIX_CACHE_STRATEGY'' ''radix'') in
         and_then (require (prefix_strategy \<in> {''block-hash'', ''radix''})
           ''MLX_RUNTIME_NATIVE_PREFIX_CACHE_STRATEGY must be block-hash or radix'') (\<lambda>_.
         let policy = strip (env_get env ''MLX_RUNTIME_NATIVE_SCHEDULING_POLICY'' ''fcfs'') in
         and_then (require (policy \<in> {''fcfs'', ''lpm'', ''lof'', ''priority''})
           ''MLX_RUNTIME_NATIVE_SCHEDULING_POLICY must be fcfs, lpm, lof, or priority'') (\<lambda>_.
         let graph_profile = load_bool env ''MLX_RUNTIME_NATIVE_GRAPH_PROFILE'' ''0'';
             pipeline_profile = load_bool env ''MLX_RUNTIME_NATIVE_PIPELINE_PROFILE'' ''0'';
             profile_dir = env ''MLX_RUNTIME_NATIVE_PIPELINE_PROFILE_DIR'' in
         and_then (require (pipeline_profile \<longrightarrow> profile_dir \<noteq> None \<and> profile_dir \<noteq> Some [])
           ''MLX_RUNTIME_NATIVE_PIPELINE_PROFILE_DIR is required when pipeline profiling is enabled'') (\<lambda>_.
         and_then (alias ''MLX_RUNTIME_VLM_APC_CACHE_BUDGET_BYTES'' None (8 * 1024 * 1024)) (\<lambda>vlm_apc_bytes.
         and_then (alias ''MLX_RUNTIME_VLM_APC_CACHE_MAX_ENTRIES'' None 32) (\<lambda>vlm_apc_entries.
         and_then (alias ''MLX_RUNTIME_VISION_FEATURE_CACHE_BUDGET_BYTES'' None (8 * 1024 * 1024)) (\<lambda>vision_bytes.
         and_then (alias ''MLX_RUNTIME_VISION_FEATURE_CACHE_MAX_ENTRIES'' None 20) (\<lambda>vision_entries.
         Inr \<lparr>wc_socket_path = env_get env ''MLX_RUNTIME_SOCKET'' ''/tmp/mlx-runtime.sock'',
           wc_model = env_get env ''MLX_RUNTIME_MODEL'' ''mlx-community/Qwen2.5-7B-Instruct-4bit'', wc_backend = backend,
           wc_vlm_model = vlm_model, wc_max_vlm_images = max_vlm_images, wc_continuous_batching = continuous,
           wc_prompt_concurrency = prompt_concurrency, wc_decode_concurrency = decode_concurrency,
           wc_prefill_chunk_size = prefill_chunk_size, wc_text_prompt = text_prompt, wc_text_decode = text_decode,
           wc_text_chunk = text_chunk, wc_vlm_prompt = vlm_prompt, wc_vlm_decode = vlm_decode, wc_vlm_chunk = vlm_chunk,
           wc_text_cache_bytes = text_cache_bytes, wc_text_cache_entries = text_cache_entries, wc_page_size = page_size,
           wc_execution_backend = execution_backend, wc_execution_mode = execution_mode, wc_prefix_strategy = prefix_strategy,
           wc_policy = policy, wc_graph_profile = graph_profile, wc_pipeline_profile = pipeline_profile,
           wc_pipeline_profile_dir = profile_dir, wc_vlm_apc_bytes = vlm_apc_bytes, wc_vlm_apc_entries = vlm_apc_entries,
           wc_vision_bytes = vision_bytes, wc_vision_entries = vision_entries\<rparr>))))))))))))))))))))))))"

subsection \<open>What an accepted configuration is\<close>

definition config_typed :: "worker_config \<Rightarrow> bool" where
  "config_typed c \<longleftrightarrow> wc_backend c \<noteq> [] \<and> wc_vlm_model c \<noteq> Some [] \<and> wc_page_size c \<in> {8, 16, 32} \<and>
     wc_execution_backend c \<in> set backend_ids \<and> wc_execution_mode c \<in> {''serial'', ''overlap''} \<and>
     wc_prefix_strategy c \<in> {''block-hash'', ''radix''} \<and> wc_policy c \<in> {''fcfs'', ''lpm'', ''lof'', ''priority''} \<and>
     (wc_pipeline_profile c \<longrightarrow> wc_pipeline_profile_dir c \<noteq> None \<and> wc_pipeline_profile_dir c \<noteq> Some [])"

lemma and_then_Inr: "and_then m k = Inr b \<Longrightarrow> (\<And>a. m = Inr a \<Longrightarrow> k a = Inr b \<Longrightarrow> P) \<Longrightarrow> P"
  by (cases m) auto

lemma require_Inr: "require ok message = Inr u \<longleftrightarrow> ok"
  by (simp add: require_def)

lemma strip_nonempty: "strip s \<noteq> [] \<Longrightarrow> s \<noteq> []"
  by (auto simp: strip_def)

lemma load_config_accepts:
  assumes "load_config env = Inr c"
  shows "config_typed c \<and>
    load_int_with_alias env ''MLX_RUNTIME_TEXT_PROMPT_CONCURRENCY'' (Some ''MLX_RUNTIME_PROMPT_CONCURRENCY'') 4 = Inr (wc_text_prompt c) \<and>
    load_int_with_alias env ''MLX_RUNTIME_TEXT_PREFILL_CHUNK_SIZE'' (Some ''MLX_RUNTIME_PREFILL_CHUNK_SIZE'') 256 = Inr (wc_text_chunk c)"
  using assms unfolding load_config_def Let_def
  apply (elim and_then_Inr)
  apply (simp only: require_Inr sum.inject)
  apply (hypsubst)
  using strip_nonempty [of "env_get env ''MLX_RUNTIME_VLM_MODEL'' []"] by (simp add: config_typed_def)

lemma typed_policy: "wc_policy c \<in> {''fcfs'', ''lpm'', ''lof'', ''priority''} \<Longrightarrow> \<exists>p. policy_from_name (wc_policy c) = Inr p"
proof -
  assume p: "wc_policy c \<in> {''fcfs'', ''lpm'', ''lof'', ''priority''}"
  have "list_all (\<lambda>name. \<not> isl (policy_from_name name)) [''fcfs'', ''lpm'', ''lof'', ''priority'']" by code_simp
  then have "\<not> isl (policy_from_name (wc_policy c))" using p by auto
  then show ?thesis by (cases "policy_from_name (wc_policy c)") auto
qed

text \<open>C35: A configuration that is accepted is well typed: every setting with a fixed set of choices is one of them, profiling
  comes with a directory, an empty vision model counts as none.  With it the native scheduler is built, whatever its cache
  and terminal tokens, exactly when the prompt concurrency and the prefill chunk of text requests are positive, the two checks
  that are left to its constructor.\<close>

theorem accepted_configuration_is_typed:
  assumes "load_config env = Inr c"
  shows "config_typed c \<and>
    ((\<exists>sc. new_scheduler (wc_text_prompt c) (wc_text_chunk c) prioritize (wc_policy c) (wc_execution_mode c) terminal cache = Inr sc) \<longleftrightarrow>
       0 < wc_text_prompt c \<and> 0 < wc_text_chunk c)"
proof -
  have typed: "config_typed c" using load_config_accepts [OF assms] by blast
  then have "wc_execution_mode c \<in> {''serial'', ''overlap''}" and p: "wc_policy c \<in> {''fcfs'', ''lpm'', ''lof'', ''priority''}"
    unfolding config_typed_def by blast+
  moreover obtain policy where "policy_from_name (wc_policy c) = Inr policy" using typed_policy [OF p] by blast
  ultimately show ?thesis using typed by (auto simp: new_scheduler_def)
qed

definition sample_environment :: environment where
  "sample_environment = [''MLX_RUNTIME_PROMPT_CONCURRENCY'' \<mapsto> '' +1_0 '', ''MLX_RUNTIME_TEXT_CACHE_MAX_ENTRIES'' \<mapsto> ''-1'',
     ''MLX_RUNTIME_NATIVE_SCHEDULING_POLICY'' \<mapsto> ''lpm '', ''MLX_RUNTIME_VLM_MODEL'' \<mapsto> ''  '']"

definition sample_config :: worker_config where
  "sample_config = (case load_config sample_environment of Inr c \<Rightarrow> c | Inl _ \<Rightarrow> undefined)"

lemma sample_config_loads: "load_config sample_environment = Inr sample_config"
proof -
  have "\<not> isl (load_config sample_environment)" by code_simp
  then show ?thesis by (auto simp: sample_config_def isl_def split: sum.splits)
qed

theorem accepted_configuration_is_typed_witness:
  "config_typed sample_config \<and> wc_text_prompt sample_config = 10 \<and> wc_vlm_model sample_config = None \<and>
    (\<exists>sc. new_scheduler (wc_text_prompt sample_config) (wc_text_chunk sample_config) True (wc_policy sample_config)
      (wc_execution_mode sample_config) [] () = (Inr sc :: exn + (unit, unit) scheduler))"
proof -
  have "wc_text_prompt sample_config = 10" "wc_text_chunk sample_config = 256" "wc_vlm_model sample_config = None" by code_simp+
  then show ?thesis using accepted_configuration_is_typed [OF sample_config_loads, of True "[]" "()"] by auto
qed

end
