(* ===== verification/Qwen3.thy ===== *)
theory Qwen3
  imports ModelProps
begin

text \<open>
  The forward pass of \<^verbatim>\<open>native_mlx/models/qwen3.py\<close>: Qwen2's blocks with a norm over each head of the
  queries and keys before the rotation, and projections without bias.  A row of activations holds all heads of
  a position, so the per-head norm acts on a row.  Folding the norms into the projections gives a Qwen2 model, and with it
  everything proved of the paged, batched, chunked computation.
\<close>

record 'v qwen3 = "'v qwen2" +
  q3_q_norm :: "nat \<Rightarrow> 'v \<Rightarrow> 'v"
  q3_k_norm :: "nat \<Rightarrow> 'v \<Rightarrow> 'v"

definition qwen3_attention ::
  "'v qwen3 \<Rightarrow> nat \<Rightarrow> nat \<Rightarrow> nat \<Rightarrow> 'v activations \<Rightarrow> nat list list \<Rightarrow> string option \<Rightarrow>
     'v reservation \<Rightarrow> 'v kv \<Rightarrow> (exn + 'v activations) \<times> 'v reservation \<times> 'v kv" where
  "qwen3_attention m layer batch seq x positions attention_mask r s =
     (let offset = (\<lambda>i. positions ! i ! 0);
          queries = \<lparr>t_shape = [batch, qw_heads m, seq, qw_head_dim m], t_dtype = qw_dtype m,
                     t_row = (\<lambda>i j. qw_rope m layer (offset i + j) (q3_q_norm m layer (qw_q_proj m layer (x i j))))\<rparr>;
          keys = \<lparr>t_shape = [batch, qw_kv_heads m, seq, qw_head_dim m], t_dtype = qw_dtype m,
                  t_row = (\<lambda>i j. qw_rope m layer (offset i + j) (q3_k_norm m layer (qw_k_proj m layer (x i j))))\<rparr>;
          values' = \<lparr>t_shape = [batch, qw_kv_heads m, seq, qw_head_dim m], t_dtype = qw_dtype m,
                     t_row = (\<lambda>i j. qw_v_proj m layer (x i j))\<rparr>
      in case append_and_attend (qw_sdpa m layer) (qw_cast m) (qw_zero m) layer queries keys values'
                attention_mask None r s of
           (Inl e, r', s') \<Rightarrow> (Inl e, r', s')
         | (Inr output, r', s') \<Rightarrow> (Inr (\<lambda>i j. qw_o_proj m layer (output i j)), r', s'))"

definition qwen3_mlp :: "'v qwen3 \<Rightarrow> nat \<Rightarrow> 'v \<Rightarrow> 'v" where
  "qwen3_mlp m layer x =
     qw_down_proj m layer (qw_mul m (qw_silu m (qw_gate_proj m layer x)) (qw_up_proj m layer x))"

definition qwen3_block ::
  "'v qwen3 \<Rightarrow> nat \<Rightarrow> nat \<Rightarrow> nat \<Rightarrow> 'v activations \<Rightarrow> nat list list \<Rightarrow> string option \<Rightarrow>
     'v reservation \<Rightarrow> 'v kv \<Rightarrow> (exn + 'v activations) \<times> 'v reservation \<times> 'v kv" where
  "qwen3_block m layer batch seq x positions attention_mask r s =
     (case qwen3_attention m layer batch seq (\<lambda>i j. qw_input_norm m layer (x i j)) positions attention_mask r s of
        (Inl e, r', s') \<Rightarrow> (Inl e, r', s')
      | (Inr residual, r', s') \<Rightarrow>
          (Inr (\<lambda>i j. let hidden = qw_add m (x i j) (residual i j)
                       in qw_add m hidden (qwen3_mlp m layer (qw_post_norm m layer hidden))), r', s'))"

fun qwen3_blocks ::
  "'v qwen3 \<Rightarrow> (nat \<Rightarrow> exn option) \<Rightarrow> nat list \<Rightarrow> nat \<Rightarrow> nat \<Rightarrow> 'v activations \<Rightarrow> nat list list \<Rightarrow>
     string option \<Rightarrow> 'v reservation \<Rightarrow> 'v kv \<Rightarrow> (exn + 'v activations) \<times> 'v reservation \<times> 'v kv" where
  "qwen3_blocks m faults [] batch seq x positions attention_mask r s = (Inr x, r, s)"
| "qwen3_blocks m faults (l # ls) batch seq x positions attention_mask r s =
     (case faults l of
        Some e \<Rightarrow> (Inl e, r, s)
      | None \<Rightarrow>
          (case qwen3_block m l batch seq x positions attention_mask r s of
             (Inl e, r', s') \<Rightarrow> (Inl e, r', s')
           | (Inr x', r', s') \<Rightarrow> qwen3_blocks m faults ls batch seq x' positions attention_mask r' s'))"

definition qwen3_backbone ::
  "'v qwen3 \<Rightarrow> (nat \<Rightarrow> exn option) \<Rightarrow> token list list \<Rightarrow> nat list list \<Rightarrow> string option \<Rightarrow>
     'v reservation \<Rightarrow> 'v kv \<Rightarrow> (exn + 'v activations) \<times> 'v reservation \<times> 'v kv" where
  "qwen3_backbone m faults inputs positions attention_mask r s =
     (if num_layers s \<noteq> qw_layers m then
        (Inl (ValueError ''Qwen3 requires one attention context per layer''), r, s)
      else
        (case qwen3_blocks m faults [0..<qw_layers m] (length inputs) (length (hd inputs))
                (\<lambda>i j. qw_embed m (inputs ! i ! j)) positions attention_mask r s of
           (Inl e, r', s') \<Rightarrow> (Inl e, r', s')
         | (Inr hidden, r', s') \<Rightarrow> (Inr (\<lambda>i j. qw_norm m (hidden i j)), r', s')))"

definition qwen3_call ::
  "'v qwen3 \<Rightarrow> (nat \<Rightarrow> exn option) \<Rightarrow> token list list \<Rightarrow> nat list list \<Rightarrow> string option \<Rightarrow>
     'v reservation \<Rightarrow> 'v kv \<Rightarrow> (exn + 'v activations) \<times> 'v reservation \<times> 'v kv" where
  "qwen3_call m faults input_ids positions attention_mask r s =
     (case qwen3_backbone m faults input_ids positions attention_mask r s of
        (Inl e, r', s') \<Rightarrow> (Inl e, r', s')
      | (Inr hidden, r', s') \<Rightarrow>
          (Inr (\<lambda>i j. if qw_tied m then qw_as_linear m (hidden i j) else qw_lm_head m (hidden i j)), r', s'))"

subsection \<open>The model without a cache\<close>

text \<open>One sequence from scratch, with the norms where the model has them.\<close>

definition ref3_keys :: "'v qwen3 \<Rightarrow> dtype \<Rightarrow> nat \<Rightarrow> 'v list \<Rightarrow> 'v list" where
  "ref3_keys m d l x = map (\<lambda>i. let k = qw_rope m l i (q3_k_norm m l (qw_k_proj m l (qw_input_norm m l (x ! i))))
     in if qw_dtype m \<noteq> d then qw_cast m d k else k) [0..<length x]"

definition ref3_values :: "'v qwen3 \<Rightarrow> dtype \<Rightarrow> nat \<Rightarrow> 'v list \<Rightarrow> 'v list" where
  "ref3_values m d l x = map (\<lambda>i. let v = qw_v_proj m l (qw_input_norm m l (x ! i))
     in if qw_dtype m \<noteq> d then qw_cast m d v else v) [0..<length x]"

definition ref3_block :: "'v qwen3 \<Rightarrow> dtype \<Rightarrow> nat \<Rightarrow> 'v list \<Rightarrow> nat \<Rightarrow> 'v" where
  "ref3_block m d l x i =
     (let q = qw_rope m l i (q3_q_norm m l (qw_q_proj m l (qw_input_norm m l (x ! i))));
          attended = qw_sdpa m l q (take (Suc i) (ref3_keys m d l x)) (take (Suc i) (ref3_values m d l x))
                       (replicate (Suc i) True);
          hidden = qw_add m (x ! i) (qw_o_proj m l attended)
      in qw_add m hidden (qwen3_mlp m l (qw_post_norm m l hidden)))"

primrec ref3_hidden :: "'v qwen3 \<Rightarrow> dtype \<Rightarrow> nat \<Rightarrow> token list \<Rightarrow> 'v list" where
  "ref3_hidden m d 0 ts = map (qw_embed m) ts"
| "ref3_hidden m d (Suc l) ts = (let x = ref3_hidden m d l ts in map (ref3_block m d l x) [0..<length x])"

definition ref3_logits :: "'v qwen3 \<Rightarrow> dtype \<Rightarrow> token list \<Rightarrow> 'v" where
  "ref3_logits m d ts =
     (let h = qw_norm m (last (ref3_hidden m d (qw_layers m) ts))
      in if qw_tied m then qw_as_linear m h else qw_lm_head m h)"

definition key3_row :: "'v qwen3 \<Rightarrow> dtype \<Rightarrow> nat \<Rightarrow> token list \<Rightarrow> 'v" where
  "key3_row m d l ts = last (ref3_keys m d l (ref3_hidden m d l ts))"

definition value3_row :: "'v qwen3 \<Rightarrow> dtype \<Rightarrow> nat \<Rightarrow> token list \<Rightarrow> 'v" where
  "value3_row m d l ts = last (ref3_values m d l (ref3_hidden m d l ts))"

subsection \<open>Folding the norms into the projections\<close>

definition plain :: "'v qwen3 \<Rightarrow> 'v qwen2" where
  "plain m = (qwen2.truncate m)\<lparr>qw_q_proj := (\<lambda>l x. q3_q_norm m l (qw_q_proj m l x)),
     qw_k_proj := (\<lambda>l x. q3_k_norm m l (qw_k_proj m l x))\<rparr>"

lemma plain_sel [simp]:
  "qw_heads (plain m) = qw_heads m" "qw_kv_heads (plain m) = qw_kv_heads m" "qw_head_dim (plain m) = qw_head_dim m"
  "qw_layers (plain m) = qw_layers m" "qw_tied (plain m) = qw_tied m" "qw_dtype (plain m) = qw_dtype m"
  "qw_embed (plain m) = qw_embed m" "qw_input_norm (plain m) = qw_input_norm m" "qw_v_proj (plain m) = qw_v_proj m"
  "qw_o_proj (plain m) = qw_o_proj m" "qw_rope (plain m) = qw_rope m" "qw_sdpa (plain m) = qw_sdpa m"
  "qw_cast (plain m) = qw_cast m" "qw_zero (plain m) = qw_zero m" "qw_add (plain m) = qw_add m"
  "qw_post_norm (plain m) = qw_post_norm m" "qw_gate_proj (plain m) = qw_gate_proj m" "qw_up_proj (plain m) = qw_up_proj m"
  "qw_down_proj (plain m) = qw_down_proj m" "qw_silu (plain m) = qw_silu m" "qw_mul (plain m) = qw_mul m"
  "qw_norm (plain m) = qw_norm m" "qw_as_linear (plain m) = qw_as_linear m" "qw_lm_head (plain m) = qw_lm_head m"
  "qw_q_proj (plain m) l x = q3_q_norm m l (qw_q_proj m l x)" "qw_k_proj (plain m) l x = q3_k_norm m l (qw_k_proj m l x)"
  by (simp_all add: plain_def qwen2.truncate_def)

lemma plain_mlp: "qwen3_mlp m l x = qwen2_mlp (plain m) l x"
  by (simp add: qwen3_mlp_def qwen2_mlp_def silu_gate_def)

lemma plain_block: "qwen3_block m l batch seq x positions mk r s = qwen2_block (plain m) l batch seq x positions mk r s"
  by (simp add: qwen3_block_def qwen2_block_def qwen3_attention_def qwen2_attention_def plain_mlp Let_def split: sum.split prod.split)

lemma plain_blocks:
  "qwen3_blocks m faults ls batch seq x positions mk r s = qwen2_blocks (plain m) faults ls batch seq x positions mk r s"
  by (induction ls arbitrary: x r s) (auto simp: plain_block split: option.splits sum.splits prod.splits)

lemma plain_call:
  "qwen3_call m faults ids positions mk r s =
     (if num_layers s \<noteq> qw_layers m then (Inl (ValueError ''Qwen3 requires one attention context per layer''), r, s)
      else qwen2_call (plain m) faults ids positions mk r s)"
  by (simp add: qwen3_call_def qwen2_call_def qwen3_backbone_def qwen2_backbone_def plain_blocks split: sum.split prod.split cong: if_cong)

lemma plain_kv: "ref3_keys m d l x = ref_keys (plain m) d l x" "ref3_values m d l x = ref_values (plain m) d l x"
  by (simp_all add: ref3_keys_def ref_keys_def ref3_values_def ref_values_def Let_def cong: if_cong)

lemma plain_hidden: "ref3_hidden m d l ts = ref_hidden (plain m) d l ts"
  by (induction l) (simp_all add: ref3_block_def [abs_def] ref_block_def [abs_def] plain_kv plain_mlp)

lemma plain_rows:
  "key3_row m d = key_row (plain m) d" "value3_row m d = value_row (plain m) d" "ref3_logits m d ts = ref_logits (plain m) d ts"
  by (simp_all add: fun_eq_iff key3_row_def key_row_def value3_row_def value_row_def plain_kv plain_hidden ref3_logits_def ref_logits_def Let_def cong: if_cong)

abbreviation qwen3_model :: "'v qwen3 \<Rightarrow> (nat \<Rightarrow> exn option) \<Rightarrow> 'v native_model" where
  "qwen3_model m faults \<equiv> (\<lambda>ids positions attention_mask r s. qwen3_call m faults ids positions attention_mask r s)"

definition qwen3_next :: "'v qwen3 \<Rightarrow> dtype \<Rightarrow> ('v \<Rightarrow> token) \<Rightarrow> token list \<Rightarrow> token" where
  "qwen3_next m d argmax ts = argmax (ref3_logits m d ts)"

lemma qwen3_forward:
  assumes "\<forall>l. masks_exactly (qw_sdpa m l)"
  shows "forward_model (qwen3_model m faults) argmax (key3_row m d) (value3_row m d) (qwen3_next m d argmax) (qw_layers m) d"
proof -
  have "\<forall>l. masks_exactly (qw_sdpa (plain m) l)" using assms by simp
  note F = qwen2_forward [OF this, of faults argmax d]
  have next': "qwen3_next m d argmax = qwen2_next (plain m) d argmax"
    by (simp add: fun_eq_iff qwen3_next_def qwen2_next_def plain_rows)
  show ?thesis
    unfolding plain_rows next'
  proof
    show "pass_frame s r s' r'" if "kv_wf s" "reservation_ok s r" "qwen3_call m faults ids positions mk r s = (res, r', s')"
      for s r ids positions mk res r' s'
      using that pass_frame_refl [OF that(1,2)] forward_model.pass_law [OF F that(1,2), of ids positions mk res r' s']
      by (auto simp: plain_call split: if_splits)
  next
    fix s r ids positions old new logits r' s'
    assume wf: "kv_wf s" "reservation_ok s r" "lengths_known s r" "num_layers s = qw_layers m" "kv_dtype s = d" "length ids = length (rs_handles r)"
      and q: "\<And>i. i < length (rs_handles r) \<Longrightarrow> holds (key_row (plain m) d) (value_row (plain m) d) s (rs_handles r ! i) (old i) \<and>
        append_lengths r ! i = length (new i) \<and> new i \<noteq> [] \<and> take (length (new i)) (ids ! i) = new i \<and> positions ! i ! 0 = length (old i)"
      and run: "qwen3_call m faults ids positions (Some ''causal'') r s = (Inr logits, r', s')"
    have "qwen2_call (plain m) faults ids positions (Some ''causal'') r s = (Inr logits, r', s')"
      using run wf(4) by (simp add: plain_call)
    from forward_model.run_law [OF F wf(1-3) _ wf(5,6) q this]
    show "(\<forall>l < qw_layers m. staged_rows (key_row (plain m) d) (value_row (plain m) d) old new s' r' l) \<and>
      (\<forall>i < length (rs_handles r). argmax (logits i (length (new i) - 1)) = qwen2_next (plain m) d argmax (old i @ new i))"
      using wf(4) by simp
  qed
qed

interpretation qwen3: forward_model "qwen3_model (m\<lparr>qw_sdpa := (\<lambda>l. masked_sdpa (core l) (blank l))\<rparr>) faults" argmax
    "key3_row (m\<lparr>qw_sdpa := (\<lambda>l. masked_sdpa (core l) (blank l))\<rparr>) d" "value3_row (m\<lparr>qw_sdpa := (\<lambda>l. masked_sdpa (core l) (blank l))\<rparr>) d"
    "qwen3_next (m\<lparr>qw_sdpa := (\<lambda>l. masked_sdpa (core l) (blank l))\<rparr>) d argmax" "qw_layers (m\<lparr>qw_sdpa := (\<lambda>l. masked_sdpa (core l) (blank l))\<rparr>)" d
  for m core blank faults argmax d
  by (rule qwen3_forward) (simp add: masked_sdpa_exact)

text \<open>C37: Qwen3 generates over the paged pool what it generates without a cache: the executor's batch gives every request that is
  not refused the token the model gives for its whole sequence, computed from scratch with its per-head norms, and extends
  its cache by the rows of its tokens; refused requests are reported in place; an exception changes no request.\<close>

theorem qwen3_batch_generates:
  assumes "\<forall>l. masks_exactly (qw_sdpa m l)" and "paged_idle (qw_layers m) d s"
    and "\<forall>q \<in> set requests. \<forall>h \<in> set (live s). er_cache_handle q = Some h \<longrightarrow>
      holds (key3_row m d) (value3_row m d) s h (ctx h)"
    and "execute_batch (qwen3_model m faults) argmax fault requests s = (res, s')"
  shows "paged_idle (qw_layers m) d s' \<and> live s' = live s \<and>
    (case res of
       Inl e \<Rightarrow> paged_view s' = paged_view s
     | Inr st \<Rightarrow> length (st_results st) = length requests \<and>
         (\<exists>executed \<subseteq> {..<length requests}.
            (\<forall>i \<in> executed. \<exists>h. er_cache_handle (requests ! i) = Some h \<and> h \<in> set (live s) \<and>
               st_results st ! i = step_done (requests ! i) (length (ctx h @ er_token_ids (requests ! i)))
                 (argmax (ref3_logits m d (ctx h @ er_token_ids (requests ! i)))) \<and>
               holds (key3_row m d) (value3_row m d) s' h (ctx h @ er_token_ids (requests ! i))) \<and>
            (\<forall>i < length requests. i \<notin> executed \<longrightarrow>
               sr_request_id (st_results st ! i) = er_request_id (requests ! i) \<and> sr_error_code (st_results st ! i) \<noteq> None) \<and>
            (\<forall>h. (\<forall>i \<in> executed. er_cache_handle (requests ! i) \<noteq> Some h) \<longrightarrow> paged_view s' h = paged_view s h)))"
  by (rule forward_batch_generates [OF qwen3_forward [OF assms(1)] assms(2-4), unfolded qwen3_next_def])

definition toy3_model :: "nat qwen3" where
  "toy3_model = qwen2.extend toy_model \<lparr>q3_q_norm = (\<lambda>l x. x mod 5), q3_k_norm = (\<lambda>l x. x mod 7)\<rparr>"

lemma toy3_run:
  "fst (execute_batch (qwen3_model toy3_model (\<lambda>_. None)) int None [toy_request] sample_pool) =
     Inr \<lparr>st_forward_mode = PREFILL, st_results = [step_done toy_request 2 114], st_physical_batch_size = 1, st_model_forward_count = 1\<rparr>"
  by code_simp

theorem qwen3_batch_generates_witness:
  "\<exists>s'. execute_batch (qwen3_model toy3_model (\<lambda>_. None)) int None [toy_request] sample_pool =
      (Inr \<lparr>st_forward_mode = PREFILL, st_results = [step_done toy_request 2 114], st_physical_batch_size = 1, st_model_forward_count = 1\<rparr>, s') \<and>
    holds (key3_row toy3_model Float16) (value3_row toy3_model Float16) s' sample_handle [3, 4] \<and>
    int (ref3_logits toy3_model Float16 [3, 4]) = 114"
proof -
  obtain s' where run: "execute_batch (qwen3_model toy3_model (\<lambda>_. None)) int None [toy_request] sample_pool =
      (Inr \<lparr>st_forward_mode = PREFILL, st_results = [step_done toy_request 2 114], st_physical_batch_size = 1, st_model_forward_count = 1\<rparr>, s')"
    using toy3_run by (metis prod.collapse)
  have sdpa: "\<forall>l. masks_exactly (qw_sdpa toy3_model l)" by (simp add: toy3_model_def toy_model_def qwen2.extend_def masked_sdpa_exact)
  have idle: "paged_idle (qw_layers toy3_model) Float16 sample_pool"
    using sample_pool_ok by (simp add: paged_idle_def toy3_model_def toy_model_def qwen2.extend_def sample_pool_state)
  have ctx: "\<forall>q \<in> set [toy_request]. \<forall>h \<in> set (live sample_pool). er_cache_handle q = Some h \<longrightarrow>
      holds (key3_row toy3_model Float16) (value3_row toy3_model Float16) sample_pool h []"
    by (simp add: toy_request_def holds_def sample_pool_state rows_def)
  note T = qwen3_batch_generates [OF sdpa idle ctx run, simplified, THEN conjunct2, THEN conjunct2]
  then have "\<exists>h. er_cache_handle toy_request = Some h \<and>
      step_done toy_request 2 114 = step_done toy_request (length (er_token_ids toy_request))
        (int (ref3_logits toy3_model Float16 (er_token_ids toy_request))) \<and>
      holds (key3_row toy3_model Float16) (value3_row toy3_model Float16) s' h (er_token_ids toy_request)"
    by (fastforce simp: step_done_def)
  then show ?thesis using run by (auto simp: toy_request_def step_done_def)
qed


end
