(* ===== verification/Vlm.thy ===== *)
theory Vlm
  imports Batching
begin

text \<open>
  The v1 backend for requests with images, \<^verbatim>\<open>mlx_worker/vlm_engine.py\<close>: the validation of
  image sources, the preparation of a request (prompt, tokens, embeddings, caches) with its cancellation
  points, and the continuous scheduler.  Parameters: \<^verbatim>\<open>mlx_vlm\<close>'s templates, input preparation,
  embeddings, batch generator and vision feature cache; hashing; the file system; URL parsing.  Clocks, peak
  memory and the budget manager (which only evicts from the two caches) are left out.
\<close>

subsection \<open>Image sources\<close>

record url_ops =
  uo_scheme :: "string \<Rightarrow> string"
  uo_hostname :: "string \<Rightarrow> string option"
  uo_is_file :: "string \<Rightarrow> bool"
  uo_path :: "string \<Rightarrow> string"

definition max_image_url_length :: nat where
  "max_image_url_length = 4096"

definition allowed_image_schemes :: "string list" where
  "allowed_image_schemes = [''https'', ''http'']"

definition allowed_http_hosts :: "string list" where
  "allowed_http_hosts = [''localhost'', ''127.0.0.1'', ''::1'']"

definition validate_image_source :: "url_ops \<Rightarrow> string \<Rightarrow> exn + string" where
  "validate_image_source uo url =
     (if max_image_url_length < length url then
        Inl (ValueError (''image URL exceeds maximum length of '' @ nat_str max_image_url_length @ '' characters''))
      else if uo_scheme uo url = [] then
        (if \<not> uo_is_file uo url then Inl (ValueError (''local image path does not exist or is not a file: '' @ url))
         else Inr (uo_path uo url))
      else if uo_scheme uo url = ''http'' then
        (case uo_hostname uo url of
           None \<Rightarrow> Inl (ValueError ''http image URLs must use localhost or 127.0.0.1'')
         | Some host \<Rightarrow>
             if host \<notin> set allowed_http_hosts then Inl (ValueError ''http image URLs must use localhost or 127.0.0.1'')
             else Inr url)
      else if uo_scheme uo url \<notin> set allowed_image_schemes then
        Inl (ValueError (''unsupported image URL scheme '' @ [CHR 0x27] @ uo_scheme uo url @ [CHR 0x27] @
          '': must be one of https, http, or a local file path''))
      else Inr url)"

subsection \<open>Parameters\<close>

text \<open>\<open>'i\<close> is what \<^verbatim>\<open>prepare_inputs\<close> returns, \<open>'e\<close> the input embeddings, \<open>'k\<close> the keyword arguments that
  come with them.\<close>

record ('i, 'e, 'k) vlm_context =
  vc_model_id :: string
  vc_processor :: string
  vc_template :: "string option"
  vc_adapter :: "string option"
  vc_tenant :: string
  vc_urls :: url_ops
  vc_max_images :: int
  vc_prompt :: "json list \<Rightarrow> nat \<Rightarrow> exn + string"
  vc_encode :: "string \<Rightarrow> exn + token list"
  vc_inputs :: "string list \<Rightarrow> string \<Rightarrow> exn + 'i"
  vc_image_hash :: "string list \<Rightarrow> 'i \<Rightarrow> int"
  vc_image_key :: "string \<Rightarrow> string"
  vc_dimensions :: "'i \<Rightarrow> nat option \<times> nat option"
  vc_embed :: "'i \<Rightarrow> exn + ('k \<times> 'e option)"
  vc_embed_bytes :: "'e \<Rightarrow> int"
  vc_sha :: "string \<Rightarrow> string"
  vc_decode :: "(token list \<Rightarrow> string) option"

text \<open>Keyword arguments of the generator; \<open>setdefault\<close> sets what is not there yet.\<close>

record ('k, 'c) vlm_kwargs =
  kw_base :: 'k
  kw_cache :: "'c list option"
  kw_all_tokens :: "token list option"
  kw_image_hash :: "int option"
  kw_tenant :: "string option"

record ('e, 'k, 'c) vision_snapshot =
  vn_signature :: string
  vn_embeds :: 'e
  vn_kwargs :: "('k, 'c) vlm_kwargs"
  vn_bytes :: int

text \<open>The framework's vision feature cache, state \<open>'v\<close>.\<close>

record ('v, 'e, 'k, 'c) vision_ops =
  vo_get :: "string \<Rightarrow> 'v \<Rightarrow> ('e, 'k, 'c) vision_snapshot option \<times> 'v"
  vo_put :: "string \<Rightarrow> ('e, 'k, 'c) vision_snapshot \<Rightarrow> 'v \<Rightarrow> 'v"
  vo_items :: "'v \<Rightarrow> (string \<times> ('e, 'k, 'c) vision_snapshot) list"

record vlm_progress_base =
  vp_uid :: nat
  vp_cached_tokens :: nat

record 'c vlm_progress = vlm_progress_base +
  vp_cache :: "'c list option"

record 'c vlm_answer =
  va_uid :: nat
  va_token :: "token option"
  va_text :: string
  va_finish :: "string option"
  va_cache :: "'c list option"
  va_all_tokens :: "token list option"
  va_prompt_tokens :: "nat option"
  va_generation_tokens :: "nat option"

record ('g, 'e, 'k, 'c) vlm_generator =
  vg_make :: "rat \<times> rat \<Rightarrow> exn + 'g"
  vg_next :: "'g \<Rightarrow> (exn + 'c vlm_progress list \<times> 'c vlm_answer list) \<times> 'g"
  vg_insert :: "token list list \<Rightarrow> int list \<Rightarrow> (('k, 'c) vlm_kwargs \<times> 'e) list \<Rightarrow> 'g \<Rightarrow> (exn + nat list) \<times> 'g"
  vg_remove :: "nat \<Rightarrow> 'g \<Rightarrow> (exn + unit) \<times> 'g"
  vg_nbytes :: "'g \<Rightarrow> int"

subsection \<open>Cache keys\<close>

datatype key_part =
    KeyText string
  | KeyMaybe "string option"
  | KeyTokens "token list"
  | KeyImages "string list"
  | KeyHash int

definition vlm_apc_cache_key ::
  "('i, 'e, 'k) vlm_context \<Rightarrow> token list \<Rightarrow> string list \<Rightarrow> int \<Rightarrow> key_part list" where
  "vlm_apc_cache_key ctx tokens images image_hash =
     [KeyText (vc_model_id ctx), KeyText (vc_processor ctx), KeyMaybe (vc_template ctx), KeyMaybe (vc_adapter ctx),
      KeyTokens tokens, KeyImages (map (vc_image_key ctx) images), KeyHash image_hash, KeyText (vc_tenant ctx)]"

subsection \<open>The vision feature cache\<close>

record 'v vision_cache =
  vf_cache :: 'v
  vf_max_entries :: int
  vf_max_bytes :: int
  vf_hits :: nat
  vf_misses :: nat
  vf_evictions :: nat
  vf_bytes :: int

definition vision_get ::
  "('v, 'e, 'k, 'c) vision_ops \<Rightarrow> string \<Rightarrow> string \<Rightarrow> 'v vision_cache \<Rightarrow>
     ('e, 'k, 'c) vision_snapshot option \<times> 'v vision_cache" where
  "vision_get vo key signature vf =
     (case vo_get vo key (vf_cache vf) of
        (None, v) \<Rightarrow> (None, vf\<lparr>vf_cache := v, vf_misses := Suc (vf_misses vf)\<rparr>)
      | (Some snap, v) \<Rightarrow>
          (if vn_signature snap \<noteq> signature then (None, vf\<lparr>vf_cache := v, vf_misses := Suc (vf_misses vf)\<rparr>)
           else (Some snap, vf\<lparr>vf_cache := v, vf_hits := Suc (vf_hits vf)\<rparr>)))"

definition recompute_bytes :: "('v, 'e, 'k, 'c) vision_ops \<Rightarrow> 'v vision_cache \<Rightarrow> 'v vision_cache" where
  "recompute_bytes vo vf = vf\<lparr>vf_bytes := sum_list (map (\<lambda>(key, snap). vn_bytes snap) (vo_items vo (vf_cache vf)))\<rparr>"

definition vision_put ::
  "('v, 'e, 'k, 'c) vision_ops \<Rightarrow> ('e \<Rightarrow> int) \<Rightarrow> string \<Rightarrow> string \<Rightarrow> 'e \<Rightarrow> ('k, 'c) vlm_kwargs \<Rightarrow> 'v vision_cache \<Rightarrow>
     int \<times> 'v vision_cache" where
  "vision_put vo embed_bytes key signature embeds kwargs vf =
     (let n = embed_bytes embeds
      in if n \<le> 0 \<or> vf_max_bytes vf < n then (0, vf)
         else
           (let before = length (vo_items vo (vf_cache vf));
                v = vo_put vo key \<lparr>vn_signature = signature, vn_embeds = embeds, vn_kwargs = kwargs, vn_bytes = n\<rparr> (vf_cache vf);
                after = length (vo_items vo v);
                vf1 = vf\<lparr>vf_cache := v\<rparr>
            in if after = before \<and> map_of (vo_items vo v) key = None then (0, vf1)
               else
                 (let vf2 = (if after = before \<and> vf_max_entries vf \<le> int before
                             then vf1\<lparr>vf_evictions := Suc (vf_evictions vf1)\<rparr> else vf1)
                  in (n, recompute_bytes vo vf2))))"

subsection \<open>The scheduler's state\<close>

record ('k, 'e, 'c) vlm_job =
  vj_request :: text_request
  vj_prompt :: "token list"
  vj_kwargs :: "('k, 'c) vlm_kwargs"
  vj_embeds :: 'e
  vj_images :: "string list"
  vj_key :: "key_part list"
  vj_cached :: "'c cached_prompt option"
  vj_vision_hit :: bool
  vj_vision_bytes :: "int option"
  vj_width :: "nat option"
  vj_height :: "nat option"
  vj_cached_tokens :: nat
  vj_prompt_batch :: nat
  vj_decode_batch :: nat
  vj_generated :: "token list"
  vj_rendered :: string
  vj_stage :: string
  vj_cancelled_stage :: "string option"
  vj_decoding :: bool

record vlm_response =
  vr_request_id :: string
  vr_text :: string
  vr_finish :: string
  vr_prompt_tokens :: nat
  vr_completion_tokens :: nat
  vr_image_count :: nat
  vr_cache_hit :: bool
  vr_cached_tokens :: "nat option"
  vr_active_bytes :: int
  vr_prompt_batch :: "nat option"
  vr_decode_batch :: "nat option"
  vr_stage :: string
  vr_cancellation_stage :: "string option"
  vr_cancellations :: nat
  vr_errors :: nat
  vr_vision_hit :: bool
  vr_vision_bytes :: "int option"
  vr_vision_evictions :: nat
  vr_entries :: nat
  vr_evictions :: nat
  vr_width :: "nat option"
  vr_height :: "nat option"

datatype vlm_event =
    VlmDelta string string
  | VlmResponse vlm_response
  | VlmCancelled string string nat nat
  | VlmError string string string

record ('g, 'k, 'e, 'c, 'v) vlm_scheduler =
  vs_prompt_concurrency :: int
  vs_decode_concurrency :: int
  vs_store :: "(key_part, 'c) prompt_store"
  vs_vision :: "'v vision_cache"
  vs_generator :: "'g option"
  vs_sampling :: "(rat \<times> rat) option"
  vs_pending :: "text_request list"
  vs_active :: "(nat, ('k, 'e, 'c) vlm_job) dict"
  vs_preparing :: "string list"
  vs_cancelled_preparing :: "string list"
  vs_cancellations :: nat
  vs_errors :: nat
  vs_out :: "vlm_event list"

definition new_vlm_scheduler ::
  "int \<Rightarrow> int \<Rightarrow> (key_part, 'c) prompt_store \<Rightarrow> 'v vision_cache \<Rightarrow> ('g, 'k, 'e, 'c, 'v) vlm_scheduler" where
  "new_vlm_scheduler prompt_concurrency decode_concurrency store vision =
     \<lparr>vs_prompt_concurrency = prompt_concurrency, vs_decode_concurrency = decode_concurrency, vs_store = store,
      vs_vision = vision, vs_generator = None, vs_sampling = None, vs_pending = [], vs_active = [], vs_preparing = [],
      vs_cancelled_preparing = [], vs_cancellations = 0, vs_errors = 0, vs_out = []\<rparr>"

definition vlm_send :: "vlm_event \<Rightarrow> ('g, 'k, 'e, 'c, 'v) vlm_scheduler \<Rightarrow> ('g, 'k, 'e, 'c, 'v) vlm_scheduler" where
  "vlm_send ev s = s\<lparr>vs_out := vs_out s @ [ev]\<rparr>"

subsection \<open>Preparing a request\<close>

text \<open>Messages as the template wants them, and the image sources in order; other parts than text and images do not
  occur.  A URL that is not a string, against its declared type, raises; the text of that exception is not modelled.\<close>

fun extract_parts :: "url_ops \<Rightarrow> content_part list \<Rightarrow> exn + json list \<times> string list" where
  "extract_parts uo [] = Inr ([], [])"
| "extract_parts uo (TextContent t # parts) =
     and_then (extract_parts uo parts) (\<lambda>(js, images). Inr (JObj [(''type'', JStr ''text''), (''text'', t)] # js, images))"
| "extract_parts uo (ImageContent url detail # parts) =
     (case url of
        JStr u \<Rightarrow>
          and_then (validate_image_source uo u) (\<lambda>source.
          and_then (extract_parts uo parts) (\<lambda>(js, images).
            Inr (JObj [(''type'', JStr ''image_url''), (''image_url'', JObj [(''url'', JStr source), (''detail'', detail)])] # js,
                 source # images)))
      | _ \<Rightarrow> Inl (TypeError ''image URL is not a string''))"

fun extract_messages :: "url_ops \<Rightarrow> chat_message list \<Rightarrow> exn + json list \<times> string list" where
  "extract_messages uo [] = Inr ([], [])"
| "extract_messages uo (m # ms) =
     (case cm_content m of
        PlainText t \<Rightarrow>
          and_then (extract_messages uo ms) (\<lambda>(js, images). Inr (JObj [(''role'', cm_role m), (''content'', JStr t)] # js, images))
      | PartList parts \<Rightarrow>
          and_then (extract_parts uo parts) (\<lambda>(ps, first).
          and_then (extract_messages uo ms) (\<lambda>(js, images).
            Inr (JObj [(''role'', cm_role m), (''content'', JArr ps)] # js, first @ images))))"

definition extract_chat_and_image :: "('i, 'e, 'k) vlm_context \<Rightarrow> text_request \<Rightarrow> exn + json list \<times> string list" where
  "extract_chat_and_image ctx request =
     and_then (extract_messages (vc_urls ctx) (tr_messages request)) (\<lambda>(js, images).
       if vc_max_images ctx < int (length images) then
         Inl (ValueError (''too many images: '' @ nat_str (length images) @ '' exceeds maximum of '' @ int_str (vc_max_images ctx)))
       else Inr (js, images))"

datatype refusal = PreparationCancelled | Refused exn

definition refuse :: "exn + 'a \<Rightarrow> refusal + 'a" where
  "refuse m = (case m of Inl e \<Rightarrow> Inl (Refused e) | Inr a \<Rightarrow> Inr a)"

definition refuse_then :: "refusal + 'a \<Rightarrow> ('a \<Rightarrow> refusal + 'b) \<Rightarrow> refusal + 'b" where
  "refuse_then m k = (case m of Inl e \<Rightarrow> Inl e | Inr a \<Rightarrow> k a)"

text \<open>\<open>check_cancelled\<close> at its \<open>n\<close>-th use; \<open>cancelled n\<close> is what the caller's predicate says then.\<close>

definition check_cancelled :: "(nat \<Rightarrow> bool) \<Rightarrow> nat \<Rightarrow> refusal + unit" where
  "check_cancelled cancelled n = (if cancelled n then Inl PreparationCancelled else Inr ())"

text \<open>The part before any cache is read.\<close>

definition prepare_inputs ::
  "('i, 'e, 'k) vlm_context \<Rightarrow> (nat \<Rightarrow> bool) \<Rightarrow> text_request \<Rightarrow> refusal + string list \<times> string \<times> token list \<times> 'i" where
  "prepare_inputs ctx cancelled request =
     refuse_then (check_cancelled cancelled 0) (\<lambda>_.
     refuse_then (refuse (extract_chat_and_image ctx request)) (\<lambda>(chat, images).
     refuse_then (check_cancelled cancelled 1) (\<lambda>_.
     refuse_then (refuse (vc_prompt ctx chat (length images))) (\<lambda>prompt.
     refuse_then (refuse (vc_encode ctx prompt)) (\<lambda>tokens.
     refuse_then (refuse (validate_token_limits request tokens)) (\<lambda>_.
     refuse_then (check_cancelled cancelled 2) (\<lambda>_.
     refuse_then (refuse (vc_inputs ctx images prompt)) (\<lambda>inputs.
     refuse_then (check_cancelled cancelled 3) (\<lambda>_. Inr (images, prompt, tokens, inputs))))))))))"

text \<open>The embeddings of a request that the vision cache does not have.\<close>

definition embed_inputs ::
  "('i, 'e, 'k) vlm_context \<Rightarrow> (nat \<Rightarrow> bool) \<Rightarrow> 'i \<Rightarrow> refusal + ('k, 'c) vlm_kwargs \<times> 'e" where
  "embed_inputs ctx cancelled inputs =
     refuse_then (refuse (vc_embed ctx inputs)) (\<lambda>(base, embeds).
     refuse_then (check_cancelled cancelled 4) (\<lambda>_.
       case embeds of
         None \<Rightarrow> Inl (Refused (RuntimeError ''VLM input embedding output did not include inputs_embeds''))
       | Some e \<Rightarrow> Inr (\<lparr>kw_base = base, kw_cache = None, kw_all_tokens = None, kw_image_hash = None, kw_tenant = None\<rparr>, e)))"

definition set_default :: "'a option \<Rightarrow> 'a \<Rightarrow> 'a option" where
  "set_default old new = (case old of None \<Rightarrow> Some new | Some a \<Rightarrow> Some a)"

definition with_cached_prompt :: "'c cached_prompt option \<Rightarrow> ('k, 'c) vlm_kwargs \<Rightarrow> ('k, 'c) vlm_kwargs" where
  "with_cached_prompt cached kw =
     (case cached of None \<Rightarrow> kw
      | Some p \<Rightarrow> kw\<lparr>kw_cache := set_default (kw_cache kw) (pc_cache p), kw_all_tokens := set_default (kw_all_tokens kw) (pc_tokens p)\<rparr>)"

text \<open>\<open>repr\<close> of a tuple of integers.\<close>

definition tuple_repr :: "int list \<Rightarrow> string" where
  "tuple_repr xs = (case xs of [x] \<Rightarrow> ''('' @ int_str x @ '',)'' | _ \<Rightarrow> ''('' @ join '', '' (map int_str xs) @ '')'')"

definition prepare_request ::
  "('i, 'e, 'k) vlm_context \<Rightarrow> ('v, 'e, 'k, 'c) vision_ops \<Rightarrow> 'c cache_ops \<Rightarrow> (nat \<Rightarrow> bool) \<Rightarrow> text_request \<Rightarrow>
     (key_part, 'c) prompt_store \<times> 'v vision_cache \<Rightarrow>
     (refusal + ('k, 'e, 'c) vlm_job) \<times> (key_part, 'c) prompt_store \<times> 'v vision_cache" where
  "prepare_request ctx vo ck cancelled request caches =
     (case prepare_inputs ctx cancelled request of
        Inl r \<Rightarrow> (Inl r, caches)
      | Inr (images, prompt, tokens, inputs) \<Rightarrow>
          (let (store, vf) = caches;
               image_hash = vc_image_hash ctx images inputs;
               (width, height) = vc_dimensions ctx inputs;
               signature = vc_sha ctx (vc_model_id ctx @ ''|'' @ prompt @ ''|'' @ tuple_repr tokens);
               key = vlm_apc_cache_key ctx tokens images image_hash;
               vision_key = join ''|'' (map (vc_image_key ctx) images);
               (hit, vf1) = (if images \<noteq> [] then vision_get vo vision_key signature vf else (None, vf));
               (cached, store1) = store_lookup (ck_trim ck) (ck_bytes ck) tokens key store;
               made = (case hit of Some snap \<Rightarrow> Inr (vn_kwargs snap, vn_embeds snap) | None \<Rightarrow> embed_inputs ctx cancelled inputs)
           in case made of
                Inl r \<Rightarrow> (Inl r, store1, vf1)
              | Inr (kw, embeds) \<Rightarrow>
                  (let kw1 = (with_cached_prompt cached kw)\<lparr>kw_image_hash := Some image_hash,
                         kw_tenant := Some (vc_model_id ctx @ '':'' @ vc_processor ctx @ '':'' @ take 16 signature)\<rparr>;
                       (vision_bytes, vf2) = (if images \<noteq> [] \<and> hit = None
                          then (case vision_put vo (vc_embed_bytes ctx) vision_key signature embeds kw1 vf1 of (n, v) \<Rightarrow> (Some n, v))
                          else (None, vf1))
                   in (Inr \<lparr>vj_request = request, vj_prompt = tokens, vj_kwargs = kw1, vj_embeds = embeds, vj_images = images,
                          vj_key = key, vj_cached = cached, vj_vision_hit = (hit \<noteq> None), vj_vision_bytes = vision_bytes,
                          vj_width = width, vj_height = height, vj_cached_tokens = 0, vj_prompt_batch = 0, vj_decode_batch = 0,
                          vj_generated = [], vj_rendered = [], vj_stage = ''pending'', vj_cancelled_stage = None,
                          vj_decoding = False\<rparr>, store1, vf2))))"

subsection \<open>Submission, cancellation\<close>

definition vlm_submit ::
  "('i, 'e, 'k) vlm_context \<Rightarrow> text_request \<Rightarrow> ('g, 'k, 'e, 'c, 'v) vlm_scheduler \<Rightarrow> bool \<times> ('g, 'k, 'e, 'c, 'v) vlm_scheduler" where
  "vlm_submit ctx request s =
     (if tr_model request \<noteq> vc_model_id ctx then
        (False, (vlm_send (VlmError (tr_request_id request) ''INVALID_REQUEST'' (model_mismatch (tr_model request) (vc_model_id ctx))) s)
           \<lparr>vs_errors := Suc (vs_errors s)\<rparr>)
      else (True, s\<lparr>vs_pending := vs_pending s @ [request]\<rparr>))"

definition vlm_active_bytes :: "('g, 'e, 'k, 'c) vlm_generator \<Rightarrow> ('g, 'k, 'e, 'c, 'v) vlm_scheduler \<Rightarrow> int" where
  "vlm_active_bytes vg s = (case vs_generator s of None \<Rightarrow> 0 | Some g \<Rightarrow> vg_nbytes vg g)"

definition nonzero :: "nat \<Rightarrow> nat option" where
  "nonzero n = (if n = 0 then None else Some n)"

text \<open>The counts a response carries are the framework's when it gives them.\<close>

definition vlm_job_response ::
  "('g, 'e, 'k, 'c) vlm_generator \<Rightarrow> ('k, 'e, 'c) vlm_job \<Rightarrow> string \<Rightarrow> nat option \<Rightarrow> nat option \<Rightarrow>
     ('g, 'k, 'e, 'c, 'v) vlm_scheduler \<Rightarrow> vlm_response" where
  "vlm_job_response vg job reason prompt_tokens completion_tokens s =
     \<lparr>vr_request_id = tr_request_id (vj_request job), vr_text = vj_rendered job, vr_finish = reason,
      vr_prompt_tokens = (case prompt_tokens of None \<Rightarrow> length (vj_prompt job) | Some n \<Rightarrow> n),
      vr_completion_tokens = (case completion_tokens of None \<Rightarrow> length (vj_generated job) | Some n \<Rightarrow> n),
      vr_image_count = length (vj_images job), vr_cache_hit = (vj_cached job \<noteq> None \<or> 0 < vj_cached_tokens job),
      vr_cached_tokens = (case vj_cached job of Some p \<Rightarrow> Some (length (pc_tokens p)) | None \<Rightarrow> nonzero (vj_cached_tokens job)),
      vr_active_bytes = vlm_active_bytes vg s, vr_prompt_batch = nonzero (vj_prompt_batch job),
      vr_decode_batch = nonzero (vj_decode_batch job), vr_stage = vj_stage job, vr_cancellation_stage = vj_cancelled_stage job,
      vr_cancellations = vs_cancellations s, vr_errors = vs_errors s, vr_vision_hit = vj_vision_hit job,
      vr_vision_bytes = vj_vision_bytes job, vr_vision_evictions = vf_evictions (vs_vision s),
      vr_entries = length (ps_entries (vs_store s)), vr_evictions = sst_evictions (stats_snapshot (vs_store s)),
      vr_width = vj_width job, vr_height = vj_height job\<rparr>"

definition is_vlm_job :: "string \<Rightarrow> ('k, 'e, 'c) vlm_job \<Rightarrow> bool" where
  "is_vlm_job rid job \<longleftrightarrow> tr_request_id (vj_request job) = rid"

definition vlm_cancel ::
  "('g, 'e, 'k, 'c) vlm_generator \<Rightarrow> string \<Rightarrow> ('g, 'k, 'e, 'c, 'v) vlm_scheduler \<Rightarrow>
     (exn + bool) \<times> ('g, 'k, 'e, 'c, 'v) vlm_scheduler" where
  "vlm_cancel vg rid s =
     (let s1 = s\<lparr>vs_cancellations := Suc (vs_cancellations s)\<rparr>
      in case take_first (\<lambda>q. tr_request_id q = rid) (vs_pending s) of
           Some (q, rest) \<Rightarrow>
             (Inr True, vlm_send (VlmCancelled rid ''pending'' (vs_cancellations s1) (vs_errors s1)) (s1\<lparr>vs_pending := rest\<rparr>))
         | None \<Rightarrow>
             (case take_first (\<lambda>(uid, job). is_vlm_job rid job) (vs_active s) of
                Some ((uid, job), rest) \<Rightarrow>
                  (let job1 = job\<lparr>vj_cancelled_stage := Some (vj_stage job), vj_stage := ''cancelled''\<rparr>;
                       s2 = s1\<lparr>vs_active := rest\<rparr>;
                       s3 = vlm_send (VlmResponse (vlm_job_response vg job1 ''cancelled'' None None s2)) s2
                   in case vs_generator s3 of
                        None \<Rightarrow> (Inr True, s3)
                      | Some g \<Rightarrow> (case vg_remove vg uid g of
                            (Inl e, g') \<Rightarrow> (Inl e, s3\<lparr>vs_generator := Some g'\<rparr>)
                          | (Inr _, g') \<Rightarrow> (Inr True, s3\<lparr>vs_generator := Some g'\<rparr>)))
              | None \<Rightarrow>
                  (if rid \<in> set (vs_preparing s) then
                     (Inr True, s1\<lparr>vs_cancelled_preparing := List.insert rid (vs_cancelled_preparing s)\<rparr>)
                   else (Inr False, s))))"

subsection \<open>A step of the generator\<close>

definition note_progress :: "'c vlm_progress \<Rightarrow> ('g, 'k, 'e, 'c, 'v) vlm_scheduler \<Rightarrow> ('g, 'k, 'e, 'c, 'v) vlm_scheduler" where
  "note_progress p s =
     (case map_of (vs_active s) (vp_uid p) of
        None \<Rightarrow> s
      | Some job \<Rightarrow>
          (let job1 = job\<lparr>vj_stage := ''prompt_processing''\<rparr>;
               job2 = (case (vj_cached job1, vp_cache p) of
                   (None, Some c) \<Rightarrow> job1\<lparr>vj_cached := Some \<lparr>pc_tokens = vj_prompt job1, pc_cache = c, pc_bytes = 0, pc_kind = Exact\<rparr>\<rparr>
                 | _ \<Rightarrow> job1);
               job3 = job2\<lparr>vj_cached_tokens := max (vj_cached_tokens job2) (vp_cached_tokens p)\<rparr>
           in s\<lparr>vs_active := AList.update (vp_uid p) job3 (vs_active s)\<rparr>))"

text \<open>The new text of a job: what the decoded text adds to the text rendered so far, the whole decoded text if it does
  not extend it, the framework's text without a tokenizer.\<close>

definition delta_text :: "(token list \<Rightarrow> string) option \<Rightarrow> ('k, 'e, 'c) vlm_job \<Rightarrow> string \<Rightarrow> string" where
  "delta_text decode job answer_text =
     (case decode of
        Some f \<Rightarrow>
          (if vj_generated job \<noteq> [] then
             (let decoded = f (vj_generated job)
              in if prefix (vj_rendered job) decoded then drop (length (vj_rendered job)) decoded else decoded)
           else answer_text)
      | None \<Rightarrow> answer_text)"

definition vlm_emit ::
  "('i, 'e, 'k) vlm_context \<Rightarrow> ('k, 'e, 'c) vlm_job \<Rightarrow> string \<Rightarrow> ('g, 'k, 'e, 'c, 'v) vlm_scheduler \<Rightarrow>
     ('k, 'e, 'c) vlm_job \<times> ('g, 'k, 'e, 'c, 'v) vlm_scheduler" where
  "vlm_emit ctx job answer_text s =
     (let delta = delta_text (vc_decode ctx) job answer_text
      in if delta = [] then (job, s)
         else (job\<lparr>vj_rendered := vj_rendered job @ delta\<rparr>,
               if tr_stream (vj_request job) then vlm_send (VlmDelta (tr_request_id (vj_request job)) delta) s else s))"

definition final_text :: "(token list \<Rightarrow> string) option \<Rightarrow> 'c vlm_answer \<Rightarrow> ('k, 'e, 'c) vlm_job \<Rightarrow> string" where
  "final_text decode answer job =
     (case decode of
        Some f \<Rightarrow>
          (if vj_generated job \<noteq> [] then f (vj_generated job)
           else if \<not> tr_stream (vj_request job) \<and> vj_rendered job = [] then va_text answer else vj_rendered job)
      | None \<Rightarrow> if \<not> tr_stream (vj_request job) \<and> vj_rendered job = [] then va_text answer else vj_rendered job)"

definition keep_prompt_cache ::
  "'c cache_ops \<Rightarrow> 'c vlm_answer \<Rightarrow> ('k, 'e, 'c) vlm_job \<Rightarrow> (key_part, 'c) prompt_store \<Rightarrow> (key_part, 'c) prompt_store option" where
  "keep_prompt_cache ck answer job store =
     (case va_cache answer of
        None \<Rightarrow> Some store
      | Some c \<Rightarrow>
          (let sequence = (case va_all_tokens answer of
                 Some ts \<Rightarrow> if ts = [] then vj_prompt job @ vj_generated job else ts
               | None \<Rightarrow> vj_prompt job @ vj_generated job)
           in case prompt_cache_for_prompt_tokens ck c sequence (vj_prompt job) of
                None \<Rightarrow> Some store
              | Some kept \<Rightarrow> store_remember (ck_bytes ck) (vj_prompt job) kept (vj_key job) store))"

definition vlm_finish ::
  "('i, 'e, 'k) vlm_context \<Rightarrow> ('g, 'e, 'k, 'c) vlm_generator \<Rightarrow> 'c cache_ops \<Rightarrow> ('k, 'e, 'c) vlm_job \<Rightarrow> 'c vlm_answer \<Rightarrow> string \<Rightarrow>
     ('g, 'k, 'e, 'c, 'v) vlm_scheduler \<Rightarrow> ('g, 'k, 'e, 'c, 'v) vlm_scheduler option" where
  "vlm_finish ctx vg ck job answer reason s =
     (let job1 = job\<lparr>vj_rendered := final_text (vc_decode ctx) answer job, vj_stage := ''completed''\<rparr>
      in map_option (\<lambda>store. let s1 = s\<lparr>vs_store := store\<rparr>
           in vlm_send (VlmResponse (vlm_job_response vg job1 reason (va_prompt_tokens answer) (va_generation_tokens answer) s1)) s1)
         (keep_prompt_cache ck answer job1 (vs_store s)))"

fun answer_all ::
  "('i, 'e, 'k) vlm_context \<Rightarrow> ('g, 'e, 'k, 'c) vlm_generator \<Rightarrow> 'c cache_ops \<Rightarrow> 'c vlm_answer list \<Rightarrow>
     ('g, 'k, 'e, 'c, 'v) vlm_scheduler \<Rightarrow> ('g, 'k, 'e, 'c, 'v) vlm_scheduler option" where
  "answer_all ctx vg ck [] s = Some s"
| "answer_all ctx vg ck (a # as) s =
     (case map_of (vs_active s) (va_uid a) of
        None \<Rightarrow> answer_all ctx vg ck as s
      | Some job \<Rightarrow>
          (let job1 = (if vj_decoding job then job else job\<lparr>vj_decoding := True, vj_stage := ''decoding''\<rparr>);
               job2 = job1\<lparr>vj_decode_batch := max (vj_decode_batch job1) (length (vs_active s))\<rparr>;
               job3 = (case va_token a of None \<Rightarrow> job2 | Some t \<Rightarrow> job2\<lparr>vj_generated := vj_generated job2 @ [t]\<rparr>);
               (job4, s4) = vlm_emit ctx job3 (va_text a) s
           in case va_finish a of
                None \<Rightarrow> answer_all ctx vg ck as (s4\<lparr>vs_active := AList.update (va_uid a) job4 (vs_active s4)\<rparr>)
              | Some reason \<Rightarrow>
                  (case vlm_finish ctx vg ck job4 a reason s4 of
                     None \<Rightarrow> None
                   | Some s5 \<Rightarrow> answer_all ctx vg ck as (s5\<lparr>vs_active := AList.delete (va_uid a) (vs_active s5)\<rparr>))))"

definition vlm_step ::
  "('i, 'e, 'k) vlm_context \<Rightarrow> ('g, 'e, 'k, 'c) vlm_generator \<Rightarrow> 'c cache_ops \<Rightarrow> 'g \<Rightarrow>
     ('g, 'k, 'e, 'c, 'v) vlm_scheduler \<Rightarrow> ((exn + unit) \<times> ('g, 'k, 'e, 'c, 'v) vlm_scheduler) option" where
  "vlm_step ctx vg ck g s =
     (case vg_next vg g of
        (Inl e, g') \<Rightarrow> Some (Inl e, s\<lparr>vs_generator := Some g'\<rparr>)
      | (Inr (progress, responses), g') \<Rightarrow>
          map_option (\<lambda>s'. (Inr (), s')) (answer_all ctx vg ck responses (fold note_progress progress (s\<lparr>vs_generator := Some g'\<rparr>))))"

definition vlm_close :: "('g, 'k, 'e, 'c, 'v) vlm_scheduler \<Rightarrow> ('g, 'k, 'e, 'c, 'v) vlm_scheduler" where
  "vlm_close s = s\<lparr>vs_generator := None, vs_sampling := (if vs_generator s = None then vs_sampling s else None)\<rparr>"

subsection \<open>Admission\<close>

definition sampling_key :: "text_request \<Rightarrow> rat \<times> rat" where
  "sampling_key request = (tr_temperature request, tr_top_p request)"

definition next_sampling_key :: "('g, 'k, 'e, 'c, 'v) vlm_scheduler \<Rightarrow> (rat \<times> rat) option" where
  "next_sampling_key s = (case vs_pending s of [] \<Rightarrow> None | q # _ \<Rightarrow> Some (sampling_key q))"

text \<open>The preparation of one request that left the queue: a job for the batch, or the request is answered.  \<open>cancelled rid n\<close> is
  what the worker's cancellation flag says at the \<open>n\<close>-th check.\<close>

definition prepare_one ::
  "('i, 'e, 'k) vlm_context \<Rightarrow> ('v, 'e, 'k, 'c) vision_ops \<Rightarrow> 'c cache_ops \<Rightarrow> (string \<Rightarrow> nat \<Rightarrow> bool) \<Rightarrow> text_request \<Rightarrow>
     ('g, 'k, 'e, 'c, 'v) vlm_scheduler \<Rightarrow> ('k, 'e, 'c) vlm_job option \<times> ('g, 'k, 'e, 'c, 'v) vlm_scheduler" where
  "prepare_one ctx vo ck cancelled request s =
     (let rid = tr_request_id request;
          s1 = s\<lparr>vs_preparing := List.insert rid (vs_preparing s)\<rparr>;
          (res, store, vf) = prepare_request ctx vo ck (\<lambda>n. rid \<in> set (vs_cancelled_preparing s1) \<or> cancelled rid n) request
             (vs_store s1, vs_vision s1);
          s2 = s1\<lparr>vs_store := store, vs_vision := vf\<rparr>;
          (job, s3) = (case res of
              Inr job \<Rightarrow> (Some job, s2)
            | Inl PreparationCancelled \<Rightarrow>
                (None, vlm_send (VlmCancelled rid ''prompt_processing'' (vs_cancellations s2) (vs_errors s2)) s2)
            | Inl (Refused e) \<Rightarrow>
                (None, vlm_send (VlmError rid ''INVALID_REQUEST'' (exn_str e)) (s2\<lparr>vs_errors := Suc (vs_errors s2)\<rparr>)))
      in (job, s3\<lparr>vs_preparing := removeAll rid (vs_preparing s3), vs_cancelled_preparing := removeAll rid (vs_cancelled_preparing s3)\<rparr>))"

text \<open>The loop over the queue; what it skips keeps its place.\<close>

fun admit_loop ::
  "('i, 'e, 'k) vlm_context \<Rightarrow> ('v, 'e, 'k, 'c) vision_ops \<Rightarrow> 'c cache_ops \<Rightarrow> (string \<Rightarrow> nat \<Rightarrow> bool) \<Rightarrow> text_request list \<Rightarrow>
     ('k, 'e, 'c) vlm_job list \<Rightarrow> text_request list \<Rightarrow> ('g, 'k, 'e, 'c, 'v) vlm_scheduler \<Rightarrow>
     ('k, 'e, 'c) vlm_job list \<times> text_request list \<times> ('g, 'k, 'e, 'c, 'v) vlm_scheduler" where
  "admit_loop ctx vo ck cancelled [] batch skipped s = (batch, skipped, s)"
| "admit_loop ctx vo ck cancelled (q # queue) batch skipped s =
     (if vs_decode_concurrency s \<le> int (length (vs_active s)) + int (length batch) then (batch, skipped @ q # queue, s)
      else if Some (sampling_key q) \<noteq> vs_sampling s then admit_loop ctx vo ck cancelled queue batch (skipped @ [q]) s
      else (case prepare_one ctx vo ck cancelled q s of
          (job, s1) \<Rightarrow>
            (let batch1 = (case job of None \<Rightarrow> batch | Some j \<Rightarrow> batch @ [j])
             in if vs_prompt_concurrency s1 \<le> int (length batch1) then (batch1, skipped @ queue, s1)
                else admit_loop ctx vo ck cancelled queue batch1 skipped s1)))"

definition vlm_prompt :: "('k, 'e, 'c) vlm_job \<Rightarrow> token list" where
  "vlm_prompt job = (case vj_cached job of None \<Rightarrow> vj_prompt job | Some p \<Rightarrow> drop (length (pc_tokens p)) (vj_prompt job))"

definition vlm_activate :: "nat \<Rightarrow> ('k, 'e, 'c) vlm_job \<times> nat \<Rightarrow> (nat, ('k, 'e, 'c) vlm_job) dict \<Rightarrow> (nat, ('k, 'e, 'c) vlm_job) dict" where
  "vlm_activate n = (\<lambda>(job, uid) active.
     AList.update uid (job\<lparr>vj_prompt_batch := n, vj_decode_batch := length active + n, vj_stage := ''prompt_processing''\<rparr>) active)"

definition insert_batch ::
  "('g, 'e, 'k, 'c) vlm_generator \<Rightarrow> ('k, 'e, 'c) vlm_job list \<Rightarrow> 'g \<Rightarrow> ('g, 'k, 'e, 'c, 'v) vlm_scheduler \<Rightarrow>
     (exn + unit) \<times> ('g, 'k, 'e, 'c, 'v) vlm_scheduler" where
  "insert_batch vg batch g s =
     (case vg_insert vg (map vlm_prompt batch) (map (\<lambda>job. tr_max_tokens (vj_request job)) batch)
        (map (\<lambda>job. (vj_kwargs job, vj_embeds job)) batch) g of
        (Inl e, g') \<Rightarrow> (Inl e, s\<lparr>vs_generator := Some g'\<rparr>)
      | (Inr uids, g') \<Rightarrow>
          (case check_uids uids (length batch) of
             Some e \<Rightarrow> (Inl e, s\<lparr>vs_generator := Some g'\<rparr>)
           | None \<Rightarrow> (Inr (), s\<lparr>vs_generator := Some g', vs_active := fold (vlm_activate (length batch)) (zip batch uids) (vs_active s)\<rparr>)))"

text \<open>Which generator admits: a new one for the sampling of the first request, or the present one; while it has requests, only if
  the first request has its sampling.\<close>

definition choose_generator ::
  "('g, 'e, 'k, 'c) vlm_generator \<Rightarrow> ('g, 'k, 'e, 'c, 'v) vlm_scheduler \<Rightarrow> (exn + bool) \<times> ('g, 'k, 'e, 'c, 'v) vlm_scheduler" where
  "choose_generator vg s =
     (case vs_generator s of
        None \<Rightarrow>
          (case next_sampling_key s of
             None \<Rightarrow> (Inr False, s)
           | Some k \<Rightarrow>
               (case vg_make vg k of
                  Inl e \<Rightarrow> (Inl e, s\<lparr>vs_sampling := Some k\<rparr>)
                | Inr g \<Rightarrow> (Inr True, s\<lparr>vs_sampling := Some k, vs_generator := Some g\<rparr>)))
      | Some g \<Rightarrow>
          (if vs_sampling s = None then (Inr True, s\<lparr>vs_sampling := next_sampling_key s\<rparr>)
           else if vs_active s \<noteq> [] then (Inr (next_sampling_key s \<noteq> None \<and> next_sampling_key s = vs_sampling s), s)
           else (Inr True, s)))"

definition vlm_admit ::
  "('i, 'e, 'k) vlm_context \<Rightarrow> ('v, 'e, 'k, 'c) vision_ops \<Rightarrow> ('g, 'e, 'k, 'c) vlm_generator \<Rightarrow> 'c cache_ops \<Rightarrow> (string \<Rightarrow> nat \<Rightarrow> bool) \<Rightarrow>
     ('g, 'k, 'e, 'c, 'v) vlm_scheduler \<Rightarrow> (exn + unit) \<times> ('g, 'k, 'e, 'c, 'v) vlm_scheduler" where
  "vlm_admit ctx vo vg ck cancelled s =
     (if vs_pending s = [] then (Inr (), s)
      else if vs_decode_concurrency s \<le> int (length (vs_active s)) then (Inr (), s)
      else (case choose_generator vg s of
          (Inl e, s1) \<Rightarrow> (Inl e, s1)
        | (Inr False, s1) \<Rightarrow> (Inr (), s1)
        | (Inr True, s1) \<Rightarrow>
            (case admit_loop ctx vo ck cancelled (vs_pending s1) [] [] s1 of
               (batch, queue, s2) \<Rightarrow>
                 (let s3 = s2\<lparr>vs_pending := queue\<rparr>
                  in if batch = [] then (Inr (), if vs_active s3 = [] then vlm_close s3 else s3)
                     else (case vs_generator s3 of
                         None \<Rightarrow> (Inl (AttributeError ''insert''), s3)
                       | Some g \<Rightarrow> insert_batch vg batch g s3)))))"

definition vlm_tick ::
  "('i, 'e, 'k) vlm_context \<Rightarrow> ('v, 'e, 'k, 'c) vision_ops \<Rightarrow> ('g, 'e, 'k, 'c) vlm_generator \<Rightarrow> 'c cache_ops \<Rightarrow> (string \<Rightarrow> nat \<Rightarrow> bool) \<Rightarrow>
     ('g, 'k, 'e, 'c, 'v) vlm_scheduler \<Rightarrow> ((exn + unit) \<times> ('g, 'k, 'e, 'c, 'v) vlm_scheduler) option" where
  "vlm_tick ctx vo vg ck cancelled s =
     (let after = (\<lambda>s1. if vs_generator s1 \<noteq> None \<and> vs_active s1 = [] \<and> vs_pending s1 = [] then vlm_close s1 else s1)
      in case vs_generator s of
           None \<Rightarrow> Some (if vs_pending s = [] then (Inr (), s) else vlm_admit ctx vo vg ck cancelled s)
         | Some g \<Rightarrow>
             (if vs_active s = [] then Some (vlm_admit ctx vo vg ck cancelled (after s))
              else (case vlm_step ctx vg ck g s of
                  None \<Rightarrow> None
                | Some (Inl e, s1) \<Rightarrow> Some (Inl e, s1)
                | Some (Inr _, s1) \<Rightarrow> Some (vlm_admit ctx vo vg ck cancelled (after s1)))))"

definition vlm_idle :: "('g, 'k, 'e, 'c, 'v) vlm_scheduler \<Rightarrow> bool" where
  "vlm_idle s \<longleftrightarrow> vs_pending s = [] \<and> vs_active s = []"

end
