(* ===== verification/VlmProps.thy ===== *)
theory VlmProps
  imports Vlm BatchComplete BatchProps
begin

text \<open>
  What the scheduler for requests with images promises: every request is answered once, a batch has one
  sampling, and its prompt cache is only ever hit by the whole prompt.
\<close>

subsection \<open>Runs\<close>

datatype vlm_op = VSubmit text_request | VCancel string | VTick "string \<Rightarrow> nat \<Rightarrow> bool"

fun run_vlm_op ::
  "('i, 'e, 'k) vlm_context \<Rightarrow> ('v, 'e, 'k, 'c) vision_ops \<Rightarrow> ('g, 'e, 'k, 'c) vlm_generator \<Rightarrow> 'c cache_ops \<Rightarrow> vlm_op \<Rightarrow>
     ('g, 'k, 'e, 'c, 'v) vlm_scheduler \<Rightarrow> ((exn + unit) \<times> ('g, 'k, 'e, 'c, 'v) vlm_scheduler) option" where
  "run_vlm_op ctx vo vg ck (VSubmit request) s = Some (Inr (), snd (vlm_submit ctx request s))"
| "run_vlm_op ctx vo vg ck (VCancel rid) s = Some (case vlm_cancel vg rid s of (Inl e, s') \<Rightarrow> (Inl e, s') | (Inr _, s') \<Rightarrow> (Inr (), s'))"
| "run_vlm_op ctx vo vg ck (VTick cancelled) s = vlm_tick ctx vo vg ck cancelled s"

fun run_vlm ::
  "('i, 'e, 'k) vlm_context \<Rightarrow> ('v, 'e, 'k, 'c) vision_ops \<Rightarrow> ('g, 'e, 'k, 'c) vlm_generator \<Rightarrow> 'c cache_ops \<Rightarrow> vlm_op list \<Rightarrow>
     ('g, 'k, 'e, 'c, 'v) vlm_scheduler \<Rightarrow> ((exn + unit) \<times> ('g, 'k, 'e, 'c, 'v) vlm_scheduler) option" where
  "run_vlm ctx vo vg ck [] s = Some (Inr (), s)"
| "run_vlm ctx vo vg ck (op # ops) s =
     (case run_vlm_op ctx vo vg ck op s of
        None \<Rightarrow> None
      | Some (Inl e, s1) \<Rightarrow> Some (Inl e, s1)
      | Some (Inr _, s1) \<Rightarrow> run_vlm ctx vo vg ck ops s1)"

fun vlm_answer_to :: "string \<Rightarrow> vlm_event \<Rightarrow> bool" where
  "vlm_answer_to rid (VlmResponse r) \<longleftrightarrow> vr_request_id r = rid"
| "vlm_answer_to rid (VlmCancelled i stage m n) \<longleftrightarrow> i = rid"
| "vlm_answer_to rid (VlmError i code message) \<longleftrightarrow> i = rid"
| "vlm_answer_to rid (VlmDelta i text') \<longleftrightarrow> False"

definition vlm_answers :: "string \<Rightarrow> ('g, 'k, 'e, 'c, 'v) vlm_scheduler \<Rightarrow> nat" where
  "vlm_answers rid s = length (filter (vlm_answer_to rid) (vs_out s))"

definition requests_of :: "string \<Rightarrow> text_request list \<Rightarrow> nat" where
  "requests_of rid qs = length (filter (\<lambda>q. tr_request_id q = rid) qs)"

definition vlm_outstanding :: "string \<Rightarrow> ('g, 'k, 'e, 'c, 'v) vlm_scheduler \<Rightarrow> nat" where
  "vlm_outstanding rid s = requests_of rid (vs_pending s) + held (is_vlm_job rid) (vs_active s)"

fun vlm_submits :: "string \<Rightarrow> vlm_op list \<Rightarrow> nat" where
  "vlm_submits rid [] = 0"
| "vlm_submits rid (VSubmit request # ops) = (if tr_request_id request = rid then 1 else 0) + vlm_submits rid ops"
| "vlm_submits rid (_ # ops) = vlm_submits rid ops"

lemma requests_of_simps [simp]: "requests_of rid [] = 0" "requests_of rid (xs @ ys) = requests_of rid xs + requests_of rid ys"
  "requests_of rid (q # qs) = (if tr_request_id q = rid then 1 else 0) + requests_of rid qs"
  by (simp_all add: requests_of_def)

text \<open>The generator hands out identifiers that are not in use.\<close>

definition vlm_issues_fresh :: "('g, 'e, 'k, 'c) vlm_generator \<Rightarrow> ('g \<Rightarrow> nat set) \<Rightarrow> bool" where
  "vlm_issues_fresh vg issued \<longleftrightarrow>
     (\<forall>p m kw g uids g'. vg_insert vg p m kw g = (Inr uids, g') \<longrightarrow>
        issued g \<subseteq> issued g' \<and> set uids \<inter> issued g = {} \<and> set uids \<subseteq> issued g') \<and>
     (\<forall>g r g'. vg_next vg g = (r, g') \<longrightarrow> issued g \<subseteq> issued g') \<and>
     (\<forall>uid g r g'. vg_remove vg uid g = (r, g') \<longrightarrow> issued g \<subseteq> issued g')"

lemma vlm_issues:
  assumes "vlm_issues_fresh vg issued"
  shows "vg_insert vg p m kw g = (Inr uids, g') \<Longrightarrow> issued g \<subseteq> issued g' \<and> set uids \<inter> issued g = {} \<and> set uids \<subseteq> issued g'"
    "vg_next vg g = (r, g') \<Longrightarrow> issued g \<subseteq> issued g'" "vg_remove vg uid g = (r', g') \<Longrightarrow> issued g \<subseteq> issued g'"
  using assms unfolding vlm_issues_fresh_def by blast+

subsection \<open>The invariant\<close>

text \<open>A job runs under the sampling of its generator and carries its prompt in its cache key; \<open>odd\<close> jobs do not.\<close>

definition odd_job :: "(rat \<times> rat) option \<Rightarrow> ('k, 'e, 'c) vlm_job \<Rightarrow> bool" where
  "odd_job sampling job \<longleftrightarrow> Some (sampling_key (vj_request job)) \<noteq> sampling \<or> KeyTokens (vj_prompt job) \<notin> set (vj_key job)"

definition store_keyed :: "(key_part, 'c) prompt_store \<Rightarrow> bool" where
  "store_keyed ps \<longleftrightarrow> (\<forall>((namespace, key), cp) \<in> set (ps_entries ps). KeyTokens key \<in> set namespace)"

definition vlm_ok :: "('g \<Rightarrow> nat set) \<Rightarrow> ('g, 'k, 'e, 'c, 'v) vlm_scheduler \<Rightarrow> bool" where
  "vlm_ok issued s \<longleftrightarrow> dict_ok (vs_active s) \<and> int (length (vs_active s)) \<le> max 0 (vs_decode_concurrency s) \<and>
     set (dict_keys (vs_active s)) \<subseteq> handed_out issued (vs_generator s) \<and>
     (vs_generator s \<noteq> None \<longrightarrow> vs_sampling s \<noteq> None) \<and> held (odd_job (vs_sampling s)) (vs_active s) = 0 \<and>
     store_keyed (vs_store s) \<and> vs_preparing s = [] \<and> vs_cancelled_preparing s = []"

definition vlm_keeps :: "(string \<Rightarrow> nat) \<Rightarrow> ('g, 'k, 'e, 'c, 'v) vlm_scheduler \<Rightarrow> ('g, 'k, 'e, 'c, 'v) vlm_scheduler \<Rightarrow> bool" where
  "vlm_keeps n s s' \<longleftrightarrow> (\<forall>rid. vlm_answers rid s' + vlm_outstanding rid s' = vlm_answers rid s + vlm_outstanding rid s + n rid) \<and>
     vs_decode_concurrency s' = vs_decode_concurrency s"

lemma vlm_keeps_trans: "vlm_keeps m s s1 \<Longrightarrow> vlm_keeps n s1 s2 \<Longrightarrow> vlm_keeps (\<lambda>rid. m rid + n rid) s s2"
  by (auto simp: vlm_keeps_def)

lemma vlm_keeps_refl: "vlm_keeps (\<lambda>rid. 0) s s"
  by (simp add: vlm_keeps_def)

lemma vlm_answers_out: "vs_out s' = vs_out s \<Longrightarrow> vlm_answers rid s' = vlm_answers rid s"
  by (simp add: vlm_answers_def)

lemma vlm_answers_send [simp]: "vlm_answers rid (vlm_send ev s) = vlm_answers rid s + (if vlm_answer_to rid ev then 1 else 0)"
  by (simp add: vlm_answers_def vlm_send_def)

lemma vlm_send_frame [simp]:
  "vs_active (vlm_send ev s) = vs_active s" "vs_pending (vlm_send ev s) = vs_pending s" "vs_generator (vlm_send ev s) = vs_generator s"
  "vs_decode_concurrency (vlm_send ev s) = vs_decode_concurrency s" "vs_sampling (vlm_send ev s) = vs_sampling s"
  "vs_store (vlm_send ev s) = vs_store s" "vs_preparing (vlm_send ev s) = vs_preparing s"
  "vs_cancelled_preparing (vlm_send ev s) = vs_cancelled_preparing s" "vs_prompt_concurrency (vlm_send ev s) = vs_prompt_concurrency s"
  by (simp_all add: vlm_send_def)

subsection \<open>Submission and cancellation\<close>

lemma vlm_submit_keeps:
  assumes "vlm_ok issued s"
  shows "vlm_ok issued (snd (vlm_submit ctx request s)) \<and>
    vlm_keeps (\<lambda>rid. if tr_request_id request = rid then 1 else 0) s (snd (vlm_submit ctx request s))"
  using assms
  by (simp add: vlm_submit_def vlm_ok_def vlm_keeps_def vlm_outstanding_def vlm_answers_def vlm_send_def)

lemma held_parts: "held P (xs @ ys) = held P xs + held P ys"
  by (simp add: held_def)

lemma vlm_cancel_keeps:
  assumes ok: "vlm_ok issued s" and law: "vlm_issues_fresh vg issued" and run: "vlm_cancel vg rid s = (Inr b, s')"
  shows "vlm_ok issued s' \<and> vlm_keeps (\<lambda>rid. 0) s s'"
proof (cases "take_first (\<lambda>q. tr_request_id q = rid) (vs_pending s)")
  case (Some p)
  then obtain q rest where p: "take_first (\<lambda>q. tr_request_id q = rid) (vs_pending s) = Some (q, rest)" by (cases p) auto
  from take_first_some [OF p] obtain as bs where ab: "vs_pending s = as @ q # bs" "rest = as @ bs" "tr_request_id q = rid" by blast
  have "s' = vlm_send (VlmCancelled rid ''pending'' (Suc (vs_cancellations s)) (vs_errors s))
      (s\<lparr>vs_cancellations := Suc (vs_cancellations s), vs_pending := rest\<rparr>)"
    using run p by (simp add: vlm_cancel_def Let_def)
  then show ?thesis using ok ab by (simp add: vlm_ok_def vlm_keeps_def vlm_outstanding_def) (simp add: vlm_answers_def)
next
  case None
  show ?thesis
  proof (cases "take_first (\<lambda>(uid, job). is_vlm_job rid job) (vs_active s)")
    case None': None
    have "s' = s" using run None None' ok by (simp add: vlm_cancel_def Let_def vlm_ok_def)
    then show ?thesis using ok vlm_keeps_refl by simp
  next
    case (Some p)
    then obtain uid job rest where p: "take_first (\<lambda>(uid, job). is_vlm_job rid job) (vs_active s) = Some ((uid, job), rest)" by (cases p) auto
    from take_first_some [OF p] obtain as bs where ab: "vs_active s = as @ (uid, job) # bs" "rest = as @ bs" "is_vlm_job rid job" by auto
    obtain g where g: "vs_generator s = Some g" using ok ab(1) by (cases "vs_generator s") (auto simp: vlm_ok_def)
    obtain r g' where rm: "vg_remove vg uid g = (r, g')" by (rule prod.exhaust)
    obtain ev where s': "s' = (vlm_send (VlmResponse ev) (s\<lparr>vs_cancellations := Suc (vs_cancellations s), vs_active := rest\<rparr>))\<lparr>vs_generator := Some g'\<rparr>"
      and ev: "vr_request_id ev = tr_request_id (vj_request job)"
      using run None p g rm by (auto simp: vlm_cancel_def Let_def vlm_job_response_def split: sum.splits)
    have i: "issued g \<subseteq> issued g'" using vlm_issues(3) [OF law rm] .
    have "vlm_ok issued s'" using ok g i ab(1,2) by (auto simp: s' vlm_ok_def held_parts)
    moreover have "vlm_keeps (\<lambda>rid. 0) s s'"
      using ab ev by (simp add: s' vlm_keeps_def vlm_outstanding_def held_parts is_vlm_job_def) (simp add: vlm_answers_def vlm_send_def)
    ultimately show ?thesis by blast
  qed
qed

subsection \<open>A step\<close>

definition same_frame :: "('g, 'k, 'e, 'c, 'v) vlm_scheduler \<Rightarrow> ('g, 'k, 'e, 'c, 'v) vlm_scheduler \<Rightarrow> bool" where
  "same_frame s s' \<longleftrightarrow> vs_pending s' = vs_pending s \<and> vs_generator s' = vs_generator s \<and> vs_sampling s' = vs_sampling s \<and>
     vs_decode_concurrency s' = vs_decode_concurrency s \<and> vs_preparing s' = vs_preparing s \<and>
     vs_cancelled_preparing s' = vs_cancelled_preparing s"

lemma note_progress_keeps:
  assumes "vlm_ok issued s"
  shows "vlm_ok issued (note_progress p s) \<and> vlm_keeps (\<lambda>rid. 0) s (note_progress p s) \<and> same_frame s (note_progress p s)"
proof (cases "map_of (vs_active s) (vp_uid p)")
  case None
  then show ?thesis using assms vlm_keeps_refl by (simp add: note_progress_def same_frame_def)
next
  case (Some job)
  obtain job' where j: "note_progress p s = s\<lparr>vs_active := AList.update (vp_uid p) job' (vs_active s)\<rparr>"
    "vj_request job' = vj_request job" "vj_prompt job' = vj_prompt job" "vj_key job' = vj_key job"
    using Some by (auto simp: note_progress_def Let_def split: option.splits)
  have d: "dict_ok (vs_active s)" using assms by (simp add: vlm_ok_def)
  have P: "held P (AList.update (vp_uid p) job' (vs_active s)) = held P (vs_active s) \<and>
      length (AList.update (vp_uid p) job' (vs_active s)) = length (vs_active s)" if "P job' = P job" for P
    by (rule held_update_same [OF d Some that])
  have key: "vp_uid p \<in> set (dict_keys (vs_active s))" using Some by (metis dict_member_iff option.simps(3))
  have keys: "set (dict_keys (AList.update (vp_uid p) job' (vs_active s))) = set (dict_keys (vs_active s))"
    unfolding dict_keys_update using key by blast
  have "odd_job (vs_sampling s) job' = odd_job (vs_sampling s) job" "is_vlm_job rid job' = is_vlm_job rid job" for rid
    using j by (simp_all add: odd_job_def is_vlm_job_def)
  then show ?thesis
    using assms P [of "odd_job (vs_sampling s)"] P [of "is_vlm_job rid" for rid] d
    by (simp add: j(1) vlm_ok_def vlm_keeps_def same_frame_def vlm_outstanding_def vlm_answers_def keys [unfolded set_map])
qed

lemma progress_keeps:
  "vlm_ok issued s \<Longrightarrow> vlm_ok issued (fold note_progress ps s) \<and> vlm_keeps (\<lambda>rid. 0) s (fold note_progress ps s) \<and> same_frame s (fold note_progress ps s)"
proof (induction ps arbitrary: s)
  case Nil
  then show ?case by (simp add: vlm_keeps_refl same_frame_def)
next
  case (Cons p ps)
  note one = note_progress_keeps [OF Cons.prems, of p]
  have "vlm_ok issued (note_progress p s)" using one by blast
  note rest = Cons.IH [OF this]
  show ?case using one rest vlm_keeps_trans [of "\<lambda>rid. 0" s "note_progress p s" "\<lambda>rid. 0"] by (simp add: same_frame_def)
qed

lemma vlm_emit_frame:
  assumes "vlm_emit ctx job t s = (job', s')"
  shows "vj_request job' = vj_request job \<and> vj_prompt job' = vj_prompt job \<and> vj_key job' = vj_key job \<and>
    same_frame s s' \<and> vs_active s' = vs_active s \<and> vs_store s' = vs_store s \<and> vlm_answers rid s' = vlm_answers rid s"
  using assms by (auto simp: vlm_emit_def Let_def same_frame_def split: if_splits)

lemma remember_keyed:
  assumes "store_keyed ps" "KeyTokens sequence \<in> set namespace" "store_remember ib sequence cache namespace ps = Some ps'"
  shows "store_keyed ps'"
proof (cases "cache = [] \<or> ps_max_bytes ps < estimate_cache_bytes ib cache")
  case True
  then show ?thesis using assms(1,3) by (auto simp: store_remember_def split: if_splits)
next
  case False
  then obtain ps1 where s: "shrink (insert_entry ib sequence cache namespace ps) = Some ps1" "ps' = refresh_stats ps1"
    using assms(3) by (auto simp: store_remember_def)
  have "store_keyed (insert_entry ib sequence cache namespace ps)"
    using assms(1,2) by (auto simp: store_keyed_def insert_entry_fields set_delete)
  then have "store_keyed ps1" using shrink_subset [OF s(1)] by (auto simp: store_keyed_def)
  then show ?thesis by (simp add: s(2) store_keyed_def refresh_stats_def)
qed

lemma keep_prompt_cache_keyed:
  assumes "store_keyed ps" "KeyTokens (vj_prompt job) \<in> set (vj_key job)" "keep_prompt_cache ck ans job ps = Some ps'"
  shows "store_keyed ps'"
proof -
  have "ps' = ps \<or> (\<exists>kept. store_remember (ck_bytes ck) (vj_prompt job) kept (vj_key job) ps = Some ps')"
    using assms(3) unfolding keep_prompt_cache_def Let_def by (auto split: option.splits if_splits)
  then show ?thesis using remember_keyed [OF assms(1,2)] assms(1) by blast
qed

lemma vlm_finish_frame:
  assumes "vlm_finish ctx vg ck job ans reason s = Some s'" "store_keyed (vs_store s)" "KeyTokens (vj_prompt job) \<in> set (vj_key job)"
  shows "same_frame s s' \<and> vs_active s' = vs_active s \<and> store_keyed (vs_store s') \<and>
    vlm_answers rid s' = vlm_answers rid s + (if is_vlm_job rid job then 1 else 0)"
proof -
  let ?job = "job\<lparr>vj_rendered := final_text (vc_decode ctx) ans job, vj_stage := ''completed''\<rparr>"
  obtain st where st: "keep_prompt_cache ck ans ?job (vs_store s) = Some st"
    and s': "s' = vlm_send (VlmResponse (vlm_job_response vg ?job reason (va_prompt_tokens ans) (va_generation_tokens ans) (s\<lparr>vs_store := st\<rparr>)))
        (s\<lparr>vs_store := st\<rparr>)"
    using assms(1) unfolding vlm_finish_def Let_def by auto
  have "store_keyed st" by (rule keep_prompt_cache_keyed [OF assms(2) _ st]) (use assms(3) in simp)
  then show ?thesis by (simp add: s' same_frame_def vlm_job_response_def is_vlm_job_def) (simp add: vlm_answers_def)
qed

lemma no_odd: "held (odd_job k) d = 0 \<Longrightarrow> map_of d uid = Some job \<Longrightarrow> \<not> odd_job k job"
  by (induction d) (auto split: if_splits)

lemma answer_all_keeps:
  assumes "vlm_ok issued s" "answer_all ctx vg ck as s = Some s'"
  shows "vlm_ok issued s' \<and> vlm_keeps (\<lambda>rid. 0) s s' \<and> same_frame s s'"
  using assms
proof (induction as arbitrary: s)
  case Nil
  then show ?case by (simp add: vlm_keeps_refl same_frame_def)
next
  case (Cons a as)
  show ?case
  proof (cases "map_of (vs_active s) (va_uid a)")
    case None
    then show ?thesis using Cons by simp
  next
    case job: (Some job)
    let ?job1 = "if vj_decoding job then job else job\<lparr>vj_decoding := True, vj_stage := ''decoding''\<rparr>"
    let ?job2 = "?job1\<lparr>vj_decode_batch := max (vj_decode_batch ?job1) (length (vs_active s))\<rparr>"
    let ?job3 = "case va_token a of None \<Rightarrow> ?job2 | Some t \<Rightarrow> ?job2\<lparr>vj_generated := vj_generated ?job2 @ [t]\<rparr>"
    obtain job4 s4 where e: "vlm_emit ctx ?job3 (va_text a) s = (job4, s4)" by (rule prod.exhaust)
    have J: "vj_request job4 = vj_request job" "vj_prompt job4 = vj_prompt job" "vj_key job4 = vj_key job"
      and F: "same_frame s s4" "vs_active s4 = vs_active s" "vs_store s4 = vs_store s" "vlm_answers rid s4 = vlm_answers rid s" for rid
      using vlm_emit_frame [OF e, of rid] by (auto split: option.splits)
    have d: "dict_ok (vs_active s)" using Cons.prems(1) by (simp add: vlm_ok_def)
    have key: "va_uid a \<in> set (dict_keys (vs_active s))" using job by (metis dict_member_iff option.simps(3))
    have same: "odd_job (vs_sampling s) job4 = odd_job (vs_sampling s) job" "is_vlm_job rid job4 = is_vlm_job rid job" for rid
      using J by (simp_all add: odd_job_def is_vlm_job_def)
    show ?thesis
    proof (cases "va_finish a")
      case None
      let ?s5 = "s4\<lparr>vs_active := AList.update (va_uid a) job4 (vs_active s4)\<rparr>"
      have run: "answer_all ctx vg ck as ?s5 = Some s'" using Cons.prems(2) job e None by (simp add: Let_def)
      have P: "held P (AList.update (va_uid a) job4 (vs_active s)) = held P (vs_active s) \<and>
          length (AList.update (va_uid a) job4 (vs_active s)) = length (vs_active s)" if "P job4 = P job" for P
        by (rule held_update_same [OF d job that])
      have keys: "set (dict_keys (AList.update (va_uid a) job4 (vs_active s))) = set (dict_keys (vs_active s))"
        unfolding dict_keys_update using key by blast
      have five: "vs_sampling ?s5 = vs_sampling s" "vs_generator ?s5 = vs_generator s" "vs_decode_concurrency ?s5 = vs_decode_concurrency s"
        "vs_store ?s5 = vs_store s" "vs_preparing ?s5 = vs_preparing s" "vs_cancelled_preparing ?s5 = vs_cancelled_preparing s"
        "vs_active ?s5 = AList.update (va_uid a) job4 (vs_active s)"
        using F(1-3) by (simp_all add: same_frame_def)
      have ok: "vlm_ok issued ?s5"
        using Cons.prems(1) P [of "odd_job (vs_sampling s)", OF same(1)] d unfolding vlm_ok_def five keys by auto
      have k: "vlm_keeps (\<lambda>rid. 0) s ?s5"
        using F P [of "is_vlm_job rid" for rid, OF same(2)] by (simp add: vlm_keeps_def vlm_outstanding_def same_frame_def vlm_answers_def)
      from Cons.IH [OF ok run] show ?thesis using vlm_keeps_trans [OF k] F(1) by (auto simp: same_frame_def)
    next
      case (Some reason)
      obtain s5 where f: "vlm_finish ctx vg ck job4 a reason s4 = Some s5"
        using Cons.prems(2) job e Some by (auto simp: Let_def split: option.splits)
      let ?s6 = "s5\<lparr>vs_active := AList.delete (va_uid a) (vs_active s5)\<rparr>"
      have run: "answer_all ctx vg ck as ?s6 = Some s'" using Cons.prems(2) job e Some f by (simp add: Let_def)
      have "\<not> odd_job (vs_sampling s) job" using Cons.prems(1) no_odd [OF _ job] by (simp add: vlm_ok_def)
      then have keyed: "store_keyed (vs_store s4)" "KeyTokens (vj_prompt job4) \<in> set (vj_key job4)"
        using Cons.prems(1) F(3) J by (simp_all add: vlm_ok_def odd_job_def)
      have G: "same_frame s4 s5" "vs_active s5 = vs_active s4" "store_keyed (vs_store s5)"
        "vlm_answers rid s5 = vlm_answers rid s4 + (if is_vlm_job rid job4 then 1 else 0)" for rid
        using vlm_finish_frame [OF f keyed, of rid] by blast+
      have D: "held P (AList.delete (va_uid a) (vs_active s)) + (if P job then 1 else 0) = held P (vs_active s)"
        "length (AList.delete (va_uid a) (vs_active s)) < length (vs_active s)" for P
        using held_delete [OF d job, of P] by simp_all
      have six: "vs_sampling ?s6 = vs_sampling s" "vs_generator ?s6 = vs_generator s" "vs_decode_concurrency ?s6 = vs_decode_concurrency s"
        "vs_preparing ?s6 = vs_preparing s" "vs_cancelled_preparing ?s6 = vs_cancelled_preparing s" "vs_pending ?s6 = vs_pending s"
        "vs_store ?s6 = vs_store s5" "vs_active ?s6 = AList.delete (va_uid a) (vs_active s)"
        using F(1,2) G(1,2) by (simp_all add: same_frame_def)
      have "held (odd_job (vs_sampling s)) (AList.delete (va_uid a) (vs_active s)) = 0"
        using D(1) [of "odd_job (vs_sampling s)"] Cons.prems(1) by (simp add: vlm_ok_def)
      moreover have "set (dict_keys (AList.delete (va_uid a) (vs_active s))) \<subseteq> set (dict_keys (vs_active s))"
        unfolding dict_keys_delete by blast
      ultimately have ok: "vlm_ok issued ?s6"
        using Cons.prems(1) d D(2) G(3) unfolding vlm_ok_def six by auto
      have "vlm_answers rid ?s6 = vlm_answers rid s + (if is_vlm_job rid job then 1 else 0)" for rid
        using F(4) [of rid] G(4) [of rid] same(2) [of rid] by (simp add: vlm_answers_def)
      then have k: "vlm_keeps (\<lambda>rid. 0) s ?s6"
        using D(1) [of "is_vlm_job rid" for rid] unfolding vlm_keeps_def vlm_outstanding_def six by (metis (no_types, lifting) add.assoc add.commute add_0)
      from Cons.IH [OF ok run] show ?thesis using vlm_keeps_trans [OF k] F(1) G(1) by (auto simp: same_frame_def)
    qed
  qed
qed

end
