(* ===== verification/VlmServe.thy ===== *)
theory VlmServe
  imports VlmProps
begin

subsection \<open>Preparation\<close>

lemma keyed_lookup:
  assumes "store_keyed ps" "store_lookup trim ib tokens (vlm_apc_cache_key ctx tokens images n) ps = (hit, ps')"
  shows "store_keyed ps' \<and> (\<forall>p. hit = Some p \<longrightarrow> pc_tokens p = tokens \<and> pc_kind p = Exact)"
proof -
  let ?ns = "vlm_apc_cache_key ctx tokens images n"
  have "pc_tokens p = tokens \<and> pc_kind p = Exact" if p: "lookup_loop trim ib ?ns tokens (rev (ps_entries ps)) None = Some p" for p
  proof -
    obtain key cp where e: "((?ns, key), cp) \<in> set (ps_entries ps)" "candidate trim ib tokens key cp = Some p"
      using lookup_loop_best [where trim = trim and item_bytes = ib and namespace = ?ns and prompt = tokens and
          es = "rev (ps_entries ps)" and best = None] p by auto
    have "KeyTokens key \<in> set ?ns" using assms(1) e(1) by (auto simp: store_keyed_def)
    then have "key = tokens" by (simp add: vlm_apc_cache_key_def)
    then show ?thesis using e(2) by (auto simp: candidate_def)
  qed
  then show ?thesis using assms by (auto simp: store_lookup_def store_keyed_def split: option.splits)
qed

lemma prepare_request_facts:
  assumes "store_keyed store" "prepare_request ctx vo ck cancelled request (store, vf) = (res, store', vf')"
  shows "store_keyed store' \<and> (\<forall>job. res = Inr job \<longrightarrow> vj_request job = request \<and> KeyTokens (vj_prompt job) \<in> set (vj_key job) \<and>
    (\<forall>p. vj_cached job = Some p \<longrightarrow> pc_tokens p = vj_prompt job))"
proof (cases "prepare_inputs ctx cancelled request")
  case (Inl r)
  then show ?thesis using assms by (auto simp: prepare_request_def)
next
  case (Inr t)
  obtain images prompt tokens inputs where t: "t = (images, prompt, tokens, inputs)" by (rule prod_cases4)
  let ?key = "vlm_apc_cache_key ctx tokens images (vc_image_hash ctx images inputs)"
  obtain cached store1 where l: "store_lookup (ck_trim ck) (ck_bytes ck) tokens ?key store = (cached, store1)" by (rule prod.exhaust)
  note L = keyed_lookup [OF assms(1) l]
  have "store' = store1 \<and> (\<forall>job. res = Inr job \<longrightarrow> vj_request job = request \<and> vj_prompt job = tokens \<and> vj_key job = ?key \<and> vj_cached job = cached)"
    using assms(2) Inr l unfolding prepare_request_def t
    by (auto simp: Let_def split: prod.splits sum.splits option.splits if_splits)
  then show ?thesis using L by (auto simp: vlm_apc_cache_key_def)
qed

lemma prepare_one_facts:
  assumes "store_keyed (vs_store s)" "vs_preparing s = []" "vs_cancelled_preparing s = []"
    and "prepare_one ctx vo ck cancelled q s = (job, s')"
  shows "same_frame s s' \<and> vs_active s' = vs_active s \<and> vs_prompt_concurrency s' = vs_prompt_concurrency s \<and> store_keyed (vs_store s') \<and>
    vlm_answers rid s' + requests_of rid (map vj_request (case job of None \<Rightarrow> [] | Some j \<Rightarrow> [j])) = vlm_answers rid s + requests_of rid [q] \<and>
    (\<forall>j. job = Some j \<longrightarrow> vj_request j = q \<and> KeyTokens (vj_prompt j) \<in> set (vj_key j))"
proof -
  obtain res store vf where p: "prepare_request ctx vo ck (\<lambda>n. cancelled (tr_request_id q) n) q (vs_store s, vs_vision s) = (res, store, vf)"
    by (rule prod_cases3)
  note P = prepare_request_facts [OF assms(1) p]
  show ?thesis
  proof (cases res)
    case (Inr j)
    have "job = Some j" "s' = s\<lparr>vs_store := store, vs_vision := vf, vs_preparing := [], vs_cancelled_preparing := []\<rparr>"
      using assms(4) by (simp_all add: prepare_one_def Let_def assms(2,3) p Inr)
    then show ?thesis using P Inr assms(2,3) by (simp add: same_frame_def vlm_answers_def)
  next
    case (Inl r)
    obtain ev n where "job = None"
      "s' = (vlm_send ev (s\<lparr>vs_store := store, vs_vision := vf, vs_errors := n\<rparr>))\<lparr>vs_preparing := [], vs_cancelled_preparing := []\<rparr>"
      "\<And>rid. vlm_answer_to rid ev = (tr_request_id q = rid)"
    proof (cases r)
      case PreparationCancelled
      show ?thesis
        by (rule that [of "VlmCancelled (tr_request_id q) ''prompt_processing'' (vs_cancellations s) (vs_errors s)" "vs_errors s"])
          (use assms(4) in \<open>simp_all add: prepare_one_def Let_def assms(2,3) p Inl PreparationCancelled vlm_send_def\<close>)
    next
      case (Refused e)
      show ?thesis
        by (rule that [of "VlmError (tr_request_id q) ''INVALID_REQUEST'' (exn_str e)" "Suc (vs_errors s)"])
          (use assms(4) in \<open>simp_all add: prepare_one_def Let_def assms(2,3) p Inl Refused vlm_send_def\<close>)
    qed
    then show ?thesis using P assms(2,3) by (simp add: same_frame_def vlm_answers_def vlm_send_def)
  qed
qed

subsection \<open>Admission\<close>

lemma admit_loop_facts:
  assumes "admit_loop ctx vo ck cancelled queue batch skipped s = (batch', queue', s')"
    and "store_keyed (vs_store s)" "vs_preparing s = []" "vs_cancelled_preparing s = []"
    and "\<forall>j \<in> set batch. \<not> odd_job (vs_sampling s) j"
    and "batch = [] \<or> int (length (vs_active s)) + int (length batch) \<le> vs_decode_concurrency s"
  shows "same_frame s s' \<and> vs_active s' = vs_active s \<and> store_keyed (vs_store s') \<and> (\<forall>j \<in> set batch'. \<not> odd_job (vs_sampling s) j) \<and>
    (batch' = [] \<or> int (length (vs_active s)) + int (length batch') \<le> vs_decode_concurrency s) \<and>
    (\<forall>rid. vlm_answers rid s' + requests_of rid (map vj_request batch') + requests_of rid queue' =
      vlm_answers rid s + requests_of rid (map vj_request batch) + requests_of rid skipped + requests_of rid queue)"
  using assms
proof (induction queue arbitrary: batch skipped s)
  case Nil
  then show ?case by (auto simp: same_frame_def)
next
  case (Cons q queue)
  show ?case
  proof (cases "vs_decode_concurrency s \<le> int (length (vs_active s)) + int (length batch)")
    case True
    then show ?thesis using Cons.prems by (auto simp: same_frame_def)
  next
    case room: False
    show ?thesis
    proof (cases "Some (sampling_key q) \<noteq> vs_sampling s")
      case True
      then have run: "admit_loop ctx vo ck cancelled queue batch (skipped @ [q]) s = (batch', queue', s')" using Cons.prems(1) room by simp
      from Cons.IH [OF run Cons.prems(2-6)] show ?thesis by (simp add: add.assoc add.left_commute)
    next
      case key: False
      obtain job s1 where p: "prepare_one ctx vo ck cancelled q s = (job, s1)" by (rule prod.exhaust)
      note P = prepare_one_facts [OF Cons.prems(2-4) p]
      let ?b = "case job of None \<Rightarrow> batch | Some j \<Rightarrow> batch @ [j]"
      have F: "same_frame s s1" "vs_active s1 = vs_active s" "store_keyed (vs_store s1)" using P [of "[]"] by blast+
      have b: "\<forall>j \<in> set ?b. \<not> odd_job (vs_sampling s) j"
      proof (cases job)
        case (Some j)
        then have "vj_request j = q" "KeyTokens (vj_prompt j) \<in> set (vj_key j)" using P [of "[]"] by blast+
        then show ?thesis using Cons.prems(5) key Some by (simp add: odd_job_def)
      qed (use Cons.prems(5) in simp)
      have l: "?b = [] \<or> int (length (vs_active s)) + int (length ?b) \<le> vs_decode_concurrency s"
        using Cons.prems(6) room by (cases job) simp_all
      have A: "vlm_answers rid s1 + requests_of rid (map vj_request ?b) = vlm_answers rid s + requests_of rid (map vj_request batch) + requests_of rid [q]" for rid
        using P [of rid] by (cases job) (auto split: if_splits)
      show ?thesis
      proof (cases "vs_prompt_concurrency s1 \<le> int (length ?b)")
        case True
        then have "batch' = ?b \<and> queue' = skipped @ queue \<and> s' = s1" using Cons.prems(1) room key p by auto
        then have e: "batch' = ?b" "queue' = skipped @ queue" "s' = s1" by blast+
        have "vlm_answers rid s' + requests_of rid (map vj_request batch') + requests_of rid queue' =
            vlm_answers rid s + requests_of rid (map vj_request batch) + requests_of rid skipped + requests_of rid (q # queue)" for rid
          unfolding e using A [of rid] by simp
        then show ?thesis using F b l unfolding e by blast
      next
        case False
        then have run: "admit_loop ctx vo ck cancelled queue ?b skipped s1 = (batch', queue', s')" using Cons.prems(1) room key p by simp
        have s1: "vs_sampling s1 = vs_sampling s" "vs_decode_concurrency s1 = vs_decode_concurrency s" "vs_preparing s1 = []" "vs_cancelled_preparing s1 = []"
          using F(1) Cons.prems(3,4) by (simp_all add: same_frame_def)
        have b1: "\<forall>j \<in> set ?b. \<not> odd_job (vs_sampling s1) j" unfolding s1(1) by (rule b)
        have l1: "?b = [] \<or> int (length (vs_active s1)) + int (length ?b) \<le> vs_decode_concurrency s1" unfolding s1(2) F(2) by (rule l)
        note R = Cons.IH [OF run F(3) s1(3,4) b1 l1]
        have "vlm_answers rid s' + requests_of rid (map vj_request batch') + requests_of rid queue' =
            vlm_answers rid s + requests_of rid (map vj_request batch) + requests_of rid skipped + requests_of rid (q # queue)" for rid
          using R A [of rid] by (simp del: map_append)
        moreover have "same_frame s s'" using R F(1) by (simp add: same_frame_def)
        ultimately show ?thesis using R unfolding s1(1,2) F(2) by blast
      qed
    qed
  qed
qed

lemma insert_batch_keeps:
  assumes ok: "vlm_ok issued s" and law: "vlm_issues_fresh vg issued" and g: "vs_generator s = Some g"
    and batch: "\<forall>j \<in> set batch. \<not> odd_job (vs_sampling s) j" "int (length (vs_active s)) + int (length batch) \<le> vs_decode_concurrency s"
    and run: "insert_batch vg batch g s = (Inr u, s')"
  shows "vlm_ok issued s' \<and> vs_out s' = vs_out s \<and> vs_pending s' = vs_pending s \<and> vs_decode_concurrency s' = vs_decode_concurrency s \<and>
    held (is_vlm_job rid) (vs_active s') = held (is_vlm_job rid) (vs_active s) + requests_of rid (map vj_request batch)"
proof -
  obtain uids g' where ins: "vg_insert vg (map vlm_prompt batch) (map (\<lambda>job. tr_max_tokens (vj_request job)) batch)
        (map (\<lambda>job. (vj_kwargs job, vj_embeds job)) batch) g = (Inr uids, g')" "check_uids uids (length batch) = None"
    and s': "s' = s\<lparr>vs_generator := Some g', vs_active := fold (vlm_activate (length batch)) (zip batch uids) (vs_active s)\<rparr>"
    using run unfolding insert_batch_def by (auto split: prod.splits sum.splits option.splits)
  note fresh = vlm_issues(1) [OF law ins(1)]
  have len: "length uids = length batch" "distinct uids"
    using ins(2) by (auto simp: check_uids_def card_distinct split: if_splits)
  have d: "dict_ok (vs_active s)" "set (dict_keys (vs_active s)) \<subseteq> issued g" using ok g by (simp_all add: vlm_ok_def)
  have z: "map snd (zip batch uids) = uids" "map fst (zip batch uids) = batch" using len by simp_all
  have l2: "length (zip batch uids) = length batch" using len by simp
  have dis: "set uids \<inter> set (dict_keys (vs_active s)) = {}" using d(2) fresh by blast
  have A: "dict_ok (fold (vlm_activate (length batch)) (zip batch uids) (vs_active s)) \<and>
      set (dict_keys (fold (vlm_activate (length batch)) (zip batch uids) (vs_active s))) = set (dict_keys (vs_active s)) \<union> set uids \<and>
      length (fold (vlm_activate (length batch)) (zip batch uids) (vs_active s)) = length (vs_active s) + length batch \<and>
      held P (fold (vlm_activate (length batch)) (zip batch uids) (vs_active s)) = held P (vs_active s) + length (filter P batch)"
    if P: "\<And>u k x. P (x\<lparr>vj_prompt_batch := length batch, vj_decode_batch := k + length batch, vj_stage := ''prompt_processing''\<rparr>) = P x" for P
    unfolding vlm_activate_def
    by (rule held_fold [where f = "\<lambda>uid k job. job\<lparr>vj_prompt_batch := length batch, vj_decode_batch := k + length batch, vj_stage := ''prompt_processing''\<rparr>"
      and P = P and d = "vs_active s" and xs = "zip batch uids", unfolded z l2, OF d(1) len(2) dis P])
  have "filter (odd_job (vs_sampling s)) batch = []" using batch(1) by (simp add: filter_empty_conv)
  then have "held (odd_job (vs_sampling s)) (fold (vlm_activate (length batch)) (zip batch uids) (vs_active s)) = 0"
    using A [of "odd_job (vs_sampling s)"] ok by (simp add: odd_job_def vlm_ok_def)
  moreover have "held (is_vlm_job rid) (fold (vlm_activate (length batch)) (zip batch uids) (vs_active s)) =
      held (is_vlm_job rid) (vs_active s) + requests_of rid (map vj_request batch)"
    using A [of "is_vlm_job rid"] by (simp add: is_vlm_job_def requests_of_def filter_map comp_def is_vlm_job_def [abs_def])
  ultimately show ?thesis
    using A [of "\<lambda>_. True"] ok g batch(2) d fresh by (simp add: s' vlm_ok_def) blast
qed

lemma choose_generator_facts:
  assumes ok: "vlm_ok issued s" and run: "choose_generator vg s = (Inr b, s')"
  shows "vlm_ok issued s' \<and> vlm_keeps (\<lambda>rid. 0) s s' \<and> (b \<longrightarrow> vs_generator s' \<noteq> None) \<and> vs_pending s' = vs_pending s \<and> vs_active s' = vs_active s"
proof (cases "vs_generator s")
  case None
  then have empty: "vs_active s = []" using ok by (simp add: vlm_ok_def)
  consider "s' = s" "\<not> b" | k g where "s' = s\<lparr>vs_sampling := Some k, vs_generator := Some g\<rparr>"
    using run None by (auto simp: choose_generator_def split: option.splits sum.splits)
  then show ?thesis
  proof cases
    case 1
    then show ?thesis using ok vlm_keeps_refl by simp
  next
    case 2
    then show ?thesis using ok empty by (simp add: vlm_ok_def vlm_keeps_def vlm_outstanding_def vlm_answers_def)
  qed
next
  case (Some g)
  then have "vs_sampling s \<noteq> None" using ok by (simp add: vlm_ok_def)
  then have "s' = s" using run Some by (auto simp: choose_generator_def split: if_splits)
  then show ?thesis using ok Some vlm_keeps_refl by simp
qed

lemma vlm_close_keeps:
  assumes "vlm_ok issued s" "vs_active s = []"
  shows "vlm_ok issued (vlm_close s) \<and> vlm_keeps (\<lambda>rid. 0) s (vlm_close s)"
  using assms by (simp add: vlm_close_def vlm_ok_def vlm_keeps_def vlm_outstanding_def vlm_answers_def)

lemma vlm_admit_keeps:
  assumes ok: "vlm_ok issued s" and law: "vlm_issues_fresh vg issued" and run: "vlm_admit ctx vo vg ck cancelled s = (Inr u, s')"
  shows "vlm_ok issued s' \<and> vlm_keeps (\<lambda>rid. 0) s s'"
proof (cases "vs_pending s = [] \<or> vs_decode_concurrency s \<le> int (length (vs_active s))")
  case True
  then have "vlm_admit ctx vo vg ck cancelled s = (Inr (), s)" unfolding vlm_admit_def by (cases "vs_pending s = []") simp_all
  then show ?thesis using run ok vlm_keeps_refl by simp
next
  case room: False
  obtain r s1 where c: "choose_generator vg s = (r, s1)" by (rule prod.exhaust)
  obtain b where r: "r = Inr b" using run room c by (cases r) (auto simp: vlm_admit_def)
  note C = choose_generator_facts [OF ok c [unfolded r]]
  show ?thesis
  proof (cases b)
    case False
    then show ?thesis using run room c r C by (auto simp: vlm_admit_def)
  next
    case True
    then obtain g where g: "vs_generator s1 = Some g" using C by blast
    have ok1: "vlm_ok issued s1" and k1: "vlm_keeps (\<lambda>rid. 0) s s1" using C by blast+
    have p1: "store_keyed (vs_store s1)" "vs_preparing s1 = []" "vs_cancelled_preparing s1 = []" using ok1 by (simp_all add: vlm_ok_def)
    obtain batch queue s2 where l: "admit_loop ctx vo ck cancelled (vs_pending s1) [] [] s1 = (batch, queue, s2)" by (rule prod_cases3)
    note L = admit_loop_facts [OF l p1]
    have F: "same_frame s1 s2" "vs_active s2 = vs_active s1" "store_keyed (vs_store s2)" "\<forall>j \<in> set batch. \<not> odd_job (vs_sampling s1) j"
      "batch = [] \<or> int (length (vs_active s1)) + int (length batch) \<le> vs_decode_concurrency s1" using L by simp_all
    have count: "vlm_answers rid s2 + requests_of rid (map vj_request batch) + requests_of rid queue = vlm_answers rid s1 + requests_of rid (vs_pending s1)" for rid
      using L by simp
    let ?s3 = "s2\<lparr>vs_pending := queue\<rparr>"
    have three: "vs_generator ?s3 = vs_generator s1" "vs_sampling ?s3 = vs_sampling s1" "vs_decode_concurrency ?s3 = vs_decode_concurrency s1"
      "vs_preparing ?s3 = []" "vs_cancelled_preparing ?s3 = []" "vs_active ?s3 = vs_active s1" "vs_store ?s3 = vs_store s2" "vs_pending ?s3 = queue"
      using F(1,2) p1(2,3) by (simp_all add: same_frame_def)
    have out: "vlm_answers rid ?s3 = vlm_answers rid s2" for rid by (simp add: vlm_answers_def)
    have ok3: "vlm_ok issued ?s3" using ok1 F(3) unfolding vlm_ok_def three by blast
    show ?thesis
    proof (cases "batch = []")
      case True
      have k3: "vlm_keeps (\<lambda>rid. 0) s1 ?s3"
        using count True unfolding vlm_keeps_def vlm_outstanding_def three out by simp
      have "s' = (if vs_active ?s3 = [] then vlm_close ?s3 else ?s3)"
        using run room c r \<open>b\<close> l True by (auto simp: vlm_admit_def Let_def)
      then have "vlm_ok issued s' \<and> vlm_keeps (\<lambda>rid. 0) ?s3 s'"
        using ok3 vlm_close_keeps [OF ok3] by (simp add: vlm_keeps_refl)
      then show ?thesis using vlm_keeps_trans [OF vlm_keeps_trans [OF k1 k3]] by auto
    next
      case False
      have ins: "insert_batch vg batch g ?s3 = (Inr u, s')"
        using run room c r \<open>b\<close> l False g F(1) by (simp add: vlm_admit_def Let_def same_frame_def)
      have H: "vs_generator ?s3 = Some g" "\<forall>j \<in> set batch. \<not> odd_job (vs_sampling ?s3) j"
        "int (length (vs_active ?s3)) + int (length batch) \<le> vs_decode_concurrency ?s3"
        using g F(4,5) False unfolding three by simp_all
      note I = insert_batch_keeps [OF ok3 law H ins]
      have I1: "vlm_answers rid s' = vlm_answers rid s2" "vs_pending s' = queue" "vs_decode_concurrency s' = vs_decode_concurrency s1"
        "held (is_vlm_job rid) (vs_active s') = held (is_vlm_job rid) (vs_active s1) + requests_of rid (map vj_request batch)" for rid
        using I [of rid] three by (simp_all add: vlm_answers_def)
      have "vlm_keeps (\<lambda>rid. 0) s1 s'"
        using count unfolding vlm_keeps_def vlm_outstanding_def I1 by (simp add: algebra_simps)
      then show ?thesis using I vlm_keeps_trans [OF k1] by auto
    qed
  qed
qed

lemma vlm_step_keeps:
  assumes ok: "vlm_ok issued s" and law: "vlm_issues_fresh vg issued" and g: "vs_generator s = Some g"
    and run: "vlm_step ctx vg ck g s = Some (Inr u, s')"
  shows "vlm_ok issued s' \<and> vlm_keeps (\<lambda>rid. 0) s s'"
proof -
  obtain ps as g' where n: "vg_next vg g = (Inr (ps, as), g')"
    and a: "answer_all ctx vg ck as (fold note_progress ps (s\<lparr>vs_generator := Some g'\<rparr>)) = Some s'"
    using run unfolding vlm_step_def by (auto split: prod.splits sum.splits)
  have i: "issued g \<subseteq> issued g'" using vlm_issues(2) [OF law n] .
  have "vlm_ok issued (s\<lparr>vs_generator := Some g'\<rparr>)" using ok g i by (auto simp: vlm_ok_def)
  note P = progress_keeps [OF this, of ps]
  have k: "vlm_keeps (\<lambda>rid. 0) s (s\<lparr>vs_generator := Some g'\<rparr>)" by (simp add: vlm_keeps_def vlm_outstanding_def vlm_answers_def)
  have okp: "vlm_ok issued (fold note_progress ps (s\<lparr>vs_generator := Some g'\<rparr>))" using P by blast
  note A = answer_all_keeps [OF okp a]
  show ?thesis using A P vlm_keeps_trans [OF k] vlm_keeps_trans by fastforce
qed

lemma vlm_tick_keeps:
  assumes ok: "vlm_ok issued s" and law: "vlm_issues_fresh vg issued" and run: "vlm_tick ctx vo vg ck cancelled s = Some (Inr u, s')"
  shows "vlm_ok issued s' \<and> vlm_keeps (\<lambda>rid. 0) s s'"
proof -
  let ?after = "\<lambda>s1. if vs_generator s1 \<noteq> None \<and> vs_active s1 = [] \<and> vs_pending s1 = [] then vlm_close s1 else s1"
  have after: "vlm_ok issued (?after s1) \<and> vlm_keeps (\<lambda>rid. 0) s1 (?after s1)" if "vlm_ok issued s1" for s1
    using vlm_close_keeps [OF that] that by (simp add: vlm_keeps_refl)
  obtain s1 where s1: "vlm_ok issued s1 \<and> vlm_keeps (\<lambda>rid. 0) s s1"
    and r: "vlm_admit ctx vo vg ck cancelled (?after s1) = (Inr u, s') \<or> s' = s1 \<or> vlm_admit ctx vo vg ck cancelled s1 = (Inr u, s')"
  proof (cases "vs_generator s")
    case None
    then have "s' = s \<or> vlm_admit ctx vo vg ck cancelled s = (Inr u, s')" using run by (auto simp: vlm_tick_def split: if_splits)
    with that [of s] ok show ?thesis by (auto simp: vlm_keeps_refl)
  next
    case (Some g)
    show ?thesis
    proof (cases "vs_active s = []")
      case True
      have "vlm_admit ctx vo vg ck cancelled (?after s) = (Inr u, s')" using run Some True by (simp add: vlm_tick_def Let_def)
      with that [of s] ok show ?thesis by (simp add: vlm_keeps_refl)
    next
      case False
      obtain s1 where st: "vlm_step ctx vg ck g s = Some (Inr (), s1)" "vlm_admit ctx vo vg ck cancelled (?after s1) = (Inr u, s')"
        using run Some False unfolding vlm_tick_def Let_def by (auto split: option.splits prod.splits sum.splits)
      show ?thesis by (rule that [OF vlm_step_keeps [OF ok law Some st(1)]]) (use st(2) in blast)
    qed
  qed
  note A = after [of s1]
  have k: "vlm_keeps (\<lambda>rid. 0) s (?after s1)" using vlm_keeps_trans [of "\<lambda>rid. 0" s s1 "\<lambda>rid. 0"] A s1 by simp
  from r show ?thesis
  proof (elim disjE)
    assume "vlm_admit ctx vo vg ck cancelled (?after s1) = (Inr u, s')"
    from vlm_admit_keeps [OF _ law this] show ?thesis using A s1 vlm_keeps_trans [OF k] by auto
  next
    assume "vlm_admit ctx vo vg ck cancelled s1 = (Inr u, s')"
    from vlm_admit_keeps [OF _ law this] show ?thesis using s1 vlm_keeps_trans [of "\<lambda>rid. 0" s s1 "\<lambda>rid. 0"] by auto
  qed (use s1 in simp)
qed

lemma run_vlm_keeps:
  assumes "vlm_ok issued s" "vlm_issues_fresh vg issued" "run_vlm ctx vo vg ck ops s = Some (Inr u, s')"
  shows "vlm_ok issued s' \<and> vlm_keeps (\<lambda>rid. vlm_submits rid ops) s s'"
  using assms(1,3)
proof (induction ops arbitrary: s)
  case Nil
  then show ?case by (simp add: vlm_keeps_def)
next
  case (Cons op ops)
  obtain x s1 where one: "run_vlm_op ctx vo vg ck op s = Some (Inr x, s1)" and rest: "run_vlm ctx vo vg ck ops s1 = Some (Inr u, s')"
    using Cons.prems(2) by (auto split: option.splits prod.splits sum.splits)
  have step: "vlm_ok issued s1 \<and> vlm_keeps (\<lambda>rid. vlm_submits rid [op]) s s1"
  proof (cases op)
    case (VSubmit request)
    then show ?thesis using one vlm_submit_keeps [OF Cons.prems(1), of ctx request] by (simp cong: if_cong)
  next
    case (VCancel rid)
    then show ?thesis using one vlm_cancel_keeps [OF Cons.prems(1) assms(2)] by (auto split: sum.splits prod.splits)
  next
    case (VTick cancelled)
    then show ?thesis using one vlm_tick_keeps [OF Cons.prems(1) assms(2)] by simp
  qed
  have split: "vlm_submits rid (op # ops) = vlm_submits rid [op] + vlm_submits rid ops" for rid by (cases op) simp_all
  have "vlm_ok issued s1" using step by blast
  from Cons.IH [OF this rest] show ?case
    using step vlm_keeps_trans unfolding split by blast
qed

lemma new_vlm_ok: "vlm_ok issued (new_vlm_scheduler pc dc (new_store me mb) vf)"
  by (simp add: vlm_ok_def new_vlm_scheduler_def store_keyed_def new_store_def)

subsection \<open>Images\<close>

text \<open>What a prepared job's images are: an \<^verbatim>\<open>https\<close> URL, an \<^verbatim>\<open>http\<close> URL of the local machine, or the path of a
  file that exists.\<close>

definition allowed_image :: "url_ops \<Rightarrow> string \<Rightarrow> bool" where
  "allowed_image uo img \<longleftrightarrow> uo_scheme uo img = ''https'' \<or>
     uo_scheme uo img = ''http'' \<and> uo_hostname uo img \<in> Some ` set allowed_http_hosts \<or>
     (\<exists>url. uo_scheme uo url = [] \<and> uo_is_file uo url \<and> img = uo_path uo url)"

lemma validated_image: "validate_image_source uo url = Inr img \<Longrightarrow> allowed_image uo img"
  by (cases "uo_scheme uo url = []"; cases "uo_scheme uo url = ''http''")
    (auto simp: validate_image_source_def allowed_image_def allowed_image_schemes_def split: if_splits option.splits)

lemma extract_parts_allowed: "extract_parts uo parts = Inr (js, images) \<Longrightarrow> img \<in> set images \<Longrightarrow> allowed_image uo img"
proof (induction uo parts arbitrary: js images rule: extract_parts.induct)
  case (3 uo url detail parts)
  obtain u where u: "url = JStr u" using 3(2) by (cases url) simp_all
  obtain source js' images' where v: "validate_image_source uo u = Inr source" "extract_parts uo parts = Inr (js', images')"
    "images = source # images'"
    using 3(2) by (auto simp: u and_then_def split: sum.splits)
  show ?case using 3(1) [OF u v(2)] 3(3) v(3) validated_image [OF v(1)] by auto
qed (auto simp: and_then_def split: sum.splits)

lemma extract_messages_allowed: "extract_messages uo ms = Inr (js, images) \<Longrightarrow> img \<in> set images \<Longrightarrow> allowed_image uo img"
proof (induction uo ms arbitrary: js images rule: extract_messages.induct)
  case (2 uo m ms)
  show ?case
  proof (cases "cm_content m")
    case (PlainText t)
    then obtain js' where "extract_messages uo ms = Inr (js', images)" using "2.prems" by (auto simp: and_then_def split: sum.splits)
    then show ?thesis using "2.IH" PlainText "2.prems" by blast
  next
    case (PartList parts)
    then obtain ps first js' rest where "extract_parts uo parts = Inr (ps, first)" "extract_messages uo ms = Inr (js', rest)" "images = first @ rest"
      using "2.prems" by (auto simp: and_then_def split: sum.splits)
    then show ?thesis using "2.IH" PartList "2.prems" extract_parts_allowed by auto
  qed
qed simp

subsection \<open>A small backend\<close>

text \<open>Caches are the tokens they stand for; every request is answered by the token 7.\<close>

type_synonym vlm_toy = "nat \<times> (nat \<times> token list) list"

definition toy_vlm :: "(vlm_toy, int, unit, token) vlm_generator" where
  "toy_vlm =
     \<lparr>vg_make = (\<lambda>k. Inr (0, [])),
      vg_next = (\<lambda>(k, live). (Inr ([], map (\<lambda>(uid, ts). \<lparr>va_uid = uid, va_token = Some 7, va_text = ''a'', va_finish = Some ''length'',
         va_cache = Some (ts @ [7]), va_all_tokens = Some (ts @ [7]), va_prompt_tokens = None, va_generation_tokens = None\<rparr>) live), (k, []))),
      vg_insert = (\<lambda>prompts m kws (k, live).
         (Inr [k..<k + length prompts],
          (k + length prompts, live @ zip [k..<k + length prompts]
             (map2 (@) (map (\<lambda>(kw, e). case kw_cache kw of None \<Rightarrow> [] | Some c \<Rightarrow> c) kws) prompts)))),
      vg_remove = (\<lambda>uid (k, live). (Inr (), (k, filter (\<lambda>(u, ts). u \<noteq> uid) live))),
      vg_nbytes = (\<lambda>(k, live). 0)\<rparr>"

type_synonym vision_list = "(string \<times> (int, unit, token) vision_snapshot) list"

definition toy_vision :: "(vision_list, int, unit, token) vision_ops" where
  "toy_vision = \<lparr>vo_get = (\<lambda>k v. (map_of v k, v)), vo_put = (\<lambda>k snap v. AList.update k snap v), vo_items = (\<lambda>v. v)\<rparr>"

definition toy_trim :: "token cache_ops" where
  "toy_trim = \<lparr>ck_bytes = (\<lambda>c. 1), ck_trim = (\<lambda>c n. Some (take (length c - n) c))\<rparr>"

definition toy_urls :: url_ops where
  "toy_urls = \<lparr>uo_scheme = (\<lambda>u. if take 5 u = ''https'' then ''https'' else []), uo_hostname = (\<lambda>u. None),
     uo_is_file = (\<lambda>u. u = ''/a.png''), uo_path = (\<lambda>u. u)\<rparr>"

definition toy_context :: "(string list, int, unit) vlm_context" where
  "toy_context = \<lparr>vc_model_id = ''m'', vc_processor = ''p'', vc_template = None, vc_adapter = None, vc_tenant = ''t'', vc_urls = toy_urls,
     vc_max_images = 2, vc_prompt = (\<lambda>chat n. Inr (replicate n CHR 0x69)), vc_encode = (\<lambda>p. Inr [1, 2, int (length p)]),
     vc_inputs = (\<lambda>images p. Inr images), vc_image_hash = (\<lambda>images i. int (length images)), vc_image_key = (\<lambda>u. u),
     vc_dimensions = (\<lambda>i. (None, None)), vc_embed = (\<lambda>i. Inr ((), Some (int (length i)))), vc_embed_bytes = (\<lambda>e. 1 + e),
     vc_sha = (\<lambda>u. u), vc_decode = Some (\<lambda>ts. map (\<lambda>t. CHR 0x61) ts)\<rparr>"

definition image_request :: "string \<Rightarrow> string list \<Rightarrow> text_request" where
  "image_request rid urls = \<lparr>tr_request_id = rid, tr_model = ''m'',
     tr_messages = [\<lparr>cm_role = JStr ''user'', cm_content = PartList (map (\<lambda>u. ImageContent (JStr u) JNull) urls)\<rparr>],
     tr_max_tokens = 4, tr_temperature = 0, tr_top_p = 1, tr_max_prompt_tokens = 100, tr_max_completion_tokens = 100,
     tr_max_total_tokens = 100, tr_stop = [], tr_stream = True\<rparr>"

definition toy_start :: "(vlm_toy, unit, int, token, vision_list) vlm_scheduler" where
  "toy_start = new_vlm_scheduler 2 2 (new_store 8 100)
     \<lparr>vf_cache = [], vf_max_entries = 4, vf_max_bytes = 100, vf_hits = 0, vf_misses = 0, vf_evictions = 0, vf_bytes = 0\<rparr>"

definition vlm_toy_ops :: "vlm_op list" where
  "vlm_toy_ops = [VSubmit (image_request ''a'' [''https://x'']), VSubmit (image_request ''b'' [''ftp://x'']), VTick (\<lambda>rid n. False),
     VTick (\<lambda>rid n. False), VSubmit (image_request ''c'' [''https://x'']), VTick (\<lambda>rid n. False)]"

definition toy_final :: "(vlm_toy, unit, int, token, vision_list) vlm_scheduler" where
  "toy_final = (case run_vlm toy_context toy_vision toy_vlm toy_trim vlm_toy_ops toy_start of Some (Inr _, s) \<Rightarrow> s | _ \<Rightarrow> toy_start)"

lemma toy_vlm_run: "run_vlm toy_context toy_vision toy_vlm toy_trim vlm_toy_ops toy_start = Some (Inr (), toy_final)"
proof -
  have "(case run_vlm toy_context toy_vision toy_vlm toy_trim vlm_toy_ops toy_start of Some (Inr _, s) \<Rightarrow> True | _ \<Rightarrow> False)"
    by code_simp
  then show ?thesis by (auto simp: toy_final_def split: option.splits sum.splits prod.splits)
qed

lemma toy_vlm_fresh: "vlm_issues_fresh toy_vlm (\<lambda>(k, live). {..<k})"
  by (auto simp: vlm_issues_fresh_def toy_vlm_def)

subsection \<open>The theorems\<close>

text \<open>C38: The scheduler for requests with images, from a new one and whatever the sequence of submissions, cancellations and
  ticks, as long as no call raises and the generator's identifiers are fresh: the responses, refusals and cancellations sent for
  a request identifier and its requests still pending or active are together exactly the submissions of it, and the decode batch
  never grows past \<open>decode_concurrency\<close>.\<close>

theorem every_image_request_is_answered_once:
  assumes "vlm_issues_fresh vg issued"
    and "run_vlm ctx vo vg ck ops (new_vlm_scheduler pc dc (new_store me mb) vf) = Some (Inr (), s')"
  shows "vlm_answers rid s' + vlm_outstanding rid s' = vlm_submits rid ops \<and> int (length (vs_active s')) \<le> max 0 dc"
proof -
  have "int (length (vs_active s')) \<le> max 0 (vs_decode_concurrency s')" and k: "vlm_keeps (\<lambda>rid. vlm_submits rid ops) (new_vlm_scheduler pc dc (new_store me mb) vf) s'"
    using run_vlm_keeps [OF new_vlm_ok assms] by (simp_all add: vlm_ok_def)
  moreover have "vs_decode_concurrency s' = dc" using k by (simp add: vlm_keeps_def new_vlm_scheduler_def)
  moreover have "vlm_answers rid s' + vlm_outstanding rid s' = vlm_submits rid ops"
    using k by (simp add: vlm_keeps_def vlm_answers_def vlm_outstanding_def held_def new_vlm_scheduler_def)
  ultimately show ?thesis by simp
qed

theorem every_image_request_is_answered_once_witness:
  "vlm_answers ''a'' toy_final = 1 \<and> vlm_answers ''b'' toy_final = 1 \<and> vlm_answers ''c'' toy_final = 0 \<and>
   vlm_answers ''c'' toy_final + vlm_outstanding ''c'' toy_final = 1"
proof -
  have "vlm_answers ''a'' toy_final = 1" "vlm_answers ''b'' toy_final = 1" "vlm_answers ''c'' toy_final = 0" "vlm_submits ''c'' vlm_toy_ops = 1"
    by code_simp+
  then show ?thesis using every_image_request_is_answered_once [OF toy_vlm_fresh toy_vlm_run [unfolded toy_start_def], of "''c''"] by simp
qed

text \<open>All requests of a decode batch have the sampling parameters of its generator, although the queue holds
  requests of any: those with other parameters wait until the batch is empty.\<close>

lemma image_batch_has_one_sampling:
  assumes "vlm_issues_fresh vg issued"
    and "run_vlm ctx vo vg ck ops (new_vlm_scheduler pc dc (new_store me mb) vf) = Some (Inr (), s')"
    and "map_of (vs_active s') uid = Some job"
  shows "vs_sampling s' = Some (sampling_key (vj_request job))"
proof -
  have "held (odd_job (vs_sampling s')) (vs_active s') = 0" using run_vlm_keeps [OF new_vlm_ok assms(1,2)] by (simp add: vlm_ok_def)
  from no_odd [OF this assms(3)] show ?thesis by (simp add: odd_job_def)
qed

lemma image_batch_has_one_sampling_witness:
  "length (vs_active toy_final) = 1 \<and>
   (case map_of (vs_active toy_final) 0 of Some job \<Rightarrow> vs_sampling toy_final = Some (sampling_key (vj_request job)) | None \<Rightarrow> False)"
proof -
  have "map_of (vs_active toy_final) 0 \<noteq> None" and l: "length (vs_active toy_final) = 1" by code_simp+
  then obtain job where "map_of (vs_active toy_final) 0 = Some job" by blast
  then show ?thesis using image_batch_has_one_sampling [OF toy_vlm_fresh toy_vlm_run [unfolded toy_start_def], of 0] l by simp
qed

text \<open>C40: A prompt cache that the scheduler for images finds for a request is always one of the whole prompt, because the
  prompt is part of the namespace it is kept under: a shorter or a longer prefix is never reused, and what is inserted into
  the generator for such a request is an empty prompt.\<close>

theorem image_cache_hits_are_whole_prompts:
  assumes "vlm_issues_fresh vg issued"
    and "run_vlm ctx vo vg ck ops (new_vlm_scheduler pc dc (new_store me mb) vf) = Some (Inr (), s)"
    and "prepare_request ctx vo ck cancelled request (vs_store s, vs_vision s) = (Inr job, store', vision')"
    and "vj_cached job = Some p"
  shows "pc_tokens p = vj_prompt job \<and> vlm_prompt job = []"
proof -
  have "store_keyed (vs_store s)" using run_vlm_keeps [OF new_vlm_ok assms(1,2)] by (simp add: vlm_ok_def)
  from prepare_request_facts [OF this assms(3)] assms(4) show ?thesis by (simp add: vlm_prompt_def)
qed

definition toy_again :: "(unit, int, token) vlm_job option" where
  "toy_again = (case prepare_request toy_context toy_vision toy_trim (\<lambda>n. False) (image_request ''d'' [''https://x'']) (vs_store toy_final, vs_vision toy_final) of
     (Inr job, _) \<Rightarrow> Some job | _ \<Rightarrow> None)"

theorem image_cache_hits_are_whole_prompts_witness:
  "case toy_again of Some job \<Rightarrow> vj_prompt job = [1, 2, 1] \<and> vlm_prompt job = [] | None \<Rightarrow> False"
proof -
  have "case toy_again of Some job \<Rightarrow> vj_prompt job = [1, 2, 1] \<and> vj_cached job \<noteq> None | None \<Rightarrow> False" by code_simp
  then obtain job p where j: "toy_again = Some job" "vj_prompt job = [1, 2, 1]" "vj_cached job = Some p" by (auto split: option.splits)
  obtain store' vision' where "prepare_request toy_context toy_vision toy_trim (\<lambda>n. False) (image_request ''d'' [''https://x''])
      (vs_store toy_final, vs_vision toy_final) = (Inr job, store', vision')"
    using j(1) by (auto simp: toy_again_def split: prod.splits sum.splits)
  from image_cache_hits_are_whole_prompts [OF toy_vlm_fresh toy_vlm_run [unfolded toy_start_def] this j(3)] show ?thesis unfolding j(1) using j(2) by simp
qed

text \<open>C39: A request is only prepared when each of its images is an \<^verbatim>\<open>https\<close> URL, an \<^verbatim>\<open>http\<close> URL of the
  local machine or an existing file, and when they are at most \<open>max_images\<close>; the framework is never given another source.\<close>

theorem prepared_images_are_allowed:
  assumes "prepare_request ctx vo ck cancelled request caches = (Inr job, caches')"
  shows "int (length (vj_images job)) \<le> vc_max_images ctx \<and> (\<forall>img \<in> set (vj_images job). allowed_image (vc_urls ctx) img)"
proof -
  obtain imgs prompt tokens inputs where i: "prepare_inputs ctx cancelled request = Inr (imgs, prompt, tokens, inputs)"
    using assms by (cases "prepare_inputs ctx cancelled request") (auto simp: prepare_request_def)
  have e: "vj_images job = imgs" using assms unfolding prepare_request_def i
    by (auto simp: Let_def split: prod.splits sum.splits option.splits if_splits)
  obtain chat where "extract_chat_and_image ctx request = Inr (chat, imgs)"
    using i unfolding prepare_inputs_def refuse_then_def refuse_def by (auto split: sum.splits)
  then show ?thesis unfolding e using extract_messages_allowed
    by (auto simp: extract_chat_and_image_def and_then_def split: sum.splits if_splits)
qed

theorem prepared_images_are_allowed_witness:
  "allowed_image toy_urls ''https://x''"
proof -
  have "case toy_again of Some job \<Rightarrow> vj_images job = [''https://x''] | None \<Rightarrow> False" by code_simp
  then obtain job where j: "toy_again = Some job" "vj_images job = [''https://x'']" by (auto split: option.splits)
  obtain caches' where "prepare_request toy_context toy_vision toy_trim (\<lambda>n. False) (image_request ''d'' [''https://x''])
      (vs_store toy_final, vs_vision toy_final) = (Inr job, caches')"
    using j(1) by (auto simp: toy_again_def split: prod.splits sum.splits)
  from prepared_images_are_allowed [OF this] show ?thesis unfolding j by (simp add: toy_context_def)
qed

end
