(* ===== verification/Direct.thy ===== *)
theory Direct
  imports Config Worker
begin

text \<open>
  The worker's loop without batching, \<^verbatim>\<open>main\<close> in \<^verbatim>\<open>mlx_worker/main.py\<close> after the bootstrap: one
  request at a time; while an engine works on it, its \<^verbatim>\<open>should_cancel\<close> callback reads the socket, looks for the
  cancellation of this request and puts other lines aside for later.  The engines are parameters: what an engine with state \<open>'s\<close>
  does next for a request, given what its calls have returned so far.  They may never return: \<open>None\<close>.  Signals are left out.
\<close>

subsection \<open>Reading lines\<close>

definition line_end :: char where
  "line_end = char_of (10 :: nat)"

definition pop_buffered_line :: "string \<Rightarrow> (string \<times> string) option" where
  "pop_buffered_line buffer =
     (if line_end \<in> set buffer
      then (let line = takeWhile (\<lambda>c. c \<noteq> line_end) buffer @ [line_end] in Some (line, drop (length line) buffer)) else None)"

text \<open>An empty chunk, or no more arrivals, is the end of the input for good.\<close>

fun read_command_line :: "bool \<Rightarrow> arrival list \<Rightarrow> string \<Rightarrow> string option \<times> arrival list \<times> string" where
  "read_command_line block sock buffer =
     (case pop_buffered_line buffer of
        Some (line, rest) \<Rightarrow> (Some line, sock, rest)
      | None \<Rightarrow>
          (case sock of
             [] \<Rightarrow> (Some [], [], buffer)
           | Silence # later \<Rightarrow> if block then read_command_line block later buffer else (None, later, buffer)
           | Chunk chunk # later \<Rightarrow>
               if chunk = [] then (Some [], sock, buffer)
               else (case pop_buffered_line (buffer @ chunk) of
                   Some (line, rest) \<Rightarrow> (Some line, later, rest)
                 | None \<Rightarrow> if block then read_command_line block later (buffer @ chunk) else (None, later, buffer @ chunk))))"

declare read_command_line.simps [simp del]

subsection \<open>State\<close>

datatype observation = Polled bool | Emitted

datatype ('r, 's) action = Poll | Emit string | Reply 'r 's | Throw exn 's

type_synonym ('r, 's) engine = "'s \<Rightarrow> text_request \<Rightarrow> observation list \<Rightarrow> ('r, 's) action"

datatype 'r direct_event =
    DirectDelta string string
  | DirectReply string 'r
  | DirectError string string string
  | DirectReset string

record ('r, 's, 't) direct_env =
  de_config :: worker_config
  de_decode :: "string \<Rightarrow> exn + worker_command option"
  de_text :: "('r, 's) engine"
  de_images :: "('r, 't) engine"
  de_factory :: "string \<Rightarrow> exn + 't"
  de_reset :: "bool \<Rightarrow> bool \<Rightarrow> 's \<Rightarrow> 's"

record ('r, 's, 't) direct_loop =
  dl_sock :: "arrival list"
  dl_buffer :: string
  dl_aside :: "string list"
  dl_text :: 's
  dl_images :: "'t option"
  dl_out :: "'r direct_event list"

definition direct_send :: "'r direct_event \<Rightarrow> ('r, 's, 't) direct_loop \<Rightarrow> ('r, 's, 't) direct_loop" where
  "direct_send ev st = st\<lparr>dl_out := dl_out st @ [ev]\<rparr>"

subsection \<open>Cancellation\<close>

definition is_matching_cancel_request :: "string \<Rightarrow> string \<Rightarrow> bool" where
  "is_matching_cancel_request raw rid =
     (case loads raw of
        Inr (JObj kvs) \<Rightarrow> map_of kvs ''type'' = Some (JStr ''cancel_request'') \<and> map_of kvs ''request_id'' = Some (JStr rid)
      | _ \<Rightarrow> False)"

text \<open>The callback; \<open>cancelled\<close> is its nonlocal flag.\<close>

definition should_cancel :: "string \<Rightarrow> bool \<Rightarrow> ('r, 's, 't) direct_loop \<Rightarrow> bool \<times> ('r, 's, 't) direct_loop" where
  "should_cancel rid cancelled st =
     (if cancelled then (True, st)
      else (case read_command_line False (dl_sock st) (dl_buffer st) of
          (line, sock, buffer) \<Rightarrow>
            (let st1 = st\<lparr>dl_sock := sock, dl_buffer := buffer\<rparr>
             in case line of
                  None \<Rightarrow> (False, st1)
                | Some raw \<Rightarrow>
                    (if raw = [] then (True, st1)
                     else if is_matching_cancel_request raw rid then (True, st1)
                     else (False, st1\<lparr>dl_aside := dl_aside st1 @ [raw]\<rparr>)))))"

text \<open>An engine at work on a request: \<open>polls\<close> is whether it was given the callback, deltas go out only when it streams.\<close>

partial_function (option) run_engine ::
  "('r, 'x) engine \<Rightarrow> 'x \<Rightarrow> bool \<Rightarrow> text_request \<Rightarrow> observation list \<Rightarrow> bool \<Rightarrow> ('r, 's, 't) direct_loop \<Rightarrow>
     ((exn + 'r) \<times> 'x \<times> ('r, 's, 't) direct_loop) option" where
  [code]: "run_engine eng x polls q seen cancelled st =
     (case eng x q seen of
        Reply r x' \<Rightarrow> Some (Inr r, x', st)
      | Throw e x' \<Rightarrow> Some (Inl e, x', st)
      | Emit delta \<Rightarrow>
          run_engine eng x polls q (seen @ [Emitted]) cancelled
            (if tr_stream q then direct_send (DirectDelta (tr_request_id q) delta) st else st)
      | Poll \<Rightarrow>
          (if polls then
             (case should_cancel (tr_request_id q) cancelled st of
                (b, st1) \<Rightarrow> run_engine eng x polls q (seen @ [Polled b]) b st1)
           else run_engine eng x polls q (seen @ [Polled False]) cancelled st))"

subsection \<open>One request\<close>

definition text_has_images :: "text_request \<Rightarrow> bool" where
  "text_has_images q \<longleftrightarrow> list_ex (\<lambda>m. has_image_content (cm_content m)) (tr_messages q)"

definition not_served :: "string \<Rightarrow> worker_config \<Rightarrow> string" where
  "not_served model c =
     ''model '' @ [CHR 0x27] @ model @ [CHR 0x27] @ '' is not served by this worker (serves text='' @ [CHR 0x27] @ wc_model c @ [CHR 0x27] @
       (case wc_vlm_model c of
          None \<Rightarrow> '')''
        | Some m \<Rightarrow> if m = [] then '')'' else '', vlm='' @ [CHR 0x27] @ m @ [CHR 0x27] @ '')'')"

definition error_code :: "exn \<Rightarrow> string" where
  "error_code e = (case e of ValueError m \<Rightarrow> ''INVALID_REQUEST'' | JSONDecodeError \<Rightarrow> ''INVALID_REQUEST'' | _ \<Rightarrow> ''WORKER_ERROR'')"

definition reply_event :: "string \<Rightarrow> exn + 'r \<Rightarrow> 'r direct_event" where
  "reply_event rid r = (case r of Inr a \<Rightarrow> DirectReply rid a | Inl e \<Rightarrow> DirectError rid (error_code e) (exn_str e))"

definition serve_images ::
  "('r, 's, 't) direct_env \<Rightarrow> text_request \<Rightarrow> ('r, 's, 't) direct_loop \<Rightarrow> ('r, 's, 't) direct_loop option" where
  "serve_images env q st =
     (case (case dl_images st of Some t \<Rightarrow> Inr t | None \<Rightarrow> de_factory env (tr_model q)) of
        Inl e \<Rightarrow> Some (direct_send (reply_event (tr_request_id q) (Inl e)) st)
      | Inr t \<Rightarrow>
          map_option (\<lambda>(r, t', st1). direct_send (reply_event (tr_request_id q) r) (st1\<lparr>dl_images := Some t'\<rparr>))
            (run_engine (de_images env) t True q [] False (st\<lparr>dl_images := Some t\<rparr>)))"

definition serve_text ::
  "('r, 's, 't) direct_env \<Rightarrow> text_request \<Rightarrow> ('r, 's, 't) direct_loop \<Rightarrow> ('r, 's, 't) direct_loop option" where
  "serve_text env q st =
     (if text_has_images q then
        Some (direct_send (reply_event (tr_request_id q) (Inl (ValueError
          (''model '' @ [CHR 0x27] @ wc_model (de_config env) @ [CHR 0x27] @ '' is a text-only model and does not support image content'')))) st)
      else
        map_option (\<lambda>(r, s, st1). direct_send (reply_event (tr_request_id q) r) (st1\<lparr>dl_text := s\<rparr>))
          (run_engine (de_text env) (dl_text st) (tr_stream q) q [] False st))"

definition serve_request ::
  "('r, 's, 't) direct_env \<Rightarrow> text_request \<Rightarrow> ('r, 's, 't) direct_loop \<Rightarrow> ('r, 's, 't) direct_loop option" where
  "serve_request env q st =
     (if wc_vlm_model (de_config env) = Some (tr_model q) then serve_images env q st
      else if tr_model q = wc_model (de_config env) then serve_text env q st
      else Some (direct_send (reply_event (tr_request_id q) (Inl (ValueError (not_served (tr_model q) (de_config env))))) st))"

subsection \<open>The loop\<close>

fun caught :: "exn \<Rightarrow> bool" where
  "caught (ValueError m) = True"
| "caught (TypeError m) = True"
| "caught (KeyError k) = True"
| "caught JSONDecodeError = True"
| "caught _ = False"

text \<open>One line; \<open>Inl\<close> is an exception that ends the worker.\<close>

definition serve_line ::
  "('r, 's, 't) direct_env \<Rightarrow> string \<Rightarrow> ('r, 's, 't) direct_loop \<Rightarrow> ((exn + unit) \<times> ('r, 's, 't) direct_loop) option" where
  "serve_line env raw st =
     (case de_decode env raw of
        Inl e \<Rightarrow> Some (if caught e then (Inr (), direct_send (DirectError ''unknown'' ''INVALID_REQUEST'' (exn_str e)) st) else (Inl e, st))
      | Inr None \<Rightarrow> Some (Inr (), direct_send (DirectError ''unknown'' ''INVALID_REQUEST'' ''unsupported worker command'') st)
      | Inr (Some (WorkerCancel rid)) \<Rightarrow> Some (Inr (), st)
      | Inr (Some (WorkerReset rid clear_cache reset_counters)) \<Rightarrow>
          Some (Inr (), direct_send (DirectReset rid) (st\<lparr>dl_text := de_reset env clear_cache reset_counters (dl_text st)\<rparr>))
      | Inr (Some (WorkerChat q)) \<Rightarrow> map_option (\<lambda>st1. (Inr (), st1)) (serve_request env q st))"

definition next_line :: "('r, 's, 't) direct_loop \<Rightarrow> string \<times> ('r, 's, 't) direct_loop" where
  "next_line st =
     (case dl_aside st of
        raw # rest \<Rightarrow> (raw, st\<lparr>dl_aside := rest\<rparr>)
      | [] \<Rightarrow> (case read_command_line True (dl_sock st) (dl_buffer st) of
            (line, sock, buffer) \<Rightarrow> (case line of None \<Rightarrow> [] | Some raw \<Rightarrow> raw, st\<lparr>dl_sock := sock, dl_buffer := buffer\<rparr>)))"

partial_function (option) direct_serve ::
  "('r, 's, 't) direct_env \<Rightarrow> ('r, 's, 't) direct_loop \<Rightarrow> ((exn + unit) \<times> ('r, 's, 't) direct_loop) option" where
  [code]: "direct_serve env st =
     (case next_line st of
        (raw, st1) \<Rightarrow>
          (if raw = [] then Some (Inr (), st1)
           else (case serve_line env raw st1 of
               None \<Rightarrow> None
             | Some (Inl e, st2) \<Rightarrow> Some (Inl e, st2)
             | Some (Inr _, st2) \<Rightarrow> direct_serve env st2)))"

end
