(* ===== verification/DirectProps.thy ===== *)
theory DirectProps
  imports Direct
begin

text \<open>
  The loop without batching answers the lines of its input one by one and in order, whatever the engines' polling reads ahead;
  a cancellation that was read ahead is not seen.
\<close>

subsection \<open>The input as lines\<close>

fun input_bytes :: "arrival list \<Rightarrow> string" where
  "input_bytes [] = []"
| "input_bytes (Silence # later) = input_bytes later"
| "input_bytes (Chunk chunk # later) = (if chunk = [] then [] else chunk @ input_bytes later)"

lemma pop_line:
  assumes "pop_buffered_line buffer = Some (line, rest)"
  shows "line \<noteq> []" "buffer = line @ rest" "length rest < length buffer"
proof -
  let ?t = "takeWhile (\<lambda>c. c \<noteq> line_end) buffer"
  have mem: "line_end \<in> set buffer" and line: "line = ?t @ [line_end]" and rest: "rest = drop (length line) buffer"
    using assms by (auto simp: pop_buffered_line_def Let_def split: if_splits)
  have "dropWhile (\<lambda>c. c \<noteq> line_end) buffer \<noteq> []" using mem by (simp add: dropWhile_eq_Nil_conv)
  then have "dropWhile (\<lambda>c. c \<noteq> line_end) buffer = line_end # tl (dropWhile (\<lambda>c. c \<noteq> line_end) buffer)"
    using hd_dropWhile [of "\<lambda>c. c \<noteq> line_end" buffer] by (metis list.collapse)
  then have split: "buffer = line @ tl (dropWhile (\<lambda>c. c \<noteq> line_end) buffer)"
    using takeWhile_dropWhile_id [of "\<lambda>c. c \<noteq> line_end" buffer] by (simp add: line)
  then show "buffer = line @ rest" by (metis rest append_eq_conv_conj)
  then have "length buffer = length line + length rest" by (metis length_append)
  then show "length rest < length buffer" by (simp add: line)
  show "line \<noteq> []" by (simp add: line)
qed

lemma pop_append:
  "pop_buffered_line buffer = Some (line, rest) \<Longrightarrow> pop_buffered_line (buffer @ extra) = Some (line, rest @ extra)"
proof -
  assume p: "pop_buffered_line buffer = Some (line, rest)"
  then have mem: "line_end \<in> set buffer" and line: "line = takeWhile (\<lambda>c. c \<noteq> line_end) buffer @ [line_end]"
    by (auto simp: pop_buffered_line_def Let_def split: if_splits)
  have "takeWhile (\<lambda>c. c \<noteq> line_end) (buffer @ extra) = takeWhile (\<lambda>c. c \<noteq> line_end) buffer" using mem by (auto simp: takeWhile_append)
  then have "pop_buffered_line (buffer @ extra) = Some (line, drop (length line) (buffer @ extra))"
    using mem line by (simp add: pop_buffered_line_def Let_def)
  moreover have "drop (length line) (buffer @ extra) = rest @ extra" using pop_line(2) [OF p] by (metis append_assoc append_eq_conv_conj)
  ultimately show ?thesis by simp
qed

function lines_of :: "string \<Rightarrow> string list" where
  "lines_of s = (case pop_buffered_line s of None \<Rightarrow> [] | Some (line, rest) \<Rightarrow> line # lines_of rest)"
  by pat_completeness auto

termination
  by (relation "measure length") (auto dest: pop_line(3))

declare lines_of.simps [simp del]

lemma lines_pop: "pop_buffered_line buffer = Some (line, rest) \<Longrightarrow> lines_of (buffer @ extra) = line # lines_of (rest @ extra)"
  using pop_append [of buffer line rest extra] by (simp add: lines_of.simps [of "buffer @ extra"])

text \<open>Reading takes the first line of what is left, nothing else.\<close>

lemma read_takes_line:
  assumes "read_command_line block sock buffer = (line, sock', buffer')"
  shows "lines_of (buffer @ input_bytes sock) =
      (case line of Some (c # cs) \<Rightarrow> [c # cs] | _ \<Rightarrow> []) @ lines_of (buffer' @ input_bytes sock') \<and>
    (line = Some [] \<longrightarrow> lines_of (buffer' @ input_bytes sock') = []) \<and> (line = None \<longrightarrow> \<not> block)"
  using assms
proof (induction block sock buffer rule: read_command_line.induct)
  case (1 block sock buffer)
  show ?case
  proof (cases "pop_buffered_line buffer")
    case (Some p)
    obtain l rest where p: "pop_buffered_line buffer = Some (l, rest)" using Some by (cases p) auto
    then have r: "line = Some l" "sock' = sock" "buffer' = rest" using 1(3) by (simp_all add: read_command_line.simps [of block])
    show ?thesis using lines_pop [OF p] pop_line(1) [OF p] by (cases l) (simp_all add: r)
  next
    case none: None
    show ?thesis
    proof (cases sock)
      case Nil
      then show ?thesis using 1(3) none lines_of.simps [of buffer] by (auto simp: read_command_line.simps [of block])
    next
      case (Cons a later)
      show ?thesis
      proof (cases a)
        case Silence
        then show ?thesis using 1 none Cons by (cases block) (simp_all add: read_command_line.simps [of _ "Silence # later"])
      next
        case (Chunk chunk)
        show ?thesis
        proof (cases "chunk = []")
          case True
          then show ?thesis using 1(3) none Cons Chunk lines_of.simps [of buffer] by (auto simp: read_command_line.simps [of block])
        next
          case more: False
          show ?thesis
          proof (cases "pop_buffered_line (buffer @ chunk)")
            case (Some p)
            obtain l rest where p: "pop_buffered_line (buffer @ chunk) = Some (l, rest)" using Some by (cases p) auto
            then have r: "line = Some l" "sock' = later" "buffer' = rest"
              using 1(3) none Cons Chunk more by (simp_all add: read_command_line.simps [of block])
            show ?thesis using lines_pop [OF p, of "input_bytes later"] pop_line(1) [OF p] Cons Chunk more by (cases l) (simp_all add: r)
          next
            case None
            show ?thesis
            proof (cases block)
              case True
              then show ?thesis using 1 None none Cons Chunk more by (simp add: read_command_line.simps [of _ "Chunk chunk # later"])
            next
              case False
              then have "line = None" "sock' = later" "buffer' = buffer @ chunk"
                using 1(3) None none Cons Chunk more by (simp_all add: read_command_line.simps [of _ "Chunk chunk # later"])
              then show ?thesis using False Cons Chunk more by simp
            qed
          qed
        qed
      qed
    qed
  qed
qed

subsection \<open>Answers and lines\<close>

fun event_answers :: "'r direct_event \<Rightarrow> string option" where
  "event_answers (DirectDelta rid delta) = None"
| "event_answers (DirectReply rid r) = Some rid"
| "event_answers (DirectError rid code message) = Some rid"
| "event_answers (DirectReset rid) = Some rid"

fun line_asks :: "exn + worker_command option \<Rightarrow> string option" where
  "line_asks (Inl e) = Some ''unknown''"
| "line_asks (Inr None) = Some ''unknown''"
| "line_asks (Inr (Some (WorkerChat q))) = Some (tr_request_id q)"
| "line_asks (Inr (Some (WorkerCancel rid))) = None"
| "line_asks (Inr (Some (WorkerReset rid clear_cache reset_counters))) = Some rid"

definition answers_sent :: "('r, 's, 't) direct_loop \<Rightarrow> string list" where
  "answers_sent st = List.map_filter event_answers (dl_out st)"

definition asked_by :: "('r, 's, 't) direct_env \<Rightarrow> string list \<Rightarrow> string list" where
  "asked_by env raws = List.map_filter (\<lambda>raw. line_asks (de_decode env raw)) raws"

definition lines_left :: "('r, 's, 't) direct_loop \<Rightarrow> string list" where
  "lines_left st = dl_aside st @ lines_of (dl_buffer st @ input_bytes (dl_sock st))"

text \<open>What \<^verbatim>\<open>decode_command\<close> promises of the lines the callback recognises.\<close>

definition reads_cancels :: "('r, 's, 't) direct_env \<Rightarrow> bool" where
  "reads_cancels env \<longleftrightarrow> (\<forall>raw rid. is_matching_cancel_request raw rid \<longrightarrow> de_decode env raw = Inr (Some (WorkerCancel rid)))"

lemma answers_sent_send [simp]:
  "answers_sent (direct_send ev st) = answers_sent st @ (case event_answers ev of None \<Rightarrow> [] | Some rid \<Rightarrow> [rid])"
  by (simp add: answers_sent_def direct_send_def map_filter_def split: option.splits)

lemma asked_by_simps [simp]: "asked_by env [] = []" "asked_by env (xs @ ys) = asked_by env xs @ asked_by env ys"
  "asked_by env (x # xs) = (case line_asks (de_decode env x) of None \<Rightarrow> [] | Some rid \<Rightarrow> [rid]) @ asked_by env xs"
  by (auto simp: asked_by_def map_filter_def split: option.splits)

lemma lines_left_frame [simp]: "lines_left (direct_send ev st) = lines_left st" "lines_left (st\<lparr>dl_text := s\<rparr>) = lines_left st"
  "lines_left (st\<lparr>dl_images := i\<rparr>) = lines_left st" "answers_sent (st\<lparr>dl_text := s\<rparr>) = answers_sent st"
  "answers_sent (st\<lparr>dl_images := i\<rparr>) = answers_sent st"
  by (simp_all add: lines_left_def direct_send_def answers_sent_def)

text \<open>A step that takes none of the lines that ask for an answer.\<close>

definition kept :: "('r, 's, 't) direct_env \<Rightarrow> ('r, 's, 't) direct_loop \<Rightarrow> ('r, 's, 't) direct_loop \<Rightarrow> bool" where
  "kept env st st' \<longleftrightarrow> asked_by env (lines_left st') = asked_by env (lines_left st) \<and> ([] \<notin> set (dl_aside st) \<longrightarrow> [] \<notin> set (dl_aside st'))"

lemma kept_simps [simp]: "kept env st (direct_send ev st') = kept env st st'" "kept env st (st'\<lparr>dl_text := s\<rparr>) = kept env st st'"
  "kept env st (st'\<lparr>dl_images := i\<rparr>) = kept env st st'" "kept env (direct_send ev st) st' = kept env st st'"
  "kept env (st\<lparr>dl_images := i\<rparr>) st' = kept env st st'" "kept env st st"
  by (simp_all add: kept_def) (simp_all add: direct_send_def)

text \<open>A poll takes no line that asks for an answer.\<close>

lemma poll_keeps_lines:
  assumes "reads_cancels env" "should_cancel rid cancelled st = (b, st')"
  shows "kept env st st' \<and> dl_out st' = dl_out st"
proof (cases cancelled)
  case True
  then show ?thesis using assms(2) by (simp add: should_cancel_def)
next
  case False
  obtain line sock buffer where r: "read_command_line False (dl_sock st) (dl_buffer st) = (line, sock, buffer)" by (rule prod_cases3)
  note R = read_takes_line [OF r]
  consider "line = None \<or> line = Some []" "st' = st\<lparr>dl_sock := sock, dl_buffer := buffer\<rparr>"
    | c cs where "line = Some (c # cs)" "is_matching_cancel_request (c # cs) rid" "st' = st\<lparr>dl_sock := sock, dl_buffer := buffer\<rparr>"
    | c cs where "line = Some (c # cs)" "st' = st\<lparr>dl_sock := sock, dl_buffer := buffer, dl_aside := dl_aside st @ [c # cs]\<rparr>"
    using assms(2) False r by (cases line rule: option.exhaust; cases "the line") (auto simp: should_cancel_def Let_def split: if_splits)
  then show ?thesis
  proof cases
    case 1
    then show ?thesis using R by (auto simp: kept_def lines_left_def)
  next
    case 2
    then have "de_decode env (c # cs) = Inr (Some (WorkerCancel rid))" using assms(1) unfolding reads_cancels_def by blast
    then show ?thesis using R 2 by (simp add: kept_def lines_left_def)
  next
    case 3
    then show ?thesis using R by (simp add: kept_def lines_left_def)
  qed
qed

lemma engine_keeps_lines:
  assumes law: "reads_cancels env" and run: "run_engine eng x polls q seen cancelled st = Some y"
  shows "kept env st (snd (snd y)) \<and> answers_sent (snd (snd y)) = answers_sent st"
proof -
  let ?keeps = "\<lambda>st y. kept env st (snd (snd y)) \<and> answers_sent (snd (snd y)) = answers_sent st"
  have "(\<lambda>eng x polls q seen cancelled st y. ?keeps st y) eng x polls q seen cancelled st y"
  proof (rule run_engine.raw_induct [of "\<lambda>eng x polls q seen cancelled st y. ?keeps st y" "((((((eng, x), polls), q), seen), cancelled), st)" y, unfolded prod.case])
    show "run_engine eng x polls q seen cancelled st = Some y" by (rule run)
  next
    fix f eng x polls q seen cancelled st y
    assume IH: "\<And>eng x polls q seen cancelled st y. f eng x polls q seen cancelled st = Some y \<Longrightarrow> ?keeps st y"
      and body: "(case eng x q seen of
          Poll \<Rightarrow> if polls then case should_cancel (tr_request_id q) cancelled st of (b, st1) \<Rightarrow> f eng x polls q (seen @ [Polled b]) b st1
            else f eng x polls q (seen @ [Polled False]) cancelled st
        | Emit delta \<Rightarrow> f eng x polls q (seen @ [Emitted]) cancelled
            (if tr_stream q then direct_send (DirectDelta (tr_request_id q) delta) st else st)
        | Reply r x' \<Rightarrow> Some (Inr r, x', st) | Throw e x' \<Rightarrow> Some (Inl e, x', st)) = Some y"
    show "?keeps st y"
    proof (cases "eng x q seen")
      case Poll
      show ?thesis
      proof (cases polls)
        case True
        obtain b st1 where p: "should_cancel (tr_request_id q) cancelled st = (b, st1)" by (rule prod.exhaust)
        have "f eng x polls q (seen @ [Polled b]) b st1 = Some y" using body Poll True p by simp
        from IH [OF this] poll_keeps_lines [OF law p] show ?thesis by (simp add: answers_sent_def kept_def)
      next
        case False
        then have "f eng x polls q (seen @ [Polled False]) cancelled st = Some y" using body Poll by simp
        from IH [OF this] show ?thesis .
      qed
    next
      case (Emit delta)
      then have "f eng x polls q (seen @ [Emitted]) cancelled (if tr_stream q then direct_send (DirectDelta (tr_request_id q) delta) st else st) = Some y"
        using body by simp
      from IH [OF this] show ?thesis by (simp split: if_splits)
    next
      case (Reply r x')
      then show ?thesis using body by auto
    next
      case (Throw e x')
      then show ?thesis using body by auto
    qed
  qed
  then show ?thesis by simp
qed

lemma reply_event_answers [simp]: "event_answers (reply_event rid r) = Some rid"
  by (cases r) (simp_all add: reply_event_def)

lemma request_keeps_lines:
  assumes law: "reads_cancels env" and run: "serve_request env q st = Some st'"
  shows "kept env st st' \<and> answers_sent st' = answers_sent st @ [tr_request_id q]"
proof -
  let ?ok = "kept env st st' \<and> answers_sent st' = answers_sent st @ [tr_request_id q]"
  have refused: ?ok if "st' = direct_send (reply_event (tr_request_id q) (Inl e)) st" for e using that by simp
  have text_side: ?ok if t: "serve_text env q st = Some st'"
  proof (cases "text_has_images q")
    case True
    then show ?thesis using t by (auto simp: serve_text_def)
  next
    case False
    then obtain r s st1 where y: "run_engine (de_text env) (dl_text st) (tr_stream q) q [] False st = Some (r, s, st1)"
      "st' = direct_send (reply_event (tr_request_id q) r) (st1\<lparr>dl_text := s\<rparr>)"
      using t by (auto simp: serve_text_def)
    show ?thesis using engine_keeps_lines [OF law y(1)] y(2) by simp
  qed
  have image_side: ?ok if t: "serve_images env q st = Some st'"
  proof (cases "case dl_images st of Some t \<Rightarrow> Inr t | None \<Rightarrow> de_factory env (tr_model q)")
    case (Inl e)
    then show ?thesis using t by (auto simp: serve_images_def)
  next
    case (Inr x)
    obtain r x' st1 where y: "run_engine (de_images env) x True q [] False (st\<lparr>dl_images := Some x\<rparr>) = Some (r, x', st1)"
      "st' = direct_send (reply_event (tr_request_id q) r) (st1\<lparr>dl_images := Some x'\<rparr>)"
      using t Inr by (auto simp: serve_images_def)
    show ?thesis using engine_keeps_lines [OF law y(1)] y(2) by simp
  qed
  show ?thesis using run refused text_side image_side unfolding serve_request_def by (auto split: if_splits)
qed

lemma line_keeps_lines:
  assumes law: "reads_cancels env" and run: "serve_line env raw st = Some (Inr u, st')"
  shows "kept env st st' \<and>
    answers_sent st' = answers_sent st @ (case line_asks (de_decode env raw) of None \<Rightarrow> [] | Some rid \<Rightarrow> [rid])"
proof (cases "de_decode env raw")
  case (Inl e)
  then show ?thesis using run by (auto simp: serve_line_def split: if_splits)
next
  case (Inr c)
  show ?thesis
  proof (cases c)
    case None
    then show ?thesis using run Inr by (auto simp: serve_line_def)
  next
    case (Some cmd)
    show ?thesis
    proof (cases cmd)
      case (WorkerChat q)
      then have "serve_request env q st = Some st'" using run Inr Some by (auto simp: serve_line_def)
      from request_keeps_lines [OF law this] show ?thesis using Inr Some WorkerChat by simp
    next
      case (WorkerCancel rid)
      then show ?thesis using run Inr Some by (auto simp: serve_line_def)
    next
      case (WorkerReset rid a b)
      then show ?thesis using run Inr Some by (auto simp: serve_line_def)
    qed
  qed
qed

lemma next_line_takes:
  assumes "[] \<notin> set (dl_aside st)" "next_line st = (raw, st')"
  shows "lines_left st = (if raw = [] then [] else raw # lines_left st') \<and> dl_out st' = dl_out st \<and> (raw = [] \<longrightarrow> lines_left st' = []) \<and>
    [] \<notin> set (dl_aside st')"
proof (cases "dl_aside st")
  case (Cons a rest)
  then show ?thesis using assms by (auto simp: next_line_def lines_left_def)
next
  case Nil
  obtain line sock buffer where r: "read_command_line True (dl_sock st) (dl_buffer st) = (line, sock, buffer)" by (rule prod_cases3)
  note R = read_takes_line [OF r]
  have "raw = (case line of None \<Rightarrow> [] | Some raw \<Rightarrow> raw)" "st' = st\<lparr>dl_sock := sock, dl_buffer := buffer\<rparr>"
    using assms(2) Nil r by (simp_all add: next_line_def)
  then show ?thesis using R Nil by (cases raw) (auto simp: lines_left_def split: option.splits)
qed

lemma serve_answers_lines:
  assumes law: "reads_cancels env" and run: "direct_serve env st = Some y"
  shows "[] \<notin> set (dl_aside st) \<longrightarrow> fst y = Inr () \<longrightarrow> answers_sent (snd y) = answers_sent st @ asked_by env (lines_left st) \<and> lines_left (snd y) = []"
proof -
  let ?P = "\<lambda>st y. [] \<notin> set (dl_aside st) \<longrightarrow> fst y = Inr () \<longrightarrow>
     answers_sent (snd y) = answers_sent st @ asked_by env (lines_left st) \<and> lines_left (snd y) = []"
  have "(\<lambda>env' st y. env' = env \<longrightarrow> ?P st y) env st y"
  proof (rule direct_serve.raw_induct [of "\<lambda>env' st y. env' = env \<longrightarrow> ?P st y", OF _ run], intro impI)
    fix f env' st y
    assume IH: "\<And>env' st y. f env' st = Some y \<Longrightarrow> env' = env \<longrightarrow> ?P st y"
      and body: "(case next_line st of (raw, st1) \<Rightarrow>
          if raw = [] then Some (Inr (), st1)
          else case serve_line env' raw st1 of None \<Rightarrow> None | Some (Inl e, st2) \<Rightarrow> Some (Inl e, st2) | Some (Inr x, st2) \<Rightarrow> f env' st2) = Some y"
      and env: "env' = env" and aside: "[] \<notin> set (dl_aside st)" and fine: "fst y = Inr ()"
    obtain raw st1 where n: "next_line st = (raw, st1)" by (rule prod.exhaust)
    note N = next_line_takes [OF aside n]
    show "answers_sent (snd y) = answers_sent st @ asked_by env (lines_left st) \<and> lines_left (snd y) = []"
    proof (cases "raw = []")
      case True
      then have "y = (Inr (), st1)" using body n by simp
      then show ?thesis using N True by (simp add: answers_sent_def)
    next
      case False
      obtain u st2 where l: "serve_line env raw st1 = Some (Inr u, st2)" "f env' st2 = Some y"
        using body n False fine env by (auto split: option.splits prod.splits sum.splits)
      note L = line_keeps_lines [OF law l(1)]
      have "[] \<notin> set (dl_aside st2)" using L N by (simp add: kept_def)
      with IH [OF l(2)] env fine have "answers_sent (snd y) = answers_sent st2 @ asked_by env (lines_left st2) \<and> lines_left (snd y) = []" by simp
      then show ?thesis using L N False by (simp add: kept_def answers_sent_def)
    qed
  qed
  then show ?thesis by simp
qed

subsection \<open>The theorems\<close>

definition direct_start :: "arrival list \<Rightarrow> 's \<Rightarrow> ('r, 's, 't) direct_loop" where
  "direct_start sock s = \<lparr>dl_sock = sock, dl_buffer = [], dl_aside = [], dl_text = s, dl_images = None, dl_out = []\<rparr>"


text \<open>An engine that polls three times and then says whether it was cancelled.\<close>

definition polling_engine :: "(bool, unit) engine" where
  "polling_engine s q seen = (if length seen < 3 then Poll else Reply (list_ex (\<lambda>o'. o' = Polled True) seen) s)"

definition toy_line :: "string \<Rightarrow> string" where
  "toy_line s = s @ [line_end]"

definition toy_chat :: "string \<Rightarrow> text_request" where
  "toy_chat rid = \<lparr>tr_request_id = rid, tr_model = ''m'', tr_messages = [], tr_max_tokens = 4, tr_temperature = 0, tr_top_p = 1,
     tr_max_prompt_tokens = 100, tr_max_completion_tokens = 100, tr_max_total_tokens = 100, tr_stop = [], tr_stream = True\<rparr>"

definition toy_decode :: "string \<Rightarrow> exn + worker_command option" where
  "toy_decode raw =
     (case loads raw of
        Inr (JObj kvs) \<Rightarrow>
          (if map_of kvs ''type'' = Some (JStr ''cancel_request'') then
             (case map_of kvs ''request_id'' of Some (JStr rid) \<Rightarrow> Inr (Some (WorkerCancel rid)) | _ \<Rightarrow> Inr None)
           else Inr None)
      | _ \<Rightarrow> if raw = toy_line ''A'' then Inr (Some (WorkerChat (toy_chat ''a'')))
             else if raw = toy_line ''B'' then Inr (Some (WorkerChat (toy_chat ''b''))) else Inl JSONDecodeError)"

definition toy_direct :: "(bool, unit, unit) direct_env" where
  "toy_direct = \<lparr>de_config = sample_config\<lparr>wc_model := ''m''\<rparr>, de_decode = toy_decode, de_text = polling_engine, de_images = polling_engine,
     de_factory = (\<lambda>model. Inr ()), de_reset = (\<lambda>a b s. s)\<rparr>"

lemma toy_reads_cancels: "reads_cancels toy_direct"
  by (auto simp: reads_cancels_def is_matching_cancel_request_def toy_direct_def toy_decode_def split: sum.splits json.splits)

definition toy_input :: "arrival list" where
  "toy_input = [Chunk (toy_line ''A'' @ toy_line ''B''), Chunk (encode_cancel_request ''b'')] @ replicate 8 Silence"

definition toy_direct_run :: "(exn + unit) \<times> (bool, unit, unit) direct_loop" where
  "toy_direct_run = the (direct_serve toy_direct (direct_start toy_input ()))"

lemma toy_direct_runs: "direct_serve toy_direct (direct_start toy_input ()) = Some (Inr (), snd toy_direct_run)"
proof -
  have "(case direct_serve toy_direct (direct_start toy_input ()) of Some (Inr _, st) \<Rightarrow> True | _ \<Rightarrow> False)" by code_simp
  then show ?thesis by (auto simp: toy_direct_run_def split: option.splits sum.splits)
qed


text \<open>A poll looks at the socket only, never at the lines that an earlier request's polls have put aside.\<close>

lemma poll_ignores_lines_aside:
  assumes "dl_sock st = Silence # later" "pop_buffered_line (dl_buffer st) = None"
  shows "should_cancel rid False st = (False, st\<lparr>dl_sock := later\<rparr>)"
  using assms by (simp add: should_cancel_def read_command_line.simps)

text \<open>So the cancellation of a request that waits is lost when it arrives while another one is being polled: the second
  request runs to its end uncancelled, although its cancellation was read before it was begun.\<close>

theorem cancellation_read_ahead_is_lost:
  "dl_out (snd toy_direct_run) = [DirectReply ''a'' False, DirectReply ''b'' False]"
  by code_simp

end
