(* ===== verification/MainLoop.thy ===== *)
theory MainLoop
  imports VlmServe BatchProps Direct
begin

text \<open>
  The worker's loop over both v1 schedulers, \<^verbatim>\<open>_run_continuous_batch_loop\<close> in
  \<^verbatim>\<open>mlx_worker/main.py\<close>: a reader thread that marks cancellations and queues lines, the dispatch of
  one line per round by model, the turns of the two schedulers, and the end.  A line stands for its decoded command
  (\<^verbatim>\<open>decode_command\<close> is run on it by both threads).  What is sent is appended to \<open>ml_out\<close>; the
  schedulers' own \<open>out\<close> is emptied into it after every call.  The budget manager the schedulers share, which
  only evicts from the two caches for images, is left out, and so are clocks.
\<close>

subsection \<open>State\<close>

type_synonym decoded = "exn + worker_command option"

datatype queue_item = QueuedLine decoded | EndOfInput

datatype main_event =
    TextEvent batch_event
  | ImageEvent vlm_event
  | LoopError string string string
  | ResetState string

record ('g, 'c, 'h, 'i, 'e, 'k, 'd, 'v) main_env =
  me_config :: worker_config
  me_text :: batch_context
  me_text_generator :: "('g, 'c) generator_ops"
  me_text_caches :: "'c cache_ops"
  me_factory :: "(string \<Rightarrow> exn + ('i, 'e, 'k) vlm_context) option"
  me_image_generator :: "('h, 'e, 'k, 'd) vlm_generator"
  me_image_caches :: "'d cache_ops"
  me_vision :: "('v, 'e, 'k, 'd) vision_ops"
  me_vision_start :: 'v

record ('g, 'n, 'c, 'h, 'i, 'e, 'k, 'd, 'v) main_loop =
  ml_text :: "('g, 'n, 'c) batch_scheduler"
  ml_images :: "(('i, 'e, 'k) vlm_context \<times> ('h, 'k, 'e, 'd, 'v) vlm_scheduler) option"
  ml_image_store :: "(key_part, 'd) prompt_store"
  ml_text_first :: bool
  ml_consecutive :: nat
  ml_cancelled :: "string list"
  ml_queue :: "queue_item list"
  ml_reader_alive :: bool
  ml_pending_stop :: bool
  ml_out :: "main_event list"

definition new_main_loop ::
  "('g, 'c, 'h, 'i, 'e, 'k, 'd, 'v) main_env \<Rightarrow> ('n, 'c) prompt_store \<Rightarrow> ('g, 'n, 'c, 'h, 'i, 'e, 'k, 'd, 'v) main_loop" where
  "new_main_loop env text_store =
     (let c = me_config env
      in \<lparr>ml_text = new_batch_scheduler (wc_text_prompt c) (wc_text_decode c) None (Some (wc_text_prompt c)) (Some (wc_text_decode c)) text_store,
          ml_images = None, ml_image_store = new_store (wc_vlm_apc_entries c) (wc_vlm_apc_bytes c), ml_text_first = True,
          ml_consecutive = 0, ml_cancelled = [], ml_queue = [], ml_reader_alive = True, ml_pending_stop = False, ml_out = []\<rparr>)"

definition put_text ::
  "('g, 'n, 'c) batch_scheduler \<Rightarrow> ('g, 'n, 'c, 'h, 'i, 'e, 'k, 'd, 'v) main_loop \<Rightarrow> ('g, 'n, 'c, 'h, 'i, 'e, 'k, 'd, 'v) main_loop" where
  "put_text s st = st\<lparr>ml_text := s\<lparr>bs_out := []\<rparr>, ml_out := ml_out st @ map TextEvent (bs_out s)\<rparr>"

definition put_images ::
  "('i, 'e, 'k) vlm_context \<Rightarrow> ('h, 'k, 'e, 'd, 'v) vlm_scheduler \<Rightarrow> ('g, 'n, 'c, 'h, 'i, 'e, 'k, 'd, 'v) main_loop \<Rightarrow>
     ('g, 'n, 'c, 'h, 'i, 'e, 'k, 'd, 'v) main_loop" where
  "put_images ctx s st = st\<lparr>ml_images := Some (ctx, s\<lparr>vs_out := []\<rparr>), ml_out := ml_out st @ map ImageEvent (vs_out s)\<rparr>"

definition loop_send :: "main_event \<Rightarrow> ('g, 'n, 'c, 'h, 'i, 'e, 'k, 'd, 'v) main_loop \<Rightarrow> ('g, 'n, 'c, 'h, 'i, 'e, 'k, 'd, 'v) main_loop" where
  "loop_send ev st = st\<lparr>ml_out := ml_out st @ [ev]\<rparr>"

subsection \<open>The reader\<close>

text \<open>A line that does not decode: an exception that is not caught ends the reader, and with it the input.\<close>

fun is_caught :: "decoded \<Rightarrow> bool" where
  "is_caught (Inl e) = caught e"
| "is_caught (Inr c) = True"

definition mark_cancelled_request ::
  "string \<Rightarrow> ('g, 'n, 'c, 'h, 'i, 'e, 'k, 'd, 'v) main_loop \<Rightarrow> ('g, 'n, 'c, 'h, 'i, 'e, 'k, 'd, 'v) main_loop" where
  "mark_cancelled_request rid st = st\<lparr>ml_cancelled := List.insert rid (ml_cancelled st)\<rparr>"

definition is_request_cancelled :: "('g, 'n, 'c, 'h, 'i, 'e, 'k, 'd, 'v) main_loop \<Rightarrow> string \<Rightarrow> bool" where
  "is_request_cancelled st rid \<longleftrightarrow> rid \<in> set (ml_cancelled st)"

definition reader_line :: "decoded \<Rightarrow> ('g, 'n, 'c, 'h, 'i, 'e, 'k, 'd, 'v) main_loop \<Rightarrow> ('g, 'n, 'c, 'h, 'i, 'e, 'k, 'd, 'v) main_loop" where
  "reader_line line st =
     (if \<not> ml_reader_alive st then st
      else if \<not> is_caught line then st\<lparr>ml_queue := ml_queue st @ [EndOfInput], ml_reader_alive := False\<rparr>
      else (let st1 = (case line of Inr (Some (WorkerCancel rid)) \<Rightarrow> mark_cancelled_request rid st | _ \<Rightarrow> st)
            in st1\<lparr>ml_queue := ml_queue st1 @ [QueuedLine line]\<rparr>))"

text \<open>End of input: the sentinel is queued before the return and once more by \<open>finally\<close>.\<close>

definition reader_eof :: "('g, 'n, 'c, 'h, 'i, 'e, 'k, 'd, 'v) main_loop \<Rightarrow> ('g, 'n, 'c, 'h, 'i, 'e, 'k, 'd, 'v) main_loop" where
  "reader_eof st =
     (if \<not> ml_reader_alive st then st
      else st\<lparr>ml_queue := ml_queue st @ [EndOfInput, EndOfInput], ml_reader_alive := False\<rparr>)"

subsection \<open>Handling a command\<close>

definition loop_idle :: "('g, 'n, 'c, 'h, 'i, 'e, 'k, 'd, 'v) main_loop \<Rightarrow> bool" where
  "loop_idle st \<longleftrightarrow> batch_idle (ml_text st) \<and> (case ml_images st of None \<Rightarrow> True | Some (ctx, s) \<Rightarrow> vlm_idle s)"

definition ensure_vlm_scheduler ::
  "('g, 'c, 'h, 'i, 'e, 'k, 'd, 'v) main_env \<Rightarrow> ('g, 'n, 'c, 'h, 'i, 'e, 'k, 'd, 'v) main_loop \<Rightarrow>
     exn + ('i, 'e, 'k) vlm_context \<times> ('h, 'k, 'e, 'd, 'v) vlm_scheduler" where
  "ensure_vlm_scheduler env st =
     (case ml_images st of
        Some p \<Rightarrow> Inr p
      | None \<Rightarrow>
          (case (me_factory env, wc_vlm_model (me_config env)) of
             (None, _) \<Rightarrow> Inl (RuntimeError ''VLM continuous batching requested but no VLM factory is available'')
           | (Some f, None) \<Rightarrow> Inl (RuntimeError ''VLM continuous batching requested but no VLM model is configured'')
           | (Some f, Some model) \<Rightarrow>
               and_then (f model) (\<lambda>ctx.
                 Inr (ctx\<lparr>vc_max_images := wc_max_vlm_images (me_config env)\<rparr>,
                      new_vlm_scheduler (wc_vlm_prompt (me_config env)) (wc_vlm_decode (me_config env)) (ml_image_store st)
                        \<lparr>vf_cache = me_vision_start env, vf_max_entries = wc_vision_entries (me_config env),
                         vf_max_bytes = wc_vision_bytes (me_config env), vf_hits = 0, vf_misses = 0, vf_evictions = 0, vf_bytes = 0\<rparr>))))"

definition dispatch ::
  "('g, 'c, 'h, 'i, 'e, 'k, 'd, 'v) main_env \<Rightarrow> text_request \<Rightarrow> ('g, 'n, 'c, 'h, 'i, 'e, 'k, 'd, 'v) main_loop \<Rightarrow>
     (exn + unit) \<times> ('g, 'n, 'c, 'h, 'i, 'e, 'k, 'd, 'v) main_loop" where
  "dispatch env q st =
     (let c = me_config env
      in if tr_model q = wc_model c then
           (if text_has_images q then
              (Inr (), loop_send (LoopError (tr_request_id q) ''INVALID_REQUEST''
                 (''model '' @ [CHR 0x27] @ wc_model c @ [CHR 0x27] @ '' is a text-only model and does not support image content'')) st)
            else (case batch_submit (me_text env) (me_text_caches env) q (tr_stream q) (ml_text st) of (r, s) \<Rightarrow> (r, put_text s st)))
         else if wc_vlm_model c = Some (tr_model q) then
           (case ensure_vlm_scheduler env st of
              Inl e \<Rightarrow> (Inl e, st)
            | Inr (ctx, s) \<Rightarrow> (Inr (), put_images ctx (snd (vlm_submit ctx q s)) st))
         else (Inr (), loop_send (LoopError (tr_request_id q) ''INVALID_REQUEST'' (not_served (tr_model q) c)) st))"

definition cancel_anywhere ::
  "('g, 'c, 'h, 'i, 'e, 'k, 'd, 'v) main_env \<Rightarrow> string \<Rightarrow> ('g, 'n, 'c, 'h, 'i, 'e, 'k, 'd, 'v) main_loop \<Rightarrow>
     (exn + unit) \<times> ('g, 'n, 'c, 'h, 'i, 'e, 'k, 'd, 'v) main_loop" where
  "cancel_anywhere env rid st =
     (case batch_cancel (me_text env) (me_text_generator env) rid (ml_text st) of
        (Inl e, s) \<Rightarrow> (Inl e, put_text s st)
      | (Inr handled, s) \<Rightarrow>
          (let st1 = put_text s st
           in if handled then (Inr (), st1)
              else (case ml_images st1 of
                  None \<Rightarrow> (Inr (), st1)
                | Some (ctx, v) \<Rightarrow>
                    (case vlm_cancel (me_image_generator env) rid v of
                       (Inl e, v') \<Rightarrow> (Inl e, put_images ctx v' st1)
                     | (Inr _, v') \<Rightarrow> (Inr (), put_images ctx v' st1)))))"

definition reset_caches ::
  "string \<Rightarrow> bool \<Rightarrow> bool \<Rightarrow> ('g, 'n, 'c, 'h, 'i, 'e, 'k, 'd, 'v) main_loop \<Rightarrow> ('g, 'n, 'c, 'h, 'i, 'e, 'k, 'd, 'v) main_loop" where
  "reset_caches rid clear_cache reset_counters st =
     (if \<not> loop_idle st then loop_send (LoopError rid ''BENCHMARK_BUSY'' ''benchmark reset requires an idle scheduler'') st
      else loop_send (ResetState rid)
        (st\<lparr>ml_text := (ml_text st)\<lparr>bs_store := store_reset clear_cache reset_counters (bs_store (ml_text st))\<rparr>,
            ml_image_store := store_reset clear_cache reset_counters (ml_image_store st),
            ml_images := map_option (\<lambda>(ctx, s). (ctx, s\<lparr>vs_store := store_reset clear_cache reset_counters (vs_store s)\<rparr>)) (ml_images st)\<rparr>))"

definition handle_command ::
  "('g, 'c, 'h, 'i, 'e, 'k, 'd, 'v) main_env \<Rightarrow> decoded \<Rightarrow> ('g, 'n, 'c, 'h, 'i, 'e, 'k, 'd, 'v) main_loop \<Rightarrow>
     (exn + unit) \<times> ('g, 'n, 'c, 'h, 'i, 'e, 'k, 'd, 'v) main_loop" where
  "handle_command env line st =
     (case line of
        Inl e \<Rightarrow> if caught e then (Inr (), loop_send (LoopError ''unknown'' ''INVALID_REQUEST'' (exn_str e)) st) else (Inl e, st)
      | Inr None \<Rightarrow> (Inr (), loop_send (LoopError ''unknown'' ''INVALID_REQUEST'' ''unsupported worker command'') st)
      | Inr (Some (WorkerCancel rid)) \<Rightarrow> cancel_anywhere env rid st
      | Inr (Some (WorkerReset rid clear_cache reset_counters)) \<Rightarrow> (Inr (), reset_caches rid clear_cache reset_counters st)
      | Inr (Some (WorkerChat q)) \<Rightarrow> dispatch env q st)"

subsection \<open>The turns of the schedulers\<close>

definition tick_text ::
  "('g, 'c, 'h, 'i, 'e, 'k, 'd, 'v) main_env \<Rightarrow> ('g, 'n, 'c, 'h, 'i, 'e, 'k, 'd, 'v) main_loop \<Rightarrow>
     ((exn + unit) \<times> ('g, 'n, 'c, 'h, 'i, 'e, 'k, 'd, 'v) main_loop) option" where
  "tick_text env st =
     map_option (\<lambda>(r, s). (r, put_text s st)) (batch_tick (me_text env) (me_text_generator env) (me_text_caches env) (ml_text st))"

definition tick_images ::
  "('g, 'c, 'h, 'i, 'e, 'k, 'd, 'v) main_env \<Rightarrow> (string \<Rightarrow> nat \<Rightarrow> bool) \<Rightarrow> ('g, 'n, 'c, 'h, 'i, 'e, 'k, 'd, 'v) main_loop \<Rightarrow>
     ((exn + unit) \<times> ('g, 'n, 'c, 'h, 'i, 'e, 'k, 'd, 'v) main_loop) option" where
  "tick_images env late st =
     (case ml_images st of
        None \<Rightarrow> Some (Inr (), st)
      | Some (ctx, s) \<Rightarrow>
          map_option (\<lambda>(r, s'). (r, put_images ctx s' st))
            (vlm_tick ctx (me_vision env) (me_image_generator env) (me_image_caches env) (\<lambda>rid n. is_request_cancelled st rid \<or> late rid n) s))"

definition tick_max_consecutive :: nat where
  "tick_max_consecutive = 4"

definition arbitrate :: "bool \<Rightarrow> bool \<Rightarrow> bool \<times> nat \<Rightarrow> bool \<times> nat" where
  "arbitrate text_ready images_ready = (\<lambda>(text_first, consecutive).
     (if text_ready \<and> images_ready then
        (if tick_max_consecutive \<le> Suc consecutive then (\<not> text_first, 0) else (text_first, Suc consecutive))
      else (\<not> text_first, 0)))"

definition then_tick ::
  "((exn + unit) \<times> 's) option \<Rightarrow> ('s \<Rightarrow> ((exn + 'a) \<times> 's) option) \<Rightarrow> ((exn + 'a) \<times> 's) option" where
  "then_tick r k = (case r of None \<Rightarrow> None | Some (Inl e, s) \<Rightarrow> Some (Inl e, s) | Some (Inr _, s) \<Rightarrow> k s)"

definition tick_schedulers ::
  "('g, 'c, 'h, 'i, 'e, 'k, 'd, 'v) main_env \<Rightarrow> (string \<Rightarrow> nat \<Rightarrow> bool) \<Rightarrow> ('g, 'n, 'c, 'h, 'i, 'e, 'k, 'd, 'v) main_loop \<Rightarrow>
     ((exn + unit) \<times> ('g, 'n, 'c, 'h, 'i, 'e, 'k, 'd, 'v) main_loop) option" where
  "tick_schedulers env late st =
     (let images_ready = (case ml_images st of None \<Rightarrow> False | Some (ctx, s) \<Rightarrow> \<not> vlm_idle s);
          text_ready = (\<not> batch_idle (ml_text st))
      in then_tick
           (if ml_text_first st then then_tick (tick_text env st) (tick_images env late)
            else then_tick (tick_images env late st) (tick_text env))
           (\<lambda>st1. case arbitrate text_ready images_ready (ml_text_first st1, ml_consecutive st1) of
              (text_first, consecutive) \<Rightarrow> Some (Inr (), st1\<lparr>ml_text_first := text_first, ml_consecutive := consecutive\<rparr>)))"

subsection \<open>The loop\<close>

text \<open>What a round does with the queue; \<open>Inr True\<close> leaves the loop.  \<open>late rid n\<close> is whether the reader has marked \<open>rid\<close> by the
  \<open>n\<close>-th check of the round; its line is queued afterwards.\<close>

definition take_line ::
  "('g, 'c, 'h, 'i, 'e, 'k, 'd, 'v) main_env \<Rightarrow> ('g, 'n, 'c, 'h, 'i, 'e, 'k, 'd, 'v) main_loop \<Rightarrow>
     (exn + unit) \<times> ('g, 'n, 'c, 'h, 'i, 'e, 'k, 'd, 'v) main_loop" where
  "take_line env st =
     (case ml_queue st of
        [] \<Rightarrow> (Inr (), st\<lparr>ml_pending_stop := ml_pending_stop st \<or> \<not> ml_reader_alive st\<rparr>)
      | EndOfInput # rest \<Rightarrow> (Inr (), st\<lparr>ml_queue := rest, ml_pending_stop := True\<rparr>)
      | QueuedLine line # rest \<Rightarrow> handle_command env line (st\<lparr>ml_queue := rest\<rparr>))"

definition main_round ::
  "('g, 'c, 'h, 'i, 'e, 'k, 'd, 'v) main_env \<Rightarrow> (string \<Rightarrow> nat \<Rightarrow> bool) \<Rightarrow> ('g, 'n, 'c, 'h, 'i, 'e, 'k, 'd, 'v) main_loop \<Rightarrow>
     ((exn + bool) \<times> ('g, 'n, 'c, 'h, 'i, 'e, 'k, 'd, 'v) main_loop) option" where
  "main_round env late st =
     then_tick (Some (take_line env st)) (\<lambda>st1.
     then_tick (tick_schedulers env late st1) (\<lambda>st2. Some (Inr (ml_pending_stop st2 \<and> loop_idle st2), st2)))"

definition main_close :: "('g, 'n, 'c, 'h, 'i, 'e, 'k, 'd, 'v) main_loop \<Rightarrow> ('g, 'n, 'c, 'h, 'i, 'e, 'k, 'd, 'v) main_loop" where
  "main_close st = st\<lparr>ml_text := batch_close (ml_text st), ml_images := map_option (\<lambda>(ctx, s). (ctx, vlm_close s)) (ml_images st)\<rparr>"

text \<open>Both threads: the lines as the reader gets them, and the rounds of the loop.\<close>

datatype main_op = Arrives decoded | Ends | Round "string \<Rightarrow> nat \<Rightarrow> bool"

fun run_main ::
  "('g, 'c, 'h, 'i, 'e, 'k, 'd, 'v) main_env \<Rightarrow> main_op list \<Rightarrow> ('g, 'n, 'c, 'h, 'i, 'e, 'k, 'd, 'v) main_loop \<Rightarrow>
     ((exn + bool) \<times> ('g, 'n, 'c, 'h, 'i, 'e, 'k, 'd, 'v) main_loop) option" where
  "run_main env [] st = Some (Inr False, st)"
| "run_main env (Arrives line # ops) st = run_main env ops (reader_line line st)"
| "run_main env (Ends # ops) st = run_main env ops (reader_eof st)"
| "run_main env (Round late # ops) st =
     (case main_round env late st of
        None \<Rightarrow> None
      | Some (Inl e, st1) \<Rightarrow> Some (Inl e, main_close st1)
      | Some (Inr True, st1) \<Rightarrow> Some (Inr True, main_close st1)
      | Some (Inr False, st1) \<Rightarrow> run_main env ops st1)"

end
