(* ===== verification/MainProps.thy ===== *)
theory MainProps
  imports MainLoop BatchServe
begin

text \<open>
  The worker's loop answers every line once and stops only when nothing is left; its two schedulers take turns; and what it
  does with cancelled identifiers.
\<close>

subsection \<open>Counting\<close>

fun loop_answer :: "string \<Rightarrow> main_event \<Rightarrow> bool" where
  "loop_answer rid (TextEvent ev) = answer rid ev"
| "loop_answer rid (ImageEvent ev) = vlm_answer_to rid ev"
| "loop_answer rid (LoopError i code message) \<longleftrightarrow> i = rid"
| "loop_answer rid (ResetState i) \<longleftrightarrow> i = rid"

text \<open>Whose answer a line asks for; lines that are no command are answered under the name \<^verbatim>\<open>unknown\<close>.\<close>

fun asks :: "string \<Rightarrow> decoded \<Rightarrow> bool" where
  "asks rid (Inl e) \<longleftrightarrow> rid = ''unknown''"
| "asks rid (Inr None) \<longleftrightarrow> rid = ''unknown''"
| "asks rid (Inr (Some (WorkerChat q))) \<longleftrightarrow> tr_request_id q = rid"
| "asks rid (Inr (Some (WorkerCancel i))) \<longleftrightarrow> False"
| "asks rid (Inr (Some (WorkerReset i clear_cache reset_counters))) \<longleftrightarrow> i = rid"

fun item_asks :: "string \<Rightarrow> queue_item \<Rightarrow> bool" where
  "item_asks rid (QueuedLine line) = asks rid line"
| "item_asks rid EndOfInput = False"

definition queued_asks :: "string \<Rightarrow> queue_item list \<Rightarrow> nat" where
  "queued_asks rid q = length (filter (item_asks rid) q)"

definition answered :: "string \<Rightarrow> ('g, 'n, 'c, 'h, 'i, 'e, 'k, 'd, 'v) main_loop \<Rightarrow> nat" where
  "answered rid st = length (filter (loop_answer rid) (ml_out st))"

fun image_outstanding :: "string \<Rightarrow> (('i, 'e, 'k) vlm_context \<times> ('h, 'k, 'e, 'd, 'v) vlm_scheduler) option \<Rightarrow> nat" where
  "image_outstanding rid None = 0"
| "image_outstanding rid (Some (ctx, s)) = vlm_outstanding rid s"

definition open_requests :: "string \<Rightarrow> ('g, 'n, 'c, 'h, 'i, 'e, 'k, 'd, 'v) main_loop \<Rightarrow> nat" where
  "open_requests rid st = outstanding rid (ml_text st) + image_outstanding rid (ml_images st) + queued_asks rid (ml_queue st)"

fun asked :: "string \<Rightarrow> main_op list \<Rightarrow> nat" where
  "asked rid [] = 0"
| "asked rid (Arrives line # ops) = (if is_caught line then (if asks rid line then 1 else 0) + asked rid ops else 0)"
| "asked rid (Ends # ops) = 0"
| "asked rid (Round late # ops) = asked rid ops"

lemma queued_simps [simp]: "queued_asks rid [] = 0" "queued_asks rid (xs @ ys) = queued_asks rid xs + queued_asks rid ys"
  "queued_asks rid (x # xs) = (if item_asks rid x then 1 else 0) + queued_asks rid xs"
  by (simp_all add: queued_asks_def)

subsection \<open>The invariant\<close>

fun ends_last :: "queue_item list \<Rightarrow> bool" where
  "ends_last [] = True"
| "ends_last (EndOfInput # q) \<longleftrightarrow> set q \<subseteq> {EndOfInput}"
| "ends_last (QueuedLine line # q) = ends_last q"

lemma ends_last_append: "EndOfInput \<notin> set q \<Longrightarrow> ends_last (q @ q') = ends_last q'"
  by (induction q rule: ends_last.induct) auto

lemma ends_last_no_end: "EndOfInput \<notin> set q \<Longrightarrow> ends_last q"
  using ends_last_append [of q "[]"] by simp

lemma queued_ends: "set q \<subseteq> {EndOfInput} \<Longrightarrow> queued_asks rid q = 0"
  by (auto simp: queued_asks_def filter_empty_conv)

definition input_ok :: "('g, 'n, 'c, 'h, 'i, 'e, 'k, 'd, 'v) main_loop \<Rightarrow> bool" where
  "input_ok st \<longleftrightarrow> ends_last (ml_queue st) \<and> (ml_reader_alive st \<longrightarrow> EndOfInput \<notin> set (ml_queue st) \<and> \<not> ml_pending_stop st) \<and>
     (ml_pending_stop st \<longrightarrow> set (ml_queue st) \<subseteq> {EndOfInput})"

definition schedulers_ok ::
  "('g \<Rightarrow> nat set) \<Rightarrow> ('h \<Rightarrow> nat set) \<Rightarrow> ('g, 'n, 'c, 'h, 'i, 'e, 'k, 'd, 'v) main_loop \<Rightarrow> bool" where
  "schedulers_ok issued issued' st \<longleftrightarrow> batch_ok issued (ml_text st) \<and> bs_out (ml_text st) = [] \<and> store_keyed (ml_image_store st) \<and>
     (\<forall>ctx s. ml_images st = Some (ctx, s) \<longrightarrow> vlm_ok issued' s \<and> vs_out s = [])"

definition loop_keeps ::
  "(string \<Rightarrow> nat) \<Rightarrow> ('g, 'n, 'c, 'h, 'i, 'e, 'k, 'd, 'v) main_loop \<Rightarrow> ('g, 'n, 'c, 'h, 'i, 'e, 'k, 'd, 'v) main_loop \<Rightarrow> bool" where
  "loop_keeps n st st' \<longleftrightarrow> (\<forall>rid. answered rid st' + open_requests rid st' = answered rid st + open_requests rid st + n rid)"

definition same_input :: "('g, 'n, 'c, 'h, 'i, 'e, 'k, 'd, 'v) main_loop \<Rightarrow> ('g, 'n, 'c, 'h, 'i, 'e, 'k, 'd, 'v) main_loop \<Rightarrow> bool" where
  "same_input st st' \<longleftrightarrow> ml_queue st' = ml_queue st \<and> ml_reader_alive st' = ml_reader_alive st \<and> ml_pending_stop st' = ml_pending_stop st"

text \<open>What every step of the loop thread keeps, taking \<open>n\<close> requests more.\<close>

definition loop_step where
  "loop_step issued issued' n st st' \<longleftrightarrow> schedulers_ok issued issued' st' \<and> loop_keeps n st st' \<and> same_input st st'"

lemma loop_step_trans:
  "loop_step i i' m st st1 \<Longrightarrow> loop_step i i' n st1 st2 \<Longrightarrow> loop_step i i' (\<lambda>rid. m rid + n rid) st st2"
  by (simp add: loop_step_def loop_keeps_def same_input_def)

lemma loop_step_refl: "schedulers_ok i i' st \<Longrightarrow> loop_step i i' (\<lambda>rid. 0) st st"
  by (simp add: loop_step_def loop_keeps_def same_input_def)

subsection \<open>Steps of one scheduler\<close>

lemma put_text_step:
  assumes ok: "schedulers_ok issued issued' st" and s: "batch_ok issued s" "keeps n (ml_text st) s"
  shows "loop_step issued issued' n st (put_text s st)"
proof -
  have "batch_ok issued (s\<lparr>bs_out := []\<rparr>)" using s(1) by (simp add: batch_ok_def)
  then have "schedulers_ok issued issued' (put_text s st)" using ok by (simp add: schedulers_ok_def put_text_def)
  moreover have "answered rid (put_text s st) + open_requests rid (put_text s st) = answered rid st + open_requests rid st + n rid" for rid
  proof -
    have "answers rid (ml_text st) = 0" using ok by (simp add: schedulers_ok_def answers_def)
    then have "answers rid s + outstanding rid s = outstanding rid (ml_text st) + n rid" using s(2) by (simp add: keeps_def)
    then show ?thesis
      by (simp add: answered_def open_requests_def put_text_def outstanding_def answers_def filter_map comp_def)
  qed
  ultimately show ?thesis by (simp add: loop_step_def loop_keeps_def same_input_def put_text_def)
qed

lemma put_images_step:
  assumes ok: "schedulers_ok issued issued' st" and s: "vlm_ok issued' s"
    and k: "\<And>rid. vlm_answers rid s + vlm_outstanding rid s = image_outstanding rid (ml_images st) + n rid"
  shows "loop_step issued issued' n st (put_images ctx s st)"
proof -
  have "vlm_ok issued' (s\<lparr>vs_out := []\<rparr>)" using s by (simp add: vlm_ok_def)
  then have "schedulers_ok issued issued' (put_images ctx s st)" using ok by (simp add: schedulers_ok_def put_images_def)
  moreover have "answered rid (put_images ctx s st) + open_requests rid (put_images ctx s st) = answered rid st + open_requests rid st + n rid" for rid
    using k [of rid] by (simp add: answered_def open_requests_def put_images_def vlm_outstanding_def vlm_answers_def filter_map comp_def)
  ultimately show ?thesis by (simp add: loop_step_def loop_keeps_def same_input_def put_images_def)
qed

lemma image_count:
  assumes "schedulers_ok issued issued' st" "ml_images st = Some (ctx, v)" "vlm_keeps n v s"
  shows "vlm_answers rid s + vlm_outstanding rid s = image_outstanding rid (ml_images st) + n rid"
proof -
  have "vlm_answers rid v = 0" using assms(1,2) by (simp add: schedulers_ok_def vlm_answers_def)
  then show ?thesis using assms(2,3) by (simp add: vlm_keeps_def)
qed

lemma loop_send_step:
  "schedulers_ok issued issued' st \<Longrightarrow> (\<And>rid. loop_answer rid ev \<longleftrightarrow> P rid) \<Longrightarrow>
   loop_step issued issued' (\<lambda>rid. if P rid then 1 else 0) st (loop_send ev st)"
  by (simp add: loop_step_def loop_keeps_def same_input_def loop_send_def schedulers_ok_def answered_def open_requests_def)

subsection \<open>Commands\<close>

lemma ensure_facts:
  assumes ok: "schedulers_ok issued issued' st" and e: "ensure_vlm_scheduler env st = Inr (ctx, s)"
  shows "vlm_ok issued' s \<and> vlm_answers rid s = 0 \<and> vlm_outstanding rid s = image_outstanding rid (ml_images st)"
proof (cases "ml_images st")
  case (Some p)
  then show ?thesis using e ok by (simp add: ensure_vlm_scheduler_def schedulers_ok_def vlm_answers_def)
next
  case None
  then obtain vf where "s = new_vlm_scheduler (wc_vlm_prompt (me_config env)) (wc_vlm_decode (me_config env)) (ml_image_store st) vf"
    using e by (auto simp: ensure_vlm_scheduler_def and_then_def split: option.splits sum.splits)
  then show ?thesis using None ok
    by (simp add: schedulers_ok_def new_vlm_scheduler_def vlm_ok_def vlm_answers_def vlm_outstanding_def held_def)
qed

lemma dispatch_step:
  assumes ok: "schedulers_ok issued issued' st" and run: "dispatch env q st = (Inr u, st')"
  shows "loop_step issued issued' (\<lambda>rid. if tr_request_id q = rid then 1 else 0) st st'"
proof -
  have refuse: ?thesis if "st' = loop_send (LoopError (tr_request_id q) code message) st" for code message
    unfolding that by (rule loop_send_step [OF ok]) simp
  consider (refused) code message where "st' = loop_send (LoopError (tr_request_id q) code message) st"
    | (to_text) s where "batch_submit (me_text env) (me_text_caches env) q (tr_stream q) (ml_text st) = (Inr u, s)" "st' = put_text s st"
    | (to_images) ctx s where "ensure_vlm_scheduler env st = Inr (ctx, s)" "st' = put_images ctx (snd (vlm_submit ctx q s)) st"
    using run unfolding dispatch_def Let_def by (auto split: if_splits prod.splits sum.splits)
  then show ?thesis
  proof cases
    case refused
    then show ?thesis by (rule refuse)
  next
    case to_text
    have "batch_ok issued (ml_text st)" using ok by (simp add: schedulers_ok_def)
    note S = submit_keeps [OF this to_text(1)]
    show ?thesis unfolding to_text(2) using put_text_step [OF ok] S by blast
  next
    case to_images
    have v: "vlm_ok issued' s" "vlm_answers rid s = 0" "vlm_outstanding rid s = image_outstanding rid (ml_images st)" for rid
      using ensure_facts [OF ok to_images(1), of rid] by blast+
    note S = vlm_submit_keeps [OF v(1), of ctx q]
    show ?thesis unfolding to_images(2)
      by (rule put_images_step [OF ok]) (use S v(2,3) in \<open>auto simp: vlm_keeps_def\<close>)
  qed
qed

lemma cancel_step:
  assumes ok: "schedulers_ok issued issued' st" and law: "issues_fresh (me_text_generator env) issued" "vlm_issues_fresh (me_image_generator env) issued'"
    and run: "cancel_anywhere env rid st = (Inr u, st')"
  shows "loop_step issued issued' (\<lambda>rid. 0) st st'"
proof -
  obtain handled s where c: "batch_cancel (me_text env) (me_text_generator env) rid (ml_text st) = (Inr handled, s)"
    using run unfolding cancel_anywhere_def by (auto split: prod.splits sum.splits)
  have "batch_ok issued (ml_text st)" using ok by (simp add: schedulers_ok_def)
  note C = cancel_keeps [OF this law(1) c]
  have one: "loop_step issued issued' (\<lambda>rid. 0) st (put_text s st)" using put_text_step [OF ok] C by blast
  then have ok1: "schedulers_ok issued issued' (put_text s st)" by (simp add: loop_step_def)
  consider "st' = put_text s st"
    | ctx v b v' where "ml_images (put_text s st) = Some (ctx, v)" "vlm_cancel (me_image_generator env) rid v = (Inr b, v')"
        "st' = put_images ctx v' (put_text s st)"
  proof (cases "handled \<or> ml_images (put_text s st) = None")
    case True
    then show ?thesis using run c that(1) by (elim disjE) (simp_all add: cancel_anywhere_def Let_def split: if_splits)
  next
    case False
    then obtain ctx v where i: "\<not> handled" "ml_images (put_text s st) = Some (ctx, v)" by auto
    obtain r v' where v: "vlm_cancel (me_image_generator env) rid v = (r, v')" by (rule prod.exhaust)
    show ?thesis using run c i v that(2) by (cases r) (simp_all add: cancel_anywhere_def Let_def)
  qed
  then show ?thesis
  proof cases
    case 1
    then show ?thesis using one by simp
  next
    case 2
    have "vlm_ok issued' v" using ok1 2(1) by (simp add: schedulers_ok_def)
    note V = vlm_cancel_keeps [OF this law(2) 2(2)]
    have "loop_step issued issued' (\<lambda>rid. 0) (put_text s st) st'" unfolding 2(3)
      by (rule put_images_step [OF ok1]) (use V image_count [OF ok1 2(1)] in blast)+
    from loop_step_trans [OF one this] show ?thesis by simp
  qed
qed

lemma reset_keyed: "store_keyed ps \<Longrightarrow> store_keyed (store_reset clear_cache reset_counters ps)"
  by (simp add: store_keyed_def store_reset_def Let_def refresh_stats_def)

lemma reset_step:
  assumes "schedulers_ok issued issued' st"
  shows "loop_step issued issued' (\<lambda>i. if rid = i then 1 else 0) st (reset_caches rid clear_cache reset_counters st)"
proof (cases "loop_idle st")
  case False
  show ?thesis using False loop_send_step [OF assms, of "LoopError rid ''BENCHMARK_BUSY'' ''benchmark reset requires an idle scheduler''" "\<lambda>i. rid = i"]
    by (simp add: reset_caches_def)
next
  case True
  let ?st = "st\<lparr>ml_text := (ml_text st)\<lparr>bs_store := store_reset clear_cache reset_counters (bs_store (ml_text st))\<rparr>,
            ml_image_store := store_reset clear_cache reset_counters (ml_image_store st),
            ml_images := map_option (\<lambda>(ctx, s). (ctx, s\<lparr>vs_store := store_reset clear_cache reset_counters (vs_store s)\<rparr>)) (ml_images st)\<rparr>"
  have "schedulers_ok issued issued' ?st"
  proof -
    have "vlm_ok issued' (v\<lparr>vs_store := store_reset clear_cache reset_counters (vs_store v)\<rparr>)" if "vlm_ok issued' v" for v
      using that by (simp add: vlm_ok_def reset_keyed)
    then show ?thesis using assms by (auto simp: schedulers_ok_def batch_ok_def reset_keyed)
  qed
  moreover have "image_outstanding i (ml_images ?st) = image_outstanding i (ml_images st)" for i
    by (cases "ml_images st") (auto simp: vlm_outstanding_def)
  then have "loop_keeps (\<lambda>i. 0) st ?st"
    by (simp add: loop_keeps_def answered_def open_requests_def outstanding_def)
  ultimately have one: "loop_step issued issued' (\<lambda>i. 0) st ?st" by (simp add: loop_step_def same_input_def)
  have "loop_step issued issued' (\<lambda>i. if rid = i then 1 else 0) ?st (loop_send (ResetState rid) ?st)"
    by (rule loop_send_step) (use one in \<open>simp_all add: loop_step_def\<close>)
  from loop_step_trans [OF one this] True show ?thesis by (simp add: reset_caches_def)
qed

lemma command_step:
  assumes ok: "schedulers_ok issued issued' st" and law: "issues_fresh (me_text_generator env) issued" "vlm_issues_fresh (me_image_generator env) issued'"
    and run: "handle_command env line st = (Inr u, st')"
  shows "loop_step issued issued' (\<lambda>rid. if asks rid line then 1 else 0) st st'"
proof (cases line)
  case (Inl e)
  then have st': "st' = loop_send (LoopError ''unknown'' ''INVALID_REQUEST'' (exn_str e)) st" using run by (simp add: handle_command_def split: if_splits)
  have "loop_step issued issued' (\<lambda>rid. if rid = ''unknown'' then 1 else 0) st st'" unfolding st' by (rule loop_send_step [OF ok]) auto
  then show ?thesis using Inl by simp
next
  case (Inr c)
  show ?thesis
  proof (cases c)
    case None
    then have st': "st' = loop_send (LoopError ''unknown'' ''INVALID_REQUEST'' ''unsupported worker command'') st" using run Inr by (simp add: handle_command_def)
    have "loop_step issued issued' (\<lambda>rid. if rid = ''unknown'' then 1 else 0) st st'" unfolding st' by (rule loop_send_step [OF ok]) auto
    then show ?thesis using Inr None by simp
  next
    case (Some cmd)
    show ?thesis
    proof (cases cmd)
      case (WorkerChat q)
      then show ?thesis using run Inr Some dispatch_step [OF ok] by (simp add: handle_command_def)
    next
      case (WorkerCancel rid)
      then show ?thesis using run Inr Some cancel_step [OF ok law] by (simp add: handle_command_def)
    next
      case (WorkerReset rid a b)
      then show ?thesis using run Inr Some reset_step [OF ok] by (auto simp: handle_command_def)
    qed
  qed
qed

subsection \<open>Turns\<close>

lemma then_tick_Inr:
  "then_tick r k = Some (Inr b, s') \<Longrightarrow> \<exists>a s1. r = Some (Inr a, s1) \<and> k s1 = Some (Inr b, s')"
  by (auto simp: then_tick_def split: option.splits prod.splits sum.splits)

lemma tick_text_step:
  assumes ok: "schedulers_ok issued issued' st" and law: "issues_fresh (me_text_generator env) issued" and run: "tick_text env st = Some (Inr u, st')"
  shows "loop_step issued issued' (\<lambda>rid. 0) st st'"
proof -
  obtain s where t: "batch_tick (me_text env) (me_text_generator env) (me_text_caches env) (ml_text st) = Some (Inr u, s)" "st' = put_text s st"
    using run by (auto simp: tick_text_def)
  have "batch_ok issued (ml_text st)" using ok by (simp add: schedulers_ok_def)
  note T = tick_keeps [OF this law t(1)]
  show ?thesis unfolding t(2) using put_text_step [OF ok] T by blast
qed

lemma tick_images_step:
  assumes ok: "schedulers_ok issued issued' st" and law: "vlm_issues_fresh (me_image_generator env) issued'"
    and run: "tick_images env late st = Some (Inr u, st')"
  shows "loop_step issued issued' (\<lambda>rid. 0) st st'"
proof (cases "ml_images st")
  case None
  then show ?thesis using run loop_step_refl [OF ok] by (simp add: tick_images_def)
next
  case (Some p)
  obtain ctx v where p: "ml_images st = Some (ctx, v)" using Some by (cases p) simp
  obtain v' where t: "vlm_tick ctx (me_vision env) (me_image_generator env) (me_image_caches env) (\<lambda>rid n. is_request_cancelled st rid \<or> late rid n) v = Some (Inr u, v')"
    "st' = put_images ctx v' st"
    using run p by (auto simp: tick_images_def)
  have "vlm_ok issued' v" using ok p by (simp add: schedulers_ok_def)
  note T = vlm_tick_keeps [OF this law t(1)]
  show ?thesis unfolding t(2) by (rule put_images_step [OF ok]) (use T image_count [OF ok p] in blast)+
qed

lemma tick_schedulers_step:
  assumes ok: "schedulers_ok issued issued' st" and law: "issues_fresh (me_text_generator env) issued" "vlm_issues_fresh (me_image_generator env) issued'"
    and run: "tick_schedulers env late st = Some (Inr u, st')"
  shows "loop_step issued issued' (\<lambda>rid. 0) st st'"
proof -
  obtain a s1 first n where both: "(if ml_text_first st then then_tick (tick_text env st) (tick_images env late)
            else then_tick (tick_images env late st) (tick_text env)) = Some (Inr a, s1)"
    and st': "st' = s1\<lparr>ml_text_first := first, ml_consecutive := n\<rparr>"
    using run unfolding tick_schedulers_def Let_def by (auto dest!: then_tick_Inr split: prod.splits)
  have twice: "loop_step issued issued' (\<lambda>rid. 0) st s2" if "loop_step issued issued' (\<lambda>rid. 0) st s1" "loop_step issued issued' (\<lambda>rid. 0) s1 s2" for s1 s2
    using loop_step_trans [OF that] by simp
  have "loop_step issued issued' (\<lambda>rid. 0) st s1"
  proof (cases "ml_text_first st")
    case True
    then obtain b m where "tick_text env st = Some (Inr b, m)" "tick_images env late m = Some (Inr a, s1)" using both then_tick_Inr by fastforce
    note one = tick_text_step [OF ok law(1) this(1)] and two = this(2)
    have "schedulers_ok issued issued' m" using one by (simp add: loop_step_def)
    from twice [OF one tick_images_step [OF this law(2) two]] show ?thesis .
  next
    case False
    then obtain b m where "tick_images env late st = Some (Inr b, m)" "tick_text env m = Some (Inr a, s1)" using both then_tick_Inr by fastforce
    note one = tick_images_step [OF ok law(2) this(1)] and two = this(2)
    have "schedulers_ok issued issued' m" using one by (simp add: loop_step_def)
    from twice [OF one tick_text_step [OF this law(1) two]] show ?thesis .
  qed
  moreover from this have "loop_step issued issued' (\<lambda>rid. 0) s1 st'"
    by (simp add: st' loop_step_def loop_keeps_def same_input_def schedulers_ok_def answered_def open_requests_def)
  ultimately show ?thesis by (rule twice)
qed

subsection \<open>Rounds\<close>

lemma take_line_step:
  assumes ok: "schedulers_ok issued issued' st" "input_ok st"
    and law: "issues_fresh (me_text_generator env) issued" "vlm_issues_fresh (me_image_generator env) issued'"
    and run: "take_line env st = (Inr u, st')"
  shows "schedulers_ok issued issued' st' \<and> input_ok st' \<and> loop_keeps (\<lambda>rid. 0) st st' \<and> ml_reader_alive st' = ml_reader_alive st"
proof (cases "ml_queue st")
  case Nil
  then show ?thesis using run ok
    by (auto simp: take_line_def schedulers_ok_def input_ok_def loop_keeps_def answered_def open_requests_def)
next
  case (Cons x rest)
  show ?thesis
  proof (cases x)
    case EndOfInput
    then show ?thesis using run ok Cons ends_last_no_end [of "[]"] queued_ends [of rest]
      by (cases rest) (auto simp: take_line_def schedulers_ok_def input_ok_def loop_keeps_def answered_def open_requests_def)
  next
    case (QueuedLine line)
    let ?st = "st\<lparr>ml_queue := rest\<rparr>"
    have ok1: "schedulers_ok issued issued' ?st" using ok(1) by (simp add: schedulers_ok_def)
    have run1: "handle_command env line ?st = (Inr u, st')" using run Cons QueuedLine by (simp add: take_line_def)
    note S = command_step [OF ok1 law run1]
    have "input_ok st'" using S ok(2) Cons QueuedLine by (auto simp: loop_step_def same_input_def input_ok_def)
    moreover have "loop_keeps (\<lambda>rid. 0) st st'"
    proof -
      have "answered rid ?st + open_requests rid ?st + (if asks rid line then 1 else 0) = answered rid st + open_requests rid st" for rid
        using Cons QueuedLine by (simp add: answered_def open_requests_def)
      then show ?thesis using S unfolding loop_step_def loop_keeps_def by simp
    qed
    ultimately show ?thesis using S by (simp add: loop_step_def same_input_def)
  qed
qed

lemma round_step:
  assumes ok: "schedulers_ok issued issued' st" "input_ok st"
    and law: "issues_fresh (me_text_generator env) issued" "vlm_issues_fresh (me_image_generator env) issued'"
    and run: "main_round env late st = Some (Inr b, st')"
  shows "schedulers_ok issued issued' st' \<and> input_ok st' \<and> loop_keeps (\<lambda>rid. 0) st st' \<and> ml_reader_alive st' = ml_reader_alive st \<and>
    (b \<longrightarrow> ml_pending_stop st' \<and> loop_idle st')"
proof -
  obtain u s1 v where t: "take_line env st = (Inr u, s1)" "tick_schedulers env late s1 = Some (Inr v, st')" "b = (ml_pending_stop st' \<and> loop_idle st')"
    using run unfolding main_round_def by (auto dest!: then_tick_Inr)
  note T = take_line_step [OF ok law t(1)]
  have "schedulers_ok issued issued' s1" using T by blast
  note S = tick_schedulers_step [OF this law t(2)]
  show ?thesis using T S t(3) by (simp add: loop_step_def loop_keeps_def same_input_def input_ok_def)
qed

lemma reader_line_step:
  assumes "schedulers_ok issued issued' st" "input_ok st"
  shows "schedulers_ok issued issued' (reader_line line st) \<and> input_ok (reader_line line st) \<and>
    loop_keeps (\<lambda>rid. if ml_reader_alive st \<and> is_caught line \<and> asks rid line then 1 else 0) st (reader_line line st) \<and>
    ml_reader_alive (reader_line line st) = (ml_reader_alive st \<and> is_caught line)"
proof -
  consider "\<not> ml_reader_alive st" | "ml_reader_alive st" "\<not> is_caught line"
    | marked where "ml_reader_alive st" "is_caught line" "reader_line line st = st\<lparr>ml_queue := ml_queue st @ [QueuedLine line], ml_cancelled := marked\<rparr>"
  proof (cases "ml_reader_alive st \<and> is_caught line")
    case True
    let ?marked = "case line of Inr (Some (WorkerCancel rid)) \<Rightarrow> List.insert rid (ml_cancelled st) | _ \<Rightarrow> ml_cancelled st"
    have "reader_line line st = st\<lparr>ml_queue := ml_queue st @ [QueuedLine line], ml_cancelled := ?marked\<rparr>"
      using True by (simp add: reader_line_def Let_def mark_cancelled_request_def split: sum.split option.split worker_command.split)
    then show ?thesis using that(3) True by blast
  qed (use that in blast)
  then show ?thesis
  proof cases
    case 1
    then show ?thesis using assms by (simp add: reader_line_def loop_keeps_def)
  next
    case 2
    then show ?thesis using assms ends_last_append [of "ml_queue st" "[EndOfInput]"]
      by (simp add: reader_line_def loop_keeps_def schedulers_ok_def input_ok_def answered_def open_requests_def)
  next
    case 3
    then show ?thesis using assms ends_last_append [of "ml_queue st" "[QueuedLine line]"]
      by (simp add: loop_keeps_def schedulers_ok_def input_ok_def answered_def open_requests_def)
  qed
qed

lemma reader_eof_step:
  assumes "schedulers_ok issued issued' st" "input_ok st"
  shows "schedulers_ok issued issued' (reader_eof st) \<and> input_ok (reader_eof st) \<and> loop_keeps (\<lambda>rid. 0) st (reader_eof st) \<and>
    \<not> ml_reader_alive (reader_eof st)"
  using assms ends_last_append [of "ml_queue st" "[EndOfInput, EndOfInput]"]
  by (cases "ml_reader_alive st")
    (simp_all add: reader_eof_def loop_keeps_def schedulers_ok_def input_ok_def answered_def open_requests_def)

lemma close_keeps: "answered rid (main_close st) = answered rid st \<and> open_requests rid (main_close st) = open_requests rid st"
  by (cases "ml_images st")
    (auto simp: main_close_def answered_def open_requests_def outstanding_def batch_close_def vlm_close_def vlm_outstanding_def)

lemma run_main_counts:
  assumes "schedulers_ok issued issued' st" "input_ok st"
    and law: "issues_fresh (me_text_generator env) issued" "vlm_issues_fresh (me_image_generator env) issued'"
    and "run_main env ops st = Some (Inr b, st')"
  shows "answered rid st' + open_requests rid st' =
      answered rid st + open_requests rid st + (if ml_reader_alive st then asked rid ops else 0) \<and>
    (b \<longrightarrow> open_requests rid st' = 0)"
  using assms(1,2,5)
proof (induction ops arbitrary: st)
  case Nil
  then show ?case by simp
next
  case (Cons op ops)
  show ?case
  proof (cases op)
    case (Arrives line)
    note S = reader_line_step [OF Cons.prems(1,2), of line]
    have "schedulers_ok issued issued' (reader_line line st)" "input_ok (reader_line line st)" using S by blast+
    from Cons.IH [OF this] Cons.prems(3) Arrives S show ?thesis by (auto simp: loop_keeps_def)
  next
    case Ends
    note S = reader_eof_step [OF Cons.prems(1,2)]
    have "schedulers_ok issued issued' (reader_eof st)" "input_ok (reader_eof st)" using S by blast+
    from Cons.IH [OF this] Cons.prems(3) Ends S show ?thesis by (auto simp: loop_keeps_def)
  next
    case (Round late)
    obtain stop s1 where r: "main_round env late st = Some (Inr stop, s1)"
      and rest: "if stop then b \<and> st' = main_close s1 else run_main env ops s1 = Some (Inr b, st')"
      using Cons.prems(3) Round by (auto split: option.splits prod.splits sum.splits bool.splits)
    note S = round_step [OF Cons.prems(1,2) law r]
    have ok: "schedulers_ok issued issued' s1" "input_ok s1" using S by blast+
    show ?thesis
    proof (cases stop)
      case False
      then show ?thesis using Cons.IH [OF ok] rest S Round by (simp add: loop_keeps_def)
    next
      case True
      have "image_outstanding rid (ml_images s1) = 0"
        using S True by (cases "ml_images s1") (auto simp: loop_idle_def vlm_idle_def vlm_outstanding_def held_def)
      then have "open_requests rid s1 = 0" "\<not> ml_reader_alive st"
        using S True ok(2) by (auto simp: open_requests_def input_ok_def queued_ends loop_idle_def batch_idle_def outstanding_def held_def)
      moreover have "answered rid s1 + open_requests rid s1 = answered rid st + open_requests rid st" using S by (simp add: loop_keeps_def)
      ultimately show ?thesis using rest True Round close_keeps [of rid s1] by simp
    qed
  qed
qed

subsection \<open>The theorems\<close>

lemma new_main_ok: "schedulers_ok issued issued' (new_main_loop env store) \<and> input_ok (new_main_loop env store)"
  by (simp add: new_main_loop_def Let_def schedulers_ok_def input_ok_def new_batch_ok store_keyed_def new_store_def)
    (simp add: new_batch_scheduler_def)

text \<open>C25: The worker's loop over both schedulers, in any interleaving of the reader with the rounds and as long as no call
  raises: the answers sent under an identifier, and what is still queued, pending or active under it, are together the lines that
  ask for one; nothing is dropped or answered twice between the two threads and the two schedulers.  And the loop is left, at the
  end of input, only when every line that was read has been answered.\<close>

theorem every_line_is_answered_once:
  assumes "issues_fresh (me_text_generator env) issued" "vlm_issues_fresh (me_image_generator env) issued'"
    and "run_main env ops (new_main_loop env store) = Some (Inr stopped, st)"
  shows "answered rid st + open_requests rid st = asked rid ops \<and> (stopped \<longrightarrow> open_requests rid st = 0)"
proof -
  note R = run_main_counts [OF conjunct1 [OF new_main_ok] conjunct2 [OF new_main_ok] assms, of rid]
  have "answered rid (new_main_loop env store) = 0" "open_requests rid (new_main_loop env store) = 0" "ml_reader_alive (new_main_loop env store)"
    by (simp_all add: new_main_loop_def Let_def answered_def open_requests_def outstanding_def new_batch_scheduler_def held_def)
  then show ?thesis using R by simp
qed

definition loop_config :: worker_config where
  "loop_config = sample_config\<lparr>wc_model := ''m'', wc_vlm_model := Some ''v''\<rparr>"

type_synonym toy_env = "(toy, token, vlm_toy, string list, int, unit, token, vision_list) main_env"
type_synonym toy_loop = "(toy, nat, token, vlm_toy, string list, int, unit, token, vision_list) main_loop"

definition toy_env :: toy_env where
  "toy_env = \<lparr>me_config = loop_config, me_text = sample_context, me_text_generator = toy_generator, me_text_caches = toy_caches,
     me_factory = Some (\<lambda>model. Inr (toy_context\<lparr>vc_model_id := model\<rparr>)), me_image_generator = toy_vlm, me_image_caches = toy_trim,
     me_vision = toy_vision, me_vision_start = []\<rparr>"

definition toy_lines :: "main_op list" where
  "toy_lines =
     [Arrives (Inr (Some (WorkerChat (plain_request ''a'')))), Arrives (Inr (Some (WorkerChat ((image_request ''b'' [''https://x''])\<lparr>tr_model := ''v''\<rparr>)))),
      Round (\<lambda>rid n. False), Arrives (Inl JSONDecodeError), Arrives (Inr (Some (WorkerChat ((plain_request ''c'')\<lparr>tr_model := ''w''\<rparr>)))), Ends]
     @ replicate 6 (Round (\<lambda>rid n. False))"

definition toy_loop_end :: toy_loop where
  "toy_loop_end = (case run_main toy_env toy_lines (new_main_loop toy_env (new_store 8 100)) of
     Some (Inr True, st) \<Rightarrow> st | _ \<Rightarrow> new_main_loop toy_env (new_store 8 100))"

lemma toy_loop_runs: "run_main toy_env toy_lines (new_main_loop toy_env (new_store 8 100)) = Some (Inr True, toy_loop_end)"
proof -
  have "(case run_main toy_env toy_lines (new_main_loop toy_env (new_store 8 100) :: toy_loop) of Some (Inr True, s) \<Rightarrow> True | _ \<Rightarrow> False)"
    by code_simp
  then show ?thesis by (auto simp: toy_loop_end_def split: option.splits sum.splits prod.splits bool.splits)
qed

theorem every_line_is_answered_once_witness:
  "answered ''a'' toy_loop_end = 1 \<and> answered ''b'' toy_loop_end = 1 \<and> answered ''c'' toy_loop_end = 1 \<and> answered ''unknown'' toy_loop_end = 1"
proof -
  have "answered rid toy_loop_end = asked rid toy_lines" for rid
    using every_line_is_answered_once [OF _ _ toy_loop_runs, of "\<lambda>(k, live). {..<k}" "\<lambda>(k, live). {..<k}" rid] toy_issues_fresh toy_vlm_fresh
    by (simp add: toy_env_def)
  moreover have "asked ''a'' toy_lines = 1" "asked ''b'' toy_lines = 1" "asked ''c'' toy_lines = 1" "asked ''unknown'' toy_lines = 1" by code_simp+
  ultimately show ?thesis by simp
qed

text \<open>Which scheduler goes first, over rounds in which they are ready or not.\<close>

fun turns :: "(bool \<times> bool) list \<Rightarrow> bool \<times> nat \<Rightarrow> bool list" where
  "turns [] a = []"
| "turns ((text_ready, images_ready) # rs) a = fst a # turns rs (arbitrate text_ready images_ready a)"

lemma arbitrate_within: "snd a < 4 \<Longrightarrow> snd (arbitrate t i a) < 4"
  by (cases a) (simp add: arbitrate_def tick_max_consecutive_def)

lemma length_turns [simp]: "length (turns rs a) = length rs"
  by (induction rs a rule: turns.induct) simp_all

lemma turns_change:
  "snd a < 4 \<Longrightarrow> 4 - snd a < length rs \<Longrightarrow> \<exists>j \<le> 4 - snd a. turns rs a ! j \<noteq> fst a"
proof (induction rs arbitrary: a)
  case (Cons r rs)
  obtain t i where r: "r = (t, i)" by (cases r)
  obtain f n where a: "a = (f, n)" by (cases a)
  have ne: "rs \<noteq> []" using Cons.prems a by auto
  show ?case
  proof (cases "fst (arbitrate t i a) = f")
    case False
    then have "turns (r # rs) a ! 1 \<noteq> fst a" using ne by (cases rs) (auto simp: r a split: prod.splits)
    then show ?thesis using Cons.prems a by (intro exI [of _ 1]) simp
  next
    case True
    then have n: "arbitrate t i a = (f, Suc n)" "Suc n < 4" by (auto simp: a arbitrate_def tick_max_consecutive_def split: if_splits)
    have "4 - snd (f, Suc n) < length rs" using Cons.prems a n(2) by simp
    from Cons.IH [OF _ this] n(2) obtain j where "j \<le> 4 - Suc n" "turns rs (f, Suc n) ! j \<noteq> f" by auto
    then show ?thesis using n a r by (intro exI [of _ "Suc j"]) simp
  qed
qed simp

lemma turns_drop: "k < length rs \<Longrightarrow> snd a < 4 \<Longrightarrow> \<exists>b. drop k (turns rs a) = turns (drop k rs) b \<and> snd b < 4"
proof (induction k arbitrary: rs a)
  case (Suc k)
  obtain r rs' where rs: "rs = r # rs'" using Suc.prems by (cases rs) auto
  obtain t i where r: "r = (t, i)" by (cases r)
  have "k < length rs'" using Suc.prems rs by simp
  from Suc.IH [OF this arbitrate_within [OF Suc.prems(2)], of t i] show ?case by (simp add: rs r)
next
  case 0
  then show ?case by (intro exI [of _ a]) simp
qed

text \<open>C26: The two schedulers take turns: whatever work they have, in any five rounds in a row of the worker's loop each of them is
  at least once the one that is ticked first.\<close>

theorem schedulers_take_turns:
  assumes "k + 4 < length rs"
  shows "\<exists>j \<le> 4. turns rs (True, 0) ! (k + j) = text_first"
proof -
  obtain b where b: "drop k (turns rs (True, 0)) = turns (drop k rs) b" "snd b < 4" using turns_drop [of k rs "(True, 0)"] assms by auto
  have l: "4 - snd b < length (drop k rs)" using assms by simp
  obtain j where j: "j \<le> 4" "turns (drop k rs) b ! j \<noteq> fst b" using turns_change [OF b(2) l] by (meson diff_le_self le_trans)
  have at: "turns rs (True, 0) ! (k + j) = turns (drop k rs) b ! j" if "j \<le> 4" for j
    using that assms unfolding b(1) [symmetric] by (subst nth_drop) simp_all
  have "turns (drop k rs) b ! 0 = fst b" using assms by (cases "drop k rs") auto
  then show ?thesis using at [of 0] at [OF j(1)] j by (cases "text_first = fst b") force+
qed

theorem schedulers_take_turns_witness:
  "turns (replicate 9 (True, True)) (True, 0) = [True, True, True, True, False, False, False, False, True] \<and>
   (\<exists>j \<le> 4. turns (replicate 9 (True, True)) (True, 0) ! (1 + j) = False)"
proof -
  have "turns (replicate 9 (True, True)) (True, 0) = [True, True, True, True, False, False, False, False, True]" by code_simp
  then show ?thesis using schedulers_take_turns [of 1 "replicate 9 (True, True)" False] by simp
qed

subsection \<open>Cancelled identifiers\<close>

lemma marked_stays: "rid \<in> set (ml_cancelled st) \<Longrightarrow> rid \<in> set (ml_cancelled (reader_line line st)) \<and> rid \<in> set (ml_cancelled (reader_eof st))"
  by (auto simp: reader_line_def reader_eof_def Let_def mark_cancelled_request_def split: sum.split option.split worker_command.split)

text \<open>A cancelled identifier is never forgotten: whenever the loop ticks the scheduler for images afterwards, a request under it
  is answered as cancelled when its turn comes, however long ago the cancellation was and whether it was meant for another
  request.\<close>

lemma cancelled_identifier_is_dead:
  assumes "is_request_cancelled st (tr_request_id q)"
  shows "fst (prepare_one ctx vo ck (\<lambda>rid n. is_request_cancelled st rid \<or> late rid n) q s) = None"
  using assms by (simp add: prepare_one_def Let_def prepare_request_def prepare_inputs_def check_cancelled_def refuse_then_def)

end
