(* ===== verification/Dense.thy ===== *)
theory Dense
  imports Forward Ipc
begin

text \<open>
  The dense reference cache of \<^verbatim>\<open>native_mlx/cache.py\<close>: one contiguous array of keys and one of values for each
  request and layer, and the convolution state of layers that have one.  An array of shape \<open>(1, heads, length, dim)\<close> is the list
  of its rows by position; a batch is the list of its requests' rows, padded with rows of zeros.  As in the pool, an object is
  found under its handle in \<open>dn_objs\<close> and \<open>dn_live\<close> are the keys of \<^verbatim>\<open>_caches\<close>.
\<close>

subsection \<open>State\<close>

record 'v dense_layer =
  dy_keys :: "'v list option"
  dy_values :: "'v list option"
  dy_offset :: nat
  dy_conv :: "'v list option"

record 'v dense_request =
  dq_request_id :: string
  dq_layers :: "'v dense_layer list"
  dq_length :: nat

record 'v dense =
  dn_layers :: nat
  dn_objs :: "handle \<Rightarrow> 'v dense_request"
  dn_live :: "handle list"
  dn_uuids :: "nat \<Rightarrow> string"
  dn_next_uuid :: nat

text \<open>A layer's view of a batch, and the reservation of all layers.\<close>

record 'v dense_view =
  dv_layer :: nat
  dv_offsets :: "nat list"
  dv_keys :: "'v list list"
  dv_values :: "'v list list"
  dv_new_keys :: "'v list list"
  dv_new_values :: "'v list list"
  dv_new_conv :: "'v list list"

record 'v dense_reservation =
  dr_handles :: "handle list"
  dr_append :: "nat list"
  dr_views :: "'v dense_view list"
  dr_finished :: bool

definition empty_layer :: "'v dense_layer" where
  "empty_layer = \<lparr>dy_keys = None, dy_values = None, dy_offset = 0, dy_conv = None\<rparr>"

definition layer_of :: "'v dense \<Rightarrow> nat \<Rightarrow> handle \<Rightarrow> 'v dense_layer" where
  "layer_of s l h = dq_layers (dn_objs s h) ! l"

subsection \<open>The operations of the backend\<close>

definition dense_create :: "string \<Rightarrow> 'v dense \<Rightarrow> handle \<times> 'v dense" where
  "dense_create rid s =
     (let h = ''dense-kv-'' @ rid @ ''-'' @ dn_uuids s (dn_next_uuid s)
      in (h, s\<lparr>dn_next_uuid := Suc (dn_next_uuid s), dn_live := (if h \<in> set (dn_live s) then dn_live s else dn_live s @ [h]),
               dn_objs := (dn_objs s)(h := \<lparr>dq_request_id = rid, dq_layers = replicate (dn_layers s) empty_layer, dq_length = 0\<rparr>)\<rparr>))"

definition dense_get :: "handle option \<Rightarrow> string \<Rightarrow> 'v dense \<Rightarrow> exn + handle" where
  "dense_get ho rid s =
     (case ho of
        None \<Rightarrow> Inl (ValueError ''invalid cache handle'')
      | Some h \<Rightarrow>
          if h \<notin> set (dn_live s) then Inl (ValueError ''invalid cache handle'')
          else if dq_request_id (dn_objs s h) \<noteq> rid then Inl (ValueError ''cache handle belongs to different request'')
          else Inr h)"

definition dense_length :: "handle option \<Rightarrow> 'v dense \<Rightarrow> nat" where
  "dense_length ho s = (case ho of None \<Rightarrow> 0 | Some h \<Rightarrow> if h \<notin> set (dn_live s) then 0 else dq_length (dn_objs s h))"

definition new_view :: "handle list \<Rightarrow> 'v dense \<Rightarrow> nat \<Rightarrow> 'v dense_view" where
  "new_view hs s l = \<lparr>dv_layer = l, dv_offsets = map (\<lambda>h. dy_offset (layer_of s l h)) hs, dv_keys = [], dv_values = [], dv_new_keys = [], dv_new_values = [], dv_new_conv = []\<rparr>"

definition dense_reserve :: "handle list \<Rightarrow> nat list \<Rightarrow> 'v dense \<Rightarrow> 'v dense_reservation" where
  "dense_reserve hs ns s = \<lparr>dr_handles = hs, dr_append = ns, dr_views = map (new_view hs s) [0..<dn_layers s], dr_finished = False\<rparr>"

definition dense_preflight :: "handle list \<Rightarrow> nat list \<Rightarrow> exn + string option list" where
  "dense_preflight hs ns =
     (if length hs \<noteq> length ns then Inl (ValueError ''dense preflight requires matching requests'') else Inr (replicate (length hs) None))"

definition dense_release :: "handle option \<Rightarrow> 'v dense \<Rightarrow> 'v dense" where
  "dense_release ho s = (case ho of None \<Rightarrow> s | Some h \<Rightarrow> s\<lparr>dn_live := remove1 h (dn_live s)\<rparr>)"

definition fork_layer :: "nat \<Rightarrow> 'v dense_layer \<Rightarrow> 'v dense_layer" where
  "fork_layer n source =
     \<lparr>dy_keys = map_option (take n) (dy_keys source), dy_values = map_option (take n) (dy_values source), dy_offset = n,
      dy_conv = dy_conv source\<rparr>"

definition dense_fork :: "handle \<Rightarrow> string \<Rightarrow> int option \<Rightarrow> 'v dense \<Rightarrow> (exn + handle) \<times> 'v dense" where
  "dense_fork h rid len s =
     (if h \<notin> set (dn_live s) then (Inl (KeyError h), s)
      else
        (let source = dn_objs s h;
             fork_length = (case len of None \<Rightarrow> int (dq_length source) | Some n \<Rightarrow> n)
         in if fork_length < 0 \<or> int (dq_length source) < fork_length then (Inl (ValueError ''fork length is outside source cache''), s)
            else (let (new, s1) = dense_create rid s
                  in (Inr new, s1\<lparr>dn_objs := (dn_objs s1)(new := (dn_objs s1 new)
                       \<lparr>dq_length := nat fork_length, dq_layers := map (fork_layer (nat fork_length)) (dq_layers source)\<rparr>)\<rparr>))))"

definition dense_reset :: "'v dense \<Rightarrow> 'v dense" where
  "dense_reset s = s\<lparr>dn_live := []\<rparr>"

definition layer_bytes :: "nat \<Rightarrow> 'v dense_layer \<Rightarrow> nat" where
  "layer_bytes row_bytes y =
     (case (dy_keys y, dy_values y) of (Some ks, Some vs) \<Rightarrow> row_bytes * (length ks + length vs) | _ \<Rightarrow> 0)"

definition active_kv_bytes :: "nat \<Rightarrow> 'v dense \<Rightarrow> nat" where
  "active_kv_bytes row_bytes s =
     sum_list (map (\<lambda>h. sum_list (map (layer_bytes row_bytes) (dq_layers (dn_objs s h)))) (dn_live s))"

subsection \<open>One layer\<close>

text \<open>\<^verbatim>\<open>zip(\<dots>, strict=True)\<close> on lists of \<open>n\<close> and \<open>m\<close> items.\<close>

definition zip_error :: "nat \<Rightarrow> nat \<Rightarrow> exn" where
  "zip_error n m = ValueError (''zip() argument 2 is '' @ (if m < n then ''shorter'' else ''longer'') @ '' than argument 1'')"

text \<open>The rows a request hands over: at most what the tensor has.\<close>

definition valid_rows :: "'v tensor \<Rightarrow> nat \<Rightarrow> nat \<Rightarrow> 'v list" where
  "valid_rows t i n = map (t_row t i) [0..<min n (t_shape t ! 2)]"

definition row_update :: "'v dense \<Rightarrow> nat \<Rightarrow> 'v tensor \<Rightarrow> 'v tensor \<Rightarrow> nat \<times> handle \<times> nat \<Rightarrow> exn + 'v list \<times> 'v list" where
  "row_update s l keys values = (\<lambda>(i, h, n).
     (let y = layer_of s l h; ks = valid_rows keys i n; vs = valid_rows values i n
      in if dy_offset y = 0 then Inr (ks, vs)
         else (case (dy_keys y, dy_values y) of
             (Some ks0, Some vs0) \<Rightarrow> Inr (ks0 @ ks, vs0 @ vs)
           | _ \<Rightarrow> Inl (ValueError ''cache layer missing KV state''))))"

definition pad_row :: "'v \<Rightarrow> nat \<Rightarrow> 'v list \<Rightarrow> 'v list" where
  "pad_row zero pad row = row @ replicate pad zero"

text \<open>Keys and values are padded by what the keys lack.\<close>

definition update_and_fetch ::
  "'v \<Rightarrow> 'v tensor \<Rightarrow> 'v tensor \<Rightarrow> handle list \<Rightarrow> nat list \<Rightarrow> 'v dense_view \<Rightarrow> 'v dense \<Rightarrow>
     exn + ('v list list \<times> 'v list list) \<times> 'v dense_view" where
  "update_and_fetch zero keys values hs ns w s =
     (if length hs \<noteq> length ns then Inl (zip_error (length hs) (length ns))
      else if hs = [] then Inl (ValueError ''max() iterable argument is empty'')
      else
        (let max_total = fold max (map2 (\<lambda>h n. dy_offset (layer_of s (dv_layer w) h) + n) hs ns) 0
         in and_then (collect (row_update s (dv_layer w) keys values) (zip [0..<length hs] (zip hs ns))) (\<lambda>new.
            (let ks = map (\<lambda>(k, v). pad_row zero (max_total - length k) k) new; vs = map (\<lambda>(k, v). pad_row zero (max_total - length k) v) new
             in Inr ((ks, vs), w\<lparr>dv_keys := ks, dv_values := vs, dv_new_keys := map fst new, dv_new_values := map snd new\<rparr>)))))"

text \<open>\<^verbatim>\<open>DenseLayerAttentionContext.append_and_attend\<close> in \<^verbatim>\<open>native_mlx/attention.py\<close>.\<close>

definition dense_attend ::
  "('q \<Rightarrow> 'v list \<Rightarrow> 'v list \<Rightarrow> bool list \<Rightarrow> 'a) \<Rightarrow> 'v \<Rightarrow> 'q tensor \<Rightarrow> 'v tensor \<Rightarrow> 'v tensor \<Rightarrow> string option \<Rightarrow> int option \<Rightarrow>
     handle list \<Rightarrow> nat list \<Rightarrow> 'v dense_view \<Rightarrow> 'v dense \<Rightarrow> exn + (nat \<Rightarrow> nat \<Rightarrow> 'a) \<times> 'v dense_view" where
  "dense_attend sdpa zero queries keys values msk window hs ns w s =
     and_then (case window of Some n \<Rightarrow> Inr (Some n) | None \<Rightarrow> window_size_of msk) (\<lambda>window_size.
       if msk \<noteq> None \<and> msk \<noteq> Some ''causal'' \<and> window_size = None then
         Inl (ValueError ''dense reference attention received unsupported mask'')
       else
         and_then (update_and_fetch zero keys values hs ns w s) (\<lambda>((ks, vs), w').
           (let valid = dense_causal_mask (dv_offsets w') ns window_size
            in Inr (\<lambda>i j. sdpa (t_row queries i j) (ks ! i) (vs ! i) (map (valid i j) [0..<length (hd ks)]), w'))))"

definition view_validate :: "handle list \<Rightarrow> nat list \<Rightarrow> 'v dense \<Rightarrow> 'v dense_view \<Rightarrow> exn + unit" where
  "view_validate hs ns s w =
     (if dv_new_conv w \<noteq> [] then
        (if length (dv_new_conv w) \<noteq> length hs then Inl (ValueError ''batched cache has incomplete convolution state'') else Inr ())
      else if length (dv_new_keys w) \<noteq> length hs then Inl (ValueError ''batched cache has incomplete committed keys'')
      else if length (dv_new_values w) \<noteq> length hs then Inl (ValueError ''batched cache has incomplete committed values'')
      else if list_ex (\<lambda>(h, ks, vs, n). length ks \<noteq> dy_offset (layer_of s (dv_layer w) h) + n \<or>
                length vs \<noteq> dy_offset (layer_of s (dv_layer w) h) + n)
              (zip hs (zip (dv_new_keys w) (zip (dv_new_values w) ns))) then
        Inl (ValueError ''committed dense cache length mismatch'')
      else Inr ())"

definition set_layer :: "nat \<Rightarrow> handle \<Rightarrow> ('v dense_layer \<Rightarrow> 'v dense_layer) \<Rightarrow> 'v dense \<Rightarrow> 'v dense" where
  "set_layer l h f s = s\<lparr>dn_objs := (dn_objs s)(h := (dn_objs s h)
     \<lparr>dq_layers := (dq_layers (dn_objs s h))[l := f (dq_layers (dn_objs s h) ! l)]\<rparr>)\<rparr>"

definition view_commit :: "handle list \<Rightarrow> 'v dense_view \<Rightarrow> 'v dense \<Rightarrow> 'v dense" where
  "view_commit hs w s =
     (if dv_new_conv w \<noteq> [] then
        fold (\<lambda>(h, st). set_layer (dv_layer w) h (\<lambda>y. y\<lparr>dy_conv := Some st\<rparr>)) (zip hs (dv_new_conv w)) s
      else
        fold (\<lambda>(h, ks, vs). set_layer (dv_layer w) h (\<lambda>y. y\<lparr>dy_keys := Some ks, dy_values := Some vs, dy_offset := length ks\<rparr>))
          (zip hs (zip (dv_new_keys w) (dv_new_values w))) s)"

subsection \<open>The reservation\<close>

fun validate_all :: "handle list \<Rightarrow> nat list \<Rightarrow> 'v dense \<Rightarrow> 'v dense_view list \<Rightarrow> exn + unit" where
  "validate_all hs ns s [] = Inr ()"
| "validate_all hs ns s (w # ws) = and_then (view_validate hs ns s w) (\<lambda>_. validate_all hs ns s ws)"

definition grow :: "handle \<times> nat \<Rightarrow> 'v dense \<Rightarrow> 'v dense" where
  "grow = (\<lambda>(h, n) s. s\<lparr>dn_objs := (dn_objs s)(h := (dn_objs s h)\<lparr>dq_length := dq_length (dn_objs s h) + n\<rparr>)\<rparr>)"

definition dense_commit :: "'v dense_reservation \<Rightarrow> 'v dense \<Rightarrow> (exn + nat list) \<times> 'v dense_reservation \<times> 'v dense" where
  "dense_commit r s =
     (if dr_finished r then (Inl (ValueError ''cache reservation already finished''), r, s)
      else (case validate_all (dr_handles r) (dr_append r) s (dr_views r) of
          Inl e \<Rightarrow> (Inl e, r, s)
        | Inr _ \<Rightarrow>
            (let s1 = fold (view_commit (dr_handles r)) (dr_views r) s;
                 s2 = fold grow (zip (dr_handles r) (dr_append r)) s1
             in (Inr (map (\<lambda>h. dq_length (dn_objs s2 h)) (dr_handles r)), r\<lparr>dr_finished := True\<rparr>, s2))))"

text \<open>A whole step as the executor drives it: reserve, let every layer append and fetch, commit.\<close>

fun fetch_layers ::
  "'v \<Rightarrow> nat list \<Rightarrow> (nat \<Rightarrow> 'v tensor) \<Rightarrow> (nat \<Rightarrow> 'v tensor) \<Rightarrow> 'v dense_reservation \<Rightarrow> 'v dense \<Rightarrow> exn + 'v dense_reservation" where
  "fetch_layers zero [] kts vts r s = Inr r"
| "fetch_layers zero (l # ls) kts vts r s =
     and_then (update_and_fetch zero (kts l) (vts l) (dr_handles r) (dr_append r) (dr_views r ! l) s) (\<lambda>(_, w).
       fetch_layers zero ls kts vts (r\<lparr>dr_views := (dr_views r)[l := w]\<rparr>) s)"

definition dense_step ::
  "'v \<Rightarrow> handle list \<Rightarrow> nat list \<Rightarrow> (nat \<Rightarrow> 'v tensor) \<Rightarrow> (nat \<Rightarrow> 'v tensor) \<Rightarrow> 'v dense \<Rightarrow> (exn + nat list) \<times> 'v dense" where
  "dense_step zero hs ns kts vts s =
     (case fetch_layers zero [0..<dn_layers s] kts vts (dense_reserve hs ns s) s of
        Inl e \<Rightarrow> (Inl e, s)
      | Inr r \<Rightarrow> (case dense_commit r s of (res, _, s') \<Rightarrow> (res, s')))"

definition dense_abort :: "'v dense_reservation \<Rightarrow> 'v dense_reservation" where
  "dense_abort r = r\<lparr>dr_finished := True\<rparr>"

subsection \<open>Convolution state\<close>

text \<open>The rows of a request behind its state: positions beyond its own length are zeros.\<close>

definition conv_input :: "'v \<Rightarrow> nat \<Rightarrow> 'v list option \<Rightarrow> 'v tensor \<Rightarrow> nat \<Rightarrow> nat \<Rightarrow> 'v list" where
  "conv_input zero cache_size state values i n =
     (case state of None \<Rightarrow> replicate (cache_size - 1) zero | Some st \<Rightarrow> st) @
     map (\<lambda>j. if j < n then t_row values i j else zero) [0..<t_shape values ! 1]"

definition conv_next :: "nat \<Rightarrow> nat \<Rightarrow> 'v list \<Rightarrow> 'v list" where
  "conv_next cache_size n combined = take (cache_size - 1) (drop n combined)"

definition dense_prepare_conv ::
  "'v \<Rightarrow> nat \<Rightarrow> 'v tensor \<Rightarrow> nat \<Rightarrow> 'v dense_reservation \<Rightarrow> 'v dense \<Rightarrow> 'v list list" where
  "dense_prepare_conv zero l values cache_size r s =
     map (\<lambda>(i, h, n). conv_input zero cache_size (dy_conv (layer_of s l h)) values i n)
       (zip [0..<length (dr_handles r)] (zip (dr_handles r) (dr_append r)))"

definition stage_conv_states :: "'v list list \<Rightarrow> 'v dense_view \<Rightarrow> exn + 'v dense_view" where
  "stage_conv_states states w =
     (if dv_new_keys w \<noteq> [] \<or> dv_new_values w \<noteq> [] then Inl (ValueError ''dense layer cannot stage both KV and convolution state'')
      else Inr (w\<lparr>dv_new_conv := states\<rparr>))"

definition dense_stage_conv ::
  "nat \<Rightarrow> 'v list list \<Rightarrow> nat \<Rightarrow> 'v dense_reservation \<Rightarrow> exn + 'v dense_reservation" where
  "dense_stage_conv l combined cache_size r =
     and_then (stage_conv_states (map2 (\<lambda>c n. conv_next cache_size n c) combined (dr_append r)) (dr_views r ! l)) (\<lambda>w.
       Inr (r\<lparr>dr_views := (dr_views r)[l := w]\<rparr>))"

end
