(* ===== verification/Hybrid.thy ===== *)
theory Hybrid
  imports Dense
begin

text \<open>
  The hybrid backend of \<^verbatim>\<open>native_mlx/cache.py\<close>, \<^verbatim>\<open>HybridPagedKVCacheBackend\<close> and \<^verbatim>\<open>HybridBatchReservation\<close>: the paged pool
  for the attention layers of a model, and for its convolution layers the last rows of each request.  \<open>hb_conv\<close> is the
  dictionary \<^verbatim>\<open>conv_states\<close> of each request's object, found under its handle like the object itself.
\<close>

record 'v hybrid =
  hb_kv :: "'v kv"
  hb_conv :: "handle \<Rightarrow> (nat \<times> 'v list) list"

record 'v hybrid_reservation =
  hv_paged :: "'v reservation"
  hv_states :: "'v list list option list"

definition hybrid_handle :: "string \<Rightarrow> string \<Rightarrow> handle" where
  "hybrid_handle rid hex = ''paged-hybrid-kv-'' @ rid @ ''-'' @ hex"

definition hybrid_create :: "string \<Rightarrow> 'v hybrid \<Rightarrow> handle \<times> 'v hybrid" where
  "hybrid_create rid s =
     (let kv = hb_kv s; h = hybrid_handle rid (uuids kv (next_uuid kv))
      in (h, \<lparr>hb_kv = kv\<lparr>next_uuid := Suc (next_uuid kv), live := (if h \<in> set (live kv) then live kv else live kv @ [h]),
                objs := (objs kv)(h := \<lparr>rc_handle = h, rc_request_id = rid, block_table = [], rc_length = 0\<rparr>)\<rparr>,
              hb_conv = (hb_conv s)(h := [])\<rparr>))"

text \<open>\<^verbatim>\<open>fork\<close>: the pool's, then the source's states, whatever the length.\<close>

definition hybrid_fork :: "handle \<Rightarrow> string \<Rightarrow> int option \<Rightarrow> 'v hybrid \<Rightarrow> (exn + handle) \<times> 'v hybrid" where
  "hybrid_fork h rid len s =
     (if h \<notin> set (live (hb_kv s)) then (Inl (KeyError h), s)
      else
        (let source = objs (hb_kv s) h;
             fork_length = (case len of None \<Rightarrow> int (rc_length source) | Some n \<Rightarrow> n)
         in if fork_length < 0 \<or> int (rc_length source) < fork_length then
              (Inl (ValueError ''fork length is outside source cache''), s)
            else
              (let pages = take (ceil_div (nat fork_length) (page_size (hb_kv s))) (block_table source);
                   (new, s1) = hybrid_create rid s; kv = hb_kv s1
               in (Inr new,
                   s1\<lparr>hb_kv := kv\<lparr>objs := (objs kv)(new := (objs kv new)\<lparr>block_table := pages, rc_length := nat fork_length\<rparr>),
                        ref_counts := bump 1 pages (ref_counts kv)\<rparr>,
                      hb_conv := (hb_conv s1)(new := hb_conv s h)\<rparr>))))"

definition hybrid_reserve :: "handle list \<Rightarrow> nat list \<Rightarrow> 'v hybrid \<Rightarrow> (exn + 'v hybrid_reservation) \<times> 'v hybrid" where
  "hybrid_reserve hs ns s =
     (case reserve_batch hs ns (hb_kv s) of
        (Inl e, kv) \<Rightarrow> (Inl e, s\<lparr>hb_kv := kv\<rparr>)
      | (Inr r, kv) \<Rightarrow> (Inr \<lparr>hv_paged = r, hv_states = replicate (num_layers kv) None\<rparr>, s\<lparr>hb_kv := kv\<rparr>))"

definition staged_twice :: "nat \<Rightarrow> exn" where
  "staged_twice l = ValueError (''layer '' @ nat_str l @ '' staged both state and KV'')"

definition hybrid_stage_layer ::
  "nat \<Rightarrow> 'v tensor \<Rightarrow> 'v tensor \<Rightarrow> 'v hybrid_reservation \<Rightarrow> 'v hybrid \<Rightarrow>
     (exn + (nat \<Rightarrow> 'v) \<times> (nat \<Rightarrow> 'v)) \<times> 'v hybrid_reservation \<times> 'v hybrid" where
  "hybrid_stage_layer l keys values r s =
     (if length (hv_states r) \<le> l then (Inl IndexError, r, s)
      else if hv_states r ! l \<noteq> None then (Inl (staged_twice l), r, s)
      else (case stage_layer l keys values (hv_paged r) (hb_kv s) of
          (res, p, kv) \<Rightarrow> (res, r\<lparr>hv_paged := p\<rparr>, s\<lparr>hb_kv := kv\<rparr>)))"

definition hybrid_prepare_conv ::
  "'v \<Rightarrow> nat \<Rightarrow> 'v tensor \<Rightarrow> nat \<Rightarrow> 'v hybrid_reservation \<Rightarrow> 'v hybrid \<Rightarrow> 'v list list" where
  "hybrid_prepare_conv zero l values cache_size r s =
     map (\<lambda>(i, h, n). conv_input zero cache_size (map_of (hb_conv s h) l) values i n)
       (zip [0..<length (rs_handles (hv_paged r))] (zip (rs_handles (hv_paged r)) (append_lengths (hv_paged r))))"

definition hybrid_stage_conv ::
  "nat \<Rightarrow> 'v list list \<Rightarrow> nat \<Rightarrow> 'v hybrid_reservation \<Rightarrow> exn + 'v hybrid_reservation" where
  "hybrid_stage_conv l combined cache_size r =
     (if rs_finished (hv_paged r) then Inl (ValueError ''cache reservation already finished'')
      else if length (staged_keys (hv_paged r)) \<le> l then Inl IndexError
      else if staged_keys (hv_paged r) ! l \<noteq> None then Inl (staged_twice l)
      else Inr (r\<lparr>hv_states := (hv_states r)[l := Some (map2 (\<lambda>c n. conv_next cache_size n c) combined (append_lengths (hv_paged r)))]\<rparr>))"

text \<open>\<^verbatim>\<open>_commit_hybrid_reservation\<close>.\<close>

definition put_states :: "handle list \<Rightarrow> nat \<times> 'v list list option \<Rightarrow> (handle \<Rightarrow> (nat \<times> 'v list) list) \<Rightarrow> handle \<Rightarrow> (nat \<times> 'v list) list" where
  "put_states hs = (\<lambda>(l, st) conv. case st of None \<Rightarrow> conv | Some states \<Rightarrow>
     fold (\<lambda>(h, x) c. c(h := AList.update l x (c h))) (zip hs states) conv)"

definition hybrid_commit ::
  "'v hybrid_reservation \<Rightarrow> 'v hybrid \<Rightarrow> (exn + nat list) \<times> 'v hybrid_reservation \<times> 'v hybrid" where
  "hybrid_commit r s =
     (let p = hv_paged r
      in if rs_finished p then (Inl (ValueError ''cache reservation already finished''), r, s)
         else if list_ex (\<lambda>(k, v, st). (k \<noteq> None \<and> v \<noteq> None) = (st \<noteq> None)) (zip (staged_keys p) (zip (staged_values p) (hv_states r))) then
           (Inl (ValueError ''hybrid cache commit requires one operation per layer''), r, s)
         else (case commit_reservation p (staged_keys p) (staged_values p) (hb_kv s) of
             (Inl e, kv) \<Rightarrow> (Inl e, r, s\<lparr>hb_kv := kv\<rparr>)
           | (Inr lengths, kv) \<Rightarrow>
               (Inr lengths, r\<lparr>hv_paged := p\<lparr>rs_finished := True\<rparr>\<rparr>,
                \<lparr>hb_kv = kv, hb_conv = fold (put_states (rs_handles p)) (enumerate 0 (hv_states r)) (hb_conv s)\<rparr>)))"

definition hybrid_abort :: "'v hybrid_reservation \<Rightarrow> 'v hybrid \<Rightarrow> (exn + unit) \<times> 'v hybrid_reservation \<times> 'v hybrid" where
  "hybrid_abort r s = (case abort (hv_paged r) (hb_kv s) of (res, p, kv) \<Rightarrow> (res, r\<lparr>hv_paged := p\<rparr>, s\<lparr>hb_kv := kv\<rparr>))"

subsection \<open>A step\<close>

text \<open>What a layer of the model does: attention stages keys and values, a convolution prepares its input and stages the states.\<close>

datatype 'v layer_op = Attend "'v tensor" "'v tensor" | Convolve "'v tensor" nat

fun run_op :: "'v \<Rightarrow> nat \<Rightarrow> 'v layer_op \<Rightarrow> 'v hybrid_reservation \<Rightarrow> 'v hybrid \<Rightarrow> (exn + unit) \<times> 'v hybrid_reservation \<times> 'v hybrid" where
  "run_op zero l (Attend kt vt) r s = (case hybrid_stage_layer l kt vt r s of (Inl e, r', s') \<Rightarrow> (Inl e, r', s') | (Inr _, r', s') \<Rightarrow> (Inr (), r', s'))"
| "run_op zero l (Convolve x c) r s =
     (case hybrid_stage_conv l (hybrid_prepare_conv zero l x c r s) c r of Inl e \<Rightarrow> (Inl e, r, s) | Inr r' \<Rightarrow> (Inr (), r', s))"

fun run_ops ::
  "'v \<Rightarrow> nat list \<Rightarrow> (nat \<Rightarrow> 'v layer_op) \<Rightarrow> 'v hybrid_reservation \<Rightarrow> 'v hybrid \<Rightarrow> (exn + unit) \<times> 'v hybrid_reservation \<times> 'v hybrid" where
  "run_ops zero [] ops r s = (Inr (), r, s)"
| "run_ops zero (l # ls) ops r s =
     (case run_op zero l (ops l) r s of
        (Inl e, r', s') \<Rightarrow> (Inl e, r', s')
      | (Inr _, r', s') \<Rightarrow> run_ops zero ls ops r' s')"

definition hybrid_step ::
  "'v \<Rightarrow> handle list \<Rightarrow> nat list \<Rightarrow> (nat \<Rightarrow> 'v layer_op) \<Rightarrow> 'v hybrid \<Rightarrow> (exn + nat list) \<times> 'v hybrid" where
  "hybrid_step zero hs ns ops s =
     (case hybrid_reserve hs ns s of
        (Inl e, s1) \<Rightarrow> (Inl e, s1)
      | (Inr r, s1) \<Rightarrow>
          (case run_ops zero [0..<num_layers (hb_kv s1)] ops r s1 of
             (Inl e, r', s2) \<Rightarrow> (case hybrid_abort r' s2 of (_, _, s3) \<Rightarrow> (Inl e, s3))
           | (Inr _, r', s2) \<Rightarrow> (case hybrid_commit r' s2 of (res, _, s3) \<Rightarrow> (res, s3))))"

end
