(* ===== verification/DenseProps.thy ===== *)
theory DenseProps
  imports Dense
begin

text \<open>
  The dense reference and the paged pool are the same cache: attention reads the same rows from both, and a step appends the
  same rows to both.
\<close>

subsection \<open>The invariant of the dense backend\<close>

definition rows_in :: "'v list option \<Rightarrow> 'v list" where
  "rows_in k = (case k of None \<Rightarrow> [] | Some xs \<Rightarrow> xs)"

lemma rows_in_simps [simp]: "rows_in None = []" "rows_in (Some xs) = xs"
  by (simp_all add: rows_in_def)

definition layer_ok :: "nat \<Rightarrow> 'v dense_layer \<Rightarrow> bool" where
  "layer_ok n y \<longleftrightarrow> dy_offset y = n \<and> length (rows_in (dy_keys y)) = n \<and> length (rows_in (dy_values y)) = n"

definition dense_wf :: "'v dense \<Rightarrow> bool" where
  "dense_wf s \<longleftrightarrow> (\<forall>h \<in> set (dn_live s). length (dq_layers (dn_objs s h)) = dn_layers s \<and>
     (\<forall>y \<in> set (dq_layers (dn_objs s h)). layer_ok (dq_length (dn_objs s h)) y))"

text \<open>The same abstraction as the paged pool's \<open>kv_abs\<close>.\<close>

definition dense_abs :: "'v dense \<Rightarrow> handle \<Rightarrow> 'v content option" where
  "dense_abs s h = (if h \<in> set (dn_live s) then
     Some (dq_request_id (dn_objs s h), map (rows_in \<circ> dy_keys) (dq_layers (dn_objs s h)), map (rows_in \<circ> dy_values) (dq_layers (dn_objs s h)))
     else None)"

lemma dense_wf_layer:
  assumes "dense_wf s" "h \<in> set (dn_live s)" "l < dn_layers s"
  shows "layer_ok (dq_length (dn_objs s h)) (layer_of s l h)"
  using assms by (simp add: dense_wf_def layer_of_def)

lemma dense_create_wf: "dense_wf s \<Longrightarrow> dense_create rid s = (h, s') \<Longrightarrow> dense_wf s'"
  by (auto simp: dense_create_def dense_wf_def Let_def empty_layer_def layer_ok_def rows_in_def split: if_splits)

lemma dense_release_wf: "dense_wf s \<Longrightarrow> dense_wf (dense_release ho s)"
  by (auto simp: dense_release_def dense_wf_def split: option.splits dest: in_set_remove1)

lemma fork_layer_ok: "layer_ok m y \<Longrightarrow> n \<le> m \<Longrightarrow> layer_ok n (fork_layer n y)"
  by (auto simp: layer_ok_def fork_layer_def rows_in_def split: option.splits)

lemma dense_fork_wf:
  assumes wf: "dense_wf s" and run: "dense_fork h rid len s = (res, s')"
  shows "dense_wf s'"
proof (cases res)
  case (Inl e)
  then show ?thesis using run wf by (auto simp: dense_fork_def Let_def split: if_splits prod.splits)
next
  case (Inr new)
  define n where "n = nat (case len of None \<Rightarrow> int (dq_length (dn_objs s h)) | Some n \<Rightarrow> n)"
  obtain h1 s1 where c: "dense_create rid s = (h1, s1)" by fastforce
  have n: "n \<le> dq_length (dn_objs s h)" "h \<in> set (dn_live s)"
      "s' = s1\<lparr>dn_objs := (dn_objs s1)(h1 := (dn_objs s1 h1)\<lparr>dq_length := n, dq_layers := map (fork_layer n) (dq_layers (dn_objs s h))\<rparr>)\<rparr>"
    using run Inr c by (auto simp: dense_fork_def Let_def n_def split: if_splits prod.splits option.splits)
  have "dense_wf s1" using dense_create_wf [OF wf c] .
  moreover have "dn_layers s1 = dn_layers s" using c by (auto simp: dense_create_def Let_def)
  ultimately show ?thesis using wf n(1,2) fork_layer_ok unfolding n(3) dense_wf_def by (fastforce simp: image_iff)
qed

subsection \<open>Reading\<close>

lemma collect_all: "(\<And>x. x \<in> set xs \<Longrightarrow> f x = Inr (g x)) \<Longrightarrow> collect f xs = Inr (map g xs)"
  by (induction xs) auto

lemma fold_max_Max: "xs \<noteq> [] \<Longrightarrow> fold max xs 0 = Max (set xs)" for xs :: "nat list"
  using Max.set_eq_fold [of "hd xs" "tl xs"] by (cases xs) simp_all

definition full_rows :: "('v dense_layer \<Rightarrow> 'v list option) \<Rightarrow> 'v dense \<Rightarrow> nat \<Rightarrow> 'v tensor \<Rightarrow> nat \<times> handle \<times> nat \<Rightarrow> 'v list" where
  "full_rows sel s l t = (\<lambda>(i, h, n). rows_in (sel (layer_of s l h)) @ valid_rows t i n)"

lemma row_update_full:
  assumes "layer_ok m (layer_of s l h)"
  shows "row_update s l keys values (i, h, n) = Inr (full_rows dy_keys s l keys (i, h, n), full_rows dy_values s l values (i, h, n))"
  using assms by (auto simp: row_update_def full_rows_def Let_def layer_ok_def rows_in_def split: option.splits)

lemma update_and_fetch_full:
  fixes kt vt :: "'v tensor" and zero :: 'v
  assumes wf: "dense_wf s" and hs: "set hs \<subseteq> set (dn_live s)" "length hs = length ns" "hs \<noteq> []" and l: "dv_layer w < dn_layers s"
  defines "width \<equiv> Max (set (map2 (\<lambda>h n. dy_offset (layer_of s (dv_layer w) h) + n) hs ns))"
    and "batch \<equiv> zip [0..<length hs] (zip hs ns)"
  defines "ks \<equiv> map (full_rows dy_keys s (dv_layer w) kt) batch" and "vs \<equiv> map (full_rows dy_values s (dv_layer w) vt) batch"
  defines "kp \<equiv> map2 (\<lambda>k v. pad_row zero (width - length k) k) ks vs" and "vp \<equiv> map2 (\<lambda>k v. pad_row zero (width - length k) v) ks vs"
  shows "update_and_fetch zero kt vt hs ns w s =
    Inr ((kp, vp), w\<lparr>dv_keys := kp, dv_values := vp, dv_new_keys := ks, dv_new_values := vs\<rparr>)"
proof -
  have rows: "collect (row_update s (dv_layer w) kt vt) batch =
      Inr (map (\<lambda>b. (full_rows dy_keys s (dv_layer w) kt b, full_rows dy_values s (dv_layer w) vt b)) batch)"
  proof (rule collect_all)
    fix b assume "b \<in> set batch"
    then obtain i h n where "b = (i, h, n)" "h \<in> set hs" unfolding batch_def by (metis prod.exhaust set_zip_leftD set_zip_rightD)
    then show "row_update s (dv_layer w) kt vt b = Inr (full_rows dy_keys s (dv_layer w) kt b, full_rows dy_values s (dv_layer w) vt b)"
      using row_update_full [OF dense_wf_layer [OF wf _ l]] hs(1) by blast
  qed
  have "map2 (\<lambda>h n. dy_offset (layer_of s (dv_layer w) h) + n) hs ns \<noteq> []" using hs(2,3) by (cases hs; cases ns) auto
  then have width: "fold max (map2 (\<lambda>h n. dy_offset (layer_of s (dv_layer w) h) + n) hs ns) 0 = width"
    unfolding width_def by (rule fold_max_Max)
  have ok: "\<not> length hs \<noteq> length ns" using hs(2) by simp
  show ?thesis
    unfolding update_and_fetch_def Let_def batch_def [symmetric] rows width if_not_P [OF ok] if_not_P [OF hs(3)]
    by (simp add: kp_def vp_def ks_def vs_def comp_def zip_map_map zip_same_conv_map)
qed

subsection \<open>Both caches are read alike\<close>

lemma dense_abs_rows:
  assumes "dense_wf d" "kv_wf s" "kv_abs s h = dense_abs d k" "h \<in> set (live s)"
  shows "k \<in> set (dn_live d)" "num_layers s = dn_layers d" "dq_length (dn_objs d k) = kv_size s h \<or> num_layers s = 0"
    and "\<And>l. l < num_layers s \<Longrightarrow> rows_in (dy_keys (layer_of d l k)) = rows s (key_pages s ! l) h"
    and "\<And>l. l < num_layers s \<Longrightarrow> rows_in (dy_values (layer_of d l k)) = rows s (value_pages s ! l) h"
    and "\<And>l. l < num_layers s \<Longrightarrow> dy_offset (layer_of d l k) = kv_size s h"
proof -
  have e: "dense_abs d k = Some (content s h)" using assms(3,4) by (simp add: kv_abs_def)
  then show k: "k \<in> set (dn_live d)" by (simp add: dense_abs_def split: if_splits)
  have m: "map (rows_in \<circ> dy_keys) (dq_layers (dn_objs d k)) = map (\<lambda>pg. rows s pg h) (key_pages s)"
    "map (rows_in \<circ> dy_values) (dq_layers (dn_objs d k)) = map (\<lambda>pg. rows s pg h) (value_pages s)"
    using e k by (simp_all add: dense_abs_def content_def)
  have len: "length (dq_layers (dn_objs d k)) = dn_layers d" using assms(1) k by (simp add: dense_wf_def)
  then show n: "num_layers s = dn_layers d" using arg_cong [OF m(1), of length] kv_wfD(4) [OF assms(2)] by simp
  have r: "rows_in (dy_keys (layer_of d l k)) = rows s (key_pages s ! l) h"
    "rows_in (dy_values (layer_of d l k)) = rows s (value_pages s ! l) h" if "l < num_layers s" for l
    using arg_cong [OF m(1), of "\<lambda>xs. xs ! l"] arg_cong [OF m(2), of "\<lambda>xs. xs ! l"] that kv_wfD(4,5) [OF assms(2)] len n
    by (simp_all add: layer_of_def)
  then show "\<And>l. l < num_layers s \<Longrightarrow> rows_in (dy_keys (layer_of d l k)) = rows s (key_pages s ! l) h"
    "\<And>l. l < num_layers s \<Longrightarrow> rows_in (dy_values (layer_of d l k)) = rows s (value_pages s ! l) h" by blast+
  have o: "dq_length (dn_objs d k) = kv_size s h \<and> dy_offset (layer_of d l k) = kv_size s h" if l: "l < num_layers s" for l
    using dense_wf_layer [OF assms(1) k, of l] r(1) [OF l] l n by (auto simp: layer_ok_def rows_def)
  then show "dq_length (dn_objs d k) = kv_size s h \<or> num_layers s = 0" "\<And>l. l < num_layers s \<Longrightarrow> dy_offset (layer_of d l k) = kv_size s h"
    by (metis gr0I) (use o in blast)
qed

text \<open>One layer of the batch, just before it is staged.\<close>

lemma attention_reads_alike:
  assumes wf: "kv_wf s" and ok: "reservation_ok s r" and len: "lengths_known s r"
    and st: "stage_layer l kt vt r s = (Inr (kc, vc), r', s')"
    and d: "dense_wf d" "length ds = length (rs_handles r)" "\<And>i. i < length ds \<Longrightarrow> kv_abs s (rs_handles r ! i) = dense_abs d (ds ! i)"
  shows "\<exists>w. update_and_fetch zero kt vt ds (append_lengths r) (new_view ds d l) d =
      Inr ((map (\<lambda>i. dense_kv_rows zero s' r' kc ! i) [0..<length ds], map (\<lambda>i. dense_kv_rows zero s' r' vc ! i) [0..<length ds]), w) \<and>
    dv_offsets w = map (kv_size s) (rs_handles r) \<and>
    dv_new_keys w = map (\<lambda>i. rows s (key_pages s ! l) (rs_handles r ! i) @ map (t_row kt i) [0..<append_lengths r ! i]) [0..<length ds] \<and>
    dv_new_values w = map (\<lambda>i. rows s (value_pages s ! l) (rs_handles r ! i) @ map (t_row vt i) [0..<append_lengths r ! i]) [0..<length ds]"
proof -
  note r = reservation_okD [OF ok]
  let ?w0 = "new_view ds d l" and ?ns = "append_lengths r"
  have lt: "l < num_layers s" using stage_layer_Inr(1) [OF st] r(7) by simp
  have at: "ds ! i \<in> set (dn_live d)" "num_layers s = dn_layers d"
      "rows_in (dy_keys (layer_of d l (ds ! i))) = rows s (key_pages s ! l) (rs_handles r ! i)"
      "rows_in (dy_values (layer_of d l (ds ! i))) = rows s (value_pages s ! l) (rs_handles r ! i)"
      "dy_offset (layer_of d l (ds ! i)) = kv_size s (rs_handles r ! i)" if i: "i < length ds" for i
    using dense_abs_rows [OF d(1) wf d(3) [OF i]] r(4) d(2) i lt by (auto simp: subset_iff)
  have shape: "validate_kv_shape kt vt ?ns s = Inr ()"
    using st by (auto simp: stage_layer_def Let_def split: if_splits sum.splits)
  then obtain b h x q where sh: "t_shape kt = [b, h, x, q]" "t_shape vt = [b, h, x, q]" and x: "\<forall>n \<in> set ?ns. n \<le> x"
    by (auto simp: validate_kv_shape_def not_less split: list.splits if_splits)
  have nl: "length ds = length ?ns" "ds \<noteq> []" using d(2) r(2,5) by auto
  have live: "set ds \<subseteq> set (dn_live d)" using at(1) by (auto simp: in_set_conv_nth)
  have dl: "dv_layer ?w0 < dn_layers d" using lt at(2) [of 0] nl(2) by (simp add: new_view_def)
  have width: "Max (set (map2 (\<lambda>h n. dy_offset (layer_of d l h) + n) ds ?ns)) = rs_max_total_length r"
  proof -
    have "map2 (\<lambda>h n. dy_offset (layer_of d l h) + n) ds ?ns = map2 (\<lambda>h n. kv_size s h + n) (rs_handles r) ?ns"
      by (rule nth_equalityI) (use at(5) d(2) r(5) in \<open>auto simp: new_view_def\<close>)
    then show ?thesis using len by (simp add: lengths_known_def)
  qed
  have full: "map (full_rows sel d l t) (zip [0..<length ds] (zip ds ?ns)) =
      map (\<lambda>i. rows s pg (rs_handles r ! i) @ map (t_row t i) [0..<?ns ! i]) [0..<length ds]"
    if "\<And>i. i < length ds \<Longrightarrow> rows_in (sel (layer_of d l (ds ! i))) = rows s pg (rs_handles r ! i)" "t_shape t = [b, h, x, q]" for sel t pg
    by (rule nth_equalityI)
      (use that nl(1) x in \<open>auto simp: full_rows_def valid_rows_def min_def dest!: nth_mem\<close>)
  have size: "length (rows s pg h) = kv_size s h" for pg h by (simp add: rows_def)
  note reads = attend_reads [OF wf ok len st, of _ zero]
  have K: "map (full_rows dy_keys d l kt) (zip [0..<length ds] (zip ds ?ns)) =
      map (\<lambda>i. rows s (key_pages s ! l) (rs_handles r ! i) @ map (t_row kt i) [0..<?ns ! i]) [0..<length ds]"
    by (rule full [OF at(3) sh(1)])
  have V: "map (full_rows dy_values d l vt) (zip [0..<length ds] (zip ds ?ns)) =
      map (\<lambda>i. rows s (value_pages s ! l) (rs_handles r ! i) @ map (t_row vt i) [0..<?ns ! i]) [0..<length ds]"
    by (rule full [OF at(4) sh(2)])
  have l0: "dv_layer ?w0 = l" "dv_offsets ?w0 = map (kv_size s) (rs_handles r)"
    using at(5) d(2) by (auto simp: new_view_def intro!: nth_equalityI)
  have P: "map2 (\<lambda>k v. pad_row zero (rs_max_total_length r - length k) k)
        (map (\<lambda>i. rows s (key_pages s ! l) (rs_handles r ! i) @ map (t_row kt i) [0..<?ns ! i]) [0..<length ds])
        (map (\<lambda>i. rows s (value_pages s ! l) (rs_handles r ! i) @ map (t_row vt i) [0..<?ns ! i]) [0..<length ds]) =
      map (\<lambda>i. dense_kv_rows zero s' r' kc ! i) [0..<length ds]"
    "map2 (\<lambda>k v. pad_row zero (rs_max_total_length r - length k) v)
        (map (\<lambda>i. rows s (key_pages s ! l) (rs_handles r ! i) @ map (t_row kt i) [0..<?ns ! i]) [0..<length ds])
        (map (\<lambda>i. rows s (value_pages s ! l) (rs_handles r ! i) @ map (t_row vt i) [0..<?ns ! i]) [0..<length ds]) =
      map (\<lambda>i. dense_kv_rows zero s' r' vc ! i) [0..<length ds]"
    using reads d(2) by (auto simp: pad_row_def size intro!: nth_equalityI)
  show ?thesis
    using update_and_fetch_full [OF d(1) live nl dl, of zero kt vt] unfolding l0(1) width unfolding K V unfolding P by (simp add: l0(2))
qed

lemma attended_alike:
  assumes wf: "kv_wf s" and ok: "reservation_ok s r" and len: "lengths_known s r"
    and run: "append_and_attend sdpa cast zero l queries kt vt msk window r s = (Inr out, r', s')"
    and dt: "t_dtype kt = kv_dtype s" "t_dtype vt = kv_dtype s"
    and d: "dense_wf d" "length ds = length (rs_handles r)" "\<And>i. i < length ds \<Longrightarrow> kv_abs s (rs_handles r ! i) = dense_abs d (ds ! i)"
  shows "\<exists>out' w. dense_attend sdpa zero queries kt vt msk window ds (append_lengths r) (new_view ds d l) d = Inr (out', w) \<and>
    (\<forall>i < length ds. \<forall>j. out' i j = out i j)"
proof -
  have cast: "astype cast (kv_dtype s) kt = kt" "astype cast (kv_dtype s) vt = vt" using dt by (simp_all add: astype_def)
  obtain window_size where win: "(case window of Some n \<Rightarrow> Inr (Some n) | None \<Rightarrow> window_size_of msk) = Inr window_size"
    using run by (cases "case window of Some n \<Rightarrow> Inr (Some n) | None \<Rightarrow> window_size_of msk") (simp_all add: append_and_attend_def)
  have msk: "\<not> (msk \<noteq> None \<and> msk \<noteq> Some ''causal'' \<and> window_size = None)"
    using run win by (auto simp: append_and_attend_def split: if_splits)
  obtain a r1 s1 where st: "stage_layer l kt vt r s = (a, r1, s1)" by (metis surj_pair)
  note run' = run [unfolded append_and_attend_def cast Let_def win st, simplified]
  obtain kc vc where a: "a = Inr (kc, vc)" using run' by (cases a) (auto split: if_splits)
  have same: "r1 = r'" "s1 = s'"
    and out: "out = (\<lambda>i j. sdpa (t_row queries i j) (dense_kv_rows zero s' r' kc ! i) (dense_kv_rows zero s' r' vc ! i)
        (map (dense_causal_mask (map (kv_size s') (rs_handles r')) (append_lengths r') window_size i j) [0..<rs_max_total_length r']))"
    using run' unfolding a by (auto split: if_splits)
  note st = st [unfolded a same]
  note f = stage_layer_frame [OF st] and r = reservation_okD [OF ok]
  have frame: "map (kv_size s') (rs_handles r') = map (kv_size s) (rs_handles r)" "append_lengths r' = append_lengths r"
    "rs_max_total_length r' = rs_max_total_length r" using f stage_layer_Inr(3) [OF st] by simp_all
  obtain w where w: "update_and_fetch zero kt vt ds (append_lengths r) (new_view ds d l) d =
      Inr ((map (\<lambda>i. dense_kv_rows zero s' r' kc ! i) [0..<length ds], map (\<lambda>i. dense_kv_rows zero s' r' vc ! i) [0..<length ds]), w)"
    "dv_offsets w = map (kv_size s) (rs_handles r)"
    using attention_reads_alike [OF wf ok len st d] by blast
  have 0: "0 < length ds" using d(2) r(2) by simp
  let ?ks = "map (\<lambda>i. dense_kv_rows zero s' r' kc ! i) [0..<length ds]"
  have "hd ?ks = dense_kv_rows zero s' r' kc ! 0" using 0 by (subst hd_map) simp_all
  moreover have "kv_size s (rs_handles r ! 0) + append_lengths r ! 0 \<le> rs_max_total_length r"
    using lengths_known_total [OF ok len, of 0] 0 d(2) by simp
  ultimately have width: "length (hd ?ks) = rs_max_total_length r"
    using attend_reads(1) [OF wf ok len st, of 0 zero] 0 d(2) by (simp add: rows_def)
  show ?thesis
    unfolding dense_attend_def win and_then_simps if_not_P [OF msk] w(1) prod.case width w(2) Let_def out frame by simp
qed


subsection \<open>An instance\<close>

text \<open>A request without tokens in a fresh dense backend, beside \<open>sample_pool\<close>, and a kernel that adds up the values the mask keeps.\<close>

definition sample_dense :: "nat dense" where
  "sample_dense = snd (dense_create ''r'' \<lparr>dn_layers = 1, dn_objs = (\<lambda>_. \<lparr>dq_request_id = [], dq_layers = [], dq_length = 0\<rparr>),
     dn_live = [], dn_uuids = sample_hex, dn_next_uuid = 0\<rparr>)"

definition sample_sdpa :: "nat \<Rightarrow> nat list \<Rightarrow> nat list \<Rightarrow> bool list \<Rightarrow> nat" where
  "sample_sdpa q ks vs msk = sum_list (kept_rows msk vs)"

lemma sample_dense_alike:
  "dense_wf sample_dense" "kv_abs sample_pool sample_handle = dense_abs sample_dense ''dense-kv-r-b''"
proof -
  show "dense_wf sample_dense"
    by (simp add: sample_dense_def dense_create_def dense_wf_def empty_layer_def layer_ok_def Let_def)
  show "kv_abs sample_pool sample_handle = dense_abs sample_dense ''dense-kv-r-b''"
    by (simp add: sample_pool_state kv_abs_def content_def rows_def sample_dense_def dense_create_def dense_abs_def sample_hex_def
        empty_layer_def Let_def)
qed

lemma sample_admitted: "preflight [sample_handle] [9] sample_pool = (Inr [None], sample_pool)"
  by (simp add: preflight_def Let_def sample_pool_state page_cost_def needs_copy_def available_pages_def ceil_div_def)

lemma sample_fits:
  "\<forall>l < num_layers sample_pool. t_shape (sample_tensor 10 l) = t_shape (sample_tensor 20 l) \<and>
     fits sample_pool [9] (sample_tensor 10 l) \<and> fits sample_pool [9] (sample_tensor 20 l)"
  by (simp add: sample_pool_state sample_tensor_def fits_def)

lemma sample_attends:
  "\<exists>r0 s1 out r' s'. reserve_batch [sample_handle] [9] sample_pool = (Inr r0, s1) \<and> kv_dtype s1 = Float16 \<and>
     append_and_attend sample_sdpa (\<lambda>_ x. x) 0 0 (sample_tensor 0 0) (sample_tensor 10 0) (sample_tensor 20 0) (Some ''causal'') None r0 s1 =
       (Inr out, r', s')"
proof -
  obtain r0 s1 where rb: "reserve_batch [sample_handle] [9] sample_pool = (Inr r0, s1)"
    using preflight_reserves [OF sample_admitted] by auto
  note b = reserve_batch_ok [OF sample_pool_ok rb]
  have same: "num_kv_heads s1 = 1" "head_dim s1 = 1" "kv_dtype s1 = Float16" "num_layers s1 = 1"
    using rb by (auto simp: reserve_batch_def Let_def sample_pool_state split: if_splits option.splits)
  have "kv_wf s1" "reservation_ok s1 r0" using b by blast+
  then obtain r' s' where "stage_layers [0] (sample_tensor 10) (sample_tensor 20) r0 s1 = (Inr (), r', s')"
    using stage_layers_total [of s1 r0 "[0]" "sample_tensor 10" "sample_tensor 20"] b same
    by (auto simp: fits_def sample_tensor_def sample_pool_state)
  then obtain kc vc where "stage_layer 0 (sample_tensor 10 0) (sample_tensor 20 0) r0 s1 = (Inr (kc, vc), r', s')"
    by (auto split: prod.splits sum.splits)
  then show ?thesis using rb same
    by (simp add: append_and_attend_def window_size_of_def Let_def astype_def sample_tensor_def)
qed


subsection \<open>Both caches grow alike\<close>

text \<open>The objects of a batch are updated one after the other; each update reads its own object only.\<close>

definition upd_obj :: "handle \<Rightarrow> ('v dense_request \<Rightarrow> 'v dense_request) \<Rightarrow> 'v dense \<Rightarrow> 'v dense" where
  "upd_obj h g s = s\<lparr>dn_objs := (dn_objs s)(h := g (dn_objs s h))\<rparr>"

lemma upd_obj_frame [simp]: "dn_live (upd_obj h g s) = dn_live s" "dn_layers (upd_obj h g s) = dn_layers s"
  by (simp_all add: upd_obj_def)

lemma fold_upd_obj:
  assumes "distinct (map fst ps)"
  shows "dn_objs (fold (\<lambda>(h, x). upd_obj h (g x)) ps s) h = (case map_of ps h of None \<Rightarrow> dn_objs s h | Some x \<Rightarrow> g x (dn_objs s h)) \<and>
    dn_live (fold (\<lambda>(h, x). upd_obj h (g x)) ps s) = dn_live s \<and> dn_layers (fold (\<lambda>(h, x). upd_obj h (g x)) ps s) = dn_layers s"
  using assms
proof (induction ps arbitrary: s)
  case (Cons p ps)
  then have "map_of ps (fst p) = None" by (auto simp: map_of_eq_None_iff)
  then show ?case using Cons by (cases p) (auto simp: upd_obj_def split: option.splits)
qed simp

definition put_rows :: "nat \<Rightarrow> 'v list \<times> 'v list \<Rightarrow> 'v dense_request \<Rightarrow> 'v dense_request" where
  "put_rows l = (\<lambda>(ks, vs) q. q\<lparr>dq_layers := (dq_layers q)[l := (dq_layers q ! l)\<lparr>dy_keys := Some ks, dy_values := Some vs, dy_offset := length ks\<rparr>]\<rparr>)"

lemma view_commit_upd:
  "dv_new_conv w = [] \<Longrightarrow>
    view_commit hs w s = fold (\<lambda>(h, x). upd_obj h (put_rows (dv_layer w) x)) (zip hs (zip (dv_new_keys w) (dv_new_values w))) s"
  by (auto simp: view_commit_def set_layer_def upd_obj_def put_rows_def intro!: fold_cong ext)

lemma grow_upd: "fold grow ps s = fold (\<lambda>(h, n). upd_obj h (\<lambda>q. q\<lparr>dq_length := dq_length q + n\<rparr>)) ps s"
  by (auto simp: grow_def upd_obj_def intro!: fold_cong ext)

lemma view_commit_effect:
  assumes "dv_new_conv w = []" "distinct hs" "length (dv_new_keys w) = length hs" "length (dv_new_values w) = length hs"
  shows "i < length hs \<Longrightarrow> dn_objs (view_commit hs w s) (hs ! i) = put_rows (dv_layer w) (dv_new_keys w ! i, dv_new_values w ! i) (dn_objs s (hs ! i))"
    and "h \<notin> set hs \<Longrightarrow> dn_objs (view_commit hs w s) h = dn_objs s h"
    and "dn_live (view_commit hs w s) = dn_live s" "dn_layers (view_commit hs w s) = dn_layers s"
proof -
  let ?ps = "zip hs (zip (dv_new_keys w) (dv_new_values w))"
  have keys: "map fst ?ps = hs" using assms(3,4) by simp
  note f = fold_upd_obj [of ?ps "put_rows (dv_layer w)" s, unfolded keys, OF assms(2)]
  show "dn_objs (view_commit hs w s) (hs ! i) = put_rows (dv_layer w) (dv_new_keys w ! i, dv_new_values w ! i) (dn_objs s (hs ! i))"
    if i: "i < length hs"
  proof -
    have "map_of ?ps (hs ! i) = Some (dv_new_keys w ! i, dv_new_values w ! i)"
      using map_of_zip_nth [of hs "zip (dv_new_keys w) (dv_new_values w)" i] assms i by simp
    then show ?thesis unfolding view_commit_upd [OF assms(1)] using f by simp
  qed
  show "h \<notin> set hs \<Longrightarrow> dn_objs (view_commit hs w s) h = dn_objs s h"
    unfolding view_commit_upd [OF assms(1)] using f keys by (metis map_of_eq_None_iff image_set option.simps(4))
  show "dn_live (view_commit hs w s) = dn_live s" "dn_layers (view_commit hs w s) = dn_layers s"
    unfolding view_commit_upd [OF assms(1)] using f by blast+
qed

definition staged_view :: "handle list \<Rightarrow> 'v dense_view \<Rightarrow> bool" where
  "staged_view hs w \<longleftrightarrow> dv_new_conv w = [] \<and> length (dv_new_keys w) = length hs \<and> length (dv_new_values w) = length hs"

lemma views_commit_effect:
  assumes "\<forall>w \<in> set ws. staged_view hs w" "distinct hs"
  shows "(\<forall>i < length hs. dn_objs (fold (view_commit hs) ws s) (hs ! i) =
      fold (\<lambda>w. put_rows (dv_layer w) (dv_new_keys w ! i, dv_new_values w ! i)) ws (dn_objs s (hs ! i))) \<and>
    (\<forall>h. h \<notin> set hs \<longrightarrow> dn_objs (fold (view_commit hs) ws s) h = dn_objs s h) \<and>
    dn_live (fold (view_commit hs) ws s) = dn_live s \<and> dn_layers (fold (view_commit hs) ws s) = dn_layers s"
  using assms(1)
proof (induction ws arbitrary: s)
  case (Cons w ws)
  note one = view_commit_effect [of w hs, OF _ assms(2)]
  show ?case using Cons.prems Cons.IH by (simp add: staged_view_def one)
qed simp

lemma put_rows_fold:
  fixes i :: nat
  assumes "distinct (map dv_layer ws)" "\<forall>w \<in> set ws. dv_layer w < length (dq_layers q)"
  defines "q' \<equiv> fold (\<lambda>w. put_rows (dv_layer w) (dv_new_keys w ! i, dv_new_values w ! i)) ws q"
  shows "length (dq_layers q') = length (dq_layers q) \<and> dq_request_id q' = dq_request_id q \<and> dq_length q' = dq_length q \<and>
    (\<forall>l. l \<notin> dv_layer ` set ws \<longrightarrow> dq_layers q' ! l = dq_layers q ! l) \<and>
    (\<forall>w \<in> set ws. dq_layers q' ! dv_layer w =
       (dq_layers q ! dv_layer w)\<lparr>dy_keys := Some (dv_new_keys w ! i), dy_values := Some (dv_new_values w ! i), dy_offset := length (dv_new_keys w ! i)\<rparr>)"
  using assms(1,2) unfolding q'_def
proof (induction ws arbitrary: q)
  case (Cons w ws)
  let ?q = "put_rows (dv_layer w) (dv_new_keys w ! i, dv_new_values w ! i) q"
  have IH: "distinct (map dv_layer ws)" "\<forall>v \<in> set ws. dv_layer v < length (dq_layers ?q)"
    using Cons.prems by (simp_all add: put_rows_def)
  have other: "dv_layer v \<noteq> dv_layer w" if "v \<in> set ws" for v using Cons.prems(1) that by (auto simp: image_iff)
  have "dq_layers ?q ! dv_layer v = dq_layers q ! dv_layer v" if "v \<in> set ws" for v
    using other [OF that] by (simp add: put_rows_def)
  with Cons.IH [OF IH] Cons.prems show ?case by (auto simp: put_rows_def)
qed simp

text \<open>What the views of a step hold before the commit.\<close>

definition step_views :: "(nat \<Rightarrow> 'v tensor) \<Rightarrow> (nat \<Rightarrow> 'v tensor) \<Rightarrow> handle list \<Rightarrow> nat list \<Rightarrow> 'v dense \<Rightarrow> nat \<Rightarrow> 'v dense_reservation \<Rightarrow> bool" where
  "step_views kts vts hs ns s k r \<longleftrightarrow> dr_handles r = hs \<and> dr_append r = ns \<and> \<not> dr_finished r \<and> length (dr_views r) = dn_layers s \<and>
     (\<forall>l < dn_layers s. dv_layer (dr_views r ! l) = l \<and> dv_new_conv (dr_views r ! l) = []) \<and>
     (\<forall>l < k. dv_new_keys (dr_views r ! l) = map (full_rows dy_keys s l (kts l)) (zip [0..<length hs] (zip hs ns)) \<and>
        dv_new_values (dr_views r ! l) = map (full_rows dy_values s l (vts l)) (zip [0..<length hs] (zip hs ns)))"

lemma fetch_layers_views:
  assumes wf: "dense_wf s" and hs: "set hs \<subseteq> set (dn_live s)" "length hs = length ns" "hs \<noteq> []"
    and r: "step_views kts vts hs ns s k r" and k: "k + n = dn_layers s"
  shows "\<exists>r'. fetch_layers zero [k..<k + n] kts vts r s = Inr r' \<and> step_views kts vts hs ns s (k + n) r'"
  using r k
proof (induction n arbitrary: k r)
  case (Suc n)
  have kl: "k < dn_layers s" using Suc.prems(2) by simp
  then have dl: "dv_layer (dr_views r ! k) < dn_layers s" "dv_layer (dr_views r ! k) = k" using Suc.prems(1) by (simp_all add: step_views_def)
  note u = update_and_fetch_full [OF wf hs dl(1), of zero "kts k" "vts k", unfolded dl(2)]
  obtain w out where w: "update_and_fetch zero (kts k) (vts k) hs ns (dr_views r ! k) s = Inr (out, w)"
    "dv_layer w = k" "dv_new_conv w = dv_new_conv (dr_views r ! k)"
    "dv_new_keys w = map (full_rows dy_keys s k (kts k)) (zip [0..<length hs] (zip hs ns))"
    "dv_new_values w = map (full_rows dy_values s k (vts k)) (zip [0..<length hs] (zip hs ns))"
    using u dl(2) by simp
  let ?r = "r\<lparr>dr_views := (dr_views r)[k := w]\<rparr>"
  have "step_views kts vts hs ns s (Suc k) ?r"
    using Suc.prems(1) kl w(2-5) by (auto simp: step_views_def nth_list_update less_Suc_eq)
  from Suc.IH [OF this] Suc.prems(2) obtain r' where
    "fetch_layers zero [Suc k..<Suc k + n] kts vts ?r s = Inr r'" "step_views kts vts hs ns s (Suc k + n) r'" by auto
  moreover have "[k..<k + Suc n] = k # [Suc k..<Suc k + n]" by (simp add: upt_rec)
  moreover have "dr_handles r = hs" "dr_append r = ns" using Suc.prems(1) by (simp_all add: step_views_def)
  ultimately show ?case using w(1) by simp
qed simp

lemma validate_all_Inr: "(\<And>w. w \<in> set ws \<Longrightarrow> view_validate hs ns s w = Inr ()) \<Longrightarrow> validate_all hs ns s ws = Inr ()"
  by (induction ws) auto

text \<open>A dense step appends to every request of the batch its rows of every layer, and leaves the others alone.\<close>

lemma dense_step_appends:
  assumes wf: "dense_wf s" and hs: "set hs \<subseteq> set (dn_live s)" "length hs = length ns" "hs \<noteq> []" "distinct hs"
    and fit: "\<And>l n. l < dn_layers s \<Longrightarrow> n \<in> set ns \<Longrightarrow> n \<le> t_shape (kts l) ! 2 \<and> n \<le> t_shape (vts l) ! 2"
  shows "\<exists>s'. dense_step zero hs ns kts vts s = (Inr (map2 (\<lambda>h n. dq_length (dn_objs s h) + n) hs ns), s') \<and>
    dense_wf s' \<and> dense_abs s' = append_batch hs ns kts vts (dense_abs s)"
proof -
  let ?L = "dn_layers s" and ?b = "zip [0..<length hs] (zip hs ns)"
  have "step_views kts vts hs ns s 0 (dense_reserve hs ns s)" by (simp add: step_views_def dense_reserve_def new_view_def)
  from fetch_layers_views [OF wf hs(1-3) this, of ?L zero] obtain r where
    r: "fetch_layers zero [0..<?L] kts vts (dense_reserve hs ns s) s = Inr r" "step_views kts vts hs ns s ?L r" by auto
  note v = r(2) [unfolded step_views_def]
  have row: "length (full_rows sel s l t (?b ! i)) = dy_offset (layer_of s l (hs ! i)) + ns ! i \<and>
      full_rows sel s l t (?b ! i) = rows_in (sel (layer_of s l (hs ! i))) @ map (t_row t i) [0..<ns ! i]"
    if "l < ?L" "i < length hs" "t = kts l \<or> t = vts l" "sel = dy_keys \<or> sel = dy_values" for l i t sel
    using dense_wf_layer [OF wf _ that(1), of "hs ! i"] fit [OF that(1), of "ns ! i"] that(2-4) hs(1,2)
    by (auto simp: full_rows_def valid_rows_def layer_ok_def subset_iff min_def)
  have nv: "length (dr_views r) = ?L" using v by simp
  have staged: "\<forall>w \<in> set (dr_views r). staged_view hs w"
    unfolding all_set_conv_all_nth nv using v hs(2) by (simp add: staged_view_def)
  have "view_validate hs ns s w = Inr ()" if wr: "w \<in> set (dr_views r)" for w
  proof -
    obtain l where "l < length (dr_views r)" "w = dr_views r ! l" using wr by (metis in_set_conv_nth)
    then have l: "l < ?L" "w = dr_views r ! l" using v by simp_all
    then have w: "dv_layer w = l" "dv_new_conv w = []" "dv_new_keys w = map (full_rows dy_keys s l (kts l)) ?b"
      "dv_new_values w = map (full_rows dy_values s l (vts l)) ?b" using v by auto
    have "\<not> list_ex (\<lambda>(h, ks, vs, n). length ks \<noteq> dy_offset (layer_of s l h) + n \<or> length vs \<noteq> dy_offset (layer_of s l h) + n)
        (zip hs (zip (dv_new_keys w) (zip (dv_new_values w) ns)))"
      using row [OF l(1), THEN conjunct1] hs(2) unfolding w(3,4) by (auto simp: list_ex_length)
    then show ?thesis using w hs(2) by (simp add: view_validate_def)
  qed
  then have valid: "validate_all hs ns s (dr_views r) = Inr ()" by (rule validate_all_Inr)
  define s1 where "s1 = fold (view_commit hs) (dr_views r) s"
  define s2 where "s2 = fold grow (zip hs ns) s1"
  define q where "q i = fold (\<lambda>w. put_rows (dv_layer w) (dv_new_keys w ! i, dv_new_values w ! i)) (dr_views r) (dn_objs s (hs ! i))" for i
  have step: "dense_step zero hs ns kts vts s = (Inr (map (\<lambda>h. dq_length (dn_objs s2 h)) hs), s2)"
    using v valid by (simp add: dense_step_def r(1) dense_commit_def s1_def s2_def Let_def)
  note c = views_commit_effect [OF staged hs(4), of s, folded s1_def q_def]
  have fst: "map fst (zip hs ns) = hs" using hs(2) by simp
  note g = fold_upd_obj [of "zip hs ns" "\<lambda>n q. q\<lparr>dq_length := dq_length q + n\<rparr>" s1, unfolded fst, OF hs(4), folded grow_upd s2_def]
  have obj: "dn_objs s2 (hs ! i) = (q i)\<lparr>dq_length := dq_length (q i) + ns ! i\<rparr>" if "i < length hs" for i
    using g [of "hs ! i"] map_of_zip_nth [OF hs(2,4) ] that c hs(2) by simp
  have other: "dn_objs s2 h = dn_objs s h" if "h \<notin> set hs" for h
  proof -
    have "map_of (zip hs ns) h = None" using that by (auto simp: map_of_eq_None_iff dest: set_zip_leftD)
    then show ?thesis using g [of h] c that by simp
  qed
  have frame: "dn_live s2 = dn_live s" "dn_layers s2 = dn_layers s" using g c by simp_all
  have vl: "map dv_layer (dr_views r) = [0..<?L]" by (rule nth_equalityI) (use v in auto)
  let ?K = "\<lambda>i l. rows_in (dy_keys (layer_of s l (hs ! i))) @ map (t_row (kts l) i) [0..<ns ! i]"
  let ?V = "\<lambda>i l. rows_in (dy_values (layer_of s l (hs ! i))) @ map (t_row (vts l) i) [0..<ns ! i]"
  have q: "length (dq_layers (q i)) = ?L" "dq_request_id (q i) = dq_request_id (dn_objs s (hs ! i))"
      "dq_length (q i) = dq_length (dn_objs s (hs ! i))"
      "\<And>l. l < ?L \<Longrightarrow> dq_layers (q i) ! l =
         (layer_of s l (hs ! i))\<lparr>dy_keys := Some (?K i l), dy_values := Some (?V i l), dy_offset := length (?K i l)\<rparr>"
    if i: "i < length hs" for i
  proof -
    have "hs ! i \<in> set (dn_live s)" using hs(1) i by auto
    then have ql: "length (dq_layers (dn_objs s (hs ! i))) = ?L" using wf by (simp add: dense_wf_def)
    have "distinct (map dv_layer (dr_views r))" "\<forall>w \<in> set (dr_views r). dv_layer w < length (dq_layers (dn_objs s (hs ! i)))"
      using vl ql v by (simp_all add: all_set_conv_all_nth)
    note p = put_rows_fold [OF this, of i, folded q_def]
    show "length (dq_layers (q i)) = ?L" "dq_request_id (q i) = dq_request_id (dn_objs s (hs ! i))"
      "dq_length (q i) = dq_length (dn_objs s (hs ! i))" using p ql by simp_all
    show "dq_layers (q i) ! l =
         (layer_of s l (hs ! i))\<lparr>dy_keys := Some (?K i l), dy_values := Some (?V i l), dy_offset := length (?K i l)\<rparr>" if l: "l < ?L" for l
    proof -
      have "dr_views r ! l \<in> set (dr_views r)" "dv_layer (dr_views r ! l) = l" using l v by auto
      then have "dq_layers (q i) ! l = (layer_of s l (hs ! i))\<lparr>dy_keys := Some (dv_new_keys (dr_views r ! l) ! i),
          dy_values := Some (dv_new_values (dr_views r ! l) ! i), dy_offset := length (dv_new_keys (dr_views r ! l) ! i)\<rparr>"
        using p by (metis layer_of_def)
      moreover have "dv_new_keys (dr_views r ! l) ! i = ?K i l" "dv_new_values (dr_views r ! l) ! i = ?V i l"
        using v l row [OF l i] i hs(2) by simp_all
      ultimately show ?thesis by simp
    qed
  qed
  have lens: "map (\<lambda>h. dq_length (dn_objs s2 h)) hs = map2 (\<lambda>h n. dq_length (dn_objs s h) + n) hs ns"
    by (rule nth_equalityI) (use obj q hs(2) in auto)
  have "length (dq_layers (dn_objs s2 h)) = dn_layers s2 \<and> (\<forall>y \<in> set (dq_layers (dn_objs s2 h)). layer_ok (dq_length (dn_objs s2 h)) y)"
    if h: "h \<in> set (dn_live s2)" for h
  proof (cases "h \<in> set hs")
    case True
    then obtain i where i: "i < length hs" "h = hs ! i" by (metis in_set_conv_nth)
    have live: "hs ! i \<in> set (dn_live s)" using hs(1) True i by auto
    have "layer_ok (dq_length (q i) + ns ! i) (dq_layers (q i) ! l)" if "l < ?L" for l
      using dense_wf_layer [OF wf live that] q [OF i(1)] that by (simp add: layer_ok_def)
    then show ?thesis using i obj q frame by (auto simp: all_set_conv_all_nth)
  next
    case False
    then show ?thesis using wf h frame other by (simp add: dense_wf_def)
  qed
  then have "dense_wf s2" unfolding dense_wf_def by blast
  moreover have "dense_abs s2 h = append_batch hs ns kts vts (dense_abs s) h" for h
  proof (cases "h \<in> set hs")
    case True
    then obtain i where i: "i < length hs" "h = hs ! i" by (metis in_set_conv_nth)
    have "h \<in> set (dn_live s)" using hs(1) True by auto
    then have ql: "length (dq_layers (dn_objs s h)) = ?L" using wf by (simp add: dense_wf_def)
    have "map (rows_in \<circ> dy_keys) (dq_layers (q i)) = append_rows kts i (ns ! i) (map (rows_in \<circ> dy_keys) (dq_layers (dn_objs s h)))"
      "map (rows_in \<circ> dy_values) (dq_layers (q i)) = append_rows vts i (ns ! i) (map (rows_in \<circ> dy_values) (dq_layers (dn_objs s h)))"
      by (rule nth_equalityI; use q [OF i(1)] ql i(2) in \<open>simp add: append_rows_def layer_of_def\<close>)+
    then show ?thesis
      using append_batch_in [OF hs(4) i(1), of ns kts vts "dense_abs s"] True hs(1) frame obj [OF i(1)] q [OF i(1)] i(2)
      by (auto simp: dense_abs_def)
  next
    case False
    then show ?thesis using other frame by (simp add: append_batch_out dense_abs_def)
  qed
  ultimately show ?thesis using step lens by (auto intro!: exI [of _ s2])
qed

lemma stage_layer_shape:
  assumes "stage_layer l kt vt r s = (Inr a, r', s')" "n \<in> set (append_lengths r)"
  shows "n \<le> t_shape kt ! 2 \<and> n \<le> t_shape vt ! 2"
proof -
  have "validate_kv_shape kt vt (append_lengths r) s = Inr ()"
    using assms(1) by (auto simp: stage_layer_def Let_def split: if_splits sum.splits)
  then obtain b h x q where "t_shape kt = [b, h, x, q]" "t_shape vt = [b, h, x, q]" "\<forall>n \<in> set (append_lengths r). n \<le> x"
    by (auto simp: validate_kv_shape_def not_less split: list.splits if_splits)
  then show ?thesis using assms(2) by simp
qed

lemma stage_layers_shape:
  assumes "stage_layers ls kts vts r s = (Inr (), r', s')" "l \<in> set ls" "n \<in> set (append_lengths r)"
  shows "n \<le> t_shape (kts l) ! 2 \<and> n \<le> t_shape (vts l) ! 2"
  using assms
proof (induction ls arbitrary: r s)
  case (Cons k ls)
  obtain x r1 s1 where run: "stage_layer k (kts k) (vts k) r s = (x, r1, s1)" by (metis surj_pair)
  with Cons.prems(1) obtain a where a: "x = Inr a" "stage_layers ls kts vts r1 s1 = (Inr (), r', s')" by (cases x) auto
  show ?case using stage_layer_shape [OF run [unfolded a(1)] Cons.prems(3)] Cons.IH [OF a(2)] Cons.prems(2,3) stage_layer_frame(2) [OF run] by auto
qed simp

text \<open>C9: The paged pool refines the dense reference.  Whenever a step of reserving, staging every layer and committing succeeds
  on the pool, the same step on a dense backend that holds the same rows for the same requests succeeds, returns the same
  lengths, leaves the same rows in both for every request of the batch, and touches no other dense cache; so the two stay equal
  over any sequence of steps.\<close>

theorem paged_step_is_dense_step:
  assumes "kv_wf s" "quiescent s" "set hs \<subseteq> set (live s)" "0 < num_layers s"
    and "kv_step hs ns kts vts s = (Inr lengths, s')"
    and "dense_wf d" "length ds = length hs" "distinct ds" "\<forall>i < length hs. kv_abs s (hs ! i) = dense_abs d (ds ! i)"
  shows "\<exists>d'. dense_step zero ds ns kts vts d = (Inr lengths, d') \<and> dense_wf d' \<and>
    (\<forall>i < length hs. kv_abs s' (hs ! i) = dense_abs d' (ds ! i)) \<and> (\<forall>k. k \<notin> set ds \<longrightarrow> dense_abs d' k = dense_abs d k)"
proof -
  obtain r s1 r' s2 where rb: "reserve_batch hs ns s = (Inr r, s1)"
    and sl: "stage_layers [0..<num_layers s] kts vts r s1 = (Inr (), r', s2)"
    using assms(5) by (auto simp: kv_step_def split: prod.splits sum.splits)
  note b = reserve_batch_ok [OF assms(1-3) rb]
  have ok: "reservation_ok s1 r" "append_lengths r = ns" "rs_handles r = hs" using b by blast+
  note rd = reservation_okD [OF ok(1), unfolded ok(2,3)]
  have c: "lengths = map2 (\<lambda>h n. kv_size s h + n) hs ns" "kv_abs s' = append_batch hs ns kts vts (kv_abs s)"
    using kv_step_cases [OF assms(1-3,5)] by simp_all
  have at: "ds ! i \<in> set (dn_live d)" "num_layers s = dn_layers d" "dq_length (dn_objs d (ds ! i)) = kv_size s (hs ! i)" if i: "i < length hs" for i
    using dense_abs_rows(1-3) [OF assms(6,1), of "hs ! i" "ds ! i"] assms(3,4,9) i by (auto simp: subset_iff)
  have live: "set ds \<subseteq> set (dn_live d)" using at(1) assms(7) by (auto simp: in_set_conv_nth)
  have ne: "length ds = length ns" "ds \<noteq> []" using assms(7) rd(2,5) by auto
  have layers: "num_layers s = dn_layers d" using at(2) [of 0] rd(2) by simp
  have fit: "n \<le> t_shape (kts l) ! 2 \<and> n \<le> t_shape (vts l) ! 2" if "l < dn_layers d" "n \<in> set ns" for l n
    using stage_layers_shape [OF sl, of l n] that layers ok(2) by simp
  obtain d' where d': "dense_step zero ds ns kts vts d = (Inr (map2 (\<lambda>h n. dq_length (dn_objs d h) + n) ds ns), d')"
    "dense_wf d'" "dense_abs d' = append_batch ds ns kts vts (dense_abs d)"
    using dense_step_appends [where zero = zero and kts = kts and vts = vts, OF assms(6) live ne assms(8) fit] by blast
  have "map2 (\<lambda>h n. dq_length (dn_objs d h) + n) ds ns = lengths"
    unfolding c(1) by (rule nth_equalityI) (use at(3) assms(7) ne rd(5) in auto)
  moreover have "kv_abs s' (hs ! i) = dense_abs d' (ds ! i)" if i: "i < length hs" for i
    unfolding c(2) d'(3) using append_batch_in [OF rd(3) i, of ns kts vts "kv_abs s"]
      append_batch_in [OF assms(8), of i ns kts vts "dense_abs d"] assms(7,9) i by simp
  ultimately show ?thesis using d' by (auto simp: append_batch_out)
qed

theorem paged_step_is_dense_step_witness:
  "\<exists>s' d'. kv_step [sample_handle] [9] (sample_tensor 10) (sample_tensor 20) sample_pool = (Inr [9], s') \<and>
     dense_step 0 [''dense-kv-r-b''] [9] (sample_tensor 10) (sample_tensor 20) sample_dense = (Inr [9], d') \<and>
     kv_abs s' sample_handle = dense_abs d' ''dense-kv-r-b''"
proof -
  obtain lengths s' where run: "kv_step [sample_handle] [9] (sample_tensor 10) (sample_tensor 20) sample_pool = (Inr lengths, s')"
    using kv_step_total [OF sample_pool_ok _ _ _ sample_admitted, of "sample_tensor 10" "sample_tensor 20"] sample_fits by auto
  have "lengths = [9]" using kv_step_cases [OF sample_pool_ok run] by (simp add: sample_pool_state)
  with paged_step_is_dense_step [OF sample_pool_ok _ run sample_dense_alike(1), of "[''dense-kv-r-b'']" 0] run sample_dense_alike(2)
  show ?thesis by (auto simp: sample_pool_state)
qed

end
