(* ===== verification/HybridProps.thy ===== *)
theory HybridProps
  imports Hybrid DenseProps
begin

text \<open>
  Convolution over a hybrid cache: whatever chunks a sequence comes in, each position sees the rows before it, and what is kept
  of a request is the end of its history.
\<close>

text \<open>The rows a convolution of width \<open>c\<close> still needs of a history: zeros stand for what came before its first row.\<close>

definition recent_rows :: "'v \<Rightarrow> nat \<Rightarrow> 'v list \<Rightarrow> 'v list" where
  "recent_rows zero c hist = drop (length hist) (replicate (c - 1) zero @ hist)"

definition conv_row :: "'v \<Rightarrow> nat \<Rightarrow> 'v hybrid \<Rightarrow> nat \<Rightarrow> handle \<Rightarrow> 'v list" where
  "conv_row zero c s l h = (case map_of (hb_conv s h) l of None \<Rightarrow> replicate (c - 1) zero | Some st \<Rightarrow> st)"

lemma recent_rows_step:
  fixes i :: nat
  assumes st: "(case state of None \<Rightarrow> replicate (c - 1) zero | Some st \<Rightarrow> st) = recent_rows zero c hist" and n: "n \<le> t_shape x ! 1"
  defines "new \<equiv> map (t_row x i) [0..<n]"
  shows "conv_next c n (conv_input zero c state x i n) = recent_rows zero c (hist @ new)"
    and "0 < c \<Longrightarrow> j < n \<Longrightarrow> take c (drop j (conv_input zero c state x i n)) =
      take c (drop (length hist + j) (replicate (c - 1) zero @ hist @ new))"
proof -
  let ?Z = "replicate (c - 1) zero"
  have "map (\<lambda>j. if j < n then t_row x i j else zero) [0..<t_shape x ! 1] = new @ replicate (t_shape x ! 1 - n) zero"
    by (rule nth_equalityI) (use n in \<open>auto simp: new_def nth_append\<close>)
  then have input: "conv_input zero c state x i n = drop (length hist) (?Z @ hist @ new) @ replicate (t_shape x ! 1 - n) zero"
    using st by (simp add: conv_input_def recent_rows_def)
  define whole where "whole = ?Z @ hist @ new"
  have len: "length whole = c - 1 + length hist + n" by (simp add: whole_def new_def)
  note input = input [folded whole_def]
  have "recent_rows zero c (hist @ new) = drop (length hist + n) whole" by (simp add: recent_rows_def whole_def new_def)
  then show "conv_next c n (conv_input zero c state x i n) = recent_rows zero c (hist @ new)"
    using len by (simp add: conv_next_def input add.commute)
  show "take c (drop j (conv_input zero c state x i n)) = take c (drop (length hist + j) (?Z @ hist @ new))" if "0 < c" "j < n"
    unfolding whole_def [symmetric] using that len by (simp add: input add.commute)
qed

subsection \<open>What a step leaves in the convolution states\<close>

definition staged_rows_of :: "'v \<Rightarrow> handle list \<Rightarrow> nat list \<Rightarrow> nat \<Rightarrow> 'v tensor \<Rightarrow> nat \<Rightarrow> 'v hybrid \<Rightarrow> 'v list list" where
  "staged_rows_of zero hs ns l x c s =
     map2 (\<lambda>cm n. conv_next c n cm) (map (\<lambda>(i, h, n). conv_input zero c (map_of (hb_conv s h) l) x i n) (zip [0..<length hs] (zip hs ns))) ns"

lemma run_op_effect:
  assumes "run_op zero l op r s = (Inr (), r', s')"
  shows "hb_conv s' = hb_conv s \<and> rs_handles (hv_paged r') = rs_handles (hv_paged r) \<and> append_lengths (hv_paged r') = append_lengths (hv_paged r) \<and>
    hv_states r' = (case op of Attend kt vt \<Rightarrow> hv_states r
      | Convolve x c \<Rightarrow> (hv_states r)[l := Some (staged_rows_of zero (rs_handles (hv_paged r)) (append_lengths (hv_paged r)) l x c s)])"
proof (cases op)
  case (Attend kt vt)
  obtain res p kv where st: "stage_layer l kt vt (hv_paged r) (hb_kv s) = (res, p, kv)" by (metis surj_pair)
  then show ?thesis using assms Attend stage_layer_frame(1,2) [OF st]
    by (auto simp: hybrid_stage_layer_def split: if_splits sum.splits)
next
  case (Convolve x c)
  then show ?thesis using assms
    by (auto simp: hybrid_stage_conv_def hybrid_prepare_conv_def staged_rows_of_def split: if_splits sum.splits)
qed

lemma run_ops_effect:
  assumes "run_ops zero ls ops r s = (Inr (), r', s')" "distinct ls" "\<forall>l \<in> set ls. l < length (hv_states r)"
  shows "hb_conv s' = hb_conv s \<and> rs_handles (hv_paged r') = rs_handles (hv_paged r) \<and> append_lengths (hv_paged r') = append_lengths (hv_paged r) \<and>
    length (hv_states r') = length (hv_states r) \<and> (\<forall>l. l \<notin> set ls \<longrightarrow> hv_states r' ! l = hv_states r ! l) \<and>
    (\<forall>l \<in> set ls. hv_states r' ! l = (case ops l of Attend kt vt \<Rightarrow> hv_states r ! l
      | Convolve x c \<Rightarrow> Some (staged_rows_of zero (rs_handles (hv_paged r)) (append_lengths (hv_paged r)) l x c s)))"
  using assms
proof (induction ls arbitrary: r s)
  case (Cons l ls)
  obtain res r1 s1 where run: "run_op zero l (ops l) r s = (res, r1, s1)" by (metis surj_pair)
  with Cons.prems(1) have ok: "run_op zero l (ops l) r s = (Inr (), r1, s1)" and rest: "run_ops zero ls ops r1 s1 = (Inr (), r', s')"
    by (cases res; simp)+
  note e = run_op_effect [OF ok]
  have len: "length (hv_states r1) = length (hv_states r)" using e by (cases "ops l") simp_all
  have same: "staged_rows_of zero hs ns k x c s1 = staged_rows_of zero hs ns k x c s" for hs ns k x c
    using e by (simp add: staged_rows_of_def)
  have other: "hv_states r1 ! k = hv_states r ! k" if "k \<noteq> l" for k using e that by (cases "ops l") simp_all
  have "hv_states r' ! k = hv_states r ! k" if "k \<notin> set (l # ls)" for k
    using Cons.IH [OF rest] Cons.prems(2,3) len other that by simp
  moreover have "hv_states r' ! k = (case ops k of Attend kt vt \<Rightarrow> hv_states r ! k
      | Convolve x c \<Rightarrow> Some (staged_rows_of zero (rs_handles (hv_paged r)) (append_lengths (hv_paged r)) k x c s))" if "k \<in> set (l # ls)" for k
    using Cons.IH [OF rest] Cons.prems(2,3) len other [of k] that e same by (cases "k = l"; cases "ops k") auto
  ultimately show ?case using Cons.IH [OF rest] Cons.prems(2,3) len e by simp
qed simp

lemma fold_fun_upd_map:
  "distinct (map fst ps) \<Longrightarrow> fold (\<lambda>(h, x) f. f(h := g x (f h))) ps f h = (case map_of ps h of None \<Rightarrow> f h | Some x \<Rightarrow> g x (f h))"
proof (induction ps arbitrary: f)
  case (Cons p ps)
  then have "map_of ps (fst p) = None" by (auto simp: map_of_eq_None_iff)
  then show ?case using Cons by (cases p) (auto split: option.splits)
qed simp

lemma put_states_at:
  assumes "distinct hs" "i < length hs" "\<And>sts. st = Some sts \<Longrightarrow> length sts = length hs"
  shows "put_states hs (k, st) conv (hs ! i) = (case st of None \<Rightarrow> conv (hs ! i) | Some sts \<Rightarrow> AList.update k (sts ! i) (conv (hs ! i)))"
proof (cases st)
  case (Some sts)
  then have "length hs = length sts" using assms(3) by simp
  then show ?thesis using Some fold_fun_upd_map [of "zip hs sts" "AList.update k" conv "hs ! i"] assms(1,2) map_of_zip_nth [of hs sts i]
    by (simp add: put_states_def)
qed (simp add: put_states_def)

lemma put_all_states:
  assumes "distinct hs" "i < length hs" "distinct (map fst ps)" "\<And>k sts. (k, Some sts) \<in> set ps \<Longrightarrow> length sts = length hs"
  shows "map_of (fold (put_states hs) ps conv (hs ! i)) l = (case map_of ps l of Some (Some sts) \<Rightarrow> Some (sts ! i) | _ \<Rightarrow> map_of (conv (hs ! i)) l)"
  using assms(3,4)
proof (induction ps arbitrary: conv)
  case (Cons p ps)
  obtain k st where p: "p = (k, st)" by (cases p)
  have one: "put_states hs p conv (hs ! i) = (case st of None \<Rightarrow> conv (hs ! i) | Some sts \<Rightarrow> AList.update k (sts ! i) (conv (hs ! i)))"
    unfolding p by (rule put_states_at [OF assms(1,2)]) (use Cons.prems(2) p in auto)
  have IH: "map_of (fold (put_states hs) ps conv' (hs ! i)) l = (case map_of ps l of Some (Some sts) \<Rightarrow> Some (sts ! i) | _ \<Rightarrow> map_of (conv' (hs ! i)) l)"
    for conv' using Cons by auto
  have "l = k \<Longrightarrow> map_of ps l = None" using Cons.prems(1) p by (auto simp: map_of_eq_None_iff)
  moreover have "map_of (fold (put_states hs) (p # ps) conv (hs ! i)) l = (case map_of ps l of Some (Some sts) \<Rightarrow> Some (sts ! i)
      | _ \<Rightarrow> map_of (case st of None \<Rightarrow> conv (hs ! i) | Some sts \<Rightarrow> AList.update k (sts ! i) (conv (hs ! i))) l)"
    by (auto simp: IH one split: option.splits)
  ultimately show ?case unfolding p by (auto simp: update_conv' split: option.splits)
qed simp

lemma hybrid_step_states:
  assumes run: "hybrid_step zero hs ns ops s = (Inr lengths, s')" and i: "i < length hs" and l: "l < num_layers (hb_kv s)"
    and op: "ops l = Convolve x c"
  shows "map_of (hb_conv s' (hs ! i)) l = Some (conv_next c (ns ! i) (conv_input zero c (map_of (hb_conv s (hs ! i)) l) x i (ns ! i)))"
proof -
  obtain p kv where rb: "reserve_batch hs ns (hb_kv s) = (Inr p, kv)"
    using run by (auto simp: hybrid_step_def hybrid_reserve_def split: prod.splits sum.splits)
  define r1 where "r1 = \<lparr>hv_paged = p, hv_states = replicate (num_layers kv) (None :: 'a list list option)\<rparr>"
  define s1 where "s1 = s\<lparr>hb_kv := kv\<rparr>"
  have res: "hybrid_reserve hs ns s = (Inr r1, s1)" using rb by (simp add: hybrid_reserve_def r1_def s1_def)
  have b: "distinct hs" "length hs = length ns" "rs_handles p = hs" "append_lengths p = ns" "num_layers kv = num_layers (hb_kv s)"
    using rb reserve_batch_frame [OF rb] by (auto simp: reserve_batch_def build_reservation_def Let_def split: if_splits option.splits)
  obtain r2 s2 where ro: "run_ops zero [0..<num_layers kv] ops r1 s1 = (Inr (), r2, s2)"
    using run by (auto simp: hybrid_step_def res s1_def split: prod.splits sum.splits)
  have e: "hb_conv s2 = hb_conv s" "rs_handles (hv_paged r2) = hs" "length (hv_states r2) = num_layers kv"
      "\<And>k. k < num_layers kv \<Longrightarrow> hv_states r2 ! k = (case ops k of Attend kt vt \<Rightarrow> None | Convolve x c \<Rightarrow> Some (staged_rows_of zero hs ns k x c s1))"
    using run_ops_effect [OF ro] by (auto simp: r1_def s1_def b split: layer_op.splits)
  obtain r3 where "hybrid_commit r2 s2 = (Inr lengths, r3, s')"
    using run by (auto simp: hybrid_step_def res s1_def ro [unfolded s1_def] split: prod.splits)
  then have conv: "hb_conv s' = fold (put_states hs) (enumerate 0 (hv_states r2)) (hb_conv s)"
    by (auto simp: hybrid_commit_def Let_def e(1,2) split: if_splits prod.splits sum.splits)
  have len: "length sts = length hs" if "(k, Some sts) \<in> set (enumerate 0 (hv_states r2))" for k sts
  proof -
    have "k < num_layers kv" "hv_states r2 ! k = Some sts" using that e(3) by (auto simp: in_set_enumerate_eq)
    then show ?thesis using e(4) [of k] b(2) by (auto simp: staged_rows_of_def split: layer_op.splits)
  qed
  have "map_of (enumerate 0 (hv_states r2)) l = Some (hv_states r2 ! l)"
    using map_of_zip_nth [of "[0..<length (hv_states r2)]" "hv_states r2" l] l e(3) b(5) by (simp add: enumerate_eq_zip)
  then have "map_of (hb_conv s' (hs ! i)) l = Some (staged_rows_of zero hs ns l x c s1 ! i)"
    using put_all_states [where conv = "hb_conv s" and l = l, OF b(1) i _ len] e(4) [of l] l b(5) op conv by (simp add: enumerate_eq_zip)
  then show ?thesis using i b(2) by (simp add: staged_rows_of_def s1_def)
qed

text \<open>C10: Convolution does not see chunk boundaries.  If the state kept for a request and a convolution layer is the end of the
  rows that layer has had for it (zeros before the first), then after any step that succeeds it is again, with the step's rows
  appended; and the input the layer computes on has, for each new position, exactly the rows that the whole history has
  there.\<close>

theorem convolution_continues_across_chunks:
  assumes "hybrid_step zero hs ns ops s = (Inr lengths, s')" "i < length hs" "l < num_layers (hb_kv s)"
    and "ops l = Convolve x c" "0 < c" "ns ! i \<le> t_shape x ! 1"
    and "conv_row zero c s l (hs ! i) = recent_rows zero c hist"
  shows "conv_row zero c s' l (hs ! i) = recent_rows zero c (hist @ map (t_row x i) [0..<ns ! i]) \<and>
    (\<forall>j < ns ! i. take c (drop j (conv_input zero c (map_of (hb_conv s (hs ! i)) l) x i (ns ! i))) =
       take c (drop (length hist + j) (replicate (c - 1) zero @ hist @ map (t_row x i) [0..<ns ! i])))"
  using recent_rows_step [OF assms(7) [unfolded conv_row_def] assms(6)] hybrid_step_states [OF assms(1-4)] assms(5)
  by (simp add: conv_row_def)

definition sample_hybrid :: "nat hybrid" where
  "sample_hybrid = \<lparr>hb_kv = sample_pool, hb_conv = (\<lambda>h. [(0, [5, 6])])\<rparr>"

definition sample_gated :: "nat tensor" where
  "sample_gated = \<lparr>t_shape = [1, 4, 1], t_dtype = Float16, t_row = (\<lambda>i j. 7 + j)\<rparr>"

lemma sample_hybrid_step:
  "fst (hybrid_step 0 [sample_handle] [2] (\<lambda>l. Convolve sample_gated 3) sample_hybrid) = Inr [2]"
  by code_simp

theorem convolution_continues_across_chunks_witness:
  "conv_row 0 3 (snd (hybrid_step 0 [sample_handle] [2] (\<lambda>l. Convolve sample_gated 3) sample_hybrid)) 0 sample_handle = [7, 8]"
proof -
  have "hybrid_step 0 [sample_handle] [2] (\<lambda>l. Convolve sample_gated 3) sample_hybrid =
      (Inr [2], snd (hybrid_step 0 [sample_handle] [2] (\<lambda>l. Convolve sample_gated 3) sample_hybrid))"
    using sample_hybrid_step by (metis prod.collapse)
  from convolution_continues_across_chunks [OF this, of 0 0 sample_gated 3 "[5, 6]"] show ?thesis
    by (simp add: sample_hybrid_def sample_pool_state conv_row_def recent_rows_def sample_gated_def upt_rec)
qed

text \<open>A fork of a part of a request keeps the whole request's convolution states.\<close>

lemma fork_keeps_later_states:
  assumes "hybrid_fork h rid (Some n) s = (Inr new, s')"
  shows "hb_conv s' new = hb_conv s h"
  using assms by (auto simp: hybrid_fork_def Let_def split: if_splits prod.splits)

end
