(* ===== verification/Gemma3.thy ===== *)
theory Gemma3
  imports Attention
begin

text \<open>
  The forward pass of \<^verbatim>\<open>native_mlx/models/gemma3.py\<close>: local layers attend to a sliding window, global layers to everything;
  queries and keys are normed, every sublayer is normed before and after, residuals are clipped.  As in theory Qwen2, what MLX
  and the checkpoint provide acts on rows and is a field of the model; \<open>g3_rope l\<close> and \<open>g3_sdpa l\<close> have the base and
  the scale of layer \<open>l\<close> inside, and \<open>g3_embed_scale\<close> multiplies by the root of the hidden size.
\<close>

record 'v gemma3 =
  g3_heads :: nat
  g3_kv_heads :: nat
  g3_head_dim :: nat
  g3_layers :: nat
  g3_sliding_window :: int
  g3_pattern :: nat
  g3_layer_types :: "string list"
  g3_dtype :: dtype
  g3_embed :: "token \<Rightarrow> 'v"
  g3_embed_scale :: "'v \<Rightarrow> 'v"
  g3_input_norm :: "nat \<Rightarrow> 'v \<Rightarrow> 'v"
  g3_q_proj :: "nat \<Rightarrow> 'v \<Rightarrow> 'v"
  g3_k_proj :: "nat \<Rightarrow> 'v \<Rightarrow> 'v"
  g3_v_proj :: "nat \<Rightarrow> 'v \<Rightarrow> 'v"
  g3_o_proj :: "nat \<Rightarrow> 'v \<Rightarrow> 'v"
  g3_q_norm :: "nat \<Rightarrow> 'v \<Rightarrow> 'v"
  g3_k_norm :: "nat \<Rightarrow> 'v \<Rightarrow> 'v"
  g3_rope :: "nat \<Rightarrow> nat \<Rightarrow> 'v \<Rightarrow> 'v"
  g3_sdpa :: "nat \<Rightarrow> 'v \<Rightarrow> 'v list \<Rightarrow> 'v list \<Rightarrow> bool list \<Rightarrow> 'v"
  g3_cast :: "dtype \<Rightarrow> 'v \<Rightarrow> 'v"
  g3_zero :: 'v
  g3_clip_residual :: "'v \<Rightarrow> 'v \<Rightarrow> 'v"
  g3_post_attention_norm :: "nat \<Rightarrow> 'v \<Rightarrow> 'v"
  g3_pre_feedforward_norm :: "nat \<Rightarrow> 'v \<Rightarrow> 'v"
  g3_post_feedforward_norm :: "nat \<Rightarrow> 'v \<Rightarrow> 'v"
  g3_gate_proj :: "nat \<Rightarrow> 'v \<Rightarrow> 'v"
  g3_up_proj :: "nat \<Rightarrow> 'v \<Rightarrow> 'v"
  g3_down_proj :: "nat \<Rightarrow> 'v \<Rightarrow> 'v"
  g3_gelu :: "'v \<Rightarrow> 'v"
  g3_mul :: "'v \<Rightarrow> 'v \<Rightarrow> 'v"
  g3_norm :: "'v \<Rightarrow> 'v"
  g3_lm_head :: "'v \<Rightarrow> 'v"

definition is_sliding :: "'v gemma3 \<Rightarrow> nat \<Rightarrow> bool" where
  "is_sliding m l = (if g3_layer_types m \<noteq> [] then g3_layer_types m ! l = ''sliding_attention'' else (l + 1) mod g3_pattern m \<noteq> 0)"

definition layer_window :: "'v gemma3 \<Rightarrow> nat \<Rightarrow> int option" where
  "layer_window m l = (if is_sliding m l then Some (g3_sliding_window m) else None)"

definition gemma3_attention ::
  "'v gemma3 \<Rightarrow> nat \<Rightarrow> nat \<Rightarrow> nat \<Rightarrow> 'v activations \<Rightarrow> nat list list \<Rightarrow>
     'v reservation \<Rightarrow> 'v kv \<Rightarrow> (exn + 'v activations) \<times> 'v reservation \<times> 'v kv" where
  "gemma3_attention m l batch seq x positions r s =
     (let offset = (\<lambda>i. positions ! i ! 0);
          queries = \<lparr>t_shape = [batch, g3_heads m, seq, g3_head_dim m], t_dtype = g3_dtype m,
                     t_row = (\<lambda>i j. g3_rope m l (offset i + j) (g3_q_norm m l (g3_q_proj m l (x i j))))\<rparr>;
          keys = \<lparr>t_shape = [batch, g3_kv_heads m, seq, g3_head_dim m], t_dtype = g3_dtype m,
                  t_row = (\<lambda>i j. g3_rope m l (offset i + j) (g3_k_norm m l (g3_k_proj m l (x i j))))\<rparr>;
          values' = \<lparr>t_shape = [batch, g3_kv_heads m, seq, g3_head_dim m], t_dtype = g3_dtype m,
                     t_row = (\<lambda>i j. g3_v_proj m l (x i j))\<rparr>
      in case append_and_attend (g3_sdpa m l) (g3_cast m) (g3_zero m) l queries keys values' None (layer_window m l) r s of
           (Inl e, r', s') \<Rightarrow> (Inl e, r', s')
         | (Inr output, r', s') \<Rightarrow> (Inr (\<lambda>i j. g3_o_proj m l (output i j)), r', s'))"

definition gemma3_mlp :: "'v gemma3 \<Rightarrow> nat \<Rightarrow> 'v \<Rightarrow> 'v" where
  "gemma3_mlp m l x = g3_down_proj m l (g3_mul m (g3_gelu m (g3_gate_proj m l x)) (g3_up_proj m l x))"

definition gemma3_block ::
  "'v gemma3 \<Rightarrow> nat \<Rightarrow> nat \<Rightarrow> nat \<Rightarrow> 'v activations \<Rightarrow> nat list list \<Rightarrow>
     'v reservation \<Rightarrow> 'v kv \<Rightarrow> (exn + 'v activations) \<times> 'v reservation \<times> 'v kv" where
  "gemma3_block m l batch seq x positions r s =
     (case gemma3_attention m l batch seq (\<lambda>i j. g3_input_norm m l (x i j)) positions r s of
        (Inl e, r', s') \<Rightarrow> (Inl e, r', s')
      | (Inr residual, r', s') \<Rightarrow>
          (Inr (\<lambda>i j. let hidden = g3_clip_residual m (x i j) (g3_post_attention_norm m l (residual i j))
                       in g3_clip_residual m hidden (g3_post_feedforward_norm m l (gemma3_mlp m l (g3_pre_feedforward_norm m l hidden)))), r', s'))"

fun gemma3_blocks ::
  "'v gemma3 \<Rightarrow> (nat \<Rightarrow> exn option) \<Rightarrow> nat list \<Rightarrow> nat \<Rightarrow> nat \<Rightarrow> 'v activations \<Rightarrow> nat list list \<Rightarrow>
     'v reservation \<Rightarrow> 'v kv \<Rightarrow> (exn + 'v activations) \<times> 'v reservation \<times> 'v kv" where
  "gemma3_blocks m faults [] batch seq x positions r s = (Inr x, r, s)"
| "gemma3_blocks m faults (l # ls) batch seq x positions r s =
     (case faults l of
        Some e \<Rightarrow> (Inl e, r, s)
      | None \<Rightarrow>
          (case gemma3_block m l batch seq x positions r s of
             (Inl e, r', s') \<Rightarrow> (Inl e, r', s')
           | (Inr x', r', s') \<Rightarrow> gemma3_blocks m faults ls batch seq x' positions r' s'))"

definition gemma3_backbone ::
  "'v gemma3 \<Rightarrow> (nat \<Rightarrow> exn option) \<Rightarrow> token list list \<Rightarrow> nat list list \<Rightarrow>
     'v reservation \<Rightarrow> 'v kv \<Rightarrow> (exn + 'v activations) \<times> 'v reservation \<times> 'v kv" where
  "gemma3_backbone m faults inputs positions r s =
     (if num_layers s \<noteq> g3_layers m then
        (Inl (ValueError ''Gemma3 requires one attention context per layer''), r, s)
      else
        (case gemma3_blocks m faults [0..<g3_layers m] (length inputs) (length (hd inputs))
                (\<lambda>i j. g3_embed_scale m (g3_embed m (inputs ! i ! j))) positions r s of
           (Inl e, r', s') \<Rightarrow> (Inl e, r', s')
         | (Inr hidden, r', s') \<Rightarrow> (Inr (\<lambda>i j. g3_norm m (hidden i j)), r', s')))"

definition gemma3_call ::
  "'v gemma3 \<Rightarrow> (nat \<Rightarrow> exn option) \<Rightarrow> token list list \<Rightarrow> nat list list \<Rightarrow>
     'v reservation \<Rightarrow> 'v kv \<Rightarrow> (exn + 'v activations) \<times> 'v reservation \<times> 'v kv" where
  "gemma3_call m faults input_ids positions r s =
     (case gemma3_backbone m faults input_ids positions r s of
        (Inl e, r', s') \<Rightarrow> (Inl e, r', s')
      | (Inr hidden, r', s') \<Rightarrow> (Inr (\<lambda>i j. g3_lm_head m (hidden i j)), r', s'))"

subsection \<open>The model without a cache\<close>

text \<open>The last \<open>w\<close> rows, or all of them.\<close>

definition recent :: "int option \<Rightarrow> 'v list \<Rightarrow> 'v list" where
  "recent w xs = (case w of None \<Rightarrow> xs | Some n \<Rightarrow> drop (length xs - nat n) xs)"

definition refg_keys :: "'v gemma3 \<Rightarrow> dtype \<Rightarrow> nat \<Rightarrow> 'v list \<Rightarrow> 'v list" where
  "refg_keys m d l x = map (\<lambda>i. let k = g3_rope m l i (g3_k_norm m l (g3_k_proj m l (g3_input_norm m l (x ! i))))
     in if g3_dtype m \<noteq> d then g3_cast m d k else k) [0..<length x]"

definition refg_values :: "'v gemma3 \<Rightarrow> dtype \<Rightarrow> nat \<Rightarrow> 'v list \<Rightarrow> 'v list" where
  "refg_values m d l x = map (\<lambda>i. let v = g3_v_proj m l (g3_input_norm m l (x ! i))
     in if g3_dtype m \<noteq> d then g3_cast m d v else v) [0..<length x]"

definition refg_block :: "'v gemma3 \<Rightarrow> dtype \<Rightarrow> nat \<Rightarrow> 'v list \<Rightarrow> nat \<Rightarrow> 'v" where
  "refg_block m d l x i =
     (let q = g3_rope m l i (g3_q_norm m l (g3_q_proj m l (g3_input_norm m l (x ! i))));
          ks = recent (layer_window m l) (take (Suc i) (refg_keys m d l x));
          vs = recent (layer_window m l) (take (Suc i) (refg_values m d l x));
          attended = g3_sdpa m l q ks vs (replicate (length ks) True);
          hidden = g3_clip_residual m (x ! i) (g3_post_attention_norm m l (g3_o_proj m l attended))
      in g3_clip_residual m hidden (g3_post_feedforward_norm m l (gemma3_mlp m l (g3_pre_feedforward_norm m l hidden))))"

primrec refg_hidden :: "'v gemma3 \<Rightarrow> dtype \<Rightarrow> nat \<Rightarrow> token list \<Rightarrow> 'v list" where
  "refg_hidden m d 0 ts = map (\<lambda>t. g3_embed_scale m (g3_embed m t)) ts"
| "refg_hidden m d (Suc l) ts = (let x = refg_hidden m d l ts in map (refg_block m d l x) [0..<length x])"

definition refg_logits :: "'v gemma3 \<Rightarrow> dtype \<Rightarrow> token list \<Rightarrow> 'v" where
  "refg_logits m d ts = g3_lm_head m (g3_norm m (last (refg_hidden m d (g3_layers m) ts)))"

definition keyg_row :: "'v gemma3 \<Rightarrow> dtype \<Rightarrow> nat \<Rightarrow> token list \<Rightarrow> 'v" where
  "keyg_row m d l ts = last (refg_keys m d l (refg_hidden m d l ts))"

definition valueg_row :: "'v gemma3 \<Rightarrow> dtype \<Rightarrow> nat \<Rightarrow> token list \<Rightarrow> 'v" where
  "valueg_row m d l ts = last (refg_values m d l (refg_hidden m d l ts))"

end
