(* ===== verification/Gemma3Props.thy ===== *)
theory Gemma3Props
  imports Gemma3 ModelProps
begin

text \<open>
  Gemma3 over the paged pool.  A sliding window is full attention with a kernel that looks at the last rows only; with that, the
  norms folded into the projections and the clipped residual as addition, Gemma3 is a Qwen2 model, row by row of the batch.
\<close>

subsection \<open>A sliding window as a kernel\<close>

text \<open>Attending to a window is attending to everything with a kernel that looks at the last rows only.\<close>

definition recent_sdpa ::
  "int option \<Rightarrow> ('v \<Rightarrow> 'v list \<Rightarrow> 'v list \<Rightarrow> bool list \<Rightarrow> 'v) \<Rightarrow> 'v \<Rightarrow> 'v list \<Rightarrow> 'v list \<Rightarrow> bool list \<Rightarrow> 'v" where
  "recent_sdpa w sdpa q ks vs keep =
     (if True \<in> set keep then
        (let ks' = recent w (kept_rows keep ks); vs' = recent w (kept_rows keep vs) in sdpa q ks' vs' (replicate (length ks') True))
      else sdpa q ks vs keep)"

lemma recent_sdpa_exact: "masks_exactly (recent_sdpa w sdpa)"
  unfolding masks_exactly_def
proof (intro allI impI)
  fix q :: 'a and ks vs :: "'a list" and keep
  assume a: "True \<in> set keep" "length ks = length keep" "length vs = length keep"
  then show "recent_sdpa w sdpa q ks vs keep =
      recent_sdpa w sdpa q (kept_rows keep ks) (kept_rows keep vs) (replicate (length (kept_rows keep ks)) True)"
    using kept_lengths [OF a(2,3)] kept_some [OF a(1,2)] kept_some [OF a(1,3)] by (simp add: recent_sdpa_def kept_all)
qed

lemma kept_range:
  assumes "b \<le> length xs" "length keep = length xs" "\<And>k. k < length xs \<Longrightarrow> keep ! k \<longleftrightarrow> a \<le> k \<and> k < b"
  shows "kept_rows keep xs = drop a (take b xs)"
proof -
  have 1: "kept_rows (take a keep) (take a xs) = take 0 (take a xs)"
    by (rule kept_prefix) (use assms in auto)
  have 2: "kept_rows (drop a keep) (drop a xs) = take (b - a) (drop a xs)"
    by (rule kept_prefix) (use assms in auto)
  have "kept_rows (take a keep @ drop a keep) (take a xs @ drop a xs) =
      kept_rows (take a keep) (take a xs) @ kept_rows (drop a keep) (drop a xs)"
    unfolding kept_rows_def using assms(2) by (subst zip_append) simp_all
  then show ?thesis unfolding 1 2 by (simp add: drop_take)
qed

subsection \<open>Attention over a window of the pool\<close>

text \<open>Activations and tensors matter in the rows of the batch only.\<close>

definition alike :: "nat \<Rightarrow> (nat \<Rightarrow> nat \<Rightarrow> 'v) \<Rightarrow> (nat \<Rightarrow> nat \<Rightarrow> 'v) \<Rightarrow> bool" where
  "alike n x y \<longleftrightarrow> (\<forall>i < n. \<forall>j. x i j = y i j)"

lemma alikeD: "alike n x y \<Longrightarrow> i < n \<Longrightarrow> x i j = y i j"
  by (simp add: alike_def)

lemma packed_alike:
  "alike (length ns) (t_row t) (t_row t') \<Longrightarrow> packed_rows ns t = packed_rows ns t'"
  by (auto simp: packed_rows_def alike_def in_set_enumerate_eq intro!: arg_cong [of _ _ concat] map_cong)

definition same_tensor :: "nat \<Rightarrow> 'v tensor \<Rightarrow> 'v tensor \<Rightarrow> bool" where
  "same_tensor n t t' \<longleftrightarrow> alike n (t_row t) (t_row t') \<and> t_shape t' = t_shape t \<and> t_dtype t' = t_dtype t"

lemma same_tensor_astype: "same_tensor n t t' \<Longrightarrow> same_tensor n (astype cast d t) (astype cast d t')"
  by (simp add: same_tensor_def astype_def alike_def)

lemma stage_layer_same:
  assumes "same_tensor (length (append_lengths r)) kt kt'" "same_tensor (length (append_lengths r)) vt vt'"
  shows "stage_layer l kt' vt' r s = stage_layer l kt vt r s"
proof -
  note k = assms(1) [unfolded same_tensor_def] and v = assms(2) [unfolded same_tensor_def]
  have valid: "validate_kv_shape kt' vt' (append_lengths r) s = validate_kv_shape kt vt (append_lengths r) s"
    by (simp only: validate_kv_shape_def k v)
  have packed: "packed_rows (append_lengths r) kt' = packed_rows (append_lengths r) kt" "packed_rows (append_lengths r) vt' = packed_rows (append_lengths r) vt"
    using packed_alike k v by metis+
  show ?thesis unfolding stage_layer_def valid packed by (rule refl)
qed

text \<open>The kernel's result at one position of the batch, under the window and under the causal mask.\<close>

lemma window_kernel:
  fixes ks vs :: "'v list"
  assumes sdpa: "masks_exactly sdpa" and w: "\<And>n. w = Some n \<Longrightarrow> 0 < n" and len: "length ks = M" "length vs = M"
    and i: "i < length lens" "offs ! i + lens ! i \<le> M"
  shows "sdpa q ks vs (map (dense_causal_mask offs lens w i j) [0..<M]) =
    recent_sdpa w sdpa q ks vs (map (dense_causal_mask offs lens None i j) [0..<M])"
proof (cases "j < lens ! i")
  case False
  then show ?thesis by (auto simp: recent_sdpa_def dense_causal_mask_def cong: map_cong)
next
  case j: True
  let ?keep = "map (dense_causal_mask offs lens w i j) [0..<M]" and ?all = "map (dense_causal_mask offs lens None i j) [0..<M]"
  define b where "b = Suc (offs ! i + j)"
  have b: "b \<le> M" using i(2) j by (simp add: b_def)
  define a where "a = (case w of None \<Rightarrow> 0 | Some n \<Rightarrow> b - nat n)"
  have ab: "a < b" using w by (auto simp: a_def b_def split: option.splits)
  have all: "kept_rows ?all xs = take b xs" if "length xs = M" for xs :: "'v list"
    by (rule kept_prefix) (use that b j in \<open>auto simp: dense_causal_mask_def b_def\<close>)
  have keep: "kept_rows ?keep xs = drop a (take b xs)" if "length xs = M" for xs :: "'v list"
    by (rule kept_range) (use that b j w in \<open>auto simp: dense_causal_mask_def Let_def b_def a_def split: option.splits\<close>)
  have rec: "recent w (take b xs) = drop a (take b xs)" if "length xs = M" for xs :: "'v list"
    using that b by (auto simp: recent_def a_def min_def split: option.splits)
  have "True \<in> set ?all" "True \<in> set ?keep"
    using b j w by (auto simp: image_iff dense_causal_mask_def Let_def b_def split: option.splits intro!: bexI [of _ "offs ! i + j"])
  then show ?thesis
    using sdpa len all keep rec unfolding masks_exactly_def recent_sdpa_def by (simp add: Let_def)
qed

definition same_result :: "nat \<Rightarrow> exn + (nat \<Rightarrow> nat \<Rightarrow> 'v) \<Rightarrow> exn + (nat \<Rightarrow> nat \<Rightarrow> 'v) \<Rightarrow> bool" where
  "same_result n res res' \<longleftrightarrow> (case res of Inl e \<Rightarrow> res' = Inl e | Inr out \<Rightarrow> \<exists>out'. res' = Inr out' \<and> alike n out out')"

lemma attend_window:
  assumes wf: "kv_wf s" and ok: "reservation_ok s r" and len: "lengths_known s r"
    and sdpa: "masks_exactly sdpa" and w: "\<And>n. w = Some n \<Longrightarrow> 0 < n"
    and same: "same_tensor (length (rs_handles r)) qs qs'" "same_tensor (length (rs_handles r)) ks ks'" "same_tensor (length (rs_handles r)) vs vs'"
    and run: "append_and_attend sdpa cast zero l qs ks vs None w r s = (res, r', s')"
  shows "\<exists>res'. append_and_attend (recent_sdpa w sdpa) cast zero l qs' ks' vs' (Some ''causal'') None r s = (res', r', s') \<and>
    same_result (length (rs_handles r)) res res'"
proof -
  let ?n = "length (rs_handles r)" and ?d = "kv_dtype s"
  note r = reservation_okD [OF ok]
  have n: "length (append_lengths r) = ?n" by (rule r(5))
  have kv: "stage_layer l (astype cast ?d ks') (astype cast ?d vs') r s = stage_layer l (astype cast ?d ks) (astype cast ?d vs) r s"
    by (rule stage_layer_same; unfold n; rule same_tensor_astype; rule same)
  have win: "(case w of Some n \<Rightarrow> Inr (Some n) | None \<Rightarrow> window_size_of None) = Inr w" by (simp add: window_size_of_def split: option.split)
  have shape: "t_shape qs' = t_shape qs" using same(1) by (simp add: same_tensor_def)
  consider (refused) "t_shape qs ! 1 mod num_kv_heads s \<noteq> 0 \<or> t_shape qs ! 3 \<noteq> head_dim s"
    | (staged) "t_shape qs ! 1 mod num_kv_heads s = 0" "t_shape qs ! 3 = head_dim s" by blast
  then show ?thesis
  proof cases
    case refused
    then show ?thesis using run by (auto simp: append_and_attend_def win shape window_size_of_def same_result_def split: if_splits)
  next
    case staged
    obtain a r1 s1 where st: "stage_layer l (astype cast ?d ks) (astype cast ?d vs) r s = (a, r1, s1)" by (metis surj_pair)
    show ?thesis
    proof (cases a)
      case (Inl e)
      then show ?thesis using run staged st kv
        by (auto simp: append_and_attend_def win shape window_size_of_def same_result_def Let_def)
    next
      case (Inr kvs)
      then obtain kc vc where st: "stage_layer l (astype cast ?d ks) (astype cast ?d vs) r s = (Inr (kc, vc), r1, s1)"
        using st by (cases kvs) simp
      note f = stage_layer_frame [OF st] and e = stage_layer_Inr [OF st]
      have out: "res = Inr (\<lambda>i j. sdpa (t_row qs i j) (dense_kv_rows zero s1 r1 kc ! i) (dense_kv_rows zero s1 r1 vc ! i)
          (map (dense_causal_mask (map (kv_size s1) (rs_handles r1)) (append_lengths r1) w i j) [0..<rs_max_total_length r1]))"
        and fin: "r' = r1" "s' = s1"
        using run staged st by (auto simp: append_and_attend_def win Let_def)
      let ?out' = "\<lambda>i j. recent_sdpa w sdpa (t_row qs' i j) (dense_kv_rows zero s1 r1 kc ! i) (dense_kv_rows zero s1 r1 vc ! i)
          (map (dense_causal_mask (map (kv_size s1) (rs_handles r1)) (append_lengths r1) None i j) [0..<rs_max_total_length r1])"
      have "append_and_attend (recent_sdpa w sdpa) cast zero l qs' ks' vs' (Some ''causal'') None r s = (Inr ?out', r', s')"
        using staged st kv by (simp add: append_and_attend_def shape window_size_of_def Let_def fin)
      moreover have "sdpa (t_row qs i j) (dense_kv_rows zero s1 r1 kc ! i) (dense_kv_rows zero s1 r1 vc ! i)
          (map (dense_causal_mask (map (kv_size s1) (rs_handles r1)) (append_lengths r1) w i j) [0..<rs_max_total_length r1]) = ?out' i j"
        if i: "i < ?n" for i j
      proof -
        have max: "rs_max_total_length r1 = rs_max_total_length r" by (simp add: e(3))
        have tot: "kv_size s (rs_handles r ! i) + append_lengths r ! i \<le> rs_max_total_length r"
          using lengths_known_total [OF ok len i] by simp
        have lens: "length (dense_kv_rows zero s1 r1 kc ! i) = rs_max_total_length r1" "length (dense_kv_rows zero s1 r1 vc ! i) = rs_max_total_length r1"
          using attend_reads [OF wf ok len st i, of zero] tot by (simp_all add: max rows_def)
        have "t_row qs' i j = t_row qs i j" using same(1) i by (simp add: same_tensor_def alike_def)
        moreover have "map (kv_size s1) (rs_handles r1) ! i + append_lengths r1 ! i \<le> rs_max_total_length r1" "i < length (append_lengths r1)"
          using tot i f n by (simp_all add: max)
        ultimately show ?thesis using window_kernel [OF sdpa w lens] by simp
      qed
      ultimately show ?thesis by (auto simp: out same_result_def alike_def)
    qed
  qed
qed

subsection \<open>Gemma3 as a Qwen2 with windowed kernels\<close>

definition windowed :: "'v gemma3 \<Rightarrow> 'v qwen2" where
  "windowed m = \<lparr>qw_heads = g3_heads m, qw_kv_heads = g3_kv_heads m, qw_head_dim = g3_head_dim m, qw_layers = g3_layers m,
     qw_tied = False, qw_dtype = g3_dtype m, qw_embed = (\<lambda>t. g3_embed_scale m (g3_embed m t)), qw_input_norm = g3_input_norm m,
     qw_q_proj = (\<lambda>l x. g3_q_norm m l (g3_q_proj m l x)), qw_k_proj = (\<lambda>l x. g3_k_norm m l (g3_k_proj m l x)),
     qw_v_proj = g3_v_proj m, qw_o_proj = (\<lambda>l x. g3_post_attention_norm m l (g3_o_proj m l x)), qw_rope = g3_rope m,
     qw_sdpa = (\<lambda>l. recent_sdpa (layer_window m l) (g3_sdpa m l)), qw_cast = g3_cast m, qw_zero = g3_zero m,
     qw_add = g3_clip_residual m, qw_post_norm = g3_pre_feedforward_norm m, qw_gate_proj = g3_gate_proj m, qw_up_proj = g3_up_proj m,
     qw_down_proj = (\<lambda>l x. g3_post_feedforward_norm m l (g3_down_proj m l x)), qw_silu = g3_gelu m, qw_mul = g3_mul m,
     qw_norm = g3_norm m, qw_as_linear = g3_lm_head m, qw_lm_head = g3_lm_head m\<rparr>"

lemma windowed_mlp: "qwen2_mlp (windowed m) l x = g3_post_feedforward_norm m l (gemma3_mlp m l x)"
  by (simp add: windowed_def qwen2_mlp_def silu_gate_def gemma3_mlp_def)

lemma windowed_kv: "refg_keys m d l x = ref_keys (windowed m) d l x" "refg_values m d l x = ref_values (windowed m) d l x"
  by (simp_all add: refg_keys_def ref_keys_def refg_values_def ref_values_def windowed_def Let_def cong: if_cong)

lemma windowed_block:
  assumes "i < length x"
  shows "refg_block m d l x i = ref_block (windowed m) d l x i"
proof -
  have kept: "kept_rows (replicate (Suc i) True) (take (Suc i) (ref_keys (windowed m) d l x)) = take (Suc i) (ref_keys (windowed m) d l x)"
    "kept_rows (replicate (Suc i) True) (take (Suc i) (ref_values (windowed m) d l x)) = take (Suc i) (ref_values (windowed m) d l x)"
    by (rule kept_all; use assms in simp)+
  have "qw_sdpa (windowed m) l q (take (Suc i) (ref_keys (windowed m) d l x)) (take (Suc i) (ref_values (windowed m) d l x)) (replicate (Suc i) True) =
      (let ks = recent (layer_window m l) (take (Suc i) (refg_keys m d l x)); vs = recent (layer_window m l) (take (Suc i) (refg_values m d l x))
       in g3_sdpa m l q ks vs (replicate (length ks) True))" for q
    using kept by (simp add: windowed_def recent_sdpa_def windowed_kv Let_def del: replicate_Suc)
  then show ?thesis
    unfolding refg_block_def ref_block_def Let_def windowed_mlp by (simp add: windowed_def)
qed

lemma windowed_hidden: "refg_hidden m d l ts = ref_hidden (windowed m) d l ts"
proof (induction l)
  case (Suc l)
  then show ?case by (simp add: Let_def windowed_block cong: map_cong)
qed (simp add: windowed_def)

lemma windowed_rows:
  "keyg_row m d = key_row (windowed m) d" "valueg_row m d = value_row (windowed m) d" "refg_logits m d ts = ref_logits (windowed m) d ts"
proof -
  show "keyg_row m d = key_row (windowed m) d" "valueg_row m d = value_row (windowed m) d"
    by (simp_all add: fun_eq_iff keyg_row_def key_row_def valueg_row_def value_row_def windowed_kv windowed_hidden)
  show "refg_logits m d ts = ref_logits (windowed m) d ts"
    unfolding refg_logits_def ref_logits_def windowed_hidden by (simp add: windowed_def Let_def)
qed

definition windows_positive :: "'v gemma3 \<Rightarrow> bool" where
  "windows_positive m \<longleftrightarrow> 0 < g3_sliding_window m"

lemma block_window:
  assumes "kv_wf s" "reservation_ok s r" "lengths_known s r"
    and "\<forall>l. masks_exactly (g3_sdpa m l)" "windows_positive m" "alike (length (rs_handles r)) x x'"
    and run: "gemma3_block m l batch seq x positions r s = (res, r', s')"
  shows "\<exists>res'. qwen2_block (windowed m) l batch seq x' positions (Some ''causal'') r s = (res', r', s') \<and>
    same_result (length (rs_handles r)) res res'"
proof -
  let ?n = "length (rs_handles r)" and ?w = "windowed m"
  define qs where "qs y = \<lparr>t_shape = [batch, g3_heads m, seq, g3_head_dim m], t_dtype = g3_dtype m,
    t_row = (\<lambda>i j. g3_rope m l (positions ! i ! 0 + j) (g3_q_norm m l (g3_q_proj m l (g3_input_norm m l (y i j)))))\<rparr>" for y :: "'a activations"
  define ks where "ks y = \<lparr>t_shape = [batch, g3_kv_heads m, seq, g3_head_dim m], t_dtype = g3_dtype m,
    t_row = (\<lambda>i j. g3_rope m l (positions ! i ! 0 + j) (g3_k_norm m l (g3_k_proj m l (g3_input_norm m l (y i j)))))\<rparr>" for y :: "'a activations"
  define vs where "vs y = \<lparr>t_shape = [batch, g3_kv_heads m, seq, g3_head_dim m], t_dtype = g3_dtype m,
    t_row = (\<lambda>i j. g3_v_proj m l (g3_input_norm m l (y i j)))\<rparr>" for y :: "'a activations"
  have same: "same_tensor ?n (qs x) (qs x')" "same_tensor ?n (ks x) (ks x')" "same_tensor ?n (vs x) (vs x')"
    using assms(6) by (simp_all add: qs_def ks_def vs_def same_tensor_def alike_def)
  obtain a where att: "append_and_attend (g3_sdpa m l) (g3_cast m) (g3_zero m) l (qs x) (ks x) (vs x) None (layer_window m l) r s = (a, r', s')"
    and res: "res = (case a of Inl e \<Rightarrow> Inl e | Inr output \<Rightarrow> Inr (\<lambda>i j.
        let hidden = g3_clip_residual m (x i j) (g3_post_attention_norm m l (g3_o_proj m l (output i j)))
        in g3_clip_residual m hidden (g3_post_feedforward_norm m l (gemma3_mlp m l (g3_pre_feedforward_norm m l hidden)))))"
    using run unfolding gemma3_block_def gemma3_attention_def Let_def qs_def ks_def vs_def
    by (auto split: sum.splits prod.splits)
  have "\<And>n. layer_window m l = Some n \<Longrightarrow> 0 < n" using assms(5) by (auto simp: layer_window_def windows_positive_def split: if_splits)
  from attend_window [OF assms(1-3) assms(4) [rule_format] this same att] obtain a' where
    att': "append_and_attend (recent_sdpa (layer_window m l) (g3_sdpa m l)) (g3_cast m) (g3_zero m) l (qs x') (ks x') (vs x') (Some ''causal'') None r s = (a', r', s')"
    and aa: "same_result ?n a a'" by blast
  have "qwen2_block ?w l batch seq x' positions (Some ''causal'') r s =
      (case a' of Inl e \<Rightarrow> Inl e | Inr output \<Rightarrow> Inr (\<lambda>i j.
        let hidden = g3_clip_residual m (x' i j) (g3_post_attention_norm m l (g3_o_proj m l (output i j)))
        in g3_clip_residual m hidden (g3_post_feedforward_norm m l (gemma3_mlp m l (g3_pre_feedforward_norm m l hidden)))), r', s')"
    unfolding qwen2_block_def qwen2_attention_def windowed_mlp Let_def
    using att' by (simp add: windowed_def qs_def ks_def vs_def split: sum.split)
  then show ?thesis using aa assms(6) by (auto simp: res same_result_def alike_def Let_def split: sum.splits)
qed

text \<open>Whatever a block does to the pool, it does by staging one layer.\<close>

lemma block_stages:
  assumes "gemma3_block m l batch seq x positions r s = (res, r', s')"
  shows "\<exists>kt vt res1. (r' = r \<and> s' = s) \<or> stage_layer l kt vt r s = (res1, r', s')"
  using assms unfolding gemma3_block_def gemma3_attention_def append_and_attend_def Let_def
  by (auto split: sum.splits prod.splits if_splits option.splits)

lemma blocks_window:
  assumes "kv_wf s" "reservation_ok s r" "lengths_known s r"
    and "\<forall>l. masks_exactly (g3_sdpa m l)" "windows_positive m" "alike (length (rs_handles r)) x x'"
    and run: "gemma3_blocks m faults ls batch seq x positions r s = (res, r', s')"
  shows "\<exists>res'. qwen2_blocks (windowed m) faults ls batch seq x' positions (Some ''causal'') r s = (res', r', s') \<and>
    same_result (length (rs_handles r)) res res'"
  using assms
proof (induction ls arbitrary: x x' r s)
  case Nil
  then show ?case by (auto simp: same_result_def)
next
  case (Cons l ls)
  show ?case
  proof (cases "faults l")
    case (Some e)
    then show ?thesis using Cons.prems(7) by (auto simp: same_result_def)
  next
    case None
    obtain a r1 s1 where b: "gemma3_block m l batch seq x positions r s = (a, r1, s1)" by (metis surj_pair)
    obtain a' where b': "qwen2_block (windowed m) l batch seq x' positions (Some ''causal'') r s = (a', r1, s1)"
      and aa: "same_result (length (rs_handles r)) a a'" using block_window [OF Cons.prems(1-6) b] by blast
    obtain kt vt res1 where st: "(r1 = r \<and> s1 = s) \<or> stage_layer l kt vt r s = (res1, r1, s1)" using block_stages [OF b] by blast
    have ok: "kv_wf s1" "reservation_ok s1 r1" "lengths_known s1 r1" "length (rs_handles r1) = length (rs_handles r)"
      using st Cons.prems(1-3) stage_layer_pass [OF Cons.prems(1,2), of l kt vt res1 r1 s1] stage_layer_lengths [of l kt vt r s res1 r1 s1]
      by (auto simp: pass_frame_def)
    show ?thesis
    proof (cases a)
      case (Inl e)
      then show ?thesis using Cons.prems(7) None b b' aa by (auto simp: same_result_def)
    next
      case (Inr y)
      then obtain y' where y': "a' = Inr y'" "alike (length (rs_handles r1)) y y'" using aa ok(4) by (auto simp: same_result_def)
      have "gemma3_blocks m faults ls batch seq y positions r1 s1 = (res, r', s')" using Cons.prems(7) None b Inr by simp
      from Cons.IH [OF ok(1-3) Cons.prems(4,5) y'(2) this] show ?thesis using None b' y'(1) ok(4) by simp
    qed
  qed
qed

subsection \<open>Gemma3 as an architecture model\<close>

abbreviation gemma3_model :: "'v gemma3 \<Rightarrow> (nat \<Rightarrow> exn option) \<Rightarrow> 'v native_model" where
  "gemma3_model m faults \<equiv> (\<lambda>ids positions attention_mask r s. gemma3_call m faults ids positions r s)"

definition gemma3_next :: "'v gemma3 \<Rightarrow> dtype \<Rightarrow> ('v \<Rightarrow> token) \<Rightarrow> token list \<Rightarrow> token" where
  "gemma3_next m d argmax ts = argmax (refg_logits m d ts)"

lemma gemma3_blocks_pass:
  assumes "kv_wf s" "reservation_ok s r" "gemma3_blocks m faults ls batch seq x positions r s = (res, r', s')"
  shows "pass_frame s r s' r'"
  using assms
proof (induction ls arbitrary: x r s)
  case Nil
  then show ?case using pass_frame_refl by simp
next
  case (Cons l ls)
  show ?case
  proof (cases "faults l")
    case (Some e)
    then show ?thesis using Cons.prems pass_frame_refl by simp
  next
    case None
    obtain y r1 s1 where b: "gemma3_block m l batch seq x positions r s = (y, r1, s1)" by (metis surj_pair)
    have one: "pass_frame s r s1 r1"
      using block_stages [OF b] stage_layer_pass [OF Cons.prems(1,2)] pass_frame_refl [OF Cons.prems(1,2)] by blast
    show ?thesis
    proof (cases y)
      case (Inl e)
      then show ?thesis using Cons.prems(3) None b one by simp
    next
      case (Inr x1)
      then have "gemma3_blocks m faults ls batch seq x1 positions r1 s1 = (res, r', s')"
        using Cons.prems(3) None b by simp
      moreover have "kv_wf s1" "reservation_ok s1 r1" using one by (simp_all add: pass_frame_def)
      ultimately show ?thesis using Cons.IH pass_frame_trans [OF one] by blast
    qed
  qed
qed

lemma gemma3_call_blocks:
  assumes "gemma3_call m faults ids positions r s = (res, r', s')"
  shows "(r' = r \<and> s' = s) \<or>
    (\<exists>res1. gemma3_blocks m faults [0..<g3_layers m] (length ids) (length (hd ids)) (\<lambda>i j. g3_embed_scale m (g3_embed m (ids ! i ! j))) positions r s = (res1, r', s'))"
  using assms unfolding gemma3_call_def gemma3_backbone_def by (auto split: sum.splits prod.splits if_splits)

lemma gemma3_forward:
  assumes "\<forall>l. masks_exactly (g3_sdpa m l)" "windows_positive m"
  shows "forward_model (gemma3_model m faults) argmax (keyg_row m d) (valueg_row m d) (gemma3_next m d argmax) (g3_layers m) d"
proof -
  have layers: "qw_layers (windowed m) = g3_layers m" by (simp add: windowed_def)
  have "\<forall>l. masks_exactly (qw_sdpa (windowed m) l)" by (simp add: windowed_def recent_sdpa_exact)
  note F = qwen2_forward [OF this, of faults argmax d, unfolded layers]
  have next': "gemma3_next m d argmax = qwen2_next (windowed m) d argmax"
    by (simp add: fun_eq_iff gemma3_next_def qwen2_next_def windowed_rows)
  show ?thesis
    unfolding windowed_rows next'
  proof
    show "pass_frame s r s' r'" if "kv_wf s" "reservation_ok s r" "gemma3_call m faults ids positions r s = (res, r', s')"
      for s r ids positions mk res r' s'
      using gemma3_call_blocks [OF that(3)] gemma3_blocks_pass [OF that(1,2)] pass_frame_refl [OF that(1,2)] by blast
  next
    fix s r ids positions old new logits r' s'
    assume wf: "kv_wf s" "reservation_ok s r" "lengths_known s r" "num_layers s = g3_layers m" "kv_dtype s = d" "length ids = length (rs_handles r)"
      and q: "\<And>i. i < length (rs_handles r) \<Longrightarrow> holds (key_row (windowed m) d) (value_row (windowed m) d) s (rs_handles r ! i) (old i) \<and>
        append_lengths r ! i = length (new i) \<and> new i \<noteq> [] \<and> take (length (new i)) (ids ! i) = new i \<and> positions ! i ! 0 = length (old i)"
      and run: "gemma3_call m faults ids positions r s = (Inr logits, r', s')"
    obtain x where b: "gemma3_blocks m faults [0..<g3_layers m] (length ids) (length (hd ids))
        (\<lambda>i j. g3_embed_scale m (g3_embed m (ids ! i ! j))) positions r s = (Inr x, r', s')"
      and logits: "logits = (\<lambda>i j. g3_lm_head m (g3_norm m (x i j)))"
      using run unfolding gemma3_call_def gemma3_backbone_def by (auto split: sum.splits prod.splits if_splits)
    have "alike (length (rs_handles r)) (\<lambda>i j. g3_embed_scale m (g3_embed m (ids ! i ! j))) (\<lambda>i j. g3_embed_scale m (g3_embed m (ids ! i ! j)))"
      by (simp add: alike_def)
    from blocks_window [OF wf(1-3) assms this b] obtain y where
      y: "qwen2_blocks (windowed m) faults [0..<g3_layers m] (length ids) (length (hd ids))
        (\<lambda>i j. g3_embed_scale m (g3_embed m (ids ! i ! j))) positions (Some ''causal'') r s = (Inr y, r', s')"
      "alike (length (rs_handles r)) x y" by (auto simp: same_result_def)
    have "qwen2_call (windowed m) faults ids positions (Some ''causal'') r s = (Inr (\<lambda>i j. g3_lm_head m (g3_norm m (y i j))), r', s')"
      using y(1) wf(4) by (simp add: qwen2_call_def qwen2_backbone_def windowed_def)
    from forward_model.run_law [OF F wf(1-3) wf(4) wf(5,6) q this]
    show "(\<forall>l < g3_layers m. staged_rows (key_row (windowed m) d) (value_row (windowed m) d) old new s' r' l) \<and>
      (\<forall>i < length (rs_handles r). argmax (logits i (length (new i) - 1)) = qwen2_next (windowed m) d argmax (old i @ new i))"
      using y(2) by (simp add: logits alike_def)
  qed
qed

interpretation gemma3: forward_model "gemma3_model (m\<lparr>g3_sdpa := (\<lambda>l. masked_sdpa (core l) (blank l)), g3_sliding_window := 1 + int w\<rparr>) faults" argmax
    "keyg_row (m\<lparr>g3_sdpa := (\<lambda>l. masked_sdpa (core l) (blank l)), g3_sliding_window := 1 + int w\<rparr>) d"
    "valueg_row (m\<lparr>g3_sdpa := (\<lambda>l. masked_sdpa (core l) (blank l)), g3_sliding_window := 1 + int w\<rparr>) d"
    "gemma3_next (m\<lparr>g3_sdpa := (\<lambda>l. masked_sdpa (core l) (blank l)), g3_sliding_window := 1 + int w\<rparr>) d argmax"
    "g3_layers (m\<lparr>g3_sdpa := (\<lambda>l. masked_sdpa (core l) (blank l)), g3_sliding_window := 1 + int w\<rparr>)" d
  for m core blank w faults argmax d
  by (rule gemma3_forward) (simp_all add: masked_sdpa_exact windows_positive_def)

text \<open>C36: Gemma3 generates over the paged pool what it generates without a cache.  The pool keeps the rows of every token; the
  sliding-window mask of the paged adapter makes a local layer see exactly the last \<open>sliding_window\<close> of them, whatever the
  split into cached and new tokens, and a global layer all of them.  Every request of the batch that is not refused gets the token
  the model gives for its whole sequence, and its cache is extended by its rows; refused requests are reported in place; an
  exception changes no request.\<close>

theorem gemma3_batch_generates:
  assumes "\<forall>l. masks_exactly (g3_sdpa m l)" and "0 < g3_sliding_window m" and "paged_idle (g3_layers m) d s"
    and "\<forall>q \<in> set requests. \<forall>h \<in> set (live s). er_cache_handle q = Some h \<longrightarrow>
      holds (keyg_row m d) (valueg_row m d) s h (ctx h)"
    and "execute_batch (gemma3_model m faults) argmax fault requests s = (res, s')"
  shows "paged_idle (g3_layers m) d s' \<and> live s' = live s \<and>
    (case res of
       Inl e \<Rightarrow> paged_view s' = paged_view s
     | Inr st \<Rightarrow> length (st_results st) = length requests \<and>
         (\<exists>executed \<subseteq> {..<length requests}.
            (\<forall>i \<in> executed. \<exists>h. er_cache_handle (requests ! i) = Some h \<and> h \<in> set (live s) \<and>
               st_results st ! i = step_done (requests ! i) (length (ctx h @ er_token_ids (requests ! i)))
                 (argmax (refg_logits m d (ctx h @ er_token_ids (requests ! i)))) \<and>
               holds (keyg_row m d) (valueg_row m d) s' h (ctx h @ er_token_ids (requests ! i))) \<and>
            (\<forall>i < length requests. i \<notin> executed \<longrightarrow>
               sr_request_id (st_results st ! i) = er_request_id (requests ! i) \<and> sr_error_code (st_results st ! i) \<noteq> None) \<and>
            (\<forall>h. (\<forall>i \<in> executed. er_cache_handle (requests ! i) \<noteq> Some h) \<longrightarrow> paged_view s' h = paged_view s h)))"
  using forward_batch_generates [OF gemma3_forward [OF assms(1)] assms(3-5), unfolded gemma3_next_def] assms(2)
  by (simp add: windows_positive_def)

text \<open>One local layer with a window of two, over the naturals.\<close>

definition toy_gemma :: "nat gemma3" where
  "toy_gemma = \<lparr>g3_heads = 1, g3_kv_heads = 1, g3_head_dim = 1, g3_layers = 1, g3_sliding_window = 2, g3_pattern = 2, g3_layer_types = [],
     g3_dtype = Float16, g3_embed = (\<lambda>t. nat t), g3_embed_scale = (\<lambda>x. 2 * x), g3_input_norm = (\<lambda>l x. x), g3_q_proj = (\<lambda>l x. x),
     g3_k_proj = (\<lambda>l x. 2 * x), g3_v_proj = (\<lambda>l x. 3 * x), g3_o_proj = (\<lambda>l x. x), g3_q_norm = (\<lambda>l x. x mod 5), g3_k_norm = (\<lambda>l x. x mod 7),
     g3_rope = (\<lambda>l p x. p + x), g3_sdpa = (\<lambda>l. masked_sdpa (\<lambda>q ks vs. q + sum_list ks + sum_list vs) (\<lambda>q ks vs. 0)),
     g3_cast = (\<lambda>_ x. x), g3_zero = 0, g3_clip_residual = (\<lambda>x y. min 100 (x + y)), g3_post_attention_norm = (\<lambda>l x. x),
     g3_pre_feedforward_norm = (\<lambda>l x. x), g3_post_feedforward_norm = (\<lambda>l x. x mod 11), g3_gate_proj = (\<lambda>l x. x), g3_up_proj = (\<lambda>l x. x),
     g3_down_proj = (\<lambda>l x. x), g3_gelu = (\<lambda>x. x), g3_mul = (+), g3_norm = (\<lambda>x. x), g3_lm_head = (\<lambda>x. x)\<rparr>"

definition toy_prompt :: execution_request where
  "toy_prompt = \<lparr>er_request_id = ''r'', er_phase = Prefill, er_token_ids = [3, 4, 5], er_positions = [0, 1, 2],
     er_cache_handle = Some sample_handle, er_sampling = \<lparr>temperature = 0, top_p = 1\<rparr>\<rparr>"

lemma toy_gemma_run:
  "fst (execute_batch (gemma3_model toy_gemma (\<lambda>_. None)) int None [toy_prompt] sample_pool) =
     Inr \<lparr>st_forward_mode = PREFILL, st_results = [step_done toy_prompt 3 77], st_physical_batch_size = 1, st_model_forward_count = 1\<rparr>"
  by code_simp

theorem gemma3_batch_generates_witness:
  "\<exists>s'. execute_batch (gemma3_model toy_gemma (\<lambda>_. None)) int None [toy_prompt] sample_pool =
      (Inr \<lparr>st_forward_mode = PREFILL, st_results = [step_done toy_prompt 3 77], st_physical_batch_size = 1, st_model_forward_count = 1\<rparr>, s') \<and>
    holds (keyg_row toy_gemma Float16) (valueg_row toy_gemma Float16) s' sample_handle [3, 4, 5] \<and>
    int (refg_logits toy_gemma Float16 [3, 4, 5]) = 77"
proof -
  obtain s' where run: "execute_batch (gemma3_model toy_gemma (\<lambda>_. None)) int None [toy_prompt] sample_pool =
      (Inr \<lparr>st_forward_mode = PREFILL, st_results = [step_done toy_prompt 3 77], st_physical_batch_size = 1, st_model_forward_count = 1\<rparr>, s')"
    using toy_gemma_run by (metis prod.collapse)
  have sdpa: "\<forall>l. masks_exactly (g3_sdpa toy_gemma l)" by (simp add: toy_gemma_def masked_sdpa_exact)
  have window: "0 < g3_sliding_window toy_gemma" by (simp add: toy_gemma_def)
  have idle: "paged_idle (g3_layers toy_gemma) Float16 sample_pool"
    using sample_pool_ok by (simp add: paged_idle_def toy_gemma_def sample_pool_state)
  have ctx: "\<forall>q \<in> set [toy_prompt]. \<forall>h \<in> set (live sample_pool). er_cache_handle q = Some h \<longrightarrow>
      holds (keyg_row toy_gemma Float16) (valueg_row toy_gemma Float16) sample_pool h []"
    by (simp add: toy_prompt_def holds_def sample_pool_state rows_def)
  note T = gemma3_batch_generates [OF sdpa window idle ctx run, simplified, THEN conjunct2, THEN conjunct2]
  then have "\<exists>h. er_cache_handle toy_prompt = Some h \<and>
      step_done toy_prompt 3 77 = step_done toy_prompt (length (er_token_ids toy_prompt))
        (int (refg_logits toy_gemma Float16 (er_token_ids toy_prompt))) \<and>
      holds (keyg_row toy_gemma Float16) (valueg_row toy_gemma Float16) s' h (er_token_ids toy_prompt)"
    by (fastforce simp: step_done_def)
  then show ?thesis using run by (auto simp: toy_prompt_def step_done_def)
qed

end
