(* ===== verification/Spec2Isabelle.thy ===== *)
theory Spec2Isabelle
  imports PrefixProps IpcProps WorkerFindings SchedPolicy BatchServe Config Qwen3 VlmServe DirectProps MainProps HybridProps Gemma3Props
begin

text \<open>
  A verification development for the Python half of the MLX server runtime: the worker process
  that a gateway starts, configures through environment variables and speaks to over a socket, one
  JSON document per line (\<^verbatim>\<open>src/python/mlx_worker\<close>).  Every path below is relative to that directory.

  \<^bold>\<open>The program.\<close>  The worker has two generations, and both are modelled.

  The native worker (\<^verbatim>\<open>native_mlx/\<close>) is a stack of layers.  \<^verbatim>\<open>worker.py\<close> reads lines from the
  socket, decodes them with \<^verbatim>\<open>ipc.py\<close> and calls \<^verbatim>\<open>runtime.py\<close>, which turns a chat into tokens,
  keeps the state of each request, and turns the scheduler's events into deltas and one terminal
  event.  \<^verbatim>\<open>scheduler.py\<close> keeps a waiting and a running queue, and in each tick selects work by a
  policy, has it executed and applies the results.  It owns no tensors: \<^verbatim>\<open>cache_coordinator.py\<close>
  creates, forks, publishes and releases the KV caches for it, asking a prefix index of
  \<^verbatim>\<open>prefix_cache.py\<close> what may be reused, and \<^verbatim>\<open>executor.py\<close> runs a batch: a reservation on the
  paged pool of \<^verbatim>\<open>cache.py\<close>, the forward pass of \<^verbatim>\<open>models/\<close> through the adapter of
  \<^verbatim>\<open>attention.py\<close>, then a commit or an abort.

  The first-generation worker (\<^verbatim>\<open>main.py\<close>) either serves one request at a time with the engines
  directly, or runs a loop with a reader thread over two continuous schedulers on the batch
  generators of \<^verbatim>\<open>mlx_lm\<close> and \<^verbatim>\<open>mlx_vlm\<close>: \<^verbatim>\<open>batching.py\<close> for text and \<^verbatim>\<open>vlm_engine.py\<close> for
  requests with images, each with a prompt cache store under one memory budget.
  \<^verbatim>\<open>config.py\<close> reads the configuration of both.

  \<^bold>\<open>How it is modelled.\<close>  A function is an executable HOL function of the same name; a class is a
  record and its methods are functions that take and return the record.  Exceptions are the
  datatype \<open>exn\<close>: \<open>exn + 'a\<close> for a call that may raise, \<open>(exn + 'a) \<times> 's\<close> for one that may have
  changed its state before it raises.  Dictionaries are association lists in insertion order,
  mutable objects that are shared live in a store under their address.  A loop that may not end is a
  \<open>partial_function\<close> whose \<open>None\<close> is not returning.  MLX arrays are functions from a slot or a position to a
  row; kernels, trained weights, tokenizers, batch generators, hashes, clocks that order entries, uuids and the file system
  are parameters.  Python integers are \<open>int\<close> where the source lets them be negative and \<open>nat\<close>
  where its own checks exclude that.  Floats are the literals that denote them.  Characters are the
  code points below 256, except in theory StopText, which holds for any characters.

  \<^bold>\<open>The native worker, bottom up.\<close>
  \<^item> Prelude, Text: exceptions, dictionaries, the lemma collections; decimal numbers, JSON strings, ranges.
  \<^item> Interfaces (\<^verbatim>\<open>native_mlx/interfaces.py\<close>): the records exchanged between the layers and the
    record of operations that stands for the protocol \<^verbatim>\<open>KVCacheBackend\<close>.
  \<^item> PagedKV (\<^verbatim>\<open>native_mlx/cache.py\<close>, \<^verbatim>\<open>PagedKVCacheBackend\<close> and \<^verbatim>\<open>PagedBatchReservation\<close>): every
    operation.  PagedInv states the invariant (reference counts, free pages, block tables, privacy
    of outstanding writes), PagedCommit and PagedRun follow one reservation to its end,
    PagedSystem is the pool as a transition system (inductive), PagedProps has its
    properties against the abstract pool \<open>kv_abs\<close>: which handle holds which rows.
  \<^item> Dense, DenseProps (\<^verbatim>\<open>DenseKVCacheBackend\<close>, the diagnostics reference, and its attention context): the paged
    pool and attention are shown equal to it.  Hybrid, HybridProps (\<^verbatim>\<open>HybridPagedKVCacheBackend\<close>): the
    pool with the convolution states of LFM2.
  \<^item> KVOps: locales \<open>kv_pool\<close> and \<open>kv_contents\<close>, the contract of a KV backend for its clients,
    interpreted on the paged pool.
  \<^item> BlockIndex and RadixIndex (\<^verbatim>\<open>native_mlx/prefix_cache.py\<close>): the three prefix indexes.
    RadixTree proves the shape of the tree.  PrefixContract is the contract of an index (locale
    \<open>prefix_index\<close> on top of \<open>kv_contents\<close>), interpreted in BlockProps and RadixProps.
  \<^item> Coordinator (\<^verbatim>\<open>native_mlx/cache_coordinator.py\<close>), with its lemmas in locale
    \<open>cache_coordinator\<close>, interpreted on all three indexes; PrefixSamples and PrefixProps have
    instances and properties.
  \<^item> Attention, Executor, Forward (\<^verbatim>\<open>native_mlx/attention.py\<close>, \<^verbatim>\<open>executor.py\<close>): batches on the
    pool; locale \<open>forward_model\<close> is what the executor relies on in an architecture, ExecProps
    what a batch does.  Qwen2, Qwen3 and Gemma3 (\<^verbatim>\<open>models/qwen2.py\<close>, \<^verbatim>\<open>qwen3.py\<close>, \<^verbatim>\<open>gemma3.py\<close>) are the
    forward passes, interpreted as \<open>forward_model\<close> in Qwen2Props, Qwen3 and Gemma3Props; ModelProps composes model, executor and pool.
  \<^item> Scheduler (\<^verbatim>\<open>native_mlx/scheduler.py\<close>): policies and every operation.  SchedInv, SchedStep and
    SchedOps prove its invariant in serial mode inside locale \<open>serving\<close> (what it relies on in
    coordinator and executor); SchedServe interprets it on the composed backend of theory Serving;
    SchedProps and SchedPolicy have the properties.
  \<^item> StopText and Runtime (\<^verbatim>\<open>native_mlx/runtime.py\<close>), RuntimeProps; Worker (\<^verbatim>\<open>native_mlx/worker.py\<close>),
    WorkerProps, WorkerFindings.
  \<^item> Json, JsonProps, Ipc, IpcProps (\<^verbatim>\<open>ipc.py\<close>): every codec, over a model of Python's \<^verbatim>\<open>json\<close>.
  \<^item> Config (\<^verbatim>\<open>config.py\<close>, \<^verbatim>\<open>native_backend_ids.py\<close>).

  \<^bold>\<open>The first-generation worker.\<close>
  \<^item> PromptCache, PromptCacheProps (\<^verbatim>\<open>batching.py\<close>, \<^verbatim>\<open>PromptCacheStore\<close> and \<^verbatim>\<open>CacheBudgetManager\<close>).
  \<^item> Batching (\<^verbatim>\<open>ContinuousBatchScheduler\<close> and the limits check of \<^verbatim>\<open>engine.py\<close>), BatchComplete
    (\<^verbatim>\<open>MlxBatchCompletionBackend\<close>), BatchProps, BatchServe.
  \<^item> Vlm, VlmProps, VlmServe (\<^verbatim>\<open>vlm_engine.py\<close>): image sources, preparation with its cancellation points,
    the vision feature cache, \<^verbatim>\<open>VlmContinuousBatchScheduler\<close>.
  \<^item> Direct, DirectProps (\<^verbatim>\<open>main\<close> in \<^verbatim>\<open>main.py\<close>, the loop without batching, with the callback that reads the
    socket ahead); MainLoop, MainProps (\<^verbatim>\<open>_run_continuous_batch_loop\<close>: reader thread, dispatch, turns, end).

  \<^bold>\<open>What is shown.\<close>  For the native worker: whatever clients submit, cancel and finish, the
  tokens reported for a request are a beginning of the greedy continuation of its prompt by the model
  without any cache -- through policies, chunked prefill, prefix reuse, copy-on-write pages, aborts and
  device faults -- no cache is lost, every due request is served in the next tick, and a client sees
  deltas and then one terminal event whose text is what was streamed.  The layers below have their own
  properties: the pool's invariant in every reachable state, equality with the dense reference, atomic failure, sound reuse without trust
  in hashes, bounded eviction, incremental stop detection against a reference, framing that does not
  depend on packets, frames that decode to what was encoded.  For the first generation: one answer per
  submission and per line in any interleaving of reader and loop, turns of the two schedulers, sound
  and exactly counted prompt caches, which images may be read, typed configurations.  The theorems
  that state where the code departs from its intention stand beside them and say so.

  \<^bold>\<open>Bounds and termination.\<close>  Fuel is passed where a loop's measure is a part of the state: a block eviction
  and a radix eviction get the number of entries (each round drops one), a descent and a pruning step the
  length of the query or prefix (each round consumes a token or climbs a level), \<open>loads\<close> twice the length of its
  input plus two (each call consumes a character or descends once).  The lemmas on these
  operations show that this is enough.  \<open>read_round\<close>, \<open>worker_loop\<close>, \<open>enforce_loop\<close> and \<open>lines_of\<close> terminate by a
  measure.  \<open>shrink\<close> (a negative limit), \<open>poll\<close> (a generator that never finishes), \<open>run_engine\<close> and \<open>direct_serve\<close>
  (an engine that never returns) may not end and are partial functions; where the code
  does return, the properties say so (\<open>= Some \<dots>\<close>).

  \<^bold>\<open>Not modelled.\<close>  Startup (bootstrap messages, architecture registry, weight mapping, model construction), clocks, timings,
  peak memory, profilers and diagnostics, signals; the LFM2 architecture; the text engine's direct calls of \<^verbatim>\<open>mlx_lm\<close>; the evictions of the budget
  manager inside theories Vlm and MainLoop (the manager itself is modelled in PromptCache).  The overlapped
  tick of the native scheduler is modelled, but the theorems of SchedProps are about serial mode, the default.  Outside the worker:
  the benchmark command and scripts, and the Rust gateway.
\<close>

end
